(* ===== verification/Prelude.thy ===== *)
theory Prelude
  imports Main "HOL-Library.Word"
begin

text \<open>
  Shared material of the development: names for the machine integers of the C code, byte-addressed
  memory with little-endian access, arithmetic lemmas on words that wrap, and lemmas on lists, plus
  the named collection that the component theories extend
  (\<open>codec_simps\<close> for the wire formats).
\<close>

unbundle bit_operations_syntax

section \<open>Machine integers\<close>

type_synonym u4 = "4 word"
type_synonym u8 = "8 word"
type_synonym u16 = "16 word"
type_synonym u32 = "32 word"
type_synonym u64 = "64 word"

type_synonym memory = "u64 \<Rightarrow> u8"

abbreviation UINT64_MAX :: u64 where
  "UINT64_MAX \<equiv> 0xFFFFFFFFFFFFFFFF"

abbreviation UINT32_MAX :: u64 where
  "UINT32_MAX \<equiv> 0xFFFFFFFF"

text \<open>The number of bytes in a cell, minus its header.\<close>

definition CELL_PAYLOAD_SIZE :: nat where "CELL_PAYLOAD_SIZE = 509"

text \<open>What an entry point of a plugin returns to have the host do what it does without plugins.\<close>

definition PLUGIN_RUN_DEFAULT :: int where "PLUGIN_RUN_DEFAULT = -2147483648"

named_theorems codec_simps

text \<open>The conversions C performs implicitly between the integer types.\<close>

definition sext32 :: "u32 \<Rightarrow> u64" where
  "sext32 x = scast x"

definition sext16 :: "u16 \<Rightarrow> u64" where
  "sext16 x = scast x"

definition zext32 :: "u32 \<Rightarrow> u64" where
  "zext32 x = ucast x"

lemma unat_zext32 [simp]: "unat (zext32 x) = unat x"
  by (simp add: zext32_def unsigned_ucast_eq take_bit_nat_eq_self less_trans [OF unsigned_less])

lemma unat_and_mask32: "unat (x AND UINT32_MAX) = unat (x :: u64) mod 2 ^ 32"
proof -
  have "x AND UINT32_MAX = take_bit 32 x"
    by (simp add: take_bit_eq_mask mask_eq_exp_minus_1)
  then show ?thesis
    by (simp only: unsigned_take_bit_eq flip: take_bit_eq_mod)
qed

lemma unat_and_mask32_less [simp]: "unat ((x :: u64) AND UINT32_MAX) < 2 ^ 32"
  by (subst unat_and_mask32) simp

lemma zext32_of_u64: "zext32 (ucast (x :: u64)) = x AND UINT32_MAX"
proof (rule word_unat_eq_iff [THEN iffD2])
  have "unat (ucast x :: u32) = unat x mod 2 ^ 32"
    by (simp add: unsigned_ucast_eq take_bit_eq_mod)
  then show "unat (zext32 (ucast x)) = unat (x AND UINT32_MAX)"
    by (simp only: unat_zext32 unat_and_mask32)
qed

text \<open>A 16-bit program counter plus a signed displacement, when the sum is in range.\<close>

lemma unat_pc_suc: "unat (p :: u16) + 1 < 2 ^ 16 \<Longrightarrow> unat (p + 1) = unat p + 1"
  by (simp add: unat_word_ariths)

lemma unat_pc_offset:
  fixes p off :: u16
  assumes "0 \<le> int (unat p) + 1 + sint off" and "int (unat p) + 1 + sint off < 2 ^ 16"
  shows "int (unat (p + 1 + off)) = int (unat p) + 1 + sint off"
proof -
  have "p + 1 + off = of_int (uint p + 1 + sint off)"
    by simp
  then have "uint (p + 1 + off) = (uint p + 1 + sint off) mod 2 ^ 16"
    by (simp only: uint_word_of_int_eq take_bit_eq_mod) simp
  then show ?thesis
    using assms by (simp add: mod_pos_pos_trivial)
qed

section \<open>Byte-addressed memory\<close>

text \<open>An \<open>n\<close>-byte little-endian load, as a dereference of a pointer of that width on x86-64.\<close>

fun load_le :: "memory \<Rightarrow> u64 \<Rightarrow> nat \<Rightarrow> u64" where
  "load_le m a 0 = 0"
| "load_le m a (Suc n) = ucast (m a) + 256 * load_le m (a + 1) n"

fun store_le :: "memory \<Rightarrow> u64 \<Rightarrow> nat \<Rightarrow> u64 \<Rightarrow> memory" where
  "store_le m a 0 v = m"
| "store_le m a (Suc n) v = store_le (m(a := ucast v)) (a + 1) n (drop_bit 8 v)"

text \<open>The addresses an access of \<open>n\<close> bytes at \<open>a\<close> touches.\<close>

definition addrs :: "u64 \<Rightarrow> nat \<Rightarrow> u64 set" where
  "addrs a n = {a + of_nat i | i. i < n}"

lemma addrs_0 [simp]: "addrs a 0 = {}"
  by (simp add: addrs_def)

lemma addrs_Suc: "addrs a (Suc n) = insert a (addrs (a + 1) n)"
proof (rule set_eqI)
  fix x
  have "(\<exists>i < Suc n. x = a + of_nat i) \<longleftrightarrow> x = a \<or> (\<exists>i < n. x = a + 1 + of_nat i)"
    by (auto simp: less_Suc_eq_0_disj algebra_simps)
  then show "x \<in> addrs a (Suc n) \<longleftrightarrow> x \<in> insert a (addrs (a + 1) n)"
    by (auto simp: addrs_def)
qed

lemma store_le_frame: "x \<notin> addrs a n \<Longrightarrow> store_le m a n v x = m x"
  by (induction n arbitrary: m a v) (auto simp: addrs_Suc)

lemma load_le_cong: "(\<And>x. x \<in> addrs a n \<Longrightarrow> m x = m' x) \<Longrightarrow> load_le m a n = load_le m' a n"
  by (induction n arbitrary: a) (auto simp: addrs_Suc)

text \<open>An access range that does not wrap is the interval it looks like.\<close>

lemma unat_add_no_wrap: "unat (a :: u64) + n < 2 ^ 64 \<Longrightarrow> unat (a + of_nat n) = unat a + n"
  by (simp add: unat_word_ariths unat_of_nat)

lemma addrs_interval:
  assumes "unat a + n \<le> 2 ^ 64"
  shows "x \<in> addrs a n \<longleftrightarrow> unat a \<le> unat x \<and> unat x < unat a + n"
proof
  assume "x \<in> addrs a n"
  then obtain i where "i < n" "x = a + of_nat i"
    by (auto simp: addrs_def)
  moreover from this assms have "unat (a + of_nat i) = unat a + i"
    by (intro unat_add_no_wrap) simp
  ultimately show "unat a \<le> unat x \<and> unat x < unat a + n"
    by simp
next
  assume range: "unat a \<le> unat x \<and> unat x < unat a + n"
  then have "x = a + of_nat (unat x - unat a)"
    by (simp add: of_nat_diff)
  with range show "x \<in> addrs a n"
    by (auto simp: addrs_def intro!: exI [of _ "unat x - unat a"])
qed

section \<open>Concatenations\<close>

text \<open>Where the \<open>i\<close>-th piece of a concatenation starts.\<close>

definition start_of :: "(nat \<Rightarrow> 'a list) \<Rightarrow> nat \<Rightarrow> nat" where
  "start_of f i = sum_list (map (\<lambda>k. length (f k)) [0..<i])"

lemma start_of_0 [simp]: "start_of f 0 = 0"
  by (simp add: start_of_def)

lemma start_of_Suc [simp]: "start_of f (Suc i) = start_of f i + length (f i)"
  by (simp add: start_of_def)

lemma length_concat_upt: "length (concat (map f [0..<n])) = start_of f n"
  by (simp add: start_of_def length_concat comp_def)

lemma start_of_mono: "i \<le> j \<Longrightarrow> start_of f i \<le> start_of f j"
  by (induction j) (auto simp: le_Suc_eq)

lemma concat_upt_nth:
  assumes "i < n" and "j < length (f i)"
  shows "concat (map f [0..<n]) ! (start_of f i + j) = f i ! j"
proof -
  have "[0..<n] = [0..<i] @ i # [Suc i..<n]"
    using assms(1) by (metis Suc_leI le_add_diff_inverse less_imp_le upt_add_eq_append upt_conv_Cons zero_le)
  then have "concat (map f [0..<n]) =
      concat (map f [0..<i]) @ f i @ concat (map f [Suc i..<n])"
    by simp
  then show ?thesis
    using assms(2) by (simp add: nth_append length_concat_upt)
qed

lemma start_of_in_range:
  assumes "i < n" and "j < length (f i)"
  shows "start_of f i + j < start_of f n"
proof -
  have "start_of f i + j < start_of f (Suc i)"
    using assms(2) by simp
  also have "\<dots> \<le> start_of f n"
    using assms(1) by (intro start_of_mono) simp
  finally show ?thesis .
qed

section \<open>Numbers in text\<close>

text \<open>A number as \<open>printf\<close> writes it.\<close>

fun decimal :: "nat \<Rightarrow> u8 list" where
  "decimal n = (if n < 10 then [48 + of_nat n] else decimal (n div 10) @ [48 + of_nat (n mod 10)])"

declare decimal.simps [simp del]

section \<open>State machines\<close>

text \<open>A step relation with an invariant: whatever the steps keep holds in every state they reach.\<close>

locale step_invariant =
  fixes step :: "'s \<Rightarrow> 's \<Rightarrow> bool"
    and inv :: "'s \<Rightarrow> bool"
  assumes inv_step: "step s t \<Longrightarrow> inv s \<Longrightarrow> inv t"
begin

lemma inv_reachable: "step\<^sup>*\<^sup>* s t \<Longrightarrow> inv s \<Longrightarrow> inv t"
  by (induction rule: rtranclp_induct) (simp_all add: inv_step)

lemma safe_reachable:
  assumes "step\<^sup>*\<^sup>* s t" and "inv s" and "\<And>u. inv u \<Longrightarrow> \<not> bad u"
  shows "\<not> bad t"
  using assms inv_reachable by blast

end

end
