(* ===== verification/Ebpf.thy ===== *)
theory Ebpf
  imports Prelude
begin

text \<open>
  The eBPF instruction format of \<^verbatim>\<open>src/ubpf/vm/ebpf.h\<close>: the record \<open>ebpf_inst\<close>, the opcode
  bytes as the header's macros compose them (class, source mode, operation), and the decoding of an
  opcode byte into the cases that the \<open>switch\<close> statements of
  \<^verbatim>\<open>src/ubpf/vm/ubpf_vm.c\<close> distinguish.
\<close>

section \<open>Instructions\<close>

record ebpf_inst =
  opcode :: u8
  dst :: u4
  src :: u4
  offset :: u16   \<comment> \<open>an \<open>int16_t\<close>: read with \<^const>\<open>sint\<close>\<close>
  imm :: u32      \<comment> \<open>an \<open>int32_t\<close>: read with \<^const>\<open>sint\<close>\<close>

section \<open>Opcodes\<close>

datatype alu_op = ADD | SUB | MUL | DIV | OR_OP | AND_OP | LSH | RSH | NEG | MOD | XOR_OP | MOV | ARSH

datatype jmp_op = JEQ | JGT | JGE | JSET | JNE | JSGT | JSGE | JLT | JLE | JSLT | JSLE

datatype src_mode = IMM | REG

datatype access_size = SZ_W | SZ_H | SZ_B | SZ_DW

datatype ebpf_op =
    ALU32 alu_op src_mode
  | ALU64 alu_op src_mode
  | EBPF_LE
  | EBPF_BE
  | LDX access_size
  | ST access_size
  | STX access_size
  | LDDW
  | JA
  | JMP jmp_op src_mode
  | CALL
  | EXIT

definition EBPF_CLS_LD :: u8 where "EBPF_CLS_LD = 0x00"
definition EBPF_CLS_LDX :: u8 where "EBPF_CLS_LDX = 0x01"
definition EBPF_CLS_ST :: u8 where "EBPF_CLS_ST = 0x02"
definition EBPF_CLS_STX :: u8 where "EBPF_CLS_STX = 0x03"
definition EBPF_CLS_ALU :: u8 where "EBPF_CLS_ALU = 0x04"
definition EBPF_CLS_JMP :: u8 where "EBPF_CLS_JMP = 0x05"
definition EBPF_CLS_ALU64 :: u8 where "EBPF_CLS_ALU64 = 0x07"
definition EBPF_MODE_IMM :: u8 where "EBPF_MODE_IMM = 0x00"
definition EBPF_MODE_MEM :: u8 where "EBPF_MODE_MEM = 0x60"

lemmas ebpf_class_defs = EBPF_CLS_LD_def EBPF_CLS_LDX_def EBPF_CLS_ST_def EBPF_CLS_STX_def
  EBPF_CLS_ALU_def EBPF_CLS_JMP_def EBPF_CLS_ALU64_def EBPF_MODE_IMM_def EBPF_MODE_MEM_def

primrec src_bits :: "src_mode \<Rightarrow> u8" where
  "src_bits IMM = 0x00"
| "src_bits REG = 0x08"

primrec size_bits :: "access_size \<Rightarrow> u8" where
  "size_bits SZ_W = 0x00"
| "size_bits SZ_H = 0x08"
| "size_bits SZ_B = 0x10"
| "size_bits SZ_DW = 0x18"

primrec size_bytes :: "access_size \<Rightarrow> nat" where
  "size_bytes SZ_W = 4"
| "size_bytes SZ_H = 2"
| "size_bytes SZ_B = 1"
| "size_bytes SZ_DW = 8"

primrec alu_bits :: "alu_op \<Rightarrow> u8" where
  "alu_bits ADD = 0x00"
| "alu_bits SUB = 0x10"
| "alu_bits MUL = 0x20"
| "alu_bits DIV = 0x30"
| "alu_bits OR_OP = 0x40"
| "alu_bits AND_OP = 0x50"
| "alu_bits LSH = 0x60"
| "alu_bits RSH = 0x70"
| "alu_bits NEG = 0x80"
| "alu_bits MOD = 0x90"
| "alu_bits XOR_OP = 0xa0"
| "alu_bits MOV = 0xb0"
| "alu_bits ARSH = 0xc0"

primrec jmp_bits :: "jmp_op \<Rightarrow> u8" where
  "jmp_bits JEQ = 0x10"
| "jmp_bits JGT = 0x20"
| "jmp_bits JGE = 0x30"
| "jmp_bits JSET = 0x40"
| "jmp_bits JNE = 0x50"
| "jmp_bits JSGT = 0x60"
| "jmp_bits JSGE = 0x70"
| "jmp_bits JLT = 0xa0"
| "jmp_bits JLE = 0xb0"
| "jmp_bits JSLT = 0xc0"
| "jmp_bits JSLE = 0xd0"

text \<open>The byte of each \<^verbatim>\<open>EBPF_OP_*\<close> macro.\<close>

fun op_byte :: "ebpf_op \<Rightarrow> u8" where
  "op_byte (ALU32 a s) = EBPF_CLS_ALU OR src_bits s OR alu_bits a"
| "op_byte (ALU64 a s) = EBPF_CLS_ALU64 OR src_bits s OR alu_bits a"
| "op_byte EBPF_LE = EBPF_CLS_ALU OR src_bits IMM OR 0xd0"
| "op_byte EBPF_BE = EBPF_CLS_ALU OR src_bits REG OR 0xd0"
| "op_byte (LDX z) = EBPF_CLS_LDX OR EBPF_MODE_MEM OR size_bits z"
| "op_byte (ST z) = EBPF_CLS_ST OR EBPF_MODE_MEM OR size_bits z"
| "op_byte (STX z) = EBPF_CLS_STX OR EBPF_MODE_MEM OR size_bits z"
| "op_byte LDDW = EBPF_CLS_LD OR EBPF_MODE_IMM OR size_bits SZ_DW"
| "op_byte JA = EBPF_CLS_JMP OR 0x00"
| "op_byte (JMP j s) = EBPF_CLS_JMP OR src_bits s OR jmp_bits j"
| "op_byte CALL = EBPF_CLS_JMP OR 0x80"
| "op_byte EXIT = EBPF_CLS_JMP OR 0x90"

text \<open>
  The operations that have a macro. \<^verbatim>\<open>EBPF_OP_NEG\<close> and \<^verbatim>\<open>EBPF_OP_NEG64\<close>
  exist in the immediate form only.
\<close>

fun op_defined :: "ebpf_op \<Rightarrow> bool" where
  "op_defined (ALU32 a s) = (a = NEG \<longrightarrow> s = IMM)"
| "op_defined (ALU64 a s) = (a = NEG \<longrightarrow> s = IMM)"
| "op_defined _ = True"

definition alu_ops :: "alu_op list" where
  "alu_ops = [ADD, SUB, MUL, DIV, OR_OP, AND_OP, LSH, RSH, NEG, MOD, XOR_OP, MOV, ARSH]"

definition jmp_ops :: "jmp_op list" where
  "jmp_ops = [JEQ, JGT, JGE, JSET, JNE, JSGT, JSGE, JLT, JLE, JSLT, JSLE]"

definition all_ops :: "ebpf_op list" where
  "all_ops = filter op_defined (
     [ALU32 a s. a \<leftarrow> alu_ops, s \<leftarrow> [IMM, REG]] @ [EBPF_LE, EBPF_BE] @
     [ALU64 a s. a \<leftarrow> alu_ops, s \<leftarrow> [IMM, REG]] @
     [LDX z. z \<leftarrow> [SZ_W, SZ_H, SZ_B, SZ_DW]] @ [ST z. z \<leftarrow> [SZ_W, SZ_H, SZ_B, SZ_DW]] @
     [STX z. z \<leftarrow> [SZ_W, SZ_H, SZ_B, SZ_DW]] @ [LDDW, JA] @
     [JMP j s. j \<leftarrow> jmp_ops, s \<leftarrow> [IMM, REG]] @ [CALL, EXIT])"

text \<open>Which \<open>case\<close> label of the \<open>switch\<close> statements a byte selects; \<^const>\<open>None\<close> is the default.\<close>

definition decode_op :: "u8 \<Rightarrow> ebpf_op option" where
  "decode_op b = map_of (map (\<lambda>p. (op_byte p, p)) all_ops) b"

lemma set_alu_ops [simp]: "set alu_ops = UNIV"
proof -
  have "a \<in> set alu_ops" for a
    by (cases a) (simp_all add: alu_ops_def)
  then show ?thesis by blast
qed

lemma set_jmp_ops [simp]: "set jmp_ops = UNIV"
proof -
  have "j \<in> set jmp_ops" for j
    by (cases j) (simp_all add: jmp_ops_def)
  then show ?thesis by blast
qed

lemma set_all_ops: "p \<in> set all_ops \<longleftrightarrow> op_defined p"
proof -
  have mode: "s = IMM \<or> s = REG" for s by (cases s) auto
  have size: "z = SZ_W \<or> z = SZ_H \<or> z = SZ_B \<or> z = SZ_DW" for z by (cases z) auto
  show ?thesis
    using mode size unfolding all_ops_def by (cases p) auto
qed

text \<open>The macros give distinct bytes, so decoding inverts them.\<close>

lemma distinct_op_bytes: "distinct (map op_byte all_ops)"
  by (simp add: all_ops_def alu_ops_def jmp_ops_def ebpf_class_defs)

lemma decode_op_byte [simp]: "op_defined p \<Longrightarrow> decode_op (op_byte p) = Some p"
  unfolding decode_op_def
  by (rule map_of_is_SomeI) (auto simp: distinct_op_bytes comp_def set_all_ops)

lemma decode_op_SomeD: "decode_op b = Some p \<Longrightarrow> op_defined p \<and> b = op_byte p"
  unfolding decode_op_def by (drule map_of_SomeD) (auto simp: set_all_ops)

lemma decode_op_iff: "decode_op b = Some p \<longleftrightarrow> op_defined p \<and> b = op_byte p"
  using decode_op_SomeD by auto

lemma decode_op_0 [simp]: "decode_op 0 = None"
proof -
  have "\<forall>p \<in> set all_ops. op_byte p \<noteq> 0"
    by (simp add: all_ops_def alu_ops_def jmp_ops_def ebpf_class_defs)
  then show ?thesis
    by (metis decode_op_SomeD not_Some_eq set_all_ops)
qed

lemma op_byte_nonzero [simp]: "op_defined p \<Longrightarrow> op_byte p \<noteq> 0"
  by (metis decode_op_0 decode_op_byte option.distinct(1))

declare op_byte.simps [simp del]

definition is_jump :: "ebpf_op \<Rightarrow> bool" where
  "is_jump p = (case p of JA \<Rightarrow> True | JMP _ _ \<Rightarrow> True | _ \<Rightarrow> False)"

definition is_load :: "ebpf_op \<Rightarrow> bool" where
  "is_load p = (case p of LDX _ \<Rightarrow> True | _ \<Rightarrow> False)"

definition is_store :: "ebpf_op \<Rightarrow> bool" where
  "is_store p = (case p of ST _ \<Rightarrow> True | STX _ \<Rightarrow> True | _ \<Rightarrow> False)"

section \<open>Properties\<close>

text \<open>
  Decoding an opcode byte inverts the macros: a byte selects an operation exactly when it is the
  byte of that operation's macro, so no two macros share a byte.
\<close>

lemma opcode_decoding: "decode_op b = Some p \<longleftrightarrow> op_defined p \<and> b = op_byte p"
  by (rule decode_op_iff)

end
