(* ===== verification/Ubpf_Exec.thy ===== *)
theory Ubpf_Exec
  imports Ebpf
begin

text \<open>
  The eBPF interpreter of \<^verbatim>\<open>src/ubpf/vm/ubpf_vm.c\<close> (\<open>ubpf_exec_with_arg\<close> and
  \<open>bounds_check\<close>). The program counter is the code's \<open>uint16_t\<close>, the sixteen registers are indexed
  by the 4-bit fields of an instruction, memory is byte addressed and little endian (x86-64).
  What C leaves undefined is a \<open>trap\<close> outcome of its own: a shift by at least the operand's width,
  a division whose 32-bit divisor is zero, a call through an empty slot, a fetch past the program.
\<close>

section \<open>State\<close>

type_synonym ext_func = "u64 \<Rightarrow> u64 \<Rightarrow> u64 \<Rightarrow> u64 \<Rightarrow> u64 \<Rightarrow> memory \<Rightarrow> u64 \<times> memory"

definition MAX_EXT_FUNCS :: nat where "MAX_EXT_FUNCS = 128"

definition STACK_SIZE :: nat where "STACK_SIZE = 2048"

text \<open>What one run of the interpreter reads and never writes.\<close>

record vm_env =
  insts :: "ebpf_inst list"
  ext_funcs :: "ext_func option list"
  arg_mem :: u64
  arg_mem_len :: u64
  stack :: u64

record vm_state =
  pc :: u16
  regs :: "u4 \<Rightarrow> u64"
  mem :: memory

datatype vm_error =
    Division_By_Zero u16
  | Out_Of_Bounds string u16 u64 nat

datatype trap = Fetch_Out_Of_Range | Undefined_Shift | Hardware_Division | Bad_Call

datatype outcome =
    Continue vm_state
  | Return u64 "vm_error option" memory
  | Trap trap

section \<open>Arithmetic and logic\<close>

datatype alu_result = Val u64 | Div_Zero | Undef trap

definition src_operand :: "src_mode \<Rightarrow> ebpf_inst \<Rightarrow> vm_state \<Rightarrow> u64" where
  "src_operand m i s = (case m of IMM \<Rightarrow> sext32 (imm i) | REG \<Rightarrow> regs s (src i))"

text \<open>
  The 32-bit operations. Only the register forms of division and remainder test the divisor at run
  time, and they test all 64 bits of it although they divide by the low 32.
\<close>

fun alu32 :: "alu_op \<Rightarrow> src_mode \<Rightarrow> u64 \<Rightarrow> u64 \<Rightarrow> alu_result" where
  "alu32 ADD m d v = Val ((d + v) AND UINT32_MAX)"
| "alu32 SUB m d v = Val ((d - v) AND UINT32_MAX)"
| "alu32 MUL m d v = Val ((d * v) AND UINT32_MAX)"
| "alu32 DIV m d v =
     (if m = REG \<and> v = 0 then Div_Zero
      else if (ucast v :: u32) = 0 then Undef Hardware_Division
      else Val (zext32 (ucast d div ucast v) AND UINT32_MAX))"
| "alu32 OR_OP m d v = Val ((d OR v) AND UINT32_MAX)"
| "alu32 AND_OP m d v = Val ((d AND v) AND UINT32_MAX)"
| "alu32 LSH m d v =
     (if 64 \<le> v then Undef Undefined_Shift else Val (push_bit (unat v) d AND UINT32_MAX))"
| "alu32 RSH m d v =
     (if 32 \<le> v then Undef Undefined_Shift
      else Val (zext32 (drop_bit (unat v) (ucast d)) AND UINT32_MAX))"
| "alu32 NEG m d v = Val ((- d) AND UINT32_MAX)"
| "alu32 MOD m d v =
     (if m = REG \<and> v = 0 then Div_Zero
      else if (ucast v :: u32) = 0 then Undef Hardware_Division
      else if m = IMM then Val (zext32 (ucast d mod ucast v) AND UINT32_MAX)
      else Val (zext32 (ucast d mod ucast v)))"
| "alu32 XOR_OP m d v = Val ((d XOR v) AND UINT32_MAX)"
| "alu32 MOV m d v = Val (v AND UINT32_MAX)"
| "alu32 ARSH m d v =
     (if 32 \<le> (ucast v :: u32) then Undef Undefined_Shift
      else Val (sext32 (signed_drop_bit (unat (ucast v :: u32)) (ucast d)) AND UINT32_MAX))"

fun alu64 :: "alu_op \<Rightarrow> src_mode \<Rightarrow> u64 \<Rightarrow> u64 \<Rightarrow> alu_result" where
  "alu64 ADD m d v = Val (d + v)"
| "alu64 SUB m d v = Val (d - v)"
| "alu64 MUL m d v = Val (d * v)"
| "alu64 DIV m d v =
     (if v = 0 then (if m = REG then Div_Zero else Undef Hardware_Division) else Val (d div v))"
| "alu64 OR_OP m d v = Val (d OR v)"
| "alu64 AND_OP m d v = Val (d AND v)"
| "alu64 LSH m d v = (if 64 \<le> v then Undef Undefined_Shift else Val (push_bit (unat v) d))"
| "alu64 RSH m d v = (if 64 \<le> v then Undef Undefined_Shift else Val (drop_bit (unat v) d))"
| "alu64 NEG m d v = Val (- d)"
| "alu64 MOD m d v =
     (if v = 0 then (if m = REG then Div_Zero else Undef Hardware_Division) else Val (d mod v))"
| "alu64 XOR_OP m d v = Val (d XOR v)"
| "alu64 MOV m d v = Val v"
| "alu64 ARSH m d v =
     (if 64 \<le> v then Undef Undefined_Shift else Val (signed_drop_bit (unat v) d))"

text \<open>The low \<open>n\<close> bytes of a value in reverse order; a little-endian host does this for \<open>htobe\<close>.\<close>

fun bswap :: "nat \<Rightarrow> u64 \<Rightarrow> u64" where
  "bswap 0 v = 0"
| "bswap (Suc n) v = push_bit (8 * n) (v AND 0xFF) OR bswap n (drop_bit 8 v)"

definition endian_le :: "u32 \<Rightarrow> u64 \<Rightarrow> u64" where
  "endian_le i d =
     (if i = 16 then d AND 0xFFFF else if i = 32 then d AND UINT32_MAX else d)"

definition endian_be :: "u32 \<Rightarrow> u64 \<Rightarrow> u64" where
  "endian_be i d =
     (if i = 16 then bswap 2 d else if i = 32 then bswap 4 d else if i = 64 then bswap 8 d else d)"

section \<open>Jumps\<close>

definition jmp_operand :: "jmp_op \<Rightarrow> src_mode \<Rightarrow> ebpf_inst \<Rightarrow> vm_state \<Rightarrow> u64" where
  "jmp_operand j m i s =
     (case m of
        REG \<Rightarrow> regs s (src i)
      | IMM \<Rightarrow> (if j = JGT \<or> j = JGE \<or> j = JLT \<or> j = JLE then zext32 (imm i) else sext32 (imm i)))"

fun jmp_cond :: "jmp_op \<Rightarrow> u64 \<Rightarrow> u64 \<Rightarrow> bool" where
  "jmp_cond JEQ d v = (d = v)"
| "jmp_cond JGT d v = (d > v)"
| "jmp_cond JGE d v = (d \<ge> v)"
| "jmp_cond JLT d v = (d < v)"
| "jmp_cond JLE d v = (d \<le> v)"
| "jmp_cond JSET d v = (d AND v \<noteq> 0)"
| "jmp_cond JNE d v = (d \<noteq> v)"
| "jmp_cond JSGT d v = (sint d > sint v)"
| "jmp_cond JSGE d v = (sint d \<ge> sint v)"
| "jmp_cond JSLT d v = (sint d < sint v)"
| "jmp_cond JSLE d v = (sint d \<le> sint v)"

section \<open>Memory accesses\<close>

text \<open>Pointers are compared and added as unsigned 64-bit numbers.\<close>

definition bounds_check :: "vm_env \<Rightarrow> u64 \<Rightarrow> nat \<Rightarrow> bool" where
  "bounds_check e addr sz =
     (if arg_mem e \<noteq> 0 \<and> arg_mem e \<le> addr \<and> addr + of_nat sz \<le> arg_mem e + arg_mem_len e then True
      else stack e \<le> addr \<and> addr + of_nat sz \<le> stack e + of_nat STACK_SIZE)"

definition exec_load :: "vm_env \<Rightarrow> u16 \<Rightarrow> access_size \<Rightarrow> ebpf_inst \<Rightarrow> vm_state \<Rightarrow> outcome" where
  "exec_load e cur_pc z i s =
     (let a = regs s (src i) + sext16 (offset i); n = size_bytes z
      in if bounds_check e a n
         then Continue (s\<lparr>regs := (regs s)(dst i := load_le (mem s) a n)\<rparr>)
         else Return UINT64_MAX (Some (Out_Of_Bounds ''load'' cur_pc a n)) (mem s))"

definition exec_store :: "vm_env \<Rightarrow> u16 \<Rightarrow> access_size \<Rightarrow> u64 \<Rightarrow> ebpf_inst \<Rightarrow> vm_state \<Rightarrow> outcome" where
  "exec_store e cur_pc z v i s =
     (let a = regs s (dst i) + sext16 (offset i); n = size_bytes z
      in if bounds_check e a n
         then Continue (s\<lparr>mem := store_le (mem s) a n v\<rparr>)
         else Return UINT64_MAX (Some (Out_Of_Bounds ''store'' cur_pc a n)) (mem s))"

section \<open>One turn of the interpreter loop\<close>

definition fetch :: "vm_env \<Rightarrow> u16 \<Rightarrow> ebpf_inst option" where
  "fetch e p = (if unat p < length (insts e) then Some (insts e ! unat p) else None)"

definition set_dst :: "ebpf_inst \<Rightarrow> u64 \<Rightarrow> vm_state \<Rightarrow> vm_state" where
  "set_dst i v s = s\<lparr>regs := (regs s)(dst i := v)\<rparr>"

definition exec_alu :: "u16 \<Rightarrow> ebpf_inst \<Rightarrow> vm_state \<Rightarrow> alu_result \<Rightarrow> outcome" where
  "exec_alu cur_pc i s r =
     (case r of
        Val v \<Rightarrow> Continue (set_dst i v s)
      | Div_Zero \<Rightarrow> Return UINT64_MAX (Some (Division_By_Zero cur_pc)) (mem s)
      | Undef t \<Rightarrow> Trap t)"

definition exec_jump :: "bool \<Rightarrow> ebpf_inst \<Rightarrow> vm_state \<Rightarrow> outcome" where
  "exec_jump taken i s = Continue (if taken then s\<lparr>pc := pc s + offset i\<rparr> else s)"

definition exec_lddw :: "vm_env \<Rightarrow> ebpf_inst \<Rightarrow> vm_state \<Rightarrow> outcome" where
  "exec_lddw e i s =
     (case fetch e (pc s) of
        None \<Rightarrow> Trap Fetch_Out_Of_Range
      | Some hi \<Rightarrow> Continue (set_dst i (zext32 (imm i) OR push_bit 32 (sext32 (imm hi)))
                             (s\<lparr>pc := pc s + 1\<rparr>)))"

text \<open>\<open>vm->ext_funcs[inst.imm]\<close>: the index is a signed 32-bit number, an empty slot is \<open>NULL\<close>.\<close>

definition ext_func_at :: "ext_func option list \<Rightarrow> u32 \<Rightarrow> ext_func option" where
  "ext_func_at fs i =
     (if 0 \<le> sint i \<and> sint i < int (length fs) then fs ! nat (sint i) else None)"

definition exec_call :: "vm_env \<Rightarrow> ebpf_inst \<Rightarrow> vm_state \<Rightarrow> outcome" where
  "exec_call e i s =
     (case ext_func_at (ext_funcs e) (imm i) of
        None \<Rightarrow> Trap Bad_Call
      | Some f \<Rightarrow>
          (let (r, m) = f (regs s 1) (regs s 2) (regs s 3) (regs s 4) (regs s 5) (mem s)
           in Continue (s\<lparr>regs := (regs s)(0 := r), mem := m\<rparr>)))"

fun exec_op :: "vm_env \<Rightarrow> u16 \<Rightarrow> ebpf_inst \<Rightarrow> vm_state \<Rightarrow> ebpf_op \<Rightarrow> outcome" where
  "exec_op e cur_pc i s (ALU32 a m) =
     exec_alu cur_pc i s (alu32 a m (regs s (dst i)) (src_operand m i s))"
| "exec_op e cur_pc i s (ALU64 a m) =
     exec_alu cur_pc i s (alu64 a m (regs s (dst i)) (src_operand m i s))"
| "exec_op e cur_pc i s EBPF_LE = Continue (set_dst i (endian_le (imm i) (regs s (dst i))) s)"
| "exec_op e cur_pc i s EBPF_BE = Continue (set_dst i (endian_be (imm i) (regs s (dst i))) s)"
| "exec_op e cur_pc i s (LDX z) = exec_load e cur_pc z i s"
| "exec_op e cur_pc i s (ST z) = exec_store e cur_pc z (sext32 (imm i)) i s"
| "exec_op e cur_pc i s (STX z) = exec_store e cur_pc z (regs s (src i)) i s"
| "exec_op e cur_pc i s LDDW = exec_lddw e i s"
| "exec_op e cur_pc i s JA = exec_jump True i s"
| "exec_op e cur_pc i s (JMP j m) =
     exec_jump (jmp_cond j (regs s (dst i)) (jmp_operand j m i s)) i s"
| "exec_op e cur_pc i s EXIT = Return (regs s 0) None (mem s)"
| "exec_op e cur_pc i s CALL = exec_call e i s"

text \<open>An opcode without a label in the \<open>switch\<close> does nothing.\<close>

definition step :: "vm_env \<Rightarrow> vm_state \<Rightarrow> outcome" where
  "step e s =
     (case fetch e (pc s) of
        None \<Rightarrow> Trap Fetch_Out_Of_Range
      | Some i \<Rightarrow>
          (let s' = s\<lparr>pc := pc s + 1\<rparr>
           in (case decode_op (opcode i) of
                 None \<Rightarrow> Continue s'
               | Some p \<Rightarrow> exec_op e (pc s) i s' p)))"

section \<open>The loop\<close>

text \<open>\<^verbatim>\<open>while (1)\<close> may never leave: \<^const>\<open>None\<close> is a run that does not return.\<close>

datatype vm_result = Returned u64 "vm_error option" memory | Trapped trap

partial_function (option) ubpf_loop :: "vm_env \<Rightarrow> vm_state \<Rightarrow> vm_result option" where
  "ubpf_loop e s =
     (case step e s of
        Continue s' \<Rightarrow> ubpf_loop e s'
      | Return r err m \<Rightarrow> Some (Returned r err m)
      | Trap t \<Rightarrow> Some (Trapped t))"

text \<open>The same loop cut off after a number of turns, for reasoning about what it reaches.\<close>

fun run :: "nat \<Rightarrow> vm_env \<Rightarrow> vm_state \<Rightarrow> outcome" where
  "run 0 e s = Continue s"
| "run (Suc n) e s = (case step e s of Continue s' \<Rightarrow> run n e s' | r \<Rightarrow> r)"

record ubpf_vm =
  vm_insts :: "ebpf_inst list option"
  num_insts :: u16
  vm_ext_funcs :: "ext_func option list"
  vm_ext_func_names :: "string option list"
  first_mem_node :: "(u64 \<times> u8 list) list"

text \<open>
  \<open>stk\<close> is the address of the local array \<open>stack\<close>, \<open>r0\<close> and \<open>m0\<close> what the registers and memory
  hold on entry: the source initialises \<open>reg[1]\<close> and \<open>reg[10]\<close> only.
\<close>

definition ubpf_exec_with_arg ::
  "ubpf_vm \<Rightarrow> u64 \<Rightarrow> u64 \<Rightarrow> u64 \<Rightarrow> u64 \<Rightarrow> (u4 \<Rightarrow> u64) \<Rightarrow> memory \<Rightarrow> vm_result option" where
  "ubpf_exec_with_arg vm arg m mlen stk r0 m0 =
     (case vm_insts vm of
        None \<Rightarrow> Some (Returned UINT64_MAX None m0)
      | Some is \<Rightarrow>
          ubpf_loop \<lparr>insts = is, ext_funcs = vm_ext_funcs vm, arg_mem = m, arg_mem_len = mlen, stack = stk\<rparr>
            \<lparr>pc = 0, regs = r0(1 := arg, 10 := stk + of_nat STACK_SIZE), mem = m0\<rparr>)"

definition ubpf_exec ::
  "ubpf_vm \<Rightarrow> u64 \<Rightarrow> u64 \<Rightarrow> u64 \<Rightarrow> (u4 \<Rightarrow> u64) \<Rightarrow> memory \<Rightarrow> vm_result option" where
  "ubpf_exec vm m mlen stk r0 m0 = ubpf_exec_with_arg vm m m mlen stk r0 m0"

section \<open>Lemmas on single turns\<close>

lemmas exec_defs = exec_alu_def exec_load_def exec_store_def exec_jump_def exec_lddw_def
  exec_call_def set_dst_def

lemma size_bytes_pos [simp]: "0 < size_bytes z"
  by (cases z) simp_all

lemma size_bytes_le: "size_bytes z \<le> 8"
  by (cases z) simp_all

text \<open>Every 32-bit operation that yields a value yields one that fits 32 bits.\<close>

lemma alu32_fits: "alu32 a m d v = Val r \<Longrightarrow> unat r < 2 ^ 32"
proof (cases a)
  case MOD
  have "unat (zext32 x) < 2 ^ 32" for x
    using unsigned_less [of x] by simp
  moreover assume "alu32 a m d v = Val r"
  ultimately show ?thesis
    using MOD unat_and_mask32_less by (fastforce split: if_splits)
qed (use unat_and_mask32_less in \<open>auto split: if_splits\<close>)

text \<open>An accepted access that does not run over the top of the address space stays inside.\<close>

lemma bounds_check_region:
  assumes ok: "bounds_check e a n"
    and arg: "unat (arg_mem e) + unat (arg_mem_len e) < 2 ^ 64"
    and stk: "unat (stack e) + STACK_SIZE < 2 ^ 64"
    and nowrap: "unat a + n < 2 ^ 64"
    and x: "x \<in> addrs a n"
  shows "x \<in> addrs (arg_mem e) (unat (arg_mem_len e)) \<or> x \<in> addrs (stack e) STACK_SIZE"
proof -
  have top: "unat (a + of_nat n) = unat a + n"
    using nowrap by (rule unat_add_no_wrap)
  have arg_top: "unat (arg_mem e + arg_mem_len e) = unat (arg_mem e) + unat (arg_mem_len e)"
    using unat_add_no_wrap [of "arg_mem e" "unat (arg_mem_len e)"] arg by simp
  have stk_top: "unat (stack e + of_nat STACK_SIZE) = unat (stack e) + STACK_SIZE"
    using stk by (rule unat_add_no_wrap)
  have x_range: "unat a \<le> unat x \<and> unat x < unat a + n"
    using x nowrap addrs_interval [of a n x] by simp
  show ?thesis
    using ok x_range arg stk addrs_interval [of "arg_mem e" "unat (arg_mem_len e)" x]
      addrs_interval [of "stack e" STACK_SIZE x]
    unfolding bounds_check_def word_le_nat_alt top arg_top stk_top
    by (auto split: if_splits)
qed

text \<open>
  The comparison wraps: an access that starts in the last seven bytes of the address space can be
  accepted, so those bytes and the first seven are the only others an accepted access touches.
\<close>

definition edge_addr :: "u64 \<Rightarrow> bool" where
  "edge_addr x \<longleftrightarrow> 2 ^ 64 - 8 \<le> unat x \<or> unat x < 8"

lemma addrs_wrap_edge:
  assumes "x \<in> addrs a n" "n \<le> 8" "2 ^ 64 \<le> unat a + n"
  shows "edge_addr x"
proof -
  from assms(1) obtain i where i: "i < n" "x = a + of_nat i"
    by (auto simp: addrs_def)
  then have ux: "unat x = (unat a + i) mod 2 ^ 64"
    using assms(2) by (simp add: unat_word_ariths unat_of_nat)
  have ua: "unat a < 2 ^ 64"
    using unsigned_less [of a] by simp
  show ?thesis
  proof (cases "unat a + i < 2 ^ 64")
    case True
    then have "unat x = unat a + i"
      using ux by simp
    then show ?thesis
      using assms(2,3) by (simp add: edge_addr_def)
  next
    case False
    then have "unat x = unat a + i - 2 ^ 64"
      using ux ua i(1) assms(2) by (subst ux, subst le_mod_geq) simp_all
    then have "unat x < 8"
      using ua i(1) assms(2) by linarith
    then show ?thesis
      by (simp add: edge_addr_def)
  qed
qed

definition writable :: "vm_env \<Rightarrow> u64 set" where
  "writable e =
     addrs (arg_mem e) (unat (arg_mem_len e)) \<union> addrs (stack e) STACK_SIZE \<union> {x. edge_addr x}"

text \<open>The objects handed to the interpreter do not themselves wrap.\<close>

definition env_ok :: "vm_env \<Rightarrow> bool" where
  "env_ok e \<longleftrightarrow> unat (arg_mem e) + unat (arg_mem_len e) < 2 ^ 64 \<and> unat (stack e) + STACK_SIZE < 2 ^ 64"

lemma bounds_check_writable:
  assumes "env_ok e" "bounds_check e a n" "n \<le> 8" "x \<in> addrs a n"
  shows "x \<in> writable e"
proof (cases "unat a + n < 2 ^ 64")
  case True
  then show ?thesis
    using bounds_check_region [of e a n x] assms by (auto simp: writable_def env_ok_def)
next
  case False
  then show ?thesis
    using addrs_wrap_edge [of x a n] assms by (simp add: writable_def)
qed

text \<open>A call changes memory through the function it reaches only.\<close>

definition ext_confined :: "vm_env \<Rightarrow> u64 set \<Rightarrow> bool" where
  "ext_confined e R \<longleftrightarrow>
     (\<forall>f a b c d g m. Some f \<in> set (ext_funcs e) \<longrightarrow>
        (\<forall>x. x \<notin> R \<longrightarrow> snd (f a b c d g m) x = m x))"

lemma ext_func_at_set: "ext_func_at fs i = Some f \<Longrightarrow> Some f \<in> set fs"
  by (auto simp: ext_func_at_def split: if_splits) (metis nth_mem nat_less_iff)

fun out_mem :: "memory \<Rightarrow> outcome \<Rightarrow> memory" where
  "out_mem m (Continue s) = mem s"
| "out_mem m (Return r err m') = m'"
| "out_mem m (Trap t) = m"

lemma exec_op_confined:
  assumes ok: "env_ok e" and ext: "ext_confined e R" and x: "x \<notin> writable e" "x \<notin> R"
  shows "out_mem (mem s) (exec_op e cur i s p) x = mem s x"
proof -
  have store: "out_mem (mem s) (exec_store e cur z v i s) x = mem s x" for z v
  proof (cases "bounds_check e (regs s (dst i) + sext16 (offset i)) (size_bytes z)")
    case True
    then have "x \<notin> addrs (regs s (dst i) + sext16 (offset i)) (size_bytes z)"
      using bounds_check_writable [OF ok True size_bytes_le] x(1) by blast
    then show ?thesis
      using True by (simp add: exec_store_def Let_def store_le_frame)
  qed (simp add: exec_store_def Let_def)
  have call: "out_mem (mem s) (exec_call e i s) x = mem s x"
    using ext x(2) unfolding ext_confined_def exec_call_def
    by (auto split: option.splits prod.splits dest!: ext_func_at_set) (metis snd_conv)
  show ?thesis
    using store call
    by (cases p) (simp_all add: exec_alu_def exec_load_def exec_jump_def exec_lddw_def set_dst_def
        Let_def split: alu_result.splits option.splits)
qed

lemma step_confined:
  assumes "env_ok e" "ext_confined e R" "x \<notin> writable e" "x \<notin> R"
  shows "out_mem (mem s) (step e s) x = mem s x"
  using exec_op_confined [OF assms, of "s\<lparr>pc := pc s + 1\<rparr>"]
  by (simp add: step_def Let_def split: option.splits)

lemma run_confined:
  assumes "env_ok e" "ext_confined e R" "x \<notin> writable e" "x \<notin> R"
  shows "out_mem (mem s) (run n e s) x = mem s x"
proof (induction n arbitrary: s)
  case (Suc n)
  have turn: "out_mem (mem s) (step e s) x = mem s x"
    by (rule step_confined [OF assms])
  show ?case
  proof (cases "step e s")
    case (Continue s')
    then show ?thesis
      using turn Suc [of s'] by (cases "run n e s'") auto
  qed (use turn in auto)
qed simp

section \<open>The loop and its finite runs\<close>

fun result_of :: "vm_result \<Rightarrow> outcome" where
  "result_of (Returned v err m) = Return v err m"
| "result_of (Trapped t) = Trap t"

lemma ubpf_loop_of_run: "run n e s = result_of r \<Longrightarrow> ubpf_loop e s = Some r"
proof (induction n arbitrary: s)
  case 0
  then show ?case
    by (cases r) simp_all
next
  case (Suc n)
  then show ?case
    by (subst ubpf_loop.simps) (cases r; auto split: outcome.splits)
qed

lemma run_of_ubpf_loop:
  assumes "ubpf_loop e s = Some r"
  shows "\<exists>n. run n e s = result_of r"
proof (rule ubpf_loop.raw_induct [where P = "\<lambda>e s r. \<exists>n. run n e s = result_of r", OF _ assms])
  fix f e s r
  assume IH: "\<And>e s r. f e s = Some r \<Longrightarrow> \<exists>n. run n e s = result_of r"
    and body: "(case step e s of Continue s' \<Rightarrow> f e s' | Return r err m \<Rightarrow> Some (Returned r err m)
      | Trap t \<Rightarrow> Some (Trapped t)) = Some r"
  show "\<exists>n. run n e s = result_of r"
  proof (cases "step e s")
    case (Continue s')
    then obtain n where "run n e s' = result_of r"
      using IH body by fastforce
    then have "run (Suc n) e s = result_of r"
      using Continue by simp
    then show ?thesis
      by blast
  next
    case (Return v err m)
    then have "run (Suc 0) e s = result_of r"
      using body by auto
    then show ?thesis
      by blast
  next
    case (Trap t)
    then have "run (Suc 0) e s = result_of r"
      using body by auto
    then show ?thesis
      by blast
  qed
qed

lemma ubpf_loop_iff: "ubpf_loop e s = Some r \<longleftrightarrow> (\<exists>n. run n e s = result_of r)"
  using ubpf_loop_of_run run_of_ubpf_loop by blast

lemma ubpf_loop_confined:
  assumes ok: "env_ok e" "ext_confined e R" "x \<notin> writable e" "x \<notin> R"
    and ret: "ubpf_loop e s = Some (Returned v err m)"
  shows "m x = mem s x"
proof -
  from ret obtain n where "run n e s = Return v err m"
    using run_of_ubpf_loop by fastforce
  then show ?thesis
    using run_confined [OF ok, of s n] by simp
qed

section \<open>Properties\<close>

text \<open>
  A 32-bit operation leaves no bits in the upper half of its destination: every value it yields
  is below \<open>2 ^ 32\<close>, whatever the 64-bit operands were.
\<close>

lemma alu32_clears_upper_half: "alu32 a m d v = Val r \<Longrightarrow> unat r < 2 ^ 32"
  by (rule alu32_fits)

text \<open>
  The run-time test of the divisor looks at 64 bits and the division uses 32: exactly the nonzero
  divisors whose low half is zero pass the test of \<open>DIV_REG\<close> and \<open>MOD_REG\<close> and make the processor divide
  by zero.
\<close>

lemma division_guard_misses_low_half:
  "alu32 a REG d v = Undef Hardware_Division \<longleftrightarrow>
     (a = DIV \<or> a = MOD) \<and> v \<noteq> 0 \<and> (ucast v :: u32) = 0"
  by (cases a) simp_all

text \<open>
  The bounds check misses wrap-around: an access of at most eight bytes that straddles the end of the
  address space is accepted for any argument block of at least eight bytes below it.
\<close>

lemma bounds_check_wraps:
  assumes "arg_mem e \<noteq> 0" and "arg_mem e \<le> addr" and "n \<le> 8" and "2 ^ 64 \<le> unat addr + n"
    and "unat (arg_mem e) + unat (arg_mem_len e) < 2 ^ 64" and "8 \<le> arg_mem_len e"
  shows "bounds_check e addr n"
proof -
  have small: "unat addr < 2 ^ 64"
    by (rule order_less_le_trans [OF unsigned_less]) simp
  have "unat (addr + of_nat n) = (unat addr + n) mod 2 ^ 64"
    using unat_of_nat [of "unat addr + n", where 'a = 64] by simp
  also have "\<dots> = unat addr + n - 2 ^ 64"
    using assms(3,4) small by (subst le_mod_geq) simp_all
  finally have "unat (addr + of_nat n) = unat addr + n - 2 ^ 64" .
  moreover have "unat (arg_mem e + arg_mem_len e) = unat (arg_mem e) + unat (arg_mem_len e)"
    using assms(5) by (simp add: unat_word_ariths)
  ultimately have "addr + of_nat n \<le> arg_mem e + arg_mem_len e"
    using assms(3,6) small by (simp add: word_le_nat_alt)
  then show ?thesis
    using assms(1,2) by (simp add: bounds_check_def)
qed

end
