(* ===== verification/Ubpf_Validate.thy ===== *)
theory Ubpf_Validate
  imports Ubpf_Exec
begin

text \<open>
  The load-time checker \<open>validate\<close> of \<^verbatim>\<open>src/ubpf/vm/ubpf_vm.c\<close>. The messages of
  \<open>ubpf_error\<close> are the constructors of \<open>load_error\<close>; a success carries the list
  \<open>rewrite_pcs\<close> of the loads and stores that need a run-time check, in program order
  (\<open>num_load_store\<close> is its length). The lemmas say what an accepted program guarantees to the
  interpreter.
\<close>

section \<open>The checker\<close>

definition MAX_INSTS :: nat where "MAX_INSTS = 65536"

definition MAX_LOAD_STORE :: nat where "MAX_LOAD_STORE = 2048"

datatype load_error =
    Code_Already_Loaded
  | Code_Len_Not_Multiple_Of_8
  | Too_Many_Instructions
  | No_Exit
  | Invalid_Endian nat
  | Too_Many_Load_Store
  | Load_Crushes_Stack u16 nat
  | Store_Crushes_Stack u16 nat
  | Incomplete_Lddw nat
  | Infinite_Loop nat
  | Jump_Out_Of_Bounds nat
  | Jump_To_Middle_Of_Lddw nat
  | Invalid_Call_Immediate nat u32
  | Call_To_Nonexistent u32 nat
  | Division_By_Zero_Immediate nat
  | Unknown_Opcode u8 nat
  | Invalid_Source_Register nat
  | Invalid_Destination_Register nat
  | Too_Many_Calls
  | Cannot_Allocate

text \<open>What the \<open>switch\<close> leaves for the code after it.\<close>

record verdict =
  recorded :: bool   \<comment> \<open>the index was put into \<open>rewrite_pcs\<close>\<close>
  is_st :: bool      \<comment> \<open>the local \<open>store\<close>\<close>
  last_index :: nat  \<comment> \<open>the local \<open>i\<close>, one more than before after \<open>EBPF_OP_LDDW\<close>\<close>

abbreviation plain :: "nat \<Rightarrow> load_error + verdict" where
  "plain i \<equiv> Inr \<lparr>recorded = False, is_st = False, last_index = i\<rparr>"

definition validate_access ::
  "u4 \<Rightarrow> bool \<Rightarrow> ebpf_inst \<Rightarrow> nat \<Rightarrow> nat \<Rightarrow> (u16 \<Rightarrow> nat \<Rightarrow> load_error) \<Rightarrow> load_error + verdict" where
  "validate_access base st inst i num_load_store crushes =
     (if base \<noteq> 10 then
        (if MAX_LOAD_STORE \<le> num_load_store then Inl Too_Many_Load_Store
         else Inr \<lparr>recorded = True, is_st = st, last_index = i\<rparr>)
      else if 0 < sint (offset inst) \<or> sint (offset inst) < - int STACK_SIZE
      then Inl (crushes (offset inst) i)
      else Inr \<lparr>recorded = False, is_st = st, last_index = i\<rparr>)"

definition validate_jump :: "ebpf_inst list \<Rightarrow> nat \<Rightarrow> ebpf_inst \<Rightarrow> load_error + verdict" where
  "validate_jump is i inst =
     (let new_pc = int i + 1 + sint (offset inst)
      in if sint (offset inst) = - 1 then Inl (Infinite_Loop i)
         else if new_pc < 0 \<or> int (length is) \<le> new_pc then Inl (Jump_Out_Of_Bounds i)
         else if opcode (is ! nat new_pc) = 0 then Inl (Jump_To_Middle_Of_Lddw i)
         else plain i)"

definition validate_call :: "ext_func option list \<Rightarrow> nat \<Rightarrow> ebpf_inst \<Rightarrow> load_error + verdict" where
  "validate_call fs i inst =
     (if sint (imm inst) < 0 \<or> int MAX_EXT_FUNCS \<le> sint (imm inst)
      then Inl (Invalid_Call_Immediate i (imm inst))
      else if ext_func_at fs (imm inst) = None then Inl (Call_To_Nonexistent (imm inst) i)
      else plain i)"

definition validate_alu :: "alu_op \<Rightarrow> src_mode \<Rightarrow> nat \<Rightarrow> ebpf_inst \<Rightarrow> load_error + verdict" where
  "validate_alu a m i inst =
     (if (a = DIV \<or> a = MOD) \<and> m = IMM \<and> imm inst = 0 then Inl (Division_By_Zero_Immediate i)
      else plain i)"

fun validate_op ::
  "ext_func option list \<Rightarrow> ebpf_inst list \<Rightarrow> nat \<Rightarrow> nat \<Rightarrow> ebpf_op \<Rightarrow> load_error + verdict" where
  "validate_op fs is i n (ALU32 a m) = validate_alu a m i (is ! i)"
| "validate_op fs is i n (ALU64 a m) = validate_alu a m i (is ! i)"
| "validate_op fs is i n EBPF_LE =
     (if imm (is ! i) \<notin> {16, 32, 64} then Inl (Invalid_Endian i) else plain i)"
| "validate_op fs is i n EBPF_BE =
     (if imm (is ! i) \<notin> {16, 32, 64} then Inl (Invalid_Endian i) else plain i)"
| "validate_op fs is i n (LDX z) =
     validate_access (src (is ! i)) False (is ! i) i n Load_Crushes_Stack"
| "validate_op fs is i n (ST z) =
     validate_access (dst (is ! i)) True (is ! i) i n Store_Crushes_Stack"
| "validate_op fs is i n (STX z) =
     validate_access (dst (is ! i)) True (is ! i) i n Store_Crushes_Stack"
| "validate_op fs is i n LDDW =
     (if length is \<le> i + 1 \<or> opcode (is ! (i + 1)) \<noteq> 0 then Inl (Incomplete_Lddw i)
      else plain (i + 1))"
| "validate_op fs is i n JA = validate_jump is i (is ! i)"
| "validate_op fs is i n (JMP j m) = validate_jump is i (is ! i)"
| "validate_op fs is i n CALL = validate_call fs i (is ! i)"
| "validate_op fs is i n EXIT = plain i"

text \<open>One turn of the loop over the instructions, with the register checks after the \<open>switch\<close>.\<close>

definition validate_inst ::
  "ext_func option list \<Rightarrow> ebpf_inst list \<Rightarrow> nat \<Rightarrow> nat \<Rightarrow> load_error + verdict" where
  "validate_inst fs is i n =
     (case decode_op (opcode (is ! i)) of
        None \<Rightarrow> Inl (Unknown_Opcode (opcode (is ! i)) i)
      | Some p \<Rightarrow>
          (case validate_op fs is i n p of
             Inl err \<Rightarrow> Inl err
           | Inr v \<Rightarrow>
               (if 10 < src (is ! i) then Inl (Invalid_Source_Register (last_index v))
                else if 9 < dst (is ! i) \<and> \<not> (is_st v \<and> dst (is ! i) = 10)
                then Inl (Invalid_Destination_Register (last_index v))
                else Inr v)))"

lemmas validate_defs = validate_alu_def validate_access_def validate_jump_def validate_call_def Let_def

lemma validate_op_last_index: "validate_op fs is i n p = Inr v \<Longrightarrow> i \<le> last_index v"
  by (cases p) (auto simp: validate_defs split: if_splits)

lemma validate_instE:
  assumes "validate_inst fs is i n = Inr v"
  obtains p where "decode_op (opcode (is ! i)) = Some p" "validate_op fs is i n p = Inr v"
    "src (is ! i) \<le> 10" "dst (is ! i) \<le> 9 \<or> is_st v \<and> dst (is ! i) = 10"
  using assms
  by (auto simp: validate_inst_def not_less split: option.splits sum.splits if_splits)

lemma validate_inst_last_index: "validate_inst fs is i n = Inr v \<Longrightarrow> i \<le> last_index v"
  by (erule validate_instE) (rule validate_op_last_index)

function validate_loop ::
  "ext_func option list \<Rightarrow> ebpf_inst list \<Rightarrow> nat \<Rightarrow> nat list \<Rightarrow> load_error + nat list" where
  "validate_loop fs is i rewrite_pcs =
     (if i < length is then
        (case validate_inst fs is i (length rewrite_pcs) of
           Inl err \<Rightarrow> Inl err
         | Inr v \<Rightarrow>
             validate_loop fs is (Suc (last_index v))
               (if recorded v then rewrite_pcs @ [i] else rewrite_pcs))
      else Inr rewrite_pcs)"
  by pat_completeness auto
termination
  by (relation "measure (\<lambda>(fs, is, i, pcs). length is - i)")
    (auto dest!: validate_inst_last_index)

declare validate_loop.simps [simp del]

definition validate :: "ext_func option list \<Rightarrow> ebpf_inst list \<Rightarrow> load_error + nat list" where
  "validate fs is =
     (if MAX_INSTS \<le> length is then Inl Too_Many_Instructions
      else if \<not> list_ex (\<lambda>inst. opcode inst = op_byte EXIT) is then Inl No_Exit
      else validate_loop fs is 0 [])"

section \<open>What acceptance means\<close>

text \<open>The loads and stores that are not relative to the frame pointer \<open>r10\<close>.\<close>

definition needs_check :: "ebpf_inst \<Rightarrow> bool" where
  "needs_check inst =
     (case decode_op (opcode inst) of
        Some (LDX _) \<Rightarrow> src inst \<noteq> 10
      | Some (ST _) \<Rightarrow> dst inst \<noteq> 10
      | Some (STX _) \<Rightarrow> dst inst \<noteq> 10
      | _ \<Rightarrow> False)"

definition accepted :: "ext_func option list \<Rightarrow> ebpf_inst list \<Rightarrow> nat \<Rightarrow> bool" where
  "accepted fs is j \<longleftrightarrow>
     (\<exists>n v. validate_inst fs is j n = Inr v \<and> recorded v = needs_check (is ! j))"

definition second_half :: "ebpf_inst list \<Rightarrow> nat \<Rightarrow> bool" where
  "second_half is j \<longleftrightarrow>
     0 < j \<and> opcode (is ! j) = 0 \<and> decode_op (opcode (is ! (j - 1))) = Some LDDW"

lemma validate_inst_recorded:
  assumes "validate_inst fs is i n = Inr v"
  shows "recorded v = needs_check (is ! i)"
proof -
  from assms obtain p where "decode_op (opcode (is ! i)) = Some p" "validate_op fs is i n p = Inr v"
    by (rule validate_instE)
  then show ?thesis
    by (cases p) (auto simp: needs_check_def validate_defs split: if_splits)
qed

lemma validate_inst_next:
  assumes "validate_inst fs is i n = Inr v"
  shows "last_index v = i \<and> decode_op (opcode (is ! i)) \<noteq> Some LDDW \<or>
    last_index v = Suc i \<and> Suc i < length is \<and> second_half is (Suc i)"
proof -
  from assms obtain p where "decode_op (opcode (is ! i)) = Some p" "validate_op fs is i n p = Inr v"
    by (rule validate_instE)
  then show ?thesis
    by (cases p) (auto simp: second_half_def validate_defs split: if_splits)
qed

lemma second_half_no_check [simp]: "second_half is j \<Longrightarrow> \<not> needs_check (is ! j)"
  by (simp add: second_half_def needs_check_def)

lemma validate_loop_sound:
  assumes "validate_loop fs is i acc = Inr pcs"
  shows "(\<forall>j. i \<le> j \<longrightarrow> j < length is \<longrightarrow> accepted fs is j \<or> i < j \<and> second_half is j) \<and>
    pcs = acc @ filter (\<lambda>j. needs_check (is ! j)) [i..<length is]"
  using assms
proof (induction fs "is" i acc rule: validate_loop.induct)
  case (1 fs "is" i acc)
  show ?case
  proof (cases "i < length is")
    case False
    with "1.prems" show ?thesis
      by (simp add: validate_loop.simps)
  next
    case True
    with "1.prems" obtain v where v: "validate_inst fs is i (length acc) = Inr v"
      by (auto simp: validate_loop.simps [of fs "is" i acc] split: sum.splits)
    let ?acc = "if recorded v then acc @ [i] else acc"
    have rec: "recorded v = needs_check (is ! i)"
      by (rule validate_inst_recorded [OF v])
    have here: "accepted fs is i"
      using v rec by (auto simp: accepted_def)
    have rest: "validate_loop fs is (Suc (last_index v)) ?acc = Inr pcs"
      using "1.prems" True v by (simp add: validate_loop.simps [of fs "is" i acc])
    note IH = "1.IH" [OF True v rest]
    have split: "[i..<length is] = i # [Suc i..<length is]"
      using True by (simp add: upt_conv_Cons)
    from validate_inst_next [OF v] show ?thesis
    proof
      assume next1: "last_index v = i \<and> decode_op (opcode (is ! i)) \<noteq> Some LDDW"
      then have "\<forall>j. i \<le> j \<longrightarrow> j < length is \<longrightarrow> accepted fs is j \<or> i < j \<and> second_half is j"
        using IH here by (metis Suc_leI Suc_lessD le_neq_implies_less less_Suc_eq_le)
      then show ?thesis
        using IH rec next1 by (simp add: split)
    next
      assume next2: "last_index v = Suc i \<and> Suc i < length is \<and> second_half is (Suc i)"
      have "\<forall>j. i \<le> j \<longrightarrow> j < length is \<longrightarrow> accepted fs is j \<or> i < j \<and> second_half is j"
      proof (intro allI impI)
        fix j
        assume j: "i \<le> j" "j < length is"
        consider "j = i" | "j = Suc i" | "Suc (Suc i) \<le> j"
          using j(1) by linarith
        then show "accepted fs is j \<or> i < j \<and> second_half is j"
          using here next2 IH j by cases auto
      qed
      then show ?thesis
        using IH rec next2 True by (simp add: split upt_conv_Cons)
    qed
  qed
qed

lemma validate_all_accepted:
  assumes "validate fs is = Inr pcs" and "j < length is"
  shows "accepted fs is j \<or> second_half is j"
  using assms validate_loop_sound [of fs "is" 0 "[]" pcs]
  by (auto simp: validate_def split: if_splits)

lemma validate_rewrite_pcs:
  "validate fs is = Inr pcs \<Longrightarrow> pcs = filter (\<lambda>j. needs_check (is ! j)) [0..<length is]"
  using validate_loop_sound [of fs "is" 0 "[]" pcs] by (auto simp: validate_def split: if_splits)

lemma validate_length: "validate fs is = Inr pcs \<Longrightarrow> length is < MAX_INSTS"
  by (auto simp: validate_def split: if_splits)

lemma validate_nonempty: "validate fs is = Inr pcs \<Longrightarrow> is \<noteq> []"
  by (auto simp: validate_def split: if_splits)

section \<open>Progress of accepted programs\<close>

text \<open>A program counter at the start of an instruction.\<close>

definition boundary :: "ebpf_inst list \<Rightarrow> u16 \<Rightarrow> bool" where
  "boundary is p \<longleftrightarrow> unat p < length is \<and> opcode (is ! unat p) \<noteq> 0"

text \<open>
  From a boundary, an accepted program continues at a boundary or just past its last instruction,
  which the checker does not exclude.
\<close>

definition next_ok :: "ebpf_inst list \<Rightarrow> u16 \<Rightarrow> bool" where
  "next_ok is p \<longleftrightarrow> boundary is p \<or> unat p = length is"

lemma accepted_boundary:
  assumes "validate fs is = Inr pcs" and "j < length is" and "opcode (is ! j) \<noteq> 0"
  shows "accepted fs is j"
  using validate_all_accepted [OF assms(1,2)] assms(3) by (simp add: second_half_def)

lemma boundary_start:
  assumes "validate fs is = Inr pcs"
  shows "boundary is 0"
proof -
  have pos: "0 < length is"
    using validate_nonempty [OF assms] by simp
  have "accepted fs is 0"
    using validate_all_accepted [OF assms pos] by (simp add: second_half_def)
  then have "opcode (is ! 0) \<noteq> 0"
    by (auto simp: accepted_def elim!: validate_instE)
  then show ?thesis
    using pos by (simp add: boundary_def)
qed

text \<open>Falling through an instruction other than \<open>LDDW\<close> reaches a boundary or the end.\<close>

lemma fall_through:
  assumes valid: "validate fs is = Inr pcs" and here: "unat p < length is"
    and op: "decode_op (opcode (is ! unat p)) \<noteq> Some LDDW"
  shows "next_ok is (p + 1)"
proof (cases "Suc (unat p) < length is")
  case True
  then have up: "unat (p + 1) = Suc (unat p)"
    using validate_length [OF valid] unat_pc_suc [of p] by (simp add: MAX_INSTS_def)
  have "\<not> second_half is (Suc (unat p))"
    using op by (simp add: second_half_def)
  then have "accepted fs is (Suc (unat p))"
    using validate_all_accepted [OF valid True] by simp
  then have "opcode (is ! Suc (unat p)) \<noteq> 0"
    by (auto simp: accepted_def elim!: validate_instE)
  then show ?thesis
    using True up by (simp add: next_ok_def boundary_def)
next
  case False
  then have "unat (p + 1) = length is"
    using here validate_length [OF valid] unat_pc_suc [of p] by (simp add: MAX_INSTS_def)
  then show ?thesis
    by (simp add: next_ok_def)
qed

lemma jump_lands:
  assumes len: "length is < 2 ^ 16" and v: "validate_jump is (unat p) inst = Inr v"
  shows "boundary is (p + 1 + offset inst)"
proof -
  let ?t = "int (unat p) + 1 + sint (offset inst)"
  from v have t: "0 \<le> ?t" "?t < int (length is)" "opcode (is ! nat ?t) \<noteq> 0"
    by (auto simp: validate_jump_def Let_def split: if_splits)
  have "int (unat (p + 1 + offset inst)) = ?t"
    using t len by (intro unat_pc_offset) auto
  then have "unat (p + 1 + offset inst) = nat ?t"
    by (metis nat_int)
  then show ?thesis
    using t by (simp add: boundary_def nat_less_iff)
qed

lemma jump_lands_target:
  assumes "length is < 2 ^ 16" and "validate_jump is (unat p) inst = Inr v"
  shows "int (unat (p + 1 + offset inst)) = int (unat p) + 1 + sint (offset inst)"
  using assms by (intro unat_pc_offset) (auto simp: validate_jump_def Let_def split: if_splits)

lemma lddw_lands:
  assumes valid: "validate fs is = Inr pcs"
    and half: "Suc (unat p) < length is" "second_half is (Suc (unat p))"
  shows "next_ok is (p + 1 + 1) \<and> unat (p + 1) = Suc (unat p)"
proof -
  have up: "unat (p + 1) = Suc (unat p)"
    using half validate_length [OF valid] unat_pc_suc [of p] by (simp add: MAX_INSTS_def)
  have "decode_op (opcode (is ! unat (p + 1))) \<noteq> Some LDDW"
    using half(2) up by (simp add: second_half_def)
  then show ?thesis
    using fall_through [OF valid, of "p + 1"] half(1) up by simp
qed

fun outcome_ok :: "ebpf_inst list \<Rightarrow> outcome \<Rightarrow> bool" where
  "outcome_ok is (Continue s) = next_ok is (pc s)"
| "outcome_ok is (Return r err m) = True"
| "outcome_ok is (Trap t) = (t = Undefined_Shift \<or> t = Hardware_Division)"

lemma alu_traps:
  "alu32 a m d v = Undef t \<Longrightarrow> t = Undefined_Shift \<or> t = Hardware_Division"
  "alu64 a m d v = Undef t \<Longrightarrow> t = Undefined_Shift \<or> t = Hardware_Division"
  by (cases a; auto split: if_splits)+

lemma exec_alu_outcome:
  assumes "next_ok is (pc s)"
    and "\<And>t. r = Undef t \<Longrightarrow> t = Undefined_Shift \<or> t = Hardware_Division"
  shows "outcome_ok is (exec_alu cur i s r)"
  using assms by (cases r) (auto simp: exec_alu_def set_dst_def)

lemma step_accepted:
  assumes valid: "validate (ext_funcs e) (insts e) = Inr pcs" and at: "boundary (insts e) (pc s)"
  shows "outcome_ok (insts e) (step e s)"
proof -
  let ?is = "insts e" and ?p = "pc s" and ?s = "s\<lparr>pc := pc s + 1\<rparr>"
  let ?i = "?is ! unat ?p"
  from at have len: "unat ?p < length ?is"
    by (simp add: boundary_def)
  then have "accepted (ext_funcs e) ?is (unat ?p)"
    using accepted_boundary [OF valid len] at by (simp add: boundary_def)
  then obtain n v where v: "validate_inst (ext_funcs e) ?is (unat ?p) n = Inr v"
    by (auto simp: accepted_def)
  then obtain p where p: "decode_op (opcode ?i) = Some p"
    and op: "validate_op (ext_funcs e) ?is (unat ?p) n p = Inr v"
    by (rule validate_instE)
  have stepped: "step e s = exec_op e ?p ?i ?s p"
    using len p by (simp add: step_def fetch_def)
  have fall: "next_ok ?is (pc ?s)" if "p \<noteq> LDDW"
    using fall_through [OF valid len] p that by simp
  have jump: "outcome_ok ?is (exec_jump b ?i ?s)"
    if "validate_jump ?is (unat ?p) ?i = Inr v" "p \<noteq> LDDW" for b
    using jump_lands [OF _ that(1)] validate_length [OF valid] fall [OF that(2)]
    by (simp add: exec_jump_def next_ok_def MAX_INSTS_def)
  show ?thesis
  proof (cases p)
    case LDDW
    then show ?thesis
      using op lddw_lands [OF valid, of ?p] validate_inst_next [OF v] p stepped
      by (auto simp: exec_lddw_def fetch_def set_dst_def)
  next
    case (LDX z)
    then show ?thesis
      using fall stepped by (simp add: exec_load_def Let_def)
  next
    case (ST z)
    then show ?thesis
      using fall stepped by (simp add: exec_store_def Let_def)
  next
    case (STX z)
    then show ?thesis
      using fall stepped by (simp add: exec_store_def Let_def)
  next
    case CALL
    then show ?thesis
      using fall stepped op
      by (auto simp: exec_call_def validate_call_def split: option.splits prod.splits if_splits)
  next
    case (ALU32 a m)
    then show ?thesis
      using fall stepped exec_alu_outcome [OF _ alu_traps(1)] by simp
  next
    case (ALU64 a m)
    then show ?thesis
      using fall stepped exec_alu_outcome [OF _ alu_traps(2)] by simp
  qed (use fall stepped op jump in \<open>auto simp: set_dst_def\<close>)
qed

text \<open>Every turn of a run of an accepted program is such a step, up to the end of the program.\<close>

lemma run_accepted:
  assumes valid: "validate (ext_funcs e) (insts e) = Inr pcs"
  shows "boundary (insts e) (pc s) \<Longrightarrow>
    outcome_ok (insts e) (run n e s) \<or>
    (\<exists>k s'. k < n \<and> run k e s = Continue s' \<and> unat (pc s') = length (insts e))"
proof (induction n arbitrary: s)
  case 0
  then show ?case
    by (simp add: next_ok_def)
next
  case (Suc n)
  note ok = step_accepted [OF valid Suc.prems]
  show ?case
  proof (cases "step e s")
    case (Continue s')
    with ok consider "boundary (insts e) (pc s')" | "unat (pc s') = length (insts e)"
      by (auto simp: next_ok_def)
    then show ?thesis
    proof cases
      case 1
      from Suc.IH [OF 1] show ?thesis
      proof
        assume "outcome_ok (insts e) (run n e s')"
        then show ?thesis
          using Continue by simp
      next
        assume "\<exists>k s''. k < n \<and> run k e s' = Continue s'' \<and> unat (pc s'') = length (insts e)"
        then obtain k s'' where "k < n" "run k e s' = Continue s''" "unat (pc s'') = length (insts e)"
          by blast
        then have "Suc k < Suc n \<and> run (Suc k) e s = Continue s'' \<and> unat (pc s'') = length (insts e)"
          using Continue by simp
        then show ?thesis by blast
      qed
    next
      case 2
      show ?thesis
      proof (cases n)
        case 0
        then show ?thesis
          using Continue 2 by (simp add: next_ok_def)
      next
        case (Suc m)
        have "Suc 0 < Suc n \<and> run (Suc 0) e s = Continue s' \<and> unat (pc s') = length (insts e)"
          using Suc Continue 2 by simp
        then show ?thesis by blast
      qed
    qed
  qed (use ok in auto)
qed

section \<open>Properties\<close>

text \<open>
  C2. A program that \<open>validate\<close> accepts, started at its first instruction, never fetches outside the
  program and never calls through an empty slot: up to any number of turns it continues at the start of
  an instruction, returns, or stops at one of the two faults the checker does not look for (a shift by
  at least the width, a 32-bit division whose divisor has zero low half), unless it ran past its last
  instruction before.
\<close>

theorem validated_program_safe:
  assumes "validate (ext_funcs e) (insts e) = Inr pcs" and "pc s = 0"
  shows "outcome_ok (insts e) (run n e s) \<or>
    (\<exists>k s'. k < n \<and> run k e s = Continue s' \<and> unat (pc s') = length (insts e))"
  using run_accepted [OF assms(1)] boundary_start [OF assms(1)] assms(2) by simp

definition return_7 :: "ebpf_inst list" where
  "return_7 = [\<lparr>opcode = op_byte (ALU64 MOV IMM), dst = 0, src = 0, offset = 0, imm = 7\<rparr>,
     \<lparr>opcode = op_byte EXIT, dst = 0, src = 0, offset = 0, imm = 0\<rparr>]"

lemma validate_return_7: "validate fs return_7 = Inr []"
  by (simp add: validate_def return_7_def MAX_INSTS_def validate_loop.simps validate_inst_def validate_alu_def)

theorem validated_program_safe_witness:
  "outcome_ok return_7 (run 2 \<lparr>insts = return_7, ext_funcs = [], arg_mem = 0, arg_mem_len = 0, stack = 4096\<rparr>
      \<lparr>pc = 0, regs = (\<lambda>_. 0), mem = (\<lambda>_. 0)\<rparr>) \<or>
    (\<exists>k s'. k < 2 \<and> run k \<lparr>insts = return_7, ext_funcs = [], arg_mem = 0, arg_mem_len = 0, stack = 4096\<rparr>
      \<lparr>pc = 0, regs = (\<lambda>_. 0), mem = (\<lambda>_. 0)\<rparr> = Continue s' \<and> unat (pc s') = length return_7)"
  using validated_program_safe [of "\<lparr>insts = return_7, ext_funcs = [], arg_mem = 0, arg_mem_len = 0, stack = 4096\<rparr>"
      "[]" "\<lparr>pc = 0, regs = (\<lambda>_. 0), mem = (\<lambda>_. 0)\<rparr>" 2] validate_return_7
  by simp

end
