(* ===== verification/Ubpf_Rewrite.thy ===== *)
theory Ubpf_Rewrite
  imports Ubpf_Validate
begin

text \<open>
  The two load-time transformations of \<^verbatim>\<open>src/ubpf/vm/ubpf_vm.c\<close>. \<open>rewrite_with_memchecks\<close>
  puts twenty instructions before every load and store that is not relative to \<open>r10\<close>;
  \<open>rewrite_with_ctx\<close> surrounds every call with twelve that pass a context as first argument. Both
  relocate jumps over the code they add. The lemmas show where each instruction goes, that jumps
  still reach the instruction they named, and what the inserted code does when the interpreter
  runs it.
\<close>

section \<open>Inserted code\<close>

definition OOB_CALL :: u32 where "OOB_CALL = 0x3f"

definition ADDED_LOAD_STORE_INSTS :: nat where "ADDED_LOAD_STORE_INSTS = 20"

definition ADDED_CTX_CALL :: nat where "ADDED_CTX_CALL = 12"

definition MAX_CALL :: nat where "MAX_CALL = 2048"

definition mk :: "ebpf_op \<Rightarrow> u4 \<Rightarrow> u4 \<Rightarrow> u16 \<Rightarrow> u32 \<Rightarrow> ebpf_inst" where
  "mk p d s off im = \<lparr>opcode = op_byte p, dst = d, src = s, offset = off, imm = im\<rparr>"

definition half :: "u32 \<Rightarrow> ebpf_inst" where
  "half im = \<lparr>opcode = 0, dst = 0, src = 0, offset = 0, imm = im\<rparr>"

definition lo32 :: "u64 \<Rightarrow> u32" where
  "lo32 x = ucast (x AND UINT32_MAX)"

definition hi32 :: "u64 \<Rightarrow> u32" where
  "hi32 x = ucast (drop_bit 32 x)"

text \<open>The check in front of an access at \<open>base + off\<close>.\<close>

definition memcheck :: "u64 \<Rightarrow> u32 \<Rightarrow> u4 \<Rightarrow> u16 \<Rightarrow> ebpf_inst list" where
  "memcheck memory_ptr memory_size base off =
     (let memory_ptr_top = memory_ptr + zext32 memory_size; ioff = (scast off :: u32) in
      [mk LDDW 11 0 0 (lo32 memory_ptr_top),
       half (hi32 memory_ptr_top),
       mk (ALU64 SUB REG) 11 base 0 0,
       mk (ALU64 SUB IMM) 11 0 0 ioff,
       mk (JMP JSGE IMM) 11 0 1 0,
       mk JA 0 0 1 0,
       mk (JMP JLE IMM) 11 0 13 memory_size,
       mk (ALU64 MOV REG) 11 base 0 0,
       mk (ALU64 ADD IMM) 11 0 0 ioff,
       mk (JMP JLE REG) 11 10 1 0,
       mk JA 0 0 2 0,
       mk (ALU64 ADD IMM) 11 0 0 (of_nat STACK_SIZE),
       mk (JMP JGE REG) 11 10 7 0,
       mk (ALU64 MOV REG) 1 base 0 0,
       mk (ALU64 ADD IMM) 1 0 0 ioff,
       mk LDDW 2 0 0 (lo32 memory_ptr),
       half (hi32 memory_ptr),
       mk (ALU64 MOV REG) 3 10 0 0,
       mk CALL 0 0 0 OOB_CALL,
       mk EXIT 0 0 0 0])"

definition ctx_call :: "u64 \<Rightarrow> ebpf_inst \<Rightarrow> ebpf_inst list" where
  "ctx_call ctx_id inst =
     [mk (ALU64 MOV REG) 12 5 0 0,
      mk (ALU64 MOV REG) 5 4 0 0,
      mk (ALU64 MOV REG) 4 3 0 0,
      mk (ALU64 MOV REG) 3 2 0 0,
      mk (ALU64 MOV REG) 2 1 0 0,
      mk LDDW 1 0 0 (lo32 ctx_id),
      half (hi32 ctx_id),
      inst,
      mk (ALU64 MOV REG) 1 2 0 0,
      mk (ALU64 MOV REG) 2 3 0 0,
      mk (ALU64 MOV REG) 3 4 0 0,
      mk (ALU64 MOV REG) 4 5 0 0,
      mk (ALU64 MOV REG) 5 12 0 0]"

section \<open>The passes\<close>

text \<open>
  The new offset of a jump at index \<open>i\<close>. \<open>tgt\<close> is the value of \<open>i + 1 + inst.offset\<close> that the
  pass compares with: a signed number in \<open>rewrite_with_memchecks\<close>, an unsigned one in
  \<open>rewrite_with_ctx\<close>, where \<open>i\<close> is a \<open>uint32_t\<close>. The sum is stored in 16 bits.
\<close>

definition relocate :: "nat \<Rightarrow> int \<Rightarrow> nat list \<Rightarrow> nat \<Rightarrow> ebpf_inst \<Rightarrow> u16" where
  "relocate added tgt rewrite_pcs i inst =
     (if 0 < sint (offset inst) then
        offset inst + of_nat (added * length
          (filter (\<lambda>p. i + 1 \<le> p \<and> int p < tgt) (takeWhile (\<lambda>p. int p < tgt) rewrite_pcs)))
      else if sint (offset inst) < 0 then
        offset inst - of_nat (added * length
          (filter (\<lambda>p. tgt \<le> int p \<and> p < i + 1) (takeWhile (\<lambda>p. p < i + 1) rewrite_pcs)))
      else offset inst)"

definition jump_target :: "nat \<Rightarrow> ebpf_inst \<Rightarrow> int" where
  "jump_target i inst = int i + 1 + sint (offset inst)"

definition memcheck_inst ::
  "u64 \<Rightarrow> u32 \<Rightarrow> nat list \<Rightarrow> nat \<Rightarrow> ebpf_inst \<Rightarrow> ebpf_inst list" where
  "memcheck_inst memory_ptr memory_size rewrite_pcs i inst =
     (case decode_op (opcode inst) of
        Some (LDX _) \<Rightarrow>
          (if src inst \<noteq> 10 then memcheck memory_ptr memory_size (src inst) (offset inst) else []) @ [inst]
      | Some (ST _) \<Rightarrow>
          (if dst inst \<noteq> 10 then memcheck memory_ptr memory_size (dst inst) (offset inst) else []) @ [inst]
      | Some (STX _) \<Rightarrow>
          (if dst inst \<noteq> 10 then memcheck memory_ptr memory_size (dst inst) (offset inst) else []) @ [inst]
      | Some JA \<Rightarrow>
          [inst\<lparr>offset := relocate ADDED_LOAD_STORE_INSTS (jump_target i inst) rewrite_pcs i inst\<rparr>]
      | Some (JMP _ _) \<Rightarrow>
          [inst\<lparr>offset := relocate ADDED_LOAD_STORE_INSTS (jump_target i inst) rewrite_pcs i inst\<rparr>]
      | _ \<Rightarrow> [inst])"

definition rewrite_with_memchecks ::
  "u64 \<Rightarrow> u32 \<Rightarrow> nat list \<Rightarrow> ebpf_inst list \<Rightarrow> ebpf_inst list" where
  "rewrite_with_memchecks memory_ptr memory_size rewrite_pcs is =
     concat (map (\<lambda>i. memcheck_inst memory_ptr memory_size rewrite_pcs i (is ! i)) [0..<length is])"

definition is_call :: "ebpf_inst \<Rightarrow> bool" where
  "is_call inst \<longleftrightarrow> decode_op (opcode inst) = Some CALL"

definition ctx_inst :: "u64 \<Rightarrow> nat list \<Rightarrow> nat \<Rightarrow> ebpf_inst \<Rightarrow> ebpf_inst list" where
  "ctx_inst ctx_id rewrite_pcs i inst =
     (case decode_op (opcode inst) of
        Some CALL \<Rightarrow> ctx_call ctx_id inst
      | Some JA \<Rightarrow>
          [inst\<lparr>offset := relocate ADDED_CTX_CALL (jump_target i inst mod 2 ^ 32) rewrite_pcs i inst\<rparr>]
      | Some (JMP _ _) \<Rightarrow>
          [inst\<lparr>offset := relocate ADDED_CTX_CALL (jump_target i inst mod 2 ^ 32) rewrite_pcs i inst\<rparr>]
      | _ \<Rightarrow> [inst])"

text \<open>
  The calls are located first and may not reach \<open>MAX_CALL\<close>. The test after the allocation reads
  \<open>vm->num_insts\<close>, the number of instructions, which is also the bound of both loops.
\<close>

definition rewrite_with_ctx ::
  "u64 \<Rightarrow> u16 \<Rightarrow> ebpf_inst list \<Rightarrow> load_error + ebpf_inst list \<times> u16" where
  "rewrite_with_ctx ctx_id num_inst is =
     (let n = unat num_inst;
          rewrite_pcs = filter (\<lambda>i. is_call (is ! i)) [0..<n];
          num_call = length rewrite_pcs
      in if MAX_CALL \<le> num_call then Inl Too_Many_Calls
         else if num_inst = 0 then Inl Cannot_Allocate
         else Inr (concat (map (\<lambda>i. ctx_inst ctx_id rewrite_pcs i (is ! i)) [0..<n]),
                   num_inst + of_nat (num_call * ADDED_CTX_CALL)))"

section \<open>Layout\<close>

lemma length_memcheck [simp]: "length (memcheck mp ms b off) = 20"
  by (simp add: memcheck_def Let_def)

lemma length_memcheck_inst:
  "length (memcheck_inst mp ms pcs i inst) = (if needs_check inst then 21 else 1)"
  by (auto simp: memcheck_inst_def needs_check_def split: option.splits ebpf_op.splits)

lemma length_ctx_inst: "length (ctx_inst c pcs i inst) = (if is_call inst then 13 else 1)"
  by (auto simp: ctx_inst_def is_call_def ctx_call_def split: option.splits ebpf_op.splits)

text \<open>The index, after the pass, of the first instruction that stands for instruction \<open>i\<close>.\<close>

definition new_index :: "nat \<Rightarrow> (nat \<Rightarrow> bool) \<Rightarrow> nat \<Rightarrow> nat" where
  "new_index added P i = i + added * length (filter P [0..<i])"

lemma new_index_0 [simp]: "new_index added P 0 = 0"
  by (simp add: new_index_def)

lemma new_index_Suc: "new_index added P (Suc i) = new_index added P i + (if P i then Suc added else 1)"
  by (simp add: new_index_def)

lemma start_of_expansion:
  assumes "\<And>i. length (f i) = (if P i then Suc added else 1)"
  shows "start_of f i = new_index added P i"
  by (induction i) (simp_all add: assms new_index_Suc)

section \<open>Relocated jumps\<close>

lemma filter_upt_between:
  fixes a b n :: nat
  assumes "a \<le> b" "b \<le> n"
  shows "filter (\<lambda>p. a \<le> p \<and> p < b) (filter P [0..<n]) = filter P [a..<b]"
proof -
  have "[0..<n] = [0..<a] @ [a..<b] @ [b..<n]"
    using assms upt_add_eq_append [of 0 a "n - a"] upt_add_eq_append [of a b "n - b"] by simp
  then show ?thesis
    by (simp add: filter_empty_conv) (auto intro!: filter_cong)
qed

lemma takeWhile_filter_upt:
  fixes b n :: nat
  assumes "b \<le> n"
  shows "takeWhile (\<lambda>p. p < b) (filter P [0..<n]) = filter P [0..<b]"
proof -
  have "[0..<n] = [0..<b] @ [b..<n]"
    using assms upt_add_eq_append [of 0 b "n - b"] by simp
  moreover have "takeWhile (\<lambda>p. p < b) (filter P [b..<n]) = []"
    using hd_in_set [of "filter P [b..<n]"] by (auto simp: takeWhile_eq_Nil_iff)
  ultimately show ?thesis
    by (simp add: takeWhile_append)
qed

lemma length_filter_upt_split:
  "a \<le> b \<Longrightarrow> length (filter P [0..<b]) = length (filter P [0..<a]) + length (filter P [a..<b])"
  using upt_add_eq_append [of 0 a "b - a"] by simp

text \<open>
  In the 16-bit arithmetic of the program counter, a relocated jump reaches the first instruction
  that stands for the instruction the original jump named.
\<close>

lemma relocate_forward:
  assumes t: "jump_target i inst = int t" "t \<le> n" "0 < sint (offset inst)"
  shows "relocate added (int t) (filter P [0..<n]) i inst =
    offset inst + of_nat (added * length (filter P [i + 1..<t]))"
proof -
  have "i + 1 \<le> t"
    using t by (simp add: jump_target_def)
  then have "filter (\<lambda>p. i + 1 \<le> p \<and> p < t) (filter P [0..<t]) = filter P [i + 1..<t]"
    by (intro filter_upt_between) simp_all
  then show ?thesis
    using t takeWhile_filter_upt [OF t(2), of P] by (simp add: relocate_def)
qed

lemma relocate_backward:
  assumes t: "jump_target i inst = int t" "i < n" "sint (offset inst) < 0"
  shows "relocate added (int t) (filter P [0..<n]) i inst =
    offset inst - of_nat (added * length (filter P [t..<i + 1]))"
proof -
  have "t \<le> i + 1"
    using t by (simp add: jump_target_def)
  then have "filter (\<lambda>p. t \<le> p \<and> p < i + 1) (filter P [0..<i + 1]) = filter P [t..<i + 1]"
    by (intro filter_upt_between) simp_all
  then show ?thesis
    using t takeWhile_filter_upt [of "i + 1" n P] by (simp add: relocate_def)
qed

lemma relocate_target:
  assumes t: "jump_target i inst = int t" "t \<le> n" and i: "i < n" "\<not> P i"
  shows "of_nat (new_index added P i) + 1 + relocate added (int t) (filter P [0..<n]) i inst =
    (of_nat (new_index added P t) :: u16)"
proof -
  let ?c = "\<lambda>k. length (filter P [0..<k])"
  have "sint (offset inst) = int t - int i - 1"
    using t(1) by (simp add: jump_target_def)
  moreover have "offset inst = of_int (sint (offset inst))"
    by simp
  ultimately have off: "offset inst = of_int (int t - int i - 1)"
    by (simp only:)
  have here: "?c (i + 1) = ?c i"
    using i(2) by simp
  consider "0 < sint (offset inst)" | "sint (offset inst) < 0" | "sint (offset inst) = 0"
    by linarith
  then show ?thesis
  proof cases
    case 1
    then have "?c t = ?c i + length (filter P [i + 1..<t])"
      using t length_filter_upt_split [of "i + 1" t P] here by (simp add: jump_target_def)
    then show ?thesis
      using relocate_forward [OF t 1, of added P] off by (simp add: new_index_def algebra_simps)
  next
    case 2
    then have "?c i = ?c t + length (filter P [t..<i + 1])"
      using t length_filter_upt_split [of t "i + 1" P] here by (simp add: jump_target_def)
    then show ?thesis
      using relocate_backward [OF t(1) i(1) 2, of added P] off by (simp add: new_index_def algebra_simps)
  next
    case 3
    then have nxt: "t = i + 1"
      using t(1) by (simp add: jump_target_def)
    then have "offset inst = 0"
      by (simp add: off)
    then show ?thesis
      using i(2) nxt by (simp add: relocate_def new_index_def)
  qed
qed

section \<open>Passes that expand instructions\<close>

text \<open>
  What both passes promise: an instruction becomes one instruction, or \<open>added\<close> more when it is
  one the pass looks for; a jump keeps everything but its offset, which is relocated.
\<close>

definition code_at :: "vm_env \<Rightarrow> u16 \<Rightarrow> ebpf_inst list \<Rightarrow> bool" where
  "code_at e p cs \<longleftrightarrow> (\<forall>j < length cs. fetch e (p + of_nat j) = Some (cs ! j))"

locale code_expansion =
  fixes expand :: "ebpf_inst list \<Rightarrow> nat \<Rightarrow> ebpf_inst list"
    and added :: nat
    and hit :: "ebpf_inst \<Rightarrow> bool"
  assumes length_expand: "length (expand is i) = (if hit (is ! i) then Suc added else 1)"
    and jump_not_hit: "decode_op (opcode inst) = Some p \<Longrightarrow> is_jump p \<Longrightarrow> \<not> hit inst"
    and expand_jump: "decode_op (opcode (is ! i)) = Some p \<Longrightarrow> is_jump p \<Longrightarrow>
      0 \<le> jump_target i (is ! i) \<Longrightarrow> jump_target i (is ! i) < 2 ^ 32 \<Longrightarrow>
      expand is i = [(is ! i)\<lparr>offset := relocate added (jump_target i (is ! i))
        (filter (\<lambda>j. hit (is ! j)) [0..<length is]) i (is ! i)\<rparr>]"
begin

lemma start_of_expand: "start_of (expand is) i = new_index added (\<lambda>j. hit (is ! j)) i"
  by (rule start_of_expansion) (rule length_expand)

lemma length_expanded:
  "length (concat (map (expand is) [0..<length is])) = new_index added (\<lambda>j. hit (is ! j)) (length is)"
  by (simp add: length_concat_upt start_of_expand)

lemma nth_expanded:
  "i < length is \<Longrightarrow> j < length (expand is i) \<Longrightarrow>
    concat (map (expand is) [0..<length is]) ! (new_index added (\<lambda>j. hit (is ! j)) i + j) = expand is i ! j"
  using concat_upt_nth [of i "length is" j "expand is"] by (simp add: start_of_expand)

lemma index_expanded:
  "i < length is \<Longrightarrow> j < length (expand is i) \<Longrightarrow>
    new_index added (\<lambda>j. hit (is ! j)) i + j < length (concat (map (expand is) [0..<length is]))"
  using start_of_in_range [of i "length is" j "expand is"]
  by (simp only: length_expanded start_of_expand)

text \<open>The code of instruction \<open>i\<close> as the machine fetches it.\<close>

lemma code_at_expanded:
  assumes P: "insts e = concat (map (expand is) [0..<length is])" "length (insts e) < 2 ^ 16"
    and i: "i < length is"
  shows "code_at e (of_nat (new_index added (\<lambda>j. hit (is ! j)) i)) (expand is i)"
proof -
  let ?n = "new_index added (\<lambda>j. hit (is ! j)) i"
  have "fetch e (of_nat ?n + of_nat j) = Some (expand is i ! j)" if j: "j < length (expand is i)" for j
  proof -
    have lt: "?n + j < length (insts e)"
      using index_expanded [OF i j] P by simp
    then have "unat (of_nat (?n + j) :: u16) = ?n + j"
      using P(2) by (subst unat_of_nat) simp
    then have "fetch e (of_nat (?n + j)) = Some (expand is i ! j)"
      using lt nth_expanded [OF i j] P(1) by (simp only: fetch_def if_True)
    then show ?thesis
      by simp
  qed
  then show ?thesis
    by (simp add: code_at_def)
qed

lemma jump_lands_expanded:
  assumes i: "i < length is" and p: "decode_op (opcode (is ! i)) = Some p" "is_jump p"
    and t: "jump_target i (is ! i) = int t" "t < length is" "length is < 2 ^ 16"
  shows "of_nat (new_index added (\<lambda>j. hit (is ! j)) i) + 1 + offset (expand is i ! 0) =
      (of_nat (new_index added (\<lambda>j. hit (is ! j)) t) :: u16)"
proof -
  have "expand is i = [(is ! i)\<lparr>offset := relocate added (int t)
      (filter (\<lambda>j. hit (is ! j)) [0..<length is]) i (is ! i)\<rparr>]"
    using expand_jump [OF p] t by simp
  then show ?thesis
    using relocate_target [of i "is ! i" t "length is" "\<lambda>j. hit (is ! j)" added] t i jump_not_hit [OF p]
    by simp
qed

end

interpretation memchecks: code_expansion
  "\<lambda>is i. memcheck_inst mp ms (filter (\<lambda>j. needs_check (is ! j)) [0..<length is]) i (is ! i)"
  20 needs_check for mp ms
proof (unfold_locales, goal_cases)
  case (1 "is" i)
  show ?case by (simp add: length_memcheck_inst)
next
  case (2 inst p)
  then show ?case by (cases p) (simp_all add: needs_check_def is_jump_def)
next
  case (3 "is" i p)
  then show ?case
    by (cases p) (simp_all add: memcheck_inst_def is_jump_def ADDED_LOAD_STORE_INSTS_def)
qed

interpretation ctxcalls: code_expansion
  "\<lambda>is i. ctx_inst c (filter (\<lambda>j. is_call (is ! j)) [0..<length is]) i (is ! i)"
  12 is_call for c
proof (unfold_locales, goal_cases)
  case (1 "is" i)
  show ?case by (simp add: length_ctx_inst)
next
  case (2 inst p)
  then show ?case by (cases p) (simp_all add: is_call_def is_jump_def)
next
  case (3 "is" i p)
  then show ?case
    by (cases p) (simp_all add: ctx_inst_def is_jump_def ADDED_CTX_CALL_def)
qed

section \<open>Running the inserted code\<close>

definition reaches :: "vm_env \<Rightarrow> vm_state \<Rightarrow> vm_state \<Rightarrow> bool" where
  "reaches e s t \<longleftrightarrow> (\<exists>k. run k e s = Continue t)"

lemma reaches_refl [simp]: "reaches e s s"
  by (auto simp: reaches_def intro: exI [of _ 0])

lemma reaches_step: "step e s = Continue s' \<Longrightarrow> reaches e s' t \<Longrightarrow> reaches e s t"
  unfolding reaches_def by (metis outcome.simps(10) run.simps(2))

lemma reaches_trans: "reaches e s t \<Longrightarrow> reaches e t u \<Longrightarrow> reaches e s u"
proof -
  have "run k e s = Continue t \<Longrightarrow> reaches e t u \<Longrightarrow> reaches e s u" for k
  proof (induction k arbitrary: s)
    case (Suc k)
    then obtain s' where "step e s = Continue s'" "run k e s' = Continue t"
      by (auto split: outcome.splits)
    then show ?case
      using Suc.IH Suc.prems(2) reaches_step by blast
  qed simp
  then show "reaches e s t \<Longrightarrow> reaches e t u \<Longrightarrow> reaches e s u"
    by (auto simp: reaches_def)
qed

text \<open>What the check lets through: addresses from \<open>memory_ptr\<close> to \<open>memory_ptr + memory_size\<close>.\<close>

definition heap_ok :: "u64 \<Rightarrow> u32 \<Rightarrow> u64 \<Rightarrow> bool" where
  "heap_ok memory_ptr memory_size a \<longleftrightarrow> memory_ptr + zext32 memory_size - a \<le> zext32 memory_size"

definition stack_ok :: "u64 \<Rightarrow> u64 \<Rightarrow> bool" where
  "stack_ok fp a \<longleftrightarrow> a \<le> fp \<and> fp \<le> a + of_nat STACK_SIZE"

lemma lo_hi_32 [simp]: "zext32 (lo32 x) OR push_bit 32 (sext32 (hi32 x)) = x"
proof -
  have low: "x AND UINT32_MAX = take_bit 32 x"
    by (simp add: take_bit_eq_mask mask_eq_exp_minus_1)
  show ?thesis
    unfolding zext32_def sext32_def lo32_def hi32_def low
    by (rule bit_word_eqI) (auto simp: bit_simps)
qed

lemma sext32_scast16 [simp]: "sext32 (scast off) = sext16 off"
  unfolding sext32_def sext16_def by (rule bit_word_eqI) (auto simp: bit_simps min_def)

text \<open>The twenty fetches of a check, one fact each.\<close>

lemma code_at_nth: "code_at e p cs \<Longrightarrow> j < length cs \<Longrightarrow> fetch e (p + of_nat j) = Some (cs ! j)"
  by (simp add: code_at_def)

lemma step_inst:
  assumes "fetch e p = Some i" and "decode_op (opcode i) = Some q"
  shows "step e \<lparr>pc = p, regs = r, mem = m\<rparr> = exec_op e p i \<lparr>pc = p + 1, regs = r, mem = m\<rparr> q"
  using assms by (simp add: step_def)

lemma mk_simps [simp]:
  "opcode (mk p d s f im) = op_byte p" "dst (mk p d s f im) = d" "src (mk p d s f im) = s"
  "offset (mk p d s f im) = f" "imm (mk p d s f im) = im" "imm (half im) = im"
  by (simp_all add: mk_def half_def)

lemmas exec_op_simps = exec_defs src_operand_def jmp_operand_def

abbreviation at :: "u16 \<Rightarrow> (u4 \<Rightarrow> u64) \<Rightarrow> memory \<Rightarrow> vm_state" where
  "at p r m \<equiv> \<lparr>pc = p, regs = r, mem = m\<rparr>"

text \<open>Each instruction of the check, executed.\<close>

lemma memcheck_steps:
  assumes code: "code_at e p (memcheck mp ms base off)"
  shows "step e (at p r m) = Continue (at (p + 2) (r(11 := mp + zext32 ms)) m)"
    and "step e (at (p + 2) r m) = Continue (at (p + 3) (r(11 := r 11 - r base)) m)"
    and "step e (at (p + 3) r m) = Continue (at (p + 4) (r(11 := r 11 - sext16 off)) m)"
    and "step e (at (p + 4) r m) = Continue (at (if 0 \<le> sint (r 11) then p + 6 else p + 5) r m)"
    and "step e (at (p + 5) r m) = Continue (at (p + 7) r m)"
    and "step e (at (p + 6) r m) = Continue (at (if r 11 \<le> zext32 ms then p + 20 else p + 7) r m)"
    and "step e (at (p + 7) r m) = Continue (at (p + 8) (r(11 := r base)) m)"
    and "step e (at (p + 8) r m) = Continue (at (p + 9) (r(11 := r 11 + sext16 off)) m)"
    and "step e (at (p + 9) r m) = Continue (at (if r 11 \<le> r 10 then p + 11 else p + 10) r m)"
    and "step e (at (p + 10) r m) = Continue (at (p + 13) r m)"
    and "step e (at (p + 11) r m) = Continue (at (p + 12) (r(11 := r 11 + of_nat STACK_SIZE)) m)"
    and "step e (at (p + 12) r m) = Continue (at (if r 10 \<le> r 11 then p + 20 else p + 13) r m)"
    and "step e (at (p + 13) r m) = Continue (at (p + 14) (r(1 := r base)) m)"
    and "step e (at (p + 14) r m) = Continue (at (p + 15) (r(1 := r 1 + sext16 off)) m)"
    and "step e (at (p + 15) r m) = Continue (at (p + 17) (r(2 := mp)) m)"
    and "step e (at (p + 17) r m) = Continue (at (p + 18) (r(3 := r 10)) m)"
proof -
  note f = code_at_nth [OF code]
  have st: "sext32 (of_nat STACK_SIZE) = of_nat STACK_SIZE" and z: "sext32 0 = 0"
    by (simp_all add: sext32_def STACK_SIZE_def)
  note defs = memcheck_def Let_def step_inst exec_op_simps
  show "step e (at p r m) = Continue (at (p + 2) (r(11 := mp + zext32 ms)) m)"
    using f [of 0] f [of 1] by (simp add: defs)
  show "step e (at (p + 2) r m) = Continue (at (p + 3) (r(11 := r 11 - r base)) m)"
    using f [of 2] by (simp add: defs)
  show "step e (at (p + 3) r m) = Continue (at (p + 4) (r(11 := r 11 - sext16 off)) m)"
    using f [of 3] by (simp add: defs)
  show "step e (at (p + 4) r m) = Continue (at (if 0 \<le> sint (r 11) then p + 6 else p + 5) r m)"
    using f [of 4] by (simp add: defs z)
  show "step e (at (p + 5) r m) = Continue (at (p + 7) r m)"
    using f [of 5] by (simp add: defs)
  show "step e (at (p + 6) r m) = Continue (at (if r 11 \<le> zext32 ms then p + 20 else p + 7) r m)"
    using f [of 6] by (simp add: defs)
  show "step e (at (p + 7) r m) = Continue (at (p + 8) (r(11 := r base)) m)"
    using f [of 7] by (simp add: defs)
  show "step e (at (p + 8) r m) = Continue (at (p + 9) (r(11 := r 11 + sext16 off)) m)"
    using f [of 8] by (simp add: defs)
  show "step e (at (p + 9) r m) = Continue (at (if r 11 \<le> r 10 then p + 11 else p + 10) r m)"
    using f [of 9] by (simp add: defs)
  show "step e (at (p + 10) r m) = Continue (at (p + 13) r m)"
    using f [of 10] by (simp add: defs)
  show "step e (at (p + 11) r m) = Continue (at (p + 12) (r(11 := r 11 + of_nat STACK_SIZE)) m)"
    using f [of 11] by (simp add: defs st)
  show "step e (at (p + 12) r m) = Continue (at (if r 10 \<le> r 11 then p + 20 else p + 13) r m)"
    using f [of 12] by (simp add: defs)
  show "step e (at (p + 13) r m) = Continue (at (p + 14) (r(1 := r base)) m)"
    using f [of 13] by (simp add: defs)
  show "step e (at (p + 14) r m) = Continue (at (p + 15) (r(1 := r 1 + sext16 off)) m)"
    using f [of 14] by (simp add: defs)
  show "step e (at (p + 15) r m) = Continue (at (p + 17) (r(2 := mp)) m)"
    using f [of 15] f [of 16] by (simp add: defs add.commute [of p])
  show "step e (at (p + 17) r m) = Continue (at (p + 18) (r(3 := r 10)) m)"
    using f [of 17] by (simp add: defs)
qed

lemma signed_nonneg_small: "unat (x :: u64) < 2 ^ 63 \<Longrightarrow> 0 \<le> sint x"
proof -
  assume "unat x < 2 ^ 63"
  then have "int (unat x) < int (2 ^ 63)"
    by (simp only: of_nat_less_iff)
  then have "uint x div 2 ^ 63 = 0"
    by (simp add: div_pos_pos_trivial)
  then show ?thesis
    by (simp add: sint_uint signed_take_bit_nonnegative_iff bit_iff_odd)
qed

lemma heap_ok_signed: "heap_ok mp ms a \<Longrightarrow> 0 \<le> sint (mp + zext32 ms - a)"
proof -
  assume "heap_ok mp ms a"
  then have "unat (mp + zext32 ms - a) \<le> unat ms"
    by (simp add: heap_ok_def word_le_nat_alt)
  moreover have "unat ms < 2 ^ 32"
    by (rule less_le_trans [OF unsigned_less]) simp
  ultimately show ?thesis
    by (intro signed_nonneg_small) simp
qed

text \<open>An access inside the heap or the stack passes the check; only \<open>r11\<close> is used up.\<close>

definition same_but_r11 :: "(u4 \<Rightarrow> u64) \<Rightarrow> (u4 \<Rightarrow> u64) \<Rightarrow> bool" where
  "same_but_r11 r r' \<longleftrightarrow> (\<forall>x. x \<noteq> 11 \<longrightarrow> r' x = r x)"

lemma same_but_r11_upd [simp]: "same_but_r11 r (r'(11 := v)) = same_but_r11 r r'"
  by (auto simp: same_but_r11_def)

lemma same_but_r11_refl [simp]: "same_but_r11 r r"
  by (simp add: same_but_r11_def)

lemma memcheck_heap_phase:
  assumes code: "code_at e p (memcheck mp ms base off)" and base: "base \<noteq> 11"
    and a: "a = r base + sext16 off"
  shows "\<exists>r'. same_but_r11 r r' \<and>
    reaches e (at p r m) (at (if heap_ok mp ms a then p + 20 else p + 7) r' m)"
proof -
  note st = memcheck_steps [OF code]
  define r' where "r' = r(11 := mp + zext32 ms - a)"
  have "reaches e (at p r m) (at (p + 4) r' m)"
    using base a by (intro reaches_step [OF st(1)] reaches_step [OF st(2)] reaches_step [OF st(3)])
      (simp add: r'_def algebra_simps)
  moreover have "reaches e (at (p + 4) r' m) (at (if heap_ok mp ms a then p + 20 else p + 7) r' m)"
  proof (cases "0 \<le> sint (r' 11)")
    case True
    have "reaches e (at (p + 6) r' m) (at (if heap_ok mp ms a then p + 20 else p + 7) r' m)"
      by (rule reaches_step [OF st(6)]) (simp add: r'_def heap_ok_def)
    then show ?thesis
      using True by (intro reaches_step [OF st(4)]) simp
  next
    case False
    then have no: "\<not> heap_ok mp ms a"
      using heap_ok_signed by (auto simp: r'_def)
    have "reaches e (at (p + 5) r' m) (at (p + 7) r' m)"
      by (rule reaches_step [OF st(5)]) simp
    then show ?thesis
      using False no by (intro reaches_step [OF st(4)]) simp
  qed
  ultimately have "reaches e (at p r m) (at (if heap_ok mp ms a then p + 20 else p + 7) r' m)"
    by (rule reaches_trans)
  then show ?thesis
    by (intro exI [of _ r']) (simp add: r'_def)
qed

lemma memcheck_stack_phase:
  assumes code: "code_at e p (memcheck mp ms base off)" and base: "base \<noteq> 11"
    and a: "a = r base + sext16 off"
  shows "\<exists>r'. same_but_r11 r r' \<and>
    reaches e (at (p + 7) r m) (at (if stack_ok (r 10) a then p + 20 else p + 13) r' m)"
proof -
  note st = memcheck_steps [OF code]
  define r1 where "r1 = r(11 := a)"
  define r2 where "r2 = r(11 := a + of_nat STACK_SIZE)"
  have start: "reaches e (at (p + 7) r m) (at (p + 9) r1 m)"
    using base a by (intro reaches_step [OF st(7)] reaches_step [OF st(8)]) (simp add: r1_def)
  show ?thesis
  proof (cases "a \<le> r 10")
    case False
    have "reaches e (at (p + 9) r1 m) (at (p + 13) r1 m)"
      using False reaches_step [OF st(10)] by (intro reaches_step [OF st(9)]) (simp add: r1_def)
    then have "reaches e (at (p + 7) r m) (at (p + 13) r1 m)"
      by (rule reaches_trans [OF start])
    then show ?thesis
      using False by (intro exI [of _ r1]) (simp add: r1_def stack_ok_def)
  next
    case True
    have "reaches e (at (p + 12) r2 m) (at (if stack_ok (r 10) a then p + 20 else p + 13) r2 m)"
      using True by (intro reaches_step [OF st(12)]) (simp add: r2_def stack_ok_def)
    then have "reaches e (at (p + 11) r1 m) (at (if stack_ok (r 10) a then p + 20 else p + 13) r2 m)"
      by (intro reaches_step [OF st(11)]) (simp add: r1_def r2_def)
    then have "reaches e (at (p + 9) r1 m) (at (if stack_ok (r 10) a then p + 20 else p + 13) r2 m)"
      using True by (intro reaches_step [OF st(9)]) (simp add: r1_def)
    then have "reaches e (at (p + 7) r m) (at (if stack_ok (r 10) a then p + 20 else p + 13) r2 m)"
      by (rule reaches_trans [OF start])
    then show ?thesis
      by (intro exI [of _ r2]) (simp add: r2_def)
  qed
qed

lemma memcheck_passes:
  assumes code: "code_at e p (memcheck mp ms base off)" and base: "base \<noteq> 11"
    and a: "a = r base + sext16 off" and ok: "heap_ok mp ms a \<or> stack_ok (r 10) a"
  shows "\<exists>r'. same_but_r11 r r' \<and> reaches e (at p r m) (at (p + 20) r' m)"
proof -
  obtain r1 where r1: "same_but_r11 r r1"
    and heap: "reaches e (at p r m) (at (if heap_ok mp ms a then p + 20 else p + 7) r1 m)"
    using memcheck_heap_phase [OF code base, of a r m] a by blast
  show ?thesis
  proof (cases "heap_ok mp ms a")
    case True
    then show ?thesis
      using r1 heap by auto
  next
    case False
    have same: "r1 base = r base" "r1 10 = r 10"
      using r1 base by (simp_all add: same_but_r11_def)
    obtain r2 where r2: "same_but_r11 r1 r2"
      and stack: "reaches e (at (p + 7) r1 m) (at (if stack_ok (r1 10) a then p + 20 else p + 13) r2 m)"
      using memcheck_stack_phase [OF code base, of a r1 m] a same by auto
    have "reaches e (at p r m) (at (p + 20) r2 m)"
      using heap stack False ok same reaches_trans [of e "at p r m" "at (p + 7) r1 m"] by simp
    then show ?thesis
      using r1 r2 by (auto simp: same_but_r11_def)
  qed
qed

text \<open>Any other access ends at the call of \<open>OOB_CALL\<close>, with the address, the heap and the frame.\<close>

lemma memcheck_rejects:
  assumes code: "code_at e p (memcheck mp ms base off)" and base: "base \<noteq> 11"
    and a: "a = r base + sext16 off" and bad: "\<not> heap_ok mp ms a" "\<not> stack_ok (r 10) a"
  shows "\<exists>r'. r' 1 = a \<and> r' 2 = mp \<and> r' 3 = r 10 \<and> reaches e (at p r m) (at (p + 18) r' m)"
proof -
  note st = memcheck_steps [OF code]
  obtain r1 where r1: "same_but_r11 r r1" and heap: "reaches e (at p r m) (at (p + 7) r1 m)"
    using memcheck_heap_phase [OF code base, of a r m] a bad by auto
  have same1: "r1 base = r base" "r1 10 = r 10"
    using r1 base by (simp_all add: same_but_r11_def)
  obtain r2 where r2: "same_but_r11 r1 r2" and stack: "reaches e (at (p + 7) r1 m) (at (p + 13) r2 m)"
    using memcheck_stack_phase [OF code base, of a r1 m] a same1 bad by auto
  have same2: "r2 base = r base" "r2 10 = r 10"
    using r2 same1 base by (simp_all add: same_but_r11_def)
  define r' where "r' = r2(1 := a, 2 := mp, 3 := r 10)"
  have "reaches e (at (p + 13) r2 m) (at (p + 18) r' m)"
    using same2 a
    by (intro reaches_step [OF st(13)] reaches_step [OF st(14)] reaches_step [OF st(15)]
        reaches_step [OF st(16)]) (simp add: r'_def)
  then have "reaches e (at p r m) (at (p + 18) r' m)"
    using heap stack reaches_trans by blast
  then show ?thesis
    by (intro exI [of _ r']) (simp add: r'_def)
qed

section \<open>The context passed to calls\<close>

lemma ctx_call_steps:
  assumes code: "code_at e p (ctx_call ctx_id inst)" and call: "is_call inst"
    and f: "ext_func_at (ext_funcs e) (imm inst) = Some f"
  shows "step e (at p r m) = Continue (at (p + 1) (r(12 := r 5)) m)"
    and "step e (at (p + 1) r m) = Continue (at (p + 2) (r(5 := r 4)) m)"
    and "step e (at (p + 2) r m) = Continue (at (p + 3) (r(4 := r 3)) m)"
    and "step e (at (p + 3) r m) = Continue (at (p + 4) (r(3 := r 2)) m)"
    and "step e (at (p + 4) r m) = Continue (at (p + 5) (r(2 := r 1)) m)"
    and "step e (at (p + 5) r m) = Continue (at (p + 7) (r(1 := ctx_id)) m)"
    and "step e (at (p + 7) r m) =
      Continue (at (p + 8) (r(0 := fst (f (r 1) (r 2) (r 3) (r 4) (r 5) m)))
        (snd (f (r 1) (r 2) (r 3) (r 4) (r 5) m)))"
    and "step e (at (p + 8) r m) = Continue (at (p + 9) (r(1 := r 2)) m)"
    and "step e (at (p + 9) r m) = Continue (at (p + 10) (r(2 := r 3)) m)"
    and "step e (at (p + 10) r m) = Continue (at (p + 11) (r(3 := r 4)) m)"
    and "step e (at (p + 11) r m) = Continue (at (p + 12) (r(4 := r 5)) m)"
    and "step e (at (p + 12) r m) = Continue (at (p + 13) (r(5 := r 12)) m)"
proof -
  note c = code_at_nth [OF code]
  note defs = ctx_call_def step_inst exec_op_simps
  show "step e (at p r m) = Continue (at (p + 1) (r(12 := r 5)) m)"
    using c [of 0] by (simp add: defs)
  show "step e (at (p + 1) r m) = Continue (at (p + 2) (r(5 := r 4)) m)"
    using c [of 1] by (simp add: defs)
  show "step e (at (p + 2) r m) = Continue (at (p + 3) (r(4 := r 3)) m)"
    using c [of 2] by (simp add: defs)
  show "step e (at (p + 3) r m) = Continue (at (p + 4) (r(3 := r 2)) m)"
    using c [of 3] by (simp add: defs)
  show "step e (at (p + 4) r m) = Continue (at (p + 5) (r(2 := r 1)) m)"
    using c [of 4] by (simp add: defs)
  show "step e (at (p + 5) r m) = Continue (at (p + 7) (r(1 := ctx_id)) m)"
    using c [of 5] c [of 6] by (simp add: defs add.commute [of p])
  show "step e (at (p + 7) r m) =
      Continue (at (p + 8) (r(0 := fst (f (r 1) (r 2) (r 3) (r 4) (r 5) m)))
        (snd (f (r 1) (r 2) (r 3) (r 4) (r 5) m)))"
    using c [of 7] call f by (simp add: defs is_call_def split_beta)
  show "step e (at (p + 8) r m) = Continue (at (p + 9) (r(1 := r 2)) m)"
    using c [of 8] by (simp add: defs)
  show "step e (at (p + 9) r m) = Continue (at (p + 10) (r(2 := r 3)) m)"
    using c [of 9] by (simp add: defs)
  show "step e (at (p + 10) r m) = Continue (at (p + 11) (r(3 := r 4)) m)"
    using c [of 10] by (simp add: defs)
  show "step e (at (p + 11) r m) = Continue (at (p + 12) (r(4 := r 5)) m)"
    using c [of 11] by (simp add: defs)
  show "step e (at (p + 12) r m) = Continue (at (p + 13) (r(5 := r 12)) m)"
    using c [of 12] by (simp add: defs)
qed

text \<open>
  The function sees the context and the first four arguments; afterwards the argument registers
  are as before, the result is in \<open>r0\<close> and \<open>r12\<close> is used up.
\<close>

lemma ctx_call_effect:
  assumes "code_at e p (ctx_call ctx_id inst)" "is_call inst"
    and "ext_func_at (ext_funcs e) (imm inst) = Some f"
    and "f ctx_id (r 1) (r 2) (r 3) (r 4) m = (v, m')"
  shows "reaches e (at p r m) (at (p + 13) (r(0 := v, 12 := r 5)) m')"
proof -
  note st = ctx_call_steps [OF assms(1-3)]
  let ?r = "r(12 := r 5, 5 := r 4, 4 := r 3, 3 := r 2, 2 := r 1, 1 := ctx_id)"
  let ?r' = "?r(0 := v)"
  have before: "reaches e (at p r m) (at (p + 7) ?r m)"
    by (intro reaches_step [OF st(1)] reaches_step [OF st(2)] reaches_step [OF st(3)]
        reaches_step [OF st(4)] reaches_step [OF st(5)] reaches_step [OF st(6)]) simp
  have call: "step e (at (p + 7) ?r m) = Continue (at (p + 8) ?r' m')"
    using st(7) [of ?r m] assms(4) by simp
  have restored: "?r'(1 := ?r' 2, 2 := ?r' 3, 3 := ?r' 4, 4 := ?r' 5, 5 := ?r' 12) = r(0 := v, 12 := r 5)"
    by (rule ext) simp
  have "reaches e (at (p + 8) ?r' m')
      (at (p + 13) (?r'(1 := ?r' 2, 2 := ?r' 3, 3 := ?r' 4, 4 := ?r' 5, 5 := ?r' 12)) m')"
    by (intro reaches_step [OF st(8)] reaches_step [OF st(9)] reaches_step [OF st(10)]
        reaches_step [OF st(11)] reaches_step [OF st(12)]) simp
  then show ?thesis
    unfolding restored using before call reaches_step reaches_trans by blast
qed

end
