(* ===== verification/Ubpf_Sim.thy ===== *)
theory Ubpf_Sim
  imports Ubpf_Rewrite
begin

text \<open>
  The memory checks of \<^verbatim>\<open>src/ubpf/vm/ubpf_vm.c\<close> are transparent: a program rewritten by
  \<open>rewrite_with_memchecks\<close> simulates the original one, instruction by instruction and over whole runs,
  as long as its accesses pass the checks; an access that does not pass is not made. Then the
  properties of both passes.
\<close>

section \<open>Simulation\<close>

text \<open>One instruction run from two register files that differ in \<open>r11\<close> at most.\<close>

fun out_sim :: "u16 \<Rightarrow> u16 \<Rightarrow> outcome \<Rightarrow> outcome \<Rightarrow> bool" where
  "out_sim q q' (Continue t) (Continue t') =
     (pc t = q \<and> pc t' = q' \<and> mem t' = mem t \<and> same_but_r11 (regs t) (regs t'))"
| "out_sim q q' (Return v err m) (Return v' err' m') = (v' = v \<and> m' = m)"
| "out_sim q q' (Trap x) (Trap x') = (x' = x)"
| "out_sim q q' _ _ = False"

lemma same_but_r11_set: "same_but_r11 r r' \<Longrightarrow> same_but_r11 (r(x := v)) (r'(x := v))"
  by (simp add: same_but_r11_def)

lemma same_but_r11_arg [simp]:
  assumes "same_but_r11 r r'"
  shows "r' 0 = r 0" "r' 1 = r 1" "r' 2 = r 2" "r' 3 = r 3" "r' 4 = r 4" "r' 5 = r 5"
  using assms by (simp_all add: same_but_r11_def)

lemma exec_op_sim:
  assumes op: "\<not> is_jump p" "p \<noteq> LDDW" and regs: "dst i \<noteq> 11" "src i \<noteq> 11" "same_but_r11 r r'"
  shows "out_sim q q' (exec_op e cur i (at q r m) p)
    (exec_op (e\<lparr>insts := P\<rparr>) cur' i (at q' r' m) p)"
proof -
  have ds: "r' (dst i) = r (dst i)" "r' (src i) = r (src i)"
    using regs by (simp_all add: same_but_r11_def)
  have bc: "bounds_check (e\<lparr>insts := P\<rparr>) a n = bounds_check e a n" for a n
    by (simp add: bounds_check_def)
  have alu: "out_sim q q' (exec_alu cur i (at q r m) x) (exec_alu cur' i (at q' r' m) x)" for x
    using regs(3) by (cases x) (auto simp: exec_alu_def set_dst_def same_but_r11_set)
  have opd: "src_operand md i (at q' r' m) = src_operand md i (at q r m)" for md
    using ds by (cases md) (simp_all add: src_operand_def)
  have call: "out_sim q q' (exec_call e i (at q r m)) (exec_call (e\<lparr>insts := P\<rparr>) i (at q' r' m))"
    using regs(3)
    by (simp add: exec_call_def same_but_r11_set split: option.split prod.split)
  show ?thesis
    using op alu call ds opd bc regs(3)
    by (cases p) (simp_all add: is_jump_def exec_load_def exec_store_def set_dst_def Let_def
        same_but_r11_set)
qed

text \<open>The address a checked access uses.\<close>

definition base_reg :: "ebpf_inst \<Rightarrow> u4" where
  "base_reg inst = (case decode_op (opcode inst) of Some (LDX _) \<Rightarrow> src inst | _ \<Rightarrow> dst inst)"

definition access_addr :: "ebpf_inst \<Rightarrow> (u4 \<Rightarrow> u64) \<Rightarrow> u64" where
  "access_addr inst r = r (base_reg inst) + sext16 (offset inst)"

definition guard_ok :: "u64 \<Rightarrow> u32 \<Rightarrow> ebpf_inst \<Rightarrow> (u4 \<Rightarrow> u64) \<Rightarrow> bool" where
  "guard_ok mp ms inst r \<longleftrightarrow> heap_ok mp ms (access_addr inst r) \<or> stack_ok (r 10) (access_addr inst r)"

lemma memcheck_inst_checked:
  "needs_check inst \<Longrightarrow>
    memcheck_inst mp ms pcs i inst = memcheck mp ms (base_reg inst) (offset inst) @ [inst]"
  by (auto simp: needs_check_def memcheck_inst_def base_reg_def split: option.splits ebpf_op.splits)

lemma memcheck_inst_plain:
  "\<not> needs_check inst \<Longrightarrow> decode_op (opcode inst) = Some p \<Longrightarrow> \<not> is_jump p \<Longrightarrow>
    memcheck_inst mp ms pcs i inst = [inst]"
  by (cases p) (auto simp: needs_check_def memcheck_inst_def is_jump_def)

lemma accepted_regs:
  assumes "accepted fs is j"
  shows "dst (is ! j) \<noteq> 11" "src (is ! j) \<noteq> 11"
  using assms by (auto simp: accepted_def elim!: validate_instE)

lemma code_at_appendL: "code_at e p (xs @ ys) \<Longrightarrow> code_at e p xs"
  by (auto simp: code_at_def nth_append)

lemma code_at_appendR:
  assumes "code_at e p (xs @ ys)"
  shows "code_at e (p + of_nat (length xs)) ys"
proof -
  have "fetch e (p + of_nat (length xs) + of_nat j) = Some (ys ! j)" if "j < length ys" for j
    using code_at_nth [OF assms, of "length xs + j"] that by (simp add: add.assoc)
  then show ?thesis
    by (simp add: code_at_def)
qed

lemma code_at_single: "code_at e p [i] \<Longrightarrow> fetch e p = Some i"
  using code_at_nth [of e p "[i]" 0] by simp

text \<open>The states of the two programs that correspond.\<close>

definition sim :: "ebpf_inst list \<Rightarrow> vm_state \<Rightarrow> vm_state \<Rightarrow> bool" where
  "sim is s s' \<longleftrightarrow>
     pc s' = of_nat (new_index 20 (\<lambda>j. needs_check (is ! j)) (unat (pc s))) \<and>
     mem s' = mem s \<and> same_but_r11 (regs s) (regs s')"

fun sim_result :: "vm_env \<Rightarrow> ebpf_inst list \<Rightarrow> vm_state \<Rightarrow> outcome \<Rightarrow> bool" where
  "sim_result e' is s' (Continue t) = (\<exists>t'. reaches e' s' t' \<and> sim is t t')"
| "sim_result e' is s' (Return v err m) =
     (\<exists>t' err'. reaches e' s' t' \<and> step e' t' = Return v err' m)"
| "sim_result e' is s' (Trap x) = (\<exists>t'. reaches e' s' t' \<and> step e' t' = Trap x)"

lemma sim_result_out:
  assumes "out_sim q q' (step e s) (step e' t')" and "reaches e' s' t'"
    and "q' = of_nat (new_index 20 (\<lambda>j. needs_check (is ! j)) (unat q))"
  shows "sim_result e' is s' (step e s)"
proof (cases "step e s")
  case (Continue t)
  then obtain t'' where "step e' t' = Continue t''" "pc t = q" "pc t'' = q'" "mem t'' = mem t"
    "same_but_r11 (regs t) (regs t'')"
    using assms(1) by (cases "step e' t'") auto
  moreover from this have "reaches e' s' t''"
    using assms(2) reaches_step reaches_trans reaches_refl by blast
  ultimately show ?thesis
    using Continue assms(3) by (auto simp: sim_def)
next
  case (Return v err m)
  then show ?thesis
    using assms(1,2) by (cases "step e' t'") auto
next
  case (Trap x)
  then show ?thesis
    using assms(1,2) by (cases "step e' t'") auto
qed

lemma vm_state_eta: "s = at (pc s) (regs s) (mem s)" for s :: vm_state
  by simp

text \<open>
  \<open>e'\<close> runs the rewritten program of \<open>e\<close>, which the 16-bit program counter can still address.
\<close>

definition checked_env :: "u64 \<Rightarrow> u32 \<Rightarrow> vm_env \<Rightarrow> vm_env \<Rightarrow> bool" where
  "checked_env mp ms e e' \<longleftrightarrow>
     (\<exists>pcs. validate (ext_funcs e) (insts e) = Inr pcs \<and>
        e' = e\<lparr>insts := rewrite_with_memchecks mp ms pcs (insts e)\<rparr>) \<and>
     length (insts e') < 2 ^ 16"

abbreviation checked_index :: "vm_env \<Rightarrow> nat \<Rightarrow> nat" where
  "checked_index e \<equiv> new_index 20 (\<lambda>j. needs_check (insts e ! j))"

abbreviation checked_pcs :: "vm_env \<Rightarrow> nat list" where
  "checked_pcs e \<equiv> filter (\<lambda>j. needs_check (insts e ! j)) [0..<length (insts e)]"

lemma checked_env_insts:
  assumes "checked_env mp ms e e'"
  shows "validate (ext_funcs e) (insts e) = Inr (checked_pcs e)"
    and "e' = e\<lparr>insts := rewrite_with_memchecks mp ms (checked_pcs e) (insts e)\<rparr>"
    and "length (insts e) < 2 ^ 16"
proof -
  from assms obtain pcs where v: "validate (ext_funcs e) (insts e) = Inr pcs"
    and e': "e' = e\<lparr>insts := rewrite_with_memchecks mp ms pcs (insts e)\<rparr>"
    by (auto simp: checked_env_def)
  moreover have "pcs = checked_pcs e"
    by (rule validate_rewrite_pcs [OF v])
  ultimately show "validate (ext_funcs e) (insts e) = Inr (checked_pcs e)"
    and "e' = e\<lparr>insts := rewrite_with_memchecks mp ms (checked_pcs e) (insts e)\<rparr>"
    by simp_all
  show "length (insts e) < 2 ^ 16"
    using validate_length [OF v] by (simp add: MAX_INSTS_def)
qed

lemma checked_env_code:
  assumes env: "checked_env mp ms e e'" and i: "i < length (insts e)"
  shows "code_at e' (of_nat (checked_index e i)) (memcheck_inst mp ms (checked_pcs e) i (insts e ! i))"
proof (rule memchecks.code_at_expanded [OF _ _ i])
  show "insts e' = concat (map (\<lambda>i. memcheck_inst mp ms (checked_pcs e) i (insts e ! i))
      [0..<length (insts e)])"
    by (subst checked_env_insts(2) [OF env]) (simp add: rewrite_with_memchecks_def)
  show "length (insts e') < 2 ^ 16"
    using env by (simp add: checked_env_def)
qed

lemma checked_step:
  assumes env: "checked_env mp ms e e'" and at: "boundary (insts e) (pc s)"
  obtains n v p where "decode_op (opcode (insts e ! unat (pc s))) = Some p"
    "validate_op (ext_funcs e) (insts e) (unat (pc s)) n p = Inr v"
    "unat (pc s) < length (insts e)" "unat (pc s + 1) = unat (pc s) + 1"
    "dst (insts e ! unat (pc s)) \<noteq> 11" "src (insts e ! unat (pc s)) \<noteq> 11"
    "step e s = exec_op e (pc s) (insts e ! unat (pc s)) (at (pc s + 1) (regs s) (mem s)) p"
proof -
  let ?i = "unat (pc s)"
  have len: "?i < length (insts e)" and op0: "opcode (insts e ! ?i) \<noteq> 0"
    using at by (simp_all add: boundary_def)
  have acc: "accepted (ext_funcs e) (insts e) ?i"
    by (rule accepted_boundary [OF checked_env_insts(1) [OF env] len op0])
  then obtain n v where "validate_inst (ext_funcs e) (insts e) ?i n = Inr v"
    by (auto simp: accepted_def)
  then obtain p where p: "decode_op (opcode (insts e ! ?i)) = Some p"
    and vop: "validate_op (ext_funcs e) (insts e) ?i n p = Inr v"
    by (rule validate_instE)
  have suc: "unat (pc s + 1) = ?i + 1"
    using len checked_env_insts(3) [OF env] by (intro unat_pc_suc) simp
  have "step e s = exec_op e (pc s) (insts e ! ?i) (at (pc s + 1) (regs s) (mem s)) p"
    using len p by (cases s) (simp add: step_def fetch_def)
  then show thesis
    using that [OF p vop len suc accepted_regs [OF acc]] by blast
qed

lemma simE:
  assumes "sim (insts e) s s'"
  obtains r' where "s' = at (of_nat (checked_index e (unat (pc s)))) r' (mem s)"
    "same_but_r11 (regs s) r'"
  using assms by (cases s') (auto simp: sim_def)

text \<open>An instruction that is neither a jump nor \<open>LDDW\<close>, from where its own code stands.\<close>

lemma sim_straight:
  assumes env: "checked_env mp ms e e'"
    and p: "decode_op (opcode inst) = Some p" "\<not> is_jump p" "p \<noteq> LDDW"
    and regs: "dst inst \<noteq> 11" "src inst \<noteq> 11" "same_but_r11 (regs s) r'"
    and code: "fetch e' q = Some inst" and reach: "reaches e' s' (at q r' (mem s))"
    and stepped: "step e s = exec_op e (pc s) inst (at (pc s + 1) (regs s) (mem s)) p"
    and suc: "unat (pc s + 1) = unat (pc s) + 1" and q: "q + 1 = of_nat (checked_index e (unat (pc s) + 1))"
  shows "sim_result e' (insts e) s' (step e s)"
proof (rule sim_result_out [OF _ reach, of "pc s + 1" "q + 1"])
  have "step e' (at q r' (mem s)) = exec_op e' q inst (at (q + 1) r' (mem s)) p"
    by (rule step_inst [OF code p(1)])
  then show "out_sim (pc s + 1) (q + 1) (step e s) (step e' (at q r' (mem s)))"
    using exec_op_sim [OF p(2,3) regs] checked_env_insts(2) [OF env] stepped by metis
  show "q + 1 = of_nat (checked_index e (unat (pc s + 1)))"
    using q suc by simp
qed

lemma needs_check_op:
  "needs_check inst \<Longrightarrow> decode_op (opcode inst) = Some p \<Longrightarrow> \<not> is_jump p \<and> p \<noteq> LDDW"
  by (cases p) (simp_all add: needs_check_def is_jump_def)

lemma base_reg_same: "needs_check inst \<Longrightarrow> dst inst \<noteq> 11 \<Longrightarrow> src inst \<noteq> 11 \<Longrightarrow> base_reg inst \<noteq> 11"
  by (simp add: base_reg_def split: option.split ebpf_op.split)

lemma sim_checked:
  assumes env: "checked_env mp ms e e'" and bd: "boundary (insts e) (pc s)"
    and sim: "sim (insts e) s s'" and chk: "needs_check (insts e ! unat (pc s))"
    and ok: "guard_ok mp ms (insts e ! unat (pc s)) (regs s)"
  shows "sim_result e' (insts e) s' (step e s)"
proof -
  let ?i = "unat (pc s)"
  let ?inst = "insts e ! ?i" and ?q = "of_nat (checked_index e ?i) :: u16"
  from checked_step [OF env bd] obtain p where p: "decode_op (opcode ?inst) = Some p"
    and len: "?i < length (insts e)" and suc: "unat (pc s + 1) = ?i + 1"
    and regs: "dst ?inst \<noteq> 11" "src ?inst \<noteq> 11"
    and stepped: "step e s = exec_op e (pc s) ?inst (at (pc s + 1) (regs s) (mem s)) p"
    by metis
  from simE [OF sim] obtain r where s': "s' = at ?q r (mem s)" and r: "same_but_r11 (regs s) r"
    by blast
  have code: "code_at e' ?q (memcheck mp ms (base_reg ?inst) (offset ?inst) @ [?inst])"
    using checked_env_code [OF env len] by (simp add: memcheck_inst_checked [OF chk])
  have base: "base_reg ?inst \<noteq> 11"
    by (rule base_reg_same [OF chk regs])
  then have same: "r (base_reg ?inst) = regs s (base_reg ?inst)" "r 10 = regs s 10"
    using r by (simp_all add: same_but_r11_def)
  obtain r' where r': "same_but_r11 r r'" and reach: "reaches e' s' (at (?q + 20) r' (mem s))"
    using memcheck_passes [OF code_at_appendL [OF code] base refl, of r "mem s"] ok same
    by (auto simp: s' guard_ok_def access_addr_def)
  have "same_but_r11 (regs s) r'"
    using r r' by (simp add: same_but_r11_def)
  moreover have "fetch e' (?q + 20) = Some ?inst"
    using code_at_single [OF code_at_appendR [OF code]] by simp
  moreover have "?q + 20 + 1 = of_nat (checked_index e (?i + 1))"
    using chk by (simp add: new_index_Suc add.commute)
  ultimately show ?thesis
    using sim_straight [OF env p _ _ regs _ _ reach stepped suc] needs_check_op [OF chk p] by blast
qed

lemma sim_plain:
  assumes env: "checked_env mp ms e e'" and bd: "boundary (insts e) (pc s)"
    and sim: "sim (insts e) s s'" and chk: "\<not> needs_check (insts e ! unat (pc s))"
    and op: "decode_op (opcode (insts e ! unat (pc s))) = Some p" "\<not> is_jump p" "p \<noteq> LDDW"
  shows "sim_result e' (insts e) s' (step e s)"
proof -
  let ?i = "unat (pc s)"
  let ?inst = "insts e ! ?i" and ?q = "of_nat (checked_index e ?i) :: u16"
  from checked_step [OF env bd] op(1) have len: "?i < length (insts e)"
    and suc: "unat (pc s + 1) = ?i + 1" and regs: "dst ?inst \<noteq> 11" "src ?inst \<noteq> 11"
    and stepped: "step e s = exec_op e (pc s) ?inst (at (pc s + 1) (regs s) (mem s)) p"
    by (metis option.inject)+
  from simE [OF sim] obtain r where s': "s' = at ?q r (mem s)" and r: "same_but_r11 (regs s) r"
    by blast
  have "fetch e' ?q = Some ?inst"
    using checked_env_code [OF env len] memcheck_inst_plain [OF chk op(1,2)]
    by (intro code_at_single) simp
  moreover have "?q + 1 = of_nat (checked_index e (?i + 1))"
    using chk by (simp add: new_index_Suc add.commute)
  ultimately show ?thesis
    using sim_straight [OF env op regs r _ _ stepped suc, of ?q s'] by (simp add: s')
qed

lemma jmp_operand_cong:
  "imm i' = imm i \<Longrightarrow> regs t (src i') = regs s (src i) \<Longrightarrow> jmp_operand j m i' t = jmp_operand j m i s"
  by (cases m) (simp_all add: jmp_operand_def)

lemma sim_jump:
  assumes env: "checked_env mp ms e e'" and bd: "boundary (insts e) (pc s)"
    and sim: "sim (insts e) s s'"
    and op: "decode_op (opcode (insts e ! unat (pc s))) = Some p" "is_jump p"
  shows "sim_result e' (insts e) s' (step e s)"
proof -
  let ?i = "unat (pc s)"
  let ?inst = "insts e ! ?i" and ?q = "of_nat (checked_index e ?i) :: u16"
  let ?inst' = "memcheck_inst mp ms (checked_pcs e) ?i ?inst ! 0"
  from checked_step [OF env bd] op(1) obtain n v where len: "?i < length (insts e)"
    and suc: "unat (pc s + 1) = ?i + 1" and regs: "dst ?inst \<noteq> 11" "src ?inst \<noteq> 11"
    and stepped: "step e s = exec_op e (pc s) ?inst (at (pc s + 1) (regs s) (mem s)) p"
    and vop: "validate_op (ext_funcs e) (insts e) ?i n p = Inr v"
    by (metis option.inject)
  from simE [OF sim] obtain r where s': "s' = at ?q r (mem s)" and r: "same_but_r11 (regs s) r"
    by blast
  have nochk: "\<not> needs_check ?inst"
    by (rule memchecks.jump_not_hit [OF op])
  have code: "fetch e' ?q = Some ?inst'"
    using code_at_nth [OF checked_env_code [OF env len], of 0] by (simp add: length_memcheck_inst)
  have inst': "opcode ?inst' = opcode ?inst" "dst ?inst' = dst ?inst" "src ?inst' = src ?inst"
    "imm ?inst' = imm ?inst"
    using op by (cases p; simp add: memcheck_inst_def is_jump_def)+
  have vj: "validate_jump (insts e) ?i ?inst = Inr v"
    using vop op(2) by (cases p) (simp_all add: is_jump_def)
  define t where "t = unat (pc s + 1 + offset ?inst)"
  have small: "length (insts e) < 2 ^ 16"
    by (rule checked_env_insts(3) [OF env])
  have t: "t < length (insts e)" "jump_target ?i ?inst = int t"
    using jump_lands [OF small vj] jump_lands_target [OF small vj] by (simp_all add: t_def boundary_def jump_target_def)
  have land: "?q + 1 + offset ?inst' = of_nat (checked_index e t)"
    by (rule memchecks.jump_lands_expanded [OF len op t(2,1) small])
  have nxt: "?q + 1 = of_nat (checked_index e (unat (pc s + 1)))"
    using nochk suc by (simp add: new_index_Suc add.commute)
  define taken where "taken = (case p of JMP j m \<Rightarrow>
    jmp_cond j (regs s (dst ?inst)) (jmp_operand j m ?inst s) | _ \<Rightarrow> True)"
  have opd: "jmp_operand j m ?inst (at (pc s + 1) (regs s) (mem s)) = jmp_operand j m ?inst s"
    "jmp_operand j m ?inst' (at (?q + 1) r (mem s)) = jmp_operand j m ?inst s" for j m
    using r regs inst' by (intro jmp_operand_cong; simp add: same_but_r11_def)+
  have rd: "r (dst ?inst) = regs s (dst ?inst)"
    using r regs by (simp add: same_but_r11_def)
  have "step e s = exec_jump taken ?inst (at (pc s + 1) (regs s) (mem s))"
    using stepped op(2) by (cases p) (simp_all add: is_jump_def taken_def opd)
  moreover have "step e' s' = exec_jump taken ?inst' (at (?q + 1) r (mem s))"
    using step_inst [OF code, of p r "mem s"] op inst'
    by (cases p) (simp_all add: is_jump_def taken_def opd rd s')
  ultimately show ?thesis
    using r land nxt reaches_step [of e' s' _ _, OF _ reaches_refl]
    by (auto simp: exec_jump_def sim_def t_def)
qed

lemma lddw_end:
  fixes p :: u16
  assumes env: "checked_env mp ms e e'" and len: "Suc (unat p) < length (insts e)"
    and suc: "unat (p + 1) = unat p + 1"
  shows "unat (p + 1 + 1) = Suc (Suc (unat p))"
  using len suc checked_env_insts(1) [OF env, THEN validate_length] unat_pc_suc [of "p + 1"]
  by (simp add: MAX_INSTS_def)

text \<open>Both halves of an \<open>LDDW\<close> are copied, next to each other.\<close>

lemma sim_lddw:
  assumes env: "checked_env mp ms e e'" and bd: "boundary (insts e) (pc s)"
    and sim: "sim (insts e) s s'"
    and op: "decode_op (opcode (insts e ! unat (pc s))) = Some LDDW"
  shows "sim_result e' (insts e) s' (step e s)"
proof -
  let ?i = "unat (pc s)"
  let ?inst = "insts e ! ?i" and ?hi = "insts e ! Suc ?i" and ?q = "of_nat (checked_index e ?i) :: u16"
  from checked_step [OF env bd] op(1) obtain n v where len: "?i < length (insts e)"
    and suc: "unat (pc s + 1) = ?i + 1"
    and stepped: "step e s = exec_op e (pc s) ?inst (at (pc s + 1) (regs s) (mem s)) LDDW"
    and vop: "validate_op (ext_funcs e) (insts e) ?i n LDDW = Inr v"
    by (metis option.inject)
  from simE [OF sim] obtain r where s': "s' = at ?q r (mem s)" and r: "same_but_r11 (regs s) r"
    by blast
  have half: "Suc ?i < length (insts e)" "opcode ?hi = 0"
    using vop by (auto simp: validate_defs split: if_splits)
  have nochk: "\<not> needs_check ?inst" "\<not> needs_check ?hi"
    using op half by (simp_all add: needs_check_def)
  have "code_at e' ?q [?inst]"
    using checked_env_code [OF env len] op by (simp add: memcheck_inst_def)
  moreover have "code_at e' (?q + 1) [?hi]"
    using checked_env_code [OF env half(1)] half(2) nochk(1)
    by (simp add: memcheck_inst_def new_index_Suc add.commute)
  ultimately have code: "fetch e' ?q = Some ?inst" "fetch e' (?q + 1) = Some ?hi"
    by (simp_all add: code_at_single)
  define w where "w = zext32 (imm ?inst) OR push_bit 32 (sext32 (imm ?hi))"
  have "step e s = Continue (at (pc s + 1 + 1) ((regs s)(dst ?inst := w)) (mem s))"
    using stepped half(1) suc by (simp add: exec_lddw_def fetch_def set_dst_def w_def)
  moreover have "step e' s' = Continue (at (?q + 1 + 1) (r(dst ?inst := w)) (mem s))"
    using step_inst [OF code(1) op, of r "mem s"] code(2)
    by (simp add: exec_lddw_def set_dst_def s' w_def)
  moreover have "unat (pc s + 1 + 1) = Suc (Suc ?i)"
    using lddw_end [OF env half(1) suc] by simp
  moreover have "?q + 1 + 1 = of_nat (checked_index e (Suc (Suc ?i)))"
    using nochk by (simp add: new_index_Suc add.commute)
  ultimately show ?thesis
    using r reaches_step [OF _ reaches_refl] same_but_r11_set by (fastforce simp: sim_def)
qed

text \<open>
  One turn of the original program, from a state the checker allows and with an access that the
  guard lets through, is matched by the rewritten program.
\<close>

lemma memchecks_step_sim:
  assumes env: "checked_env mp ms e e'" and bd: "boundary (insts e) (pc s)"
    and sim: "sim (insts e) s s'"
    and ok: "needs_check (insts e ! unat (pc s)) \<Longrightarrow> guard_ok mp ms (insts e ! unat (pc s)) (regs s)"
  shows "sim_result e' (insts e) s' (step e s)"
proof -
  from checked_step [OF env bd] obtain p where p: "decode_op (opcode (insts e ! unat (pc s))) = Some p"
    by metis
  consider "needs_check (insts e ! unat (pc s))" | "is_jump p" | "p = LDDW"
    | "\<not> needs_check (insts e ! unat (pc s))" "\<not> is_jump p" "p \<noteq> LDDW"
    by blast
  then show ?thesis
    using sim_checked [OF env bd sim] sim_jump [OF env bd sim p] sim_lddw [OF env bd sim]
      sim_plain [OF env bd sim _ p] ok p by cases blast+
qed

text \<open>An access the guard refuses is not made: the program calls \<open>OOB_CALL\<close> instead.\<close>

lemma memchecks_step_guard:
  assumes env: "checked_env mp ms e e'" and bd: "boundary (insts e) (pc s)"
    and sim: "sim (insts e) s s'" and chk: "needs_check (insts e ! unat (pc s))"
    and bad: "\<not> guard_ok mp ms (insts e ! unat (pc s)) (regs s)"
  shows "\<exists>t. reaches e' s' t \<and> mem t = mem s \<and> fetch e' (pc t) = Some (mk CALL 0 0 0 OOB_CALL) \<and>
    regs t 1 = access_addr (insts e ! unat (pc s)) (regs s) \<and> regs t 2 = mp \<and> regs t 3 = regs s 10"
proof -
  let ?i = "unat (pc s)"
  let ?inst = "insts e ! ?i" and ?q = "of_nat (checked_index e ?i) :: u16"
  from checked_step [OF env bd] have len: "?i < length (insts e)"
    and regs: "dst ?inst \<noteq> 11" "src ?inst \<noteq> 11"
    by metis+
  from simE [OF sim] obtain r where s': "s' = at ?q r (mem s)" and r: "same_but_r11 (regs s) r"
    by blast
  have code: "code_at e' ?q (memcheck mp ms (base_reg ?inst) (offset ?inst))"
    using checked_env_code [OF env len] by (simp add: memcheck_inst_checked [OF chk] code_at_appendL)
  have base: "base_reg ?inst \<noteq> 11"
    by (rule base_reg_same [OF chk regs])
  then have same: "r (base_reg ?inst) = regs s (base_reg ?inst)" "r 10 = regs s 10"
    using r by (simp_all add: same_but_r11_def)
  obtain r' where "r' 1 = access_addr ?inst (regs s)" "r' 2 = mp" "r' 3 = r 10"
    "reaches e' s' (at (?q + 18) r' (mem s))"
    using memcheck_rejects [OF code base refl, of r "mem s"] bad same
    by (auto simp: s' guard_ok_def access_addr_def)
  moreover have "fetch e' (?q + 18) = Some (mk CALL 0 0 0 OOB_CALL)"
    using code_at_nth [OF code, of 18] by (simp add: memcheck_def Let_def)
  ultimately show ?thesis
    using same by (intro exI [of _ "at (?q + 18) r' (mem s)"]) simp
qed

text \<open>Whole runs: as long as every guarded access passes, the rewritten program keeps up.\<close>

definition guards_pass :: "u64 \<Rightarrow> u32 \<Rightarrow> vm_env \<Rightarrow> vm_state \<Rightarrow> bool" where
  "guards_pass mp ms e s \<longleftrightarrow> unat (pc s) < length (insts e) \<and>
     (needs_check (insts e ! unat (pc s)) \<longrightarrow> guard_ok mp ms (insts e ! unat (pc s)) (regs s))"

lemma sim_result_reaches:
  "reaches e' s' t' \<Longrightarrow> sim_result e' is t' x \<Longrightarrow> sim_result e' is s' x"
  by (cases x) (auto intro: reaches_trans)

lemma memchecks_run_sim:
  assumes env: "checked_env mp ms e e'"
  shows "boundary (insts e) (pc s) \<Longrightarrow> sim (insts e) s s' \<Longrightarrow>
    (\<And>k t. k < n \<Longrightarrow> run k e s = Continue t \<Longrightarrow> guards_pass mp ms e t) \<Longrightarrow>
    sim_result e' (insts e) s' (run n e s)"
proof (induction n arbitrary: s s')
  case 0
  then show ?case
    by (auto intro: reaches_refl)
next
  case (Suc n)
  have here: "sim_result e' (insts e) s' (step e s)"
    using memchecks_step_sim [OF env Suc.prems(1,2)] Suc.prems(3) [of 0 s] by (simp add: guards_pass_def)
  show ?case
  proof (cases "step e s")
    case (Continue t)
    with here obtain t' where t': "reaches e' s' t'" "sim (insts e) t t'"
      by auto
    have later: "guards_pass mp ms e u" if "k < n" "run k e t = Continue u" for k u
      using Suc.prems(3) [of "Suc k" u] that Continue by simp
    have "sim_result e' (insts e) t' (run n e t)"
    proof (cases "n = 0")
      case True
      then show ?thesis
        using t'(2) by (auto intro: reaches_refl)
    next
      case False
      then have "unat (pc t) < length (insts e)"
        using later [of 0 t] by (simp add: guards_pass_def)
      moreover have "next_ok (insts e) (pc t)"
        using step_accepted [OF checked_env_insts(1) [OF env] Suc.prems(1)] Continue by simp
      ultimately have "boundary (insts e) (pc t)"
        by (auto simp: next_ok_def)
      then show ?thesis
        by (rule Suc.IH [OF _ t'(2)]) (rule later)
    qed
    then show ?thesis
      using Continue t'(1) sim_result_reaches by simp
  qed (use here in auto)
qed

section \<open>Properties\<close>

text \<open>
  C9. The checks are transparent for one turn: in an accepted program whose guarded access passes the
  check (any other instruction is unconditional), the rewritten program reaches a state that
  corresponds to the one the original program reaches, with the same memory and the same registers
  except \<open>r11\<close>, or returns the same value, or stops at the same fault.
\<close>

theorem memchecks_simulate_step:
  assumes "checked_env mp ms e e'" and "boundary (insts e) (pc s)" and "sim (insts e) s s'"
    and "needs_check (insts e ! unat (pc s)) \<longrightarrow> guard_ok mp ms (insts e ! unat (pc s)) (regs s)"
  shows "sim_result e' (insts e) s' (step e s)"
  using memchecks_step_sim [OF assms(1-3)] assms(4) by blast

definition store_7 :: "ebpf_inst list" where
  "store_7 = [mk (ST SZ_W) 1 0 0 7, mk EXIT 0 0 0 0]"

definition plain_env :: vm_env where
  "plain_env = \<lparr>insts = store_7, ext_funcs = [], arg_mem = 0x1000, arg_mem_len = 0x100, stack = 0x2000\<rparr>"

definition heap_env :: vm_env where
  "heap_env = plain_env\<lparr>insts := rewrite_with_memchecks 0x1000 0x100 [0] store_7\<rparr>"

definition start_at :: "u64 \<Rightarrow> vm_state" where
  "start_at a = \<lparr>pc = 0, regs = (\<lambda>_. 0)(1 := a, 10 := 0x2800), mem = (\<lambda>_. 0)\<rparr>"

lemma validate_store_7: "validate fs store_7 = Inr [0]"
  by (simp add: validate_def store_7_def MAX_INSTS_def validate_loop.simps validate_inst_def
      validate_access_def MAX_LOAD_STORE_def)

lemma store_7_setup:
  "checked_env 0x1000 0x100 plain_env heap_env" "boundary (insts plain_env) (pc (start_at a))"
  "sim (insts plain_env) (start_at a) (start_at a)" "needs_check (insts plain_env ! unat (pc (start_at a)))"
proof -
  have "length (rewrite_with_memchecks 0x1000 0x100 [0] store_7) = 22"
    by (simp add: rewrite_with_memchecks_def store_7_def upt_rec length_memcheck_inst needs_check_def)
  then show "checked_env 0x1000 0x100 plain_env heap_env"
    using validate_store_7 by (auto simp: checked_env_def heap_env_def plain_env_def)
  show "boundary (insts plain_env) (pc (start_at a))"
    by (simp add: boundary_def plain_env_def store_7_def start_at_def)
  show "sim (insts plain_env) (start_at a) (start_at a)"
    by (simp add: sim_def start_at_def)
  show "needs_check (insts plain_env ! unat (pc (start_at a)))"
    by (simp add: needs_check_def plain_env_def store_7_def start_at_def)
qed

lemma store_7_guard:
  "guard_ok 0x1000 0x100 (insts plain_env ! unat (pc (start_at a))) (regs (start_at a)) \<longleftrightarrow>
    heap_ok 0x1000 0x100 a \<or> stack_ok 0x2800 a"
  by (simp add: guard_ok_def access_addr_def base_reg_def plain_env_def store_7_def start_at_def sext16_def)

theorem memchecks_simulate_step_witness:
  "sim_result heap_env (insts plain_env) (start_at 0x1010) (step plain_env (start_at 0x1010))"
proof (rule memchecks_simulate_step [OF store_7_setup(1-3)])
  have "heap_ok 0x1000 0x100 0x1010"
    by (simp add: heap_ok_def zext32_def)
  then show "needs_check (insts plain_env ! unat (pc (start_at 0x1010))) \<longrightarrow>
      guard_ok 0x1000 0x100 (insts plain_env ! unat (pc (start_at 0x1010))) (regs (start_at 0x1010))"
    by (simp only: store_7_guard) simp
qed

text \<open>
  C18. An access the check refuses is not made: with memory untouched the rewritten program arrives at
  the call of the reporting function, with the address, the start of the heap and the frame pointer in
  the argument registers.
\<close>

theorem memcheck_blocks_access:
  assumes "checked_env mp ms e e'" and "boundary (insts e) (pc s)" and "sim (insts e) s s'"
    and "needs_check (insts e ! unat (pc s))" and "\<not> guard_ok mp ms (insts e ! unat (pc s)) (regs s)"
  shows "\<exists>t. reaches e' s' t \<and> mem t = mem s \<and> fetch e' (pc t) = Some (mk CALL 0 0 0 OOB_CALL) \<and>
    regs t 1 = access_addr (insts e ! unat (pc s)) (regs s) \<and> regs t 2 = mp \<and> regs t 3 = regs s 10"
  by (rule memchecks_step_guard [OF assms])

theorem memcheck_blocks_access_witness:
  "\<exists>t. reaches heap_env (start_at 0x1101) t \<and> mem t = mem (start_at 0x1101) \<and>
    fetch heap_env (pc t) = Some (mk CALL 0 0 0 OOB_CALL) \<and>
    regs t 1 = access_addr (insts plain_env ! unat (pc (start_at 0x1101))) (regs (start_at 0x1101)) \<and>
    regs t 2 = 0x1000 \<and> regs t 3 = regs (start_at 0x1101) 10"
proof (rule memcheck_blocks_access [OF store_7_setup])
  have "\<not> heap_ok 0x1000 0x100 0x1101" "\<not> stack_ok 0x2800 0x1101"
    by code_simp+
  then show "\<not> guard_ok 0x1000 0x100 (insts plain_env ! unat (pc (start_at 0x1101))) (regs (start_at 0x1101))"
    by (simp only: store_7_guard) simp
qed

text \<open>
  The check looks at the address of an access and not at its size: an access of any size at the
  address just past the heap is made, with the effect it has in the plain program.
\<close>

lemma guard_accepts_heap_end:
  assumes "checked_env mp ms e e'" and "boundary (insts e) (pc s)" and "sim (insts e) s s'"
    and "needs_check (insts e ! unat (pc s))"
    and "access_addr (insts e ! unat (pc s)) (regs s) = mp + zext32 ms"
  shows "sim_result e' (insts e) s' (step e s)"
  using memchecks_step_sim [OF assms(1-3)] assms(5) by (simp add: guard_ok_def heap_ok_def)

text \<open>
  Every jump of an accepted program is relocated: after \<open>rewrite_with_memchecks\<close> it differs from
  the original in its offset only, and that offset leads from its new place to the first of the
  instructions that stand for the old target.
\<close>

lemma memchecks_relocate_jumps:
  assumes "validate fs is = Inr pcs" and "i < length is"
    and "decode_op (opcode (is ! i)) = Some p" and "is_jump p"
    and "jump_target i (is ! i) = int t" and "t < length is"
  shows "\<exists>off. rewrite_with_memchecks mp ms pcs is ! new_index 20 (\<lambda>j. needs_check (is ! j)) i =
      (is ! i)\<lparr>offset := off\<rparr> \<and>
    of_nat (new_index 20 (\<lambda>j. needs_check (is ! j)) i) + 1 + off =
      (of_nat (new_index 20 (\<lambda>j. needs_check (is ! j)) t) :: u16)"
proof -
  let ?e = "memcheck_inst mp ms pcs i (is ! i)"
  have pcs: "pcs = filter (\<lambda>j. needs_check (is ! j)) [0..<length is]"
    by (rule validate_rewrite_pcs [OF assms(1)])
  have small: "length is < 2 ^ 16"
    using validate_length [OF assms(1)] by (simp add: MAX_INSTS_def)
  obtain off where e: "?e = [(is ! i)\<lparr>offset := off\<rparr>]"
    using assms(3,4) by (cases p) (simp_all add: memcheck_inst_def is_jump_def)
  then have "rewrite_with_memchecks mp ms pcs is ! new_index 20 (\<lambda>j. needs_check (is ! j)) i =
      (is ! i)\<lparr>offset := off\<rparr>"
    using memchecks.nth_expanded [of i "is" 0 mp ms] assms(2) pcs by (simp add: rewrite_with_memchecks_def)
  moreover have "of_nat (new_index 20 (\<lambda>j. needs_check (is ! j)) i) + 1 + offset (?e ! 0) =
      (of_nat (new_index 20 (\<lambda>j. needs_check (is ! j)) t) :: u16)"
    using memchecks.jump_lands_expanded [OF assms(2-6) small, of mp ms] pcs by simp
  ultimately show ?thesis
    using e by auto
qed

definition loop_7 :: "ebpf_inst list" where
  "loop_7 = [mk (ALU64 MOV IMM) 2 0 0 7, mk (ST SZ_W) 1 0 0 7, mk (ALU64 SUB IMM) 2 0 0 1,
     mk (JMP JNE IMM) 2 0 (-3) 0, mk EXIT 0 0 0 0]"

lemma validate_loop_7: "validate fs loop_7 = Inr [1]"
  by (simp add: validate_def loop_7_def MAX_INSTS_def validate_loop.simps validate_inst_def
      validate_access_def validate_alu_def validate_jump_def MAX_LOAD_STORE_def)

text \<open>
  \<open>rewrite_with_ctx\<close> keeps jumps in the same way: it copies a jump with another offset, which leads
  from its new place to the first of the instructions that stand for the old target.
\<close>

lemma ctx_relocates_jumps:
  assumes "rewrite_with_ctx ctx_id (of_nat (length is)) is = Inr (is', n)" and "length is < 2 ^ 16"
    and "i < length is" and "decode_op (opcode (is ! i)) = Some p" and "is_jump p"
    and "jump_target i (is ! i) = int t" and "t < length is"
  shows "\<exists>off. is' ! new_index 12 (\<lambda>j. is_call (is ! j)) i = (is ! i)\<lparr>offset := off\<rparr> \<and>
    of_nat (new_index 12 (\<lambda>j. is_call (is ! j)) i) + 1 + off =
      (of_nat (new_index 12 (\<lambda>j. is_call (is ! j)) t) :: u16)"
proof -
  define pcs where "pcs = filter (\<lambda>j. is_call (is ! j)) [0..<length is]"
  let ?e = "ctx_inst ctx_id pcs i (is ! i)"
  have "unat (of_nat (length is) :: u16) = length is"
    using assms(2) by (subst unat_of_nat) simp
  then have is': "is' = concat (map (\<lambda>i. ctx_inst ctx_id pcs i (is ! i)) [0..<length is])"
    using assms(1) by (auto simp: rewrite_with_ctx_def Let_def pcs_def split: if_splits)
  obtain off where e: "?e = [(is ! i)\<lparr>offset := off\<rparr>]"
    using assms(4,5) by (cases p) (simp_all add: ctx_inst_def is_jump_def)
  then have "is' ! new_index 12 (\<lambda>j. is_call (is ! j)) i = (is ! i)\<lparr>offset := off\<rparr>"
    using ctxcalls.nth_expanded [of i "is" 0 ctx_id] assms(3) by (simp add: is' pcs_def)
  moreover have "of_nat (new_index 12 (\<lambda>j. is_call (is ! j)) i) + 1 + offset (?e ! 0) =
      (of_nat (new_index 12 (\<lambda>j. is_call (is ! j)) t) :: u16)"
    using ctxcalls.jump_lands_expanded [OF assms(3-7,2), of ctx_id] by (simp add: pcs_def)
  ultimately show ?thesis
    using e by auto
qed

text \<open>
  Around a call, the code of \<open>rewrite_with_ctx\<close> gives the function the context and the first four
  arguments, and leaves the result in \<open>r0\<close>, every argument register as it was and \<open>r5\<close> also in \<open>r12\<close>.
\<close>

lemma ctx_call_passes_context:
  assumes "code_at e p (ctx_call ctx_id inst)" and "is_call inst"
    and "ext_func_at (ext_funcs e) (imm inst) = Some f"
    and "f ctx_id (r 1) (r 2) (r 3) (r 4) m = (v, m')"
  shows "reaches e \<lparr>pc = p, regs = r, mem = m\<rparr> \<lparr>pc = p + 13, regs = r(0 := v, 12 := r 5), mem = m'\<rparr>"
  by (rule ctx_call_effect [OF assms])

end
