(* ===== verification/Ubpf_Load.thy ===== *)
theory Ubpf_Load
  imports Ubpf_Sim
begin

text \<open>
  Creating a virtual machine, registering host functions and loading byte code
  (\<open>ubpf_create\<close>, \<open>ubpf_register\<close>, \<open>ubpf_lookup_registered_function\<close>, \<open>ubpf_load\<close> of
  \<^verbatim>\<open>src/ubpf/vm/ubpf_vm.c\<close>). A program is the array of bytes the caller hands over; its
  instructions are read from it with the layout of \<open>struct ebpf_inst\<close> on x86-64.
\<close>

section \<open>Instructions in memory\<close>

definition decode_inst :: "u8 \<Rightarrow> u8 \<Rightarrow> u8 \<Rightarrow> u8 \<Rightarrow> u8 \<Rightarrow> u8 \<Rightarrow> u8 \<Rightarrow> u8 \<Rightarrow> ebpf_inst" where
  "decode_inst b0 b1 b2 b3 b4 b5 b6 b7 =
     \<lparr>opcode = b0, dst = ucast b1, src = ucast (drop_bit 4 b1),
      offset = ucast b2 OR push_bit 8 (ucast b3),
      imm = ucast b4 OR push_bit 8 (ucast b5) OR push_bit 16 (ucast b6) OR push_bit 24 (ucast b7)\<rparr>"

definition encode_inst :: "ebpf_inst \<Rightarrow> u8 list" where
  "encode_inst i =
     [opcode i, ucast (dst i) OR push_bit 4 (ucast (src i)),
      ucast (offset i), ucast (drop_bit 8 (offset i)),
      ucast (imm i), ucast (drop_bit 8 (imm i)), ucast (drop_bit 16 (imm i)), ucast (drop_bit 24 (imm i))]"

fun decode_insts :: "u8 list \<Rightarrow> ebpf_inst list" where
  "decode_insts (b0 # b1 # b2 # b3 # b4 # b5 # b6 # b7 # bs) =
     decode_inst b0 b1 b2 b3 b4 b5 b6 b7 # decode_insts bs"
| "decode_insts _ = []"

lemma decode_encode_inst:
  "decode_insts (encode_inst i @ bs) = i # decode_insts bs"
proof -
  have d: "(ucast (ucast (dst i) OR push_bit 4 (ucast (src i)) :: u8) :: u4) = dst i"
    by (rule bit_word_eqI) (auto simp: bit_simps)
  have s: "(ucast (drop_bit 4 (ucast (dst i) OR push_bit 4 (ucast (src i)) :: u8)) :: u4) = src i"
    by (rule bit_word_eqI) (auto simp: bit_simps dest: bit_imp_le_length)
  have off: "(ucast (ucast (offset i) :: u8) OR push_bit 8 (ucast (ucast (drop_bit 8 (offset i)) :: u8)) :: u16)
      = offset i"
    by (rule bit_word_eqI) (auto simp: bit_simps)
  have im: "(ucast (ucast (imm i) :: u8) OR push_bit 8 (ucast (ucast (drop_bit 8 (imm i)) :: u8))
      OR push_bit 16 (ucast (ucast (drop_bit 16 (imm i)) :: u8))
      OR push_bit 24 (ucast (ucast (drop_bit 24 (imm i)) :: u8)) :: u32) = imm i"
  proof (rule bit_word_eqI)
    fix n :: nat
    consider "n < 8" | "8 \<le> n \<and> n < 16" | "16 \<le> n \<and> n < 24" | "24 \<le> n"
      by linarith
    moreover assume "n < LENGTH(32)"
    ultimately show "bit (ucast (ucast (imm i) :: u8) OR push_bit 8 (ucast (ucast (drop_bit 8 (imm i)) :: u8))
        OR push_bit 16 (ucast (ucast (drop_bit 16 (imm i)) :: u8))
        OR push_bit 24 (ucast (ucast (drop_bit 24 (imm i)) :: u8)) :: u32) n = bit (imm i) n"
      by cases (auto simp: bit_simps)
  qed
  show ?thesis
    using d s off im by (simp add: encode_inst_def decode_inst_def)
qed

lemma decode_encode_insts: "decode_insts (concat (map encode_inst is)) = is"
  by (induction "is") (simp_all add: decode_encode_inst)

lemma length_decode_insts: "length (decode_insts bs) = length bs div 8"
  by (induction bs rule: decode_insts.induct) simp_all

section \<open>Creation and registration\<close>

text \<open>The arguments say which of the three allocations succeed.\<close>

definition ubpf_create :: "bool \<Rightarrow> bool \<Rightarrow> bool \<Rightarrow> ubpf_vm option" where
  "ubpf_create vm_ok funcs_ok names_ok =
     (if \<not> vm_ok then None
      else if \<not> funcs_ok then None
      else if \<not> names_ok then None
      else Some \<lparr>vm_insts = None, num_insts = 0,
        vm_ext_funcs = replicate MAX_EXT_FUNCS None,
        vm_ext_func_names = replicate MAX_EXT_FUNCS None,
        first_mem_node = []\<rparr>)"

definition ubpf_register :: "ubpf_vm \<Rightarrow> u32 \<Rightarrow> string \<Rightarrow> ext_func \<Rightarrow> ubpf_vm \<times> int" where
  "ubpf_register vm idx name fn =
     (if MAX_EXT_FUNCS \<le> unat idx then (vm, -1)
      else (vm\<lparr>vm_ext_funcs := (vm_ext_funcs vm)[unat idx := Some fn],
               vm_ext_func_names := (vm_ext_func_names vm)[unat idx := Some name]\<rparr>, 0))"

fun lookup_from :: "string option list \<Rightarrow> string \<Rightarrow> int \<Rightarrow> int" where
  "lookup_from [] name i = -1"
| "lookup_from (other # rest) name i =
     (if other = Some name then i else lookup_from rest name (i + 1))"

definition ubpf_lookup_registered_function :: "ubpf_vm \<Rightarrow> string \<Rightarrow> int" where
  "ubpf_lookup_registered_function vm name =
     lookup_from (take MAX_EXT_FUNCS (vm_ext_func_names vm)) name 0"

text \<open>Both tables have all their slots, and a slot has a name when it has a function.\<close>

definition vm_wf :: "ubpf_vm \<Rightarrow> bool" where
  "vm_wf vm \<longleftrightarrow> length (vm_ext_funcs vm) = MAX_EXT_FUNCS \<and>
     length (vm_ext_func_names vm) = MAX_EXT_FUNCS \<and>
     (\<forall>i < MAX_EXT_FUNCS. vm_ext_func_names vm ! i = None \<longleftrightarrow> vm_ext_funcs vm ! i = None)"

lemma vm_wf_create: "ubpf_create a b c = Some vm \<Longrightarrow> vm_wf vm"
  by (auto simp: ubpf_create_def vm_wf_def split: if_splits)

lemma vm_wf_register: "vm_wf vm \<Longrightarrow> vm_wf (fst (ubpf_register vm idx name fn))"
  by (auto simp: ubpf_register_def vm_wf_def nth_list_update)

text \<open>The search returns the first slot of that name.\<close>

lemma lookup_from_first:
  "lookup_from ns name k =
    (if Some name \<in> set ns
     then k + int (length (takeWhile (\<lambda>n. n \<noteq> Some name) ns)) else -1)"
  by (induction ns arbitrary: k) auto

lemma lookup_found:
  assumes wf: "vm_wf vm" and j: "ubpf_lookup_registered_function vm name = int j"
  shows "j < MAX_EXT_FUNCS" "vm_ext_func_names vm ! j = Some name" "vm_ext_funcs vm ! j \<noteq> None"
proof -
  let ?ns = "vm_ext_func_names vm"
  have len: "take MAX_EXT_FUNCS ?ns = ?ns" "length ?ns = MAX_EXT_FUNCS"
    using wf by (simp_all add: vm_wf_def)
  from j have here: "Some name \<in> set ?ns" and eq: "j = length (takeWhile (\<lambda>n. n \<noteq> Some name) ?ns)"
    by (auto simp: ubpf_lookup_registered_function_def lookup_from_first len split: if_splits)
  have short: "takeWhile (\<lambda>n. n \<noteq> Some name) ?ns \<noteq> ?ns"
    using here by (auto simp: takeWhile_eq_all_conv)
  then show "j < MAX_EXT_FUNCS"
    using len eq length_takeWhile_le [of "\<lambda>n. n \<noteq> Some name" ?ns]
    by (metis le_neq_implies_less takeWhile_eq_take take_all_iff order_refl)
  then show "vm_ext_func_names vm ! j = Some name"
    using nth_length_takeWhile [of "\<lambda>n. n \<noteq> Some name" ?ns] eq len by auto
  with \<open>j < MAX_EXT_FUNCS\<close> show "vm_ext_funcs vm ! j \<noteq> None"
    using wf by (auto simp: vm_wf_def)
qed

section \<open>Loading\<close>

text \<open>
  The second component is the error message, if any. The length \<open>code_len\<close> is that of \<open>code\<close>. The
  size of the heap is tested as a \<open>size_t\<close> and passed on as a \<open>uint32_t\<close>.
\<close>

definition load_instrumented ::
  "u64 \<Rightarrow> u64 \<Rightarrow> nat list \<Rightarrow> ebpf_inst list \<Rightarrow> ebpf_inst list \<times> u16" where
  "load_instrumented memory_ptr memory_size rewrite_pcs is =
     (if memory_ptr \<noteq> 0 \<and> memory_size \<noteq> 0
      then (rewrite_with_memchecks memory_ptr (ucast memory_size) rewrite_pcs is,
            of_nat (length is + ADDED_LOAD_STORE_INSTS * length rewrite_pcs))
      else (is, of_nat (length is)))"

definition ubpf_load ::
  "ubpf_vm \<Rightarrow> u8 list \<Rightarrow> u64 \<Rightarrow> u64 \<Rightarrow> u64 \<Rightarrow> ubpf_vm \<times> load_error option" where
  "ubpf_load vm code memory_ptr memory_size ctx_id =
     (if vm_insts vm \<noteq> None then (vm, Some Code_Already_Loaded)
      else if length code mod 8 \<noteq> 0 then (vm, Some Code_Len_Not_Multiple_Of_8)
      else (case validate (vm_ext_funcs vm) (decode_insts code) of
         Inl err \<Rightarrow> (vm, Some err)
       | Inr rewrite_pcs \<Rightarrow>
           (let (is, n) = load_instrumented memory_ptr memory_size rewrite_pcs (decode_insts code);
                vm1 = vm\<lparr>vm_insts := Some is, num_insts := n\<rparr>
            in if ctx_id = 0 then (vm1, None)
               else (case rewrite_with_ctx ctx_id n is of
                  Inl err \<Rightarrow> (if n = 0 then vm1\<lparr>vm_insts := Some []\<rparr> else vm1, Some err)
                | Inr (is', n') \<Rightarrow> (vm1\<lparr>vm_insts := Some is', num_insts := n'\<rparr>, None)))))"

lemma length_memchecks:
  assumes "validate fs is = Inr pcs"
  shows "length (rewrite_with_memchecks mp ms pcs is) = length is + 20 * length pcs"
  using memchecks.length_expanded [of mp ms "is"] validate_rewrite_pcs [OF assms]
  by (simp add: rewrite_with_memchecks_def new_index_def)

text \<open>
  The buffer for the checked program has \<open>code_len + 160 * num_load_store\<close> bytes: the pass fills it
  exactly.
\<close>

lemma buffer_exact:
  assumes "validate fs (decode_insts code) = Inr pcs" and "length code mod 8 = 0"
  shows "8 * length (rewrite_with_memchecks mp ms pcs (decode_insts code)) =
    length code + 8 * ADDED_LOAD_STORE_INSTS * length pcs"
  using assms by (simp add: length_memchecks length_decode_insts ADDED_LOAD_STORE_INSTS_def) presburger

lemma load_instrumented_length:
  assumes "validate fs is = Inr pcs" and "load_instrumented mp ms pcs is = (is', n)"
  shows "n = of_nat (length is')"
  using assms
  by (auto simp: load_instrumented_def length_memchecks ADDED_LOAD_STORE_INSTS_def split: if_splits)

text \<open>A failing load without a context leaves the machine as it was.\<close>

lemma ubpf_load_error:
  assumes "ubpf_load vm code mp ms 0 = (vm', Some err)"
  shows "vm' = vm"
  using assms by (auto simp: ubpf_load_def Let_def split: if_splits sum.splits prod.splits)

lemma ubpf_load_success:
  assumes "ubpf_load vm code mp ms 0 = (vm', None)"
  obtains pcs where "vm_insts vm = None" "length code mod 8 = 0"
    "validate (vm_ext_funcs vm) (decode_insts code) = Inr pcs"
    "vm' = vm\<lparr>vm_insts := Some (fst (load_instrumented mp ms pcs (decode_insts code))),
       num_insts := snd (load_instrumented mp ms pcs (decode_insts code))\<rparr>"
  using assms by (auto simp: ubpf_load_def Let_def split: if_splits sum.splits prod.splits)

section \<open>Loaded programs\<close>

definition env_of :: "ubpf_vm \<Rightarrow> u64 \<Rightarrow> u64 \<Rightarrow> u64 \<Rightarrow> vm_env" where
  "env_of vm m mlen stk =
     \<lparr>insts = the (vm_insts vm), ext_funcs = vm_ext_funcs vm, arg_mem = m, arg_mem_len = mlen, stack = stk\<rparr>"

definition entry_state :: "u64 \<Rightarrow> u64 \<Rightarrow> (u4 \<Rightarrow> u64) \<Rightarrow> memory \<Rightarrow> vm_state" where
  "entry_state arg stk r0 m0 = \<lparr>pc = 0, regs = r0(1 := arg, 10 := stk + of_nat STACK_SIZE), mem = m0\<rparr>"

lemma exec_loaded:
  "vm_insts vm \<noteq> None \<Longrightarrow> ubpf_exec_with_arg vm arg m mlen stk r0 m0 =
    ubpf_loop (env_of vm m mlen stk) (entry_state arg stk r0 m0)"
  by (auto simp: ubpf_exec_with_arg_def env_of_def entry_state_def)

lemma run_append_step:
  "run k e s = Continue t \<Longrightarrow> step e t = r \<Longrightarrow> (\<And>u. r \<noteq> Continue u) \<Longrightarrow> run (Suc k) e s = r"
proof (induction k arbitrary: s)
  case 0
  then show ?case
    by (cases r) auto
next
  case (Suc k)
  then obtain s' where s': "step e s = Continue s'" "run k e s' = Continue t"
    by (auto split: outcome.splits)
  then have "run (Suc k) e s' = r"
    using Suc by blast
  then show ?case
    using s'(1) by (simp del: run.simps add: run.simps(2) [of "Suc k"])
qed

lemma reaches_returns:
  assumes "reaches e s t" and "step e t = Return v err m"
  shows "ubpf_loop e s = Some (Returned v err m)"
proof -
  from assms(1) obtain k where "run k e s = Continue t"
    by (auto simp: reaches_def)
  then have "run (Suc k) e s = Return v err m"
    by (rule run_append_step) (simp_all add: assms(2))
  then show ?thesis
    by (intro ubpf_loop_of_run [of "Suc k"]) simp
qed

lemma loaded_env:
  assumes heap: "ubpf_load vm code mp ms 0 = (vm', None)" "mp \<noteq> 0" "ms \<noteq> 0"
    and plain: "ubpf_load vm code 0 0 0 = (vm0, None)"
    and fits: "length (the (vm_insts vm')) < 2 ^ 16"
  shows "checked_env mp (ucast ms) (env_of vm0 m mlen stk) (env_of vm' m mlen stk)"
proof -
  from heap(1) obtain pcs where v: "validate (vm_ext_funcs vm) (decode_insts code) = Inr pcs"
    and vm': "vm' = vm\<lparr>vm_insts := Some (fst (load_instrumented mp ms pcs (decode_insts code))),
       num_insts := snd (load_instrumented mp ms pcs (decode_insts code))\<rparr>"
    by (rule ubpf_load_success)
  from plain obtain pcs0 where "vm0 = vm\<lparr>vm_insts := Some (fst (load_instrumented 0 0 pcs0 (decode_insts code))),
       num_insts := snd (load_instrumented 0 0 pcs0 (decode_insts code))\<rparr>"
    by (rule ubpf_load_success)
  then show ?thesis
    using v vm' heap(2,3) fits by (auto simp: checked_env_def env_of_def load_instrumented_def)
qed

text \<open>The checks are transparent: a run they do not stop returns what the plain program returns.\<close>

lemma checks_transparent:
  assumes env: "checked_env mp ms e e'"
    and returns: "ubpf_loop e (entry_state arg stk r0 m0) = Some (Returned v err m)"
    and pass: "\<And>k t. run k e (entry_state arg stk r0 m0) = Continue t \<Longrightarrow> guards_pass mp ms e t"
  shows "\<exists>err'. ubpf_loop e' (entry_state arg stk r0 m0) = Some (Returned v err' m)"
proof -
  let ?s = "entry_state arg stk r0 m0"
  obtain n where n: "run n e ?s = Return v err m"
    using run_of_ubpf_loop [OF returns] by auto
  have "boundary (insts e) (pc ?s)"
    using boundary_start [OF checked_env_insts(1) [OF env]] by (simp add: entry_state_def)
  moreover have "sim (insts e) ?s ?s"
    by (simp add: sim_def entry_state_def)
  ultimately have "sim_result e' (insts e) ?s (run n e ?s)"
    using memchecks_run_sim [OF env] pass by blast
  then show ?thesis
    using n reaches_returns by auto
qed

section \<open>Properties\<close>

text \<open>
  C7. The interpreter is a sandbox: after \<open>ubpf_exec_with_arg\<close> returns, memory is unchanged except in
  the argument block, the stack, what the registered functions may write, and the sixteen bytes around
  the wrap-around of the address space.
\<close>

theorem exec_confined:
  assumes "vm_insts vm \<noteq> None" and "env_ok (env_of vm m mlen stk)"
    and "ext_confined (env_of vm m mlen stk) R"
    and "ubpf_exec_with_arg vm arg m mlen stk r0 m0 = Some (Returned v err m1)"
    and "x \<notin> writable (env_of vm m mlen stk)" and "x \<notin> R"
  shows "m1 x = m0 x"
  using ubpf_loop_confined [OF assms(2,3,5,6), of "entry_state arg stk r0 m0" v err m1] assms(4)
  by (simp add: exec_loaded [OF assms(1)] entry_state_def)

text \<open>
  A program that stores 7 into its argument block and calls a registered function, which writes the one
  byte at \<open>0x5000\<close> and returns 9.
\<close>

definition store_and_call :: "ebpf_inst list" where
  "store_and_call = [mk (ST SZ_W) 1 0 0 7, mk CALL 0 0 0 0, mk EXIT 0 0 0 0]"

definition mark_byte :: ext_func where
  "mark_byte = (\<lambda>_ _ _ _ _ m. (9, m(0x5000 := 1)))"

definition store_and_call_vm :: ubpf_vm where
  "store_and_call_vm = \<lparr>vm_insts = Some store_and_call, num_insts = 3, vm_ext_funcs = [Some mark_byte],
     vm_ext_func_names = [Some ''mark_byte''], first_mem_node = []\<rparr>"

lemma exec_store_and_call:
  "ubpf_exec_with_arg store_and_call_vm 0x1010 0x1000 0x100 0x2000 (\<lambda>_. 0) (\<lambda>_. 0) =
    Some (Returned 9 None ((store_le (\<lambda>_. 0) 0x1010 4 7)(0x5000 := 1)))"
proof -
  let ?e = "env_of store_and_call_vm 0x1000 0x100 0x2000" and ?s = "entry_state 0x1010 0x2000 (\<lambda>_. 0) (\<lambda>_. 0)"
  have "run 3 ?e ?s = result_of (Returned 9 None ((store_le (\<lambda>_. 0) 0x1010 4 7)(0x5000 := 1)))"
    by (simp add: numeral_3_eq_3 env_of_def entry_state_def store_and_call_vm_def store_and_call_def step_def
        fetch_def exec_store_def exec_call_def ext_func_at_def mark_byte_def bounds_check_def sext16_def sext32_def)
  then have "ubpf_loop ?e ?s = Some (Returned 9 None ((store_le (\<lambda>_. 0) 0x1010 4 7)(0x5000 := 1)))"
    by (rule ubpf_loop_of_run)
  then show ?thesis
    by (subst exec_loaded) (simp_all add: store_and_call_vm_def)
qed

theorem exec_confined_witness:
  "\<exists>m1. ubpf_exec_with_arg store_and_call_vm 0x1010 0x1000 0x100 0x2000 (\<lambda>_. 0) (\<lambda>_. 0) =
      Some (Returned 9 None m1) \<and> m1 0x1010 = 7 \<and> m1 0x5000 = 1 \<and> m1 0x4FFF = 0 \<and> m1 0x5001 = 0"
proof -
  let ?e = "env_of store_and_call_vm 0x1000 0x100 0x2000"
  let ?m1 = "(store_le (\<lambda>_. 0) 0x1010 4 7)(0x5000 := 1)"
  have "vm_insts store_and_call_vm \<noteq> None" "env_ok ?e"
    by (simp_all add: store_and_call_vm_def env_ok_def env_of_def STACK_SIZE_def)
  moreover have "ext_confined ?e {0x5000}"
    by (simp add: ext_confined_def env_of_def store_and_call_vm_def mark_byte_def)
  ultimately have kept: "?m1 x = 0" if "x \<notin> writable ?e" "x \<noteq> 0x5000" for x
    using exec_confined [OF _ _ _ exec_store_and_call] that by blast
  have "?m1 0x4FFF = 0" "?m1 0x5001 = 0"
    by (rule kept; simp add: writable_def env_of_def store_and_call_vm_def addrs_interval STACK_SIZE_def
        edge_addr_def)+
  moreover have "?m1 0x1010 = 7" "?m1 0x5000 = 1"
    by code_simp+
  ultimately show ?thesis
    using exec_store_and_call by blast
qed

text \<open>
  C6. Loading with a heap is transparent: when the plain program returns and its guarded accesses all
  pass the checks, the program \<open>ubpf_load\<close> produces for a heap returns the same value and leaves the
  same memory, provided the longer program still fits the 16-bit program counter.
\<close>

theorem load_checks_transparent:
  assumes "ubpf_load vm code mp ms 0 = (vm', None)" and "mp \<noteq> 0" and "ms \<noteq> 0"
    and "ubpf_load vm code 0 0 0 = (vm0, None)" and "length (the (vm_insts vm')) < 2 ^ 16"
    and "ubpf_exec_with_arg vm0 arg m mlen stk r0 m0 = Some (Returned v err m1)"
    and "\<forall>k t. run k (env_of vm0 m mlen stk) (entry_state arg stk r0 m0) = Continue t \<longrightarrow>
      guards_pass mp (ucast ms) (env_of vm0 m mlen stk) t"
  shows "\<exists>err'. ubpf_exec_with_arg vm' arg m mlen stk r0 m0 = Some (Returned v err' m1)"
proof -
  have loaded: "vm_insts vm' \<noteq> None" "vm_insts vm0 \<noteq> None"
    using ubpf_load_success [OF assms(1)] ubpf_load_success [OF assms(4)] by fastforce+
  show ?thesis
    unfolding exec_loaded [OF loaded(1)]
  proof (rule checks_transparent [OF loaded_env [OF assms(1-5)]])
    show "ubpf_loop (env_of vm0 m mlen stk) (entry_state arg stk r0 m0) = Some (Returned v err m1)"
      using assms(6) by (simp add: exec_loaded [OF loaded(2)])
  qed (use assms(7) in blast)
qed

definition empty_vm :: ubpf_vm where
  "empty_vm = the (ubpf_create True True True)"

definition store_7_code :: "u8 list" where
  "store_7_code = concat (map encode_inst store_7)"

definition store_7_vm :: "ebpf_inst list \<Rightarrow> ubpf_vm" where
  "store_7_vm is = empty_vm\<lparr>vm_insts := Some is, num_insts := of_nat (length is)\<rparr>"

lemma load_store_7:
  "ubpf_load empty_vm store_7_code 0x1000 0x100 0 =
    (store_7_vm (rewrite_with_memchecks 0x1000 0x100 [0] store_7), None)"
  "ubpf_load empty_vm store_7_code 0 0 0 = (store_7_vm store_7, None)"
proof -
  have "decode_insts store_7_code = store_7"
    by (simp add: store_7_code_def decode_encode_insts)
  moreover have "vm_insts empty_vm = None"
    by (simp add: empty_vm_def ubpf_create_def)
  moreover have "length store_7_code = 16"
    by (simp add: store_7_code_def store_7_def encode_inst_def)
  ultimately show "ubpf_load empty_vm store_7_code 0x1000 0x100 0 =
      (store_7_vm (rewrite_with_memchecks 0x1000 0x100 [0] store_7), None)"
    "ubpf_load empty_vm store_7_code 0 0 0 = (store_7_vm store_7, None)"
    by (simp_all add: ubpf_load_def validate_store_7 load_instrumented_def store_7_vm_def
        length_memchecks [OF validate_store_7] ADDED_LOAD_STORE_INSTS_def)
qed

lemma run_store_7:
  fixes k :: nat
  defines "e \<equiv> env_of (store_7_vm store_7) 0x1000 0x100 0x2000"
    and "s \<equiv> entry_state 0x1010 0x2000 (\<lambda>_. 0) (\<lambda>_. 0)"
  shows "run 0 e s = Continue s"
    and "run 1 e s = Continue (s\<lparr>pc := 1, mem := store_le (\<lambda>_. 0) 0x1010 4 7\<rparr>)"
    and "run (Suc (Suc k)) e s = Return 0 None (store_le (\<lambda>_. 0) 0x1010 4 7)"
  by (simp_all add: e_def s_def env_of_def entry_state_def store_7_vm_def store_7_def step_def fetch_def
      exec_store_def bounds_check_def sext16_def sext32_def)

theorem load_checks_transparent_witness:
  "\<exists>err'. ubpf_exec_with_arg (store_7_vm (rewrite_with_memchecks 0x1000 0x100 [0] store_7))
      0x1010 0x1000 0x100 0x2000 (\<lambda>_. 0) (\<lambda>_. 0) = Some (Returned 0 err' (store_le (\<lambda>_. 0) 0x1010 4 7))"
proof (rule load_checks_transparent [OF load_store_7(1) _ _ load_store_7(2)])
  let ?e = "env_of (store_7_vm store_7) 0x1000 0x100 0x2000"
  let ?s = "entry_state 0x1010 0x2000 (\<lambda>_. 0) (\<lambda>_. 0)"
  show "length (the (vm_insts (store_7_vm (rewrite_with_memchecks 0x1000 0x100 [0] store_7)))) < 2 ^ 16"
    using length_memchecks [OF validate_store_7, of "0x1000" "0x100"]
    by (simp add: store_7_vm_def store_7_def)
  have "ubpf_loop ?e ?s = Some (Returned 0 None (store_le (\<lambda>_. 0) 0x1010 4 7))"
    by (rule ubpf_loop_of_run [of "Suc (Suc 0)"]) (simp only: run_store_7 result_of.simps)
  then show "ubpf_exec_with_arg (store_7_vm store_7) 0x1010 0x1000 0x100 0x2000 (\<lambda>_. 0) (\<lambda>_. 0) =
      Some (Returned 0 None (store_le (\<lambda>_. 0) 0x1010 4 7))"
    by (subst exec_loaded) (simp_all add: store_7_vm_def)
  show "\<forall>k t. run k ?e ?s = Continue t \<longrightarrow> guards_pass 0x1000 (ucast (0x100 :: u64)) ?e t"
  proof (intro allI impI)
    fix k t
    assume t: "run k ?e ?s = Continue t"
    have ok: "heap_ok 0x1000 0x100 0x1010"
      by code_simp
    have e: "insts ?e = store_7"
      by (simp add: env_of_def store_7_vm_def)
    consider "k = 0" | "k = 1" | k' where "k = Suc (Suc k')"
      by (metis One_nat_def nat.exhaust)
    then show "guards_pass 0x1000 (ucast (0x100 :: u64)) ?e t"
    proof cases
      case 1
      then have t: "t = ?s"
        using t run_store_7(1) by simp
      show ?thesis
        unfolding t guards_pass_def e using ok
        by (simp add: guard_ok_def access_addr_def base_reg_def entry_state_def store_7_def sext16_def)
    next
      case 2
      then have "pc t = 1"
        using t run_store_7(2) by simp
      then show ?thesis
        unfolding guards_pass_def e by (simp add: store_7_def needs_check_def)
    next
      case 3
      then show ?thesis
        using t run_store_7(3) by (simp only: outcome.distinct)
    qed
  qed
qed simp_all

text \<open>
  A successful load of an accepted program fills the allocated buffer exactly:
  \<open>code_len + 160 * num_load_store\<close> bytes for the program with checks, \<open>code_len\<close> bytes without.
\<close>

lemma load_fills_buffer:
  assumes "ubpf_load vm code mp ms 0 = (vm', None)"
  shows "\<exists>pcs is. validate (vm_ext_funcs vm) (decode_insts code) = Inr pcs \<and> vm_insts vm' = Some is \<and>
    8 * length is = length code + (if mp \<noteq> 0 \<and> ms \<noteq> 0 then 8 * ADDED_LOAD_STORE_INSTS * length pcs else 0) \<and>
    num_insts vm' = of_nat (length is)"
proof -
  from assms obtain pcs where v: "validate (vm_ext_funcs vm) (decode_insts code) = Inr pcs"
    and len: "length code mod 8 = 0"
    and vm': "vm' = vm\<lparr>vm_insts := Some (fst (load_instrumented mp ms pcs (decode_insts code))),
       num_insts := snd (load_instrumented mp ms pcs (decode_insts code))\<rparr>"
    by (rule ubpf_load_success)
  obtain "is" n where li: "load_instrumented mp ms pcs (decode_insts code) = (is, n)"
    by fastforce
  have "8 * length (decode_insts code) = length code"
    using len by (simp add: length_decode_insts) presburger
  then have "8 * length is = length code +
      (if mp \<noteq> 0 \<and> ms \<noteq> 0 then 8 * ADDED_LOAD_STORE_INSTS * length pcs else 0)"
    using buffer_exact [OF v len, of mp "ucast ms"] li by (auto simp: load_instrumented_def split: if_splits)
  then show ?thesis
    using v vm' li load_instrumented_length [OF v li] by simp
qed

lemma sint_small:
  assumes "unat (x :: u32) < 2 ^ 31"
  shows "sint x = int (unat x)"
proof -
  have "int (unat x) < int (2 ^ 31)"
    using assms by (simp only: of_nat_less_iff)
  then have "uint x < 2 ^ 31"
    by simp
  moreover have "0 \<le> uint x"
    by simp
  ultimately have "signed_take_bit 31 (uint x) = uint x"
    by (intro signed_take_bit_int_eq_self) linarith+
  then show ?thesis
    by (simp add: sint_uint)
qed

text \<open>
  A name registered in a free slot, where no earlier slot carries it, is found there afterwards with
  the function that was registered, and a registration beyond the table is refused without a change.
\<close>

lemma register_then_lookup:
  assumes "vm_wf vm" and "\<forall>j < unat idx. j < MAX_EXT_FUNCS \<longrightarrow> vm_ext_func_names vm ! j \<noteq> Some name"
  shows "if unat idx < MAX_EXT_FUNCS
    then (\<exists>vm'. ubpf_register vm idx name fn = (vm', 0) \<and> vm_wf vm' \<and>
      ubpf_lookup_registered_function vm' name = int (unat idx) \<and>
      ext_func_at (vm_ext_funcs vm') idx = Some fn)
    else ubpf_register vm idx name fn = (vm, -1)"
proof (cases "unat idx < MAX_EXT_FUNCS")
  case True
  let ?vm' = "fst (ubpf_register vm idx name fn)"
  let ?ns = "vm_ext_func_names ?vm'"
  have names: "?ns = (vm_ext_func_names vm)[unat idx := Some name]" "length ?ns = MAX_EXT_FUNCS"
    and funcs: "vm_ext_funcs ?vm' = (vm_ext_funcs vm)[unat idx := Some fn]" "length (vm_ext_funcs vm) = MAX_EXT_FUNCS"
    using assms(1) True by (auto simp: ubpf_register_def vm_wf_def)
  have "takeWhile (\<lambda>n. n \<noteq> Some name) ?ns = take (unat idx) ?ns"
    using assms True by (intro takeWhile_eq_take_P_nth) (auto simp: names(1) vm_wf_def nth_list_update)
  moreover have "Some name \<in> set ?ns"
    using True names by (metis length_list_update nth_list_update_eq nth_mem)
  ultimately have "ubpf_lookup_registered_function ?vm' name = int (unat idx)"
    using True names(2) by (simp add: ubpf_lookup_registered_function_def lookup_from_first)
  moreover have "ext_func_at (vm_ext_funcs ?vm') idx = Some fn"
  proof -
    have "sint idx = int (unat idx)"
      using True by (intro sint_small) (simp add: MAX_EXT_FUNCS_def)
    then show ?thesis
      using True funcs by (simp only: ext_func_at_def length_list_update of_nat_less_iff nat_int) simp
  qed
  moreover have "ubpf_register vm idx name fn = (?vm', 0)"
    using True by (simp add: ubpf_register_def)
  ultimately show ?thesis
    using vm_wf_register [OF assms(1)] True by auto
next
  case False
  then show ?thesis
    by (simp add: ubpf_register_def)
qed

text \<open>
  Instructions survive their layout in memory: decoding the bytes of any instructions gives them
  back, and every sequence of bytes holds one instruction per eight bytes.
\<close>

lemma instruction_bytes_round_trip:
  "decode_insts (concat (map encode_inst is)) = is \<and> length (decode_insts bs) = length bs div 8"
  by (simp add: decode_encode_insts length_decode_insts)

end
