(* ===== verification/Trunnel.thy ===== *)
theory Trunnel
  imports Prelude
begin

text \<open>
  What the generated wire-format code under \<^verbatim>\<open>src/trunnel\<close> has in common: results that are
  a value or one of the two negative codes, big-endian integers, the guarded writes of the encoders
  and the guarded reads of the parsers, and the contract of a format as the locale \<open>codec\<close>.
  Allocation is taken to succeed; what an encoder leaves in the buffer when it fails is not modelled.
\<close>

section \<open>Results\<close>

text \<open>\<open>Truncated\<close> is the return value -2 and \<open>Check_Failed\<close> the return value -1.\<close>

datatype wire_error = Truncated | Check_Failed

fun and_then :: "'e + 'a \<Rightarrow> ('a \<Rightarrow> 'e + 'b) \<Rightarrow> 'e + 'b" where
  "and_then (Inl e) f = Inl e"
| "and_then (Inr x) f = f x"

lemma and_then_Inr [codec_simps]: "and_then r f = Inr y \<longleftrightarrow> (\<exists>x. r = Inr x \<and> f x = Inr y)"
  by (cases r) simp_all

lemma and_then_Inl: "and_then r f = Inl e \<longleftrightarrow> r = Inl e \<or> (\<exists>x. r = Inr x \<and> f x = Inl e)"
  by (cases r) simp_all

section \<open>Big-endian integers\<close>

fun put_be :: "nat \<Rightarrow> 'a::len word \<Rightarrow> u8 list" where
  "put_be 0 v = []"
| "put_be (Suc n) v = ucast (drop_bit (8 * n) v) # put_be n v"

definition get_be :: "u8 list \<Rightarrow> 'a::len word" where
  "get_be bs = foldl (\<lambda>acc b. push_bit 8 acc OR ucast b) 0 bs"

lemma length_put_be [simp]: "length (put_be n v) = n"
  by (induction n) simp_all

lemma foldl_put_be:
  "foldl (\<lambda>acc b. push_bit 8 acc OR ucast b) acc (put_be n v) =
    push_bit (8 * n) acc OR (take_bit (8 * n) v :: 'a::len word)"
proof (induction n arbitrary: acc)
  case 0
  show ?case by simp
next
  case (Suc n)
  let ?b = "ucast (ucast (drop_bit (8 * n) v) :: u8) :: 'a word"
  have b: "?b = take_bit 8 (drop_bit (8 * n) v)"
    by (rule bit_word_eqI) (auto simp: bit_simps)
  have hi: "push_bit (8 * n) (take_bit 8 (drop_bit (8 * n) v)) OR take_bit (8 * n) v =
      take_bit (8 * Suc n) v"
    by (rule bit_word_eqI) (auto simp: bit_simps)
  have "push_bit (8 * n) (push_bit 8 acc OR ?b) OR take_bit (8 * n) v =
      push_bit (8 * Suc n) acc OR (push_bit (8 * n) ?b OR take_bit (8 * n) v)"
    by (simp add: push_bit_or add.commute or.assoc)
  then show ?case
    using Suc by (simp only: put_be.simps foldl_Cons hi b)
qed

lemma get_put_be: "8 * n = LENGTH('a) \<Longrightarrow> get_be (put_be n v) = (v :: 'a::len word)"
  unfolding get_be_def foldl_put_be by simp

lemma get_be_snoc: "get_be (bs @ [b]) = push_bit 8 (get_be bs) OR ucast b"
  by (simp add: get_be_def)

lemma put_be_shift:
  "8 * Suc n \<le> LENGTH('a) \<Longrightarrow>
    put_be (Suc n) (push_bit 8 v OR ucast (b :: u8) :: 'a::len word) = put_be n v @ [b]"
proof (induction n)
  case 0
  have "(ucast (push_bit 8 v OR ucast b :: 'a word) :: u8) = b"
    using 0 by (intro bit_word_eqI) (auto simp: bit_simps)
  then show ?case
    by simp
next
  case (Suc n)
  have "(ucast (drop_bit (8 * Suc n) (push_bit 8 v OR ucast b :: 'a word)) :: u8) = ucast (drop_bit (8 * n) v)"
    using Suc.prems by (intro bit_word_eqI) (auto simp: bit_simps dest: bit_imp_le_length)
  then show ?case
    using Suc by simp
qed

lemma put_get_be:
  "8 * length bs \<le> LENGTH('a) \<Longrightarrow> put_be (length bs) (get_be bs :: 'a::len word) = bs"
proof (induction bs rule: rev_induct)
  case (snoc b bs)
  then show ?case
    using put_be_shift [of "length bs" "get_be bs :: 'a word" b] by (simp add: get_be_snoc)
qed simp

lemma put_get_be_8 [simp]: "length bs = 8 \<Longrightarrow> put_be 8 (get_be bs :: u64) = bs"
  using put_get_be [of bs, where 'a = 64] by simp

lemma put_get_be_2 [simp]: "length bs = 2 \<Longrightarrow> put_be 2 (get_be bs :: u16) = bs"
  using put_get_be [of bs, where 'a = 16] by simp

lemma get_put_be_8 [simp]: "get_be (put_be 8 v) = (v :: u64)"
  by (rule get_put_be) simp

lemma get_put_be_4 [simp]: "get_be (put_be 4 v) = (v :: u32)"
  by (rule get_put_be) simp

lemma get_put_be_2 [simp]: "get_be (put_be 2 v) = (v :: u16)"
  by (rule get_put_be) simp

section \<open>Guarded reads and writes\<close>

text \<open>Append to what has been written, unless fewer bytes are left of \<open>avail\<close>.\<close>

definition emit :: "nat \<Rightarrow> u8 list \<Rightarrow> u8 list \<Rightarrow> wire_error + u8 list" where
  "emit avail bs written =
     (if avail - length written < length bs then Inl Truncated else Inr (written @ bs))"

lemma emit_Inr:
  "length w \<le> avail \<Longrightarrow> emit avail bs w = Inr out \<longleftrightarrow> out = w @ bs \<and> length out \<le> avail"
  by (auto simp: emit_def)

text \<open>\<open>CHECK_REMAINING\<close> and the read after it.\<close>

definition take_bytes :: "nat \<Rightarrow> u8 list \<Rightarrow> wire_error + u8 list \<times> u8 list" where
  "take_bytes n bs = (if length bs < n then Inl Truncated else Inr (take n bs, drop n bs))"

lemma take_bytes_append [simp, codec_simps]: "length xs = n \<Longrightarrow> take_bytes n (xs @ ys) = Inr (xs, ys)"
  by (auto simp: take_bytes_def)

lemma take_bytes_1 [simp]: "take_bytes (Suc 0) (x # xs) = Inr ([x], xs)"
  by (simp add: take_bytes_def)

lemma take_bytes_Inr [codec_simps]: "take_bytes n bs = Inr (xs, ys) \<longleftrightarrow> bs = xs @ ys \<and> length xs = n"
  by (auto simp: take_bytes_def)

section \<open>The contract of a format\<close>

text \<open>
  \<open>encode obj avail\<close> are the bytes written into a buffer of \<open>avail\<close> bytes, \<open>parse bs\<close> the object and
  the number of bytes read, \<open>canon\<close> what an object looks like after a round trip, \<open>elen\<close> the
  predicted length, \<open>wf\<close> what the type of the object in C gives.
\<close>

locale codec =
  fixes encode :: "nat \<Rightarrow> 'a \<Rightarrow> wire_error + u8 list"
    and parse :: "u8 list \<Rightarrow> wire_error + 'a \<times> nat"
    and canon :: "'a \<Rightarrow> 'a"
    and elen :: "'a \<Rightarrow> int"
    and wf :: "'a \<Rightarrow> bool"
  assumes parse_encode: "wf x \<Longrightarrow> encode avail x = Inr bs \<Longrightarrow> parse (bs @ rest) = Inr (canon x, length bs)"
    and encode_length: "wf x \<Longrightarrow> encode avail x = Inr bs \<Longrightarrow> int (length bs) = elen x \<and> length bs \<le> avail"
    and parse_wf: "parse bs = Inr (x, n) \<Longrightarrow> wf x"
    and parse_consumed: "parse bs = Inr (x, n) \<Longrightarrow> n \<le> length bs"
    and parse_prefix: "parse bs = Inr (x, n) \<Longrightarrow> parse (take n bs @ rest) = Inr (x, n)"
begin

text \<open>Different objects have different encodings, and none is a proper prefix of another.\<close>

lemma encode_prefix_free:
  assumes "wf x" "encode a x = Inr bs" and "wf y" "encode b y = Inr (bs @ more)"
  shows "more = [] \<and> canon x = canon y"
  using parse_encode [OF assms(1,2), of more] parse_encode [OF assms(3,4), of "[]"] by auto

lemma encode_stream:
  assumes "wf x" "encode a x = Inr bs" and "wf y" "encode b y = Inr cs"
  shows "parse (bs @ cs) = Inr (canon x, length bs) \<and>
    parse (drop (length bs) (bs @ cs)) = Inr (canon y, length cs)"
  using parse_encode [OF assms(1,2), of cs] parse_encode [OF assms(3,4), of "[]"] by simp

end

end
