(* ===== verification/Ubpf_Elf.thy ===== *)
theory Ubpf_Elf
  imports Ubpf_Load Trunnel
begin

text \<open>
  The ELF loader (\<^verbatim>\<open>src/ubpf/vm/ubpf_loader.c\<close>) and the glue that turns a file into an entry
  point (\<^verbatim>\<open>src/ubpf/vm/ubpf.c\<close>). A file is a list of bytes; an access outside the bytes the
  loader was given (a header, a relocation, a symbol, a string or the text it copies), a section header
  stored behind the array \<open>sections\<close>, and an access outside the copy of the text section, are the
  value \<open>Elf_Fault\<close>.
\<close>

section \<open>Little-endian fields\<close>

definition get_le :: "u8 list \<Rightarrow> 'a::len word" where
  "get_le bs = of_int (foldr (\<lambda>b acc. uint b + 256 * acc) bs 0)"

lemma get_le_Nil: "get_le [] = 0"
  by (simp add: get_le_def)

lemma get_le_Cons: "get_le (b # bs) = ucast b OR push_bit 8 (get_le bs)"
proof -
  have "get_le (b # bs) = ucast b + push_bit 8 (get_le bs)"
    by (simp add: get_le_def push_bit_eq_mult mult.commute)
  also have "\<dots> = ucast b OR push_bit 8 (get_le bs)"
    by (rule disjunctive_add) (auto simp: bit_simps dest: bit_imp_le_length)
  finally show ?thesis .
qed

definition field :: "u8 list \<Rightarrow> nat \<Rightarrow> nat \<Rightarrow> 'a::len word" where
  "field bs off n = get_le (take n (drop off bs))"

definition put_le32 :: "u32 \<Rightarrow> u8 list" where
  "put_le32 v = [ucast v, ucast (drop_bit 8 v), ucast (drop_bit 16 v), ucast (drop_bit 24 v)]"

text \<open>Storing four bytes at an index, \<^const>\<open>None\<close> outside the array.\<close>

definition poke32 :: "u8 list \<Rightarrow> nat \<Rightarrow> u32 \<Rightarrow> u8 list option" where
  "poke32 bs i v = (if length bs < i + 4 then None else Some (take i bs @ put_le32 v @ drop (i + 4) bs))"

definition peek32 :: "u8 list \<Rightarrow> nat \<Rightarrow> u32 option" where
  "peek32 bs i = (if length bs < i + 4 then None else Some (field bs i 4))"

text \<open>A C string that starts at an index: \<^const>\<open>None\<close> when no terminator follows.\<close>

definition cstring_at :: "u8 list \<Rightarrow> nat \<Rightarrow> u8 list option" where
  "cstring_at bs i =
     (let rest = drop i bs; s = takeWhile (\<lambda>b. b \<noteq> 0) rest
      in if length s < length rest then Some s else None)"

definition chars :: "u8 list \<Rightarrow> string" where
  "chars bs = map (\<lambda>b. char_of (unat b)) bs"

section \<open>The file\<close>

definition MAX_SECTIONS :: nat where "MAX_SECTIONS = 32"
definition EM_BPF :: u16 where "EM_BPF = 247"

datatype elf_error =
    Not_Enough_Data | Wrong_Magic | Wrong_Class | Wrong_Byte_Order | Wrong_Version | Wrong_OS_ABI
  | Wrong_Type | Wrong_Machine u16 | Too_Many_Sections | Bad_Section_Header | Bad_Section
  | Text_Not_Found | Failed_To_Allocate | Bad_Symbol_Table_Index | Bad_String_Table_Index
  | Bad_Symbol_Index | Bad_Symbol_Name | Str_Malloc_Error | Node_Malloc_Error
  | Bad_Relocation_Type u64 | Bad_Relocation_Offset | Function_Not_Found string
  | Load_Failed load_error
  | No_Message  \<comment> \<open>\<open>goto error\<close> without an error message\<close>

datatype elf_stop = Elf_Error elf_error | Elf_Fault

text \<open>\<open>bounds_check\<close> of the loader; the sum wraps and the second test notices.\<close>

definition elf_bounds_check :: "u64 \<Rightarrow> u64 \<Rightarrow> u64 \<Rightarrow> bool" where
  "elf_bounds_check bsize off sz \<longleftrightarrow> \<not> (bsize < off + sz \<or> off + sz < off)"

text \<open>A section header, with the fields the loader reads; \<open>sh_offset\<close> stands for \<open>data\<close> and
  \<open>sh_size\<close> for \<open>size\<close> of \<open>struct section\<close>.\<close>

record elf_section =
  sh_type :: u32
  sh_flags :: u64
  sh_offset :: u64
  sh_size :: u64
  sh_link :: u32
  sh_info :: u32

text \<open>
  A structure of the file is read through a pointer into it: \<^const>\<open>None\<close> when it is not inside the file.
\<close>

definition struct_at :: "u8 list \<Rightarrow> nat \<Rightarrow> nat \<Rightarrow> 'a \<Rightarrow> 'a option" where
  "struct_at elf off n v = (if length elf < off + n then None else Some v)"

definition read_shdr :: "u8 list \<Rightarrow> nat \<Rightarrow> elf_section option" where
  "read_shdr elf off = struct_at elf off 64
     \<lparr>sh_type = field elf (off + 4) 4, sh_flags = field elf (off + 8) 8,
      sh_offset = field elf (off + 24) 8, sh_size = field elf (off + 32) 8,
      sh_link = field elf (off + 40) 4, sh_info = field elf (off + 44) 4\<rparr>"

record elf_rel =
  r_offset :: u64
  r_info :: u64

definition read_rel :: "u8 list \<Rightarrow> nat \<Rightarrow> elf_rel option" where
  "read_rel elf off = struct_at elf off 16 \<lparr>r_offset = field elf off 8, r_info = field elf (off + 8) 8\<rparr>"

definition ELF64_R_SYM :: "u64 \<Rightarrow> u32" where
  "ELF64_R_SYM i = ucast (drop_bit 32 i)"

definition ELF64_R_TYPE :: "u64 \<Rightarrow> u64" where
  "ELF64_R_TYPE i = i AND 0xFFFFFFFF"

record elf_sym =
  st_name :: u32
  st_info :: u8
  st_shndx :: u16
  st_value :: u64

definition read_sym :: "u8 list \<Rightarrow> nat \<Rightarrow> elf_sym option" where
  "read_sym elf off = struct_at elf off 24
     \<lparr>st_name = field elf off 4, st_info = field elf (off + 4) 1, st_shndx = field elf (off + 6) 2,
      st_value = field elf (off + 8) 8\<rparr>"

record elf_ehdr =
  e_ident :: "u8 list"
  e_type :: u16
  e_machine :: u16
  e_shoff :: u64
  e_shentsize :: u16
  e_shnum :: u16

definition read_ehdr :: "u8 list \<Rightarrow> elf_ehdr option" where
  "read_ehdr elf = struct_at elf 0 64
     \<lparr>e_ident = take 16 elf, e_type = field elf 16 2, e_machine = field elf 18 2,
      e_shoff = field elf 40 8, e_shentsize = field elf 58 2, e_shnum = field elf 60 2\<rparr>"

text \<open>The tests of the file header, in the order of the code.\<close>

definition ehdr_error :: "elf_ehdr \<Rightarrow> elf_error option" where
  "ehdr_error h =
     (if take 4 (e_ident h) \<noteq> [0x7F, 0x45, 0x4C, 0x46] then Some Wrong_Magic
      else if e_ident h ! 4 \<noteq> 2 then Some Wrong_Class
      else if e_ident h ! 5 \<noteq> 1 then Some Wrong_Byte_Order
      else if e_ident h ! 6 \<noteq> 1 then Some Wrong_Version
      else if e_ident h ! 7 \<noteq> 0 then Some Wrong_OS_ABI
      else if e_type h \<noteq> 1 then Some Wrong_Type
      else if e_machine h \<noteq> 0 \<and> e_machine h \<noteq> EM_BPF then Some (Wrong_Machine (e_machine h))
      else if MAX_SECTIONS < unat (e_shnum h) then Some Too_Many_Sections
      else None)"

definition check_ehdr :: "u8 list \<Rightarrow> elf_stop + elf_ehdr" where
  "check_ehdr elf =
     (if \<not> elf_bounds_check (of_nat (length elf)) 0 64 then Inl (Elf_Error Not_Enough_Data)
      else case read_ehdr elf of
        None \<Rightarrow> Inl Elf_Fault
      | Some h \<Rightarrow> (case ehdr_error h of None \<Rightarrow> Inr h | Some err \<Rightarrow> Inl (Elf_Error err)))"

text \<open>The loop over the section headers; \<open>sections\<close> has room for \<open>MAX_SECTIONS\<close> of them.\<close>

fun parse_sections :: "u8 list \<Rightarrow> elf_ehdr \<Rightarrow> nat \<Rightarrow> nat \<Rightarrow> elf_stop + elf_section list" where
  "parse_sections elf h i 0 = Inr []"
| "parse_sections elf h i (Suc n) =
     (let off = e_shoff h + of_nat (i * unat (e_shentsize h)) in
      if \<not> elf_bounds_check (of_nat (length elf)) off 64 then Inl (Elf_Error Bad_Section_Header)
      else case read_shdr elf (unat off) of
        None \<Rightarrow> Inl Elf_Fault
      | Some s \<Rightarrow>
          if \<not> elf_bounds_check (of_nat (length elf)) (sh_offset s) (sh_size s) then Inl (Elf_Error Bad_Section)
          else if MAX_SECTIONS \<le> i then Inl Elf_Fault
          else and_then (parse_sections elf h (Suc i) n) (\<lambda>ss. Inr (s # ss)))"

definition elf_sections :: "u8 list \<Rightarrow> elf_stop + elf_section list" where
  "elf_sections elf = and_then (check_ehdr elf) (\<lambda>h. parse_sections elf h 0 (unat (e_shnum h)))"

definition is_text :: "elf_section \<Rightarrow> bool" where
  "is_text s \<longleftrightarrow> sh_type s = 1 \<and> sh_flags s = 6"

definition text_index :: "elf_section list \<Rightarrow> nat" where
  "text_index ss =
     (let i = length (takeWhile (\<lambda>s. \<not> is_text s) ss) in if i < length ss then i else 0)"

section \<open>Relocations\<close>

text \<open>
  \<open>alloc k\<close> is the address of the copy of the \<open>k\<close>-th string, and \<open>node_ok k\<close> whether its list node could
  be allocated.
\<close>

type_synonym allocator = "(nat \<Rightarrow> u64 option) \<times> (nat \<Rightarrow> bool)"

type_synonym reloc_result = "elf_stop \<times> ubpf_vm + ubpf_vm \<times> u8 list"

definition poke_or_fault :: "ubpf_vm \<Rightarrow> u8 list \<Rightarrow> u64 \<Rightarrow> u32 \<Rightarrow> reloc_result" where
  "poke_or_fault vm tx i v =
     (case poke32 tx (unat i) v of None \<Rightarrow> Inl (Elf_Fault, vm) | Some tx' \<Rightarrow> Inr (vm, tx'))"

text \<open>A relocation of type 1: a string of the file is copied and its address put into an \<open>lddw\<close>.\<close>

definition reloc_string ::
  "allocator \<Rightarrow> u8 list \<Rightarrow> elf_section list \<Rightarrow> elf_sym \<Rightarrow> elf_rel \<Rightarrow> ubpf_vm \<Rightarrow> u8 list \<Rightarrow> reloc_result" where
  "reloc_string al elf ss symb r vm tx =
     (let k = length (first_mem_node vm); ty = st_info symb AND 0xF;
          from = (if ty = 3 then map_option sext32 (peek32 tx (unat (r_offset r + 4)))
                  else Some (st_value symb))
      in if length ss \<le> unat (st_shndx symb) then Inl (Elf_Fault, vm)
         else if ty \<noteq> 3 \<and> ty \<noteq> 1 then Inl (Elf_Error No_Message, vm)
         else case from of
           None \<Rightarrow> Inl (Elf_Fault, vm)
         | Some off \<Rightarrow>
             (case cstring_at elf (unat (sh_offset (ss ! unat (st_shndx symb)) + off)) of
                None \<Rightarrow> Inl (Elf_Fault, vm)
              | Some s \<Rightarrow>
                  (case fst al k of
                     None \<Rightarrow> Inl (Elf_Error Str_Malloc_Error, vm)
                   | Some p \<Rightarrow>
                       if \<not> snd al k then Inl (Elf_Error Node_Malloc_Error, vm)
                       else let vm' = vm\<lparr>first_mem_node := (p, s @ [0]) # first_mem_node vm\<rparr> in
                         and_then (poke_or_fault vm' tx (r_offset r + 4) (ucast p)) (\<lambda>(vm2, tx2).
                           poke_or_fault vm2 tx2 (r_offset r + 12) (ucast (drop_bit 32 p))))))"

text \<open>A relocation of type 2 or 10: a call gets the number of the registered function.\<close>

definition reloc_call ::
  "u8 list \<Rightarrow> elf_section \<Rightarrow> elf_section \<Rightarrow> elf_sym \<Rightarrow> elf_rel \<Rightarrow> ubpf_vm \<Rightarrow> u8 list \<Rightarrow> reloc_result" where
  "reloc_call elf strtab txt symb r vm tx =
     (if sh_size txt < r_offset r + 8 then Inl (Elf_Error Bad_Relocation_Offset, vm)
      else case cstring_at elf (unat (sh_offset strtab + ucast (st_name symb))) of
        None \<Rightarrow> Inl (Elf_Fault, vm)
      | Some s \<Rightarrow>
          (let n = ubpf_lookup_registered_function vm (chars s) in
           if n = -1 then Inl (Elf_Error (Function_Not_Found (chars s)), vm)
           else poke_or_fault vm tx (r_offset r + 4) (of_int n)))"

definition reloc_entry ::
  "allocator \<Rightarrow> u8 list \<Rightarrow> elf_section list \<Rightarrow> elf_section \<Rightarrow> elf_section \<Rightarrow> elf_section \<Rightarrow> elf_rel \<Rightarrow>
     ubpf_vm \<times> u8 list \<Rightarrow> reloc_result" where
  "reloc_entry al elf ss symtab strtab txt r = (\<lambda>(vm, tx).
     let ty = ELF64_R_TYPE (r_info r); sym_idx = ELF64_R_SYM (r_info r);
         num_syms = (ucast (sh_size symtab div 24) :: u32)
     in if ty \<noteq> 1 \<and> ty \<noteq> 2 \<and> ty \<noteq> 10 then Inl (Elf_Error (Bad_Relocation_Type ty), vm)
        else if num_syms \<le> sym_idx then Inl (Elf_Error Bad_Symbol_Index, vm)
        else case read_sym elf (unat (sh_offset symtab) + 24 * unat sym_idx) of
          None \<Rightarrow> Inl (Elf_Fault, vm)
        | Some symb \<Rightarrow>
            if sh_size strtab \<le> ucast (st_name symb) then Inl (Elf_Error Bad_Symbol_Name, vm)
            else if ty = 1 then reloc_string al elf ss symb r vm tx
            else reloc_call elf strtab txt symb r vm tx)"

fun reloc_entries ::
  "allocator \<Rightarrow> u8 list \<Rightarrow> elf_section list \<Rightarrow> elf_section \<Rightarrow> elf_section \<Rightarrow> elf_section \<Rightarrow> nat list \<Rightarrow>
     ubpf_vm \<times> u8 list \<Rightarrow> reloc_result" where
  "reloc_entries al elf ss symtab strtab txt [] st = Inr st"
| "reloc_entries al elf ss symtab strtab txt (off # offs) st =
     (case read_rel elf off of
        None \<Rightarrow> Inl (Elf_Fault, fst st)
      | Some r \<Rightarrow>
          and_then (reloc_entry al elf ss symtab strtab txt r st)
            (reloc_entries al elf ss symtab strtab txt offs))"

text \<open>The offsets of \<open>rs[0]\<close>, \<open>rs[1]\<close>, \<open>\<dots>\<close> in the file.\<close>

definition rel_offsets :: "elf_section \<Rightarrow> nat list" where
  "rel_offsets rel = map (\<lambda>j. unat (sh_offset rel) + 16 * j) [0..<unat (sh_size rel) div 16]"

fun reloc_sections ::
  "allocator \<Rightarrow> u8 list \<Rightarrow> elf_section list \<Rightarrow> nat \<Rightarrow> elf_section list \<Rightarrow> ubpf_vm \<times> u8 list \<Rightarrow> reloc_result" where
  "reloc_sections al elf ss t [] st = Inr st"
| "reloc_sections al elf ss t (rel # rest) st =
     (if sh_type rel = 4 then Inl (Elf_Error No_Message, fst st)
      else if sh_type rel \<noteq> 9 \<or> unat (sh_info rel) \<noteq> t then reloc_sections al elf ss t rest st
      else if length ss \<le> unat (sh_link rel) then Inl (Elf_Error Bad_Symbol_Table_Index, fst st)
      else let symtab = ss ! unat (sh_link rel) in
        if length ss \<le> unat (sh_link symtab) then Inl (Elf_Error Bad_String_Table_Index, fst st)
        else and_then (reloc_entries al elf ss symtab (ss ! unat (sh_link symtab)) (ss ! t) (rel_offsets rel) st)
          (reloc_sections al elf ss t rest))"

text \<open>The bytes of a section, as \<open>memcpy\<close> reads them.\<close>

definition section_bytes :: "u8 list \<Rightarrow> elf_section \<Rightarrow> u8 list option" where
  "section_bytes elf s = struct_at elf (unat (sh_offset s)) (unat (sh_size s))
     (take (unat (sh_size s)) (drop (unat (sh_offset s)) elf))"

text \<open>\<open>ubpf_load\<close> takes the length of the text as a \<open>uint32_t\<close>.\<close>

definition ubpf_load_elf ::
  "allocator \<Rightarrow> bool \<Rightarrow> ubpf_vm \<Rightarrow> u8 list \<Rightarrow> u64 \<Rightarrow> u64 \<Rightarrow> u64 \<Rightarrow> ubpf_vm \<times> elf_stop option" where
  "ubpf_load_elf al copy_ok vm elf memory_ptr memory_size ctx_id =
     (case elf_sections elf of
        Inl stop \<Rightarrow> (vm, Some stop)
      | Inr ss \<Rightarrow>
         (let t = text_index ss in
          if t = 0 then (vm, Some (Elf_Error Text_Not_Found))
          else if \<not> copy_ok then (vm, Some (Elf_Error Failed_To_Allocate))
          else case section_bytes elf (ss ! t) of
            None \<Rightarrow> (vm, Some Elf_Fault)
          | Some text_copy \<Rightarrow>
             (case reloc_sections al elf ss t ss (vm, text_copy) of
                Inl (stop, vm') \<Rightarrow> (vm', Some stop)
              | Inr (vm', tx) \<Rightarrow>
                  (case ubpf_load vm' (take (unat (ucast (sh_size (ss ! t)) :: u32)) tx)
                          memory_ptr memory_size ctx_id of
                     (vm2, None) \<Rightarrow> (vm2, None)
                   | (vm2, Some err) \<Rightarrow> (vm2, Some (Elf_Error (Load_Failed err)))))))"

section \<open>Bounds\<close>

lemma elf_bounds_check_nat:
  assumes "elf_bounds_check (of_nat n) off sz" and "n < 2 ^ 64"
  shows "unat off + unat sz \<le> n"
proof -
  have "\<not> off + sz < off" and le: "off + sz \<le> of_nat n"
    using assms(1) by (auto simp: elf_bounds_check_def not_less)
  then have "unat (off + sz) = unat off + unat sz"
    by (metis no_olen_add_nat not_less unat_plus_simple word_le_nat_alt)
  then show ?thesis
    using le assms(2) by (simp add: word_le_nat_alt unat_of_nat)
qed

definition in_file :: "u8 list \<Rightarrow> elf_section \<Rightarrow> bool" where
  "in_file elf s \<longleftrightarrow> unat (sh_offset s) + unat (sh_size s) \<le> length elf"

lemma struct_at_Some: "struct_at elf off n v = Some w \<longleftrightarrow> off + n \<le> length elf \<and> w = v"
  by (auto simp: struct_at_def)

lemma struct_at_None: "struct_at elf off n v = None \<longleftrightarrow> length elf < off + n"
  by (simp add: struct_at_def)

lemma parse_sections_in_file:
  assumes "parse_sections elf h i n = Inr ss" and "length elf < 2 ^ 64"
  shows "length ss = n \<and> list_all (in_file elf) ss"
  using assms(1)
proof (induction n arbitrary: i ss)
  case (Suc n)
  let ?off = "e_shoff h + of_nat (i * unat (e_shentsize h))"
  from Suc.prems obtain s ss' where ss': "ss = s # ss'" "parse_sections elf h (Suc i) n = Inr ss'"
    and b: "elf_bounds_check (of_nat (length elf)) (sh_offset s) (sh_size s)"
    by (auto simp: Let_def and_then_Inr split: if_splits option.splits)
  show ?case
    using Suc.IH [OF ss'(2)] elf_bounds_check_nat [OF b assms(2)] by (simp add: ss'(1) in_file_def)
qed simp

lemma parse_sections_no_fault:
  assumes "i + n \<le> MAX_SECTIONS" and "length elf < 2 ^ 64"
  shows "parse_sections elf h i n \<noteq> Inl Elf_Fault"
  using assms(1)
proof (induction n arbitrary: i)
  case (Suc n)
  let ?off = "e_shoff h + of_nat (i * unat (e_shentsize h))"
  have "parse_sections elf h (Suc i) n \<noteq> Inl Elf_Fault"
    using Suc by simp
  moreover have "read_shdr elf (unat ?off) \<noteq> None" if "elf_bounds_check (of_nat (length elf)) ?off 64"
    using elf_bounds_check_nat [OF that assms(2)] by (simp add: read_shdr_def struct_at_None)
  ultimately show ?case
    using Suc.prems by (auto simp: Let_def and_then_Inl split: option.splits if_splits)
qed simp

lemma check_ehdr_no_fault:
  assumes "length elf < 2 ^ 64"
  shows "check_ehdr elf \<noteq> Inl Elf_Fault"
proof -
  have "read_ehdr elf \<noteq> None" if "elf_bounds_check (of_nat (length elf)) 0 64"
    using elf_bounds_check_nat [OF that assms] by (simp add: read_ehdr_def struct_at_None)
  then show ?thesis
    by (auto simp: check_ehdr_def split: option.splits)
qed

lemma elf_sections_in_file:
  assumes "elf_sections elf = Inr ss" and "length elf < 2 ^ 64"
  shows "list_all (in_file elf) ss"
  using assms parse_sections_in_file by (auto simp: elf_sections_def and_then_Inr)

lemma elf_sections_no_fault:
  assumes "length elf < 2 ^ 64"
  shows "elf_sections elf \<noteq> Inl Elf_Fault"
proof (cases "check_ehdr elf")
  case (Inr h)
  then have "unat (e_shnum h) \<le> MAX_SECTIONS"
    by (auto simp: check_ehdr_def ehdr_error_def split: if_splits option.splits)
  then show ?thesis
    using parse_sections_no_fault [of 0 "unat (e_shnum h)", OF _ assms] Inr by (simp add: elf_sections_def)
qed (use check_ehdr_no_fault [OF assms] in \<open>simp add: elf_sections_def\<close>)

lemma text_index_less: "text_index ss \<noteq> 0 \<Longrightarrow> text_index ss < length ss"
  by (auto simp: text_index_def Let_def split: if_splits)

lemma cstring_at_terminated:
  assumes "i < length bs" and "last bs = 0"
  shows "cstring_at bs i \<noteq> None"
proof -
  have "last (drop i bs) = 0" "drop i bs \<noteq> []"
    using assms by simp_all
  then have "0 \<in> set (drop i bs)"
    by (metis last_in_set)
  then have "takeWhile (\<lambda>b. b \<noteq> 0) (drop i bs) \<noteq> drop i bs"
    by (auto simp: takeWhile_eq_all_conv)
  then have "length (takeWhile (\<lambda>b. b \<noteq> 0) (drop i bs)) < length (drop i bs)"
    by (metis le_neq_implies_less length_takeWhile_le takeWhile_eq_take take_all)
  then show ?thesis
    by (simp add: cstring_at_def Let_def)
qed

section \<open>What relocation does\<close>

text \<open>
  The relocations of the text section with the name their symbol has, in the order in which the loader
  meets them, and the reference for relocations of calls: every call gets the number of its function.
\<close>

definition symbol_name :: "u8 list \<Rightarrow> elf_section \<Rightarrow> elf_section \<Rightarrow> elf_rel \<Rightarrow> string option" where
  "symbol_name elf symtab strtab r =
     (case read_sym elf (unat (sh_offset symtab) + 24 * unat (ELF64_R_SYM (r_info r))) of
        None \<Rightarrow> None
      | Some symb \<Rightarrow> map_option chars (cstring_at elf (unat (sh_offset strtab + ucast (st_name symb)))))"

definition rels_at :: "u8 list \<Rightarrow> nat list \<Rightarrow> elf_rel list" where
  "rels_at elf offs = List.map_filter (read_rel elf) offs"

lemma rels_at_simps:
  "rels_at elf [] = []"
  "rels_at elf (off # offs) = (case read_rel elf off of None \<Rightarrow> rels_at elf offs | Some r \<Rightarrow> r # rels_at elf offs)"
  by (simp_all add: rels_at_def map_filter_simps split: option.split)

definition named_rels :: "u8 list \<Rightarrow> elf_section list \<Rightarrow> elf_section \<Rightarrow> (string option \<times> elf_rel) list" where
  "named_rels elf ss rel =
     (let symtab = ss ! unat (sh_link rel); strtab = ss ! unat (sh_link symtab)
      in map (\<lambda>r. (symbol_name elf symtab strtab r, r)) (rels_at elf (rel_offsets rel)))"

definition is_text_rel :: "nat \<Rightarrow> elf_section \<Rightarrow> bool" where
  "is_text_rel t s \<longleftrightarrow> sh_type s = 9 \<and> unat (sh_info s) = t"

definition text_rels :: "u8 list \<Rightarrow> (string option \<times> elf_rel) list" where
  "text_rels elf =
     (case elf_sections elf of
        Inl _ \<Rightarrow> []
      | Inr ss \<Rightarrow> concat (map (named_rels elf ss) (filter (is_text_rel (text_index ss)) ss)))"

definition call_rel :: "string option \<times> elf_rel \<Rightarrow> bool" where
  "call_rel nr \<longleftrightarrow> ELF64_R_TYPE (r_info (snd nr)) \<noteq> 1 \<and> unat (r_offset (snd nr)) + 8 < 2 ^ 64"

fun patch_calls :: "ubpf_vm \<Rightarrow> (string option \<times> elf_rel) list \<Rightarrow> u8 list \<Rightarrow> u8 list option" where
  "patch_calls vm [] tx = Some tx"
| "patch_calls vm ((name, r) # rs) tx =
     (case name of
        None \<Rightarrow> None
      | Some s \<Rightarrow>
          if ubpf_lookup_registered_function vm s = -1 then None
          else case poke32 tx (unat (r_offset r) + 4) (of_int (ubpf_lookup_registered_function vm s)) of
            None \<Rightarrow> None
          | Some tx' \<Rightarrow> patch_calls vm rs tx')"

lemma patch_calls_append:
  "patch_calls vm (xs @ ys) tx =
    (case patch_calls vm xs tx of None \<Rightarrow> None | Some tx' \<Rightarrow> patch_calls vm ys tx')"
  by (induction vm xs tx rule: patch_calls.induct) (auto split: option.splits)

lemma unat_rel_offset: "unat (r :: u64) + 8 < 2 ^ 64 \<Longrightarrow> unat (r + 4) = unat r + 4 \<and> unat (r + 8) = unat r + 8"
  using unat_add_no_wrap [of r 4] unat_add_no_wrap [of r 8] by simp

lemma reloc_entry_call:
  assumes "call_rel (symbol_name elf symtab strtab r, r)"
    and "reloc_entry al elf ss symtab strtab txt r (vm, tx) = Inr (vm', tx')"
  shows "vm' = vm \<and> patch_calls vm [(symbol_name elf symtab strtab r, r)] tx = Some tx'"
  using assms
  by (auto simp: reloc_entry_def reloc_call_def poke_or_fault_def Let_def call_rel_def symbol_name_def
      unat_rel_offset split: if_splits option.splits)

lemma symbol_in_file:
  assumes "in_file elf symtab" and "sym_idx < (ucast (sh_size symtab div 24) :: u32)"
  shows "read_sym elf (unat (sh_offset symtab) + 24 * unat sym_idx) \<noteq> None"
proof -
  have "unat sym_idx < unat (ucast (sh_size symtab div 24) :: u32)"
    using assms(2) by (simp add: word_less_nat_alt)
  also have "\<dots> \<le> unat (sh_size symtab) div 24"
    by (simp add: unsigned_ucast_eq unat_div_distrib take_bit_nat_less_eq_self)
  finally have "24 * unat sym_idx + 24 \<le> unat (sh_size symtab)"
    by linarith
  then show ?thesis
    using assms(1) by (simp add: in_file_def read_sym_def struct_at_None)
qed

lemma name_in_file:
  assumes "in_file elf strtab" and "length elf < 2 ^ 64" and "last elf = 0"
    and "\<not> sh_size strtab \<le> (ucast (n :: u32) :: u64)"
  shows "cstring_at elf (unat (sh_offset strtab + ucast n)) \<noteq> None"
proof (rule cstring_at_terminated)
  have "unat (ucast n :: u64) < unat (sh_size strtab)"
    using assms(4) by (simp add: word_le_nat_alt)
  then show "unat (sh_offset strtab + ucast n) < length elf"
    using assms(1,2) by (simp add: in_file_def unat_word_ariths)
qed (rule assms(3))

lemma reloc_entry_no_fault:
  assumes "call_rel (symbol_name elf symtab strtab r, r)" and "last elf = 0" and "length elf < 2 ^ 64"
    and "in_file elf symtab" and "in_file elf strtab" and "length tx = unat (sh_size txt)"
  shows "\<forall>vm'. reloc_entry al elf ss symtab strtab txt r (vm, tx) \<noteq> Inl (Elf_Fault, vm')"
proof -
  have poke: "poke32 tx (unat (r_offset r + 4)) v \<noteq> None" if "\<not> sh_size txt < r_offset r + 8" for v
    using that assms(1,6) unat_rel_offset [of "r_offset r"]
    by (simp add: poke32_def call_rel_def word_less_nat_alt)
  have call: "reloc_call elf strtab txt symb r vm tx \<noteq> Inl (Elf_Fault, vm')"
    if "\<not> sh_size strtab \<le> ucast (st_name symb)" for symb vm'
    using name_in_file [OF assms(5,3,2) that] poke
    by (auto simp: reloc_call_def poke_or_fault_def Let_def simp del: not_None_eq split: option.splits)
  show ?thesis
  proof (cases "ELF64_R_SYM (r_info r) < (ucast (sh_size symtab div 24) :: u32)")
    case True
    then show ?thesis
      using symbol_in_file [OF assms(4) True] call assms(1)
      by (auto simp: reloc_entry_def Let_def call_rel_def not_le split: option.splits)
  qed (simp add: reloc_entry_def Let_def not_less)
qed

lemma patch_calls_length: "patch_calls vm rs tx = Some tx' \<Longrightarrow> length tx' = length tx"
  by (induction vm rs tx rule: patch_calls.induct)
    (auto simp: poke32_def put_le32_def split: option.splits if_splits)

lemma reloc_entries_call:
  assumes "list_all (\<lambda>r. call_rel (symbol_name elf symtab strtab r, r)) (rels_at elf offs)"
    and "reloc_entries al elf ss symtab strtab txt offs (vm, tx) = Inr (vm', tx')"
  shows "vm' = vm \<and>
    patch_calls vm (map (\<lambda>r. (symbol_name elf symtab strtab r, r)) (rels_at elf offs)) tx = Some tx'"
  using assms
proof (induction offs arbitrary: tx)
  case (Cons off offs)
  from Cons.prems(2) obtain r vm1 tx1 where r: "read_rel elf off = Some r"
    and here: "reloc_entry al elf ss symtab strtab txt r (vm, tx) = Inr (vm1, tx1)"
    and rest: "reloc_entries al elf ss symtab strtab txt offs (vm1, tx1) = Inr (vm', tx')"
    by (auto simp: and_then_Inr split: option.splits)
  have "vm1 = vm \<and> patch_calls vm [(symbol_name elf symtab strtab r, r)] tx = Some tx1"
    using reloc_entry_call [OF _ here] Cons.prems(1) r by (simp add: rels_at_simps)
  then show ?case
    using Cons.IH [of tx1] Cons.prems(1) rest r
      patch_calls_append [of vm "[(symbol_name elf symtab strtab r, r)]" _ tx]
    by (simp add: rels_at_simps)
qed (simp add: rels_at_simps)

lemma reloc_entries_no_fault:
  assumes "list_all (\<lambda>r. call_rel (symbol_name elf symtab strtab r, r)) (rels_at elf offs)"
    and "last elf = 0" and "length elf < 2 ^ 64" and "in_file elf symtab" and "in_file elf strtab"
    and "length tx = unat (sh_size txt)" and "\<forall>off \<in> set offs. off + 16 \<le> length elf"
  shows "\<forall>vm'. reloc_entries al elf ss symtab strtab txt offs (vm, tx) \<noteq> Inl (Elf_Fault, vm')"
  using assms(1,6,7)
proof (induction offs arbitrary: vm tx)
  case (Cons off offs)
  then obtain r where r: "read_rel elf off = Some r"
    by (auto simp: read_rel_def struct_at_def)
  have here: "\<forall>vm'. reloc_entry al elf ss symtab strtab txt r (vm, tx) \<noteq> Inl (Elf_Fault, vm')"
    using reloc_entry_no_fault [OF _ assms(2-5)] Cons.prems r by (simp add: rels_at_simps)
  have rest: "\<forall>vm'. reloc_entries al elf ss symtab strtab txt offs (vm1, tx1) \<noteq> Inl (Elf_Fault, vm')"
    if one: "reloc_entry al elf ss symtab strtab txt r (vm, tx) = Inr (vm1, tx1)" for vm1 tx1
  proof (rule Cons.IH)
    have "call_rel (symbol_name elf symtab strtab r, r)"
      using Cons.prems(1) r by (simp add: rels_at_simps)
    then show "length tx1 = unat (sh_size txt)"
      using patch_calls_length reloc_entry_call [OF _ one] Cons.prems(2) by fastforce
  qed (use Cons.prems r in \<open>simp_all add: rels_at_simps\<close>)
  show ?case
    using here rest r by (cases "reloc_entry al elf ss symtab strtab txt r (vm, tx)") auto
qed simp

lemma rel_offsets_in_file:
  assumes "in_file elf rel"
  shows "\<forall>off \<in> set (rel_offsets rel). off + 16 \<le> length elf"
proof -
  have "16 * j + 16 \<le> unat (sh_size rel)" if "j < unat (sh_size rel) div 16" for j
    using that by linarith
  then show ?thesis
    using assms by (fastforce simp: rel_offsets_def in_file_def)
qed

lemma reloc_sections_call:
  assumes "list_all call_rel (concat (map (named_rels elf ss) (filter (is_text_rel t) rels)))"
    and "reloc_sections al elf ss t rels (vm, tx) = Inr (vm', tx')"
  shows "vm' = vm \<and> patch_calls vm (concat (map (named_rels elf ss) (filter (is_text_rel t) rels))) tx = Some tx'"
  using assms
proof (induction rels arbitrary: tx)
  case (Cons rel rels)
  show ?case
  proof (cases "is_text_rel t rel")
    case True
    let ?symtab = "ss ! unat (sh_link rel)"
    let ?strtab = "ss ! unat (sh_link ?symtab)"
    from True Cons.prems(2) obtain vm1 tx1 where
      here: "reloc_entries al elf ss ?symtab ?strtab (ss ! t) (rel_offsets rel) (vm, tx) = Inr (vm1, tx1)"
      and rest: "reloc_sections al elf ss t rels (vm1, tx1) = Inr (vm', tx')"
      by (auto simp: is_text_rel_def Let_def and_then_Inr split: if_splits)
    have "list_all (\<lambda>r. call_rel (symbol_name elf ?symtab ?strtab r, r)) (rels_at elf (rel_offsets rel))"
      using True Cons.prems(1) by (simp add: named_rels_def Let_def list_all_iff)
    from reloc_entries_call [OF this here] show ?thesis
      using Cons.IH [of tx1] Cons.prems(1) rest True
      by (simp add: named_rels_def Let_def patch_calls_append)
  next
    case False
    then show ?thesis
      using Cons by (auto simp: is_text_rel_def split: if_splits)
  qed
qed simp

lemma reloc_sections_no_fault:
  assumes "list_all call_rel (concat (map (named_rels elf ss) (filter (is_text_rel t) rels)))"
    and "list_all (in_file elf) ss" and "last elf = 0" and "length elf < 2 ^ 64"
    and "length tx = unat (sh_size (ss ! t))" and "list_all (in_file elf) rels"
  shows "\<forall>vm'. reloc_sections al elf ss t rels (vm, tx) \<noteq> Inl (Elf_Fault, vm')"
  using assms(1,5,6)
proof (induction rels arbitrary: vm tx)
  case (Cons rel rels)
  let ?symtab = "ss ! unat (sh_link rel)"
  let ?strtab = "ss ! unat (sh_link ?symtab)"
  let ?here = "reloc_entries al elf ss ?symtab ?strtab (ss ! t) (rel_offsets rel) (vm, tx)"
  show ?case
  proof (cases "is_text_rel t rel \<and> unat (sh_link rel) < length ss \<and> unat (sh_link ?symtab) < length ss")
    case True
    then have calls: "list_all (\<lambda>r. call_rel (symbol_name elf ?symtab ?strtab r, r)) (rels_at elf (rel_offsets rel))"
      using Cons.prems(1) by (simp add: named_rels_def Let_def list_all_iff)
    have "in_file elf ?symtab" "in_file elf ?strtab"
      using True assms(2) by (simp_all add: list_all_length)
    moreover have "\<forall>off \<in> set (rel_offsets rel). off + 16 \<le> length elf"
      using Cons.prems(3) by (intro rel_offsets_in_file) simp
    ultimately have "\<forall>vm'. ?here \<noteq> Inl (Elf_Fault, vm')"
      using reloc_entries_no_fault [OF calls assms(3,4) _ _ Cons.prems(2)] by blast
    moreover have "\<forall>vm'. reloc_sections al elf ss t rels (vm1, tx1) \<noteq> Inl (Elf_Fault, vm')"
      if "?here = Inr (vm1, tx1)" for vm1 tx1
    proof (rule Cons.IH)
      show "length tx1 = unat (sh_size (ss ! t))"
        using patch_calls_length reloc_entries_call [OF calls that] Cons.prems(2) by fastforce
    qed (use True Cons.prems(1,3) in simp_all)
    ultimately show ?thesis
      using True by (cases ?here) (auto simp: Let_def is_text_rel_def)
  next
    case False
    then show ?thesis
      using Cons by (auto simp: is_text_rel_def Let_def)
  qed
qed simp

lemma get_put_le32: "get_le (put_le32 v) = v"
  using decode_encode_inst [of "\<lparr>opcode = 0, dst = 0, src = 0, offset = 0, imm = v\<rparr>" "[]"]
  by (simp add: encode_inst_def decode_inst_def get_le_Cons get_le_Nil put_le32_def push_bit_or or.assoc)

lemma poke32_peek: "poke32 bs i v = Some bs' \<Longrightarrow> peek32 bs' i = Some v"
  by (auto simp: poke32_def peek32_def field_def get_put_le32 put_le32_def [THEN arg_cong [of _ _ length]]
      split: if_splits)

lemma poke32_peek_other:
  assumes "poke32 bs i v = Some bs'" and "j + 4 \<le> i \<or> i + 4 \<le> j"
  shows "peek32 bs' j = peek32 bs j"
proof -
  have bs': "bs' = take i bs @ put_le32 v @ drop (i + 4) bs" "i + 4 \<le> length bs"
    using assms(1) by (auto simp: poke32_def split: if_splits)
  have len: "length (put_le32 v) = 4"
    by (simp add: put_le32_def)
  have "take 4 (drop j bs') = take 4 (drop j bs)"
    using assms(2)
  proof
    assume "j + 4 \<le> i"
    then show ?thesis
      using bs'(2) by (auto simp: bs'(1) drop_take min_def)
  next
    assume "i + 4 \<le> j"
    then show ?thesis
      using bs'(2) len by (simp add: bs'(1))
  qed
  then show ?thesis
    using bs'(2) len by (auto simp: peek32_def field_def bs'(1))
qed

definition apart :: "elf_rel \<Rightarrow> elf_rel \<Rightarrow> bool" where
  "apart r r' \<longleftrightarrow> unat (r_offset r) + 4 \<le> unat (r_offset r') \<or> unat (r_offset r') + 4 \<le> unat (r_offset r)"

lemma patch_calls_other:
  assumes "patch_calls vm rs tx = Some tx'" and "\<forall>r' \<in> snd ` set rs. apart r r'"
  shows "peek32 tx' (unat (r_offset r) + 4) = peek32 tx (unat (r_offset r) + 4)"
  using assms
  by (induction vm rs tx rule: patch_calls.induct)
    (auto simp: apart_def dest!: poke32_peek_other [where j = "unat (r_offset r) + 4"] split: option.splits if_splits)

lemma patch_calls_resolved:
  assumes "patch_calls vm rs tx = Some tx'" and "sorted_wrt (\<lambda>a b. apart (snd a) (snd b)) rs"
    and "(name, r) \<in> set rs"
  shows "\<exists>f. name = Some f \<and> ubpf_lookup_registered_function vm f \<noteq> -1 \<and>
    peek32 tx' (unat (r_offset r) + 4) = Some (of_int (ubpf_lookup_registered_function vm f))"
  using assms
proof (induction vm rs tx rule: patch_calls.induct)
  case (2 vm n q rs tx)
  from "2.prems"(1) obtain f tx1 where f: "n = Some f" "ubpf_lookup_registered_function vm f \<noteq> -1"
    and tx1: "poke32 tx (unat (r_offset q) + 4) (of_int (ubpf_lookup_registered_function vm f)) = Some tx1"
    and rest: "patch_calls vm rs tx1 = Some tx'"
    by (auto split: option.splits if_splits)
  show ?case
  proof (cases "(name, r) \<in> set rs")
    case True
    then show ?thesis
      using "2.IH" [OF f tx1 rest] "2.prems"(2) by simp
  next
    case False
    then have "name = n" "r = q"
      using "2.prems"(3) by auto
    then show ?thesis
      using patch_calls_other [OF rest, of q] "2.prems"(2) f poke32_peek [OF tx1] by auto
  qed
qed simp

section \<open>From a file to an entry point\<close>

text \<open>
  The names \<open>register_dev_functions\<close> registers, from slot 0 on; \<open>impl\<close> gives the host function of a name.
  \<^const>\<open>None\<close> is a failed assertion.
\<close>

definition dev_functions :: "string list" where
  "dev_functions =
     [''invoke_plugin_operation_or_default'', ''get'', ''set'', ''call_host_func'', ''my_ntohl'', ''my_htonl'',
      ''my_plugin_malloc'', ''my_plugin_free'', ''my_plugin_memset'', ''my_plugin_memcpy'', ''log_fn_'',
      ''circpad_machine_spec_transition'', ''trunnel_set_uint8'', ''trunnel_set_uint16'', ''trunnel_set_uint32'',
      ''trunnel_get_uint8'', ''trunnel_get_uint16'', ''trunnel_get_uint32'', ''strcmp'']"

fun register_from :: "(string \<Rightarrow> ext_func) \<Rightarrow> u32 \<Rightarrow> string list \<Rightarrow> ubpf_vm \<Rightarrow> ubpf_vm option" where
  "register_from impl idx [] vm = Some vm"
| "register_from impl idx (name # names) vm =
     (case ubpf_register vm idx name (impl name) of
        (vm', rv) \<Rightarrow> if rv = -1 then None else register_from impl (idx + 1) names vm')"

definition register_dev_functions :: "(string \<Rightarrow> ext_func) \<Rightarrow> ubpf_vm \<Rightarrow> ubpf_vm option" where
  "register_dev_functions impl vm = register_from impl 0 dev_functions vm"

text \<open>
  \<open>load_elf\<close>: \<open>Inl\<close> is undefined behaviour or a failed assertion, \<open>Inr None\<close> the value -1. The compiler
  \<open>compile\<close> to machine code is a parameter. When the loader gives up without a message, \<open>errmsg\<close> is
  freed without having been set.
\<close>

definition load_elf ::
  "allocator \<Rightarrow> bool \<times> bool \<times> bool \<times> bool \<Rightarrow> (string \<Rightarrow> ext_func) \<Rightarrow> (ubpf_vm \<Rightarrow> 'fn option) \<Rightarrow>
     u8 list \<Rightarrow> u64 \<Rightarrow> u64 \<Rightarrow> elf_stop + (ubpf_vm \<times> 'fn) option" where
  "load_elf al ok impl compile code memory_ptr memory_size =
     (case ok of (vm_ok, funcs_ok, names_ok, copy_ok) \<Rightarrow>
      case ubpf_create vm_ok funcs_ok names_ok of
        None \<Rightarrow> Inr None
      | Some vm0 \<Rightarrow>
          (case register_dev_functions impl vm0 of
             None \<Rightarrow> Inl Elf_Fault
           | Some vm \<Rightarrow>
               (case (if 4 \<le> length code \<and> take 4 code = [0x7F, 0x45, 0x4C, 0x46]
                      then ubpf_load_elf al copy_ok vm code memory_ptr memory_size 0
                      else map_prod id (map_option (\<lambda>e. Elf_Error (Load_Failed e))) (ubpf_load vm code memory_ptr memory_size 0)) of
                  (vm', Some Elf_Fault) \<Rightarrow> Inl Elf_Fault
                | (vm', Some (Elf_Error No_Message)) \<Rightarrow> Inl Elf_Fault
                | (vm', Some (Elf_Error _)) \<Rightarrow> Inr None
                | (vm', None) \<Rightarrow>
                    (case compile vm' of None \<Rightarrow> Inr None | Some fn \<Rightarrow> Inr (Some (vm', fn))))))"

text \<open>The files are \<open>fs\<close>: the content of a path, if it can be read; the first megabyte is used.\<close>

definition load_elf_file ::
  "(string \<Rightarrow> u8 list option) \<Rightarrow> allocator \<Rightarrow> bool \<times> bool \<times> bool \<times> bool \<Rightarrow> (string \<Rightarrow> ext_func) \<Rightarrow>
     (ubpf_vm \<Rightarrow> 'fn option) \<Rightarrow> string \<Rightarrow> u64 \<Rightarrow> u64 \<Rightarrow> elf_stop + (ubpf_vm \<times> 'fn) option" where
  "load_elf_file fs al ok impl compile path memory_ptr memory_size =
     (case fs path of
        None \<Rightarrow> Inr None
      | Some bytes \<Rightarrow> load_elf al ok impl compile (take (1024 * 1024) bytes) memory_ptr memory_size)"

lemma register_from_tables:
  assumes "unat idx + length names \<le> MAX_EXT_FUNCS" and "length (vm_ext_funcs vm) = MAX_EXT_FUNCS"
  shows "\<exists>vm'. register_from impl idx names vm = Some vm' \<and> length (vm_ext_funcs vm') = MAX_EXT_FUNCS \<and>
    (\<forall>i < MAX_EXT_FUNCS. vm_ext_funcs vm' ! i =
       (if unat idx \<le> i \<and> i < unat idx + length names then Some (impl (names ! (i - unat idx)))
        else vm_ext_funcs vm ! i))"
  using assms
proof (induction names arbitrary: idx vm)
  case (Cons name names)
  let ?vm = "fst (ubpf_register vm idx name (impl name))"
  have idx: "unat idx < MAX_EXT_FUNCS"
    using Cons.prems(1) by simp
  then have suc: "unat (idx + 1) = Suc (unat idx)"
    by (simp add: MAX_EXT_FUNCS_def unat_word_ariths)
  have reg: "ubpf_register vm idx name (impl name) = (?vm, 0)"
    and slots: "vm_ext_funcs ?vm = (vm_ext_funcs vm)[unat idx := Some (impl name)]"
    using idx by (simp_all add: ubpf_register_def)
  have "length (vm_ext_funcs ?vm) = MAX_EXT_FUNCS"
    using Cons.prems(2) by (simp add: slots)
  then obtain vm' where vm': "register_from impl (idx + 1) names ?vm = Some vm'"
      "length (vm_ext_funcs vm') = MAX_EXT_FUNCS"
    and at: "\<And>i. i < MAX_EXT_FUNCS \<Longrightarrow> vm_ext_funcs vm' ! i =
       (if Suc (unat idx) \<le> i \<and> i < Suc (unat idx) + length names then Some (impl (names ! (i - Suc (unat idx))))
        else vm_ext_funcs ?vm ! i)"
    using Cons.IH [of "idx + 1" ?vm] Cons.prems(1) suc by auto
  have "register_from impl idx (name # names) vm = Some vm'"
    using vm'(1) by (subst register_from.simps, subst reg) simp
  moreover have "vm_ext_funcs vm' ! i =
      (if unat idx \<le> i \<and> i < unat idx + length (name # names) then Some (impl ((name # names) ! (i - unat idx)))
       else vm_ext_funcs vm ! i)" if "i < MAX_EXT_FUNCS" for i
  proof (cases "i = unat idx")
    case True
    then show ?thesis
      using at [OF that] Cons.prems(2) that by (simp add: slots)
  next
    case False
    then show ?thesis
      using at [OF that] by (auto simp: slots nth_Cons')
  qed
  ultimately show ?case
    using vm'(2) by blast
qed auto

lemma dev_functions_slots:
  assumes "ubpf_create a b c = Some vm0"
  shows "\<exists>vm. register_dev_functions impl vm0 = Some vm \<and>
    (\<forall>i < MAX_EXT_FUNCS. vm_ext_funcs vm ! i = (if i < 19 then Some (impl (dev_functions ! i)) else None))"
proof -
  have "vm_ext_funcs vm0 = replicate MAX_EXT_FUNCS None"
    using assms by (auto simp: ubpf_create_def split: if_splits)
  moreover have "length dev_functions = 19"
    by (simp add: dev_functions_def)
  ultimately show ?thesis
    using register_from_tables [of 0 dev_functions vm0 impl]
    by (auto simp: register_dev_functions_def MAX_EXT_FUNCS_def)
qed

lemma oob_call_slot_empty:
  assumes "ubpf_create a b c = Some vm0" and "register_dev_functions impl vm0 = Some vm"
  shows "ext_func_at (vm_ext_funcs vm) OOB_CALL = None"
proof -
  have "vm_ext_funcs vm ! 63 = None"
    using dev_functions_slots [OF assms(1), of impl] assms(2) by (auto simp: MAX_EXT_FUNCS_def)
  then show ?thesis
    by (simp add: ext_func_at_def OOB_CALL_def)
qed

section \<open>Properties\<close>

text \<open>
  C16. The loader stays inside the file and inside its copy of the text: for a file that ends with a zero
  byte, whose relocations of the text are not of type 1 and have no offset within eight bytes of
  \<open>2 ^ 64\<close>, no header, relocation, symbol or name is read outside the file, no section header is stored
  behind the array \<open>sections\<close>, and the copy of the text is written inside its bounds, whatever the rest of
  the file holds.
\<close>

theorem elf_loader_no_fault:
  assumes "length elf < 2 ^ 64" and "last elf = 0" and "\<forall>nr \<in> set (text_rels elf). call_rel nr"
  shows "snd (ubpf_load_elf al ok vm elf mp ms ctx) \<noteq> Some Elf_Fault"
proof (cases "elf_sections elf")
  case (Inr ss)
  let ?t = "text_index ss"
  have inside: "list_all (in_file elf) ss"
    using elf_sections_in_file [OF Inr assms(1)] .
  have calls: "list_all call_rel (concat (map (named_rels elf ss) (filter (is_text_rel ?t) ss)))"
    using assms(3) Inr by (simp only: text_rels_def sum.case list_all_iff)
  have "\<exists>tx. section_bytes elf (ss ! ?t) = Some tx \<and> length tx = unat (sh_size (ss ! ?t))" if "?t \<noteq> 0"
    using spec [OF inside [unfolded list_all_length], of ?t] text_index_less [OF that]
    by (auto simp: section_bytes_def struct_at_def in_file_def list_all_length not_less)
  then have "\<exists>tx. section_bytes elf (ss ! ?t) = Some tx \<and>
      (\<forall>vm'. reloc_sections al elf ss ?t ss (vm, tx) \<noteq> Inl (Elf_Fault, vm'))" if "?t \<noteq> 0"
    using reloc_sections_no_fault [OF calls inside assms(2,1) _ inside] that by blast
  then show ?thesis
    using Inr
    by (cases "?t = 0") (auto simp: ubpf_load_elf_def Let_def split: option.splits sum.splits prod.splits)
qed (use elf_sections_no_fault [OF assms(1)] in \<open>auto simp: ubpf_load_elf_def\<close>)

text \<open>
  A small object file: a text section that calls \<open>get\<close> and returns, its relocation, the symbol table and
  the string table, then five section headers.
\<close>

definition demo_elf :: "u8 list" where
  "demo_elf =
     [0x7F, 0x45, 0x4C, 0x46, 2, 1, 1, 0, 0, 0, 0, 0, 0, 0, 0, 0, 1, 0, 0xF7, 0, 1, 0, 0, 0,
      0, 0, 0, 0, 0, 0, 0, 0, 0, 0, 0, 0, 0, 0, 0, 0, 0x98, 0, 0, 0, 0, 0, 0, 0,
      0, 0, 0, 0, 0x40, 0, 0, 0, 0, 0, 0x40, 0, 5, 0, 0, 0, 0x85, 0x10, 0, 0, 0xFF, 0xFF, 0xFF, 0xFF,
      0x95, 0, 0, 0, 0, 0, 0, 0, 0, 0, 0, 0, 0, 0, 0, 0, 0x0A, 0, 0, 0, 1, 0, 0, 0,
      0, 0, 0, 0, 0, 0, 0, 0, 0, 0, 0, 0, 0, 0, 0, 0, 0, 0, 0, 0, 0, 0, 0, 0,
      1, 0, 0, 0, 0, 0, 0, 0, 0, 0, 0, 0, 0, 0, 0, 0, 0, 0, 0, 0, 0, 0, 0, 0,
      0, 0x67, 0x65, 0x74, 0, 0, 0, 0, 0, 0, 0, 0, 0, 0, 0, 0, 0, 0, 0, 0, 0, 0, 0, 0,
      0, 0, 0, 0, 0, 0, 0, 0, 0, 0, 0, 0, 0, 0, 0, 0, 0, 0, 0, 0, 0, 0, 0, 0,
      0, 0, 0, 0, 0, 0, 0, 0, 0, 0, 0, 0, 0, 0, 0, 0, 0, 0, 0, 0, 0, 0, 0, 0,
      0, 0, 0, 0, 1, 0, 0, 0, 6, 0, 0, 0, 0, 0, 0, 0, 0, 0, 0, 0, 0, 0, 0, 0,
      0x40, 0, 0, 0, 0, 0, 0, 0, 0x10, 0, 0, 0, 0, 0, 0, 0, 0, 0, 0, 0, 0, 0, 0, 0,
      0, 0, 0, 0, 0, 0, 0, 0, 0, 0, 0, 0, 0, 0, 0, 0, 0, 0, 0, 0, 9, 0, 0, 0,
      0, 0, 0, 0, 0, 0, 0, 0, 0, 0, 0, 0, 0, 0, 0, 0, 0x50, 0, 0, 0, 0, 0, 0, 0,
      0x10, 0, 0, 0, 0, 0, 0, 0, 3, 0, 0, 0, 1, 0, 0, 0, 0, 0, 0, 0, 0, 0, 0, 0,
      0, 0, 0, 0, 0, 0, 0, 0, 0, 0, 0, 0, 2, 0, 0, 0, 0, 0, 0, 0, 0, 0, 0, 0,
      0, 0, 0, 0, 0, 0, 0, 0, 0x60, 0, 0, 0, 0, 0, 0, 0, 0x30, 0, 0, 0, 0, 0, 0, 0,
      4, 0, 0, 0, 0, 0, 0, 0, 0, 0, 0, 0, 0, 0, 0, 0, 0, 0, 0, 0, 0, 0, 0, 0,
      0, 0, 0, 0, 3, 0, 0, 0, 0, 0, 0, 0, 0, 0, 0, 0, 0, 0, 0, 0, 0, 0, 0, 0,
      0x90, 0, 0, 0, 0, 0, 0, 0, 8, 0, 0, 0, 0, 0, 0, 0, 0, 0, 0, 0, 0, 0, 0, 0,
      0, 0, 0, 0, 0, 0, 0, 0, 0, 0, 0, 0, 0, 0, 0, 0]"

abbreviation demo_section :: "u32 \<Rightarrow> u64 \<Rightarrow> u64 \<Rightarrow> u64 \<Rightarrow> u32 \<Rightarrow> u32 \<Rightarrow> elf_section" where
  "demo_section ty flags off sz link info \<equiv>
     \<lparr>sh_type = ty, sh_flags = flags, sh_offset = off, sh_size = sz, sh_link = link, sh_info = info\<rparr>"

definition demo_sections :: "elf_section list" where
  "demo_sections =
     [demo_section 0 0 0 0 0 0, demo_section 1 6 64 16 0 0, demo_section 9 0 80 16 3 1,
      demo_section 2 0 96 48 4 0, demo_section 3 0 144 8 0 0]"

lemma demo_elf_header: "length demo_elf = 472" "last demo_elf = 0"
  by code_simp+

lemma demo_elf_sections: "elf_sections demo_elf = Inr demo_sections"
  by code_simp

lemma demo_elf_rels:
  "rel_offsets (demo_section 9 0 80 16 3 1) = [80]"
  "read_rel demo_elf 80 = Some \<lparr>r_offset = 0, r_info = 0x10000000A\<rparr>"
  "read_sym demo_elf 120 = Some \<lparr>st_name = 1, st_info = 0, st_shndx = 0, st_value = 0\<rparr>"
  "cstring_at demo_elf 145 = Some [0x67, 0x65, 0x74]" "chars [0x67, 0x65, 0x74] = ''get''"
  "section_bytes demo_elf (demo_section 1 6 64 16 0 0) =
    Some [0x85, 0x10, 0, 0, 0xFF, 0xFF, 0xFF, 0xFF, 0x95, 0, 0, 0, 0, 0, 0, 0]"
  by code_simp+

lemma demo_text_rels: "text_rels demo_elf = [(Some ''get'', \<lparr>r_offset = 0, r_info = 0x10000000A\<rparr>)]"
  by (simp add: text_rels_def demo_elf_sections demo_sections_def text_index_def is_text_def
      is_text_rel_def named_rels_def symbol_name_def demo_elf_rels rels_at_simps ELF64_R_SYM_def)

theorem elf_loader_no_fault_witness:
  "snd (ubpf_load_elf (\<lambda>_. None, \<lambda>_. True) True empty_vm demo_elf 0 0 0) \<noteq> Some Elf_Fault"
proof (rule elf_loader_no_fault)
  show "\<forall>nr \<in> set (text_rels demo_elf). call_rel nr"
    by (simp add: demo_text_rels call_rel_def ELF64_R_TYPE_def)
qed (simp_all add: demo_elf_header)

text \<open>
  C17. Calls are resolved: when a file with such relocations at places that do not overlap is loaded, the
  code handed to \<open>ubpf_load\<close> has in every relocated call the slot in which the function of that name is
  registered.
\<close>

theorem elf_calls_resolved:
  assumes "ubpf_load_elf al ok vm elf mp ms ctx = (vm', None)" and "length elf < 2 ^ 32"
    and "\<forall>nr \<in> set (text_rels elf). call_rel nr"
    and "sorted_wrt (\<lambda>a b. apart (snd a) (snd b)) (text_rels elf)"
  shows "\<exists>tx. ubpf_load vm tx mp ms ctx = (vm', None) \<and>
    (\<forall>(name, r) \<in> set (text_rels elf). \<exists>f. name = Some f \<and> ubpf_lookup_registered_function vm f \<noteq> -1 \<and>
      peek32 tx (unat (r_offset r) + 4) = Some (of_int (ubpf_lookup_registered_function vm f)))"
proof -
  from assms(1) obtain ss vm1 tx0 tx where ss: "elf_sections elf = Inr ss"
    and t: "text_index ss \<noteq> 0" and tx0: "section_bytes elf (ss ! text_index ss) = Some tx0"
    and rel: "reloc_sections al elf ss (text_index ss) ss (vm, tx0) = Inr (vm1, tx)"
    and load: "ubpf_load vm1 (take (unat (ucast (sh_size (ss ! text_index ss)) :: u32)) tx) mp ms ctx = (vm', None)"
    by (auto simp: ubpf_load_elf_def Let_def split: option.splits sum.splits prod.splits if_splits)
  have rels: "text_rels elf = concat (map (named_rels elf ss) (filter (is_text_rel (text_index ss)) ss))"
    by (simp add: text_rels_def ss)
  have patch: "vm1 = vm" "patch_calls vm (text_rels elf) tx0 = Some tx"
    using reloc_sections_call [OF _ rel] assms(3) by (simp_all add: rels list_all_iff)
  have inside: "unat (sh_offset (ss ! text_index ss)) + unat (sh_size (ss ! text_index ss)) \<le> length elf"
    using elf_sections_in_file [OF ss] assms(2) text_index_less [OF t] by (simp add: list_all_length in_file_def)
  then have "unat (ucast (sh_size (ss ! text_index ss)) :: u32) = unat (sh_size (ss ! text_index ss))"
    using assms(2) by (simp add: unsigned_ucast_eq take_bit_nat_eq_self)
  moreover have "length tx = unat (sh_size (ss ! text_index ss))"
    using patch_calls_length [OF patch(2)] inside tx0 by (simp add: section_bytes_def struct_at_Some)
  ultimately have "ubpf_load vm tx mp ms ctx = (vm', None)"
    using load by (simp add: patch(1))
  then show ?thesis
    using patch_calls_resolved [OF patch(2) assms(4)] by blast
qed

definition get_vm :: ubpf_vm where
  "get_vm = \<lparr>vm_insts = None, num_insts = 0, vm_ext_funcs = [Some (\<lambda>_ _ _ _ _ m. (0, m))],
     vm_ext_func_names = [Some ''get''], first_mem_node = []\<rparr>"

lemma get_vm_lookup: "ubpf_lookup_registered_function get_vm ''get'' = 0"
  by (simp add: ubpf_lookup_registered_function_def get_vm_def MAX_EXT_FUNCS_def)

lemma demo_elf_loads: "\<exists>vm'. ubpf_load_elf al True get_vm demo_elf 0 0 0 = (vm', None)"
proof -
  let ?tx = "[0x85, 0x10, 0, 0, 0, 0, 0, 0, 0x95, 0, 0, 0, 0, 0, 0, 0] :: u8 list"
  have "reloc_sections al demo_elf demo_sections 1 demo_sections
      (get_vm, the (section_bytes demo_elf (demo_section 1 6 64 16 0 0))) = Inr (get_vm, ?tx)"
    by (simp add: Let_def demo_elf_rels demo_sections_def reloc_entry_def reloc_call_def ELF64_R_TYPE_def ELF64_R_SYM_def
        get_vm_lookup poke_or_fault_def poke32_def put_le32_def) code_simp
  moreover have "text_index demo_sections = 1"
    by (simp add: demo_sections_def text_index_def is_text_def)
  moreover have "decode_insts ?tx = [mk CALL 0 1 0 0, mk EXIT 0 0 0 0]"
    by code_simp
  then have "snd (ubpf_load get_vm ?tx 0 0 0) = None"
    by (simp add: ubpf_load_def get_vm_def load_instrumented_def validate_def MAX_INSTS_def validate_loop.simps
        validate_inst_def mk_simps validate_call_def MAX_EXT_FUNCS_def ext_func_at_def)
  ultimately show ?thesis
    by (cases "ubpf_load get_vm ?tx 0 0 0")
      (simp add: ubpf_load_elf_def demo_elf_sections demo_elf_rels demo_sections_def)
qed

theorem elf_calls_resolved_witness:
  "\<exists>vm' tx. ubpf_load get_vm tx 0 0 0 = (vm', None) \<and> peek32 tx 4 = Some 0"
proof -
  obtain vm' where "ubpf_load_elf (\<lambda>_. None, \<lambda>_. True) True get_vm demo_elf 0 0 0 = (vm', None)"
    using demo_elf_loads by blast
  from elf_calls_resolved [OF this] show ?thesis
    by (auto simp: demo_text_rels demo_elf_header call_rel_def ELF64_R_TYPE_def get_vm_lookup)
qed

text \<open>
  A refused access crashes the host: with the functions that \<open>register_dev_functions\<close> registers, slot
  \<open>OOB_CALL\<close> stays empty, so that a program with checks whose access is refused ends in a call through a
  null pointer.
\<close>

lemma refused_access_crashes:
  assumes "ubpf_create a b c = Some vm0" and "register_dev_functions impl vm0 = Some vm"
    and "ext_funcs e = vm_ext_funcs vm" and "checked_env mp ms e e'" and "boundary (insts e) (pc s)"
    and "sim (insts e) s s'" and "needs_check (insts e ! unat (pc s))"
    and "\<not> guard_ok mp ms (insts e ! unat (pc s)) (regs s)"
  shows "\<exists>k. run k e' s' = Trap Bad_Call"
proof -
  from memchecks_step_guard [OF assms(4-8)] obtain k t where k: "run k e' s' = Continue t"
    and t: "fetch e' (pc t) = Some (mk CALL 0 0 0 OOB_CALL)"
    by (auto simp: reaches_def)
  have "ext_funcs e' = vm_ext_funcs vm"
    using assms(3,4) by (auto simp: checked_env_def)
  then have "step e' t = Trap Bad_Call"
    using t oob_call_slot_empty [OF assms(1,2)] by (simp add: step_def mk_def exec_call_def decode_op_byte)
  then show ?thesis
    using run_append_step [OF k] by blast
qed

definition dev_env :: vm_env where
  "dev_env = plain_env\<lparr>ext_funcs := vm_ext_funcs (the (register_dev_functions (\<lambda>_ _ _ _ _ _ m. (0, m))
     (the (ubpf_create True True True))))\<rparr>"

end
