(* ===== verification/Plug_Cell.thy ===== *)
theory Plug_Cell
  imports Trunnel
begin

text \<open>
  The cell that carries plugin operations and plugin byte code, \<^verbatim>\<open>src/trunnel/plug_cell.c\<close>:
  \<open>plugin_part\<close> (a slice of a file) and \<open>plug_cell\<close> (version, uid, length and, in version 1, a
  \<open>plugin_part\<close>), with their setters, consistency checks, encoders and parsers.
\<close>

section \<open>Slices of a plugin\<close>

record plugin_part =
  total_len :: u64
  data_len :: u16
  part_offset :: u64
  plugin_data_part :: "u8 list"
  part_error_code :: bool

definition plugin_part_new :: plugin_part where
  "plugin_part_new = \<lparr>total_len = 0, data_len = 0, part_offset = 0, plugin_data_part = [],
     part_error_code = False\<rparr>"

definition plugin_part_set_total_len :: "plugin_part \<Rightarrow> u64 \<Rightarrow> plugin_part" where
  "plugin_part_set_total_len inp val = inp\<lparr>total_len := val\<rparr>"

definition plugin_part_set_data_len :: "plugin_part \<Rightarrow> u16 \<Rightarrow> plugin_part" where
  "plugin_part_set_data_len inp val = inp\<lparr>data_len := val\<rparr>"

definition plugin_part_set_offset :: "plugin_part \<Rightarrow> u64 \<Rightarrow> plugin_part" where
  "plugin_part_set_offset inp val = inp\<lparr>part_offset := val\<rparr>"

text \<open>The operations on the array; \<^const>\<open>None\<close> is the abort of a failed assertion.\<close>

definition plugin_part_set_plugin_data_part :: "plugin_part \<Rightarrow> nat \<Rightarrow> u8 \<Rightarrow> plugin_part option" where
  "plugin_part_set_plugin_data_part inp idx elt =
     (if idx < length (plugin_data_part inp)
      then Some (inp\<lparr>plugin_data_part := (plugin_data_part inp)[idx := elt]\<rparr>) else None)"

definition plugin_part_add_plugin_data_part :: "plugin_part \<Rightarrow> u8 \<Rightarrow> plugin_part \<times> int" where
  "plugin_part_add_plugin_data_part inp elt =
     (if length (plugin_data_part inp) = 65535 then (inp\<lparr>part_error_code := True\<rparr>, -1)
      else (inp\<lparr>plugin_data_part := plugin_data_part inp @ [elt]\<rparr>, 0))"

definition plugin_part_setlen_plugin_data_part :: "plugin_part \<Rightarrow> nat \<Rightarrow> plugin_part \<times> int" where
  "plugin_part_setlen_plugin_data_part inp newlen =
     (if 65535 < newlen then (inp\<lparr>part_error_code := True\<rparr>, -1)
      else (inp\<lparr>plugin_data_part := take newlen (plugin_data_part inp) @
              replicate (newlen - length (plugin_data_part inp)) 0\<rparr>, 0))"

definition plugin_part_check :: "plugin_part option \<Rightarrow> string option" where
  "plugin_part_check obj =
     (case obj of
        None \<Rightarrow> Some ''Object was NULL''
      | Some p \<Rightarrow>
          (if part_error_code p then Some ''A set function failed on this object''
           else if length (plugin_data_part p) \<noteq> unat (data_len p)
           then Some ''Length mismatch for plugin_data_part''
           else None))"

definition plugin_part_encoded_len :: "plugin_part option \<Rightarrow> int" where
  "plugin_part_encoded_len obj =
     (if plugin_part_check obj \<noteq> None then -1
      else 8 + 2 + 8 + int (length (plugin_data_part (the obj))))"

definition plugin_part_encode :: "nat \<Rightarrow> plugin_part option \<Rightarrow> wire_error + u8 list" where
  "plugin_part_encode avail obj =
     (if plugin_part_check obj \<noteq> None then Inl Check_Failed
      else (let p = the obj in
        and_then (emit avail (put_be 8 (total_len p)) []) (\<lambda>out.
        and_then (emit avail (put_be 2 (data_len p)) out) (\<lambda>out.
        and_then (emit avail (put_be 8 (part_offset p)) out) (\<lambda>out.
        emit avail (plugin_data_part p) out)))))"

text \<open>The object and the number of bytes read.\<close>

definition plugin_part_parse :: "u8 list \<Rightarrow> wire_error + plugin_part \<times> nat" where
  "plugin_part_parse input =
     and_then (take_bytes 8 input) (\<lambda>(b, ptr). let t = get_be b in
     and_then (take_bytes 2 ptr) (\<lambda>(b, ptr). let dl = get_be b in
     and_then (take_bytes 8 ptr) (\<lambda>(b, ptr). let off = get_be b in
     and_then (take_bytes (unat dl) ptr) (\<lambda>(b, ptr).
     Inr (\<lparr>total_len = t, data_len = dl, part_offset = off, plugin_data_part = b,
           part_error_code = False\<rparr>, length input - length ptr)))))"

section \<open>Cells\<close>

record plug_cell =
  version :: u8
  uid :: u64
  cell_length :: u16
  data_ppart :: "plugin_part option"
  cell_error_code :: bool

definition plug_cell_new :: plug_cell where
  "plug_cell_new = \<lparr>version = 0, uid = 0, cell_length = 0, data_ppart = None, cell_error_code = False\<rparr>"

definition plug_cell_set_version :: "plug_cell \<Rightarrow> u8 \<Rightarrow> plug_cell \<times> int" where
  "plug_cell_set_version inp val =
     (if \<not> (val = 0 \<or> val = 1) then (inp\<lparr>cell_error_code := True\<rparr>, -1)
      else (inp\<lparr>version := val\<rparr>, 0))"

definition plug_cell_set_uid :: "plug_cell \<Rightarrow> u64 \<Rightarrow> plug_cell" where
  "plug_cell_set_uid inp val = inp\<lparr>uid := val\<rparr>"

definition plug_cell_set_length :: "plug_cell \<Rightarrow> u16 \<Rightarrow> plug_cell" where
  "plug_cell_set_length inp val = inp\<lparr>cell_length := val\<rparr>"

definition plug_cell_set_data_ppart :: "plug_cell \<Rightarrow> plugin_part option \<Rightarrow> plug_cell" where
  "plug_cell_set_data_ppart inp val = inp\<lparr>data_ppart := val\<rparr>"

definition plug_cell_check :: "plug_cell option \<Rightarrow> string option" where
  "plug_cell_check obj =
     (case obj of
        None \<Rightarrow> Some ''Object was NULL''
      | Some c \<Rightarrow>
          (if cell_error_code c then Some ''A set function failed on this object''
           else if \<not> (version c = 0 \<or> version c = 1) then Some ''Integer out of bounds''
           else if version c = 0 then None
           else plugin_part_check (data_ppart c)))"

definition plug_cell_encoded_len :: "plug_cell \<Rightarrow> int" where
  "plug_cell_encoded_len c =
     (if plug_cell_check (Some c) \<noteq> None then -1
      else 1 + 8 + 2 + (if version c = 0 then 0 else plugin_part_encoded_len (data_ppart c)))"

text \<open>The length field is written, and written over once the union behind it is.\<close>

definition plug_cell_encode :: "nat \<Rightarrow> plug_cell \<Rightarrow> wire_error + u8 list" where
  "plug_cell_encode avail c =
     (if plug_cell_check (Some c) \<noteq> None then Inl Check_Failed
      else
        and_then (emit avail [version c] []) (\<lambda>out.
        and_then (emit avail (put_be 8 (uid c)) out) (\<lambda>out.
        and_then (emit avail (put_be 2 (cell_length c)) out) (\<lambda>out.
        and_then (if version c = 0 then Inr []
                  else plugin_part_encode (avail - length out) (data_ppart c)) (\<lambda>part.
        (if 65535 < length part then Inl Check_Failed
         else Inr (take 9 out @ put_be 2 (of_nat (length part) :: u16) @ part)))))))"

definition plug_cell_parse_union :: "u8 \<Rightarrow> u8 list \<Rightarrow> wire_error + plugin_part option" where
  "plug_cell_parse_union v body =
     (if v = 0 then Inr None
      else (case plugin_part_parse body of
              Inl err \<Rightarrow> Inl Check_Failed
            | Inr (p, n) \<Rightarrow> (if length body - n \<noteq> 0 then Inl Check_Failed else Inr (Some p))))"

definition plug_cell_parse :: "u8 list \<Rightarrow> wire_error + plug_cell \<times> nat" where
  "plug_cell_parse input =
     and_then (take_bytes 1 input) (\<lambda>(b, ptr). let v = hd b in
     if \<not> (v = 0 \<or> v = 1) then Inl Check_Failed else
     and_then (take_bytes 8 ptr) (\<lambda>(b, ptr). let u = get_be b in
     and_then (take_bytes 2 ptr) (\<lambda>(b, ptr). let l = get_be b in
     and_then (take_bytes (unat l) ptr) (\<lambda>(body, rest).
     and_then (plug_cell_parse_union v body) (\<lambda>part.
     Inr (\<lparr>version = v, uid = u, cell_length = l, data_ppart = part, cell_error_code = False\<rparr>,
          length input - length rest))))))"

section \<open>Round trips\<close>

lemma plugin_part_encode_Inr:
  "plugin_part_encode avail (Some p) = Inr bs \<longleftrightarrow>
    plugin_part_check (Some p) = None \<and> length bs \<le> avail \<and>
    bs = put_be 8 (total_len p) @ put_be 2 (data_len p) @ put_be 8 (part_offset p) @ plugin_data_part p"
  by (auto simp: plugin_part_encode_def Let_def emit_def and_then_Inr split: if_splits)

lemma plugin_part_check_ok:
  "plugin_part_check (Some p) = None \<longleftrightarrow>
    \<not> part_error_code p \<and> length (plugin_data_part p) = unat (data_len p)"
  by (simp add: plugin_part_check_def)

lemma plugin_part_parse_Inr:
  "plugin_part_parse bs = Inr (p, n) \<longleftrightarrow>
    (\<exists>t dl off d rest. bs = t @ dl @ off @ d @ rest \<and> length t = 8 \<and> length dl = 2 \<and> length off = 8 \<and>
      length d = unat (get_be dl :: u16) \<and> n = 18 + length d \<and>
      p = \<lparr>total_len = get_be t, data_len = get_be dl, part_offset = get_be off,
           plugin_data_part = d, part_error_code = False\<rparr>)"
  (is "?l = ?r")
proof
  assume ?l
  then show ?r
    by (fastforce simp: plugin_part_parse_def Let_def codec_simps)
next
  assume ?r
  then show ?l
    by (fastforce simp: plugin_part_parse_def Let_def codec_simps)
qed

interpretation part: codec "\<lambda>avail p. plugin_part_encode avail (Some p)" plugin_part_parse id
  "\<lambda>p. plugin_part_encoded_len (Some p)" "\<lambda>p. True"
proof (unfold_locales, goal_cases)
  case (1 avail x bs rest)
  then show ?case
    by (fastforce simp: plugin_part_encode_Inr plugin_part_check_ok plugin_part_parse_Inr)
next
  case (2 avail x bs)
  then show ?case
    by (auto simp: plugin_part_encode_Inr plugin_part_encoded_len_def)
next
  case (3 bs x n)
  then show ?case by simp
next
  case (4 bs x n)
  then show ?case
    by (auto simp: plugin_part_parse_Inr)
next
  case (5 bs x n rest)
  then show ?case
    by (fastforce simp: plugin_part_parse_Inr)
qed

text \<open>A parsed slice is consistent and is encoded again as it was read.\<close>

lemma plugin_part_reencode:
  assumes "plugin_part_parse bs = Inr (p, n)"
  shows "plugin_part_encode n (Some p) = Inr (take n bs)"
  using assms by (auto simp: plugin_part_parse_Inr plugin_part_check_ok plugin_part_encode_Inr)

text \<open>What a cell is after a round trip: the length is recomputed, version 0 carries nothing.\<close>

definition plug_cell_canon :: "plug_cell \<Rightarrow> plug_cell" where
  "plug_cell_canon c =
     (if version c = 0 then c\<lparr>cell_length := 0, data_ppart := None\<rparr>
      else c\<lparr>cell_length := 18 + data_len (the (data_ppart c))\<rparr>)"

lemma plug_cell_check_ok:
  "plug_cell_check (Some c) = None \<longleftrightarrow> \<not> cell_error_code c \<and>
    (version c = 0 \<or> version c = 1 \<and> plugin_part_check (data_ppart c) = None)"
  by (auto simp: plug_cell_check_def)

lemma plugin_part_encode_le:
  assumes "plugin_part_encode avail obj = Inr bs"
  shows "length bs \<le> avail"
proof (cases obj)
  case None
  then show ?thesis
    using assms by (simp add: plugin_part_encode_def plugin_part_check_def)
next
  case (Some p)
  then show ?thesis
    using assms plugin_part_encode_Inr by metis
qed

lemma plug_cell_encode_Inr:
  "plug_cell_encode avail c = Inr bs \<longleftrightarrow> plug_cell_check (Some c) = None \<and>
    (\<exists>part. length part \<le> 65535 \<and> 11 + length part \<le> avail \<and>
      (if version c = 0 then part = []
       else plugin_part_encode (avail - 11) (data_ppart c) = Inr part) \<and>
      bs = [version c] @ put_be 8 (uid c) @ put_be 2 (of_nat (length part) :: u16) @ part)"
  (is "?l = ?r")
proof
  assume enc: ?l
  then have ok: "plug_cell_check (Some c) = None" "11 \<le> avail"
    by (auto simp: plug_cell_encode_def emit_def and_then_Inr split: if_splits)
  from enc ok obtain part where part: "length part \<le> 65535"
    "(if version c = 0 then Inr [] else plugin_part_encode (avail - 11) (data_ppart c)) = Inr part"
    "bs = [version c] @ put_be 8 (uid c) @ put_be 2 (of_nat (length part) :: u16) @ part"
    by (cases "version c = 0")
      (auto simp: plug_cell_encode_def emit_def and_then_Inr take_Cons' not_less split: if_splits)
  moreover from this have "11 + length part \<le> avail"
    using ok plugin_part_encode_le [of "avail - 11" "data_ppart c" part] by (auto split: if_splits)
  ultimately show ?r
    using ok by (auto split: if_splits)
next
  assume ?r
  then show ?l
    by (auto simp: plug_cell_encode_def emit_def take_Cons' not_less split: if_splits)
qed

lemma plug_cell_parse_union_Inr:
  "plug_cell_parse_union v body = Inr part \<longleftrightarrow>
    (if v = 0 then part = None
     else \<exists>p. plugin_part_parse body = Inr (p, length body) \<and> part = Some p)"
  by (auto simp: plug_cell_parse_union_def split: sum.splits prod.splits if_splits
      dest: part.parse_consumed)

lemma plug_cell_parse_Inr:
  "plug_cell_parse bs = Inr (c, n) \<longleftrightarrow>
    (\<exists>v u l body rest. bs = v # u @ l @ body @ rest \<and> (v = 0 \<or> v = 1) \<and> length u = 8 \<and> length l = 2 \<and>
      length body = unat (get_be l :: u16) \<and> n = 11 + length body \<and>
      plug_cell_parse_union v body = Inr (data_ppart c) \<and>
      version c = v \<and> uid c = get_be u \<and> cell_length c = get_be l \<and> \<not> cell_error_code c)"
  (is "?l = ?r")
proof
  assume ?l
  then obtain b1 p1 b2 p2 b3 p3 body rest
    where reads: "take_bytes 1 bs = Inr (b1, p1)" "take_bytes 8 p1 = Inr (b2, p2)"
      "take_bytes 2 p2 = Inr (b3, p3)" "take_bytes (unat (get_be b3 :: u16)) p3 = Inr (body, rest)"
    and v: "hd b1 = 0 \<or> hd b1 = 1"
    and c: "version c = hd b1" "uid c = get_be b2" "cell_length c = get_be b3" "\<not> cell_error_code c"
      "n = length bs - length rest" "plug_cell_parse_union (hd b1) body = Inr (data_ppart c)"
    unfolding plug_cell_parse_def Let_def and_then_Inr
    by (auto simp: and_then_Inr split: if_splits prod.splits)
  then have "bs = hd b1 # b2 @ b3 @ body @ rest"
    by (auto simp: take_bytes_Inr length_Suc_conv)
  moreover have "length b2 = 8" "length b3 = 2" "length body = unat (get_be b3 :: u16)"
    using reads by (simp_all add: take_bytes_Inr)
  ultimately show ?r
    using v c by (intro exI [of _ "hd b1"] exI [of _ b2] exI [of _ b3] exI [of _ body] exI [of _ rest]) simp
next
  assume ?r
  then show ?l
    by (cases c) (clarsimp simp: plug_cell_parse_def Let_def split: if_splits)
qed

text \<open>The length of the union fits the 16-bit field, so it is read back as written.\<close>

lemma plug_cell_parse_encode:
  assumes "plug_cell_encode avail c = Inr bs"
  shows "plug_cell_parse (bs @ rest) = Inr (plug_cell_canon c, length bs)"
proof -
  from assms obtain part where ok: "plug_cell_check (Some c) = None"
    and part: "length part \<le> 65535" "bs = [version c] @ put_be 8 (uid c) @ put_be 2 (of_nat (length part) :: u16) @ part"
    and u: "if version c = 0 then part = [] else plugin_part_encode (avail - 11) (data_ppart c) = Inr part"
    by (auto simp: plug_cell_encode_Inr)
  have len: "unat (of_nat (length part) :: u16) = length part"
    using part(1) by (simp add: unat_of_nat)
  have v: "version c = 0 \<or> version c = 1" and err: "\<not> cell_error_code c"
    using ok by (auto simp: plug_cell_check_ok)
  have "plug_cell_parse_union (version c) part = Inr (data_ppart (plug_cell_canon c)) \<and>
      cell_length (plug_cell_canon c) = of_nat (length part)"
  proof (cases "version c = 0")
    case True
    then show ?thesis
      using u by (simp add: plug_cell_parse_union_def plug_cell_canon_def)
  next
    case False
    then have enc: "plugin_part_encode (avail - 11) (data_ppart c) = Inr part"
      and chk: "plugin_part_check (data_ppart c) = None"
      using u ok by (auto simp: plug_cell_check_ok)
    then obtain p where p: "data_ppart c = Some p"
      by (cases "data_ppart c") (simp_all add: plugin_part_check_def)
    then have "length part = 18 + unat (data_len p)"
      using enc chk by (auto simp: plugin_part_encode_Inr plugin_part_check_ok)
    then show ?thesis
      using False p enc part.parse_encode [of "avail - 11" p part "[]"]
      by (auto simp: plug_cell_parse_union_Inr plug_cell_canon_def)
  qed
  then show ?thesis
    unfolding plug_cell_parse_Inr part(2) using v err len
    by (intro exI [of _ "version c"] exI [of _ "put_be 8 (uid c)"]
        exI [of _ "put_be 2 (of_nat (length part) :: u16)"] exI [of _ part] exI [of _ rest])
      (auto simp: plug_cell_canon_def)
qed

interpretation cell: codec plug_cell_encode plug_cell_parse plug_cell_canon plug_cell_encoded_len
  "\<lambda>c. True"
proof (unfold_locales, goal_cases)
  case (1 avail x bs rest)
  then show ?case
    using plug_cell_parse_encode by blast
next
  case (2 avail x bs)
  then show ?case
    by (auto simp: plug_cell_encode_Inr plug_cell_encoded_len_def plug_cell_check_ok
        plugin_part_encoded_len_def plugin_part_check_def plugin_part_encode_Inr
        split: option.splits if_splits)
next
  case (3 bs x n)
  then show ?case by simp
next
  case (4 bs x n)
  then show ?case
    by (auto simp: plug_cell_parse_Inr)
next
  case (5 bs x n rest)
  then obtain v u l body rest0 where bs: "bs = v # u @ l @ body @ rest0"
    and len: "length u = 8" "length l = 2" "n = 11 + length body"
    and c: "v = 0 \<or> v = 1" "length body = unat (get_be l :: u16)"
      "plug_cell_parse_union v body = Inr (data_ppart x)"
      "version x = v" "uid x = get_be u" "cell_length x = get_be l" "\<not> cell_error_code x"
    unfolding plug_cell_parse_Inr by blast
  have "bs = (v # u @ l @ body) @ rest0" "n = length (v # u @ l @ body)"
    using bs len by simp_all
  then have "take n bs = v # u @ l @ body"
    by (metis append_eq_conv_conj)
  then have "take n bs @ rest = v # u @ l @ body @ rest"
    by simp
  then show ?case
    unfolding plug_cell_parse_Inr using len c by blast
qed

section \<open>Properties\<close>

text \<open>
  C25. A cell that \<open>plug_cell_encode\<close> writes is read back by \<open>plug_cell_parse\<close>, whatever bytes follow it,
  with the length field set to the length of the union, and the parser reads exactly the bytes written;
  their number is \<open>plug_cell_encoded_len\<close> and fits the buffer.
\<close>

theorem plug_cell_round_trip:
  assumes "plug_cell_encode avail c = Inr bs"
  shows "plug_cell_parse (bs @ rest) = Inr (plug_cell_canon c, length bs) \<and>
    int (length bs) = plug_cell_encoded_len c \<and> length bs \<le> avail"
  using cell.parse_encode [OF TrueI assms] cell.encode_length [OF TrueI assms] by simp

definition demo_part :: plugin_part where
  "demo_part = \<lparr>total_len = 600, data_len = 3, part_offset = 300, plugin_data_part = [1, 2, 3],
     part_error_code = False\<rparr>"

definition demo_cell :: plug_cell where
  "demo_cell = \<lparr>version = 1, uid = 42, cell_length = 0, data_ppart = Some demo_part, cell_error_code = False\<rparr>"

lemma encode_demo_cell:
  "\<exists>bs. plug_cell_encode 498 demo_cell = Inr bs"
  by (simp add: plug_cell_encode_Inr demo_cell_def demo_part_def plug_cell_check_ok plugin_part_check_ok
      plugin_part_encode_Inr)

theorem plug_cell_round_trip_witness:
  "\<exists>bs. plug_cell_encode 498 demo_cell = Inr bs \<and>
    plug_cell_parse (bs @ [0]) = Inr (plug_cell_canon demo_cell, length bs) \<and>
    int (length bs) = plug_cell_encoded_len demo_cell \<and> length bs \<le> 498"
  using encode_demo_cell plug_cell_round_trip [of 498 demo_cell _ "[0]"] by blast

text \<open>
  Plugin cells are self-delimiting: no encoding is a proper prefix of another, and equal
  encodings stand for cells that agree after a round trip.
\<close>

lemma plug_cell_prefix_free:
  assumes "plug_cell_encode a x = Inr bs" and "plug_cell_encode b y = Inr (bs @ extra)"
  shows "extra = [] \<and> plug_cell_canon x = plug_cell_canon y"
  by (rule cell.encode_prefix_free [OF TrueI assms(1) TrueI assms(2)])

text \<open>
  What \<open>plugin_part_parse\<close> accepts is consistent, and encoding it into a buffer of the size that
  was read gives the bytes that were read.
\<close>

lemma plugin_part_parse_encode:
  assumes "plugin_part_parse bs = Inr (p, n)"
  shows "plugin_part_check (Some p) = None \<and> plugin_part_encode n (Some p) = Inr (take n bs)"
  using plugin_part_reencode [OF assms] assms by (auto simp: plugin_part_parse_Inr plugin_part_check_ok)

end
