(* ===== verification/Sendme_Cell.thy ===== *)
theory Sendme_Cell
  imports Trunnel
begin

text \<open>
  The flow-control cell, \<^verbatim>\<open>src/trunnel/sendme_cell.c\<close>: a version, a length and, in
  version 1, the 20-byte digest of the cell it acknowledges.
\<close>

definition TRUNNEL_SENDME_V1_DIGEST_LEN :: nat where "TRUNNEL_SENDME_V1_DIGEST_LEN = 20"

record sendme_cell =
  sm_version :: u8
  sm_data_len :: u16
  data_v1_digest :: "u8 list"
  sm_error_code :: bool

definition sendme_cell_new :: sendme_cell where
  "sendme_cell_new = \<lparr>sm_version = 0, sm_data_len = 0,
     data_v1_digest = replicate TRUNNEL_SENDME_V1_DIGEST_LEN 0, sm_error_code = False\<rparr>"

definition sendme_cell_set_version :: "sendme_cell \<Rightarrow> u8 \<Rightarrow> sendme_cell \<times> int" where
  "sendme_cell_set_version inp val =
     (if \<not> (val = 0 \<or> val = 1) then (inp\<lparr>sm_error_code := True\<rparr>, -1)
      else (inp\<lparr>sm_version := val\<rparr>, 0))"

definition sendme_cell_set_data_len :: "sendme_cell \<Rightarrow> u16 \<Rightarrow> sendme_cell" where
  "sendme_cell_set_data_len inp val = inp\<lparr>sm_data_len := val\<rparr>"

text \<open>An index out of range fails an assertion: \<^const>\<open>None\<close>.\<close>

definition sendme_cell_set_data_v1_digest :: "sendme_cell \<Rightarrow> nat \<Rightarrow> u8 \<Rightarrow> sendme_cell option" where
  "sendme_cell_set_data_v1_digest inp idx elt =
     (if idx < TRUNNEL_SENDME_V1_DIGEST_LEN
      then Some (inp\<lparr>data_v1_digest := (data_v1_digest inp)[idx := elt]\<rparr>) else None)"

definition sendme_cell_check :: "sendme_cell \<Rightarrow> string option" where
  "sendme_cell_check c =
     (if sm_error_code c then Some ''A set function failed on this object''
      else if \<not> (sm_version c = 0 \<or> sm_version c = 1) then Some ''Integer out of bounds''
      else None)"

definition sendme_cell_encoded_len :: "sendme_cell \<Rightarrow> int" where
  "sendme_cell_encoded_len c =
     (if sendme_cell_check c \<noteq> None then -1
      else 1 + 2 + (if sm_version c = 0 then 0 else int TRUNNEL_SENDME_V1_DIGEST_LEN))"

definition sendme_cell_encode :: "nat \<Rightarrow> sendme_cell \<Rightarrow> wire_error + u8 list" where
  "sendme_cell_encode avail c =
     (if sendme_cell_check c \<noteq> None then Inl Check_Failed
      else
        and_then (emit avail [sm_version c] []) (\<lambda>out.
        and_then (emit avail (put_be 2 (sm_data_len c)) out) (\<lambda>out.
        and_then (if sm_version c = 0 then Inr out
                  else emit avail (take TRUNNEL_SENDME_V1_DIGEST_LEN (data_v1_digest c)) out) (\<lambda>out'.
        (if 65535 < length out' - length out then Inl Check_Failed
         else Inr (take 1 out' @ put_be 2 (of_nat (length out' - length out) :: u16) @ drop 3 out'))))))"

definition sendme_cell_parse_union :: "u8 \<Rightarrow> u8 list \<Rightarrow> wire_error + u8 list" where
  "sendme_cell_parse_union v body =
     (if v = 0 then Inr (data_v1_digest sendme_cell_new)
      else if length body < TRUNNEL_SENDME_V1_DIGEST_LEN then Inl Check_Failed
      else if length body - TRUNNEL_SENDME_V1_DIGEST_LEN \<noteq> 0 then Inl Check_Failed
      else Inr (take TRUNNEL_SENDME_V1_DIGEST_LEN body))"

definition sendme_cell_parse :: "u8 list \<Rightarrow> wire_error + sendme_cell \<times> nat" where
  "sendme_cell_parse input =
     and_then (take_bytes 1 input) (\<lambda>(b, ptr). let v = hd b in
     if \<not> (v = 0 \<or> v = 1) then Inl Check_Failed else
     and_then (take_bytes 2 ptr) (\<lambda>(b, ptr). let l = get_be b in
     and_then (take_bytes (unat l) ptr) (\<lambda>(body, rest).
     and_then (sendme_cell_parse_union v body) (\<lambda>d.
     Inr (\<lparr>sm_version = v, sm_data_len = l, data_v1_digest = d, sm_error_code = False\<rparr>,
          length input - length rest)))))"

section \<open>Round trips\<close>

text \<open>The digest array has its 20 bytes; every cell the interface builds has it.\<close>

definition sendme_cell_wf :: "sendme_cell \<Rightarrow> bool" where
  "sendme_cell_wf c \<longleftrightarrow> length (data_v1_digest c) = TRUNNEL_SENDME_V1_DIGEST_LEN"

definition sendme_cell_canon :: "sendme_cell \<Rightarrow> sendme_cell" where
  "sendme_cell_canon c =
     (if sm_version c = 0
      then c\<lparr>sm_data_len := 0, data_v1_digest := data_v1_digest sendme_cell_new\<rparr>
      else c\<lparr>sm_data_len := 20\<rparr>)"

lemma sendme_cell_encode_Inr:
  assumes "sendme_cell_wf c"
  shows "sendme_cell_encode avail c = Inr bs \<longleftrightarrow> sendme_cell_check c = None \<and> length bs \<le> avail \<and>
    bs = (if sm_version c = 0 then [0, 0, 0] else [1] @ put_be 2 (20 :: u16) @ data_v1_digest c)"
  (is "?l = ?r")
proof -
  have "put_be 2 (0 :: u16) = [0, 0]"
    by (simp add: numeral_2_eq_2)
  moreover have "sendme_cell_check c = None \<Longrightarrow> sm_version c = 0 \<or> sm_version c = 1"
    by (auto simp: sendme_cell_check_def split: if_splits)
  ultimately show ?thesis
    using assms
    by (auto simp: sendme_cell_encode_def emit_def and_then_Inr TRUNNEL_SENDME_V1_DIGEST_LEN_def
        sendme_cell_wf_def take_Cons' drop_Cons' split: if_splits)
qed

lemma sendme_cell_parse_Inr:
  "sendme_cell_parse bs = Inr (c, n) \<longleftrightarrow>
    (\<exists>v l body rest. bs = v # l @ body @ rest \<and> (v = 0 \<or> v = 1) \<and> length l = 2 \<and>
      length body = unat (get_be l :: u16) \<and> n = 3 + length body \<and>
      sendme_cell_parse_union v body = Inr (data_v1_digest c) \<and>
      sm_version c = v \<and> sm_data_len c = get_be l \<and> \<not> sm_error_code c)"
  (is "?l = ?r")
proof
  assume ?l
  then obtain b1 p1 b3 p3 body rest
    where reads: "take_bytes 1 bs = Inr (b1, p1)"
      "take_bytes 2 p1 = Inr (b3, p3)" "take_bytes (unat (get_be b3 :: u16)) p3 = Inr (body, rest)"
    and v: "hd b1 = 0 \<or> hd b1 = 1"
    and c: "sm_version c = hd b1" "sm_data_len c = get_be b3" "\<not> sm_error_code c"
      "n = length bs - length rest" "sendme_cell_parse_union (hd b1) body = Inr (data_v1_digest c)"
    unfolding sendme_cell_parse_def Let_def and_then_Inr
    by (auto simp: and_then_Inr split: if_splits prod.splits)
  then have "bs = hd b1 # b3 @ body @ rest"
    by (auto simp: take_bytes_Inr length_Suc_conv)
  moreover have "length b3 = 2" "length body = unat (get_be b3 :: u16)"
    using reads by (simp_all add: take_bytes_Inr)
  ultimately show ?r
    using v c by (intro exI [of _ "hd b1"] exI [of _ b3] exI [of _ body] exI [of _ rest]) simp
next
  assume ?r
  then show ?l
    by (cases c) (clarsimp simp: sendme_cell_parse_def Let_def split: if_splits)
qed

lemma sendme_cell_parse_encode:
  assumes wf: "sendme_cell_wf c" and enc: "sendme_cell_encode avail c = Inr bs"
  shows "sendme_cell_parse (bs @ rest) = Inr (sendme_cell_canon c, length bs)"
proof -
  let ?body = "if sm_version c = 0 then [] else data_v1_digest c"
  let ?l = "put_be 2 (of_nat (length ?body) :: u16)"
  have len: "length (data_v1_digest c) = 20"
    using wf by (simp add: sendme_cell_wf_def TRUNNEL_SENDME_V1_DIGEST_LEN_def)
  have z: "put_be 2 (0 :: u16) = [0, 0]"
    by (simp add: numeral_2_eq_2)
  from enc have chk: "sendme_cell_check c = None" and bs: "bs = [sm_version c] @ ?l @ ?body"
    using wf len z by (auto simp: sendme_cell_encode_Inr sendme_cell_check_def split: if_splits)
  then show ?thesis
    unfolding sendme_cell_parse_Inr using len
    by (intro exI [of _ "sm_version c"] exI [of _ ?l] exI [of _ ?body] exI [of _ rest])
      (auto simp: sendme_cell_canon_def sendme_cell_check_def sendme_cell_parse_union_def
        TRUNNEL_SENDME_V1_DIGEST_LEN_def split: if_splits)
qed

text \<open>A version 0 cell may be followed by bytes that are skipped; version 1 is read exactly.\<close>

lemma sendme_cell_parse_union_length:
  "sendme_cell_parse_union v body = Inr d \<Longrightarrow> length d = TRUNNEL_SENDME_V1_DIGEST_LEN"
  by (auto simp: sendme_cell_parse_union_def sendme_cell_new_def split: if_splits)

interpretation sendme: codec sendme_cell_encode sendme_cell_parse sendme_cell_canon
  sendme_cell_encoded_len sendme_cell_wf
proof (unfold_locales, goal_cases)
  case (1 x avail bs rest)
  then show ?case
    by (rule sendme_cell_parse_encode)
next
  case (2 x avail bs)
  then show ?case
    by (auto simp: sendme_cell_encode_Inr sendme_cell_encoded_len_def sendme_cell_wf_def
        TRUNNEL_SENDME_V1_DIGEST_LEN_def)
next
  case (3 bs x n)
  then show ?case
    by (auto simp: sendme_cell_parse_Inr sendme_cell_wf_def dest: sendme_cell_parse_union_length)
next
  case (4 bs x n)
  then show ?case
    by (auto simp: sendme_cell_parse_Inr)
next
  case (5 bs x n rest)
  then obtain v l body rest0 where bs: "bs = v # l @ body @ rest0"
    and len: "length l = 2" "n = 3 + length body"
    and c: "v = 0 \<or> v = 1" "length body = unat (get_be l :: u16)"
      "sendme_cell_parse_union v body = Inr (data_v1_digest x)"
      "sm_version x = v" "sm_data_len x = get_be l" "\<not> sm_error_code x"
    unfolding sendme_cell_parse_Inr by blast
  have "bs = (v # l @ body) @ rest0" "n = length (v # l @ body)"
    using bs len by simp_all
  then have "take n bs = v # l @ body"
    by (metis append_eq_conv_conj)
  then have "take n bs @ rest = v # l @ body @ rest"
    by simp
  then show ?case
    unfolding sendme_cell_parse_Inr using len c by blast
qed

section \<open>Properties\<close>

text \<open>
  A SENDME cell is read back as it was written, whatever follows it: the version, and for version 1
  the digest; the length field is the length of the data.
\<close>

lemma sendme_cell_round_trip:
  assumes "sendme_cell_wf c" and "sendme_cell_encode avail c = Inr bs"
  shows "sendme_cell_parse (bs @ rest) = Inr (sendme_cell_canon c, length bs) \<and>
    int (length bs) = sendme_cell_encoded_len c \<and> length bs \<le> avail"
  using sendme.parse_encode [OF assms] sendme.encode_length [OF assms] by simp

end
