(* ===== verification/Sendme.thy ===== *)
theory Sendme
  imports Sendme_Cell
begin

text \<open>
  Flow control, \<^verbatim>\<open>src/core/or/sendme.c\<close>: package and deliver windows of circuits and
  streams, the SENDME cells that refill them, and the queue of cell digests that authenticates
  version 1 SENDMEs. An \<open>endpoint\<close> is a circuit with the hop (\<open>layer_hint\<close>) that keeps the windows
  on the client side; the exit side has no hop. Versions asked for by the consensus are arguments.
  Sending a relay cell is a function \<open>send\<close> on the state of the network, which may fail.
\<close>

section \<open>State\<close>

definition CIRCWINDOW_START :: int where "CIRCWINDOW_START = 1000"
definition CIRCWINDOW_START_MAX :: int where "CIRCWINDOW_START_MAX = 1000"
definition CIRCWINDOW_INCREMENT :: int where "CIRCWINDOW_INCREMENT = 100"
definition STREAMWINDOW_START :: int where "STREAMWINDOW_START = 500"
definition STREAMWINDOW_START_MAX :: int where "STREAMWINDOW_START_MAX = 500"
definition STREAMWINDOW_INCREMENT :: int where "STREAMWINDOW_INCREMENT = 50"
definition SENDME_MAX_SUPPORTED_VERSION :: int where "SENDME_MAX_SUPPORTED_VERSION = 1"
definition RELAY_PAYLOAD_SIZE :: nat where "RELAY_PAYLOAD_SIZE = 498"

lemmas window_defs = CIRCWINDOW_START_def CIRCWINDOW_START_MAX_def CIRCWINDOW_INCREMENT_def
  STREAMWINDOW_START_def STREAMWINDOW_START_MAX_def STREAMWINDOW_INCREMENT_def

text \<open>
  A \<open>NULL\<close> list of digests is the empty one: every use treats both alike. \<open>sendme_digest\<close> is the slot
  in the relay crypto state.
\<close>

record circuit =
  package_window :: int
  deliver_window :: int
  sendme_last_digests :: "u8 list list"
  sendme_digest :: "u8 list"
  is_origin :: bool
  n_delivered_read_circ_bw :: u32
  n_overhead_read_circ_bw :: u32

record crypt_path =
  hop_package_window :: int
  hop_deliver_window :: int
  hop_sendme_digest :: "u8 list"

type_synonym endpoint = "circuit \<times> crypt_path option"

record edge_connection =
  conn_package_window :: int
  conn_deliver_window :: int

datatype close_reason = END_CIRC_REASON_TORPROTOCOL

section \<open>Receiving a SENDME\<close>

definition pop_first_cell_digest :: "circuit \<Rightarrow> circuit \<times> u8 list option" where
  "pop_first_cell_digest circ =
     (case sendme_last_digests circ of
        [] \<Rightarrow> (circ, None)
      | d # ds \<Rightarrow> (circ\<lparr>sendme_last_digests := ds\<rparr>, Some d))"

definition v1_digest_matches :: "u8 list \<Rightarrow> u8 list \<Rightarrow> bool" where
  "v1_digest_matches circ_digest cell_digest \<longleftrightarrow>
     take TRUNNEL_SENDME_V1_DIGEST_LEN circ_digest = take TRUNNEL_SENDME_V1_DIGEST_LEN cell_digest"

definition cell_v1_is_valid :: "sendme_cell \<Rightarrow> u8 list \<Rightarrow> bool" where
  "cell_v1_is_valid cell circ_digest = v1_digest_matches circ_digest (data_v1_digest cell)"

definition cell_version_can_be_handled :: "int \<Rightarrow> u8 \<Rightarrow> bool" where
  "cell_version_can_be_handled accept_version cell_version =
     (if SENDME_MAX_SUPPORTED_VERSION < accept_version then False
      else if int (unat cell_version) < accept_version then False
      else if SENDME_MAX_SUPPORTED_VERSION < int (unat cell_version) then False
      else True)"

definition sendme_is_valid :: "int \<Rightarrow> circuit \<Rightarrow> u8 list \<Rightarrow> circuit \<times> bool" where
  "sendme_is_valid accept_version circ cell_payload =
     (case (if cell_payload = [] then Some (0, None)
            else (case sendme_cell_parse cell_payload of
                    Inl err \<Rightarrow> None
                  | Inr (cell, n) \<Rightarrow> Some (sm_version cell, Some cell))) of
        None \<Rightarrow> (circ, False)
      | Some (cell_version, cell) \<Rightarrow>
          (if \<not> cell_version_can_be_handled accept_version cell_version then (circ, False)
           else (case pop_first_cell_digest circ of
                   (circ', None) \<Rightarrow> (circ', False)
                 | (circ', Some circ_digest) \<Rightarrow>
                     (if cell_version = 1
                      then (circ', cell_v1_is_valid (the cell) circ_digest)
                      else (circ', True)))))"

definition tor_add_u32_nowrap :: "u32 \<Rightarrow> u32 \<Rightarrow> u32" where
  "tor_add_u32_nowrap a b = (if 0xFFFFFFFF - b < a then 0xFFFFFFFF else a + b)"

definition circuit_read_valid_data :: "circuit \<Rightarrow> u16 \<Rightarrow> circuit" where
  "circuit_read_valid_data circ relay_body_len =
     circ\<lparr>n_delivered_read_circ_bw := tor_add_u32_nowrap (n_delivered_read_circ_bw circ) (ucast relay_body_len),
          n_overhead_read_circ_bw := tor_add_u32_nowrap (n_overhead_read_circ_bw circ)
            (of_nat RELAY_PAYLOAD_SIZE - ucast relay_body_len)\<rparr>"

text \<open>The new state and, on error, the reason the circuit is closed for.\<close>

definition sendme_process_circuit_level ::
  "int \<Rightarrow> endpoint \<Rightarrow> u8 list \<Rightarrow> endpoint \<times> close_reason option" where
  "sendme_process_circuit_level accept_version ep cell_payload =
     (let (circ, layer_hint) = ep;
          (circ, valid) = sendme_is_valid accept_version circ cell_payload
      in if \<not> valid then ((circ, layer_hint), Some END_CIRC_REASON_TORPROTOCOL)
         else if is_origin circ then
           (case layer_hint of
              None \<Rightarrow> ((circ, None), Some END_CIRC_REASON_TORPROTOCOL)
            | Some h \<Rightarrow>
                (if CIRCWINDOW_START_MAX < hop_package_window h + CIRCWINDOW_INCREMENT
                 then ((circ, Some h), Some END_CIRC_REASON_TORPROTOCOL)
                 else ((circuit_read_valid_data circ (of_nat (length cell_payload)),
                        Some (h\<lparr>hop_package_window := hop_package_window h + CIRCWINDOW_INCREMENT\<rparr>)),
                       None)))
         else if CIRCWINDOW_START_MAX < package_window circ + CIRCWINDOW_INCREMENT
         then ((circ, layer_hint), Some END_CIRC_REASON_TORPROTOCOL)
         else ((circ\<lparr>package_window := package_window circ + CIRCWINDOW_INCREMENT\<rparr>, layer_hint), None))"

definition sendme_process_stream_level ::
  "edge_connection \<Rightarrow> circuit \<Rightarrow> u16 \<Rightarrow> (edge_connection \<times> circuit) \<times> close_reason option" where
  "sendme_process_stream_level conn circ cell_body_len =
     (if STREAMWINDOW_START_MAX < conn_package_window conn + STREAMWINDOW_INCREMENT
      then ((conn, circ), Some END_CIRC_REASON_TORPROTOCOL)
      else ((conn\<lparr>conn_package_window := conn_package_window conn + STREAMWINDOW_INCREMENT\<rparr>,
             if is_origin circ then circuit_read_valid_data circ cell_body_len else circ), None))"

section \<open>Sending a SENDME\<close>

definition build_cell_payload_v1 :: "u8 list \<Rightarrow> wire_error + u8 list" where
  "build_cell_payload_v1 cell_digest =
     (let cell = sendme_cell_set_data_len (fst (sendme_cell_set_version sendme_cell_new 1))
            (of_nat TRUNNEL_SENDME_V1_DIGEST_LEN)
      in sendme_cell_encode RELAY_PAYLOAD_SIZE
           (cell\<lparr>data_v1_digest := take (unat (sm_data_len cell)) cell_digest\<rparr>))"

text \<open>The network afterwards and whether the cell went out. The consensus version is cut to 8 bits.\<close>

definition send_circuit_level_sendme ::
  "int \<Rightarrow> (u8 list \<Rightarrow> 'n \<Rightarrow> 'n \<times> bool) \<Rightarrow> u8 list \<Rightarrow> 'n \<Rightarrow> 'n \<times> bool" where
  "send_circuit_level_sendme emit_min_version send cell_digest net =
     (if emit_min_version mod 256 = 1 then
        (case build_cell_payload_v1 cell_digest of
           Inl err \<Rightarrow> (net, False)
         | Inr payload \<Rightarrow> send payload net)
      else send [] net)"

text \<open>The window that is in use, its digest slot, and their update.\<close>

definition ep_package :: "endpoint \<Rightarrow> int" where
  "ep_package ep = (case snd ep of None \<Rightarrow> package_window (fst ep) | Some h \<Rightarrow> hop_package_window h)"

definition ep_deliver :: "endpoint \<Rightarrow> int" where
  "ep_deliver ep = (case snd ep of None \<Rightarrow> deliver_window (fst ep) | Some h \<Rightarrow> hop_deliver_window h)"

definition ep_digest :: "endpoint \<Rightarrow> u8 list" where
  "ep_digest ep = (case snd ep of None \<Rightarrow> sendme_digest (fst ep) | Some h \<Rightarrow> hop_sendme_digest h)"

definition ep_add_package :: "int \<Rightarrow> endpoint \<Rightarrow> endpoint" where
  "ep_add_package k ep =
     (case ep of
        (circ, None) \<Rightarrow> (circ\<lparr>package_window := package_window circ + k\<rparr>, None)
      | (circ, Some h) \<Rightarrow> (circ, Some (h\<lparr>hop_package_window := hop_package_window h + k\<rparr>)))"

definition ep_add_deliver :: "int \<Rightarrow> endpoint \<Rightarrow> endpoint" where
  "ep_add_deliver k ep =
     (case ep of
        (circ, None) \<Rightarrow> (circ\<lparr>deliver_window := deliver_window circ + k\<rparr>, None)
      | (circ, Some h) \<Rightarrow> (circ, Some (h\<lparr>hop_deliver_window := hop_deliver_window h + k\<rparr>)))"

definition ep_set_digest :: "u8 list \<Rightarrow> endpoint \<Rightarrow> endpoint" where
  "ep_set_digest d ep =
     (case ep of
        (circ, None) \<Rightarrow> (circ\<lparr>sendme_digest := d\<rparr>, None)
      | (circ, Some h) \<Rightarrow> (circ, Some (h\<lparr>hop_sendme_digest := d\<rparr>)))"

lemma ep_deliver_add [simp]: "ep_deliver (ep_add_deliver k ep) = ep_deliver ep + k"
  by (auto simp: ep_deliver_def ep_add_deliver_def split: prod.splits option.splits)

text \<open>SENDMEs are sent until the window is above the limit or sending fails.\<close>

function sendme_circuit_consider_sending ::
  "int \<Rightarrow> (u8 list \<Rightarrow> 'n \<Rightarrow> 'n \<times> bool) \<Rightarrow> endpoint \<Rightarrow> 'n \<Rightarrow> endpoint \<times> 'n" where
  "sendme_circuit_consider_sending emit_version send ep net =
     (if ep_deliver ep \<le> CIRCWINDOW_START - CIRCWINDOW_INCREMENT then
        (let ep' = ep_add_deliver CIRCWINDOW_INCREMENT ep;
             (net', ok) = send_circuit_level_sendme emit_version send (ep_digest ep') net
         in if \<not> ok then (ep', net')
            else sendme_circuit_consider_sending emit_version send ep' net')
      else (ep, net))"
  by pat_completeness auto
termination
  by (relation "measure (\<lambda>(emit_version, send, ep, net). nat (CIRCWINDOW_START - ep_deliver ep))")
    (auto simp: window_defs)

declare sendme_circuit_consider_sending.simps [simp del]

text \<open>
  The stream loop. \<open>too_full\<close> and \<open>no_circuit\<close> are the two early exits; \<open>send\<close> queues one cell.
\<close>

function stream_sendme_loop ::
  "('n \<Rightarrow> 'n \<times> bool) \<Rightarrow> edge_connection \<Rightarrow> 'n \<Rightarrow> edge_connection \<times> 'n" where
  "stream_sendme_loop send conn net =
     (if conn_deliver_window conn \<le> STREAMWINDOW_START - STREAMWINDOW_INCREMENT then
        (let conn' = conn\<lparr>conn_deliver_window := conn_deliver_window conn + STREAMWINDOW_INCREMENT\<rparr>;
             (net', ok) = send net
         in if \<not> ok then (conn', net') else stream_sendme_loop send conn' net')
      else (conn, net))"
  by pat_completeness auto
termination
  by (relation "measure (\<lambda>(send, conn, net). nat (STREAMWINDOW_START - conn_deliver_window conn))")
    (auto simp: window_defs)

declare stream_sendme_loop.simps [simp del]

definition sendme_connection_edge_consider_sending ::
  "bool \<Rightarrow> bool \<Rightarrow> ('n \<Rightarrow> 'n \<times> bool) \<Rightarrow> edge_connection \<Rightarrow> 'n \<Rightarrow> edge_connection \<times> 'n" where
  "sendme_connection_edge_consider_sending too_full no_circuit send conn net =
     (if too_full then (conn, net)
      else if no_circuit then (conn, net)
      else stream_sendme_loop send conn net)"

section \<open>Data cells\<close>

definition circuit_sendme_cell_is_next :: "int \<Rightarrow> bool" where
  "circuit_sendme_cell_is_next window =
     (if window = CIRCWINDOW_START then False
      else if \<not> CIRCWINDOW_INCREMENT dvd window - 1 then False
      else True)"

text \<open>\<^const>\<open>None\<close> is a failed assertion: the hop must be there exactly for an origin circuit.\<close>

definition sendme_circuit_data_received :: "endpoint \<Rightarrow> (endpoint \<times> int) option" where
  "sendme_circuit_data_received ep =
     (if is_origin (fst ep) = (snd ep \<noteq> None)
      then Some (ep_add_deliver (-1) ep, ep_deliver ep - 1) else None)"

definition sendme_note_circuit_data_packaged :: "endpoint \<Rightarrow> (endpoint \<times> int) option" where
  "sendme_note_circuit_data_packaged ep =
     (if is_origin (fst ep) = (snd ep \<noteq> None)
      then Some (ep_add_package (-1) ep, ep_package ep - 1) else None)"

definition sendme_stream_data_received :: "edge_connection \<Rightarrow> edge_connection \<times> int" where
  "sendme_stream_data_received conn =
     (conn\<lparr>conn_deliver_window := conn_deliver_window conn - 1\<rparr>, conn_deliver_window conn - 1)"

definition sendme_note_stream_data_packaged :: "edge_connection \<Rightarrow> edge_connection \<times> int" where
  "sendme_note_stream_data_packaged conn =
     (conn\<lparr>conn_package_window := conn_package_window conn - 1\<rparr>, conn_package_window conn - 1)"

definition record_cell_digest_on_circ :: "circuit \<Rightarrow> u8 list \<Rightarrow> circuit" where
  "record_cell_digest_on_circ circ d = circ\<lparr>sendme_last_digests := sendme_last_digests circ @ [d]\<rparr>"

definition sendme_record_cell_digest_on_circ :: "endpoint \<Rightarrow> endpoint" where
  "sendme_record_cell_digest_on_circ ep =
     (if \<not> circuit_sendme_cell_is_next (ep_package ep) then ep
      else (record_cell_digest_on_circ (fst ep) (ep_digest ep), snd ep))"

text \<open>\<open>d\<close> is the running digest after the cell at hand.\<close>

definition sendme_record_received_cell_digest :: "u8 list \<Rightarrow> endpoint \<Rightarrow> endpoint" where
  "sendme_record_received_cell_digest d ep =
     (if \<not> circuit_sendme_cell_is_next (ep_deliver ep) then ep else ep_set_digest d ep)"

definition sendme_record_sending_cell_digest :: "u8 list \<Rightarrow> endpoint \<Rightarrow> endpoint" where
  "sendme_record_sending_cell_digest d ep =
     (if \<not> circuit_sendme_cell_is_next (ep_package ep) then ep else ep_set_digest d ep)"

section \<open>Lemmas on the windows\<close>

lemma ep_simps [simp]:
  "ep_package (ep_add_package k ep) = ep_package ep + k" "ep_deliver (ep_add_package k ep) = ep_deliver ep"
  "ep_digest (ep_add_package k ep) = ep_digest ep" "ep_package (ep_add_deliver k ep) = ep_package ep"
  "ep_digest (ep_add_deliver k ep) = ep_digest ep" "ep_package (ep_set_digest d ep) = ep_package ep"
  "ep_deliver (ep_set_digest d ep) = ep_deliver ep" "ep_digest (ep_set_digest d ep) = d"
  by (auto simp: ep_package_def ep_deliver_def ep_digest_def ep_add_package_def ep_add_deliver_def
      ep_set_digest_def split: prod.splits option.splits)

definition ep_queue :: "endpoint \<Rightarrow> u8 list list" where
  "ep_queue ep = sendme_last_digests (fst ep)"

definition ep_ok :: "endpoint \<Rightarrow> bool" where
  "ep_ok ep \<longleftrightarrow> is_origin (fst ep) = (snd ep \<noteq> None)"

lemma ep_queue_simps [simp]:
  "ep_queue (ep_add_package k ep) = ep_queue ep" "ep_queue (ep_add_deliver k ep) = ep_queue ep"
  "ep_queue (ep_set_digest d ep) = ep_queue ep"
  by (auto simp: ep_queue_def ep_add_package_def ep_add_deliver_def ep_set_digest_def
      split: prod.splits option.splits)

lemma ep_ok_simps [simp]:
  "ep_ok (ep_add_package k ep) = ep_ok ep" "ep_ok (ep_add_deliver k ep) = ep_ok ep"
  "ep_ok (ep_set_digest d ep) = ep_ok ep"
  by (auto simp: ep_ok_def ep_add_package_def ep_add_deliver_def ep_set_digest_def
      split: prod.splits option.splits)

lemma ep_record_simps [simp]:
  "ep_package (record_cell_digest_on_circ circ d, h) = ep_package (circ, h)"
  "ep_deliver (record_cell_digest_on_circ circ d, h) = ep_deliver (circ, h)"
  "ep_digest (record_cell_digest_on_circ circ d, h) = ep_digest (circ, h)"
  "ep_queue (record_cell_digest_on_circ circ d, h) = ep_queue (circ, h) @ [d]"
  "ep_ok (record_cell_digest_on_circ circ d, h) = ep_ok (circ, h)"
  by (simp_all add: ep_package_def ep_deliver_def ep_digest_def ep_queue_def ep_ok_def
      record_cell_digest_on_circ_def split: option.splits)

lemma is_next_iff: "circuit_sendme_cell_is_next w \<longleftrightarrow> 100 dvd w - 1"
proof -
  have "\<not> (100::int) dvd 1000 - 1"
    by simp
  then show ?thesis
    by (auto simp: circuit_sendme_cell_is_next_def window_defs)
qed

text \<open>The payload that answers a digest, and how it is checked.\<close>

definition sendme_payload :: "int \<Rightarrow> u8 list \<Rightarrow> u8 list" where
  "sendme_payload emit_version d =
     (if emit_version mod 256 = 1 then [1] @ put_be 2 (20 :: u16) @ d else [])"

lemma build_cell_payload_v1:
  assumes "length d = 20"
  shows "build_cell_payload_v1 d = Inr ([1] @ put_be 2 (20 :: u16) @ d)"
  using assms
  by (auto simp: build_cell_payload_v1_def Let_def sendme_cell_set_data_len_def
      sendme_cell_set_version_def sendme_cell_new_def TRUNNEL_SENDME_V1_DIGEST_LEN_def
      sendme_cell_encode_Inr sendme_cell_wf_def sendme_cell_check_def RELAY_PAYLOAD_SIZE_def)

lemma send_circuit_level_sendme:
  "length d = 20 \<Longrightarrow> send_circuit_level_sendme v send d net = send (sendme_payload v d) net"
  by (simp add: send_circuit_level_sendme_def sendme_payload_def build_cell_payload_v1)

text \<open>The versions two parties use fit each other.\<close>

definition versions_ok :: "int \<Rightarrow> int \<Rightarrow> bool" where
  "versions_ok accept_version emit_version \<longleftrightarrow>
     accept_version \<le> (if emit_version mod 256 = 1 then 1 else 0)"

lemma sendme_payload_parse:
  assumes "length d = 20" "v mod 256 = 1"
  shows "\<exists>cell. sendme_cell_parse (sendme_payload v d) = Inr (cell, 23) \<and> sm_version cell = 1 \<and>
    data_v1_digest cell = d"
proof -
  let ?c = "\<lparr>sm_version = 1, sm_data_len = 20, data_v1_digest = d, sm_error_code = False\<rparr>"
  have "sendme_cell_wf ?c" "sendme_cell_encode 498 ?c = Inr (sendme_payload v d)"
    using assms by (simp_all add: sendme_cell_wf_def TRUNNEL_SENDME_V1_DIGEST_LEN_def
        sendme_cell_encode_Inr sendme_cell_check_def sendme_payload_def)
  then show ?thesis
    using sendme_cell_parse_encode [of ?c 498 "sendme_payload v d" "[]"] assms
    by (simp add: sendme_payload_def sendme_cell_canon_def)
qed

lemma sendme_is_valid_matching:
  assumes d: "length d = 20" and q: "sendme_last_digests circ = d # ds" and v: "versions_ok a v"
  shows "sendme_is_valid a circ (sendme_payload v d) = (circ\<lparr>sendme_last_digests := ds\<rparr>, True)"
proof (cases "v mod 256 = 1")
  case True
  with sendme_payload_parse [OF d True] obtain cell
    where "sendme_cell_parse (sendme_payload v d) = Inr (cell, 23)" "sm_version cell = 1"
      "data_v1_digest cell = d"
    by blast
  then show ?thesis
    using True q v
    by (simp add: sendme_is_valid_def sendme_payload_def versions_ok_def pop_first_cell_digest_def
        cell_version_can_be_handled_def SENDME_MAX_SUPPORTED_VERSION_def cell_v1_is_valid_def
        v1_digest_matches_def)
next
  case False
  then show ?thesis
    using q v
    by (simp add: sendme_is_valid_def sendme_payload_def versions_ok_def pop_first_cell_digest_def
        cell_version_can_be_handled_def SENDME_MAX_SUPPORTED_VERSION_def)
qed

lemma ep_read_valid_data [simp]:
  "ep_package (circuit_read_valid_data circ n, h) = ep_package (circ, h)"
  "ep_deliver (circuit_read_valid_data circ n, h) = ep_deliver (circ, h)"
  "ep_digest (circuit_read_valid_data circ n, h) = ep_digest (circ, h)"
  "ep_queue (circuit_read_valid_data circ n, h) = ep_queue (circ, h)"
  "ep_ok (circuit_read_valid_data circ n, h) = ep_ok (circ, h)"
  by (simp_all add: ep_package_def ep_deliver_def ep_digest_def ep_queue_def ep_ok_def
      circuit_read_valid_data_def split: option.splits)

text \<open>A SENDME that answers the oldest recorded digest is accepted when the window has room.\<close>

lemma process_circuit_level_ok:
  assumes ok: "ep_ok ep" and d: "length d = 20" and q: "ep_queue ep = d # ds"
    and v: "versions_ok a v" and room: "ep_package ep + 100 \<le> 1000"
  shows "\<exists>ep'. sendme_process_circuit_level a ep (sendme_payload v d) = (ep', None) \<and> ep_ok ep' \<and>
    ep_queue ep' = ds \<and> ep_package ep' = ep_package ep + 100 \<and> ep_deliver ep' = ep_deliver ep \<and>
    ep_digest ep' = ep_digest ep"
proof -
  obtain circ h where ep: "ep = (circ, h)"
    by fastforce
  have valid: "sendme_is_valid a circ (sendme_payload v d) = (circ\<lparr>sendme_last_digests := ds\<rparr>, True)"
    using q d v by (intro sendme_is_valid_matching) (simp_all add: ep ep_queue_def)
  show ?thesis
  proof (cases h)
    case None
    then show ?thesis
      using ok room valid
      by (simp add: ep sendme_process_circuit_level_def ep_ok_def ep_package_def ep_deliver_def
          ep_digest_def ep_queue_def window_defs)
  next
    case (Some hop)
    then show ?thesis
      using ok room valid
      by (simp add: ep sendme_process_circuit_level_def ep_ok_def ep_package_def ep_deliver_def
          ep_digest_def ep_queue_def window_defs circuit_read_valid_data_def)
  qed
qed

text \<open>Nothing a peer sends lifts a package window above its maximum.\<close>

lemma sendme_is_valid_frame:
  assumes "sendme_is_valid a circ pl = (circ', v)"
  shows "\<exists>ds. circ' = circ\<lparr>sendme_last_digests := ds\<rparr> \<and>
    (\<exists>k \<le> 1. ds = drop k (sendme_last_digests circ))"
proof -
  have pop: "fst (pop_first_cell_digest circ) = circ\<lparr>sendme_last_digests := drop 1 (sendme_last_digests circ)\<rparr>"
    by (cases "sendme_last_digests circ") (simp_all add: pop_first_cell_digest_def)
  have "circ' = circ \<or> circ' = fst (pop_first_cell_digest circ)"
    using assms by (auto simp: sendme_is_valid_def split: if_splits sum.splits option.splits prod.splits)
  then show ?thesis
  proof
    assume "circ' = circ"
    then show ?thesis
      by (intro exI [of _ "sendme_last_digests circ"]) (auto intro: exI [of _ 0])
  next
    assume "circ' = fst (pop_first_cell_digest circ)"
    then show ?thesis
      using pop by (intro exI [of _ "drop 1 (sendme_last_digests circ)"]) (auto intro: exI [of _ 1])
  qed
qed

lemma process_circuit_level_bound:
  assumes "sendme_process_circuit_level a ep pl = (ep', r)"
  shows "ep_package ep' \<le> max (ep_package ep) 1000 \<and> ep_deliver ep' = ep_deliver ep \<and>
    length (ep_queue ep') \<le> length (ep_queue ep)"
proof -
  obtain circ h where ep: "ep = (circ, h)"
    by fastforce
  obtain circ1 v where valid: "sendme_is_valid a circ pl = (circ1, v)"
    by fastforce
  from sendme_is_valid_frame [OF valid] obtain k where
    circ1: "circ1 = circ\<lparr>sendme_last_digests := drop k (sendme_last_digests circ)\<rparr>"
    by blast
  show ?thesis
    using assms
    by (cases h) (auto simp: ep valid circ1 sendme_process_circuit_level_def ep_package_def
        ep_deliver_def ep_queue_def window_defs circuit_read_valid_data_def split: if_splits)
qed

text \<open>With version 1 required, an accepted SENDME carries the oldest recorded digest.\<close>

lemma sendme_is_valid_authentic:
  assumes "sendme_is_valid 1 circ pl = (circ', True)"
  shows "\<exists>cell n d ds. sendme_cell_parse pl = Inr (cell, n) \<and> sm_version cell = 1 \<and>
    sendme_last_digests circ = d # ds \<and> sendme_last_digests circ' = ds \<and>
    take 20 d = data_v1_digest cell"
proof -
  have handled: "cell_version_can_be_handled 1 v \<longleftrightarrow> v = 1" for v
  proof -
    have "int (unat v) = 1 \<longleftrightarrow> v = 1"
      by (metis unsigned_1 of_nat_1 of_nat_eq_iff unsigned_word_eqI)
    then show ?thesis
      by (auto simp: cell_version_can_be_handled_def SENDME_MAX_SUPPORTED_VERSION_def)
  qed
  from assms obtain cell n where parse: "sendme_cell_parse pl = Inr (cell, n)" and v: "sm_version cell = 1"
    and rest: "(case pop_first_cell_digest circ of (circ', None) \<Rightarrow> (circ', False)
      | (circ', Some d) \<Rightarrow> (circ', cell_v1_is_valid cell d)) = (circ', True)"
    by (auto simp: sendme_is_valid_def handled split: if_splits sum.splits prod.splits)
  have "length (data_v1_digest cell) = 20"
    using sendme.parse_wf [OF parse] by (simp add: sendme_cell_wf_def TRUNNEL_SENDME_V1_DIGEST_LEN_def)
  then show ?thesis
    using parse v rest
    by (auto simp: pop_first_cell_digest_def cell_v1_is_valid_def v1_digest_matches_def
        TRUNNEL_SENDME_V1_DIGEST_LEN_def split: list.splits)
qed

section \<open>Two parties\<close>

text \<open>
  A client and an exit, each sending data cells to the other over channels that keep the order. A
  data cell carries the digest both sides compute for it. \<open>closed\<close> is set when a party would close the
  circuit: an assertion fails, a window goes below zero or a SENDME is refused.
\<close>

datatype msg = Data "u8 list" | Sendme "u8 list"

text \<open>
  Packaging a data cell, in the order of \<open>relay_encrypt_cell\<close>, \<open>relay_send_command_from_edge_\<close> and
  \<open>connection_edge_package_raw_inbuf\<close>; \<^const>\<open>None\<close> closes the circuit.
\<close>

definition package_data :: "u8 list \<Rightarrow> endpoint \<Rightarrow> endpoint option" where
  "package_data d ep =
     (case sendme_note_circuit_data_packaged
             (sendme_record_cell_digest_on_circ (sendme_record_sending_cell_digest d ep)) of
        None \<Rightarrow> None
      | Some (ep', w) \<Rightarrow> (if w < 0 then None else Some ep'))"

text \<open>Handling a cell that was recognized: the new state and the cells sent in answer.\<close>

definition queue_cell :: "u8 list \<Rightarrow> msg list \<Rightarrow> msg list \<times> bool" where
  "queue_cell pl out = (out @ [Sendme pl], True)"

definition receive_data :: "int \<Rightarrow> u8 list \<Rightarrow> endpoint \<Rightarrow> (endpoint \<times> msg list) option" where
  "receive_data emit_version d ep =
     (case sendme_circuit_data_received (sendme_record_received_cell_digest d ep) of
        None \<Rightarrow> None
      | Some (ep', w) \<Rightarrow>
          (if w < 0 then None
           else Some (sendme_circuit_consider_sending emit_version queue_cell ep' [])))"

definition receive_sendme :: "int \<Rightarrow> u8 list \<Rightarrow> endpoint \<Rightarrow> endpoint option" where
  "receive_sendme accept_version pl ep =
     (case sendme_process_circuit_level accept_version ep pl of
        (ep', None) \<Rightarrow> Some ep'
      | (ep', Some _) \<Rightarrow> None)"

fun receive :: "int \<Rightarrow> int \<Rightarrow> msg \<Rightarrow> endpoint \<Rightarrow> (endpoint \<times> msg list) option" where
  "receive accept_version emit_version (Data d) ep = receive_data emit_version d ep"
| "receive accept_version emit_version (Sendme pl) ep =
     map_option (\<lambda>ep'. (ep', [])) (receive_sendme accept_version pl ep)"

record flow =
  client :: endpoint
  exit_ep :: endpoint
  outbound :: "msg list"
  inbound :: "msg list"
  closed :: bool

text \<open>A party packages data only while its package window is positive.\<close>

inductive flow_step :: "int \<Rightarrow> int \<Rightarrow> flow \<Rightarrow> flow \<Rightarrow> bool" for a v where
  client_package: "\<not> closed s \<Longrightarrow> 0 < ep_package (client s) \<Longrightarrow> length d = 20 \<Longrightarrow>
    package_data d (client s) = Some ep \<Longrightarrow>
    flow_step a v s (s\<lparr>client := ep, outbound := outbound s @ [Data d]\<rparr>)"
| exit_package: "\<not> closed s \<Longrightarrow> 0 < ep_package (exit_ep s) \<Longrightarrow> length d = 20 \<Longrightarrow>
    package_data d (exit_ep s) = Some ep \<Longrightarrow>
    flow_step a v s (s\<lparr>exit_ep := ep, inbound := inbound s @ [Data d]\<rparr>)"
| client_package_fails: "\<not> closed s \<Longrightarrow> 0 < ep_package (client s) \<Longrightarrow> length d = 20 \<Longrightarrow>
    package_data d (client s) = None \<Longrightarrow> flow_step a v s (s\<lparr>closed := True\<rparr>)"
| exit_package_fails: "\<not> closed s \<Longrightarrow> 0 < ep_package (exit_ep s) \<Longrightarrow> length d = 20 \<Longrightarrow>
    package_data d (exit_ep s) = None \<Longrightarrow> flow_step a v s (s\<lparr>closed := True\<rparr>)"
| client_receives: "\<not> closed s \<Longrightarrow> inbound s = m # ms \<Longrightarrow> receive a v m (client s) = Some (ep, out) \<Longrightarrow>
    flow_step a v s (s\<lparr>client := ep, inbound := ms, outbound := outbound s @ out\<rparr>)"
| exit_receives: "\<not> closed s \<Longrightarrow> outbound s = m # ms \<Longrightarrow> receive a v m (exit_ep s) = Some (ep, out) \<Longrightarrow>
    flow_step a v s (s\<lparr>exit_ep := ep, outbound := ms, inbound := inbound s @ out\<rparr>)"
| client_closes: "\<not> closed s \<Longrightarrow> inbound s = m # ms \<Longrightarrow> receive a v m (client s) = None \<Longrightarrow>
    flow_step a v s (s\<lparr>closed := True\<rparr>)"
| exit_closes: "\<not> closed s \<Longrightarrow> outbound s = m # ms \<Longrightarrow> receive a v m (exit_ep s) = None \<Longrightarrow>
    flow_step a v s (s\<lparr>closed := True\<rparr>)"

definition start_circuit :: "bool \<Rightarrow> int \<Rightarrow> circuit" where
  "start_circuit origin w =
     \<lparr>package_window = w, deliver_window = CIRCWINDOW_START, sendme_last_digests = [],
      sendme_digest = replicate 20 0, is_origin = origin, n_delivered_read_circ_bw = 0,
      n_overhead_read_circ_bw = 0\<rparr>"

definition start_hop :: "int \<Rightarrow> crypt_path" where
  "start_hop w = \<lparr>hop_package_window = w, hop_deliver_window = CIRCWINDOW_START,
     hop_sendme_digest = replicate 20 0\<rparr>"

text \<open>\<open>w\<close> is \<open>circuit_initial_package_window\<close>, a consensus parameter, 1000 by default.\<close>

definition flow_start :: "int \<Rightarrow> flow" where
  "flow_start w = \<lparr>client = (start_circuit True w, Some (start_hop w)), exit_ep = (start_circuit False w, None),
     outbound = [], inbound = [], closed = False\<rparr>"

section \<open>Conservation\<close>

fun datas :: "msg list \<Rightarrow> u8 list list" where
  "datas [] = []"
| "datas (Data d # ms) = d # datas ms"
| "datas (Sendme _ # ms) = datas ms"

fun sendmes :: "msg list \<Rightarrow> u8 list list" where
  "sendmes [] = []"
| "sendmes (Data _ # ms) = sendmes ms"
| "sendmes (Sendme pl # ms) = pl # sendmes ms"

lemma datas_append [simp]: "datas (xs @ ys) = datas xs @ datas ys"
  by (induction xs rule: datas.induct) simp_all

lemma sendmes_append [simp]: "sendmes (xs @ ys) = sendmes xs @ sendmes ys"
  by (induction xs rule: sendmes.induct) simp_all

text \<open>The cells on their way that complete a hundred, when the deliver window is \<open>w\<close>.\<close>

fun marked :: "int \<Rightarrow> u8 list list \<Rightarrow> u8 list list" where
  "marked w [] = []"
| "marked w (d # ds) = (if 100 dvd w - 1 then [d] else []) @ marked (w - 1) ds"

lemma marked_snoc:
  "marked w (ds @ [d]) = marked w ds @ (if 100 dvd w - int (length ds) - 1 then [d] else [])"
  by (induction ds arbitrary: w) (auto simp: algebra_simps)

lemma marked_shift: "marked (w + 100) ds = marked w ds"
proof (induction ds arbitrary: w)
  case (Cons d ds)
  have "100 dvd w + 100 - 1 \<longleftrightarrow> 100 dvd w - 1" "w + 100 - 1 = w - 1 + 100"
    by presburger+
  then show ?case
    by (simp only: marked.simps Cons)
qed simp

text \<open>
  What holds of the data that goes from \<open>x\<close> to \<open>y\<close> over \<open>fwd\<close>, with the SENDMEs coming back over
  \<open>bwd\<close>: every cell of the initial window is in exactly one place, and the recorded digests are those of
  the SENDMEs on their way, then those of the marked cells.
\<close>

definition direction :: "int \<Rightarrow> int \<Rightarrow> endpoint \<Rightarrow> endpoint \<Rightarrow> msg list \<Rightarrow> msg list \<Rightarrow> bool" where
  "direction v w x y fwd bwd \<longleftrightarrow>
     0 \<le> ep_package x \<and> 900 < ep_deliver y \<and> ep_deliver y \<le> 1000 \<and>
     ep_package x + int (length (datas fwd)) + (1000 - ep_deliver y) + 100 * int (length (sendmes bwd)) = w \<and>
     (\<forall>d \<in> set (datas fwd). length d = 20) \<and>
     (\<exists>acked. (\<forall>d \<in> set acked. length d = 20) \<and> sendmes bwd = map (sendme_payload v) acked \<and>
        ep_queue x = acked @ marked (ep_deliver y) (datas fwd))"

lemma window_ops_ok:
  assumes "ep_ok ep"
  shows "sendme_circuit_data_received ep = Some (ep_add_deliver (-1) ep, ep_deliver ep - 1)"
    and "sendme_note_circuit_data_packaged ep = Some (ep_add_package (-1) ep, ep_package ep - 1)"
  using assms
  by (simp_all add: sendme_circuit_data_received_def sendme_note_circuit_data_packaged_def ep_ok_def)

lemma package_data_views:
  assumes "ep_ok ep" "0 < ep_package ep"
  shows "\<exists>ep'. package_data d ep = Some ep' \<and> ep_ok ep' \<and> ep_package ep' = ep_package ep - 1 \<and>
    ep_deliver ep' = ep_deliver ep \<and>
    ep_queue ep' = ep_queue ep @ (if 100 dvd ep_package ep - 1 then [d] else [])"
proof -
  let ?ep = "sendme_record_cell_digest_on_circ (sendme_record_sending_cell_digest d ep)"
  have "ep_ok ?ep \<and> ep_package ?ep = ep_package ep \<and> ep_deliver ?ep = ep_deliver ep \<and>
      ep_queue ?ep = ep_queue ep @ (if 100 dvd ep_package ep - 1 then [d] else [])"
    using assms(1)
    by (simp add: sendme_record_cell_digest_on_circ_def sendme_record_sending_cell_digest_def is_next_iff)
  then show ?thesis
    using assms(2) by (simp add: package_data_def window_ops_ok)
qed

lemma receive_data_views:
  assumes "ep_ok ep" "900 < ep_deliver ep" "ep_deliver ep \<le> 1000" "length d = 20"
  shows "\<exists>ep' out. receive_data v d ep = Some (ep', out) \<and> ep_ok ep' \<and>
    ep_package ep' = ep_package ep \<and> ep_queue ep' = ep_queue ep \<and>
    (if ep_deliver ep = 901 then ep_deliver ep' = 1000 \<and> out = [Sendme (sendme_payload v d)]
     else ep_deliver ep' = ep_deliver ep - 1 \<and> out = [])"
proof -
  let ?ep = "sendme_record_received_cell_digest d ep"
  let ?ep1 = "ep_add_deliver (-1) ?ep"
  have ep: "ep_ok ?ep" "ep_package ?ep = ep_package ep" "ep_queue ?ep = ep_queue ep"
    "ep_deliver ?ep = ep_deliver ep" "ep_deliver ep = 901 \<Longrightarrow> ep_digest ?ep = d"
    using assms(1) by (simp_all add: sendme_record_received_cell_digest_def is_next_iff)
  have "sendme_circuit_data_received ?ep = Some (?ep1, ep_deliver ep - 1)"
    using ep by (simp add: window_ops_ok)
  then have recv: "receive_data v d ep = Some (sendme_circuit_consider_sending v queue_cell ?ep1 [])"
    using assms(2) by (simp add: receive_data_def)
  show ?thesis
  proof (cases "ep_deliver ep = 901")
    case True
    let ?ep2 = "ep_add_deliver 100 ?ep1"
    have "sendme_circuit_consider_sending v queue_cell ?ep2 out = (?ep2, out)" for out
      using ep True by (subst sendme_circuit_consider_sending.simps) (simp add: window_defs)
    then have "sendme_circuit_consider_sending v queue_cell ?ep1 [] = (?ep2, [Sendme (sendme_payload v d)])"
      using ep True assms(4)
      by (subst sendme_circuit_consider_sending.simps)
        (simp add: window_defs send_circuit_level_sendme queue_cell_def Let_def)
    then show ?thesis
      using recv ep True by simp
  next
    case False
    then have "sendme_circuit_consider_sending v queue_cell ?ep1 [] = (?ep1, [])"
      using ep assms(2) by (subst sendme_circuit_consider_sending.simps) (simp add: window_defs)
    then show ?thesis
      using recv ep False by simp
  qed
qed

lemma direction_package:
  assumes dir: "direction v w x y fwd bwd" and w: "100 dvd w" and d: "length d = 20"
    and x': "0 \<le> ep_package x'" "ep_package x' = ep_package x - 1"
      "ep_queue x' = ep_queue x @ (if 100 dvd ep_package x - 1 then [d] else [])"
  shows "direction v w x' y (fwd @ [Data d]) bwd"
proof -
  let ?n = "int (length (datas fwd))"
  have sum: "ep_package x + ?n + (1000 - ep_deliver y) + 100 * int (length (sendmes bwd)) = w"
    using dir by (simp add: direction_def)
  have "ep_package x - 1 = (ep_deliver y - ?n - 1) + (w - 1000 - 100 * int (length (sendmes bwd)))"
    using sum by simp
  moreover have "100 dvd w - 1000 - 100 * int (length (sendmes bwd))"
    using w by (intro dvd_diff) simp_all
  ultimately have same: "100 dvd ep_package x - 1 \<longleftrightarrow> 100 dvd ep_deliver y - ?n - 1"
    by (simp only: dvd_add_left_iff)
  from dir obtain acked where "\<forall>d \<in> set acked. length d = 20" "sendmes bwd = map (sendme_payload v) acked"
    "ep_queue x = acked @ marked (ep_deliver y) (datas fwd)"
    by (auto simp: direction_def)
  then show ?thesis
    using dir x' d same unfolding direction_def
    by (auto simp: marked_snoc intro!: exI [of _ acked])
qed

lemma direction_data:
  assumes dir: "direction v w x y fwd bwd" and fwd: "fwd = Data d # ms"
    and y': "if ep_deliver y = 901 then ep_deliver y' = 1000 \<and> out = [Sendme (sendme_payload v d)]
      else ep_deliver y' = ep_deliver y - 1 \<and> out = []"
  shows "direction v w x y' ms (bwd @ out)"
proof -
  from dir obtain acked where acked: "\<forall>d \<in> set acked. length d = 20" "sendmes bwd = map (sendme_payload v) acked"
    "ep_queue x = acked @ marked (ep_deliver y) (datas fwd)"
    by (auto simp: direction_def)
  show ?thesis
  proof (cases "ep_deliver y = 901")
    case True
    have "marked (ep_deliver y) (datas fwd) = d # marked 1000 (datas ms)"
      using True fwd marked_shift [of 900 "datas ms"] by simp
    then show ?thesis
      using dir fwd True y' acked unfolding direction_def
      by (auto intro!: exI [of _ "acked @ [d]"])
  next
    case False
    moreover have "900 < ep_deliver y" "ep_deliver y \<le> 1000"
      using dir by (simp_all add: direction_def)
    ultimately have "\<not> 100 dvd ep_deliver y - 1"
      by presburger
    then show ?thesis
      using dir fwd False y' acked unfolding direction_def
      by (auto intro!: exI [of _ acked])
  qed
qed

lemma direction_sendme:
  assumes dir: "direction v w x y fwd bwd" and w: "w \<le> 1000" and ok: "ep_ok x"
    and bwd: "bwd = Sendme pl # ms" and a: "versions_ok a v"
  shows "\<exists>x'. receive_sendme a pl x = Some x' \<and> ep_ok x' \<and> ep_deliver x' = ep_deliver x \<and>
    direction v w x' y fwd ms"
proof -
  from dir obtain acked where acked: "\<forall>d \<in> set acked. length d = 20" "sendmes bwd = map (sendme_payload v) acked"
    "ep_queue x = acked @ marked (ep_deliver y) (datas fwd)"
    by (auto simp: direction_def)
  from acked(2) bwd obtain d ds where ds: "acked = d # ds" "pl = sendme_payload v d"
    "sendmes ms = map (sendme_payload v) ds"
    by (cases acked) auto
  have room: "ep_package x + 100 \<le> 1000"
    using dir bwd w by (simp add: direction_def)
  from process_circuit_level_ok [OF ok _ _ a room, of d "ds @ marked (ep_deliver y) (datas fwd)"]
  obtain x' where x': "sendme_process_circuit_level a x pl = (x', None)" "ep_ok x'"
    "ep_queue x' = ds @ marked (ep_deliver y) (datas fwd)" "ep_package x' = ep_package x + 100"
    "ep_deliver x' = ep_deliver x"
    using acked ds by auto
  then have "direction v w x' y fwd ms"
    using dir bwd acked ds unfolding direction_def by (auto intro!: exI [of _ ds])
  then show ?thesis
    using x' by (simp add: receive_sendme_def)
qed

definition flow_inv :: "int \<Rightarrow> int \<Rightarrow> flow \<Rightarrow> bool" where
  "flow_inv v w s \<longleftrightarrow> \<not> closed s \<and> ep_ok (client s) \<and> ep_ok (exit_ep s) \<and>
     direction v w (client s) (exit_ep s) (outbound s) (inbound s) \<and>
     direction v w (exit_ep s) (client s) (inbound s) (outbound s)"

text \<open>A direction depends on the two parties through three of their fields only.\<close>

lemma direction_cong:
  "direction v w x y fwd bwd \<Longrightarrow> ep_package x' = ep_package x \<Longrightarrow> ep_queue x' = ep_queue x \<Longrightarrow>
    ep_deliver y' = ep_deliver y \<Longrightarrow> datas fwd' = datas fwd \<Longrightarrow> sendmes bwd' = sendmes bwd \<Longrightarrow>
    direction v w x' y' fwd' bwd'"
  by (simp add: direction_def)

lemma flow_inv_start:
  assumes "0 \<le> w"
  shows "flow_inv v w (flow_start w)"
  using assms
  by (simp add: flow_inv_def flow_start_def direction_def ep_ok_def ep_package_def ep_deliver_def
      ep_queue_def start_circuit_def start_hop_def window_defs)

text \<open>One party packaging, and one party receiving, seen from both directions.\<close>

lemma package_inv:
  assumes "ep_ok x" "0 < ep_package x" "length d = 20" "100 dvd w"
    and "direction v w x y fwd bwd" "direction v w y x bwd fwd"
  shows "\<exists>x'. package_data d x = Some x' \<and> ep_ok x' \<and>
    direction v w x' y (fwd @ [Data d]) bwd \<and> direction v w y x' bwd (fwd @ [Data d])"
proof -
  from package_data_views [OF assms(1,2)] obtain x' where x': "package_data d x = Some x'" "ep_ok x'"
    "ep_package x' = ep_package x - 1" "ep_deliver x' = ep_deliver x"
    "ep_queue x' = ep_queue x @ (if 100 dvd ep_package x - 1 then [d] else [])"
    by blast
  have "direction v w x' y (fwd @ [Data d]) bwd"
    by (rule direction_package [OF assms(5,4,3)]) (use x' assms(2) in auto)
  moreover have "direction v w y x' bwd (fwd @ [Data d])"
    by (rule direction_cong [OF assms(6)]) (use x' in auto)
  ultimately show ?thesis
    using x' by blast
qed

lemma receive_inv:
  assumes "ep_ok y" "w \<le> 1000" "versions_ok a v"
    and "direction v w x y (m # ms) bwd" "direction v w y x bwd (m # ms)"
  shows "\<exists>y' out. receive a v m y = Some (y', out) \<and> ep_ok y' \<and>
    direction v w x y' ms (bwd @ out) \<and> direction v w y' x (bwd @ out) ms"
proof (cases m)
  case (Data d)
  have "900 < ep_deliver y" "ep_deliver y \<le> 1000" "length d = 20"
    using assms(4) Data by (auto simp: direction_def)
  from receive_data_views [OF assms(1) this] obtain y' out where y': "receive_data v d y = Some (y', out)"
    "ep_ok y'" "ep_package y' = ep_package y" "ep_queue y' = ep_queue y"
    "if ep_deliver y = 901 then ep_deliver y' = 1000 \<and> out = [Sendme (sendme_payload v d)]
     else ep_deliver y' = ep_deliver y - 1 \<and> out = []"
    by blast
  have "direction v w x y' ms (bwd @ out)"
    by (rule direction_data [OF assms(4) _ y'(5)]) (simp add: Data)
  moreover have "direction v w y' x (bwd @ out) ms"
    by (rule direction_cong [OF assms(5)]) (use y' Data in \<open>auto split: if_splits\<close>)
  ultimately show ?thesis
    using y' Data by auto
next
  case (Sendme pl)
  from direction_sendme [OF assms(5,2,1) _ assms(3)] Sendme obtain y'
    where y': "receive_sendme a pl y = Some y'" "ep_ok y'" "ep_deliver y' = ep_deliver y"
      "direction v w y' x bwd ms"
    by blast
  have "direction v w x y' ms bwd"
    by (rule direction_cong [OF assms(4)]) (use y' Sendme in auto)
  then show ?thesis
    using y' Sendme by simp
qed

lemma flow_inv_step:
  assumes "flow_step a v s t" "flow_inv v w s" "100 dvd w" "w \<le> 1000" "versions_ok a v"
  shows "flow_inv v w t"
  using assms(1)
proof cases
  case (client_package d ep)
  then show ?thesis
    using package_inv [of "client s" d w v "exit_ep s" "outbound s" "inbound s"] assms
    by (auto simp: flow_inv_def)
next
  case (exit_package d ep)
  then show ?thesis
    using package_inv [of "exit_ep s" d w v "client s" "inbound s" "outbound s"] assms
    by (auto simp: flow_inv_def)
next
  case (client_package_fails d)
  then show ?thesis
    using package_inv [of "client s" d w v "exit_ep s" "outbound s" "inbound s"] assms
    by (auto simp: flow_inv_def)
next
  case (exit_package_fails d)
  then show ?thesis
    using package_inv [of "exit_ep s" d w v "client s" "inbound s" "outbound s"] assms
    by (auto simp: flow_inv_def)
next
  case (client_receives m ms ep out)
  then show ?thesis
    using receive_inv [of "client s" w a v "exit_ep s" m ms "outbound s"] assms
    by (auto simp: flow_inv_def)
next
  case (exit_receives m ms ep out)
  then show ?thesis
    using receive_inv [of "exit_ep s" w a v "client s" m ms "inbound s"] assms
    by (auto simp: flow_inv_def)
next
  case (client_closes m ms)
  then show ?thesis
    using receive_inv [of "client s" w a v "exit_ep s" m ms "outbound s"] assms
    by (auto simp: flow_inv_def)
next
  case (exit_closes m ms)
  then show ?thesis
    using receive_inv [of "exit_ep s" w a v "client s" m ms "inbound s"] assms
    by (auto simp: flow_inv_def)
qed

interpretation flow_control: step_invariant "flow_step a v"
  "\<lambda>s. 100 dvd w \<longrightarrow> w \<le> 1000 \<longrightarrow> versions_ok a v \<longrightarrow> flow_inv v w s" for a v w
  by unfold_locales (use flow_inv_step in blast)

lemma flow_reachable_inv:
  assumes "(flow_step a v)\<^sup>*\<^sup>* (flow_start w) s" "100 dvd w" "0 \<le> w" "w \<le> 1000" "versions_ok a v"
  shows "flow_inv v w s"
  using flow_control.inv_reachable [OF assms(1), of w] flow_inv_start [OF assms(3)] assms by blast

section \<open>Draining\<close>

text \<open>
  Delivering what is on its way ends: a data cell is answered by at most one SENDME, and a SENDME by nothing.
\<close>

definition pending :: "msg list \<Rightarrow> nat" where
  "pending ms = 2 * length (datas ms) + length (sendmes ms)"

lemma pending_simps [simp]:
  "pending [] = 0" "pending (Data d # ms) = 2 + pending ms" "pending (Sendme pl # ms) = 1 + pending ms"
  "pending (ms @ ms') = pending ms + pending ms'"
  by (simp_all add: pending_def)

lemma receive_pending:
  assumes "ep_ok y" "direction v w x y (m # ms) bwd" "receive a v m y = Some (y', out)"
  shows "pending out < pending [m]"
proof (cases m)
  case (Data d)
  have "900 < ep_deliver y" "ep_deliver y \<le> 1000" "length d = 20"
    using assms(2) Data by (auto simp: direction_def)
  from receive_data_views [OF assms(1) this, of v] assms(3) Data show ?thesis
    by (auto split: if_splits)
next
  case (Sendme pl)
  then show ?thesis
    using assms(3) by auto
qed

lemma flow_drain_step:
  assumes "flow_inv v w s" "w \<le> 1000" "versions_ok a v" "outbound s \<noteq> [] \<or> inbound s \<noteq> []"
  shows "\<exists>t. flow_step a v s t \<and> pending (outbound t) + pending (inbound t) < pending (outbound s) + pending (inbound s)"
proof (cases "outbound s")
  case (Cons m ms)
  from receive_inv [of "exit_ep s" w a v "client s" m ms "inbound s"] assms Cons
  obtain ep out where ep: "receive a v m (exit_ep s) = Some (ep, out)"
    by (auto simp: flow_inv_def)
  then have "pending out < pending [m]"
    using receive_pending [of "exit_ep s" v w "client s" m ms "inbound s"] assms(1) Cons by (simp add: flow_inv_def)
  then show ?thesis
    using exit_receives [OF _ Cons ep] assms(1) Cons
    by (intro exI [of _ "s\<lparr>exit_ep := ep, outbound := ms, inbound := inbound s @ out\<rparr>"])
      (cases m; simp add: flow_inv_def)
next
  case Nil
  then obtain m ms where Cons: "inbound s = m # ms"
    using assms(4) by (cases "inbound s") auto
  from receive_inv [of "client s" w a v "exit_ep s" m ms "outbound s"] assms Cons
  obtain ep out where ep: "receive a v m (client s) = Some (ep, out)"
    by (auto simp: flow_inv_def)
  then have "pending out < pending [m]"
    using receive_pending [of "client s" v w "exit_ep s" m ms "outbound s"] assms(1) Cons by (simp add: flow_inv_def)
  then show ?thesis
    using client_receives [OF _ Cons ep] assms(1) Cons
    by (intro exI [of _ "s\<lparr>client := ep, inbound := ms, outbound := outbound s @ out\<rparr>"])
      (cases m; simp add: flow_inv_def)
qed

lemma flow_drains:
  assumes "flow_inv v w s" "100 dvd w" "w \<le> 1000" "versions_ok a v"
  shows "\<exists>t. (flow_step a v)\<^sup>*\<^sup>* s t \<and> flow_inv v w t \<and> outbound t = [] \<and> inbound t = []"
  using assms(1)
proof (induction "pending (outbound s) + pending (inbound s)" arbitrary: s rule: less_induct)
  case less
  show ?case
  proof (cases "outbound s = [] \<and> inbound s = []")
    case False
    then obtain t where t: "flow_step a v s t"
      "pending (outbound t) + pending (inbound t) < pending (outbound s) + pending (inbound s)"
      using flow_drain_step [OF less.prems assms(3,4)] by blast
    from less.hyps [OF t(2) flow_inv_step [OF t(1) less.prems assms(2-4)]] t(1) show ?thesis
      by (meson converse_rtranclp_into_rtranclp)
  qed (use less.prems in auto)
qed

section \<open>Stream windows\<close>

text \<open>With every cell queued, the loop refills the window in units of fifty and stops above the limit.\<close>

lemma stream_sendme_loop_counts:
  "stream_sendme_loop (\<lambda>n. (Suc n, True)) conn k = (conn', k') \<Longrightarrow>
    k \<le> k' \<and> conn_package_window conn' = conn_package_window conn \<and>
    conn_deliver_window conn' = conn_deliver_window conn + 50 * (int k' - int k) \<and>
    450 < conn_deliver_window conn' \<and> conn_deliver_window conn' \<le> max (conn_deliver_window conn) 500"
proof (induction "nat (500 - conn_deliver_window conn)" arbitrary: conn k rule: less_induct)
  case less
  show ?case
  proof (cases "conn_deliver_window conn \<le> 450")
    case True
    let ?c = "conn\<lparr>conn_deliver_window := conn_deliver_window conn + 50\<rparr>"
    have "stream_sendme_loop (\<lambda>n. (Suc n, True)) ?c (Suc k) = (conn', k')"
      using less.prems True by (subst (asm) stream_sendme_loop.simps) (simp add: window_defs)
    from less.hyps [OF _ this] True show ?thesis
      by auto
  next
    case False
    then show ?thesis
      using less.prems by (subst (asm) stream_sendme_loop.simps) (auto simp: window_defs)
  qed
qed

section \<open>Properties\<close>

lemma first_cell:
  assumes "0 < w"
  shows "\<exists>s. (flow_step a v)\<^sup>*\<^sup>* (flow_start w) s \<and> outbound s = [Data (replicate 20 1)]"
proof -
  let ?s = "flow_start w" and ?d = "replicate 20 1 :: u8 list"
  have ok: "ep_ok (client ?s)" "0 < ep_package (client ?s)"
    using assms by (simp_all add: flow_start_def ep_ok_def ep_package_def start_circuit_def start_hop_def)
  obtain ep where ep: "package_data ?d (client ?s) = Some ep"
    using package_data_views [OF ok] by blast
  let ?t = "?s\<lparr>client := ep, outbound := outbound ?s @ [Data ?d]\<rparr>"
  have "flow_step a v ?s ?t"
    by (rule client_package) (use ep ok(2) in \<open>simp_all add: flow_start_def\<close>)
  then show ?thesis
    by (intro exI [of _ ?t]) (simp add: flow_start_def r_into_rtranclp)
qed

text \<open>
  C8. Two honest parties never tear their circuit down over flow control, provided the initial package
  window \<open>w\<close> (the consensus parameter \<open>circwindow\<close>) is a multiple of \<open>CIRCWINDOW_INCREMENT\<close> of at most
  \<open>CIRCWINDOW_START_MAX\<close>, and neither requires a SENDME version the other does not emit (\<open>versions_ok\<close>):
  with any interleaving of packaging and delivery in both directions over channels that keep the order, no
  window goes below zero, every SENDME is accepted (its digest matches, the package window stays within
  its maximum), and every cell of the initial window is accounted for. For another \<open>w\<close>, such as 950, a
  digest is recorded at other cells than those a SENDME acknowledges, and the digests do not match.
\<close>

theorem honest_circuit_stays_open:
  assumes "(flow_step accept_version emit_version)\<^sup>*\<^sup>* (flow_start w) s"
    and "CIRCWINDOW_INCREMENT dvd w" and "0 \<le> w" and "w \<le> CIRCWINDOW_START_MAX"
    and "versions_ok accept_version emit_version"
  shows "\<not> closed s \<and> 0 \<le> ep_package (client s) \<and> ep_package (client s) \<le> w \<and>
    0 \<le> ep_package (exit_ep s) \<and> ep_package (exit_ep s) \<le> w \<and>
    ep_package (client s) + int (length (datas (outbound s))) + (CIRCWINDOW_START - ep_deliver (exit_ep s)) +
      CIRCWINDOW_INCREMENT * int (length (sendmes (inbound s))) = w"
  using flow_reachable_inv [of accept_version emit_version w s] assms
  by (simp add: flow_inv_def direction_def window_defs)

theorem honest_circuit_stays_open_witness:
  "\<exists>s. (flow_step 0 1)\<^sup>*\<^sup>* (flow_start 1000) s \<and> outbound s = [Data (replicate 20 1)] \<and> \<not> closed s"
proof -
  obtain s where s: "(flow_step 0 1)\<^sup>*\<^sup>* (flow_start 1000) s" "outbound s = [Data (replicate 20 1)]"
    using first_cell [of 1000] by auto
  from honest_circuit_stays_open [OF s(1)] s show ?thesis
    by (auto simp: window_defs versions_ok_def)
qed

text \<open>
  C19. Flow control cannot deadlock, under the same conditions on the initial window and the versions:
  from whatever state two honest parties have reached, the circuit can go on to
  a state with empty channels in which it is open and both may package again, with at most 99 cells of
  each window not acknowledged yet.
\<close>

theorem windows_reopen:
  assumes "(flow_step accept_version emit_version)\<^sup>*\<^sup>* (flow_start w) s"
    and "CIRCWINDOW_INCREMENT dvd w" and "0 < w" and "w \<le> CIRCWINDOW_START_MAX"
    and "versions_ok accept_version emit_version"
  shows "\<exists>t. (flow_step accept_version emit_version)\<^sup>*\<^sup>* s t \<and> \<not> closed t \<and> outbound t = [] \<and> inbound t = [] \<and>
    0 < ep_package (client t) \<and> w - CIRCWINDOW_INCREMENT < ep_package (client t) \<and>
    0 < ep_package (exit_ep t) \<and> w - CIRCWINDOW_INCREMENT < ep_package (exit_ep t)"
proof -
  have w: "100 dvd w" "0 \<le> w" "w \<le> 1000" "100 \<le> w"
    using assms(2-4) by (auto simp: window_defs intro: zdvd_imp_le)
  from flow_drains [OF flow_reachable_inv [OF assms(1) w(1-3) assms(5)] w(1,3) assms(5)]
  obtain t where t: "(flow_step accept_version emit_version)\<^sup>*\<^sup>* s t" "flow_inv emit_version w t"
    "outbound t = []" "inbound t = []"
    by blast
  then show ?thesis
    using w(4) by (intro exI [of _ t]) (simp add: flow_inv_def direction_def window_defs)
qed

theorem windows_reopen_witness:
  "\<exists>s t. outbound s = [Data (replicate 20 1)] \<and> (flow_step 0 1)\<^sup>*\<^sup>* (flow_start 100) s \<and>
    (flow_step 0 1)\<^sup>*\<^sup>* s t \<and> outbound t = [] \<and> 0 < ep_package (client t)"
proof -
  obtain s where s: "(flow_step 0 1)\<^sup>*\<^sup>* (flow_start 100) s" "outbound s = [Data (replicate 20 1)]"
    using first_cell [of 100] by auto
  from windows_reopen [OF s(1)] s show ?thesis
    by (auto simp: window_defs versions_ok_def)
qed

text \<open>
  C20. With version 1 required, a SENDME is accepted only when it carries the digest recorded first on
  the circuit, and accepting it takes that digest off the queue: a peer cannot acknowledge cells it has
  not seen.
\<close>

theorem sendme_v1_authentic:
  assumes "sendme_is_valid 1 circ payload = (circ', True)"
  shows "\<exists>cell n d ds. sendme_cell_parse payload = Inr (cell, n) \<and> sm_version cell = 1 \<and>
    sendme_last_digests circ = d # ds \<and> sendme_last_digests circ' = ds \<and> take 20 d = data_v1_digest cell"
  by (rule sendme_is_valid_authentic [OF assms])

definition waiting_circuit :: circuit where
  "waiting_circuit = (start_circuit False 900)\<lparr>sendme_last_digests := [replicate 20 3]\<rparr>"

lemma waiting_circuit_valid:
  "sendme_is_valid 1 waiting_circuit (sendme_payload 1 (replicate 20 3)) =
    (waiting_circuit\<lparr>sendme_last_digests := []\<rparr>, True)"
  by (rule sendme_is_valid_matching) (simp_all add: waiting_circuit_def versions_ok_def)

theorem sendme_v1_authentic_witness:
  "\<exists>cell n d ds. sendme_cell_parse (sendme_payload 1 (replicate 20 3)) = Inr (cell, n) \<and> sm_version cell = 1 \<and>
    sendme_last_digests waiting_circuit = d # ds \<and>
    sendme_last_digests (waiting_circuit\<lparr>sendme_last_digests := []\<rparr>) = ds \<and> take 20 d = data_v1_digest cell"
  by (rule sendme_v1_authentic [OF waiting_circuit_valid])

text \<open>
  No SENDME a peer sends, valid or not, lifts a package window above \<open>CIRCWINDOW_START_MAX\<close>, changes a
  deliver window, or adds to the queue of digests.
\<close>

lemma package_window_bounded:
  assumes "sendme_process_circuit_level accept_version ep payload = (ep', r)"
  shows "ep_package ep' \<le> max (ep_package ep) CIRCWINDOW_START_MAX \<and> ep_deliver ep' = ep_deliver ep \<and>
    length (ep_queue ep') \<le> length (ep_queue ep)"
  using process_circuit_level_bound [OF assms] by (simp add: window_defs)

text \<open>
  The stream loop refills: when every cell can be queued it ends, having sent one SENDME for each
  fifty cells it adds to the deliver window, with the window above the limit at which it would send more
  and never above its maximum because of it.
\<close>

lemma stream_window_refilled:
  assumes "stream_sendme_loop (\<lambda>n. (Suc n, True)) conn k = (conn', k')"
  shows "k \<le> k' \<and> conn_deliver_window conn' = conn_deliver_window conn + STREAMWINDOW_INCREMENT * (int k' - int k) \<and>
    STREAMWINDOW_START - STREAMWINDOW_INCREMENT < conn_deliver_window conn' \<and>
    conn_deliver_window conn' \<le> max (conn_deliver_window conn) STREAMWINDOW_START"
  using stream_sendme_loop_counts [OF assms] by (simp add: window_defs)

end
