(* ===== verification/Plugin_Memory.thy ===== *)
theory Plugin_Memory
  imports Prelude
begin

text \<open>
  Memory of plugins: the copy and fill routines of \<^verbatim>\<open>src/core/or/plugin_memory.c\<close>, which work
  by words where alignment allows, shown equal to byte-wise references; the pool a plugin allocates
  from, and the bound \<open>context_sbrk\<close> of \<^verbatim>\<open>src/lib/michelfralloc/sbrk.c\<close> keeps on it.
  A \<open>word\<close> of the copy routine is an \<open>int\<close> of four bytes.
\<close>

section \<open>Ranges of addresses\<close>

abbreviation in_range :: "u64 \<Rightarrow> nat \<Rightarrow> u64 \<Rightarrow> bool" where
  "in_range a n x \<equiv> unat (x - a) < n"

lemma in_range_addrs: "n \<le> 2 ^ 64 \<Longrightarrow> in_range a n x \<longleftrightarrow> x \<in> addrs a n"
proof
  assume "in_range a n x"
  then show "x \<in> addrs a n"
    by (auto simp: addrs_def intro!: exI [of _ "unat (x - a)"])
next
  assume "n \<le> 2 ^ 64" "x \<in> addrs a n"
  then show "in_range a n x"
    by (auto simp: addrs_def unat_of_nat)
qed

lemma in_range_Suc: "n < 2 ^ 64 \<Longrightarrow> in_range a (Suc n) x \<longleftrightarrow> x = a \<or> in_range (a + 1) n x"
  by (simp add: in_range_addrs addrs_Suc)

lemma unat_diff_add:
  fixes x a :: u64
  assumes "k \<le> unat (x - a)"
  shows "unat (x - (a + of_nat k)) = unat (x - a) - k"
proof -
  have "x - (a + of_nat k) = of_nat (unat (x - a) - k)"
    using assms by (simp add: of_nat_diff algebra_simps)
  moreover have "unat (x - a) < 2 ^ 64"
    by (rule less_le_trans [OF unsigned_less]) simp
  ultimately show ?thesis
    by (simp add: unat_of_nat)
qed

lemma in_range_split:
  assumes "k + c \<le> 2 ^ 64"
  shows "in_range a (k + c) x \<longleftrightarrow> in_range a k x \<or> in_range (a + of_nat k) c x"
proof (cases "k \<le> unat (x - a)")
  case True
  then show ?thesis
    using unat_diff_add [OF True] by auto
next
  case False
  then show ?thesis
    by simp
qed

section \<open>Copying\<close>

text \<open>The reference: all bytes are read before any is written.\<close>

definition memmove :: "memory \<Rightarrow> u64 \<Rightarrow> u64 \<Rightarrow> nat \<Rightarrow> memory" where
  "memmove m d s n = (\<lambda>x. if in_range d n x then m (s + (x - d)) else m x)"

text \<open>The four loops: \<open>t\<close> turns forward or backward, by bytes or by words.\<close>

fun bytes_fwd :: "nat \<Rightarrow> memory \<Rightarrow> u64 \<Rightarrow> u64 \<Rightarrow> memory" where
  "bytes_fwd 0 m d s = m"
| "bytes_fwd (Suc t) m d s = bytes_fwd t (m(d := m s)) (d + 1) (s + 1)"

fun words_fwd :: "nat \<Rightarrow> memory \<Rightarrow> u64 \<Rightarrow> u64 \<Rightarrow> memory" where
  "words_fwd 0 m d s = m"
| "words_fwd (Suc t) m d s = words_fwd t (store_le m d 4 (load_le m s 4)) (d + 4) (s + 4)"

fun bytes_bwd :: "nat \<Rightarrow> memory \<Rightarrow> u64 \<Rightarrow> u64 \<Rightarrow> memory" where
  "bytes_bwd 0 m d s = m"
| "bytes_bwd (Suc t) m d s = bytes_bwd t (m(d - 1 := m (s - 1))) (d - 1) (s - 1)"

fun words_bwd :: "nat \<Rightarrow> memory \<Rightarrow> u64 \<Rightarrow> u64 \<Rightarrow> memory" where
  "words_bwd 0 m d s = m"
| "words_bwd (Suc t) m d s =
     words_bwd t (store_le m (d - 4) 4 (load_le m (s - 4) 4)) (d - 4) (s - 4)"

definition wsize :: nat where "wsize = 4"

definition wmask :: u64 where "wmask = 3"

text \<open>The number of bytes copied singly to align the operands.\<close>

definition align_fwd :: "u64 \<Rightarrow> u64 \<Rightarrow> nat \<Rightarrow> nat" where
  "align_fwd d s len =
     (if (s OR d) AND wmask \<noteq> 0 then
        (if (s XOR d) AND wmask \<noteq> 0 \<or> len < wsize then len else wsize - unat (s AND wmask))
      else 0)"

definition align_bwd :: "u64 \<Rightarrow> u64 \<Rightarrow> nat \<Rightarrow> nat" where
  "align_bwd d s len =
     (if (s OR d) AND wmask \<noteq> 0 then
        (if (s XOR d) AND wmask \<noteq> 0 \<or> len \<le> wsize then len else unat (s AND wmask))
      else 0)"

definition my_plugin_memcpy :: "memory \<Rightarrow> u64 \<Rightarrow> u64 \<Rightarrow> nat \<Rightarrow> memory" where
  "my_plugin_memcpy m dst0 src0 len =
     (if len = 0 \<or> dst0 = src0 then m
      else if dst0 < src0 then
        (let t = align_fwd dst0 src0 len;
             m1 = bytes_fwd t m dst0 src0;
             d1 = dst0 + of_nat t; s1 = src0 + of_nat t; len1 = len - t;
             m2 = words_fwd (len1 div wsize) m1 d1 s1;
             w = wsize * (len1 div wsize)
         in bytes_fwd (len1 mod wsize) m2 (d1 + of_nat w) (s1 + of_nat w))
      else
        (let d0 = dst0 + of_nat len; s0 = src0 + of_nat len;
             t = align_bwd d0 s0 len;
             m1 = bytes_bwd t m d0 s0;
             d1 = d0 - of_nat t; s1 = s0 - of_nat t; len1 = len - t;
             m2 = words_bwd (len1 div wsize) m1 d1 s1;
             w = wsize * (len1 div wsize)
         in bytes_bwd (len1 mod wsize) m2 (d1 - of_nat w) (s1 - of_nat w)))"

text \<open>A load followed by a store moves the bytes.\<close>

lemma load_le_less: "unat (load_le m a n) < 2 ^ (8 * n)" if "n \<le> 8"
  using that
proof (induction n arbitrary: a)
  case (Suc n)
  have hi: "unat (load_le m (a + 1) n) < 2 ^ (8 * n)"
    using Suc by simp
  have lo: "unat (m a) < 256"
    using unsigned_less [of "m a"] by simp
  have le: "(2::nat) ^ (8 * n) \<le> 2 ^ 56"
    using Suc.prems by (intro power_increasing) simp_all
  have "unat (load_le m a (Suc n)) = unat (m a) + 256 * unat (load_le m (a + 1) n)"
    using hi lo le by (simp add: unat_word_ariths unsigned_ucast_eq take_bit_nat_eq_self)
  then show ?case
    using hi lo by (simp add: power_add)
qed simp

lemma drop_bit_load:
  assumes "n < 8"
  shows "drop_bit 8 (ucast (b :: u8) + 256 * load_le m a n) = load_le m a n"
    and "(ucast (ucast b + 256 * load_le m a n) :: u8) = b"
proof -
  let ?v = "load_le m a n"
  have le: "(2::nat) ^ (8 * n) \<le> 2 ^ 56"
    using assms by (intro power_increasing) simp_all
  have small: "unat ?v < 2 ^ 56"
    using load_le_less [of n m a] assms le by simp
  have lo: "unat b < 256"
    using unsigned_less [of b] by simp
  have sum: "unat (ucast b + 256 * ?v) = unat b + 256 * unat ?v"
    using small lo by (simp add: unat_word_ariths unsigned_ucast_eq take_bit_nat_eq_self)
  show "drop_bit 8 (ucast b + 256 * ?v) = ?v"
    by (rule word_unat_eq_iff [THEN iffD2])
      (simp add: drop_bit_eq_div unat_div_distrib sum lo)
  show "(ucast (ucast b + 256 * ?v) :: u8) = b"
    by (rule word_unat_eq_iff [THEN iffD2])
      (simp add: unsigned_ucast_eq sum take_bit_eq_mod lo)
qed

lemma store_load:
  assumes "n \<le> 8"
  shows "store_le m d n (load_le m' s n) = (\<lambda>x. if in_range d n x then m' (s + (x - d)) else m x)"
  using assms
proof (induction n arbitrary: m d s)
  case (Suc n)
  have "store_le m d (Suc n) (load_le m' s (Suc n)) =
      store_le (m(d := m' s)) (d + 1) n (load_le m' (s + 1) n)"
    using Suc.prems by (simp add: drop_bit_load)
  also have "\<dots> = (\<lambda>x. if in_range (d + 1) n x then m' (s + 1 + (x - (d + 1))) else (m(d := m' s)) x)"
    using Suc by simp
  also have "\<dots> = (\<lambda>x. if in_range d (Suc n) x then m' (s + (x - d)) else m x)"
    using Suc.prems by (auto simp: in_range_Suc fun_eq_iff algebra_simps)
  finally show ?case .
qed simp

lemma word_move: "store_le m d 4 (load_le m s 4) = memmove m d s 4"
  by (simp add: store_load memmove_def)

lemma byte_move: "m(d := m s) = memmove m d s 1"
proof -
  have "in_range d 1 x \<longleftrightarrow> x = d" for x
    by (simp add: unsigned_eq_0_iff)
  then show ?thesis
    by (auto simp: memmove_def fun_eq_iff)
qed

text \<open>Pieces in ascending order make up a move downwards, in descending order one upwards.\<close>

lemma unat_diff_ge: "d \<le> y \<Longrightarrow> unat (y - d) = unat y - unat d" for d y :: u64
  by (simp add: unat_sub)

lemma in_range_offset:
  fixes x a :: u64
  assumes "in_range (a + of_nat k) c x" and "k + c \<le> 2 ^ 64"
  shows "unat (x - a) = k + unat (x - (a + of_nat k))"
proof -
  have "x - a = of_nat (k + unat (x - (a + of_nat k)))"
    by simp
  then have "unat (x - a) = unat (of_nat (k + unat (x - (a + of_nat k))) :: u64)"
    by (rule arg_cong)
  then show ?thesis
    using assms by (subst (asm) unat_of_nat) simp
qed

lemma memmove_fwd:
  assumes "d < s" and "unat s + (k + c) \<le> 2 ^ 64"
  shows "memmove (memmove m d s k) (d + of_nat k) (s + of_nat k) c = memmove m d s (k + c)"
proof (rule ext)
  fix x
  show "memmove (memmove m d s k) (d + of_nat k) (s + of_nat k) c x = memmove m d s (k + c) x"
  proof (cases "in_range (d + of_nat k) c x")
    case True
    let ?y = "s + (x - d)"
    have off: "unat (x - d) = k + unat (x - (d + of_nat k))"
      by (rule in_range_offset [OF True]) (use assms in simp)
    have y: "unat ?y = unat s + unat (x - d)"
      using off True assms(2) by (simp add: unat_word_ariths)
    then have "d \<le> ?y"
      using assms(1) by (simp add: word_le_nat_alt word_less_nat_alt)
    then have "unat (?y - d) = unat ?y - unat d"
      by (rule unat_diff_ge)
    then have "\<not> in_range d k ?y"
      using y off assms(1) by (simp add: word_less_nat_alt)
    moreover have "in_range d (k + c) x"
      using True off by simp
    ultimately show ?thesis
      using True by (simp add: memmove_def)
  next
    case False
    then show ?thesis
      using in_range_split [of k c x d] assms(2) by (simp add: memmove_def)
  qed
qed

lemma memmove_bwd:
  assumes "s < d" and "unat d + (c + k) \<le> 2 ^ 64"
  shows "memmove (memmove m (d + of_nat c) (s + of_nat c) k) d s c = memmove m d s (c + k)"
proof (rule ext)
  fix x
  show "memmove (memmove m (d + of_nat c) (s + of_nat c) k) d s c x = memmove m d s (c + k) x"
  proof (cases "in_range d c x")
    case True
    let ?y = "s + (x - d)" and ?e = "d + of_nat c"
    have y: "unat ?y = unat s + unat (x - d)"
      using True assms by (simp add: unat_word_ariths word_less_nat_alt)
    have "\<not> in_range ?e k ?y"
    proof (cases "k = 0")
      case False
      then have e: "unat ?e = unat d + c"
        using assms(2) by (intro unat_add_no_wrap) simp
      have "?y < ?e"
        using y e True assms(1) by (simp add: word_less_nat_alt)
      then have "unat (?y - ?e) = 2 ^ 64 + unat ?y - unat ?e"
        using unat_sub_if' [of ?y ?e] by (simp add: word_less_nat_alt word_le_nat_alt)
      then show ?thesis
        using e y assms(2) by simp
    qed simp
    moreover have "in_range d (c + k) x"
      using True by simp
    ultimately show ?thesis
      using True by (simp add: memmove_def)
  next
    case False
    then show ?thesis
      using in_range_split [of c k x d] assms(2) by (simp add: memmove_def)
  qed
qed

lemma memmove_0 [simp]: "memmove m d s 0 = m"
  by (simp add: memmove_def)

lemma bytes_fwd_memmove:
  "d < s \<Longrightarrow> unat s + (k + t) \<le> 2 ^ 64 \<Longrightarrow>
    bytes_fwd t (memmove m d s k) (d + of_nat k) (s + of_nat k) = memmove m d s (k + t)"
proof (induction t arbitrary: k)
  case (Suc t)
  have "bytes_fwd (Suc t) (memmove m d s k) (d + of_nat k) (s + of_nat k) =
      bytes_fwd t (memmove m d s (k + 1)) (d + of_nat k + 1) (s + of_nat k + 1)"
    using Suc.prems memmove_fwd [of d s k 1 m] by (simp only: bytes_fwd.simps byte_move)
  also have "\<dots> = memmove m d s (k + Suc t)"
    using Suc.IH [of "k + 1"] Suc.prems by (simp add: ac_simps)
  finally show ?case .
qed simp

lemma words_fwd_memmove:
  "d < s \<Longrightarrow> unat s + (k + 4 * t) \<le> 2 ^ 64 \<Longrightarrow>
    words_fwd t (memmove m d s k) (d + of_nat k) (s + of_nat k) = memmove m d s (k + 4 * t)"
proof (induction t arbitrary: k)
  case (Suc t)
  have "words_fwd (Suc t) (memmove m d s k) (d + of_nat k) (s + of_nat k) =
      words_fwd t (memmove m d s (k + 4)) (d + of_nat k + 4) (s + of_nat k + 4)"
    using Suc.prems by (subst memmove_fwd [symmetric]) (simp_all add: word_move)
  also have "\<dots> = memmove m d s (k + 4 * Suc t)"
    using Suc.IH [of "k + 4"] Suc.prems by (simp add: ac_simps)
  finally show ?case .
qed simp

text \<open>One piece of a copy from the top, \<open>n\<close> bytes of which are left.\<close>

lemma memmove_down:
  assumes "s < d" "unat d + (n + c + k) \<le> 2 ^ 64" "0 < c"
  shows "memmove (memmove m (d + of_nat (n + c)) (s + of_nat (n + c)) k) (d + of_nat n) (s + of_nat n) c =
    memmove m (d + of_nat n) (s + of_nat n) (c + k)"
proof -
  have d: "unat (d + of_nat n) = unat d + n"
    using assms by (intro unat_add_no_wrap) simp
  have s: "unat (s + of_nat n) = unat s + n"
    using assms by (intro unat_add_no_wrap) (simp add: word_less_nat_alt)
  show ?thesis
    using memmove_bwd [of "s + of_nat n" "d + of_nat n" c k m] assms d s
    by (simp add: word_less_nat_alt ac_simps)
qed

lemma bytes_bwd_memmove:
  "s < d \<Longrightarrow> unat d + (n + t + k) \<le> 2 ^ 64 \<Longrightarrow>
    bytes_bwd t (memmove m (d + of_nat (n + t)) (s + of_nat (n + t)) k) (d + of_nat (n + t)) (s + of_nat (n + t)) =
    memmove m (d + of_nat n) (s + of_nat n) (t + k)"
proof (induction t arbitrary: k)
  case (Suc t)
  have p: "d + of_nat (n + Suc t) - 1 = d + of_nat (n + t)" "s + of_nat (n + Suc t) - 1 = s + of_nat (n + t)"
    by simp_all
  have "memmove (memmove m (d + of_nat (n + Suc t)) (s + of_nat (n + Suc t)) k)
      (d + of_nat (n + t)) (s + of_nat (n + t)) 1 = memmove m (d + of_nat (n + t)) (s + of_nat (n + t)) (Suc k)"
    using memmove_down [of s d "n + t" 1 k m] Suc.prems by simp
  then show ?case
    using Suc.IH [of "Suc k"] Suc.prems by (simp only: bytes_bwd.simps byte_move p) simp
qed simp

lemma words_bwd_memmove:
  "s < d \<Longrightarrow> unat d + (n + 4 * t + k) \<le> 2 ^ 64 \<Longrightarrow>
    words_bwd t (memmove m (d + of_nat (n + 4 * t)) (s + of_nat (n + 4 * t)) k)
      (d + of_nat (n + 4 * t)) (s + of_nat (n + 4 * t)) =
    memmove m (d + of_nat n) (s + of_nat n) (4 * t + k)"
proof (induction t arbitrary: k)
  case (Suc t)
  have p: "d + of_nat (n + 4 * Suc t) - 4 = d + of_nat (n + 4 * t)"
    "s + of_nat (n + 4 * Suc t) - 4 = s + of_nat (n + 4 * t)"
    by simp_all
  have "memmove (memmove m (d + of_nat (n + 4 * Suc t)) (s + of_nat (n + 4 * Suc t)) k)
      (d + of_nat (n + 4 * t)) (s + of_nat (n + 4 * t)) 4 =
      memmove m (d + of_nat (n + 4 * t)) (s + of_nat (n + 4 * t)) (4 + k)"
    using memmove_down [of s d "n + 4 * t" 4 k m] Suc.prems by (simp add: ac_simps)
  then show ?case
    using Suc.IH [of "4 + k"] Suc.prems by (simp only: words_bwd.simps word_move p) (simp add: ac_simps)
qed simp

text \<open>The alignment prefix is never longer than the copy.\<close>

lemma low_bits: "unat (x AND wmask) = unat x mod 4" for x :: u64
proof -
  have "x AND wmask = take_bit 2 x"
    by (simp add: wmask_def take_bit_eq_mask mask_eq_exp_minus_1)
  then show ?thesis
    by (simp add: take_bit_eq_mod unat_mod_distrib)
qed

lemma align_le:
  "align_fwd d s len \<le> len" "align_bwd d s len \<le> len"
  by (auto simp: align_fwd_def align_bwd_def low_bits wsize_def)

lemma my_plugin_memcpy_memmove:
  assumes "unat d + len \<le> 2 ^ 64" "unat s + len \<le> 2 ^ 64"
  shows "my_plugin_memcpy m d s len = memmove m d s len"
proof -
  consider "len = 0 \<or> d = s" | "d < s" | "len \<noteq> 0" "s < d"
    by (meson linorder_neqE)
  then show ?thesis
  proof cases
    case 1
    then show ?thesis
      by (auto simp: my_plugin_memcpy_def memmove_def)
  next
    case 2
    let ?t = "align_fwd d s len"
    let ?w = "4 * ((len - ?t) div 4)" and ?r = "(len - ?t) mod 4"
    have sum: "?t + ?w + ?r = len"
      using align_le(1) [of d s len] by presburger
    have "bytes_fwd ?t m d s = memmove m d s ?t"
      using bytes_fwd_memmove [of d s 0 ?t m] 2 assms sum by simp
    moreover have "words_fwd (?w div 4) (memmove m d s ?t) (d + of_nat ?t) (s + of_nat ?t) =
        memmove m d s (?t + ?w)"
      using words_fwd_memmove [of d s ?t "?w div 4" m] 2 assms sum by simp
    moreover have "bytes_fwd ?r (memmove m d s (?t + ?w)) (d + of_nat (?t + ?w)) (s + of_nat (?t + ?w)) =
        memmove m d s len"
      using bytes_fwd_memmove [of d s "?t + ?w" ?r m] 2 assms sum by simp
    moreover have "d \<noteq> s"
      using 2 by simp
    ultimately show ?thesis
      using 2 by (simp add: my_plugin_memcpy_def Let_def wsize_def ac_simps)
  next
    case 3
    let ?d = "\<lambda>k. d + of_nat k" and ?s = "\<lambda>k. s + of_nat k"
    define t where "t = align_bwd (?d len) (?s len) len"
    define w where "w = 4 * ((len - t) div 4)"
    define r where "r = (len - t) mod 4"
    have sum: "r + w + t = len" "r + w = len - t"
      using align_le(2) [of "?d len" "?s len" len] unfolding t_def [symmetric] w_def r_def by presburger+
    have "(of_nat len :: u64) = of_nat (r + w) + of_nat t"
      using sum(1) by (metis of_nat_add)
    then have ends: "?d len - of_nat t = ?d (r + w)" "?s len - of_nat t = ?s (r + w)"
      "?d (r + w) - of_nat w = ?d r" "?s (r + w) - of_nat w = ?s r"
      by simp_all
    have w: "(len - t) div 4 = w div 4" "4 * (w div 4) = w"
      by (simp_all add: w_def)
    have "bytes_bwd t m (?d len) (?s len) = memmove m (?d (r + w)) (?s (r + w)) t"
      using bytes_bwd_memmove [of s d "r + w" t 0 m] 3 assms sum by simp
    moreover have "words_bwd (w div 4) (memmove m (?d (r + w)) (?s (r + w)) t) (?d (r + w)) (?s (r + w)) =
        memmove m (?d r) (?s r) (w + t)"
      using words_bwd_memmove [of s d r "w div 4" t m] 3 assms sum w by simp
    moreover have "bytes_bwd r (memmove m (?d r) (?s r) (w + t)) (?d r) (?s r) = memmove m d s len"
      using bytes_bwd_memmove [of s d 0 r "w + t" m] 3 assms sum(1) by (simp add: add.assoc)
    moreover have "d \<noteq> s" "\<not> d < s"
      using 3 by auto
    ultimately show ?thesis
      using 3 ends w
      by (simp only: my_plugin_memcpy_def Let_def wsize_def flip: t_def r_def w_def) simp
  qed
qed

section \<open>Filling\<close>

fun fill_words :: "nat \<Rightarrow> memory \<Rightarrow> u64 \<Rightarrow> u64 \<Rightarrow> memory" where
  "fill_words 0 m ws wc = m"
| "fill_words (Suc n) m ws wc = fill_words n (store_le m ws 4 wc) (ws + 4) wc"

text \<open>The four copies of the low byte of \<open>c\<close>.\<close>

definition spread :: "u32 \<Rightarrow> u32" where
  "spread c = (let wc = c AND 0xFF in wc OR (push_bit 8 wc OR push_bit 16 wc OR push_bit 24 wc))"

definition my_plugin_memset :: "memory \<Rightarrow> u64 \<Rightarrow> u32 \<Rightarrow> nat \<Rightarrow> memory" where
  "my_plugin_memset m dest c n =
     (let ch = (ucast c :: u8); s = (\<lambda>i. dest + of_nat i) in
      if n = 0 then m
      else let m = m(s (n - 1) := ch, s 0 := ch) in
      if n \<le> 2 then m
      else let m = m(s (n - 2) := ch, s 1 := ch); m = m(s (n - 3) := ch, s 2 := ch) in
      if n \<le> 6 then m
      else let m = m(s (n - 4) := ch, s 3 := ch) in
      if n \<le> 8 then m
      else let k = unat ((- dest) AND 3) in
        fill_words ((n - k) div 4) m (dest + of_nat k) (zext32 (spread c)))"

text \<open>Memory with the bytes at the offsets \<open>I\<close> from \<open>d\<close> set.\<close>

definition filled :: "memory \<Rightarrow> u64 \<Rightarrow> nat set \<Rightarrow> u8 \<Rightarrow> memory" where
  "filled m d I ch = (\<lambda>x. if unat (x - d) \<in> I then ch else m x)"

lemma filled_upd:
  assumes "i < 2 ^ 64"
  shows "(filled m d I ch)(d + of_nat i := ch) = filled m d (insert i I) ch"
proof -
  have "x = d + of_nat i \<longleftrightarrow> unat (x - d) = i" for x
    using assms by (auto simp: unat_of_nat)
  then show ?thesis
    by (auto simp: filled_def fun_eq_iff)
qed

lemma filled_empty: "m = filled m d {} ch"
  by (simp add: filled_def)

lemma spread_bytes:
  "(ucast (zext32 (spread c)) :: u8) = ucast c"
  "(ucast (drop_bit 8 (zext32 (spread c))) :: u8) = ucast c"
  "(ucast (drop_bit 16 (zext32 (spread c))) :: u8) = ucast c"
  "(ucast (drop_bit 24 (zext32 (spread c))) :: u8) = ucast c"
proof -
  have low: "c AND 0xFF = take_bit 8 c"
    by (simp add: take_bit_eq_mask mask_eq_exp_minus_1)
  show "(ucast (zext32 (spread c)) :: u8) = ucast c"
    "(ucast (drop_bit 8 (zext32 (spread c))) :: u8) = ucast c"
    "(ucast (drop_bit 16 (zext32 (spread c))) :: u8) = ucast c"
    "(ucast (drop_bit 24 (zext32 (spread c))) :: u8) = ucast c"
    unfolding zext32_def spread_def Let_def low
    by (rule bit_word_eqI; auto simp: bit_simps)+
qed

lemma store_spread:
  assumes "k + 4 \<le> 2 ^ 64"
  shows "store_le (filled m d I (ucast c)) (d + of_nat k) 4 (zext32 (spread c)) =
    filled m d (I \<union> {k..<k + 4}) (ucast c)"
proof -
  have a: "d + of_nat k + 1 = d + of_nat (k + 1)" "d + of_nat (k + 1) + 1 = d + of_nat (k + 2)"
    "d + of_nat (k + 2) + 1 = d + of_nat (k + 3)"
    by simp_all
  have lt: "k < 2 ^ 64" "k + 1 < 2 ^ 64" "k + 2 < 2 ^ 64" "k + 3 < 2 ^ 64"
    using assms by simp_all
  have "store_le m a 4 v = m(a := ucast v, a + 1 := ucast (drop_bit 8 v),
      a + 1 + 1 := ucast (drop_bit 16 v), a + 1 + 1 + 1 := ucast (drop_bit 24 v))" for m :: memory and a v
    by (simp add: numeral_eq_Suc drop_bit_Suc)
  then have "store_le (filled m d I (ucast c)) (d + of_nat k) 4 (zext32 (spread c)) =
      filled m d (insert (k + 3) (insert (k + 2) (insert (k + 1) (insert k I)))) (ucast c)"
    by (simp only: spread_bytes a filled_upd [OF lt(1)] filled_upd [OF lt(2)] filled_upd [OF lt(3)]
        filled_upd [OF lt(4)])
  moreover have "insert (k + 3) (insert (k + 2) (insert (k + 1) (insert k I))) = I \<union> {k..<k + 4}"
    by auto
  ultimately show ?thesis
    by simp
qed

lemma fill_words_filled:
  "k + 4 * n \<le> 2 ^ 64 \<Longrightarrow>
    fill_words n (filled m d I (ucast c)) (d + of_nat k) (zext32 (spread c)) =
    filled m d (I \<union> {k..<k + 4 * n}) (ucast c)"
proof (induction n arbitrary: k I)
  case (Suc n)
  have nxt: "d + of_nat k + 4 = d + of_nat (k + 4)"
    by simp
  have join: "I \<union> {k..<k + 4} \<union> {k + 4..<k + 4 + 4 * n} = I \<union> {k..<k + 4 * Suc n}"
    by auto
  have "k + 4 \<le> 2 ^ 64" "k + 4 + 4 * n \<le> 2 ^ 64"
    using Suc.prems by simp_all
  then show ?case
    using Suc.IH [of "k + 4" "I \<union> {k..<k + 4}"]
    by (simp only: fill_words.simps store_spread nxt join)
qed simp

definition memset :: "memory \<Rightarrow> u64 \<Rightarrow> u8 \<Rightarrow> nat \<Rightarrow> memory" where
  "memset m d ch n = (\<lambda>x. if in_range d n x then ch else m x)"

lemma memset_filled: "memset m d ch n = filled m d {..<n} ch"
  by (simp add: memset_def filled_def)

text \<open>The offsets written by the head and tail assignments, and by the word loop.\<close>

lemma covered_2: "0 < n \<Longrightarrow> n \<le> 2 \<Longrightarrow> {0, n - 1} = {..<n}" for n :: nat
  by (auto simp: numeral_eq_Suc le_Suc_eq)

lemma covered_6:
  fixes n :: nat
  assumes "2 < n" "n \<le> 6"
  shows "{2, n - 3, 1, n - 2, 0, n - 1} = {..<n}"
proof -
  have "n = 3 \<or> n = 4 \<or> n = 5 \<or> n = 6" 
    using assms by linarith
  then show ?thesis
    by (elim disjE) (simp_all add: lessThan_nat_numeral lessThan_Suc numeral_eq_Suc insert_commute)
qed

lemma covered_8:
  fixes n :: nat
  assumes "6 < n" "n \<le> 8"
  shows "{3, n - 4, 2, n - 3, 1, n - 2, 0, n - 1} = {..<n}"
proof -
  have "n = 7 \<or> n = 8" 
    using assms by linarith
  then show ?thesis
    by (elim disjE) (simp_all add: lessThan_nat_numeral lessThan_Suc numeral_eq_Suc insert_commute)
qed

lemma covered_more:
  fixes n :: nat
  assumes "8 < n" "n - 3 \<le> hi" "hi \<le> n" "k < 4"
  shows "{3, n - 4, 2, n - 3, 1, n - 2, 0, n - 1} \<union> {k..<hi} = {..<n}"
proof (intro equalityI subsetI)
  fix x assume "x \<in> {3, n - 4, 2, n - 3, 1, n - 2, 0, n - 1} \<union> {k..<hi}"
  then show "x \<in> {..<n}" using assms by auto
next
  fix x assume x: "x \<in> {..<n}"
  consider "x < 4" | "n - 4 \<le> x" | "k \<le> x \<and> x < hi" using assms by linarith
  then show "x \<in> {3, n - 4, 2, n - 3, 1, n - 2, 0, n - 1} \<union> {k..<hi}"
  proof cases
    case 1
    then have "x = 0 \<or> x = 1 \<or> x = 2 \<or> x = 3" by linarith
    then show ?thesis
    by auto
  next
    case 2
    then have "x = n - 4 \<or> x = n - 3 \<or> x = n - 2 \<or> x = n - 1" using x by auto
    then show ?thesis
    by auto
  qed auto
qed

lemma my_plugin_memset_memset:
  assumes n: "n < 2 ^ 64"
  shows "my_plugin_memset m d c n = memset m d (ucast c) n"
proof -
  let ?ch = "ucast c :: u8" and ?s = "\<lambda>i. d + of_nat i" and ?F = "\<lambda>I. filled m d I (ucast c)"
  have upd: "(?F I)(?s i := ?ch, ?s j := ?ch) = ?F (insert j (insert i I))" if "i < 2 ^ 64" "j < 2 ^ 64" for I i j
    using that by (simp only: filled_upd)
  let ?A = "{0, n - 1}" and ?B = "{2, n - 3, 1, n - 2, 0, n - 1}"
  let ?C = "{3, n - 4, 2, n - 3, 1, n - 2, 0, n - 1}"
  have m1: "m(?s (n - 1) := ?ch, ?s 0 := ?ch) = ?F ?A"
    using n upd [of "n - 1" 0 "{}"] filled_empty [of m d ?ch] by simp
  have lt: "n - 1 < 2 ^ 64" "n - 2 < 2 ^ 64" "n - 3 < 2 ^ 64" "n - 4 < 2 ^ 64"
    "(1::nat) < 2 ^ 64" "(2::nat) < 2 ^ 64" "(3::nat) < 2 ^ 64"
    using n by simp_all
  have m2: "(?F ?A)(?s (n - 2) := ?ch, ?s 1 := ?ch, ?s (n - 3) := ?ch, ?s 2 := ?ch) = ?F ?B"
    by (simp only: upd [OF lt(2,5)] upd [OF lt(3,6)])
  have m3: "(?F ?B)(?s (n - 4) := ?ch, ?s 3 := ?ch) = ?F ?C"
    by (simp only: upd [OF lt(4,7)])
  define k where "k = unat ((- d) AND 3)"
  have k: "k < 4"
    using low_bits [of "- d"] by (simp add: k_def wmask_def)
  have m4: "fill_words ((n - k) div 4) (?F ?C) (?s k) (zext32 (spread c)) =
      ?F (?C \<union> {k..<k + 4 * ((n - k) div 4)})" if "8 < n"
    using that n k by (intro fill_words_filled) simp
  have hi: "n - 3 \<le> k + 4 * ((n - k) div 4)" "k + 4 * ((n - k) div 4) \<le> n" if "8 < n"
    using k that div_mult_mod_eq [of "n - k" 4] mod_less_divisor [of 4 "n - k"] by linarith+
  have body: "my_plugin_memset m d c n = (if n \<le> 2 then ?F ?A else if n \<le> 6 then ?F ?B
      else if n \<le> 8 then ?F ?C else fill_words ((n - k) div 4) (?F ?C) (?s k) (zext32 (spread c)))" if "0 < n"
    using that unfolding my_plugin_memset_def Let_def m1 m2 m3 k_def [symmetric] by simp
  consider "n = 0" | "0 < n" "n \<le> 2" | "2 < n" "n \<le> 6" | "6 < n" "n \<le> 8" | "8 < n"
    by linarith
  then show ?thesis
  proof cases
    case 1
    then show ?thesis
      by (simp add: my_plugin_memset_def memset_def)
  next
    case 5
    then show ?thesis
      using m4 covered_more [OF 5 hi k] body by (simp add: memset_filled)
  qed (use covered_2 [of n] covered_6 [of n] covered_8 [of n] body in \<open>simp_all add: memset_filled\<close>)
qed

section \<open>The pool\<close>

record plugin_dynamic_memory_pool =
  memory_start :: u64
  memory_current_end :: u64
  memory_max_size :: u64

text \<open>
  The difference of the two pointers is converted to \<open>size_t\<close> for the comparison, so a shrinking
  request below the start is refused as well. \<^const>\<open>None\<close> is \<open>NULL\<close>.
\<close>

definition context_sbrk ::
  "plugin_dynamic_memory_pool \<Rightarrow> u64 \<Rightarrow> plugin_dynamic_memory_pool \<times> u64 option" where
  "context_sbrk ctx increment =
     (if memory_max_size ctx < memory_current_end ctx + increment - memory_start ctx then (ctx, None)
      else if increment = 0 then (ctx, None)
      else (ctx\<lparr>memory_current_end := memory_current_end ctx + increment\<rparr>, Some (memory_current_end ctx)))"

definition plugin_memory_init :: "u64 \<Rightarrow> u64 \<Rightarrow> plugin_dynamic_memory_pool" where
  "plugin_memory_init mem memory_size =
     \<lparr>memory_start = mem, memory_current_end = mem, memory_max_size = memory_size\<rparr>"

definition pool_ok :: "plugin_dynamic_memory_pool \<Rightarrow> bool" where
  "pool_ok ctx \<longleftrightarrow> memory_current_end ctx - memory_start ctx \<le> memory_max_size ctx"

text \<open>Requests made one after another, with what each returns.\<close>

fun sbrks :: "plugin_dynamic_memory_pool \<Rightarrow> u64 list \<Rightarrow> plugin_dynamic_memory_pool \<times> u64 option list" where
  "sbrks ctx [] = (ctx, [])"
| "sbrks ctx (i # is) =
     (let (ctx1, r) = context_sbrk ctx i; (ctx2, rs) = sbrks ctx1 is in (ctx2, r # rs))"

lemma pool_ok_init [simp]: "pool_ok (plugin_memory_init mem sz)"
  by (simp add: pool_ok_def plugin_memory_init_def)

lemma context_sbrk_pool:
  assumes "pool_ok ctx" and "context_sbrk ctx i = (ctx', r)"
  shows "pool_ok ctx'" "memory_start ctx' = memory_start ctx" "memory_max_size ctx' = memory_max_size ctx"
    "r = Some p \<Longrightarrow> p = memory_current_end ctx \<and> memory_current_end ctx' = p + i"
  using assms by (auto simp: context_sbrk_def pool_ok_def not_less split: if_splits)

lemma sbrks_pool:
  "pool_ok ctx \<Longrightarrow> sbrks ctx is = (ctx', rs) \<Longrightarrow>
    pool_ok ctx' \<and> memory_start ctx' = memory_start ctx \<and> memory_max_size ctx' = memory_max_size ctx \<and>
    (\<forall>p. Some p \<in> set rs \<longrightarrow> p - memory_start ctx \<le> memory_max_size ctx)"
proof (induction "is" arbitrary: ctx ctx' rs)
  case (Cons i "is")
  obtain ctx1 r where one: "context_sbrk ctx i = (ctx1, r)"
    by fastforce
  obtain ctx2 rs' where rest: "sbrks ctx1 is = (ctx2, rs')"
    by fastforce
  note p = context_sbrk_pool [OF Cons.prems(1) one]
  have "\<forall>q. r = Some q \<longrightarrow> q - memory_start ctx \<le> memory_max_size ctx"
    using Cons.prems(1) p(4) by (auto simp: pool_ok_def)
  then show ?case
    using Cons.IH [OF p(1) rest] Cons.prems(2) one rest p(2,3) by (auto simp: Let_def)
qed simp

section \<open>Properties\<close>

text \<open>
  C26. \<open>my_plugin_memcpy\<close> copies like \<open>memmove\<close>: for any alignment and any overlap of two ranges that do
  not wrap, the destination holds afterwards the bytes the source held before, and nothing else changes.
\<close>

theorem memcpy_handles_overlap:
  assumes "unat dst + len \<le> 2 ^ 64" and "unat src + len \<le> 2 ^ 64"
  shows "my_plugin_memcpy m dst src len = memmove m dst src len"
  by (rule my_plugin_memcpy_memmove [OF assms])

theorem memcpy_handles_overlap_witness:
  "my_plugin_memcpy (\<lambda>x. ucast x) 0x1001 0x1003 13 = memmove (\<lambda>x. ucast x) 0x1001 0x1003 13"
  using memcpy_handles_overlap [of "0x1001" 13 "0x1003" "\<lambda>x. ucast x"] by simp

text \<open>
  \<open>my_plugin_memset\<close> sets exactly the \<open>n\<close> bytes from \<open>dest\<close> on to the low byte of \<open>c\<close>, although it
  writes them from both ends and then by words.
\<close>

lemma memset_fills_range:
  assumes "n < 2 ^ 64"
  shows "my_plugin_memset m dest c n = memset m dest (ucast c) n"
  by (rule my_plugin_memset_memset [OF assms])

text \<open>
  However the allocator asks for memory, growing or shrinking, \<open>context_sbrk\<close> keeps the end of the
  pool between its start and its maximal size, and every address it hands out lies there.
\<close>

lemma sbrk_stays_in_pool:
  assumes "sbrks (plugin_memory_init mem memory_size) increments = (ctx, results)"
  shows "memory_current_end ctx - memory_start ctx \<le> memory_size \<and> memory_start ctx = mem \<and>
    (\<forall>p. Some p \<in> set results \<longrightarrow> p - mem \<le> memory_size)"
  using sbrks_pool [OF pool_ok_init assms] by (auto simp: pool_ok_def plugin_memory_init_def)

end
