(* ===== verification/Smartlist.thy ===== *)
theory Smartlist
  imports Trunnel "HOL-Library.Multiset"
begin

text \<open>
  Smartlists, the resizable arrays of pointers that the rest of the program keeps its lists in
  (\<^verbatim>\<open>src/lib/smartlist_core/smartlist_core.c\<close>): the array with its unused slots, the growth of the capacity,
  and what each operation does to the list of the elements.
\<close>

type_synonym ptr = nat

abbreviation NULL :: ptr where
  "NULL \<equiv> 0"

record smartlist =
  sl_list :: "ptr list"
  num_used :: nat
  capacity :: nat

text \<open>A failed \<open>raw_assert\<close>, or a loop that does not end.\<close>

datatype sl_fault = Sl_Assert | Sl_Endless

definition SMARTLIST_DEFAULT_CAPACITY :: nat where "SMARTLIST_DEFAULT_CAPACITY = 16"
definition MAX_CAPACITY :: nat where "MAX_CAPACITY = 2147483647"

text \<open>Overwriting a part of the array: \<open>memcpy\<close>, \<open>memmove\<close> and \<open>memset\<close> to \<open>NULL\<close>.\<close>

definition put_range :: "nat \<Rightarrow> 'a list \<Rightarrow> 'a list \<Rightarrow> 'a list" where
  "put_range i ys xs = take i xs @ ys @ drop (i + length ys) xs"

definition clear_range :: "nat \<Rightarrow> nat \<Rightarrow> ptr list \<Rightarrow> ptr list" where
  "clear_range i n xs = put_range i (replicate n NULL) xs"

section \<open>Operations\<close>

definition smartlist_new :: smartlist where
  "smartlist_new = \<lparr>sl_list = replicate SMARTLIST_DEFAULT_CAPACITY NULL, num_used = 0,
     capacity = SMARTLIST_DEFAULT_CAPACITY\<rparr>"

definition smartlist_clear :: "smartlist \<Rightarrow> smartlist" where
  "smartlist_clear sl = sl\<lparr>sl_list := clear_range 0 (num_used sl) (sl_list sl), num_used := 0\<rparr>"

partial_function (option) double_until :: "nat \<Rightarrow> nat \<Rightarrow> nat option" where
  "double_until n higher = (if higher < n then double_until n (2 * higher) else Some higher)"

declare double_until.simps [code]

definition smartlist_ensure_capacity :: "smartlist \<Rightarrow> nat \<Rightarrow> sl_fault + smartlist" where
  "smartlist_ensure_capacity sl n =
     (if MAX_CAPACITY < n then Inl Sl_Assert
      else if n \<le> capacity sl then Inr sl
      else case (if MAX_CAPACITY div 2 < n then Some MAX_CAPACITY else double_until n (capacity sl)) of
        None \<Rightarrow> Inl Sl_Endless
      | Some higher \<Rightarrow>
          Inr (sl\<lparr>sl_list := sl_list sl @ replicate (higher - capacity sl) NULL, capacity := higher\<rparr>))"

definition smartlist_grow :: "smartlist \<Rightarrow> nat \<Rightarrow> sl_fault + smartlist" where
  "smartlist_grow sl new_size =
     and_then (smartlist_ensure_capacity sl new_size) (\<lambda>sl.
       Inr (if num_used sl < new_size
            then sl\<lparr>sl_list := clear_range (num_used sl) (new_size - num_used sl) (sl_list sl), num_used := new_size\<rparr>
            else sl))"

definition smartlist_add :: "smartlist \<Rightarrow> ptr \<Rightarrow> sl_fault + smartlist" where
  "smartlist_add sl element =
     and_then (smartlist_ensure_capacity sl (num_used sl + 1)) (\<lambda>sl.
       Inr (sl\<lparr>sl_list := (sl_list sl)[num_used sl := element], num_used := num_used sl + 1\<rparr>))"

definition smartlist_add_all :: "smartlist \<Rightarrow> smartlist \<Rightarrow> sl_fault + smartlist" where
  "smartlist_add_all s1 s2 =
     (let new_size = num_used s1 + num_used s2 in
      and_then (smartlist_ensure_capacity s1 new_size) (\<lambda>s1.
        Inr (s1\<lparr>sl_list := put_range (num_used s1) (take (num_used s2) (sl_list s2)) (sl_list s1),
               num_used := new_size\<rparr>)))"

text \<open>The slot \<open>i\<close> gets the last element.\<close>

definition swap_end :: "nat \<Rightarrow> smartlist \<Rightarrow> smartlist" where
  "swap_end i sl =
     (let n = num_used sl - 1 in
      sl\<lparr>sl_list := (sl_list sl)[i := sl_list sl ! n, n := NULL], num_used := n\<rparr>)"

function remove_loop :: "ptr \<Rightarrow> nat \<Rightarrow> smartlist \<Rightarrow> smartlist" where
  "remove_loop element i sl =
     (if num_used sl \<le> i then sl
      else if sl_list sl ! i = element then remove_loop element i (swap_end i sl)
      else remove_loop element (Suc i) sl)"
  by pat_completeness auto

termination
  by (relation "measure (\<lambda>(element, i, sl). num_used sl - i)") (auto simp: swap_end_def Let_def)

declare remove_loop.simps [simp del]

definition smartlist_remove :: "smartlist \<Rightarrow> ptr \<Rightarrow> smartlist" where
  "smartlist_remove sl element = (if element = NULL then sl else remove_loop element 0 sl)"

function keeporder_loop :: "ptr \<Rightarrow> nat \<Rightarrow> nat \<Rightarrow> nat \<Rightarrow> smartlist \<Rightarrow> smartlist" where
  "keeporder_loop element num_used_orig i j sl =
     (if num_used_orig \<le> j then sl
      else if sl_list sl ! j = element
      then keeporder_loop element num_used_orig i (Suc j) (sl\<lparr>num_used := num_used sl - 1\<rparr>)
      else keeporder_loop element num_used_orig (Suc i) (Suc j) (sl\<lparr>sl_list := (sl_list sl)[i := sl_list sl ! j]\<rparr>))"
  by pat_completeness auto

termination
  by (relation "measure (\<lambda>(element, n, i, j, sl). n - j)") auto

declare keeporder_loop.simps [simp del]

definition smartlist_remove_keeporder :: "smartlist \<Rightarrow> ptr \<Rightarrow> smartlist" where
  "smartlist_remove_keeporder sl element =
     (if element = NULL then sl
      else let s = keeporder_loop element (num_used sl) 0 0 sl in
        s\<lparr>sl_list := clear_range (num_used s) (num_used sl - num_used s) (sl_list s)\<rparr>)"

definition smartlist_pop_last :: "smartlist \<Rightarrow> smartlist \<times> ptr" where
  "smartlist_pop_last sl =
     (if num_used sl \<noteq> 0
      then let n = num_used sl - 1 in
        (sl\<lparr>sl_list := (sl_list sl)[n := NULL], num_used := n\<rparr>, sl_list sl ! n)
      else (sl, NULL))"

function pos_loop :: "ptr \<Rightarrow> nat \<Rightarrow> smartlist \<Rightarrow> int" where
  "pos_loop element i sl =
     (if num_used sl \<le> i then -1
      else if sl_list sl ! i = element then int i
      else pos_loop element (Suc i) sl)"
  by pat_completeness auto

termination
  by (relation "measure (\<lambda>(element, i, sl). num_used sl - i)") auto

declare pos_loop.simps [simp del]

definition smartlist_contains :: "smartlist \<Rightarrow> ptr \<Rightarrow> bool" where
  "smartlist_contains sl element \<longleftrightarrow> pos_loop element 0 sl \<noteq> -1"

definition smartlist_pos :: "smartlist \<Rightarrow> ptr \<Rightarrow> int" where
  "smartlist_pos sl element = pos_loop element 0 sl"

definition smartlist_del :: "smartlist \<Rightarrow> int \<Rightarrow> sl_fault + smartlist" where
  "smartlist_del sl idx =
     (if idx < 0 \<or> int (num_used sl) \<le> idx then Inl Sl_Assert else Inr (swap_end (nat idx) sl))"

definition smartlist_del_keeporder :: "smartlist \<Rightarrow> int \<Rightarrow> sl_fault + smartlist" where
  "smartlist_del_keeporder sl idx =
     (if idx < 0 \<or> int (num_used sl) \<le> idx then Inl Sl_Assert
      else let i = nat idx; n = num_used sl - 1;
               xs = (if i < n then put_range i (take (n - i) (drop (i + 1) (sl_list sl))) (sl_list sl) else sl_list sl)
           in Inr (sl\<lparr>sl_list := xs[n := NULL], num_used := n\<rparr>))"

definition smartlist_insert :: "smartlist \<Rightarrow> int \<Rightarrow> ptr \<Rightarrow> sl_fault + smartlist" where
  "smartlist_insert sl idx val =
     (if idx < 0 \<or> int (num_used sl) < idx then Inl Sl_Assert
      else if idx = int (num_used sl) then smartlist_add sl val
      else and_then (smartlist_ensure_capacity sl (num_used sl + 1)) (\<lambda>sl.
        let i = nat idx;
            xs = put_range (i + 1) (take (num_used sl - i) (drop i (sl_list sl))) (sl_list sl)
        in Inr (sl\<lparr>num_used := num_used sl + 1, sl_list := xs[i := val]\<rparr>)))"

section \<open>The list of the elements\<close>

definition contents :: "smartlist \<Rightarrow> ptr list" where
  "contents sl = take (num_used sl) (sl_list sl)"

text \<open>The unused slots hold \<open>NULL\<close>, which \<open>smartlist_grow\<close> relies on.\<close>

definition sl_ok :: "smartlist \<Rightarrow> bool" where
  "sl_ok sl \<longleftrightarrow> length (sl_list sl) = capacity sl \<and> num_used sl \<le> capacity sl \<and> 0 < capacity sl \<and>
     capacity sl \<le> MAX_CAPACITY \<and> drop (num_used sl) (sl_list sl) = replicate (capacity sl - num_used sl) NULL"

text \<open>What \<open>smartlist_remove\<close> does to the list: the place of a removed element is taken by the last one.\<close>

function remove_swap :: "'a \<Rightarrow> 'a list \<Rightarrow> 'a list" where
  "remove_swap x [] = []"
| "remove_swap x (y # ys) =
     (if y = x then (if ys = [] then [] else remove_swap x (last ys # butlast ys)) else y # remove_swap x ys)"
  by pat_completeness auto

termination
  by (relation "measure (length \<circ> snd)") auto

lemma mset_remove_swap: "mset (remove_swap x xs) = filter_mset (\<lambda>y. y \<noteq> x) (mset xs)"
proof (induction x xs rule: remove_swap.induct)
  case (2 x y ys)
  have "mset (last ys # butlast ys) = mset ys" if "ys \<noteq> []"
    using that by (metis append_butlast_last_id mset.simps(2) mset_append union_mset_add_mset_right add.right_neutral mset.simps(1))
  then show ?case
    using 2 by (simp del: remove_swap.simps add: remove_swap.simps(2))
qed simp

lemma set_remove_swap: "set (remove_swap x xs) = set xs - {x}"
  using arg_cong [OF mset_remove_swap [of x xs], of set_mset] by auto

lemma distinct_remove_swap: "distinct xs \<Longrightarrow> distinct (remove_swap x xs)"
  using mset_eq_imp_distinct_iff [of "remove_swap x xs" "filter (\<lambda>y. y \<noteq> x) xs"] by (simp add: mset_remove_swap)

lemma length_put_range [simp]: "i + length ys \<le> length xs \<Longrightarrow> length (put_range i ys xs) = length xs"
  by (simp add: put_range_def)

lemma double_until_returns:
  assumes "0 < higher"
  shows "\<exists>k. double_until n higher = Some k \<and> n \<le> k \<and> higher \<le> k \<and> (n \<le> higher \<longrightarrow> k = higher) \<and> (higher < n \<longrightarrow> k < 2 * n)"
  using assms
proof (induction "n - higher" arbitrary: higher rule: less_induct)
  case less
  show ?case
  proof (cases "higher < n")
    case True
    obtain k where k: "double_until n (2 * higher) = Some k" "n \<le> k" "2 * higher \<le> k"
        "n \<le> 2 * higher \<longrightarrow> k = 2 * higher" "2 * higher < n \<longrightarrow> k < 2 * n"
      using less.hyps [of "2 * higher"] diff_less_mono2 [of higher "2 * higher" n] less.prems True by auto
    have "double_until n higher = Some k"
      using True k(1) by (subst double_until.simps) simp
    moreover have "k < 2 * n"
      using k True by (cases "n \<le> 2 * higher") auto
    ultimately show ?thesis
      using k True by auto
  next
    case False
    then show ?thesis
      using less.prems by (subst double_until.simps) simp
  qed
qed

text \<open>The capacity grows when it has to, and the elements stay; the assertion fails beyond \<open>INT_MAX\<close> only.\<close>

lemma ensure_capacity_ok:
  assumes "sl_ok sl" and "n \<le> MAX_CAPACITY"
  shows "\<exists>sl'. smartlist_ensure_capacity sl n = Inr sl' \<and> sl_ok sl' \<and> n \<le> capacity sl' \<and>
    num_used sl' = num_used sl \<and> contents sl' = contents sl"
proof (cases "n \<le> capacity sl")
  case False
  obtain k where k: "double_until n (capacity sl) = Some k" "n \<le> k" "k < 2 * n"
    using double_until_returns [of "capacity sl" n] assms(1) False by (auto simp: sl_ok_def)
  let ?h = "if MAX_CAPACITY div 2 < n then MAX_CAPACITY else k"
  have h: "n \<le> ?h" "capacity sl \<le> ?h" "?h \<le> MAX_CAPACITY"
    using k assms False by (auto simp: sl_ok_def MAX_CAPACITY_def)
  have "smartlist_ensure_capacity sl n =
      Inr (sl\<lparr>sl_list := sl_list sl @ replicate (?h - capacity sl) NULL, capacity := ?h\<rparr>)"
    using k(1) False assms(2) by (simp add: smartlist_ensure_capacity_def)
  then show ?thesis
    using h assms(1) False by (auto simp: sl_ok_def contents_def simp flip: replicate_add)
qed (use assms in \<open>simp add: smartlist_ensure_capacity_def\<close>)

lemma ensure_capacity_full: "MAX_CAPACITY < n \<Longrightarrow> smartlist_ensure_capacity sl n = Inl Sl_Assert"
  by (simp add: smartlist_ensure_capacity_def)

text \<open>A well-formed smartlist is its elements followed by \<open>NULL\<close>.\<close>

lemma sl_ok_iff:
  "sl_ok sl \<longleftrightarrow> (\<exists>xs. sl_list sl = xs @ replicate (capacity sl - num_used sl) NULL \<and> length xs = num_used sl) \<and>
    num_used sl \<le> capacity sl \<and> 0 < capacity sl \<and> capacity sl \<le> MAX_CAPACITY"
proof
  assume ok: "sl_ok sl"
  then have "sl_list sl = take (num_used sl) (sl_list sl) @ replicate (capacity sl - num_used sl) NULL"
    by (metis sl_ok_def append_take_drop_id)
  then show "(\<exists>xs. sl_list sl = xs @ replicate (capacity sl - num_used sl) NULL \<and> length xs = num_used sl) \<and>
    num_used sl \<le> capacity sl \<and> 0 < capacity sl \<and> capacity sl \<le> MAX_CAPACITY"
    using ok by (intro conjI exI [of _ "take (num_used sl) (sl_list sl)"]) (auto simp: sl_ok_def)
qed (auto simp: sl_ok_def)

lemma sl_okE:
  assumes "sl_ok sl"
  obtains "sl_list sl = contents sl @ replicate (capacity sl - num_used sl) NULL" and "length (contents sl) = num_used sl"
    and "num_used sl \<le> capacity sl" and "0 < capacity sl" and "capacity sl \<le> MAX_CAPACITY"
  using assms by (auto simp: sl_ok_iff contents_def)

text \<open>How the elements of the next state are read off: the array is those elements followed by \<open>NULL\<close>.\<close>

lemma sl_ok_update:
  assumes "sl_list sl = xs @ replicate (capacity sl - length xs) NULL" and "num_used sl = length xs"
    and "length xs \<le> capacity sl" and "0 < capacity sl" and "capacity sl \<le> MAX_CAPACITY"
  shows "sl_ok sl \<and> contents sl = xs"
  using assms by (auto simp: sl_ok_iff contents_def)

lemma smartlist_add_ok:
  assumes "sl_ok sl" and "num_used sl < MAX_CAPACITY"
  shows "\<exists>sl'. smartlist_add sl x = Inr sl' \<and> sl_ok sl' \<and> contents sl' = contents sl @ [x]"
proof -
  obtain s where s: "smartlist_ensure_capacity sl (num_used sl + 1) = Inr s" "sl_ok s" "num_used sl + 1 \<le> capacity s"
    "num_used s = num_used sl" "contents s = contents sl"
    using ensure_capacity_ok [OF assms(1), of "num_used sl + 1"] assms(2) by auto
  let ?s = "s\<lparr>sl_list := (sl_list s)[num_used s := x], num_used := num_used s + 1\<rparr>"
  obtain m where m: "capacity s - num_used s = Suc m"
    using s(3,4) by (metis Suc_diff_Suc Suc_eq_plus1 less_eq_Suc_le)
  have "sl_list ?s = (contents s @ [x]) @ replicate (capacity s - length (contents s @ [x])) NULL"
    using s(2) m by (auto elim!: sl_okE simp: list_update_append)
  then have "sl_ok ?s \<and> contents ?s = contents s @ [x]"
    using s(2,3,4) by (intro sl_ok_update) (auto elim!: sl_okE)
  then show ?thesis
    using s by (simp add: smartlist_add_def)
qed

lemma swap_end_ok:
  assumes "sl_ok sl" and "i < num_used sl"
  shows "sl_ok (swap_end i sl) \<and> num_used (swap_end i sl) = num_used sl - 1 \<and>
    contents (swap_end i sl) = take i (contents sl) @
      (if Suc i = num_used sl then [] else last (contents sl) # butlast (drop (Suc i) (contents sl)))"
proof -
  obtain ys y where ys: "contents sl = ys @ [y]"
    using assms by (metis sl_okE length_0_conv not_less_zero rev_exhaust)
  have len: "length ys = num_used sl - 1" "Suc (length ys) = num_used sl"
    using assms ys by (auto elim!: sl_okE)
  obtain m where m: "replicate (capacity sl - length ys) NULL = NULL # replicate m NULL" "capacity sl - num_used sl = m"
    using assms len by (metis sl_okE Suc_diff_le diff_Suc_Suc replicate_Suc)
  let ?xs = "ys[i := y]"
  have "sl_list (swap_end i sl) = ys[i := y] @ replicate (capacity sl - length ys) NULL"
    using assms ys len m by (auto elim!: sl_okE simp: swap_end_def Let_def nth_append list_update_append not_less list_update_beyond)
  then have "sl_ok (swap_end i sl) \<and> contents (swap_end i sl) = ?xs"
    using assms len by (intro sl_ok_update) (auto elim!: sl_okE simp: swap_end_def Let_def)
  moreover have "?xs = take i (contents sl) @
      (if Suc i = num_used sl then [] else last (contents sl) # butlast (drop (Suc i) (contents sl)))"
    using assms(2) len by (auto simp: ys upd_conv_take_nth_drop butlast_append list_update_beyond)
  ultimately show ?thesis
    by (simp add: swap_end_def Let_def)
qed

lemma remove_loop_ok:
  assumes "sl_ok sl" and "i \<le> num_used sl"
  shows "sl_ok (remove_loop x i sl) \<and>
    contents (remove_loop x i sl) = take i (contents sl) @ remove_swap x (drop i (contents sl))"
  using assms
proof (induction x i sl rule: remove_loop.induct)
  case (1 x i sl)
  have len: "length (contents sl) = num_used sl"
    using "1.prems"(1) by (auto elim!: sl_okE)
  show ?case
  proof (cases "num_used sl \<le> i")
    case True
    then show ?thesis
      using "1.prems" len by (simp add: remove_loop.simps [of x i sl])
  next
    case False
    have nth: "sl_list sl ! i = contents sl ! i"
      using False by (simp add: contents_def)
    have drop_i: "drop i (contents sl) = contents sl ! i # drop (Suc i) (contents sl)"
      using False len by (simp add: Cons_nth_drop_Suc)
    note swap = swap_end_ok [OF "1.prems"(1), of i]
    show ?thesis
    proof (cases "sl_list sl ! i = x")
      case True
      have "sl_ok (remove_loop x i (swap_end i sl)) \<and> contents (remove_loop x i (swap_end i sl)) =
          take i (contents (swap_end i sl)) @ remove_swap x (drop i (contents (swap_end i sl)))"
        using "1.IH"(1) swap False True by (simp add: Suc_leI)
      moreover have "last (contents sl) = last (drop (Suc i) (contents sl))" if "Suc i \<noteq> num_used sl"
        using that False len by (simp add: last_drop)
      ultimately show ?thesis
        using False True swap drop_i nth len by (simp add: remove_loop.simps [of x i sl])
    next
      case neq: False
      have "sl_ok (remove_loop x (Suc i) sl) \<and> contents (remove_loop x (Suc i) sl) =
          take (Suc i) (contents sl) @ remove_swap x (drop (Suc i) (contents sl))"
        using "1.IH"(2) "1.prems"(1) False neq by simp
      then show ?thesis
        using False neq drop_i nth len by (simp add: remove_loop.simps [of x i sl] take_Suc_conv_app_nth)
    qed
  qed
qed

lemma smartlist_remove_ok:
  assumes "sl_ok sl" and "x \<noteq> NULL"
  shows "sl_ok (smartlist_remove sl x) \<and> contents (smartlist_remove sl x) = remove_swap x (contents sl)"
  using remove_loop_ok [OF assms(1), of 0 x] assms(2) by (simp add: smartlist_remove_def)

lemma keeporder_loop_ok:
  assumes "i \<le> j" and "j \<le> n" and "n \<le> length (sl_list sl)" and "num_used sl = n - (j - i)"
  shows "\<exists>s. keeporder_loop x n i j sl = s \<and> capacity s = capacity sl \<and> length (sl_list s) = length (sl_list sl) \<and>
    drop n (sl_list s) = drop n (sl_list sl) \<and>
    take (i + length (filter (\<lambda>y. y \<noteq> x) (drop j (take n (sl_list sl))))) (sl_list s) =
      take i (sl_list sl) @ filter (\<lambda>y. y \<noteq> x) (drop j (take n (sl_list sl))) \<and>
    num_used s = i + length (filter (\<lambda>y. y \<noteq> x) (drop j (take n (sl_list sl))))"
  using assms
proof (induction x n i j sl rule: keeporder_loop.induct)
  case (1 x n i j sl)
  show ?case
  proof (cases "n \<le> j")
    case True
    then show ?thesis
      using "1.prems" by (subst keeporder_loop.simps) simp
  next
    case False
    have drop_j: "drop j (take n (sl_list sl)) = sl_list sl ! j # drop (Suc j) (take n (sl_list sl))"
      using False "1.prems" by (subst Cons_nth_drop_Suc [symmetric]) simp_all
    show ?thesis
    proof (cases "sl_list sl ! j = x")
      case True
      then show ?thesis
        using "1.IH"(1) "1.prems" False drop_j by (simp add: keeporder_loop.simps [of x n i j sl])
    next
      case neq: False
      let ?s = "sl\<lparr>sl_list := (sl_list sl)[i := sl_list sl ! j]\<rparr>"
      have "take (Suc i) (sl_list ?s) = take i (sl_list sl) @ [sl_list sl ! j]"
        using False "1.prems" by (simp add: take_Suc_conv_app_nth)
      moreover have "drop (Suc j) (take n (sl_list ?s)) = drop (Suc j) (take n (sl_list sl))"
        "drop n (sl_list ?s) = drop n (sl_list sl)"
        using "1.prems" False by (simp_all add: take_update_swap drop_update_cancel)
      ultimately show ?thesis
        using "1.IH"(2) "1.prems" False neq drop_j by (simp add: keeporder_loop.simps [of x n i j sl])
    qed
  qed
qed

lemma smartlist_remove_keeporder_ok:
  assumes "sl_ok sl" and "x \<noteq> NULL"
  shows "sl_ok (smartlist_remove_keeporder sl x) \<and>
    contents (smartlist_remove_keeporder sl x) = filter (\<lambda>y. y \<noteq> x) (contents sl)"
proof -
  let ?n = "num_used sl" and ?ys = "filter (\<lambda>y. y \<noteq> x) (contents sl)"
  define s where "s = keeporder_loop x ?n 0 0 sl"
  have s: "capacity s = capacity sl" "length (sl_list s) = capacity sl" "num_used s = length ?ys"
    "take (num_used s) (sl_list s) = ?ys" "drop ?n (sl_list s) = replicate (capacity sl - ?n) NULL"
    using keeporder_loop_ok [of 0 0 ?n sl x] assms(1) by (auto simp: s_def sl_ok_def contents_def)
  have le: "length ?ys \<le> ?n" "?n \<le> capacity sl" "0 < capacity sl" "capacity sl \<le> MAX_CAPACITY"
    using assms(1) by (auto elim!: sl_okE intro: order_trans [OF length_filter_le])
  let ?s = "s\<lparr>sl_list := clear_range (num_used s) (?n - num_used s) (sl_list s)\<rparr>"
  have "sl_list ?s = ?ys @ replicate (?n - length ?ys) NULL @ replicate (capacity sl - ?n) NULL"
    using s le by (simp add: clear_range_def put_range_def)
  also have "\<dots> = ?ys @ replicate (capacity sl - length ?ys) NULL"
    using le by (simp flip: replicate_add)
  finally have "sl_ok ?s \<and> contents ?s = ?ys"
    using s le by (intro sl_ok_update) simp_all
  then show ?thesis
    using assms(2) by (simp add: smartlist_remove_keeporder_def s_def Let_def)
qed

lemma put_range_append:
  "length ys \<le> length zs \<Longrightarrow> put_range (length xs) ys (xs @ zs) = xs @ ys @ drop (length ys) zs"
  by (simp add: put_range_def)

lemma smartlist_new_ok: "sl_ok smartlist_new \<and> contents smartlist_new = []"
  by (intro sl_ok_update) (simp_all add: smartlist_new_def SMARTLIST_DEFAULT_CAPACITY_def MAX_CAPACITY_def)

lemma smartlist_clear_ok:
  assumes "sl_ok sl"
  shows "sl_ok (smartlist_clear sl) \<and> contents (smartlist_clear sl) = []"
proof -
  have "clear_range 0 (num_used sl) (sl_list sl) = replicate (num_used sl) NULL @ replicate (capacity sl - num_used sl) NULL"
    using assms by (auto elim!: sl_okE simp: clear_range_def put_range_def)
  also have "\<dots> = replicate (capacity sl) NULL"
    using assms by (auto elim!: sl_okE simp flip: replicate_add)
  finally show ?thesis
    using assms by (intro sl_ok_update) (auto elim!: sl_okE simp: smartlist_clear_def)
qed

lemma smartlist_grow_ok:
  assumes "sl_ok sl" and "n \<le> MAX_CAPACITY"
  shows "\<exists>sl'. smartlist_grow sl n = Inr sl' \<and> sl_ok sl' \<and>
    contents sl' = contents sl @ replicate (n - num_used sl) NULL"
proof -
  obtain s where s: "smartlist_ensure_capacity sl n = Inr s" "sl_ok s" "n \<le> capacity s"
    "num_used s = num_used sl" "contents s = contents sl"
    using ensure_capacity_ok [OF assms] by auto
  show ?thesis
  proof (cases "num_used s < n")
    case True
    let ?s = "s\<lparr>sl_list := clear_range (num_used s) (n - num_used s) (sl_list s), num_used := n\<rparr>"
    let ?xs = "contents s @ replicate (n - num_used s) NULL"
    have "clear_range (num_used s) (n - num_used s) (sl_list s) = ?xs @ replicate (capacity s - n) NULL"
      using s(2,3) True by (auto elim!: sl_okE simp: clear_range_def put_range_def)
    then have "sl_ok ?s \<and> contents ?s = ?xs"
      using s(2,3) True by (intro sl_ok_update) (auto elim!: sl_okE)
    then show ?thesis
      using s True by (simp add: smartlist_grow_def)
  qed (use s in \<open>simp add: smartlist_grow_def\<close>)
qed

lemma smartlist_add_all_ok:
  assumes "sl_ok sl" and "sl_ok s2" and "num_used sl + num_used s2 \<le> MAX_CAPACITY"
  shows "\<exists>sl'. smartlist_add_all sl s2 = Inr sl' \<and> sl_ok sl' \<and> contents sl' = contents sl @ contents s2"
proof -
  obtain s where s: "smartlist_ensure_capacity sl (num_used sl + num_used s2) = Inr s" "sl_ok s"
    "num_used sl + num_used s2 \<le> capacity s" "num_used s = num_used sl" "contents s = contents sl"
    using ensure_capacity_ok [OF assms(1,3)] by auto
  let ?s = "s\<lparr>sl_list := put_range (num_used s) (contents s2) (sl_list s), num_used := num_used sl + num_used s2\<rparr>"
  have "put_range (num_used s) (contents s2) (sl_list s) = (contents s @ contents s2) @
      replicate (capacity s - (num_used s + num_used s2)) NULL"
    using s(2,3,4) assms(2) by (auto elim!: sl_okE simp: put_range_def)
  then have "sl_ok ?s \<and> contents ?s = contents s @ contents s2"
    using s(2,3,4) assms(2) by (intro sl_ok_update) (auto elim!: sl_okE)
  then show ?thesis
    using s by (simp add: smartlist_add_all_def contents_def [of s2])
qed

lemma smartlist_pop_last_ok:
  assumes "sl_ok sl" and "contents sl \<noteq> []"
  shows "\<exists>sl'. smartlist_pop_last sl = (sl', last (contents sl)) \<and> sl_ok sl' \<and> contents sl' = butlast (contents sl)"
proof -
  have n: "0 < num_used sl"
    using assms by (metis sl_okE length_greater_0_conv)
  then have "fst (smartlist_pop_last sl) = swap_end (num_used sl - 1) sl"
    by (simp add: smartlist_pop_last_def swap_end_def Let_def)
  moreover have len: "length (contents sl) = num_used sl"
    using assms(1) by (rule sl_okE)
  moreover have "sl_list sl ! (num_used sl - 1) = last (contents sl)"
    using n len assms(2) by (simp add: last_conv_nth) (simp add: contents_def)
  ultimately show ?thesis
    using swap_end_ok [OF assms(1), of "num_used sl - 1"] n
    by (cases "smartlist_pop_last sl") (simp add: smartlist_pop_last_def Let_def butlast_conv_take)
qed

lemma pos_loop_ok:
  assumes "sl_ok sl" and "i \<le> num_used sl"
  shows "pos_loop x i sl = (if x \<in> set (drop i (contents sl))
    then int (i + length (takeWhile (\<lambda>y. y \<noteq> x) (drop i (contents sl)))) else -1)"
  using assms
proof (induction x i sl rule: pos_loop.induct)
  case (1 x i sl)
  have len: "length (contents sl) = num_used sl"
    using "1.prems"(1) by (auto elim!: sl_okE)
  show ?case
  proof (cases "num_used sl \<le> i")
    case False
    moreover have "sl_list sl ! i = contents sl ! i"
      using False by (simp add: contents_def)
    moreover have "drop i (contents sl) = contents sl ! i # drop (Suc i) (contents sl)"
      using False len by (simp add: Cons_nth_drop_Suc)
    ultimately show ?thesis
      using "1.IH" "1.prems" by (subst pos_loop.simps) auto
  qed (use len in \<open>simp add: pos_loop.simps [of x i sl]\<close>)
qed

lemma smartlist_contains_ok: "sl_ok sl \<Longrightarrow> smartlist_contains sl x \<longleftrightarrow> x \<in> set (contents sl)"
  by (simp add: smartlist_contains_def pos_loop_ok)

lemma smartlist_pos_ok: "sl_ok sl \<Longrightarrow> smartlist_pos sl x =
    (if x \<in> set (contents sl) then int (length (takeWhile (\<lambda>y. y \<noteq> x) (contents sl))) else -1)"
  by (simp add: smartlist_pos_def pos_loop_ok)

lemma smartlist_del_ok:
  assumes "sl_ok sl" and "0 \<le> idx" and "idx < int (num_used sl)"
  shows "\<exists>sl'. smartlist_del sl idx = Inr sl' \<and> sl_ok sl' \<and>
    contents sl' = butlast ((contents sl)[nat idx := last (contents sl)])"
proof -
  have i: "nat idx < num_used sl" "num_used sl = length (contents sl)"
    using assms by (auto elim!: sl_okE)
  then have "butlast ((contents sl)[nat idx := last (contents sl)]) = take (nat idx) (contents sl) @
      (if Suc (nat idx) = num_used sl then [] else last (contents sl) # butlast (drop (Suc (nat idx)) (contents sl)))"
    by (auto simp: upd_conv_take_nth_drop butlast_append)
  then show ?thesis
    using swap_end_ok [OF assms(1) i(1)] assms(2,3) by (simp add: smartlist_del_def)
qed

text \<open>The general form of a well-formed smartlist.\<close>

definition mk_sl :: "ptr list \<Rightarrow> nat \<Rightarrow> smartlist" where
  "mk_sl xs m = \<lparr>sl_list = xs @ replicate m NULL, num_used = length xs, capacity = length xs + m\<rparr>"

lemma mk_sl_simps [simp]:
  "sl_list (mk_sl xs m) = xs @ replicate m NULL" "num_used (mk_sl xs m) = length xs"
  "capacity (mk_sl xs m) = length xs + m" "contents (mk_sl xs m) = xs"
  "sl_ok (mk_sl xs m) \<longleftrightarrow> 0 < length xs + m \<and> length xs + m \<le> MAX_CAPACITY"
  by (auto simp: mk_sl_def contents_def sl_ok_def)

lemma mk_sl_update:
  "sl\<lparr>sl_list := xs @ replicate m NULL, num_used := length xs\<rparr> = (mk_sl xs m)\<lparr>capacity := capacity sl\<rparr>"
  by (simp add: mk_sl_def)

lemma sl_ok_obtain:
  assumes "sl_ok sl"
  obtains m where "sl = mk_sl (contents sl) m"
proof
  show "sl = mk_sl (contents sl) (capacity sl - num_used sl)"
    using assms unfolding mk_sl_def by (elim sl_okE) simp
qed

lemma del_keeporder_mk:
  "smartlist_del_keeporder (mk_sl (as @ x # bs) m) (int (length as)) = Inr (mk_sl (as @ bs) (Suc m))"
proof (cases bs rule: rev_cases)
  case Nil
  then show ?thesis
    by (simp add: smartlist_del_keeporder_def Let_def mk_sl_def)
next
  case (snoc cs c)
  then show ?thesis
    by (simp add: smartlist_del_keeporder_def Let_def mk_sl_def put_range_def list_update_append)
qed

lemma smartlist_del_keeporder_ok:
  assumes "sl_ok sl" and "0 \<le> idx" and "idx < int (num_used sl)"
  shows "\<exists>sl'. smartlist_del_keeporder sl idx = Inr sl' \<and> sl_ok sl' \<and>
    contents sl' = take (nat idx) (contents sl) @ drop (nat idx + 1) (contents sl)"
proof -
  obtain m where m: "sl = mk_sl (contents sl) m"
    using sl_ok_obtain [OF assms(1)] .
  let ?as = "take (nat idx) (contents sl)" and ?bs = "drop (nat idx + 1) (contents sl)" and ?x = "contents sl ! nat idx"
  have i: "nat idx < length (contents sl)"
    using assms by (auto elim!: sl_okE)
  then have xs: "contents sl = ?as @ ?x # ?bs"
    by (simp add: id_take_nth_drop)
  then have "smartlist_del_keeporder sl idx = Inr (mk_sl (?as @ ?bs) (Suc m))"
    using del_keeporder_mk [of ?as ?x ?bs m] m i assms(2) by simp
  moreover have "sl_ok (mk_sl (?as @ ?bs) (Suc m))"
    using assms(1) m i by (metis (no_types, lifting) mk_sl_simps(5) xs add_Suc_right length_append length_Cons add_Suc_shift)
  ultimately show ?thesis
    by simp
qed

lemma insert_mk:
  assumes "0 < m" and "bs \<noteq> []" and "length as + length bs < MAX_CAPACITY"
  shows "smartlist_insert (mk_sl (as @ bs) m) (int (length as)) x = Inr (mk_sl (as @ x # bs) (m - 1))"
proof -
  obtain k where k: "m = Suc k"
    using assms(1) by (cases m) auto
  have "smartlist_ensure_capacity (mk_sl (as @ bs) m) (length as + length bs + 1) = Inr (mk_sl (as @ bs) m)"
    using assms by (simp add: smartlist_ensure_capacity_def)
  moreover have "(put_range (Suc (length as)) bs (as @ bs @ replicate (Suc k) NULL))[length as := x] =
      as @ x # bs @ replicate k NULL"
    using assms(2) by (cases bs) (simp_all add: put_range_def list_update_append)
  ultimately show ?thesis
    using assms(2) k by (simp add: smartlist_insert_def mk_sl_def Let_def)
qed

lemma smartlist_insert_ok:
  assumes "sl_ok sl" and "0 \<le> idx" and "idx \<le> int (num_used sl)" and "num_used sl < MAX_CAPACITY"
  shows "\<exists>sl'. smartlist_insert sl idx x = Inr sl' \<and> sl_ok sl' \<and>
    contents sl' = take (nat idx) (contents sl) @ x # drop (nat idx) (contents sl)"
proof (cases "idx = int (num_used sl)")
  case True
  moreover have "length (contents sl) = num_used sl"
    using assms(1) by (rule sl_okE)
  ultimately show ?thesis
    using smartlist_add_ok [OF assms(1,4), of x] assms by (simp add: smartlist_insert_def)
next
  case False
  obtain s where s: "smartlist_ensure_capacity sl (num_used sl + 1) = Inr s" "sl_ok s" "num_used sl + 1 \<le> capacity s"
    "num_used s = num_used sl" "contents s = contents sl"
    using ensure_capacity_ok [OF assms(1), of "num_used sl + 1"] assms(4) by auto
  obtain m where m: "s = mk_sl (contents s) m"
    using sl_ok_obtain [OF s(2)] .
  let ?as = "take (nat idx) (contents s)" and ?bs = "drop (nat idx) (contents s)"
  have len: "length (contents s) = num_used sl" "capacity s = num_used sl + m"
    using arg_cong [OF m, of num_used] arg_cong [OF m, of capacity] s(4) by simp_all
  have i: "nat idx < num_used sl"
    using assms(2,3) False by simp
  have "smartlist_ensure_capacity s (num_used s + 1) = Inr s"
    using s(3,4) assms(4) by (simp add: smartlist_ensure_capacity_def)
  then have "smartlist_insert sl idx x = smartlist_insert s idx x"
    using s False by (simp add: smartlist_insert_def)
  also have "\<dots> = Inr (mk_sl (?as @ x # ?bs) (m - 1))"
    using insert_mk [of m ?bs ?as x] m len i assms(2,4) s(3) by simp
  finally have "smartlist_insert sl idx x = Inr (mk_sl (?as @ x # ?bs) (m - 1))" .
  moreover have "capacity s \<le> MAX_CAPACITY"
    using s(2) by (rule sl_okE)
  ultimately show ?thesis
    using s(3,5) len i by simp
qed

section \<open>The interface\<close>

text \<open>
  What the users of smartlists rely on: a well-formed value stands for a list, appending appends, and
  popping takes the last element off.
\<close>

locale stack_of_pointers =
  fixes ok :: "'s \<Rightarrow> bool"
    and elems :: "'s \<Rightarrow> ptr list"
    and push :: "'s \<Rightarrow> ptr \<Rightarrow> 'e + 's"
    and pop :: "'s \<Rightarrow> 's \<times> ptr"
    and room :: nat
  assumes push_ok: "ok s \<Longrightarrow> length (elems s) < room \<Longrightarrow> \<exists>t. push s x = Inr t \<and> ok t \<and> elems t = elems s @ [x]"
    and pop_ok: "ok s \<Longrightarrow> elems s \<noteq> [] \<Longrightarrow> \<exists>t. pop s = (t, last (elems s)) \<and> ok t \<and> elems t = butlast (elems s)"
    and pop_empty: "ok s \<Longrightarrow> elems s = [] \<Longrightarrow> pop s = (s, NULL)"
begin

primrec push_all :: "'s \<Rightarrow> ptr list \<Rightarrow> 'e + 's" where
  "push_all s [] = Inr s"
| "push_all s (x # xs) = and_then (push s x) (\<lambda>s. push_all s xs)"

lemma push_all_ok:
  "ok s \<Longrightarrow> length (elems s) + length xs \<le> room \<Longrightarrow> \<exists>t. push_all s xs = Inr t \<and> ok t \<and> elems t = elems s @ xs"
proof (induction xs arbitrary: s)
  case (Cons x xs)
  then obtain t where "push s x = Inr t" "ok t" "elems t = elems s @ [x]"
    using push_ok [of s x] by auto
  then show ?case
    using Cons.IH [of t] Cons.prems by simp
qed simp

lemma push_pop:
  assumes "ok s" and "length (elems s) < room" and "push s x = Inr t"
  shows "\<exists>u. pop t = (u, x) \<and> ok u \<and> elems u = elems s"
  using push_ok [OF assms(1,2), of x] pop_ok [of t] assms(3) by auto

end

interpretation sl: stack_of_pointers sl_ok contents smartlist_add smartlist_pop_last MAX_CAPACITY
proof
  show "\<exists>t. smartlist_add s x = Inr t \<and> sl_ok t \<and> contents t = contents s @ [x]"
    if "sl_ok s" "length (contents s) < MAX_CAPACITY" for s x
    using smartlist_add_ok [OF that(1)] that by (elim sl_okE) simp
  show "\<exists>t. smartlist_pop_last s = (t, last (contents s)) \<and> sl_ok t \<and> contents t = butlast (contents s)"
    if "sl_ok s" "contents s \<noteq> []" for s
    using smartlist_pop_last_ok [OF that] .
  show "smartlist_pop_last s = (s, NULL)" if "sl_ok s" "contents s = []" for s
    using that by (elim sl_okE) (simp add: smartlist_pop_last_def)
qed

section \<open>Properties\<close>

text \<open>
  C12. Smartlists implement lists: a new smartlist is empty, and from a well-formed smartlist the operations
  give a well-formed one whose elements are exactly the list they promise: appending one element or another
  smartlist, inserting at an index, deleting at an index with the last element moved into the gap
  (\<open>smartlist_del\<close>) or with the order kept, removing every occurrence of an element with the last element
  moved into each gap (\<open>smartlist_remove\<close>, by the reference \<open>remove_swap\<close>) or with the order kept, taking
  the last element off, clearing, and growing with \<open>NULL\<close>; membership and position are those of the list.
  As long as there are fewer than \<open>INT_MAX\<close> elements the array is never overrun, the loop that doubles the
  capacity ends, and no assertion fails.
\<close>

theorem smartlist_implements_list:
  assumes "sl_ok sl" and "sl_ok s2" and "num_used sl + num_used s2 < MAX_CAPACITY"
  shows "sl_ok smartlist_new \<and> contents smartlist_new = [] \<and>
    (\<exists>t. smartlist_add sl x = Inr t \<and> sl_ok t \<and> contents t = contents sl @ [x]) \<and>
    (\<exists>t. smartlist_add_all sl s2 = Inr t \<and> sl_ok t \<and> contents t = contents sl @ contents s2) \<and>
    (0 \<le> idx \<and> idx \<le> int (num_used sl) \<longrightarrow> (\<exists>t. smartlist_insert sl idx x = Inr t \<and> sl_ok t \<and>
      contents t = take (nat idx) (contents sl) @ x # drop (nat idx) (contents sl))) \<and>
    (0 \<le> idx \<and> idx < int (num_used sl) \<longrightarrow> (\<exists>t. smartlist_del sl idx = Inr t \<and> sl_ok t \<and>
      contents t = butlast ((contents sl)[nat idx := last (contents sl)]))) \<and>
    (0 \<le> idx \<and> idx < int (num_used sl) \<longrightarrow> (\<exists>t. smartlist_del_keeporder sl idx = Inr t \<and> sl_ok t \<and>
      contents t = take (nat idx) (contents sl) @ drop (nat idx + 1) (contents sl))) \<and>
    (x \<noteq> NULL \<longrightarrow> sl_ok (smartlist_remove sl x) \<and>
      contents (smartlist_remove sl x) = remove_swap x (contents sl) \<and>
      mset (contents (smartlist_remove sl x)) = filter_mset (\<lambda>y. y \<noteq> x) (mset (contents sl))) \<and>
    (x \<noteq> NULL \<longrightarrow> sl_ok (smartlist_remove_keeporder sl x) \<and>
      contents (smartlist_remove_keeporder sl x) = filter (\<lambda>y. y \<noteq> x) (contents sl)) \<and>
    (if contents sl = [] then smartlist_pop_last sl = (sl, NULL)
     else \<exists>t. smartlist_pop_last sl = (t, last (contents sl)) \<and> sl_ok t \<and> contents t = butlast (contents sl)) \<and>
    sl_ok (smartlist_clear sl) \<and> contents (smartlist_clear sl) = [] \<and>
    (n \<le> MAX_CAPACITY \<longrightarrow> (\<exists>t. smartlist_grow sl n = Inr t \<and> sl_ok t \<and>
      contents t = contents sl @ replicate (n - num_used sl) NULL)) \<and>
    (smartlist_contains sl x \<longleftrightarrow> x \<in> set (contents sl)) \<and>
    smartlist_pos sl x =
      (if x \<in> set (contents sl) then int (length (takeWhile (\<lambda>y. y \<noteq> x) (contents sl))) else -1)"
  using assms smartlist_new_ok smartlist_add_ok [OF assms(1)] smartlist_add_all_ok [OF assms(1,2)]
    smartlist_insert_ok [OF assms(1)] smartlist_del_ok [OF assms(1)] smartlist_del_keeporder_ok [OF assms(1)]
    smartlist_remove_ok [OF assms(1), of x] smartlist_remove_keeporder_ok [OF assms(1), of x]
    sl.pop_empty [OF assms(1)] smartlist_pop_last_ok [OF assms(1)] smartlist_clear_ok [OF assms(1)]
    smartlist_grow_ok [OF assms(1)] smartlist_contains_ok [OF assms(1)] smartlist_pos_ok [OF assms(1)]
    mset_remove_swap
  by (intro conjI impI) simp_all

theorem smartlist_implements_list_witness:
  "(\<exists>t. smartlist_insert (mk_sl [7, 8, 9] 0) 1 5 = Inr t \<and> contents t = [7, 5, 8, 9]) \<and>
   (\<exists>t. smartlist_del (mk_sl [7, 8, 9] 0) 1 = Inr t \<and> contents t = [7, 9]) \<and>
   (\<exists>t. smartlist_grow (mk_sl [7, 8, 9] 0) 5 = Inr t \<and> contents t = [7, 8, 9, NULL, NULL])"
proof -
  have "sl_ok (mk_sl [7, 8, 9] 0)" "sl_ok smartlist_new" "num_used (mk_sl [7, 8, 9] 0) + num_used smartlist_new < MAX_CAPACITY"
    by (simp_all add: smartlist_new_ok MAX_CAPACITY_def) (simp add: smartlist_new_def)
  from smartlist_implements_list [OF this, of 5 1 5] show ?thesis
    by (auto simp: MAX_CAPACITY_def numeral_2_eq_2)
qed

end
