(* ===== verification/Plugin_Host.thy ===== *)
theory Plugin_Host
  imports Ubpf_Elf Plug_Cell Smartlist
begin

text \<open>
  The registry of plugins of the host: plugging an entry point, the table of system-wide entry points,
  finding and running the code for a hook, and unplugging (\<^verbatim>\<open>src/core/or/plugin.c\<close>, \<open>plugin_unplug\<close>
  of \<^verbatim>\<open>src/core/or/plugin_helper.c\<close> and the list of plugins of a circuit in
  \<^verbatim>\<open>src/core/or/circuitlist.c\<close>). Objects live in a store; an address that was freed maps to
  \<^const>\<open>None\<close>, and reading it is the fault \<open>Use_After_Free\<close>. A new object gets a new address.
\<close>

section \<open>State\<close>

datatype plugin_type = PLUGIN_DEV | PLUGIN_USER

datatype plugin_usage_type = PLUGIN_CODE_HIJACK | PLUGIN_CODE_ADD | PLUGIN_CODE_DEL

datatype plugin_family =
    PLUGIN_PROTOCOL_CORE | PLUGIN_PROTOCOL_RELAY | PLUGIN_PROTOCOL_CIRCPAD
  | PLUGIN_PROTOCOL_CONN_EDGE | PLUGIN_PROTOCOL_PLUGIN

text \<open>\<open>entry_info_t\<close>; the key fields of \<open>entry_point_map_t\<close> are the same five.\<close>

record entry_info =
  ei_name :: string
  ei_ptype :: plugin_type
  ei_putype :: plugin_usage_type
  ei_pfamily :: plugin_family
  ei_param :: int

definition zero_info :: entry_info where
  "zero_info = \<lparr>ei_name = [], ei_ptype = PLUGIN_DEV, ei_putype = PLUGIN_CODE_HIJACK,
     ei_pfamily = PLUGIN_PROTOCOL_CORE, ei_param = 0\<rparr>"

record 'fn entry_point =
  ep_vm :: "ubpf_vm option"
  ep_name :: string
  ep_fn :: "'fn option"
  ep_info :: entry_info
  ep_plugin :: nat

record plugin =
  pname :: string
  memory_addr :: u64
  memory_size :: u64
  entry_points :: "nat list"
  uid :: u64
  is_system_wide :: bool
  plugin_ctx :: u64

text \<open>What plugin.c uses of a circuit.\<close>

record circ =
  circ_is_origin :: bool
  circ_plugins :: "nat list"

record 'fn host =
  plugins :: "nat \<Rightarrow> plugin option"
  eps :: "nat \<Rightarrow> 'fn entry_point option"
  circuits :: "nat \<Rightarrow> circ option"
  plugin_map :: "entry_info \<Rightarrow> (nat \<times> nat) option"  \<comment> \<open>plugin and entry point\<close>
  next_addr :: nat

datatype host_fault = Assertion_Failed | Null_Dereference | Use_After_Free | Name_Overflow | Path_Overflow | Load_Fault

definition PLUGIN_ERROR :: int where "PLUGIN_ERROR = 1"

definition deref :: "(nat \<Rightarrow> 'a option) \<Rightarrow> nat \<Rightarrow> host_fault + 'a" where
  "deref st a = (case st a of None \<Rightarrow> Inl Use_After_Free | Some x \<Rightarrow> Inr x)"

section \<open>The table of system-wide entry points\<close>

text \<open>
  Every operation of the table hashes its key first, and \<open>plugin_entry_hash_\<close> copies the name into the 256
  bytes it has for it.
\<close>

definition plugin_entry_hash :: "entry_info \<Rightarrow> host_fault + unit" where
  "plugin_entry_hash key = (if 256 < length (ei_name key) then Inl Name_Overflow else Inr ())"

definition plugin_get :: "'fn host \<Rightarrow> entry_info \<Rightarrow> host_fault + (nat \<times> nat) option" where
  "plugin_get h key = and_then (plugin_entry_hash key) (\<lambda>_. Inr (plugin_map h key))"

definition plugin_map_insert :: "'fn host \<Rightarrow> entry_info \<Rightarrow> nat \<times> nat \<Rightarrow> host_fault + 'fn host" where
  "plugin_map_insert h key v =
     and_then (plugin_entry_hash key) (\<lambda>_. Inr (h\<lparr>plugin_map := (plugin_map h)(key := Some v)\<rparr>))"

text \<open>The key under which an entry point is removed.\<close>

definition entry_key :: "'fn entry_point \<Rightarrow> entry_info" where
  "entry_key ep = (ep_info ep)\<lparr>ei_name := ep_name ep\<rparr>"

definition plugin_map_entrypoint_remove :: "'fn host \<Rightarrow> 'fn entry_point \<Rightarrow> host_fault + 'fn host" where
  "plugin_map_entrypoint_remove h ep =
     and_then (plugin_entry_hash (entry_key ep))
       (\<lambda>_. Inr (h\<lparr>plugin_map := (plugin_map h)(entry_key ep := None)\<rparr>))"

section \<open>Plugging and unplugging\<close>

text \<open>
  \<open>load\<close> is \<open>load_elf_file\<close> of the loader: from a path, the heap of the plugin and its size to the
  machine and the compiled code.
\<close>

type_synonym 'fn loader = "string \<Rightarrow> u64 \<Rightarrow> u64 \<Rightarrow> elf_stop + (ubpf_vm \<times> 'fn) option"

definition add_entry_point ::
  "'fn host \<Rightarrow> nat \<Rightarrow> plugin \<Rightarrow> entry_info \<Rightarrow> ubpf_vm \<times> 'fn \<Rightarrow> 'fn host" where
  "add_entry_point h p pl einfo code =
     h\<lparr>eps := (eps h)(next_addr h := Some \<lparr>ep_vm = Some (fst code), ep_name = ei_name einfo,
              ep_fn = Some (snd code), ep_info = (if is_system_wide pl then einfo else zero_info),
              ep_plugin = p\<rparr>),
       plugins := (plugins h)(p := Some (pl\<lparr>entry_points := entry_points pl @ [next_addr h]\<rparr>)),
       next_addr := Suc (next_addr h)\<rparr>"

definition plugin_plug_elf ::
  "'fn loader \<Rightarrow> 'fn host \<Rightarrow> nat \<Rightarrow> entry_info \<Rightarrow> string \<Rightarrow> host_fault + 'fn host \<times> int" where
  "plugin_plug_elf load h p einfo elfpath =
     and_then (deref (plugins h) p) (\<lambda>pl.
     and_then (if is_system_wide pl then plugin_get h einfo else Inr None) (\<lambda>found.
     if found \<noteq> None then Inr (h, 0)
     else case load elfpath (memory_addr pl) (memory_size pl) of
       Inl _ \<Rightarrow> Inl Load_Fault
     | Inr None \<Rightarrow> Inr (h, -1)
     | Inr (Some code) \<Rightarrow>
         (let h1 = add_entry_point h p pl einfo code in
          if is_system_wide pl
          then and_then (plugin_map_insert h1 einfo (p, next_addr h)) (\<lambda>h2. Inr (h2, 0))
          else Inr (h1, 0))))"

fun unplug_entries :: "bool \<Rightarrow> nat list \<Rightarrow> 'fn host \<Rightarrow> host_fault + 'fn host" where
  "unplug_entries sw [] h = Inr h"
| "unplug_entries sw (e # es) h =
     and_then (deref (eps h) e) (\<lambda>ep.
     and_then (if sw then plugin_map_entrypoint_remove h ep else Inr h) (\<lambda>h1.
     unplug_entries sw es (h1\<lparr>eps := (eps h1)(e := None)\<rparr>)))"

definition plugin_unplug :: "'fn host \<Rightarrow> nat \<Rightarrow> host_fault + 'fn host" where
  "plugin_unplug h p =
     and_then (deref (plugins h) p) (\<lambda>pl.
     and_then (unplug_entries (is_system_wide pl) (entry_points pl) h) (\<lambda>h1.
     Inr (h1\<lparr>plugins := (plugins h1)(p := None)\<rparr>)))"

section \<open>Finding an entry point\<close>

fun find_entry :: "'fn host \<Rightarrow> nat list \<Rightarrow> string \<Rightarrow> host_fault + nat option" where
  "find_entry h [] name = Inr None"
| "find_entry h (e # es) name =
     and_then (deref (eps h) e) (\<lambda>ep. if ep_name ep = name then Inr (Some e) else find_entry h es name)"

definition plugin_get_entry_point_by_entry_name ::
  "'fn host \<Rightarrow> nat \<Rightarrow> string \<Rightarrow> host_fault + nat option" where
  "plugin_get_entry_point_by_entry_name h p name =
     and_then (deref (plugins h) p) (\<lambda>pl. find_entry h (entry_points pl) name)"

fun find_plugin :: "'fn host \<Rightarrow> nat list \<Rightarrow> u64 \<Rightarrow> host_fault + nat option" where
  "find_plugin h [] u = Inr None"
| "find_plugin h (p # ps) u =
     and_then (deref (plugins h) p) (\<lambda>pl. if uid pl = u then Inr (Some p) else find_plugin h ps u)"

definition circuit_plugin_get :: "'fn host \<Rightarrow> nat \<Rightarrow> u64 \<Rightarrow> host_fault + nat option" where
  "circuit_plugin_get h c u = and_then (deref (circuits h) c) (\<lambda>ci. find_plugin h (circ_plugins ci) u)"

fun find_plugin_entry :: "'fn host \<Rightarrow> nat list \<Rightarrow> string \<Rightarrow> host_fault + nat option" where
  "find_plugin_entry h [] name = Inr None"
| "find_plugin_entry h (p # ps) name =
     and_then (plugin_get_entry_point_by_entry_name h p name) (\<lambda>ep.
       case ep of Some e \<Rightarrow> Inr (Some e) | None \<Rightarrow> find_plugin_entry h ps name)"

definition circuit_plugin_entry_point_get :: "'fn host \<Rightarrow> nat \<Rightarrow> string \<Rightarrow> host_fault + nat option" where
  "circuit_plugin_entry_point_get h c name =
     and_then (deref (circuits h) c) (\<lambda>ci. find_plugin_entry h (circ_plugins ci) name)"

section \<open>Running plugins\<close>

text \<open>
  The fields of the argument structures that plugin.c itself uses. The compiled code of an entry point is
  a parameter \<open>native\<close>: it may call back and change the host. When it returns, its own machine code must
  still be mapped.
\<close>

record call_args =
  arg_circ :: "nat option"
  arg_plugin :: "nat option"
  arg_param :: int

type_synonym 'fn native = "'fn \<Rightarrow> call_args \<Rightarrow> 'fn host \<Rightarrow> u64 \<times> 'fn host"

definition exec_loaded_code :: "'fn native \<Rightarrow> 'fn entry_point \<Rightarrow> call_args \<Rightarrow> 'fn host \<Rightarrow> u64 \<times> 'fn host" where
  "exec_loaded_code native ep args h =
     (if ep_vm ep = None then (1, h)
      else case ep_fn ep of None \<Rightarrow> (1, h) | Some fn \<Rightarrow> native fn args h)"

definition plugin_run :: "'fn native \<Rightarrow> 'fn host \<Rightarrow> nat \<Rightarrow> call_args \<Rightarrow> host_fault + u64 \<times> 'fn host" where
  "plugin_run native h e args =
     and_then (deref (eps h) e) (\<lambda>ep.
       case exec_loaded_code native ep args h of
         (ret, h') \<Rightarrow> and_then (deref (eps h') e) (\<lambda>_. Inr (ret, h')))"

text \<open>The conversion of the 64-bit result to \<open>int\<close>.\<close>

definition as_int :: "u64 \<Rightarrow> int" where
  "as_int r = sint (ucast r :: u32)"

datatype caller_id =
    RELAY_REPLACE_PROCESS_EDGE_SENDME | RELAY_REPLACE_STREAM_DATA_RECEIVED | RELAY_PROCESS_EDGE_UNKNOWN
  | RELAY_RECEIVED_CONNECTED_CELL | RELAY_SENDME_CIRCUIT_DATA_RECEIVED
  | RELAY_CIRCUIT_UNRECOGNIZED_DATA_RECEIVED | CIRCPAD_PROTOCOL_INIT | CIRCPAD_PROTOCOL_MACHINEINFO_SETUP
  | CIRCPAD_EVENT_CIRC_HAS_BUILT | CIRCPAD_EVENT_CIRC_HAS_OPENED | CIRCPAD_SEND_PADDING_CALLBACK
  | CONNECTION_EDGE_ADD_TO_SENDING_BEGIN | PLUGIN_HOUSEKEEPING_CLEANUP_CALLED | PLUGIN_HOUSEKEEPING_INIT

definition plugin_is_caller_id_system_wide :: "caller_id \<Rightarrow> bool" where
  "plugin_is_caller_id_system_wide caller \<longleftrightarrow>
     caller \<notin> {PLUGIN_HOUSEKEEPING_INIT, PLUGIN_HOUSEKEEPING_CLEANUP_CALLED, CIRCPAD_SEND_PADDING_CALLBACK,
       RELAY_CIRCUIT_UNRECOGNIZED_DATA_RECEIVED}"

text \<open>A run whose result is the result of the hook.\<close>

definition run_hook :: "'fn native \<Rightarrow> 'fn host \<Rightarrow> nat \<Rightarrow> call_args \<Rightarrow> host_fault + int \<times> 'fn host" where
  "run_hook native h e args = and_then (plugin_run native h e args) (\<lambda>(ret, h'). Inr (as_int ret, h'))"

definition circ_plugins_remove :: "'fn host \<Rightarrow> nat \<Rightarrow> nat \<Rightarrow> host_fault + 'fn host" where
  "circ_plugins_remove h c p =
     and_then (deref (circuits h) c) (\<lambda>ci.
       Inr (h\<lparr>circuits := (circuits h)(c := Some (ci\<lparr>circ_plugins := remove_swap p (circ_plugins ci)\<rparr>))\<rparr>))"

text \<open>The hook for cells that are passed on unrecognized: on \<open>PLUGIN_ERROR\<close> the plugin is unplugged.\<close>

definition invoke_unrecognized ::
  "'fn native \<Rightarrow> 'fn host \<Rightarrow> nat \<Rightarrow> entry_info \<Rightarrow> call_args \<Rightarrow> host_fault + int \<times> 'fn host" where
  "invoke_unrecognized native h c key args =
     and_then (circuit_plugin_entry_point_get h c (ei_name key)) (\<lambda>found.
       case found of
         None \<Rightarrow> Inr (PLUGIN_RUN_DEFAULT, h)
       | Some e \<Rightarrow>
           and_then (deref (eps h) e) (\<lambda>ep.
           and_then (run_hook native h e (args\<lparr>arg_plugin := Some (ep_plugin ep)\<rparr>)) (\<lambda>(ret, h1).
           if ret = PLUGIN_ERROR
           then and_then (circ_plugins_remove h1 c (ep_plugin ep)) (\<lambda>h2.
                and_then (plugin_unplug h2 (ep_plugin ep)) (\<lambda>h3. Inr (PLUGIN_RUN_DEFAULT, h3)))
           else Inr (ret, h1))))"

definition invoke_padding_callback ::
  "'fn native \<Rightarrow> 'fn host \<Rightarrow> nat \<Rightarrow> entry_info \<Rightarrow> call_args \<Rightarrow> host_fault + int \<times> 'fn host" where
  "invoke_padding_callback native h c key args =
     and_then (circuit_plugin_get h c 42) (\<lambda>foundp.
       case foundp of
         None \<Rightarrow> Inr (PLUGIN_RUN_DEFAULT, h)
       | Some p \<Rightarrow>
           and_then (plugin_get_entry_point_by_entry_name h p (ei_name key)) (\<lambda>found.
             case found of
               None \<Rightarrow> Inr (PLUGIN_RUN_DEFAULT, h)
             | Some e \<Rightarrow> run_hook native h e (args\<lparr>arg_plugin := Some p\<rparr>)))"

definition invoke_housekeeping ::
  "'fn native \<Rightarrow> 'fn host \<Rightarrow> entry_info \<Rightarrow> call_args \<Rightarrow> host_fault + int \<times> 'fn host" where
  "invoke_housekeeping native h key args =
     (case arg_plugin args of
        None \<Rightarrow> Inr (PLUGIN_RUN_DEFAULT, h)
      | Some p \<Rightarrow>
          and_then (plugin_get_entry_point_by_entry_name h p (ei_name key)) (\<lambda>found.
            case found of
              None \<Rightarrow> Inr (PLUGIN_RUN_DEFAULT, h)
            | Some e \<Rightarrow> run_hook native h e args))"

text \<open>Which hooks get the parameter of the entry with the plugin.\<close>

definition system_args :: "caller_id \<Rightarrow> nat \<Rightarrow> int \<Rightarrow> call_args \<Rightarrow> call_args" where
  "system_args caller p prm args =
     (if caller \<in> {CIRCPAD_PROTOCOL_INIT, CIRCPAD_PROTOCOL_MACHINEINFO_SETUP, CIRCPAD_EVENT_CIRC_HAS_BUILT,
          CIRCPAD_EVENT_CIRC_HAS_OPENED}
      then args\<lparr>arg_plugin := Some p\<rparr>
      else args\<lparr>arg_plugin := Some p, arg_param := prm\<rparr>)"

definition invoke_plugin_operation_or_default ::
  "bool \<Rightarrow> 'fn native \<Rightarrow> 'fn host \<Rightarrow> entry_info \<Rightarrow> caller_id \<Rightarrow> call_args \<Rightarrow> host_fault + int \<times> 'fn host" where
  "invoke_plugin_operation_or_default enabled native h key caller args =
     (if \<not> enabled then Inr (PLUGIN_RUN_DEFAULT, h)
      else if plugin_is_caller_id_system_wide caller
      then and_then (plugin_get h key) (\<lambda>found.
             case found of
               None \<Rightarrow> Inr (PLUGIN_RUN_DEFAULT, h)
             | Some (p, e) \<Rightarrow> run_hook native h e (system_args caller p (ei_param key) args))
      else case caller of
        RELAY_CIRCUIT_UNRECOGNIZED_DATA_RECEIVED \<Rightarrow>
          (case arg_circ args of
             None \<Rightarrow> Inl Null_Dereference
           | Some c \<Rightarrow> invoke_unrecognized native h c key args)
      | CIRCPAD_SEND_PADDING_CALLBACK \<Rightarrow>
          (case arg_circ args of
             None \<Rightarrow> Inl Assertion_Failed
           | Some c \<Rightarrow> invoke_padding_callback native h c key args)
      | _ \<Rightarrow> invoke_housekeeping native h key args)"

text \<open>The key of a hook that is found by its name only.\<close>

definition named_key :: "string \<Rightarrow> entry_info" where
  "named_key name = zero_info\<lparr>ei_name := name\<rparr>"

definition plugin_cleanup_conn ::
  "bool \<Rightarrow> 'fn native \<Rightarrow> 'fn host \<Rightarrow> nat \<Rightarrow> u64 \<Rightarrow> host_fault + 'fn host" where
  "plugin_cleanup_conn enabled native h c u =
     and_then (circuit_plugin_get h c u) (\<lambda>found.
       case found of
         None \<Rightarrow> Inr h
       | Some p \<Rightarrow>
           and_then (invoke_plugin_operation_or_default enabled native h (named_key ''plugin_cleanup'')
               PLUGIN_HOUSEKEEPING_CLEANUP_CALLED \<lparr>arg_circ = Some c, arg_plugin = Some p, arg_param = 0\<rparr>) (\<lambda>(_, h1).
           and_then (circ_plugins_remove h1 c p) (\<lambda>h2.
           plugin_unplug h2 p)))"

text \<open>What freeing a circuit does to its plugins.\<close>

fun unplug_all :: "nat list \<Rightarrow> 'fn host \<Rightarrow> host_fault + 'fn host" where
  "unplug_all [] h = Inr h"
| "unplug_all (p # ps) h = and_then (plugin_unplug h p) (unplug_all ps)"

definition circuit_free_plugins :: "'fn host \<Rightarrow> nat \<Rightarrow> host_fault + 'fn host" where
  "circuit_free_plugins h c =
     and_then (deref (circuits h) c) (\<lambda>ci.
     and_then (unplug_all (circ_plugins ci) h) (\<lambda>h1.
     Inr (h1\<lparr>circuits := (circuits h1)(c := None)\<rparr>)))"

section \<open>The invariant of the registry\<close>

text \<open>
  Every entry of the table belongs to a live plugin that is system-wide, leads to one of its entry points
  and stands under the key by which that entry point is removed; entry points are alive and owned by
  their plugin; addresses not handed out yet hold nothing; a circuit holds live plugins, each of them once
  and no two circuits the same.
\<close>

definition map_ok :: "'fn host \<Rightarrow> bool" where
  "map_ok h \<longleftrightarrow> (\<forall>k p e. plugin_map h k = Some (p, e) \<longrightarrow>
     (\<exists>pl ep. plugins h p = Some pl \<and> is_system_wide pl \<and> e \<in> set (entry_points pl) \<and>
        eps h e = Some ep \<and> entry_key ep = k))"

definition entries_ok :: "'fn host \<Rightarrow> nat \<Rightarrow> nat list \<Rightarrow> bool" where
  "entries_ok h p es \<longleftrightarrow> distinct es \<and>
     (\<forall>e \<in> set es. \<exists>ep. eps h e = Some ep \<and> ep_plugin ep = p \<and> length (ep_name ep) \<le> 256)"

definition plugins_ok :: "'fn host \<Rightarrow> bool" where
  "plugins_ok h \<longleftrightarrow> (\<forall>p pl. plugins h p = Some pl \<longrightarrow> entries_ok h p (entry_points pl))"

definition fresh_ok :: "'fn host \<Rightarrow> bool" where
  "fresh_ok h \<longleftrightarrow> (\<forall>a. next_addr h \<le> a \<longrightarrow> eps h a = None \<and> plugins h a = None)"

definition circs_ok :: "'fn host \<Rightarrow> bool" where
  "circs_ok h \<longleftrightarrow> (\<forall>c ci. circuits h c = Some ci \<longrightarrow>
     distinct (circ_plugins ci) \<and> (\<forall>p \<in> set (circ_plugins ci). plugins h p \<noteq> None) \<and>
     (\<forall>d di. circuits h d = Some di \<longrightarrow> d \<noteq> c \<longrightarrow> set (circ_plugins ci) \<inter> set (circ_plugins di) = {}))"

definition host_ok :: "'fn host \<Rightarrow> bool" where
  "host_ok h \<longleftrightarrow> map_ok h \<and> plugins_ok h \<and> fresh_ok h \<and> circs_ok h"

definition attached :: "'fn host \<Rightarrow> nat \<Rightarrow> bool" where
  "attached h p \<longleftrightarrow> (\<exists>c ci. circuits h c = Some ci \<and> p \<in> set (circ_plugins ci))"

lemmas host_ok_defs = host_ok_def map_ok_def plugins_ok_def entries_ok_def fresh_ok_def circs_ok_def

lemma deref_simps [simp]:
  "st a = Some x \<Longrightarrow> deref st a = Inr x" "deref st a = Inr y \<longleftrightarrow> st a = Some y"
  "st a = None \<Longrightarrow> deref st a = Inl Use_After_Free"
  by (simp_all add: deref_def split: option.splits)

lemma entry_key_name [simp]: "ei_name (entry_key ep) = ep_name ep"
  by (simp add: entry_key_def)

lemma entries_okD:
  assumes "entries_ok h p es" and "e \<in> set es"
  obtains ep where "eps h e = Some ep" "ep_plugin ep = p" "length (ep_name ep) \<le> 256"
  using assms by (auto simp: entries_ok_def)

lemma plugins_okD: "host_ok h \<Longrightarrow> plugins h p = Some pl \<Longrightarrow> entries_ok h p (entry_points pl)"
  by (simp add: host_ok_def plugins_ok_def)

lemma map_okD:
  assumes "host_ok h" and "plugin_map h k = Some (p, e)"
  obtains pl ep where "plugins h p = Some pl" "is_system_wide pl" "e \<in> set (entry_points pl)"
    "eps h e = Some ep" "entry_key ep = k" "ep_plugin ep = p"
proof -
  from assms obtain pl ep where pl: "plugins h p = Some pl" "is_system_wide pl" "e \<in> set (entry_points pl)"
      "eps h e = Some ep" "entry_key ep = k"
    unfolding host_ok_def map_ok_def by blast
  moreover from this have "ep_plugin ep = p"
    by (auto elim: entries_okD [OF plugins_okD [OF assms(1)]])
  ultimately show thesis
    by (rule that)
qed

subsection \<open>Unplugging\<close>

text \<open>The state after a plugin is unplugged.\<close>

definition unplugged_entries :: "bool \<Rightarrow> nat list \<Rightarrow> 'fn host \<Rightarrow> 'fn host" where
  "unplugged_entries sw es h =
     h\<lparr>eps := (\<lambda>e. if e \<in> set es then None else eps h e),
       plugin_map := (\<lambda>k. if sw \<and> (\<exists>e \<in> set es. map_option entry_key (eps h e) = Some k) then None
                          else plugin_map h k)\<rparr>"

lemma unplug_entries_eq:
  assumes "entries_ok h p es"
  shows "unplug_entries sw es h = Inr (unplugged_entries sw es h)"
  using assms
proof (induction es arbitrary: h)
  case Nil
  show ?case
    by (simp add: unplugged_entries_def)
next
  case (Cons e es)
  then obtain ep where ep: "eps h e = Some ep" "length (ep_name ep) \<le> 256"
    by (auto simp: entries_ok_def)
  define h1 where "h1 = (if sw then h\<lparr>plugin_map := (plugin_map h)(entry_key ep := None)\<rparr> else h)
    \<lparr>eps := (eps h)(e := None)\<rparr>"
  have "e \<notin> set es"
    using Cons.prems by (simp add: entries_ok_def)
  then have "entries_ok h1 p es"
    using Cons.prems by (auto simp: entries_ok_def h1_def)
  then have "unplug_entries sw es h1 = Inr (unplugged_entries sw es h1)"
    by (rule Cons.IH)
  moreover have "unplugged_entries sw es h1 = unplugged_entries sw (e # es) h"
    using \<open>e \<notin> set es\<close> ep(1)
    by (auto simp: unplugged_entries_def h1_def fun_eq_iff intro!: arg_cong2 [where f = "\<lambda>a b. h\<lparr>eps := a, plugin_map := b\<rparr>"])
      (blast, metis)
  ultimately show ?case
    using ep by (simp add: plugin_map_entrypoint_remove_def plugin_entry_hash_def h1_def split: if_splits)
qed

definition unplugged :: "nat \<Rightarrow> plugin \<Rightarrow> 'fn host \<Rightarrow> 'fn host" where
  "unplugged p pl h =
     (let h1 = unplugged_entries (is_system_wide pl) (entry_points pl) h
      in h1\<lparr>plugins := (plugins h1)(p := None)\<rparr>)"

lemma plugin_unplug_eq:
  assumes "host_ok h" and "plugins h p = Some pl"
  shows "plugin_unplug h p = Inr (unplugged p pl h)"
  using unplug_entries_eq [OF plugins_okD [OF assms]] assms(2)
  by (simp add: plugin_unplug_def unplugged_def Let_def)

lemma unplugged_simps [simp]:
  "plugins (unplugged p pl h) = (plugins h)(p := None)"
  "circuits (unplugged p pl h) = circuits h" "next_addr (unplugged p pl h) = next_addr h"
  "eps (unplugged p pl h) = (\<lambda>e. if e \<in> set (entry_points pl) then None else eps h e)"
  "plugin_map (unplugged p pl h) = (\<lambda>k. if is_system_wide pl \<and>
     (\<exists>e \<in> set (entry_points pl). map_option entry_key (eps h e) = Some k) then None else plugin_map h k)"
  by (simp_all add: unplugged_def unplugged_entries_def Let_def)

lemma owner_unique:
  assumes "host_ok h" and "plugins h p = Some pl" "e \<in> set (entry_points pl)"
    and "plugins h q = Some ql" "e \<in> set (entry_points ql)"
  shows "p = q"
  using entries_okD [OF plugins_okD [OF assms(1,2)] assms(3)]
    entries_okD [OF plugins_okD [OF assms(1,4)] assms(5)] by (metis option.inject)

text \<open>No entry of the table leads to an unplugged plugin.\<close>

lemma unplugged_map:
  assumes "host_ok h" and "plugins h p = Some pl"
    and "plugin_map (unplugged p pl h) k = Some (q, e)"
  shows "q \<noteq> p \<and> plugin_map h k = Some (q, e) \<and> e \<notin> set (entry_points pl)"
proof -
  have k: "plugin_map h k = Some (q, e)"
    and gone: "\<not> (is_system_wide pl \<and> (\<exists>e \<in> set (entry_points pl). map_option entry_key (eps h e) = Some k))"
    using assms(3) by (auto split: if_splits)
  obtain ql ep where q: "plugins h q = Some ql" "is_system_wide ql" "e \<in> set (entry_points ql)"
      "eps h e = Some ep" "entry_key ep = k"
    using map_okD [OF assms(1) k] by blast
  have "q \<noteq> p"
    using q gone assms(2) by force
  then show ?thesis
    using k owner_unique [OF assms(1,2) _ q(1,3)] by blast
qed

lemma host_ok_unplugged:
  assumes ok: "host_ok h" and p: "plugins h p = Some pl" and free: "\<not> attached h p"
  shows "host_ok (unplugged p pl h)"
proof -
  have "map_ok (unplugged p pl h)"
    unfolding map_ok_def
  proof (intro allI impI)
    fix k q e
    assume k: "plugin_map (unplugged p pl h) k = Some (q, e)"
    note old = unplugged_map [OF ok p k]
    then obtain ql ep where "plugins h q = Some ql" "is_system_wide ql" "e \<in> set (entry_points ql)"
        "eps h e = Some ep" "entry_key ep = k"
      using map_okD [OF ok] by blast
    then show "\<exists>ql ep. plugins (unplugged p pl h) q = Some ql \<and> is_system_wide ql \<and>
        e \<in> set (entry_points ql) \<and> eps (unplugged p pl h) e = Some ep \<and> entry_key ep = k"
      using old by auto
  qed
  moreover have "plugins_ok (unplugged p pl h)"
    unfolding plugins_ok_def
  proof (intro allI impI)
    fix q ql
    assume "plugins (unplugged p pl h) q = Some ql"
    then have q: "q \<noteq> p" "plugins h q = Some ql"
      by (auto split: if_splits)
    then have "e \<notin> set (entry_points pl)" if "e \<in> set (entry_points ql)" for e
      using owner_unique [OF ok p _ q(2) that] by blast
    then show "entries_ok (unplugged p pl h) q (entry_points ql)"
      using plugins_okD [OF ok q(2)] by (simp add: entries_ok_def)
  qed
  moreover have "fresh_ok (unplugged p pl h)"
    using ok by (simp add: host_ok_def fresh_ok_def)
  moreover have "circs_ok (unplugged p pl h)"
    using ok free by (auto simp: host_ok_def circs_ok_def attached_def)
  ultimately show ?thesis
    by (simp add: host_ok_def)
qed

subsection \<open>Plugging\<close>

lemma add_entry_point_simps [simp]:
  "plugins (add_entry_point h p pl einfo code) =
     (plugins h)(p := Some (pl\<lparr>entry_points := entry_points pl @ [next_addr h]\<rparr>))"
  "eps (add_entry_point h p pl einfo code) = (eps h)(next_addr h := Some \<lparr>ep_vm = Some (fst code),
     ep_name = ei_name einfo, ep_fn = Some (snd code),
     ep_info = (if is_system_wide pl then einfo else zero_info), ep_plugin = p\<rparr>)"
  "plugin_map (add_entry_point h p pl einfo code) = plugin_map h"
  "circuits (add_entry_point h p pl einfo code) = circuits h"
  "next_addr (add_entry_point h p pl einfo code) = Suc (next_addr h)"
  by (simp_all add: add_entry_point_def)

lemma host_ok_add_entry_point:
  assumes ok: "host_ok h" and p: "plugins h p = Some pl" and name: "length (ei_name einfo) \<le> 256"
  shows "host_ok (add_entry_point h p pl einfo code)"
proof -
  let ?e = "next_addr h"
  have fresh: "eps h ?e = None" "?e \<noteq> p"
    using ok p by (auto simp: host_ok_def fresh_ok_def)
  have old: "e \<noteq> ?e" if "plugins h q = Some ql" "e \<in> set (entry_points ql)" for q ql e
    using plugins_okD [OF ok that(1)] that(2) fresh(1) by (auto simp: entries_ok_def)
  have "map_ok (add_entry_point h p pl einfo code)"
    unfolding map_ok_def
  proof (intro allI impI)
    fix k q e
    assume "plugin_map (add_entry_point h p pl einfo code) k = Some (q, e)"
    then have "plugin_map h k = Some (q, e)"
      by simp
    then obtain ql ep where q: "plugins h q = Some ql" "is_system_wide ql" "e \<in> set (entry_points ql)"
        "eps h e = Some ep" "entry_key ep = k"
      using map_okD [OF ok] by blast
    have "eps (add_entry_point h p pl einfo code) e = Some ep"
      using q(4) old [OF q(1,3)] by simp
    moreover have "\<exists>ql. plugins (add_entry_point h p pl einfo code) q = Some ql \<and> is_system_wide ql \<and>
        e \<in> set (entry_points ql)"
    proof (cases "q = p")
      case True
      then show ?thesis
        using q(1-3) p by (intro exI [of _ "pl\<lparr>entry_points := entry_points pl @ [next_addr h]\<rparr>"]) simp
    qed (use q(1-3) in simp)
    ultimately show "\<exists>ql ep. plugins (add_entry_point h p pl einfo code) q = Some ql \<and> is_system_wide ql \<and>
        e \<in> set (entry_points ql) \<and> eps (add_entry_point h p pl einfo code) e = Some ep \<and> entry_key ep = k"
      using q(5) by blast
  qed
  moreover have "plugins_ok (add_entry_point h p pl einfo code)"
    unfolding plugins_ok_def
  proof (intro allI impI)
    fix q ql
    assume q: "plugins (add_entry_point h p pl einfo code) q = Some ql"
    show "entries_ok (add_entry_point h p pl einfo code) q (entry_points ql)"
    proof (cases "q = p")
      case True
      then have "entry_points ql = entry_points pl @ [?e]"
        using q by auto
      then show ?thesis
        using plugins_okD [OF ok p] old [OF p] name True
        by (auto simp: entries_ok_def)
    next
      case False
      then have "plugins h q = Some ql"
        using q by simp
      then show ?thesis
        using plugins_okD [OF ok] old by (auto simp: entries_ok_def)
    qed
  qed
  moreover have "fresh_ok (add_entry_point h p pl einfo code)"
    using ok p by (auto simp: host_ok_def fresh_ok_def)
  moreover have "circs_ok (add_entry_point h p pl einfo code)"
    using ok by (auto simp: host_ok_def circs_ok_def)
  ultimately show ?thesis
    by (simp add: host_ok_def)
qed

lemma host_ok_map_insert:
  assumes "host_ok h" and "plugins h p = Some pl" "is_system_wide pl" "e \<in> set (entry_points pl)"
    and "eps h e = Some ep" "entry_key ep = k"
  shows "host_ok (h\<lparr>plugin_map := (plugin_map h)(k := Some (p, e))\<rparr>)"
  using assms by (auto simp: host_ok_def map_ok_def plugins_ok_def entries_ok_def fresh_ok_def circs_ok_def)

text \<open>What plugging one entry point does, on every branch that returns.\<close>

lemma plugin_plug_elf_cases:
  assumes "plugin_plug_elf load h p einfo path = Inr (h', r)"
  obtains (known) pl v where "plugins h p = Some pl" "is_system_wide pl" "plugin_map h einfo = Some v"
      "h' = h" "r = 0"
    | (failed) pl where "plugins h p = Some pl" "h' = h" "r = -1"
    | (local_entry) pl code where "plugins h p = Some pl" "\<not> is_system_wide pl"
      "load path (memory_addr pl) (memory_size pl) = Inr (Some code)"
      "h' = add_entry_point h p pl einfo code" "r = 0"
    | (global_entry) pl code where "plugins h p = Some pl" "is_system_wide pl" "plugin_map h einfo = None"
      "load path (memory_addr pl) (memory_size pl) = Inr (Some code)"
      "h' = (add_entry_point h p pl einfo code)
         \<lparr>plugin_map := (plugin_map h)(einfo := Some (p, next_addr h))\<rparr>" "r = 0"
proof -
  from assms obtain pl where pl: "plugins h p = Some pl"
    by (auto simp: plugin_plug_elf_def and_then_Inr)
  show thesis
  proof (cases "is_system_wide pl")
    case True
    note simps = plugin_plug_elf_def plugin_get_def plugin_map_insert_def and_then_Inr Let_def
    show thesis
    proof (cases "plugin_map h einfo")
      case None
      with True assms pl show thesis
        by (auto simp: simps split: sum.splits option.splits intro: that(2) that(4) [OF pl True None])
    next
      case (Some v)
      with True assms pl show thesis
        by (auto simp: simps intro: that(1) [OF pl True Some])
    qed
  next
    case False
    with assms pl show thesis
      by (auto simp: plugin_plug_elf_def Let_def split: sum.splits option.splits intro: that(2,3))
  qed
qed

lemma host_ok_plug:
  assumes "host_ok h" and "plugin_plug_elf load h p einfo path = Inr (h', r)" and "length (ei_name einfo) \<le> 256"
  shows "host_ok h' \<and> plugins h' p \<noteq> None \<and> circuits h' = circuits h"
  using assms(2)
proof (cases rule: plugin_plug_elf_cases)
  case (local_entry pl code)
  then show ?thesis
    using host_ok_add_entry_point [OF assms(1) _ assms(3)] by auto
next
  case (global_entry pl code)
  let ?h = "add_entry_point h p pl einfo code"
  have "host_ok (?h\<lparr>plugin_map := (plugin_map ?h)(einfo := Some (p, next_addr h))\<rparr>)"
    using global_entry(1,2)
    by (intro host_ok_map_insert [OF host_ok_add_entry_point [OF assms(1) _ assms(3)], where pl =
          "pl\<lparr>entry_points := entry_points pl @ [next_addr h]\<rparr>"])
      (auto simp: entry_key_def)
  then show ?thesis
    using global_entry by simp
qed (use assms(1) in auto)

lemma plug_no_fault:
  assumes "plugins h p \<noteq> None" and "length (ei_name einfo) \<le> 256"
    and "plugin_plug_elf load h p einfo path = Inl f"
  shows "f = Load_Fault"
  using assms
  by (auto simp: plugin_plug_elf_def plugin_get_def plugin_entry_hash_def plugin_map_insert_def Let_def
      split: if_splits sum.splits option.splits)

subsection \<open>Searching\<close>

lemma find_entry_ok:
  assumes "entries_ok h p es"
  shows "\<exists>r. find_entry h es name = Inr r \<and> (\<forall>e. r = Some e \<longrightarrow> e \<in> set es)"
  using assms by (induction es) (auto simp: entries_ok_def)

lemma get_entry_point_ok:
  assumes "host_ok h" and "plugins h p = Some pl"
  shows "\<exists>r. plugin_get_entry_point_by_entry_name h p name = Inr r \<and>
    (\<forall>e. r = Some e \<longrightarrow> e \<in> set (entry_points pl))"
  using find_entry_ok [OF plugins_okD [OF assms]] assms(2)
  by (simp add: plugin_get_entry_point_by_entry_name_def)

lemma find_plugin_ok:
  assumes "\<forall>p \<in> set ps. plugins h p \<noteq> None"
  shows "\<exists>r. find_plugin h ps u = Inr r \<and>
    (\<forall>p. r = Some p \<longrightarrow> p \<in> set ps \<and> (\<exists>pl. plugins h p = Some pl \<and> uid pl = u))"
  using assms by (induction ps) auto

lemma find_plugin_entry_ok:
  assumes "host_ok h" and "\<forall>p \<in> set ps. plugins h p \<noteq> None"
  shows "\<exists>r. find_plugin_entry h ps name = Inr r \<and>
    (\<forall>e. r = Some e \<longrightarrow> (\<exists>p pl. p \<in> set ps \<and> plugins h p = Some pl \<and> e \<in> set (entry_points pl)))"
  using assms(2)
proof (induction ps)
  case (Cons p ps)
  then obtain pl where pl: "plugins h p = Some pl"
    by auto
  from get_entry_point_ok [OF assms(1) pl, of name]
  obtain r where r: "plugin_get_entry_point_by_entry_name h p name = Inr r"
      "\<And>e. r = Some e \<Longrightarrow> e \<in> set (entry_points pl)"
    by blast
  then show ?case
    using Cons pl by (cases r) auto
qed simp

lemma circ_plugins_live:
  "host_ok h \<Longrightarrow> circuits h c = Some ci \<Longrightarrow> \<forall>p \<in> set (circ_plugins ci). plugins h p \<noteq> None"
  by (simp add: host_ok_def circs_ok_def)

lemma circuit_plugin_get_ok:
  assumes "host_ok h" and "circuits h c = Some ci"
  shows "\<exists>r. circuit_plugin_get h c u = Inr r \<and>
    (\<forall>p. r = Some p \<longrightarrow> p \<in> set (circ_plugins ci) \<and> (\<exists>pl. plugins h p = Some pl \<and> uid pl = u))"
  using find_plugin_ok [OF circ_plugins_live [OF assms]] assms(2) by (simp add: circuit_plugin_get_def)

subsection \<open>Running\<close>

text \<open>
  What the code of a plugin can do to the registry. It reaches the host only through \<open>set\<close> and
  \<open>call_host_func\<close>; of their cases \<open>PLUGIN_CTX\<close> writes the context of a plugin and \<open>PLUGIN_CLEANUP_CIRC\<close>
  removes a plugin from a circuit and unplugs it, and no other case changes plugins, entry points, the
  table or the lists of the circuits. \<open>host_request p\<close> is one such change while \<open>p\<close> runs, for a cleanup that is not
  of \<open>p\<close> itself; a cleanup that runs the code of another plugin first is a sequence of them
  (\<open>cleanup_is_host_calls\<close> below).
\<close>

inductive host_request :: "nat \<Rightarrow> 'fn host \<Rightarrow> 'fn host \<Rightarrow> bool" for p where
  set_ctx: "plugins h q = Some pl \<Longrightarrow>
    host_request p h (h\<lparr>plugins := (plugins h)(q := Some (pl\<lparr>plugin_ctx := v\<rparr>))\<rparr>)"
| cleanup_circ: "circuits h c = Some ci \<Longrightarrow> q \<in> set (circ_plugins ci) \<Longrightarrow> q \<noteq> p \<Longrightarrow>
    circ_plugins_remove h c q = Inr h1 \<Longrightarrow> plugin_unplug h1 q = Inr h' \<Longrightarrow> host_request p h h'"

definition host_calls_only :: "'fn native \<Rightarrow> bool" where
  "host_calls_only native \<longleftrightarrow> (\<forall>fn args h ret h' p. host_ok h \<longrightarrow> arg_plugin args = Some p \<longrightarrow>
     native fn args h = (ret, h') \<longrightarrow> (host_request p)\<^sup>*\<^sup>* h h')"

text \<open>What a run leaves of the plugin that runs.\<close>

definition kept :: "nat \<Rightarrow> 'fn host \<Rightarrow> 'fn host \<Rightarrow> bool" where
  "kept p h h' \<longleftrightarrow> (\<forall>e ep. eps h e = Some ep \<longrightarrow> ep_plugin ep = p \<longrightarrow> eps h' e = Some ep) \<and>
     (\<forall>c ci. circuits h c = Some ci \<longrightarrow> p \<in> set (circ_plugins ci) \<longrightarrow>
        (\<exists>ci'. circuits h' c = Some ci' \<and> p \<in> set (circ_plugins ci')))"

definition same_plugin :: "nat \<Rightarrow> 'fn host \<Rightarrow> 'fn host \<Rightarrow> bool" where
  "same_plugin p h h' \<longleftrightarrow> (\<forall>pl. plugins h p = Some pl \<longrightarrow>
     (\<exists>pl'. plugins h' p = Some pl' \<and> uid pl' = uid pl \<and> entry_points pl' = entry_points pl))"

definition same_origins :: "'fn host \<Rightarrow> 'fn host \<Rightarrow> bool" where
  "same_origins h h' \<longleftrightarrow> (\<forall>c. map_option circ_is_origin (circuits h' c) = map_option circ_is_origin (circuits h c))"

lemma kept_refl [simp]: "kept p h h"
  by (simp add: kept_def)

lemma kept_trans: "kept p h h1 \<Longrightarrow> kept p h1 h2 \<Longrightarrow> kept p h h2"
  unfolding kept_def by blast

lemma same_plugin_refl [simp]: "same_plugin p h h"
  by (simp add: same_plugin_def)

lemma same_origins_refl [simp]: "same_origins h h"
  by (simp add: same_origins_def)

lemma same_plugin_trans: "same_plugin p h h1 \<Longrightarrow> same_plugin p h1 h2 \<Longrightarrow> same_plugin p h h2"
  unfolding same_plugin_def by metis

lemma host_ok_remove_plugin:
  assumes "host_ok h" and "circuits h c = Some ci"
  shows "\<exists>h'. circ_plugins_remove h c p = Inr h' \<and> host_ok h' \<and> plugins h' = plugins h \<and>
    (p \<in> set (circ_plugins ci) \<longrightarrow> \<not> attached h' p)"
proof -
  let ?h = "h\<lparr>circuits := (circuits h)(c := Some (ci\<lparr>circ_plugins := remove_swap p (circ_plugins ci)\<rparr>))\<rparr>"
  have circs: "circs_ok h"
    using assms(1) by (simp add: host_ok_def)
  have "circs_ok ?h"
    using circs assms(2) unfolding circs_ok_def
    by (auto simp: set_remove_swap distinct_remove_swap split: if_splits; blast)
  then have "host_ok ?h"
    using assms(1) by (simp add: host_ok_def map_ok_def plugins_ok_def entries_ok_def fresh_ok_def)
  moreover have "\<not> attached ?h p" if "p \<in> set (circ_plugins ci)"
    using that circs assms(2) unfolding circs_ok_def attached_def
    by (auto simp: set_remove_swap split: if_splits; blast)
  ultimately show ?thesis
    using assms(2) by (simp add: circ_plugins_remove_def)
qed

text \<open>Removing a plugin from its circuit and unplugging it, as two of the operations do.\<close>

lemma detach_ok:
  assumes "host_ok h" and "circuits h c = Some ci" and "p \<in> set (circ_plugins ci)"
  shows "\<exists>h'. and_then (circ_plugins_remove h c p) (\<lambda>h2. plugin_unplug h2 p) = Inr h' \<and> host_ok h' \<and> plugins h' p = None"
proof -
  obtain pl where pl: "plugins h p = Some pl"
    using circ_plugins_live [OF assms(1,2)] assms(3) by auto
  obtain h1 where h1: "circ_plugins_remove h c p = Inr h1" "host_ok h1" "plugins h1 = plugins h" "\<not> attached h1 p"
    using host_ok_remove_plugin [OF assms(1,2), of p] assms(3) by blast
  have "plugins h1 p = Some pl"
    using h1(3) pl by simp
  then show ?thesis
    using h1 plugin_unplug_eq [OF h1(2)] host_ok_unplugged [OF h1(2) _ h1(4)] by auto
qed

lemma host_ok_set_ctx:
  assumes "host_ok h" and "plugins h q = Some pl"
  shows "host_ok (h\<lparr>plugins := (plugins h)(q := Some (pl\<lparr>plugin_ctx := v\<rparr>))\<rparr>)"
proof -
  let ?h = "h\<lparr>plugins := (plugins h)(q := Some (pl\<lparr>plugin_ctx := v\<rparr>))\<rparr>"
  have "map_ok ?h"
    unfolding map_ok_def
  proof (intro allI impI)
    fix k p e
    assume "plugin_map ?h k = Some (p, e)"
    then have "plugin_map h k = Some (p, e)"
      by simp
    then obtain pl1 ep where "plugins h p = Some pl1" "is_system_wide pl1" "e \<in> set (entry_points pl1)"
        "eps h e = Some ep" "entry_key ep = k"
      using map_okD [OF assms(1)] by metis
    then show "\<exists>pl1 ep. plugins ?h p = Some pl1 \<and> is_system_wide pl1 \<and> e \<in> set (entry_points pl1) \<and>
        eps ?h e = Some ep \<and> entry_key ep = k"
      using assms(2) by (cases "p = q") auto
  qed
  moreover have "plugins_ok ?h"
    using plugins_okD [OF assms(1)] assms(2) by (simp add: plugins_ok_def entries_ok_def)
  moreover have "fresh_ok ?h" "circs_ok ?h"
    using assms by (auto simp: host_ok_def fresh_ok_def circs_ok_def)
  ultimately show ?thesis
    by (simp add: host_ok_def)
qed

text \<open>Every change a plugin can ask for keeps the invariant and the plugin that runs.\<close>

lemma host_call_keeps:
  assumes "host_request p h h'" and "host_ok h"
  shows "host_ok h' \<and> kept p h h' \<and> same_plugin p h h' \<and> same_origins h h'"
  using assms(1)
proof cases
  case (set_ctx q pl v)
  then show ?thesis
    using host_ok_set_ctx [OF assms(2)] by (simp add: kept_def same_plugin_def same_origins_def)
next
  case (cleanup_circ c ci q h1)
  obtain ql where ql: "plugins h q = Some ql"
    using circ_plugins_live [OF assms(2)] cleanup_circ(1,2) by blast
  have h1: "h1 = h\<lparr>circuits := (circuits h)(c := Some (ci\<lparr>circ_plugins := remove_swap q (circ_plugins ci)\<rparr>))\<rparr>" "host_ok h1"
    using cleanup_circ(1,4) host_ok_remove_plugin [OF assms(2) cleanup_circ(1), of q] by (auto simp: circ_plugins_remove_def)
  then have h': "h' = unplugged q ql h1"
    using plugin_unplug_eq [of h1 q ql] cleanup_circ(5) ql by simp
  have "host_ok h'"
    using detach_ok [OF assms(2) cleanup_circ(1,2)] cleanup_circ(4,5) by simp
  moreover have "e \<notin> set (entry_points ql)" if "eps h e = Some ep" "ep_plugin ep = p" for e ep
    using entries_okD [OF plugins_okD [OF assms(2) ql]] that cleanup_circ(3) by (metis option.inject)
  ultimately show ?thesis
    using cleanup_circ(1,3) distinct_remove_swap
    by (auto simp: kept_def same_plugin_def same_origins_def h' h1(1) set_remove_swap)
qed

lemma host_calls_keep:
  assumes "(host_request p)\<^sup>*\<^sup>* h h'" and "host_ok h"
  shows "host_ok h' \<and> kept p h h' \<and> same_plugin p h h' \<and> same_origins h h'"
  using assms
proof (induction rule: rtranclp_induct)
  case base
  then show ?case
    by (simp add: same_origins_def)
next
  case (step h1 h2)
  then show ?case
    using host_call_keeps [OF step.hyps(2)] kept_trans same_plugin_trans by (metis (no_types, lifting) same_origins_def)
qed

lemma run_hook_ok:
  assumes "host_ok h" and "host_calls_only native" and "eps h e = Some ep" and "arg_plugin args = Some (ep_plugin ep)"
  shows "\<exists>r h'. run_hook native h e args = Inr (r, h') \<and> host_ok h' \<and> kept (ep_plugin ep) h h' \<and>
    same_plugin (ep_plugin ep) h h' \<and> same_origins h h'"
proof -
  obtain ret h' where run: "exec_loaded_code native ep args h = (ret, h')"
    by fastforce
  then have "(host_request (ep_plugin ep))\<^sup>*\<^sup>* h h'"
    using assms(1,2,4) by (auto simp: exec_loaded_code_def host_calls_only_def split: if_splits option.splits)
  note kept = host_calls_keep [OF this assms(1)]
  then have "eps h' e = Some ep"
    using assms(3) by (simp add: kept_def)
  then show ?thesis
    using run assms(3) kept by (simp add: run_hook_def plugin_run_def)
qed

text \<open>
  A cleanup runs the \<open>plugin_cleanup\<close> of the plugin, if it has one, and then detaches it; while another
  plugin runs, which that code leaves alone, this is a sequence of changes as above.
\<close>

definition cleanup_code_ends ::
  "'fn native \<Rightarrow> 'fn host \<Rightarrow> nat \<Rightarrow> nat \<Rightarrow> 'fn host \<Rightarrow> bool" where
  "cleanup_code_ends native h c q h1 \<longleftrightarrow> h1 = h \<or>
     (\<exists>e ep. plugin_get_entry_point_by_entry_name h q ''plugin_cleanup'' = Inr (Some e) \<and> eps h e = Some ep \<and>
        h1 = snd (exec_loaded_code native ep \<lparr>arg_circ = Some c, arg_plugin = Some q, arg_param = 0\<rparr> h))"

lemma cleanup_conn_cases:
  assumes "plugin_cleanup_conn enabled native h c u = Inr h'" and "circuit_plugin_get h c u = Inr (Some q)"
  obtains h1 h2 where "cleanup_code_ends native h c q h1" "circ_plugins_remove h1 c q = Inr h2" "plugin_unplug h2 q = Inr h'"
proof -
  let ?args = "\<lparr>arg_circ = Some c, arg_plugin = Some q, arg_param = 0\<rparr>"
  from assms obtain r h1 h2 where
    run: "invoke_plugin_operation_or_default enabled native h (named_key ''plugin_cleanup'')
        PLUGIN_HOUSEKEEPING_CLEANUP_CALLED ?args = Inr (r, h1)"
    and rest: "circ_plugins_remove h1 c q = Inr h2" "plugin_unplug h2 q = Inr h'"
    by (auto simp: plugin_cleanup_conn_def and_then_Inr)
  from run have "cleanup_code_ends native h c q h1"
    by (auto simp: invoke_plugin_operation_or_default_def plugin_is_caller_id_system_wide_def invoke_housekeeping_def
        and_then_Inr run_hook_def plugin_run_def named_key_def cleanup_code_ends_def split_beta
        split: if_splits option.splits)
  then show thesis
    using rest that by blast
qed

lemma cleanup_is_host_calls:
  assumes "host_ok h" and "circuits h c = Some ci" and "circuit_plugin_get h c u = Inr (Some q)" and "q \<noteq> p"
    and "plugin_cleanup_conn enabled native h c u = Inr h'"
    and "\<And>h1. cleanup_code_ends native h c q h1 \<Longrightarrow> (host_request p)\<^sup>*\<^sup>* h h1 \<and> (host_request q)\<^sup>*\<^sup>* h h1"
  shows "(host_request p)\<^sup>*\<^sup>* h h'"
proof -
  from assms(5,3) obtain h1 h2 where h1: "cleanup_code_ends native h c q h1" "circ_plugins_remove h1 c q = Inr h2"
      "plugin_unplug h2 q = Inr h'"
    by (rule cleanup_conn_cases)
  note calls = assms(6) [OF h1(1)]
  have "q \<in> set (circ_plugins ci)"
    using circuit_plugin_get_ok [OF assms(1,2), of u] assms(3) by auto
  then obtain ci1 where "circuits h1 c = Some ci1" "q \<in> set (circ_plugins ci1)"
    using host_calls_keep [of q h h1] calls assms(1,2) unfolding kept_def by blast
  then have "host_request p h1 h'"
    using assms(4) h1(2,3) by (rule cleanup_circ)
  then show ?thesis
    using calls by (meson rtranclp.rtrancl_into_rtrancl)
qed

text \<open>A cleanup frees the entry points of the plugin.\<close>

lemma cleanup_frees_entries:
  assumes "host_ok h" and "circuits h c = Some ci" and "circuit_plugin_get h c u = Inr (Some p)"
    and "plugin_cleanup_conn enabled native h c u = Inr h'"
    and "\<And>h1. cleanup_code_ends native h c p h1 \<Longrightarrow> (host_request p)\<^sup>*\<^sup>* h h1"
    and "plugins h p = Some pl" and "e \<in> set (entry_points pl)"
  shows "plugins h' p = None \<and> eps h' e = None"
proof -
  from assms(4,3) obtain h1 h2 where h1: "cleanup_code_ends native h c p h1" "circ_plugins_remove h1 c p = Inr h2"
      "plugin_unplug h2 p = Inr h'"
    by (rule cleanup_conn_cases)
  note keep = host_calls_keep [OF assms(5) [OF h1(1)] assms(1)]
  then obtain pl1 where pl1: "plugins h1 p = Some pl1" "entry_points pl1 = entry_points pl"
    using assms(6) unfolding same_plugin_def by blast
  obtain ci1 where ci1: "circuits h1 c = Some ci1"
    using h1(2) by (auto simp: circ_plugins_remove_def and_then_Inr)
  have "host_ok h2" "plugins h2 = plugins h1"
    using host_ok_remove_plugin [OF conjunct1 [OF keep] ci1, of p] h1(2) by auto
  then show ?thesis
    using plugin_unplug_eq [of h2 p pl1] pl1 h1(3) assms(7) by auto
qed

lemma invoke_unrecognized_ok:
  assumes "host_ok h" and "host_calls_only native" and "circuits h c = Some ci"
  shows "\<exists>r h'. invoke_unrecognized native h c key args = Inr (r, h') \<and> host_ok h'"
proof -
  from find_plugin_entry_ok [OF assms(1) circ_plugins_live [OF assms(1,3)], of "ei_name key"]
  obtain r where r: "circuit_plugin_entry_point_get h c (ei_name key) = Inr r"
    and found: "\<And>e. r = Some e \<Longrightarrow> \<exists>p pl. p \<in> set (circ_plugins ci) \<and> plugins h p = Some pl \<and> e \<in> set (entry_points pl)"
    using assms(3) by (auto simp: circuit_plugin_entry_point_get_def)
  show ?thesis
  proof (cases r)
    case None
    then show ?thesis
      using r assms(1) by (simp add: invoke_unrecognized_def)
  next
    case (Some e)
    from found [OF this] obtain p pl where p: "p \<in> set (circ_plugins ci)" "plugins h p = Some pl"
        "e \<in> set (entry_points pl)"
      by blast
    from entries_okD [OF plugins_okD [OF assms(1) p(2)] p(3)]
    obtain ep where ep: "eps h e = Some ep" "ep_plugin ep = p"
      by blast
    obtain ret h1 where
      run: "run_hook native h e (args\<lparr>arg_plugin := Some p\<rparr>) = Inr (ret, h1)" "host_ok h1" "kept p h h1"
      using run_hook_ok [OF assms(1,2) ep(1), of "args\<lparr>arg_plugin := Some p\<rparr>"] ep(2) by auto
    obtain ci1 where "circuits h1 c = Some ci1" "p \<in> set (circ_plugins ci1)"
      using run(3) assms(3) p(1) unfolding kept_def by blast
    from detach_ok [OF run(2) this] obtain h2 h3 where
      "circ_plugins_remove h1 c p = Inr h2" "plugin_unplug h2 p = Inr h3" "host_ok h3"
      by (auto simp: and_then_Inr)
    then show ?thesis
      using r Some ep run by (auto simp: invoke_unrecognized_def)
  qed
qed

lemma invoke_housekeeping_ok:
  assumes "host_ok h" and "host_calls_only native" and "\<And>p. arg_plugin args = Some p \<Longrightarrow> plugins h p \<noteq> None"
  shows "\<exists>r h'. invoke_housekeeping native h key args = Inr (r, h') \<and> host_ok h' \<and>
    (\<forall>p. arg_plugin args = Some p \<longrightarrow> kept p h h' \<and> same_plugin p h h' \<and> same_origins h h')"
proof (cases "arg_plugin args")
  case None
  then show ?thesis
    using assms(1) by (simp add: invoke_housekeeping_def)
next
  case (Some p)
  then obtain pl where pl: "plugins h p = Some pl"
    using assms(3) by blast
  from get_entry_point_ok [OF assms(1) pl, of "ei_name key"]
  obtain r where r: "plugin_get_entry_point_by_entry_name h p (ei_name key) = Inr r"
      "\<And>e. r = Some e \<Longrightarrow> \<exists>ep. eps h e = Some ep \<and> ep_plugin ep = p"
    using plugins_okD [OF assms(1) pl] unfolding entries_ok_def by blast
  show ?thesis
  proof (cases r)
    case None
    then show ?thesis
      using Some r(1) assms(1) by (simp add: invoke_housekeeping_def)
  next
    case (Some e)
    then obtain ep where "eps h e = Some ep" "ep_plugin ep = p"
      using r(2) by blast
    then show ?thesis
      using Some \<open>arg_plugin args = Some p\<close> r(1) run_hook_ok [OF assms(1,2), of e ep args]
      by (auto simp: invoke_housekeeping_def)
  qed
qed

text \<open>The padding callback is a housekeeping run on the plugin with uid 42.\<close>

lemma invoke_padding_callback_eq:
  "circuit_plugin_get h c 42 = Inr (Some p) \<Longrightarrow>
    invoke_padding_callback native h c key args = invoke_housekeeping native h key (args\<lparr>arg_plugin := Some p\<rparr>)"
  by (simp add: invoke_padding_callback_def invoke_housekeeping_def)

lemma invoke_padding_callback_ok:
  assumes "host_ok h" and "host_calls_only native" and "circuits h c = Some ci"
  shows "\<exists>r h'. invoke_padding_callback native h c key args = Inr (r, h') \<and> host_ok h'"
proof -
  from circuit_plugin_get_ok [OF assms(1,3), of 42] obtain r where r: "circuit_plugin_get h c 42 = Inr r"
      "\<And>p. r = Some p \<Longrightarrow> plugins h p \<noteq> None"
    by fastforce
  show ?thesis
  proof (cases r)
    case None
    then show ?thesis
      using r(1) assms(1) by (simp add: invoke_padding_callback_def)
  next
    case (Some p)
    then show ?thesis
      using r invoke_housekeeping_ok [OF assms(1,2), of "args\<lparr>arg_plugin := Some p\<rparr>" key]
        invoke_padding_callback_eq by fastforce
  qed
qed

text \<open>What the callers of a hook guarantee.\<close>

definition args_ok :: "'fn host \<Rightarrow> entry_info \<Rightarrow> caller_id \<Rightarrow> call_args \<Rightarrow> bool" where
  "args_ok h key caller args \<longleftrightarrow> length (ei_name key) \<le> 256 \<and>
     (caller \<in> {RELAY_CIRCUIT_UNRECOGNIZED_DATA_RECEIVED, CIRCPAD_SEND_PADDING_CALLBACK} \<longrightarrow>
        (\<exists>c. arg_circ args = Some c \<and> circuits h c \<noteq> None)) \<and>
     (\<forall>p. arg_plugin args = Some p \<longrightarrow> plugins h p \<noteq> None)"

lemma invoke_ok:
  assumes "host_ok h" and "host_calls_only native" and "args_ok h key caller args"
  shows "\<exists>r h'. invoke_plugin_operation_or_default enabled native h key caller args = Inr (r, h') \<and> host_ok h'"
proof (cases "enabled \<and> plugin_is_caller_id_system_wide caller")
  case True
  show ?thesis
  proof (cases "plugin_map h key")
    case None
    then show ?thesis
      using True assms(1,3)
      by (simp add: invoke_plugin_operation_or_default_def plugin_get_def plugin_entry_hash_def args_ok_def)
  next
    case (Some v)
    obtain p e where v: "v = (p, e)"
      by (cases v)
    then obtain ep where ep: "eps h e = Some ep" "ep_plugin ep = p"
      using Some map_okD [OF assms(1)] by blast
    have "arg_plugin (system_args caller p (ei_param key) args) = Some (ep_plugin ep)"
      by (simp add: system_args_def ep(2))
    from run_hook_ok [OF assms(1,2) ep(1) this] obtain r h' where
      "run_hook native h e (system_args caller p (ei_param key) args) = Inr (r, h')" "host_ok h'"
      by blast
    then show ?thesis
      using True Some v assms(3)
      by (simp add: invoke_plugin_operation_or_default_def plugin_get_def plugin_entry_hash_def args_ok_def)
  qed
next
  case False
  have hk: "\<exists>r h'. invoke_housekeeping native h key args = Inr (r, h') \<and> host_ok h'"
    using invoke_housekeeping_ok [OF assms(1,2), of args key] assms(3) by (auto simp: args_ok_def)
  have padding: "\<exists>r h'. invoke_padding_callback native h c key args = Inr (r, h') \<and> host_ok h'"
    if "circuits h c = Some ci" for c ci
    using invoke_padding_callback_ok [OF assms(1,2) that] by blast
  show ?thesis
  proof (cases caller)
    case RELAY_CIRCUIT_UNRECOGNIZED_DATA_RECEIVED
    then show ?thesis
      using False assms(1,3) invoke_unrecognized_ok [OF assms(1,2)]
      by (auto simp: invoke_plugin_operation_or_default_def args_ok_def plugin_is_caller_id_system_wide_def)
  next
    case CIRCPAD_SEND_PADDING_CALLBACK
    then show ?thesis
      using False assms(1,3) padding
      by (auto simp: invoke_plugin_operation_or_default_def args_ok_def plugin_is_caller_id_system_wide_def)
  qed (use False assms(1) hk in
      \<open>auto simp: invoke_plugin_operation_or_default_def plugin_is_caller_id_system_wide_def\<close>)
qed

lemma cleanup_ok:
  assumes "host_ok h" and "host_calls_only native" and "circuits h c = Some ci"
  shows "\<exists>h'. plugin_cleanup_conn enabled native h c u = Inr h' \<and> host_ok h'"
proof -
  from circuit_plugin_get_ok [OF assms(1,3), of u] obtain r where r: "circuit_plugin_get h c u = Inr r"
      "\<And>p. r = Some p \<Longrightarrow> p \<in> set (circ_plugins ci) \<and> plugins h p \<noteq> None"
    by fastforce
  show ?thesis
  proof (cases r)
    case None
    then show ?thesis
      using r(1) assms(1) by (simp add: plugin_cleanup_conn_def)
  next
    case (Some p)
    let ?args = "\<lparr>arg_circ = Some c, arg_plugin = Some p, arg_param = 0\<rparr>"
    have p: "p \<in> set (circ_plugins ci)" "plugins h p \<noteq> None"
      using r(2) [OF Some] by simp_all
    have "\<exists>r h'. invoke_housekeeping native h (named_key ''plugin_cleanup'') ?args = Inr (r, h') \<and> host_ok h' \<and>
        (\<forall>q. arg_plugin ?args = Some q \<longrightarrow> kept q h h' \<and> same_plugin q h h' \<and> same_origins h h')"
      using p(2) by (intro invoke_housekeeping_ok [OF assms(1,2)]) auto
    then obtain ret h1 where h1: "invoke_plugin_operation_or_default enabled native h
        (named_key ''plugin_cleanup'') PLUGIN_HOUSEKEEPING_CLEANUP_CALLED ?args = Inr (ret, h1)"
        "host_ok h1" "kept p h h1"
      using assms(1)
      by (cases enabled) (auto simp: invoke_plugin_operation_or_default_def plugin_is_caller_id_system_wide_def)
    obtain ci1 where "circuits h1 c = Some ci1" "p \<in> set (circ_plugins ci1)"
      using h1(3) assms(3) p(1) unfolding kept_def by blast
    from detach_ok [OF h1(2) this] show ?thesis
      using r(1) Some h1(1) by (auto simp: plugin_cleanup_conn_def)
  qed
qed

text \<open>Unplugging does not look at the circuits.\<close>

lemma circuits_last:
  "h\<lparr>circuits := X, eps := Y\<rparr> = h\<lparr>eps := Y, circuits := X\<rparr>"
  "h\<lparr>circuits := X, plugin_map := Z\<rparr> = h\<lparr>plugin_map := Z, circuits := X\<rparr>"
  "h\<lparr>circuits := X, plugins := P\<rparr> = h\<lparr>plugins := P, circuits := X\<rparr>"
  by simp_all

lemma unplug_entries_circuits:
  "unplug_entries sw es (h\<lparr>circuits := X\<rparr>) = map_sum id (\<lambda>h'. h'\<lparr>circuits := X\<rparr>) (unplug_entries sw es h)"
proof (induction es arbitrary: h)
  case (Cons e es)
  show ?case
  proof (cases "eps h e")
    case (Some ep)
    define h1 where "h1 = (if sw then h\<lparr>plugin_map := (plugin_map h)(entry_key ep := None)\<rparr> else h)
      \<lparr>eps := (eps h)(e := None)\<rparr>"
    show ?thesis
      using Some Cons.IH [of h1]
      by (auto simp: h1_def plugin_map_entrypoint_remove_def plugin_entry_hash_def circuits_last)
  qed simp
qed simp

lemma unplug_all_circuits:
  "unplug_all ps (h\<lparr>circuits := X\<rparr>) = map_sum id (\<lambda>h'. h'\<lparr>circuits := X\<rparr>) (unplug_all ps h)"
proof (induction ps arbitrary: h)
  case (Cons p ps)
  have "plugin_unplug (h\<lparr>circuits := X\<rparr>) p = map_sum id (\<lambda>h'. h'\<lparr>circuits := X\<rparr>) (plugin_unplug h p)"
  proof (cases "plugins h p")
    case (Some pl)
    then show ?thesis
      by (cases "unplug_entries (is_system_wide pl) (entry_points pl) h")
        (simp_all add: plugin_unplug_def unplug_entries_circuits circuits_last)
  qed (simp add: plugin_unplug_def)
  then show ?case
    using Cons by (cases "plugin_unplug h p") simp_all
qed simp

lemma unplug_all_ok:
  assumes "host_ok h" and "distinct ps" and "\<forall>p \<in> set ps. plugins h p \<noteq> None \<and> \<not> attached h p"
  shows "\<exists>h'. unplug_all ps h = Inr h' \<and> host_ok h' \<and> circuits h' = circuits h"
  using assms
proof (induction ps arbitrary: h)
  case (Cons p ps)
  then obtain pl where pl: "plugins h p = Some pl"
    by auto
  have "host_ok (unplugged p pl h)"
    using host_ok_unplugged [OF Cons.prems(1) pl] Cons.prems(3) by simp
  moreover have "\<forall>q \<in> set ps. plugins (unplugged p pl h) q \<noteq> None \<and> \<not> attached (unplugged p pl h) q"
    using Cons.prems(2,3) by (auto simp: attached_def)
  ultimately have "\<exists>h'. unplug_all ps (unplugged p pl h) = Inr h' \<and> host_ok h' \<and> circuits h' = circuits (unplugged p pl h)"
    using Cons.prems(2) by (intro Cons.IH) simp_all
  then show ?case
    using plugin_unplug_eq [OF Cons.prems(1) pl] by simp
qed simp

lemma circuit_free_ok:
  assumes "host_ok h" and "circuits h c = Some ci"
  shows "\<exists>h'. circuit_free_plugins h c = Inr h' \<and> host_ok h' \<and> circuits h' c = None"
proof -
  let ?X = "(circuits h)(c := None)"
  let ?h = "h\<lparr>circuits := ?X\<rparr>"
  have circs: "circs_ok h"
    using assms(1) by (simp add: host_ok_def)
  have "circs_ok ?h"
    using circs unfolding circs_ok_def by simp
  then have "host_ok ?h"
    using assms(1) by (simp add: host_ok_def map_ok_def plugins_ok_def entries_ok_def fresh_ok_def)
  moreover have "distinct (circ_plugins ci)"
    and "\<forall>p \<in> set (circ_plugins ci). plugins ?h p \<noteq> None \<and> \<not> attached ?h p"
    using circs assms(2) unfolding circs_ok_def attached_def by (simp, force)
  ultimately obtain h1 where h1: "unplug_all (circ_plugins ci) ?h = Inr h1" "host_ok h1" "circuits h1 = ?X"
    using unplug_all_ok by fastforce
  then obtain h2 where h2: "unplug_all (circ_plugins ci) h = Inr h2" "h1 = h2\<lparr>circuits := ?X\<rparr>"
    unfolding unplug_all_circuits by (cases "unplug_all (circ_plugins ci) h") auto
  have "unplug_all (circ_plugins ci) (h\<lparr>circuits := circuits h\<rparr>) = Inr (h2\<lparr>circuits := circuits h\<rparr>)"
    unfolding unplug_all_circuits by (simp add: h2(1))
  then have "circuits h2 = circuits h"
    using h2(1) by (metis host.surjective host.update_convs(3) host.select_convs(3) sum.inject(2))
  then show ?thesis
    using assms(2) h1(2) h2 by (simp add: circuit_free_plugins_def)
qed

section \<open>Properties\<close>

text \<open>
  C24. What is plugged is run: after a system-wide plugin has plugged an entry point under a new key, the
  hook with that key runs the code that was loaded for it, with the plugin and the parameter in its
  arguments, and the hook returns what the code returns.
\<close>

theorem plugged_code_runs:
  assumes "plugin_plug_elf load h p einfo path = Inr (h', 0)" and "plugins h p = Some pl" and "is_system_wide pl"
    and "plugin_map h einfo = None" and "load path (memory_addr pl) (memory_size pl) = Inr (Some (vm, fn))"
    and "plugin_is_caller_id_system_wide caller"
    and "native fn (system_args caller p (ei_param einfo) args) h' = (ret, h'')" and "kept p h' h''"
  shows "invoke_plugin_operation_or_default True native h' einfo caller args = Inr (as_int ret, h'')"
proof -
  have hash: "plugin_entry_hash einfo = Inr ()"
    using assms(1-3) by (auto simp: plugin_plug_elf_def plugin_get_def and_then_Inr)
  have h': "plugin_map h' einfo = Some (p, next_addr h)"
    and ep: "\<exists>ep. eps h' (next_addr h) = Some ep \<and> ep_vm ep = Some vm \<and> ep_fn ep = Some fn \<and> ep_plugin ep = p"
    using assms(1) by (cases rule: plugin_plug_elf_cases; use assms(2-5) in simp)+
  then obtain ep where "eps h' (next_addr h) = Some ep" "ep_vm ep = Some vm" "ep_fn ep = Some fn" "ep_plugin ep = p"
    by blast
  then show ?thesis
    using assms(6-8) h' hash
    by (simp add: invoke_plugin_operation_or_default_def plugin_get_def run_hook_def plugin_run_def
        exec_loaded_code_def kept_def)
qed

definition demo_plugin :: plugin where
  "demo_plugin = \<lparr>pname = ''sendme.plugin'', memory_addr = 0x1000, memory_size = 0x100, entry_points = [],
     uid = 7, is_system_wide = True, plugin_ctx = 0\<rparr>"

definition demo_host :: "unit host" where
  "demo_host = \<lparr>plugins = (\<lambda>_. None)(0 := Some demo_plugin), eps = (\<lambda>_. None), circuits = (\<lambda>_. None),
     plugin_map = (\<lambda>_. None), next_addr = 1\<rparr>"

definition demo_info :: entry_info where
  "demo_info = \<lparr>ei_name = ''circuit_consider_sending_sendme'', ei_ptype = PLUGIN_DEV,
     ei_putype = PLUGIN_CODE_HIJACK, ei_pfamily = PLUGIN_PROTOCOL_RELAY, ei_param = 3\<rparr>"

definition demo_load :: "unit loader" where
  "demo_load path a n = Inr (Some (empty_vm, ()))"

definition demo_args :: call_args where
  "demo_args = \<lparr>arg_circ = None, arg_plugin = None, arg_param = 0\<rparr>"

lemma demo_plug:
  "plugin_plug_elf demo_load demo_host 0 demo_info ''sendme.o'' =
    Inr ((add_entry_point demo_host 0 demo_plugin demo_info (empty_vm, ()))
      \<lparr>plugin_map := (\<lambda>_. None)(demo_info := Some (0, 1))\<rparr>, 0)"
  by (simp add: plugin_plug_elf_def plugin_get_def plugin_entry_hash_def plugin_map_insert_def demo_host_def
      demo_plugin_def demo_info_def demo_load_def Let_def)

theorem plugged_code_runs_witness:
  "\<exists>h'. plugin_plug_elf demo_load demo_host 0 demo_info ''sendme.o'' = Inr (h', 0) \<and>
    invoke_plugin_operation_or_default True (\<lambda>_ a h. (ucast (of_int (arg_param a) :: u64), h)) h' demo_info
      RELAY_REPLACE_PROCESS_EDGE_SENDME demo_args = Inr (3, h')"
proof -
  let ?h = "(add_entry_point demo_host 0 demo_plugin demo_info (empty_vm, ()))
      \<lparr>plugin_map := (\<lambda>_. None)(demo_info := Some (0, 1))\<rparr>"
  have "invoke_plugin_operation_or_default True (\<lambda>_ a h. (ucast (of_int (arg_param a) :: u64), h)) ?h demo_info
      RELAY_REPLACE_PROCESS_EDGE_SENDME demo_args = Inr (as_int 3, ?h)"
    by (rule plugged_code_runs [OF demo_plug, where pl = demo_plugin and vm = empty_vm and fn = "()"])
      (simp_all add: demo_host_def demo_plugin_def demo_load_def demo_args_def demo_info_def
        plugin_is_caller_id_system_wide_def system_args_def)
  moreover have "as_int 3 = 3"
    by (simp add: as_int_def)
  ultimately show ?thesis
    using demo_plug by auto
qed

text \<open>
  Unplugging is complete and local: it succeeds, afterwards the plugin is gone and no entry of the table
  leads to it, and when its own entry points are the ones its keys lead to, the entries of all other
  plugins are as before.
\<close>

lemma unplug_forgets:
  assumes "host_ok h" and "plugins h p = Some pl" and "\<not> attached h p"
  shows "\<exists>h'. plugin_unplug h p = Inr h' \<and> host_ok h' \<and> plugins h' p = None \<and>
    (\<forall>k q e. plugin_map h' k = Some (q, e) \<longrightarrow> q \<noteq> p \<and> plugin_map h k = Some (q, e)) \<and>
    ((\<forall>e \<in> set (entry_points pl). \<forall>ep. eps h e = Some ep \<longrightarrow> plugin_map h (entry_key ep) = Some (p, e)) \<longrightarrow>
      (\<forall>k q e. plugin_map h k = Some (q, e) \<longrightarrow> q \<noteq> p \<longrightarrow> plugin_map h' k = Some (q, e)))"
proof (intro exI [of _ "unplugged p pl h"] conjI impI allI)
  fix k q e
  assume own: "\<forall>e \<in> set (entry_points pl). \<forall>ep. eps h e = Some ep \<longrightarrow> plugin_map h (entry_key ep) = Some (p, e)"
    and k: "plugin_map h k = Some (q, e)" "q \<noteq> p"
  have "map_option entry_key (eps h e') \<noteq> Some k" if "e' \<in> set (entry_points pl)" for e'
    using own that k by auto
  then show "plugin_map (unplugged p pl h) k = Some (q, e)"
    using k(1) by simp
next
  show "plugin_unplug h p = Inr (unplugged p pl h)"
    by (rule plugin_unplug_eq [OF assms(1,2)])
  show "host_ok (unplugged p pl h)"
    by (rule host_ok_unplugged [OF assms])
  show "plugins (unplugged p pl h) p = None"
    by simp
  fix k q e
  assume "plugin_map (unplugged p pl h) k = Some (q, e)"
  note old = unplugged_map [OF assms(1,2) this]
  show "q \<noteq> p"
    using old by blast
  show "plugin_map h k = Some (q, e)"
    using old by blast
qed

end
