(* ===== verification/Plugin_Helper.thy ===== *)
theory Plugin_Helper
  imports Plugin_Host
begin

text \<open>
  Reading plugins from the disk (\<^verbatim>\<open>src/core/or/plugin_helper.c\<close>): the lines of a
  \<^verbatim>\<open>.plugin\<close> file, the transaction that plugs all of them or none, and the search through
  the directory of plugins. The string functions of the C library that the code uses are modelled on
  strings without the terminating zero; a \<open>NULL\<close> string is \<^const>\<open>None\<close>.
\<close>

section \<open>String functions\<close>

definition strsep :: "char \<Rightarrow> string option \<Rightarrow> string option \<times> string option" where
  "strsep d s =
     (case s of
        None \<Rightarrow> (None, None)
      | Some s \<Rightarrow> (Some (takeWhile (\<lambda>c. c \<noteq> d) s),
          (case dropWhile (\<lambda>c. c \<noteq> d) s of [] \<Rightarrow> None | _ # r \<Rightarrow> Some r)))"

text \<open>\<open>strncmp(s, lit, strlen(lit)) == 0\<close>.\<close>

definition starts_with :: "string \<Rightarrow> string \<Rightarrow> bool" where
  "starts_with lit s \<longleftrightarrow> take (length lit) s = lit"

definition space :: char where "space = CHR '' ''"
definition newline :: char where "newline = CHR 0x0A"
definition carriage_return :: char where "carriage_return = CHR 0x0D"

definition is_space :: "char \<Rightarrow> bool" where
  "is_space c \<longleftrightarrow> c \<in> {CHR '' '', CHR 0x09, CHR 0x0A, CHR 0x0B, CHR 0x0C, CHR 0x0D}"

definition digit_value :: "char \<Rightarrow> int" where
  "digit_value c =
     (let n = of_char c :: int in
      if 48 \<le> n \<and> n \<le> 57 then n - 48
      else if 97 \<le> n \<and> n \<le> 122 then n - 87
      else if 65 \<le> n \<and> n \<le> 90 then n - 55
      else 36)"

fun digits_value :: "int \<Rightarrow> int \<Rightarrow> string \<Rightarrow> int" where
  "digits_value b acc [] = acc"
| "digits_value b acc (c # cs) = digits_value b (acc * b + digit_value c) cs"

text \<open>\<open>strtoul(s, &end, 0)\<close>: the value and the text from \<open>end\<close> on.\<close>

definition strtoul_sign :: "string \<Rightarrow> bool \<times> string" where
  "strtoul_sign s =
     (case s of
        c # r \<Rightarrow> (if c = CHR ''-'' then (True, r) else if c = CHR ''+'' then (False, r) else (False, s))
      | [] \<Rightarrow> (False, []))"

definition strtoul_base :: "string \<Rightarrow> int \<times> string" where
  "strtoul_base s =
     (case s of
        z # x # d # r \<Rightarrow>
          (if z = CHR ''0'' \<and> (x = CHR ''x'' \<or> x = CHR ''X'') \<and> digit_value d < 16 then (16, d # r)
           else if z = CHR ''0'' then (8, s) else (10, s))
      | z # _ \<Rightarrow> (if z = CHR ''0'' then (8, s) else (10, s))
      | [] \<Rightarrow> (10, []))"

definition strtoul :: "string \<Rightarrow> u64 \<times> string" where
  "strtoul s =
     (let (neg, s2) = strtoul_sign (dropWhile is_space s);
          (b, s3) = strtoul_base s2;
          ds = takeWhile (\<lambda>c. digit_value c < b) s3;
          v = digits_value b 0 ds
      in if ds = [] then (0, s)
         else (if 2 ^ 64 \<le> v then UINT64_MAX else if neg then - of_int v else of_int v,
               dropWhile (\<lambda>c. digit_value c < b) s3))"

text \<open>The conversion of an \<open>unsigned long\<close> to \<open>int\<close>.\<close>

abbreviation to_int :: "u64 \<Rightarrow> int" where
  "to_int v \<equiv> as_int v"

section \<open>One line\<close>

definition MAX_PATH :: nat where "MAX_PATH = 255"

text \<open>The family of a line; an unknown word leaves the zeroes of \<open>memset\<close>.\<close>

definition set_family :: "string \<Rightarrow> entry_info \<Rightarrow> entry_info" where
  "set_family tok i =
     (if starts_with ''protocol_relay'' tok then i\<lparr>ei_pfamily := PLUGIN_PROTOCOL_RELAY, ei_ptype := PLUGIN_DEV\<rparr>
      else if starts_with ''protocol_circpad'' tok then i\<lparr>ei_pfamily := PLUGIN_PROTOCOL_CIRCPAD, ei_ptype := PLUGIN_DEV\<rparr>
      else if starts_with ''protocol_conn_edge'' tok then i\<lparr>ei_pfamily := PLUGIN_PROTOCOL_CONN_EDGE, ei_ptype := PLUGIN_DEV\<rparr>
      else if starts_with ''protocol_plugin'' tok then i\<lparr>ei_pfamily := PLUGIN_PROTOCOL_PLUGIN, ei_ptype := PLUGIN_DEV\<rparr>
      else i)"

definition usage_of :: "string \<Rightarrow> plugin_usage_type option" where
  "usage_of tok =
     (if starts_with ''replace'' tok then Some PLUGIN_CODE_HIJACK
      else if starts_with ''del'' tok then Some PLUGIN_CODE_DEL
      else if starts_with ''add'' tok then Some PLUGIN_CODE_ADD
      else None)"

text \<open>
  The optional parameter: the parameter, the next token and the rest of the line; \<open>Inr None\<close> is the
  return value -1.
\<close>

definition parse_param ::
  "string \<Rightarrow> string option \<Rightarrow> host_fault + (int \<times> string \<times> string option) option" where
  "parse_param tok rest =
     (if \<not> starts_with ''param'' tok then Inr (Some (0, tok, rest))
      else case strsep space rest of
        (None, _) \<Rightarrow> Inl Null_Dereference
      | (Some num, rest1) \<Rightarrow>
          (if snd (strtoul num) \<noteq> [] then Inr None
           else case strsep space rest1 of
             (None, _) \<Rightarrow> Inl Null_Dereference
           | (Some tok2, rest2) \<Rightarrow> Inr (Some (to_int (fst (strtoul num)), tok2, rest2))))"

text \<open>The path of the object file, in a buffer of \<open>MAX_PATH\<close> bytes.\<close>

definition elf_path :: "string \<Rightarrow> string \<Rightarrow> host_fault + string" where
  "elf_path dir file =
     (let path = take (MAX_PATH - 1) dir @ ''/'' @ file
      in if MAX_PATH \<le> length path then Inl Path_Overflow else Inr path)"

text \<open>
  What a line says: the entry and its object file; \<open>Inr None\<close> is the return value -1. The first function
  is the part after the optional parameter.
\<close>

definition parse_usage ::
  "string \<Rightarrow> entry_info \<Rightarrow> string \<Rightarrow> string option \<Rightarrow> host_fault + (entry_info \<times> string) option" where
  "parse_usage plugin_dirname einfo tok rest =
     (case usage_of tok of
        None \<Rightarrow> Inr None
      | Some usage \<Rightarrow>
          (case fst (strsep space rest) of
             None \<Rightarrow> Inr None
           | Some file \<Rightarrow>
               and_then (elf_path plugin_dirname (takeWhile (\<lambda>c. c \<noteq> carriage_return \<and> c \<noteq> newline) file))
                 (\<lambda>path. Inr (Some (einfo\<lparr>ei_putype := usage\<rparr>, path)))))"

definition parse_line :: "string \<Rightarrow> string \<Rightarrow> host_fault + (entry_info \<times> string) option" where
  "parse_line plugin_dirname line =
     (case strsep space (Some line) of
        (None, _) \<Rightarrow> Inr None
      | (Some name, l1) \<Rightarrow>
     (case strsep space l1 of
        (None, _) \<Rightarrow> Inr None
      | (Some fam, l2) \<Rightarrow>
     (case strsep space l2 of
        (None, _) \<Rightarrow> Inr None
      | (Some tok, l3) \<Rightarrow>
          and_then (parse_param tok l3) (\<lambda>parsed.
            case parsed of
              None \<Rightarrow> Inr None
            | Some (prm, tok2, l4) \<Rightarrow>
                parse_usage plugin_dirname
                  ((set_family fam (zero_info\<lparr>ei_name := name\<rparr>))\<lparr>ei_param := prm\<rparr>) tok2 l4))))"

definition insert_plugin_from_transaction_line ::
  "'fn loader \<Rightarrow> 'fn host \<Rightarrow> string \<Rightarrow> string \<Rightarrow> nat \<Rightarrow> host_fault + 'fn host \<times> int" where
  "insert_plugin_from_transaction_line load h line plugin_dirname p =
     and_then (parse_line plugin_dirname line) (\<lambda>parsed.
       case parsed of
         None \<Rightarrow> Inr (h, -1)
       | Some (einfo, elfpath) \<Rightarrow> plugin_plug_elf load h p einfo elfpath)"

section \<open>One file\<close>

text \<open>The lines that successive calls of \<open>getline\<close> return, each with its newline.\<close>

fun getlines :: "string \<Rightarrow> string list" where
  "getlines [] = []"
| "getlines (c # cs) =
     (if c = newline then [c] # getlines cs
      else case getlines cs of [] \<Rightarrow> [[c]] | l # ls \<Rightarrow> (c # l) # ls)"

text \<open>
  The two header lines: a keyword, a space and a number up to the newline. \<open>Inr None\<close> abandons the file.
\<close>

definition header_number :: "string \<Rightarrow> string \<Rightarrow> host_fault + (u64 \<times> string) option" where
  "header_number keyword line =
     (case strsep space (Some line) of
        (None, _) \<Rightarrow> Inr None
      | (Some tok, rest) \<Rightarrow>
          (if \<not> starts_with keyword tok then Inr None
           else case strsep newline rest of
             (None, _) \<Rightarrow> Inl Null_Dereference
           | (Some num, _) \<Rightarrow> Inr (Some (strtoul num))))"

definition is_flag :: "string \<Rightarrow> bool" where
  "is_flag line \<longleftrightarrow> starts_with ''system-wide'' line"

definition set_system_wide :: "'fn host \<Rightarrow> nat \<Rightarrow> host_fault + 'fn host" where
  "set_system_wide h p =
     and_then (deref (plugins h) p) (\<lambda>pl.
       Inr (h\<lparr>plugins := (plugins h)(p := Some (pl\<lparr>is_system_wide := True\<rparr>))\<rparr>))"

text \<open>
  The loop over the other lines. The test for blank lines compares the size of the buffer of \<open>getline\<close>,
  which is never below two, so that no line is skipped.
\<close>

fun transaction_lines ::
  "'fn loader \<Rightarrow> string \<Rightarrow> nat \<Rightarrow> string list \<Rightarrow> 'fn host \<Rightarrow> host_fault + 'fn host \<times> bool" where
  "transaction_lines load dir p [] h = Inr (h, True)"
| "transaction_lines load dir p (line # lines) h =
     (if is_flag line then and_then (set_system_wide h p) (transaction_lines load dir p lines)
      else and_then (insert_plugin_from_transaction_line load h line dir p) (\<lambda>(h1, ret).
        if ret \<noteq> 0 then Inr (h1, False) else transaction_lines load dir p lines h1))"

text \<open>\<open>plugin_memory_init\<close> in the store; \<open>heap_at\<close> is the address of the heap of a plugin.\<close>

definition new_plugin :: "(nat \<Rightarrow> u64) \<Rightarrow> 'fn host \<Rightarrow> int \<Rightarrow> u64 \<Rightarrow> string \<Rightarrow> host_fault + 'fn host \<times> nat" where
  "new_plugin heap_at h memory_needed u filename =
     (if memory_needed < 0 then Inl Assertion_Failed
      else let p = next_addr h in
        Inr (h\<lparr>plugins := (plugins h)(p := Some \<lparr>pname = filename, memory_addr = heap_at p,
                 memory_size = of_int memory_needed, entry_points = [], uid = u, is_system_wide = False,
                 plugin_ctx = 0\<rparr>),
               next_addr := Suc p\<rparr>, p))"

definition transaction_body ::
  "'fn loader \<Rightarrow> (nat \<Rightarrow> u64) \<Rightarrow> 'fn host \<Rightarrow> string \<Rightarrow> string \<Rightarrow> int \<Rightarrow> u64 \<Rightarrow> string list \<Rightarrow>
     host_fault + 'fn host \<times> nat option" where
  "transaction_body load heap_at h dir filename memory_needed u lines =
     and_then (new_plugin heap_at h memory_needed u filename) (\<lambda>(h1, p).
     and_then (transaction_lines load dir p lines h1) (\<lambda>(h2, ok).
       if ok then Inr (h2, Some p)
       else and_then (plugin_unplug h2 p) (\<lambda>h3. Inr (h3, None))))"

text \<open>The header of a file: the size of the heap, the uid and the other lines.\<close>

definition read_uid :: "u64 \<Rightarrow> string list \<Rightarrow> host_fault + (u64 \<times> string list) option" where
  "read_uid looking_for lines =
     (case lines of
        [] \<Rightarrow> Inr None
      | line # rest \<Rightarrow>
          and_then (header_number ''uid'' line) (\<lambda>num.
            case num of
              None \<Rightarrow> Inr None
            | Some (u, tail) \<Rightarrow>
                if looking_for \<noteq> 0 \<and> looking_for \<noteq> u then Inr None
                else if tail \<noteq> [] then Inr None
                else Inr (Some (u, rest))))"

definition read_header :: "u64 \<Rightarrow> string list \<Rightarrow> host_fault + (int \<times> u64 \<times> string list) option" where
  "read_header looking_for lines =
     (case lines of
        [] \<Rightarrow> Inr None
      | line # rest \<Rightarrow>
          and_then (header_number ''memory'' line) (\<lambda>num.
            case num of
              None \<Rightarrow> Inr None
            | Some (m, tail) \<Rightarrow>
                if tail \<noteq> [] then Inr None
                else and_then (read_uid looking_for rest) (\<lambda>r. Inr (map_option (\<lambda>(u, ls). (to_int m, u, ls)) r))))"

definition plugin_insert_transaction ::
  "'fn loader \<Rightarrow> (nat \<Rightarrow> u64) \<Rightarrow> (string \<Rightarrow> string option) \<Rightarrow> 'fn host \<Rightarrow> string \<Rightarrow> string \<Rightarrow> string \<Rightarrow> u64 \<Rightarrow>
     host_fault + 'fn host \<times> nat option" where
  "plugin_insert_transaction load heap_at files h dir filepath filename looking_for =
     (case files filepath of
        None \<Rightarrow> Inr (h, None)
      | Some content \<Rightarrow>
          and_then (read_header looking_for (getlines content)) (\<lambda>header.
            case header of
              None \<Rightarrow> Inr (h, None)
            | Some (memory_needed, u, lines) \<Rightarrow>
                transaction_body load heap_at h dir filename memory_needed u lines))"

section \<open>The directory\<close>

text \<open>
  What the loop finds for a name in the directory: \<open>stat\<close> fails, it is no directory, it is a directory
  that cannot be opened, or a directory with these names.
\<close>

datatype dir_entry = Stat_Failed | Not_A_Directory | Unreadable | Directory "string list"

definition has_suffix :: "string \<Rightarrow> string \<Rightarrow> bool" where
  "has_suffix suf s \<longleftrightarrow> length suf \<le> length s \<and> drop (length s - length suf) s = suf"

fun try_uids ::
  "(u64 \<Rightarrow> 'fn host \<Rightarrow> host_fault + 'fn host \<times> nat option) \<Rightarrow> u64 list \<Rightarrow> 'fn host \<Rightarrow>
     host_fault + 'fn host \<times> nat option" where
  "try_uids ins [] h = Inr (h, None)"
| "try_uids ins (u # us) h =
     and_then (ins u h) (\<lambda>(h1, r). case r of Some p \<Rightarrow> Inr (h1, Some p) | None \<Rightarrow> try_uids ins us h1)"

definition visit_directory ::
  "'fn loader \<Rightarrow> (nat \<Rightarrow> u64) \<Rightarrow> (string \<Rightarrow> string option) \<Rightarrow> u64 list \<Rightarrow> string \<Rightarrow> string list \<Rightarrow> 'fn host \<Rightarrow>
     host_fault + 'fn host \<times> nat option" where
  "visit_directory load heap_at files uids dir names h =
     (case filter (has_suffix ''.plugin'') names of
        [] \<Rightarrow> Inr (h, None)
      | f # _ \<Rightarrow>
          try_uids (\<lambda>u h. plugin_insert_transaction load heap_at files h dir (dir @ ''/'' @ f) f u)
            (if uids = [] then [0] else uids) h)"

text \<open>After a failed \<open>stat\<close> the directory stream is closed and the loop reads from it again.\<close>

fun visit_all ::
  "'fn loader \<Rightarrow> (nat \<Rightarrow> u64) \<Rightarrow> (string \<Rightarrow> string option) \<Rightarrow> u64 list \<Rightarrow> string \<Rightarrow> (string \<times> dir_entry) list \<Rightarrow>
     'fn host \<Rightarrow> nat list \<Rightarrow> host_fault + 'fn host \<times> nat list" where
  "visit_all load heap_at files uids root [] h found = Inr (h, found)"
| "visit_all load heap_at files uids root ((name, entry) # rest) h found =
     (if name = ''.'' \<or> name = ''..'' then visit_all load heap_at files uids root rest h found
      else case entry of
        Stat_Failed \<Rightarrow> Inl Use_After_Free
      | Not_A_Directory \<Rightarrow> visit_all load heap_at files uids root rest h found
      | Unreadable \<Rightarrow> Inl Null_Dereference
      | Directory names \<Rightarrow>
          and_then (visit_directory load heap_at files uids (root @ ''/'' @ name) names h) (\<lambda>(h1, r).
            visit_all load heap_at files uids root rest h1
              (case r of None \<Rightarrow> found | Some p \<Rightarrow> found @ [p])))"

text \<open>The file system of the host: its plugin directory, if it can be opened, and the text files.\<close>

record 'fn disk =
  plugins_directory :: string
  dir_entries :: "(string \<times> dir_entry) list option"
  text_files :: "string \<Rightarrow> string option"
  elf_loader :: "'fn loader"
  heap_addr :: "nat \<Rightarrow> u64"

definition plugin_helper_find_all_and_init ::
  "'fn disk \<Rightarrow> u64 list \<Rightarrow> 'fn host \<Rightarrow> host_fault + 'fn host \<times> nat list option" where
  "plugin_helper_find_all_and_init d uids h =
     (case dir_entries d of
        None \<Rightarrow> Inr (h, None)
      | Some es \<Rightarrow>
          and_then (visit_all (elf_loader d) (heap_addr d) (text_files d) uids (plugins_directory d) es h [])
            (\<lambda>(h1, found). Inr (h1, Some found)))"

definition plugin_helper_find_from_uid_and_init ::
  "'fn disk \<Rightarrow> u64 \<Rightarrow> 'fn host \<Rightarrow> host_fault + 'fn host \<times> nat option" where
  "plugin_helper_find_from_uid_and_init d u h =
     and_then (plugin_helper_find_all_and_init d [u] h) (\<lambda>(h1, found).
       case found of
         None \<Rightarrow> Inl Null_Dereference
       | Some ps \<Rightarrow> Inr (h1, (case ps of [p] \<Rightarrow> Some p | _ \<Rightarrow> None)))"

section \<open>Lines\<close>

lemma strsep_Some: "strsep d (Some s) = (Some (takeWhile (\<lambda>c. c \<noteq> d) s),
    (case dropWhile (\<lambda>c. c \<noteq> d) s of [] \<Rightarrow> None | _ # r \<Rightarrow> Some r))"
  by (simp add: strsep_def)

lemma strsep_append [simp]: "d \<notin> set t \<Longrightarrow> strsep d (Some (t @ d # r)) = (Some t, Some r)"
proof -
  assume "d \<notin> set t"
  then have "\<forall>c \<in> set t. c \<noteq> d"
    by auto
  then show ?thesis
    by (simp add: strsep_Some takeWhile_append2 dropWhile_append2)
qed

lemma strsep_last [simp]: "d \<notin> set t \<Longrightarrow> strsep d (Some t) = (Some t, None)"
proof -
  assume "d \<notin> set t"
  then have "\<forall>c \<in> set t. c \<noteq> d"
    by auto
  then have "takeWhile (\<lambda>c. c \<noteq> d) t = t" "dropWhile (\<lambda>c. c \<noteq> d) t = []"
    by (simp_all add: takeWhile_eq_all_conv)
  then show ?thesis
    by (simp only: strsep_Some list.case)
qed

text \<open>A line that is read is refused or plugs one entry point, with a name from the line.\<close>

lemma set_family_name [simp]: "ei_name (set_family tok i) = ei_name i"
  by (simp add: set_family_def)

lemma parse_usage_name:
  "parse_usage dir i tok rest = Inr (Some (i', path)) \<Longrightarrow> ei_name i' = ei_name i"
  by (auto simp: parse_usage_def and_then_Inr split: option.splits)

lemma parse_line_stages:
  obtains (no_tokens) "parse_line dir line = Inr None"
    | (bad_param) f tok rest where "parse_param tok rest = Inl f" "parse_line dir line = Inl f"
    | (usage) i tok rest where "ei_name i = takeWhile (\<lambda>c. c \<noteq> space) line"
      "parse_line dir line = parse_usage dir i tok rest"
proof -
  define name where "name = takeWhile (\<lambda>c. c \<noteq> space) line"
  consider "parse_line dir line = Inr None"
    | fam tok rest where "parse_line dir line = and_then (parse_param tok rest) (\<lambda>parsed.
        case parsed of None \<Rightarrow> Inr None
        | Some (prm, tok2, l4) \<Rightarrow> parse_usage dir ((set_family fam (zero_info\<lparr>ei_name := name\<rparr>))\<lparr>ei_param := prm\<rparr>) tok2 l4)"
  proof -
    obtain l1 where l1: "strsep space (Some line) = (Some name, l1)"
      by (simp add: strsep_Some name_def)
    obtain fam l2 where fam: "strsep space l1 = (fam, l2)"
      by fastforce
    obtain tok l3 where tok: "strsep space l2 = (tok, l3)"
      by fastforce
    show thesis
      by (cases fam; cases tok) (auto intro: that simp: parse_line_def l1 fam tok)
  qed
  then show thesis
  proof cases
    case 1
    then show thesis
      by (rule no_tokens)
  next
    case (2 fam tok rest)
    show thesis
    proof (cases "parse_param tok rest")
      case (Inl f)
      then show thesis
        using 2 bad_param by simp
    next
      case (Inr parsed)
      show thesis
      proof (cases parsed)
        case None
        then show thesis
          using 2 Inr no_tokens by simp
      next
        case (Some x)
        then show thesis
          using 2 Inr usage [of "(set_family fam (zero_info\<lparr>ei_name := name\<rparr>))\<lparr>ei_param := fst x\<rparr>"]
          by (cases x) (simp add: name_def)
      qed
    qed
  qed
qed

lemma parse_line_name:
  assumes "parse_line dir line = Inr (Some (i, path))"
  shows "length (ei_name i) \<le> length line"
proof (cases rule: parse_line_stages [of dir line])
  case (usage j tok rest)
  then have "ei_name i = takeWhile (\<lambda>c. c \<noteq> space) line"
    using assms parse_usage_name [of dir j tok rest i path] by simp
  then show ?thesis
    by (simp add: length_takeWhile_le)
qed (use assms in simp_all)

lemma parse_line_fault:
  assumes "parse_line dir line = Inl f"
  shows "f = Null_Dereference \<or> f = Path_Overflow"
proof (cases rule: parse_line_stages [of dir line])
  case (bad_param g tok rest)
  then have "g = Null_Dereference"
    by (auto simp: parse_param_def split: option.splits prod.splits if_splits)
  then show ?thesis
    using bad_param assms by simp
next
  case (usage i tok rest)
  then have "parse_usage dir i tok rest = Inl f"
    using assms by simp
  then show ?thesis
    by (auto simp: parse_usage_def elf_path_def Let_def split: option.splits if_splits)
qed (use assms in simp)

lemma insert_line_cases:
  assumes "insert_plugin_from_transaction_line load h line dir p = Inr (h', r)"
  obtains (refused) "h' = h" "r = -1"
    | (plugged) einfo path where "length (ei_name einfo) \<le> length line"
      "plugin_plug_elf load h p einfo path = Inr (h', r)"
  using assms parse_line_name [of dir line]
  by (auto simp: insert_plugin_from_transaction_line_def and_then_Inr split: option.splits prod.splits)

lemma insert_line_fault:
  assumes "insert_plugin_from_transaction_line load h line dir p = Inl f"
    and "plugins h p \<noteq> None" and "length line \<le> 256"
  shows "f \<in> {Null_Dereference, Path_Overflow, Load_Fault}"
proof (cases "parse_line dir line")
  case (Inl g)
  then show ?thesis
    using assms(1) parse_line_fault by (auto simp: insert_plugin_from_transaction_line_def)
next
  case (Inr parsed)
  then obtain i path where i: "parsed = Some (i, path)" "plugin_plug_elf load h p i path = Inl f"
    using assms(1) by (auto simp: insert_plugin_from_transaction_line_def split: option.splits)
  have "length (ei_name i) \<le> 256"
    using parse_line_name [of dir line i path] Inr i(1) assms(3) by simp
  then show ?thesis
    using plug_no_fault [OF assms(2) _ i(2)] by simp
qed

lemma host_ok_insert_line:
  assumes "host_ok h" and "insert_plugin_from_transaction_line load h line dir p = Inr (h', r)"
    and "length line \<le> 256" and "plugins h p \<noteq> None"
  shows "host_ok h' \<and> plugins h' p \<noteq> None \<and> circuits h' = circuits h"
  using assms(2)
proof (cases rule: insert_line_cases)
  case refused
  then show ?thesis
    using assms(1,4) by simp
next
  case (plugged einfo path)
  then show ?thesis
    using host_ok_plug [OF assms(1) plugged(2)] assms(3) by simp
qed

section \<open>Transactions\<close>

lemma host_ok_new_plugin:
  assumes "host_ok h" and "new_plugin heap_at h m u filename = Inr (h', p)"
  shows "host_ok h' \<and> p = next_addr h \<and> plugins h p = None \<and> \<not> attached h' p \<and> circuits h' = circuits h \<and>
    eps h' = eps h \<and> plugin_map h' = plugin_map h \<and>
    (\<exists>pl. plugins h' = (plugins h)(p := Some pl) \<and> entry_points pl = [] \<and> \<not> is_system_wide pl \<and> uid pl = u)"
proof -
  have fresh: "plugins h (next_addr h) = None"
    using assms(1) by (simp add: host_ok_def fresh_ok_def)
  have h': "h' = h\<lparr>plugins := (plugins h)(p := Some \<lparr>pname = filename, memory_addr = heap_at p,
      memory_size = of_int m, entry_points = [], uid = u, is_system_wide = False, plugin_ctx = 0\<rparr>), next_addr := Suc p\<rparr>"
    and p: "p = next_addr h"
    using assms(2) by (auto simp: new_plugin_def Let_def split: if_splits)
  have "map_ok h'"
    using assms(1) fresh unfolding host_ok_def map_ok_def h' p by (auto; metis option.distinct(1))
  moreover have "plugins_ok h'" "fresh_ok h'" "circs_ok h'"
    using assms(1) fresh by (auto simp: host_ok_defs h' p)
  moreover have "\<not> attached h' p"
    using circ_plugins_live [OF assms(1)] fresh by (fastforce simp: attached_def h' p)
  ultimately have "host_ok h'" "\<not> attached h' p"
    by (simp_all add: host_ok_def)
  then show ?thesis
    using fresh by (auto simp: h' p)
qed

lemma host_ok_set_system_wide:
  assumes "host_ok h" and "plugins h p = Some pl"
  shows "host_ok (h\<lparr>plugins := (plugins h)(p := Some (pl\<lparr>is_system_wide := True\<rparr>))\<rparr>)"
proof -
  let ?h = "h\<lparr>plugins := (plugins h)(p := Some (pl\<lparr>is_system_wide := True\<rparr>))\<rparr>"
  have "map_ok ?h"
    unfolding map_ok_def
  proof (intro allI impI)
    fix k q e
    assume "plugin_map ?h k = Some (q, e)"
    then have "plugin_map h k = Some (q, e)"
      by simp
    then obtain ql ep where "plugins h q = Some ql" "is_system_wide ql" "e \<in> set (entry_points ql)"
        "eps h e = Some ep" "entry_key ep = k"
      using map_okD [OF assms(1)] by blast
    then show "\<exists>ql ep. plugins ?h q = Some ql \<and> is_system_wide ql \<and> e \<in> set (entry_points ql) \<and>
        eps ?h e = Some ep \<and> entry_key ep = k"
      using assms(2) by (cases "q = p") simp_all
  qed
  moreover have "plugins_ok ?h"
    using plugins_okD [OF assms(1)] assms(2) by (auto simp: plugins_ok_def entries_ok_def)
  ultimately show ?thesis
    using assms by (auto simp: host_ok_def fresh_ok_def circs_ok_def)
qed

lemma transaction_lines_ok:
  assumes "host_ok h" and "plugins h p \<noteq> None" and "\<forall>l \<in> set lines. length l \<le> 256"
    and "transaction_lines load dir p lines h = Inr (h', ok)"
  shows "host_ok h' \<and> plugins h' p \<noteq> None \<and> circuits h' = circuits h"
  using assms
proof (induction lines arbitrary: h)
  case (Cons line lines)
  show ?case
  proof (cases "is_flag line")
    case True
    then obtain pl where pl: "plugins h p = Some pl"
      using Cons.prems(2) by blast
    let ?h = "h\<lparr>plugins := (plugins h)(p := Some (pl\<lparr>is_system_wide := True\<rparr>))\<rparr>"
    have "transaction_lines load dir p lines ?h = Inr (h', ok)"
      using Cons.prems(4) True pl by (simp add: set_system_wide_def)
    from Cons.IH [OF host_ok_set_system_wide [OF Cons.prems(1) pl] _ _ this] show ?thesis
      using Cons.prems(3) by simp
  next
    case False
    then obtain h1 r where h1: "insert_plugin_from_transaction_line load h line dir p = Inr (h1, r)"
        "(if r \<noteq> 0 then Inr (h1, False) else transaction_lines load dir p lines h1) = Inr (h', ok)"
      using Cons.prems(4) by (auto simp: and_then_Inr)
    have "host_ok h1 \<and> plugins h1 p \<noteq> None \<and> circuits h1 = circuits h"
      using host_ok_insert_line [OF Cons.prems(1) h1(1)] Cons.prems(2,3) by simp
    then show ?thesis
      using h1(2) Cons.IH [of h1] Cons.prems(3) by (auto split: if_splits)
  qed
qed simp

lemma transaction_lines_fault:
  assumes "host_ok h" and "plugins h p \<noteq> None" and "\<forall>l \<in> set lines. length l \<le> 256"
    and "transaction_lines load dir p lines h = Inl f"
  shows "f \<in> {Null_Dereference, Path_Overflow, Load_Fault}"
  using assms
proof (induction lines arbitrary: h)
  case (Cons line lines)
  show ?case
  proof (cases "is_flag line")
    case True
    then obtain pl where pl: "plugins h p = Some pl"
      using Cons.prems(2) by blast
    let ?h = "h\<lparr>plugins := (plugins h)(p := Some (pl\<lparr>is_system_wide := True\<rparr>))\<rparr>"
    have "transaction_lines load dir p lines ?h = Inl f"
      using Cons.prems(4) True pl by (simp add: set_system_wide_def)
    from Cons.IH [OF host_ok_set_system_wide [OF Cons.prems(1) pl] _ _ this] show ?thesis
      using Cons.prems(3) by simp
  next
    case False
    show ?thesis
    proof (cases "insert_plugin_from_transaction_line load h line dir p")
      case (Inl g)
      then show ?thesis
        using insert_line_fault [OF Inl] Cons.prems False by simp
    next
      case (Inr x)
      obtain h1 r where x: "x = (h1, r)"
        by (cases x)
      have "transaction_lines load dir p lines h1 = Inl f"
        using Cons.prems(4) False Inr x by (auto split: if_splits)
      then show ?thesis
        using Cons.IH [of h1] host_ok_insert_line [OF Cons.prems(1), of load line dir p h1 r] Inr x Cons.prems
        by simp
    qed
  qed
qed simp

lemma unattached_circuits: "circuits h' = circuits h \<Longrightarrow> attached h' p \<longleftrightarrow> attached h p"
  by (simp add: attached_def)

lemma transaction_body_ok:
  assumes "host_ok h" and "\<forall>l \<in> set lines. length l \<le> 256"
    and "transaction_body load heap_at h dir filename m u lines = Inr (h', r)"
  shows "host_ok h' \<and> circuits h' = circuits h \<and> (\<forall>p. r = Some p \<longrightarrow> plugins h' p \<noteq> None \<and> \<not> attached h' p)"
proof -
  from assms(3) obtain h1 p h2 ok where h1: "new_plugin heap_at h m u filename = Inr (h1, p)"
    and h2: "transaction_lines load dir p lines h1 = Inr (h2, ok)"
    and rest: "(if ok then Inr (h2, Some p) else and_then (plugin_unplug h2 p) (\<lambda>h3. Inr (h3, None))) = Inr (h', r)"
    by (auto simp: transaction_body_def and_then_Inr)
  note new = host_ok_new_plugin [OF assms(1) h1]
  have live: "host_ok h2" "plugins h2 p \<noteq> None" "circuits h2 = circuits h1"
    using transaction_lines_ok [OF _ _ assms(2) h2] new by auto
  then have free: "\<not> attached h2 p"
    using new unattached_circuits by blast
  obtain pl where pl: "plugins h2 p = Some pl"
    using live(2) by blast
  show ?thesis
  proof (cases ok)
    case True
    then show ?thesis
      using rest live free new by auto
  next
    case False
    then show ?thesis
      using rest live new plugin_unplug_eq [OF live(1) pl] host_ok_unplugged [OF live(1) pl free] by auto
  qed
qed

lemma transaction_body_fault:
  assumes "host_ok h" and "\<forall>l \<in> set lines. length l \<le> 256"
    and "transaction_body load heap_at h dir filename m u lines = Inl f"
  shows "f \<noteq> Use_After_Free"
proof (cases "new_plugin heap_at h m u filename")
  case (Inl g)
  then show ?thesis
    using assms(3) by (auto simp: transaction_body_def new_plugin_def Let_def split: if_splits)
next
  case (Inr x)
  then obtain h1 p where h1: "new_plugin heap_at h m u filename = Inr (h1, p)"
    by (cases x) simp
  note new = host_ok_new_plugin [OF assms(1) h1]
  show ?thesis
  proof (cases "transaction_lines load dir p lines h1")
    case (Inl g)
    then show ?thesis
      using assms(3) h1 new transaction_lines_fault [OF _ _ assms(2) Inl] by (auto simp: transaction_body_def)
  next
    case (Inr y)
    then obtain h2 ok where h2: "transaction_lines load dir p lines h1 = Inr (h2, ok)"
      by (cases y) simp
    have live: "host_ok h2" "plugins h2 p \<noteq> None"
      using transaction_lines_ok [OF _ _ assms(2) h2] new by auto
    then show ?thesis
      using assms(3) h1 h2 plugin_unplug_eq [OF live(1)] by (auto simp: transaction_body_def split: if_splits)
  qed
qed

subsection \<open>All or nothing\<close>

text \<open>\<open>h\<close> is \<open>h0\<close> with the plugin \<open>p\<close>, its entry points and entries of the table that lead to it.\<close>

definition only_adds :: "'fn host \<Rightarrow> nat \<Rightarrow> 'fn host \<Rightarrow> bool" where
  "only_adds h0 p h \<longleftrightarrow> (\<forall>q. q \<noteq> p \<longrightarrow> plugins h q = plugins h0 q) \<and> plugins h0 p = None \<and>
     (\<forall>pl e. plugins h p = Some pl \<longrightarrow> (if e \<in> set (entry_points pl) then eps h0 e = None else eps h e = eps h0 e)) \<and>
     (\<forall>k. plugin_map h k = plugin_map h0 k \<or> plugin_map h0 k = None \<and> (\<exists>e. plugin_map h k = Some (p, e)))"

text \<open>A system-wide plugin stands in the table with every entry point it has.\<close>

definition registered :: "'fn host \<Rightarrow> nat \<Rightarrow> bool" where
  "registered h p \<longleftrightarrow> (\<forall>pl e ep. plugins h p = Some pl \<longrightarrow> is_system_wide pl \<longrightarrow> e \<in> set (entry_points pl) \<longrightarrow>
     eps h e = Some ep \<longrightarrow> plugin_map h (entry_key ep) = Some (p, e))"

definition flag_first :: "string list \<Rightarrow> bool" where
  "flag_first lines \<longleftrightarrow> (\<forall>l \<in> set (dropWhile is_flag lines). \<not> is_flag l)"

lemma only_adds_new:
  assumes "host_ok h" and "new_plugin heap_at h m u filename = Inr (h', p)"
  shows "only_adds h p h' \<and> registered h' p"
  using host_ok_new_plugin [OF assms] by (auto simp: only_adds_def registered_def)

lemma only_adds_plug:
  assumes "only_adds h0 p h" and "registered h p" and "host_ok h"
    and "plugin_plug_elf load h p einfo path = Inr (h', r)"
  shows "only_adds h0 p h' \<and> registered h' p"
proof -
  have fresh: "eps h (next_addr h) = None"
    using assms(3) by (simp add: host_ok_def fresh_ok_def)
  have fresh0: "eps h0 (next_addr h) = None" if "plugins h p = Some pl" for pl
    using assms(1) that fresh by (auto simp: only_adds_def split: if_splits; metis)
  have old: "e \<noteq> next_addr h" if "plugins h p = Some pl" "e \<in> set (entry_points pl)" for e pl
    using plugins_okD [OF assms(3) that(1)] that(2) fresh by (auto simp: entries_ok_def)
  show ?thesis
    using assms(4)
  proof (cases rule: plugin_plug_elf_cases)
    case (local_entry pl code)
    have "only_adds h0 p h'"
      using assms(1) local_entry(1) fresh0 unfolding only_adds_def by (auto simp: local_entry(4) split: if_splits)
    moreover have "registered h' p"
      using local_entry(1,2) by (simp add: registered_def local_entry(4))
    ultimately show ?thesis
      by blast
  next
    case (global_entry pl code)
    have "plugin_map h0 einfo = None"
      using assms(1) global_entry(3) unfolding only_adds_def by metis
    then have "only_adds h0 p h'"
      using assms(1) global_entry(1,3) fresh0 unfolding only_adds_def by (auto simp: global_entry(5) split: if_splits)
    moreover have "registered h' p"
      using assms(2) global_entry(1,2,3) old
      by (auto simp: registered_def global_entry(5) entry_key_def split: if_splits)
    ultimately show ?thesis
      by blast
  qed (use assms(1,2) in simp_all)
qed

lemma only_adds_insert_line:
  assumes "only_adds h0 p h" and "registered h p" and "host_ok h"
    and "insert_plugin_from_transaction_line load h line dir p = Inr (h', r)"
  shows "only_adds h0 p h' \<and> registered h' p"
  using assms(4)
proof (cases rule: insert_line_cases)
  case (plugged einfo path)
  then show ?thesis
    using only_adds_plug [OF assms(1-3)] by blast
qed (use assms(1,2) in simp)

lemma only_adds_entries:
  assumes "only_adds h0 p h" and "registered h p" and "host_ok h" and "plugins h p \<noteq> None"
    and "\<forall>l \<in> set lines. \<not> is_flag l \<and> length l \<le> 256" and "transaction_lines load dir p lines h = Inr (h', ok)"
  shows "only_adds h0 p h' \<and> registered h' p"
  using assms
proof (induction lines arbitrary: h)
  case (Cons line lines)
  then obtain h1 r where h1: "insert_plugin_from_transaction_line load h line dir p = Inr (h1, r)"
      "(if r \<noteq> 0 then Inr (h1, False) else transaction_lines load dir p lines h1) = Inr (h', ok)"
    by (auto simp: and_then_Inr)
  have "only_adds h0 p h1 \<and> registered h1 p"
    by (rule only_adds_insert_line [OF Cons.prems(1-3) h1(1)])
  moreover have "host_ok h1 \<and> plugins h1 p \<noteq> None"
    using host_ok_insert_line [OF Cons.prems(3) h1(1)] Cons.prems(4,5) by simp
  ultimately show ?case
    using h1(2) Cons.IH [of h1] Cons.prems(5) by (auto split: if_splits)
qed simp

lemma only_adds_lines:
  assumes "only_adds h0 p h" and "host_ok h" and "plugins h p = Some pl" and "entry_points pl = []"
    and "flag_first lines" and "\<forall>l \<in> set lines. length l \<le> 256"
    and "transaction_lines load dir p lines h = Inr (h', ok)"
  shows "only_adds h0 p h' \<and> registered h' p"
  using assms
proof (induction lines arbitrary: h pl)
  case Nil
  then show ?case
    by (simp add: registered_def)
next
  case (Cons line lines)
  show ?case
  proof (cases "is_flag line")
    case True
    let ?pl = "pl\<lparr>is_system_wide := True\<rparr>"
    let ?h = "h\<lparr>plugins := (plugins h)(p := Some ?pl)\<rparr>"
    have "transaction_lines load dir p lines ?h = Inr (h', ok)"
      using Cons.prems(3,7) True by (simp add: set_system_wide_def)
    moreover have "only_adds h0 p ?h"
      using Cons.prems(1,3) by (auto simp: only_adds_def)
    ultimately show ?thesis
      using Cons.IH [of ?h ?pl] host_ok_set_system_wide [OF Cons.prems(2,3)] Cons.prems(4-6) True
      by (simp add: flag_first_def)
  next
    case False
    then have "\<forall>l \<in> set (line # lines). \<not> is_flag l \<and> length l \<le> 256"
      using Cons.prems(5,6) by (simp add: flag_first_def)
    then show ?thesis
      using Cons.prems(3,4) by (intro only_adds_entries [OF Cons.prems(1) _ Cons.prems(2) _ _ Cons.prems(7)])
        (auto simp: registered_def)
  qed
qed

lemma unplugged_restores:
  assumes "only_adds h0 p h" and "registered h p" and "host_ok h" and "plugins h p = Some pl" and "host_ok h0"
  shows "plugins (unplugged p pl h) = plugins h0 \<and> eps (unplugged p pl h) = eps h0 \<and>
    plugin_map (unplugged p pl h) = plugin_map h0"
proof (intro conjI ext)
  fix k
  let ?gone = "is_system_wide pl \<and> (\<exists>e \<in> set (entry_points pl). map_option entry_key (eps h e) = Some k)"
  show "plugin_map (unplugged p pl h) k = plugin_map h0 k"
  proof (cases "plugin_map (unplugged p pl h) k")
    case (Some v)
    obtain q e where v: "v = (q, e)"
      by (cases v)
    have "q \<noteq> p" "plugin_map h k = Some (q, e)"
      using unplugged_map [OF assms(3,4) Some [unfolded v]] by blast+
    then show ?thesis
      using Some v assms(1) unfolding only_adds_def by (metis Pair_inject option.inject)
  next
    case None
    have "plugin_map h0 k = None"
    proof (cases ?gone)
      case True
      then obtain e where "plugin_map h k = Some (p, e)"
        using assms(2,4) by (auto simp: registered_def)
      then have "plugin_map h0 k \<noteq> None \<Longrightarrow> plugin_map h0 k = Some (p, e)"
        using assms(1) unfolding only_adds_def by metis
      moreover have False if k0: "plugin_map h0 k = Some (p, e)"
        using assms(1,5) k0 unfolding only_adds_def host_ok_def map_ok_def by (metis option.distinct(1))
      ultimately show ?thesis
        by blast
    next
      case False
      then have "plugin_map h k = None"
        using None by (simp only: unplugged_simps if_False)
      then show ?thesis
        using assms(1) unfolding only_adds_def by (metis option.distinct(1))
    qed
    then show ?thesis
      using None by simp
  qed
qed (use assms(1,4) in \<open>auto simp: only_adds_def split: if_splits\<close>)

lemma transaction_body_atomic:
  assumes "host_ok h" and "\<forall>l \<in> set lines. length l \<le> 256" and "flag_first lines"
    and "transaction_body load heap_at h dir filename m u lines = Inr (h', None)"
  shows "plugins h' = plugins h \<and> eps h' = eps h \<and> plugin_map h' = plugin_map h \<and> circuits h' = circuits h"
proof -
  from assms(4) obtain h1 p h2 where h1: "new_plugin heap_at h m u filename = Inr (h1, p)"
    and h2: "transaction_lines load dir p lines h1 = Inr (h2, False)" and h': "plugin_unplug h2 p = Inr h'"
    by (auto simp: transaction_body_def and_then_Inr split: if_splits)
  note new = host_ok_new_plugin [OF assms(1) h1]
  then obtain pl1 where pl1: "plugins h1 p = Some pl1" "entry_points pl1 = []"
    by auto
  have live: "host_ok h2" "plugins h2 p \<noteq> None" "circuits h2 = circuits h1"
    using transaction_lines_ok [OF _ _ assms(2) h2] new by auto
  then obtain pl where pl: "plugins h2 p = Some pl"
    by blast
  have "only_adds h p h2 \<and> registered h2 p"
    using only_adds_lines [OF _ _ pl1 assms(3,2) h2] only_adds_new [OF assms(1) h1] new by blast
  then show ?thesis
    using unplugged_restores [OF _ _ live(1) pl assms(1)] h' plugin_unplug_eq [OF live(1) pl] live(3) new by auto
qed

lemma read_uid_Some:
  "read_uid lf lines = Inr (Some (u, ls)) \<Longrightarrow> (lf = 0 \<or> lf = u) \<and> (\<exists>l. lines = l # ls)"
  by (auto simp: read_uid_def and_then_Inr split: list.splits option.splits if_splits)

lemma read_header_Some:
  "read_header lf lines = Inr (Some (m, u, ls)) \<Longrightarrow> (lf = 0 \<or> lf = u) \<and> (\<exists>l1 l2. lines = l1 # l2 # ls)"
  by (cases lines; cases "header_number ''memory'' (hd lines)"; cases "projr (header_number ''memory'' (hd lines))")
    (auto simp: read_header_def and_then_Inr dest: read_uid_Some split: if_splits)

lemma header_number_fault: "header_number kw line = Inl f \<Longrightarrow> f = Null_Dereference"
  by (auto simp: header_number_def split: option.splits prod.splits if_splits)

lemma read_uid_fault: "read_uid lf lines = Inl f \<Longrightarrow> f = Null_Dereference"
  by (auto simp: read_uid_def and_then_Inl dest: header_number_fault split: list.splits option.splits if_splits)

lemma read_header_fault: "read_header lf lines = Inl f \<Longrightarrow> f = Null_Dereference"
  by (auto simp: read_header_def and_then_Inl dest: header_number_fault read_uid_fault
      split: list.splits option.splits if_splits)

lemma insert_transaction_cases:
  assumes "plugin_insert_transaction load heap_at files h dir fp fname lf = Inr (h', r)"
  obtains (abandoned) "h' = h" "r = None"
    | (body) content line1 line2 ls m u where "files fp = Some content" "getlines content = line1 # line2 # ls"
      "lf = 0 \<or> lf = u" "transaction_body load heap_at h dir fname m u ls = Inr (h', r)"
proof (cases "files fp")
  case None
  then show thesis
    using assms abandoned by (simp add: plugin_insert_transaction_def)
next
  case (Some content)
  then obtain header where header: "read_header lf (getlines content) = Inr header"
      "(case header of None \<Rightarrow> Inr (h, None)
        | Some (m, u, ls) \<Rightarrow> transaction_body load heap_at h dir fname m u ls) = Inr (h', r)"
    using assms by (auto simp: plugin_insert_transaction_def and_then_Inr)
  show thesis
  proof (cases header)
    case None
    then show thesis
      using header abandoned by simp
  next
    case (Some x)
    obtain m u ls where x: "x = (m, u, ls)"
      by (cases x)
    from header(1) Some x obtain l1 l2 where "lf = 0 \<or> lf = u" "getlines content = l1 # l2 # ls"
      using read_header_Some [of lf "getlines content" m u ls] by auto
    then show thesis
      using header(2) Some x by (intro body [OF \<open>files fp = Some content\<close>]) simp_all
  qed
qed

lemma plug_uid:
  assumes "plugin_plug_elf load h p einfo path = Inr (h', r)" and "plugins h p = Some pl"
  shows "\<exists>pl'. plugins h' p = Some pl' \<and> uid pl' = uid pl"
  using assms(1) by (cases rule: plugin_plug_elf_cases) (use assms(2) in simp_all)

lemma transaction_lines_uid:
  assumes "transaction_lines load dir p lines h = Inr (h', ok)" and "plugins h p = Some pl"
  shows "\<exists>pl'. plugins h' p = Some pl' \<and> uid pl' = uid pl"
  using assms
proof (induction lines arbitrary: h pl)
  case (Cons line lines)
  show ?case
  proof (cases "is_flag line")
    case True
    then have "transaction_lines load dir p lines (h\<lparr>plugins := (plugins h)(p := Some (pl\<lparr>is_system_wide := True\<rparr>))\<rparr>) = Inr (h', ok)"
      using Cons.prems by (simp add: set_system_wide_def)
    from Cons.IH [OF this] show ?thesis
      by simp
  next
    case False
    then obtain h1 r where h1: "insert_plugin_from_transaction_line load h line dir p = Inr (h1, r)"
        "(if r \<noteq> 0 then Inr (h1, False) else transaction_lines load dir p lines h1) = Inr (h', ok)"
      using Cons.prems(1) by (auto simp: and_then_Inr)
    have "\<exists>pl1. plugins h1 p = Some pl1 \<and> uid pl1 = uid pl"
      using h1(1) by (cases rule: insert_line_cases) (use Cons.prems(2) plug_uid in auto)
    then obtain pl1 where pl1: "plugins h1 p = Some pl1" "uid pl1 = uid pl"
      by blast
    then show ?thesis
      using h1(2) Cons.IH [of h1 pl1] Cons.prems(2) by (auto split: if_splits)
  qed
qed simp

definition short_files :: "(string \<Rightarrow> string option) \<Rightarrow> bool" where
  "short_files files \<longleftrightarrow> (\<forall>fp content. files fp = Some content \<longrightarrow> (\<forall>l \<in> set (getlines content). length l \<le> 256))"

lemma insert_transaction_ok:
  assumes "host_ok h" and "short_files files"
    and "plugin_insert_transaction load heap_at files h dir fp fname lf = Inr (h', r)"
  shows "host_ok h' \<and> circuits h' = circuits h \<and>
    (\<forall>p. r = Some p \<longrightarrow> (\<exists>pl. plugins h' p = Some pl \<and> (lf = 0 \<or> uid pl = lf)) \<and> \<not> attached h' p)"
  using assms(3)
proof (cases rule: insert_transaction_cases)
  case abandoned
  then show ?thesis
    using assms(1) by simp
next
  case (body content line1 line2 ls m u)
  have short: "\<forall>l \<in> set ls. length l \<le> 256"
    using assms(2) body(1,2) by (fastforce simp: short_files_def)
  have "\<exists>pl. plugins h' p = Some pl \<and> (lf = 0 \<or> uid pl = lf)" if "r = Some p" for p
  proof -
    from body(4) that obtain h1 where h1: "new_plugin heap_at h m u fname = Inr (h1, p)"
        "transaction_lines load dir p ls h1 = Inr (h', True)"
      by (auto simp: transaction_body_def and_then_Inr split: if_splits)
    obtain pl1 where "plugins h1 p = Some pl1" "uid pl1 = u"
      using host_ok_new_plugin [OF assms(1) h1(1)] by auto
    then show ?thesis
      using transaction_lines_uid [OF h1(2)] body(3) by auto
  qed
  then show ?thesis
    using transaction_body_ok [OF assms(1) short body(4)] by blast
qed

lemma insert_transaction_fault:
  assumes "host_ok h" and "short_files files"
    and "plugin_insert_transaction load heap_at files h dir fp fname lf = Inl f"
  shows "f \<noteq> Use_After_Free"
proof -
  from assms(3) obtain content where content: "files fp = Some content"
    by (auto simp: plugin_insert_transaction_def split: option.splits)
  show ?thesis
  proof (cases "read_header lf (getlines content)")
    case (Inl g)
    then show ?thesis
      using assms(3) content read_header_fault [OF Inl] by (auto simp: plugin_insert_transaction_def)
  next
    case (Inr header)
    then obtain m u ls where header: "header = Some (m, u, ls)"
      and body: "transaction_body load heap_at h dir fname m u ls = Inl f"
      using assms(3) content by (auto simp: plugin_insert_transaction_def split: option.splits)
    have "\<forall>l \<in> set ls. length l \<le> 256"
      using read_header_Some [of lf "getlines content" m u ls] assms(2) content Inr header
      by (fastforce simp: short_files_def)
    then show ?thesis
      by (rule transaction_body_fault [OF assms(1) _ body])
  qed
qed

subsection \<open>The search\<close>

text \<open>A transaction leaves the other plugins alone.\<close>

lemma transaction_lines_frame:
  assumes "transaction_lines load dir p lines h = Inr (h', ok)" and "q \<noteq> p"
  shows "plugins h' q = plugins h q"
  using assms(1)
proof (induction lines arbitrary: h)
  case (Cons line lines)
  have plug: "plugins h1 q = plugins h q" if "insert_plugin_from_transaction_line load h line dir p = Inr (h1, r)" for h1 r
    using that
  proof (cases rule: insert_line_cases)
    case (plugged einfo path)
    from plugged(2) show ?thesis
      by (cases rule: plugin_plug_elf_cases) (use assms(2) in simp_all)
  qed simp
  show ?case
    using Cons assms(2)
    by (auto simp: and_then_Inr set_system_wide_def dest!: plug Cons.IH split: if_splits)
qed simp

lemma insert_transaction_frame:
  assumes "host_ok h" and "plugins h q \<noteq> None"
    and "plugin_insert_transaction load heap_at files h dir fp fname lf = Inr (h', r)"
  shows "plugins h' q = plugins h q"
  using assms(3)
proof (cases rule: insert_transaction_cases)
  case (body content line1 line2 ls m u)
  then obtain h1 p h2 ok where h1: "new_plugin heap_at h m u fname = Inr (h1, p)"
    and h2: "transaction_lines load dir p ls h1 = Inr (h2, ok)"
    and rest: "(if ok then Inr (h2, Some p) else and_then (plugin_unplug h2 p) (\<lambda>h3. Inr (h3, None))) = Inr (h', r)"
    by (auto simp: transaction_body_def and_then_Inr)
  have p: "q \<noteq> p" "plugins h1 q = plugins h q"
    using host_ok_new_plugin [OF assms(1) h1] assms(2) by auto
  then have "plugins h2 q = plugins h q"
    using transaction_lines_frame [OF h2] by simp
  moreover have "plugins h3 q = plugins h2 q" if "plugin_unplug h2 p = Inr h3" for h3
  proof -
    have frame: "unplug_entries sw es g = Inr g' \<Longrightarrow> plugins g' = plugins g" for sw es and g g' :: "'a host"
      by (induction es arbitrary: g)
        (auto simp: and_then_Inr plugin_map_entrypoint_remove_def split: if_splits)
    show ?thesis
      using that p(1) by (auto simp: plugin_unplug_def and_then_Inr dest!: frame)
  qed
  ultimately show ?thesis
    using rest by (auto simp: and_then_Inr split: if_splits)
qed simp

definition disk_ok :: "'fn disk \<Rightarrow> bool" where
  "disk_ok d \<longleftrightarrow> short_files (text_files d) \<and>
     (\<forall>es n. dir_entries d = Some es \<longrightarrow> (n, Stat_Failed) \<notin> set es)"

text \<open>What a search promises of the plugins it returns: they are alive, on no circuit, and have a uid asked for.\<close>

definition found_ok :: "'fn host \<Rightarrow> u64 list \<Rightarrow> nat \<Rightarrow> bool" where
  "found_ok h us p \<longleftrightarrow> (\<exists>pl. plugins h p = Some pl \<and> (us = [] \<or> 0 \<in> set us \<or> uid pl \<in> set us)) \<and> \<not> attached h p"

lemma try_uids_ok:
  assumes "host_ok h" and "short_files files"
    and "try_uids (\<lambda>u h. plugin_insert_transaction load heap_at files h dir fp f u) us h = Inr (h', r)"
  shows "host_ok h' \<and> circuits h' = circuits h \<and> (\<forall>q. plugins h q \<noteq> None \<longrightarrow> plugins h' q = plugins h q) \<and>
    (\<forall>p. r = Some p \<longrightarrow> (\<exists>pl. plugins h' p = Some pl \<and> (0 \<in> set us \<or> uid pl \<in> set us)) \<and> \<not> attached h' p)"
  using assms
proof (induction us arbitrary: h)
  case (Cons u us)
  then obtain h1 r1 where h1: "plugin_insert_transaction load heap_at files h dir fp f u = Inr (h1, r1)"
    and rest: "(case r1 of Some p \<Rightarrow> Inr (h1, Some p)
      | None \<Rightarrow> try_uids (\<lambda>u h. plugin_insert_transaction load heap_at files h dir fp f u) us h1) = Inr (h', r)"
    by (auto simp: and_then_Inr)
  note ok = insert_transaction_ok [OF Cons.prems(1,2) h1]
    insert_transaction_frame [OF Cons.prems(1) _ h1]
  show ?case
  proof (cases r1)
    case None
    then show ?thesis
      using rest Cons.IH [of h1] ok assms(2) by auto
  next
    case (Some p)
    then show ?thesis
      using rest ok by auto
  qed
qed simp

lemma try_uids_fault:
  assumes "host_ok h" and "short_files files"
    and "try_uids (\<lambda>u h. plugin_insert_transaction load heap_at files h dir fp f u) us h = Inl fl"
  shows "fl \<noteq> Use_After_Free"
  using assms
proof (induction us arbitrary: h)
  case (Cons u us)
  show ?case
  proof (cases "plugin_insert_transaction load heap_at files h dir fp f u")
    case (Inl g)
    then show ?thesis
      using insert_transaction_fault [OF Cons.prems(1,2) Inl] Cons.prems(3) by simp
  next
    case (Inr x)
    obtain h1 r1 where x: "x = (h1, r1)"
      by (cases x)
    then have "host_ok h1"
      using insert_transaction_ok [OF Cons.prems(1,2)] Inr by blast
    then show ?thesis
      using Cons.IH [of h1] Cons.prems(2,3) Inr x by (auto split: option.splits)
  qed
qed simp

lemma visit_directory_ok:
  assumes "host_ok h" and "short_files files" and "visit_directory load heap_at files us dir names h = Inr (h', r)"
  shows "host_ok h' \<and> circuits h' = circuits h \<and> (\<forall>q. plugins h q \<noteq> None \<longrightarrow> plugins h' q = plugins h q) \<and>
    (\<forall>p. r = Some p \<longrightarrow> found_ok h' us p)"
proof (cases "filter (has_suffix ''.plugin'') names")
  case Nil
  then show ?thesis
    using assms(1,3) by (simp add: visit_directory_def)
next
  case (Cons f fs)
  let ?us = "if us = [] then [0] else us"
  have "try_uids (\<lambda>u h. plugin_insert_transaction load heap_at files h dir (dir @ ''/'' @ f) f u) ?us h = Inr (h', r)"
    using assms(3) Cons by (simp add: visit_directory_def)
  note ok = try_uids_ok [OF assms(1,2) this]
  then show ?thesis
    by (simp add: found_ok_def split: if_splits)
qed

lemma visit_directory_fault:
  assumes "host_ok h" and "short_files files" and "visit_directory load heap_at files us dir names h = Inl f"
  shows "f \<noteq> Use_After_Free"
proof (cases "filter (has_suffix ''.plugin'') names")
  case Nil
  then show ?thesis
    using assms(3) by (simp add: visit_directory_def)
next
  case (Cons g gs)
  show ?thesis
    by (rule try_uids_fault [OF assms(1,2)]) (use assms(3) Cons in \<open>simp add: visit_directory_def\<close>)
qed

lemma visit_all_ok:
  assumes "host_ok h" and "short_files files" and "\<forall>p \<in> set found. found_ok h us p"
    and "visit_all load heap_at files us root es h found = Inr (h', found')"
  shows "host_ok h' \<and> circuits h' = circuits h \<and> (\<forall>q. plugins h q \<noteq> None \<longrightarrow> plugins h' q = plugins h q) \<and>
    (\<forall>p \<in> set found'. found_ok h' us p)"
  using assms
proof (induction load heap_at files us root es h found rule: visit_all.induct)
  case (2 load heap_at files us root name entry rest h found)
  show ?case
  proof (cases "name = ''.'' \<or> name = ''..'' \<or> entry = Not_A_Directory")
    case True
    then show ?thesis
      using "2.IH"(1,2) "2.prems" by (cases "name = ''.'' \<or> name = ''..''") auto
  next
    case False
    then obtain names h1 r where entry: "entry = Directory names"
      and h1: "visit_directory load heap_at files us (root @ ''/'' @ name) names h = Inr (h1, r)"
      and rest: "visit_all load heap_at files us root rest h1 (case r of None \<Rightarrow> found | Some p \<Rightarrow> found @ [p]) = Inr (h', found')"
      using "2.prems"(4) by (auto simp: and_then_Inr split: dir_entry.splits)
    note ok = visit_directory_ok [OF "2.prems"(1,2) h1]
    have "found_ok h1 us p" if "p \<in> set found" for p
      using "2.prems"(3) that ok unattached_circuits [of h1 h p] by (auto simp: found_ok_def)
    then have "\<forall>p \<in> set (case r of None \<Rightarrow> found | Some p \<Rightarrow> found @ [p]). found_ok h1 us p"
      using ok by (auto split: option.splits)
    from "2.IH"(3) [OF _ entry _ "2.prems"(2) this rest] ok False show ?thesis
      by auto
  qed
qed simp

lemma visit_all_fault:
  assumes "host_ok h" and "short_files files" and "\<forall>n. (n, Stat_Failed) \<notin> set es"
    and "visit_all load heap_at files us root es h found = Inl f"
  shows "f \<noteq> Use_After_Free"
  using assms
proof (induction load heap_at files us root es h found rule: visit_all.induct)
  case (2 load heap_at files us root name entry rest h found)
  show ?case
  proof (cases "name = ''.'' \<or> name = ''..'' \<or> entry = Not_A_Directory \<or> entry = Unreadable")
    case True
    then show ?thesis
      using "2.IH"(1,2) "2.prems" by (cases "name = ''.'' \<or> name = ''..''") auto
  next
    case False
    then obtain names where entry: "entry = Directory names"
      using "2.prems"(3) by (cases entry) auto
    show ?thesis
    proof (cases "visit_directory load heap_at files us (root @ ''/'' @ name) names h")
      case (Inl g)
      then show ?thesis
        using visit_directory_fault [OF "2.prems"(1,2) Inl] "2.prems"(4) False entry by simp
    next
      case (Inr x)
      obtain h1 r where x: "x = (h1, r)"
        by (cases x)
      then have "host_ok h1"
        using visit_directory_ok [OF "2.prems"(1,2)] Inr by blast
      moreover have "visit_all load heap_at files us root rest h1 (case r of None \<Rightarrow> found | Some p \<Rightarrow> found @ [p]) = Inl f"
        using "2.prems"(4) False entry Inr x by simp
      ultimately show ?thesis
        using "2.IH"(3) [OF _ entry] "2.prems"(2,3) False by auto
    qed
  qed
qed simp

lemma find_from_uid_ok:
  assumes "host_ok h" and "disk_ok d" and "plugin_helper_find_from_uid_and_init d u h = Inr (h', r)"
  shows "host_ok h' \<and> circuits h' = circuits h \<and> (\<forall>p. r = Some p \<longrightarrow> found_ok h' [u] p)"
proof -
  from assms(3) obtain es ps where es: "dir_entries d = Some es"
    and visit: "visit_all (elf_loader d) (heap_addr d) (text_files d) [u] (plugins_directory d) es h [] = Inr (h', ps)"
    and r: "r = (case ps of [p] \<Rightarrow> Some p | _ \<Rightarrow> None)"
    by (auto simp: plugin_helper_find_from_uid_and_init_def plugin_helper_find_all_and_init_def and_then_Inr
        split: option.splits)
  have "host_ok h' \<and> circuits h' = circuits h \<and> (\<forall>p \<in> set ps. found_ok h' [u] p)"
    using visit_all_ok [OF assms(1) _ _ visit] assms(2) by (simp add: disk_ok_def)
  then show ?thesis
    using r by (auto split: list.splits)
qed

lemma find_from_uid_fault:
  assumes "host_ok h" and "disk_ok d" and "plugin_helper_find_from_uid_and_init d u h = Inl f"
  shows "f \<noteq> Use_After_Free"
proof (cases "dir_entries d")
  case None
  then show ?thesis
    using assms(3) by (auto simp: plugin_helper_find_from_uid_and_init_def plugin_helper_find_all_and_init_def)
next
  case (Some es)
  then have "visit_all (elf_loader d) (heap_addr d) (text_files d) [u] (plugins_directory d) es h [] = Inl f"
    using assms(3)
    by (cases "visit_all (elf_loader d) (heap_addr d) (text_files d) [u] (plugins_directory d) es h []")
      (auto simp: plugin_helper_find_from_uid_and_init_def plugin_helper_find_all_and_init_def)
  from visit_all_fault [OF assms(1) _ _ this] show ?thesis
    using assms(2) Some by (simp add: disk_ok_def)
qed

section \<open>Properties\<close>

text \<open>
  C15. A transaction is all or nothing: when a plugin file is refused, at whatever line, the table of hooks,
  the plugins, their entry points and the circuits are as before, provided that the file has its
  \<open>system-wide\<close> line before its entries and no line is longer than 256 characters.
\<close>

theorem refused_transaction_leaves_no_trace:
  assumes "host_ok h" and "files fp = Some content" and "\<forall>l \<in> set (getlines content). length l \<le> 256"
    and "flag_first (drop 2 (getlines content))"
    and "plugin_insert_transaction load heap_at files h dir fp fname lf = Inr (h', None)"
  shows "plugins h' = plugins h \<and> eps h' = eps h \<and> plugin_map h' = plugin_map h \<and> circuits h' = circuits h"
  using assms(5)
proof (cases rule: insert_transaction_cases)
  case (body content' line1 line2 ls m u)
  then show ?thesis
    using transaction_body_atomic [OF assms(1) _ _ body(4)] assms(2-4) by simp
qed simp

lemma blank_line_stops:
  assumes "[newline] \<in> set lines" and "transaction_lines load dir p lines h = Inr (h', ok)"
  shows "\<not> ok"
  using assms
proof (induction lines arbitrary: h)
  case (Cons line lines)
  have blank: "parse_line dir [newline] = Inr None" "\<not> is_flag [newline]"
    by (simp_all add: parse_line_def strsep_def space_def newline_def is_flag_def starts_with_def)
  show ?case
  proof (cases "line = [newline]")
    case True
    then show ?thesis
      using Cons.prems(2) blank by (auto simp: insert_plugin_from_transaction_line_def)
  next
    case False
    then show ?thesis
      using Cons.prems Cons.IH by (auto simp: and_then_Inr split: if_splits)
  qed
qed simp

text \<open>
  A file with an empty line is refused, although the code means to skip it: the test that should
  recognise it looks at the size of the buffer.
\<close>

lemma blank_line_refused:
  assumes "files fp = Some content" and "[newline] \<in> set (drop 2 (getlines content))"
    and "plugin_insert_transaction load heap_at files h dir fp fname lf = Inr (h', r)"
  shows "r = None"
  using assms(3)
proof (cases rule: insert_transaction_cases)
  case (body content' line1 line2 ls m u)
  then have "[newline] \<in> set ls"
    using assms(1,2) by simp
  then show ?thesis
    using body(4) blank_line_stops by (fastforce simp: transaction_body_def and_then_Inr split: if_splits)
qed

text \<open>Writing the line of an entry.\<close>

fun family_word :: "plugin_family \<Rightarrow> string" where
  "family_word PLUGIN_PROTOCOL_RELAY = ''protocol_relay''"
| "family_word PLUGIN_PROTOCOL_CIRCPAD = ''protocol_circpad''"
| "family_word PLUGIN_PROTOCOL_CONN_EDGE = ''protocol_conn_edge''"
| "family_word PLUGIN_PROTOCOL_PLUGIN = ''protocol_plugin''"
| "family_word PLUGIN_PROTOCOL_CORE = ''protocol_core''"

fun usage_word :: "plugin_usage_type \<Rightarrow> string" where
  "usage_word PLUGIN_CODE_HIJACK = ''replace''"
| "usage_word PLUGIN_CODE_ADD = ''add''"
| "usage_word PLUGIN_CODE_DEL = ''del''"

definition print_line :: "entry_info \<Rightarrow> string \<Rightarrow> string \<Rightarrow> string" where
  "print_line i num file = ei_name i @ space # family_word (ei_pfamily i) @ space # ''param'' @ space # num @
     space # usage_word (ei_putype i) @ space # file @ [newline]"

lemma set_family_word:
  "ei_ptype i = PLUGIN_DEV \<Longrightarrow> set_family (family_word (ei_pfamily i)) (zero_info\<lparr>ei_name := n\<rparr>) =
    zero_info\<lparr>ei_name := n, ei_ptype := ei_ptype i, ei_pfamily := ei_pfamily i\<rparr>"
  by (cases "ei_pfamily i") (simp_all add: set_family_def starts_with_def zero_info_def)

lemma usage_of_word: "usage_of (usage_word u) = Some u"
  by (cases u) (simp_all add: usage_of_def starts_with_def)

lemma space_not_in_words: "space \<notin> set (family_word f)" "space \<notin> set (usage_word u)" "space \<notin> set ''param''"
  by (cases f; simp add: space_def) (cases u; simp add: space_def)+

text \<open>
  The format of the entry lines is read as it is written: for an entry of any family and usage, the line
  with its name, family, parameter, usage and object file is read back as that entry and the path of the
  file in the directory of the plugin.
\<close>

lemma entry_line_round_trip:
  assumes "space \<notin> set (ei_name i)" and "space \<notin> set num" and "strtoul num = (v, [])" and "ei_param i = to_int v"
    and "space \<notin> set file" and "newline \<notin> set file" and "carriage_return \<notin> set file"
    and "ei_ptype i = PLUGIN_DEV" and "length dir + length file + 1 < MAX_PATH"
  shows "parse_line dir (print_line i num file) = Inr (Some (i, dir @ ''/'' @ file))"
proof -
  have "takeWhile (\<lambda>c. c \<noteq> carriage_return \<and> c \<noteq> newline) (file @ [newline]) = file"
    using assms(6,7) by (subst takeWhile_append2) auto
  moreover have "elf_path dir file = Inr (dir @ ''/'' @ file)"
    using assms(9) by (simp add: elf_path_def MAX_PATH_def)
  moreover have "strsep space (Some (file @ [newline])) = (Some (file @ [newline]), None)"
    using assms(5) by (intro strsep_last) (simp add: space_def newline_def)
  moreover have "parse_param ''param'' (Some (num @ space # usage_word (ei_putype i) @ space # file @ [newline])) =
      Inr (Some (ei_param i, usage_word (ei_putype i), Some (file @ [newline])))"
    using assms(2-4) space_not_in_words(2) by (simp add: parse_param_def starts_with_def)
  moreover have "strsep space (Some (''param'' @ space # r)) = (Some ''param'', Some r)" for r
    by (rule strsep_append) (simp add: space_def)
  moreover have "(zero_info\<lparr>ei_name := ei_name i, ei_ptype := ei_ptype i, ei_pfamily := ei_pfamily i\<rparr>)
      \<lparr>ei_param := ei_param i, ei_putype := ei_putype i\<rparr> = i"
    by (cases i) (simp add: zero_info_def)
  ultimately show ?thesis
    using assms(1) space_not_in_words(1,2) set_family_word [OF assms(8)]
    by (simp add: parse_line_def print_line_def parse_usage_def usage_of_word)
qed

section \<open>Examples\<close>

definition head_lines :: "string list" where
  "head_lines = [''memory 16'' @ [newline], ''uid 9'' @ [newline]]"

definition entry_text :: string where
  "entry_text = ''x other_family replace a.o'' @ [newline]"

definition flag_text :: string where
  "flag_text = ''system-wide'' @ [newline]"

definition bad_text :: string where
  "bad_text = ''bad'' @ [newline]"

definition refused_file :: string where
  "refused_file = concat (head_lines @ [flag_text, entry_text, bad_text])"

definition late_file :: string where
  "late_file = concat (head_lines @ [entry_text, flag_text, bad_text])"

definition blank_file :: string where
  "blank_file = concat (head_lines @ [[newline], entry_text])"

lemma example_lines:
  "getlines refused_file = head_lines @ [flag_text, entry_text, bad_text]"
  "getlines late_file = head_lines @ [entry_text, flag_text, bad_text]"
  "getlines blank_file = head_lines @ [[newline], entry_text]"
  "read_header 0 (head_lines @ ls) = Inr (Some (16, 9, ls))"
  "parse_line ''d'' entry_text = Inr (Some (named_key ''x'', ''d/a.o''))" "parse_line ''d'' bad_text = Inr None"
  "is_flag flag_text" "\<not> is_flag entry_text" "\<not> is_flag bad_text"
  by code_simp+

lemma demo_host_ok: "host_ok demo_host"
  by (simp add: host_ok_defs demo_host_def demo_plugin_def)

lemmas transaction_simps = plugin_insert_transaction_def example_lines transaction_body_def new_plugin_def
  insert_plugin_from_transaction_line_def set_system_wide_def plugin_plug_elf_def plugin_get_def
  plugin_entry_hash_def plugin_map_insert_def plugin_unplug_def plugin_map_entrypoint_remove_def
  demo_load_def demo_host_def demo_plugin_def named_key_def zero_info_def entry_key_def Let_def

lemma refused_file_refused:
  "\<exists>h'. plugin_insert_transaction demo_load (\<lambda>_. 0) (\<lambda>_. Some refused_file) demo_host ''d'' ''d/f'' ''f'' 0 = Inr (h', None)"
  by (simp add: transaction_simps)

theorem refused_transaction_leaves_no_trace_witness:
  "\<exists>h'. plugin_insert_transaction demo_load (\<lambda>_. 0) (\<lambda>_. Some refused_file) demo_host ''d'' ''d/f'' ''f'' 0 = Inr (h', None) \<and>
    plugin_map h' = plugin_map demo_host \<and> plugins h' = plugins demo_host"
proof -
  obtain h' where h': "plugin_insert_transaction demo_load (\<lambda>_. 0) (\<lambda>_. Some refused_file) demo_host ''d'' ''d/f'' ''f'' 0 = Inr (h', None)"
    using refused_file_refused by blast
  have "\<forall>l \<in> set (getlines refused_file). length l \<le> 256" "flag_first (drop 2 (getlines refused_file))"
    by (simp_all add: example_lines flag_first_def head_lines_def flag_text_def entry_text_def bad_text_def
        is_flag_def starts_with_def)
  from refused_transaction_leaves_no_trace [OF demo_host_ok refl this h'] h' show ?thesis
    by blast
qed

definition taken_host :: "unit host" where
  "taken_host = (add_entry_point demo_host 0 demo_plugin (named_key ''x'') (empty_vm, ()))
     \<lparr>plugin_map := (\<lambda>_. None)(named_key ''x'' := Some (0, 1))\<rparr>"

text \<open>
  The order of the lines matters: when the \<open>system-wide\<close> line follows an entry, refusing the file
  removes the entry of that name that another plugin has in the table.
\<close>

lemma late_flag_removes_other_entry:
  "plugin_plug_elf demo_load demo_host 0 (named_key ''x'') ''d/x.o'' = Inr (taken_host, 0) \<and>
   plugin_map taken_host (named_key ''x'') = Some (0, 1) \<and>
   (\<exists>h'. plugin_insert_transaction demo_load (\<lambda>_. 0) (\<lambda>_. Some late_file) taken_host ''d'' ''d/f'' ''f'' 0 = Inr (h', None) \<and>
      plugins h' 0 \<noteq> None \<and> plugin_map h' (named_key ''x'') = None)"
  by (simp add: transaction_simps taken_host_def add_entry_point_def)

end
