(* ===== verification/Plugin_Protocol.thy ===== *)
theory Plugin_Protocol
  imports Plugin_Helper Sendme
begin

text \<open>
  Plugging a peer: building and sending the cell that asks a hop to plug a plugin, and handling it
  (\<open>build_plug_cell_v0\<close>, \<open>send_plug_cell_v0_to_hop\<close>, \<open>plugin_process_plug_cell\<close> of
  \<^verbatim>\<open>src/core/or/plugin.c\<close>), and the registry under all its operations, in any order.
\<close>

section \<open>The cell\<close>

definition build_plug_cell_v0 :: "u64 \<Rightarrow> wire_error + u8 list" where
  "build_plug_cell_v0 u =
     plug_cell_encode RELAY_PAYLOAD_SIZE
       (plug_cell_set_length (plug_cell_set_uid (fst (plug_cell_set_version plug_cell_new 0)) u) 0)"

text \<open>
  \<open>hop\<close> is the hop of the path, if there is one, and whether its state is \<open>CPATH_STATE_OPEN\<close>; \<open>send\<close> stands for
  \<open>relay_send_command_from_edge\<close> with the command \<open>RELAY_COMMAND_PLUG\<close>.
\<close>

definition send_plug_cell_v0_to_hop :: "(wire_error + u8 list \<Rightarrow> int) \<Rightarrow> bool option \<Rightarrow> u64 \<Rightarrow> int" where
  "send_plug_cell_v0_to_hop send hop u =
     (case hop of
        None \<Rightarrow> -1
      | Some is_open \<Rightarrow> if \<not> is_open then -1 else send (build_plug_cell_v0 u))"

definition circ_plugins_add :: "'fn host \<Rightarrow> nat \<Rightarrow> nat \<Rightarrow> host_fault + 'fn host" where
  "circ_plugins_add h c p =
     and_then (deref (circuits h) c) (\<lambda>ci.
       Inr (h\<lparr>circuits := (circuits h)(c := Some (ci\<lparr>circ_plugins := circ_plugins ci @ [p]\<rparr>))\<rparr>))"

text \<open>The host around the registry: its configuration, its disk and the code of its plugins.\<close>

record 'fn system =
  enable_plugins :: bool
  disk_of :: "'fn disk"
  native_code :: "'fn native"

definition END_CIRC_REASON_TORPROTOCOL_code :: int where "END_CIRC_REASON_TORPROTOCOL_code = 1"

definition plugin_process_plug_cell ::
  "'fn system \<Rightarrow> 'fn host \<Rightarrow> nat \<Rightarrow> u8 list \<Rightarrow> host_fault + 'fn host \<times> int" where
  "plugin_process_plug_cell sys h c payload =
     and_then (deref (circuits h) c) (\<lambda>ci.
     if circ_is_origin ci then Inr (h, - END_CIRC_REASON_TORPROTOCOL_code)
     else case plug_cell_parse payload of
       Inl _ \<Rightarrow> Inr (h, - END_CIRC_REASON_TORPROTOCOL_code)
     | Inr (cell, _) \<Rightarrow>
         if version cell \<noteq> 0 then Inl Assertion_Failed
         else and_then (find_plugin h (circ_plugins ci) (Plug_Cell.uid cell)) (\<lambda>known.
           if known \<noteq> None then Inr (h, 0)
           else and_then (plugin_helper_find_from_uid_and_init (disk_of sys) (Plug_Cell.uid cell) h) (\<lambda>(h1, found).
             case found of
               None \<Rightarrow> Inl Assertion_Failed
             | Some p \<Rightarrow>
                 and_then (circ_plugins_add h1 c p) (\<lambda>h2.
                 and_then (invoke_plugin_operation_or_default (enable_plugins sys) (native_code sys) h2
                     (named_key ''plugin_init'') PLUGIN_HOUSEKEEPING_INIT
                     \<lparr>arg_circ = Some c, arg_plugin = Some p, arg_param = 0\<rparr>) (\<lambda>(_, h3).
                 Inr (h3, 0))))))"

section \<open>All operations\<close>

text \<open>
  The operations through which the rest of the program reaches the registry: loading the directory, opening
  and freeing circuits, plug cells from a peer, hooks, and the cleanup a plugin asks for.
\<close>

inductive host_step :: "'fn system \<Rightarrow> 'fn host \<Rightarrow> 'fn host \<Rightarrow> bool" for sys where
  load_all: "plugin_helper_find_all_and_init (disk_of sys) [] h = Inr (h', found) \<Longrightarrow> host_step sys h h'"
| open_circuit: "circuits h c = None \<Longrightarrow>
    host_step sys h (h\<lparr>circuits := (circuits h)(c := Some \<lparr>circ_is_origin = origin, circ_plugins = []\<rparr>)\<rparr>)"
| free_circuit: "circuits h c \<noteq> None \<Longrightarrow> circuit_free_plugins h c = Inr h' \<Longrightarrow> host_step sys h h'"
| plug_cell: "circuits h c \<noteq> None \<Longrightarrow> plugin_process_plug_cell sys h c payload = Inr (h', r) \<Longrightarrow> host_step sys h h'"
| hook: "args_ok h key caller args \<Longrightarrow>
    invoke_plugin_operation_or_default (enable_plugins sys) (native_code sys) h key caller args = Inr (r, h') \<Longrightarrow>
    host_step sys h h'"
| cleanup: "circuits h c \<noteq> None \<Longrightarrow>
    plugin_cleanup_conn (enable_plugins sys) (native_code sys) h c u = Inr h' \<Longrightarrow> host_step sys h h'"

definition empty_host :: "'fn host" where
  "empty_host = \<lparr>plugins = (\<lambda>_. None), eps = (\<lambda>_. None), circuits = (\<lambda>_. None), plugin_map = (\<lambda>_. None), next_addr = 0\<rparr>"

lemma host_ok_empty: "host_ok empty_host"
  by (simp add: empty_host_def host_ok_defs)

lemma host_ok_open_circuit:
  assumes "host_ok h" and "circuits h c = None"
  shows "host_ok (h\<lparr>circuits := (circuits h)(c := Some \<lparr>circ_is_origin = origin, circ_plugins = []\<rparr>)\<rparr>)"
  using assms by (auto simp: host_ok_def map_ok_def plugins_ok_def entries_ok_def fresh_ok_def circs_ok_def)

lemma host_ok_circ_plugins_add:
  assumes "host_ok h" and "circuits h c = Some ci" and "plugins h p \<noteq> None" and "\<not> attached h p"
  shows "\<exists>h'. circ_plugins_add h c p = Inr h' \<and> host_ok h' \<and> plugins h' = plugins h \<and> attached h' p"
proof -
  let ?h = "h\<lparr>circuits := (circuits h)(c := Some (ci\<lparr>circ_plugins := circ_plugins ci @ [p]\<rparr>))\<rparr>"
  have "circs_ok h"
    using assms(1) by (simp add: host_ok_def)
  then have "circs_ok ?h"
    using assms(2-4) unfolding circs_ok_def attached_def by (auto split: if_splits; blast)
  then have "host_ok ?h"
    using assms(1) by (simp add: host_ok_def map_ok_def plugins_ok_def entries_ok_def fresh_ok_def)
  moreover have "attached ?h p"
    by (auto simp: attached_def intro!: exI [of _ c])
  ultimately show ?thesis
    using assms(2) by (simp add: circ_plugins_add_def)
qed

text \<open>The last part of handling a plug cell: attaching the new plugin and running its \<open>plugin_init\<close>.\<close>

lemma attach_and_init_ok:
  assumes "host_ok h" and "host_calls_only (native_code sys)" and "circuits h c = Some ci" and "plugins h p \<noteq> None"
    and "\<not> attached h p"
  shows "\<exists>h2 r h3. circ_plugins_add h c p = Inr h2 \<and>
    invoke_plugin_operation_or_default (enable_plugins sys) (native_code sys) h2 (named_key ''plugin_init'')
      PLUGIN_HOUSEKEEPING_INIT \<lparr>arg_circ = Some c, arg_plugin = Some p, arg_param = 0\<rparr> = Inr (r, h3) \<and> host_ok h3"
proof -
  obtain h2 where h2: "circ_plugins_add h c p = Inr h2" "host_ok h2" "plugins h2 = plugins h"
    using host_ok_circ_plugins_add [OF assms(1,3-5)] by blast
  have "args_ok h2 (named_key ''plugin_init'') PLUGIN_HOUSEKEEPING_INIT
      \<lparr>arg_circ = Some c, arg_plugin = Some p, arg_param = 0\<rparr>"
    using h2(3) assms(4) by (auto simp: args_ok_def named_key_def zero_info_def)
  from invoke_ok [OF h2(2) assms(2) this] h2(1) show ?thesis
    by blast
qed

lemma process_plug_cell_ok:
  assumes "host_ok h" and "disk_ok (disk_of sys)" and "host_calls_only (native_code sys)" and "circuits h c = Some ci"
  shows "case plugin_process_plug_cell sys h c payload of Inl f \<Rightarrow> f \<noteq> Use_After_Free | Inr (h', r) \<Rightarrow> host_ok h'"
proof (cases "circ_is_origin ci")
  case True
  then show ?thesis
    using assms(1,4) by (simp add: plugin_process_plug_cell_def)
next
  case origin: False
  show ?thesis
  proof (cases "plug_cell_parse payload")
    case (Inl e)
    then show ?thesis
      using assms(1,4) origin by (simp add: plugin_process_plug_cell_def)
  next
    case (Inr x)
    obtain cell n where x: "x = (cell, n)"
      by (cases x)
    obtain known where known: "find_plugin h (circ_plugins ci) (Plug_Cell.uid cell) = Inr known"
      using find_plugin_ok [OF circ_plugins_live [OF assms(1,4)]] by blast
    show ?thesis
    proof (cases "version cell = 0 \<and> known = None")
      case False
      then show ?thesis
        using assms(1,4) origin Inr x known by (auto simp: plugin_process_plug_cell_def)
    next
      case True
      show ?thesis
      proof (cases "plugin_helper_find_from_uid_and_init (disk_of sys) (Plug_Cell.uid cell) h")
        case (Inl f)
        then show ?thesis
          using assms(4) origin Inr x known True find_from_uid_fault [OF assms(1,2) Inl]
          by (simp add: plugin_process_plug_cell_def)
      next
        case found: (Inr y)
        obtain h1 r where y: "y = (h1, r)"
          by (cases y)
        note ok = find_from_uid_ok [OF assms(1,2) found [unfolded y]]
        show ?thesis
        proof (cases r)
          case None
          then show ?thesis
            using assms(4) origin Inr x known True found y by (simp add: plugin_process_plug_cell_def)
        next
          case (Some p)
          then have p: "plugins h1 p \<noteq> None" "\<not> attached h1 p" "host_ok h1" "circuits h1 c = Some ci"
            using ok assms(4) by (auto simp: found_ok_def)
          from attach_and_init_ok [OF p(3) assms(3) p(4,1,2)] show ?thesis
            using assms(4) origin Inr x known True found y Some by (auto simp: plugin_process_plug_cell_def)
        qed
      qed
    qed
  qed
qed

lemma find_all_ok:
  assumes "host_ok h" and "disk_ok d" and "plugin_helper_find_all_and_init d us h = Inr (h', r)"
  shows "host_ok h'"
proof (cases "dir_entries d")
  case (Some es)
  then obtain ps where
    visit: "visit_all (elf_loader d) (heap_addr d) (text_files d) us (plugins_directory d) es h [] = Inr (h', ps)"
    using assms(3) by (auto simp: plugin_helper_find_all_and_init_def and_then_Inr)
  from visit_all_ok [OF assms(1) _ _ visit] assms(2) show ?thesis
    by (simp add: disk_ok_def)
qed (use assms(1,3) in \<open>simp add: plugin_helper_find_all_and_init_def\<close>)

lemma find_all_fault:
  assumes "host_ok h" and "disk_ok d" and "plugin_helper_find_all_and_init d us h = Inl f"
  shows "f \<noteq> Use_After_Free"
proof (cases "dir_entries d")
  case (Some es)
  then have "visit_all (elf_loader d) (heap_addr d) (text_files d) us (plugins_directory d) es h [] = Inl f"
    using assms(3)
    by (cases "visit_all (elf_loader d) (heap_addr d) (text_files d) us (plugins_directory d) es h []")
      (auto simp: plugin_helper_find_all_and_init_def)
  from visit_all_fault [OF assms(1) _ _ this] show ?thesis
    using assms(2) Some by (simp add: disk_ok_def)
qed (use assms(3) in \<open>simp add: plugin_helper_find_all_and_init_def\<close>)

lemma host_ok_step:
  assumes "host_step sys h h'" and "host_ok h" and "disk_ok (disk_of sys)" and "host_calls_only (native_code sys)"
  shows "host_ok h'"
  using assms(1)
proof cases
  case (load_all found)
  then show ?thesis
    by (rule find_all_ok [OF assms(2,3)])
next
  case (open_circuit c origin)
  then show ?thesis
    using host_ok_open_circuit [OF assms(2)] by simp
next
  case (free_circuit c)
  then show ?thesis
    using circuit_free_ok [OF assms(2)] by fastforce
next
  case (plug_cell c payload r)
  then show ?thesis
    using process_plug_cell_ok [OF assms(2-4), of c _ payload] by fastforce
next
  case (hook key caller args r)
  then show ?thesis
    using invoke_ok [OF assms(2,4) hook(1), of "enable_plugins sys"] by fastforce
next
  case (cleanup c u)
  then show ?thesis
    using cleanup_ok [OF assms(2,4), of c _ "enable_plugins sys" u] by fastforce
qed

interpretation registry: step_invariant "host_step sys"
  "\<lambda>h. disk_ok (disk_of sys) \<longrightarrow> host_calls_only (native_code sys) \<longrightarrow> host_ok h" for sys
  by unfold_locales (use host_ok_step in blast)

section \<open>Properties\<close>

text \<open>
  C1. The registry never dangles: whatever operations ran before, in whatever order, every entry of the
  hook table leads to a live plugin and a live entry point of that plugin, every circuit lists live
  plugins, and no operation touches freed memory. Two conditions are on the surroundings. The code of
  the plugins changes the registry only by calls of the host (\<open>host_calls_only\<close>): it sets contexts and cleans
  up plugins other than one whose code is running. On the disk (\<open>disk_ok\<close>) no line of a plugin file is
  longer than 256 characters and \<open>stat\<close> does not fail in the plugin directory; otherwise the loader itself
  touches freed memory.
\<close>

theorem registry_never_dangles:
  assumes "(host_step sys)\<^sup>*\<^sup>* empty_host h" and "disk_ok (disk_of sys)" and "host_calls_only (native_code sys)"
  shows "(plugin_map h k = Some (p, e) \<longrightarrow> (\<exists>pl ep. plugins h p = Some pl \<and> is_system_wide pl \<and>
      e \<in> set (entry_points pl) \<and> eps h e = Some ep \<and> ep_plugin ep = p \<and> entry_key ep = k)) \<and>
    (circuits h c = Some ci \<longrightarrow> q \<in> set (circ_plugins ci) \<longrightarrow> plugins h q \<noteq> None) \<and>
    (circuits h c \<noteq> None \<longrightarrow> plugin_process_plug_cell sys h c payload \<noteq> Inl Use_After_Free \<and>
      circuit_free_plugins h c \<noteq> Inl Use_After_Free \<and>
      plugin_cleanup_conn (enable_plugins sys) (native_code sys) h c u \<noteq> Inl Use_After_Free) \<and>
    (args_ok h key caller args \<longrightarrow>
      (\<exists>r h'. invoke_plugin_operation_or_default (enable_plugins sys) (native_code sys) h key caller args = Inr (r, h'))) \<and>
    plugin_helper_find_all_and_init (disk_of sys) us h \<noteq> Inl Use_After_Free"
proof (intro conjI impI)
  have ok: "host_ok h"
    using registry.inv_reachable [OF assms(1)] host_ok_empty assms(2,3) by blast
  show "plugin_helper_find_all_and_init (disk_of sys) us h \<noteq> Inl Use_After_Free"
    using find_all_fault [OF ok assms(2), of us] by blast
  show "\<exists>pl ep. plugins h p = Some pl \<and> is_system_wide pl \<and> e \<in> set (entry_points pl) \<and> eps h e = Some ep \<and>
      ep_plugin ep = p \<and> entry_key ep = k" if "plugin_map h k = Some (p, e)"
    using map_okD [OF ok that] by blast
  show "plugins h q \<noteq> None" if "circuits h c = Some ci" "q \<in> set (circ_plugins ci)"
    using circ_plugins_live [OF ok that(1)] that(2) by blast
  show "\<exists>r h'. invoke_plugin_operation_or_default (enable_plugins sys) (native_code sys) h key caller args = Inr (r, h')"
    if "args_ok h key caller args"
    using invoke_ok [OF ok assms(3) that] by blast
  assume "circuits h c \<noteq> None"
  then obtain ci where ci: "circuits h c = Some ci"
    by blast
  show "plugin_process_plug_cell sys h c payload \<noteq> Inl Use_After_Free"
    using process_plug_cell_ok [OF ok assms(2,3) ci, of payload] by auto
  show "circuit_free_plugins h c \<noteq> Inl Use_After_Free"
    using circuit_free_ok [OF ok ci] by auto
  show "plugin_cleanup_conn (enable_plugins sys) (native_code sys) h c u \<noteq> Inl Use_After_Free"
    using cleanup_ok [OF ok assms(3) ci] by (metis sum.distinct(1))
qed

definition plugin_file :: string where
  "plugin_file = concat (head_lines @ [flag_text, entry_text])"

definition circuit_plugin_file :: string where
  "circuit_plugin_file = concat (head_lines @ [entry_text])"

definition demo_system :: "string \<Rightarrow> unit system" where
  "demo_system content =
     \<lparr>enable_plugins = True,
      disk_of = \<lparr>plugins_directory = ''p'', dir_entries = Some [(''d'', Directory [''f.plugin''])],
        text_files = (\<lambda>_. Some content), elf_loader = demo_load, heap_addr = (\<lambda>_. 0)\<rparr>,
      native_code = (\<lambda>_ _ h. (0, h))\<rparr>"

lemma demo_system_simps [simp]:
  "enable_plugins (demo_system content)" "plugins_directory (disk_of (demo_system content)) = ''p''"
  "dir_entries (disk_of (demo_system content)) = Some [(''d'', Directory [''f.plugin''])]"
  "text_files (disk_of (demo_system content)) = (\<lambda>_. Some content)"
  "elf_loader (disk_of (demo_system content)) = demo_load" "heap_addr (disk_of (demo_system content)) = (\<lambda>_. 0)"
  "native_code (demo_system content) = (\<lambda>_ _ h. (0, h))"
  by (simp_all add: demo_system_def)

lemma host_calls_only_demo: "host_calls_only (native_code (demo_system content))"
  by (auto simp: host_calls_only_def)

lemma plugin_file_lines:
  "getlines plugin_file = head_lines @ [flag_text, entry_text]"
  "getlines circuit_plugin_file = head_lines @ [entry_text]"
  "parse_line ''p/d'' entry_text = Inr (Some (named_key ''x'', ''p/d/a.o''))"
  "has_suffix ''.plugin'' ''f.plugin''" "read_header 9 (head_lines @ ls) = Inr (Some (16, 9, ls))"
  by code_simp+

lemma disk_ok_demo:
  "disk_ok (disk_of (demo_system plugin_file))" "disk_ok (disk_of (demo_system circuit_plugin_file))"
  by (simp_all add: disk_ok_def short_files_def plugin_file_lines head_lines_def flag_text_def entry_text_def)

lemma load_demo:
  "\<exists>h. host_step (demo_system plugin_file) empty_host h \<and> plugin_map h (named_key ''x'') = Some (0, 1)"
proof -
  have "\<exists>h found. plugin_helper_find_all_and_init (disk_of (demo_system plugin_file)) [] empty_host = Inr (h, found) \<and>
      plugin_map h (named_key ''x'') = Some (0, 1)"
    by (simp add: plugin_helper_find_all_and_init_def visit_directory_def plugin_file_lines transaction_simps
        empty_host_def add_entry_point_def)
  then show ?thesis
    using load_all by blast
qed

theorem registry_never_dangles_witness:
  "\<exists>h. (host_step (demo_system plugin_file))\<^sup>*\<^sup>* empty_host h \<and> plugin_map h (named_key ''x'') = Some (0, 1) \<and>
    (\<exists>pl ep. plugins h 0 = Some pl \<and> eps h 1 = Some ep \<and> ep_plugin ep = 0)"
proof -
  obtain h where h: "host_step (demo_system plugin_file) empty_host h" "plugin_map h (named_key ''x'') = Some (0, 1)"
    using load_demo by blast
  then have star: "(host_step (demo_system plugin_file))\<^sup>*\<^sup>* empty_host h"
    by blast
  from registry_never_dangles [OF star disk_ok_demo(1) host_calls_only_demo, of "named_key ''x''" 0 1] star h(2) show ?thesis
    by blast
qed

lemma build_plug_cell_parsed:
  "\<exists>bs cell. build_plug_cell_v0 u = Inr bs \<and> length bs = 11 \<and> version cell = 0 \<and> Plug_Cell.uid cell = u \<and>
    (\<forall>rest. plug_cell_parse (bs @ rest) = Inr (cell, 11))"
proof -
  define c where "c = plug_cell_new\<lparr>Plug_Cell.uid := u\<rparr>"
  have build: "build_plug_cell_v0 u = plug_cell_encode RELAY_PAYLOAD_SIZE c"
    by (simp add: build_plug_cell_v0_def plug_cell_set_length_def plug_cell_set_uid_def plug_cell_set_version_def
        plug_cell_new_def c_def)
  obtain bs where bs: "plug_cell_encode RELAY_PAYLOAD_SIZE c = Inr bs" "length bs = 11"
    using plug_cell_encode_Inr [of RELAY_PAYLOAD_SIZE c]
    by (auto simp: c_def plug_cell_new_def plug_cell_check_ok RELAY_PAYLOAD_SIZE_def)
  have "version (plug_cell_canon c) = 0" "Plug_Cell.uid (plug_cell_canon c) = u"
    by (simp_all add: c_def plug_cell_canon_def plug_cell_new_def)
  moreover have "plug_cell_parse (bs @ rest) = Inr (plug_cell_canon c, 11)" for rest
    using plug_cell_parse_encode [OF bs(1), of rest] bs(2) by simp
  ultimately show ?thesis
    using bs build by auto
qed

lemma init_keeps:
  assumes "host_ok h" and "host_calls_only native" and "plugins h p \<noteq> None"
    and "invoke_plugin_operation_or_default enabled native h key PLUGIN_HOUSEKEEPING_INIT
      \<lparr>arg_circ = Some c, arg_plugin = Some p, arg_param = 0\<rparr> = Inr (r, h')"
  shows "host_ok h' \<and> kept p h h' \<and> same_plugin p h h' \<and> same_origins h h'"
proof -
  have "\<exists>r h'. invoke_housekeeping native h key \<lparr>arg_circ = Some c, arg_plugin = Some p, arg_param = 0\<rparr> = Inr (r, h') \<and>
      host_ok h' \<and> (\<forall>q. p = q \<longrightarrow> kept q h h' \<and> same_plugin q h h' \<and> same_origins h h')"
    using invoke_housekeeping_ok [OF assms(1,2), of "\<lparr>arg_circ = Some c, arg_plugin = Some p, arg_param = 0\<rparr>" key] assms(3)
    by auto
  then show ?thesis
    using assms(1,4)
    by (auto simp: invoke_plugin_operation_or_default_def plugin_is_caller_id_system_wide_def split: if_splits)
qed

lemma find_plugin_hit:
  assumes "\<forall>q \<in> set ps. plugins h q \<noteq> None" and "p \<in> set ps" and "plugins h p = Some pl" and "uid pl = u"
  shows "\<exists>q. find_plugin h ps u = Inr (Some q)"
  using assms(1,2)
proof (induction ps)
  case (Cons q ps)
  then obtain ql where "plugins h q = Some ql"
    by auto
  then show ?case
    using Cons assms(3,4) by auto
qed simp

lemma find_plugin_sound:
  "find_plugin h ps u = Inr (Some p) \<Longrightarrow> p \<in> set ps \<and> (\<exists>pl. plugins h p = Some pl \<and> uid pl = u)"
  by (induction ps) (auto simp: and_then_Inr deref_def split: if_splits option.splits)

lemma second_request:
  assumes "circuits h c = Some ci" and "\<not> circ_is_origin ci" and "\<forall>q \<in> set (circ_plugins ci). plugins h q \<noteq> None"
    and "p \<in> set (circ_plugins ci)" and "plugins h p = Some pl" and "uid pl = u"
    and "plug_cell_parse payload = Inr (cell, n)" and "version cell = 0" and "Plug_Cell.uid cell = u"
  shows "plugin_process_plug_cell sys h c payload = Inr (h, 0)"
  using find_plugin_hit [OF assms(3-6)] assms by (auto simp: plugin_process_plug_cell_def)

text \<open>
  C10. A plug request does what it asks for: the cell that \<open>build_plug_cell_v0\<close> makes for a uid other than 0 is
  read back by the peer, whatever follows it in the payload, and if the peer answers without a fault, then
  it answers 0, a plugin with that uid is on the circuit, and a second request changes nothing. The conditions on
  the disk and on the code of the plugins are those of the registry. The uid 0 is excluded because it stands
  for any plugin file.
\<close>

theorem plug_request_plugs:
  assumes "host_ok h" and "disk_ok (disk_of sys)" and "host_calls_only (native_code sys)"
    and "circuits h c = Some ci" and "\<not> circ_is_origin ci" and "u \<noteq> 0" and "build_plug_cell_v0 u = Inr bs"
    and "plugin_process_plug_cell sys h c (bs @ rest) = Inr (h', r)"
  shows "r = 0 \<and> (\<exists>ci' p pl. circuits h' c = Some ci' \<and> p \<in> set (circ_plugins ci') \<and> plugins h' p = Some pl \<and> uid pl = u) \<and>
    plugin_process_plug_cell sys h' c (bs @ rest') = Inr (h', 0)"
proof -
  from build_plug_cell_parsed [of u] assms(7) obtain cell where cell: "version cell = 0" "Plug_Cell.uid cell = u"
    "\<And>rest. plug_cell_parse (bs @ rest) = Inr (cell, 11)"
    by auto
  obtain known where known: "find_plugin h (circ_plugins ci) u = Inr known"
    using find_plugin_ok [OF circ_plugins_live [OF assms(1,4)]] by blast
  have "\<exists>ci' p pl. r = 0 \<and> circuits h' c = Some ci' \<and> \<not> circ_is_origin ci' \<and>
      (\<forall>q \<in> set (circ_plugins ci'). plugins h' q \<noteq> None) \<and> p \<in> set (circ_plugins ci') \<and> plugins h' p = Some pl \<and> uid pl = u"
  proof (cases known)
    case (Some p)
    then show ?thesis
      using assms(4,5,8) cell known find_plugin_sound [of h "circ_plugins ci" u p] circ_plugins_live [OF assms(1,4)]
      by (auto simp: plugin_process_plug_cell_def)
  next
    case None
    from assms(8) obtain h1 p h2 ret where
      h1: "plugin_helper_find_from_uid_and_init (disk_of sys) u h = Inr (h1, Some p)"
      and h2: "circ_plugins_add h1 c p = Inr h2"
      and h3: "invoke_plugin_operation_or_default (enable_plugins sys) (native_code sys) h2 (named_key ''plugin_init'')
        PLUGIN_HOUSEKEEPING_INIT \<lparr>arg_circ = Some c, arg_plugin = Some p, arg_param = 0\<rparr> = Inr (ret, h')"
      and r: "r = 0"
      using assms(4,5) cell known None
      by (auto simp: plugin_process_plug_cell_def and_then_Inr split: option.splits)
    note ok = find_from_uid_ok [OF assms(1,2) h1]
    then obtain pl where pl: "plugins h1 p = Some pl" "uid pl = u"
      using assms(6) by (auto simp: found_ok_def)
    have pre: "host_ok h1" "plugins h1 p \<noteq> None" "\<not> attached h1 p" "circuits h1 c = Some ci"
      using ok assms(4) by (auto simp: found_ok_def)
    have h2_ok: "host_ok h2" "plugins h2 = plugins h1"
      using host_ok_circ_plugins_add [OF pre(1,4,2,3)] h2 by auto
    have c2: "circuits h2 c = Some (ci\<lparr>circ_plugins := circ_plugins ci @ [p]\<rparr>)"
      using h2 pre(4) by (auto simp: circ_plugins_add_def)
    have keep: "host_ok h'" "kept p h2 h'" "same_plugin p h2 h'" "same_origins h2 h'"
      using init_keeps [OF h2_ok(1) assms(3) _ h3] h2_ok(2) pre(2) by simp_all
    obtain ci' where ci': "circuits h' c = Some ci'" "p \<in> set (circ_plugins ci')"
      using keep(2) c2 unfolding kept_def by fastforce
    have "circ_is_origin ci' = circ_is_origin ci"
      using keep(4) c2 ci'(1) unfolding same_origins_def by (metis circ.simps(1) circ.update_convs(2) circ.surjective option.map(2) option.inject)
    moreover obtain pl' where "plugins h' p = Some pl'" "uid pl' = u"
      using keep(3) h2_ok(2) pl unfolding same_plugin_def by metis
    ultimately show ?thesis
      using ci' circ_plugins_live [OF keep(1) ci'(1)] assms(5) r by blast
  qed
  then show ?thesis
    using second_request [of h' c _ _ _ u "bs @ rest'" cell 11 sys] cell by blast
qed

definition one_circuit :: "bool \<Rightarrow> unit host" where
  "one_circuit origin = empty_host\<lparr>circuits := (\<lambda>_. None)(5 := Some \<lparr>circ_is_origin = origin, circ_plugins = []\<rparr>)\<rparr>"

lemma host_ok_one_circuit: "host_ok (one_circuit origin)"
  using host_ok_open_circuit [OF host_ok_empty, of 5 origin] by (simp add: one_circuit_def empty_host_def)

lemma request_demo:
  "\<exists>h'. plug_cell_parse payload = Inr (cell, n) \<longrightarrow> version cell = 0 \<longrightarrow> Plug_Cell.uid cell = 9 \<longrightarrow>
    plugin_process_plug_cell (demo_system circuit_plugin_file) (one_circuit False) 5 payload = Inr (h', 0)"
  by (simp add: plugin_process_plug_cell_def plugin_helper_find_from_uid_and_init_def
      plugin_helper_find_all_and_init_def visit_directory_def plugin_file_lines transaction_simps
      empty_host_def one_circuit_def add_entry_point_def circ_plugins_add_def invoke_plugin_operation_or_default_def
      plugin_is_caller_id_system_wide_def invoke_housekeeping_def plugin_get_entry_point_by_entry_name_def)

theorem plug_request_plugs_witness:
  "\<exists>bs h' ci p pl. build_plug_cell_v0 9 = Inr bs \<and>
    plugin_process_plug_cell (demo_system circuit_plugin_file) (one_circuit False) 5 bs = Inr (h', 0) \<and>
    circuits h' 5 = Some ci \<and> p \<in> set (circ_plugins ci) \<and> plugins h' p = Some pl \<and> uid pl = 9"
proof -
  obtain bs cell where bs: "build_plug_cell_v0 9 = Inr bs" "version cell = 0" "Plug_Cell.uid cell = 9"
    "plug_cell_parse (bs @ []) = Inr (cell, 11)"
    using build_plug_cell_parsed [of 9] by blast
  then obtain h' where h': "plugin_process_plug_cell (demo_system circuit_plugin_file) (one_circuit False) 5 (bs @ []) = Inr (h', 0)"
    using request_demo by blast
  have "circuits (one_circuit False) 5 = Some \<lparr>circ_is_origin = False, circ_plugins = []\<rparr>"
    by (simp add: one_circuit_def)
  from plug_request_plugs [OF host_ok_one_circuit disk_ok_demo(2) host_calls_only_demo this _ _ bs(1) h'] bs(1) h' show ?thesis
    by auto
qed

text \<open>A disk on which no plugin file declares the uid, read as \<open>plugin_insert_transaction\<close> reads it.\<close>

definition no_file_declares :: "'fn disk \<Rightarrow> u64 \<Rightarrow> bool" where
  "no_file_declares d u \<longleftrightarrow> (\<exists>es. dir_entries d = Some es \<and> (\<forall>(n, e) \<in> set es. e \<noteq> Stat_Failed \<and> e \<noteq> Unreadable)) \<and>
     (\<forall>fp content. text_files d fp = Some content \<longrightarrow>
       (\<exists>r. read_header 0 (getlines content) = Inr r \<and> (\<forall>m u' ls. r = Some (m, u', ls) \<longrightarrow> u' \<noteq> u)))"

lemma read_uid_other:
  assumes "read_uid 0 lines = Inr r" and "\<And>v ls. r = Some (v, ls) \<Longrightarrow> v \<noteq> u" and "u \<noteq> 0"
  shows "read_uid u lines = Inr None"
proof (cases lines)
  case (Cons line rest)
  then show ?thesis
    using assms by (cases "header_number ''uid'' line") (auto simp: read_uid_def split: option.splits if_splits)
qed (simp add: read_uid_def)

lemma read_header_other:
  assumes "read_header 0 lines = Inr r" and "\<And>m u' ls. r = Some (m, u', ls) \<Longrightarrow> u' \<noteq> u" and "u \<noteq> 0"
  shows "read_header u lines = Inr None"
proof (cases lines)
  case (Cons line rest)
  show ?thesis
  proof (cases "header_number ''memory'' line")
    case (Inr num)
    show ?thesis
    proof (cases "\<exists>m. num = Some (m, [])")
      case True
      then obtain m r1 where m: "num = Some (m, [])" and r1: "read_uid 0 rest = Inr r1"
          "r = map_option (\<lambda>(u, ls). (to_int m, u, ls)) r1"
        using assms(1) Inr Cons by (auto simp: read_header_def and_then_Inr)
      then have "read_uid u rest = Inr None"
        using assms(2,3) by (intro read_uid_other [OF r1(1)]) auto
      then show ?thesis
        using Inr Cons m by (simp add: read_header_def)
    qed (use Inr Cons in \<open>auto simp: read_header_def split: option.splits\<close>)
  qed (use assms(1) Cons in \<open>simp add: read_header_def\<close>)
qed (simp add: read_header_def)

lemma visit_all_none:
  assumes "\<forall>fp content. files fp = Some content \<longrightarrow> read_header u (getlines content) = Inr None"
    and "\<forall>(n, e) \<in> set es. e \<noteq> Stat_Failed \<and> e \<noteq> Unreadable"
  shows "visit_all load heap_at files [u] root es h found = Inr (h, found)"
proof -
  have "plugin_insert_transaction load heap_at files h dir fp f u = Inr (h, None)" for dir fp f
    using assms(1) by (auto simp: plugin_insert_transaction_def split: option.splits)
  then have "visit_directory load heap_at files [u] dir names h = Inr (h, None)" for dir names
    by (simp add: visit_directory_def split: list.splits)
  then show ?thesis
    using assms(2) by (induction es) (auto split: dir_entry.splits)
qed

lemma find_from_uid_none:
  assumes "no_file_declares d u" and "u \<noteq> 0"
  shows "plugin_helper_find_from_uid_and_init d u h = Inr (h, None)"
proof -
  obtain es where es: "dir_entries d = Some es" "\<forall>(n, e) \<in> set es. e \<noteq> Stat_Failed \<and> e \<noteq> Unreadable"
    using assms(1) by (auto simp: no_file_declares_def)
  have "read_header u (getlines content) = Inr None" if f: "text_files d fp = Some content" for fp content
  proof -
    obtain r where "read_header 0 (getlines content) = Inr r" "\<forall>m u' ls. r = Some (m, u', ls) \<longrightarrow> u' \<noteq> u"
      using assms(1) f unfolding no_file_declares_def by blast
    then show ?thesis
      using assms(2) by (intro read_header_other) auto
  qed
  then have "\<forall>fp content. text_files d fp = Some content \<longrightarrow> read_header u (getlines content) = Inr None"
    by blast
  note visit = visit_all_none [OF this es(2)]
  show ?thesis
    unfolding plugin_helper_find_from_uid_and_init_def plugin_helper_find_all_and_init_def es(1) option.case visit
    by simp
qed

lemma find_plugin_miss:
  assumes "\<forall>q \<in> set ps. \<exists>pl. plugins h q = Some pl \<and> uid pl \<noteq> u"
  shows "find_plugin h ps u = Inr None"
  using assms by (induction ps) auto

text \<open>
  C28. A peer can stop a relay with one cell: on a circuit that the relay did not originate, the request of
  \<open>build_plug_cell_v0\<close> for a uid other than 0 that no plugin on the circuit has and no plugin file on the disk
  declares fails an assertion, and so does every cell of version 1 that \<open>plug_cell_encode\<close> writes; what follows
  the cell in the payload does not matter.
\<close>

theorem plug_cell_can_abort:
  assumes "circuits h c = Some ci" and "\<not> circ_is_origin ci"
  shows "(u \<noteq> 0 \<longrightarrow> no_file_declares (disk_of sys) u \<longrightarrow>
      (\<forall>q \<in> set (circ_plugins ci). \<exists>pl. plugins h q = Some pl \<and> uid pl \<noteq> u) \<longrightarrow>
      (\<exists>bs. build_plug_cell_v0 u = Inr bs \<and> plugin_process_plug_cell sys h c (bs @ rest) = Inl Assertion_Failed)) \<and>
    (plug_cell_encode avail cell = Inr ds \<longrightarrow> version cell = 1 \<longrightarrow>
      plugin_process_plug_cell sys h c (ds @ rest) = Inl Assertion_Failed)"
proof (intro conjI impI)
  assume u: "u \<noteq> 0" "no_file_declares (disk_of sys) u"
    "\<forall>q \<in> set (circ_plugins ci). \<exists>pl. plugins h q = Some pl \<and> uid pl \<noteq> u"
  obtain bs cell where "build_plug_cell_v0 u = Inr bs" "version cell = 0" "Plug_Cell.uid cell = u"
      "plug_cell_parse (bs @ rest) = Inr (cell, 11)"
    using build_plug_cell_parsed [of u] by blast
  then show "\<exists>bs. build_plug_cell_v0 u = Inr bs \<and> plugin_process_plug_cell sys h c (bs @ rest) = Inl Assertion_Failed"
    using assms find_from_uid_none [OF u(2,1), of h] find_plugin_miss [OF u(3)]
    by (simp add: plugin_process_plug_cell_def)
next
  assume "plug_cell_encode avail cell = Inr ds" "version cell = 1"
  then show "plugin_process_plug_cell sys h c (ds @ rest) = Inl Assertion_Failed"
    using assms plug_cell_parse_encode [of avail cell ds rest]
    by (simp add: plugin_process_plug_cell_def plug_cell_canon_def)
qed

lemma no_file_declares_demo: "no_file_declares (disk_of (demo_system circuit_plugin_file)) 8"
proof -
  have "read_header 0 (getlines circuit_plugin_file) = Inr (Some (16, 9, [entry_text]))"
    by (simp add: plugin_file_lines example_lines)
  then show ?thesis
    by (simp add: no_file_declares_def)
qed

theorem plug_cell_can_abort_witness:
  "\<exists>bs. build_plug_cell_v0 8 = Inr bs \<and>
    plugin_process_plug_cell (demo_system circuit_plugin_file) (one_circuit False) 5 (bs @ [0, 0]) = Inl Assertion_Failed"
proof -
  have "circuits (one_circuit False) 5 = Some \<lparr>circ_is_origin = False, circ_plugins = []\<rparr>"
    by (simp add: one_circuit_def)
  from plug_cell_can_abort [OF this, of 8 "demo_system circuit_plugin_file" "[0, 0]"] no_file_declares_demo show ?thesis
    by simp
qed

text \<open>
  C37. A plugin that cleans itself up is freed while it runs: when the code of an entry point asks the host to
  clean up its own plugin on the circuit it is attached to, then \<open>plugin_run\<close> returns into an entry point that was
  freed, whatever hook it was called for. The \<open>plugin_cleanup\<close> of the plugin, if it has one, is assumed to
  change the registry by calls of the host only.
\<close>

theorem self_cleanup_frees_running_code:
  assumes "host_ok h" and "circuits h c = Some ci" and "circuit_plugin_get h c u = Inr (Some p)"
    and "plugins h p = Some pl" and "e \<in> set (entry_points pl)" and "eps h e = Some ep"
    and "ep_vm ep \<noteq> None" and "ep_fn ep = Some fn"
    and "\<And>h1. cleanup_code_ends native h c p h1 \<Longrightarrow> (host_request p)\<^sup>*\<^sup>* h h1"
    and "plugin_cleanup_conn enabled native h c u = Inr h'" and "native fn args h = (ret, h')"
  shows "plugin_run native h e args = Inl Use_After_Free \<and> plugins h' p = None"
proof -
  have "plugins h' p = None \<and> eps h' e = None"
    by (rule cleanup_frees_entries [OF assms(1-3,10,9,4,5)])
  then show ?thesis
    using assms(6-8,11) by (auto simp: plugin_run_def exec_loaded_code_def)
qed

definition attached_host :: "unit host" where
  "attached_host =
     \<lparr>plugins = (\<lambda>_. None)(0 := Some (demo_plugin\<lparr>is_system_wide := False, entry_points := [1]\<rparr>)),
      eps = (\<lambda>_. None)(1 := Some \<lparr>ep_vm = Some empty_vm, ep_name = ''plugin_init'', ep_fn = Some (),
        ep_info = zero_info, ep_plugin = 0\<rparr>),
      circuits = (\<lambda>_. None)(5 := Some \<lparr>circ_is_origin = False, circ_plugins = [0]\<rparr>),
      plugin_map = (\<lambda>_. None), next_addr = 2\<rparr>"

definition self_cleaning :: "unit native" where
  "self_cleaning fn args h =
     (case plugin_cleanup_conn True (\<lambda>_ _ h. (0, h)) h 5 7 of Inl _ \<Rightarrow> (1, h) | Inr h' \<Rightarrow> (0, h'))"

lemma host_ok_attached_host: "host_ok attached_host"
  by (simp add: attached_host_def demo_plugin_def host_ok_defs)

lemma attached_host_cleanup:
  "\<exists>h'. plugin_cleanup_conn True native attached_host 5 7 = Inr h' \<and> plugins h' 0 = None"
  "cleanup_code_ends native attached_host 5 0 h1 \<Longrightarrow> h1 = attached_host"
  by (auto simp: attached_host_def demo_plugin_def plugin_cleanup_conn_def circuit_plugin_get_def
      invoke_plugin_operation_or_default_def plugin_is_caller_id_system_wide_def invoke_housekeeping_def named_key_def
      plugin_get_entry_point_by_entry_name_def circ_plugins_remove_def plugin_unplug_def cleanup_code_ends_def)

theorem self_cleanup_frees_running_code_witness:
  "plugin_run self_cleaning attached_host 1 \<lparr>arg_circ = Some 5, arg_plugin = Some 0, arg_param = 0\<rparr> = Inl Use_After_Free"
proof -
  obtain h' where h': "plugin_cleanup_conn True self_cleaning attached_host 5 7 = Inr h'"
    using attached_host_cleanup(1) by blast
  moreover have "plugin_cleanup_conn True self_cleaning attached_host 5 7 =
      plugin_cleanup_conn True (\<lambda>_ _ h. (0, h)) attached_host 5 7"
    by (simp add: attached_host_def demo_plugin_def plugin_cleanup_conn_def circuit_plugin_get_def
      invoke_plugin_operation_or_default_def plugin_is_caller_id_system_wide_def invoke_housekeeping_def named_key_def
      plugin_get_entry_point_by_entry_name_def)
  ultimately have "self_cleaning () \<lparr>arg_circ = Some 5, arg_plugin = Some 0, arg_param = 0\<rparr> attached_host = (0, h')"
    by (simp add: self_cleaning_def)
  note code = this
  have "plugins attached_host 0 = Some (demo_plugin\<lparr>is_system_wide := False, entry_points := [1]\<rparr>)"
    "eps attached_host 1 = Some \<lparr>ep_vm = Some empty_vm, ep_name = ''plugin_init'', ep_fn = Some (), ep_info = zero_info,
      ep_plugin = 0\<rparr>" "circuits attached_host 5 = Some \<lparr>circ_is_origin = False, circ_plugins = [0]\<rparr>"
    "circuit_plugin_get attached_host 5 7 = Inr (Some 0)"
    by (simp_all add: attached_host_def circuit_plugin_get_def demo_plugin_def)
  note facts = this
  have "cleanup_code_ends self_cleaning attached_host 5 0 h1 \<Longrightarrow> (host_request 0)\<^sup>*\<^sup>* attached_host h1" for h1
    using attached_host_cleanup(2) by blast
  from self_cleanup_frees_running_code [OF host_ok_attached_host facts(3,4,1) _ facts(2) _ _ this h' code] show ?thesis
    by simp
qed

end
