(* ===== verification/Smartlist_Algo.thy ===== *)
theory Smartlist_Algo
  imports Smartlist
begin

text \<open>
  Searching and ordering in smartlists (\<^verbatim>\<open>src/lib/container/smartlist.c\<close>): binary search and the priority
  queue, a binary heap whose items know their place.
\<close>

section \<open>Binary search\<close>

text \<open>
  \<open>compare\<close> is the comparison with the key: positive when the key is greater than the member. The result
  is the index and whether the key was found.
\<close>

function bsearch_loop :: "(ptr \<Rightarrow> int) \<Rightarrow> smartlist \<Rightarrow> int \<Rightarrow> int \<Rightarrow> sl_fault + (int \<times> bool)" where
  "bsearch_loop compare sl lo hi =
     (if lo \<le> hi
      then let mid = lo + (hi - lo) div 2; cmp = compare (sl_list sl ! nat mid)
           in if cmp = 0 then Inr (mid, True)
              else if 0 < cmp
              then if mid < int (num_used sl) then bsearch_loop compare sl (mid + 1) hi else Inl Sl_Assert
              else if 0 < mid then bsearch_loop compare sl lo (mid - 1)
              else if mid = lo \<and> mid = 0 then Inr (0, False)
              else Inl Sl_Assert
      else if lo = hi + 1 \<and> 0 \<le> lo \<and> lo \<le> int (num_used sl) \<and> 0 \<le> hi \<and> hi \<le> int (num_used sl)
      then if lo < int (num_used sl)
           then if compare (sl_list sl ! nat lo) < 0 then Inr (lo, False) else Inl Sl_Assert
           else if 0 < compare (sl_list sl ! (num_used sl - 1)) then Inr (lo, False) else Inl Sl_Assert
      else Inl Sl_Assert)"
  by pat_completeness auto

termination
  by (relation "measure (\<lambda>(compare, sl, lo, hi). nat (hi - lo + 1))") auto

declare bsearch_loop.simps [simp del]

definition smartlist_bsearch_idx :: "smartlist \<Rightarrow> (ptr \<Rightarrow> int) \<Rightarrow> sl_fault + (int \<times> bool)" where
  "smartlist_bsearch_idx sl compare =
     (if num_used sl = 0 then Inr (0, False) else bsearch_loop compare sl 0 (int (num_used sl) - 1))"

definition smartlist_bsearch :: "smartlist \<Rightarrow> (ptr \<Rightarrow> int) \<Rightarrow> sl_fault + ptr" where
  "smartlist_bsearch sl compare =
     and_then (smartlist_bsearch_idx sl compare) (\<lambda>(idx, found).
       Inr (if found then sl_list sl ! nat idx else NULL))"

section \<open>The priority queue\<close>

text \<open>
  \<open>index_of\<close> is the field of each item that holds its place in the heap.
\<close>

record pqueue =
  heap :: smartlist
  index_of :: "ptr \<Rightarrow> int"

definition INT_MAX :: nat where "INT_MAX = 2147483647"
definition MAX_PARENT_IDX :: nat where "MAX_PARENT_IDX = (INT_MAX - 2) div 2"
definition LEFT_CHILD :: "nat \<Rightarrow> nat" where "LEFT_CHILD i = 2 * i + 1"
definition PARENT :: "nat \<Rightarrow> nat" where "PARENT i = (i - 1) div 2"

abbreviation item_at :: "pqueue \<Rightarrow> nat \<Rightarrow> ptr" where
  "item_at q i \<equiv> sl_list (heap q) ! i"

abbreviation used :: "pqueue \<Rightarrow> nat" where
  "used q \<equiv> num_used (heap q)"

definition UPDATE_IDX :: "nat \<Rightarrow> pqueue \<Rightarrow> pqueue" where
  "UPDATE_IDX i q = q\<lparr>index_of := (index_of q)(item_at q i := int i)\<rparr>"

definition set_item :: "nat \<Rightarrow> ptr \<Rightarrow> pqueue \<Rightarrow> pqueue" where
  "set_item i x q = q\<lparr>heap := (heap q)\<lparr>sl_list := (sl_list (heap q))[i := x]\<rparr>\<rparr>"

definition exchange :: "nat \<Rightarrow> nat \<Rightarrow> pqueue \<Rightarrow> pqueue" where
  "exchange i j q = UPDATE_IDX j (UPDATE_IDX i (set_item j (item_at q i) (set_item i (item_at q j) q)))"

definition best_idx :: "(ptr \<Rightarrow> ptr \<Rightarrow> int) \<Rightarrow> pqueue \<Rightarrow> nat \<Rightarrow> nat" where
  "best_idx compare q idx =
     (let left_idx = LEFT_CHILD idx;
          best = (if compare (item_at q idx) (item_at q left_idx) < 0 then idx else left_idx)
      in if left_idx + 1 < used q \<and> compare (item_at q (left_idx + 1)) (item_at q best) < 0
         then left_idx + 1 else best)"

lemma used_simps [simp]:
  "used (set_item i x q) = used q" "used (UPDATE_IDX i q) = used q" "used (exchange i j q) = used q"
  by (simp_all add: set_item_def UPDATE_IDX_def exchange_def)

lemma best_idx_range:
  "LEFT_CHILD idx < used q \<Longrightarrow> best_idx compare q idx \<noteq> idx \<Longrightarrow>
    idx < best_idx compare q idx \<and> best_idx compare q idx < used q \<and> PARENT (best_idx compare q idx) = idx"
  by (auto simp: best_idx_def LEFT_CHILD_def PARENT_def Let_def split: if_splits)

function smartlist_heapify :: "(ptr \<Rightarrow> ptr \<Rightarrow> int) \<Rightarrow> pqueue \<Rightarrow> nat \<Rightarrow> pqueue" where
  "smartlist_heapify compare q idx =
     (if MAX_PARENT_IDX < idx then q
      else if used q \<le> LEFT_CHILD idx then q
      else if best_idx compare q idx = idx then q
      else smartlist_heapify compare (exchange idx (best_idx compare q idx) q) (best_idx compare q idx))"
  by pat_completeness auto

termination
  by (relation "measure (\<lambda>(compare, q, idx). used q - idx)") (use best_idx_range in \<open>force+\<close>)

declare smartlist_heapify.simps [simp del]

function sift_up :: "(ptr \<Rightarrow> ptr \<Rightarrow> int) \<Rightarrow> pqueue \<Rightarrow> nat \<Rightarrow> pqueue" where
  "sift_up compare q idx =
     (if idx = 0 then q
      else if compare (item_at q idx) (item_at q (PARENT idx)) < 0
      then sift_up compare (exchange (PARENT idx) idx q) (PARENT idx)
      else q)"
  by pat_completeness auto

termination
  by (relation "measure (\<lambda>(compare, q, idx). idx)") (auto simp: PARENT_def)

declare sift_up.simps [simp del]

definition smartlist_pqueue_add :: "(ptr \<Rightarrow> ptr \<Rightarrow> int) \<Rightarrow> pqueue \<Rightarrow> ptr \<Rightarrow> sl_fault + pqueue" where
  "smartlist_pqueue_add compare q item =
     and_then (smartlist_add (heap q) item) (\<lambda>sl.
       let q1 = UPDATE_IDX (num_used sl - 1) (q\<lparr>heap := sl\<rparr>)
       in Inr (sift_up compare q1 (num_used sl - 1)))"

definition drop_last :: "pqueue \<Rightarrow> pqueue" where
  "drop_last q = q\<lparr>heap := (heap q)\<lparr>num_used := used q - 1\<rparr>\<rparr>"

definition smartlist_pqueue_pop :: "(ptr \<Rightarrow> ptr \<Rightarrow> int) \<Rightarrow> pqueue \<Rightarrow> sl_fault + (pqueue \<times> ptr)" where
  "smartlist_pqueue_pop compare q =
     (if used q = 0 then Inl Sl_Assert
      else let top = item_at q 0;
               q1 = drop_last (q\<lparr>index_of := (index_of q)(top := -1)\<rparr>);
               n = used q1;
               q2 = (if n \<noteq> 0
                     then smartlist_heapify compare (UPDATE_IDX 0 (set_item n NULL (set_item 0 (item_at q1 n) q1))) 0
                     else q1)
           in Inr (set_item n NULL q2, top))"

definition smartlist_pqueue_remove :: "(ptr \<Rightarrow> ptr \<Rightarrow> int) \<Rightarrow> pqueue \<Rightarrow> ptr \<Rightarrow> sl_fault + pqueue" where
  "smartlist_pqueue_remove compare q item =
     (let idx = index_of q item in
      if idx < 0 \<or> length (sl_list (heap q)) \<le> nat idx \<or> item_at q (nat idx) \<noteq> item then Inl Sl_Assert
      else let q1 = drop_last (q\<lparr>index_of := (index_of q)(item := -1)\<rparr>); n = used q1; i = nat idx
           in if i = n then Inr (set_item n NULL q1)
              else Inr (smartlist_heapify compare (UPDATE_IDX i (set_item n NULL (set_item i (item_at q1 n) q1))) i))"

definition smartlist_pqueue_assert_ok :: "(ptr \<Rightarrow> ptr \<Rightarrow> int) \<Rightarrow> pqueue \<Rightarrow> bool" where
  "smartlist_pqueue_assert_ok compare q \<longleftrightarrow>
     (\<forall>i \<in> set [0..<used q]. (0 < i \<longrightarrow> compare (item_at q (PARENT i)) (item_at q i) \<le> 0) \<and>
        index_of q (item_at q i) = int i)"

section \<open>Searching is correct\<close>

text \<open>The members are in the order of the comparison: the key is greater than a first part, equal to a second, less than the rest.\<close>

definition in_order :: "(ptr \<Rightarrow> int) \<Rightarrow> ptr list \<Rightarrow> bool" where
  "in_order compare xs \<longleftrightarrow> (\<forall>i j. i \<le> j \<longrightarrow> j < length xs \<longrightarrow>
     (compare (xs ! i) \<le> 0 \<longrightarrow> compare (xs ! j) \<le> 0) \<and> (compare (xs ! i) < 0 \<longrightarrow> compare (xs ! j) < 0))"

lemma in_order_less: "in_order compare xs \<Longrightarrow> compare (xs ! i) < 0 \<Longrightarrow> i \<le> j \<Longrightarrow> j < length xs \<Longrightarrow> compare (xs ! j) < 0"
  by (simp add: in_order_def)

lemma in_order_greater:
  "in_order compare xs \<Longrightarrow> 0 < compare (xs ! j) \<Longrightarrow> i \<le> j \<Longrightarrow> j < length xs \<Longrightarrow> 0 < compare (xs ! i)"
  by (meson in_order_def not_less)

definition search_result :: "(ptr \<Rightarrow> int) \<Rightarrow> ptr list \<Rightarrow> sl_fault + (int \<times> bool) \<Rightarrow> bool" where
  "search_result compare xs r \<longleftrightarrow>
     (\<exists>k found. r = Inr (int k, found) \<and> k \<le> length xs \<and>
       (if found then k < length xs \<and> compare (xs ! k) = 0
        else (\<forall>i < k. 0 < compare (xs ! i)) \<and> (\<forall>i. k \<le> i \<longrightarrow> i < length xs \<longrightarrow> compare (xs ! i) < 0)))"

lemma bsearch_loop_ok:
  assumes "sl_ok sl" and "in_order compare (contents sl)" and "0 \<le> lo" and "lo \<le> hi + 1" and "0 \<le> hi" and "hi < int (num_used sl)"
    and "\<forall>i < nat lo. 0 < compare (contents sl ! i)"
    and "\<forall>i. nat hi < i \<longrightarrow> i < num_used sl \<longrightarrow> compare (contents sl ! i) < 0"
  shows "search_result compare (contents sl) (bsearch_loop compare sl lo hi)"
  using assms
proof (induction compare sl lo hi rule: bsearch_loop.induct)
  case (1 compare sl lo hi)
  have len: "length (contents sl) = num_used sl"
    using "1.prems"(1) by (rule sl_okE)
  have nth: "sl_list sl ! i = contents sl ! i" if "i < num_used sl" for i
    using that by (simp add: contents_def)
  show ?case
  proof (cases "lo \<le> hi")
    case False
    then have lo: "lo = hi + 1" "nat lo = Suc (nat hi)" "int (Suc (nat hi)) = lo"
      using "1.prems"(4,5) by simp_all
    have last: "0 < compare (contents sl ! (num_used sl - 1))" if "\<not> lo < int (num_used sl)"
      using "1.prems"(5-7) that lo by (auto simp: less_diff_conv)
    have "bsearch_loop compare sl lo hi = Inr (int (Suc (nat hi)), False)"
      using False lo last "1.prems"(3,5,6,8) nth by (subst bsearch_loop.simps) auto
    then show ?thesis
      using "1.prems"(6-8) lo len unfolding search_result_def
      by (intro exI [of _ "Suc (nat hi)"] exI [of _ False]) auto
  next
    case True
    define mid where "mid = lo + (hi - lo) div 2"
    have mid: "lo \<le> mid" "mid \<le> hi" "0 \<le> mid" "mid < int (num_used sl)" "nat mid < num_used sl" "int (nat mid) = mid"
      using True "1.prems"(3,6) by (auto simp: mid_def)
    let ?c = "compare (contents sl ! nat mid)"
    note step = bsearch_loop.simps [of compare sl lo hi, unfolded Let_def, folded mid_def]
    consider "?c = 0" | "0 < ?c" | "?c < 0" "0 < mid" | "?c < 0" "mid = 0"
      using mid(3) by linarith
    then show ?thesis
    proof cases
      case 1
      then have "bsearch_loop compare sl lo hi = Inr (int (nat mid), True)"
        using True nth mid by (simp add: step)
      then show ?thesis
        using 1 mid len unfolding search_result_def by (intro exI [of _ "nat mid"] exI [of _ True]) simp
    next
      case 2
      have "\<forall>i < nat (mid + 1). 0 < compare (contents sl ! i)"
        using in_order_greater [OF "1.prems"(2) 2] mid len by auto
      then have "search_result compare (contents sl) (bsearch_loop compare sl (mid + 1) hi)"
        using "1.IH"(1) [OF True mid_def refl] 2 mid nth "1.prems" by simp
      then show ?thesis
        using 2 by (subst step) (simp add: True nth [OF mid(5)] mid(4))
    next
      case 3
      have "\<forall>i. nat (mid - 1) < i \<longrightarrow> i < num_used sl \<longrightarrow> compare (contents sl ! i) < 0"
        using in_order_less [OF "1.prems"(2) 3(1)] mid len by auto
      then have "search_result compare (contents sl) (bsearch_loop compare sl lo (mid - 1))"
        using "1.IH"(2) [OF True mid_def refl] 3 mid nth "1.prems" by simp
      then show ?thesis
        using True 3 nth mid by (simp add: step)
    next
      case 4
      have "sl_list sl ! 0 = contents sl ! 0" "lo = 0" "0 \<le> hi"
        using nth [OF mid(5)] 4(2) "1.prems"(3) mid by simp_all
      then have "bsearch_loop compare sl lo hi = Inr (int 0, False)"
        using 4 by (subst step) simp
      moreover have "\<forall>i. 0 \<le> i \<longrightarrow> i < length (contents sl) \<longrightarrow> compare (contents sl ! i) < 0"
        using in_order_less [OF "1.prems"(2) 4(1)] 4(2) by simp
      ultimately show ?thesis
        unfolding search_result_def by (intro exI [of _ 0] exI [of _ False]) simp
    qed
  qed
qed

lemma smartlist_bsearch_idx_ok:
  assumes "sl_ok sl" and "in_order compare (contents sl)"
  shows "search_result compare (contents sl) (smartlist_bsearch_idx sl compare)"
proof (cases "num_used sl = 0")
  case True
  then have "contents sl = []"
    by (simp add: contents_def)
  then show ?thesis
    using True by (auto simp: smartlist_bsearch_idx_def search_result_def)
next
  case False
  have "search_result compare (contents sl) (bsearch_loop compare sl 0 (int (num_used sl) - 1))"
    by (rule bsearch_loop_ok [OF assms]) (use False in auto)
  then show ?thesis
    using False by (simp add: smartlist_bsearch_idx_def)
qed

section \<open>The heap\<close>

text \<open>What the queue needs of the comparison: a total preorder.\<close>

definition comparison :: "(ptr \<Rightarrow> ptr \<Rightarrow> int) \<Rightarrow> bool" where
  "comparison compare \<longleftrightarrow> (\<forall>a b. compare a b < 0 \<longleftrightarrow> 0 < compare b a) \<and>
     (\<forall>a b c. compare a b \<le> 0 \<longrightarrow> compare b c \<le> 0 \<longrightarrow> compare a c \<le> 0)"

lemma comparison_simps:
  assumes "comparison compare"
  shows "compare a a \<le> 0" and "\<not> compare a b \<le> 0 \<Longrightarrow> compare b a \<le> 0" and "\<not> compare a b < 0 \<Longrightarrow> compare b a \<le> 0"
    and "compare a b \<le> 0 \<Longrightarrow> compare b c \<le> 0 \<Longrightarrow> compare a c \<le> 0" and "compare a b < 0 \<Longrightarrow> compare a b \<le> 0"
  using assms unfolding comparison_def by (auto simp: not_less) (metis less_irrefl not_less less_asym)+

text \<open>
  The heap on the first \<open>n\<close> slots, with the exceptions that hold while one item is on its way: down, it may
  be greater than its children, or up, it may be less than its parent.
\<close>

definition heap_on :: "(ptr \<Rightarrow> ptr \<Rightarrow> int) \<Rightarrow> nat \<Rightarrow> (nat \<Rightarrow> ptr) \<Rightarrow> bool" where
  "heap_on compare n h \<longleftrightarrow> (\<forall>j. 0 < j \<longrightarrow> j < n \<longrightarrow> compare (h (PARENT j)) (h j) \<le> 0)"

definition heap_above :: "(ptr \<Rightarrow> ptr \<Rightarrow> int) \<Rightarrow> nat \<Rightarrow> (nat \<Rightarrow> ptr) \<Rightarrow> nat \<Rightarrow> bool" where
  "heap_above compare n h i \<longleftrightarrow> (\<forall>j. 0 < j \<longrightarrow> j < n \<longrightarrow> PARENT j \<noteq> i \<longrightarrow> compare (h (PARENT j)) (h j) \<le> 0) \<and>
     (\<forall>j. 0 < j \<longrightarrow> j < n \<longrightarrow> PARENT j = i \<longrightarrow> 0 < i \<longrightarrow> compare (h (PARENT i)) (h j) \<le> 0)"

definition heap_below :: "(ptr \<Rightarrow> ptr \<Rightarrow> int) \<Rightarrow> nat \<Rightarrow> (nat \<Rightarrow> ptr) \<Rightarrow> nat \<Rightarrow> bool" where
  "heap_below compare n h i \<longleftrightarrow> (\<forall>j. 0 < j \<longrightarrow> j < n \<longrightarrow> j \<noteq> i \<longrightarrow> compare (h (PARENT j)) (h j) \<le> 0) \<and>
     (\<forall>j. 0 < j \<longrightarrow> j < n \<longrightarrow> PARENT j = i \<longrightarrow> 0 < i \<longrightarrow> compare (h (PARENT i)) (h j) \<le> 0)"

abbreviation heap_q :: "(ptr \<Rightarrow> ptr \<Rightarrow> int) \<Rightarrow> pqueue \<Rightarrow> bool" where
  "heap_q compare q \<equiv> heap_on compare (used q) (item_at q)"

lemma PARENT_less: "0 < i \<Longrightarrow> PARENT i < i"
  by (auto simp: PARENT_def)

lemma PARENT_child: "0 < j \<Longrightarrow> PARENT j = i \<longleftrightarrow> j = LEFT_CHILD i \<or> j = LEFT_CHILD i + 1"
  by (auto simp: PARENT_def LEFT_CHILD_def)

lemma item_exchange:
  assumes "i < length (sl_list (heap q))" and "j < length (sl_list (heap q))" and "i \<noteq> j"
  shows "item_at (exchange i j q) k = (if k = i then item_at q j else if k = j then item_at q i else item_at q k)"
  using assms by (auto simp: exchange_def set_item_def UPDATE_IDX_def nth_list_update)

lemma swap_down:
  assumes "comparison compare" and "heap_above compare n h i" and "b < n" and "i < b" and "PARENT b = i"
    and "compare (h b) (h i) \<le> 0" and "\<And>j. 0 < j \<Longrightarrow> j < n \<Longrightarrow> PARENT j = i \<Longrightarrow> compare (h b) (h j) \<le> 0"
    and "\<And>k. h' k = (if k = i then h b else if k = b then h i else h k)"
  shows "heap_above compare n h' b"
  unfolding heap_above_def
proof (intro conjI allI impI)
  fix j
  assume j: "0 < j" "j < n" "PARENT j \<noteq> b"
  show "compare (h' (PARENT j)) (h' j) \<le> 0"
  proof (cases "PARENT j = i")
    case True
    then have "j \<noteq> i"
      using PARENT_less [OF j(1)] by auto
    then show ?thesis
      using True assms(6) assms(7) [OF j(1,2) True] by (simp add: assms(8))
  next
    case False
    then show ?thesis
      using assms(2-5,8) j PARENT_less [of j] by (auto simp: heap_above_def)
  qed
next
  fix j
  assume j: "0 < j" "j < n" "PARENT j = b" "0 < b"
  then have "compare (h b) (h j) \<le> 0" "j \<noteq> i" "j \<noteq> b"
    using assms(2,4) PARENT_less [of j] by (auto simp: heap_above_def)
  then show "compare (h' (PARENT b)) (h' j) \<le> 0"
    using assms(5,8) by simp
qed

lemma swap_up:
  assumes "comparison compare" and "heap_below compare n h i" and "i < n" and "0 < i"
    and "compare (h i) (h (PARENT i)) \<le> 0"
    and "\<And>k. h' k = (if k = PARENT i then h i else if k = i then h (PARENT i) else h k)"
  shows "heap_below compare n h' (PARENT i)"
  unfolding heap_below_def
proof (intro conjI allI impI)
  fix j
  assume j: "0 < j" "j < n" "j \<noteq> PARENT i"
  have "PARENT i < i"
    by (rule PARENT_less [OF assms(4)])
  consider "j = i" | "j \<noteq> i" "PARENT j = PARENT i" | "j \<noteq> i" "PARENT j = i" | "j \<noteq> i" "PARENT j \<noteq> PARENT i" "PARENT j \<noteq> i"
    by blast
  then show "compare (h' (PARENT j)) (h' j) \<le> 0"
  proof cases
    case 1
    then show ?thesis
      using assms(5,6) \<open>PARENT i < i\<close> by simp
  next
    case 2
    then have "compare (h (PARENT i)) (h j) \<le> 0"
      using assms(2) j by (metis heap_below_def)
    then show ?thesis
      using 2 j assms(6) comparison_simps(4) [OF assms(1,5)] by simp
  next
    case 3
    then show ?thesis
      using assms(2,4,6) j by (auto simp: heap_below_def)
  next
    case 4
    then show ?thesis
      using assms(2,6) j by (auto simp: heap_below_def)
  qed
next
  fix j
  assume j: "0 < j" "j < n" "PARENT j = PARENT i" "0 < PARENT i"
  have i: "PARENT i < i" "PARENT (PARENT i) < PARENT i" "PARENT j < j"
    using PARENT_less assms(4) j by blast+
  have top: "compare (h (PARENT (PARENT i))) (h (PARENT i)) \<le> 0"
    using assms(2,3) j(4) i by (simp add: heap_below_def)
  show "compare (h' (PARENT (PARENT i))) (h' j) \<le> 0"
  proof (cases "j = i")
    case True
    then show ?thesis
      using top i assms(6) by simp
  next
    case False
    then have "compare (h (PARENT i)) (h j) \<le> 0"
      using assms(2) j by (metis heap_below_def)
    then show ?thesis
      using False i j assms(6) comparison_simps(4) [OF assms(1) top] by auto
  qed
qed

section \<open>The operations of the queue\<close>

text \<open>The queue is well formed: its items are distinct and not \<open>NULL\<close>, and each knows its place.\<close>

definition items :: "pqueue \<Rightarrow> ptr list" where
  "items q = contents (heap q)"

definition pq_ok :: "pqueue \<Rightarrow> bool" where
  "pq_ok q \<longleftrightarrow> sl_ok (heap q) \<and> distinct (items q) \<and> NULL \<notin> set (items q) \<and>
     (\<forall>i < used q. index_of q (item_at q i) = int i)"

lemma items_nth: "i < used q \<Longrightarrow> items q ! i = item_at q i"
  by (simp add: items_def contents_def)

lemma length_items: "sl_ok (heap q) \<Longrightarrow> length (items q) = used q"
  unfolding items_def by (rule sl_okE)

lemma used_le_length: "sl_ok (heap q) \<Longrightarrow> used q \<le> length (sl_list (heap q))"
  by (simp add: sl_ok_def)

lemma items_exchange:
  assumes "sl_ok (heap q)" and "i < used q" and "j < used q"
  shows "items (exchange i j q) = (items q)[i := items q ! j, j := items q ! i]"
proof (rule nth_equalityI)
  show "length (items (exchange i j q)) = length ((items q)[i := items q ! j, j := items q ! i])"
    using assms by (simp add: items_def contents_def exchange_def UPDATE_IDX_def set_item_def)
  fix k
  assume "k < length (items (exchange i j q))"
  then have k: "k < used q"
    by (simp add: items_def contents_def)
  have "item_at (exchange i j q) k = (items q)[i := items q ! j, j := items q ! i] ! k"
    using assms k used_le_length [OF assms(1)] length_items [OF assms(1)]
    by (auto simp: exchange_def UPDATE_IDX_def set_item_def nth_list_update items_nth)
  then show "items (exchange i j q) ! k = (items q)[i := items q ! j, j := items q ! i] ! k"
    using k by (simp add: items_nth)
qed

lemma sl_ok_set_item:
  assumes "sl_ok (heap q)" and "i < used q"
  shows "sl_ok (heap (set_item i x q))"
  using assms by (auto simp: sl_ok_def set_item_def drop_update_cancel)

lemma pq_ok_exchange:
  assumes "pq_ok q" and "i < used q" and "j < used q" and "i \<noteq> j"
  shows "pq_ok (exchange i j q) \<and> mset (items (exchange i j q)) = mset (items q)"
proof -
  have ok: "sl_ok (heap q)"
    using assms(1) by (simp add: pq_ok_def)
  have swap: "items (exchange i j q) = (items q)[i := items q ! j, j := items q ! i]"
    by (rule items_exchange [OF ok assms(2,3)])
  have mset: "mset (items (exchange i j q)) = mset (items q)"
    unfolding swap using assms(2,3) length_items [OF ok] by (intro mset_swap) simp_all
  have len: "i < length (sl_list (heap q))" "j < length (sl_list (heap q))"
    using assms(2,3) used_le_length [OF ok] by simp_all
  have ok': "sl_ok (heap (exchange i j q))"
    using sl_ok_set_item [OF sl_ok_set_item [OF ok assms(2)], of j] assms(3)
    by (simp add: exchange_def UPDATE_IDX_def)
  have "index_of (exchange i j q) (item_at (exchange i j q) k) = int k" if k: "k < used q" for k
  proof -
    have inj: "item_at q a = item_at q b \<longleftrightarrow> a = b" if "a < used q" "b < used q" for a b
      using assms(1) that length_items [OF ok] nth_eq_iff_index_eq [of "items q" a b] by (simp add: pq_ok_def items_nth)
    have "index_of (exchange i j q) = (index_of q)(item_at q j := int i, item_at q i := int j)"
      using len assms(4) by (auto simp: exchange_def UPDATE_IDX_def set_item_def nth_list_update)
    then show ?thesis
      using assms k inj by (auto simp: item_exchange [OF len assms(4)] pq_ok_def)
  qed
  then have "pq_ok (exchange i j q)"
    using assms(1) ok' mset mset_eq_imp_distinct_iff [OF mset] mset_eq_setD [OF mset] by (simp add: pq_ok_def)
  then show ?thesis
    using mset by simp
qed

lemma best_idx_least:
  assumes "comparison compare" and "LEFT_CHILD i < used q" and "best_idx compare q i \<noteq> i"
  shows "compare (item_at q (best_idx compare q i)) (item_at q i) \<le> 0"
    and "0 < j \<Longrightarrow> j < used q \<Longrightarrow> PARENT j = i \<Longrightarrow> compare (item_at q (best_idx compare q i)) (item_at q j) \<le> 0"
  using assms(2,3) PARENT_child [of j i]
  by (auto simp: best_idx_def Let_def intro: comparison_simps [OF assms(1)] split: if_splits)

lemma best_idx_self:
  assumes "comparison compare" and "best_idx compare q i = i" and "0 < j" and "j < used q" and "PARENT j = i"
  shows "compare (item_at q i) (item_at q j) \<le> 0"
  using assms(2-5) PARENT_child [of j i]
  by (auto simp: best_idx_def Let_def LEFT_CHILD_def intro: comparison_simps [OF assms(1)] split: if_splits)

lemma heapify_ok:
  assumes "comparison compare" and "pq_ok q" and "heap_above compare (used q) (item_at q) i"
  shows "pq_ok (smartlist_heapify compare q i) \<and> used (smartlist_heapify compare q i) = used q \<and>
    heap_on compare (used q) (item_at (smartlist_heapify compare q i)) \<and> mset (items (smartlist_heapify compare q i)) = mset (items q)"
  using assms
proof (induction compare q i rule: smartlist_heapify.induct)
  case (1 compare q i)
  have size: "used q \<le> INT_MAX"
    using "1.prems"(2) by (simp add: pq_ok_def sl_ok_def INT_MAX_def MAX_CAPACITY_def)
  show ?case
  proof (cases "MAX_PARENT_IDX < i \<or> used q \<le> LEFT_CHILD i")
    case True
    have "used q \<le> LEFT_CHILD i"
      using True size by (auto simp: MAX_PARENT_IDX_def INT_MAX_def LEFT_CHILD_def)
    then have "heap_q compare q"
      using "1.prems"(3) PARENT_child [of _ i] by (auto simp: heap_on_def heap_above_def)
    moreover have "smartlist_heapify compare q i = q"
      using True by (subst smartlist_heapify.simps) auto
    ultimately show ?thesis
      using "1.prems"(2) by simp
  next
    case False
    let ?b = "best_idx compare q i"
    show ?thesis
    proof (cases "?b = i")
      case True
      have "heap_q compare q"
        unfolding heap_on_def
      proof (intro allI impI)
        fix j
        assume j: "0 < j" "j < used q"
        show "compare (item_at q (PARENT j)) (item_at q j) \<le> 0"
        proof (cases "PARENT j = i")
          case pj: True
          then show ?thesis
            using best_idx_self [OF "1.prems"(1) True j pj] by simp
        qed (use "1.prems"(3) j in \<open>simp add: heap_above_def\<close>)
      qed
      moreover have "smartlist_heapify compare q i = q"
        using True by (subst smartlist_heapify.simps) auto
      ultimately show ?thesis
        using "1.prems"(2) by simp
    next
      case b: False
      have left: "LEFT_CHILD i < used q"
        using False by simp
      note range = best_idx_range [OF left b]
      let ?q = "exchange i ?b q"
      have ok: "pq_ok ?q \<and> mset (items ?q) = mset (items q)"
        by (rule pq_ok_exchange [OF "1.prems"(2)]) (use range b in auto)
      have len: "i < length (sl_list (heap q))" "?b < length (sl_list (heap q))"
        using range "1.prems"(2) by (simp_all add: pq_ok_def sl_ok_def)
      have "heap_above compare (used q) (item_at ?q) ?b"
      proof (rule swap_down [OF "1.prems"(1,3)])
        show "compare (item_at q ?b) (item_at q j) \<le> 0" if "0 < j" "j < used q" "PARENT j = i" for j
          by (rule best_idx_least(2) [OF "1.prems"(1) left b that])
      qed (use range best_idx_least(1) [OF "1.prems"(1) left b] item_exchange [OF len b [symmetric]] in auto)
      moreover have "smartlist_heapify compare q i = smartlist_heapify compare ?q ?b"
        using False b by (subst smartlist_heapify.simps) simp
      ultimately show ?thesis
        using "1.IH" [OF _ _ b "1.prems"(1)] False ok by simp
    qed
  qed
qed

lemma sift_up_ok:
  assumes "comparison compare" and "pq_ok q" and "i < used q" and "heap_below compare (used q) (item_at q) i"
  shows "pq_ok (sift_up compare q i) \<and> used (sift_up compare q i) = used q \<and>
    heap_on compare (used q) (item_at (sift_up compare q i)) \<and> mset (items (sift_up compare q i)) = mset (items q)"
  using assms
proof (induction compare q i rule: sift_up.induct)
  case (1 compare q i)
  show ?case
  proof (cases "i \<noteq> 0 \<and> compare (item_at q i) (item_at q (PARENT i)) < 0")
    case False
    have "heap_q compare q"
      unfolding heap_on_def
    proof (intro allI impI)
      fix j
      assume "0 < j" "j < used q"
      then show "compare (item_at q (PARENT j)) (item_at q j) \<le> 0"
        using "1.prems"(4) False comparison_simps(3) [OF "1.prems"(1)] by (cases "j = i") (auto simp: heap_below_def)
    qed
    moreover have "sift_up compare q i = q"
      using False by (subst sift_up.simps) auto
    ultimately show ?thesis
      using "1.prems"(2) by simp
  next
    case True
    then have p: "PARENT i < i"
      using PARENT_less by blast
    let ?q = "exchange (PARENT i) i q"
    have ok: "pq_ok ?q \<and> mset (items ?q) = mset (items q)"
      by (rule pq_ok_exchange [OF "1.prems"(2)]) (use p "1.prems"(3) in auto)
    have len: "PARENT i < length (sl_list (heap q))" "i < length (sl_list (heap q))"
      using p "1.prems"(2,3) by (simp_all add: pq_ok_def sl_ok_def)
    have "heap_below compare (used q) (item_at ?q) (PARENT i)"
      by (rule swap_up [OF "1.prems"(1,4,3)]) (use True p item_exchange [OF len] in auto)
    moreover have "sift_up compare q i = sift_up compare ?q (PARENT i)"
      using True by (subst sift_up.simps) simp
    ultimately show ?thesis
      using "1.IH" [OF _ _ "1.prems"(1)] True ok p "1.prems"(3) by simp
  qed
qed

text \<open>The item at the top is a least one.\<close>

lemma heap_top:
  assumes "comparison compare" and "heap_on compare n h" and "j < n"
  shows "compare (h 0) (h j) \<le> 0"
  using assms(3)
proof (induction j rule: less_induct)
  case (less j)
  show ?case
  proof (cases "j = 0")
    case True
    then show ?thesis
      by (simp add: comparison_simps(1) [OF assms(1)])
  next
    case False
    then have "compare (h 0) (h (PARENT j)) \<le> 0" "compare (h (PARENT j)) (h j) \<le> 0"
      using less PARENT_less [of j] assms(2) by (auto simp: heap_on_def)
    then show ?thesis
      by (rule comparison_simps(4) [OF assms(1)])
  qed
qed

lemma heap_shorter: "heap_on compare n h \<Longrightarrow> m \<le> n \<Longrightarrow> (\<And>i. i < m \<Longrightarrow> h' i = h i) \<Longrightarrow> heap_on compare m h'"
  unfolding heap_on_def by (metis PARENT_less less_le_trans less_trans)

lemma pqueue_add_ok:
  assumes "comparison compare" and "pq_ok q" and "heap_q compare q" and "used q < MAX_CAPACITY"
    and "item \<noteq> NULL" and "item \<notin> set (items q)"
  shows "\<exists>q'. smartlist_pqueue_add compare q item = Inr q' \<and> pq_ok q' \<and> heap_q compare q' \<and>
    mset (items q') = add_mset item (mset (items q))"
proof -
  have slok: "sl_ok (heap q)"
    using assms(2) by (simp add: pq_ok_def)
  obtain sl where sl: "smartlist_add (heap q) item = Inr sl" "sl_ok sl" "contents sl = items q @ [item]"
    using smartlist_add_ok [OF slok assms(4)] by (auto simp: items_def)
  have n: "num_used sl = Suc (used q)"
    using arg_cong [OF sl(3), of length] sl(2) length_items [OF slok] by (auto elim!: sl_okE)
  let ?q = "UPDATE_IDX (num_used sl - 1) (q\<lparr>heap := sl\<rparr>)"
  have items: "items ?q = items q @ [item]" "used ?q = Suc (used q)"
    using sl(3) n by (simp_all add: items_def UPDATE_IDX_def)
  have old: "item_at ?q i = item_at q i" if "i < used q" for i
    using items_nth [of i ?q] items_nth [OF that] that items length_items [OF slok] by (simp add: nth_append)
  have new: "item_at ?q (used q) = item"
    using items_nth [of "used q" ?q] items length_items [OF slok] by (simp add: nth_append)
  have "index_of ?q (item_at ?q i) = int i" if "i < used ?q" for i
  proof (cases "i = used q")
    case True
    then show ?thesis
      using n by (simp add: UPDATE_IDX_def)
  next
    case False
    then have i: "i < used q"
      using that items(2) by simp
    then have "item_at q i \<in> set (items q)"
      using items_nth [OF i] length_items [OF slok] by (metis nth_mem)
    then have "item_at q i \<noteq> item"
      using assms(6) by auto
    then have "index_of ?q (item_at q i) = index_of q (item_at q i)"
      using new n by (simp add: UPDATE_IDX_def)
    then show ?thesis
      using old [OF i] i assms(2) by (simp add: pq_ok_def)
  qed
  then have ok: "pq_ok ?q"
    using assms(2,5,6) sl(2) items by (simp add: pq_ok_def) (simp add: UPDATE_IDX_def)
  have "heap_below compare (used ?q) (item_at ?q) (used q)"
    unfolding heap_below_def
  proof (intro conjI allI impI)
    fix j
    assume "0 < j" "j < used ?q" "j \<noteq> used q"
    then have j: "0 < j" "j < used q" "PARENT j < used q"
      using items(2) PARENT_less [of j] by simp_all
    then show "compare (item_at ?q (PARENT j)) (item_at ?q j) \<le> 0"
      using assms(3) old by (simp add: heap_on_def)
  next
    fix j
    assume "0 < j" "j < used ?q" "PARENT j = used q"
    then show "compare (item_at ?q (PARENT (used q))) (item_at ?q j) \<le> 0"
      using PARENT_less [of j] items(2) by simp
  qed
  from sift_up_ok [OF assms(1) ok _ this] show ?thesis
    using items sl(1) n by (simp add: smartlist_pqueue_add_def Let_def)
qed

text \<open>The common part of \<open>smartlist_pqueue_pop\<close> and \<open>smartlist_pqueue_remove\<close>: the last item takes the free place.\<close>

definition fill_place :: "nat \<Rightarrow> pqueue \<Rightarrow> pqueue" where
  "fill_place i q =
     (let q1 = drop_last (q\<lparr>index_of := (index_of q)(item_at q i := -1)\<rparr>); n = used q1
      in UPDATE_IDX i (set_item n NULL (set_item i (item_at q1 n) q1)))"

lemma fill_place_simps:
  "heap (fill_place i q) = swap_end i (heap q)" "used (fill_place i q) = used q - 1"
  by (simp_all add: fill_place_def drop_last_def UPDATE_IDX_def set_item_def swap_end_def Let_def)

lemma fill_place_ok:
  assumes "pq_ok q" and "i < used q - 1"
  shows "pq_ok (fill_place i q) \<and> add_mset (item_at q i) (mset (items (fill_place i q))) = mset (items q) \<and>
    (\<forall>k < used q - 1. item_at (fill_place i q) k = (if k = i then item_at q (used q - 1) else item_at q k))"
proof -
  let ?n = "used q - 1" and ?q = "fill_place i q"
  have slok: "sl_ok (heap q)"
    using assms(1) by (simp add: pq_ok_def)
  have i: "i < used q" "Suc i \<noteq> used q"
    using assms(2) by auto
  note swap = swap_end_ok [OF slok i(1)]
  have len: "length (items q) = used q"
    by (rule length_items [OF slok])
  have split: "items q = take i (items q) @ item_at q i # drop (Suc i) (items q)"
    using i(1) len by (metis id_take_nth_drop items_nth)
  have drop: "drop (Suc i) (items q) \<noteq> []"
    using i len by auto
  then have last: "drop (Suc i) (items q) = butlast (drop (Suc i) (items q)) @ [last (items q)]"
    by (metis append_butlast_last_id drop_eq_Nil last_drop leI)
  have items: "items ?q = take i (items q) @ last (items q) # butlast (drop (Suc i) (items q))"
    using swap i(2) by (simp add: items_def fill_place_simps)
  have mset: "add_mset (item_at q i) (mset (items ?q)) = mset (items q)"
  proof -
    have "mset (items q) = mset (take i (items q)) + add_mset (item_at q i) (mset (drop (Suc i) (items q)))"
      by (subst split) simp
    also have "mset (drop (Suc i) (items q)) = add_mset (last (items q)) (mset (butlast (drop (Suc i) (items q))))"
      by (subst last) simp
    finally show ?thesis
      by (simp add: items)
  qed
  have at: "item_at ?q k = (if k = i then item_at q ?n else item_at q k)" if "k < ?n" for k
    using that used_le_length [OF slok] assms(2) by (auto simp: fill_place_simps swap_end_def Let_def nth_list_update)
  have inj: "item_at q a = item_at q b \<longleftrightarrow> a = b" if "a < used q" "b < used q" for a b
    using assms(1) that len nth_eq_iff_index_eq [of "items q" a b] by (simp add: pq_ok_def items_nth)
  have ix: "index_of ?q = (index_of q)(item_at q i := -1, item_at ?q i := int i)"
    by (simp add: fill_place_def drop_last_def UPDATE_IDX_def set_item_def Let_def)
  have "index_of ?q (item_at ?q k) = int k" if "k < ?n" for k
    using that assms ix at [OF that] at [OF assms(2)] inj [of k i] inj [of k ?n] inj [of ?n i]
    by (auto simp: pq_ok_def)
  moreover have "distinct (items ?q) \<and> NULL \<notin> set (items ?q)"
  proof -
    have "distinct (item_at q i # items ?q)" "set (items ?q) \<subseteq> set (items q)"
      using mset_eq_imp_distinct_iff [of "item_at q i # items ?q" "items q"] mset_eq_setD [of "item_at q i # items ?q" "items q"]
        mset assms(1) by (auto simp: pq_ok_def)
    then show ?thesis
      using assms(1) by (auto simp: pq_ok_def)
  qed
  ultimately have "pq_ok ?q"
    using swap by (simp add: pq_ok_def fill_place_simps)
  then show ?thesis
    using mset at by blast
qed

lemma heapify_length: "length (sl_list (heap (smartlist_heapify compare q i))) = length (sl_list (heap q))"
proof (induction compare q i rule: smartlist_heapify.induct)
  case (1 compare q i)
  have "length (sl_list (heap (exchange a b q))) = length (sl_list (heap q))" for a b
    by (simp add: exchange_def UPDATE_IDX_def set_item_def)
  then show ?case
    using 1 by (subst smartlist_heapify.simps) simp
qed

lemma free_slot: "pq_ok q \<Longrightarrow> used q < length (sl_list (heap q)) \<Longrightarrow> item_at q (used q) = NULL"
  unfolding pq_ok_def sl_ok_def by (metis Cons_nth_drop_Suc list.sel(1) hd_replicate replicate_empty list.distinct(1))

lemma pqueue_pop_ok:
  assumes "comparison compare" and "pq_ok q" and "heap_q compare q" and "used q \<noteq> 0"
  shows "\<exists>q' top. smartlist_pqueue_pop compare q = Inr (q', top) \<and> pq_ok q' \<and> heap_q compare q' \<and>
    mset (items q) = add_mset top (mset (items q')) \<and> (\<forall>x \<in> set (items q). compare top x \<le> 0)"
proof -
  have slok: "sl_ok (heap q)"
    using assms(2) by (simp add: pq_ok_def)
  have len: "length (items q) = used q"
    by (rule length_items [OF slok])
  have least: "\<forall>x \<in> set (items q). compare (item_at q 0) x \<le> 0"
    using heap_top [OF assms(1,3)] len by (auto simp: in_set_conv_nth items_nth)
  show ?thesis
  proof (cases "used q = 1")
    case True
    let ?q1 = "set_item 0 NULL (drop_last (q\<lparr>index_of := (index_of q)(item_at q 0 := -1)\<rparr>))"
    have "heap ?q1 = swap_end 0 (heap q)"
      using True by (simp add: set_item_def drop_last_def swap_end_def Let_def)
    then have "sl_ok (heap ?q1)" "items ?q1 = []" "used ?q1 = 0"
      using swap_end_ok [OF slok, of 0] True by (simp_all add: items_def)
    then have "pq_ok ?q1" "heap_q compare ?q1"
      by (simp_all add: pq_ok_def heap_on_def)
    moreover have "items q = [item_at q 0]"
      using len True items_nth [of 0 q] by (cases "items q") auto
    ultimately show ?thesis
      using True least \<open>items ?q1 = []\<close> by (simp add: smartlist_pqueue_pop_def Let_def drop_last_def)
  next
    case False
    then have n: "0 < used q - 1"
      using assms(4) by simp
    note fill = fill_place_ok [OF assms(2) n]
    let ?q = "fill_place 0 q"
    have "heap_above compare (used ?q) (item_at ?q) 0"
      unfolding heap_above_def
    proof (intro conjI allI impI)
      fix j
      assume j: "0 < j" "j < used ?q" "PARENT j \<noteq> 0"
      then have "PARENT j < used ?q"
        using PARENT_less [OF j(1)] by simp
      then show "compare (item_at ?q (PARENT j)) (item_at ?q j) \<le> 0"
        using j fill assms(3) by (simp add: fill_place_simps(2) heap_on_def)
    qed simp
    from heapify_ok [OF assms(1) _ this] fill
    have h: "pq_ok (smartlist_heapify compare ?q 0)" "used (smartlist_heapify compare ?q 0) = used q - 1"
      "heap_q compare (smartlist_heapify compare ?q 0)" "mset (items (smartlist_heapify compare ?q 0)) = mset (items ?q)"
      by (simp_all add: fill_place_simps(2))
    have "sl_list (heap (smartlist_heapify compare ?q 0)) ! (used q - 1) = NULL"
      "used q - 1 < length (sl_list (heap (smartlist_heapify compare ?q 0)))"
      using free_slot [of "smartlist_heapify compare ?q 0"] h(1,2) n used_le_length [OF slok]
      by (simp_all add: heapify_length fill_place_simps swap_end_def Let_def)
    then have "set_item (used q - 1) NULL (smartlist_heapify compare ?q 0) = smartlist_heapify compare ?q 0"
      unfolding set_item_def by (metis list_update_id pqueue.surjective pqueue.update_convs(1) smartlist.surjective smartlist.update_convs(1) old.unit.exhaust)
    then have "smartlist_pqueue_pop compare q = Inr (smartlist_heapify compare ?q 0, item_at q 0)"
      using assms(4) False by (simp add: smartlist_pqueue_pop_def fill_place_def Let_def drop_last_def)
    then show ?thesis
      using h fill least by auto
  qed
qed

section \<open>Properties\<close>

text \<open>
  Binary search is right and none of its assertions fails: in a list that is in order for the key, the
  index it returns is that of a member that matches the key, or else the place where the key would have to
  be inserted.
\<close>

lemma bsearch_finds:
  assumes "sl_ok sl" and "in_order compare (contents sl)"
  shows "\<exists>k found. smartlist_bsearch_idx sl compare = Inr (int k, found) \<and> k \<le> length (contents sl) \<and>
    found = (\<exists>x \<in> set (contents sl). compare x = 0) \<and>
    (found \<longrightarrow> k < length (contents sl) \<and> compare (contents sl ! k) = 0) \<and>
    (\<not> found \<longrightarrow> (\<forall>x \<in> set (take k (contents sl)). 0 < compare x) \<and> (\<forall>x \<in> set (drop k (contents sl)). compare x < 0))"
proof -
  let ?xs = "contents sl"
  obtain k found where r: "smartlist_bsearch_idx sl compare = Inr (int k, found)" "k \<le> length ?xs"
    and res: "if found then k < length ?xs \<and> compare (?xs ! k) = 0
      else (\<forall>i < k. 0 < compare (?xs ! i)) \<and> (\<forall>i. k \<le> i \<longrightarrow> i < length ?xs \<longrightarrow> compare (?xs ! i) < 0)"
    using smartlist_bsearch_idx_ok [OF assms] unfolding search_result_def by blast
  have no: "\<forall>x \<in> set (take k ?xs). 0 < compare x" "\<forall>x \<in> set (drop k ?xs). compare x < 0" if "\<not> found"
    using res that r(2) by (auto simp: in_set_conv_nth)
  moreover have "\<not> (\<exists>x \<in> set ?xs. compare x = 0)" if "\<not> found"
  proof
    assume "\<exists>x \<in> set ?xs. compare x = 0"
    moreover have "set ?xs = set (take k ?xs) \<union> set (drop k ?xs)"
      by (metis append_take_drop_id set_append)
    ultimately show False
      using no [OF that] by fastforce
  qed
  moreover have "\<exists>x \<in> set ?xs. compare x = 0" if found
    using res that nth_mem by auto
  ultimately show ?thesis
    using r res by (intro exI [of _ k] exI [of _ found]) auto
qed

definition by_address :: "ptr \<Rightarrow> ptr \<Rightarrow> int" where
  "by_address a b = int a - int b"

definition queue_of :: "ptr list \<Rightarrow> pqueue" where
  "queue_of xs = \<lparr>heap = mk_sl xs 1, index_of = (\<lambda>p. case map_of (zip xs [0..<length xs]) p of Some i \<Rightarrow> int i | None \<Rightarrow> -1)\<rparr>"

lemma assert_ok_iff: "pq_ok q \<Longrightarrow> smartlist_pqueue_assert_ok compare q \<longleftrightarrow> heap_q compare q"
  by (auto simp: smartlist_pqueue_assert_ok_def heap_on_def pq_ok_def)

lemma used_items: "pq_ok q \<Longrightarrow> used q = size (mset (items q))"
  by (simp add: pq_ok_def length_items)

text \<open>Adding the items of a list one after the other, and popping \<open>n\<close> items.\<close>

fun add_each :: "(ptr \<Rightarrow> ptr \<Rightarrow> int) \<Rightarrow> ptr list \<Rightarrow> pqueue \<Rightarrow> sl_fault + pqueue" where
  "add_each compare [] q = Inr q"
| "add_each compare (x # xs) q = and_then (smartlist_pqueue_add compare q x) (add_each compare xs)"

fun pop_each :: "(ptr \<Rightarrow> ptr \<Rightarrow> int) \<Rightarrow> nat \<Rightarrow> pqueue \<Rightarrow> sl_fault + ptr list" where
  "pop_each compare 0 q = Inr []"
| "pop_each compare (Suc n) q = and_then (smartlist_pqueue_pop compare q) (\<lambda>(q', top).
     and_then (pop_each compare n q') (\<lambda>xs. Inr (top # xs)))"

lemma add_each_ok:
  assumes "comparison compare" and "pq_ok q" and "heap_q compare q" and "used q + length xs \<le> MAX_CAPACITY"
    and "NULL \<notin> set xs" and "distinct xs" and "set xs \<inter> set (items q) = {}"
  shows "\<exists>q'. add_each compare xs q = Inr q' \<and> pq_ok q' \<and> heap_q compare q' \<and> mset (items q') = mset xs + mset (items q)"
  using assms(2-7)
proof (induction xs arbitrary: q)
  case (Cons x xs)
  then have "used q < MAX_CAPACITY" "x \<noteq> NULL" "x \<notin> set (items q)"
    by auto
  then obtain q1 where q1: "smartlist_pqueue_add compare q x = Inr q1" "pq_ok q1" "heap_q compare q1"
    "mset (items q1) = add_mset x (mset (items q))"
    using pqueue_add_ok [OF assms(1) Cons.prems(1,2)] by blast
  have "used q1 = Suc (used q)"
    using used_items [OF q1(2)] used_items [OF Cons.prems(1)] q1(4) by simp
  moreover have "set (items q1) = insert x (set (items q))"
    using q1(4) by (metis set_mset_add_mset_insert set_mset_mset)
  ultimately show ?case
    using Cons.IH [OF q1(2,3)] Cons.prems(3-6) q1 by auto
qed simp

lemma pop_each_ok:
  assumes "comparison compare" and "pq_ok q" and "heap_q compare q" and "used q = n"
  shows "\<exists>xs. pop_each compare n q = Inr xs \<and> mset xs = mset (items q) \<and> sorted_wrt (\<lambda>a b. compare a b \<le> 0) xs"
  using assms(2-4)
proof (induction n arbitrary: q)
  case 0
  then show ?case
    using used_items [OF 0(1)] by simp
next
  case (Suc n)
  then obtain q' top where q': "smartlist_pqueue_pop compare q = Inr (q', top)" "pq_ok q'" "heap_q compare q'"
    "mset (items q) = add_mset top (mset (items q'))" "\<forall>x \<in> set (items q). compare top x \<le> 0"
    using pqueue_pop_ok [OF assms(1) Suc.prems(1,2)] by auto
  then have "used q' = n"
    using used_items [OF q'(2)] used_items [OF Suc.prems(1)] Suc.prems(3) by simp
  then obtain xs where xs: "pop_each compare n q' = Inr xs" "mset xs = mset (items q')" "sorted_wrt (\<lambda>a b. compare a b \<le> 0) xs"
    using Suc.IH [OF q'(2,3)] by blast
  have "set xs \<subseteq> set (items q)"
    using xs(2) q'(4) by (metis mset_eq_setD set_mset_add_mset_insert set_mset_mset subset_insertI)
  then show ?case
    using q' xs by auto
qed

text \<open>
  C21. The priority queue sorts: items added one after the other to a queue that satisfies the assertions of
  \<open>smartlist_pqueue_assert_ok\<close> leave one that does, in which each item knows its place, and popping all items
  gives them in ascending order, each once. No assertion fails on the way.
\<close>

theorem pqueue_sorts:
  assumes "comparison compare" and "pq_ok q" and "smartlist_pqueue_assert_ok compare q" and "used q + length xs \<le> MAX_CAPACITY"
    and "NULL \<notin> set xs" and "distinct xs" and "set xs \<inter> set (items q) = {}"
  shows "\<exists>q' ys. add_each compare xs q = Inr q' \<and> pq_ok q' \<and> smartlist_pqueue_assert_ok compare q' \<and>
    pop_each compare (used q') q' = Inr ys \<and> mset ys = mset xs + mset (items q) \<and> sorted_wrt (\<lambda>a b. compare a b \<le> 0) ys"
proof -
  obtain q' where q': "add_each compare xs q = Inr q'" "pq_ok q'" "heap_q compare q'" "mset (items q') = mset xs + mset (items q)"
    using add_each_ok [OF assms(1,2) _ assms(4-7)] assms(2,3) assert_ok_iff by blast
  then show ?thesis
    using pop_each_ok [OF assms(1) q'(2,3) refl] assert_ok_iff by auto
qed

theorem pqueue_sorts_witness:
  "\<exists>q' ys. add_each by_address [3, 1] (queue_of [2, 5, 9]) = Inr q' \<and>
    pop_each by_address (used q') q' = Inr ys \<and> mset ys = {#3, 1, 2, 5, 9#} \<and> sorted_wrt (\<lambda>a b. by_address a b \<le> 0) ys"
proof -
  have pre: "comparison by_address" "pq_ok (queue_of [2, 5, 9])" "smartlist_pqueue_assert_ok by_address (queue_of [2, 5, 9])"
    "used (queue_of [2, 5, 9]) + length [3 :: ptr, 1] \<le> MAX_CAPACITY" "NULL \<notin> set [3 :: ptr, 1]" "distinct [3 :: ptr, 1]"
    "set [3, 1] \<inter> set (items (queue_of [2, 5, 9])) = {}" "mset (items (queue_of [2, 5, 9])) = {#2, 5, 9#}"
    by (auto simp: comparison_def by_address_def pq_ok_def queue_of_def items_def MAX_CAPACITY_def
        smartlist_pqueue_assert_ok_def PARENT_def less_Suc_eq)
  show ?thesis
    using pqueue_sorts [OF pre(1-7)] pre(8) by auto
qed

text \<open>The last item is taken off and no other moves.\<close>

definition cut_last :: "pqueue \<Rightarrow> pqueue" where
  "cut_last q = (let n = used q - 1 in
     set_item n NULL (drop_last (q\<lparr>index_of := (index_of q)(item_at q n := -1)\<rparr>)))"

lemma cut_last_ok:
  assumes "pq_ok q" and "0 < used q"
  shows "pq_ok (cut_last q) \<and> used (cut_last q) = used q - 1 \<and>
    add_mset (item_at q (used q - 1)) (mset (items (cut_last q))) = mset (items q) \<and>
    (\<forall>k < used q - 1. item_at (cut_last q) k = item_at q k)"
proof -
  let ?n = "used q - 1"
  have slok: "sl_ok (heap q)" and len: "length (items q) = used q"
    using assms(1) by (simp_all add: pq_ok_def length_items)
  have "heap (cut_last q) = swap_end ?n (heap q)"
    by (simp add: cut_last_def set_item_def drop_last_def swap_end_def Let_def)
  then have cut: "sl_ok (heap (cut_last q))" "used (cut_last q) = ?n" "items (cut_last q) = take ?n (items q)"
    using swap_end_ok [OF slok, of ?n] assms(2) by (simp_all add: items_def)
  have all: "items q = items (cut_last q) @ [item_at q ?n]"
    using len assms(2) items_nth [of ?n q] by (metis Suc_diff_1 cut(3) diff_less lessI less_le_trans le_refl
        take_Suc_conv_app_nth take_all zero_less_one)
  have at: "item_at (cut_last q) k = item_at q k" if "k < ?n" for k
    using that by (simp add: cut_last_def set_item_def drop_last_def Let_def)
  have "index_of (cut_last q) (item_at (cut_last q) k) = int k" if k: "k < ?n" for k
  proof -
    have "items q ! k \<noteq> items q ! ?n"
      using assms k len by (simp add: pq_ok_def nth_eq_iff_index_eq)
    then have "item_at q k \<noteq> item_at q ?n"
      using k by (simp add: items_nth)
    moreover have "index_of (cut_last q) = (index_of q)(item_at q ?n := -1)"
      by (simp add: cut_last_def set_item_def drop_last_def Let_def)
    ultimately show ?thesis
      using assms(1) k by (simp add: at [OF k] pq_ok_def)
  qed
  moreover have "distinct (items (cut_last q))" "NULL \<notin> set (items (cut_last q))"
    using assms(1) all by (auto simp: pq_ok_def)
  ultimately have "pq_ok (cut_last q)"
    using cut(1,2) by (simp add: pq_ok_def)
  moreover have "add_mset (item_at q ?n) (mset (items (cut_last q))) = mset (items q)"
    using arg_cong [OF all, of mset] by simp
  ultimately show ?thesis
    using cut(2) at by blast
qed

lemma pqueue_remove_unfold:
  assumes "pq_ok q" and "i < used q"
  shows "smartlist_pqueue_remove compare q (item_at q i) =
    Inr (if i = used q - 1 then cut_last q else smartlist_heapify compare (fill_place i q) i)"
proof -
  have "index_of q (item_at q i) = int i" "used q \<le> length (sl_list (heap q))"
    using assms by (simp_all add: pq_ok_def sl_ok_def)
  then show ?thesis
    using assms(2) by (simp add: smartlist_pqueue_remove_def cut_last_def fill_place_def drop_last_def Let_def)
qed

text \<open>The place in the middle is filled: the heap holds again exactly when the item fits below the parent.\<close>

lemma fill_place_fits:
  assumes "comparison compare" and "pq_ok q" and "heap_q compare q" and i: "i < used q - 1"
    and fits: "i = 0 \<or> compare (item_at q (PARENT i)) (item_at q (used q - 1)) \<le> 0"
  shows "heap_above compare (used (fill_place i q)) (item_at (fill_place i q)) i"
proof -
  let ?q = "fill_place i q" and ?n = "used q - 1"
  have at: "item_at ?q k = (if k = i then item_at q ?n else item_at q k)" if "k < ?n" for k
    using fill_place_ok [OF assms(2) i] that by simp
  have le: "compare (item_at q (PARENT j)) (item_at q j) \<le> 0" if "0 < j" "j < ?n" for j
    using assms(3) that by (simp add: heap_on_def)
  show ?thesis
    unfolding heap_above_def fill_place_simps(2)
  proof (intro conjI allI impI)
    fix j
    assume j: "0 < j" "j < ?n"
    then have p: "PARENT j < ?n" "PARENT j \<noteq> j"
      using PARENT_less [of j] by simp_all
    show "compare (item_at ?q (PARENT j)) (item_at ?q j) \<le> 0" if "PARENT j \<noteq> i"
      using that j p at le [OF j] fits by auto
    assume pj: "PARENT j = i" and "0 < i"
    then have "j \<noteq> i" "PARENT i < ?n" "PARENT i \<noteq> i"
      using p i PARENT_less [of i] by auto
    then show "compare (item_at ?q (PARENT i)) (item_at ?q j) \<le> 0"
      using at j comparison_simps(4) [OF assms(1) le [OF \<open>0 < i\<close> i]] le [OF j] pj by simp
  qed
qed

lemma fill_place_stays:
  assumes "comparison compare" and "pq_ok q" and "heap_q compare q" and i: "0 < i" "i < used q - 1"
    and less: "\<not> compare (item_at q (PARENT i)) (item_at q (used q - 1)) \<le> 0"
  shows "smartlist_heapify compare (fill_place i q) i = fill_place i q"
proof -
  let ?q = "fill_place i q" and ?n = "used q - 1"
  have at: "item_at ?q k = (if k = i then item_at q ?n else item_at q k)" if "k < ?n" for k
    using fill_place_ok [OF assms(2) i(2)] that by simp
  have below: "compare (item_at q ?n) (item_at q j) < 0" if j: "0 < j" "j < ?n" "PARENT j = i" for j
  proof -
    have "compare (item_at q (PARENT i)) (item_at q i) \<le> 0" "compare (item_at q i) (item_at q j) \<le> 0"
      using assms(3) i j by (auto simp: heap_on_def)
    then have "compare (item_at q (PARENT i)) (item_at q j) \<le> 0"
      by (rule comparison_simps(4) [OF assms(1)])
    moreover have "compare (item_at q (PARENT i)) (item_at q j) \<le> 0 \<Longrightarrow> compare (item_at q j) (item_at q ?n) \<le> 0 \<Longrightarrow> False"
      using comparison_simps(4) [OF assms(1)] less by blast
    ultimately have "0 < compare (item_at q j) (item_at q ?n)"
      by (meson not_le)
    then show ?thesis
      using assms(1) by (simp add: comparison_def)
  qed
  have "best_idx compare ?q i = i" if left: "LEFT_CHILD i < ?n"
  proof -
    have "compare (item_at ?q i) (item_at ?q (LEFT_CHILD i)) < 0"
      using at i left below [of "LEFT_CHILD i"] by (simp add: LEFT_CHILD_def PARENT_def)
    moreover have "\<not> compare (item_at ?q (LEFT_CHILD i + 1)) (item_at ?q i) < 0" if "LEFT_CHILD i + 1 < ?n"
    proof -
      have "compare (item_at ?q i) (item_at ?q (LEFT_CHILD i + 1)) < 0"
        using at i that below [of "LEFT_CHILD i + 1"] by (simp add: LEFT_CHILD_def PARENT_def)
      then show ?thesis
        using assms(1) by (metis comparison_def less_asym)
    qed
    ultimately show ?thesis
      by (auto simp: best_idx_def Let_def fill_place_simps(2))
  qed
  then show ?thesis
    by (subst smartlist_heapify.simps) (auto simp: fill_place_simps(2) not_le)
qed

text \<open>
  C39. Removal by \<open>smartlist_pqueue_remove\<close> takes the item out and leaves a well-formed queue, but it does not
  always leave a heap: the last item takes the free place and only ever moves down. For every queue and
  every member, \<open>smartlist_pqueue_assert_ok\<close> holds afterwards exactly when the item was at the top or at
  the end, or the last item is not less than the parent of the free place.
\<close>

theorem pqueue_remove_heap_iff:
  assumes "comparison compare" and "pq_ok q" and "smartlist_pqueue_assert_ok compare q" and "i < used q"
  shows "\<exists>q'. smartlist_pqueue_remove compare q (item_at q i) = Inr q' \<and> pq_ok q' \<and>
    mset (items q) = add_mset (item_at q i) (mset (items q')) \<and>
    (smartlist_pqueue_assert_ok compare q' \<longleftrightarrow>
      i = 0 \<or> i = used q - 1 \<or> compare (item_at q (PARENT i)) (item_at q (used q - 1)) \<le> 0)"
proof -
  have heap: "heap_q compare q"
    using assms(2,3) assert_ok_iff by blast
  note remove = pqueue_remove_unfold [OF assms(2,4), of compare]
  show ?thesis
  proof (cases "i = used q - 1")
    case True
    have cut: "pq_ok (cut_last q)" "heap_q compare (cut_last q)"
      using cut_last_ok [OF assms(2)] heap_shorter [OF heap, of "used q - 1"] assms(4) by simp_all
    then show ?thesis
      using True remove cut_last_ok [OF assms(2)] assms(4) assert_ok_iff [OF cut(1)] by simp
  next
    case False
    then have i: "i < used q - 1"
      using assms(4) by simp
    note fill = fill_place_ok [OF assms(2) i]
    let ?q = "fill_place i q"
    let ?fits = "i = 0 \<or> compare (item_at q (PARENT i)) (item_at q (used q - 1)) \<le> 0"
    show ?thesis
    proof (cases ?fits)
      case True
      from heapify_ok [OF assms(1) _ fill_place_fits [OF assms(1,2) heap i True]] fill
      show ?thesis
        using False True remove assert_ok_iff by simp
    next
      case out: False
      then have stays: "smartlist_heapify compare ?q i = ?q"
        using fill_place_stays [OF assms(1,2) heap _ i] by simp
      have "\<not> compare (item_at ?q (PARENT i)) (item_at ?q i) \<le> 0"
        using fill out i PARENT_less [of i] by simp
      then have "\<not> heap_q compare ?q"
        using out i by (auto simp: heap_on_def fill_place_simps(2))
      then show ?thesis
        using False out remove stays fill assert_ok_iff [of ?q compare] by simp
    qed
  qed
qed

theorem pqueue_remove_heap_iff_witness:
  "\<exists>q'. smartlist_pqueue_remove by_address (queue_of [1, 10, 2, 11, 12, 3, 4]) 11 = Inr q' \<and> pq_ok q' \<and>
      \<not> smartlist_pqueue_assert_ok by_address q'"
proof -
  let ?q = "queue_of [1, 10, 2, 11, 12, 3, 4]"
  have "comparison by_address"
    by (auto simp: comparison_def by_address_def)
  moreover have "pq_ok ?q"
    by (auto simp: pq_ok_def queue_of_def items_def MAX_CAPACITY_def less_Suc_eq)
  moreover have "smartlist_pqueue_assert_ok by_address ?q"
    by code_simp
  moreover have "3 < used ?q" "item_at ?q 3 = 11" "\<not> by_address (item_at ?q (PARENT 3)) (item_at ?q (used ?q - 1)) \<le> 0"
    by code_simp+
  moreover have "(3 :: nat) \<noteq> 0" "3 \<noteq> used ?q - 1"
    by code_simp+
  ultimately show ?thesis
    using pqueue_remove_heap_iff [of by_address ?q 3] by metis
qed

end
