(* ===== verification/Plugin_Names.thy ===== *)
theory Plugin_Names
  imports Smartlist Ubpf_Elf
begin

text \<open>
  Lists of plugin names as they travel in cells: written into a payload separated by newlines
  (\<open>smart_list_to_payload\<close>), read back (\<open>smart_list_plugins_in_payload\<close>, and the loop of
  \<open>handle_plugin_request_cell\<close>), and the small helpers on names, all of
  \<^verbatim>\<open>src/core/or/plugin_exchange.c\<close>. Names are C strings, that is bytes without a zero.
\<close>

type_synonym name = "u8 list"

text \<open>What C leaves undefined or what ends the process, in the order of the code's mistakes.\<close>

datatype exch_fault = Buffer_Overflow | Over_Read | Null_Pointer | Closed_Stream | Endless_Loop | Bad_Assertion

definition PATH_MAX :: nat where "PATH_MAX = 4096"

definition nl :: u8 where "nl = 10"
definition slash :: u8 where "slash = 47"
definition dot :: u8 where "dot = 46"

section \<open>Writing\<close>

definition put_bytes :: "nat \<Rightarrow> u8 list \<Rightarrow> u8 list \<Rightarrow> exch_fault + u8 list" where
  "put_bytes i bs buf = (if i + length bs \<le> length buf then Inr (put_range i bs buf) else Inl Buffer_Overflow)"

fun to_payload_loop :: "name list \<Rightarrow> u8 list \<Rightarrow> nat \<Rightarrow> nat \<Rightarrow> exch_fault + u8 list \<times> nat \<times> nat" where
  "to_payload_loop [] list_out idx space_left = Inr (list_out, idx, space_left)"
| "to_payload_loop (plugin_name # rest) list_out idx space_left =
     (if length plugin_name + 1 < space_left
      then and_then (put_bytes idx (plugin_name @ [nl]) list_out) (\<lambda>out.
        to_payload_loop rest out (idx + length plugin_name + 1) (space_left - (length plugin_name + 1)))
      else to_payload_loop rest list_out idx space_left)"

definition smart_list_to_payload :: "name list \<Rightarrow> u8 list \<Rightarrow> nat \<Rightarrow> exch_fault + u8 list \<times> nat" where
  "smart_list_to_payload list list_out max_size =
     and_then (to_payload_loop list list_out 0 max_size) (\<lambda>(out, idx, space_left).
     and_then (put_bytes (if 0 < idx then idx - 1 else 0) [0] out) (\<lambda>out.
     Inr (out, max_size - space_left)))"

section \<open>Reading\<close>

text \<open>\<open>cur\<close> is the part of the payload since \<open>start_idx\<close>.\<close>

fun scan_names :: "name \<Rightarrow> u8 list \<Rightarrow> exch_fault + name list" where
  "scan_names cur [] = Inl Over_Read"
| "scan_names cur (b # payload) =
     (if b = 0 then if cur = [] then Inr [] else if PATH_MAX \<le> length cur then Inl Buffer_Overflow else Inr [cur]
      else if b = nl
      then if PATH_MAX \<le> length cur then Inl Buffer_Overflow
           else and_then (scan_names [] payload) (\<lambda>names. Inr (cur # names))
      else scan_names (cur @ [b]) payload)"

definition smart_list_plugins_in_payload :: "u8 list \<Rightarrow> exch_fault + name list" where
  "smart_list_plugins_in_payload payload = scan_names [] payload"

text \<open>The names that the loop of \<open>handle_plugin_request_cell\<close> calls \<open>send_plugin\<close> with.\<close>

fun request_names :: "name \<Rightarrow> u8 list \<Rightarrow> exch_fault + name list" where
  "request_names cur [] = Inl Over_Read"
| "request_names cur (b # payload) =
     (if b = nl then and_then (request_names [] payload) (\<lambda>names. Inr (cur # names))
      else if b = 0 then Inr [cur]
      else request_names (cur @ [b]) payload)"

section \<open>Helpers\<close>

definition is_str_in_smartlist :: "name \<Rightarrow> name list \<Rightarrow> bool" where
  "is_str_in_smartlist str list \<longleftrightarrow> list_ex (\<lambda>current. current = str) list"

text \<open>\<open>path\<close> is the array of \<open>max_len\<close> bytes, which the scan may leave when it holds no slash.\<close>

definition get_dir_name :: "u8 list \<Rightarrow> exch_fault + name" where
  "get_dir_name path =
     (if slash \<in> set path then Inr (takeWhile (\<lambda>b. b \<noteq> 0) (takeWhile (\<lambda>b. b \<noteq> slash) path)) else Inl Over_Read)"

fun join_names :: "name list \<Rightarrow> u8 list" where
  "join_names [] = []"
| "join_names [s] = s"
| "join_names (s # t # ss) = s @ [44, 32] @ join_names (t # ss)"

text \<open>The string is written into a buffer of the size computed first.\<close>

definition smart_list_to_str :: "name list option \<Rightarrow> exch_fault + u8 list" where
  "smart_list_to_str list =
     (case list of
        None \<Rightarrow> Inr [40, 110, 117, 108, 108, 41]
      | Some [] \<Rightarrow> Inr [40, 101, 109, 112, 116, 121, 41]
      | Some names \<Rightarrow>
          (let str_size = sum_list (map (\<lambda>s. length s + 2) names) + 1 in
           if length (join_names names) < str_size then Inr (join_names names) else Inl Buffer_Overflow))"

section \<open>Facts\<close>

definition plain_name :: "name \<Rightarrow> bool" where
  "plain_name n \<longleftrightarrow> n \<noteq> [] \<and> 0 \<notin> set n \<and> nl \<notin> set n"

text \<open>The names that fit: those after which a byte is left in the payload.\<close>

fun fitting :: "nat \<Rightarrow> name list \<Rightarrow> name list" where
  "fitting space [] = []"
| "fitting space (n # ns) =
     (if length n + 1 < space then n # fitting (space - (length n + 1)) ns else fitting space ns)"

definition lines_of :: "name list \<Rightarrow> u8 list" where
  "lines_of ns = concat (map (\<lambda>n. n @ [nl]) ns)"

lemma lines_of_simps [simp]: "lines_of [] = []" "lines_of (n # ns) = n @ nl # lines_of ns"
  "lines_of (ns @ ms) = lines_of ns @ lines_of ms"
  by (simp_all add: lines_of_def)

lemma lines_of_fitting: "length (lines_of (fitting space ns)) \<le> space - 1 \<and> (fitting space ns \<noteq> [] \<longrightarrow> 1 < space)"
  by (induction space ns rule: fitting.induct) auto

lemma to_payload_loop_ok:
  assumes "length buf = idx + space" and "idx = length pre" and "take idx buf = pre"
  shows "\<exists>out. to_payload_loop ns buf idx space = Inr (out, idx + length (lines_of (fitting space ns)),
      space - length (lines_of (fitting space ns))) \<and> length out = length buf \<and>
    take (idx + length (lines_of (fitting space ns))) out = pre @ lines_of (fitting space ns)"
  using assms
proof (induction ns arbitrary: buf idx space pre)
  case (Cons n ns)
  show ?case
  proof (cases "length n + 1 < space")
    case True
    let ?buf = "put_range idx (n @ [nl]) buf"
    have put: "put_bytes idx (n @ [nl]) buf = Inr ?buf"
      using True Cons.prems by (simp add: put_bytes_def)
    have "length ?buf = length buf"
      using True Cons.prems by (intro length_put_range) simp
    moreover have "take (idx + length n + 1) ?buf = pre @ n @ [nl]"
      using True Cons.prems by (simp add: put_range_def)
    ultimately show ?thesis
      using Cons.IH [of ?buf "idx + length n + 1" "space - (length n + 1)" "pre @ n @ [nl]"] True Cons.prems put
      by (auto simp: algebra_simps)
  next
    case False
    then show ?thesis
      using Cons by simp
  qed
qed simp

text \<open>Reading a list that ends with a zero where the last newline was.\<close>

lemma scan_names_append:
  "0 \<notin> set n \<Longrightarrow> nl \<notin> set n \<Longrightarrow> scan_names cur (n @ rest) = scan_names (cur @ n) rest"
  by (induction n arbitrary: cur) auto

lemma request_names_append:
  "0 \<notin> set n \<Longrightarrow> nl \<notin> set n \<Longrightarrow> request_names cur (n @ rest) = request_names (cur @ n) rest"
  by (induction n arbitrary: cur) auto

lemma nl_nonzero [simp]: "nl \<noteq> 0"
  by (simp add: nl_def)

lemma scan_lines:
  assumes "\<forall>n \<in> set ns. plain_name n \<and> length n < PATH_MAX" and "ns \<noteq> []"
  shows "scan_names [] (butlast (lines_of ns) @ 0 # rest) = Inr ns"
    and "request_names [] (butlast (lines_of ns) @ 0 # rest) = Inr ns"
proof -
  have "scan_names [] (butlast (lines_of ns) @ 0 # rest) = Inr ns \<and> request_names [] (butlast (lines_of ns) @ 0 # rest) = Inr ns"
    using assms
  proof (induction ns)
    case (Cons n ns)
    then have n: "n \<noteq> []" "0 \<notin> set n" "nl \<notin> set n" "length n < PATH_MAX"
      by (simp_all add: plain_name_def)
    show ?case
    proof (cases "ns = []")
      case True
      then show ?thesis
        using n by (simp add: scan_names_append request_names_append butlast_append)
    next
      case False
      then have "butlast (lines_of (n # ns)) = n @ nl # butlast (lines_of ns)"
        by (cases ns) (simp_all add: butlast_append)
      then show ?thesis
        using n Cons False by (simp add: scan_names_append request_names_append)
    qed
  qed simp
  then show "scan_names [] (butlast (lines_of ns) @ 0 # rest) = Inr ns"
    and "request_names [] (butlast (lines_of ns) @ 0 # rest) = Inr ns"
    by simp_all
qed

lemma to_payload_form:
  assumes "length buf = max_size" and "0 < max_size"
  shows "\<exists>out rest. smart_list_to_payload ns buf max_size = Inr (out, length (lines_of (fitting max_size ns))) \<and>
    length out = length buf \<and> out = butlast (lines_of (fitting max_size ns)) @ 0 # rest"
proof -
  let ?ls = "lines_of (fitting max_size ns)" and ?m = "length (lines_of (fitting max_size ns))"
  obtain out where out: "to_payload_loop ns buf 0 max_size = Inr (out, ?m, max_size - ?m)" "length out = length buf"
    "take ?m out = ?ls"
    using to_payload_loop_ok [of buf 0 max_size "[]" ns] assms(1) by auto
  let ?k = "if 0 < ?m then ?m - 1 else 0"
  have m: "?m \<le> max_size - 1"
    using lines_of_fitting by blast
  then have k: "?k < length out"
    using out(2) assms by presburger
  have "take ?k out = take ?k (take ?m out)"
    by (simp add: min_def)
  then have "take ?k out = butlast ?ls"
    unfolding out(3) by (simp add: butlast_conv_take)
  then have "put_range ?k [0] out = butlast ?ls @ 0 # drop (?k + 1) out"
    by (simp add: put_range_def)
  moreover have "put_bytes ?k [0] out = Inr (put_range ?k [0] out)" "length (put_range ?k [0] out) = length buf"
    using k out(2) by (simp_all add: put_bytes_def)
  moreover have "max_size - (max_size - ?m) = ?m"
    using m assms(2) by simp
  ultimately show ?thesis
    using out(1) by (auto simp: smart_list_to_payload_def)
qed

lemma names_sent_and_read:
  assumes "length buf = max_size" and "0 < max_size" and "\<forall>n \<in> set ns. plain_name n \<and> length n < PATH_MAX"
  shows "\<exists>out len. smart_list_to_payload ns buf max_size = Inr (out, len) \<and> length out = max_size \<and> len \<le> max_size \<and>
    smart_list_plugins_in_payload out = Inr (fitting max_size ns) \<and>
    request_names [] out = Inr (if fitting max_size ns = [] then [[]] else fitting max_size ns) \<and>
    (sum_list (map (\<lambda>n. length n + 1) ns) < max_size \<longrightarrow> fitting max_size ns = ns)"
proof -
  obtain out rest where out: "smart_list_to_payload ns buf max_size = Inr (out, length (lines_of (fitting max_size ns)))"
    "length out = length buf" "out = butlast (lines_of (fitting max_size ns)) @ 0 # rest"
    using to_payload_form [OF assms(1,2)] by blast
  have "set (fitting k ns) \<subseteq> set ns" for k
    by (induction k ns rule: fitting.induct) auto
  then have plain: "\<forall>n \<in> set (fitting max_size ns). plain_name n \<and> length n < PATH_MAX"
    using assms(3) by blast
  have all: "fitting k ns = ns" if "sum_list (map (\<lambda>n. length n + 1) ns) < k" for k
    using that by (induction ns arbitrary: k) auto
  have "length (lines_of (fitting max_size ns)) \<le> max_size"
    using lines_of_fitting [of max_size ns] by linarith
  moreover have "smart_list_plugins_in_payload out = Inr (fitting max_size ns)"
    "request_names [] out = Inr (if fitting max_size ns = [] then [[]] else fitting max_size ns)"
    using scan_lines [OF plain, of rest] out(3)
    by (cases "fitting max_size ns = []"; simp add: smart_list_plugins_in_payload_def)+
  ultimately show ?thesis
    using out assms(1) all [of max_size] by blast
qed

section \<open>Properties\<close>

text \<open>
  Lists of names survive the wire: writing a list into a buffer stays inside it and never fails, both
  readers get back the names that fit, in their order, whatever the rest of the buffer holds, and no name
  is lost when there is room for all of them. Names are not empty and hold no newline.
\<close>

lemma names_round_trip:
  assumes "length buf = max_size" and "0 < max_size" and "\<forall>n \<in> set ns. plain_name n \<and> length n < PATH_MAX"
  shows "\<exists>out len. smart_list_to_payload ns buf max_size = Inr (out, len) \<and> length out = max_size \<and> len \<le> max_size \<and>
    smart_list_plugins_in_payload out = Inr (fitting max_size ns) \<and>
    request_names [] out = Inr (if fitting max_size ns = [] then [[]] else fitting max_size ns) \<and>
    (sum_list (map (\<lambda>n. length n + 1) ns) < max_size \<longrightarrow> fitting max_size ns = ns)"
  by (rule names_sent_and_read [OF assms])

text \<open>The buffer of \<open>smart_list_to_str\<close> is large enough for every list.\<close>

lemma smart_list_to_str_fits: "\<exists>s. smart_list_to_str list = Inr s"
proof -
  have fits: "names \<noteq> [] \<Longrightarrow> length (join_names names) < sum_list (map (\<lambda>s. length s + 2) names) + 1" for names
    by (induction names rule: join_names.induct) auto
  show ?thesis
    using fits [of "the list"] unfolding smart_list_to_str_def Let_def by (cases list; cases "the list") auto
qed

end
