(* ===== verification/Plugin_Files.thy ===== *)
theory Plugin_Files
  imports Plugin_Names
begin

text \<open>
  The files that the exchange of plugins works on: a tree of directories with the system calls
  \<^verbatim>\<open>src/core/or/plugin_exchange.c\<close> makes (\<open>stat\<close>, \<open>mkdir\<close>, \<open>fopen\<close>, \<open>fwrite\<close>, \<open>fread\<close>, \<open>rename\<close>, \<open>readdir\<close>),
  paths being resolved component by component, \<open>.\<close> and \<open>..\<close> included. There are no links, and every call that
  POSIX allows to succeed succeeds.
\<close>

type_synonym path = "name list"

datatype inode = Dir | File "u8 list"

type_synonym fs = "(path \<times> inode) list"

definition node_at :: "fs \<Rightarrow> path \<Rightarrow> inode option" where
  "node_at f p = (if p = [] then Some Dir else map_of f p)"

fun split_path :: "u8 list \<Rightarrow> name list" where
  "split_path [] = [[]]"
| "split_path (b # bs) = (if b = slash then [] # split_path bs else (b # hd (split_path bs)) # tl (split_path bs))"

fun walk :: "fs \<Rightarrow> path \<Rightarrow> name list \<Rightarrow> path option" where
  "walk f cur [] = Some cur"
| "walk f cur (c # cs) =
     (if c = [] \<or> c = [dot] then walk f cur cs
      else if c = [dot, dot] then walk f (butlast cur) cs
      else if cs = [] then Some (cur @ [c])
      else if node_at f (cur @ [c]) = Some Dir then walk f (cur @ [c]) cs
      else None)"

definition path_of :: "fs \<Rightarrow> u8 list \<Rightarrow> path option" where
  "path_of f s = walk f [] (split_path s)"

definition stat_ok :: "fs \<Rightarrow> u8 list \<Rightarrow> bool" where
  "stat_ok f s \<longleftrightarrow> (case path_of f s of None \<Rightarrow> False | Some p \<Rightarrow> node_at f p \<noteq> None)"

definition mkdir :: "u8 list \<Rightarrow> fs \<Rightarrow> fs" where
  "mkdir s f = (case path_of f s of None \<Rightarrow> f | Some p \<Rightarrow> if node_at f p = None then f @ [(p, Dir)] else f)"

text \<open>Opening for appending: the place of the file, which is created when it is not there.\<close>

definition fopen_append :: "u8 list \<Rightarrow> fs \<Rightarrow> (path \<times> fs) option" where
  "fopen_append s f =
     (case path_of f s of
        None \<Rightarrow> None
      | Some p \<Rightarrow>
          (case node_at f p of
             None \<Rightarrow> Some (p, f @ [(p, File [])])
           | Some (File _) \<Rightarrow> Some (p, f)
           | Some Dir \<Rightarrow> None))"

fun append_bytes :: "u8 list \<Rightarrow> inode \<Rightarrow> inode" where
  "append_bytes bs Dir = Dir"
| "append_bytes bs (File c) = File (c @ bs)"

definition append_to :: "path \<Rightarrow> u8 list \<Rightarrow> fs \<Rightarrow> fs" where
  "append_to p bs f = map (\<lambda>(q, n). (q, if q = p then append_bytes bs n else n)) f"

text \<open>Opening a directory for reading succeeds, and reads no bytes.\<close>

definition read_bytes :: "u8 list \<Rightarrow> fs \<Rightarrow> u8 list option" where
  "read_bytes s f =
     (case path_of f s of
        None \<Rightarrow> None
      | Some p \<Rightarrow> (case node_at f p of None \<Rightarrow> None | Some (File c) \<Rightarrow> Some c | Some Dir \<Rightarrow> Some []))"

definition entries_of :: "fs \<Rightarrow> path \<Rightarrow> name list" where
  "entries_of f p = map (\<lambda>(q, n). last q) (filter (\<lambda>(q, n). q \<noteq> [] \<and> butlast q = p) f)"

text \<open>The names in a directory in the order \<open>readdir\<close> gives them, which is up to the file system.\<close>

definition list_directory :: "(name list \<Rightarrow> name list) \<Rightarrow> u8 list \<Rightarrow> fs \<Rightarrow> name list option" where
  "list_directory order s f =
     (case path_of f s of
        None \<Rightarrow> None
      | Some p \<Rightarrow> if node_at f p = Some Dir then Some (order ([dot] # [dot, dot] # entries_of f p)) else None)"

definition under :: "path \<Rightarrow> path \<Rightarrow> bool" where
  "under p q \<longleftrightarrow> take (length p) q = p"

text \<open>
  \<open>rename\<close> of a directory: it fails when the source is missing, when the target is inside the source or is
  a directory that is not empty or a file.
\<close>

definition rename :: "u8 list \<Rightarrow> u8 list \<Rightarrow> fs \<Rightarrow> fs" where
  "rename s t f =
     (case (path_of f s, path_of f t) of
        (Some p, Some q) \<Rightarrow>
          if node_at f p \<noteq> Some Dir \<or> p = [] \<or> under p q \<or> q = [] then f
          else if node_at f q \<noteq> None \<and> \<not> (node_at f q = Some Dir \<and> entries_of f q = []) then f
          else map (\<lambda>(r, n). (if under p r then q @ drop (length p) r else r, n)) (filter (\<lambda>(r, n). r \<noteq> q) f)
      | _ \<Rightarrow> f)"

section \<open>Paths\<close>

lemma split_path_nonempty [simp]: "split_path s \<noteq> []"
  by (induction s) auto

lemma split_path_append: "split_path (s @ slash # t) = split_path s @ split_path t"
  by (induction s) auto

lemma split_path_plain: "slash \<notin> set s \<Longrightarrow> split_path s = [s]"
  by (induction s) auto

lemma walk_append:
  "walk f cur cs = Some p \<Longrightarrow> node_at f p = Some Dir \<Longrightarrow> ds \<noteq> [] \<Longrightarrow> walk f cur (cs @ ds) = walk f p ds"
  by (induction f cur cs rule: walk.induct) (auto split: if_splits)

definition file_name_ok :: "name \<Rightarrow> bool" where
  "file_name_ok n \<longleftrightarrow> n \<noteq> [] \<and> n \<noteq> [dot] \<and> n \<noteq> [dot, dot] \<and> slash \<notin> set n \<and> 0 \<notin> set n"

lemma path_of_in_dir:
  assumes "path_of f s = Some p" and "node_at f p = Some Dir" and "file_name_ok n"
  shows "path_of f (s @ slash # n) = Some (p @ [n])"
  using assms by (simp add: path_of_def split_path_append walk_append split_path_plain file_name_ok_def)

lemma map_of_append_to: "map_of (append_to p bs f) q = map_option (if q = p then append_bytes bs else id) (map_of f q)"
  unfolding append_to_def by (induction f) auto

lemma node_at_append_to:
  "node_at (append_to p bs f) q = (if q = p \<and> q \<noteq> [] then map_option (append_bytes bs) (node_at f q) else node_at f q)"
  by (simp add: node_at_def map_of_append_to option.map_id0)

lemma node_at_snoc: "node_at f p = None \<Longrightarrow> node_at (f @ [(p, n)]) q = (if q = p then Some n else node_at f q)"
  by (auto simp: node_at_def map_add_def split: option.splits if_splits)

text \<open>Paths depend on the directories only.\<close>

lemma walk_cong:
  "(\<And>p. node_at f p = Some Dir \<Longrightarrow> node_at g p = Some Dir) \<Longrightarrow> walk f cur cs = Some q \<Longrightarrow> walk g cur cs = Some q"
  by (induction f cur cs rule: walk.induct) (auto split: if_splits)

lemma path_of_cong:
  "(\<And>p. node_at f p = Some Dir \<Longrightarrow> node_at g p = Some Dir) \<Longrightarrow> path_of f s = Some q \<Longrightarrow> path_of g s = Some q"
  unfolding path_of_def by (rule walk_cong)

section \<open>Appending to a file\<close>

lemma fopen_write:
  assumes "path_of f s = Some p" and "node_at f p = None \<or> (\<exists>c. node_at f p = Some (File c))"
  shows "\<exists>g. fopen_append s f = Some (p, g) \<and>
    node_at (append_to p bs g) q =
      (if q = p then Some (File ((case node_at f p of Some (File c) \<Rightarrow> c | _ \<Rightarrow> []) @ bs)) else node_at f q)"
proof -
  have "p \<noteq> []"
    using assms(2) by (auto simp: node_at_def)
  then show ?thesis
    using assms(1,2)
    by (auto simp: fopen_append_def node_at_append_to node_at_snoc split: option.splits inode.splits)
qed

end
