(* ===== verification/Plugin_Exchange.thy ===== *)
theory Plugin_Exchange
  imports Plugin_Files Smartlist
begin

text \<open>
  The exchange of plugins between peers (\<^verbatim>\<open>src/core/or/plugin_exchange.c\<close>): offering the names of plugins when a
  circuit is created, requesting those that are missing, sending the files of a plugin in cells, storing
  them, and going on with the circuit when the last plugin has arrived.
\<close>

section \<open>State\<close>

datatype xcommand = CELL_PLUGIN_REQUEST | CELL_PLUGIN_TRANSFER | CELL_PLUGIN_TRANSFER_BACK
  | CELL_PLUGIN_TRANSFERRED | CELL_PLUGIN_TRANSFERRED_BACK

record xcell =
  command :: xcommand
  circ_id :: u32
  payload :: "u8 list"

datatype cell_direction = CELL_DIRECTION_IN | CELL_DIRECTION_OUT

text \<open>What the exchange uses of a circuit; channels are numbers.\<close>

record xcirc =
  x_origin :: bool
  x_marked :: bool
  x_n_chan :: "nat option"
  x_p_chan :: "nat option"
  x_p_circ_id :: u32
  missing_plugins :: "name list option"
  mandatory_plugins :: "name list option"
  n_chan_cells :: "xcell list"
  p_chan_cells :: "xcell list"

text \<open>
  A circuit is known by its place in the global list. \<open>resumed\<close> lists the circuits that
  \<open>continue_process_create_cell\<close> was called for.
\<close>

record node =
  files :: fs
  circs :: "xcirc list"
  chan_circid_map :: "u32 \<Rightarrow> nat \<Rightarrow> nat option"
  resumed :: "nat list"

text \<open>
  The surroundings: \<open>junk\<close> is what memory holds behind a string, \<open>dir_order\<close> the order in which \<open>readdir\<close> returns
  names, and \<open>stream_reused\<close> tells whether the C library gives a stream that is opened the address of the one
  closed before it. \<open>max_cells\<close> is \<open>max_circuit_cell_queue_size\<close>.
\<close>

record env =
  PluginsDirectory :: "u8 list"
  stream_reused :: bool
  junk :: "u8 list \<Rightarrow> u8 list"
  dir_order :: "name list \<Rightarrow> name list"
  max_cells :: nat

definition circuit_get_by_circid_channel :: "node \<Rightarrow> u32 \<Rightarrow> nat option \<Rightarrow> nat option" where
  "circuit_get_by_circid_channel nd cid chan =
     (case chan of
        None \<Rightarrow> None
      | Some ch \<Rightarrow>
          (case chan_circid_map nd cid ch of
             None \<Rightarrow> None
           | Some i \<Rightarrow> if length (circs nd) \<le> i \<or> x_marked (circs nd ! i) then None else Some i))"

definition update_circ :: "nat \<Rightarrow> (xcirc \<Rightarrow> xcirc) \<Rightarrow> node \<Rightarrow> node" where
  "update_circ i g nd = nd\<lparr>circs := (circs nd)[i := g (circs nd ! i)]\<rparr>"

text \<open>A circuit whose queue is full is marked for close.\<close>

definition append_cell_to_circuit_queue ::
  "env \<Rightarrow> node \<Rightarrow> nat option \<Rightarrow> xcell \<Rightarrow> cell_direction \<Rightarrow> exch_fault + node" where
  "append_cell_to_circuit_queue e nd circ cell direction =
     (case circ of
        None \<Rightarrow> Inl Null_Pointer
      | Some i \<Rightarrow>
          (let c = circs nd ! i in
           if x_marked c then Inr nd
           else if direction = CELL_DIRECTION_OUT
           then if max_cells e \<le> length (n_chan_cells c) then Inr (update_circ i (\<lambda>c. c\<lparr>x_marked := True\<rparr>) nd)
                else Inr (update_circ i (\<lambda>c. c\<lparr>n_chan_cells := n_chan_cells c @ [cell]\<rparr>) nd)
           else if x_origin c then Inl Bad_Assertion
           else if max_cells e \<le> length (p_chan_cells c) then Inr (update_circ i (\<lambda>c. c\<lparr>x_marked := True\<rparr>) nd)
           else Inr (update_circ i (\<lambda>c. c\<lparr>p_chan_cells := p_chan_cells c @ [cell]\<rparr>) nd)))"

section \<open>Files of the exchange\<close>

text \<open>A path is put together in a buffer of \<open>PATH_MAX\<close> bytes.\<close>

definition path_buf :: "u8 list \<Rightarrow> exch_fault + u8 list" where
  "path_buf s = (if length s < PATH_MAX then Inr s else Inl Buffer_Overflow)"

text \<open>The names \<^verbatim>\<open>/.\<close> and \<^verbatim>\<open>/.circ_id\<close> that are appended to paths.\<close>

definition hidden :: "u8 list" where "hidden = [slash, dot]"
definition circ_id_name :: name where "circ_id_name = [46, 99, 105, 114, 99, 95, 105, 100]"

definition hidden_path :: "env \<Rightarrow> u8 list \<Rightarrow> exch_fault + u8 list" where
  "hidden_path e s = path_buf (PluginsDirectory e @ hidden @ s)"

text \<open>The eleven bytes of the buffer are written, also those behind the zero.\<close>

definition circ_id_text :: "env \<Rightarrow> u32 \<Rightarrow> u8 list" where
  "circ_id_text e cid =
     (let s = decimal (unat cid) in take 11 (s @ 0 # junk e s @ replicate 11 0))"

definition create_plugin_dir :: "env \<Rightarrow> node \<Rightarrow> u8 list \<Rightarrow> u8 list \<Rightarrow> u32 \<Rightarrow> exch_fault + node" where
  "create_plugin_dir e nd dir circ_id_file cid =
     (case fopen_append circ_id_file (mkdir dir (files nd)) of
        None \<Rightarrow> Inl Null_Pointer
      | Some (p, f) \<Rightarrow> Inr (nd\<lparr>files := append_to p (circ_id_text e cid) f\<rparr>))"

definition is_digit :: "u8 \<Rightarrow> bool" where
  "is_digit b \<longleftrightarrow> 48 \<le> b \<and> b \<le> 57"

definition strtoul10 :: "u8 list \<Rightarrow> u64" where
  "strtoul10 s =
     (let t = dropWhile (\<lambda>b. b = 32 \<or> 9 \<le> b \<and> b \<le> 13) s;
          neg = (t \<noteq> [] \<and> hd t = 45);
          u = (if t \<noteq> [] \<and> (hd t = 45 \<or> hd t = 43) then tl t else t);
          v = foldl (\<lambda>a b. 10 * a + int (unat (b - 48))) 0 (takeWhile is_digit u)
      in if 2 ^ 64 \<le> v then -1 else if neg then - of_int v else of_int v)"

text \<open>The first eleven bytes of the file are read; it is an over-read when nothing in them ends the number.\<close>

definition read_circ_id :: "node \<Rightarrow> u8 list \<Rightarrow> exch_fault + u32" where
  "read_circ_id nd circ_id_file =
     (case read_bytes circ_id_file (files nd) of
        None \<Rightarrow> Inl Null_Pointer
      | Some c \<Rightarrow> if length c < 11 \<or> list_all is_digit (take 11 c) then Inl Over_Read
                 else Inr (ucast (strtoul10 (take 11 c))))"

section \<open>Receiving a plugin\<close>

text \<open>A cell that is on its way back is stored and passed on towards the origin.\<close>

definition pass_back :: "env \<Rightarrow> node \<Rightarrow> nat \<Rightarrow> xcell \<Rightarrow> exch_fault + node" where
  "pass_back e nd i cell =
     (let c = circs nd ! i in
      if x_origin c then Inr nd
      else append_cell_to_circuit_queue e nd (circuit_get_by_circid_channel nd (x_p_circ_id c) (x_p_chan c))
             (cell\<lparr>circ_id := x_p_circ_id c\<rparr>) CELL_DIRECTION_IN)"

definition store_back :: "env \<Rightarrow> node \<Rightarrow> nat \<Rightarrow> xcell \<Rightarrow> u8 list \<Rightarrow> u8 list \<Rightarrow> exch_fault + node" where
  "store_back e nd i cell dir circ_id_file =
     and_then (if stat_ok (files nd) dir then Inr nd else create_plugin_dir e nd dir circ_id_file (circ_id cell)) (\<lambda>nd.
       pass_back e nd i cell)"

text \<open>
  The data are written to the stream that was closed before; this reaches the file only when the library
  has given the new stream the address of the old one.
\<close>

definition write_data :: "env \<Rightarrow> node \<Rightarrow> u8 list \<Rightarrow> u8 list \<Rightarrow> int \<Rightarrow> exch_fault + node" where
  "write_data e nd file data len_data =
     (case fopen_append file (files nd) of
        None \<Rightarrow> Inl Closed_Stream
      | Some (p, f) \<Rightarrow>
          if \<not> stream_reused e then Inl Closed_Stream
          else if len_data < 0 \<or> int (length data) < len_data then Inl Over_Read
          else Inr (nd\<lparr>files := append_to p (take (nat len_data) data) f\<rparr>))"

text \<open>An \<open>int\<close> of the payload.\<close>

definition int_at :: "nat \<Rightarrow> u8 list \<Rightarrow> int" where
  "int_at i bs = sint (get_le (take 4 (drop i bs)) :: u32)"

definition store_data :: "env \<Rightarrow> node \<Rightarrow> nat \<Rightarrow> xcell \<Rightarrow> u8 list \<Rightarrow> u8 list \<Rightarrow> int \<Rightarrow> exch_fault + node" where
  "store_data e nd i cell file_name data len_data =
     and_then (get_dir_name file_name) (\<lambda>dir.
     and_then (hidden_path e dir) (\<lambda>abs_dir.
     and_then (path_buf (abs_dir @ slash # circ_id_name)) (\<lambda>circ_id_file.
     and_then (if command cell = CELL_PLUGIN_TRANSFER_BACK then store_back e nd i cell abs_dir circ_id_file else Inr nd) (\<lambda>nd.
     and_then (read_circ_id nd circ_id_file) (\<lambda>expected.
     if expected \<noteq> circ_id cell then Inr nd
     else and_then (hidden_path e (takeWhile (\<lambda>b. b \<noteq> 0) file_name)) (\<lambda>abs_file.
       write_data e nd abs_file data len_data))))))"

definition handle_plugin_transfer_cell :: "env \<Rightarrow> node \<Rightarrow> xcell \<Rightarrow> nat \<Rightarrow> exch_fault + node" where
  "handle_plugin_transfer_cell e nd cell chan =
     (let len_name = int_at 0 (payload cell); n = nat len_name in
      if len_name < 0 \<or> int CELL_PAYLOAD_SIZE < len_name then Inl Buffer_Overflow
      else if CELL_PAYLOAD_SIZE < n + 8 then Inl Over_Read
      else case circuit_get_by_circid_channel nd (circ_id cell) (Some chan) of
        None \<Rightarrow> Inr nd
      | Some i \<Rightarrow>
          store_data e nd i cell (put_range 0 (take n (drop 4 (payload cell))) (replicate CELL_PAYLOAD_SIZE 0))
            (drop (n + 8) (payload cell)) (int_at (n + 4) (payload cell)))"

text \<open>
  One element of the list is removed, the first that is equal to the name; the last takes its place. Each
  string has an address of its own.
\<close>

fun swap_out :: "name \<Rightarrow> name list \<Rightarrow> name list" where
  "swap_out n [] = []"
| "swap_out n (m # ms) = (if m = n then if ms = [] then [] else last ms # butlast ms else m # swap_out n ms)"

fun mark_from :: "name \<Rightarrow> nat \<Rightarrow> nat \<Rightarrow> node \<Rightarrow> exch_fault + node" where
  "mark_from n i 0 nd = Inr nd"
| "mark_from n i (Suc k) nd =
     (case missing_plugins (circs nd ! i) of
        None \<Rightarrow> mark_from n (Suc i) k nd
      | Some ms \<Rightarrow>
          if n \<notin> set ms then mark_from n (Suc i) k nd
          else let nd1 = update_circ i (\<lambda>c. c\<lparr>missing_plugins := Some (swap_out n ms)\<rparr>) nd
               in if swap_out n ms \<noteq> [] then mark_from n (Suc i) k nd1
                  else if x_origin (circs nd ! i) then Inl Bad_Assertion
                  else mark_from n (Suc i) k (nd1\<lparr>resumed := resumed nd1 @ [i]\<rparr>))"

definition mark_plugin_as_received :: "name \<Rightarrow> node \<Rightarrow> exch_fault + node" where
  "mark_plugin_as_received n nd = mark_from n 0 (length (circs nd)) nd"

definition handle_plugin_transferred_cell :: "env \<Rightarrow> node \<Rightarrow> xcell \<Rightarrow> nat \<Rightarrow> exch_fault + node" where
  "handle_plugin_transferred_cell e nd cell chan =
     (case circuit_get_by_circid_channel nd (circ_id cell) (Some chan) of
        None \<Rightarrow> Inr nd
      | Some i \<Rightarrow>
          (let nd = update_circ i (\<lambda>c. if missing_plugins c = None then c\<lparr>missing_plugins := Some []\<rparr> else c) nd in
           case cstring_at (payload cell) 0 of
             None \<Rightarrow> Inl Over_Read
           | Some n \<Rightarrow>
               and_then (hidden_path e n) (\<lambda>dir_name.
               and_then (path_buf (PluginsDirectory e @ slash # n)) (\<lambda>new_dir_name.
               and_then (path_buf (dir_name @ slash # circ_id_name)) (\<lambda>circ_id_file.
               and_then (if stat_ok (files nd) dir_name then Inr nd
                         else create_plugin_dir e nd dir_name circ_id_file (circ_id cell)) (\<lambda>nd.
               and_then (read_circ_id nd circ_id_file) (\<lambda>expected.
               if expected \<noteq> circ_id cell then Inr nd
               else mark_plugin_as_received n (nd\<lparr>files := rename dir_name new_dir_name (files nd)\<rparr>))))))))"

definition handle_plugin_transferred_back_cell :: "env \<Rightarrow> node \<Rightarrow> xcell \<Rightarrow> nat \<Rightarrow> exch_fault + node" where
  "handle_plugin_transferred_back_cell e nd cell chan =
     (case circuit_get_by_circid_channel nd (circ_id cell) (Some chan) of
        None \<Rightarrow> Inr nd
      | Some i \<Rightarrow>
          (let c = circs nd ! i;
               j = (if x_origin c then Some i else circuit_get_by_circid_channel nd (x_p_circ_id c) (x_p_chan c))
           in and_then (pass_back e nd i cell) (\<lambda>nd.
          case j of
            None \<Rightarrow> Inl Null_Pointer
          | Some j \<Rightarrow>
              (case (cstring_at (payload cell) 0, mandatory_plugins (circs nd ! j)) of
                 (None, _) \<Rightarrow> Inl Over_Read
               | (_, None) \<Rightarrow> Inl Null_Pointer
               | (Some n, Some ms) \<Rightarrow>
                   handle_plugin_transferred_cell e
                     (if is_str_in_smartlist n ms then nd
                      else update_circ j (\<lambda>c. c\<lparr>mandatory_plugins := Some (ms @ [n])\<rparr>) nd) cell chan))))"

section \<open>Sending a plugin\<close>

text \<open>
  The payloads with the contents of one file: \<open>rs\<close> bytes at a time, with the length in front. Only the last
  cell holds fewer; with \<open>rs = 0\<close> there is no last one. What the previous cell left behind the data stays.
\<close>

partial_function (option) file_payloads :: "nat \<Rightarrow> nat \<Rightarrow> u8 list \<Rightarrow> u8 list \<Rightarrow> u8 list list option" where
  "file_payloads rs idx buf data =
     (let chunk = take rs data;
          buf1 = put_range idx (put_le32 (of_nat (length chunk))) (put_range (idx + 4) chunk buf);
          buf2 = put_range idx (replicate rs 0) buf1
      in if length chunk = rs
         then Option.bind (file_payloads rs idx buf2 (drop rs data)) (\<lambda>ps. Some (buf1 # ps))
         else Some [buf1])"

declare file_payloads.simps [code]

definition plugin_file_payloads :: "fs \<Rightarrow> u8 list \<Rightarrow> name \<Rightarrow> name \<Rightarrow> exch_fault + u8 list list" where
  "plugin_file_payloads f dir_name plugin_name d_name =
     (let rel = plugin_name @ slash # d_name; idx = 4 + length rel; rs = CELL_PAYLOAD_SIZE - (idx + 4) in
      if CELL_PAYLOAD_SIZE \<le> length rel then Inl Buffer_Overflow
      else if CELL_PAYLOAD_SIZE < idx + 4 then Inl Buffer_Overflow
      else and_then (path_buf (dir_name @ slash # d_name)) (\<lambda>file.
        case read_bytes file f of
          None \<Rightarrow> Inl Null_Pointer
        | Some data \<Rightarrow>
            (case file_payloads rs idx
                (put_range 4 rel (put_range 0 (put_le32 (of_nat (length rel))) (replicate CELL_PAYLOAD_SIZE 0))) data of
               None \<Rightarrow> Inl Endless_Loop
             | Some ps \<Rightarrow> Inr ps)))"

fun append_payloads ::
  "env \<Rightarrow> nat \<Rightarrow> cell_direction \<Rightarrow> xcommand \<Rightarrow> u32 \<Rightarrow> u8 list list \<Rightarrow> node \<Rightarrow> exch_fault + node" where
  "append_payloads e i direction cmd cid [] nd = Inr nd"
| "append_payloads e i direction cmd cid (p # ps) nd =
     and_then (append_cell_to_circuit_queue e nd (Some i) \<lparr>command = cmd, circ_id = cid, payload = p\<rparr> direction) (\<lambda>nd.
       append_payloads e i direction cmd cid ps nd)"

fun send_files ::
  "env \<Rightarrow> nat \<Rightarrow> cell_direction \<Rightarrow> xcommand \<Rightarrow> u32 \<Rightarrow> u8 list \<Rightarrow> name \<Rightarrow> name list \<Rightarrow> node \<Rightarrow> exch_fault + node" where
  "send_files e i direction cmd cid dir_name plugin_name [] nd = Inr nd"
| "send_files e i direction cmd cid dir_name plugin_name (d # ds) nd =
     (if d \<noteq> [] \<and> hd d = dot then send_files e i direction cmd cid dir_name plugin_name ds nd
      else and_then (plugin_file_payloads (files nd) dir_name plugin_name d) (\<lambda>ps.
        and_then (append_payloads e i direction cmd cid ps nd) (\<lambda>nd.
          send_files e i direction cmd cid dir_name plugin_name ds nd)))"

definition direction_to :: "node \<Rightarrow> nat \<Rightarrow> nat \<Rightarrow> cell_direction" where
  "direction_to nd i chan = (if x_n_chan (circs nd ! i) = Some chan then CELL_DIRECTION_OUT else CELL_DIRECTION_IN)"

definition send_plugin_files :: "env \<Rightarrow> node \<Rightarrow> name \<Rightarrow> u32 \<Rightarrow> nat \<Rightarrow> xcommand \<Rightarrow> exch_fault + node" where
  "send_plugin_files e nd plugin_name cid chan cmd =
     (case circuit_get_by_circid_channel nd cid (Some chan) of
        None \<Rightarrow> Inl Null_Pointer
      | Some i \<Rightarrow>
          and_then (path_buf (PluginsDirectory e @ slash # plugin_name)) (\<lambda>dir_name.
            case list_directory (dir_order e) dir_name (files nd) of
              None \<Rightarrow> Inl Null_Pointer
            | Some ds \<Rightarrow> send_files e i (direction_to nd i chan) cmd cid dir_name plugin_name ds nd))"

text \<open>\<open>block\<close> is the memory from the name on, of which a whole payload is copied.\<close>

definition send_plugin :: "env \<Rightarrow> node \<Rightarrow> name \<Rightarrow> u8 list \<Rightarrow> u32 \<Rightarrow> nat \<Rightarrow> xcommand \<Rightarrow> exch_fault + node" where
  "send_plugin e nd plugin_name block cid chan cmd =
     (case circuit_get_by_circid_channel nd cid (Some chan) of
        None \<Rightarrow> Inl Null_Pointer
      | Some i \<Rightarrow>
          and_then (send_plugin_files e nd plugin_name cid chan cmd) (\<lambda>nd'.
            append_cell_to_circuit_queue e nd' (Some i)
              \<lparr>command = (if cmd = CELL_PLUGIN_TRANSFER then CELL_PLUGIN_TRANSFERRED else CELL_PLUGIN_TRANSFERRED_BACK),
               circ_id = cid, payload = take CELL_PAYLOAD_SIZE block\<rparr> (direction_to nd i chan)))"

fun send_plugins :: "env \<Rightarrow> (name \<Rightarrow> u8 list) \<Rightarrow> u32 \<Rightarrow> nat \<Rightarrow> xcommand \<Rightarrow> name list \<Rightarrow> node \<Rightarrow> exch_fault + node" where
  "send_plugins e block cid chan cmd [] nd = Inr nd"
| "send_plugins e block cid chan cmd (n # ns) nd =
     and_then (send_plugin e nd n (block n) cid chan cmd) (\<lambda>nd. send_plugins e block cid chan cmd ns nd)"

text \<open>The buffer of the name is zeroed before each name is read.\<close>

definition zero_block :: "name \<Rightarrow> u8 list" where
  "zero_block n = n @ replicate (CELL_PAYLOAD_SIZE - length n) 0"

text \<open>A string of a list lies in memory of its own size.\<close>

definition heap_block :: "env \<Rightarrow> name \<Rightarrow> u8 list" where
  "heap_block e n = n @ 0 # junk e n @ replicate CELL_PAYLOAD_SIZE 0"

fun send_requested :: "env \<Rightarrow> u32 \<Rightarrow> nat \<Rightarrow> name \<Rightarrow> u8 list \<Rightarrow> node \<Rightarrow> exch_fault + node" where
  "send_requested e cid chan cur [] nd = Inl Over_Read"
| "send_requested e cid chan cur (b # bs) nd =
     (if b = nl
      then and_then (send_plugin e nd cur (zero_block cur) cid chan CELL_PLUGIN_TRANSFER) (\<lambda>nd.
        send_requested e cid chan [] bs nd)
      else if b = 0 then send_plugin e nd cur (zero_block cur) cid chan CELL_PLUGIN_TRANSFER
      else send_requested e cid chan (cur @ [b]) bs nd)"

definition handle_plugin_request_cell :: "env \<Rightarrow> node \<Rightarrow> xcell \<Rightarrow> nat \<Rightarrow> exch_fault + node" where
  "handle_plugin_request_cell e nd cell chan = send_requested e (circ_id cell) chan [] (payload cell) nd"

section \<open>Offers\<close>

definition smart_list_plugins_on_disk :: "env \<Rightarrow> node \<Rightarrow> exch_fault + name list" where
  "smart_list_plugins_on_disk e nd =
     (case list_directory (dir_order e) (PluginsDirectory e) (files nd) of
        None \<Rightarrow> Inl Null_Pointer
      | Some ds \<Rightarrow> Inr (filter (\<lambda>d. \<not> (d \<noteq> [] \<and> hd d = dot)) ds))"

fun add_new :: "name list \<Rightarrow> name list \<Rightarrow> name list" where
  "add_new ms [] = ms"
| "add_new ms (n # ns) = add_new (if is_str_in_smartlist n ms then ms else ms @ [n]) ns"

definition send_missing_plugins_to_peer :: "env \<Rightarrow> node \<Rightarrow> u8 list \<Rightarrow> u32 \<Rightarrow> nat \<Rightarrow> exch_fault + node" where
  "send_missing_plugins_to_peer e nd offer cid chan =
     and_then (smart_list_plugins_on_disk e nd) (\<lambda>on_disk.
     and_then (smart_list_plugins_in_payload offer) (\<lambda>in_create.
     and_then (send_plugins e (heap_block e) cid chan CELL_PLUGIN_TRANSFER_BACK
         (filter (\<lambda>n. \<not> is_str_in_smartlist n in_create) on_disk) nd) (\<lambda>nd.
     case circuit_get_by_circid_channel nd cid (Some chan) of
       None \<Rightarrow> Inl Null_Pointer
     | Some i \<Rightarrow> Inr (update_circ i (\<lambda>c. c\<lparr>mandatory_plugins := Some (add_new (add_new [] on_disk) in_create)\<rparr>) nd))))"

text \<open>The scan of the plugin directory for one name: whether it was found, and how often it is under way.\<close>

fun look_up :: "name \<Rightarrow> name list \<Rightarrow> bool \<times> nat" where
  "look_up n [] = (False, 0)"
| "look_up n (d # ds) =
     (let (found, k) = look_up n ds in
      if n = d then (True, k) else if dot # n = d then (True, Suc k) else (found, k))"

definition add_missing :: "nat \<Rightarrow> name list \<Rightarrow> node \<Rightarrow> node" where
  "add_missing i ns nd = update_circ i (\<lambda>c. c\<lparr>missing_plugins := map_option (\<lambda>ms. ms @ ns) (missing_plugins c)\<rparr>) nd"

fun check_offer :: "env \<Rightarrow> nat \<Rightarrow> name list \<Rightarrow> name list \<Rightarrow> node \<Rightarrow> exch_fault + node \<times> name list" where
  "check_offer e i [] to_request nd = Inr (nd, to_request)"
| "check_offer e i (n # ns) to_request nd =
     (case list_directory (dir_order e) (PluginsDirectory e) (files nd) of
        None \<Rightarrow> Inl Null_Pointer
      | Some ds \<Rightarrow>
          (let (found, k) = look_up n ds; nd1 = add_missing i (replicate k n) nd in
           and_then (path_buf (dot # n)) (\<lambda>_.
           if found then check_offer e i ns to_request nd1
           else and_then (hidden_path e n) (\<lambda>dir.
             and_then (path_buf (dir @ slash # circ_id_name)) (\<lambda>file.
             and_then (create_plugin_dir e (add_missing i [n] nd1) dir file (x_p_circ_id (circs nd ! i))) (\<lambda>nd2.
               check_offer e i ns (to_request @ [n]) nd2))))))"

definition handle_plugin_offer_in_create_cell ::
  "env \<Rightarrow> node \<Rightarrow> u8 list \<Rightarrow> nat \<Rightarrow> nat \<Rightarrow> exch_fault + node \<times> nat" where
  "handle_plugin_offer_in_create_cell e nd required i chan =
     (case required of
        [] \<Rightarrow> Inl Over_Read
      | b # _ \<Rightarrow>
          if b = 0 then Inr (nd, 0)
          else and_then (smart_list_plugins_in_payload required) (\<lambda>in_payload.
            and_then (check_offer e i in_payload [] (update_circ i (\<lambda>c. c\<lparr>missing_plugins := Some []\<rparr>) nd)) (\<lambda>(nd1, to_request).
            and_then (if to_request = [] then Inr nd1
                      else and_then (smart_list_to_payload to_request (replicate CELL_PAYLOAD_SIZE 0) CELL_PAYLOAD_SIZE) (\<lambda>(p, _).
                        append_cell_to_circuit_queue e nd1 (Some i)
                          \<lparr>command = CELL_PLUGIN_REQUEST, circ_id = x_p_circ_id (circs nd1 ! i), payload = p\<rparr>
                          (direction_to nd1 i chan))) (\<lambda>nd2.
            Inr (nd2, case missing_plugins (circs nd2 ! i) of None \<Rightarrow> 0 | Some ms \<Rightarrow> length ms)))))"

section \<open>Dispatch\<close>

definition command_process_plugin_cell :: "env \<Rightarrow> node \<Rightarrow> xcell \<Rightarrow> nat \<Rightarrow> exch_fault + node" where
  "command_process_plugin_cell e nd cell chan =
     (case command cell of
        CELL_PLUGIN_REQUEST \<Rightarrow> handle_plugin_request_cell e nd cell chan
      | CELL_PLUGIN_TRANSFER_BACK \<Rightarrow> handle_plugin_transfer_cell e nd cell chan
      | CELL_PLUGIN_TRANSFER \<Rightarrow> handle_plugin_transfer_cell e nd cell chan
      | CELL_PLUGIN_TRANSFERRED \<Rightarrow> handle_plugin_transferred_cell e nd cell chan
      | CELL_PLUGIN_TRANSFERRED_BACK \<Rightarrow> handle_plugin_transferred_back_cell e nd cell chan)"

text \<open>The part of \<open>command_process_create_cell\<close> that follows the parsing of the cell.\<close>

definition process_create_plugins :: "env \<Rightarrow> node \<Rightarrow> u8 list \<Rightarrow> nat \<Rightarrow> u32 \<Rightarrow> nat \<Rightarrow> exch_fault + node" where
  "process_create_plugins e nd offer i cid chan =
     and_then (send_missing_plugins_to_peer e nd offer cid chan) (\<lambda>nd.
     and_then (handle_plugin_offer_in_create_cell e nd offer i chan) (\<lambda>(nd, nb_missing).
     Inr (if nb_missing = 0 then nd\<lparr>resumed := resumed nd @ [i]\<rparr> else nd)))"

end
