(* ===== verification/Plugin_Transfer.thy ===== *)
theory Plugin_Transfer
  imports Plugin_Exchange
begin

text \<open>
  What the exchange of plugins achieves: the files a peer sends arrive, the circuit that waits for them goes
  on, and where it goes wrong.
\<close>

section \<open>Bytes\<close>

lemma length_put_le32 [simp]: "length (put_le32 v) = 4"
  by (simp add: put_le32_def)

lemma put_range_take: "i \<le> k \<Longrightarrow> k \<le> length xs \<Longrightarrow> take i (put_range k ys xs) = take i xs"
  by (simp add: put_range_def min_def)

lemma put_range_at: "i \<le> length xs \<Longrightarrow> take (length ys) (drop i (put_range i ys xs)) = ys"
  by (simp add: put_range_def)

lemma put_range_behind: "i + length ys \<le> k \<Longrightarrow> k \<le> length xs \<Longrightarrow> drop k (put_range i ys xs) = drop k xs"
  by (simp add: put_range_def drop_append add.commute [of i] min_absorb2 min.absorb2)

lemma int_at_put:
  assumes "i + 4 \<le> length xs" and "n < 2147483648"
  shows "int_at i (put_range i (put_le32 (of_nat n)) xs) = int n"
proof -
  have "take 4 (drop i (put_range i (put_le32 (of_nat n :: u32)) xs)) = put_le32 (of_nat n)"
    using put_range_at [of i xs "put_le32 (of_nat n :: u32)"] assms(1) by simp
  moreover have "sint (of_nat n :: u32) = int n"
    using assms(2) by (simp add: signed_of_nat signed_take_bit_int_eq_self)
  ultimately show ?thesis
    by (simp add: int_at_def get_put_le32)
qed

lemma int_at_cong: "take k xs = take k ys \<Longrightarrow> i + 4 \<le> k \<Longrightarrow> int_at i xs = int_at i ys"
  unfolding int_at_def
  by (metis (no_types, lifting) drop_take take_take min.absorb1 le_diff_conv2 add.commute add_leD1)

section \<open>Sending a file\<close>

definition chunk_of :: "nat \<Rightarrow> u8 list \<Rightarrow> u8 list" where
  "chunk_of idx p = take (nat (int_at idx p)) (drop (idx + 4) p)"

definition chunk_ok :: "nat \<Rightarrow> u8 list \<Rightarrow> u8 list \<Rightarrow> bool" where
  "chunk_ok idx hdr p \<longleftrightarrow> length p = CELL_PAYLOAD_SIZE \<and> take idx p = hdr \<and>
     0 \<le> int_at idx p \<and> int_at idx p \<le> int (CELL_PAYLOAD_SIZE - (idx + 4))"

lemma file_payloads_ok:
  assumes "0 < rs" and "idx + 4 + rs = CELL_PAYLOAD_SIZE" and "length buf = CELL_PAYLOAD_SIZE" and "take idx buf = hdr"
  shows "\<exists>ps. file_payloads rs idx buf data = Some ps \<and> length ps = length data div rs + 1 \<and>
    list_all (chunk_ok idx hdr) ps \<and> concat (map (chunk_of idx) ps) = data"
  using assms(3,4)
proof (induction "length data" arbitrary: data buf rule: less_induct)
  case less
  let ?chunk = "take rs data"
  let ?b0 = "put_range (idx + 4) ?chunk buf"
  let ?b1 = "put_range idx (put_le32 (of_nat (length ?chunk))) ?b0"
  let ?b2 = "put_range idx (replicate rs 0) ?b1"
  have small: "length ?chunk \<le> rs" "rs < 2147483648"
    using assms(2) by (simp_all add: CELL_PAYLOAD_SIZE_def)
  have len: "length ?b0 = CELL_PAYLOAD_SIZE" "length ?b1 = CELL_PAYLOAD_SIZE" "length ?b2 = CELL_PAYLOAD_SIZE"
    using less.prems(1) assms(2) small by (simp_all add: min_def)
  have hdr: "take idx ?b1 = hdr" "take idx ?b2 = hdr"
    using less.prems assms(2) len by (simp_all add: put_range_take)
  have at: "int_at idx ?b1 = int (length ?chunk)"
    using assms(2) len small by (intro int_at_put) simp_all
  have "drop (idx + 4) ?b1 = drop (idx + 4) ?b0"
    using assms(2) len by (intro put_range_behind) simp_all
  then have chunk: "chunk_of idx ?b1 = ?chunk"
    using put_range_at [of "idx + 4" buf ?chunk] assms(2) less.prems(1) at by (simp add: chunk_of_def)
  have ok: "chunk_ok idx hdr ?b1"
    using len hdr at assms(2) small by (simp add: chunk_ok_def)
  show ?case
  proof (cases "length ?chunk = rs")
    case False
    then have short: "length data < rs" "?chunk = data"
      by (simp_all add: min_def split: if_splits)
    have "file_payloads rs idx buf data = Some [?b1]"
      using short by (subst file_payloads.simps) (simp add: Let_def)
    then show ?thesis
      using ok chunk short by simp
  next
    case True
    then have long: "rs \<le> length data"
      by (simp add: min_def split: if_splits)
    then have dec: "length (drop rs data) < length data"
      using assms(1) by simp
    obtain ps where ps: "file_payloads rs idx ?b2 (drop rs data) = Some ps" "length ps = length (drop rs data) div rs + 1"
      "list_all (chunk_ok idx hdr) ps" "concat (map (chunk_of idx) ps) = drop rs data"
      using less.hyps [OF dec len(3) hdr(2)] by blast
    have "file_payloads rs idx buf data = Some (?b1 # ps)"
      using True ps(1) by (subst file_payloads.simps) (simp add: Let_def)
    moreover have "length data div rs = Suc ((length data - rs) div rs)"
      using long assms(1) by (simp add: le_div_geq)
    ultimately show ?thesis
      using ps ok chunk by simp
  qed
qed

lemma file_payloads_endless: "file_payloads 0 idx buf data = None"
proof -
  have "file_payloads rs idx buf data = Some ps \<Longrightarrow> rs \<noteq> 0" for rs idx buf data ps
    by (induction rule: file_payloads.raw_induct [rotated 1, consumes 1])
      (auto simp: Let_def split: if_splits bind_splits)
  then show ?thesis
    by (cases "file_payloads 0 idx buf data") blast+
qed

lemma plugin_file_payloads_ok:
  assumes "path_of f dir_name = Some pd" and "node_at f pd = Some Dir" and "file_name_ok d"
    and "node_at f (pd @ [d]) = Some n" and "plugin_file_payloads f dir_name plugin_name d = Inr ps"
  shows "length plugin_name + length d < 500 \<and>
    (let rel = plugin_name @ slash # d; idx = 4 + length rel in
     list_all (chunk_ok idx (put_le32 (of_nat (length rel)) @ rel)) ps \<and>
     concat (map (chunk_of idx) ps) = (case n of File c \<Rightarrow> c | Dir \<Rightarrow> []) \<and> ps \<noteq> [])"
proof -
  let ?rel = "plugin_name @ slash # d"
  let ?idx = "4 + length ?rel" and ?rs = "CELL_PAYLOAD_SIZE - (4 + length ?rel + 4)"
  let ?buf = "put_range 4 ?rel (put_range 0 (put_le32 (of_nat (length ?rel))) (replicate CELL_PAYLOAD_SIZE 0))"
  have size: "?idx + 4 \<le> CELL_PAYLOAD_SIZE"
    using assms(5) by (auto simp: plugin_file_payloads_def Let_def split: if_splits)
  have read: "read_bytes (dir_name @ slash # d) f = Some (case n of File c \<Rightarrow> c | Dir \<Rightarrow> [])"
    using path_of_in_dir [OF assms(1-3)] assms(4) by (auto simp: read_bytes_def split: inode.splits)
  have loop: "file_payloads ?rs ?idx ?buf (case n of File c \<Rightarrow> c | Dir \<Rightarrow> []) = Some ps"
    using assms(5) read by (auto simp: plugin_file_payloads_def Let_def path_buf_def split: if_splits option.splits)
  have rs: "0 < ?rs"
    using loop file_payloads_endless [of ?idx ?buf] by (cases "?rs = 0") auto
  have buf: "length ?buf = CELL_PAYLOAD_SIZE"
    using size by (subst length_put_range; simp add: CELL_PAYLOAD_SIZE_def)
  have hdr: "take ?idx ?buf = put_le32 (of_nat (length ?rel)) @ ?rel"
    using size by (simp add: put_range_def)
  from file_payloads_ok [OF rs _ buf hdr, of "case n of File c \<Rightarrow> c | Dir \<Rightarrow> []"] size
  obtain ps' where "file_payloads ?rs ?idx ?buf (case n of File c \<Rightarrow> c | Dir \<Rightarrow> []) = Some ps'"
    "list_all (chunk_ok ?idx (put_le32 (of_nat (length ?rel)) @ ?rel)) ps'"
    "concat (map (chunk_of ?idx) ps') = (case n of File c \<Rightarrow> c | Dir \<Rightarrow> [])" "ps' \<noteq> []"
    by (metis (no_types, lifting) add_is_0 le_add_diff_inverse list.size(3) one_neq_zero)
  with loop have "list_all (chunk_ok ?idx (put_le32 (of_nat (length ?rel)) @ ?rel)) ps"
    "concat (map (chunk_of ?idx) ps) = (case n of File c \<Rightarrow> c | Dir \<Rightarrow> [])" "ps \<noteq> []"
    by auto
  then show ?thesis
    using rs by (simp add: Let_def CELL_PAYLOAD_SIZE_def)
qed

section \<open>Receiving a file\<close>

text \<open>
  The node waits for the files of a plugin on a circuit: the hidden directory is there with the number of
  the circuit in it.
\<close>

definition awaiting :: "env \<Rightarrow> path \<Rightarrow> name \<Rightarrow> u32 \<Rightarrow> nat \<Rightarrow> node \<Rightarrow> bool" where
  "awaiting e base n cid chan nd \<longleftrightarrow> file_name_ok n \<and>
     length (PluginsDirectory e) + length n + 12 < PATH_MAX \<and>
     path_of (files nd) (PluginsDirectory e) = Some base \<and> node_at (files nd) base = Some Dir \<and>
     node_at (files nd) (base @ [dot # n]) = Some Dir \<and>
     read_circ_id nd (PluginsDirectory e @ hidden @ n @ slash # circ_id_name) = Inr cid \<and>
     circuit_get_by_circid_channel nd cid (Some chan) \<noteq> None"

lemma hidden_ok: "file_name_ok n \<Longrightarrow> file_name_ok (dot # n)"
  by (auto simp: file_name_ok_def dot_def slash_def)

lemma circ_id_name_ok [simp]: "file_name_ok circ_id_name"
  by (simp add: file_name_ok_def circ_id_name_def dot_def slash_def)

lemma hidden_dir_path:
  assumes "path_of f pd = Some base" and "node_at f base = Some Dir" and "file_name_ok n"
  shows "path_of f (pd @ hidden @ n) = Some (base @ [dot # n])"
  using path_of_in_dir [OF assms(1,2) hidden_ok [OF assms(3)]] by (simp add: hidden_def)

lemma hidden_file_path:
  assumes "path_of f pd = Some base" and "node_at f base = Some Dir" and "file_name_ok n"
    and "node_at f (base @ [dot # n]) = Some Dir" and "file_name_ok d"
  shows "path_of f (pd @ hidden @ n @ slash # d) = Some (base @ [dot # n, d])"
  using path_of_in_dir [OF hidden_dir_path [OF assms(1-3)] assms(4,5)] by simp

lemma circuit_get_files [simp]:
  "circuit_get_by_circid_channel (nd\<lparr>files := f\<rparr>) cid chan = circuit_get_by_circid_channel nd cid chan"
  by (simp add: circuit_get_by_circid_channel_def split: option.splits)

text \<open>What a step of receiving does to the files: one file grows.\<close>

definition grows :: "path \<Rightarrow> u8 list \<Rightarrow> node \<Rightarrow> node \<Rightarrow> bool" where
  "grows p bs nd nd' \<longleftrightarrow> (\<exists>f. nd' = nd\<lparr>files := f\<rparr>) \<and>
     (\<forall>q. node_at (files nd') q =
       (if q = p then Some (File ((case node_at (files nd) p of Some (File c) \<Rightarrow> c | _ \<Rightarrow> []) @ bs)) else node_at (files nd) q))"

lemma awaiting_grows:
  assumes "awaiting e base n cid chan nd" and "grows (base @ [dot # n, d]) bs nd nd'" and "d \<noteq> circ_id_name"
    and "node_at (files nd) (base @ [dot # n, d]) \<noteq> Some Dir"
  shows "awaiting e base n cid chan nd'"
proof -
  have dirs: "node_at (files nd') q = Some Dir" if "node_at (files nd) q = Some Dir" for q
    using assms(2,4) that by (auto simp: grows_def)
  note aw = assms(1) [unfolded awaiting_def]
  have path: "path_of (files nd') (PluginsDirectory e) = Some base"
    using path_of_cong [OF dirs] aw by blast
  have id_path: "path_of f (PluginsDirectory e @ hidden @ n @ slash # circ_id_name) = Some (base @ [dot # n, circ_id_name])"
    if "f = files nd \<or> f = files nd'" for f
    using that aw dirs path by (auto intro!: hidden_file_path)
  have "read_circ_id nd' (PluginsDirectory e @ hidden @ n @ slash # circ_id_name) =
      read_circ_id nd (PluginsDirectory e @ hidden @ n @ slash # circ_id_name)"
    using assms(2,3) by (simp add: read_circ_id_def read_bytes_def id_path grows_def)
  moreover obtain f where "nd' = nd\<lparr>files := f\<rparr>"
    using assms(2) by (auto simp: grows_def)
  ultimately show ?thesis
    using aw dirs path by (auto simp: awaiting_def)
qed

text \<open>
  A data cell for a file of the plugin that is waited for ends in the call of \<open>fwrite\<close> for the file that its name leads to.
\<close>

lemma transfer_cell_writes:
  assumes "awaiting e base n cid chan nd" and "0 \<notin> set d" and "length (PluginsDirectory e) + length n + length d + 3 < PATH_MAX"
    and "chunk_ok (5 + length n + length d) (put_le32 (of_nat (length n + length d + 1)) @ n @ slash # d) p"
    and "length n + length d < 500"
  shows "handle_plugin_transfer_cell e nd \<lparr>command = CELL_PLUGIN_TRANSFER, circ_id = cid, payload = p\<rparr> chan =
    write_data e nd (PluginsDirectory e @ hidden @ n @ slash # d) (drop (9 + length n + length d) p) (int_at (5 + length n + length d) p)"
proof -
  let ?cell = "\<lparr>command = CELL_PLUGIN_TRANSFER, circ_id = cid, payload = p\<rparr>"
  let ?rel = "n @ slash # d" and ?k = "length n + length d + 1" and ?idx = "5 + length n + length d"
  note aw = assms(1) [unfolded awaiting_def]
  obtain i where i: "circuit_get_by_circid_channel nd cid (Some chan) = Some i"
    using aw by auto
  have p: "take ?idx p = put_le32 (of_nat ?k) @ ?rel"
    using assms(4) by (simp add: chunk_ok_def)
  have "int_at 0 p = int_at 0 (put_le32 (of_nat ?k) @ ?rel)"
    by (rule int_at_cong [of ?idx]) (simp_all add: p)
  also have "\<dots> = int ?k"
    using int_at_put [of 0 "put_le32 (of_nat ?k) @ ?rel" ?k] assms(5) by (simp add: put_range_def)
  finally have name_len: "int_at 0 p = int ?k" .
  have rel: "take ?k (drop 4 p) = ?rel"
    using arg_cong [OF p, of "drop 4"] by (simp add: drop_take)
  let ?fn = "put_range 0 ?rel (replicate CELL_PAYLOAD_SIZE 0) :: u8 list"
  have fn: "?fn = n @ slash # d @ replicate (CELL_PAYLOAD_SIZE - ?k) 0"
    by (simp add: put_range_def)
  have "0 \<notin> set n" "slash \<notin> set n" "slash \<noteq> 0"
    using aw by (auto simp: file_name_ok_def slash_def)
  then have dir: "get_dir_name ?fn = Inr n" and whole: "takeWhile (\<lambda>b. b \<noteq> 0) ?fn = ?rel"
    unfolding fn get_dir_name_def using assms(2)
    by (auto simp: takeWhile_append takeWhile_eq_all_conv CELL_PAYLOAD_SIZE_def assms(5) takeWhile_replicate)
  have paths: "hidden_path e n = Inr (PluginsDirectory e @ hidden @ n)"
    "path_buf (PluginsDirectory e @ hidden @ n @ slash # circ_id_name) = Inr (PluginsDirectory e @ hidden @ n @ slash # circ_id_name)"
    "hidden_path e ?rel = Inr (PluginsDirectory e @ hidden @ ?rel)"
    using aw assms(3) by (simp_all add: hidden_path_def path_buf_def hidden_def circ_id_name_def)
  have "?k + 8 = 9 + length n + length d" "?k + 4 = ?idx"
    by simp_all
  then show ?thesis
    using name_len i rel dir whole paths aw assms(5)
    by (simp add: handle_plugin_transfer_cell_def Let_def store_data_def CELL_PAYLOAD_SIZE_def nat_add_distrib add.assoc)
qed

lemma data_cell_outcome:
  assumes "awaiting e base n cid chan nd" and "0 \<notin> set d" and "length (PluginsDirectory e) + length n + length d + 3 < PATH_MAX"
    and "chunk_ok (5 + length n + length d) (put_le32 (of_nat (length n + length d + 1)) @ n @ slash # d) p"
    and "length n + length d < 500"
    and "path_of (files nd) (PluginsDirectory e @ hidden @ n @ slash # d) = Some q" and "node_at (files nd) q \<noteq> Some Dir"
  shows "stream_reused e \<Longrightarrow>
      \<exists>nd'. handle_plugin_transfer_cell e nd \<lparr>command = CELL_PLUGIN_TRANSFER, circ_id = cid, payload = p\<rparr> chan = Inr nd' \<and>
        grows q (chunk_of (5 + length n + length d) p) nd nd'"
    and "\<not> stream_reused e \<Longrightarrow>
      handle_plugin_transfer_cell e nd \<lparr>command = CELL_PLUGIN_TRANSFER, circ_id = cid, payload = p\<rparr> chan = Inl Closed_Stream"
proof -
  let ?idx = "5 + length n + length d"
  note writes = transfer_cell_writes [OF assms(1-5)]
  have free: "node_at (files nd) q = None \<or> (\<exists>c. node_at (files nd) q = Some (File c))"
    using assms(7) by (metis inode.exhaust option.exhaust)
  from fopen_write [OF assms(6) free] obtain g where g: "fopen_append (PluginsDirectory e @ hidden @ n @ slash # d) (files nd) = Some (q, g)"
    by blast
  let ?nd = "nd\<lparr>files := append_to q (chunk_of ?idx p) g\<rparr>"
  have p: "length p = CELL_PAYLOAD_SIZE" "0 \<le> int_at ?idx p" "int_at ?idx p \<le> int (CELL_PAYLOAD_SIZE - (?idx + 4))"
    using assms(4) by (simp_all add: chunk_ok_def)
  have "write_data e nd (PluginsDirectory e @ hidden @ n @ slash # d) (drop (9 + length n + length d) p) (int_at ?idx p) = Inr ?nd"
    if "stream_reused e"
    using that p g by (simp add: write_data_def chunk_of_def add.assoc)
  moreover have "grows q (chunk_of ?idx p) nd ?nd"
    using fopen_write [OF assms(6) free] g by (auto simp: grows_def)
  ultimately show "stream_reused e \<Longrightarrow>
      \<exists>nd'. handle_plugin_transfer_cell e nd \<lparr>command = CELL_PLUGIN_TRANSFER, circ_id = cid, payload = p\<rparr> chan = Inr nd' \<and>
        grows q (chunk_of ?idx p) nd nd'"
    unfolding writes by blast
  show "\<not> stream_reused e \<Longrightarrow>
      handle_plugin_transfer_cell e nd \<lparr>command = CELL_PLUGIN_TRANSFER, circ_id = cid, payload = p\<rparr> chan = Inl Closed_Stream"
    unfolding writes by (auto simp: write_data_def split: option.splits)
qed

lemma awaited_file_path:
  "awaiting e base n cid chan nd \<Longrightarrow> file_name_ok d \<Longrightarrow>
    path_of (files nd) (PluginsDirectory e @ hidden @ n @ slash # d) = Some (base @ [dot # n, d])"
  by (intro hidden_file_path) (simp_all add: awaiting_def)

lemma file_name_ok_no_zero: "file_name_ok d \<Longrightarrow> 0 \<notin> set d"
  by (simp add: file_name_ok_def)

lemma receive_chunk:
  assumes "awaiting e base n cid chan nd" and "stream_reused e" and "file_name_ok d"
    and "length (PluginsDirectory e) + length n + length d + 3 < PATH_MAX"
    and "node_at (files nd) (base @ [dot # n, d]) \<noteq> Some Dir"
    and "chunk_ok (5 + length n + length d) (put_le32 (of_nat (length n + length d + 1)) @ n @ slash # d) p"
    and "length n + length d < 500"
  shows "\<exists>nd'. handle_plugin_transfer_cell e nd \<lparr>command = CELL_PLUGIN_TRANSFER, circ_id = cid, payload = p\<rparr> chan = Inr nd' \<and>
    grows (base @ [dot # n, d]) (chunk_of (5 + length n + length d) p) nd nd'"
  by (rule data_cell_outcome(1) [OF assms(1) file_name_ok_no_zero [OF assms(3)] assms(4,6,7) awaited_file_path [OF assms(1,3)] assms(5,2)])

section \<open>Receiving a plugin\<close>

text \<open>The cells of a circuit arrive in their order.\<close>

fun deliver :: "env \<Rightarrow> nat \<Rightarrow> xcell list \<Rightarrow> node \<Rightarrow> exch_fault + node" where
  "deliver e chan [] nd = Inr nd"
| "deliver e chan (c # cs) nd = and_then (command_process_plugin_cell e nd c chan) (deliver e chan cs)"

lemma deliver_append: "deliver e chan (cs @ ds) nd = and_then (deliver e chan cs nd) (deliver e chan ds)"
proof (induction cs arbitrary: nd)
  case (Cons c cs)
  then show ?case
    by (cases "command_process_plugin_cell e nd c chan") simp_all
qed simp

abbreviation data_cell :: "u32 \<Rightarrow> u8 list \<Rightarrow> xcell" where
  "data_cell cid p \<equiv> \<lparr>command = CELL_PLUGIN_TRANSFER, circ_id = cid, payload = p\<rparr>"

lemma grows_trans:
  assumes "grows p bs nd nd'" and "grows p cs nd' nd''"
  shows "grows p (bs @ cs) nd nd''"
  using assms unfolding grows_def by auto

lemma receive_file:
  assumes "awaiting e base n cid chan nd" and "file_name_ok d" and "d \<noteq> circ_id_name"
    and "length (PluginsDirectory e) + length n + length d + 3 < PATH_MAX"
    and "node_at (files nd) (base @ [dot # n, d]) \<noteq> Some Dir" and "ps \<noteq> []"
    and "list_all (chunk_ok (5 + length n + length d) (put_le32 (of_nat (length n + length d + 1)) @ n @ slash # d)) ps"
    and "length n + length d < 500" and "stream_reused e"
  shows "\<exists>nd'. deliver e chan (map (data_cell cid) ps) nd = Inr nd' \<and> awaiting e base n cid chan nd' \<and>
    grows (base @ [dot # n, d]) (concat (map (chunk_of (5 + length n + length d)) ps)) nd nd'"
  using assms(6,1,5,7)
proof (induction ps arbitrary: nd rule: list_nonempty_induct)
  case (single p)
  from receive_chunk [OF single(1) assms(9,2,4) single(2) _ assms(8), of p] single(3)
  obtain nd' where nd': "handle_plugin_transfer_cell e nd (data_cell cid p) chan = Inr nd'"
    "grows (base @ [dot # n, d]) (chunk_of (5 + length n + length d) p) nd nd'"
    by auto
  with awaiting_grows [OF single(1) nd'(2) assms(3) single(2)] show ?case
    by (simp add: command_process_plugin_cell_def)
next
  case (cons p ps)
  from receive_chunk [OF cons(3) assms(9,2,4) cons(4) _ assms(8), of p] cons(5)
  obtain nd1 where nd1: "handle_plugin_transfer_cell e nd (data_cell cid p) chan = Inr nd1"
    "grows (base @ [dot # n, d]) (chunk_of (5 + length n + length d) p) nd nd1"
    by auto
  have aw: "awaiting e base n cid chan nd1"
    by (rule awaiting_grows [OF cons(3) nd1(2) assms(3) cons(4)])
  have "node_at (files nd1) (base @ [dot # n, d]) \<noteq> Some Dir"
    using nd1(2) by (simp add: grows_def)
  with cons(2) [OF aw] cons(5) obtain nd' where
    "deliver e chan (map (data_cell cid) ps) nd1 = Inr nd'" "awaiting e base n cid chan nd'"
    "grows (base @ [dot # n, d]) (concat (map (chunk_of (5 + length n + length d)) ps)) nd1 nd'"
    by auto
  with nd1 grows_trans show ?case
    by (fastforce simp: command_process_plugin_cell_def)
qed

definition content_of :: "inode \<Rightarrow> u8 list" where
  "content_of nod = (case nod of File c \<Rightarrow> c | Dir \<Rightarrow> [])"

text \<open>All files of a plugin: those that were not there have the contents that were sent.\<close>

lemma receive_files:
  assumes "awaiting e base n cid chan nd" and "distinct ds"
    and "\<forall>d \<in> set ds. file_name_ok d \<and> d \<noteq> circ_id_name \<and> length (PluginsDirectory e) + length n + length d + 3 < PATH_MAX \<and>
      node_at (files nd) (base @ [dot # n, d]) = None"
    and "list_all2 (\<lambda>d ps. ps \<noteq> [] \<and> length n + length d < 500 \<and>
      list_all (chunk_ok (5 + length n + length d) (put_le32 (of_nat (length n + length d + 1)) @ n @ slash # d)) ps \<and>
      concat (map (chunk_of (5 + length n + length d)) ps) = cont d) ds pss"
    and "ds \<noteq> [] \<Longrightarrow> stream_reused e"
  shows "\<exists>nd' f. deliver e chan (map (data_cell cid) (concat pss)) nd = Inr nd' \<and> awaiting e base n cid chan nd' \<and>
    nd' = nd\<lparr>files := f\<rparr> \<and>
    (\<forall>q. node_at f q = (if \<exists>d \<in> set ds. q = base @ [dot # n, d] then Some (File (cont (last q))) else node_at (files nd) q))"
  using assms(4,1-3,5)
proof (induction ds pss arbitrary: nd rule: list_all2_induct)
  case Nil
  then show ?case
    by (auto intro!: exI [of _ "files nd"])
next
  case (Cons d ds ps pss)
  from Cons.prems(3,4) Cons.hyps(1) receive_file [OF Cons.prems(1), of d ps] obtain nd1 where
    nd1: "deliver e chan (map (data_cell cid) ps) nd = Inr nd1" "awaiting e base n cid chan nd1"
      "grows (base @ [dot # n, d]) (cont d) nd nd1"
    by auto
  have at: "node_at (files nd1) q = (if q = base @ [dot # n, d] then Some (File (cont d)) else node_at (files nd) q)" for q
    using nd1(3) Cons.prems(3) by (simp add: grows_def)
  have "\<forall>d' \<in> set ds. file_name_ok d' \<and> d' \<noteq> circ_id_name \<and> length (PluginsDirectory e) + length n + length d' + 3 < PATH_MAX \<and>
      node_at (files nd1) (base @ [dot # n, d']) = None"
    using Cons.prems(2,3) at by auto
  with Cons.IH [OF nd1(2)] Cons.prems(2,4) obtain nd' f where
    nd': "deliver e chan (map (data_cell cid) (concat pss)) nd1 = Inr nd'" "awaiting e base n cid chan nd'" "nd' = nd1\<lparr>files := f\<rparr>"
      "\<And>q. node_at f q = (if \<exists>d \<in> set ds. q = base @ [dot # n, d] then Some (File (cont (last q))) else node_at (files nd1) q)"
    by auto
  obtain g where g: "nd1 = nd\<lparr>files := g\<rparr>"
    using nd1(3) by (auto simp: grows_def)
  show ?case
  proof (intro exI conjI allI)
    show "deliver e chan (map (data_cell cid) (concat (ps # pss))) nd = Inr nd'"
      using nd1(1) nd'(1) by (simp add: deliver_append)
    show "awaiting e base n cid chan nd'" "nd' = nd\<lparr>files := f\<rparr>"
      using nd' g by simp_all
    show "node_at f q = (if \<exists>d' \<in> set (d # ds). q = base @ [dot # n, d'] then Some (File (cont (last q))) else node_at (files nd) q)" for q
      using nd'(4) [of q] at [of q] by auto
  qed
qed

section \<open>What the sender queues\<close>

definition sent :: "cell_direction \<Rightarrow> xcirc \<Rightarrow> xcell list" where
  "sent direction c = (if direction = CELL_DIRECTION_OUT then n_chan_cells c else p_chan_cells c)"

lemma append_cell_sent:
  assumes "append_cell_to_circuit_queue e nd (Some i) cell direction = Inr nd'" and "i < length (circs nd)"
    and "\<not> x_marked (circs nd' ! i)"
  shows "sent direction (circs nd' ! i) = sent direction (circs nd ! i) @ [cell] \<and> files nd' = files nd \<and>
    length (circs nd') = length (circs nd) \<and> \<not> x_marked (circs nd ! i)"
  using assms
  by (cases direction)
    (auto simp: append_cell_to_circuit_queue_def Let_def update_circ_def sent_def split: if_splits)

lemma append_payloads_sent:
  assumes "append_payloads e i direction cmd cid ps nd = Inr nd'" and "i < length (circs nd)"
    and "\<not> x_marked (circs nd' ! i)"
  shows "sent direction (circs nd' ! i) =
      sent direction (circs nd ! i) @ map (\<lambda>p. \<lparr>command = cmd, circ_id = cid, payload = p\<rparr>) ps \<and> files nd' = files nd \<and>
    length (circs nd') = length (circs nd) \<and> \<not> x_marked (circs nd ! i)"
  using assms
proof (induction ps arbitrary: nd)
  case (Cons p ps)
  obtain nd1 where nd1: "append_cell_to_circuit_queue e nd (Some i) \<lparr>command = cmd, circ_id = cid, payload = p\<rparr> direction = Inr nd1"
    "append_payloads e i direction cmd cid ps nd1 = Inr nd'"
    using Cons.prems(1) by (auto simp: and_then_Inr)
  have "length (circs nd1) = length (circs nd)"
    using nd1(1) by (cases direction)
      (auto simp: append_cell_to_circuit_queue_def Let_def update_circ_def split: if_splits)
  with Cons.IH [OF nd1(2)] Cons.prems(2,3) append_cell_sent [OF nd1(1) Cons.prems(2)] show ?case
    by simp
qed simp

lemma send_files_sent:
  assumes "send_files e i direction cmd cid dir_name n ds nd = Inr nd'" and "i < length (circs nd)"
    and "\<not> x_marked (circs nd' ! i)"
  shows "\<exists>pss. list_all2 (\<lambda>d ps. plugin_file_payloads (files nd) dir_name n d = Inr ps)
      (filter (\<lambda>d. \<not> (d \<noteq> [] \<and> hd d = dot)) ds) pss \<and>
    sent direction (circs nd' ! i) =
      sent direction (circs nd ! i) @ map (\<lambda>p. \<lparr>command = cmd, circ_id = cid, payload = p\<rparr>) (concat pss) \<and>
    files nd' = files nd \<and> length (circs nd') = length (circs nd) \<and> \<not> x_marked (circs nd ! i)"
  using assms
proof (induction ds arbitrary: nd)
  case (Cons d ds)
  show ?case
  proof (cases "d \<noteq> [] \<and> hd d = dot")
    case True
    then show ?thesis
      using Cons by simp
  next
    case False
    obtain ps nd1 where ps: "plugin_file_payloads (files nd) dir_name n d = Inr ps"
      "append_payloads e i direction cmd cid ps nd = Inr nd1" "send_files e i direction cmd cid dir_name n ds nd1 = Inr nd'"
      using Cons.prems(1) False by (auto simp: and_then_Inr)
    have len: "length (circs nd1) = length (circs nd)"
      using ps(2)
    proof (induction ps arbitrary: nd)
      case (Cons p ps)
      then show ?case
        by (cases direction)
          (fastforce simp: and_then_Inr append_cell_to_circuit_queue_def Let_def update_circ_def split: if_splits)+
    qed simp
    obtain pss where pss: "list_all2 (\<lambda>d ps. plugin_file_payloads (files nd1) dir_name n d = Inr ps)
        (filter (\<lambda>d. \<not> (d \<noteq> [] \<and> hd d = dot)) ds) pss"
      "sent direction (circs nd' ! i) =
        sent direction (circs nd1 ! i) @ map (\<lambda>p. \<lparr>command = cmd, circ_id = cid, payload = p\<rparr>) (concat pss)"
      "files nd' = files nd1" "length (circs nd') = length (circs nd1)" "\<not> x_marked (circs nd1 ! i)"
      using Cons.IH [OF ps(3)] Cons.prems(2,3) len by auto
    with append_payloads_sent [OF ps(2) Cons.prems(2) pss(5)] ps(1) False show ?thesis
      by (intro exI [of _ "ps # pss"]) simp
  qed
qed simp

text \<open>The cells that a completed \<open>send_plugin\<close> leaves in the queue.\<close>

lemma send_plugin_sent:
  assumes "send_plugin e nd n block cid chan CELL_PLUGIN_TRANSFER = Inr nd'"
    and "circuit_get_by_circid_channel nd cid (Some chan) = Some i" and "\<not> x_marked (circs nd' ! i)"
    and "path_of (files nd) (PluginsDirectory e) = Some base" and "node_at (files nd) base = Some Dir" and "file_name_ok n"
    and "node_at (files nd) (base @ [n]) = Some Dir"
  shows "\<exists>pss. list_all2 (\<lambda>d ps. plugin_file_payloads (files nd) (PluginsDirectory e @ slash # n) n d = Inr ps)
      (filter (\<lambda>d. \<not> (d \<noteq> [] \<and> hd d = dot)) (dir_order e ([dot] # [dot, dot] # entries_of (files nd) (base @ [n])))) pss \<and>
    sent (direction_to nd i chan) (circs nd' ! i) = sent (direction_to nd i chan) (circs nd ! i) @
      map (data_cell cid) (concat pss) @
      [\<lparr>command = CELL_PLUGIN_TRANSFERRED, circ_id = cid, payload = take CELL_PAYLOAD_SIZE block\<rparr>]"
proof -
  have i: "i < length (circs nd)"
    using assms(2) by (auto simp: circuit_get_by_circid_channel_def split: option.splits if_splits)
  have dir: "path_of (files nd) (PluginsDirectory e @ slash # n) = Some (base @ [n])"
    by (rule path_of_in_dir [OF assms(4-6)])
  let ?dir = "direction_to nd i chan"
  obtain nd1 where nd1: "send_files e i ?dir CELL_PLUGIN_TRANSFER cid (PluginsDirectory e @ slash # n) n
      (dir_order e ([dot] # [dot, dot] # entries_of (files nd) (base @ [n]))) nd = Inr nd1"
    "append_cell_to_circuit_queue e nd1 (Some i)
      \<lparr>command = CELL_PLUGIN_TRANSFERRED, circ_id = cid, payload = take CELL_PAYLOAD_SIZE block\<rparr> ?dir = Inr nd'"
    using assms(1,2,7) dir
    by (auto simp: send_plugin_def send_plugin_files_def and_then_Inr list_directory_def path_buf_def split: if_splits)
  have len: "length (circs nd1) = length (circs nd') \<and> (x_marked (circs nd1 ! i) \<longrightarrow> x_marked (circs nd' ! i))"
    using nd1(2) by (auto simp: append_cell_to_circuit_queue_def Let_def update_circ_def split: if_splits)
  from send_files_sent [OF nd1(1) i] len assms(3) obtain pss where pss:
    "list_all2 (\<lambda>d ps. plugin_file_payloads (files nd) (PluginsDirectory e @ slash # n) n d = Inr ps)
      (filter (\<lambda>d. \<not> (d \<noteq> [] \<and> hd d = dot)) (dir_order e ([dot] # [dot, dot] # entries_of (files nd) (base @ [n])))) pss"
    "sent ?dir (circs nd1 ! i) = sent ?dir (circs nd ! i) @ map (data_cell cid) (concat pss)"
    "length (circs nd1) = length (circs nd)"
    by auto
  with append_cell_sent [OF nd1(2) _ assms(3)] i show ?thesis
    by (intro exI [of _ pss]) simp
qed

section \<open>The end of a transfer\<close>

lemma under_append [simp]: "under p (p @ s)"
  by (simp add: under_def)

lemma map_of_map_key:
  "\<forall>(r, v) \<in> set f. g r = k' \<longleftrightarrow> r = k \<Longrightarrow> map_of (map (\<lambda>(r, v). (g r, v)) f) k' = map_of f k"
  by (induction f) auto

lemma map_of_renamed:
  assumes "\<forall>(r, nod) \<in> set f. \<not> under q r" and "\<not> under p q" and "\<not> under q p"
  shows "map_of (map (\<lambda>(r, nod). (if under p r then q @ drop (length p) r else r, nod)) f) (q @ s) = map_of f (p @ s)"
proof (rule map_of_map_key, clarify)
  fix r nod
  assume r: "(r, nod) \<in> set f"
  show "(if under p r then q @ drop (length p) r else r) = q @ s \<longleftrightarrow> r = p @ s"
  proof (cases "under p r")
    case True
    then have "r = p @ drop (length p) r"
      by (metis under_def append_take_drop_id)
    then show ?thesis
      using True by (metis append_eq_conv_conj same_append_eq)
  next
    case False
    then show ?thesis
      using assms(1) r by (auto simp: under_append)
  qed
qed

lemma rename_moves:
  assumes "path_of f s = Some p" and "path_of f t = Some q" and "node_at f p = Some Dir" and "p \<noteq> []"
    and "\<not> under p q" and "\<not> under q p" and "\<forall>(r, nod) \<in> set f. \<not> under q r"
  shows "node_at (rename s t f) (q @ u) = node_at f (p @ u)"
proof -
  have q: "q \<noteq> []"
    using assms(6) by (auto simp: under_def)
  have "q \<notin> fst ` set f"
    using assms(7) by (auto simp: under_def)
  then have "node_at f q = None" "filter (\<lambda>(r, n). r \<noteq> q) f = f"
    using q by (force simp: node_at_def map_of_eq_None_iff filter_id_conv)+
  then have "rename s t f = map (\<lambda>(r, n). (if under p r then q @ drop (length p) r else r, n)) f"
    using assms(1-5) q by (simp add: rename_def)
  then show ?thesis
    using map_of_renamed [OF assms(7,5,6)] q assms(4) by (simp add: node_at_def)
qed

lemma length_swap_out: "n \<in> set ms \<Longrightarrow> length (swap_out n ms) = length ms - 1"
  by (induction ms) auto

text \<open>Marking a plugin as received touches the lists of missing plugins only, and resumes the circuits that wait for nothing else.\<close>

lemma mark_from_ok:
  assumes "\<forall>c \<in> set (circs nd). x_origin c \<longrightarrow> (\<forall>ms. missing_plugins c = Some ms \<longrightarrow> n \<notin> set ms)"
    and "i + k = length (circs nd)"
  shows "\<exists>nd'. mark_from n i k nd = Inr nd' \<and> files nd' = files nd \<and> set (resumed nd) \<subseteq> set (resumed nd') \<and>
    (\<forall>j. i \<le> j \<longrightarrow> j < length (circs nd) \<longrightarrow> missing_plugins (circs nd ! j) = Some [n] \<longrightarrow>
      j \<in> set (resumed nd') \<and> missing_plugins (circs nd' ! j) = Some []) \<and>
    (\<forall>j < i. circs nd' ! j = circs nd ! j)"
  using assms
proof (induction k arbitrary: i nd)
  case (Suc k)
  let ?c = "circs nd ! i"
  have i: "i < length (circs nd)"
    using Suc.prems(2) by simp
  show ?case
  proof (cases "\<exists>ms. missing_plugins ?c = Some ms \<and> n \<in> set ms")
    case False
    then have step: "mark_from n i (Suc k) nd = mark_from n (Suc i) k nd"
      by (auto split: option.splits)
    have "\<exists>nd'. mark_from n (Suc i) k nd = Inr nd' \<and> files nd' = files nd \<and> set (resumed nd) \<subseteq> set (resumed nd') \<and>
      (\<forall>j. Suc i \<le> j \<longrightarrow> j < length (circs nd) \<longrightarrow> missing_plugins (circs nd ! j) = Some [n] \<longrightarrow>
        j \<in> set (resumed nd') \<and> missing_plugins (circs nd' ! j) = Some []) \<and>
      (\<forall>j < Suc i. circs nd' ! j = circs nd ! j)"
      using Suc.prems by (intro Suc.IH) simp_all
    moreover have "missing_plugins ?c \<noteq> Some [n]"
      using False by auto
    ultimately show ?thesis
      unfolding step by (metis Suc_leI le_neq_implies_less less_SucI)
  next
    case True
    then obtain ms where ms: "missing_plugins ?c = Some ms" "n \<in> set ms"
      by blast
    then have or: "\<not> x_origin ?c"
      using Suc.prems(1) i by auto
    define nd1 where "nd1 = update_circ i (\<lambda>c. c\<lparr>missing_plugins := Some (swap_out n ms)\<rparr>) nd"
    define nd2 where "nd2 = (if swap_out n ms \<noteq> [] then nd1 else nd1\<lparr>resumed := resumed nd1 @ [i]\<rparr>)"
    have step: "mark_from n i (Suc k) nd = mark_from n (Suc i) k nd2"
      using ms or by (simp add: nd1_def nd2_def Let_def)
    have nd2: "circs nd2 = (circs nd)[i := ?c\<lparr>missing_plugins := Some (swap_out n ms)\<rparr>]" "files nd2 = files nd"
      "resumed nd2 = resumed nd @ (if swap_out n ms = [] then [i] else [])"
      by (simp_all add: nd2_def nd1_def update_circ_def)
    have pre: "\<forall>c \<in> set (circs nd2). x_origin c \<longrightarrow> (\<forall>ms. missing_plugins c = Some ms \<longrightarrow> n \<notin> set ms)"
      using Suc.prems(1) or set_update_subset_insert [of "circs nd" i] nd2(1) by fastforce
    have "\<exists>nd'. mark_from n (Suc i) k nd2 = Inr nd' \<and> files nd' = files nd2 \<and> set (resumed nd2) \<subseteq> set (resumed nd') \<and>
      (\<forall>j. Suc i \<le> j \<longrightarrow> j < length (circs nd2) \<longrightarrow> missing_plugins (circs nd2 ! j) = Some [n] \<longrightarrow>
        j \<in> set (resumed nd') \<and> missing_plugins (circs nd' ! j) = Some []) \<and>
      (\<forall>j < Suc i. circs nd' ! j = circs nd2 ! j)"
      using pre nd2(1) Suc.prems(2) by (intro Suc.IH) simp_all
    then obtain nd' where nd': "mark_from n (Suc i) k nd2 = Inr nd'" "files nd' = files nd2" "set (resumed nd2) \<subseteq> set (resumed nd')"
      "\<forall>j. Suc i \<le> j \<longrightarrow> j < length (circs nd2) \<longrightarrow> missing_plugins (circs nd2 ! j) = Some [n] \<longrightarrow>
        j \<in> set (resumed nd') \<and> missing_plugins (circs nd' ! j) = Some []"
      "\<forall>j < Suc i. circs nd' ! j = circs nd2 ! j"
      by blast
    have here: "i \<in> set (resumed nd') \<and> missing_plugins (circs nd' ! i) = Some []" if "ms = [n]"
      using that nd'(3,5) nd2 i by auto
    have later: "j \<in> set (resumed nd') \<and> missing_plugins (circs nd' ! j) = Some []"
      if "i < j" "j < length (circs nd)" "missing_plugins (circs nd ! j) = Some [n]" for j
      using that nd'(4) nd2(1) by (simp add: Suc_le_eq)
    show ?thesis
    proof (intro exI conjI allI impI)
      show "mark_from n i (Suc k) nd = Inr nd'" "files nd' = files nd" "set (resumed nd) \<subseteq> set (resumed nd')"
        using nd'(1-3) nd2 step by simp_all
      fix j
      assume "i \<le> j" "j < length (circs nd)" "missing_plugins (circs nd ! j) = Some [n]"
      then show "j \<in> set (resumed nd')" "missing_plugins (circs nd' ! j) = Some []"
        using here later [of j] ms(1) by (cases "i = j"; simp)+
    next
      fix j
      assume "j < i"
      then show "circs nd' ! j = circs nd ! j"
        using nd'(5) nd2(1) by simp
    qed
  qed
qed auto

section \<open>The number of the circuit\<close>

lemma digit_value: "d < 10 \<Longrightarrow> unat (48 + of_nat d :: u8) = 48 + d"
  by (simp add: unat_word_ariths unat_of_nat)

lemma decimal_digits:
  "list_all is_digit (decimal n) \<and> decimal n \<noteq> [] \<and>
    foldl (\<lambda>a b. 10 * a + uint (b - 48)) 0 (decimal n) = int n \<and> (n < 10 ^ k \<longrightarrow> 0 < k \<longrightarrow> length (decimal n) \<le> k)"
proof (induction n arbitrary: k rule: decimal.induct)
  case (1 n)
  have digit: "is_digit (48 + of_nat d)" "uint (of_nat d :: u8) = int d" if "d < 10" for d
    using digit_value [OF that] that by (simp_all add: is_digit_def word_le_nat_alt unsigned_of_nat take_bit_nat_eq_self)
  show ?case
  proof (cases "n < 10")
    case True
    then have "decimal n = [48 + of_nat n]"
      by (subst decimal.simps) simp
    then show ?thesis
      using digit [OF True] by simp
  next
    case False
    then have dec: "decimal n = decimal (n div 10) @ [48 + of_nat (n mod 10)]"
      by (subst decimal.simps) simp
    have "length (decimal (n div 10)) \<le> k - 1" if "n < 10 ^ k" "0 < k"
    proof -
      have "k \<noteq> 1"
        using False that by auto
      then have "n div 10 < 10 ^ (k - 1)" "0 < k - 1"
        using that by (simp_all add: div_less_iff_less_mult flip: power_Suc2)
      then show ?thesis
        using 1 [OF False, of "k - 1"] by blast
    qed
    moreover have "10 * int (n div 10) + int (n mod 10) = int n"
      by presburger
    ultimately show ?thesis
      using 1 [OF False] digit [of "n mod 10"] by (auto simp: dec)
  qed
qed

lemma strtoul10_decimal:
  assumes "n < 2 ^ 32"
  shows "strtoul10 (decimal n @ 0 # rest) = of_nat n"
proof -
  note d = decimal_digits [of n]
  then obtain b bs where b: "decimal n = b # bs" "is_digit b"
    by (cases "decimal n") auto
  have "unat (48 :: u8) \<le> unat b"
    using b(2) by (simp add: is_digit_def word_le_nat_alt)
  then have "\<not> (b = 32 \<or> 9 \<le> b \<and> b \<le> 13)" "b \<noteq> 45" "b \<noteq> 43"
    by (auto simp: word_le_nat_alt)
  then have "dropWhile (\<lambda>b. b = 32 \<or> 9 \<le> b \<and> b \<le> 13) (decimal n @ 0 # rest) = decimal n @ 0 # rest"
    "hd (decimal n @ 0 # rest) \<noteq> 45" "hd (decimal n @ 0 # rest) \<noteq> 43"
    by (auto simp: b(1))
  moreover have "takeWhile is_digit (decimal n @ 0 # rest) = decimal n"
    using d by (simp add: takeWhile_append list_all_iff is_digit_def)
  ultimately show ?thesis
    using d assms by (simp add: strtoul10_def Let_def)
qed

lemma circ_id_text_ok:
  "length (circ_id_text e cid) = 11 \<and> \<not> list_all is_digit (circ_id_text e cid) \<and>
    ucast (strtoul10 (circ_id_text e cid)) = cid"
proof -
  have "unat cid < 10 ^ 10"
    using unsigned_less [where 'a = nat, of cid] by simp
  then have len: "length (decimal (unat cid)) \<le> 10"
    using decimal_digits [of "unat cid" 10] by simp
  define rest where "rest = take (10 - length (decimal (unat cid))) (junk e (decimal (unat cid)) @ replicate 11 0)"
  have eq: "circ_id_text e cid = decimal (unat cid) @ 0 # rest"
    using len by (simp add: circ_id_text_def Let_def take_Cons' Suc_diff_le rest_def)
  have rest: "length rest = 10 - length (decimal (unat cid))"
    by (auto simp: rest_def)
  have "strtoul10 (decimal (unat cid) @ 0 # rest) = of_nat (unat cid)"
    using unsigned_less [where 'a = nat, of cid] by (intro strtoul10_decimal) simp
  then have "ucast (strtoul10 (decimal (unat cid) @ 0 # rest)) = cid"
    by (simp add: unsigned_ucast_eq take_bit_word_eq_self)
  then show ?thesis
    using len rest by (simp add: eq is_digit_def)
qed

lemma create_plugin_dir_awaits:
  assumes "file_name_ok n" and "length (PluginsDirectory e) + length n + 12 < PATH_MAX"
    and "path_of (files nd) (PluginsDirectory e) = Some base" and "node_at (files nd) base = Some Dir"
    and "\<And>q. under (base @ [dot # n]) q \<Longrightarrow> node_at (files nd) q = None"
    and "circuit_get_by_circid_channel nd cid (Some chan) \<noteq> None"
  shows "\<exists>nd'. create_plugin_dir e nd (PluginsDirectory e @ hidden @ n) (PluginsDirectory e @ hidden @ n @ slash # circ_id_name) cid = Inr nd' \<and>
    awaiting e base n cid chan nd' \<and> (\<exists>f. nd' = nd\<lparr>files := f\<rparr>) \<and>
    (\<forall>q. node_at (files nd') q = (if q = base @ [dot # n] then Some Dir
       else if q = base @ [dot # n, circ_id_name] then Some (File (circ_id_text e cid)) else node_at (files nd) q))"
proof -
  let ?f = "files nd @ [(base @ [dot # n], Dir)]"
  have free: "node_at (files nd) (base @ [dot # n]) = None" "node_at (files nd) (base @ [dot # n, circ_id_name]) = None"
    using assms(5) by (simp_all add: under_def)
  have mk: "mkdir (PluginsDirectory e @ hidden @ n) (files nd) = ?f"
    using hidden_dir_path [OF assms(3,4,1)] free by (simp add: mkdir_def)
  have at: "node_at ?f q = (if q = base @ [dot # n] then Some Dir else node_at (files nd) q)" for q
    using free by (simp add: node_at_snoc)
  have path: "path_of ?f (PluginsDirectory e) = Some base"
    using path_of_cong [OF _ assms(3), of ?f] at by auto
  have id_path: "path_of g (PluginsDirectory e @ hidden @ n @ slash # circ_id_name) = Some (base @ [dot # n, circ_id_name])"
    if "\<And>q. node_at ?f q = Some Dir \<Longrightarrow> node_at g q = Some Dir" for g
  proof (rule hidden_file_path)
    show "path_of g (PluginsDirectory e) = Some base"
      by (rule path_of_cong [OF that path])
    show "node_at g base = Some Dir" "node_at g (base @ [dot # n]) = Some Dir"
      by (rule that, simp add: at assms(4))+
  qed (simp_all add: assms(1))
  have id_here: "path_of ?f (PluginsDirectory e @ hidden @ n @ slash # circ_id_name) = Some (base @ [dot # n, circ_id_name])"
    by (rule id_path)
  have id_free: "node_at ?f (base @ [dot # n, circ_id_name]) = None"
    using free(2) by (simp add: at)
  note opened = fopen_write [OF id_here disjI1 [OF id_free], of "circ_id_text e cid"]
  then obtain g where g: "fopen_append (PluginsDirectory e @ hidden @ n @ slash # circ_id_name) ?f = Some (base @ [dot # n, circ_id_name], g)"
    by blast
  have gat: "node_at (append_to (base @ [dot # n, circ_id_name]) (circ_id_text e cid) g) q =
      (if q = base @ [dot # n, circ_id_name] then Some (File (circ_id_text e cid)) else node_at ?f q)" for q
    using opened [of q] g id_free by auto
  let ?g = "append_to (base @ [dot # n, circ_id_name]) (circ_id_text e cid) g"
  have dirs: "node_at ?g q = Some Dir" if "node_at ?f q = Some Dir" for q
    using that id_free by (auto simp: gat)
  have "read_circ_id (nd\<lparr>files := ?g\<rparr>) (PluginsDirectory e @ hidden @ n @ slash # circ_id_name) = Inr cid"
    using circ_id_text_ok [of e cid] by (simp add: read_circ_id_def read_bytes_def id_path [OF dirs] gat)
  moreover have "path_of ?g (PluginsDirectory e) = Some base"
    by (rule path_of_cong [OF dirs path])
  ultimately have "awaiting e base n cid chan (nd\<lparr>files := ?g\<rparr>)"
    using assms(1-4,6) dirs by (auto simp: awaiting_def at)
  moreover have "create_plugin_dir e nd (PluginsDirectory e @ hidden @ n) (PluginsDirectory e @ hidden @ n @ slash # circ_id_name) cid
      = Inr (nd\<lparr>files := ?g\<rparr>)"
    using mk g by (simp add: create_plugin_dir_def)
  ultimately show ?thesis
    using gat at by (intro exI [of _ "nd\<lparr>files := ?g\<rparr>"]) auto
qed

lemma transferred_cell:
  assumes "awaiting e base n cid chan nd" and "length n < CELL_PAYLOAD_SIZE"
    and "\<forall>(r, nod) \<in> set (files nd). \<not> under (base @ [n]) r"
    and "\<forall>c \<in> set (circs nd). x_origin c \<longrightarrow> (\<forall>ms. missing_plugins c = Some ms \<longrightarrow> n \<notin> set ms)"
  shows "\<exists>nd'. handle_plugin_transferred_cell e nd
      \<lparr>command = CELL_PLUGIN_TRANSFERRED, circ_id = cid, payload = take CELL_PAYLOAD_SIZE (zero_block n)\<rparr> chan = Inr nd' \<and>
    (\<forall>u. node_at (files nd') (base @ n # u) = node_at (files nd) (base @ (dot # n) # u)) \<and>
    (\<forall>j < length (circs nd). missing_plugins (circs nd ! j) = Some [n] \<longrightarrow>
      j \<in> set (resumed nd') \<and> missing_plugins (circs nd' ! j) = Some [])"
proof -
  note aw = assms(1) [unfolded awaiting_def]
  obtain i where i: "circuit_get_by_circid_channel nd cid (Some chan) = Some i"
    using aw by auto
  let ?nd = "update_circ i (\<lambda>c. if missing_plugins c = None then c\<lparr>missing_plugins := Some []\<rparr> else c) nd"
  have "0 \<notin> set n"
    using aw by (auto simp: file_name_ok_def)
  then have name: "cstring_at (take CELL_PAYLOAD_SIZE (zero_block n)) 0 = Some n"
    using assms(2) by (simp add: cstring_at_def zero_block_def takeWhile_append takeWhile_replicate)
  have paths: "hidden_path e n = Inr (PluginsDirectory e @ hidden @ n)"
    "path_buf (PluginsDirectory e @ slash # n) = Inr (PluginsDirectory e @ slash # n)"
    "path_buf (PluginsDirectory e @ hidden @ n @ slash # circ_id_name) = Inr (PluginsDirectory e @ hidden @ n @ slash # circ_id_name)"
    using aw by (simp_all add: hidden_path_def path_buf_def hidden_def circ_id_name_def)
  have p: "path_of (files nd) (PluginsDirectory e @ hidden @ n) = Some (base @ [dot # n])"
    using aw by (intro hidden_dir_path) simp_all
  have q: "path_of (files nd) (PluginsDirectory e @ slash # n) = Some (base @ [n])"
    using aw by (intro path_of_in_dir) simp_all
  let ?f = "rename (PluginsDirectory e @ hidden @ n) (PluginsDirectory e @ slash # n) (files nd)"
  have moved: "node_at ?f ((base @ [n]) @ u) = node_at (files nd) ((base @ [dot # n]) @ u)" for u
    using aw by (intro rename_moves [OF p q _ _ _ _ assms(3)]) (simp_all add: under_def)
  have "\<forall>c \<in> set (circs ?nd). x_origin c \<longrightarrow> (\<forall>ms. missing_plugins c = Some ms \<longrightarrow> n \<notin> set ms)"
    using assms(4) set_update_subset_insert [of "circs nd" i] i
    by (fastforce simp: update_circ_def circuit_get_by_circid_channel_def split: option.splits if_splits)
  with mark_from_ok [of "?nd\<lparr>files := ?f\<rparr>" n 0 "length (circs nd)"] obtain nd' where nd':
    "mark_plugin_as_received n (?nd\<lparr>files := ?f\<rparr>) = Inr nd'" "files nd' = ?f"
    "\<forall>j < length (circs nd). missing_plugins (circs ?nd ! j) = Some [n] \<longrightarrow>
      j \<in> set (resumed nd') \<and> missing_plugins (circs nd' ! j) = Some []"
    by (auto simp: mark_plugin_as_received_def update_circ_def)
  have "missing_plugins (circs ?nd ! j) = Some [n]" if "missing_plugins (circs nd ! j) = Some [n]" for j
    using that i by (cases "j = i") (auto simp: update_circ_def circuit_get_by_circid_channel_def split: option.splits if_splits)
  moreover have "handle_plugin_transferred_cell e nd
      \<lparr>command = CELL_PLUGIN_TRANSFERRED, circ_id = cid, payload = take CELL_PAYLOAD_SIZE (zero_block n)\<rparr> chan = Inr nd'"
    using aw i name paths p nd'(1)
    by (simp add: handle_plugin_transferred_cell_def Let_def stat_ok_def update_circ_def read_circ_id_def)
  ultimately show ?thesis
    using nd'(2,3) moved by auto
qed

section \<open>From the disk of one peer to the disk of the other\<close>

definition fs_ok :: "fs \<Rightarrow> bool" where
  "fs_ok f \<longleftrightarrow> distinct (map fst f) \<and> list_all (\<lambda>(p, nod). list_all file_name_ok p) f"

text \<open>The files of a plugin that are sent.\<close>

definition shared_files :: "fs \<Rightarrow> path \<Rightarrow> name list" where
  "shared_files f p = filter (\<lambda>d. hd d \<noteq> dot) (entries_of f p)"

lemma entries_of_ok:
  assumes "fs_ok f"
  shows "distinct (entries_of f p)" and "d \<in> set (entries_of f p) \<Longrightarrow> file_name_ok d"
    and "p \<noteq> [] \<Longrightarrow> d \<in> set (entries_of f p) \<longleftrightarrow> node_at f (p @ [d]) \<noteq> None"
proof -
  have "entries_of f p = map last (filter (\<lambda>q. q \<noteq> [] \<and> butlast q = p) (map fst f))"
    unfolding entries_of_def by (induction f) auto
  moreover have "inj_on last (set (filter (\<lambda>q. q \<noteq> [] \<and> butlast q = p) (map fst f)))"
    by (rule inj_onI) (simp only: set_filter mem_Collect_eq, metis append_butlast_last_id)
  ultimately show "distinct (entries_of f p)"
    using assms by (simp add: fs_ok_def distinct_map)
  show "file_name_ok d" if "d \<in> set (entries_of f p)"
    using that assms by (auto simp: entries_of_def fs_ok_def list_all_iff)
  show "d \<in> set (entries_of f p) \<longleftrightarrow> node_at f (p @ [d]) \<noteq> None"
    by (force simp: entries_of_def node_at_def map_of_eq_None_iff image_iff)
qed

lemma sent_entries:
  assumes "fs_ok f" and "\<And>xs. mset (order xs) = mset xs"
  shows "distinct (filter (\<lambda>d. \<not> (d \<noteq> [] \<and> hd d = dot)) (order ([dot] # [dot, dot] # entries_of f p)))"
    and "set (filter (\<lambda>d. \<not> (d \<noteq> [] \<and> hd d = dot)) (order ([dot] # [dot, dot] # entries_of f p))) = set (shared_files f p)"
proof -
  let ?xs = "[dot] # [dot, dot] # entries_of f p"
  have "[dot] \<notin> set (entries_of f p)" "[dot, dot] \<notin> set (entries_of f p)" "[] \<notin> set (entries_of f p)"
    using entries_of_ok(2) [OF assms(1)] by (auto simp: file_name_ok_def)
  then have "distinct ?xs"
    using entries_of_ok(1) [OF assms(1)] by simp
  then show "distinct (filter (\<lambda>d. \<not> (d \<noteq> [] \<and> hd d = dot)) (order ?xs))"
    using mset_eq_imp_distinct_iff [OF assms(2), of ?xs] by (simp only: distinct_filter)
  have same: "set (order ?xs) = set ?xs"
    by (rule mset_eq_setD [OF assms(2)])
  show "set (filter (\<lambda>d. \<not> (d \<noteq> [] \<and> hd d = dot)) (order ?xs)) = set (shared_files f p)"
    using \<open>[] \<notin> set (entries_of f p)\<close> unfolding set_filter same by (auto simp: shared_files_def)
qed

lemma append_cell_returns:
  assumes "\<not> (direction = CELL_DIRECTION_IN \<and> x_origin (circs nd ! i))" and "i < length (circs nd)"
  shows "\<exists>nd'. append_cell_to_circuit_queue e nd (Some i) cell direction = Inr nd' \<and> files nd' = files nd \<and>
    length (circs nd') = length (circs nd) \<and> x_origin (circs nd' ! i) = x_origin (circs nd ! i)"
  using assms by (cases direction) (auto simp: append_cell_to_circuit_queue_def Let_def update_circ_def)

lemma append_payloads_returns:
  assumes "\<not> (direction = CELL_DIRECTION_IN \<and> x_origin (circs nd ! i))" and "i < length (circs nd)"
  shows "\<exists>nd'. append_payloads e i direction cmd cid ps nd = Inr nd' \<and> files nd' = files nd \<and>
    length (circs nd') = length (circs nd) \<and> x_origin (circs nd' ! i) = x_origin (circs nd ! i)"
  using assms
proof (induction ps arbitrary: nd)
  case (Cons p ps)
  from append_cell_returns [OF Cons.prems] obtain nd1 where
    "append_cell_to_circuit_queue e nd (Some i) \<lparr>command = cmd, circ_id = cid, payload = p\<rparr> direction = Inr nd1" "files nd1 = files nd"
    "length (circs nd1) = length (circs nd)" "x_origin (circs nd1 ! i) = x_origin (circs nd ! i)"
    by blast
  with Cons.IH [of nd1] Cons.prems show ?case
    by auto
qed simp

lemma send_files_returns:
  assumes "\<not> (direction = CELL_DIRECTION_IN \<and> x_origin (circs nd ! i))" and "i < length (circs nd)"
    and "\<forall>d \<in> set ds. hd d \<noteq> dot \<longrightarrow> (\<exists>ps. plugin_file_payloads (files nd) dir_name n d = Inr ps)"
    and "[] \<notin> set ds"
  shows "\<exists>nd'. send_files e i direction cmd cid dir_name n ds nd = Inr nd' \<and> files nd' = files nd \<and>
    length (circs nd') = length (circs nd) \<and> x_origin (circs nd' ! i) = x_origin (circs nd ! i)"
  using assms
proof (induction ds arbitrary: nd)
  case (Cons d ds)
  show ?case
  proof (cases "hd d = dot")
    case True
    then show ?thesis
      using Cons by auto
  next
    case False
    then obtain ps where ps: "plugin_file_payloads (files nd) dir_name n d = Inr ps"
      using Cons.prems(3) by auto
    from append_payloads_returns [OF Cons.prems(1,2)] obtain nd1 where
      "append_payloads e i direction cmd cid ps nd = Inr nd1" "files nd1 = files nd"
      "length (circs nd1) = length (circs nd)" "x_origin (circs nd1 ! i) = x_origin (circs nd ! i)"
      by blast
    with Cons.IH [of nd1] Cons.prems ps False show ?thesis
      by auto
  qed
qed simp

lemma file_sent_returns:
  assumes "path_of f dir_name = Some pd" and "node_at f pd = Some Dir" and "file_name_ok d"
    and "node_at f (pd @ [d]) = Some nod" and "length n + length d < 500" and "length dir_name + length d + 1 < PATH_MAX"
  shows "\<exists>ps. plugin_file_payloads f dir_name n d = Inr ps"
proof -
  let ?rel = "n @ slash # d"
  let ?idx = "4 + length ?rel"
  let ?buf = "put_range 4 ?rel (put_range 0 (put_le32 (of_nat (length ?rel))) (replicate CELL_PAYLOAD_SIZE 0))"
  have read: "read_bytes (dir_name @ slash # d) f = Some (content_of nod)"
    using path_of_in_dir [OF assms(1-3)] assms(4) by (auto simp: read_bytes_def content_of_def split: inode.splits)
  have buf: "length ?buf = CELL_PAYLOAD_SIZE"
    using assms(5) by (subst length_put_range; simp add: CELL_PAYLOAD_SIZE_def)
  from file_payloads_ok [OF _ _ buf refl, of "CELL_PAYLOAD_SIZE - (?idx + 4)" ?idx "content_of nod"] assms(5)
  obtain ps where "file_payloads (CELL_PAYLOAD_SIZE - (?idx + 4)) ?idx ?buf (content_of nod) = Some ps"
    by (auto simp: CELL_PAYLOAD_SIZE_def)
  moreover have "path_buf (dir_name @ slash # d) = Inr (dir_name @ slash # d)" "?idx + 4 \<le> CELL_PAYLOAD_SIZE"
    using assms(5,6) by (simp_all add: path_buf_def CELL_PAYLOAD_SIZE_def)
  ultimately show ?thesis
    using read unfolding plugin_file_payloads_def Let_def by simp
qed

text \<open>What the sender needs to send a plugin on a circuit.\<close>

definition can_send :: "env \<Rightarrow> path \<Rightarrow> name \<Rightarrow> u32 \<Rightarrow> nat \<Rightarrow> nat \<Rightarrow> node \<Rightarrow> bool" where
  "can_send e base n cid chan i nd \<longleftrightarrow>
     circuit_get_by_circid_channel nd cid (Some chan) = Some i \<and>
     \<not> (direction_to nd i chan = CELL_DIRECTION_IN \<and> x_origin (circs nd ! i)) \<and>
     path_of (files nd) (PluginsDirectory e) = Some base \<and> node_at (files nd) base = Some Dir \<and>
     file_name_ok n \<and> node_at (files nd) (base @ [n]) = Some Dir \<and> fs_ok (files nd) \<and>
     length n < 500 \<and> length (PluginsDirectory e) + length n + 1 < PATH_MAX \<and>
     list_all (\<lambda>d. length n + length d < 500 \<and> length (PluginsDirectory e) + length n + length d + 2 < PATH_MAX)
       (shared_files (files nd) (base @ [n]))"

text \<open>What the receiver needs: it waits for the plugin, has nothing of it yet, and does not have it on disk.\<close>

definition can_receive :: "env \<Rightarrow> path \<Rightarrow> name \<Rightarrow> u32 \<Rightarrow> nat \<Rightarrow> node \<Rightarrow> bool" where
  "can_receive e base n cid chan nd \<longleftrightarrow> awaiting e base n cid chan nd \<and>
     list_all (\<lambda>(p, nod). \<not> under (base @ [n]) p \<and> (under (base @ [dot # n]) p \<longrightarrow> p \<in> {base @ [dot # n], base @ [dot # n, circ_id_name]}))
       (files nd) \<and>
     list_all (\<lambda>c. x_origin c \<longrightarrow> (case missing_plugins c of None \<Rightarrow> True | Some ms \<Rightarrow> n \<notin> set ms)) (circs nd)"

lemma can_receive_free:
  assumes "can_receive e base n cid chan nd" and "d \<noteq> circ_id_name"
  shows "node_at (files nd) (base @ [dot # n, d]) = None"
proof -
  have "under (base @ [dot # n]) (base @ [dot # n, d])"
    by (simp add: under_def)
  then have "base @ [dot # n, d] \<notin> fst ` set (files nd)"
    using assms unfolding can_receive_def list_all_iff by fastforce
  then show ?thesis
    by (simp add: node_at_def map_of_eq_None_iff)
qed

lemma send_plugin_returns:
  assumes "can_send e base n cid chan i nd" and "\<And>xs. mset (dir_order e xs) = mset xs"
  shows "\<exists>nd'. send_plugin e nd n block cid chan CELL_PLUGIN_TRANSFER = Inr nd'"
proof -
  note s = assms(1) [unfolded can_send_def]
  let ?ds = "dir_order e ([dot] # [dot, dot] # entries_of (files nd) (base @ [n]))"
  let ?dir = "PluginsDirectory e @ slash # n"
  have i: "i < length (circs nd)"
    using s by (auto simp: circuit_get_by_circid_channel_def split: option.splits if_splits)
  have path: "path_of (files nd) ?dir = Some (base @ [n])"
    using s by (intro path_of_in_dir) simp_all
  have set_ds: "set ?ds = set ([dot] # [dot, dot] # entries_of (files nd) (base @ [n]))"
    by (rule mset_eq_setD [OF assms(2)])
  note ent = entries_of_ok [of "files nd"]
  have ok: "\<exists>ps. plugin_file_payloads (files nd) ?dir n d = Inr ps" if "d \<in> set ?ds" "hd d \<noteq> dot" for d
  proof -
    have d: "d \<in> set (entries_of (files nd) (base @ [n]))"
      using that unfolding set_ds by auto
    then obtain nod where "node_at (files nd) (base @ [n, d]) = Some nod"
      using ent(3) [of "base @ [n]" d] s by auto
    moreover have "length n + length d < 500 \<and> length (PluginsDirectory e) + length n + length d + 2 < PATH_MAX"
      using s d that(2) by (auto simp: shared_files_def list_all_iff)
    ultimately show ?thesis
      using file_sent_returns [OF path, of d nod n] ent(2) [OF _ d] s by simp
  qed
  have "[] \<notin> set ?ds"
    using ent(2) [of "[]"] s unfolding set_ds by (auto simp: file_name_ok_def)
  with send_files_returns [of "direction_to nd i chan" nd i ?ds ?dir n e CELL_PLUGIN_TRANSFER cid] ok s i obtain nd1 where
    nd1: "send_files e i (direction_to nd i chan) CELL_PLUGIN_TRANSFER cid ?dir n ?ds nd = Inr nd1"
      "length (circs nd1) = length (circs nd)" "x_origin (circs nd1 ! i) = x_origin (circs nd ! i)"
    by blast
  have "send_plugin_files e nd n cid chan CELL_PLUGIN_TRANSFER = Inr nd1"
    using s path nd1(1) by (simp add: send_plugin_files_def path_buf_def list_directory_def)
  with append_cell_returns [of "direction_to nd i chan" nd1 i] nd1 s i show ?thesis
    by (auto simp: send_plugin_def)
qed

text \<open>What arrives: every shared file with its contents, and the circuits that waited for this plugin alone go on.\<close>

definition plugin_arrived :: "fs \<Rightarrow> path \<Rightarrow> fs \<Rightarrow> path \<Rightarrow> name \<Rightarrow> bool" where
  "plugin_arrived f base g base' n \<longleftrightarrow>
     list_all (\<lambda>d. node_at g (base' @ [n, d]) = map_option (\<lambda>nod. File (content_of nod)) (node_at f (base @ [n, d])))
       (shared_files f (base @ [n]))"

definition circuits_resumed :: "name \<Rightarrow> node \<Rightarrow> node \<Rightarrow> bool" where
  "circuits_resumed n nd nd' \<longleftrightarrow>
     list_all (\<lambda>j. missing_plugins (circs nd ! j) = Some [n] \<longrightarrow> j \<in> set (resumed nd') \<and> missing_plugins (circs nd' ! j) = Some [])
       [0..<length (circs nd)]"

lemma deliver_plugin:
  assumes "can_receive e base n cid chan nd" and "length n < 500" and "distinct ds"
    and "\<forall>d \<in> set ds. file_name_ok d \<and> d \<noteq> circ_id_name \<and> length (PluginsDirectory e) + length n + length d + 3 < PATH_MAX"
    and "list_all2 (\<lambda>d ps. ps \<noteq> [] \<and> length n + length d < 500 \<and>
      list_all (chunk_ok (5 + length n + length d) (put_le32 (of_nat (length n + length d + 1)) @ n @ slash # d)) ps \<and>
      concat (map (chunk_of (5 + length n + length d)) ps) = cont d) ds pss"
    and "ds \<noteq> [] \<Longrightarrow> stream_reused e"
  shows "\<exists>nd'. deliver e chan (map (data_cell cid) (concat pss) @
      [\<lparr>command = CELL_PLUGIN_TRANSFERRED, circ_id = cid, payload = take CELL_PAYLOAD_SIZE (zero_block n)\<rparr>]) nd = Inr nd' \<and>
    (\<forall>d \<in> set ds. node_at (files nd') (base @ [n, d]) = Some (File (cont d))) \<and> circuits_resumed n nd nd'"
proof -
  note r = assms(1) [unfolded can_receive_def]
  have free: "\<forall>d \<in> set ds. file_name_ok d \<and> d \<noteq> circ_id_name \<and> length (PluginsDirectory e) + length n + length d + 3 < PATH_MAX \<and>
      node_at (files nd) (base @ [dot # n, d]) = None"
    using assms(4) can_receive_free [OF assms(1)] by blast
  from receive_files [OF _ assms(3) free assms(5,6), of cid chan] r obtain nd1 f where nd1:
    "deliver e chan (map (data_cell cid) (concat pss)) nd = Inr nd1" "awaiting e base n cid chan nd1" "nd1 = nd\<lparr>files := f\<rparr>"
    "\<And>q. node_at f q = (if \<exists>d \<in> set ds. q = base @ [dot # n, d] then Some (File (cont (last q))) else node_at (files nd) q)"
    by auto
  have "\<forall>(p, nod) \<in> set f. \<not> under (base @ [n]) p"
  proof clarify
    fix p nod
    assume p: "(p, nod) \<in> set f" "under (base @ [n]) p"
    then have "p \<noteq> []" "p \<notin> {q. \<exists>d \<in> set ds. q = base @ [dot # n, d]}"
      by (auto simp: under_def)
    moreover have "map_of f p \<noteq> None"
      using weak_map_of_SomeI [OF p(1)] by auto
    ultimately have "map_of (files nd) p \<noteq> None"
      using nd1(4) [of p] by (auto simp: node_at_def split: if_splits)
    then obtain v where "(p, v) \<in> set (files nd)"
      by (auto dest: map_of_SomeD)
    then show False
      using r p(2) by (auto simp: list_all_iff)
  qed
  moreover have "\<forall>c \<in> set (circs nd1). x_origin c \<longrightarrow> (\<forall>ms. missing_plugins c = Some ms \<longrightarrow> n \<notin> set ms)"
    using r nd1(3) by (auto simp: list_all_iff)
  ultimately obtain nd' where nd': "handle_plugin_transferred_cell e nd1
      \<lparr>command = CELL_PLUGIN_TRANSFERRED, circ_id = cid, payload = take CELL_PAYLOAD_SIZE (zero_block n)\<rparr> chan = Inr nd'"
    "\<And>u. node_at (files nd') (base @ n # u) = node_at f (base @ (dot # n) # u)"
    "\<forall>j < length (circs nd). missing_plugins (circs nd ! j) = Some [n] \<longrightarrow>
      j \<in> set (resumed nd') \<and> missing_plugins (circs nd' ! j) = Some []"
    using transferred_cell [OF nd1(2)] assms(2) nd1(3) by (auto simp: CELL_PAYLOAD_SIZE_def)
  have "node_at (files nd') (base @ [n, d]) = Some (File (cont d))" if "d \<in> set ds" for d
    using nd'(2) [of "[d]"] nd1(4) [of "base @ [dot # n, d]"] that by auto
  then show ?thesis
    using nd1(1) nd'(1,3) by (auto simp: deliver_append command_process_plugin_cell_def circuits_resumed_def list_all_iff)
qed

text \<open>Where a closed stream is not given out again, the first data cell is the end.\<close>

lemma deliver_stops:
  assumes "can_receive e base n cid chan nd" and "\<not> stream_reused e" and "ds \<noteq> []"
    and "\<forall>d \<in> set ds. file_name_ok d \<and> d \<noteq> circ_id_name \<and> length (PluginsDirectory e) + length n + length d + 3 < PATH_MAX"
    and "list_all2 (\<lambda>d ps. ps \<noteq> [] \<and> length n + length d < 500 \<and>
      list_all (chunk_ok (5 + length n + length d) (put_le32 (of_nat (length n + length d + 1)) @ n @ slash # d)) ps \<and>
      concat (map (chunk_of (5 + length n + length d)) ps) = cont d) ds pss"
  shows "deliver e chan (map (data_cell cid) (concat pss) @ cs) nd = Inl Closed_Stream"
proof -
  obtain d ds' p ps pss' where ds: "ds = d # ds'" and pss: "pss = (p # ps) # pss'" and short: "length n + length d < 500"
    and p: "chunk_ok (5 + length n + length d) (put_le32 (of_nat (length n + length d + 1)) @ n @ slash # d) p"
    using assms(3,5) by (cases ds; cases pss; cases "hd pss") auto
  have aw: "awaiting e base n cid chan nd"
    using assms(1) by (simp add: can_receive_def)
  have d: "file_name_ok d" "d \<noteq> circ_id_name" "length (PluginsDirectory e) + length n + length d + 3 < PATH_MAX"
    using assms(4) ds by simp_all
  have "node_at (files nd) (base @ [dot # n, d]) \<noteq> Some Dir"
    using can_receive_free [OF assms(1) d(2)] by simp
  from data_cell_outcome(2) [OF aw file_name_ok_no_zero [OF d(1)] d(3) p short awaited_file_path [OF aw d(1)] this assms(2)]
  show ?thesis
    by (simp add: pss command_process_plugin_cell_def)
qed

text \<open>The names whose files \<open>send_plugin\<close> sends, in its order, and the contents of a file.\<close>

abbreviation sent_names :: "env \<Rightarrow> node \<Rightarrow> u8 list list \<Rightarrow> u8 list \<Rightarrow> u8 list list" where
  "sent_names es s bs n \<equiv>
     filter (\<lambda>d. \<not> (d \<noteq> [] \<and> hd d = dot)) (dir_order es ([dot] # [dot, dot] # entries_of (files s) (bs @ [n])))"

abbreviation sent_content :: "node \<Rightarrow> u8 list list \<Rightarrow> u8 list \<Rightarrow> u8 list \<Rightarrow> u8 list" where
  "sent_content s bs n d \<equiv> content_of (the (node_at (files s) (bs @ [n, d])))"

lemma sent_name_facts:
  assumes "can_send es bs n cid cs i s" and "\<And>xs. mset (dir_order es xs) = mset xs" and "d \<in> set (sent_names es s bs n)"
  shows "d \<in> set (shared_files (files s) (bs @ [n]))" "file_name_ok d" "d \<noteq> circ_id_name" "node_at (files s) (bs @ [n, d]) \<noteq> None"
proof -
  have fs: "fs_ok (files s)"
    using assms(1) [unfolded can_send_def] by blast
  show d: "d \<in> set (shared_files (files s) (bs @ [n]))"
    using assms(3) sent_entries(2) [OF fs assms(2)] by blast
  then show "file_name_ok d" "d \<noteq> circ_id_name" "node_at (files s) (bs @ [n, d]) \<noteq> None"
    using entries_of_ok(2) [OF fs, of d "bs @ [n]"] entries_of_ok(3) [OF fs, of "bs @ [n]" d]
    by (auto simp: shared_files_def circ_id_name_def dot_def)
qed

lemma sent_chunks:
  assumes "can_send es bs n cid cs i s" and "\<And>xs. mset (dir_order es xs) = mset xs"
    and "list_all2 (\<lambda>d ps. plugin_file_payloads (files s) (PluginsDirectory es @ slash # n) n d = Inr ps) (sent_names es s bs n) pss"
  shows "list_all2 (\<lambda>d ps. ps \<noteq> [] \<and> length n + length d < 500 \<and>
      list_all (chunk_ok (5 + length n + length d) (put_le32 (of_nat (length n + length d + 1)) @ n @ slash # d)) ps \<and>
      concat (map (chunk_of (5 + length n + length d)) ps) = sent_content s bs n d) (sent_names es s bs n) pss"
  using assms(3)
proof (rule list.rel_mono_strong)
  fix d ps
  assume d: "d \<in> set (sent_names es s bs n)" and ps: "plugin_file_payloads (files s) (PluginsDirectory es @ slash # n) n d = Inr ps"
  note s = assms(1) [unfolded can_send_def]
  note facts = sent_name_facts [OF assms(1,2) d]
  obtain nod where nod: "node_at (files s) ((bs @ [n]) @ [d]) = Some nod"
    using facts(4) by auto
  have dir: "path_of (files s) (PluginsDirectory es @ slash # n) = Some (bs @ [n])"
    using s by (intro path_of_in_dir) simp_all
  have "node_at (files s) (bs @ [n]) = Some Dir"
    using s by blast
  from plugin_file_payloads_ok [OF dir this facts(2) nod ps] nod
  show "ps \<noteq> [] \<and> length n + length d < 500 \<and>
    list_all (chunk_ok (5 + length n + length d) (put_le32 (of_nat (length n + length d + 1)) @ n @ slash # d)) ps \<and>
    concat (map (chunk_of (5 + length n + length d)) ps) = sent_content s bs n d"
    by (simp add: content_of_def Let_def add.assoc)
qed

lemma sent_cells_arrive:
  assumes "can_send es bs n cid cs i s" and "\<And>xs. mset (dir_order es xs) = mset xs" and "can_receive er br n cid cr r"
    and "list_all (\<lambda>d. length (PluginsDirectory er) + length n + length d + 3 < PATH_MAX) (shared_files (files s) (bs @ [n]))"
    and "list_all2 (\<lambda>d ps. plugin_file_payloads (files s) (PluginsDirectory es @ slash # n) n d = Inr ps) (sent_names es s bs n) pss"
    and "cells = map (data_cell cid) (concat pss) @
      [\<lparr>command = CELL_PLUGIN_TRANSFERRED, circ_id = cid, payload = take CELL_PAYLOAD_SIZE (zero_block n)\<rparr>]"
  shows "stream_reused er \<or> shared_files (files s) (bs @ [n]) = [] \<Longrightarrow>
      \<exists>r'. deliver er cr cells r = Inr r' \<and> plugin_arrived (files s) bs (files r') br n \<and> circuits_resumed n r r'"
    and "\<not> stream_reused er \<Longrightarrow> shared_files (files s) (bs @ [n]) \<noteq> [] \<Longrightarrow> deliver er cr cells r = Inl Closed_Stream"
proof -
  have fs: "fs_ok (files s)" and short: "length n < 500"
    using assms(1) [unfolded can_send_def] by blast+
  have shared: "set (sent_names es s bs n) = set (shared_files (files s) (bs @ [n]))"
    by (rule sent_entries(2) [OF fs assms(2)])
  have none: "sent_names es s bs n = [] \<longleftrightarrow> shared_files (files s) (bs @ [n]) = []"
    using arg_cong [OF shared, of "\<lambda>A. A = {}"] by (simp only: set_empty)
  note facts = sent_name_facts [OF assms(1,2)]
  have names: "\<forall>d \<in> set (sent_names es s bs n). file_name_ok d \<and> d \<noteq> circ_id_name \<and>
      length (PluginsDirectory er) + length n + length d + 3 < PATH_MAX"
    using facts(1-3) assms(4) by (auto simp: list_all_iff)
  note chunks = sent_chunks [OF assms(1,2,5)]
  show "deliver er cr cells r = Inl Closed_Stream" if "\<not> stream_reused er" "shared_files (files s) (bs @ [n]) \<noteq> []"
  proof -
    have "sent_names es s bs n \<noteq> []"
      using none that(2) by blast
    then show ?thesis
      unfolding assms(6) by (rule deliver_stops [OF assms(3) that(1) _ names chunks])
  qed
  show "\<exists>r'. deliver er cr cells r = Inr r' \<and> plugin_arrived (files s) bs (files r') br n \<and> circuits_resumed n r r'"
    if reused: "stream_reused er \<or> shared_files (files s) (bs @ [n]) = []"
  proof -
    have "stream_reused er" if "sent_names es s bs n \<noteq> []"
      using none reused that by blast
    from deliver_plugin [OF assms(3) short sent_entries(1) [OF fs assms(2)] names chunks this]
    obtain r' where r': "deliver er cr cells r = Inr r'"
      "\<forall>d \<in> set (sent_names es s bs n). node_at (files r') (br @ [n, d]) = Some (File (sent_content s bs n d))" "circuits_resumed n r r'"
      unfolding assms(6) by blast
    have "plugin_arrived (files s) bs (files r') br n"
      using r'(2) facts(4) unfolding shared by (fastforce simp: plugin_arrived_def list_all_iff)
    with r' show ?thesis
      by blast
  qed
qed

text \<open>
  C5. How a plugin travels. When the sender has the plugin on disk with file names short enough for a cell,
  \<open>send_plugin\<close> returns. Unless the queue of the circuit overflowed, it has queued cells that, delivered in order
  to a peer that waits for the plugin, have one of two outcomes. The receiver writes the data of a file to a stream that
  it has closed just before, instead of the one it has opened. Where the C library has given the new stream the place of
  the closed one, or when the plugin has no files, every file arrives in the peer's plugin directory under the
  plugin's name with the same contents, and every circuit of the peer that waited for this plugin alone is
  continued. Otherwise the first data cell ends in the use of the closed stream.
\<close>

theorem transfer_delivers:
  assumes "can_send es bs n cid cs i s" and "\<And>xs. mset (dir_order es xs) = mset xs" and "can_receive er br n cid cr r"
    and "list_all (\<lambda>d. length (PluginsDirectory er) + length n + length d + 3 < PATH_MAX) (shared_files (files s) (bs @ [n]))"
  shows "\<exists>s'. send_plugin es s n (zero_block n) cid cs CELL_PLUGIN_TRANSFER = Inr s' \<and>
    (x_marked (circs s' ! i) \<or>
     (\<exists>cells. sent (direction_to s i cs) (circs s' ! i) = sent (direction_to s i cs) (circs s ! i) @ cells \<and>
       (if stream_reused er \<or> shared_files (files s) (bs @ [n]) = []
        then \<exists>r'. deliver er cr cells r = Inr r' \<and> plugin_arrived (files s) bs (files r') br n \<and> circuits_resumed n r r'
        else deliver er cr cells r = Inl Closed_Stream)))"
proof -
  note s = assms(1) [unfolded can_send_def]
  obtain s' where s': "send_plugin es s n (zero_block n) cid cs CELL_PLUGIN_TRANSFER = Inr s'"
    using send_plugin_returns [OF assms(1,2)] by blast
  have "\<exists>cells. sent (direction_to s i cs) (circs s' ! i) = sent (direction_to s i cs) (circs s ! i) @ cells \<and>
       (if stream_reused er \<or> shared_files (files s) (bs @ [n]) = []
        then \<exists>r'. deliver er cr cells r = Inr r' \<and> plugin_arrived (files s) bs (files r') br n \<and> circuits_resumed n r r'
        else deliver er cr cells r = Inl Closed_Stream)"
    if "\<not> x_marked (circs s' ! i)"
  proof -
    define cells where "cells pss = map (data_cell cid) (concat pss) @
        [\<lparr>command = CELL_PLUGIN_TRANSFERRED, circ_id = cid, payload = take CELL_PAYLOAD_SIZE (zero_block n)\<rparr>]" for pss
    from send_plugin_sent [OF s' _ that, of bs] s obtain pss where
      pss: "list_all2 (\<lambda>d ps. plugin_file_payloads (files s) (PluginsDirectory es @ slash # n) n d = Inr ps) (sent_names es s bs n) pss"
      "sent (direction_to s i cs) (circs s' ! i) = sent (direction_to s i cs) (circs s ! i) @ cells pss"
      unfolding cells_def by auto
    note arrive = sent_cells_arrive [OF assms pss(1) cells_def]
    have "if stream_reused er \<or> shared_files (files s) (bs @ [n]) = []
        then \<exists>r'. deliver er cr (cells pss) r = Inr r' \<and> plugin_arrived (files s) bs (files r') br n \<and> circuits_resumed n r r'
        else deliver er cr (cells pss) r = Inl Closed_Stream"
      using arrive by presburger
    with pss(2) show ?thesis
      by blast
  qed
  with s' show ?thesis
    by blast
qed

definition peer_env :: env where
  "peer_env = \<lparr>PluginsDirectory = [47, 112], stream_reused = True, junk = (\<lambda>_. []), dir_order = id, max_cells = 100\<rparr>"

definition peer_circ :: xcirc where
  "peer_circ = \<lparr>x_origin = False, x_marked = False, x_n_chan = None, x_p_chan = Some 7, x_p_circ_id = 5,
     missing_plugins = Some [[97]], mandatory_plugins = None, n_chan_cells = [], p_chan_cells = []\<rparr>"

definition peer :: "fs \<Rightarrow> node" where
  "peer f = \<lparr>files = f, circs = [peer_circ], chan_circid_map = (\<lambda>c ch. if c = 5 \<and> ch = 7 then Some 0 else None), resumed = []\<rparr>"

definition sender_files :: fs where
  "sender_files = [([[112]], Dir), ([[112], [97]], Dir), ([[112], [97], [102]], File [1, 2, 3])]"

definition receiver_files :: fs where
  "receiver_files = [([[112]], Dir), ([[112], [46, 97]], Dir),
     ([[112], [46, 97], circ_id_name], File [53, 0, 0, 0, 0, 0, 0, 0, 0, 0, 0])]"

lemma peers_ready: "can_send peer_env [[112]] [97] 5 7 0 (peer sender_files)"
  "can_receive peer_env [[112]] [97] 5 7 (peer receiver_files)"
  "list_all (\<lambda>d. length (PluginsDirectory peer_env) + length ([97] :: name) + length d + 3 < PATH_MAX)
    (shared_files (files (peer sender_files)) ([[112]] @ [[97]]))"
  by code_simp+

theorem transfer_delivers_witness:
  "\<exists>s'. send_plugin peer_env (peer sender_files) [97] (zero_block [97]) 5 7 CELL_PLUGIN_TRANSFER = Inr s' \<and>
    (x_marked (circs s' ! 0) \<or>
     (\<exists>cells. sent (direction_to (peer sender_files) 0 7) (circs s' ! 0) =
         sent (direction_to (peer sender_files) 0 7) (circs (peer sender_files) ! 0) @ cells \<and>
       (\<exists>r'. deliver peer_env 7 cells (peer receiver_files) = Inr r' \<and>
         plugin_arrived (files (peer sender_files)) [[112]] (files r') [[112]] [97] \<and>
         circuits_resumed [97] (peer receiver_files) r')))"
proof -
  have "\<And>xs. mset (dir_order peer_env xs) = mset xs"
    by (simp add: peer_env_def)
  from transfer_delivers [OF peers_ready(1) this peers_ready(2,3)] show ?thesis
    by (simp add: peer_env_def)
qed

end
