(* ===== verification/Plugin_Offer.thy ===== *)
theory Plugin_Offer
  imports Plugin_Transfer
begin

text \<open>
  The offer in a CREATE cell (\<open>handle_plugin_offer_in_create_cell\<close> of \<^verbatim>\<open>src/core/or/plugin_exchange.c\<close>): which
  plugins a circuit has to wait for, which are requested, and what can go wrong in the exchange.
\<close>

section \<open>Directories\<close>

text \<open>Paths occur once, their names can be file names, and what holds a name is a directory.\<close>

definition fs_tree :: "fs \<Rightarrow> bool" where
  "fs_tree f \<longleftrightarrow> fs_ok f \<and> list_all (\<lambda>(p, nod). p \<noteq> [] \<and> node_at f (butlast p) = Some Dir) f"

lemma fs_tree_up:
  assumes "fs_tree f" and "node_at f (p @ [d]) \<noteq> None"
  shows "node_at f p = Some Dir"
proof -
  obtain nod where "(p @ [d], nod) \<in> set f"
    using assms(2) by (auto simp: node_at_def dest: map_of_SomeD)
  then show ?thesis
    using assms(1) by (force simp: fs_tree_def list_all_iff)
qed

lemma fs_tree_under:
  assumes "fs_tree f" and "node_at f p = None" and "under p q"
  shows "node_at f q = None"
proof -
  have "node_at f (p @ r) = None" for r
  proof (induction r rule: rev_induct)
    case (snoc d r)
    then show ?case
      using fs_tree_up [OF assms(1), of "p @ r" d] by (cases "node_at f (p @ r @ [d])") auto
  qed (simp add: assms(2))
  moreover have "q = p @ drop (length p) q"
    using assms(3) by (metis under_def append_take_drop_id)
  ultimately show ?thesis
    by metis
qed

lemma fs_tree_snoc:
  assumes "fs_tree f" and "node_at f (p @ [d]) = None" and "node_at f p = Some Dir" and "file_name_ok d"
    and "list_all file_name_ok p"
  shows "fs_tree (f @ [(p @ [d], nod)])"
proof -
  have at: "node_at (f @ [(p @ [d], nod)]) q = (if q = p @ [d] then Some nod else node_at f q)" for q
    by (rule node_at_snoc [OF assms(2)])
  have "p @ [d] \<notin> fst ` set f"
    using assms(2) by (simp add: node_at_def map_of_eq_None_iff)
  moreover have "butlast r \<noteq> p @ [d] \<and> node_at f (butlast r) = Some Dir" if "(r, n) \<in> set f" for r n
    using assms(1,2) that by (auto simp: fs_tree_def list_all_iff)
  ultimately show ?thesis
    using assms by (auto simp: fs_tree_def fs_ok_def list_all_iff at)
qed

lemma fs_tree_append_to:
  assumes "fs_tree f" and "node_at f p = Some (File c)"
  shows "fs_tree (append_to p bs f)"
proof -
  have "map fst (append_to p bs f) = map fst f"
    by (simp add: append_to_def comp_def case_prod_unfold)
  moreover have "node_at (append_to p bs f) q = Some Dir \<longleftrightarrow> node_at f q = Some Dir" for q
    using assms(2) by (auto simp: node_at_append_to)
  moreover have "list_all (\<lambda>(p, nod). P p) g \<longleftrightarrow> list_all P (map fst g)" for P and g :: fs
    by (auto simp: list_all_iff)
  ultimately show ?thesis
    using assms(1) unfolding fs_tree_def fs_ok_def by simp
qed

section \<open>Looking for a name\<close>

lemma look_up_eq:
  "look_up n ds = (n \<in> set ds \<or> dot # n \<in> set ds, count_list ds (dot # n))"
  by (induction ds) (auto simp: Let_def split: prod.splits)

lemma count_list_distinct: "distinct xs \<Longrightarrow> count_list xs x = (if x \<in> set xs then 1 else 0)"
  by (induction xs) auto

definition offer_name :: "name \<Rightarrow> bool" where
  "offer_name n \<longleftrightarrow> file_name_ok n \<and> hd n \<noteq> dot"

lemma look_up_dir:
  assumes "fs_tree f" and "\<And>xs. mset (order xs) = mset xs" and "offer_name n" and "base \<noteq> []"
  shows "look_up n (order ([dot] # [dot, dot] # entries_of f base)) =
    (node_at f (base @ [n]) \<noteq> None \<or> node_at f (base @ [dot # n]) \<noteq> None, if node_at f (base @ [dot # n]) \<noteq> None then 1 else 0)"
proof -
  let ?xs = "[dot] # [dot, dot] # entries_of f base"
  have ok: "fs_ok f"
    using assms(1) by (simp add: fs_tree_def)
  have "[dot] \<notin> set (entries_of f base)" "[dot, dot] \<notin> set (entries_of f base)"
    using entries_of_ok(2) [OF ok] by (auto simp: file_name_ok_def)
  then have "distinct ?xs"
    using entries_of_ok(1) [OF ok] by simp
  then have dist: "distinct (order ?xs)"
    using mset_eq_imp_distinct_iff [OF assms(2), of ?xs] by simp
  have same: "set (order ?xs) = set ?xs"
    by (rule mset_eq_setD [OF assms(2)])
  have n: "n \<noteq> [dot]" "n \<noteq> [dot, dot]" "dot # n \<noteq> [dot]" "dot # n \<noteq> [dot, dot]"
    using assms(3) by (auto simp: offer_name_def file_name_ok_def)
  have "d \<in> set ?xs \<longleftrightarrow> node_at f (base @ [d]) \<noteq> None" if "d \<noteq> [dot]" "d \<noteq> [dot, dot]" for d
    using that entries_of_ok(3) [OF ok assms(4), of d] by simp
  then show ?thesis
    using n unfolding look_up_eq count_list_distinct [OF dist] same by simp
qed

section \<open>Checking an offer\<close>

text \<open>The node keeps plugins in the directory \<open>base\<close>.\<close>

definition keeps_plugins :: "env \<Rightarrow> path \<Rightarrow> fs \<Rightarrow> bool" where
  "keeps_plugins e base f \<longleftrightarrow> fs_tree f \<and> path_of f (PluginsDirectory e) = Some base \<and> node_at f base = Some Dir \<and>
     base \<noteq> [] \<and> list_all file_name_ok base"

lemma offer_dir_created:
  assumes "keeps_plugins e base (files nd)" and "offer_name n" and "length (PluginsDirectory e) + length n + 12 < PATH_MAX"
    and "node_at (files nd) (base @ [dot # n]) = None"
  shows "\<exists>f. create_plugin_dir e nd (PluginsDirectory e @ hidden @ n) (PluginsDirectory e @ hidden @ n @ slash # circ_id_name) cid
      = Inr (nd\<lparr>files := f\<rparr>) \<and> keeps_plugins e base f \<and>
    (\<forall>q. node_at f q = (if q = base @ [dot # n] then Some Dir
       else if q = base @ [dot # n, circ_id_name] then Some (File (circ_id_text e cid)) else node_at (files nd) q))"
proof -
  note k = assms(1) [unfolded keeps_plugins_def]
  have ok: "file_name_ok n" "file_name_ok (dot # n)" "file_name_ok circ_id_name"
    using assms(2) hidden_ok by (auto simp: offer_name_def)
  let ?d = "base @ [dot # n]" and ?c = "base @ [dot # n, circ_id_name]"
  let ?f1 = "files nd @ [(?d, Dir)]" and ?f2 = "(files nd @ [(?d, Dir)]) @ [(?c, File [])]"
  have free: "node_at (files nd) ?c = None"
    using fs_tree_under [OF _ assms(4)] k by (simp add: under_def)
  have at1: "node_at ?f1 q = (if q = ?d then Some Dir else node_at (files nd) q)" for q
    by (rule node_at_snoc [OF assms(4)])
  have free1: "node_at ?f1 ?c = None"
    using free by (simp add: at1)
  have at2: "node_at ?f2 q = (if q = ?c then Some (File []) else node_at ?f1 q)" for q
    by (rule node_at_snoc [OF free1])
  have t1: "fs_tree ?f1"
    using k assms(4) ok(2) by (intro fs_tree_snoc) simp_all
  have "fs_tree (?f1 @ [((base @ [dot # n]) @ [circ_id_name], File [])])"
    using k ok free1 by (intro fs_tree_snoc [OF t1]) (simp_all add: at1)
  then have t2: "fs_tree ?f2"
    by simp
  let ?f = "append_to ?c (circ_id_text e cid) ?f2"
  have at: "node_at ?f q = (if q = ?d then Some Dir else if q = ?c then Some (File (circ_id_text e cid)) else node_at (files nd) q)" for q
    unfolding node_at_append_to at2 at1 by simp
  have path1: "path_of ?f1 (PluginsDirectory e) = Some base"
    using path_of_cong [of "files nd" ?f1] k by (simp add: at1)
  have "path_of ?f1 (PluginsDirectory e @ hidden @ n @ slash # circ_id_name) = Some ?c"
    using path1 k ok at1 by (intro hidden_file_path) simp_all
  moreover have "mkdir (PluginsDirectory e @ hidden @ n) (files nd) = ?f1"
    using hidden_dir_path [of "files nd" "PluginsDirectory e" base n] k ok assms(4) by (simp add: mkdir_def)
  ultimately have "create_plugin_dir e nd (PluginsDirectory e @ hidden @ n) (PluginsDirectory e @ hidden @ n @ slash # circ_id_name) cid
      = Inr (nd\<lparr>files := ?f\<rparr>)"
    using free1 by (simp add: create_plugin_dir_def fopen_append_def)
  moreover have "keeps_plugins e base ?f"
  proof -
    have dirs: "node_at ?f q = Some Dir" if "node_at (files nd) q = Some Dir" for q
      using that free unfolding at by auto
    have "fs_tree ?f"
      using at2 by (intro fs_tree_append_to [OF t2, of _ "[]"]) simp
    then show ?thesis
      using dirs path_of_cong [OF dirs] k unfolding keeps_plugins_def by blast
  qed
  ultimately show ?thesis
    using at by blast
qed

text \<open>The names of an offer that the circuit waits for, and those that are requested.\<close>

definition waited_for :: "fs \<Rightarrow> path \<Rightarrow> name list \<Rightarrow> name list" where
  "waited_for f base ns = filter (\<lambda>n. node_at f (base @ [n]) = None \<or> node_at f (base @ [dot # n]) \<noteq> None) ns"

definition unknown_names :: "fs \<Rightarrow> path \<Rightarrow> name list \<Rightarrow> name set" where
  "unknown_names f base ns = {n \<in> set ns. node_at f (base @ [n]) = None \<and> node_at f (base @ [dot # n]) = None}"

lemma update_missing_same:
  assumes "missing_plugins (circs nd ! i) = Some ms"
  shows "update_circ i (\<lambda>c. c\<lparr>missing_plugins := Some ms\<rparr>) nd = nd"
proof -
  have "(circs nd ! i)\<lparr>missing_plugins := Some ms\<rparr> = circs nd ! i"
    using assms by (cases "circs nd ! i") simp
  then show ?thesis
    by (simp add: update_circ_def)
qed

lemma check_offer_ok:
  assumes "keeps_plugins e base (files nd)" and "\<And>xs. mset (dir_order e xs) = mset xs"
    and "list_all (\<lambda>n. offer_name n \<and> length (PluginsDirectory e) + length n + 12 < PATH_MAX) ns"
    and "i < length (circs nd)" and "missing_plugins (circs nd ! i) = Some ms"
  shows "\<exists>f req. check_offer e i ns to_request nd =
      Inr (update_circ i (\<lambda>c. c\<lparr>missing_plugins := Some (ms @ waited_for (files nd) base ns)\<rparr>) (nd\<lparr>files := f\<rparr>), to_request @ req) \<and>
    keeps_plugins e base f \<and> distinct req \<and> set req = unknown_names (files nd) base ns \<and>
    (\<forall>n. offer_name n \<longrightarrow> node_at f (base @ [n]) = node_at (files nd) (base @ [n]))"
  using assms
proof (induction ns arbitrary: nd to_request ms)
  case Nil
  then show ?case
    by (intro exI [of _ "files nd"] exI [of _ "[]"]) (simp add: waited_for_def unknown_names_def update_missing_same)
next
  case (Cons n ns)
  note k = Cons.prems(1) [unfolded keeps_plugins_def]
  have n: "offer_name n" "length (PluginsDirectory e) + length n + 12 < PATH_MAX"
    using Cons.prems(3) by simp_all
  let ?ds = "dir_order e ([dot] # [dot, dot] # entries_of (files nd) base)"
  let ?here = "node_at (files nd) (base @ [n])" and ?hid = "node_at (files nd) (base @ [dot # n])"
  have dir: "list_directory (dir_order e) (PluginsDirectory e) (files nd) = Some ?ds"
    using k by (simp add: list_directory_def)
  have look: "look_up n ?ds = (?here \<noteq> None \<or> ?hid \<noteq> None, if ?hid \<noteq> None then 1 else 0)"
    using k n(1) by (intro look_up_dir Cons.prems(2)) simp_all
  have bufs: "path_buf (dot # n) = Inr (dot # n)" "hidden_path e n = Inr (PluginsDirectory e @ hidden @ n)"
    "path_buf (PluginsDirectory e @ hidden @ n @ slash # circ_id_name) = Inr (PluginsDirectory e @ hidden @ n @ slash # circ_id_name)"
    using n(2) by (simp_all add: path_buf_def hidden_path_def hidden_def circ_id_name_def)
  define ws where "ws = waited_for (files nd) base [n]"
  define nd1 where "nd1 = add_missing i ws nd"
  have nd1: "files nd1 = files nd" "length (circs nd1) = length (circs nd)" "missing_plugins (circs nd1 ! i) = Some (ms @ ws)"
    "update_circ i (\<lambda>c. c\<lparr>missing_plugins := m\<rparr>) (nd1\<lparr>files := f\<rparr>) = update_circ i (\<lambda>c. c\<lparr>missing_plugins := m\<rparr>) (nd\<lparr>files := f\<rparr>)" for m f
    using Cons.prems(4,5) by (simp_all add: nd1_def add_missing_def update_circ_def)
  have rest: "list_all (\<lambda>n. offer_name n \<and> length (PluginsDirectory e) + length n + 12 < PATH_MAX) ns"
    using Cons.prems(3) by simp
  show ?case
  proof (cases "?here \<noteq> None \<or> ?hid \<noteq> None")
    case True
    then have "ws = replicate (if ?hid \<noteq> None then 1 else 0) n"
      by (auto simp: ws_def waited_for_def)
    then have step: "check_offer e i (n # ns) to_request nd = check_offer e i ns to_request nd1"
      using True dir look bufs by (simp add: nd1_def)
    have "ws @ waited_for (files nd) base ns = waited_for (files nd) base (n # ns)"
      by (simp add: ws_def waited_for_def)
    moreover have "unknown_names (files nd) base (n # ns) = unknown_names (files nd) base ns"
      using True by (auto simp: unknown_names_def)
    ultimately show ?thesis
      using Cons.IH [of nd1 "ms @ ws" to_request] Cons.prems(1,2,4) rest nd1 unfolding step by simp
  next
    case False
    then have ws: "ws = [n]"
      by (simp add: ws_def waited_for_def)
    from offer_dir_created [OF _ n, of base nd1 "x_p_circ_id (circs nd ! i)"] Cons.prems(1) False nd1(1) obtain g where g:
      "create_plugin_dir e nd1 (PluginsDirectory e @ hidden @ n) (PluginsDirectory e @ hidden @ n @ slash # circ_id_name)
        (x_p_circ_id (circs nd ! i)) = Inr (nd1\<lparr>files := g\<rparr>)" "keeps_plugins e base g"
      "\<And>q. node_at g q = (if q = base @ [dot # n] then Some Dir else if q = base @ [dot # n, circ_id_name]
        then Some (File (circ_id_text e (x_p_circ_id (circs nd ! i)))) else node_at (files nd) q)"
      by auto
    have "add_missing i [n] (add_missing i (replicate 0 n) nd) = nd1"
      using Cons.prems(4,5) by (simp add: nd1_def ws add_missing_def update_circ_def)
    then have step: "check_offer e i (n # ns) to_request nd = check_offer e i ns (to_request @ [n]) (nd1\<lparr>files := g\<rparr>)"
      using False dir look bufs g(1) by simp
    have same: "node_at g (base @ [m]) = node_at (files nd) (base @ [m])" if "offer_name m" for m
      using that g(3) by (auto simp: offer_name_def)
    have hid: "node_at g (base @ [dot # m]) = (if m = n then Some Dir else node_at (files nd) (base @ [dot # m]))" for m
      using g(3) by auto
    have w: "waited_for g base ns = waited_for (files nd) base ns"
      using rest False same hid unfolding waited_for_def by (intro filter_cong) (auto simp: list_all_iff)
    have u: "unknown_names g base ns = unknown_names (files nd) base ns - {n}"
      using rest same hid unfolding unknown_names_def by (auto simp: list_all_iff)
    have un: "unknown_names (files nd) base (n # ns) = insert n (unknown_names (files nd) base ns)"
      using False by (auto simp: unknown_names_def)
    have "missing_plugins (circs (nd1\<lparr>files := g\<rparr>) ! i) = Some (ms @ [n])"
      using nd1(3) ws by simp
    from Cons.IH [OF _ Cons.prems(2) rest _ this, of "to_request @ [n]"] g(2) nd1 Cons.prems(4) obtain f req where f:
      "check_offer e i ns (to_request @ [n]) (nd1\<lparr>files := g\<rparr>) =
        Inr (update_circ i (\<lambda>c. c\<lparr>missing_plugins := Some ((ms @ [n]) @ waited_for g base ns)\<rparr>) (nd\<lparr>files := f\<rparr>), (to_request @ [n]) @ req)"
      "keeps_plugins e base f" "distinct req" "set req = unknown_names g base ns"
      "\<forall>n. offer_name n \<longrightarrow> node_at f (base @ [n]) = node_at g (base @ [n])"
      by auto
    have "waited_for (files nd) base (n # ns) = n # waited_for (files nd) base ns"
      using False by (simp add: waited_for_def)
    then show ?thesis
      using f w u un same unfolding step by (intro exI [of _ f] exI [of _ "n # req"]) auto
  qed
qed

lemma scan_names_clean:
  "scan_names cur bs = Inr ns \<Longrightarrow> nl \<notin> set cur \<Longrightarrow> 0 \<notin> set cur \<Longrightarrow> n \<in> set ns \<Longrightarrow> nl \<notin> set n \<and> 0 \<notin> set n \<and> length n < PATH_MAX"
  by (induction cur bs arbitrary: ns rule: scan_names.induct) (auto simp: and_then_Inr split: if_splits)

section \<open>Properties\<close>

lemma request_written:
  assumes "smart_list_plugins_in_payload offer = Inr ns" and "list_all offer_name ns" and "list_all (\<lambda>n. length n < PATH_MAX) ns"
    and "set req \<subseteq> set ns"
  obtains p len where "smart_list_to_payload req (replicate CELL_PAYLOAD_SIZE 0) CELL_PAYLOAD_SIZE = Inr (p, len)"
    "smart_list_plugins_in_payload p = Inr (fitting CELL_PAYLOAD_SIZE req)"
proof -
  have "\<forall>n \<in> set req. plain_name n \<and> length n < PATH_MAX"
    using assms scan_names_clean [of "[]" offer ns]
    by (auto simp: smart_list_plugins_in_payload_def list_all_iff plain_name_def offer_name_def file_name_ok_def)
  from names_sent_and_read [OF _ _ this, of "replicate CELL_PAYLOAD_SIZE 0" CELL_PAYLOAD_SIZE] that show ?thesis
    by (auto simp: CELL_PAYLOAD_SIZE_def)
qed

lemma request_queued:
  assumes "i < length (circs nd)" and "\<not> (d = CELL_DIRECTION_IN \<and> x_origin (circs nd ! i))"
  obtains nd' where "append_cell_to_circuit_queue e nd (Some i) cell d = Inr nd'"
    "missing_plugins (circs nd' ! i) = missing_plugins (circs nd ! i)"
    "x_marked (circs nd' ! i) \<or> sent d (circs nd' ! i) = sent d (circs nd ! i) @ [cell]"
proof -
  obtain nd' where nd': "append_cell_to_circuit_queue e nd (Some i) cell d = Inr nd'"
    using append_cell_returns [of d nd i e cell] assms by auto
  moreover have "missing_plugins (circs nd' ! i) = missing_plugins (circs nd ! i)"
    using nd' assms(1) by (auto simp: append_cell_to_circuit_queue_def Let_def update_circ_def split: if_splits)
  moreover have "x_marked (circs nd' ! i) \<or> sent d (circs nd' ! i) = sent d (circs nd ! i) @ [cell]"
    using append_cell_sent [OF nd'] assms(1) by auto
  ultimately show ?thesis
    by (rule that)
qed

text \<open>
  C11. An offer is answered completely. For an offer of proper names \<open>handle_plugin_offer_in_create_cell\<close> returns;
  the circuit then waits for exactly the offered plugins that are not on disk or still under way, the number
  returned is how many these are, and the plugins that are neither on disk nor under way are requested,
  each once: unless the circuit was closed because its queue is full, one PLUGIN_REQUEST cell is queued in
  which the peer reads those names that fit into it.
\<close>

theorem offer_answered:
  assumes "keeps_plugins e base (files nd)" and "\<And>xs. mset (dir_order e xs) = mset xs"
    and "smart_list_plugins_in_payload offer = Inr ns" and "offer \<noteq> []" and "hd offer \<noteq> 0"
    and "list_all (\<lambda>n. offer_name n \<and> length (PluginsDirectory e) + length n + 12 < PATH_MAX) ns"
    and "i < length (circs nd)" and "\<not> (direction_to nd i chan = CELL_DIRECTION_IN \<and> x_origin (circs nd ! i))"
  shows "\<exists>nd' req. handle_plugin_offer_in_create_cell e nd offer i chan = Inr (nd', length (waited_for (files nd) base ns)) \<and>
    missing_plugins (circs nd' ! i) = Some (waited_for (files nd) base ns) \<and>
    distinct req \<and> set req = unknown_names (files nd) base ns \<and>
    (req = [] \<or> x_marked (circs nd' ! i) \<or>
     (\<exists>p. sent (direction_to nd i chan) (circs nd' ! i) = sent (direction_to nd i chan) (circs nd ! i) @
         [\<lparr>command = CELL_PLUGIN_REQUEST, circ_id = x_p_circ_id (circs nd ! i), payload = p\<rparr>] \<and>
       smart_list_plugins_in_payload p = Inr (fitting CELL_PAYLOAD_SIZE req)))"
proof -
  let ?nd = "update_circ i (\<lambda>c. c\<lparr>missing_plugins := Some []\<rparr>) nd"
  let ?d = "direction_to nd i chan" and ?w = "waited_for (files nd) base ns"
  obtain b bs where offer: "offer = b # bs" "b \<noteq> 0"
    using assms(4,5) by (cases offer) auto
  have pre: "keeps_plugins e base (files ?nd)" "i < length (circs ?nd)" "missing_plugins (circs ?nd ! i) = Some []"
    "files ?nd = files nd"
    using assms(1,7) by (simp_all add: update_circ_def)
  from check_offer_ok [OF pre(1) assms(2,6) pre(2,3), of "[]"] obtain f req where f:
    "check_offer e i ns [] ?nd = Inr (update_circ i (\<lambda>c. c\<lparr>missing_plugins := Some ?w\<rparr>) (?nd\<lparr>files := f\<rparr>), req)"
    "distinct req" "set req = unknown_names (files nd) base ns"
    unfolding pre(4) by auto
  define nd1 where "nd1 = update_circ i (\<lambda>c. c\<lparr>missing_plugins := Some ?w\<rparr>) (?nd\<lparr>files := f\<rparr>)"
  have nd1: "missing_plugins (circs nd1 ! i) = Some ?w" "length (circs nd1) = length (circs nd)" "direction_to nd1 i chan = ?d"
    "sent ?d (circs nd1 ! i) = sent ?d (circs nd ! i)" "x_p_circ_id (circs nd1 ! i) = x_p_circ_id (circs nd ! i)"
    "x_origin (circs nd1 ! i) = x_origin (circs nd ! i)"
    using assms(7) by (simp_all add: nd1_def update_circ_def direction_to_def sent_def)
  have "set req \<subseteq> set ns"
    using f(3) by (auto simp: unknown_names_def)
  then obtain p len where p: "smart_list_to_payload req (replicate CELL_PAYLOAD_SIZE 0) CELL_PAYLOAD_SIZE = Inr (p, len)"
      "smart_list_plugins_in_payload p = Inr (fitting CELL_PAYLOAD_SIZE req)"
    by (rule request_written [OF assms(3), rotated 2]) (use assms(6) in \<open>auto simp: list_all_iff\<close>)
  let ?cell = "\<lparr>command = CELL_PLUGIN_REQUEST, circ_id = x_p_circ_id (circs nd ! i), payload = p\<rparr>"
  obtain nd2 where nd2: "append_cell_to_circuit_queue e nd1 (Some i) ?cell ?d = Inr nd2" "missing_plugins (circs nd2 ! i) = Some ?w"
    "x_marked (circs nd2 ! i) \<or> sent ?d (circs nd2 ! i) = sent ?d (circs nd ! i) @ [?cell]"
    using request_queued [of i nd1 ?d e ?cell] assms(7,8) nd1 by auto
  show ?thesis
  proof (cases "req = []")
    case True
    have "handle_plugin_offer_in_create_cell e nd offer i chan = Inr (nd1, length ?w)"
      using offer assms(3) f(1) True nd1(1) by (simp add: handle_plugin_offer_in_create_cell_def nd1_def [symmetric])
    then show ?thesis
      using True nd1(1) f(2,3) by blast
  next
    case False
    have "handle_plugin_offer_in_create_cell e nd offer i chan = Inr (nd2, length ?w)"
      using offer assms(3) f(1) False nd1 p(1) nd2(1,2) by (simp add: handle_plugin_offer_in_create_cell_def nd1_def [symmetric])
    then show ?thesis
      using nd2(2,3) f(2,3) p(2) by metis
  qed
qed

theorem offer_answered_witness:
  "\<exists>nd' req. handle_plugin_offer_in_create_cell peer_env (peer sender_files) [97, 10, 98, 0] 0 7 = Inr (nd', 1) \<and>
    missing_plugins (circs nd' ! 0) = Some [[98]] \<and> set req = {[98 :: u8]}"
proof -
  let ?nd = "peer sender_files"
  have pre: "keeps_plugins peer_env [[112]] (files ?nd)" "smart_list_plugins_in_payload [97, 10, 98, 0] = Inr [[97], [98]]"
    "[97, 10, 98, 0 :: u8] \<noteq> []" "hd [97, 10, 98, 0 :: u8] \<noteq> 0" "0 < length (circs ?nd)"
    "list_all (\<lambda>n. offer_name n \<and> length (PluginsDirectory peer_env) + length n + 12 < PATH_MAX) [[97], [98]]"
    "\<not> (direction_to ?nd 0 7 = CELL_DIRECTION_IN \<and> x_origin (circs ?nd ! 0))"
    by code_simp+
  have w: "waited_for (files ?nd) [[112]] [[97], [98]] = [[98]]"
    by code_simp
  have u: "unknown_names (files ?nd) [[112]] [[97], [98]] = {[98]}"
    by (auto simp: unknown_names_def peer_def sender_files_def node_at_def)
  have order: "\<And>xs. mset (dir_order peer_env xs) = mset xs"
    by (simp add: peer_env_def)
  have one: "length [[98 :: u8]] = 1"
    by simp
  show ?thesis
    using offer_answered [OF pre(1) order pre(2-4,6,5,7)] unfolding w u one
    by (elim exE conjE) (intro exI conjI)
qed

section \<open>What goes wrong\<close>

text \<open>A data cell as \<open>send_plugin_files\<close> builds it, for a relative file name and up to 400 bytes.\<close>

definition data_payload :: "u8 list \<Rightarrow> u8 list \<Rightarrow> u8 list" where
  "data_payload rel data =
     take CELL_PAYLOAD_SIZE (put_le32 (of_nat (length rel)) @ rel @ put_le32 (of_nat (length data)) @ data @ replicate CELL_PAYLOAD_SIZE 0)"

lemma data_payload_chunk:
  assumes "length rel + length data + 8 \<le> CELL_PAYLOAD_SIZE"
  shows "chunk_ok (4 + length rel) (put_le32 (of_nat (length rel)) @ rel) (data_payload rel data)"
    and "chunk_of (4 + length rel) (data_payload rel data) = data"
proof -
  let ?p = "data_payload rel data"
  have p: "?p = put_le32 (of_nat (length rel)) @ rel @ put_le32 (of_nat (length data)) @ data @
      replicate (CELL_PAYLOAD_SIZE - (length rel + length data + 8)) 0"
    using assms by (simp add: data_payload_def)
  have "int_at (4 + length rel) ?p = int (length data)"
    using int_at_put [of "4 + length rel" ?p "length data"] assms
    by (simp add: p put_range_def CELL_PAYLOAD_SIZE_def)
  moreover have "length ?p = CELL_PAYLOAD_SIZE"
    using assms by (simp add: p)
  ultimately show "chunk_ok (4 + length rel) (put_le32 (of_nat (length rel)) @ rel) ?p" "chunk_of (4 + length rel) ?p = data"
    using assms by (simp_all add: chunk_ok_def chunk_of_def p)
qed

text \<open>The name that leads two directories up, from the hidden directory of the plugin to beside the directory of plugins.\<close>

definition up_two :: "name \<Rightarrow> u8 list" where
  "up_two t = [dot, dot, slash, dot, dot, slash] @ t"

lemma up_two_path:
  assumes "awaiting e base n cid chan nd" and "file_name_ok t"
  shows "path_of (files nd) (PluginsDirectory e @ hidden @ n @ slash # up_two t) = Some (butlast base @ [t])"
proof -
  note aw = assms(1) [unfolded awaiting_def]
  have "path_of (files nd) (PluginsDirectory e @ hidden @ n) = Some (base @ [dot # n])"
    using aw by (intro hidden_dir_path) simp_all
  moreover have "split_path (up_two t) = [[dot, dot], [dot, dot], t]"
    using assms(2) split_path_plain [of t] by (simp add: up_two_def file_name_ok_def dot_def slash_def)
  moreover have "PluginsDirectory e @ hidden @ n @ slash # up_two t = (PluginsDirectory e @ hidden @ n) @ slash # up_two t"
    by simp
  ultimately show ?thesis
    using aw assms(2) unfolding path_of_def by (simp only: split_path_append) (simp add: walk_append file_name_ok_def)
qed

text \<open>
  C38. The file name in a transfer cell is not confined to the plugin's directory. A node that waits for a plugin and gets, on the circuit
  that it waits on, a data cell whose file name is the name of the plugin followed by \<^verbatim>\<open>/../../\<close> and any name \<open>t\<close> opens the file
  \<open>t\<close> beside its directory of plugins for appending, not one inside it: where the stream that it has closed is given out again, the data of the
  cell are appended to that file, and otherwise they are written to the closed stream.
\<close>

theorem transfer_escapes_directory:
  assumes "awaiting e base n cid chan nd" and "file_name_ok t" and "base \<noteq> []" and "node_at (files nd) (butlast base @ [t]) \<noteq> Some Dir"
    and "length (PluginsDirectory e) + length n + length t + 9 < PATH_MAX" and "length n + length t + length data + 15 < CELL_PAYLOAD_SIZE"
    and "cell = data_cell cid (data_payload (n @ slash # up_two t) data)"
  shows "\<not> under base (butlast base @ [t]) \<and>
    fopen_append (PluginsDirectory e @ hidden @ n @ slash # up_two t) (files nd) \<noteq> None \<and>
    (if stream_reused e
     then \<exists>nd'. command_process_plugin_cell e nd cell chan = Inr nd' \<and> node_at (files nd') (butlast base @ [t]) =
       Some (File ((case node_at (files nd) (butlast base @ [t]) of Some (File c) \<Rightarrow> c | _ \<Rightarrow> []) @ data))
     else command_process_plugin_cell e nd cell chan = Inl Closed_Stream)"
proof -
  let ?q = "butlast base @ [t]" and ?rel = "n @ slash # up_two t"
  have path: "path_of (files nd) (PluginsDirectory e @ hidden @ n @ slash # up_two t) = Some ?q"
    by (rule up_two_path [OF assms(1,2)])
  have outside: "\<not> under base ?q"
  proof
    assume "under base ?q"
    then have "?q = base"
      using assms(3) by (cases base rule: rev_cases) (simp_all add: under_def)
    then show False
      using assms(1,4) by (simp add: awaiting_def)
  qed
  have len: "length (up_two t) = length t + 6" "length ?rel = length n + length (up_two t) + 1"
    by (simp_all add: up_two_def)
  have zero: "0 \<notin> set (up_two t)"
    using assms(2) by (auto simp: up_two_def file_name_ok_def dot_def slash_def)
  have "length ?rel + length data + 8 \<le> CELL_PAYLOAD_SIZE"
    using assms(6) len by simp
  note chunk = data_payload_chunk [OF this]
  have eq: "4 + length ?rel = 5 + length n + length (up_two t)"
    by simp
  have ok: "chunk_ok (5 + length n + length (up_two t)) (put_le32 (of_nat (length n + length (up_two t) + 1)) @ n @ slash # up_two t)
      (data_payload ?rel data)"
    using chunk(1) unfolding eq unfolding len(2) .
  have short: "length (PluginsDirectory e) + length n + length (up_two t) + 3 < PATH_MAX" "length n + length (up_two t) < 500"
    using assms(5,6) len(1) by (simp_all add: CELL_PAYLOAD_SIZE_def)
  note outcome = data_cell_outcome [OF assms(1) zero short(1) ok short(2) path assms(4)]
  have "\<exists>nd'. command_process_plugin_cell e nd cell chan = Inr nd' \<and> node_at (files nd') ?q =
       Some (File ((case node_at (files nd) ?q of Some (File c) \<Rightarrow> c | _ \<Rightarrow> []) @ data))" if "stream_reused e"
    using outcome(1) [OF that] chunk(2) unfolding eq by (auto simp: command_process_plugin_cell_def assms(7) grows_def)
  moreover have "command_process_plugin_cell e nd cell chan = Inl Closed_Stream" if "\<not> stream_reused e"
    using outcome(2) [OF that] by (simp add: command_process_plugin_cell_def assms(7))
  moreover have "fopen_append (PluginsDirectory e @ hidden @ n @ slash # up_two t) (files nd) \<noteq> None"
    using path assms(4) by (auto simp: fopen_append_def split: option.splits inode.splits)
  ultimately show ?thesis
    using outside by presburger
qed

theorem transfer_escapes_directory_witness:
  "\<exists>nd'. command_process_plugin_cell peer_env (peer receiver_files) (data_cell 5 (data_payload ([97] @ slash # up_two [102]) [1, 2])) 7 = Inr nd' \<and>
    node_at (files nd') [[102]] = Some (File [1, 2])"
proof -
  have aw: "awaiting peer_env [[112]] [97] 5 7 (peer receiver_files)"
    using peers_ready(2) by (simp add: can_receive_def)
  have pre: "file_name_ok [102]" "[[112]] \<noteq> ([] :: path)" "node_at (files (peer receiver_files)) (butlast [[112]] @ [[102]]) \<noteq> Some Dir"
    "length (PluginsDirectory peer_env) + length ([97] :: name) + length ([102] :: name) + 9 < PATH_MAX"
    "length ([97] :: name) + length ([102] :: name) + length ([1, 2] :: u8 list) + 15 < CELL_PAYLOAD_SIZE"
    "stream_reused peer_env" "node_at (files (peer receiver_files)) [[102]] = None"
    by code_simp+
  from transfer_escapes_directory [OF aw pre(1-5) refl] pre(6,7) show ?thesis
    by simp
qed

text \<open>A cell with data of a plugin that was never asked for makes the node read a stream that is NULL.\<close>

lemma unsolicited_transfer_crashes:
  "deliver peer_env 7 [data_cell 5 (data_payload [98, 47, 102] [1, 2])] (peer receiver_files) = Inl Null_Pointer"
proof -
  have "(case deliver peer_env 7 [data_cell 5 (data_payload [98, 47, 102] [1, 2])] (peer receiver_files) of
      Inl x \<Rightarrow> x = Null_Pointer | Inr _ \<Rightarrow> False)"
    by code_simp
  then show ?thesis
    by (auto split: sum.splits)
qed

text \<open>
  A name that an offer holds twice is put on the list of missing plugins twice, and taken off once when the
  plugin has arrived: the circuit is never continued.
\<close>

lemma repeated_name_stalls:
  "\<exists>nd nd'. handle_plugin_offer_in_create_cell peer_env (peer [([[112]], Dir)]) [98, 10, 98, 0] 0 7 = Inr (nd, 2) \<and>
    deliver peer_env 7 [\<lparr>command = CELL_PLUGIN_TRANSFERRED, circ_id = 5, payload = zero_block [98]\<rparr>] nd = Inr nd' \<and>
    missing_plugins (circs nd' ! 0) = Some [[98]] \<and> resumed nd' = []"
proof -
  let ?o = "handle_plugin_offer_in_create_cell peer_env (peer [([[112]], Dir)]) [98, 10, 98, 0] 0 7"
  let ?t = "\<lambda>nd. deliver peer_env 7 [\<lparr>command = CELL_PLUGIN_TRANSFERRED, circ_id = 5, payload = zero_block [98]\<rparr>] nd"
  have "(case ?o of Inl _ \<Rightarrow> False | Inr (nd, k) \<Rightarrow> k = 2 \<and>
      (case ?t nd of Inl _ \<Rightarrow> False | Inr nd' \<Rightarrow> missing_plugins (circs nd' ! 0) = Some [[98]] \<and> resumed nd' = []))"
    by code_simp
  then show ?thesis
    by (auto split: sum.splits)
qed

end
