(* ===== verification/Circpad_Hist.thy ===== *)
theory Circpad_Hist
  imports Complex_Main Trunnel "HOL-Library.Multiset"
begin

text \<open>
  Circuit padding, the histogram of a state (\<^verbatim>\<open>src/core/or/circuitpadding.c\<close>): the bins and their edges, the
  tokens that are taken out when cells are sent, the choice of a delay, and the limits on the amount of
  padding. Arrays are lists of their allocated length, indices are C's signed integers, tokens and delays
  have 32 bits and wrap.
\<close>

text \<open>What C leaves undefined or ends the process; \<open>Stack_Exhausted\<close> is a recursion that does not end.\<close>

datatype cp_fault = Out_Of_Bounds | Division_By_Zero | Failed_Assertion | Stack_Exhausted | Use_After_Free | Null_Pointer | Bad_Shift

section \<open>Data\<close>

datatype circpad_removal = CIRCPAD_TOKEN_REMOVAL_NONE | CIRCPAD_TOKEN_REMOVAL_HIGHER | CIRCPAD_TOKEN_REMOVAL_LOWER
  | CIRCPAD_TOKEN_REMOVAL_CLOSEST | CIRCPAD_TOKEN_REMOVAL_CLOSEST_USEC | CIRCPAD_TOKEN_REMOVAL_EXACT

datatype circpad_distribution_type = CIRCPAD_DIST_NONE | CIRCPAD_DIST_UNIFORM | CIRCPAD_DIST_LOGISTIC
  | CIRCPAD_DIST_LOG_LOGISTIC | CIRCPAD_DIST_GEOMETRIC | CIRCPAD_DIST_WEIBULL | CIRCPAD_DIST_PARETO

text \<open>Finite doubles are rational numbers.\<close>

record circpad_distribution =
  dist_type :: circpad_distribution_type
  param1 :: rat
  param2 :: rat

record circpad_state =
  histogram_len :: int
  histogram :: "u32 list"
  histogram_edges :: "u32 list"
  histogram_total_tokens :: u32
  iat_dist :: circpad_distribution
  dist_max_sample_usec :: u32
  dist_added_shift_usec :: u32
  length_dist :: circpad_distribution
  start_length :: u16
  max_length :: u64
  length_includes_nonpadding :: bool
  next_state :: "u16 list"
  use_rtt_estimate :: bool
  token_removal :: circpad_removal

record circpad_machine_conditions =
  min_hops :: nat
  requires_vanguards :: bool
  reduced_padding_ok :: bool
  apply_state_mask :: u32
  apply_purpose_mask :: u32
  keep_state_mask :: u32
  keep_purpose_mask :: u32

record circpad_machine_spec =
  machine_num :: u8
  machine_index :: nat
  should_negotiate_end :: bool
  is_origin_side :: bool
  target_hopnum :: u8
  manage_circ_lifetime :: bool
  conditions :: circpad_machine_conditions
  allowed_padding_count :: u16
  max_padding_percent :: u8
  states :: "circpad_state list"

text \<open>\<open>timer_usec\<close> is the delay that the timer was set to last, \<open>mi_index\<close> the field \<open>machine_index\<close>.\<close>

record circpad_machine_runtime =
  mi_histogram :: "u32 list option"
  mi_histogram_len :: int
  chosen_bin :: int
  state_length :: u64
  padding_sent :: u16
  nonpadding_sent :: u16
  last_cell_time_sec :: int
  rtt_estimate_usec :: u32
  last_received_time_usec :: u64
  padding_scheduled_at_usec :: u64
  current_state :: u16
  machine_ctr :: u32
  is_padding_timer_scheduled :: bool
  stop_rtt_update :: bool
  timer_usec :: u32
  mi_index :: nat

definition CIRCPAD_DELAY_INFINITE :: u32 where "CIRCPAD_DELAY_INFINITE = 0xFFFFFFFF"
definition CIRCPAD_STATE_LENGTH_INFINITE :: u64 where "CIRCPAD_STATE_LENGTH_INFINITE = 0xFFFFFFFFFFFFFFFF"
definition CIRCPAD_MAX_HISTOGRAM_LEN :: nat where "CIRCPAD_MAX_HISTOGRAM_LEN = 100"
definition CIRCPAD_STATE_END :: u16 where "CIRCPAD_STATE_END = 0xFFFF"
definition CIRCPAD_STATE_IGNORE :: u16 where "CIRCPAD_STATE_IGNORE = 0xFFFE"
definition CIRCPAD_STATE_CANCEL :: u16 where "CIRCPAD_STATE_CANCEL = 0xFFFD"

definition CIRCPAD_INFINITY_BIN :: "int \<Rightarrow> int" where
  "CIRCPAD_INFINITY_BIN len = len - 1"

text \<open>Reading an array.\<close>

definition at_index :: "'a list \<Rightarrow> int \<Rightarrow> cp_fault + 'a" where
  "at_index xs i = (if 0 \<le> i \<and> i < int (length xs) then Inr (xs ! nat i) else Inl Out_Of_Bounds)"

section \<open>Bins\<close>

text \<open>A state number that is not in the array is reported and taken for the end state.\<close>

definition circpad_machine_current_state :: "circpad_machine_spec \<Rightarrow> circpad_machine_runtime \<Rightarrow> circpad_state option" where
  "circpad_machine_current_state machine mi =
     (if current_state mi = CIRCPAD_STATE_END then None
      else if length (states machine) \<le> unat (current_state mi) then None
      else Some (states machine ! unat (current_state mi)))"

definition rtt_add_usec :: "circpad_state \<Rightarrow> circpad_machine_runtime \<Rightarrow> u32" where
  "rtt_add_usec state mi = (if use_rtt_estimate state then rtt_estimate_usec mi else 0)"

definition circpad_histogram_bin_to_usec ::
  "circpad_machine_spec \<Rightarrow> circpad_machine_runtime \<Rightarrow> int \<Rightarrow> cp_fault + u32" where
  "circpad_histogram_bin_to_usec machine mi bin =
     (case circpad_machine_current_state machine mi of
        None \<Rightarrow> Inr CIRCPAD_DELAY_INFINITE
      | Some state \<Rightarrow>
          if CIRCPAD_INFINITY_BIN (histogram_len state) < bin then Inr CIRCPAD_DELAY_INFINITE
          else and_then (at_index (histogram_edges state) bin) (\<lambda>edge. Inr (edge + rtt_add_usec state mi)))"

definition histogram_get_bin_upper_bound ::
  "circpad_machine_spec \<Rightarrow> circpad_machine_runtime \<Rightarrow> int \<Rightarrow> cp_fault + u32" where
  "histogram_get_bin_upper_bound machine mi bin =
     and_then (circpad_histogram_bin_to_usec machine mi (bin + 1)) (\<lambda>u. Inr (u - 1))"

definition circpad_get_histogram_bin_midpoint ::
  "circpad_machine_spec \<Rightarrow> circpad_machine_runtime \<Rightarrow> int \<Rightarrow> cp_fault + u32" where
  "circpad_get_histogram_bin_midpoint machine mi bin_index =
     and_then (circpad_histogram_bin_to_usec machine mi bin_index) (\<lambda>left_bound.
     and_then (histogram_get_bin_upper_bound machine mi bin_index) (\<lambda>right_bound.
     Inr (left_bound + (right_bound - left_bound) div 2)))"

text \<open>The loops over bins that return at the first bin with a property.\<close>

fun find_bin :: "(int \<Rightarrow> cp_fault + bool) \<Rightarrow> int list \<Rightarrow> cp_fault + int option" where
  "find_bin p [] = Inr None"
| "find_bin p (bin # bins) = and_then (p bin) (\<lambda>found. if found then Inr (Some bin) else find_bin p bins)"

text \<open>The estimate is added to an upper bound that has it already.\<close>

definition circpad_histogram_usec_to_bin ::
  "circpad_machine_spec \<Rightarrow> circpad_machine_runtime \<Rightarrow> u32 \<Rightarrow> cp_fault + int" where
  "circpad_histogram_usec_to_bin machine mi usec =
     (case circpad_machine_current_state machine mi of
        None \<Rightarrow> Inr 0
      | Some state \<Rightarrow>
          and_then (find_bin (\<lambda>bin.
              and_then (histogram_get_bin_upper_bound machine mi bin) (\<lambda>upper. Inr (usec \<le> upper + rtt_add_usec state mi)))
            [0..CIRCPAD_INFINITY_BIN (histogram_len state) - 1]) (\<lambda>r.
          Inr (case r of Some bin \<Rightarrow> bin | None \<Rightarrow> CIRCPAD_INFINITY_BIN (histogram_len state) - 1)))"

section \<open>Tokens\<close>

definition circpad_is_token_removal_supported :: "circpad_machine_runtime \<Rightarrow> bool" where
  "circpad_is_token_removal_supported mi \<longleftrightarrow> mi_histogram mi \<noteq> None"

text \<open>The runtime copy of the histogram is renewed.\<close>

definition circpad_machine_setup_tokens ::
  "circpad_machine_spec \<Rightarrow> circpad_machine_runtime \<Rightarrow> cp_fault + circpad_machine_runtime" where
  "circpad_machine_setup_tokens machine mi =
     (case circpad_machine_current_state machine mi of
        None \<Rightarrow> Inr (if mi_histogram mi = None then mi else mi\<lparr>mi_histogram := None, mi_histogram_len := 0\<rparr>)
      | Some state \<Rightarrow>
          if token_removal state = CIRCPAD_TOKEN_REMOVAL_NONE
          then Inr (if mi_histogram mi = None then mi else mi\<lparr>mi_histogram := None, mi_histogram_len := 0\<rparr>)
          else if histogram_len state < 0 \<or> int (length (histogram state)) < histogram_len state then Inl Out_Of_Bounds
          else Inr (mi\<lparr>mi_histogram := Some (take (nat (histogram_len state)) (histogram state)),
                       mi_histogram_len := histogram_len state\<rparr>))"

definition tokens_at :: "circpad_machine_runtime \<Rightarrow> int \<Rightarrow> cp_fault + u32" where
  "tokens_at mi bin = (case mi_histogram mi of None \<Rightarrow> Inl Out_Of_Bounds | Some h \<Rightarrow> at_index h bin)"

definition take_token :: "circpad_machine_runtime \<Rightarrow> int \<Rightarrow> circpad_machine_runtime" where
  "take_token mi bin = mi\<lparr>mi_histogram := map_option (\<lambda>h. h[nat bin := h ! nat bin - 1]) (mi_histogram mi)\<rparr>"

text \<open>A bin that is found empty is a bug that is reported; then nothing is taken.\<close>

definition take_if_any :: "circpad_machine_runtime \<Rightarrow> int \<Rightarrow> cp_fault + circpad_machine_runtime" where
  "take_if_any mi bin = and_then (tokens_at mi bin) (\<lambda>tokens. Inr (if tokens = 0 then mi else take_token mi bin))"

definition circpad_machine_first_higher_index ::
  "circpad_machine_spec \<Rightarrow> circpad_machine_runtime \<Rightarrow> u32 \<Rightarrow> cp_fault + int" where
  "circpad_machine_first_higher_index machine mi target_bin_usec =
     and_then (circpad_histogram_usec_to_bin machine mi target_bin_usec) (\<lambda>start.
     and_then (find_bin (\<lambda>bin.
         and_then (tokens_at mi bin) (\<lambda>tokens. if tokens = 0 then Inr False
           else and_then (histogram_get_bin_upper_bound machine mi bin) (\<lambda>upper. Inr (target_bin_usec \<le> upper))))
       [start..CIRCPAD_INFINITY_BIN (mi_histogram_len mi) - 1]) (\<lambda>r.
     Inr (case r of Some bin \<Rightarrow> bin | None \<Rightarrow> mi_histogram_len mi)))"

definition circpad_machine_first_lower_index ::
  "circpad_machine_spec \<Rightarrow> circpad_machine_runtime \<Rightarrow> u32 \<Rightarrow> cp_fault + int" where
  "circpad_machine_first_lower_index machine mi target_bin_usec =
     and_then (circpad_histogram_usec_to_bin machine mi target_bin_usec) (\<lambda>start.
     and_then (find_bin (\<lambda>bin.
         and_then (tokens_at mi bin) (\<lambda>tokens. if tokens = 0 then Inr False
           else and_then (circpad_histogram_bin_to_usec machine mi bin) (\<lambda>lower. Inr (lower \<le> target_bin_usec))))
       (rev [0..start])) (\<lambda>r.
     Inr (case r of Some bin \<Rightarrow> bin | None \<Rightarrow> -1)))"

definition circpad_machine_remove_higher_token ::
  "circpad_machine_spec \<Rightarrow> circpad_machine_runtime \<Rightarrow> u32 \<Rightarrow> cp_fault + circpad_machine_runtime" where
  "circpad_machine_remove_higher_token machine mi target_bin_usec =
     and_then (circpad_machine_first_higher_index machine mi target_bin_usec) (\<lambda>bin.
     if 0 \<le> bin \<and> bin < CIRCPAD_INFINITY_BIN (mi_histogram_len mi) then take_if_any mi bin else Inr mi)"

definition circpad_machine_remove_lower_token ::
  "circpad_machine_spec \<Rightarrow> circpad_machine_runtime \<Rightarrow> u32 \<Rightarrow> cp_fault + circpad_machine_runtime" where
  "circpad_machine_remove_lower_token machine mi target_bin_usec =
     and_then (circpad_machine_first_lower_index machine mi target_bin_usec) (\<lambda>bin.
     if 0 \<le> bin \<and> bin < CIRCPAD_INFINITY_BIN (mi_histogram_len mi) then take_if_any mi bin else Inr mi)"

definition closer_bin :: "circpad_machine_spec \<Rightarrow> circpad_machine_runtime \<Rightarrow> u32 \<Rightarrow> int \<Rightarrow> int \<Rightarrow> cp_fault + int" where
  "closer_bin machine mi target_bin_usec lower higher =
     and_then (circpad_get_histogram_bin_midpoint machine mi lower) (\<lambda>lower_usec.
     and_then (circpad_get_histogram_bin_midpoint machine mi higher) (\<lambda>higher_usec.
     Inr (if target_bin_usec < lower_usec then lower
          else if higher_usec < target_bin_usec then higher
          else if higher_usec - target_bin_usec < target_bin_usec - lower_usec then higher
          else lower)))"

definition circpad_machine_remove_closest_token ::
  "circpad_machine_spec \<Rightarrow> circpad_machine_runtime \<Rightarrow> u32 \<Rightarrow> bool \<Rightarrow> cp_fault + circpad_machine_runtime" where
  "circpad_machine_remove_closest_token machine mi target_bin_usec use_usec =
     and_then (circpad_machine_first_lower_index machine mi target_bin_usec) (\<lambda>lower.
     and_then (circpad_machine_first_higher_index machine mi target_bin_usec) (\<lambda>higher.
     and_then (circpad_histogram_usec_to_bin machine mi target_bin_usec) (\<lambda>current.
     if current < lower \<or> higher < current then Inr mi
     else if higher = mi_histogram_len mi \<and> lower = -1 then Inr mi
     else if higher = mi_histogram_len mi then take_if_any mi lower
     else if lower = -1 then take_if_any mi higher
     else if use_usec then and_then (closer_bin machine mi target_bin_usec lower higher) (take_if_any mi)
     else take_if_any mi (if higher - current < current - lower then higher else lower))))"

definition circpad_machine_remove_exact ::
  "circpad_machine_spec \<Rightarrow> circpad_machine_runtime \<Rightarrow> u32 \<Rightarrow> cp_fault + circpad_machine_runtime" where
  "circpad_machine_remove_exact machine mi target_bin_usec =
     and_then (circpad_histogram_usec_to_bin machine mi target_bin_usec) (take_if_any mi)"

text \<open>The strategy of a state.\<close>

definition remove_by :: "circpad_removal \<Rightarrow> circpad_machine_spec \<Rightarrow> circpad_machine_runtime \<Rightarrow> u32 \<Rightarrow> cp_fault + circpad_machine_runtime" where
  "remove_by strategy machine mi target_bin_usec =
     (case strategy of
        CIRCPAD_TOKEN_REMOVAL_CLOSEST_USEC \<Rightarrow> circpad_machine_remove_closest_token machine mi target_bin_usec True
      | CIRCPAD_TOKEN_REMOVAL_CLOSEST \<Rightarrow> circpad_machine_remove_closest_token machine mi target_bin_usec False
      | CIRCPAD_TOKEN_REMOVAL_LOWER \<Rightarrow> circpad_machine_remove_lower_token machine mi target_bin_usec
      | CIRCPAD_TOKEN_REMOVAL_HIGHER \<Rightarrow> circpad_machine_remove_higher_token machine mi target_bin_usec
      | CIRCPAD_TOKEN_REMOVAL_EXACT \<Rightarrow> circpad_machine_remove_exact machine mi target_bin_usec
      | CIRCPAD_TOKEN_REMOVAL_NONE \<Rightarrow> Inr mi)"

definition circpad_machine_remove_token ::
  "u64 \<Rightarrow> circpad_machine_spec \<Rightarrow> circpad_machine_runtime \<Rightarrow> cp_fault + circpad_machine_runtime" where
  "circpad_machine_remove_token current_time machine mi =
     (if padding_scheduled_at_usec mi = 0 then Inr mi
      else case circpad_machine_current_state machine mi of
        None \<Rightarrow> Inr mi
      | Some state \<Rightarrow>
          if token_removal state = CIRCPAD_TOKEN_REMOVAL_NONE then Inr mi
          else remove_by (token_removal state) machine
            (mi\<lparr>padding_scheduled_at_usec := 0, is_padding_timer_scheduled := False\<rparr>)
            (ucast (min (current_time - padding_scheduled_at_usec mi) (ucast (CIRCPAD_DELAY_INFINITE - 1)))))"

section \<open>Choosing a delay\<close>

text \<open>
  The random numbers of one choice: \<open>bin_draw\<close> and \<open>usec_draw\<close> are reduced to the range that is asked for, and
  \<open>iat_draw\<close> is what the distribution returns.
\<close>

record draws =
  bin_draw :: u64
  usec_draw :: u64
  iat_draw :: rat

definition circpad_distribution_sample_iat_delay :: "rat \<Rightarrow> circpad_state \<Rightarrow> u32 \<Rightarrow> u32" where
  "circpad_distribution_sample_iat_delay sample state delay_shift =
     (let val = min (max 0 sample) (of_nat (unat (dist_max_sample_usec state))) + of_nat (unat delay_shift)
      in of_int (min \<lfloor>val + 1 / 2\<rfloor> (int (unat CIRCPAD_DELAY_INFINITE))))"

function skip_zero :: "u32 list \<Rightarrow> nat \<Rightarrow> cp_fault + nat" where
  "skip_zero hs i =
     (if length hs \<le> i then Inl Out_Of_Bounds else if hs ! i = 0 then skip_zero hs (Suc i) else Inr i)"
  by auto
termination
  by (relation "measure (\<lambda>(hs, i). length hs - i)") auto

text \<open>\<open>None\<close> is the report that the histogram was left.\<close>

function weigh :: "u32 list \<Rightarrow> int \<Rightarrow> u64 \<Rightarrow> int \<Rightarrow> u64 \<Rightarrow> cp_fault + int option" where
  "weigh hs len bin_choice curr_bin curr_weight =
     (if \<not> curr_weight < bin_choice then Inr (Some curr_bin)
      else if len \<le> curr_bin + 1 then Inr None
      else and_then (at_index hs (curr_bin + 1)) (\<lambda>tokens.
        weigh hs len bin_choice (curr_bin + 1) (curr_weight + ucast tokens)))"
  by auto
termination
  by (relation "measure (\<lambda>(hs, len, bin_choice, curr_bin, curr_weight). nat (len - curr_bin))") auto

declare skip_zero.simps [simp del] weigh.simps [simp del]

definition choose_bin :: "u32 list \<Rightarrow> int \<Rightarrow> u64 \<Rightarrow> cp_fault + int option" where
  "choose_bin hs len bin_choice =
     and_then (skip_zero hs 0) (\<lambda>i. weigh hs len bin_choice (int i) (ucast (hs ! i)))"

text \<open>The tokens that count, and their number: the runtime copy, or the histogram of the state.\<close>

definition token_source :: "circpad_state \<Rightarrow> circpad_machine_runtime \<Rightarrow> cp_fault + u32 list \<times> u64" where
  "token_source state mi =
     (case mi_histogram mi of
        Some h \<Rightarrow> if int (length h) < histogram_len state then Inl Out_Of_Bounds
                  else Inr (h, sum_list (map ucast (take (nat (histogram_len state)) h)))
      | None \<Rightarrow> Inr (histogram state, ucast (histogram_total_tokens state)))"

definition delay_in_bin :: "circpad_machine_spec \<Rightarrow> circpad_machine_runtime \<Rightarrow> u64 \<Rightarrow> int \<Rightarrow> cp_fault + u32" where
  "delay_in_bin machine mi draw curr_bin =
     and_then (circpad_histogram_bin_to_usec machine mi curr_bin) (\<lambda>bin_start.
     and_then (circpad_histogram_bin_to_usec machine mi (curr_bin + 1)) (\<lambda>bin_end.
     Inr (if bin_end \<le> bin_start then bin_start
          else ucast (ucast bin_start + draw mod (ucast bin_end - ucast bin_start)))))"

definition delay_of_bin ::
  "draws \<Rightarrow> circpad_machine_spec \<Rightarrow> circpad_state \<Rightarrow> circpad_machine_runtime \<Rightarrow> u32 list \<Rightarrow> int \<Rightarrow>
   cp_fault + circpad_machine_runtime \<times> u32" where
  "delay_of_bin d machine state mi hs curr_bin =
     (if histogram_len state \<le> curr_bin then Inr (mi, CIRCPAD_DELAY_INFINITE)
      else and_then (at_index hs curr_bin) (\<lambda>tokens.
        if tokens = 0 then Inr (mi, CIRCPAD_DELAY_INFINITE)
        else let mi = (if token_removal state = CIRCPAD_TOKEN_REMOVAL_NONE then mi else mi\<lparr>chosen_bin := curr_bin\<rparr>) in
          if CIRCPAD_INFINITY_BIN (histogram_len state) \<le> curr_bin
          then and_then (if token_removal state = CIRCPAD_TOKEN_REMOVAL_NONE then Inr mi else take_if_any mi curr_bin) (\<lambda>mi.
            Inr (mi, CIRCPAD_DELAY_INFINITE))
          else and_then (delay_in_bin machine mi (usec_draw d) curr_bin) (\<lambda>usec. Inr (mi, usec))))"

definition circpad_machine_sample_delay ::
  "draws \<Rightarrow> circpad_machine_spec \<Rightarrow> circpad_machine_runtime \<Rightarrow> cp_fault + circpad_machine_runtime \<times> u32" where
  "circpad_machine_sample_delay d machine mi =
     (case circpad_machine_current_state machine mi of
        None \<Rightarrow> Inl Failed_Assertion
      | Some state \<Rightarrow>
          if dist_type (iat_dist state) \<noteq> CIRCPAD_DIST_NONE
          then Inr (mi, circpad_distribution_sample_iat_delay (iat_draw d) state (rtt_add_usec state mi + dist_added_shift_usec state))
          else and_then (token_source state mi) (\<lambda>(hs, total).
            if total = 0 then Inr (mi, CIRCPAD_DELAY_INFINITE)
            else and_then (choose_bin hs (histogram_len state) (bin_draw d mod total)) (\<lambda>r.
              case r of
                None \<Rightarrow> Inr (mi, CIRCPAD_DELAY_INFINITE)
              | Some curr_bin \<Rightarrow> delay_of_bin d machine state mi hs curr_bin)))"

section \<open>Limits and counters\<close>

text \<open>The counters of the process and the parameters of the consensus.\<close>

record circpad_globals =
  circpad_padding_disabled :: bool
  circpad_padding_reduced :: bool
  circpad_global_allowed_cells :: u16
  circpad_global_max_padding_percent :: u8
  circpad_max_circ_queued_cells :: u16
  circpad_global_padding_sent :: u64
  circpad_global_nonpadding_sent :: u64

definition circpad_machine_reached_padding_limit ::
  "circpad_globals \<Rightarrow> circpad_machine_spec \<Rightarrow> circpad_machine_runtime \<Rightarrow> cp_fault + bool" where
  "circpad_machine_reached_padding_limit g machine mi =
     and_then (if max_padding_percent machine \<noteq> 0 \<and> allowed_padding_count machine \<le> padding_sent mi
               then let total_cells = ucast (padding_sent mi) + ucast (nonpadding_sent mi) :: u32 in
                 if total_cells = 0 then Inl Division_By_Zero
                 else Inr (ucast (max_padding_percent machine) < (100 * ucast (padding_sent mi)) div total_cells)
               else Inr False) (\<lambda>reached.
     if reached then Inr True
     else if circpad_global_max_padding_percent g \<noteq> 0 \<and> ucast (circpad_global_allowed_cells g) \<le> circpad_global_padding_sent g
     then let total_cells = circpad_global_padding_sent g + circpad_global_nonpadding_sent g in
       if total_cells = 0 then Inl Division_By_Zero
       else Inr (ucast (circpad_global_max_padding_percent g) < (100 * circpad_global_padding_sent g) div total_cells)
     else Inr False)"

text \<open>The counters are halved when one of them reaches \<open>UINT16_MAX\<close>.\<close>

definition scale_counts :: "bool \<Rightarrow> circpad_machine_runtime \<Rightarrow> circpad_machine_runtime" where
  "scale_counts full mi =
     (if full then mi\<lparr>padding_sent := padding_sent mi div 2, nonpadding_sent := nonpadding_sent mi div 2\<rparr> else mi)"

definition circpad_machine_count_padding_sent ::
  "circpad_globals \<Rightarrow> circpad_machine_runtime \<Rightarrow> cp_fault + circpad_globals \<times> circpad_machine_runtime" where
  "circpad_machine_count_padding_sent g mi =
     (let mi = (if state_length mi \<noteq> CIRCPAD_STATE_LENGTH_INFINITE \<and> 0 < state_length mi
                then mi\<lparr>state_length := state_length mi - 1\<rparr> else mi);
          mi = mi\<lparr>padding_sent := padding_sent mi + 1\<rparr>;
          mi = scale_counts (padding_sent mi = 0xFFFF) mi;
          g = g\<lparr>circpad_global_padding_sent := circpad_global_padding_sent g + 1\<rparr>
      in if \<not> circpad_is_token_removal_supported mi then Inr (g, mi)
         else if mi_histogram_len mi \<le> chosen_bin mi then Inr (g, mi)
         else and_then (take_if_any mi (chosen_bin mi)) (\<lambda>mi. Inr (g, mi)))"

definition circpad_machine_update_state_length_for_nonpadding ::
  "circpad_machine_spec \<Rightarrow> circpad_machine_runtime \<Rightarrow> circpad_machine_runtime" where
  "circpad_machine_update_state_length_for_nonpadding machine mi =
     (if state_length mi = CIRCPAD_STATE_LENGTH_INFINITE then mi
      else case circpad_machine_current_state machine mi of
        None \<Rightarrow> mi
      | Some state \<Rightarrow>
          if length_includes_nonpadding state \<and> 0 < state_length mi then mi\<lparr>state_length := state_length mi - 1\<rparr> else mi)"

definition circpad_machine_count_nonpadding_sent ::
  "u64 \<Rightarrow> circpad_machine_spec \<Rightarrow> circpad_machine_runtime \<Rightarrow> cp_fault + circpad_machine_runtime" where
  "circpad_machine_count_nonpadding_sent current_time machine mi =
     (let mi = mi\<lparr>nonpadding_sent := nonpadding_sent mi + 1\<rparr>;
          mi = scale_counts (nonpadding_sent mi = 0xFFFF) mi;
          mi = circpad_machine_update_state_length_for_nonpadding machine mi
      in circpad_machine_remove_token current_time machine mi)"

section \<open>Validity\<close>

fun edges_increase :: "u32 list \<Rightarrow> u32 \<Rightarrow> nat \<Rightarrow> nat \<Rightarrow> bool" where
  "edges_increase edges prev_bin_edge b 0 = True"
| "edges_increase edges prev_bin_edge b (Suc n) =
     (\<not> (edges ! b \<le> prev_bin_edge \<and> 0 < b) \<and> edges_increase edges (edges ! b) (Suc b) n)"

definition padding_machine_state_is_valid :: "circpad_state \<Rightarrow> cp_fault + bool" where
  "padding_machine_state_is_valid state =
     (if histogram_len state = 0 then Inr True
      else if histogram_len state < 2 then Inr False
      else if int (length (histogram state)) < histogram_len state \<or> int (length (histogram_edges state)) < histogram_len state
      then Inl Out_Of_Bounds
      else Inr (edges_increase (histogram_edges state) 0 0 (nat (histogram_len state)) \<and>
        sum_list (take (nat (histogram_len state)) (histogram state)) = histogram_total_tokens state))"

fun padding_machine_is_valid :: "circpad_state list \<Rightarrow> cp_fault + bool" where
  "padding_machine_is_valid [] = Inr True"
| "padding_machine_is_valid (state # ss) =
     and_then (padding_machine_state_is_valid state) (\<lambda>valid. if valid then padding_machine_is_valid ss else Inr False)"

definition circpad_register_padding_machine ::
  "circpad_machine_spec \<Rightarrow> circpad_machine_spec list \<Rightarrow> cp_fault + circpad_machine_spec list" where
  "circpad_register_padding_machine machine machine_list =
     and_then (padding_machine_is_valid (states machine)) (\<lambda>valid. Inr (if valid then machine_list @ [machine] else machine_list))"

text \<open>A new array of states: zeroed, with every event ignored.\<close>

definition zero_dist :: circpad_distribution where
  "zero_dist = \<lparr>dist_type = CIRCPAD_DIST_NONE, param1 = 0, param2 = 0\<rparr>"

definition zero_state :: circpad_state where
  "zero_state = \<lparr>histogram_len = 0, histogram = replicate CIRCPAD_MAX_HISTOGRAM_LEN 0,
     histogram_edges = replicate (CIRCPAD_MAX_HISTOGRAM_LEN + 1) 0, histogram_total_tokens = 0, iat_dist = zero_dist,
     dist_max_sample_usec = 0, dist_added_shift_usec = 0, length_dist = zero_dist, start_length = 0, max_length = 0,
     length_includes_nonpadding = False, next_state = replicate 7 CIRCPAD_STATE_IGNORE, use_rtt_estimate = False,
     token_removal = CIRCPAD_TOKEN_REMOVAL_NONE\<rparr>"

definition circpad_machine_states_init :: "circpad_machine_spec \<Rightarrow> u16 \<Rightarrow> circpad_machine_spec" where
  "circpad_machine_states_init machine num_states =
     machine\<lparr>states := replicate (unat (min num_states (CIRCPAD_STATE_CANCEL - 1))) zero_state\<rparr>"

end
