(* ===== verification/Circpad_Tokens.thy ===== *)
theory Circpad_Tokens
  imports Circpad_Hist
begin

text \<open>
  Facts on the histograms of circuit padding: token removal stays inside the arrays and takes one token from
  a bin that has one, the closest strategy takes one whenever there is one, which bin a random number
  chooses, and what the counters and limits do.
\<close>

section \<open>Consistent states\<close>

definition has_histogram :: "circpad_state \<Rightarrow> bool" where
  "has_histogram state \<longleftrightarrow> padding_machine_state_is_valid state = Inr True \<and> 2 \<le> histogram_len state \<and>
     length (histogram state) = CIRCPAD_MAX_HISTOGRAM_LEN \<and> length (histogram_edges state) = CIRCPAD_MAX_HISTOGRAM_LEN + 1"

text \<open>The runtime copy belongs to the current state.\<close>

definition mi_ok :: "circpad_machine_spec \<Rightarrow> circpad_machine_runtime \<Rightarrow> bool" where
  "mi_ok machine mi \<longleftrightarrow>
     (case circpad_machine_current_state machine mi of
        None \<Rightarrow> False
      | Some state \<Rightarrow> has_histogram state \<and> mi_histogram_len mi = histogram_len state \<and>
          (case mi_histogram mi of None \<Rightarrow> False | Some h \<Rightarrow> int (length h) = histogram_len state))"

lemma has_histogram_len: "has_histogram state \<Longrightarrow> histogram_len state \<le> 100"
  by (auto simp: has_histogram_def padding_machine_state_is_valid_def CIRCPAD_MAX_HISTOGRAM_LEN_def split: if_splits)

lemma mi_okE:
  assumes "mi_ok machine mi"
  obtains state h where "circpad_machine_current_state machine mi = Some state" "has_histogram state"
    "mi_histogram mi = Some h" "mi_histogram_len mi = histogram_len state" "int (length h) = histogram_len state"
    "2 \<le> histogram_len state" "histogram_len state \<le> 100" "length (histogram_edges state) = 101"
  using assms has_histogram_len
  by (auto simp: mi_ok_def has_histogram_def CIRCPAD_MAX_HISTOGRAM_LEN_def split: option.splits)

section \<open>Loops over bins\<close>

lemma find_bin_ok:
  assumes "\<And>b. b \<in> set bs \<Longrightarrow> \<exists>x. p b = Inr x"
  shows "\<exists>r. find_bin p bs = Inr r \<and>
    (case r of None \<Rightarrow> \<forall>b \<in> set bs. p b = Inr False | Some b \<Rightarrow> b \<in> set bs \<and> p b = Inr True)"
  using assms
proof (induction bs)
  case (Cons b bs)
  obtain x where x: "p b = Inr x"
    using Cons.prems [of b] by auto
  have "\<exists>r. find_bin p bs = Inr r \<and>
      (case r of None \<Rightarrow> \<forall>b \<in> set bs. p b = Inr False | Some b \<Rightarrow> b \<in> set bs \<and> p b = Inr True)"
    using Cons by simp
  then show ?case
    using x by (cases x) (auto split: option.splits)
qed simp

text \<open>The first bin with the property: those in front of it do not have it.\<close>

lemma find_bin_first:
  assumes "find_bin p bs = Inr (Some b)"
  shows "\<exists>xs ys. bs = xs @ b # ys \<and> (\<forall>c \<in> set xs. p c = Inr False)"
  using assms
proof (induction bs)
  case (Cons c bs)
  then obtain x where x: "p c = Inr x" "(if x then Inr (Some c) else find_bin p bs) = Inr (Some b)"
    by (auto simp: and_then_Inr)
  show ?case
  proof (cases x)
    case True
    then show ?thesis
      using x by (intro exI [of _ "[]"] exI [of _ bs]) auto
  next
    case False
    then obtain xs ys where "bs = xs @ b # ys" "\<forall>c \<in> set xs. p c = Inr False"
      using Cons.IH x by auto
    then show ?thesis
      using x False by (intro exI [of _ "c # xs"] exI [of _ ys]) auto
  qed
qed simp

lemma bin_to_usec_ok:
  assumes "mi_ok machine mi" and "0 \<le> bin"
  shows "\<exists>u. circpad_histogram_bin_to_usec machine mi bin = Inr u"
  using assms(1)
  by (rule mi_okE)
    (use assms(2) in \<open>auto simp: circpad_histogram_bin_to_usec_def at_index_def CIRCPAD_INFINITY_BIN_def\<close>)

lemma upper_bound_ok:
  assumes "mi_ok machine mi" and "0 \<le> bin"
  shows "\<exists>u. histogram_get_bin_upper_bound machine mi bin = Inr u"
  using bin_to_usec_ok [OF assms(1), of "bin + 1"] assms(2) by (auto simp: histogram_get_bin_upper_bound_def)

lemma usec_to_bin_ok:
  assumes "mi_ok machine mi"
  shows "\<exists>b. circpad_histogram_usec_to_bin machine mi usec = Inr b \<and> 0 \<le> b \<and> b < CIRCPAD_INFINITY_BIN (mi_histogram_len mi)"
proof -
  from assms obtain state h where st: "circpad_machine_current_state machine mi = Some state"
    "mi_histogram_len mi = histogram_len state" "2 \<le> histogram_len state"
    by (rule mi_okE)
  let ?p = "\<lambda>bin. and_then (histogram_get_bin_upper_bound machine mi bin) (\<lambda>upper. Inr (usec \<le> upper + rtt_add_usec state mi))"
  have "\<exists>r. find_bin ?p [0..CIRCPAD_INFINITY_BIN (histogram_len state) - 1] = Inr r \<and>
    (case r of None \<Rightarrow> \<forall>b \<in> set [0..CIRCPAD_INFINITY_BIN (histogram_len state) - 1]. ?p b = Inr False
     | Some b \<Rightarrow> b \<in> set [0..CIRCPAD_INFINITY_BIN (histogram_len state) - 1] \<and> ?p b = Inr True)"
    by (rule find_bin_ok) (use upper_bound_ok [OF assms] in \<open>auto simp: and_then_Inr\<close>)
  then show ?thesis
    using st by (auto simp: circpad_histogram_usec_to_bin_def CIRCPAD_INFINITY_BIN_def split: option.splits)
qed

lemma tokens_at_ok:
  assumes "mi_ok machine mi" and "0 \<le> bin" and "bin < mi_histogram_len mi"
  shows "tokens_at mi bin = Inr (the (mi_histogram mi) ! nat bin)"
  using assms(1) by (rule mi_okE) (use assms(2,3) in \<open>simp add: tokens_at_def at_index_def\<close>)

lemma first_higher_ok:
  assumes "mi_ok machine mi"
  shows "\<exists>b c. circpad_machine_first_higher_index machine mi usec = Inr b \<and> circpad_histogram_usec_to_bin machine mi usec = Inr c \<and>
    (b = mi_histogram_len mi \<or>
     c \<le> b \<and> b < CIRCPAD_INFINITY_BIN (mi_histogram_len mi) \<and> the (mi_histogram mi) ! nat b \<noteq> 0)"
proof -
  obtain c where c: "circpad_histogram_usec_to_bin machine mi usec = Inr c" "0 \<le> c" "c < CIRCPAD_INFINITY_BIN (mi_histogram_len mi)"
    using usec_to_bin_ok [OF assms] by blast
  let ?p = "\<lambda>bin. and_then (tokens_at mi bin) (\<lambda>tokens. if tokens = 0 then Inr False
    else and_then (histogram_get_bin_upper_bound machine mi bin) (\<lambda>upper. Inr (usec \<le> upper)))"
  let ?bs = "[c..CIRCPAD_INFINITY_BIN (mi_histogram_len mi) - 1]"
  have tok: "tokens_at mi b = Inr (the (mi_histogram mi) ! nat b)" if "b \<in> set ?bs" for b
    using that c by (intro tokens_at_ok [OF assms]) (auto simp: CIRCPAD_INFINITY_BIN_def)
  obtain r where r: "find_bin ?p ?bs = Inr r"
    "case r of None \<Rightarrow> \<forall>b \<in> set ?bs. ?p b = Inr False | Some b \<Rightarrow> b \<in> set ?bs \<and> ?p b = Inr True"
    using find_bin_ok [of ?bs ?p] tok upper_bound_ok [OF assms] c(2) by (force simp: and_then_Inr)
  have "the (mi_histogram mi) ! nat b \<noteq> 0" if "r = Some b" for b
    using r(2) tok that by auto
  then show ?thesis
    using c r by (cases r) (auto simp: circpad_machine_first_higher_index_def CIRCPAD_INFINITY_BIN_def)
qed

lemma first_lower_ok:
  assumes "mi_ok machine mi"
  shows "\<exists>b c. circpad_machine_first_lower_index machine mi usec = Inr b \<and> circpad_histogram_usec_to_bin machine mi usec = Inr c \<and>
    c < CIRCPAD_INFINITY_BIN (mi_histogram_len mi) \<and>
    (b = -1 \<or> 0 \<le> b \<and> b \<le> c \<and> the (mi_histogram mi) ! nat b \<noteq> 0)"
proof -
  obtain c where c: "circpad_histogram_usec_to_bin machine mi usec = Inr c" "0 \<le> c" "c < CIRCPAD_INFINITY_BIN (mi_histogram_len mi)"
    using usec_to_bin_ok [OF assms] by blast
  let ?p = "\<lambda>bin. and_then (tokens_at mi bin) (\<lambda>tokens. if tokens = 0 then Inr False
    else and_then (circpad_histogram_bin_to_usec machine mi bin) (\<lambda>lower. Inr (lower \<le> usec)))"
  let ?bs = "rev [0..c]"
  have tok: "tokens_at mi b = Inr (the (mi_histogram mi) ! nat b)" if "b \<in> set ?bs" for b
    using that c by (intro tokens_at_ok [OF assms]) (auto simp: CIRCPAD_INFINITY_BIN_def)
  obtain r where r: "find_bin ?p ?bs = Inr r"
    "case r of None \<Rightarrow> \<forall>b \<in> set ?bs. ?p b = Inr False | Some b \<Rightarrow> b \<in> set ?bs \<and> ?p b = Inr True"
    using find_bin_ok [of ?bs ?p] tok bin_to_usec_ok [OF assms] by (force simp: and_then_Inr)
  have "the (mi_histogram mi) ! nat b \<noteq> 0" if "r = Some b" for b
    using r(2) tok that by auto
  then show ?thesis
    using c r by (cases r) (auto simp: circpad_machine_first_lower_index_def CIRCPAD_INFINITY_BIN_def)
qed

section \<open>Removing a token\<close>

definition one_token_less :: "circpad_machine_runtime \<Rightarrow> circpad_machine_runtime \<Rightarrow> bool" where
  "one_token_less mi mi' \<longleftrightarrow>
     (\<exists>b. 0 \<le> b \<and> b < CIRCPAD_INFINITY_BIN (mi_histogram_len mi) \<and> the (mi_histogram mi) ! nat b \<noteq> 0 \<and> mi' = take_token mi b)"

lemma take_if_any_ok:
  assumes "mi_ok machine mi" and "0 \<le> b" and "b < CIRCPAD_INFINITY_BIN (mi_histogram_len mi)"
  shows "take_if_any mi b = Inr (if the (mi_histogram mi) ! nat b = 0 then mi else take_token mi b)"
  using tokens_at_ok [OF assms(1,2)] assms(3) by (simp add: take_if_any_def CIRCPAD_INFINITY_BIN_def)

lemma take_if_any_less:
  assumes "mi_ok machine mi" and "0 \<le> b" and "b < CIRCPAD_INFINITY_BIN (mi_histogram_len mi)"
  shows "\<exists>mi'. take_if_any mi b = Inr mi' \<and> (mi' = mi \<or> one_token_less mi mi')"
  using take_if_any_ok [OF assms] assms(2,3) by (auto simp: one_token_less_def)

lemma midpoint_ok:
  assumes "mi_ok machine mi" and "0 \<le> b"
  shows "\<exists>u. circpad_get_histogram_bin_midpoint machine mi b = Inr u"
  using bin_to_usec_ok [OF assms] upper_bound_ok [OF assms] by (auto simp: circpad_get_histogram_bin_midpoint_def)

lemma closer_bin_ok:
  assumes "mi_ok machine mi" and "0 \<le> lower" and "0 \<le> higher"
  shows "\<exists>b. closer_bin machine mi usec lower higher = Inr b \<and> (b = lower \<or> b = higher)"
  using midpoint_ok [OF assms(1,2)] midpoint_ok [OF assms(1,3)] by (auto simp: closer_bin_def)

text \<open>What the closest strategy does, by what is found below and above.\<close>

lemma remove_closest_cases:
  assumes "mi_ok machine mi"
  shows "\<exists>lower higher mi'. circpad_machine_first_lower_index machine mi usec = Inr lower \<and>
    circpad_machine_first_higher_index machine mi usec = Inr higher \<and>
    circpad_machine_remove_closest_token machine mi usec use_usec = Inr mi' \<and>
    (if lower = -1 \<and> higher = mi_histogram_len mi then mi' = mi else one_token_less mi mi')"
proof -
  obtain lower c where l: "circpad_machine_first_lower_index machine mi usec = Inr lower" "circpad_histogram_usec_to_bin machine mi usec = Inr c"
    "c < CIRCPAD_INFINITY_BIN (mi_histogram_len mi)" "lower = -1 \<or> 0 \<le> lower \<and> lower \<le> c \<and> the (mi_histogram mi) ! nat lower \<noteq> 0"
    using first_lower_ok [OF assms] by blast
  have c: "0 \<le> c"
    using usec_to_bin_ok [OF assms, of usec] l(2) by auto
  obtain higher where h: "circpad_machine_first_higher_index machine mi usec = Inr higher"
    "higher = mi_histogram_len mi \<or>
     c \<le> higher \<and> higher < CIRCPAD_INFINITY_BIN (mi_histogram_len mi) \<and> the (mi_histogram mi) ! nat higher \<noteq> 0"
    using first_higher_ok [OF assms, of usec] l(2) by auto
  have take: "take_if_any mi b = Inr (take_token mi b) \<and> one_token_less mi (take_token mi b)"
    if "b = lower \<and> lower \<noteq> -1 \<or> b = higher \<and> higher \<noteq> mi_histogram_len mi" for b
  proof -
    have "0 \<le> b" "b < CIRCPAD_INFINITY_BIN (mi_histogram_len mi)" "the (mi_histogram mi) ! nat b \<noteq> 0"
      using that l(3,4) h(2) c by auto
    then show ?thesis
      using take_if_any_ok [OF assms] by (auto simp: one_token_less_def)
  qed
  obtain b where b: "closer_bin machine mi usec lower higher = Inr b \<and> (b = lower \<or> b = higher)" if "lower \<noteq> -1" "0 \<le> higher"
    using closer_bin_ok [OF assms, of lower higher usec] l(4) by fastforce
  have "higher < c \<longrightarrow> False" "c < lower \<longrightarrow> False" "0 \<le> higher"
    using l(3,4) h(2) c by (auto simp: CIRCPAD_INFINITY_BIN_def)
  then show ?thesis
    using l(1,2) h(1) take [of lower] take [of higher] take [of b] b
    by (auto simp: circpad_machine_remove_closest_token_def)
qed

lemma remove_by_ok:
  assumes "mi_ok machine mi"
  shows "\<exists>mi'. remove_by strategy machine mi usec = Inr mi' \<and> (mi' = mi \<or> one_token_less mi mi')"
proof (cases strategy)
  case CIRCPAD_TOKEN_REMOVAL_HIGHER
  obtain b where "circpad_machine_first_higher_index machine mi usec = Inr b"
    using first_higher_ok [OF assms] by blast
  then show ?thesis
    using CIRCPAD_TOKEN_REMOVAL_HIGHER take_if_any_less [OF assms, of b]
    by (auto simp: remove_by_def circpad_machine_remove_higher_token_def)
next
  case CIRCPAD_TOKEN_REMOVAL_LOWER
  obtain b where "circpad_machine_first_lower_index machine mi usec = Inr b"
    using first_lower_ok [OF assms] by blast
  then show ?thesis
    using CIRCPAD_TOKEN_REMOVAL_LOWER take_if_any_less [OF assms, of b]
    by (auto simp: remove_by_def circpad_machine_remove_lower_token_def)
next
  case CIRCPAD_TOKEN_REMOVAL_CLOSEST
  then show ?thesis
    using remove_closest_cases [OF assms, of usec False] by (auto simp: remove_by_def split: if_splits)
next
  case CIRCPAD_TOKEN_REMOVAL_CLOSEST_USEC
  then show ?thesis
    using remove_closest_cases [OF assms, of usec True] by (auto simp: remove_by_def split: if_splits)
next
  case CIRCPAD_TOKEN_REMOVAL_EXACT
  obtain b where "circpad_histogram_usec_to_bin machine mi usec = Inr b" "0 \<le> b" "b < CIRCPAD_INFINITY_BIN (mi_histogram_len mi)"
    using usec_to_bin_ok [OF assms] by blast
  then show ?thesis
    using CIRCPAD_TOKEN_REMOVAL_EXACT take_if_any_less [OF assms, of b]
    by (auto simp: remove_by_def circpad_machine_remove_exact_def)
qed (simp add: remove_by_def)

lemma current_state_cong [simp]:
  "circpad_machine_current_state machine (mi\<lparr>padding_scheduled_at_usec := a, is_padding_timer_scheduled := b\<rparr>) =
    circpad_machine_current_state machine mi"
  "circpad_machine_current_state machine (mi\<lparr>mi_histogram := c\<rparr>) = circpad_machine_current_state machine mi"
  by (simp_all add: circpad_machine_current_state_def)

lemma take_token_ok: "mi_ok machine mi \<Longrightarrow> mi_ok machine (take_token mi b)"
  by (auto simp: mi_ok_def take_token_def split: option.splits)

definition all_tokens :: "circpad_machine_runtime \<Rightarrow> nat" where
  "all_tokens mi = sum_list (map unat (the (mi_histogram mi)))"

lemma sum_list_dec:
  "i < length h \<Longrightarrow> h ! i \<noteq> (0 :: u32) \<Longrightarrow> sum_list (map unat (h[i := h ! i - 1])) + 1 = sum_list (map unat h)"
proof (induction h arbitrary: i)
  case (Cons x h)
  then show ?case
    by (cases i) (auto simp: unat_sub_if_size unat_eq_zero word_less_nat_alt le_simps split: nat.splits)
qed simp

lemma one_token_less_ok:
  assumes "mi_ok machine mi" and "one_token_less mi mi'"
  shows "mi_ok machine mi' \<and> all_tokens mi' + 1 = all_tokens mi \<and>
    last (the (mi_histogram mi')) = last (the (mi_histogram mi))"
proof -
  obtain b where b: "0 \<le> b" "b < CIRCPAD_INFINITY_BIN (mi_histogram_len mi)" "the (mi_histogram mi) ! nat b \<noteq> 0" "mi' = take_token mi b"
    using assms(2) by (auto simp: one_token_less_def)
  from assms(1) obtain state h where "has_histogram state" and h: "mi_histogram mi = Some h" "mi_histogram_len mi = histogram_len state"
    "int (length h) = histogram_len state"
    by (rule mi_okE)
  have i: "nat b < length h - 1"
    using b(1,2) h by (simp add: CIRCPAD_INFINITY_BIN_def)
  then have "last (h[nat b := h ! nat b - 1]) = last h"
    by (subst last_list_update) auto
  then show ?thesis
    using sum_list_dec [of "nat b" h] i b h take_token_ok [OF assms(1)] by (auto simp: take_token_def all_tokens_def)
qed

section \<open>Edges\<close>

lemma edges_increase_nth:
  assumes "edges_increase edges prev b n" and "b \<le> i" and "i < j" and "j < b + n"
  shows "edges ! i < edges ! j"
  using assms
proof (induction edges prev b n arbitrary: i rule: edges_increase.induct)
  case (2 edges prev b n)
  have step: "edges ! b < edges ! Suc b" if "0 < n"
    using 2(2) that by (cases n) auto
  show ?case
  proof (cases "b = i")
    case False
    then show ?thesis
      using 2 by simp
  next
    case True
    then show ?thesis
      using step 2(1) [of "Suc b"] 2(2-) by (cases "j = Suc i") (auto intro: less_trans [of _ "edges ! Suc b"])
  qed
qed simp

lemma has_histogram_edges:
  assumes "has_histogram state" and "i < j" and "int j < histogram_len state"
  shows "histogram_edges state ! i < histogram_edges state ! j"
proof -
  have "edges_increase (histogram_edges state) 0 0 (nat (histogram_len state))"
    using assms(1) by (auto simp: has_histogram_def padding_machine_state_is_valid_def split: if_splits)
  then show ?thesis
    by (rule edges_increase_nth) (use assms(2,3) in auto)
qed

lemma word_less_le_pred: "(a :: 'a::len word) \<le> b - 1 \<longleftrightarrow> a < b" if "c < b"
proof -
  have "b \<noteq> 0"
    using that word_not_simps(1) by auto
  then show ?thesis
    by (simp add: word_le_nat_alt word_less_nat_alt unat_minus_one) (metis Suc_pred less_Suc_eq_le unat_gt_0)
qed

text \<open>Without an estimate the bins are what the edges say: the bin of a time, found by its lower and upper bound.\<close>

definition plain_bins :: "circpad_machine_spec \<Rightarrow> circpad_machine_runtime \<Rightarrow> circpad_state \<Rightarrow> bool" where
  "plain_bins machine mi state \<longleftrightarrow> mi_ok machine mi \<and> circpad_machine_current_state machine mi = Some state \<and>
     \<not> use_rtt_estimate state"

lemma plain_bins_facts:
  assumes "plain_bins machine mi state"
  shows "circpad_machine_current_state machine mi = Some state" "has_histogram state" "mi_histogram_len mi = histogram_len state"
    "2 \<le> histogram_len state" "length (histogram_edges state) = 101" "histogram_len state \<le> 100" "rtt_add_usec state mi = 0"
proof -
  have "mi_ok machine mi"
    using assms by (simp add: plain_bins_def)
  then show "circpad_machine_current_state machine mi = Some state" "has_histogram state" "mi_histogram_len mi = histogram_len state"
    "2 \<le> histogram_len state" "length (histogram_edges state) = 101" "histogram_len state \<le> 100" "rtt_add_usec state mi = 0"
    by (rule mi_okE, use assms in \<open>simp add: plain_bins_def rtt_add_usec_def\<close>)+
qed


lemma plain_lower_bound: "plain_bins machine mi state \<Longrightarrow> 0 \<le> b \<Longrightarrow> b < histogram_len state \<Longrightarrow>
    circpad_histogram_bin_to_usec machine mi b = Inr (histogram_edges state ! nat b)"
  using plain_bins_facts [of machine mi state]
  by (simp add: circpad_histogram_bin_to_usec_def CIRCPAD_INFINITY_BIN_def at_index_def)

lemma plain_upper_bound: "plain_bins machine mi state \<Longrightarrow> 0 \<le> b \<Longrightarrow> b < CIRCPAD_INFINITY_BIN (histogram_len state) \<Longrightarrow>
    histogram_get_bin_upper_bound machine mi b = Inr (histogram_edges state ! nat (b + 1) - 1)"
  by (simp add: histogram_get_bin_upper_bound_def plain_lower_bound CIRCPAD_INFINITY_BIN_def)

lemma plain_below_upper: "plain_bins machine mi state \<Longrightarrow> 0 \<le> b \<Longrightarrow> b < CIRCPAD_INFINITY_BIN (histogram_len state) \<Longrightarrow>
    u \<le> histogram_edges state ! nat (b + 1) - 1 \<longleftrightarrow> u < histogram_edges state ! nat (b + 1)"
  using has_histogram_edges [OF plain_bins_facts(2), of machine mi state "nat b" "nat (b + 1)"]
  by (intro word_less_le_pred) (simp add: CIRCPAD_INFINITY_BIN_def)

text \<open>The bin that is found: all bins below it end at or before the time, and it ends after the time unless it is the last.\<close>

lemma usec_to_bin_plain:
  assumes "plain_bins machine mi state"
  shows "\<exists>c. circpad_histogram_usec_to_bin machine mi usec = Inr c \<and> 0 \<le> c \<and> c < CIRCPAD_INFINITY_BIN (histogram_len state) \<and>
    (\<forall>b. 0 \<le> b \<and> b < c \<longrightarrow> histogram_edges state ! nat (b + 1) \<le> usec) \<and>
    (usec < histogram_edges state ! nat (c + 1) \<or>
      c = CIRCPAD_INFINITY_BIN (histogram_len state) - 1 \<and> histogram_edges state ! nat (c + 1) \<le> usec)"
proof -
  let ?n = "CIRCPAD_INFINITY_BIN (histogram_len state)"
  let ?p = "\<lambda>bin. and_then (histogram_get_bin_upper_bound machine mi bin) (\<lambda>upper. Inr (usec \<le> upper + rtt_add_usec state mi))"
  have p: "?p b = Inr (usec < histogram_edges state ! nat (b + 1))" if "b \<in> set [0..?n - 1]" for b
    using that assms plain_bins_facts(7) [OF assms] by (simp add: plain_upper_bound plain_below_upper)
  obtain r where r: "find_bin ?p [0..?n - 1] = Inr r"
    "case r of None \<Rightarrow> \<forall>b \<in> set [0..?n - 1]. ?p b = Inr False | Some b \<Rightarrow> b \<in> set [0..?n - 1] \<and> ?p b = Inr True"
    using find_bin_ok [of "[0..?n - 1]" ?p] p by blast
  have res: "circpad_histogram_usec_to_bin machine mi usec = Inr (case r of Some bin \<Rightarrow> bin | None \<Rightarrow> ?n - 1)"
    using r(1) by (simp add: circpad_histogram_usec_to_bin_def plain_bins_facts(1) [OF assms])
  have n: "0 \<le> ?n - 1"
    using plain_bins_facts(4) [OF assms] by (simp add: CIRCPAD_INFINITY_BIN_def)
  show ?thesis
  proof (cases r)
    case None
    then have "histogram_edges state ! nat (b + 1) \<le> usec" if "0 \<le> b" "b \<le> ?n - 1" for b
      using r(2) p that by (auto simp: not_less)
    then show ?thesis
      using res None n by auto
  next
    case (Some c)
    then obtain xs ys where xs: "[0..?n - 1] = xs @ c # ys" "\<forall>b \<in> set xs. ?p b = Inr False"
      using find_bin_first [of ?p "[0..?n - 1]" c] r(1) by blast
    have c: "c \<in> set [0..?n - 1]" "usec < histogram_edges state ! nat (c + 1)"
      using r(2) p Some by auto
    have "b \<in> set xs" if "0 \<le> b" "b < c" for b
    proof -
      have "sorted (xs @ c # ys)" "b \<in> set (xs @ c # ys)"
        using that c(1) unfolding xs(1) [symmetric] by simp_all
      then show ?thesis
        using that by (auto simp: sorted_append)
    qed
    then have "histogram_edges state ! nat (b + 1) \<le> usec" if "0 \<le> b" "b < c" for b
      using xs p that by (auto simp: not_less)
    then show ?thesis
      using res Some c by auto
  qed
qed

lemma find_bin_finds:
  assumes "\<And>b. b \<in> set bs \<Longrightarrow> \<exists>x. p b = Inr x" and "b \<in> set bs" and "p b = Inr True"
  shows "\<exists>r. find_bin p bs = Inr (Some r) \<and> r \<in> set bs"
proof -
  obtain r where "find_bin p bs = Inr r"
    "case r of None \<Rightarrow> \<forall>b \<in> set bs. p b = Inr False | Some b \<Rightarrow> b \<in> set bs \<and> p b = Inr True"
    using find_bin_ok [of bs p] assms(1) by blast
  then show ?thesis
    using assms(2,3) by (cases r) auto
qed

lemma lower_found:
  assumes "mi_ok machine mi" and "circpad_histogram_usec_to_bin machine mi usec = Inr c" and "0 \<le> b" and "b \<le> c"
    and "the (mi_histogram mi) ! nat b \<noteq> 0" and "circpad_histogram_bin_to_usec machine mi b = Inr l" and "l \<le> usec"
  shows "circpad_machine_first_lower_index machine mi usec \<noteq> Inr (-1)"
proof -
  let ?p = "\<lambda>bin. and_then (tokens_at mi bin) (\<lambda>tokens. if tokens = 0 then Inr False
    else and_then (circpad_histogram_bin_to_usec machine mi bin) (\<lambda>lower. Inr (lower \<le> usec)))"
  have c: "c < CIRCPAD_INFINITY_BIN (mi_histogram_len mi)"
    using usec_to_bin_ok [OF assms(1), of usec] assms(2) by auto
  have tok: "tokens_at mi x = Inr (the (mi_histogram mi) ! nat x)" if "x \<in> set (rev [0..c])" for x
    using that c by (intro tokens_at_ok [OF assms(1)]) (auto simp: CIRCPAD_INFINITY_BIN_def)
  have "?p b = Inr True" "b \<in> set (rev [0..c])"
    using tok assms(3-7) by simp_all
  moreover have "\<exists>x. ?p b = Inr x" if "b \<in> set (rev [0..c])" for b
    using tok [OF that] bin_to_usec_ok [OF assms(1), of b] that by (auto simp: and_then_Inr)
  ultimately obtain r where "find_bin ?p (rev [0..c]) = Inr (Some r)" "r \<in> set (rev [0..c])"
    using find_bin_finds [of "rev [0..c]" ?p b] by blast
  then show ?thesis
    using assms(2) by (auto simp: circpad_machine_first_lower_index_def CIRCPAD_INFINITY_BIN_def)
qed

lemma higher_found:
  assumes "mi_ok machine mi" and "circpad_histogram_usec_to_bin machine mi usec = Inr c" and "c \<le> b"
    and "b < CIRCPAD_INFINITY_BIN (mi_histogram_len mi)"
    and "the (mi_histogram mi) ! nat b \<noteq> 0" and "histogram_get_bin_upper_bound machine mi b = Inr u" and "usec \<le> u"
  shows "circpad_machine_first_higher_index machine mi usec \<noteq> Inr (mi_histogram_len mi)"
proof -
  let ?bs = "[c..CIRCPAD_INFINITY_BIN (mi_histogram_len mi) - 1]"
  let ?p = "\<lambda>bin. and_then (tokens_at mi bin) (\<lambda>tokens. if tokens = 0 then Inr False
    else and_then (histogram_get_bin_upper_bound machine mi bin) (\<lambda>upper. Inr (usec \<le> upper)))"
  have c: "0 \<le> c"
    using usec_to_bin_ok [OF assms(1), of usec] assms(2) by auto
  have tok: "tokens_at mi x = Inr (the (mi_histogram mi) ! nat x)" if "x \<in> set ?bs" for x
    using that c by (intro tokens_at_ok [OF assms(1)]) (auto simp: CIRCPAD_INFINITY_BIN_def)
  have "?p b = Inr True" "b \<in> set ?bs"
    using tok assms(3-7) by simp_all
  moreover have "\<exists>x. ?p b = Inr x" if "b \<in> set ?bs" for b
    using tok [OF that] upper_bound_ok [OF assms(1), of b] that c by (auto simp: and_then_Inr)
  ultimately obtain r where "find_bin ?p ?bs = Inr (Some r)" "r \<in> set ?bs"
    using find_bin_finds [of ?bs ?p b] by blast
  then show ?thesis
    using assms(2) by (auto simp: circpad_machine_first_higher_index_def CIRCPAD_INFINITY_BIN_def)
qed

lemma plain_found:
  assumes "plain_bins machine mi state" and "0 \<le> b" and "b < CIRCPAD_INFINITY_BIN (mi_histogram_len mi)"
    and "the (mi_histogram mi) ! nat b \<noteq> 0"
  shows "circpad_machine_first_lower_index machine mi usec \<noteq> Inr (-1) \<or>
    circpad_machine_first_higher_index machine mi usec \<noteq> Inr (mi_histogram_len mi)"
proof -
  note ok = assms(1) [unfolded plain_bins_def, THEN conjunct1]
  note f = plain_bins_facts [OF assms(1)]
  let ?e = "\<lambda>b. histogram_edges state ! nat b"
  obtain c where c: "circpad_histogram_usec_to_bin machine mi usec = Inr c" "0 \<le> c" "c < CIRCPAD_INFINITY_BIN (histogram_len state)"
    "\<And>b. 0 \<le> b \<Longrightarrow> b < c \<Longrightarrow> ?e (b + 1) \<le> usec"
    "usec < ?e (c + 1) \<or> c = CIRCPAD_INFINITY_BIN (histogram_len state) - 1 \<and> ?e (c + 1) \<le> usec"
    using usec_to_bin_plain [OF assms(1)] by blast
  have lower: "circpad_histogram_bin_to_usec machine mi b = Inr (?e b)" and upper: "histogram_get_bin_upper_bound machine mi b = Inr (?e (b + 1) - 1)"
    using plain_lower_bound [OF assms(1,2)] plain_upper_bound [OF assms(1,2)] assms(3) f(3) by (simp_all add: CIRCPAD_INFINITY_BIN_def)
  have step: "?e i < ?e j" if "0 \<le> i" "i < j" "j < histogram_len state" for i j
    using that by (intro has_histogram_edges [OF f(2)]) auto
  consider (below) "b < c" | (above) "c \<le> b" "usec < ?e (b + 1)" | (last) "c \<le> b" "?e (b + 1) \<le> usec"
    by fastforce
  then show ?thesis
  proof cases
    case below
    then have "?e b \<le> usec"
      using c(4) [OF assms(2)] step [of b "b + 1"] assms(2) c(3) by (auto simp: CIRCPAD_INFINITY_BIN_def)
    then show ?thesis
      using lower_found [OF ok c(1) assms(2) _ assms(4) lower] below by simp
  next
    case above
    then have "usec \<le> ?e (b + 1) - 1"
      using plain_below_upper [OF assms(1,2)] assms(3) f(3) by simp
    then show ?thesis
      using higher_found [OF ok c(1) above(1) assms(3,4) upper] by simp
  next
    case last
    have "\<not> usec < ?e (c + 1)"
      using last step [of "c + 1" "b + 1"] c(2) assms(3) f(3) by (cases "b = c") (auto simp: CIRCPAD_INFINITY_BIN_def)
    then have "b = c"
      using c(5) last(1) assms(3) f(3) by auto
    moreover have "?e b \<le> usec"
      using last(2) step [of b "b + 1"] assms(2,3) f(3) by (auto simp: CIRCPAD_INFINITY_BIN_def)
    ultimately show ?thesis
      using lower_found [OF ok c(1) assms(2) _ assms(4) lower] by simp
  qed
qed

section \<open>Counters\<close>

definition counts_ok :: "circpad_machine_runtime \<Rightarrow> bool" where
  "counts_ok mi \<longleftrightarrow> padding_sent mi < 0xFFFF \<and> nonpadding_sent mi < 0xFFFF"

lemma take_token_counts [simp]:
  "padding_sent (take_token mi b) = padding_sent mi" "nonpadding_sent (take_token mi b) = nonpadding_sent mi"
  by (simp_all add: take_token_def)

lemma word16_less_inc: "(x :: u16) < 0xFFFF \<Longrightarrow> x + 1 \<noteq> 0xFFFF \<Longrightarrow> x + 1 < 0xFFFF"
  by (metis inc_le order_le_imp_less_or_eq)

lemma word16_half: "(x :: u16) div 2 < 0xFFFF"
  by (simp add: word_less_nat_alt unat_div) (use unsigned_less [where 'a = nat, of x] in simp)

lemma count_padding_ok:
  assumes "counts_ok mi" and "circpad_machine_count_padding_sent g mi = Inr (g', mi')"
  shows "counts_ok mi' \<and> (padding_sent mi' = padding_sent mi + 1 \<and> nonpadding_sent mi' = nonpadding_sent mi \<or>
    padding_sent mi' = 0x7FFF \<and> nonpadding_sent mi' = nonpadding_sent mi div 2)"
  using assms word16_less_inc [of "padding_sent mi"] word16_half
  by (auto simp: circpad_machine_count_padding_sent_def Let_def scale_counts_def counts_ok_def take_if_any_def and_then_Inr
      split: if_splits)

section \<open>Properties\<close>

definition demo_state :: circpad_state where
  "demo_state = zero_state\<lparr>histogram_len := 4, histogram := [2, 1, 3, 5] @ replicate 96 0,
     histogram_edges := [0, 10, 20, 30] @ replicate 97 0, histogram_total_tokens := 11,
     token_removal := CIRCPAD_TOKEN_REMOVAL_CLOSEST\<rparr>"

definition demo_machine :: "circpad_state \<Rightarrow> circpad_machine_spec" where
  "demo_machine state = \<lparr>machine_num = 1, machine_index = 0, should_negotiate_end = False, is_origin_side = False, target_hopnum = 2,
     manage_circ_lifetime = False, conditions = \<lparr>min_hops = 0, requires_vanguards = False, reduced_padding_ok = True,
       apply_state_mask = 0, apply_purpose_mask = 0, keep_state_mask = 0, keep_purpose_mask = 0\<rparr>,
     allowed_padding_count = 0, max_padding_percent = 0, states = [state]\<rparr>"

definition demo_mi :: circpad_machine_runtime where
  "demo_mi = \<lparr>mi_histogram = Some [2, 1, 3, 5], mi_histogram_len = 4, chosen_bin = 0, state_length = CIRCPAD_STATE_LENGTH_INFINITE,
     padding_sent = 0, nonpadding_sent = 0, last_cell_time_sec = 0, rtt_estimate_usec = 0, last_received_time_usec = 0,
     padding_scheduled_at_usec = 100, current_state = 0, machine_ctr = 1, is_padding_timer_scheduled = True,
     stop_rtt_update = False, timer_usec = 0, mi_index = 0\<rparr>"

lemma demo_ok: "mi_ok (demo_machine demo_state) demo_mi" "plain_bins (demo_machine demo_state) demo_mi demo_state"
  by code_simp+

text \<open>
  Token removal is safe: for a runtime histogram that belongs to a state the validator accepts, whatever
  strategy the state has and whatever time has passed, \<open>circpad_machine_remove_token\<close> reads and writes inside
  the arrays, takes at most one token, never from an empty bin and never from the infinity bin, and
  leaves a runtime histogram that belongs to the state.
\<close>

lemma token_removal_safe:
  assumes "mi_ok machine mi"
  shows "\<exists>mi'. circpad_machine_remove_token current_time machine mi = Inr mi' \<and> mi_ok machine mi' \<and>
    last (the (mi_histogram mi')) = last (the (mi_histogram mi)) \<and>
    (mi_histogram mi' = mi_histogram mi \<or> all_tokens mi' + 1 = all_tokens mi)"
proof -
  from assms obtain state where state: "circpad_machine_current_state machine mi = Some state"
    by (rule mi_okE)
  let ?mi = "mi\<lparr>padding_scheduled_at_usec := 0, is_padding_timer_scheduled := False\<rparr>"
  have ok: "mi_ok machine ?mi"
    using assms by (simp add: mi_ok_def state)
  show ?thesis
  proof (cases "padding_scheduled_at_usec mi = 0 \<or> token_removal state = CIRCPAD_TOKEN_REMOVAL_NONE")
    case True
    then show ?thesis
      using state assms by (auto simp: circpad_machine_remove_token_def)
  next
    case False
    then have "circpad_machine_remove_token current_time machine mi = remove_by (token_removal state) machine ?mi
        (ucast (min (current_time - padding_scheduled_at_usec mi) (ucast (CIRCPAD_DELAY_INFINITE - 1))))"
      using state by (simp add: circpad_machine_remove_token_def)
    then obtain mi' where mi': "circpad_machine_remove_token current_time machine mi = Inr mi'" "mi' = ?mi \<or> one_token_less ?mi mi'"
      using remove_by_ok [OF ok] by metis
    then show ?thesis
      using one_token_less_ok [OF ok, of mi'] ok by (auto simp: all_tokens_def)
  qed
qed

text \<open>
  The closest strategy finds a token when there is one: without an estimate of the round-trip time it
  takes exactly one token if any bin but the infinity bin has one, whatever the time that has passed, and
  changes nothing if none has.
\<close>

lemma closest_takes_a_token:
  assumes "plain_bins machine mi state"
  shows "\<exists>mi'. circpad_machine_remove_closest_token machine mi usec use_usec = Inr mi' \<and>
    (if \<exists>b. 0 \<le> b \<and> b < CIRCPAD_INFINITY_BIN (mi_histogram_len mi) \<and> the (mi_histogram mi) ! nat b \<noteq> 0
     then all_tokens mi' + 1 = all_tokens mi else mi' = mi)"
proof -
  note ok = assms [unfolded plain_bins_def, THEN conjunct1]
  obtain lower higher mi' where r: "circpad_machine_first_lower_index machine mi usec = Inr lower"
    "circpad_machine_first_higher_index machine mi usec = Inr higher"
    "circpad_machine_remove_closest_token machine mi usec use_usec = Inr mi'"
    "if lower = -1 \<and> higher = mi_histogram_len mi then mi' = mi else one_token_less mi mi'"
    using remove_closest_cases [OF ok] by blast
  show ?thesis
  proof (cases "lower = -1 \<and> higher = mi_histogram_len mi")
    case True
    then have "\<not> (\<exists>b. 0 \<le> b \<and> b < CIRCPAD_INFINITY_BIN (mi_histogram_len mi) \<and> the (mi_histogram mi) ! nat b \<noteq> 0)"
      using plain_found [OF assms] r(1,2) by metis
    then show ?thesis
      using r True by auto
  next
    case False
    then have less: "one_token_less mi mi'"
      using r(4) by argo
    then show ?thesis
      using one_token_less_ok [OF ok less] r(3) by (auto simp: one_token_less_def)
  qed
qed

text \<open>
  With an estimate of the round-trip time the bin of a time is wrong: the estimate is added twice. With
  edges 0, 10, 20, 30 and an estimate of 10 the second bin holds the times from 20 to 29, and 25 is put into
  the first.
\<close>

lemma rtt_added_twice:
  "let m = demo_machine (demo_state\<lparr>use_rtt_estimate := True\<rparr>); mi = demo_mi\<lparr>rtt_estimate_usec := 10\<rparr> in
   circpad_histogram_bin_to_usec m mi 1 = Inr 20 \<and> histogram_get_bin_upper_bound m mi 1 = Inr 29 \<and>
   circpad_histogram_usec_to_bin m mi 25 = Inr 0"
  by code_simp

lemma unat_div_less:
  assumes "(b :: u32) \<noteq> 0" and "unat a < 2 ^ 16" and "unat b < 2 ^ 32"
  shows "ucast (pct :: u8) < (100 * a) div b \<longleftrightarrow> (unat pct + 1) * unat b \<le> 100 * unat a"
proof -
  have "unat (100 * a) = 100 * unat a"
    using assms(2) by (simp add: unat_mult_lem [THEN iffD1])
  moreover have "unat (ucast pct :: u32) = unat pct"
    by (simp add: unsigned_ucast_eq take_bit_nat_eq_self less_trans [OF unsigned_less])
  moreover have "0 < unat b"
    using assms(1) by (simp add: unat_gt_0)
  ultimately show ?thesis
    by (simp add: word_less_nat_alt unat_div Suc_le_eq [symmetric] less_eq_div_iff_mult_less_eq)
qed

text \<open>
  The padding limit of a machine, when the consensus sets no global one: it is reached exactly when the
  allowed number of cells is used up and the share of padding is at least one percent point above the
  maximum; the check divides by zero when no cell was counted and none is allowed.
\<close>

lemma padding_limit_exact:
  "circpad_machine_reached_padding_limit (g\<lparr>circpad_global_max_padding_percent := 0\<rparr>) machine mi =
    (let p = unat (padding_sent mi); n = unat (nonpadding_sent mi); pct = unat (max_padding_percent machine) in
     if pct = 0 \<or> p < unat (allowed_padding_count machine) then Inr False
     else if p + n = 0 then Inl Division_By_Zero
     else Inr ((pct + 1) * (p + n) \<le> 100 * p))"
proof -
  let ?p = "ucast (padding_sent mi) :: u32" and ?n = "ucast (nonpadding_sent mi) :: u32"
  have u: "unat ?p = unat (padding_sent mi)" "unat ?n = unat (nonpadding_sent mi)"
    by (simp_all add: unsigned_ucast_eq take_bit_nat_eq_self less_trans [OF unsigned_less])
  have b: "unat (padding_sent mi) < 2 ^ 16" "unat (nonpadding_sent mi) < 2 ^ 16"
    using unsigned_less [where 'a = nat, of "padding_sent mi"] unsigned_less [where 'a = nat, of "nonpadding_sent mi"] by simp_all
  then have total: "unat (?p + ?n) = unat (padding_sent mi) + unat (nonpadding_sent mi)"
    using u by (simp add: unat_add_lem [THEN iffD1])
  have zero: "?p + ?n = 0 \<longleftrightarrow> unat (padding_sent mi) + unat (nonpadding_sent mi) = 0"
    unfolding total [symmetric] by (simp only: unat_eq_zero)
  have less: "ucast (max_padding_percent machine) < (100 * ?p) div (?p + ?n) \<longleftrightarrow>
      (unat (max_padding_percent machine) + 1) * (unat (padding_sent mi) + unat (nonpadding_sent mi)) \<le> 100 * unat (padding_sent mi)"
    if "?p + ?n \<noteq> 0"
    using unat_div_less [OF that, of ?p "max_padding_percent machine"] b total u unsigned_less [where 'a = nat, of "?p + ?n"] by simp
  show ?thesis
    using zero less
    by (auto simp: circpad_machine_reached_padding_limit_def Let_def unat_eq_zero word_le_nat_alt not_less)
qed

end
