(* ===== verification/Circpad_Choice.thy ===== *)
theory Circpad_Choice
  imports Circpad_Tokens
begin

text \<open>
  The choice of a bin and of a delay in \<open>circpad_machine_sample_delay\<close>: that it never leaves the histogram, which
  token a random number stands for, and that the delay lies in the bin.
\<close>

section \<open>Counting tokens\<close>

definition tokens_before :: "u32 list \<Rightarrow> nat \<Rightarrow> nat" where
  "tokens_before hs k = sum_list (map unat (take k hs))"

lemma tokens_before_0 [simp]: "tokens_before hs 0 = 0"
  by (simp add: tokens_before_def)

lemma tokens_before_Suc: "k < length hs \<Longrightarrow> tokens_before hs (Suc k) = tokens_before hs k + unat (hs ! k)"
  by (simp add: tokens_before_def take_Suc_conv_app_nth)

lemma tokens_before_none: "\<forall>x \<in> set (take k hs). x = 0 \<Longrightarrow> tokens_before hs k = 0"
  by (auto simp: tokens_before_def sum_list_eq_0_iff)

lemma tokens_before_mono: "i \<le> j \<Longrightarrow> tokens_before hs i \<le> tokens_before hs j"
  by (auto simp: tokens_before_def le_iff_add take_add)

lemma tokens_before_bound: "tokens_before hs k \<le> k * (2 ^ 32 - 1)"
proof (induction k)
  case (Suc k)
  have "unat (hs ! k) \<le> 2 ^ 32 - 1"
    using unsigned_less [where 'a = nat, of "hs ! k"] by simp
  with Suc show ?case
    by (cases "k < length hs") (simp_all add: tokens_before_Suc, simp add: tokens_before_def)
qed simp

text \<open>The tokens are numbered from the first bin on; the bin in which a number lies.\<close>

fun bin_of_token :: "u32 list \<Rightarrow> nat \<Rightarrow> nat" where
  "bin_of_token [] k = 0"
| "bin_of_token (h # hs) k = (if k < unat h then 0 else Suc (bin_of_token hs (k - unat h)))"

lemma bin_of_token_unique:
  "b < length hs \<Longrightarrow> tokens_before hs b \<le> k \<Longrightarrow> k < tokens_before hs (Suc b) \<Longrightarrow> bin_of_token hs k = b"
proof (induction hs k arbitrary: b rule: bin_of_token.induct)
  case (2 h hs k)
  then show ?case
    by (cases b) (auto simp: tokens_before_def less_diff_conv add.commute)
qed simp

lemma bin_of_token_less: "k < tokens_before hs n \<Longrightarrow> bin_of_token hs k < n"
proof (induction hs k arbitrary: n rule: bin_of_token.induct)
  case (2 h hs k)
  then show ?case
    by (cases n) (auto simp: tokens_before_def)
qed (simp add: tokens_before_def)

section \<open>The loops\<close>

lemma skip_zero_ok:
  assumes "\<exists>k. i \<le> k \<and> k < length hs \<and> hs ! k \<noteq> 0"
  shows "\<exists>j. skip_zero hs i = Inr j \<and> i \<le> j \<and> j < length hs \<and> hs ! j \<noteq> 0 \<and> (\<forall>k. i \<le> k \<and> k < j \<longrightarrow> hs ! k = 0)"
  using assms
proof (induction hs i rule: skip_zero.induct)
  case (1 hs i)
  have i: "i < length hs"
    using 1(2) by auto
  show ?case
  proof (cases "hs ! i = 0")
    case True
    then have "\<exists>k. Suc i \<le> k \<and> k < length hs \<and> hs ! k \<noteq> 0"
      using 1(2) by (metis le_eq_less_or_eq Suc_le_eq)
    then obtain j where "skip_zero hs (Suc i) = Inr j" "Suc i \<le> j" "j < length hs" "hs ! j \<noteq> 0" "\<forall>k. Suc i \<le> k \<and> k < j \<longrightarrow> hs ! k = 0"
      using 1(1) i True by auto
    moreover from this(5) have "\<forall>k. i \<le> k \<and> k < j \<longrightarrow> hs ! k = 0"
      using True by (metis Suc_leI le_neq_implies_less)
    ultimately show ?thesis
      using i True by (subst skip_zero.simps) auto
  next
    case False
    then show ?thesis
      using i by (subst skip_zero.simps) auto
  qed
qed

lemma weigh_ok:
  assumes "i < n" and "n \<le> length hs" and "n \<le> 127" and "unat w = tokens_before hs (Suc i)"
    and "tokens_before hs i < max 1 (unat c)" and "1 \<le> tokens_before hs (Suc i)" and "unat c \<le> tokens_before hs n"
  shows "\<exists>b. weigh hs (int n) c (int i) w = Inr (Some (int b)) \<and> b < n \<and>
    tokens_before hs b < max 1 (unat c) \<and> max 1 (unat c) \<le> tokens_before hs (Suc b)"
  using assms
proof (induction "n - i" arbitrary: i w rule: less_induct)
  case less
  show ?case
  proof (cases "w < c")
    case False
    then show ?thesis
      using less.prems by (subst weigh.simps) (auto simp: word_less_nat_alt)
  next
    case True
    then have lt: "tokens_before hs (Suc i) < unat c"
      using less.prems(4) by (simp add: word_less_nat_alt)
    then have i: "Suc i < n"
      using less.prems(1,7) by (metis Suc_lessI not_less)
    let ?w = "w + ucast (hs ! Suc i) :: u64"
    have sum: "tokens_before hs (Suc (Suc i)) = unat w + unat (hs ! Suc i)"
      using i less.prems(2,4) by (simp add: tokens_before_Suc)
    have "tokens_before hs (Suc (Suc i)) < 2 ^ 64"
      using tokens_before_bound [of hs "Suc (Suc i)"] i less.prems(3) by simp
    moreover have "unat (ucast (hs ! Suc i) :: u64) = unat (hs ! Suc i)"
      by (simp add: unsigned_ucast_eq take_bit_nat_eq_self less_trans [OF unsigned_less])
    ultimately have w: "unat ?w = tokens_before hs (Suc (Suc i))"
      using sum by (simp add: unat_add_lem [THEN iffD1])
    have "weigh hs (int n) c (int i) w = weigh hs (int n) c (int (Suc i)) ?w"
      using True i less.prems(2) by (subst weigh.simps) (auto simp: at_index_def nat_add_distrib add.commute)
    moreover have "\<exists>b. weigh hs (int n) c (int (Suc i)) ?w = Inr (Some (int b)) \<and> b < n \<and>
        tokens_before hs b < max 1 (unat c) \<and> max 1 (unat c) \<le> tokens_before hs (Suc b)"
      using i less.prems lt w tokens_before_mono [of "Suc i" "Suc (Suc i)" hs] by (intro less.hyps) auto
    ultimately show ?thesis
      by simp
  qed
qed

lemma choose_bin_token:
  assumes "n \<le> length hs" and "n \<le> 127" and "unat c < tokens_before hs n"
  shows "choose_bin hs (int n) c = Inr (Some (int (bin_of_token hs (unat c - 1)))) \<and> bin_of_token hs (unat c - 1) < n \<and>
    hs ! bin_of_token hs (unat c - 1) \<noteq> 0"
proof -
  have "\<exists>k < n. hs ! k \<noteq> 0"
  proof (rule ccontr)
    assume "\<not> (\<exists>k < n. hs ! k \<noteq> 0)"
    then have "\<forall>x \<in> set (take n hs). x = 0"
      using assms(1) by (auto simp: in_set_conv_nth)
    then show False
      using assms(3) tokens_before_none [of n hs] by simp
  qed
  then obtain k where k: "k < n" "hs ! k \<noteq> 0"
    by blast
  then have "\<exists>k. 0 \<le> k \<and> k < length hs \<and> hs ! k \<noteq> 0"
    using assms(1) by (intro exI [of _ k]) simp
  from skip_zero_ok [OF this] obtain i where i: "skip_zero hs 0 = Inr i" "i < length hs" "hs ! i \<noteq> 0" "\<forall>k < i. hs ! k = 0"
    by auto
  have "i < n"
    using i(4) k by (metis linorder_neqE_nat less_trans)
  have "\<forall>x \<in> set (take i hs). x = 0"
    using i(2,4) by (auto simp: in_set_conv_nth)
  then have zero: "tokens_before hs i = 0"
    by (rule tokens_before_none)
  have one: "tokens_before hs (Suc i) = unat (hs ! i)" "1 \<le> unat (hs ! i)"
    using i zero by (simp_all add: tokens_before_Suc Suc_le_eq unat_gt_0)
  have w: "unat (ucast (hs ! i) :: u64) = tokens_before hs (Suc i)"
    unfolding one(1) by (simp add: unsigned_ucast_eq take_bit_nat_eq_self less_trans [OF unsigned_less])
  have "tokens_before hs i < max 1 (unat c)" "1 \<le> tokens_before hs (Suc i)" "unat c \<le> tokens_before hs n"
    using zero one assms(3) by simp_all
  from weigh_ok [OF \<open>i < n\<close> assms(1,2) w this] obtain b where b: "weigh hs (int n) c (int i) (ucast (hs ! i)) = Inr (Some (int b))" "b < n"
    "tokens_before hs b < max 1 (unat c)" "max 1 (unat c) \<le> tokens_before hs (Suc b)"
    by blast
  then have "bin_of_token hs (unat c - 1) = b"
    using assms(1) by (intro bin_of_token_unique) auto
  moreover have "hs ! b \<noteq> 0"
    using b assms(1) tokens_before_Suc [of b hs] by auto
  ultimately show ?thesis
    using b i(1) by (simp add: choose_bin_def)
qed

section \<open>The delay\<close>

lemma sum_list_ucast:
  assumes "n \<le> length hs" and "n \<le> 127"
  shows "unat (sum_list (map ucast (take n hs)) :: u64) = tokens_before hs n"
  using assms
proof (induction n)
  case (Suc n)
  have "tokens_before hs (Suc n) < 2 ^ 64"
    using tokens_before_bound [of hs "Suc n"] Suc.prems(2) by simp
  moreover have "unat (ucast (hs ! n) :: u64) = unat (hs ! n)"
    by (simp add: unsigned_ucast_eq take_bit_nat_eq_self less_trans [OF unsigned_less])
  ultimately show ?case
    using Suc by (simp add: take_Suc_conv_app_nth tokens_before_Suc unat_add_lem [THEN iffD1])
qed simp

text \<open>
  A delay that was drawn from a bin: it is at least the lower end of the bin and below the upper end; a bin without extent, which
  the round-trip time can produce by wrapping around, has its lower end as its only delay.
\<close>

definition drawn_from :: "circpad_machine_spec \<Rightarrow> circpad_machine_runtime \<Rightarrow> nat \<Rightarrow> u32 \<Rightarrow> bool" where
  "drawn_from machine mi b usec \<longleftrightarrow>
     (case (circpad_histogram_bin_to_usec machine mi (int b), circpad_histogram_bin_to_usec machine mi (int b + 1)) of
        (Inr lower, Inr upper) \<Rightarrow> lower \<le> usec \<and> (usec < upper \<or> upper \<le> lower \<and> usec = lower)
      | _ \<Rightarrow> False)"

lemma draw_between:
  fixes s t :: u32
  assumes "s < t"
  shows "s \<le> ucast (ucast s + draw mod (ucast t - ucast s) :: u64)" and "ucast (ucast s + draw mod (ucast t - ucast s) :: u64) < t"
proof -
  have u: "unat (ucast x :: u64) = unat x" for x :: u32
    by (simp add: unsigned_ucast_eq take_bit_nat_eq_self less_trans [OF unsigned_less])
  have bound: "unat x < 2 ^ 32" for x :: u32
    using unsigned_less [where 'a = nat, of x] by simp
  let ?d = "draw mod (ucast t - ucast s) :: u64"
  have diff: "unat (ucast t - ucast s :: u64) = unat t - unat s"
    using assms by (simp add: unat_sub u word_le_nat_alt word_less_nat_alt)
  have "unat ?d < unat t - unat s"
    unfolding unat_mod diff using assms by (simp add: word_less_nat_alt)
  then have "unat s + unat ?d < unat t"
    by linarith
  then have sum: "unat (ucast s + ?d) = unat s + unat ?d" "unat s + unat ?d < unat t"
    using bound [of t] by (simp_all add: u unat_add_lem [THEN iffD1])
  have "unat (ucast (ucast s + ?d) :: u32) = unat s + unat ?d"
    using sum bound [of t] by (simp add: unsigned_ucast_eq take_bit_nat_eq_self)
  then show "s \<le> ucast (ucast s + ?d)" "ucast (ucast s + ?d) < t"
    using sum by (simp_all add: word_less_nat_alt word_le_nat_alt)
qed

lemma current_state_chosen_bin [simp]:
  "circpad_machine_current_state machine (mi\<lparr>chosen_bin := b\<rparr>) = circpad_machine_current_state machine mi"
  by (simp add: circpad_machine_current_state_def)

section \<open>Which token is chosen\<close>

text \<open>
  Which bin is chosen: a random number stands for the token before the one it numbers, when tokens are
  numbered from the first bin on, except zero, which stands for the first token as one does. So the first
  token is chosen for two numbers and the last for none.
\<close>

lemma bin_choice_shifted:
  assumes "n \<le> length hs" and "n \<le> 127" and "unat c < tokens_before hs n"
  shows "choose_bin hs (int n) c = Inr (Some (int (bin_of_token hs (unat c - 1))))"
  using choose_bin_token [OF assms] by blast

text \<open>In particular a last bin with one token is never chosen.\<close>

lemma last_token_never_chosen:
  assumes "n < length hs" and "n < 127" and "unat (hs ! n) = 1" and "unat c < tokens_before hs (Suc n)" and "0 < tokens_before hs n"
  shows "choose_bin hs (int (Suc n)) c \<noteq> Inr (Some (int n))"
proof -
  have "unat c - 1 < tokens_before hs n"
    using assms(3-5) tokens_before_Suc [OF assms(1)] by simp
  then have "bin_of_token hs (unat c - 1) < n"
    by (rule bin_of_token_less)
  then show ?thesis
    using choose_bin_token [of "Suc n" hs c] assms by auto
qed

end
