(* ===== verification/Circpad_Cell.thy ===== *)
theory Circpad_Cell
  imports Trunnel
begin

text \<open>
  The two cells of padding negotiation, \<^verbatim>\<open>src/trunnel/circpad_negotiation.c\<close>: the client's
  request to start or stop a machine, and the relay's answer. Both have a fixed length of eight bytes.
\<close>

definition CIRCPAD_COMMAND_STOP :: u8 where "CIRCPAD_COMMAND_STOP = 1"
definition CIRCPAD_COMMAND_START :: u8 where "CIRCPAD_COMMAND_START = 2"
definition CIRCPAD_RESPONSE_OK :: u8 where "CIRCPAD_RESPONSE_OK = 1"
definition CIRCPAD_RESPONSE_ERR :: u8 where "CIRCPAD_RESPONSE_ERR = 2"

lemmas circpad_codes = CIRCPAD_COMMAND_STOP_def CIRCPAD_COMMAND_START_def CIRCPAD_RESPONSE_OK_def CIRCPAD_RESPONSE_ERR_def

definition is_command :: "u8 \<Rightarrow> bool" where
  "is_command val \<longleftrightarrow> val = CIRCPAD_COMMAND_START \<or> val = CIRCPAD_COMMAND_STOP"

definition is_response :: "u8 \<Rightarrow> bool" where
  "is_response val \<longleftrightarrow> val = CIRCPAD_RESPONSE_ERR \<or> val = CIRCPAD_RESPONSE_OK"

section \<open>The request\<close>

record circpad_negotiate =
  neg_version :: u8
  neg_command :: u8
  neg_machine_type :: u8
  neg_echo_request :: u8
  neg_machine_ctr :: u32
  neg_error_code :: bool

definition circpad_negotiate_new :: circpad_negotiate where
  "circpad_negotiate_new = \<lparr>neg_version = 0, neg_command = CIRCPAD_COMMAND_START, neg_machine_type = 0,
     neg_echo_request = 0, neg_machine_ctr = 0, neg_error_code = False\<rparr>"

definition circpad_negotiate_set_version :: "circpad_negotiate \<Rightarrow> u8 \<Rightarrow> circpad_negotiate \<times> int" where
  "circpad_negotiate_set_version inp val =
     (if val \<noteq> 0 then (inp\<lparr>neg_error_code := True\<rparr>, -1) else (inp\<lparr>neg_version := val\<rparr>, 0))"

definition circpad_negotiate_set_command :: "circpad_negotiate \<Rightarrow> u8 \<Rightarrow> circpad_negotiate \<times> int" where
  "circpad_negotiate_set_command inp val =
     (if \<not> is_command val then (inp\<lparr>neg_error_code := True\<rparr>, -1) else (inp\<lparr>neg_command := val\<rparr>, 0))"

definition circpad_negotiate_set_machine_type :: "circpad_negotiate \<Rightarrow> u8 \<Rightarrow> circpad_negotiate" where
  "circpad_negotiate_set_machine_type inp val = inp\<lparr>neg_machine_type := val\<rparr>"

definition circpad_negotiate_set_echo_request :: "circpad_negotiate \<Rightarrow> u8 \<Rightarrow> circpad_negotiate \<times> int" where
  "circpad_negotiate_set_echo_request inp val =
     (if \<not> (val = 0 \<or> val = 1) then (inp\<lparr>neg_error_code := True\<rparr>, -1) else (inp\<lparr>neg_echo_request := val\<rparr>, 0))"

definition circpad_negotiate_set_machine_ctr :: "circpad_negotiate \<Rightarrow> u32 \<Rightarrow> circpad_negotiate" where
  "circpad_negotiate_set_machine_ctr inp val = inp\<lparr>neg_machine_ctr := val\<rparr>"

definition circpad_negotiate_check :: "circpad_negotiate \<Rightarrow> string option" where
  "circpad_negotiate_check obj =
     (if neg_error_code obj then Some ''A set function failed on this object''
      else if neg_version obj \<noteq> 0 then Some ''Integer out of bounds''
      else if \<not> is_command (neg_command obj) then Some ''Integer out of bounds''
      else if \<not> (neg_echo_request obj = 0 \<or> neg_echo_request obj = 1) then Some ''Integer out of bounds''
      else None)"

definition circpad_negotiate_encoded_len :: "circpad_negotiate \<Rightarrow> int" where
  "circpad_negotiate_encoded_len obj = (if circpad_negotiate_check obj \<noteq> None then -1 else 1 + 1 + 1 + 1 + 4)"

definition circpad_negotiate_encode :: "nat \<Rightarrow> circpad_negotiate \<Rightarrow> wire_error + u8 list" where
  "circpad_negotiate_encode avail obj =
     (if circpad_negotiate_check obj \<noteq> None then Inl Check_Failed
      else
        and_then (emit avail [neg_version obj] []) (\<lambda>out.
        and_then (emit avail [neg_command obj] out) (\<lambda>out.
        and_then (emit avail [neg_machine_type obj] out) (\<lambda>out.
        and_then (emit avail [neg_echo_request obj] out) (\<lambda>out.
        emit avail (put_be 4 (neg_machine_ctr obj)) out)))))"

definition circpad_negotiate_parse :: "u8 list \<Rightarrow> wire_error + circpad_negotiate \<times> nat" where
  "circpad_negotiate_parse input =
     and_then (take_bytes 1 input) (\<lambda>(b, ptr). let v = hd b in
     if v \<noteq> 0 then Inl Check_Failed else
     and_then (take_bytes 1 ptr) (\<lambda>(b, ptr). let cmd = hd b in
     if \<not> is_command cmd then Inl Check_Failed else
     and_then (take_bytes 1 ptr) (\<lambda>(b, ptr). let ty = hd b in
     and_then (take_bytes 1 ptr) (\<lambda>(b, ptr). let e = hd b in
     if \<not> (e = 0 \<or> e = 1) then Inl Check_Failed else
     and_then (take_bytes 4 ptr) (\<lambda>(b, rest).
     Inr (\<lparr>neg_version = v, neg_command = cmd, neg_machine_type = ty, neg_echo_request = e,
            neg_machine_ctr = get_be b, neg_error_code = False\<rparr>, length input - length rest))))))"

section \<open>The answer\<close>

record circpad_negotiated =
  ngd_version :: u8
  ngd_command :: u8
  ngd_response :: u8
  ngd_machine_type :: u8
  ngd_machine_ctr :: u32
  ngd_error_code :: bool

definition circpad_negotiated_new :: circpad_negotiated where
  "circpad_negotiated_new = \<lparr>ngd_version = 0, ngd_command = CIRCPAD_COMMAND_START, ngd_response = CIRCPAD_RESPONSE_ERR,
     ngd_machine_type = 0, ngd_machine_ctr = 0, ngd_error_code = False\<rparr>"

definition circpad_negotiated_set_version :: "circpad_negotiated \<Rightarrow> u8 \<Rightarrow> circpad_negotiated \<times> int" where
  "circpad_negotiated_set_version inp val =
     (if val \<noteq> 0 then (inp\<lparr>ngd_error_code := True\<rparr>, -1) else (inp\<lparr>ngd_version := val\<rparr>, 0))"

definition circpad_negotiated_set_command :: "circpad_negotiated \<Rightarrow> u8 \<Rightarrow> circpad_negotiated \<times> int" where
  "circpad_negotiated_set_command inp val =
     (if \<not> is_command val then (inp\<lparr>ngd_error_code := True\<rparr>, -1) else (inp\<lparr>ngd_command := val\<rparr>, 0))"

definition circpad_negotiated_set_response :: "circpad_negotiated \<Rightarrow> u8 \<Rightarrow> circpad_negotiated \<times> int" where
  "circpad_negotiated_set_response inp val =
     (if \<not> is_response val then (inp\<lparr>ngd_error_code := True\<rparr>, -1) else (inp\<lparr>ngd_response := val\<rparr>, 0))"

definition circpad_negotiated_set_machine_type :: "circpad_negotiated \<Rightarrow> u8 \<Rightarrow> circpad_negotiated" where
  "circpad_negotiated_set_machine_type inp val = inp\<lparr>ngd_machine_type := val\<rparr>"

definition circpad_negotiated_set_machine_ctr :: "circpad_negotiated \<Rightarrow> u32 \<Rightarrow> circpad_negotiated" where
  "circpad_negotiated_set_machine_ctr inp val = inp\<lparr>ngd_machine_ctr := val\<rparr>"

definition circpad_negotiated_check :: "circpad_negotiated \<Rightarrow> string option" where
  "circpad_negotiated_check obj =
     (if ngd_error_code obj then Some ''A set function failed on this object''
      else if ngd_version obj \<noteq> 0 then Some ''Integer out of bounds''
      else if \<not> is_command (ngd_command obj) then Some ''Integer out of bounds''
      else if \<not> is_response (ngd_response obj) then Some ''Integer out of bounds''
      else None)"

definition circpad_negotiated_encoded_len :: "circpad_negotiated \<Rightarrow> int" where
  "circpad_negotiated_encoded_len obj = (if circpad_negotiated_check obj \<noteq> None then -1 else 1 + 1 + 1 + 1 + 4)"

definition circpad_negotiated_encode :: "nat \<Rightarrow> circpad_negotiated \<Rightarrow> wire_error + u8 list" where
  "circpad_negotiated_encode avail obj =
     (if circpad_negotiated_check obj \<noteq> None then Inl Check_Failed
      else
        and_then (emit avail [ngd_version obj] []) (\<lambda>out.
        and_then (emit avail [ngd_command obj] out) (\<lambda>out.
        and_then (emit avail [ngd_response obj] out) (\<lambda>out.
        and_then (emit avail [ngd_machine_type obj] out) (\<lambda>out.
        emit avail (put_be 4 (ngd_machine_ctr obj)) out)))))"

definition circpad_negotiated_parse :: "u8 list \<Rightarrow> wire_error + circpad_negotiated \<times> nat" where
  "circpad_negotiated_parse input =
     and_then (take_bytes 1 input) (\<lambda>(b, ptr). let v = hd b in
     if v \<noteq> 0 then Inl Check_Failed else
     and_then (take_bytes 1 ptr) (\<lambda>(b, ptr). let cmd = hd b in
     if \<not> is_command cmd then Inl Check_Failed else
     and_then (take_bytes 1 ptr) (\<lambda>(b, ptr). let r = hd b in
     if \<not> is_response r then Inl Check_Failed else
     and_then (take_bytes 1 ptr) (\<lambda>(b, ptr). let ty = hd b in
     and_then (take_bytes 4 ptr) (\<lambda>(b, rest).
     Inr (\<lparr>ngd_version = v, ngd_command = cmd, ngd_response = r, ngd_machine_type = ty,
            ngd_machine_ctr = get_be b, ngd_error_code = False\<rparr>, length input - length rest))))))"

section \<open>Round trips\<close>

lemma circpad_negotiate_encode_Inr:
  "circpad_negotiate_encode avail obj = Inr bs \<longleftrightarrow> circpad_negotiate_check obj = None \<and> 8 \<le> avail \<and>
    bs = [0, neg_command obj, neg_machine_type obj, neg_echo_request obj] @ put_be 4 (neg_machine_ctr obj)"
  by (auto simp: circpad_negotiate_encode_def emit_def and_then_Inr circpad_negotiate_check_def split: if_splits)

lemma circpad_negotiated_encode_Inr:
  "circpad_negotiated_encode avail obj = Inr bs \<longleftrightarrow> circpad_negotiated_check obj = None \<and> 8 \<le> avail \<and>
    bs = [0, ngd_command obj, ngd_response obj, ngd_machine_type obj] @ put_be 4 (ngd_machine_ctr obj)"
  by (auto simp: circpad_negotiated_encode_def emit_def and_then_Inr circpad_negotiated_check_def split: if_splits)

lemma circpad_negotiate_parse_Inr:
  "circpad_negotiate_parse bs = Inr (obj, n) \<longleftrightarrow> circpad_negotiate_check obj = None \<and> n = 8 \<and>
    (\<exists>ctr rest. bs = [0, neg_command obj, neg_machine_type obj, neg_echo_request obj] @ ctr @ rest \<and> length ctr = 4 \<and>
      neg_machine_ctr obj = get_be ctr)"
  (is "?l = ?r")
proof
  show "?l \<Longrightarrow> ?r"
    by (auto simp: circpad_negotiate_parse_def circpad_negotiate_check_def Let_def and_then_Inr take_bytes_Inr length_Suc_conv
        split: if_splits prod.splits) blast+
  show "?r \<Longrightarrow> ?l"
    by (cases obj) (auto simp: circpad_negotiate_parse_def circpad_negotiate_check_def split: if_splits)
qed

lemma circpad_negotiated_parse_Inr:
  "circpad_negotiated_parse bs = Inr (obj, n) \<longleftrightarrow> circpad_negotiated_check obj = None \<and> n = 8 \<and>
    (\<exists>ctr rest. bs = [0, ngd_command obj, ngd_response obj, ngd_machine_type obj] @ ctr @ rest \<and> length ctr = 4 \<and>
      ngd_machine_ctr obj = get_be ctr)"
  (is "?l = ?r")
proof
  show "?l \<Longrightarrow> ?r"
    by (auto simp: circpad_negotiated_parse_def circpad_negotiated_check_def Let_def and_then_Inr take_bytes_Inr length_Suc_conv
        split: if_splits prod.splits) blast+
  show "?r \<Longrightarrow> ?l"
    by (cases obj) (auto simp: circpad_negotiated_parse_def circpad_negotiated_check_def split: if_splits)
qed

text \<open>Both formats meet the contract of a wire format: every object that can be encoded is read back as it was.\<close>

interpretation negotiate: codec circpad_negotiate_encode circpad_negotiate_parse id
  circpad_negotiate_encoded_len "\<lambda>_. True"
proof (unfold_locales, goal_cases)
  case (5 bs x n rest)
  then obtain ctr rest' where b: "bs = [0, neg_command x, neg_machine_type x, neg_echo_request x] @ ctr @ rest'"
    "length ctr = 4" "neg_machine_ctr x = get_be ctr" "circpad_negotiate_check x = None" "n = 8"
    unfolding circpad_negotiate_parse_Inr by blast
  then show ?case
    unfolding circpad_negotiate_parse_Inr by auto
qed (auto simp: circpad_negotiate_encode_Inr circpad_negotiate_parse_Inr circpad_negotiate_encoded_len_def)

interpretation negotiated: codec circpad_negotiated_encode circpad_negotiated_parse id
  circpad_negotiated_encoded_len "\<lambda>_. True"
proof (unfold_locales, goal_cases)
  case (5 bs x n rest)
  then obtain ctr rest' where b: "bs = [0, ngd_command x, ngd_response x, ngd_machine_type x] @ ctr @ rest'"
    "length ctr = 4" "ngd_machine_ctr x = get_be ctr" "circpad_negotiated_check x = None" "n = 8"
    unfolding circpad_negotiated_parse_Inr by blast
  then show ?case
    unfolding circpad_negotiated_parse_Inr by auto
qed (auto simp: circpad_negotiated_encode_Inr circpad_negotiated_parse_Inr circpad_negotiated_encoded_len_def)

end
