(* ===== verification/Circpad_Machine.thy ===== *)
theory Circpad_Machine
  imports Circpad_Hist Circpad_Cell
begin

text \<open>
  Circuit padding, the state machines (\<^verbatim>\<open>src/core/or/circuitpadding.c\<close>): transitions, scheduling, cells
  that are sent and received, conditions, and how machines are set up and torn down. Runtime information
  is allocated and freed, and functions hold pointers to it over calls that may free it, so it lives in a heap of
  addresses. Sending a cell delivers events to the machines and can shut down and add machines, so
  the functions call each other in a circle; the two calls that close it are passed as the parameter \<open>self\<close>,
  and \<open>pad_run\<close> ties the knot with a bound on the depth of the stack.
\<close>

section \<open>Circuits\<close>

record hop =
  hop_open :: bool
  hop_supports_padding :: bool

text \<open>
  A circuit with the parts that padding reads and writes, the counters of the process, what was packaged
  (command, payload, hop; hop 0 is the way back to the origin), and the number of reads of clock and random numbers.
\<close>

record pad_world =
  purpose :: u8
  circuit_open :: bool
  marked_for_close :: bool
  timestamp_dirty :: int
  padding_machine :: "circpad_machine_spec option list"
  padding_info :: "nat option list"
  padding_machine_ctr :: u32
  runtimes :: "nat \<Rightarrow> circpad_machine_runtime option"
  next_addr :: nat
  padding_negotiation_failed :: bool
  has_opened :: bool
  has_streams :: bool
  remaining_relay_early_cells :: nat
  cpath :: "hop list"
  p_chan_cells :: nat
  globals :: circpad_globals
  sent :: "(u8 \<times> u8 list \<times> nat) list"
  reads :: nat

text \<open>
  The rest of the process: random numbers and the clock by the number of reads, options, registered machines,
  whether a cell can be packaged, and the plugins. \<open>replace_hook\<close> is the operation that may stand in for
  \<open>circpad_send_padding_cell_for_callback\<close>, with its result; the other hooks run beside the built-in code.
\<close>

record pad_env =
  draw_at :: "nat \<Rightarrow> draws"
  length_draw_at :: "nat \<Rightarrow> rat"
  usec_at :: "nat \<Rightarrow> u64"
  approx_time :: int
  opt_CircuitPadding :: bool
  opt_ReducedCircuitPadding :: bool
  opt_vanguards :: bool
  is_participating_on_network :: bool
  origin_padding_machines :: "circpad_machine_spec list"
  relay_padding_machines :: "circpad_machine_spec list"
  packaged :: "nat \<Rightarrow> bool"
  replace_hook :: "nat \<Rightarrow> pad_world \<Rightarrow> pad_world \<times> int"
  add_hook :: "string \<Rightarrow> pad_world \<Rightarrow> pad_world"

definition CIRCPAD_MAX_MACHINES :: nat where "CIRCPAD_MAX_MACHINES = 3"

definition CIRCPAD_EVENT_NONPADDING_RECV :: int where "CIRCPAD_EVENT_NONPADDING_RECV = 0"
definition CIRCPAD_EVENT_NONPADDING_SENT :: int where "CIRCPAD_EVENT_NONPADDING_SENT = 1"
definition CIRCPAD_EVENT_PADDING_SENT :: int where "CIRCPAD_EVENT_PADDING_SENT = 2"
definition CIRCPAD_EVENT_PADDING_RECV :: int where "CIRCPAD_EVENT_PADDING_RECV = 3"
definition CIRCPAD_EVENT_INFINITY :: int where "CIRCPAD_EVENT_INFINITY = 4"
definition CIRCPAD_EVENT_BINS_EMPTY :: int where "CIRCPAD_EVENT_BINS_EMPTY = 5"
definition CIRCPAD_EVENT_LENGTH_COUNT :: int where "CIRCPAD_EVENT_LENGTH_COUNT = 6"

lemmas circpad_events = CIRCPAD_EVENT_NONPADDING_RECV_def CIRCPAD_EVENT_NONPADDING_SENT_def CIRCPAD_EVENT_PADDING_SENT_def
  CIRCPAD_EVENT_PADDING_RECV_def CIRCPAD_EVENT_INFINITY_def CIRCPAD_EVENT_BINS_EMPTY_def CIRCPAD_EVENT_LENGTH_COUNT_def

text \<open>A decision is a C integer: a plugin may return any.\<close>

definition CIRCPAD_STATE_UNCHANGED :: int where "CIRCPAD_STATE_UNCHANGED = 0"
definition CIRCPAD_STATE_CHANGED :: int where "CIRCPAD_STATE_CHANGED = 1"

lemmas circpad_decisions = CIRCPAD_STATE_UNCHANGED_def CIRCPAD_STATE_CHANGED_def

definition RELAY_COMMAND_EXTEND :: u8 where "RELAY_COMMAND_EXTEND = 6"
definition RELAY_COMMAND_DROP :: u8 where "RELAY_COMMAND_DROP = 10"
definition RELAY_COMMAND_EXTEND2 :: u8 where "RELAY_COMMAND_EXTEND2 = 14"
definition RELAY_COMMAND_PADDING_NEGOTIATE :: u8 where "RELAY_COMMAND_PADDING_NEGOTIATE = 41"
definition RELAY_COMMAND_PADDING_NEGOTIATED :: u8 where "RELAY_COMMAND_PADDING_NEGOTIATED = 42"

lemmas relay_commands = RELAY_COMMAND_EXTEND_def RELAY_COMMAND_DROP_def RELAY_COMMAND_EXTEND2_def
  RELAY_COMMAND_PADDING_NEGOTIATE_def RELAY_COMMAND_PADDING_NEGOTIATED_def

definition PAD_RUN_DEFAULT :: int where "PAD_RUN_DEFAULT = -2147483648"
definition PAD_CELL_PAYLOAD_SIZE :: nat where "PAD_CELL_PAYLOAD_SIZE = 509"
definition CIRCUIT_PURPOSE_OR_MAX :: u8 where "CIRCUIT_PURPOSE_OR_MAX = 4"

definition CIRCUIT_IS_ORIGIN :: "pad_world \<Rightarrow> bool" where
  "CIRCUIT_IS_ORIGIN w \<longleftrightarrow> CIRCUIT_PURPOSE_OR_MAX < purpose w"

section \<open>Actions on a circuit\<close>

type_synonym 'a act = "pad_world \<Rightarrow> cp_fault + pad_world \<times> 'a"

definition return_val :: "'a \<Rightarrow> 'a act" where
  "return_val x = (\<lambda>w. Inr (w, x))"

definition seq :: "'a act \<Rightarrow> ('a \<Rightarrow> 'b act) \<Rightarrow> 'b act" where
  "seq m f = (\<lambda>w. and_then (m w) (\<lambda>(w, x). f x w))"

definition look :: "(pad_world \<Rightarrow> 'a) \<Rightarrow> 'a act" where
  "look f = (\<lambda>w. Inr (w, f w))"

definition modify :: "(pad_world \<Rightarrow> pad_world) \<Rightarrow> unit act" where
  "modify f = (\<lambda>w. Inr (f w, ()))"

definition check :: "cp_fault + 'a \<Rightarrow> 'a act" where
  "check r = (\<lambda>w. and_then r (\<lambda>x. Inr (w, x)))"

text \<open>Reading and writing through a pointer to runtime information.\<close>

definition get_runtime :: "nat \<Rightarrow> circpad_machine_runtime act" where
  "get_runtime p = (\<lambda>w. case runtimes w p of None \<Rightarrow> Inl Use_After_Free | Some mi \<Rightarrow> Inr (w, mi))"

definition set_runtime :: "nat \<Rightarrow> circpad_machine_runtime \<Rightarrow> unit act" where
  "set_runtime p mi = (\<lambda>w. if runtimes w p = None then Inl Use_After_Free
     else Inr (w\<lparr>runtimes := (runtimes w)(p \<mapsto> mi)\<rparr>, ()))"

definition update_runtime :: "nat \<Rightarrow> (circpad_machine_runtime \<Rightarrow> circpad_machine_runtime) \<Rightarrow> unit act" where
  "update_runtime p f = seq (get_runtime p) (\<lambda>mi. set_runtime p (f mi))"

text \<open>\<open>CIRCPAD_GET_MACHINE\<close>, and \<open>circ->padding_info[i]\<close> where it is dereferenced.\<close>

definition CIRCPAD_GET_MACHINE :: "circpad_machine_runtime \<Rightarrow> circpad_machine_spec act" where
  "CIRCPAD_GET_MACHINE mi = (\<lambda>w. and_then (at_index (padding_machine w) (int (mi_index mi))) (\<lambda>m.
     case m of None \<Rightarrow> Inl Null_Pointer | Some machine \<Rightarrow> Inr (w, machine)))"

definition info_at :: "nat \<Rightarrow> nat act" where
  "info_at i = (\<lambda>w. and_then (at_index (padding_info w) (int i)) (\<lambda>r.
     case r of None \<Rightarrow> Inl Null_Pointer | Some p \<Rightarrow> Inr (w, p)))"

definition machine_at :: "nat \<Rightarrow> circpad_machine_spec act" where
  "machine_at i = (\<lambda>w. and_then (at_index (padding_machine w) (int i)) (\<lambda>m.
     case m of None \<Rightarrow> Inl Null_Pointer | Some machine \<Rightarrow> Inr (w, machine)))"

text \<open>Runtime information together with its machine.\<close>

definition with_machine :: "nat \<Rightarrow> (circpad_machine_spec \<Rightarrow> circpad_machine_runtime \<Rightarrow> 'a act) \<Rightarrow> 'a act" where
  "with_machine p f = seq (get_runtime p) (\<lambda>mi. seq (CIRCPAD_GET_MACHINE mi) (\<lambda>machine. f machine mi))"

text \<open>The clock and the random numbers.\<close>

definition next_read :: "nat act" where
  "next_read = (\<lambda>w. Inr (w\<lparr>reads := Suc (reads w)\<rparr>, reads w))"

definition monotime_absolute_usec :: "pad_env \<Rightarrow> u64 act" where
  "monotime_absolute_usec e = seq next_read (\<lambda>n. return_val (usec_at e n))"

text \<open>\<open>FOR_EACH_ACTIVE_CIRCUIT_MACHINE\<close>: each slot is tested when its turn comes.\<close>

fun for_each_active :: "(nat \<Rightarrow> unit act) \<Rightarrow> nat list \<Rightarrow> unit act" where
  "for_each_active body [] = return_val ()"
| "for_each_active body (i # is) =
     seq (look (\<lambda>w. padding_info w ! i)) (\<lambda>r.
     seq (if r = None then return_val () else body i) (\<lambda>_. for_each_active body is))"

definition machine_slots :: "nat list" where
  "machine_slots = [0..<CIRCPAD_MAX_MACHINES]"

section \<open>Runtime information\<close>

definition circpad_circuit_machineinfo_free_idx :: "nat \<Rightarrow> unit act" where
  "circpad_circuit_machineinfo_free_idx idx = (\<lambda>w. and_then (at_index (padding_info w) (int idx)) (\<lambda>r.
     case r of
       None \<Rightarrow> Inr (w, ())
     | Some p \<Rightarrow> if runtimes w p = None then Inl Use_After_Free
         else Inr (w\<lparr>padding_info := (padding_info w)[idx := None], runtimes := (runtimes w)(p := None)\<rparr>, ())))"

definition clear_machine :: "nat \<Rightarrow> unit act" where
  "clear_machine i = modify (\<lambda>w. w\<lparr>padding_machine := (padding_machine w)[i := None]\<rparr>)"

fun free_matching :: "u8 \<Rightarrow> u32 \<Rightarrow> nat list \<Rightarrow> bool \<Rightarrow> bool act" where
  "free_matching num ctr [] found = return_val found"
| "free_matching num ctr (i # is) found =
     seq (look (\<lambda>w. (padding_machine w ! i, padding_info w ! i))) (\<lambda>(m, r).
     case m of
       None \<Rightarrow> free_matching num ctr is found
     | Some machine \<Rightarrow>
         if machine_num machine \<noteq> num then free_matching num ctr is found
         else seq (if ctr = 0 then return_val False
                   else case r of None \<Rightarrow> return_val False
                     | Some p \<Rightarrow> seq (get_runtime p) (\<lambda>mi. return_val (machine_ctr mi \<noteq> ctr))) (\<lambda>wrong.
           if wrong then free_matching num ctr is found
           else seq (circpad_circuit_machineinfo_free_idx i) (\<lambda>_.
             seq (clear_machine i) (\<lambda>_. free_matching num ctr is True))))"

definition free_circ_machineinfos_with_machine_num :: "u8 \<Rightarrow> u32 \<Rightarrow> bool act" where
  "free_circ_machineinfos_with_machine_num num ctr = free_matching num ctr machine_slots False"

fun free_slots :: "nat list \<Rightarrow> unit act" where
  "free_slots [] = return_val ()"
| "free_slots (i # is) = seq (circpad_circuit_machineinfo_free_idx i) (\<lambda>_. free_slots is)"

definition circpad_circuit_free_all_machineinfos :: "unit act" where
  "circpad_circuit_free_all_machineinfos = free_slots machine_slots"

definition new_runtime :: "pad_env \<Rightarrow> nat \<Rightarrow> u32 \<Rightarrow> circpad_machine_runtime" where
  "new_runtime e index ctr = \<lparr>mi_histogram = None, mi_histogram_len = 0, chosen_bin = 0, state_length = 0, padding_sent = 0,
     nonpadding_sent = 0, last_cell_time_sec = approx_time e, rtt_estimate_usec = 0, last_received_time_usec = 0,
     padding_scheduled_at_usec = 0, current_state = 0, machine_ctr = ctr, is_padding_timer_scheduled = False,
     stop_rtt_update = False, timer_usec = 0, mi_index = index\<rparr>"

definition circpad_circuit_machineinfo_new :: "pad_env \<Rightarrow> nat \<Rightarrow> nat act" where
  "circpad_circuit_machineinfo_new e index = (\<lambda>w.
     Inr (w\<lparr>runtimes := (runtimes w)(next_addr w \<mapsto> new_runtime e index (padding_machine_ctr w)), next_addr := Suc (next_addr w)\<rparr>,
          next_addr w))"

text \<open>A runtime is set up for a machine of the right side in a free slot; otherwise it is reported and nothing is done.\<close>

definition circpad_setup_machine_on_circ :: "pad_env \<Rightarrow> circpad_machine_spec \<Rightarrow> unit act" where
  "circpad_setup_machine_on_circ e machine =
     seq (look CIRCUIT_IS_ORIGIN) (\<lambda>origin.
     if origin \<noteq> is_origin_side machine then return_val ()
     else seq (\<lambda>w. check (at_index (padding_machine w) (int (machine_index machine))) w) (\<lambda>m.
       if m \<noteq> None then return_val ()
       else seq (\<lambda>w. check (at_index (padding_info w) (int (machine_index machine))) w) (\<lambda>r.
         if r \<noteq> None then return_val ()
         else seq (modify (\<lambda>w. w\<lparr>padding_machine_ctr :=
                     (if padding_machine_ctr w + 1 = 0 then 1 else padding_machine_ctr w + 1)\<rparr>)) (\<lambda>_.
           seq (circpad_circuit_machineinfo_new e (machine_index machine)) (\<lambda>p.
           modify (\<lambda>w. add_hook e ''circpad_setup_machine_on_circ_add''
             (w\<lparr>padding_info := (padding_info w)[machine_index machine := Some p],
                padding_machine := (padding_machine w)[machine_index machine := Some machine]\<rparr>)))))))"

definition circpad_choose_state_length :: "pad_env \<Rightarrow> nat \<Rightarrow> unit act" where
  "circpad_choose_state_length e p = with_machine p (\<lambda>machine mi.
     case circpad_machine_current_state machine mi of
       None \<Rightarrow> set_runtime p (mi\<lparr>state_length := CIRCPAD_STATE_LENGTH_INFINITE\<rparr>)
     | Some state \<Rightarrow>
         if dist_type (length_dist state) = CIRCPAD_DIST_NONE then set_runtime p (mi\<lparr>state_length := CIRCPAD_STATE_LENGTH_INFINITE\<rparr>)
         else seq next_read (\<lambda>n.
           let len = max 0 (length_draw_at e n) + of_nat (unat (start_length state));
               len = (if max_length state \<noteq> 0 then min len (of_nat (unat (max_length state))) else len)
           in set_runtime p (mi\<lparr>state_length := of_int (min \<lfloor>len\<rfloor> 0x7FFFFFFFFFFFFFFF)\<rparr>)))"

text \<open>The renewal of tokens, through the pointer.\<close>

definition setup_tokens :: "nat \<Rightarrow> unit act" where
  "setup_tokens p = with_machine p (\<lambda>machine mi. seq (check (circpad_machine_setup_tokens machine mi)) (set_runtime p))"

section \<open>Calls that close the circle\<close>

text \<open>
  A call of \<open>circpad_machine_spec_transition\<close>, with its decision, and a call of \<open>relay_send_command_from_edge\<close>, with its
  return value.
\<close>

datatype pad_call = Transition nat int | Relay_Send u8 "u8 list" nat

type_synonym pad_self = "pad_call \<Rightarrow> int act"

section \<open>Sending cells\<close>

text \<open>\<open>circuit_get_cpath_hop\<close>; hops are numbered from one.\<close>

definition circuit_get_cpath_hop :: "hop list \<Rightarrow> nat \<Rightarrow> hop option" where
  "circuit_get_cpath_hop hops hopnum = (if 0 < hopnum \<and> hopnum \<le> length hops then Some (hops ! (hopnum - 1)) else None)"

definition circuit_get_cpath_opened_len :: "hop list \<Rightarrow> nat" where
  "circuit_get_cpath_opened_len hops = length (takeWhile hop_open hops)"

definition circpad_send_command_to_hop :: "pad_self \<Rightarrow> u8 \<Rightarrow> u8 \<Rightarrow> u8 list \<Rightarrow> int act" where
  "circpad_send_command_to_hop self hopnum relay_command payload =
     seq (look (\<lambda>w. circuit_get_cpath_hop (cpath w) (unat hopnum))) (\<lambda>target_hop.
     case target_hop of
       None \<Rightarrow> return_val (-1)
     | Some h \<Rightarrow> if hop_open h then self (Relay_Send relay_command payload (unat hopnum)) else return_val (-1))"

definition circpad_circuit_supports_padding :: "hop list \<Rightarrow> u8 \<Rightarrow> bool" where
  "circpad_circuit_supports_padding hops hopnum =
     (case circuit_get_cpath_hop hops (unat hopnum) of
        None \<Rightarrow> False
      | Some h \<Rightarrow> hop_open h \<and> hop_supports_padding h)"

definition TO_ORIGIN_CIRCUIT :: "unit act" where
  "TO_ORIGIN_CIRCUIT = (\<lambda>w. if CIRCUIT_IS_ORIGIN w then Inr (w, ()) else Inl Failed_Assertion)"

definition negotiate_cell :: "u8 \<Rightarrow> u8 \<Rightarrow> u32 \<Rightarrow> circpad_negotiate" where
  "negotiate_cell machine command ctr =
     (let cell = circpad_negotiate_new\<lparr>neg_command := 0\<rparr>;
          cell = fst (circpad_negotiate_set_command cell command);
          cell = fst (circpad_negotiate_set_version cell 0);
          cell = circpad_negotiate_set_machine_type cell machine
      in circpad_negotiate_set_machine_ctr cell ctr)"

definition circpad_negotiate_padding :: "pad_self \<Rightarrow> u8 \<Rightarrow> u8 \<Rightarrow> u8 \<Rightarrow> u32 \<Rightarrow> int act" where
  "circpad_negotiate_padding self machine hopnum command ctr =
     seq (look cpath) (\<lambda>hops.
     if \<not> circpad_circuit_supports_padding hops hopnum then return_val (-1)
     else case circpad_negotiate_encode PAD_CELL_PAYLOAD_SIZE (negotiate_cell machine command ctr) of
       Inl _ \<Rightarrow> return_val (-1)
     | Inr payload \<Rightarrow> circpad_send_command_to_hop self hopnum RELAY_COMMAND_PADDING_NEGOTIATE payload)"

definition negotiated_cell :: "u8 \<Rightarrow> u8 \<Rightarrow> u8 \<Rightarrow> u32 \<Rightarrow> circpad_negotiated" where
  "negotiated_cell machine command response ctr =
     (let cell = circpad_negotiated_new\<lparr>ngd_command := 0, ngd_response := 0\<rparr>;
          cell = fst (circpad_negotiated_set_command cell command);
          cell = fst (circpad_negotiated_set_response cell response);
          cell = fst (circpad_negotiated_set_version cell 0);
          cell = circpad_negotiated_set_machine_type cell machine
      in circpad_negotiated_set_machine_ctr cell ctr)"

definition circpad_padding_negotiated :: "pad_self \<Rightarrow> u8 \<Rightarrow> u8 \<Rightarrow> u8 \<Rightarrow> u32 \<Rightarrow> bool act" where
  "circpad_padding_negotiated self machine command response ctr =
     (case circpad_negotiated_encode PAD_CELL_PAYLOAD_SIZE (negotiated_cell machine command response ctr) of
        Inl _ \<Rightarrow> return_val False
      | Inr payload \<Rightarrow> seq (self (Relay_Send RELAY_COMMAND_PADDING_NEGOTIATED payload 0)) (\<lambda>r. return_val (r = 0)))"

section \<open>Transitions and scheduling\<close>

text \<open>After this function the runtime information may be freed.\<close>

definition circpad_machine_spec_transitioned_to_end :: "pad_self \<Rightarrow> nat \<Rightarrow> unit act" where
  "circpad_machine_spec_transitioned_to_end self p = with_machine p (\<lambda>machine mi.
     if \<not> should_negotiate_end machine then return_val ()
     else if is_origin_side machine then
       seq (circpad_circuit_machineinfo_free_idx (machine_index machine)) (\<lambda>_.
       seq TO_ORIGIN_CIRCUIT (\<lambda>_.
       seq (circpad_negotiate_padding self (machine_num machine) (target_hopnum machine) CIRCPAD_COMMAND_STOP (machine_ctr mi)) (\<lambda>_.
       return_val ())))
     else
       seq (circpad_circuit_machineinfo_free_idx (machine_index machine)) (\<lambda>_.
       seq (circpad_padding_negotiated self (machine_num machine) CIRCPAD_COMMAND_STOP CIRCPAD_RESPONSE_OK (machine_ctr mi)) (\<lambda>_.
       clear_machine (machine_index machine))))"

definition circpad_internal_event_infinity :: "pad_self \<Rightarrow> nat \<Rightarrow> int act" where
  "circpad_internal_event_infinity self p = self (Transition p CIRCPAD_EVENT_INFINITY)"

definition circpad_internal_event_bins_empty :: "pad_self \<Rightarrow> nat \<Rightarrow> int act" where
  "circpad_internal_event_bins_empty self p =
     seq (self (Transition p CIRCPAD_EVENT_BINS_EMPTY)) (\<lambda>d.
     if d = CIRCPAD_STATE_CHANGED then return_val CIRCPAD_STATE_CHANGED
     else seq (setup_tokens p) (\<lambda>_. return_val CIRCPAD_STATE_UNCHANGED))"

definition circpad_internal_event_state_length_up :: "pad_self \<Rightarrow> nat \<Rightarrow> int act" where
  "circpad_internal_event_state_length_up self p = self (Transition p CIRCPAD_EVENT_LENGTH_COUNT)"

text \<open>The tokens outside of the infinity bin, added in 32 bits.\<close>

definition finite_tokens :: "circpad_machine_runtime \<Rightarrow> cp_fault + u32" where
  "finite_tokens mi = (case mi_histogram mi of
      None \<Rightarrow> Inr 0
    | Some h \<Rightarrow> if int (length h) < CIRCPAD_INFINITY_BIN (mi_histogram_len mi) then Inl Out_Of_Bounds
               else Inr (sum_list (take (nat (CIRCPAD_INFINITY_BIN (mi_histogram_len mi))) h)))"

definition check_machine_token_supply :: "pad_self \<Rightarrow> nat \<Rightarrow> int act" where
  "check_machine_token_supply self p =
     seq (get_runtime p) (\<lambda>mi.
     seq (check (finite_tokens mi)) (\<lambda>tokens.
     seq (if circpad_is_token_removal_supported mi \<and> tokens = 0 then circpad_internal_event_bins_empty self p
          else return_val CIRCPAD_STATE_UNCHANGED) (\<lambda>d.
     if d = CIRCPAD_STATE_CHANGED then return_val CIRCPAD_STATE_CHANGED
     else seq (get_runtime p) (\<lambda>mi.
       if state_length mi = 0 then circpad_internal_event_state_length_up self p
       else return_val CIRCPAD_STATE_UNCHANGED))))"

definition on_padding_sent :: "pad_env \<Rightarrow> pad_self \<Rightarrow> nat \<Rightarrow> unit act" where
  "on_padding_sent e self i =
     seq (info_at i) (\<lambda>p.
     seq (check_machine_token_supply self p) (\<lambda>d.
     if d \<noteq> CIRCPAD_STATE_UNCHANGED then return_val ()
     else seq (info_at i) (\<lambda>p.
       seq (update_runtime p (\<lambda>mi. mi\<lparr>last_cell_time_sec := approx_time e\<rparr>)) (\<lambda>_.
       seq (info_at i) (\<lambda>p.
       seq (self (Transition p CIRCPAD_EVENT_PADDING_SENT)) (\<lambda>_. return_val ()))))))"

definition circpad_cell_event_padding_sent :: "pad_env \<Rightarrow> pad_self \<Rightarrow> unit act" where
  "circpad_cell_event_padding_sent e self = for_each_active (on_padding_sent e self) machine_slots"

text \<open>What the callback does after the cell was sent.\<close>

definition after_padding :: "pad_self \<Rightarrow> nat \<Rightarrow> u16 \<Rightarrow> int act" where
  "after_padding self idx state =
     seq (\<lambda>w. check (at_index (padding_info w) (int idx)) w) (\<lambda>r.
     case r of
       None \<Rightarrow> return_val CIRCPAD_STATE_CHANGED
     | Some q \<Rightarrow> seq (get_runtime q) (\<lambda>mi.
         if state \<noteq> current_state mi then return_val CIRCPAD_STATE_CHANGED
         else check_machine_token_supply self q))"

definition count_padding :: "nat \<Rightarrow> unit act" where
  "count_padding p = (\<lambda>w. and_then (get_runtime p w) (\<lambda>(w, mi).
     and_then (circpad_machine_count_padding_sent (globals w) mi) (\<lambda>(g, mi).
     set_runtime p mi (w\<lparr>globals := g\<rparr>))))"

text \<open>At the origin the message that is logged after the cell was sent reads the runtime information.\<close>

definition send_drop :: "pad_self \<Rightarrow> nat \<Rightarrow> unit act" where
  "send_drop self p =
     seq (look CIRCUIT_IS_ORIGIN) (\<lambda>origin.
     if origin then with_machine p (\<lambda>machine mi.
       seq (circpad_send_command_to_hop self (target_hopnum machine) RELAY_COMMAND_DROP []) (\<lambda>_.
       seq (get_runtime p) (\<lambda>_. return_val ())))
     else seq (look (\<lambda>w. p_chan_cells w \<le> unat (circpad_max_circ_queued_cells (globals w)))) (\<lambda>room.
       if room then seq (self (Relay_Send RELAY_COMMAND_DROP [] 0)) (\<lambda>_. return_val ()) else return_val ()))"

definition circpad_send_padding_cell_for_callback :: "pad_env \<Rightarrow> pad_self \<Rightarrow> nat \<Rightarrow> int act" where
  "circpad_send_padding_cell_for_callback e self p =
     seq (get_runtime p) (\<lambda>mi.
     seq (set_runtime p (mi\<lparr>padding_scheduled_at_usec := 0, is_padding_timer_scheduled := False\<rparr>)) (\<lambda>_.
     seq (look marked_for_close) (\<lambda>closing.
     if closing then return_val CIRCPAD_STATE_CHANGED
     else seq (count_padding p) (\<lambda>_.
       seq (send_drop self p) (\<lambda>_.
       seq (circpad_cell_event_padding_sent e self) (\<lambda>_.
       after_padding self (mi_index mi) (current_state mi)))))))"

definition schedule_timer :: "nat \<Rightarrow> u32 \<Rightarrow> int act" where
  "schedule_timer p in_usec =
     seq (update_runtime p (\<lambda>mi. mi\<lparr>is_padding_timer_scheduled := True, timer_usec := in_usec\<rparr>)) (\<lambda>_.
     return_val CIRCPAD_STATE_UNCHANGED)"

text \<open>The callback, unless a plugin stands in for it.\<close>

definition callback_or_plugin :: "pad_env \<Rightarrow> pad_self \<Rightarrow> nat \<Rightarrow> u32 \<Rightarrow> int act" where
  "callback_or_plugin e self p in_usec =
     seq (\<lambda>w. Inr (replace_hook e p w)) (\<lambda>ret.
     if ret = PAD_RUN_DEFAULT then circpad_send_padding_cell_for_callback e self p
     else if ret < 0 then schedule_timer p in_usec
     else return_val ret)"

text \<open>What follows the choice of a delay.\<close>

definition schedule_delay :: "pad_env \<Rightarrow> pad_self \<Rightarrow> nat \<Rightarrow> u32 \<Rightarrow> int act" where
  "schedule_delay e self p in_usec =
     (if in_usec = CIRCPAD_DELAY_INFINITE then circpad_internal_event_infinity self p
      else seq (get_runtime p) (\<lambda>mi.
        if state_length mi = 0 then return_val CIRCPAD_STATE_UNCHANGED
        else if in_usec = 0 then callback_or_plugin e self p in_usec
        else schedule_timer p in_usec))"

text \<open>The choice of a delay, and the time at which it was made.\<close>

definition choose_delay :: "pad_env \<Rightarrow> nat \<Rightarrow> u32 act" where
  "choose_delay e p = with_machine p (\<lambda>machine mi.
     seq next_read (\<lambda>n.
     seq (check (circpad_machine_sample_delay (draw_at e n) machine (mi\<lparr>is_padding_timer_scheduled := False\<rparr>))) (\<lambda>(mi, in_usec).
     seq (if circpad_is_token_removal_supported mi then monotime_absolute_usec e else return_val 1) (\<lambda>now.
     seq (set_runtime p (mi\<lparr>padding_scheduled_at_usec := now\<rparr>)) (\<lambda>_. return_val in_usec)))))"

definition circpad_is_padding_allowed :: "pad_env \<Rightarrow> pad_world \<Rightarrow> bool" where
  "circpad_is_padding_allowed e w \<longleftrightarrow> \<not> (circpad_padding_disabled (globals w) \<or> \<not> opt_CircuitPadding e)"

definition circpad_machine_schedule_padding :: "pad_env \<Rightarrow> pad_self \<Rightarrow> nat \<Rightarrow> int act" where
  "circpad_machine_schedule_padding e self p =
     seq (look (circpad_is_padding_allowed e)) (\<lambda>allowed.
     if \<not> allowed then return_val CIRCPAD_STATE_UNCHANGED
     else if \<not> is_participating_on_network e then return_val CIRCPAD_STATE_UNCHANGED
     else seq (get_runtime p) (\<lambda>mi.
       if current_state mi = CIRCPAD_STATE_END then return_val CIRCPAD_STATE_UNCHANGED
       else seq (CIRCPAD_GET_MACHINE mi) (\<lambda>machine.
         seq (\<lambda>w. check (circpad_machine_reached_padding_limit (globals w) machine mi) w) (\<lambda>limit.
         if limit then return_val CIRCPAD_STATE_UNCHANGED
         else seq (choose_delay e p) (schedule_delay e self p)))))"

text \<open>A change to another state.\<close>

definition enter_state :: "pad_env \<Rightarrow> pad_self \<Rightarrow> nat \<Rightarrow> u16 \<Rightarrow> int act" where
  "enter_state e self p s =
     seq (update_runtime p (\<lambda>mi. mi\<lparr>current_state := s\<rparr>)) (\<lambda>_.
     seq (setup_tokens p) (\<lambda>_.
     seq (circpad_choose_state_length e p) (\<lambda>_.
     if s = CIRCPAD_STATE_END
     then seq (circpad_machine_spec_transitioned_to_end self p) (\<lambda>_. return_val CIRCPAD_STATE_CHANGED)
     else seq (circpad_machine_schedule_padding e self p) (\<lambda>_. return_val CIRCPAD_STATE_CHANGED))))"

definition circpad_machine_spec_transition :: "pad_env \<Rightarrow> pad_self \<Rightarrow> nat \<Rightarrow> int \<Rightarrow> int act" where
  "circpad_machine_spec_transition e self p event = with_machine p (\<lambda>machine mi.
     case circpad_machine_current_state machine mi of
       None \<Rightarrow> return_val CIRCPAD_STATE_UNCHANGED
     | Some state \<Rightarrow> seq (check (at_index (next_state state) event)) (\<lambda>s.
         if s = CIRCPAD_STATE_IGNORE then return_val CIRCPAD_STATE_UNCHANGED
         else if s = CIRCPAD_STATE_CANCEL then
           seq (set_runtime p (mi\<lparr>padding_scheduled_at_usec := 0, is_padding_timer_scheduled := False\<rparr>)) (\<lambda>_.
           return_val CIRCPAD_STATE_UNCHANGED)
         else if current_state mi \<noteq> s then enter_state e self p s
         else circpad_machine_schedule_padding e self p))"

end
