(* ===== verification/Circpad_Circuit.thy ===== *)
theory Circpad_Circuit
  imports Circpad_Machine
begin

text \<open>
  Circuit padding, from the machines to the circuit (\<^verbatim>\<open>src/core/or/circuitpadding.c\<close> and
  \<open>relay_send_command_from_edge_\<close> of \<^verbatim>\<open>src/core/or/relay.c\<close>): the events of cells, the conditions under which
  machines apply, adding and shutting down machines, sending a cell, and the negotiation between client and relay.
\<close>

section \<open>Estimating the round-trip time\<close>

definition circpad_estimate_circ_rtt_on_received :: "pad_env \<Rightarrow> nat \<Rightarrow> unit act" where
  "circpad_estimate_circ_rtt_on_received e p =
     seq (look (\<lambda>w. (CIRCUIT_IS_ORIGIN w, circuit_open w))) (\<lambda>(origin, is_open).
     seq (get_runtime p) (\<lambda>mi.
     if origin \<or> stop_rtt_update mi then return_val ()
     else if last_received_time_usec mi \<noteq> 0 then
       (if is_open then set_runtime p (mi\<lparr>stop_rtt_update := True\<rparr>) else return_val ())
     else seq (CIRCPAD_GET_MACHINE mi) (\<lambda>machine.
       case circpad_machine_current_state machine mi of
         None \<Rightarrow> return_val ()
       | Some state \<Rightarrow>
           if use_rtt_estimate state
           then seq (monotime_absolute_usec e) (\<lambda>now. set_runtime p (mi\<lparr>last_received_time_usec := now\<rparr>))
           else set_runtime p (mi\<lparr>stop_rtt_update := True\<rparr>))))"

definition rtt_measured :: "u64 \<Rightarrow> circpad_machine_runtime \<Rightarrow> circpad_machine_runtime" where
  "rtt_measured rtt_time mi =
     (let mi = mi\<lparr>last_received_time_usec := 0\<rparr> in
      if 0x7FFFFFFF \<le> rtt_time then mi
      else if rtt_estimate_usec mi < ucast rtt_time then mi\<lparr>rtt_estimate_usec := ucast rtt_time\<rparr>
      else mi\<lparr>rtt_estimate_usec := (rtt_estimate_usec mi + ucast rtt_time) div 2\<rparr>)"

definition circpad_estimate_circ_rtt_on_send :: "pad_env \<Rightarrow> nat \<Rightarrow> unit act" where
  "circpad_estimate_circ_rtt_on_send e p =
     seq (look (\<lambda>w. (CIRCUIT_IS_ORIGIN w, circuit_open w))) (\<lambda>(origin, is_open).
     if origin then return_val ()
     else seq (get_runtime p) (\<lambda>mi.
       if last_received_time_usec mi \<noteq> 0
       then seq (monotime_absolute_usec e) (\<lambda>now. set_runtime p (rtt_measured (now - last_received_time_usec mi) mi))
       else if is_open then set_runtime p (mi\<lparr>stop_rtt_update := True\<rparr>)
       else return_val ()))"

section \<open>Events of cells\<close>

definition count_nonpadding :: "pad_env \<Rightarrow> nat \<Rightarrow> unit act" where
  "count_nonpadding e p = with_machine p (\<lambda>machine mi.
     seq (monotime_absolute_usec e) (\<lambda>now.
     seq (check (circpad_machine_count_nonpadding_sent now machine mi)) (set_runtime p)))"

definition on_nonpadding_sent :: "pad_env \<Rightarrow> pad_self \<Rightarrow> nat \<Rightarrow> unit act" where
  "on_nonpadding_sent e self i =
     seq (info_at i) (\<lambda>p.
     seq (update_runtime p (\<lambda>mi. mi\<lparr>last_cell_time_sec := approx_time e\<rparr>)) (\<lambda>_.
     seq (circpad_estimate_circ_rtt_on_send e p) (\<lambda>_.
     seq (info_at i) (\<lambda>p.
     seq (count_nonpadding e p) (\<lambda>_.
     seq (info_at i) (\<lambda>p.
     seq (check_machine_token_supply self p) (\<lambda>d.
     if d \<noteq> CIRCPAD_STATE_UNCHANGED then return_val ()
     else seq (info_at i) (\<lambda>p.
       seq (self (Transition p CIRCPAD_EVENT_NONPADDING_SENT)) (\<lambda>_. return_val ())))))))))"

definition circpad_cell_event_nonpadding_sent :: "pad_env \<Rightarrow> pad_self \<Rightarrow> unit act" where
  "circpad_cell_event_nonpadding_sent e self =
     seq (modify (\<lambda>w. w\<lparr>globals := (globals w)\<lparr>circpad_global_nonpadding_sent := circpad_global_nonpadding_sent (globals w) + 1\<rparr>\<rparr>)) (\<lambda>_.
     for_each_active (on_nonpadding_sent e self) machine_slots)"

definition on_nonpadding_received :: "pad_env \<Rightarrow> pad_self \<Rightarrow> nat \<Rightarrow> unit act" where
  "on_nonpadding_received e self i =
     seq (info_at i) (\<lambda>p.
     seq (update_runtime p (\<lambda>mi. mi\<lparr>last_cell_time_sec := approx_time e\<rparr>)) (\<lambda>_.
     seq (circpad_estimate_circ_rtt_on_received e p) (\<lambda>_.
     seq (info_at i) (\<lambda>p.
     seq (self (Transition p CIRCPAD_EVENT_NONPADDING_RECV)) (\<lambda>_. return_val ())))))"

definition circpad_cell_event_nonpadding_received :: "pad_env \<Rightarrow> pad_self \<Rightarrow> unit act" where
  "circpad_cell_event_nonpadding_received e self = for_each_active (on_nonpadding_received e self) machine_slots"

definition on_padding_received :: "pad_env \<Rightarrow> pad_self \<Rightarrow> nat \<Rightarrow> unit act" where
  "on_padding_received e self i =
     seq (info_at i) (\<lambda>p.
     seq (update_runtime p (\<lambda>mi. mi\<lparr>last_cell_time_sec := approx_time e\<rparr>)) (\<lambda>_.
     seq (info_at i) (\<lambda>p.
     seq (self (Transition p CIRCPAD_EVENT_PADDING_RECV)) (\<lambda>_. return_val ()))))"

definition circpad_cell_event_padding_received :: "pad_env \<Rightarrow> pad_self \<Rightarrow> unit act" where
  "circpad_cell_event_padding_received e self = for_each_active (on_padding_received e self) machine_slots"

text \<open>A cell that this end sends: padding reports itself.\<close>

definition circpad_deliver_sent_relay_cell_events :: "pad_env \<Rightarrow> pad_self \<Rightarrow> u8 \<Rightarrow> unit act" where
  "circpad_deliver_sent_relay_cell_events e self relay_command =
     (if relay_command = RELAY_COMMAND_DROP then return_val () else circpad_cell_event_nonpadding_sent e self)"

datatype pad_direction = CELL_DIRECTION_IN | CELL_DIRECTION_OUT

definition circpad_deliver_unrecognized_cell_events :: "pad_env \<Rightarrow> pad_self \<Rightarrow> pad_direction \<Rightarrow> unit act" where
  "circpad_deliver_unrecognized_cell_events e self dir =
     seq (look CIRCUIT_IS_ORIGIN) (\<lambda>origin.
     if origin then return_val ()
     else case dir of
       CELL_DIRECTION_OUT \<Rightarrow> circpad_cell_event_nonpadding_received e self
     | CELL_DIRECTION_IN \<Rightarrow> circpad_cell_event_nonpadding_sent e self)"

text \<open>A hop is known by its number; \<open>None\<close> is the NULL pointer.\<close>

definition hop_ref :: "hop list \<Rightarrow> nat \<Rightarrow> nat option" where
  "hop_ref hops n = (if circuit_get_cpath_hop hops n = None then None else Some n)"

definition circpad_padding_is_from_expected_hop :: "pad_world \<Rightarrow> nat option \<Rightarrow> bool" where
  "circpad_padding_is_from_expected_hop w from_hop \<longleftrightarrow> CIRCUIT_IS_ORIGIN w \<and>
     list_ex (\<lambda>i. case padding_machine w ! i of
         None \<Rightarrow> False
       | Some machine \<Rightarrow> hop_ref (cpath w) (unat (target_hopnum machine)) = from_hop) machine_slots"

definition circpad_deliver_recognized_relay_cell_events :: "pad_env \<Rightarrow> pad_self \<Rightarrow> u8 \<Rightarrow> nat option \<Rightarrow> unit act" where
  "circpad_deliver_recognized_relay_cell_events e self relay_command layer_hint =
     (if relay_command = RELAY_COMMAND_DROP
      then seq (look (\<lambda>w. CIRCUIT_IS_ORIGIN w \<and> \<not> circpad_padding_is_from_expected_hop w layer_hint)) (\<lambda>unexpected.
        if unexpected then return_val () else circpad_cell_event_padding_received e self)
      else circpad_cell_event_nonpadding_received e self)"

section \<open>Conditions\<close>

text \<open>A shift by the width of the type is undefined.\<close>

definition circpad_circ_purpose_to_mask :: "u8 \<Rightarrow> cp_fault + u32" where
  "circpad_circ_purpose_to_mask circ_purpose =
     (if circ_purpose \<le> CIRCUIT_PURPOSE_OR_MAX then Inr 0
      else if 32 < unat circ_purpose - 4 - 1 then Inr 0xFFFFFFFF
      else if unat circ_purpose - 4 - 1 = 32 then Inl Bad_Shift
      else Inr (push_bit (unat circ_purpose - 4 - 1) 1))"

definition circpad_circuit_state :: "pad_world \<Rightarrow> u32" where
  "circpad_circuit_state w =
     (if has_streams w then 8 else 4) OR (if has_opened w then 2 else 1) OR
     (if 0 < remaining_relay_early_cells w then 16 else 32)"

definition circpad_machine_conditions_apply :: "pad_env \<Rightarrow> circpad_machine_spec \<Rightarrow> pad_world \<Rightarrow> cp_fault + bool" where
  "circpad_machine_conditions_apply e machine w =
     (let c = conditions machine in
      if circpad_padding_disabled (globals w) \<or> \<not> opt_CircuitPadding e then Inr False
      else if (circpad_padding_reduced (globals w) \<or> opt_ReducedCircuitPadding e) \<and> \<not> reduced_padding_ok c then Inr False
      else and_then (circpad_circ_purpose_to_mask (purpose w)) (\<lambda>mask.
        if mask AND apply_purpose_mask c = 0 then Inr False
        else if requires_vanguards c \<and> \<not> opt_vanguards e then Inr False
        else if circpad_circuit_state w AND apply_state_mask c = 0 then Inr False
        else if circuit_get_cpath_opened_len (cpath w) < min_hops c then Inr False
        else Inr True))"

definition circpad_machine_conditions_keep :: "circpad_machine_spec \<Rightarrow> pad_world \<Rightarrow> cp_fault + bool" where
  "circpad_machine_conditions_keep machine w =
     and_then (circpad_circ_purpose_to_mask (purpose w)) (\<lambda>mask.
       if mask AND keep_purpose_mask (conditions machine) \<noteq> 0 then Inr True
       else Inr (circpad_circuit_state w AND keep_state_mask (conditions machine) \<noteq> 0))"

section \<open>Adding and shutting down machines\<close>

definition shutdown_slot :: "pad_env \<Rightarrow> pad_self \<Rightarrow> nat \<Rightarrow> unit act" where
  "shutdown_slot e self i =
     seq (machine_at i) (\<lambda>machine.
     seq (\<lambda>w. check (circpad_machine_conditions_apply e machine w) w) (\<lambda>apply.
     seq (if apply then return_val True else (\<lambda>w. check (circpad_machine_conditions_keep machine w) w)) (\<lambda>keep.
     if keep then return_val ()
     else seq (info_at i) (\<lambda>p.
       seq (get_runtime p) (\<lambda>mi.
       seq (circpad_circuit_machineinfo_free_idx i) (\<lambda>_.
       seq (machine_at i) (\<lambda>machine.
       seq (circpad_negotiate_padding self (machine_num machine) (target_hopnum machine) CIRCPAD_COMMAND_STOP (machine_ctr mi)) (\<lambda>_.
       return_val ()))))))))"

definition circpad_shutdown_old_machines :: "pad_env \<Rightarrow> pad_self \<Rightarrow> unit act" where
  "circpad_shutdown_old_machines e self = for_each_active (shutdown_slot e self) machine_slots"

text \<open>A machine that applies is set up in its slot and negotiated; \<^const>\<open>True\<close> ends the search.\<close>

definition try_machine :: "pad_env \<Rightarrow> pad_self \<Rightarrow> nat \<Rightarrow> circpad_machine_spec \<Rightarrow> bool act" where
  "try_machine e self i machine =
     (if machine_index machine \<noteq> i then return_val False
      else seq (\<lambda>w. check (circpad_machine_conditions_apply e machine w) w) (\<lambda>apply.
        if \<not> apply then return_val False
        else seq (look (\<lambda>w. padding_machine w ! i)) (\<lambda>m.
          if (case m of None \<Rightarrow> False | Some old \<Rightarrow> target_hopnum old \<noteq> target_hopnum machine) then return_val False
          else seq (clear_machine i) (\<lambda>_.
            seq (circpad_setup_machine_on_circ e machine) (\<lambda>_.
            seq (look padding_machine_ctr) (\<lambda>ctr.
            seq (circpad_negotiate_padding self (machine_num machine) (target_hopnum machine) CIRCPAD_COMMAND_START ctr) (\<lambda>r.
            if r < 0 then
              seq (circpad_circuit_machineinfo_free_idx i) (\<lambda>_.
              seq (clear_machine i) (\<lambda>_.
              seq (modify (\<lambda>w. w\<lparr>padding_negotiation_failed := True\<rparr>)) (\<lambda>_. return_val False)))
            else return_val True)))))))"

fun try_machines :: "pad_env \<Rightarrow> pad_self \<Rightarrow> nat \<Rightarrow> circpad_machine_spec list \<Rightarrow> unit act" where
  "try_machines e self i [] = return_val ()"
| "try_machines e self i (machine # ms) =
     seq (try_machine e self i machine) (\<lambda>stop. if stop then return_val () else try_machines e self i ms)"

fun fill_slots :: "pad_env \<Rightarrow> pad_self \<Rightarrow> circpad_machine_spec list \<Rightarrow> nat list \<Rightarrow> unit act" where
  "fill_slots e self ms [] = return_val ()"
| "fill_slots e self ms (i # is) =
     seq (look (\<lambda>w. padding_info w ! i)) (\<lambda>r.
     seq (if r = None then try_machines e self i (rev ms) else return_val ()) (\<lambda>_. fill_slots e self ms is))"

definition circpad_add_matching_machines :: "pad_env \<Rightarrow> pad_self \<Rightarrow> circpad_machine_spec list \<Rightarrow> unit act" where
  "circpad_add_matching_machines e self machines_sl =
     seq (look padding_negotiation_failed) (\<lambda>failed.
     if failed then return_val () else fill_slots e self machines_sl machine_slots)"

definition shutdown_and_add :: "pad_env \<Rightarrow> pad_self \<Rightarrow> unit act" where
  "shutdown_and_add e self = seq (circpad_shutdown_old_machines e self) (\<lambda>_.
     circpad_add_matching_machines e self (origin_padding_machines e))"

definition circpad_machine_event_circ_added_hop :: "pad_env \<Rightarrow> pad_self \<Rightarrow> unit act" where
  "circpad_machine_event_circ_added_hop e self = circpad_add_matching_machines e self (origin_padding_machines e)"

definition circpad_machine_event_circ_built :: "pad_env \<Rightarrow> pad_self \<Rightarrow> unit act" where
  "circpad_machine_event_circ_built e self = seq (shutdown_and_add e self) (\<lambda>_.
     modify (add_hook e ''circpad_machine_event_circ_built_add''))"

definition circpad_machine_event_circ_opened :: "pad_env \<Rightarrow> pad_self \<Rightarrow> unit act" where
  "circpad_machine_event_circ_opened e self = seq (shutdown_and_add e self) (\<lambda>_.
     modify (add_hook e ''circpad_machine_event_circ_opened_add''))"

definition circpad_machine_event_circ_purpose_changed :: "pad_env \<Rightarrow> pad_self \<Rightarrow> unit act" where
  "circpad_machine_event_circ_purpose_changed e self = shutdown_and_add e self"

definition circpad_machine_event_circ_has_no_relay_early :: "pad_env \<Rightarrow> pad_self \<Rightarrow> unit act" where
  "circpad_machine_event_circ_has_no_relay_early e self = shutdown_and_add e self"

definition circpad_machine_event_circ_has_streams :: "pad_env \<Rightarrow> pad_self \<Rightarrow> unit act" where
  "circpad_machine_event_circ_has_streams e self = shutdown_and_add e self"

definition circpad_machine_event_circ_has_no_streams :: "pad_env \<Rightarrow> pad_self \<Rightarrow> unit act" where
  "circpad_machine_event_circ_has_no_streams e self = shutdown_and_add e self"

section \<open>Sending a cell\<close>

definition PAD_RELAY_PAYLOAD_SIZE :: nat where "PAD_RELAY_PAYLOAD_SIZE = 498"

text \<open>One of the few RELAY_EARLY cells is used up; the last one changes the state of the circuit.\<close>

definition use_relay_early :: "pad_env \<Rightarrow> pad_self \<Rightarrow> u8 \<Rightarrow> nat \<Rightarrow> unit act" where
  "use_relay_early e self relay_command hopnum =
     seq (look (\<lambda>w. CIRCUIT_IS_ORIGIN w \<and> 0 < remaining_relay_early_cells w \<and>
       (relay_command = RELAY_COMMAND_EXTEND \<or> relay_command = RELAY_COMMAND_EXTEND2 \<or> hopnum \<noteq> 1))) (\<lambda>early.
     if \<not> early then return_val ()
     else seq (modify (\<lambda>w. w\<lparr>remaining_relay_early_cells := remaining_relay_early_cells w - 1\<rparr>)) (\<lambda>_.
       seq (look remaining_relay_early_cells) (\<lambda>n.
       if n = 0 then circpad_machine_event_circ_has_no_relay_early e self else return_val ())))"

text \<open>\<open>circuit_package_relay_cell\<close>; a circuit on which it fails is marked for close.\<close>

definition package_cell :: "pad_env \<Rightarrow> u8 \<Rightarrow> u8 list \<Rightarrow> nat \<Rightarrow> int act" where
  "package_cell e relay_command payload hopnum = seq next_read (\<lambda>n.
     if packaged e n then seq (modify (\<lambda>w. w\<lparr>sent := sent w @ [(relay_command, payload, hopnum)]\<rparr>)) (\<lambda>_. return_val 0)
     else seq (modify (\<lambda>w. w\<lparr>marked_for_close := True\<rparr>)) (\<lambda>_. return_val (-1)))"

definition relay_send_command_from_edge :: "pad_env \<Rightarrow> pad_self \<Rightarrow> u8 \<Rightarrow> u8 list \<Rightarrow> nat \<Rightarrow> int act" where
  "relay_send_command_from_edge e self relay_command payload hopnum =
     seq (look CIRCUIT_IS_ORIGIN) (\<lambda>origin.
     if PAD_RELAY_PAYLOAD_SIZE < length payload \<or> origin = (hopnum = 0) then check (Inl Failed_Assertion)
     else seq (circpad_deliver_sent_relay_cell_events e self relay_command) (\<lambda>_.
       seq (use_relay_early e self relay_command hopnum) (\<lambda>_.
       package_cell e relay_command payload hopnum)))"

text \<open>The recursion, with a bound on its depth.\<close>

fun pad_run :: "pad_env \<Rightarrow> nat \<Rightarrow> pad_self" where
  "pad_run e 0 c = (\<lambda>w. Inl Stack_Exhausted)"
| "pad_run e (Suc n) c =
     (case c of
        Transition p event \<Rightarrow> circpad_machine_spec_transition e (pad_run e n) p event
      | Relay_Send relay_command payload hopnum \<Rightarrow> relay_send_command_from_edge e (pad_run e n) relay_command payload hopnum)"

section \<open>The timer\<close>

definition circpad_send_padding_callback :: "pad_env \<Rightarrow> pad_self \<Rightarrow> nat \<Rightarrow> unit act" where
  "circpad_send_padding_callback e self p =
     seq (\<lambda>w. Inr (replace_hook e p w)) (\<lambda>ret.
     if ret = PAD_RUN_DEFAULT then seq (circpad_send_padding_cell_for_callback e self p) (\<lambda>_. return_val ())
     else return_val ())"

section \<open>Negotiation\<close>

definition handle_stop :: "circpad_negotiate \<Rightarrow> int act" where
  "handle_stop negotiate =
     seq (free_circ_machineinfos_with_machine_num (neg_machine_type negotiate) (neg_machine_ctr negotiate)) (\<lambda>found.
     seq (look padding_machine_ctr) (\<lambda>ctr.
     return_val (if found then 0 else if neg_machine_ctr negotiate \<le> ctr then 0 else -1)))"

definition handle_start :: "pad_env \<Rightarrow> pad_self \<Rightarrow> circpad_negotiate \<Rightarrow> int act" where
  "handle_start e self negotiate =
     (case find (\<lambda>m. machine_num m = neg_machine_type negotiate) (relay_padding_machines e) of
        None \<Rightarrow> return_val (-1)
      | Some m \<Rightarrow> seq (circpad_setup_machine_on_circ e m) (\<lambda>_.
          seq (circpad_cell_event_nonpadding_received e self) (\<lambda>_. return_val 0)))"

definition circpad_handle_padding_negotiate :: "pad_env \<Rightarrow> pad_self \<Rightarrow> u8 list \<Rightarrow> int act" where
  "circpad_handle_padding_negotiate e self payload =
     seq (look CIRCUIT_IS_ORIGIN) (\<lambda>origin.
     if origin then return_val (-1)
     else case circpad_negotiate_parse payload of
       Inl _ \<Rightarrow> return_val (-1)
     | Inr (negotiate, _) \<Rightarrow>
         seq (if neg_command negotiate = CIRCPAD_COMMAND_STOP then handle_stop negotiate
              else if neg_command negotiate = CIRCPAD_COMMAND_START then handle_start e self negotiate
              else return_val (-1)) (\<lambda>retval.
         seq (circpad_padding_negotiated self (neg_machine_type negotiate) (neg_command negotiate)
                (if retval = 0 then CIRCPAD_RESPONSE_OK else CIRCPAD_RESPONSE_ERR) (neg_machine_ctr negotiate)) (\<lambda>_.
         return_val retval)))"

definition circpad_handle_padding_negotiated :: "nat option \<Rightarrow> u8 list \<Rightarrow> int act" where
  "circpad_handle_padding_negotiated layer_hint payload =
     seq (look (\<lambda>w. \<not> CIRCUIT_IS_ORIGIN w \<or> \<not> circpad_padding_is_from_expected_hop w layer_hint)) (\<lambda>refused.
     if refused then return_val (-1)
     else case circpad_negotiated_parse payload of
       Inl _ \<Rightarrow> return_val (-1)
     | Inr (negotiated, _) \<Rightarrow>
         seq (if ngd_command negotiated = CIRCPAD_COMMAND_STOP
              then seq (free_circ_machineinfos_with_machine_num (ngd_machine_type negotiated) (ngd_machine_ctr negotiated)) (\<lambda>_. return_val ())
              else if ngd_command negotiated = CIRCPAD_COMMAND_START \<and> ngd_response negotiated = CIRCPAD_RESPONSE_ERR
              then seq (free_circ_machineinfos_with_machine_num (ngd_machine_type negotiated) (ngd_machine_ctr negotiated)) (\<lambda>found.
                if found then modify (\<lambda>w. w\<lparr>padding_negotiation_failed := True\<rparr>) else return_val ())
              else return_val ()) (\<lambda>_. return_val 0))"

definition CIRCUIT_PURPOSE_C_MEASURE_TIMEOUT :: u8 where "CIRCUIT_PURPOSE_C_MEASURE_TIMEOUT = 14"
definition CIRCUIT_PURPOSE_C_CIRCUIT_PADDING :: u8 where "CIRCUIT_PURPOSE_C_CIRCUIT_PADDING = 15"
definition CIRCUIT_PURPOSE_PATH_BIAS_TESTING :: u8 where "CIRCUIT_PURPOSE_PATH_BIAS_TESTING = 23"

text \<open>\<^const>\<open>True\<close>: the cell needs further consideration.\<close>

definition circpad_check_received_cell :: "pad_env \<Rightarrow> pad_self \<Rightarrow> u8 \<Rightarrow> nat option \<Rightarrow> u8 list \<Rightarrow> bool act" where
  "circpad_check_received_cell e self relay_command layer_hint payload =
     (if relay_command = RELAY_COMMAND_DROP then return_val False
      else if relay_command = RELAY_COMMAND_PADDING_NEGOTIATE
      then seq (circpad_handle_padding_negotiate e self payload) (\<lambda>_. return_val False)
      else if relay_command = RELAY_COMMAND_PADDING_NEGOTIATED
      then seq (circpad_handle_padding_negotiated layer_hint payload) (\<lambda>_. return_val False)
      else look (\<lambda>w. purpose w \<noteq> CIRCUIT_PURPOSE_C_CIRCUIT_PADDING))"

section \<open>Holding a circuit open\<close>

text \<open>\<open>circuit_change_purpose\<close>, as far as padding is concerned.\<close>

definition circuit_change_purpose :: "pad_env \<Rightarrow> pad_self \<Rightarrow> u8 \<Rightarrow> unit act" where
  "circuit_change_purpose e self new_purpose =
     seq (look (\<lambda>w. (CIRCUIT_IS_ORIGIN w, purpose w))) (\<lambda>(origin, old_purpose).
     if origin \<noteq> (CIRCUIT_PURPOSE_OR_MAX < new_purpose) then check (Inl Failed_Assertion)
     else if old_purpose = new_purpose then return_val ()
     else seq (modify (\<lambda>w. w\<lparr>purpose := new_purpose\<rparr>)) (\<lambda>_.
       if origin then circpad_machine_event_circ_purpose_changed e self else return_val ()))"

definition END_CIRC_REASON_NONE :: int where "END_CIRC_REASON_NONE = 0"
definition END_CIRC_REASON_FINISHED :: int where "END_CIRC_REASON_FINISHED = 9"
definition END_CIRC_REASON_IP_NOW_REDUNDANT :: int where "END_CIRC_REASON_IP_NOW_REDUNDANT = -4"
definition CIRCPAD_DELAY_MAX_SECS :: int where "CIRCPAD_DELAY_MAX_SECS = 4295"

text \<open>The first machine that holds on to the circuit decides.\<close>

fun hold_open :: "pad_env \<Rightarrow> pad_self \<Rightarrow> nat list \<Rightarrow> bool act" where
  "hold_open e self [] = return_val False"
| "hold_open e self (i # is) =
     seq (look (\<lambda>w. padding_info w ! i)) (\<lambda>r.
     case r of
       None \<Rightarrow> hold_open e self is
     | Some p \<Rightarrow> with_machine p (\<lambda>machine mi.
         if circpad_machine_current_state machine mi = None then hold_open e self is
         else seq (machine_at i) (\<lambda>machine.
           if \<not> manage_circ_lifetime machine then hold_open e self is
           else if current_state mi = CIRCPAD_STATE_END then hold_open e self is
           else if last_cell_time_sec mi + CIRCPAD_DELAY_MAX_SECS < approx_time e then return_val False
           else seq (modify (\<lambda>w. if timestamp_dirty w = 0 then w\<lparr>timestamp_dirty := approx_time e\<rparr> else w)) (\<lambda>_.
             seq (circuit_change_purpose e self CIRCUIT_PURPOSE_C_CIRCUIT_PADDING) (\<lambda>_. return_val True)))))"

definition circpad_marked_circuit_for_padding :: "pad_env \<Rightarrow> pad_self \<Rightarrow> int \<Rightarrow> bool act" where
  "circpad_marked_circuit_for_padding e self reason =
     seq (look purpose) (\<lambda>old_purpose.
     if old_purpose = CIRCUIT_PURPOSE_PATH_BIAS_TESTING \<or> old_purpose = CIRCUIT_PURPOSE_C_MEASURE_TIMEOUT then return_val False
     else if \<not> (reason = END_CIRC_REASON_NONE \<or> reason = END_CIRC_REASON_FINISHED \<or> reason = END_CIRC_REASON_IP_NOW_REDUNDANT)
     then return_val False
     else hold_open e self machine_slots)"

section \<open>Parameters of the consensus\<close>

text \<open>
  The parameters of a consensus are its entries \<open>name=value\<close> whose value can be read, in order; without a
  consensus there is no list.
\<close>

definition get_net_param_from_list :: "(string \<times> int) list \<Rightarrow> string \<Rightarrow> int \<Rightarrow> int \<Rightarrow> int \<Rightarrow> cp_fault + int" where
  "get_net_param_from_list net_params param_name default_val min_val max_val =
     (if max_val \<le> min_val \<or> default_val < min_val \<or> max_val < default_val then Inl Failed_Assertion
      else let res = (case find (\<lambda>(name, _). name = param_name) net_params of None \<Rightarrow> default_val | Some (_, v) \<Rightarrow> v)
        in Inr (if res < min_val then min_val else if max_val < res then max_val else res))"

definition networkstatus_get_param :: "(string \<times> int) list option \<Rightarrow> string \<Rightarrow> int \<Rightarrow> int \<Rightarrow> int \<Rightarrow> cp_fault + int" where
  "networkstatus_get_param ns param_name default_val min_val max_val =
     (case ns of None \<Rightarrow> Inr default_val | Some net_params \<Rightarrow> get_net_param_from_list net_params param_name default_val min_val max_val)"

definition circpad_new_consensus_params :: "(string \<times> int) list option \<Rightarrow> unit act" where
  "circpad_new_consensus_params ns =
     seq (check (networkstatus_get_param ns ''circpad_padding_disabled'' 0 0 1)) (\<lambda>disabled.
     seq (check (networkstatus_get_param ns ''circpad_padding_reduced'' 0 0 1)) (\<lambda>reduced.
     seq (check (networkstatus_get_param ns ''circpad_global_allowed_cells'' 0 0 0xFFFE)) (\<lambda>allowed.
     seq (check (networkstatus_get_param ns ''circpad_global_max_padding_pct'' 0 0 100)) (\<lambda>percent.
     seq (check (networkstatus_get_param ns ''circpad_max_circ_queued_cells'' 1000 0 50000)) (\<lambda>queued.
     modify (\<lambda>w. w\<lparr>globals := (globals w)\<lparr>circpad_padding_disabled := disabled \<noteq> 0, circpad_padding_reduced := reduced \<noteq> 0,
       circpad_global_allowed_cells := of_int allowed, circpad_global_max_padding_percent := of_int percent,
       circpad_max_circ_queued_cells := of_int queued\<rparr>\<rparr>))))))"

end
