(* ===== verification/Circpad_Contract.thy ===== *)
theory Circpad_Contract
  imports Circpad_Circuit Circpad_Choice
begin

text \<open>
  Memory safety of circuit padding. Each function is given a contract, a precondition and a postcondition on the
  circuit; the contract of a function is proved under the assumption that the two calls that close the circle
  meet theirs, and the assumption is discharged by induction on the depth of the stack.
\<close>

section \<open>Contracts\<close>

text \<open>A bounded stack may be exhausted, and a limit may divide by zero; nothing else may go wrong.\<close>

definition tolerated :: "cp_fault \<Rightarrow> bool" where
  "tolerated f \<longleftrightarrow> f = Stack_Exhausted \<or> f = Division_By_Zero"

definition safe :: "(pad_world \<Rightarrow> bool) \<Rightarrow> 'a act \<Rightarrow> ('a \<Rightarrow> pad_world \<Rightarrow> bool) \<Rightarrow> bool" where
  "safe P m Q \<longleftrightarrow> (\<forall>w. P w \<longrightarrow> (case m w of Inl f \<Rightarrow> tolerated f | Inr (w', x) \<Rightarrow> Q x w'))"

lemma safeI: "(\<And>w. P w \<Longrightarrow> case m w of Inl f \<Rightarrow> tolerated f | Inr (w', x) \<Rightarrow> Q x w') \<Longrightarrow> safe P m Q"
  by (simp add: safe_def)

lemma safe_seq: "safe P m R \<Longrightarrow> (\<And>x. safe (R x) (f x) Q) \<Longrightarrow> safe P (seq m f) Q"
  unfolding safe_def seq_def
proof (intro allI impI)
  fix w
  assume m: "\<forall>w. P w \<longrightarrow> (case m w of Inl f \<Rightarrow> tolerated f | Inr (w', x) \<Rightarrow> R x w')"
    and f: "\<And>x. \<forall>w. R x w \<longrightarrow> (case f x w of Inl f \<Rightarrow> tolerated f | Inr (w', y) \<Rightarrow> Q y w')" and w: "P w"
  show "case and_then (m w) (\<lambda>(w, x). f x w) of Inl f \<Rightarrow> tolerated f | Inr (w', y) \<Rightarrow> Q y w'"
    using m w f by (cases "m w") fastforce+
qed

lemma safe_pre: "safe R m Q \<Longrightarrow> (\<And>w. P w \<Longrightarrow> R w) \<Longrightarrow> safe P m Q"
  by (simp add: safe_def)

lemma safe_post: "safe P m R \<Longrightarrow> (\<And>x w. R x w \<Longrightarrow> Q x w) \<Longrightarrow> safe P m Q"
  by (fastforce simp: safe_def split: sum.splits)

lemma safe_return [intro]: "(\<And>w. P w \<Longrightarrow> Q x w) \<Longrightarrow> safe P (return_val x) Q"
  by (simp add: safe_def return_val_def)

lemma safe_look: "safe P (look f) (\<lambda>x w. P w \<and> x = f w)"
  by (simp add: safe_def look_def)

lemma safe_modify: "(\<And>w. P w \<Longrightarrow> Q () (f w)) \<Longrightarrow> safe P (modify f) Q"
  by (simp add: safe_def modify_def)

lemma safe_if: "(b \<Longrightarrow> safe P m Q) \<Longrightarrow> (\<not> b \<Longrightarrow> safe P n Q) \<Longrightarrow> safe P (if b then m else n) Q"
  by simp

lemma safe_next_read: "safe P next_read (\<lambda>n w. \<exists>v. P v \<and> w = v\<lparr>reads := Suc (reads v)\<rparr>)"
  by (auto simp: safe_def next_read_def)

lemma seq_next_read: "seq next_read f w = f (reads w) (w\<lparr>reads := Suc (reads w)\<rparr>)"
  by (simp add: seq_def next_read_def)

lemma seq_check_Inr [simp]: "seq (check (Inr x)) f = f x"
  by (rule ext) (simp add: seq_def check_def)

text \<open>A fact about the value carried by the precondition.\<close>

lemma safe_pure: "(b \<Longrightarrow> safe P m Q) \<Longrightarrow> safe (\<lambda>w. P w \<and> b) m Q"
  by (simp add: safe_def)

section \<open>Well-formed machines\<close>

definition state_ok :: "circpad_state \<Rightarrow> bool" where
  "state_ok state \<longleftrightarrow> length (next_state state) = 7 \<and>
     (has_histogram state \<or> histogram_len state = 0 \<and> token_removal state = CIRCPAD_TOKEN_REMOVAL_NONE \<and>
       (dist_type (iat_dist state) \<noteq> CIRCPAD_DIST_NONE \<or> histogram_total_tokens state = 0))"

definition is_state :: "circpad_machine_spec \<Rightarrow> u16 \<Rightarrow> bool" where
  "is_state machine s \<longleftrightarrow> s = CIRCPAD_STATE_END \<or> unat s < length (states machine)"

text \<open>
  Every state has the events of the library and leads to states that exist; the validator accepts its histogram.
  The start state takes no tokens: its tokens are never set up. Only a client holds circuits open.
\<close>

definition spec_ok :: "circpad_machine_spec \<Rightarrow> bool" where
  "spec_ok machine \<longleftrightarrow> machine_index machine < CIRCPAD_MAX_MACHINES \<and> states machine \<noteq> [] \<and> length (states machine) \<le> 0xFFFC \<and>
     token_removal (hd (states machine)) = CIRCPAD_TOKEN_REMOVAL_NONE \<and> (manage_circ_lifetime machine \<longrightarrow> is_origin_side machine) \<and>
     list_all (\<lambda>state. state_ok state \<and>
       list_all (\<lambda>s. s = CIRCPAD_STATE_IGNORE \<or> s = CIRCPAD_STATE_CANCEL \<or> is_state machine s) (next_state state)) (states machine)"

definition tokens_ok :: "circpad_machine_spec \<Rightarrow> circpad_machine_runtime \<Rightarrow> bool" where
  "tokens_ok machine mi \<longleftrightarrow>
     (case circpad_machine_current_state machine mi of
        None \<Rightarrow> mi_histogram mi = None
      | Some state \<Rightarrow> if token_removal state = CIRCPAD_TOKEN_REMOVAL_NONE then mi_histogram mi = None else mi_ok machine mi)"

definition runtime_ok :: "circpad_machine_spec \<Rightarrow> circpad_machine_runtime \<Rightarrow> bool" where
  "runtime_ok machine mi \<longleftrightarrow> is_state machine (current_state mi) \<and> 0 \<le> chosen_bin mi \<and> tokens_ok machine mi"

lemma current_state_iff:
  assumes "spec_ok machine"
  shows "circpad_machine_current_state machine mi = Some state \<longleftrightarrow>
    unat (current_state mi) < length (states machine) \<and> state = states machine ! unat (current_state mi)"
proof -
  have "unat CIRCPAD_STATE_END = 0xFFFF"
    by (simp add: CIRCPAD_STATE_END_def)
  then show ?thesis
    using assms by (auto simp: circpad_machine_current_state_def spec_ok_def)
qed

lemma state_of_spec:
  assumes "spec_ok machine" and "circpad_machine_current_state machine mi = Some state"
  shows "state_ok state" and "s \<in> set (next_state state) \<Longrightarrow> s \<noteq> CIRCPAD_STATE_IGNORE \<Longrightarrow> s \<noteq> CIRCPAD_STATE_CANCEL \<Longrightarrow> is_state machine s"
proof -
  have "state \<in> set (states machine)"
    using assms current_state_iff [OF assms(1)] by simp
  then show "state_ok state" and "s \<in> set (next_state state) \<Longrightarrow> s \<noteq> CIRCPAD_STATE_IGNORE \<Longrightarrow> s \<noteq> CIRCPAD_STATE_CANCEL \<Longrightarrow> is_state machine s"
    using assms(1) by (auto simp: spec_ok_def list_all_iff)
qed

lemma not_end_has_state:
  assumes "spec_ok machine" and "is_state machine (current_state mi)" and "current_state mi \<noteq> CIRCPAD_STATE_END"
  obtains state where "circpad_machine_current_state machine mi = Some state"
  using assms by (auto simp: is_state_def current_state_iff)

text \<open>Fields that the machine does not look at.\<close>

definition same_place :: "circpad_machine_runtime \<Rightarrow> circpad_machine_runtime \<Rightarrow> bool" where
  "same_place mi mi' \<longleftrightarrow> current_state mi' = current_state mi \<and> mi_index mi' = mi_index mi"

lemma same_place_state: "same_place mi mi' \<Longrightarrow> circpad_machine_current_state machine mi' = circpad_machine_current_state machine mi"
  by (simp add: same_place_def circpad_machine_current_state_def)

lemma runtime_ok_cong:
  assumes "runtime_ok machine mi" and "same_place mi mi'" and "chosen_bin mi' = chosen_bin mi"
    and "mi_histogram mi' = mi_histogram mi" and "mi_histogram_len mi' = mi_histogram_len mi"
  shows "runtime_ok machine mi'"
  using assms same_place_state [OF assms(2), of machine]
  by (auto simp: runtime_ok_def tokens_ok_def mi_ok_def same_place_def split: option.splits if_splits)

section \<open>Operations on one runtime\<close>

lemma token_source_ok:
  assumes "spec_ok machine" and "runtime_ok machine mi" and "circpad_machine_current_state machine mi = Some state"
    and "dist_type (iat_dist state) = CIRCPAD_DIST_NONE"
  shows "\<exists>hs total. token_source state mi = Inr (hs, total) \<and>
    (total \<noteq> 0 \<longrightarrow> has_histogram state \<and> nat (histogram_len state) \<le> length hs \<and> unat total \<le> tokens_before hs (nat (histogram_len state)) \<and>
      (mi_histogram mi \<noteq> None \<longrightarrow> mi_histogram mi = Some hs))"
proof (cases "mi_histogram mi")
  case None
  have st: "state_ok state"
    using state_of_spec [OF assms(1,3)] by simp
  show ?thesis
  proof (cases "has_histogram state")
    case True
    let ?h = "take (nat (histogram_len state)) (histogram state)"
    have len: "nat (histogram_len state) \<le> 100" "length (histogram state) = 100"
      using True has_histogram_len [OF True] by (simp_all add: has_histogram_def CIRCPAD_MAX_HISTOGRAM_LEN_def)
    have "histogram_total_tokens state = sum_list ?h"
      using True by (auto simp: has_histogram_def padding_machine_state_is_valid_def split: if_splits)
    moreover have "unat (sum_list xs) \<le> sum_list (map unat xs)" for xs :: "u32 list"
    proof (induction xs)
      case (Cons x xs)
      then show ?case
        using unat_plus_if' [of x "sum_list xs"] by (auto split: if_splits)
    qed simp
    moreover have "unat (ucast (histogram_total_tokens state) :: u64) = unat (histogram_total_tokens state)"
      by (simp add: unsigned_ucast_eq take_bit_nat_eq_self less_trans [OF unsigned_less])
    ultimately show ?thesis
      using None True len by (auto simp: token_source_def tokens_before_def)
  next
    case False
    then show ?thesis
      using None st assms(4) by (auto simp: token_source_def state_ok_def)
  qed
next
  case (Some h)
  then have "mi_ok machine mi"
    using assms(2,3) by (auto simp: runtime_ok_def tokens_ok_def split: if_splits)
  then obtain st where "circpad_machine_current_state machine mi = Some st" "has_histogram st" "int (length h) = histogram_len st"
    "histogram_len st \<le> 100"
    using Some by (rule_tac mi_okE) auto
  then have "has_histogram state" "histogram_len state = int (length h)" "length h \<le> 100"
    using assms(3) by simp_all
  then show ?thesis
    using Some sum_list_ucast [of "length h" h] by (auto simp: token_source_def)
qed

lemma bin_to_usec_state:
  assumes "circpad_machine_current_state machine mi = Some state" and "has_histogram state" and "0 \<le> b"
  shows "\<exists>u. circpad_histogram_bin_to_usec machine mi b = Inr u"
  using assms has_histogram_len [OF assms(2)]
  by (auto simp: circpad_histogram_bin_to_usec_def at_index_def has_histogram_def CIRCPAD_MAX_HISTOGRAM_LEN_def CIRCPAD_INFINITY_BIN_def)

lemma delay_in_bin_ok:
  assumes "circpad_machine_current_state machine mi = Some state" and "has_histogram state"
  shows "\<exists>usec. delay_in_bin machine mi draw (int b) = Inr usec \<and> drawn_from machine mi b usec"
proof -
  obtain s t where "circpad_histogram_bin_to_usec machine mi (int b) = Inr s" "circpad_histogram_bin_to_usec machine mi (int b + 1) = Inr t"
    using bin_to_usec_state [OF assms, of "int b"] bin_to_usec_state [OF assms, of "int b + 1"] by auto
  then show ?thesis
    using draw_between [of s t draw] by (auto simp: delay_in_bin_def drawn_from_def)
qed

lemma drawn_from_chosen_bin [simp]: "drawn_from machine (mi\<lparr>chosen_bin := c\<rparr>) b usec = drawn_from machine mi b usec"
proof -
  have "rtt_add_usec state (mi\<lparr>chosen_bin := c\<rparr>) = rtt_add_usec state mi" for state
    by (simp add: rtt_add_usec_def)
  then have "circpad_histogram_bin_to_usec machine (mi\<lparr>chosen_bin := c\<rparr>) i = circpad_histogram_bin_to_usec machine mi i" for i
    by (simp add: circpad_histogram_bin_to_usec_def split: option.split)
  then show ?thesis
    by (simp add: drawn_from_def)
qed

lemma delay_of_bin_ok:
  assumes "runtime_ok machine mi" and "circpad_machine_current_state machine mi = Some state" and "has_histogram state"
    and "b < nat (histogram_len state)" and "nat (histogram_len state) \<le> length hs" and "hs ! b \<noteq> 0"
    and "mi_histogram mi \<noteq> None \<longrightarrow> mi_histogram mi = Some hs"
  shows "\<exists>mi' usec. delay_of_bin d machine state mi hs (int b) = Inr (mi', usec) \<and> runtime_ok machine mi' \<and> same_place mi mi' \<and>
    (usec = CIRCPAD_DELAY_INFINITE \<or> int b < CIRCPAD_INFINITY_BIN (histogram_len state) \<and> drawn_from machine mi b usec \<and>
      (token_removal state \<noteq> CIRCPAD_TOKEN_REMOVAL_NONE \<longrightarrow> chosen_bin mi' = int b))"
proof -
  let ?none = "token_removal state = CIRCPAD_TOKEN_REMOVAL_NONE"
  let ?mi = "if ?none then mi else mi\<lparr>chosen_bin := int b\<rparr>"
  have place: "same_place mi ?mi"
    by (simp add: same_place_def)
  have "tokens_ok machine ?mi"
    using assms(1,2) by (auto simp: runtime_ok_def tokens_ok_def mi_ok_def split: option.splits if_splits)
  then have ok: "runtime_ok machine ?mi"
    using assms(1) by (auto simp: runtime_ok_def)
  have "circpad_machine_current_state machine ?mi = Some state"
    using assms(2) by simp
  from delay_in_bin_ok [OF this assms(3), of "usec_draw d" b]
  obtain usec where usec: "delay_in_bin machine ?mi (usec_draw d) (int b) = Inr usec" "drawn_from machine mi b usec"
    by (auto split: if_splits)
  have take: "\<exists>mi'. take_if_any ?mi (int b) = Inr mi' \<and> runtime_ok machine mi' \<and> same_place mi mi'" if "\<not> ?none"
  proof -
    have m: "mi_ok machine mi"
      using that assms(1,2) by (simp add: runtime_ok_def tokens_ok_def)
    then have "mi_histogram mi = Some hs"
      using assms(7) by (auto simp: mi_ok_def split: option.splits)
    then have "take_if_any ?mi (int b) = Inr (take_token ?mi (int b))"
      using assms(4-6) that by (simp add: take_if_any_def tokens_at_def at_index_def)
    moreover have "runtime_ok machine (take_token ?mi (int b))"
      using take_token_ok [of machine ?mi "int b"] ok assms(2) that by (auto simp: runtime_ok_def tokens_ok_def take_token_def)
    ultimately show ?thesis
      by (auto simp: same_place_def take_token_def)
  qed
  have i: "\<not> histogram_len state \<le> int b" "at_index hs (int b) = Inr (hs ! b)"
    using assms(4,5) by (auto simp: at_index_def)
  show ?thesis
    using i assms(6) usec take ok place by (auto simp: delay_of_bin_def Let_def)
qed

text \<open>
  What a delay is drawn from when the state has a histogram: the tokens left in the runtime copy, if there is one, and the tokens of the
  state otherwise.
\<close>

definition tokens_of :: "circpad_state \<Rightarrow> circpad_machine_runtime \<Rightarrow> u32 list" where
  "tokens_of state mi = (case mi_histogram mi of Some h \<Rightarrow> h | None \<Rightarrow> histogram state)"

lemma token_source_tokens: "token_source state mi = Inr (hs, n) \<Longrightarrow> hs = tokens_of state mi"
  by (auto simp: token_source_def tokens_of_def split: option.splits if_splits)

lemma sample_delay_drawn:
  assumes "spec_ok machine" and "runtime_ok machine mi" and "circpad_machine_current_state machine mi = Some state"
    and "dist_type (iat_dist state) = CIRCPAD_DIST_NONE"
  shows "\<exists>mi' usec. circpad_machine_sample_delay d machine mi = Inr (mi', usec) \<and> runtime_ok machine mi' \<and> same_place mi mi' \<and>
    (usec = CIRCPAD_DELAY_INFINITE \<or>
     (\<exists>b. int b < CIRCPAD_INFINITY_BIN (histogram_len state) \<and> tokens_of state mi ! b \<noteq> 0 \<and> drawn_from machine mi b usec \<and>
       (token_removal state \<noteq> CIRCPAD_TOKEN_REMOVAL_NONE \<longrightarrow> chosen_bin mi' = int b)))"
proof -
  from token_source_ok [OF assms] obtain hs total where src: "token_source state mi = Inr (hs, total)"
    "total \<noteq> 0 \<Longrightarrow> has_histogram state \<and> nat (histogram_len state) \<le> length hs \<and> unat total \<le> tokens_before hs (nat (histogram_len state)) \<and>
      (mi_histogram mi \<noteq> None \<longrightarrow> mi_histogram mi = Some hs)"
    by blast
  show ?thesis
  proof (cases "total = 0")
    case False
    note s = src(2) [OF False]
    let ?n = "nat (histogram_len state)" and ?c = "bin_draw d mod total"
    let ?b = "bin_of_token hs (unat ?c - 1)"
    have "unat ?c < unat total"
      using False by (simp add: unat_mod unat_gt_0)
    then have c: "unat ?c < tokens_before hs ?n" "?n \<le> 127"
      using s has_histogram_len [of state] by auto
    have "int ?n = histogram_len state"
      using s by (simp add: has_histogram_def)
    then have b: "choose_bin hs (histogram_len state) ?c = Inr (Some (int ?b))" "?b < ?n" "hs ! ?b \<noteq> 0"
      using choose_bin_token [OF _ c(2,1)] s by auto
    have "circpad_machine_sample_delay d machine mi = delay_of_bin d machine state mi hs (int ?b)"
      using assms(3,4) src(1) False b(1) by (simp add: circpad_machine_sample_delay_def)
    moreover have "tokens_of state mi ! ?b \<noteq> 0"
      using b(3) token_source_tokens [OF src(1)] by simp
    ultimately show ?thesis
      using delay_of_bin_ok [OF assms(2,3) _ b(2) _ b(3), of d] s by auto
  qed (use assms src in \<open>simp add: circpad_machine_sample_delay_def same_place_def\<close>)
qed

lemma sample_delay_ok:
  assumes "spec_ok machine" and "runtime_ok machine mi" and "current_state mi \<noteq> CIRCPAD_STATE_END"
  shows "\<exists>mi' usec. circpad_machine_sample_delay d machine mi = Inr (mi', usec) \<and> runtime_ok machine mi' \<and> same_place mi mi'"
proof -
  obtain state where state: "circpad_machine_current_state machine mi = Some state"
    using not_end_has_state assms by (metis runtime_ok_def)
  show ?thesis
  proof (cases "dist_type (iat_dist state) = CIRCPAD_DIST_NONE")
    case True
    then show ?thesis
      using sample_delay_drawn [OF assms(1,2) state True, of d] by blast
  qed (use state assms(2) in \<open>simp add: circpad_machine_sample_delay_def same_place_def\<close>)
qed

lemma setup_tokens_ok:
  assumes "spec_ok machine" and "is_state machine (current_state mi)" and "0 \<le> chosen_bin mi"
  shows "\<exists>mi'. circpad_machine_setup_tokens machine mi = Inr mi' \<and> runtime_ok machine mi' \<and> same_place mi mi'"
proof (cases "circpad_machine_current_state machine mi")
  case None
  then show ?thesis
    using assms(2,3) by (auto simp: circpad_machine_setup_tokens_def runtime_ok_def tokens_ok_def same_place_def
        circpad_machine_current_state_def)
next
  case (Some state)
  have cur: "circpad_machine_current_state machine (mi\<lparr>mi_histogram := h, mi_histogram_len := n\<rparr>) = Some state" for h n
    using Some by (simp add: circpad_machine_current_state_def split: if_splits)
  have "state_ok state"
    using state_of_spec [OF assms(1) Some] by simp
  then show ?thesis
    using Some assms(2,3) cur has_histogram_len [of state]
    by (auto simp: circpad_machine_setup_tokens_def runtime_ok_def tokens_ok_def same_place_def mi_ok_def state_ok_def
        has_histogram_def CIRCPAD_MAX_HISTOGRAM_LEN_def)
qed

lemma count_padding_runtime_ok:
  assumes "runtime_ok machine mi"
  shows "\<exists>g' mi'. circpad_machine_count_padding_sent g mi = Inr (g', mi') \<and> runtime_ok machine mi' \<and> same_place mi mi'"
proof -
  define mi1 where "mi1 = (if state_length mi \<noteq> CIRCPAD_STATE_LENGTH_INFINITE \<and> 0 < state_length mi
                then mi\<lparr>state_length := state_length mi - 1\<rparr> else mi)"
  define mi2 where "mi2 = scale_counts (padding_sent (mi1\<lparr>padding_sent := padding_sent mi1 + 1\<rparr>) = 0xFFFF) (mi1\<lparr>padding_sent := padding_sent mi1 + 1\<rparr>)"
  have fields: "same_place mi mi2" "chosen_bin mi2 = chosen_bin mi" "mi_histogram mi2 = mi_histogram mi" "mi_histogram_len mi2 = mi_histogram_len mi"
    by (simp_all add: mi2_def mi1_def scale_counts_def same_place_def)
  then have ok: "runtime_ok machine mi2"
    using assms runtime_ok_cong by blast
  have "\<exists>mi'. take_if_any mi2 (chosen_bin mi2) = Inr mi' \<and> runtime_ok machine mi' \<and> same_place mi mi'"
    if h: "mi_histogram mi2 \<noteq> None" and c: "\<not> mi_histogram_len mi2 \<le> chosen_bin mi2"
  proof -
    have m: "mi_ok machine mi2"
      using ok h by (auto simp: runtime_ok_def tokens_ok_def split: option.splits if_splits)
    from tokens_at_ok [OF this, of "chosen_bin mi2"] have t: "\<exists>t. tokens_at mi2 (chosen_bin mi2) = Inr t"
      using ok c by (auto simp: runtime_ok_def)
    moreover have "runtime_ok machine (take_token mi2 (chosen_bin mi2))"
      using take_token_ok [OF m] ok m by (auto simp: runtime_ok_def tokens_ok_def take_token_def mi_ok_def split: option.splits if_splits)
    ultimately show ?thesis
      using ok fields(1) by (auto simp: take_if_any_def same_place_def take_token_def)
  qed
  then show ?thesis
    using ok fields(1) unfolding circpad_machine_count_padding_sent_def Let_def
    by (fold mi1_def, fold mi2_def) (auto simp: circpad_is_token_removal_supported_def)
qed

lemma remove_token_ok:
  assumes "runtime_ok machine mi"
  shows "\<exists>mi'. circpad_machine_remove_token now machine mi = Inr mi' \<and> runtime_ok machine mi' \<and> same_place mi mi'"
proof (cases "circpad_machine_current_state machine mi")
  case (Some state)
  let ?mi = "mi\<lparr>padding_scheduled_at_usec := 0, is_padding_timer_scheduled := False\<rparr>"
  show ?thesis
  proof (cases "padding_scheduled_at_usec mi = 0 \<or> token_removal state = CIRCPAD_TOKEN_REMOVAL_NONE")
    case False
    have ok: "runtime_ok machine ?mi"
      by (rule runtime_ok_cong [OF assms]) (simp_all add: same_place_def)
    then have m: "mi_ok machine ?mi"
      using False Some by (simp add: runtime_ok_def tokens_ok_def)
    obtain mi' where "remove_by (token_removal state) machine ?mi
        (ucast (min (now - padding_scheduled_at_usec mi) (ucast (CIRCPAD_DELAY_INFINITE - 1)))) = Inr mi'"
      and less: "mi' = ?mi \<or> one_token_less ?mi mi'"
      using remove_by_ok [OF m] by metis
    moreover have "runtime_ok machine mi' \<and> same_place mi mi'"
      using less ok take_token_ok [OF m] Some False
      by (auto simp: one_token_less_def runtime_ok_def tokens_ok_def take_token_def same_place_def)
    ultimately show ?thesis
      using False Some by (simp add: circpad_machine_remove_token_def)
  qed (use Some assms in \<open>auto simp: circpad_machine_remove_token_def same_place_def\<close>)
qed (use assms in \<open>auto simp: circpad_machine_remove_token_def same_place_def\<close>)

lemma count_nonpadding_runtime_ok:
  assumes "runtime_ok machine mi"
  shows "\<exists>mi'. circpad_machine_count_nonpadding_sent now machine mi = Inr mi' \<and> runtime_ok machine mi' \<and> same_place mi mi'"
proof -
  define mi1 where "mi1 = circpad_machine_update_state_length_for_nonpadding machine
    (scale_counts (nonpadding_sent (mi\<lparr>nonpadding_sent := nonpadding_sent mi + 1\<rparr>) = 0xFFFF) (mi\<lparr>nonpadding_sent := nonpadding_sent mi + 1\<rparr>))"
  have place: "same_place mi mi1" "chosen_bin mi1 = chosen_bin mi" "mi_histogram mi1 = mi_histogram mi" "mi_histogram_len mi1 = mi_histogram_len mi"
    by (simp_all add: mi1_def scale_counts_def circpad_machine_update_state_length_for_nonpadding_def same_place_def split: option.split)
  then have "runtime_ok machine mi1"
    using assms runtime_ok_cong by blast
  from remove_token_ok [OF this, of now] place(1) show ?thesis
    unfolding circpad_machine_count_nonpadding_sent_def Let_def by (fold mi1_def) (auto simp: same_place_def)
qed

lemma limit_tolerated:
  "case circpad_machine_reached_padding_limit g machine mi of Inl f \<Rightarrow> tolerated f | Inr _ \<Rightarrow> True"
  by (auto simp: circpad_machine_reached_padding_limit_def Let_def tolerated_def and_then_Inl split: sum.splits if_splits)

section \<open>Well-formed circuits\<close>

text \<open>
  Slots and runtime information belong together one to one, the machine of a slot is in place, on its side of the
  circuit, and its runtime is consistent; addresses are never reused. Purposes go up to 24. The invariant \<open>pad_ok\<close> has besides
  that a circuit at its origin has used up its RELAY_EARLY cells: the last one changes which machines apply while a cell is
  being sent, and may free the machine that sends it.
\<close>

definition runtime_in_place :: "pad_world \<Rightarrow> nat \<Rightarrow> circpad_machine_runtime \<Rightarrow> bool" where
  "runtime_in_place w p mi \<longleftrightarrow> mi_index mi < CIRCPAD_MAX_MACHINES \<and> padding_info w ! mi_index mi = Some p \<and>
     (\<exists>machine. padding_machine w ! mi_index mi = Some machine \<and> machine_index machine = mi_index mi \<and> spec_ok machine \<and>
       is_origin_side machine = CIRCUIT_IS_ORIGIN w \<and> runtime_ok machine mi)"

definition slots_ok :: "pad_world \<Rightarrow> bool" where
  "slots_ok w \<longleftrightarrow> length (padding_machine w) = CIRCPAD_MAX_MACHINES \<and> length (padding_info w) = CIRCPAD_MAX_MACHINES \<and>
     (\<forall>i p. i < CIRCPAD_MAX_MACHINES \<longrightarrow> padding_info w ! i = Some p \<longrightarrow> (\<exists>mi. runtimes w p = Some mi \<and> mi_index mi = i)) \<and>
     (\<forall>p mi. runtimes w p = Some mi \<longrightarrow> runtime_in_place w p mi \<and> p < next_addr w) \<and> purpose w \<le> 24"

definition pad_ok :: "pad_world \<Rightarrow> bool" where
  "pad_ok w \<longleftrightarrow> length (padding_machine w) = CIRCPAD_MAX_MACHINES \<and> length (padding_info w) = CIRCPAD_MAX_MACHINES \<and>
     (\<forall>i p. i < CIRCPAD_MAX_MACHINES \<longrightarrow> padding_info w ! i = Some p \<longrightarrow> (\<exists>mi. runtimes w p = Some mi \<and> mi_index mi = i)) \<and>
     (\<forall>p mi. runtimes w p = Some mi \<longrightarrow> runtime_in_place w p mi \<and> p < next_addr w) \<and>
     (CIRCUIT_IS_ORIGIN w \<longrightarrow> remaining_relay_early_cells w = 0) \<and> purpose w \<le> 24"

lemma pad_ok_iff: "pad_ok w \<longleftrightarrow> slots_ok w \<and> (CIRCUIT_IS_ORIGIN w \<longrightarrow> remaining_relay_early_cells w = 0)"
  by (auto simp: pad_ok_def slots_ok_def)

lemma pad_ok_runtime: "pad_ok w \<Longrightarrow> runtimes w p = Some mi \<Longrightarrow> runtime_in_place w p mi"
  by (simp add: pad_ok_def)

lemma pad_ok_slot:
  "pad_ok w \<Longrightarrow> i < CIRCPAD_MAX_MACHINES \<Longrightarrow> padding_info w ! i = Some p \<Longrightarrow> \<exists>mi. runtimes w p = Some mi \<and> mi_index mi = i"
  by (simp add: pad_ok_def)

text \<open>While cells are sent and events are delivered, slots are only given up, and the circuit keeps its side.\<close>

definition evolves :: "pad_world \<Rightarrow> pad_world \<Rightarrow> bool" where
  "evolves w w' \<longleftrightarrow> CIRCUIT_IS_ORIGIN w' = CIRCUIT_IS_ORIGIN w \<and>
     (\<forall>i < CIRCPAD_MAX_MACHINES. padding_info w' ! i = padding_info w ! i \<or> padding_info w' ! i = None)"

lemma evolves_refl [simp]: "evolves w w"
  by (simp add: evolves_def)

lemma evolves_trans: "evolves w w' \<Longrightarrow> evolves w' w'' \<Longrightarrow> evolves w w''"
  by (simp add: evolves_def) metis

definition pad_inv :: "pad_world \<Rightarrow> pad_world \<Rightarrow> bool" where
  "pad_inv w0 w \<longleftrightarrow> pad_ok w \<and> evolves w0 w"

definition inv_live :: "pad_world \<Rightarrow> nat \<Rightarrow> nat \<Rightarrow> pad_world \<Rightarrow> bool" where
  "inv_live w0 i p w \<longleftrightarrow> pad_inv w0 w \<and> i < CIRCPAD_MAX_MACHINES \<and> padding_info w ! i = Some p"

text \<open>The runtime behind a pointer and its machine.\<close>

definition has :: "pad_world \<Rightarrow> nat \<Rightarrow> nat \<Rightarrow> circpad_machine_spec \<Rightarrow> circpad_machine_runtime \<Rightarrow> pad_world \<Rightarrow> bool" where
  "has w0 i p machine mi w \<longleftrightarrow> pad_inv w0 w \<and> runtimes w p = Some mi \<and> mi_index mi = i \<and> padding_machine w ! i = Some machine"

lemma hasD:
  assumes "has w0 i p machine mi w"
  shows "pad_inv w0 w" "inv_live w0 i p w" "spec_ok machine" "runtime_ok machine mi" "machine_index machine = i" "mi_index mi = i"
    "is_origin_side machine = CIRCUIT_IS_ORIGIN w" "i < CIRCPAD_MAX_MACHINES" "padding_info w ! i = Some p"
proof -
  have "pad_ok w" "runtimes w p = Some mi" "mi_index mi = i" "padding_machine w ! i = Some machine" "pad_inv w0 w"
    using assms by (simp_all add: has_def pad_inv_def)
  moreover from this have "runtime_in_place w p mi"
    by (simp add: pad_ok_runtime)
  ultimately show "pad_inv w0 w" "inv_live w0 i p w" "spec_ok machine" "runtime_ok machine mi" "machine_index machine = i" "mi_index mi = i"
    "is_origin_side machine = CIRCUIT_IS_ORIGIN w" "i < CIRCPAD_MAX_MACHINES" "padding_info w ! i = Some p"
    by (simp_all add: runtime_in_place_def inv_live_def)
qed

lemma inv_live_has:
  assumes "inv_live w0 i p w"
  obtains machine mi where "has w0 i p machine mi w"
proof -
  have w: "pad_ok w" "i < CIRCPAD_MAX_MACHINES" "padding_info w ! i = Some p" "pad_inv w0 w"
    using assms by (simp_all add: inv_live_def pad_inv_def)
  then obtain mi where mi: "runtimes w p = Some mi" "mi_index mi = i"
    using pad_ok_slot by blast
  then have "runtime_in_place w p mi"
    using w pad_ok_runtime by simp
  then show ?thesis
    using that w mi by (auto simp: has_def runtime_in_place_def)
qed

text \<open>Parts of the circuit that do not matter.\<close>

lemma is_origin_upd [simp]:
  "CIRCUIT_IS_ORIGIN (w\<lparr>reads := a\<rparr>) = CIRCUIT_IS_ORIGIN w"
  "CIRCUIT_IS_ORIGIN (w\<lparr>sent := b\<rparr>) = CIRCUIT_IS_ORIGIN w"
  "CIRCUIT_IS_ORIGIN (w\<lparr>marked_for_close := c\<rparr>) = CIRCUIT_IS_ORIGIN w"
  "CIRCUIT_IS_ORIGIN (w\<lparr>globals := d\<rparr>) = CIRCUIT_IS_ORIGIN w"
  "CIRCUIT_IS_ORIGIN (w\<lparr>runtimes := r\<rparr>) = CIRCUIT_IS_ORIGIN w"
  "CIRCUIT_IS_ORIGIN (w\<lparr>padding_info := i\<rparr>) = CIRCUIT_IS_ORIGIN w"
  "CIRCUIT_IS_ORIGIN (w\<lparr>padding_info := i, runtimes := r\<rparr>) = CIRCUIT_IS_ORIGIN w"
  "CIRCUIT_IS_ORIGIN (w\<lparr>padding_machine := m\<rparr>) = CIRCUIT_IS_ORIGIN w"
  by (simp_all add: CIRCUIT_IS_ORIGIN_def)

lemma has_upd [simp]:
  "has w0 i p machine mi (w\<lparr>reads := a\<rparr>) = has w0 i p machine mi w"
  "has w0 i p machine mi (w\<lparr>globals := d\<rparr>) = has w0 i p machine mi w"
  by (simp_all add: has_def pad_inv_def pad_ok_def evolves_def runtime_in_place_def)

lemma inv_upd [simp]:
  "pad_inv w0 (w\<lparr>reads := a\<rparr>) = pad_inv w0 w"
  "pad_inv w0 (w\<lparr>sent := b\<rparr>) = pad_inv w0 w"
  "pad_inv w0 (w\<lparr>marked_for_close := c\<rparr>) = pad_inv w0 w"
  "pad_inv w0 (w\<lparr>globals := d\<rparr>) = pad_inv w0 w"
  by (simp_all add: pad_inv_def pad_ok_def evolves_def runtime_in_place_def)

lemma inv_live_upd [simp]:
  "inv_live w0 i p (w\<lparr>reads := a\<rparr>) = inv_live w0 i p w"
  "inv_live w0 i p (w\<lparr>sent := b\<rparr>) = inv_live w0 i p w"
  "inv_live w0 i p (w\<lparr>marked_for_close := c\<rparr>) = inv_live w0 i p w"
  by (simp_all add: inv_live_def)

section \<open>Contracts of the basic actions\<close>

lemma get_runtime_safe:
  "safe (inv_live w0 i p) (get_runtime p) (\<lambda>mi w. \<exists>machine. has w0 i p machine mi w)"
  by (rule safeI) (auto elim!: inv_live_has simp: get_runtime_def has_def)

lemma get_machine_safe:
  "safe (\<lambda>w. \<exists>machine. has w0 i p machine mi w) (CIRCPAD_GET_MACHINE mi) (\<lambda>machine. has w0 i p machine mi)"
proof (rule safeI)
  fix w
  assume "\<exists>machine. has w0 i p machine mi w"
  then obtain machine where h: "has w0 i p machine mi w"
    by blast
  then have "mi_index mi < length (padding_machine w)" "padding_machine w ! mi_index mi = Some machine"
    using hasD(8) [OF h] by (simp_all add: has_def pad_inv_def pad_ok_def)
  with h show "case CIRCPAD_GET_MACHINE mi w of Inl f \<Rightarrow> tolerated f | Inr (w', machine) \<Rightarrow> has w0 i p machine mi w'"
    by (simp add: CIRCPAD_GET_MACHINE_def at_index_def)
qed

lemma with_machine_safe:
  assumes "\<And>machine mi. spec_ok machine \<Longrightarrow> runtime_ok machine mi \<Longrightarrow> machine_index machine = i \<Longrightarrow> mi_index mi = i \<Longrightarrow>
      i < CIRCPAD_MAX_MACHINES \<Longrightarrow> safe (has w0 i p machine mi) (f machine mi) Q"
  shows "safe (inv_live w0 i p) (with_machine p f) Q"
  unfolding with_machine_def
proof (rule safe_seq [OF get_runtime_safe safe_seq [OF get_machine_safe]])
  fix mi machine
  show "safe (has w0 i p machine mi) (f machine mi) Q"
    using assms [of machine mi] hasD(3-6,8) [of w0 i p machine mi] by (auto simp: safe_def)
qed

lemma set_runtime_safe:
  assumes "runtime_ok machine mi'" and "mi_index mi' = mi_index mi"
  shows "safe (has w0 i p machine mi) (set_runtime p mi') (\<lambda>_. has w0 i p machine mi')"
proof (rule safeI)
  fix w
  assume h: "has w0 i p machine mi w"
  let ?w = "w\<lparr>runtimes := (runtimes w)(p \<mapsto> mi')\<rparr>"
  have ok: "pad_ok w" and rt: "runtimes w p = Some mi" and ev: "evolves w0 w" and m: "padding_machine w ! i = Some machine"
    using h by (auto simp: has_def pad_inv_def)
  have "runtime_in_place ?w p mi'"
    using hasD [OF h] m assms by (auto simp: runtime_in_place_def)
  moreover have "runtime_in_place ?w q n" if "runtimes w q = Some n" for q n
    using pad_ok_runtime [OF ok that] by (simp add: runtime_in_place_def)
  moreover have "\<exists>n. runtimes ?w q = Some n \<and> mi_index n = j" if "j < CIRCPAD_MAX_MACHINES" "padding_info w ! j = Some q" for j q
    using pad_ok_slot [OF ok that] rt assms(2) by auto
  ultimately have "pad_ok ?w"
    using ok rt by (auto simp: pad_ok_def)
  moreover have "evolves w0 ?w"
    using ev by (simp add: evolves_def)
  ultimately show "case set_runtime p mi' w of Inl f \<Rightarrow> tolerated f | Inr (w', _) \<Rightarrow> has w0 i p machine mi' w'"
    using rt m assms(2) hasD(6) [OF h] by (simp add: set_runtime_def has_def pad_inv_def)
qed

lemma set_runtime_live:
  assumes "runtime_ok machine mi'" and "mi_index mi' = mi_index mi"
  shows "safe (has w0 i p machine mi) (set_runtime p mi') (\<lambda>_. inv_live w0 i p)"
  by (rule safe_post [OF set_runtime_safe [OF assms]]) (rule hasD)

lemma update_runtime_live:
  assumes "\<And>machine mi. spec_ok machine \<Longrightarrow> runtime_ok machine mi \<Longrightarrow> runtime_ok machine (f mi) \<and> mi_index (f mi) = mi_index mi"
  shows "safe (inv_live w0 i p) (update_runtime p f) (\<lambda>_. inv_live w0 i p)"
  unfolding update_runtime_def
proof (rule safe_seq [OF get_runtime_safe])
  fix mi
  show "safe (\<lambda>w. \<exists>machine. has w0 i p machine mi w) (set_runtime p (f mi)) (\<lambda>_. inv_live w0 i p)"
    using set_runtime_live [of _ "f mi" mi w0 i p] assms hasD(3,4) by (fastforce simp: safe_def)
qed

lemma check_safe:
  assumes "case r of Inl f \<Rightarrow> tolerated f | Inr x \<Rightarrow> Q x"
  shows "safe P (check r) (\<lambda>x w. P w \<and> Q x)"
  using assms by (cases r) (auto simp: safe_def check_def)

lemma next_read_safe: "safe (has w0 i p machine mi) next_read (\<lambda>_. has w0 i p machine mi)"
  by (rule safe_post [OF safe_next_read]) auto

lemma monotime_safe: "safe (has w0 i p machine mi) (monotime_absolute_usec e) (\<lambda>_. has w0 i p machine mi)"
  unfolding monotime_absolute_usec_def by (rule safe_seq [OF next_read_safe]) (auto intro: safe_return)

lemma update_None: "j < length xs \<Longrightarrow> xs[i := None] ! j = xs ! j \<or> xs[i := None] ! j = None"
  by (cases "i = j") simp_all

lemma free_idx_safe:
  assumes "i < CIRCPAD_MAX_MACHINES"
  shows "safe (pad_inv w0) (circpad_circuit_machineinfo_free_idx i) (\<lambda>_ w. pad_inv w0 w \<and> padding_info w ! i = None)"
proof (rule safeI)
  fix w
  assume w: "pad_inv w0 w"
  then have len: "length (padding_info w) = CIRCPAD_MAX_MACHINES"
    by (simp add: pad_inv_def pad_ok_def)
  show "case circpad_circuit_machineinfo_free_idx i w of Inl f \<Rightarrow> tolerated f | Inr (w', _) \<Rightarrow> pad_inv w0 w' \<and> padding_info w' ! i = None"
  proof (cases "padding_info w ! i")
    case None
    then show ?thesis
      using w assms len by (simp add: circpad_circuit_machineinfo_free_idx_def at_index_def)
  next
    case (Some p)
    let ?w = "w\<lparr>padding_info := (padding_info w)[i := None], runtimes := (runtimes w)(p := None)\<rparr>"
    obtain mi where mi: "runtimes w p = Some mi" "mi_index mi = i"
      using w assms Some pad_ok_slot unfolding pad_inv_def by blast
    have other: "mi_index n \<noteq> i" if "runtimes w q = Some n" "q \<noteq> p" for q n
      using w that Some pad_ok_runtime [of w q n] by (auto simp: pad_inv_def runtime_in_place_def)
    have "runtime_in_place ?w q n" if "runtimes w q = Some n" "q \<noteq> p" for q n
      using w that other [OF that] pad_ok_runtime [of w q n] by (simp add: pad_inv_def runtime_in_place_def)
    moreover have "\<exists>n. runtimes ?w q = Some n \<and> mi_index n = j"
      if jq: "j < CIRCPAD_MAX_MACHINES" "padding_info ?w ! j = Some q" for j q
    proof -
      have "j \<noteq> i" "padding_info w ! j = Some q"
        using jq len by (cases "j = i"; simp)+
      moreover from this obtain n where "runtimes w q = Some n" "mi_index n = j"
        using w jq(1) pad_ok_slot unfolding pad_inv_def by blast
      ultimately show ?thesis
        using mi by auto
    qed
    ultimately have "pad_ok ?w"
      using w by (auto simp: pad_inv_def pad_ok_def)
    moreover have "evolves w0 ?w"
      using w len update_None [of _ "padding_info w" i] by (simp add: pad_inv_def evolves_def) metis
    ultimately show ?thesis
      using Some assms len mi by (simp add: circpad_circuit_machineinfo_free_idx_def at_index_def pad_inv_def)
  qed
qed

lemma clear_machine_safe:
  "safe (\<lambda>w. pad_inv w0 w \<and> padding_info w ! i = None) (clear_machine i) (\<lambda>_ w. pad_inv w0 w \<and> padding_info w ! i = None)"
proof (unfold clear_machine_def, rule safe_modify)
  fix w
  assume w: "pad_inv w0 w \<and> padding_info w ! i = None"
  let ?w = "w\<lparr>padding_machine := (padding_machine w)[i := None]\<rparr>"
  have "runtime_in_place ?w q n" if "runtimes w q = Some n" for q n
  proof -
    have "runtime_in_place w q n"
      using w that pad_ok_runtime by (simp add: pad_inv_def)
    moreover from this have "mi_index n \<noteq> i"
      using w by (auto simp: runtime_in_place_def)
    ultimately show ?thesis
      by (simp add: runtime_in_place_def)
  qed
  then show "pad_inv w0 ?w \<and> padding_info ?w ! i = None"
    using w by (auto simp: pad_inv_def pad_ok_def evolves_def)
qed

section \<open>Contracts of the functions\<close>

text \<open>What a caller may rely on after a decision: unless the state has changed, the pointer is still good.\<close>

definition answer :: "pad_world \<Rightarrow> nat \<Rightarrow> nat \<Rightarrow> int \<Rightarrow> pad_world \<Rightarrow> bool" where
  "answer w0 i p d w \<longleftrightarrow> pad_inv w0 w \<and> (d \<noteq> CIRCPAD_STATE_CHANGED \<longrightarrow> inv_live w0 i p w)"

definition right_way :: "pad_world \<Rightarrow> nat \<Rightarrow> bool" where
  "right_way w0 hopnum \<longleftrightarrow> CIRCUIT_IS_ORIGIN w0 = (hopnum \<noteq> 0)"

text \<open>The contract of the two calls that close the circle.\<close>

definition keeps :: "pad_self \<Rightarrow> bool" where
  "keeps self \<longleftrightarrow>
     (\<forall>w0 i p event. 0 \<le> event \<and> event < 7 \<longrightarrow> safe (inv_live w0 i p) (self (Transition p event)) (answer w0 i p)) \<and>
     (\<forall>w0 relay_command payload hopnum. length payload \<le> PAD_RELAY_PAYLOAD_SIZE \<and> right_way w0 hopnum \<longrightarrow>
       safe (pad_inv w0) (self (Relay_Send relay_command payload hopnum)) (\<lambda>_. pad_inv w0)) \<and>
     (\<forall>w0 i p hopnum. right_way w0 hopnum \<longrightarrow>
       safe (inv_live w0 i p) (self (Relay_Send RELAY_COMMAND_DROP [] hopnum)) (\<lambda>_. inv_live w0 i p))"

lemma keeps_transition: "keeps self \<Longrightarrow> 0 \<le> event \<Longrightarrow> event < 7 \<Longrightarrow> safe (inv_live w0 i p) (self (Transition p event)) (answer w0 i p)"
  by (simp add: keeps_def)

lemma keeps_send: "keeps self \<Longrightarrow> length payload \<le> PAD_RELAY_PAYLOAD_SIZE \<Longrightarrow> right_way w0 hopnum \<Longrightarrow>
    safe (pad_inv w0) (self (Relay_Send relay_command payload hopnum)) (\<lambda>_. pad_inv w0)"
  by (simp add: keeps_def)

lemma keeps_drop: "keeps self \<Longrightarrow> right_way w0 hopnum \<Longrightarrow>
    safe (inv_live w0 i p) (self (Relay_Send RELAY_COMMAND_DROP [] hopnum)) (\<lambda>_. inv_live w0 i p)"
  by (simp add: keeps_def)

lemma inv_live_inv: "inv_live w0 i p w \<Longrightarrow> pad_inv w0 w"
  by (simp add: inv_live_def)

lemma answer_inv: "answer w0 i p d w \<Longrightarrow> pad_inv w0 w"
  by (simp add: answer_def)

lemma answer_changed [simp]: "answer w0 i p CIRCPAD_STATE_CHANGED w = pad_inv w0 w"
  by (simp add: answer_def)

lemma answer_unchanged [simp]: "answer w0 i p CIRCPAD_STATE_UNCHANGED w = inv_live w0 i p w"
  by (auto simp: answer_def circpad_decisions inv_live_def)

lemma answer_live: "inv_live w0 i p w \<Longrightarrow> answer w0 i p d w"
  by (simp add: answer_def inv_live_def)

lemma has_unchanged: "safe (has w0 i p machine mi) (return_val CIRCPAD_STATE_UNCHANGED) (answer w0 i p)"
  by (rule safe_return) (simp add: hasD(2))

lemma live_changed: "safe (\<lambda>w. inv_live w0 i p w \<and> Q w) (return_val CIRCPAD_STATE_CHANGED) (answer w0 i p)"
  by (rule safe_return) (auto dest: inv_live_inv)

lemma safe_ignore: "safe P m (\<lambda>_. Q) \<Longrightarrow> safe P (seq m (\<lambda>_. return_val x)) (\<lambda>_. Q)"
  by (rule safe_seq) (auto intro: safe_return)

text \<open>Sending.\<close>

lemma send_to_hop_safe:
  assumes "keeps self" and "length payload \<le> PAD_RELAY_PAYLOAD_SIZE" and "CIRCUIT_IS_ORIGIN w0"
  shows "safe (pad_inv w0) (circpad_send_command_to_hop self hopnum relay_command payload) (\<lambda>_. pad_inv w0)"
  unfolding circpad_send_command_to_hop_def
proof (rule safe_seq [OF safe_look])
  fix h
  have "safe (pad_inv w0) (self (Relay_Send relay_command payload (unat hopnum))) (\<lambda>_. pad_inv w0)" if "unat hopnum \<noteq> 0"
    using keeps_send [OF assms(1,2)] assms(3) that by (simp add: right_way_def)
  then show "safe (\<lambda>w. pad_inv w0 w \<and> h = circuit_get_cpath_hop (cpath w) (unat hopnum))
      (case h of None \<Rightarrow> return_val (-1)
       | Some h \<Rightarrow> if hop_open h then self (Relay_Send relay_command payload (unat hopnum)) else return_val (-1)) (\<lambda>_. pad_inv w0)"
    by (auto simp: safe_def return_val_def circuit_get_cpath_hop_def split: option.splits)
qed

lemma drop_to_hop_safe:
  assumes "keeps self" and "CIRCUIT_IS_ORIGIN w0"
  shows "safe (inv_live w0 i p) (circpad_send_command_to_hop self hopnum RELAY_COMMAND_DROP []) (\<lambda>_. inv_live w0 i p)"
  unfolding circpad_send_command_to_hop_def
proof (rule safe_seq [OF safe_look])
  fix h
  have "safe (inv_live w0 i p) (self (Relay_Send RELAY_COMMAND_DROP [] (unat hopnum))) (\<lambda>_. inv_live w0 i p)" if "unat hopnum \<noteq> 0"
    using keeps_drop [OF assms(1)] assms(2) that by (simp add: right_way_def)
  then show "safe (\<lambda>w. inv_live w0 i p w \<and> h = circuit_get_cpath_hop (cpath w) (unat hopnum))
      (case h of None \<Rightarrow> return_val (-1)
       | Some h \<Rightarrow> if hop_open h then self (Relay_Send RELAY_COMMAND_DROP [] (unat hopnum)) else return_val (-1)) (\<lambda>_. inv_live w0 i p)"
    by (auto simp: safe_def return_val_def circuit_get_cpath_hop_def split: option.splits)
qed

lemma negotiate_safe:
  assumes "keeps self" and "CIRCUIT_IS_ORIGIN w0"
  shows "safe (pad_inv w0) (circpad_negotiate_padding self machine hopnum command ctr) (\<lambda>_. pad_inv w0)"
  unfolding circpad_negotiate_padding_def
proof (rule safe_seq [OF safe_look], rule safe_if)
  fix hops
  let ?r = "circpad_negotiate_encode PAD_CELL_PAYLOAD_SIZE (negotiate_cell machine command ctr)"
  have "length payload \<le> PAD_RELAY_PAYLOAD_SIZE" if "?r = Inr payload" for payload
    using that by (auto simp: circpad_negotiate_encode_Inr PAD_RELAY_PAYLOAD_SIZE_def)
  then show "safe (\<lambda>w. pad_inv w0 w \<and> hops = cpath w) (case ?r of Inl _ \<Rightarrow> return_val (-1)
      | Inr payload \<Rightarrow> circpad_send_command_to_hop self hopnum RELAY_COMMAND_PADDING_NEGOTIATE payload) (\<lambda>_. pad_inv w0)"
    using send_to_hop_safe [OF assms(1) _ assms(2)] by (cases ?r) (auto simp: safe_def return_val_def)
qed (auto intro: safe_return)

lemma negotiated_safe:
  assumes "keeps self" and "\<not> CIRCUIT_IS_ORIGIN w0"
  shows "safe (pad_inv w0) (circpad_padding_negotiated self machine command response ctr) (\<lambda>_. pad_inv w0)"
proof -
  let ?r = "circpad_negotiated_encode PAD_CELL_PAYLOAD_SIZE (negotiated_cell machine command response ctr)"
  have "safe (pad_inv w0) (seq (self (Relay_Send RELAY_COMMAND_PADDING_NEGOTIATED payload 0)) (\<lambda>r. return_val (r = 0))) (\<lambda>_. pad_inv w0)"
    if "?r = Inr payload" for payload
    using that assms by (intro safe_seq [OF keeps_send]) (auto intro: safe_return
        simp: circpad_negotiated_encode_Inr PAD_RELAY_PAYLOAD_SIZE_def right_way_def)
  then show ?thesis
    unfolding circpad_padding_negotiated_def by (cases ?r) (auto intro: safe_return)
qed

text \<open>Tearing a machine down.\<close>

lemma has_inv: "safe (pad_inv w0) m Q \<Longrightarrow> safe (has w0 i p machine mi) m Q"
  by (erule safe_pre) (rule hasD(1))

lemma origin_of_base: "pad_inv w0 w \<Longrightarrow> CIRCUIT_IS_ORIGIN w = CIRCUIT_IS_ORIGIN w0"
  by (simp add: pad_inv_def evolves_def)

lemma to_origin_safe: "CIRCUIT_IS_ORIGIN w0 \<Longrightarrow> safe (\<lambda>w. pad_inv w0 w \<and> P w) TO_ORIGIN_CIRCUIT (\<lambda>_ w. pad_inv w0 w \<and> P w)"
  by (auto simp: safe_def TO_ORIGIN_CIRCUIT_def origin_of_base)

lemma slot_stays_empty:
  assumes "\<And>w1. pad_inv w1 w1 \<Longrightarrow> evolves w0 w1 \<Longrightarrow> safe (pad_inv w1) m (\<lambda>_. pad_inv w1)" and "i < CIRCPAD_MAX_MACHINES"
  shows "safe (\<lambda>w. pad_inv w0 w \<and> padding_info w ! i = None) m (\<lambda>_ w. pad_inv w0 w \<and> padding_info w ! i = None)"
proof (rule safeI)
  fix w
  assume w: "pad_inv w0 w \<and> padding_info w ! i = None"
  then have "pad_inv w w" "evolves w0 w"
    by (simp_all add: pad_inv_def)
  from assms(1) [OF this] have "case m w of Inl f \<Rightarrow> tolerated f | Inr (w', _) \<Rightarrow> pad_inv w w'"
    using \<open>pad_inv w w\<close> by (simp add: safe_def)
  then show "case m w of Inl f \<Rightarrow> tolerated f | Inr (w', _) \<Rightarrow> pad_inv w0 w' \<and> padding_info w' ! i = None"
    using w assms(2) evolves_trans by (auto simp: pad_inv_def evolves_def [of w] split: sum.splits)
qed

lemma to_end_safe:
  assumes "keeps self"
  shows "safe (inv_live w0 i p) (circpad_machine_spec_transitioned_to_end self p) (\<lambda>_. pad_inv w0)"
  unfolding circpad_machine_spec_transitioned_to_end_def
proof (rule with_machine_safe)
  fix machine mi
  assume m: "spec_ok machine" "machine_index machine = i" "i < CIRCPAD_MAX_MACHINES"
  let ?f = "circpad_circuit_machineinfo_free_idx (machine_index machine)"
  have free: "safe (has w0 i p machine mi) ?f (\<lambda>_ w. pad_inv w0 w \<and> padding_info w ! i = None)"
    using free_idx_safe [of i w0] m(2,3) by (auto intro: has_inv)
  have origin: "safe (has w0 i p machine mi) (seq ?f (\<lambda>_. seq TO_ORIGIN_CIRCUIT (\<lambda>_.
      seq (circpad_negotiate_padding self (machine_num machine) (target_hopnum machine) CIRCPAD_COMMAND_STOP (machine_ctr mi)) (\<lambda>_.
      return_val ())))) (\<lambda>_. pad_inv w0)" if o: "CIRCUIT_IS_ORIGIN w0"
    by (rule safe_seq [OF free], rule safe_seq [OF to_origin_safe [OF o]], rule safe_ignore,
        rule safe_pre [OF negotiate_safe [OF assms o]]) simp
  have neg: "safe (pad_inv w1) (circpad_padding_negotiated self (machine_num machine) CIRCPAD_COMMAND_STOP CIRCPAD_RESPONSE_OK (machine_ctr mi)) (\<lambda>_. pad_inv w1)"
    if "evolves w0 w1" "\<not> CIRCUIT_IS_ORIGIN w0" for w1
    using negotiated_safe [OF assms] that by (simp add: evolves_def)
  have relay: "safe (has w0 i p machine mi) (seq ?f (\<lambda>_.
      seq (circpad_padding_negotiated self (machine_num machine) CIRCPAD_COMMAND_STOP CIRCPAD_RESPONSE_OK (machine_ctr mi)) (\<lambda>_.
      clear_machine (machine_index machine)))) (\<lambda>_. pad_inv w0)" if o: "\<not> CIRCUIT_IS_ORIGIN w0"
    unfolding m(2)
    by (rule safe_seq [OF free [unfolded m(2)]], rule safe_seq [OF slot_stays_empty [OF neg m(3)]])
      (use o in \<open>auto intro: safe_post [OF clear_machine_safe]\<close>)
  have side: "is_origin_side machine = CIRCUIT_IS_ORIGIN w0" if "has w0 i p machine mi w" for w
    using hasD(1,7) [OF that] origin_of_base by simp
  show "safe (has w0 i p machine mi) (if \<not> should_negotiate_end machine then return_val ()
     else if is_origin_side machine then
       seq ?f (\<lambda>_. seq TO_ORIGIN_CIRCUIT (\<lambda>_.
       seq (circpad_negotiate_padding self (machine_num machine) (target_hopnum machine) CIRCPAD_COMMAND_STOP (machine_ctr mi)) (\<lambda>_.
       return_val ())))
     else seq ?f (\<lambda>_.
       seq (circpad_padding_negotiated self (machine_num machine) CIRCPAD_COMMAND_STOP CIRCPAD_RESPONSE_OK (machine_ctr mi)) (\<lambda>_.
       clear_machine (machine_index machine)))) (\<lambda>_. pad_inv w0)"
  proof (cases "should_negotiate_end machine")
    case True
    have "is_origin_side machine = CIRCUIT_IS_ORIGIN w0 \<or> (\<forall>w. \<not> has w0 i p machine mi w)"
      using side by blast
    then show ?thesis
      using True origin relay by (cases "CIRCUIT_IS_ORIGIN w0") (auto simp: safe_def)
  qed (auto intro: safe_return dest: hasD(1))
qed

text \<open>Tokens and state lengths.\<close>

lemma setup_tokens_safe: "safe (inv_live w0 i p) (setup_tokens p) (\<lambda>_. inv_live w0 i p)"
  unfolding setup_tokens_def
proof (rule with_machine_safe)
  fix machine mi
  assume m: "spec_ok machine" "runtime_ok machine mi"
  then obtain mi' where mi': "circpad_machine_setup_tokens machine mi = Inr mi'" "runtime_ok machine mi'" "same_place mi mi'"
    using setup_tokens_ok by (auto simp: runtime_ok_def)
  show "safe (has w0 i p machine mi) (seq (check (circpad_machine_setup_tokens machine mi)) (set_runtime p)) (\<lambda>_. inv_live w0 i p)"
    using set_runtime_live [OF mi'(2), of mi w0 i p] mi' by (simp add: safe_def seq_def check_def same_place_def)
qed

lemma choose_length_safe: "safe (inv_live w0 i p) (circpad_choose_state_length e p) (\<lambda>_. inv_live w0 i p)"
  unfolding circpad_choose_state_length_def
proof (rule with_machine_safe)
  fix machine mi
  assume m: "runtime_ok machine mi"
  have set: "safe (has w0 i p machine mi) (set_runtime p (mi\<lparr>state_length := n\<rparr>)) (\<lambda>_. inv_live w0 i p)" for n
    by (rule set_runtime_live) (auto intro: runtime_ok_cong [OF m] simp: same_place_def)
  show "safe (has w0 i p machine mi) (case circpad_machine_current_state machine mi of
       None \<Rightarrow> set_runtime p (mi\<lparr>state_length := CIRCPAD_STATE_LENGTH_INFINITE\<rparr>)
     | Some state \<Rightarrow>
         if dist_type (length_dist state) = CIRCPAD_DIST_NONE then set_runtime p (mi\<lparr>state_length := CIRCPAD_STATE_LENGTH_INFINITE\<rparr>)
         else seq next_read (\<lambda>n.
           let len = max 0 (length_draw_at e n) + of_nat (unat (start_length state));
               len = (if max_length state \<noteq> 0 then min len (of_nat (unat (max_length state))) else len)
           in set_runtime p (mi\<lparr>state_length := of_int (min \<lfloor>len\<rfloor> 0x7FFFFFFFFFFFFFFF)\<rparr>))) (\<lambda>_. inv_live w0 i p)"
    by (auto simp: set Let_def split: option.split intro!: safe_if safe_seq [OF next_read_safe] set)
qed

lemma finite_tokens_ok: "runtime_ok machine mi \<Longrightarrow> \<exists>t. finite_tokens mi = Inr t"
  by (auto simp: runtime_ok_def tokens_ok_def finite_tokens_def mi_ok_def CIRCPAD_INFINITY_BIN_def split: option.splits if_splits)

lemma bins_empty_safe:
  assumes "keeps self"
  shows "safe (inv_live w0 i p) (circpad_internal_event_bins_empty self p) (answer w0 i p)"
  unfolding circpad_internal_event_bins_empty_def
proof (rule safe_seq [OF keeps_transition [OF assms]])
  fix d
  have "safe (inv_live w0 i p) (seq (setup_tokens p) (\<lambda>_. return_val CIRCPAD_STATE_UNCHANGED)) (answer w0 i p)"
    by (rule safe_seq [OF setup_tokens_safe]) (auto intro: safe_return)
  then show "safe (answer w0 i p d) (if d = CIRCPAD_STATE_CHANGED then return_val CIRCPAD_STATE_CHANGED
      else seq (setup_tokens p) (\<lambda>_. return_val CIRCPAD_STATE_UNCHANGED)) (answer w0 i p)"
    by (auto simp: safe_def answer_def return_val_def)
qed (simp_all add: circpad_events)

lemma length_up_safe:
  "keeps self \<Longrightarrow> safe (inv_live w0 i p) (circpad_internal_event_state_length_up self p) (answer w0 i p)"
  unfolding circpad_internal_event_state_length_up_def by (rule keeps_transition) (simp_all add: circpad_events)

lemma infinity_safe:
  "keeps self \<Longrightarrow> safe (inv_live w0 i p) (circpad_internal_event_infinity self p) (answer w0 i p)"
  unfolding circpad_internal_event_infinity_def by (rule keeps_transition) (simp_all add: circpad_events)

lemma get_runtime_live: "safe (inv_live w0 i p) (get_runtime p) (\<lambda>mi w. inv_live w0 i p w \<and> (\<exists>machine. spec_ok machine \<and> runtime_ok machine mi))"
  by (rule safe_post [OF get_runtime_safe]) (auto dest: hasD)

lemma token_supply_safe:
  assumes "keeps self"
  shows "safe (inv_live w0 i p) (check_machine_token_supply self p) (answer w0 i p)"
  unfolding check_machine_token_supply_def
proof (rule safe_seq [OF get_runtime_live], rule safe_pure, elim exE conjE)
  fix mi machine
  assume "runtime_ok machine mi"
  then obtain t where t: "finite_tokens mi = Inr t"
    using finite_tokens_ok by blast
  let ?len = "\<lambda>d. if d = CIRCPAD_STATE_CHANGED then return_val CIRCPAD_STATE_CHANGED
     else seq (get_runtime p) (\<lambda>mi. if state_length mi = 0 then circpad_internal_event_state_length_up self p
       else return_val CIRCPAD_STATE_UNCHANGED)"
  have "safe (inv_live w0 i p) (seq (get_runtime p) (\<lambda>mi. if state_length mi = 0 then circpad_internal_event_state_length_up self p
       else return_val CIRCPAD_STATE_UNCHANGED)) (answer w0 i p)"
    by (rule safe_seq [OF get_runtime_live], rule safe_if)
      (auto intro: safe_pre [OF length_up_safe [OF assms]] safe_return)
  then have len: "safe (answer w0 i p d) (?len d) (answer w0 i p)" for d
    by (auto simp: safe_def answer_def return_val_def)
  have "safe (inv_live w0 i p) (if circpad_is_token_removal_supported mi \<and> t = 0 then circpad_internal_event_bins_empty self p
      else return_val CIRCPAD_STATE_UNCHANGED) (answer w0 i p)"
    by (rule safe_if) (auto intro: bins_empty_safe [OF assms] safe_return)
  from safe_seq [OF this len] show "safe (inv_live w0 i p) (seq (check (finite_tokens mi)) (\<lambda>tokens.
     seq (if circpad_is_token_removal_supported mi \<and> tokens = 0 then circpad_internal_event_bins_empty self p
          else return_val CIRCPAD_STATE_UNCHANGED) ?len)) (answer w0 i p)"
    unfolding t seq_check_Inr .
qed

text \<open>Loops over the machines.\<close>

lemma info_at_safe:
  "i < CIRCPAD_MAX_MACHINES \<Longrightarrow> safe (\<lambda>w. pad_inv w0 w \<and> padding_info w ! i \<noteq> None) (info_at i) (\<lambda>p. inv_live w0 i p)"
  by (auto simp: safe_def info_at_def at_index_def pad_inv_def pad_ok_def inv_live_def)

lemma info_at_again: "safe (inv_live w0 i p) (info_at i) (\<lambda>q. inv_live w0 i q)"
  by (auto simp: safe_def info_at_def at_index_def pad_inv_def pad_ok_def inv_live_def)

lemma for_each_safe:
  assumes "\<And>i. i \<in> set is \<Longrightarrow> i < CIRCPAD_MAX_MACHINES \<and> safe (\<lambda>w. pad_inv w0 w \<and> padding_info w ! i \<noteq> None) (body i) (\<lambda>_. pad_inv w0)"
  shows "safe (pad_inv w0) (for_each_active body is) (\<lambda>_. pad_inv w0)"
  using assms
proof (induction "is")
  case (Cons i "is")
  have b: "safe (\<lambda>w. pad_inv w0 w \<and> r = padding_info w ! i) (if r = None then return_val () else body i) (\<lambda>_. pad_inv w0)" for r
  proof (rule safe_if)
    assume "r \<noteq> None"
    have "safe (\<lambda>w. pad_inv w0 w \<and> padding_info w ! i \<noteq> None) (body i) (\<lambda>_. pad_inv w0)"
      using Cons.prems [of i] by simp
    then show "safe (\<lambda>w. pad_inv w0 w \<and> r = padding_info w ! i) (body i) (\<lambda>_. pad_inv w0)"
      by (rule safe_pre) (use \<open>r \<noteq> None\<close> in auto)
  qed (auto intro: safe_return)
  show ?case
    using Cons by (auto intro!: safe_seq [OF safe_look] safe_seq [OF b])
qed (auto intro: safe_return)

lemma machine_slots_less: "i \<in> set machine_slots \<Longrightarrow> i < CIRCPAD_MAX_MACHINES"
  by (simp add: machine_slots_def)

lemma touch_safe:
  "safe (inv_live w0 i p) (update_runtime p (\<lambda>mi. mi\<lparr>last_cell_time_sec := t\<rparr>)) (\<lambda>_. inv_live w0 i p)"
  by (rule update_runtime_live) (auto intro: runtime_ok_cong simp: same_place_def)

lemma notify_safe:
  assumes "keeps self" and "0 \<le> event" and "event < 7"
  shows "safe (inv_live w0 i p) (seq (info_at i) (\<lambda>p. seq (self (Transition p event)) (\<lambda>_. return_val ()))) (\<lambda>_. pad_inv w0)"
  by (rule safe_seq [OF info_at_again], rule safe_ignore, rule safe_post [OF keeps_transition [OF assms]], rule answer_inv)

lemma unless_changed:
  assumes "safe (inv_live w0 i p) m (\<lambda>_. pad_inv w0)"
  shows "safe (answer w0 i p d) (if d \<noteq> CIRCPAD_STATE_UNCHANGED then return_val () else m) (\<lambda>_. pad_inv w0)"
  using assms by (auto simp: safe_def answer_def return_val_def circpad_decisions)

lemma on_padding_sent_safe:
  assumes "keeps self" and "i < CIRCPAD_MAX_MACHINES"
  shows "safe (\<lambda>w. pad_inv w0 w \<and> padding_info w ! i \<noteq> None) (on_padding_sent e self i) (\<lambda>_. pad_inv w0)"
  unfolding on_padding_sent_def
  by (rule safe_seq [OF info_at_safe [OF assms(2)]], rule safe_seq [OF token_supply_safe [OF assms(1)]], rule unless_changed,
      rule safe_seq [OF info_at_again], rule safe_seq [OF touch_safe], rule notify_safe [OF assms(1)]) (simp_all add: circpad_events)

lemma padding_sent_safe: "keeps self \<Longrightarrow> safe (pad_inv w0) (circpad_cell_event_padding_sent e self) (\<lambda>_. pad_inv w0)"
  unfolding circpad_cell_event_padding_sent_def
  by (rule for_each_safe) (intro conjI machine_slots_less on_padding_sent_safe)

text \<open>Sending padding.\<close>

lemma count_padding_safe: "safe (inv_live w0 i p) (count_padding p) (\<lambda>_. inv_live w0 i p)"
proof (rule safeI)
  fix w
  assume "inv_live w0 i p w"
  then obtain machine mi where h: "has w0 i p machine mi w"
    by (rule inv_live_has)
  obtain g mi' where c: "circpad_machine_count_padding_sent (globals w) mi = Inr (g, mi')" "runtime_ok machine mi'" "same_place mi mi'"
    using count_padding_runtime_ok [OF hasD(4) [OF h]] by blast
  have "runtimes w p = Some mi" "has w0 i p machine mi (w\<lparr>globals := g\<rparr>)"
    using h by (simp_all add: has_def)
  then show "case count_padding p w of Inl f \<Rightarrow> tolerated f | Inr (w', _) \<Rightarrow> inv_live w0 i p w'"
    using c set_runtime_live [OF c(2), of mi w0 i p] by (simp add: count_padding_def get_runtime_def safe_def same_place_def)
qed

lemma send_drop_safe:
  assumes "keeps self"
  shows "safe (inv_live w0 i p) (send_drop self p) (\<lambda>_. inv_live w0 i p)"
  unfolding send_drop_def
proof (rule safe_seq [OF safe_look], rule safe_if)
  fix origin
  assume o: origin
  have "safe (inv_live w0 i p) (with_machine p (\<lambda>machine mi.
       seq (circpad_send_command_to_hop self (target_hopnum machine) RELAY_COMMAND_DROP []) (\<lambda>_.
       seq (get_runtime p) (\<lambda>_. return_val ())))) (\<lambda>_. inv_live w0 i p)" if "CIRCUIT_IS_ORIGIN w0"
    by (rule with_machine_safe, rule safe_seq [OF safe_pre [OF drop_to_hop_safe [OF assms that]]], erule hasD(2), rule safe_ignore,
        rule safe_post [OF get_runtime_safe]) (auto dest: hasD(2))
  then show "safe (\<lambda>w. inv_live w0 i p w \<and> origin = CIRCUIT_IS_ORIGIN w) (with_machine p (\<lambda>machine mi.
       seq (circpad_send_command_to_hop self (target_hopnum machine) RELAY_COMMAND_DROP []) (\<lambda>_.
       seq (get_runtime p) (\<lambda>_. return_val ())))) (\<lambda>_. inv_live w0 i p)"
    using o origin_of_base [of w0] by (auto simp: safe_def dest: inv_live_inv)
next
  fix origin
  assume o: "\<not> origin"
  have "safe (inv_live w0 i p) (seq (look (\<lambda>w. p_chan_cells w \<le> unat (circpad_max_circ_queued_cells (globals w)))) (\<lambda>room.
       if room then seq (self (Relay_Send RELAY_COMMAND_DROP [] 0)) (\<lambda>_. return_val ()) else return_val ())) (\<lambda>_. inv_live w0 i p)"
    if "\<not> CIRCUIT_IS_ORIGIN w0"
    using that by (intro safe_seq [OF safe_look] safe_if safe_ignore safe_pre [OF keeps_drop [OF assms]])
      (auto intro: safe_return simp: right_way_def)
  then show "safe (\<lambda>w. inv_live w0 i p w \<and> origin = CIRCUIT_IS_ORIGIN w)
     (seq (look (\<lambda>w. p_chan_cells w \<le> unat (circpad_max_circ_queued_cells (globals w)))) (\<lambda>room.
       if room then seq (self (Relay_Send RELAY_COMMAND_DROP [] 0)) (\<lambda>_. return_val ()) else return_val ())) (\<lambda>_. inv_live w0 i p)"
    using o origin_of_base [of w0] by (auto simp: safe_def dest: inv_live_inv)
qed

lemma after_padding_safe:
  assumes "keeps self" and "i < CIRCPAD_MAX_MACHINES" and "padding_info w0 ! i = Some p"
  shows "safe (pad_inv w0) (after_padding self i state) (answer w0 i p)"
proof (rule safeI)
  fix w
  assume w: "pad_inv w0 w"
  then have len: "at_index (padding_info w) (int i) = Inr (padding_info w ! i)"
    using assms(2) by (simp add: at_index_def pad_inv_def pad_ok_def)
  show "case after_padding self i state w of Inl f \<Rightarrow> tolerated f | Inr (w', d) \<Rightarrow> answer w0 i p d w'"
  proof (cases "padding_info w ! i")
    case None
    then show ?thesis
      using w len by (simp add: after_padding_def seq_def check_def return_val_def)
  next
    case (Some q)
    then have "q = p"
      using w assms(2,3) by (auto simp: pad_inv_def evolves_def)
    with Some have live: "inv_live w0 i p w"
      using w assms(2) by (simp add: inv_live_def)
    then obtain machine mi where "has w0 i p machine mi w"
      by (rule inv_live_has)
    then have "runtimes w p = Some mi"
      by (simp add: has_def)
    then show ?thesis
      using token_supply_safe [OF assms(1), of w0 i p] live len Some w \<open>q = p\<close>
      by (fastforce simp: after_padding_def seq_def check_def return_val_def get_runtime_def safe_def answer_def split: sum.splits)
  qed
qed

lemma inv_live_base: "inv_live w0 i p w \<Longrightarrow> i < CIRCPAD_MAX_MACHINES \<and> padding_info w0 ! i = Some p"
  by (fastforce simp: inv_live_def pad_inv_def evolves_def)

lemma clear_timer_ok:
  "runtime_ok machine mi \<Longrightarrow> runtime_ok machine (mi\<lparr>padding_scheduled_at_usec := t, is_padding_timer_scheduled := b\<rparr>)"
  by (erule runtime_ok_cong) (simp_all add: same_place_def)

lemma callback_safe:
  assumes "keeps self"
  shows "safe (inv_live w0 i p) (circpad_send_padding_cell_for_callback e self p) (answer w0 i p)"
proof (cases "i < CIRCPAD_MAX_MACHINES \<and> padding_info w0 ! i = Some p")
  case True
  have "safe (inv_live w0 i p) (circpad_send_padding_cell_for_callback e self p) (answer w0 i p)"
    unfolding circpad_send_padding_cell_for_callback_def
  proof (rule safe_seq [OF get_runtime_safe])
    fix mi :: circpad_machine_runtime
    let ?mi = "mi\<lparr>padding_scheduled_at_usec := 0, is_padding_timer_scheduled := False\<rparr>"
    have set: "safe (\<lambda>w. (\<exists>machine. has w0 i p machine mi w) \<and> mi_index mi = i) (set_runtime p ?mi) (\<lambda>_. inv_live w0 i p)"
    proof -
      have "safe (has w0 i p machine mi) (set_runtime p ?mi) (\<lambda>_. inv_live w0 i p)" if "runtime_ok machine mi" for machine
        by (rule set_runtime_live [OF clear_timer_ok [OF that]]) simp
      then show ?thesis
        using hasD(4) by (fastforce simp: safe_def)
    qed
    have rest: "safe (inv_live w0 i p) (seq (count_padding p) (\<lambda>_. seq (send_drop self p) (\<lambda>_.
       seq (circpad_cell_event_padding_sent e self) (\<lambda>_. after_padding self i (current_state mi))))) (answer w0 i p)"
      by (rule safe_seq [OF count_padding_safe], rule safe_seq [OF send_drop_safe [OF assms]],
          rule safe_seq [OF safe_pre [OF padding_sent_safe [OF assms]]], erule inv_live_inv, rule after_padding_safe [OF assms])
        (use True in auto)
    have "safe (\<lambda>w. (\<exists>machine. has w0 i p machine mi w) \<and> mi_index mi = i)
      (seq (set_runtime p ?mi) (\<lambda>_. seq (look marked_for_close) (\<lambda>closing.
       if closing then return_val CIRCPAD_STATE_CHANGED
       else seq (count_padding p) (\<lambda>_. seq (send_drop self p) (\<lambda>_.
         seq (circpad_cell_event_padding_sent e self) (\<lambda>_. after_padding self i (current_state mi))))))) (answer w0 i p)"
      by (rule safe_seq [OF set], rule safe_seq [OF safe_look], rule safe_if)
        (auto intro: live_changed safe_pre [OF rest])
    then show "safe (\<lambda>w. \<exists>machine. has w0 i p machine mi w)
      (seq (set_runtime p ?mi) (\<lambda>_. seq (look marked_for_close) (\<lambda>closing.
       if closing then return_val CIRCPAD_STATE_CHANGED
       else seq (count_padding p) (\<lambda>_. seq (send_drop self p) (\<lambda>_.
         seq (circpad_cell_event_padding_sent e self) (\<lambda>_. after_padding self (mi_index mi) (current_state mi))))))) (answer w0 i p)"
      using hasD(6) by (fastforce simp: safe_def)
  qed
  then show ?thesis .
next
  case False
  then show ?thesis
    using inv_live_base by (auto simp: safe_def)
qed

text \<open>
  What a padding plugin writes on a circuit: in the runtime information the time and the flag of the timer,
  as \<open>circpad_set\<close> does, and the counts of cells, as \<open>circpad_machine_count_padding_sent\<close> does; it may pass cells on,
  read clock and random numbers, and have the circuit marked for close. It delivers no event to a machine.
\<close>

definition timer_and_counts :: "circpad_machine_runtime \<Rightarrow> circpad_machine_runtime \<Rightarrow> bool" where
  "timer_and_counts mi mi' \<longleftrightarrow> (\<exists>usec flag n m l. mi' = mi\<lparr>padding_scheduled_at_usec := usec, is_padding_timer_scheduled := flag,
     padding_sent := n, nonpadding_sent := m, state_length := l\<rparr>)"

definition plugin_writes :: "pad_world \<Rightarrow> pad_world \<Rightarrow> bool" where
  "plugin_writes w w' \<longleftrightarrow> (\<exists>rs g cells n closing.
     w' = w\<lparr>runtimes := rs, globals := g, sent := cells, reads := n, marked_for_close := closing\<rparr> \<and>
     (\<forall>p. rel_option timer_and_counts (runtimes w p) (rs p)))"

definition plugins_write_only :: "pad_env \<Rightarrow> bool" where
  "plugins_write_only e \<longleftrightarrow> (\<forall>p w. plugin_writes w (fst (replace_hook e p w))) \<and> (\<forall>s w. plugin_writes w (add_hook e s w))"

lemma timer_and_counts_refl [simp]: "timer_and_counts mi mi"
  unfolding timer_and_counts_def
  by (intro exI [of _ "padding_scheduled_at_usec mi"] exI [of _ "is_padding_timer_scheduled mi"] exI [of _ "padding_sent mi"]
      exI [of _ "nonpadding_sent mi"] exI [of _ "state_length mi"]) simp

lemma plugin_writes_refl [simp]: "plugin_writes w w"
  unfolding plugin_writes_def
  by (intro exI [of _ "runtimes w"] exI [of _ "globals w"] exI [of _ "sent w"] exI [of _ "reads w"] exI [of _ "marked_for_close w"])
    (simp add: option.rel_refl)

lemma timer_and_counts_ok:
  assumes "timer_and_counts mi mi'"
  shows "runtime_ok machine mi \<Longrightarrow> runtime_ok machine mi'" and "mi_index mi' = mi_index mi"
  using assms runtime_ok_cong [of machine mi mi'] by (auto simp: timer_and_counts_def same_place_def)

lemma plugin_writes_ok:
  assumes "pad_ok w" and "plugin_writes w w'"
  shows "pad_ok w' \<and> evolves w w' \<and> padding_info w' = padding_info w"
proof -
  obtain rs g cells n closing where w': "w' = w\<lparr>runtimes := rs, globals := g, sent := cells, reads := n, marked_for_close := closing\<rparr>"
    and rel: "\<And>p. rel_option timer_and_counts (runtimes w p) (rs p)"
    using assms(2) unfolding plugin_writes_def by blast
  have origin: "CIRCUIT_IS_ORIGIN w' = CIRCUIT_IS_ORIGIN w"
    by (simp add: w' CIRCUIT_IS_ORIGIN_def)
  have slot: "\<exists>mi. runtimes w' p = Some mi \<and> mi_index mi = i" if "i < CIRCPAD_MAX_MACHINES" "padding_info w ! i = Some p" for i p
    using pad_ok_slot [OF assms(1) that] rel [of p] timer_and_counts_ok(2) by (auto simp: w' rel_option_iff split: option.splits)
  have place: "runtime_in_place w' p mi \<and> p < next_addr w'" if mi: "runtimes w' p = Some mi" for p mi
  proof -
    obtain mi0 where mi0: "runtimes w p = Some mi0" "timer_and_counts mi0 mi"
      using rel [of p] mi by (auto simp: w' rel_option_iff split: option.splits)
    then have "runtime_in_place w p mi0" "p < next_addr w"
      using assms(1) by (auto simp: pad_ok_def)
    then show ?thesis
      using timer_and_counts_ok [OF mi0(2)] origin by (auto simp: runtime_in_place_def w')
  qed
  have "pad_ok w'"
    using assms(1) slot place origin by (auto simp: pad_ok_def) (simp_all add: w')
  then show ?thesis
    using origin by (simp add: evolves_def w')
qed

text \<open>So a plugin in place of the callback keeps the contract of the callback.\<close>

definition hook_ok :: "pad_env \<Rightarrow> bool" where
  "hook_ok e \<longleftrightarrow> (\<forall>w0 i p. safe (inv_live w0 i p) (\<lambda>w. Inr (replace_hook e p w)) (answer w0 i p))"

lemma hook_ok_writes:
  assumes "plugins_write_only e"
  shows "hook_ok e"
  unfolding hook_ok_def
proof (intro allI safeI)
  fix w0 i p w
  assume w: "inv_live w0 i p w"
  have "plugin_writes w (fst (replace_hook e p w))"
    using assms by (simp add: plugins_write_only_def)
  then show "case Inr (replace_hook e p w) of Inl f \<Rightarrow> tolerated f | Inr (w', d) \<Rightarrow> answer w0 i p d w'"
    using w plugin_writes_ok [of w "fst (replace_hook e p w)"] evolves_trans
    by (auto simp: answer_def inv_live_def pad_inv_def split_beta)
qed

lemma schedule_timer_safe: "safe (inv_live w0 i p) (schedule_timer p in_usec) (answer w0 i p)"
  unfolding schedule_timer_def
  by (rule safe_seq [OF update_runtime_live]) (auto intro: safe_return runtime_ok_cong simp: same_place_def)

lemma callback_or_plugin_safe:
  assumes "keeps self" and "hook_ok e"
  shows "safe (inv_live w0 i p) (callback_or_plugin e self p in_usec) (answer w0 i p)"
  unfolding callback_or_plugin_def
proof (rule safe_seq)
  show "safe (inv_live w0 i p) (\<lambda>w. Inr (replace_hook e p w)) (answer w0 i p)"
    using assms(2) by (simp add: hook_ok_def)
  fix ret
  show "safe (answer w0 i p ret) (if ret = PAD_RUN_DEFAULT then circpad_send_padding_cell_for_callback e self p
     else if ret < 0 then schedule_timer p in_usec else return_val ret) (answer w0 i p)"
    using callback_safe [OF assms(1), of w0 i p e] schedule_timer_safe [of w0 i p in_usec]
    by (auto simp: safe_def answer_def PAD_RUN_DEFAULT_def circpad_decisions return_val_def)
qed

lemma schedule_delay_safe:
  assumes "keeps self" and "hook_ok e"
  shows "safe (inv_live w0 i p) (schedule_delay e self p in_usec) (answer w0 i p)"
  unfolding schedule_delay_def
  by (rule safe_if [OF infinity_safe [OF assms(1)]], rule safe_seq [OF get_runtime_live], rule safe_pure, intro safe_if)
    (auto intro: safe_return callback_or_plugin_safe [OF assms] schedule_timer_safe)

lemma choose_delay_safe:
  shows "safe (\<lambda>w. has w0 i p machine mi w \<and> current_state mi \<noteq> CIRCPAD_STATE_END) (choose_delay e p) (\<lambda>_. inv_live w0 i p)"
proof (rule safe_pure, rule safeI)
  fix w
  assume not_end: "current_state mi \<noteq> CIRCPAD_STATE_END" and h: "has w0 i p machine mi w"
  let ?mi = "mi\<lparr>is_padding_timer_scheduled := False\<rparr>"
  have "runtime_ok machine ?mi"
    by (rule runtime_ok_cong [OF hasD(4) [OF h]]) (simp_all add: same_place_def)
  from sample_delay_ok [OF hasD(3) [OF h] this] not_end obtain mi' usec where
    s: "circpad_machine_sample_delay (draw_at e (reads w)) machine ?mi = Inr (mi', usec)" "runtime_ok machine mi'" "same_place ?mi mi'"
    by fastforce
  let ?w = "w\<lparr>reads := Suc (reads w)\<rparr>"
  have get: "with_machine p f w = f machine mi w" for f :: "circpad_machine_spec \<Rightarrow> circpad_machine_runtime \<Rightarrow> u32 act"
    using h hasD(6,8) [OF h] by (simp add: with_machine_def seq_def get_runtime_def has_def CIRCPAD_GET_MACHINE_def at_index_def
        pad_inv_def pad_ok_def)
  have "safe (has w0 i p machine mi) (seq (if circpad_is_token_removal_supported mi' then monotime_absolute_usec e else return_val 1) (\<lambda>now.
     seq (set_runtime p (mi'\<lparr>padding_scheduled_at_usec := now\<rparr>)) (\<lambda>_. return_val usec))) (\<lambda>_. inv_live w0 i p)"
  proof (rule safe_seq [OF safe_if [OF monotime_safe]])
    fix now
    have "runtime_ok machine (mi'\<lparr>padding_scheduled_at_usec := now\<rparr>)"
      by (rule runtime_ok_cong [OF s(2)]) (simp_all add: same_place_def)
    then show "safe (has w0 i p machine mi) (seq (set_runtime p (mi'\<lparr>padding_scheduled_at_usec := now\<rparr>)) (\<lambda>_. return_val usec)) (\<lambda>_. inv_live w0 i p)"
      using s(3) by (intro safe_ignore set_runtime_live) (auto simp: same_place_def)
  qed (auto intro: safe_return)
  moreover have "has w0 i p machine mi ?w"
    using h by simp
  ultimately show "case choose_delay e p w of Inl f \<Rightarrow> tolerated f | Inr (w', _) \<Rightarrow> inv_live w0 i p w'"
    unfolding choose_delay_def get seq_next_read s(1) seq_check_Inr by (simp add: safe_def)
qed

lemma schedule_padding_safe:
  assumes "keeps self" and "hook_ok e"
  shows "safe (inv_live w0 i p) (circpad_machine_schedule_padding e self p) (answer w0 i p)"
  unfolding circpad_machine_schedule_padding_def
proof (rule safe_seq [OF safe_look], intro safe_if)
  fix allowed
  have delay: "safe (\<lambda>w. has w0 i p machine mi w \<and> current_state mi \<noteq> CIRCPAD_STATE_END)
      (seq (choose_delay e p) (schedule_delay e self p)) (answer w0 i p)" for machine mi
    by (rule safe_seq [OF choose_delay_safe schedule_delay_safe [OF assms]])
  have limit: "safe P (\<lambda>w. check (circpad_machine_reached_padding_limit (globals w) machine mi) w) (\<lambda>_. P)" for P machine mi
  proof (rule safeI)
    fix w
    assume "P w"
    then show "case check (circpad_machine_reached_padding_limit (globals w) machine mi) w of Inl f \<Rightarrow> tolerated f | Inr (w', _) \<Rightarrow> P w'"
      using limit_tolerated [of "globals w" machine mi]
      by (cases "circpad_machine_reached_padding_limit (globals w) machine mi") (auto simp: check_def)
  qed
  have machine: "safe (\<lambda>w. \<exists>machine. has w0 i p machine mi w) (if current_state mi = CIRCPAD_STATE_END then return_val CIRCPAD_STATE_UNCHANGED
      else seq (CIRCPAD_GET_MACHINE mi) (\<lambda>machine.
        seq (\<lambda>w. check (circpad_machine_reached_padding_limit (globals w) machine mi) w) (\<lambda>limit.
        if limit then return_val CIRCPAD_STATE_UNCHANGED else seq (choose_delay e p) (schedule_delay e self p)))) (answer w0 i p)" for mi
    by (rule safe_if, force intro: safe_return dest: hasD(2), rule safe_seq [OF get_machine_safe], rule safe_seq [OF limit], rule safe_if)
      (auto intro: has_unchanged safe_pre [OF delay])
  show "safe (\<lambda>w. inv_live w0 i p w \<and> allowed = circpad_is_padding_allowed e w) (seq (get_runtime p) (\<lambda>mi.
      if current_state mi = CIRCPAD_STATE_END then return_val CIRCPAD_STATE_UNCHANGED
      else seq (CIRCPAD_GET_MACHINE mi) (\<lambda>machine.
        seq (\<lambda>w. check (circpad_machine_reached_padding_limit (globals w) machine mi) w) (\<lambda>limit.
        if limit then return_val CIRCPAD_STATE_UNCHANGED else seq (choose_delay e p) (schedule_delay e self p))))) (answer w0 i p)"
    by (rule safe_pre [OF safe_seq [OF get_runtime_safe machine]]) simp
qed (auto intro: safe_return)

end
