(* ===== verification/Circpad_Safe.thy ===== *)
theory Circpad_Safe
  imports Circpad_Contract
begin

text \<open>
  Memory safety of circuit padding, continued: transitions, the sending of cells, the knot of the recursion, and the
  events from outside. The property is that no sequence of events goes wrong.
\<close>

section \<open>Transitions\<close>

lemma new_state_safe:
  assumes "is_state machine s"
  shows "safe (has w0 i p machine mi) (seq (update_runtime p (\<lambda>mi. mi\<lparr>current_state := s\<rparr>)) (\<lambda>_. setup_tokens p)) (\<lambda>_. inv_live w0 i p)"
proof (rule safeI)
  fix w
  assume h: "has w0 i p machine mi w"
  let ?mi = "mi\<lparr>current_state := s\<rparr>" and ?w = "w\<lparr>runtimes := (runtimes w)(p \<mapsto> mi\<lparr>current_state := s\<rparr>)\<rparr>"
  note d = hasD [OF h]
  have w: "runtimes w p = Some mi" "padding_machine w ! i = Some machine" "length (padding_machine w) = CIRCPAD_MAX_MACHINES"
    using h by (simp_all add: has_def pad_inv_def pad_ok_def)
  obtain mi' where mi': "circpad_machine_setup_tokens machine ?mi = Inr mi'" "runtime_ok machine mi'" "same_place ?mi mi'"
    using setup_tokens_ok [OF d(3), of ?mi] assms d(4) by (auto simp: runtime_ok_def)
  have "seq (update_runtime p (\<lambda>mi. mi\<lparr>current_state := s\<rparr>)) (\<lambda>_. setup_tokens p) w = set_runtime p mi' w"
    using w d(6,8) mi'(1)
    by (simp add: seq_def update_runtime_def get_runtime_def set_runtime_def setup_tokens_def with_machine_def CIRCPAD_GET_MACHINE_def
        at_index_def check_def)
  moreover have "case set_runtime p mi' w of Inl f \<Rightarrow> tolerated f | Inr (w', _) \<Rightarrow> inv_live w0 i p w'"
    using set_runtime_live [OF mi'(2), of mi w0 i p] mi'(3) h by (simp add: safe_def same_place_def)
  ultimately show "case seq (update_runtime p (\<lambda>mi. mi\<lparr>current_state := s\<rparr>)) (\<lambda>_. setup_tokens p) w of
      Inl f \<Rightarrow> tolerated f | Inr (w', _) \<Rightarrow> inv_live w0 i p w'"
    by simp
qed

lemma seq_assoc: "seq (seq m f) g = seq m (\<lambda>x. seq (f x) g)"
proof
  fix w
  show "seq (seq m f) g w = seq m (\<lambda>x. seq (f x) g) w"
    by (cases "m w") (auto simp: seq_def)
qed

lemma enter_state_safe:
  assumes "keeps self" and "hook_ok e" and "is_state machine s"
  shows "safe (has w0 i p machine mi) (enter_state e self p s) (answer w0 i p)"
proof -
  have to_end: "safe (inv_live w0 i p) (seq (circpad_machine_spec_transitioned_to_end self p) (\<lambda>_. return_val CIRCPAD_STATE_CHANGED)) (answer w0 i p)"
    by (rule safe_seq [OF to_end_safe [OF assms(1)]]) (auto intro: safe_return)
  have schedule: "safe (inv_live w0 i p) (seq (circpad_machine_schedule_padding e self p) (\<lambda>_. return_val CIRCPAD_STATE_CHANGED)) (answer w0 i p)"
    by (rule safe_seq [OF schedule_padding_safe [OF assms(1,2)]], rule safe_return) (simp add: answer_inv)
  have eq: "enter_state e self p s = seq (seq (update_runtime p (\<lambda>mi. mi\<lparr>current_state := s\<rparr>)) (\<lambda>_. setup_tokens p)) (\<lambda>_.
     seq (circpad_choose_state_length e p) (\<lambda>_.
     if s = CIRCPAD_STATE_END
     then seq (circpad_machine_spec_transitioned_to_end self p) (\<lambda>_. return_val CIRCPAD_STATE_CHANGED)
     else seq (circpad_machine_schedule_padding e self p) (\<lambda>_. return_val CIRCPAD_STATE_CHANGED)))"
    by (simp add: enter_state_def seq_assoc)
  show ?thesis
    unfolding eq
    by (rule safe_seq [OF new_state_safe [OF assms(3)]], rule safe_seq [OF choose_length_safe], rule safe_if [OF to_end schedule])
qed

lemma transition_safe:
  assumes "keeps self" and "hook_ok e" and "0 \<le> event" and "event < 7"
  shows "safe (inv_live w0 i p) (circpad_machine_spec_transition e self p event) (answer w0 i p)"
  unfolding circpad_machine_spec_transition_def
proof (rule with_machine_safe)
  fix machine mi
  assume m: "spec_ok machine" "runtime_ok machine mi"
  let ?next = "\<lambda>s. if s = CIRCPAD_STATE_IGNORE then return_val CIRCPAD_STATE_UNCHANGED
         else if s = CIRCPAD_STATE_CANCEL then
           seq (set_runtime p (mi\<lparr>padding_scheduled_at_usec := 0, is_padding_timer_scheduled := False\<rparr>)) (\<lambda>_.
           return_val CIRCPAD_STATE_UNCHANGED)
         else if current_state mi \<noteq> s then enter_state e self p s
         else circpad_machine_schedule_padding e self p"
  show "safe (has w0 i p machine mi) (case circpad_machine_current_state machine mi of None \<Rightarrow> return_val CIRCPAD_STATE_UNCHANGED
      | Some state \<Rightarrow> seq (check (at_index (next_state state) event)) ?next) (answer w0 i p)"
  proof (cases "circpad_machine_current_state machine mi")
    case (Some state)
    let ?s = "next_state state ! nat event"
    have len: "length (next_state state) = 7"
      using state_of_spec(1) [OF m(1) Some] by (simp add: state_ok_def)
    then have at: "at_index (next_state state) event = Inr ?s"
      using assms(3,4) by (simp add: at_index_def)
    have s: "?s \<noteq> CIRCPAD_STATE_IGNORE \<Longrightarrow> ?s \<noteq> CIRCPAD_STATE_CANCEL \<Longrightarrow> is_state machine ?s"
      using state_of_spec(2) [OF m(1) Some, of ?s] len assms(3,4) by simp
    have cancel: "safe (has w0 i p machine mi) (seq (set_runtime p (mi\<lparr>padding_scheduled_at_usec := 0, is_padding_timer_scheduled := False\<rparr>)) (\<lambda>_.
        return_val CIRCPAD_STATE_UNCHANGED)) (answer w0 i p)"
      by (rule safe_seq [OF set_runtime_live [OF clear_timer_ok [OF m(2)]]]) (auto intro: safe_return)
    have "safe (has w0 i p machine mi) (?next ?s) (answer w0 i p)"
      by (intro safe_if has_unchanged cancel enter_state_safe [OF assms(1,2) s] safe_pre [OF schedule_padding_safe [OF assms(1,2)]] hasD(2))
    then show ?thesis
      by (simp add: Some at)
  qed (simp add: has_unchanged)
qed

section \<open>Events of cells\<close>

lemma seq_look: "seq (look f) g w = g (f w) w"
  by (simp add: seq_def look_def)

lemma seq_has:
  assumes "has w0 i p machine mi w"
  shows "seq (get_runtime p) g w = g mi w" "seq (CIRCPAD_GET_MACHINE mi) h w = h machine w"
  using assms hasD(6,8) [OF assms]
  by (simp_all add: seq_def get_runtime_def CIRCPAD_GET_MACHINE_def at_index_def has_def pad_inv_def pad_ok_def)

lemma rtt_on_send_safe: "safe (inv_live w0 i p) (circpad_estimate_circ_rtt_on_send e p) (\<lambda>_. inv_live w0 i p)"
  unfolding circpad_estimate_circ_rtt_on_send_def
proof (rule safe_seq [OF safe_look], clarsimp split: prod.split, intro conjI impI)
  fix origin is_open
  have step: "safe (\<lambda>w. \<exists>machine. has w0 i p machine mi w) (if last_received_time_usec mi \<noteq> 0
       then seq (monotime_absolute_usec e) (\<lambda>now. set_runtime p (rtt_measured (now - last_received_time_usec mi) mi))
       else if is_open then set_runtime p (mi\<lparr>stop_rtt_update := True\<rparr>) else return_val ()) (\<lambda>_. inv_live w0 i p)" for mi
  proof (rule safeI, elim exE)
    fix w machine
    assume h: "has w0 i p machine mi w"
    have set: "safe (has w0 i p machine mi) (set_runtime p mi') (\<lambda>_. inv_live w0 i p)"
      if "\<exists>t s r. mi' = mi\<lparr>last_received_time_usec := t, stop_rtt_update := s, rtt_estimate_usec := r\<rparr>" for mi'
      using that by (intro set_runtime_live runtime_ok_cong [OF hasD(4) [OF h]]) (auto simp: same_place_def)
    have "\<exists>t s r. rtt_measured n mi = mi\<lparr>last_received_time_usec := t, stop_rtt_update := s, rtt_estimate_usec := r\<rparr>" for n
      by (cases mi) (auto simp: rtt_measured_def Let_def)
    moreover have "\<exists>t s r. mi\<lparr>stop_rtt_update := True\<rparr> = mi\<lparr>last_received_time_usec := t, stop_rtt_update := s, rtt_estimate_usec := r\<rparr>"
      by (cases mi) auto
    ultimately have "safe (has w0 i p machine mi) (if last_received_time_usec mi \<noteq> 0
       then seq (monotime_absolute_usec e) (\<lambda>now. set_runtime p (rtt_measured (now - last_received_time_usec mi) mi))
       else if is_open then set_runtime p (mi\<lparr>stop_rtt_update := True\<rparr>) else return_val ()) (\<lambda>_. inv_live w0 i p)"
      by (intro safe_if safe_seq [OF monotime_safe] set) (auto intro: safe_return dest: hasD(2))
    then show "case (if last_received_time_usec mi \<noteq> 0
       then seq (monotime_absolute_usec e) (\<lambda>now. set_runtime p (rtt_measured (now - last_received_time_usec mi) mi))
       else if is_open then set_runtime p (mi\<lparr>stop_rtt_update := True\<rparr>) else return_val ()) w of
        Inl f \<Rightarrow> tolerated f | Inr (w', _) \<Rightarrow> inv_live w0 i p w'"
      using h by (simp add: safe_def)
  qed
  show "safe (\<lambda>w. inv_live w0 i p w \<and> \<not> CIRCUIT_IS_ORIGIN w \<and> is_open = circuit_open w) (seq (get_runtime p) (\<lambda>mi.
       if last_received_time_usec mi \<noteq> 0
       then seq (monotime_absolute_usec e) (\<lambda>now. set_runtime p (rtt_measured (now - last_received_time_usec mi) mi))
       else if is_open then set_runtime p (mi\<lparr>stop_rtt_update := True\<rparr>) else return_val ())) (\<lambda>_. inv_live w0 i p)"
    by (rule safe_pre [OF safe_seq [OF get_runtime_safe step]]) simp
qed (auto intro: safe_return)

lemma rtt_on_received_safe: "safe (inv_live w0 i p) (circpad_estimate_circ_rtt_on_received e p) (\<lambda>_. inv_live w0 i p)"
proof (rule safeI)
  fix w
  assume "inv_live w0 i p w"
  then obtain machine mi where h: "has w0 i p machine mi w"
    by (rule inv_live_has)
  have set: "safe (has w0 i p machine mi) (set_runtime p (mi\<lparr>stop_rtt_update := b\<rparr>)) (\<lambda>_. inv_live w0 i p)"
    "safe (has w0 i p machine mi) (set_runtime p (mi\<lparr>last_received_time_usec := t\<rparr>)) (\<lambda>_. inv_live w0 i p)" for b t
    by (intro set_runtime_live runtime_ok_cong [OF hasD(4) [OF h]]; simp add: same_place_def)+
  have stay: "safe (has w0 i p machine mi) (return_val ()) (\<lambda>_. inv_live w0 i p)"
    by (rule safe_return) (rule hasD(2))
  let ?rest = "case circpad_machine_current_state machine mi of
         None \<Rightarrow> return_val ()
       | Some state \<Rightarrow>
           if use_rtt_estimate state
           then seq (monotime_absolute_usec e) (\<lambda>now. set_runtime p (mi\<lparr>last_received_time_usec := now\<rparr>))
           else set_runtime p (mi\<lparr>stop_rtt_update := True\<rparr>)"
  have rest: "safe (has w0 i p machine mi) ?rest (\<lambda>_. inv_live w0 i p)"
    by (auto split: option.split intro!: safe_if stay set safe_seq [OF monotime_safe])
  have "circpad_estimate_circ_rtt_on_received e p w =
     (if CIRCUIT_IS_ORIGIN w \<or> stop_rtt_update mi then return_val ()
     else if last_received_time_usec mi \<noteq> 0 then
       (if circuit_open w then set_runtime p (mi\<lparr>stop_rtt_update := True\<rparr>) else return_val ())
     else ?rest) w"
    by (simp add: circpad_estimate_circ_rtt_on_received_def seq_look seq_has [OF h])
  moreover have "safe (has w0 i p machine mi) (if CIRCUIT_IS_ORIGIN w \<or> stop_rtt_update mi then return_val ()
     else if last_received_time_usec mi \<noteq> 0 then
       (if circuit_open w then set_runtime p (mi\<lparr>stop_rtt_update := True\<rparr>) else return_val ())
     else ?rest) (\<lambda>_. inv_live w0 i p)"
    by (intro safe_if stay set rest)
  ultimately show "case circpad_estimate_circ_rtt_on_received e p w of Inl f \<Rightarrow> tolerated f | Inr (w', _) \<Rightarrow> inv_live w0 i p w'"
    using h by (simp add: safe_def)
qed

lemma count_nonpadding_safe: "safe (inv_live w0 i p) (count_nonpadding e p) (\<lambda>_. inv_live w0 i p)"
  unfolding count_nonpadding_def
proof (rule with_machine_safe, rule safe_seq [OF monotime_safe])
  fix machine mi now
  assume m: "runtime_ok machine mi"
  then obtain mi' where mi': "circpad_machine_count_nonpadding_sent now machine mi = Inr mi'" "runtime_ok machine mi'" "same_place mi mi'"
    using count_nonpadding_runtime_ok by blast
  show "safe (has w0 i p machine mi) (seq (check (circpad_machine_count_nonpadding_sent now machine mi)) (set_runtime p)) (\<lambda>_. inv_live w0 i p)"
    using set_runtime_live [OF mi'(2), of mi w0 i p] mi'(3) by (simp add: mi'(1) same_place_def)
qed

lemma on_nonpadding_sent_safe:
  assumes "keeps self" and "i < CIRCPAD_MAX_MACHINES"
  shows "safe (\<lambda>w. pad_inv w0 w \<and> padding_info w ! i \<noteq> None) (on_nonpadding_sent e self i) (\<lambda>_. pad_inv w0)"
  unfolding on_nonpadding_sent_def
  by (rule safe_seq [OF info_at_safe [OF assms(2)]], rule safe_seq [OF touch_safe], rule safe_seq [OF rtt_on_send_safe],
      rule safe_seq [OF info_at_again], rule safe_seq [OF count_nonpadding_safe], rule safe_seq [OF info_at_again],
      rule safe_seq [OF token_supply_safe [OF assms(1)]], rule unless_changed, rule notify_safe [OF assms(1)]) (simp_all add: circpad_events)

lemma nonpadding_sent_safe: "keeps self \<Longrightarrow> safe (pad_inv w0) (circpad_cell_event_nonpadding_sent e self) (\<lambda>_. pad_inv w0)"
  unfolding circpad_cell_event_nonpadding_sent_def
  by (rule safe_seq [OF safe_modify for_each_safe], simp) (intro conjI machine_slots_less on_nonpadding_sent_safe)

lemma on_nonpadding_received_safe:
  assumes "keeps self" and "i < CIRCPAD_MAX_MACHINES"
  shows "safe (\<lambda>w. pad_inv w0 w \<and> padding_info w ! i \<noteq> None) (on_nonpadding_received e self i) (\<lambda>_. pad_inv w0)"
  unfolding on_nonpadding_received_def
  by (rule safe_seq [OF info_at_safe [OF assms(2)]], rule safe_seq [OF touch_safe], rule safe_seq [OF rtt_on_received_safe],
      rule notify_safe [OF assms(1)]) (simp_all add: circpad_events)

lemma nonpadding_received_safe: "keeps self \<Longrightarrow> safe (pad_inv w0) (circpad_cell_event_nonpadding_received e self) (\<lambda>_. pad_inv w0)"
  unfolding circpad_cell_event_nonpadding_received_def
  by (rule for_each_safe) (intro conjI machine_slots_less on_nonpadding_received_safe)

lemma on_padding_received_safe:
  assumes "keeps self" and "i < CIRCPAD_MAX_MACHINES"
  shows "safe (\<lambda>w. pad_inv w0 w \<and> padding_info w ! i \<noteq> None) (on_padding_received e self i) (\<lambda>_. pad_inv w0)"
  unfolding on_padding_received_def
  by (rule safe_seq [OF info_at_safe [OF assms(2)]], rule safe_seq [OF touch_safe], rule notify_safe [OF assms(1)])
    (simp_all add: circpad_events)

lemma padding_received_safe: "keeps self \<Longrightarrow> safe (pad_inv w0) (circpad_cell_event_padding_received e self) (\<lambda>_. pad_inv w0)"
  unfolding circpad_cell_event_padding_received_def
  by (rule for_each_safe) (intro conjI machine_slots_less on_padding_received_safe)

section \<open>The knot\<close>

text \<open>With no RELAY_EARLY cell left, sending changes nothing but through the events.\<close>

lemma no_relay_early: "pad_inv w0 w \<Longrightarrow> use_relay_early e self relay_command hopnum w = Inr (w, ())"
  by (auto simp: use_relay_early_def seq_def look_def return_val_def pad_inv_def pad_ok_def)

lemma package_safe:
  assumes "\<And>w a b. P w \<Longrightarrow> P (w\<lparr>reads := a\<rparr>) \<and> P (w\<lparr>sent := b\<rparr>) \<and> P (w\<lparr>marked_for_close := True\<rparr>)"
  shows "safe P (package_cell e relay_command payload hopnum) (\<lambda>_. P)"
  by (rule safeI) (simp add: package_cell_def seq_def next_read_def modify_def return_val_def assms)

lemma send_safe:
  assumes "\<And>w a b. P w \<Longrightarrow> P (w\<lparr>reads := a\<rparr>) \<and> P (w\<lparr>sent := b\<rparr>) \<and> P (w\<lparr>marked_for_close := True\<rparr>)" and "\<And>w. P w \<Longrightarrow> pad_inv w0 w"
    and "safe P (circpad_deliver_sent_relay_cell_events e self relay_command) (\<lambda>_. P)"
    and "length payload \<le> PAD_RELAY_PAYLOAD_SIZE" and "right_way w0 hopnum"
  shows "safe P (relay_send_command_from_edge e self relay_command payload hopnum) (\<lambda>_. P)"
proof -
  have early: "safe P (use_relay_early e self relay_command hopnum) (\<lambda>_. P)"
    using no_relay_early [OF assms(2)] by (simp add: safe_def)
  have "safe P (seq (circpad_deliver_sent_relay_cell_events e self relay_command) (\<lambda>_.
       seq (use_relay_early e self relay_command hopnum) (\<lambda>_. package_cell e relay_command payload hopnum))) (\<lambda>_. P)"
    by (rule safe_seq [OF assms(3)], rule safe_seq [OF early], rule package_safe [OF assms(1)])
  moreover have "CIRCUIT_IS_ORIGIN w \<noteq> (hopnum = 0)" if "P w" for w
    using origin_of_base [OF assms(2) [OF that]] assms(5) by (simp add: right_way_def)
  ultimately show ?thesis
    using assms(4) by (auto simp: relay_send_command_from_edge_def safe_def seq_look)
qed

lemma run_keeps:
  assumes "hook_ok e"
  shows "keeps (pad_run e n)"
proof (induction n)
  case 0
  show ?case
    by (simp add: keeps_def safe_def tolerated_def)
next
  case (Suc n)
  have upd: "pad_inv w0 w \<Longrightarrow> pad_inv w0 (w\<lparr>reads := a\<rparr>) \<and> pad_inv w0 (w\<lparr>sent := b\<rparr>) \<and> pad_inv w0 (w\<lparr>marked_for_close := True\<rparr>)" for w0 w a b
    by simp
  have upd_live: "inv_live w0 i p w \<Longrightarrow> inv_live w0 i p (w\<lparr>reads := a\<rparr>) \<and> inv_live w0 i p (w\<lparr>sent := b\<rparr>) \<and> inv_live w0 i p (w\<lparr>marked_for_close := True\<rparr>)"
    for w0 i p w a b
    by simp
  have events: "safe (pad_inv w0) (circpad_deliver_sent_relay_cell_events e (pad_run e n) relay_command) (\<lambda>_. pad_inv w0)" for w0 relay_command
    using nonpadding_sent_safe [OF Suc] by (auto simp: circpad_deliver_sent_relay_cell_events_def intro: safe_return)
  have drop: "safe (inv_live w0 i p) (circpad_deliver_sent_relay_cell_events e (pad_run e n) RELAY_COMMAND_DROP) (\<lambda>_. inv_live w0 i p)" for w0 i p
    by (auto simp: circpad_deliver_sent_relay_cell_events_def intro: safe_return)
  show ?case
    unfolding keeps_def pad_run.simps pad_call.case
    using transition_safe [OF Suc assms] send_safe [OF upd _ events] send_safe [OF upd_live inv_live_inv drop] by simp
qed

section \<open>Setting up and shutting down\<close>

definition on_side :: "bool \<Rightarrow> pad_world \<Rightarrow> bool" where
  "on_side origin w \<longleftrightarrow> pad_ok w \<and> CIRCUIT_IS_ORIGIN w = origin"

lemma on_side_cong:
  assumes "on_side b w" and "padding_machine w' = padding_machine w" and "padding_info w' = padding_info w" and "runtimes w' = runtimes w"
    and "next_addr w' = next_addr w" and "remaining_relay_early_cells w' = remaining_relay_early_cells w"
    and "CIRCUIT_IS_ORIGIN w' = CIRCUIT_IS_ORIGIN w" and "purpose w' \<le> 24"
  shows "on_side b w'"
proof -
  have "runtime_in_place w' p mi = runtime_in_place w p mi" for p mi
    using assms by (simp add: runtime_in_place_def)
  then show ?thesis
    using assms by (simp add: on_side_def pad_ok_def)
qed

lemma rebase:
  assumes "\<And>w0. on_side origin w0 \<Longrightarrow> safe (pad_inv w0) m (\<lambda>_. pad_inv w0)"
  shows "safe (on_side origin) m (\<lambda>_. on_side origin)"
proof (rule safeI)
  fix w
  assume w: "on_side origin w"
  then have "pad_inv w w"
    by (simp add: on_side_def pad_inv_def)
  then show "case m w of Inl f \<Rightarrow> tolerated f | Inr (w', _) \<Rightarrow> on_side origin w'"
    using assms [OF w] w by (fastforce simp: safe_def on_side_def pad_inv_def evolves_def split: sum.splits)
qed

lemma condition_cases:
  assumes "pad_inv w0 w"
  shows "\<exists>b. circpad_machine_conditions_apply e machine w = Inr b" "\<exists>b. circpad_machine_conditions_keep machine w = Inr b"
proof -
  have "unat (purpose w) \<le> 24"
    using assms by (simp add: pad_inv_def pad_ok_def word_le_nat_alt)
  then have "\<exists>mask. circpad_circ_purpose_to_mask (purpose w) = Inr mask"
    by (auto simp: circpad_circ_purpose_to_mask_def)
  then show "\<exists>b. circpad_machine_conditions_apply e machine w = Inr b" "\<exists>b. circpad_machine_conditions_keep machine w = Inr b"
    by (auto simp: circpad_machine_conditions_apply_def circpad_machine_conditions_keep_def Let_def)
qed

lemma conditions_safe:
  "(\<And>w. P w \<Longrightarrow> pad_inv (base w) w) \<Longrightarrow> safe P (\<lambda>w. check (circpad_machine_conditions_apply e machine w) w) (\<lambda>_. P)"
  "(\<And>w. P w \<Longrightarrow> pad_inv (base w) w) \<Longrightarrow> safe P (\<lambda>w. check (circpad_machine_conditions_keep machine w) w) (\<lambda>_. P)"
proof -
  assume P: "\<And>w. P w \<Longrightarrow> pad_inv (base w) w"
  show "safe P (\<lambda>w. check (circpad_machine_conditions_apply e machine w) w) (\<lambda>_. P)"
    using condition_cases(1) [OF P, of _ e machine] by (fastforce simp: safe_def check_def)
  show "safe P (\<lambda>w. check (circpad_machine_conditions_keep machine w) w) (\<lambda>_. P)"
    using condition_cases(2) [OF P, of _ machine] by (fastforce simp: safe_def check_def)
qed

lemma machine_at_safe: "safe (inv_live w0 i p) (machine_at i) (\<lambda>_. inv_live w0 i p)"
proof (rule safeI)
  fix w
  assume l: "inv_live w0 i p w"
  then obtain machine mi where h: "has w0 i p machine mi w"
    by (rule inv_live_has)
  then show "case machine_at i w of Inl f \<Rightarrow> tolerated f | Inr (w', _) \<Rightarrow> inv_live w0 i p w'"
    using l hasD(8) [OF h] by (simp add: machine_at_def at_index_def has_def pad_inv_def pad_ok_def)
qed

text \<open>The machine stays in its slot when only the runtime is freed.\<close>

lemma free_keeps_machine:
  "safe (\<lambda>w. inv_live w0 i p w) (circpad_circuit_machineinfo_free_idx i) (\<lambda>_ w. pad_inv w0 w \<and> (\<exists>machine. padding_machine w ! i = Some machine))"
proof (rule safeI)
  fix w
  assume l: "inv_live w0 i p w"
  then obtain machine mi where h: "has w0 i p machine mi w"
    by (rule inv_live_has)
  have "pad_inv w0 w" "i < CIRCPAD_MAX_MACHINES"
    using l by (simp_all add: inv_live_def)
  then have "case circpad_circuit_machineinfo_free_idx i w of Inl f \<Rightarrow> tolerated f | Inr (w', _) \<Rightarrow> pad_inv w0 w'"
    using free_idx_safe [of i w0] by (fastforce simp: safe_def split: sum.splits)
  moreover have "padding_machine w' = padding_machine w" if "circpad_circuit_machineinfo_free_idx i w = Inr (w', x)" for w' x
    using that by (auto simp: circpad_circuit_machineinfo_free_idx_def and_then_Inr split: option.splits if_splits)
  moreover have "padding_machine w ! i = Some machine"
    using h by (simp add: has_def)
  ultimately show "case circpad_circuit_machineinfo_free_idx i w of Inl f \<Rightarrow> tolerated f
      | Inr (w', _) \<Rightarrow> pad_inv w0 w' \<and> (\<exists>machine. padding_machine w' ! i = Some machine)"
    by (auto split: sum.splits)
qed

lemma stop_slot_safe:
  assumes "keeps self" and "CIRCUIT_IS_ORIGIN w0" and "i < CIRCPAD_MAX_MACHINES"
  shows "safe (inv_live w0 i p) (seq (info_at i) (\<lambda>p. seq (get_runtime p) (\<lambda>mi.
       seq (circpad_circuit_machineinfo_free_idx i) (\<lambda>_. seq (machine_at i) (\<lambda>machine.
       seq (circpad_negotiate_padding self (machine_num machine) (target_hopnum machine) CIRCPAD_COMMAND_STOP (machine_ctr mi)) (\<lambda>_.
       return_val ())))))) (\<lambda>_. pad_inv w0)"
proof (rule safe_seq [OF info_at_again], rule safe_seq [OF get_runtime_live], rule safe_seq [OF safe_pre [OF free_keeps_machine]])
  fix q mi
  show "safe (\<lambda>w. pad_inv w0 w \<and> (\<exists>machine. padding_machine w ! i = Some machine)) (seq (machine_at i) (\<lambda>machine.
       seq (circpad_negotiate_padding self (machine_num machine) (target_hopnum machine) CIRCPAD_COMMAND_STOP (machine_ctr mi)) (\<lambda>_.
       return_val ()))) (\<lambda>_. pad_inv w0)"
  proof (rule safe_seq)
    show "safe (\<lambda>w. pad_inv w0 w \<and> (\<exists>machine. padding_machine w ! i = Some machine)) (machine_at i) (\<lambda>_. pad_inv w0)"
      using assms(3) by (auto simp: safe_def machine_at_def at_index_def pad_inv_def pad_ok_def)
  qed (rule safe_ignore, rule negotiate_safe [OF assms(1,2)])
qed auto

lemma shutdown_slot_safe:
  assumes "keeps self" and "CIRCUIT_IS_ORIGIN w0" and "i < CIRCPAD_MAX_MACHINES"
  shows "safe (\<lambda>w. pad_inv w0 w \<and> padding_info w ! i \<noteq> None) (shutdown_slot e self i) (\<lambda>_. pad_inv w0)"
proof -
  have "safe (inv_live w0 i p) (shutdown_slot e self i) (\<lambda>_. pad_inv w0)" for p
    unfolding shutdown_slot_def
    by (rule safe_seq [OF machine_at_safe], rule safe_seq [OF conditions_safe(1) [where base = "\<lambda>_. w0"]], rule inv_live_inv, assumption,
        rule safe_seq [OF safe_if [OF safe_return conditions_safe(2) [where base = "\<lambda>_. w0"]]], assumption, rule inv_live_inv, assumption,
        rule safe_if) (auto intro: stop_slot_safe [OF assms] safe_return dest: inv_live_inv)
  then show ?thesis
    using assms(3) by (fastforce simp: safe_def inv_live_def)
qed

lemma shutdown_safe:
  "keeps self \<Longrightarrow> safe (on_side True) (circpad_shutdown_old_machines e self) (\<lambda>_. on_side True)"
  unfolding circpad_shutdown_old_machines_def
  by (rule rebase, rule for_each_safe) (intro conjI machine_slots_less shutdown_slot_safe, simp_all add: on_side_def)

text \<open>Plugins that run beside the built-in code keep the circuit as it is, as far as slots are concerned.\<close>

definition add_hook_ok :: "pad_env \<Rightarrow> bool" where
  "add_hook_ok e \<longleftrightarrow> (\<forall>s w. pad_ok w \<longrightarrow> pad_ok (add_hook e s w) \<and> evolves w (add_hook e s w))"

lemma add_hook_ok_writes: "plugins_write_only e \<Longrightarrow> add_hook_ok e"
  using plugin_writes_ok by (auto simp: add_hook_ok_def plugins_write_only_def)

text \<open>What a process has to provide: plugins that write no more than they may, and well-formed machines.\<close>

definition pad_env_ok :: "pad_env \<Rightarrow> bool" where
  "pad_env_ok e \<longleftrightarrow> plugins_write_only e \<and> list_all spec_ok (origin_padding_machines e) \<and> list_all spec_ok (relay_padding_machines e)"

lemma pad_env_okD: "pad_env_ok e \<Longrightarrow> hook_ok e \<and> add_hook_ok e"
  by (simp add: pad_env_ok_def hook_ok_writes add_hook_ok_writes)

lemma add_hook_safe: "add_hook_ok e \<Longrightarrow> safe (on_side b) (modify (add_hook e s)) (\<lambda>_. on_side b)"
  by (rule safe_modify) (auto simp: add_hook_ok_def on_side_def evolves_def)

lemma new_runtime_ok: "spec_ok machine \<Longrightarrow> runtime_ok machine (new_runtime e i ctr)"
  by (auto simp: runtime_ok_def tokens_ok_def new_runtime_def is_state_def spec_ok_def circpad_machine_current_state_def
      hd_conv_nth split: if_splits)

lemma fill_slot_ok:
  assumes "on_side b w" and "spec_ok machine" and "is_origin_side machine = b" and "padding_info w ! machine_index machine = None"
  shows "on_side b (w\<lparr>padding_machine_ctr := ctr,
    runtimes := (runtimes w)(next_addr w \<mapsto> new_runtime e (machine_index machine) ctr), next_addr := Suc (next_addr w),
    padding_info := (padding_info w)[machine_index machine := Some (next_addr w)],
    padding_machine := (padding_machine w)[machine_index machine := Some machine]\<rparr>)" (is "on_side b ?w")
proof -
  let ?i = "machine_index machine"
  have ok: "pad_ok w" and i: "?i < CIRCPAD_MAX_MACHINES"
    using assms(1,2) by (simp_all add: on_side_def spec_ok_def)
  have len: "length (padding_info w) = CIRCPAD_MAX_MACHINES" "length (padding_machine w) = CIRCPAD_MAX_MACHINES"
    using ok by (simp_all add: pad_ok_def)
  have origin: "CIRCUIT_IS_ORIGIN ?w = CIRCUIT_IS_ORIGIN w"
    by (simp add: CIRCUIT_IS_ORIGIN_def)
  have old: "runtime_in_place ?w q n \<and> q < Suc (next_addr w)" if q: "runtimes w q = Some n" for q n
  proof -
    have "runtime_in_place w q n" "q < next_addr w"
      using ok q by (auto simp: pad_ok_def)
    moreover from this(1) have "mi_index n \<noteq> ?i"
      using assms(4) by (auto simp: runtime_in_place_def)
    ultimately show ?thesis
      using origin by (simp add: runtime_in_place_def)
  qed
  have new: "runtime_in_place ?w (next_addr w) (new_runtime e ?i ctr)"
    using i len origin assms(1-3) new_runtime_ok [OF assms(2)] by (simp add: runtime_in_place_def new_runtime_def on_side_def)
  have fresh: "runtimes w (next_addr w) = None"
    using ok by (cases "runtimes w (next_addr w)") (auto simp: pad_ok_def)
  have slot: "\<exists>n. runtimes ?w q = Some n \<and> mi_index n = j" if j: "j < CIRCPAD_MAX_MACHINES" "padding_info ?w ! j = Some q" for j q
  proof (cases "j = ?i")
    case True
    then show ?thesis
      using j i len by (auto simp: new_runtime_def)
  next
    case False
    then show ?thesis
      using j pad_ok_slot [OF ok j(1), of q] fresh by auto
  qed
  have "pad_ok ?w"
    using ok old new slot origin unfolding pad_ok_def by (simp add: len)
  then show ?thesis
    using assms(1) origin by (simp add: on_side_def)
qed

lemma setup_machine_safe:
  assumes "spec_ok machine" and "add_hook_ok e"
  shows "safe (on_side b) (circpad_setup_machine_on_circ e machine) (\<lambda>_. on_side b)"
proof (rule safeI)
  fix w
  assume w: "on_side b w"
  let ?i = "machine_index machine" and ?ctr = "if padding_machine_ctr w + 1 = 0 then 1 else padding_machine_ctr w + 1"
  let ?w = "w\<lparr>padding_machine_ctr := ?ctr, runtimes := (runtimes w)(next_addr w \<mapsto> new_runtime e ?i ?ctr), next_addr := Suc (next_addr w),
    padding_info := (padding_info w)[?i := Some (next_addr w)], padding_machine := (padding_machine w)[?i := Some machine]\<rparr>"
  have at: "at_index (padding_machine w) (int ?i) = Inr (padding_machine w ! ?i)" "at_index (padding_info w) (int ?i) = Inr (padding_info w ! ?i)"
    using w assms(1) by (simp_all add: at_index_def on_side_def pad_ok_def spec_ok_def)
  show "case circpad_setup_machine_on_circ e machine w of Inl f \<Rightarrow> tolerated f | Inr (w', _) \<Rightarrow> on_side b w'"
  proof (cases "CIRCUIT_IS_ORIGIN w \<noteq> is_origin_side machine \<or> padding_machine w ! ?i \<noteq> None \<or> padding_info w ! ?i \<noteq> None")
    case True
    then show ?thesis
      using w by (auto simp: circpad_setup_machine_on_circ_def seq_def look_def check_def return_val_def at)
  next
    case False
    then have "is_origin_side machine = b" "padding_info w ! ?i = None"
      using w by (auto simp: on_side_def)
    from fill_slot_ok [OF w assms(1) this, of e ?ctr] have "on_side b (add_hook e ''circpad_setup_machine_on_circ_add'' ?w)"
      using assms(2) by (auto simp: add_hook_ok_def on_side_def evolves_def)
    then show ?thesis
      using False by (simp add: circpad_setup_machine_on_circ_def seq_def look_def check_def return_val_def modify_def
          circpad_circuit_machineinfo_new_def at)
  qed
qed

text \<open>A slot that is free, and the same after a search that did not stop.\<close>

definition slot_free :: "nat \<Rightarrow> pad_world \<Rightarrow> bool" where
  "slot_free i w \<longleftrightarrow> on_side True w \<and> padding_info w ! i = None"

lemma slot_free_cleared: "safe (slot_free i) (clear_machine i) (\<lambda>_. slot_free i)"
proof (rule safeI)
  fix w
  assume w: "slot_free i w"
  then have "pad_inv w w \<and> padding_info w ! i = None"
    by (simp add: slot_free_def on_side_def pad_inv_def)
  then show "case clear_machine i w of Inl f \<Rightarrow> tolerated f | Inr (w', _) \<Rightarrow> slot_free i w'"
    using clear_machine_safe [of w i] w
    by (fastforce simp: safe_def slot_free_def on_side_def pad_inv_def evolves_def split: sum.splits)
qed

lemma slot_freed: "i < CIRCPAD_MAX_MACHINES \<Longrightarrow> safe (on_side True) (circpad_circuit_machineinfo_free_idx i) (\<lambda>_. slot_free i)"
proof (rule safeI)
  fix w
  assume w: "on_side True w" and i: "i < CIRCPAD_MAX_MACHINES"
  then have "pad_inv w w"
    by (simp add: on_side_def pad_inv_def)
  then show "case circpad_circuit_machineinfo_free_idx i w of Inl f \<Rightarrow> tolerated f | Inr (w', _) \<Rightarrow> slot_free i w'"
    using free_idx_safe [OF i, of w] w
    by (fastforce simp: safe_def slot_free_def on_side_def pad_inv_def evolves_def split: sum.splits)
qed

lemma failed_upd [simp]:
  "CIRCUIT_IS_ORIGIN (w\<lparr>padding_negotiation_failed := b\<rparr>) = CIRCUIT_IS_ORIGIN w"
  by (simp add: CIRCUIT_IS_ORIGIN_def)

lemma pad_ok_failed [simp]: "pad_ok (w\<lparr>padding_negotiation_failed := b\<rparr>) = pad_ok w"
  by (simp add: pad_ok_def runtime_in_place_def)

lemma slot_free_failed: "safe (slot_free i) (modify (\<lambda>w. w\<lparr>padding_negotiation_failed := True\<rparr>)) (\<lambda>_. slot_free i)"
  by (rule safe_modify) (simp add: slot_free_def on_side_def)

lemma origin_negotiate_safe:
  "keeps self \<Longrightarrow> safe (on_side True) (circpad_negotiate_padding self machine hopnum command ctr) (\<lambda>_. on_side True)"
  by (rule rebase) (simp add: negotiate_safe on_side_def)

lemma start_machine_safe:
  assumes "keeps self" and "add_hook_ok e" and "spec_ok machine" and "i < CIRCPAD_MAX_MACHINES"
  shows "safe (slot_free i) (seq (clear_machine i) (\<lambda>_.
      seq (circpad_setup_machine_on_circ e machine) (\<lambda>_.
      seq (look padding_machine_ctr) (\<lambda>ctr.
      seq (circpad_negotiate_padding self (machine_num machine) (target_hopnum machine) CIRCPAD_COMMAND_START ctr) (\<lambda>r.
      if r < 0 then
        seq (circpad_circuit_machineinfo_free_idx i) (\<lambda>_.
        seq (clear_machine i) (\<lambda>_.
        seq (modify (\<lambda>w. w\<lparr>padding_negotiation_failed := True\<rparr>)) (\<lambda>_. return_val False)))
      else return_val True))))) (\<lambda>stop w. on_side True w \<and> (\<not> stop \<longrightarrow> slot_free i w))"
proof (rule safe_seq [OF slot_free_cleared], rule safe_seq [OF safe_pre [OF setup_machine_safe [OF assms(3,2), of True]]],
    simp add: slot_free_def, rule safe_seq [OF safe_look], rule safe_seq [OF safe_pre [OF origin_negotiate_safe [OF assms(1)]]])
  fix r :: int
  have failed: "safe (on_side True) (seq (circpad_circuit_machineinfo_free_idx i) (\<lambda>_.
        seq (clear_machine i) (\<lambda>_.
        seq (modify (\<lambda>w. w\<lparr>padding_negotiation_failed := True\<rparr>)) (\<lambda>_. return_val False)))) (\<lambda>stop w. on_side True w \<and> (\<not> stop \<longrightarrow> slot_free i w))"
    by (rule safe_seq [OF slot_freed [OF assms(4)]], rule safe_seq [OF slot_free_cleared], rule safe_seq [OF slot_free_failed], rule safe_return)
      (simp add: slot_free_def)
  show "safe (on_side True) (if r < 0 then
        seq (circpad_circuit_machineinfo_free_idx i) (\<lambda>_.
        seq (clear_machine i) (\<lambda>_.
        seq (modify (\<lambda>w. w\<lparr>padding_negotiation_failed := True\<rparr>)) (\<lambda>_. return_val False)))
      else return_val True) (\<lambda>stop w. on_side True w \<and> (\<not> stop \<longrightarrow> slot_free i w))"
    by (rule safe_if [OF failed]) (auto intro: safe_return)
qed auto

lemma try_machine_safe:
  assumes "keeps self" and "add_hook_ok e" and "spec_ok machine" and "i < CIRCPAD_MAX_MACHINES"
  shows "safe (slot_free i) (try_machine e self i machine) (\<lambda>stop w. on_side True w \<and> (\<not> stop \<longrightarrow> slot_free i w))"
proof -
  have no: "safe (\<lambda>w. slot_free i w \<and> Q w) (return_val False) (\<lambda>stop w. on_side True w \<and> (\<not> stop \<longrightarrow> slot_free i w))" for Q
    by (rule safe_return) (simp add: slot_free_def)
  have base: "pad_inv w w" if "slot_free i w" for w
    using that by (simp add: slot_free_def on_side_def pad_inv_def)
  show ?thesis
    unfolding try_machine_def
    by (rule safe_if, rule no [where Q = "\<lambda>_. True", simplified], rule safe_seq [OF conditions_safe(1) [where base = id]], simp add: base,
        rule safe_if, rule no [where Q = "\<lambda>_. True", simplified], rule safe_seq [OF safe_look], rule safe_if, rule no,
        rule safe_pre [OF start_machine_safe [OF assms]]) simp
qed

lemma try_machines_safe:
  assumes "keeps self" and "add_hook_ok e" and "list_all spec_ok ms" and "i < CIRCPAD_MAX_MACHINES"
  shows "safe (slot_free i) (try_machines e self i ms) (\<lambda>_. on_side True)"
  using assms(3)
proof (induction ms)
  case (Cons machine ms)
  have "safe (\<lambda>w. on_side True w \<and> (\<not> stop \<longrightarrow> slot_free i w)) (if stop then return_val () else try_machines e self i ms) (\<lambda>_. on_side True)" for stop
    using Cons by (auto intro: safe_return safe_pre)
  then show ?case
    using Cons.prems by (auto intro!: safe_seq [OF try_machine_safe [OF assms(1,2) _ assms(4)]])
qed (auto intro!: safe_return simp: slot_free_def)

lemma fill_slots_safe:
  assumes "keeps self" and "add_hook_ok e" and "list_all spec_ok ms" and "\<forall>i \<in> set is. i < CIRCPAD_MAX_MACHINES"
  shows "safe (on_side True) (fill_slots e self ms is) (\<lambda>_. on_side True)"
  using assms(4)
proof (induction "is")
  case (Cons i "is")
  have "list_all spec_ok (rev ms)" "i < CIRCPAD_MAX_MACHINES"
    using assms(3) Cons.prems by (simp_all add: list_all_iff)
  from try_machines_safe [OF assms(1,2) this]
  have "safe (\<lambda>w. on_side True w \<and> r = padding_info w ! i) (if r = None then try_machines e self i (rev ms) else return_val ()) (\<lambda>_. on_side True)" for r
    by (auto intro: safe_return safe_pre simp: slot_free_def)
  then show ?case
    using Cons by (auto intro!: safe_seq [OF safe_look] safe_seq)
qed (auto intro: safe_return)

lemma add_matching_safe:
  assumes "keeps self" and "add_hook_ok e" and "list_all spec_ok ms"
  shows "safe (on_side True) (circpad_add_matching_machines e self ms) (\<lambda>_. on_side True)"
  unfolding circpad_add_matching_machines_def
  by (rule safe_seq [OF safe_look], rule safe_if)
    (auto intro!: safe_return safe_pre [OF fill_slots_safe [OF assms]] machine_slots_less)

lemma shutdown_and_add_safe:
  "keeps self \<Longrightarrow> pad_env_ok e \<Longrightarrow> safe (on_side True) (shutdown_and_add e self) (\<lambda>_. on_side True)"
  unfolding shutdown_and_add_def by (rule safe_seq [OF shutdown_safe add_matching_safe]) (simp_all add: pad_env_ok_def add_hook_ok_writes)

section \<open>Negotiation and the rest\<close>

lemma free_matching_safe:
  assumes "\<forall>i \<in> set is. i < CIRCPAD_MAX_MACHINES"
  shows "safe (pad_inv w0) (free_matching num ctr is found) (\<lambda>_. pad_inv w0)"
  using assms
proof (induction "is" arbitrary: found)
  case (Cons i "is")
  have i: "i < CIRCPAD_MAX_MACHINES"
    using Cons.prems by simp
  have rest: "safe (pad_inv w0) (free_matching num ctr is f) (\<lambda>_. pad_inv w0)" for f
    using Cons by simp
  have free: "safe (pad_inv w0) (seq (circpad_circuit_machineinfo_free_idx i) (\<lambda>_. seq (clear_machine i) (\<lambda>_. free_matching num ctr is True))) (\<lambda>_. pad_inv w0)"
    by (rule safe_seq [OF free_idx_safe [OF i]], rule safe_seq [OF safe_post [OF clear_machine_safe]], erule conjunct1, rule rest)
  have wrong: "safe (\<lambda>w. pad_inv w0 w \<and> (m, r) = (padding_machine w ! i, padding_info w ! i))
      (if ctr = 0 then return_val False else case r of None \<Rightarrow> return_val False
       | Some p \<Rightarrow> seq (get_runtime p) (\<lambda>mi. return_val (machine_ctr mi \<noteq> ctr))) (\<lambda>_. pad_inv w0)" for m r
  proof (cases r)
    case (Some p)
    have "safe (inv_live w0 i p) (seq (get_runtime p) (\<lambda>mi. return_val (machine_ctr mi \<noteq> ctr))) (\<lambda>_. pad_inv w0)"
      by (rule safe_seq [OF get_runtime_live], rule safe_return) (auto dest: inv_live_inv)
    then show ?thesis
      using Some i by (intro safe_if) (auto simp: safe_def return_val_def inv_live_def)
  qed (auto intro: safe_return)
  have "safe (\<lambda>w. pad_inv w0 w \<and> (m, r) = (padding_machine w ! i, padding_info w ! i)) (case m of None \<Rightarrow> free_matching num ctr is found
     | Some machine \<Rightarrow> if machine_num machine \<noteq> num then free_matching num ctr is found
         else seq (if ctr = 0 then return_val False else case r of None \<Rightarrow> return_val False
           | Some p \<Rightarrow> seq (get_runtime p) (\<lambda>mi. return_val (machine_ctr mi \<noteq> ctr))) (\<lambda>wrong.
           if wrong then free_matching num ctr is found
           else seq (circpad_circuit_machineinfo_free_idx i) (\<lambda>_. seq (clear_machine i) (\<lambda>_. free_matching num ctr is True)))) (\<lambda>_. pad_inv w0)" for m r
  proof (cases m)
    case None
    show ?thesis
      unfolding None option.case by (rule safe_pre [OF rest]) simp
  next
    case (Some machine)
    show ?thesis
      unfolding option.case Some
      by (rule safe_if, rule safe_pre [OF rest], simp, rule safe_seq [OF wrong [of "Some machine"]], rule safe_if [OF rest free])
  qed
  then show ?case
    by (auto intro!: safe_seq [OF safe_look])
qed (auto intro: safe_return)

lemma free_matching_side: "safe (on_side b) (free_circ_machineinfos_with_machine_num num ctr) (\<lambda>_. on_side b)"
  unfolding free_circ_machineinfos_with_machine_num_def by (rule rebase, rule free_matching_safe) (simp add: machine_slots_less)

lemma cell_events_side:
  assumes "keeps self"
  shows "safe (on_side b) (circpad_cell_event_nonpadding_received e self) (\<lambda>_. on_side b)"
    "safe (on_side b) (circpad_cell_event_padding_received e self) (\<lambda>_. on_side b)"
    "safe (on_side b) (circpad_cell_event_nonpadding_sent e self) (\<lambda>_. on_side b)"
  by (rule rebase, rule nonpadding_received_safe [OF assms] padding_received_safe [OF assms] nonpadding_sent_safe [OF assms])+

lemma look_side: "(\<And>x. safe (on_side b) (f x) Q) \<Longrightarrow> safe (on_side b) (seq (look g) f) Q"
  by (rule safe_seq [OF safe_look]) (auto simp: safe_def)

lemma handle_negotiate_safe:
  assumes "keeps self" and "pad_env_ok e"
  shows "safe (on_side b) (circpad_handle_padding_negotiate e self payload) (\<lambda>_. on_side b)"
proof -
  have stop: "safe (on_side s) (handle_stop neg) (\<lambda>_. on_side s)" for neg s
    unfolding handle_stop_def by (rule safe_seq [OF free_matching_side], rule look_side) (auto intro: safe_return)
  have start: "safe (on_side s) (handle_start e self neg) (\<lambda>_. on_side s)" for neg s
  proof (cases "find (\<lambda>m. machine_num m = neg_machine_type neg) (relay_padding_machines e)")
    case (Some m)
    then have "spec_ok m"
      using assms(2) by (auto simp: pad_env_ok_def list_all_iff find_Some_iff)
    then show ?thesis
      using Some assms(2) cell_events_side(1) [OF assms(1)] unfolding handle_start_def
      by (auto simp: pad_env_ok_def add_hook_ok_writes intro!: safe_seq [OF setup_machine_safe] safe_ignore)
  qed (auto simp: handle_start_def intro: safe_return)
  have answer: "safe (on_side False) (circpad_padding_negotiated self ty command response ctr) (\<lambda>_. on_side False)" for ty command response ctr
    by (rule rebase) (simp add: negotiated_safe [OF assms(1)] on_side_def)
  show ?thesis
  proof (cases b)
    case True
    have "safe (on_side True) (circpad_handle_padding_negotiate e self payload) (\<lambda>_. on_side True)"
      by (rule safeI) (simp add: circpad_handle_padding_negotiate_def seq_look return_val_def on_side_def)
    then show ?thesis
      using True by simp
  next
    case False
    then have "safe (on_side b) (circpad_handle_padding_negotiate e self payload) (\<lambda>_. on_side b)"
      unfolding circpad_handle_padding_negotiate_def
      by (intro look_side) (auto split: sum.split intro!: safe_if safe_return safe_seq [of _ _ "\<lambda>_. on_side False"] stop start answer)
    then show ?thesis .
  qed
qed

lemma handle_negotiated_safe: "safe (on_side b) (circpad_handle_padding_negotiated hint payload) (\<lambda>_. on_side b)"
proof -
  have failed: "safe (on_side b) (modify (\<lambda>w. w\<lparr>padding_negotiation_failed := True\<rparr>)) (\<lambda>_. on_side b)"
    by (rule safe_modify) (simp add: on_side_def)
  show ?thesis
    unfolding circpad_handle_padding_negotiated_def
    by (intro look_side) (auto split: sum.split intro!: safe_if safe_return safe_ignore safe_seq [OF free_matching_side] failed)
qed

lemma callback_side:
  assumes "keeps self" and "pad_env_ok e" and "i < CIRCPAD_MAX_MACHINES"
  shows "safe (\<lambda>w. on_side b w \<and> padding_info w ! i = Some p) (circpad_send_padding_callback e self p) (\<lambda>_. on_side b)"
proof -
  have "hook_ok e"
    using assms(2) by (simp add: pad_env_okD)
  have "safe (inv_live w0 i p) (circpad_send_padding_callback e self p) (\<lambda>_. pad_inv w0)" for w0
    unfolding circpad_send_padding_callback_def
  proof (rule safe_seq)
    show "safe (inv_live w0 i p) (\<lambda>w. Inr (replace_hook e p w)) (answer w0 i p)"
      using \<open>hook_ok e\<close> by (simp add: hook_ok_def)
    fix ret
    have "safe (inv_live w0 i p) (seq (circpad_send_padding_cell_for_callback e self p) (\<lambda>_. return_val ())) (\<lambda>_. pad_inv w0)"
      by (rule safe_ignore, rule safe_post [OF callback_safe [OF assms(1)]], rule answer_inv)
    then show "safe (answer w0 i p ret) (if ret = PAD_RUN_DEFAULT then seq (circpad_send_padding_cell_for_callback e self p) (\<lambda>_. return_val ())
     else return_val ()) (\<lambda>_. pad_inv w0)"
      by (auto simp: safe_def answer_def PAD_RUN_DEFAULT_def circpad_decisions return_val_def)
  qed
  then show ?thesis
    using assms(3) by (fastforce simp: safe_def on_side_def inv_live_def pad_inv_def evolves_def split: sum.splits)
qed

lemma change_purpose_safe:
  assumes "keeps self" and "pad_env_ok e" and "new_purpose \<le> 24" and "b = (CIRCUIT_PURPOSE_OR_MAX < new_purpose)"
  shows "safe (on_side b) (circuit_change_purpose e self new_purpose) (\<lambda>_. on_side b)"
proof -
  have "on_side b (w\<lparr>purpose := new_purpose\<rparr>)" if "on_side b w" for w
  proof -
    have "CIRCUIT_IS_ORIGIN (w\<lparr>purpose := new_purpose\<rparr>) = CIRCUIT_IS_ORIGIN w"
      using that assms(4) by (simp add: on_side_def CIRCUIT_IS_ORIGIN_def)
    then show ?thesis
      using assms(3) by (intro on_side_cong [OF that]) simp_all
  qed
  then have purpose: "safe (on_side b) (modify (\<lambda>w. w\<lparr>purpose := new_purpose\<rparr>)) (\<lambda>_. on_side b)"
    by (rule safe_modify)
  have event: "safe (on_side b) (if b then circpad_machine_event_circ_purpose_changed e self else return_val ()) (\<lambda>_. on_side b)"
    using shutdown_and_add_safe [OF assms(1,2)] by (auto simp: circpad_machine_event_circ_purpose_changed_def intro: safe_return)
  have go: "safe (on_side b) (if old = new_purpose then return_val ()
     else seq (modify (\<lambda>w. w\<lparr>purpose := new_purpose\<rparr>)) (\<lambda>_.
       if b then circpad_machine_event_circ_purpose_changed e self else return_val ())) (\<lambda>_. on_side b)" for old
    by (intro safe_if safe_seq [OF purpose] event) (auto intro: safe_return)
  show ?thesis
  proof (rule safeI)
    fix w
    assume w: "on_side b w"
    then have "circuit_change_purpose e self new_purpose w = (if purpose w = new_purpose then return_val ()
     else seq (modify (\<lambda>w. w\<lparr>purpose := new_purpose\<rparr>)) (\<lambda>_.
       if b then circpad_machine_event_circ_purpose_changed e self else return_val ())) w"
      using assms(4) by (simp add: circuit_change_purpose_def seq_look on_side_def)
    then show "case circuit_change_purpose e self new_purpose w of Inl f \<Rightarrow> tolerated f | Inr (w', _) \<Rightarrow> on_side b w'"
      using go [of "purpose w"] w by (simp add: safe_def)
  qed
qed

lemma hold_open_safe:
  assumes "keeps self" and "pad_env_ok e" and "\<forall>i \<in> set is. i < CIRCPAD_MAX_MACHINES"
  shows "safe (on_side b) (hold_open e self is) (\<lambda>_. on_side b)"
  using assms(3)
proof (induction "is")
  case (Cons i "is")
  have rest: "safe (on_side b) (hold_open e self is) (\<lambda>_. on_side b)"
    using Cons by simp
  have dirty: "safe (on_side b) (modify (\<lambda>w. if timestamp_dirty w = 0 then w\<lparr>timestamp_dirty := t\<rparr> else w)) (\<lambda>_. on_side b)" for t
  proof (rule safe_modify)
    fix w
    assume "on_side b w"
    then show "on_side b (if timestamp_dirty w = 0 then w\<lparr>timestamp_dirty := t\<rparr> else w)"
      using on_side_cong [of b w "w\<lparr>timestamp_dirty := t\<rparr>"] by (simp add: CIRCUIT_IS_ORIGIN_def on_side_def pad_ok_def)
  qed
  have take: "safe (on_side b) (seq (modify (\<lambda>w. if timestamp_dirty w = 0 then w\<lparr>timestamp_dirty := t\<rparr> else w)) (\<lambda>_.
      seq (circuit_change_purpose e self CIRCUIT_PURPOSE_C_CIRCUIT_PADDING) (\<lambda>_. return_val True))) (\<lambda>_. on_side b)" if b for t
    by (rule safe_seq [OF dirty], rule safe_ignore, rule change_purpose_safe [OF assms(1,2)])
      (use that in \<open>simp_all add: CIRCUIT_PURPOSE_C_CIRCUIT_PADDING_def CIRCUIT_PURPOSE_OR_MAX_def\<close>)
  show ?case
  proof (rule safeI)
    fix w
    assume w: "on_side b w"
    show "case hold_open e self (i # is) w of Inl f \<Rightarrow> tolerated f | Inr (w', _) \<Rightarrow> on_side b w'"
    proof (cases "padding_info w ! i")
      case None
      then show ?thesis
        using rest w by (simp add: seq_look safe_def)
    next
      case (Some p)
      then have "inv_live w i p w"
        using w Cons.prems by (simp add: inv_live_def pad_inv_def on_side_def)
      then obtain machine mi where h: "has w i p machine mi w"
        by (rule inv_live_has)
      have at: "seq (machine_at i) g w = g machine w" for g :: "circpad_machine_spec \<Rightarrow> bool act"
        using h hasD(8) [OF h] by (simp add: seq_def machine_at_def at_index_def has_def pad_inv_def pad_ok_def)
      let ?pass = "circpad_machine_current_state machine mi = None \<or> \<not> manage_circ_lifetime machine \<or> current_state mi = CIRCPAD_STATE_END"
      have eq: "hold_open e self (i # is) w = (if ?pass then hold_open e self is
         else if last_cell_time_sec mi + CIRCPAD_DELAY_MAX_SECS < approx_time e then return_val False
         else seq (modify (\<lambda>w. if timestamp_dirty w = 0 then w\<lparr>timestamp_dirty := approx_time e\<rparr> else w)) (\<lambda>_.
           seq (circuit_change_purpose e self CIRCUIT_PURPOSE_C_CIRCUIT_PADDING) (\<lambda>_. return_val True))) w"
        by (auto simp: Some seq_look with_machine_def seq_has [OF h] at)
      have b: b if "\<not> ?pass"
        using hasD(3,7) [OF h] that w by (simp add: spec_ok_def on_side_def)
      have "safe (on_side b) (if ?pass then hold_open e self is
         else if last_cell_time_sec mi + CIRCPAD_DELAY_MAX_SECS < approx_time e then return_val False
         else seq (modify (\<lambda>w. if timestamp_dirty w = 0 then w\<lparr>timestamp_dirty := approx_time e\<rparr> else w)) (\<lambda>_.
           seq (circuit_change_purpose e self CIRCUIT_PURPOSE_C_CIRCUIT_PADDING) (\<lambda>_. return_val True))) (\<lambda>_. on_side b)"
        by (intro safe_if rest take b) (auto intro: safe_return)
      then show ?thesis
        unfolding eq using w by (simp only: safe_def)
    qed
  qed
qed (auto intro: safe_return)

section \<open>Sequences of events\<close>

text \<open>What can happen to a circuit from outside, and what the code does about it.\<close>

datatype pad_event = Cell_Forwarded pad_direction | Cell_Recognized u8 "nat option" | Cell_Received u8 "nat option" "u8 list"
  | Cell_Sent u8 "u8 list" nat | Timer_Fired nat | Hop_Added | Circ_Built | Circ_Opened | Streams_Changed bool
  | Purpose_Changed u8 | Close_Asked int | New_Consensus "(string \<times> int) list option"

definition at_origin :: "unit act \<Rightarrow> unit act" where
  "at_origin m = seq (look CIRCUIT_IS_ORIGIN) (\<lambda>origin. if origin then m else return_val ())"

definition fire_timer :: "pad_env \<Rightarrow> pad_self \<Rightarrow> nat \<Rightarrow> unit act" where
  "fire_timer e self i = seq (look (\<lambda>w. if i < CIRCPAD_MAX_MACHINES then padding_info w ! i else None)) (\<lambda>r.
     case r of
       None \<Rightarrow> return_val ()
     | Some p \<Rightarrow> seq (get_runtime p) (\<lambda>mi.
         if is_padding_timer_scheduled mi then circpad_send_padding_callback e self p else return_val ()))"

definition send_cell :: "pad_self \<Rightarrow> u8 \<Rightarrow> u8 list \<Rightarrow> nat \<Rightarrow> unit act" where
  "send_cell self relay_command payload hopnum = seq (look CIRCUIT_IS_ORIGIN) (\<lambda>origin.
     if PAD_RELAY_PAYLOAD_SIZE < length payload \<or> origin = (hopnum = 0) then return_val ()
     else seq (self (Relay_Send relay_command payload hopnum)) (\<lambda>_. return_val ()))"

definition handle_event :: "pad_env \<Rightarrow> pad_self \<Rightarrow> pad_event \<Rightarrow> unit act" where
  "handle_event e self event =
     (case event of
        Cell_Forwarded dir \<Rightarrow> circpad_deliver_unrecognized_cell_events e self dir
      | Cell_Recognized relay_command hint \<Rightarrow> circpad_deliver_recognized_relay_cell_events e self relay_command hint
      | Cell_Received relay_command hint payload \<Rightarrow>
          seq (circpad_check_received_cell e self relay_command hint payload) (\<lambda>_. return_val ())
      | Cell_Sent relay_command payload hopnum \<Rightarrow> send_cell self relay_command payload hopnum
      | Timer_Fired i \<Rightarrow> fire_timer e self i
      | Hop_Added \<Rightarrow> at_origin (circpad_machine_event_circ_added_hop e self)
      | Circ_Built \<Rightarrow> at_origin (circpad_machine_event_circ_built e self)
      | Circ_Opened \<Rightarrow> at_origin (circpad_machine_event_circ_opened e self)
      | Streams_Changed some \<Rightarrow> at_origin (seq (modify (\<lambda>w. w\<lparr>has_streams := some\<rparr>)) (\<lambda>_.
          if some then circpad_machine_event_circ_has_streams e self else circpad_machine_event_circ_has_no_streams e self))
      | Purpose_Changed new_purpose \<Rightarrow> seq (look CIRCUIT_IS_ORIGIN) (\<lambda>origin.
          if 24 < new_purpose \<or> origin \<noteq> (CIRCUIT_PURPOSE_OR_MAX < new_purpose) then return_val ()
          else circuit_change_purpose e self new_purpose)
      | Close_Asked reason \<Rightarrow> seq (circpad_marked_circuit_for_padding e self reason) (\<lambda>_. return_val ())
      | New_Consensus ns \<Rightarrow> circpad_new_consensus_params ns)"

fun handle_events :: "pad_env \<Rightarrow> pad_self \<Rightarrow> pad_event list \<Rightarrow> unit act" where
  "handle_events e self [] = return_val ()"
| "handle_events e self (event # evs) = seq (handle_event e self event) (\<lambda>_. handle_events e self evs)"

lemma at_origin_safe: "safe (on_side True) m (\<lambda>_. on_side True) \<Longrightarrow> safe (on_side b) (at_origin m) (\<lambda>_. on_side b)"
  by (cases b) (auto simp: at_origin_def safe_def seq_look return_val_def on_side_def)

lemma fire_timer_safe:
  assumes "keeps self" and "pad_env_ok e"
  shows "safe (on_side b) (fire_timer e self i) (\<lambda>_. on_side b)"
proof (rule safeI)
  fix w
  assume w: "on_side b w"
  show "case fire_timer e self i w of Inl f \<Rightarrow> tolerated f | Inr (w', _) \<Rightarrow> on_side b w'"
  proof (cases "i < CIRCPAD_MAX_MACHINES \<and> padding_info w ! i \<noteq> None")
    case True
    then obtain p where p: "padding_info w ! i = Some p"
      by blast
    then obtain mi where "runtimes w p = Some mi"
      using pad_ok_slot [of w i p] w True by (auto simp: on_side_def)
    then show ?thesis
      using callback_side [OF assms, of i b p] True p w by (simp add: fire_timer_def seq_def look_def get_runtime_def safe_def return_val_def)
  next
    case False
    then show ?thesis
      using w by (auto simp: fire_timer_def seq_def look_def return_val_def)
  qed
qed

lemma send_cell_safe:
  assumes "keeps self"
  shows "safe (on_side b) (send_cell self relay_command payload hopnum) (\<lambda>_. on_side b)"
proof (cases "PAD_RELAY_PAYLOAD_SIZE < length payload \<or> b = (hopnum = 0)")
  case False
  then have "safe (on_side b) (self (Relay_Send relay_command payload hopnum)) (\<lambda>_. on_side b)"
    by (intro rebase keeps_send [OF assms]) (auto simp: right_way_def on_side_def)
  then have go: "safe (on_side b) (seq (self (Relay_Send relay_command payload hopnum)) (\<lambda>_. return_val ())) (\<lambda>_. on_side b)"
    by (rule safe_ignore)
  have "send_cell self relay_command payload hopnum w = seq (self (Relay_Send relay_command payload hopnum)) (\<lambda>_. return_val ()) w"
    if "on_side b w" for w
    using that False by (auto simp: send_cell_def seq_look on_side_def)
  with go show ?thesis
    by (simp add: safe_def)
qed (auto simp: send_cell_def safe_def seq_look on_side_def return_val_def)

lemma get_param_Inr:
  assumes "min_val < max_val" and "min_val \<le> default_val" and "default_val \<le> max_val"
  shows "\<exists>v. networkstatus_get_param ns param_name default_val min_val max_val = Inr v"
  using assms by (cases ns) (simp_all add: networkstatus_get_param_def get_net_param_from_list_def Let_def)

lemma new_consensus_safe: "safe (on_side b) (circpad_new_consensus_params ns) (\<lambda>_. on_side b)"
proof -
  have "\<exists>g. circpad_new_consensus_params ns = modify (\<lambda>w. w\<lparr>globals := g w\<rparr>)"
    using get_param_Inr [of 0 1 0 ns "''circpad_padding_disabled''"] get_param_Inr [of 0 1 0 ns "''circpad_padding_reduced''"]
      get_param_Inr [of 0 "0xFFFE" 0 ns "''circpad_global_allowed_cells''"] get_param_Inr [of 0 100 0 ns "''circpad_global_max_padding_pct''"]
      get_param_Inr [of 0 50000 1000 ns "''circpad_max_circ_queued_cells''"]
    by (auto simp: circpad_new_consensus_params_def)
  then obtain g where "circpad_new_consensus_params ns = modify (\<lambda>w. w\<lparr>globals := g w\<rparr>)"
    by blast
  then show ?thesis
    by (auto simp: safe_def modify_def on_side_def pad_ok_def runtime_in_place_def CIRCUIT_IS_ORIGIN_def)
qed

lemma handle_event_safe:
  assumes "keeps self" and "pad_env_ok e"
  shows "safe (on_side b) (handle_event e self event) (\<lambda>_. on_side b)"
proof -
  note cells = cell_events_side [OF assms(1), of b e]
  have hooks: "add_hook_ok e" "list_all spec_ok (origin_padding_machines e)"
    using assms(2) by (simp_all add: pad_env_ok_def add_hook_ok_writes)
  note shut = shutdown_and_add_safe [OF assms]
  have streams: "safe (on_side True) (modify (\<lambda>w. w\<lparr>has_streams := x\<rparr>)) (\<lambda>_. on_side True)" for x
    by (rule safe_modify) (rule on_side_cong, auto simp: CIRCUIT_IS_ORIGIN_def on_side_def pad_ok_def)
  have unrecognized: "safe (on_side b) (circpad_deliver_unrecognized_cell_events e self dir) (\<lambda>_. on_side b)" for dir
    unfolding circpad_deliver_unrecognized_cell_events_def
    by (rule look_side) (auto split: pad_direction.split intro!: safe_if cells safe_return)
  have recognized: "safe (on_side b) (circpad_deliver_recognized_relay_cell_events e self cmd hint) (\<lambda>_. on_side b)" for cmd hint
    unfolding circpad_deliver_recognized_relay_cell_events_def
    by (intro safe_if look_side cells) (auto intro: safe_return)
  have received: "safe (on_side b) (circpad_check_received_cell e self cmd hint payload) (\<lambda>_. on_side b)" for cmd hint payload
    unfolding circpad_check_received_cell_def
    by (intro safe_if safe_ignore handle_negotiate_safe [OF assms] handle_negotiated_safe) (auto intro: safe_return safe_post [OF safe_look])
  have change: "safe (on_side b) (seq (look CIRCUIT_IS_ORIGIN) (\<lambda>origin.
      if 24 < p \<or> origin = (\<not> CIRCUIT_PURPOSE_OR_MAX < p) then return_val () else circuit_change_purpose e self p)) (\<lambda>_. on_side b)" for p
  proof (cases "24 < p \<or> b \<noteq> (CIRCUIT_PURPOSE_OR_MAX < p)")
    case False
    then have "safe (on_side b) (circuit_change_purpose e self p) (\<lambda>_. on_side b)"
      by (intro change_purpose_safe [OF assms]) auto
    moreover have "CIRCUIT_IS_ORIGIN w = (CIRCUIT_PURPOSE_OR_MAX < p)" "\<not> 24 < p" if "on_side b w" for w
      using that False by (auto simp: on_side_def)
    ultimately show ?thesis
      by (simp add: safe_def seq_look)
  qed (auto simp: safe_def seq_look return_val_def on_side_def)
  have close: "safe (on_side b) (circpad_marked_circuit_for_padding e self reason) (\<lambda>_. on_side b)" for reason
    unfolding circpad_marked_circuit_for_padding_def
    by (rule look_side) (auto intro!: safe_if safe_return hold_open_safe [OF assms] machine_slots_less)
  show ?thesis
    by (cases event)
      (auto simp: handle_event_def circpad_machine_event_circ_added_hop_def circpad_machine_event_circ_built_def
        circpad_machine_event_circ_opened_def circpad_machine_event_circ_has_streams_def circpad_machine_event_circ_has_no_streams_def
        intro!: unrecognized recognized safe_ignore received send_cell_safe [OF assms(1)] fire_timer_safe [OF assms] change close new_consensus_safe
          at_origin_safe add_matching_safe [OF assms(1) hooks] shut safe_seq [OF shut] add_hook_safe [OF hooks(1)] safe_seq [OF streams])
qed

lemma handle_events_safe:
  "keeps self \<Longrightarrow> pad_env_ok e \<Longrightarrow> safe (on_side b) (handle_events e self evs) (\<lambda>_. on_side b)"
  by (induction evs) (auto intro!: safe_return safe_seq [OF handle_event_safe])

end
