(* ===== verification/Circpad_Builtin.thy ===== *)
theory Circpad_Builtin
  imports Circpad_Safe
begin

text \<open>
  The padding machines that come with the program (\<^verbatim>\<open>src/core/or/circuitpadding_machines.c\<close>), which hide the set-up of
  introduction and rendezvous circuits, those that are only in a build for the unit tests
  (\<^verbatim>\<open>src/core/or/circuitpadding.c\<close>), and their registration. All of them are well-formed, so the contracts
  of the padding code apply to them.
\<close>

section \<open>Tables\<close>

definition CIRCPAD_STATE_START :: nat where "CIRCPAD_STATE_START = 0"
definition CIRCPAD_STATE_BURST :: nat where "CIRCPAD_STATE_BURST = 1"
definition CIRCPAD_STATE_GAP :: nat where "CIRCPAD_STATE_GAP = 2"

definition CIRCPAD_CIRC_BUILDING :: u32 where "CIRCPAD_CIRC_BUILDING = 1"
definition CIRCPAD_CIRC_OPENED :: u32 where "CIRCPAD_CIRC_OPENED = 2"
definition CIRCPAD_CIRC_HAS_RELAY_EARLY :: u32 where "CIRCPAD_CIRC_HAS_RELAY_EARLY = 16"

definition CIRCUIT_PURPOSE_C_INTRODUCING :: u8 where "CIRCUIT_PURPOSE_C_INTRODUCING = 6"
definition CIRCUIT_PURPOSE_C_INTRODUCE_ACK_WAIT :: u8 where "CIRCUIT_PURPOSE_C_INTRODUCE_ACK_WAIT = 7"
definition CIRCUIT_PURPOSE_C_INTRODUCE_ACKED :: u8 where "CIRCUIT_PURPOSE_C_INTRODUCE_ACKED = 8"
definition CIRCUIT_PURPOSE_C_REND_READY :: u8 where "CIRCUIT_PURPOSE_C_REND_READY = 10"
definition CIRCUIT_PURPOSE_C_REND_READY_INTRO_ACKED :: u8 where "CIRCUIT_PURPOSE_C_REND_READY_INTRO_ACKED = 11"
definition CIRCUIT_PURPOSE_C_REND_JOINED :: u8 where "CIRCUIT_PURPOSE_C_REND_JOINED = 12"

lemmas circuit_purposes = CIRCUIT_PURPOSE_C_INTRODUCING_def CIRCUIT_PURPOSE_C_INTRODUCE_ACK_WAIT_def
  CIRCUIT_PURPOSE_C_INTRODUCE_ACKED_def CIRCUIT_PURPOSE_C_REND_READY_def CIRCUIT_PURPOSE_C_REND_READY_INTRO_ACKED_def
  CIRCUIT_PURPOSE_C_REND_JOINED_def CIRCUIT_PURPOSE_C_CIRCUIT_PADDING_def

definition INTRO_MACHINE_MINIMUM_PADDING :: nat where "INTRO_MACHINE_MINIMUM_PADDING = 7"
definition INTRO_MACHINE_MAXIMUM_PADDING :: nat where "INTRO_MACHINE_MAXIMUM_PADDING = 10"

definition zero_machine :: circpad_machine_spec where
  "zero_machine = \<lparr>machine_num = 0, machine_index = 0, should_negotiate_end = False, is_origin_side = False, target_hopnum = 0,
     manage_circ_lifetime = False,
     conditions = \<lparr>min_hops = 0, requires_vanguards = False, reduced_padding_ok = False, apply_state_mask = 0,
       apply_purpose_mask = 0, keep_state_mask = 0, keep_purpose_mask = 0\<rparr>,
     allowed_padding_count = 0, max_padding_percent = 0, states = []\<rparr>"

text \<open>Assignments to a state of a machine, and the entry of its table for an event.\<close>

definition at_state :: "nat \<Rightarrow> (circpad_state \<Rightarrow> circpad_state) \<Rightarrow> circpad_machine_spec \<Rightarrow> circpad_machine_spec" where
  "at_state s f machine = machine\<lparr>states := (states machine)[s := f (states machine ! s)]\<rparr>"

definition on_event :: "int \<Rightarrow> u16 \<Rightarrow> circpad_state \<Rightarrow> circpad_state" where
  "on_event event s state = state\<lparr>next_state := (next_state state)[nat event := s]\<rparr>"

definition bin_edge :: "nat \<Rightarrow> u32 \<Rightarrow> circpad_state \<Rightarrow> circpad_state" where
  "bin_edge b edge state = state\<lparr>histogram_edges := (histogram_edges state)[b := edge]\<rparr>"

definition bin_tokens :: "nat \<Rightarrow> u32 \<Rightarrow> circpad_state \<Rightarrow> circpad_state" where
  "bin_tokens b tokens state = state\<lparr>histogram := (histogram state)[b := tokens]\<rparr>"

definition purpose_mask :: "u8 \<Rightarrow> u32" where
  "purpose_mask p = (case circpad_circ_purpose_to_mask p of Inl _ \<Rightarrow> 0 | Inr m \<Rightarrow> m)"

section \<open>The machines\<close>

definition client_ip_circ :: circpad_machine_spec where
  "client_ip_circ =
     (let m = zero_machine;
          m = m\<lparr>conditions := (conditions m)\<lparr>apply_state_mask := CIRCPAD_CIRC_OPENED\<rparr>\<rparr>;
          m = m\<lparr>target_hopnum := 2, is_origin_side := True\<rparr>;
          m = m\<lparr>conditions := (conditions m)\<lparr>
             apply_purpose_mask := purpose_mask CIRCUIT_PURPOSE_C_INTRODUCE_ACK_WAIT,
             keep_purpose_mask := purpose_mask CIRCUIT_PURPOSE_C_INTRODUCE_ACKED OR purpose_mask CIRCUIT_PURPOSE_C_CIRCUIT_PADDING\<rparr>\<rparr>;
          m = m\<lparr>manage_circ_lifetime := True, allowed_padding_count := of_nat INTRO_MACHINE_MAXIMUM_PADDING, max_padding_percent := 1\<rparr>;
          m = circpad_machine_states_init m 2
      in at_state CIRCPAD_STATE_START (on_event CIRCPAD_EVENT_NONPADDING_SENT (of_nat CIRCPAD_STATE_BURST)) m)"

definition circpad_machine_client_hide_intro_circuits :: "circpad_machine_spec list \<Rightarrow> cp_fault + circpad_machine_spec list" where
  "circpad_machine_client_hide_intro_circuits machines_sl =
     circpad_register_padding_machine (client_ip_circ\<lparr>machine_num := of_nat (length machines_sl)\<rparr>) machines_sl"

definition relay_ip_circ :: circpad_machine_spec where
  "relay_ip_circ =
     (let m = zero_machine;
          m = m\<lparr>conditions := (conditions m)\<lparr>apply_state_mask := CIRCPAD_CIRC_OPENED\<rparr>\<rparr>;
          m = m\<lparr>is_origin_side := False, should_negotiate_end := True, allowed_padding_count := of_nat INTRO_MACHINE_MAXIMUM_PADDING,
                max_padding_percent := 1\<rparr>;
          m = circpad_machine_states_init m 2;
          m = at_state CIRCPAD_STATE_START (on_event CIRCPAD_EVENT_NONPADDING_SENT (of_nat CIRCPAD_STATE_BURST)) m
      in at_state CIRCPAD_STATE_BURST (\<lambda>state.
           let state = on_event CIRCPAD_EVENT_LENGTH_COUNT CIRCPAD_STATE_END state;
               state = on_event CIRCPAD_EVENT_PADDING_SENT (of_nat CIRCPAD_STATE_BURST) state;
               state = on_event CIRCPAD_EVENT_NONPADDING_SENT (of_nat CIRCPAD_STATE_BURST) state;
               state = state\<lparr>token_removal := CIRCPAD_TOKEN_REMOVAL_NONE,
                 length_dist := \<lparr>dist_type = CIRCPAD_DIST_UNIFORM, param1 = of_nat INTRO_MACHINE_MINIMUM_PADDING,
                   param2 = of_nat INTRO_MACHINE_MAXIMUM_PADDING\<rparr>, histogram_len := 2\<rparr>;
               state = bin_tokens 0 1000 (bin_edge 1 10000 (bin_edge 0 1000 state))
           in state\<lparr>histogram_total_tokens := histogram state ! 0\<rparr>) m)"

definition circpad_machine_relay_hide_intro_circuits :: "circpad_machine_spec list \<Rightarrow> cp_fault + circpad_machine_spec list" where
  "circpad_machine_relay_hide_intro_circuits machines_sl =
     circpad_register_padding_machine (relay_ip_circ\<lparr>machine_num := of_nat (length machines_sl)\<rparr>) machines_sl"

text \<open>One cell after a delay of less than a millisecond.\<close>

definition single_quick_cell :: "circpad_state \<Rightarrow> circpad_state" where
  "single_quick_cell state =
     (let state = state\<lparr>token_removal := CIRCPAD_TOKEN_REMOVAL_NONE,
            length_dist := \<lparr>dist_type = CIRCPAD_DIST_UNIFORM, param1 = 1, param2 = 2\<rparr>, histogram_len := 2\<rparr>;
          state = bin_tokens 0 1 (bin_edge 1 1000 (bin_edge 0 0 state))
      in state\<lparr>histogram_total_tokens := 1\<rparr>)"

definition client_rp_circ :: circpad_machine_spec where
  "client_rp_circ =
     (let m = zero_machine;
          m = m\<lparr>conditions := (conditions m)\<lparr>apply_state_mask := CIRCPAD_CIRC_OPENED\<rparr>\<rparr>;
          m = m\<lparr>target_hopnum := 2, is_origin_side := True\<rparr>;
          m = m\<lparr>conditions := (conditions m)\<lparr>
             apply_purpose_mask := purpose_mask CIRCUIT_PURPOSE_C_REND_JOINED OR purpose_mask CIRCUIT_PURPOSE_C_REND_READY OR
               purpose_mask CIRCUIT_PURPOSE_C_REND_READY_INTRO_ACKED\<rparr>\<rparr>;
          m = m\<lparr>allowed_padding_count := 1, max_padding_percent := 1\<rparr>;
          m = circpad_machine_states_init m 2;
          m = at_state CIRCPAD_STATE_START (on_event CIRCPAD_EVENT_NONPADDING_SENT (of_nat CIRCPAD_STATE_BURST)) m;
          m = at_state CIRCPAD_STATE_BURST (on_event CIRCPAD_EVENT_PADDING_RECV CIRCPAD_STATE_END) m;
          m = at_state CIRCPAD_STATE_BURST (on_event CIRCPAD_EVENT_LENGTH_COUNT CIRCPAD_STATE_END) m
      in at_state CIRCPAD_STATE_BURST single_quick_cell m)"

definition circpad_machine_client_hide_rend_circuits :: "circpad_machine_spec list \<Rightarrow> cp_fault + circpad_machine_spec list" where
  "circpad_machine_client_hide_rend_circuits machines_sl =
     circpad_register_padding_machine (client_rp_circ\<lparr>machine_num := of_nat (length machines_sl)\<rparr>) machines_sl"

definition relay_rp_circ :: circpad_machine_spec where
  "relay_rp_circ =
     (let m = zero_machine;
          m = m\<lparr>conditions := (conditions m)\<lparr>min_hops := 2, apply_state_mask := CIRCPAD_CIRC_OPENED\<rparr>\<rparr>;
          m = m\<lparr>is_origin_side := False, allowed_padding_count := 1, max_padding_percent := 1\<rparr>;
          m = circpad_machine_states_init m 2;
          m = at_state CIRCPAD_STATE_START (on_event CIRCPAD_EVENT_NONPADDING_SENT (of_nat CIRCPAD_STATE_BURST)) m;
          m = at_state CIRCPAD_STATE_BURST (on_event CIRCPAD_EVENT_PADDING_SENT CIRCPAD_STATE_END) m;
          m = at_state CIRCPAD_STATE_BURST (on_event CIRCPAD_EVENT_LENGTH_COUNT CIRCPAD_STATE_END) m
      in at_state CIRCPAD_STATE_BURST single_quick_cell m)"

definition circpad_machine_relay_hide_rend_circuits :: "circpad_machine_spec list \<Rightarrow> cp_fault + circpad_machine_spec list" where
  "circpad_machine_relay_hide_rend_circuits machines_sl =
     circpad_register_padding_machine (relay_rp_circ\<lparr>machine_num := of_nat (length machines_sl)\<rparr>) machines_sl"

section \<open>The machines of the unit tests\<close>

definition circ_client_machine :: circpad_machine_spec where
  "circ_client_machine =
     (let m = zero_machine;
          m = m\<lparr>conditions := (conditions m)\<lparr>min_hops := 2,
             apply_state_mask := CIRCPAD_CIRC_BUILDING OR CIRCPAD_CIRC_OPENED OR CIRCPAD_CIRC_HAS_RELAY_EARLY,
             apply_purpose_mask := 0xFFFFFFFF, reduced_padding_ok := True\<rparr>\<rparr>;
          m = m\<lparr>target_hopnum := 2, is_origin_side := True\<rparr>;
          m = circpad_machine_states_init m 3;
          m = at_state CIRCPAD_STATE_START (on_event CIRCPAD_EVENT_NONPADDING_RECV (of_nat CIRCPAD_STATE_BURST)) m
      in at_state CIRCPAD_STATE_BURST (\<lambda>state.
           let state = on_event CIRCPAD_EVENT_NONPADDING_RECV (of_nat CIRCPAD_STATE_BURST) state;
               state = on_event CIRCPAD_EVENT_PADDING_RECV (of_nat CIRCPAD_STATE_BURST) state;
               state = on_event CIRCPAD_EVENT_NONPADDING_SENT CIRCPAD_STATE_CANCEL state;
               state = on_event CIRCPAD_EVENT_BINS_EMPTY CIRCPAD_STATE_END state;
               state = state\<lparr>token_removal := CIRCPAD_TOKEN_REMOVAL_CLOSEST, histogram_len := 2\<rparr>;
               state = bin_tokens 0 5 (bin_edge 1 1000000 (bin_edge 0 500 state))
           in state\<lparr>histogram_total_tokens := 5\<rparr>) m)"

definition circpad_circ_client_machine_init :: "circpad_machine_spec list \<Rightarrow> cp_fault + circpad_machine_spec list" where
  "circpad_circ_client_machine_init origin_machines =
     circpad_register_padding_machine (circ_client_machine\<lparr>machine_num := of_nat (length origin_machines)\<rparr>) origin_machines"

definition circ_responder_machine :: circpad_machine_spec where
  "circ_responder_machine =
     (let m = zero_machine\<lparr>should_negotiate_end := True, target_hopnum := 2, is_origin_side := False\<rparr>;
          m = circpad_machine_states_init m 3;
          m = at_state CIRCPAD_STATE_START (on_event CIRCPAD_EVENT_PADDING_RECV (of_nat CIRCPAD_STATE_BURST)) m;
          m = at_state CIRCPAD_STATE_START (on_event CIRCPAD_EVENT_NONPADDING_RECV (of_nat CIRCPAD_STATE_BURST)) m;
          m = at_state CIRCPAD_STATE_BURST (on_event CIRCPAD_EVENT_NONPADDING_SENT (of_nat CIRCPAD_STATE_BURST)) m;
          m = at_state CIRCPAD_STATE_BURST (on_event CIRCPAD_EVENT_PADDING_RECV (of_nat CIRCPAD_STATE_GAP)) m;
          m = at_state CIRCPAD_STATE_BURST (\<lambda>state.
            let state = state\<lparr>use_rtt_estimate := True, histogram_len := 2\<rparr>;
                state = bin_tokens 1 1 (bin_tokens 0 0 (bin_edge 1 1000000 (bin_edge 0 500 state)))
            in state\<lparr>histogram_total_tokens := 1\<rparr>) m;
          m = at_state CIRCPAD_STATE_GAP (on_event CIRCPAD_EVENT_PADDING_RECV (of_nat CIRCPAD_STATE_GAP)) m;
          m = at_state CIRCPAD_STATE_GAP (on_event CIRCPAD_EVENT_NONPADDING_RECV (of_nat CIRCPAD_STATE_GAP)) m;
          m = at_state CIRCPAD_STATE_GAP (on_event CIRCPAD_EVENT_BINS_EMPTY CIRCPAD_STATE_END) m;
          m = at_state CIRCPAD_STATE_GAP (on_event CIRCPAD_EVENT_NONPADDING_SENT CIRCPAD_STATE_END) m
      in at_state CIRCPAD_STATE_GAP (\<lambda>state.
           let state = state\<lparr>use_rtt_estimate := True, histogram_len := 6\<rparr>;
               state = bin_edge 2 2000 (bin_edge 1 1000 (bin_edge 0 500 state));
               state = bin_edge 5 16000 (bin_edge 4 8000 (bin_edge 3 4000 state));
               state = bin_tokens 2 2 (bin_tokens 1 1 (bin_tokens 0 0 state));
               state = bin_tokens 4 1 (bin_tokens 3 2 state)
           in state\<lparr>histogram_total_tokens := 6, token_removal := CIRCPAD_TOKEN_REMOVAL_CLOSEST_USEC\<rparr>) m)"

definition circpad_circ_responder_machine_init :: "circpad_machine_spec list \<Rightarrow> cp_fault + circpad_machine_spec list" where
  "circpad_circ_responder_machine_init relay_machines =
     circpad_register_padding_machine (circ_responder_machine\<lparr>machine_num := of_nat (length relay_machines)\<rparr>) relay_machines"

section \<open>Registration\<close>

text \<open>
  Both lists, with the machines of the tests if the build has them. The plugin that may add machines of its own runs between
  the two and is the parameter \<open>plugin\<close>.
\<close>

definition circpad_machines_init ::
  "bool \<Rightarrow> (circpad_machine_spec list \<times> circpad_machine_spec list \<Rightarrow> circpad_machine_spec list \<times> circpad_machine_spec list) \<Rightarrow>
    cp_fault + circpad_machine_spec list \<times> circpad_machine_spec list" where
  "circpad_machines_init unit_tests plugin =
     and_then (circpad_machine_client_hide_intro_circuits []) (\<lambda>origin.
     and_then (circpad_machine_relay_hide_intro_circuits []) (\<lambda>relay.
     and_then (circpad_machine_client_hide_rend_circuits origin) (\<lambda>origin.
     and_then (circpad_machine_relay_hide_rend_circuits relay) (\<lambda>relay.
     let (origin, relay) = plugin (origin, relay) in
     if \<not> unit_tests then Inr (origin, relay)
     else and_then (circpad_circ_client_machine_init origin) (\<lambda>origin.
       and_then (circpad_circ_responder_machine_init relay) (\<lambda>relay. Inr (origin, relay)))))))"

section \<open>They are well-formed\<close>

lemma client_ip_circ_ok: "spec_ok client_ip_circ"
  by code_simp

lemma relay_ip_circ_ok: "spec_ok relay_ip_circ"
  by code_simp

lemma client_rp_circ_ok: "spec_ok client_rp_circ"
  by code_simp

lemma relay_rp_circ_ok: "spec_ok relay_rp_circ"
  by code_simp

lemma circ_client_machine_ok: "spec_ok circ_client_machine"
  by code_simp

lemma circ_responder_machine_ok: "spec_ok circ_responder_machine"
  by code_simp

lemma machines_valid:
  "padding_machine_is_valid (states client_ip_circ) = Inr True" "padding_machine_is_valid (states relay_ip_circ) = Inr True"
  "padding_machine_is_valid (states client_rp_circ) = Inr True" "padding_machine_is_valid (states relay_rp_circ) = Inr True"
  "padding_machine_is_valid (states circ_client_machine) = Inr True"
  "padding_machine_is_valid (states circ_responder_machine) = Inr True"
  by code_simp+

lemma spec_ok_num [simp]: "spec_ok (m\<lparr>machine_num := n\<rparr>) = spec_ok m"
  by (simp add: spec_ok_def is_state_def)

definition well_formed :: "circpad_machine_spec list \<times> circpad_machine_spec list \<Rightarrow> bool" where
  "well_formed ms \<longleftrightarrow> list_all spec_ok (fst ms) \<and> list_all spec_ok (snd ms)"

lemma machines_init_eq:
  "circpad_machines_init False plugin = Inr (plugin ([client_ip_circ\<lparr>machine_num := 0\<rparr>, client_rp_circ\<lparr>machine_num := 1\<rparr>],
     [relay_ip_circ\<lparr>machine_num := 0\<rparr>, relay_rp_circ\<lparr>machine_num := 1\<rparr>]))"
  by (simp add: circpad_machines_init_def circpad_machine_client_hide_intro_circuits_def circpad_machine_relay_hide_intro_circuits_def
      circpad_machine_client_hide_rend_circuits_def circpad_machine_relay_hide_rend_circuits_def circpad_register_padding_machine_def
      machines_valid split: prod.split)

lemma machines_init_well_formed:
  assumes "\<And>ms. well_formed ms \<Longrightarrow> well_formed (plugin ms)"
  shows "\<exists>ms. circpad_machines_init unit_tests plugin = Inr ms \<and> well_formed ms"
proof -
  obtain origin relay where ms: "plugin ([client_ip_circ\<lparr>machine_num := 0\<rparr>, client_rp_circ\<lparr>machine_num := 1\<rparr>],
     [relay_ip_circ\<lparr>machine_num := 0\<rparr>, relay_rp_circ\<lparr>machine_num := 1\<rparr>]) = (origin, relay)"
    by fastforce
  moreover have "well_formed (origin, relay)"
    unfolding ms [symmetric]
    by (rule assms) (simp add: well_formed_def client_ip_circ_ok relay_ip_circ_ok client_rp_circ_ok relay_rp_circ_ok)
  ultimately show ?thesis
    by (auto simp: circpad_machines_init_def circpad_machine_client_hide_intro_circuits_def circpad_machine_relay_hide_intro_circuits_def
        circpad_machine_client_hide_rend_circuits_def circpad_machine_relay_hide_rend_circuits_def
        circpad_circ_client_machine_init_def circpad_circ_responder_machine_init_def circpad_register_padding_machine_def
        machines_valid well_formed_def circ_client_machine_ok circ_responder_machine_ok)
qed

section \<open>Any sequence of events\<close>

text \<open>What a process has to provide for its circuits, and what its circuits can rely on.\<close>

locale padding_process =
  fixes e :: pad_env
  assumes process_ok: "pad_env_ok e"
begin

lemma calls_keep: "keeps (pad_run e n)"
  using process_ok by (simp add: pad_env_okD run_keeps)

lemma events_keep:
  assumes "pad_ok w"
  shows "case handle_events e (pad_run e n) evs w of
      Inl f \<Rightarrow> f = Stack_Exhausted \<or> f = Division_By_Zero
    | Inr (w', _) \<Rightarrow> pad_ok w' \<and> CIRCUIT_IS_ORIGIN w' = CIRCUIT_IS_ORIGIN w"
  using handle_events_safe [OF calls_keep process_ok, of "CIRCUIT_IS_ORIGIN w" n evs] assms
  by (auto simp: safe_def on_side_def tolerated_def split: sum.splits)

end

text \<open>A process that runs no plugin and has the machines that \<open>circpad_machines_init\<close> registers provides it.\<close>

definition without_plugins :: "pad_env \<Rightarrow> pad_env" where
  "without_plugins e = e\<lparr>origin_padding_machines := [client_ip_circ\<lparr>machine_num := 0\<rparr>, client_rp_circ\<lparr>machine_num := 1\<rparr>],
     relay_padding_machines := [relay_ip_circ\<lparr>machine_num := 0\<rparr>, relay_rp_circ\<lparr>machine_num := 1\<rparr>],
     replace_hook := \<lambda>p w. (w, PAD_RUN_DEFAULT), add_hook := \<lambda>s w. w\<rparr>"

lemma without_plugins_machines:
  "circpad_machines_init False (\<lambda>ms. ms) = Inr (origin_padding_machines (without_plugins e), relay_padding_machines (without_plugins e))"
  by (simp add: machines_init_eq without_plugins_def)

interpretation builtin: padding_process "without_plugins e" for e
  by unfold_locales
    (simp add: pad_env_ok_def plugins_write_only_def without_plugins_def client_ip_circ_ok client_rp_circ_ok relay_ip_circ_ok relay_rp_circ_ok)

text \<open>
  C3. Memory safety of circuit padding. Let the machines be well-formed, let the padding plugins write no more of a circuit than the
  timer and the counts of its machines (\<open>plugins_write_only\<close>), and let the circuit be well-formed and either at a relay, or at a
  client with no RELAY_EARLY cells left. Then whatever sequence of events
  reaches the circuit (cells, timers, changes of the circuit, requests and answers of any content),
  and whatever the random numbers and the clock, the padding code uses no freed or missing runtime information, reads
  no array out of its bounds and fails no assertion. It leaves the circuit well-formed and on its side, or stops because it ran out of stack
  or divided by zero. A client with RELAY_EARLY cells left is excluded for a reason: there, using up the last one can free the
  machine that is sending.
\<close>

theorem padding_never_corrupts:
  assumes "plugins_write_only e" and "list_all spec_ok (origin_padding_machines e)" and "list_all spec_ok (relay_padding_machines e)"
    and "slots_ok w" and "CIRCUIT_IS_ORIGIN w \<Longrightarrow> remaining_relay_early_cells w = 0"
  shows "case handle_events e (pad_run e n) evs w of
      Inl f \<Rightarrow> f = Stack_Exhausted \<or> f = Division_By_Zero
    | Inr (w', _) \<Rightarrow> slots_ok w' \<and> CIRCUIT_IS_ORIGIN w' = CIRCUIT_IS_ORIGIN w \<and>
        (CIRCUIT_IS_ORIGIN w' \<longrightarrow> remaining_relay_early_cells w' = 0)"
proof -
  have "pad_env_ok e" "pad_ok w"
    using assms by (simp_all add: pad_env_ok_def pad_ok_iff)
  from padding_process.events_keep [OF padding_process.intro [OF this(1)] this(2), of n evs] show ?thesis
    by (simp add: pad_ok_iff split: sum.splits prod.splits)
qed

text \<open>A process without plugins that has the built-in machines, and circuits without machines.\<close>

definition demo_env :: pad_env where
  "demo_env = without_plugins \<lparr>draw_at = \<lambda>n. \<lparr>bin_draw = of_nat n, usec_draw = of_nat n, iat_draw = 0\<rparr>, length_draw_at = \<lambda>n. 8,
     usec_at = of_nat, approx_time = 1000, opt_CircuitPadding = True, opt_ReducedCircuitPadding = False, opt_vanguards = False,
     is_participating_on_network = True, origin_padding_machines = [], relay_padding_machines = [],
     packaged = \<lambda>n. True, replace_hook = \<lambda>p w. (w, PAD_RUN_DEFAULT), add_hook = \<lambda>s w. w\<rparr>"

definition demo_relay :: pad_world where
  "demo_relay = \<lparr>purpose = 1, circuit_open = True, marked_for_close = False, timestamp_dirty = 0,
     padding_machine = [None, None, None], padding_info = [None, None, None], padding_machine_ctr = 0, runtimes = \<lambda>_. None,
     next_addr = 0, padding_negotiation_failed = False, has_opened = True, has_streams = False, remaining_relay_early_cells = 0,
     cpath = [], p_chan_cells = 0,
     globals = \<lparr>circpad_padding_disabled = False, circpad_padding_reduced = False, circpad_global_allowed_cells = 0,
       circpad_global_max_padding_percent = 0, circpad_max_circ_queued_cells = 1000, circpad_global_padding_sent = 0,
       circpad_global_nonpadding_sent = 0\<rparr>, sent = [], reads = 0\<rparr>"

definition demo_client :: pad_world where
  "demo_client = demo_relay\<lparr>purpose := CIRCUIT_PURPOSE_C_INTRODUCING, cpath := replicate 3 \<lparr>hop_open = True, hop_supports_padding = True\<rparr>\<rparr>"

lemma demo_env_ok:
  "plugins_write_only demo_env" "list_all spec_ok (origin_padding_machines demo_env)" "list_all spec_ok (relay_padding_machines demo_env)"
  unfolding demo_env_def using builtin.process_ok by (simp_all add: pad_env_ok_def)

lemma demo_pad_ok: "slots_ok demo_relay" "slots_ok demo_client"
  by (auto simp: slots_ok_def demo_relay_def demo_client_def CIRCPAD_MAX_MACHINES_def less_Suc_eq numeral_3_eq_3 CIRCUIT_IS_ORIGIN_def
      CIRCUIT_PURPOSE_C_INTRODUCING_def CIRCUIT_PURPOSE_OR_MAX_def)

theorem padding_never_corrupts_witness:
  "case handle_events demo_env (pad_run demo_env 9)
      [Cell_Received RELAY_COMMAND_PADDING_NEGOTIATE None [0, 2, 0, 0, 0, 0, 0, 1], Timer_Fired 0, Cell_Forwarded CELL_DIRECTION_IN] demo_relay of
      Inl f \<Rightarrow> f = Stack_Exhausted \<or> f = Division_By_Zero
    | Inr (w', _) \<Rightarrow> slots_ok w' \<and> \<not> CIRCUIT_IS_ORIGIN w'"
proof -
  have "\<not> CIRCUIT_IS_ORIGIN demo_relay"
    by (simp add: CIRCUIT_IS_ORIGIN_def demo_relay_def CIRCUIT_PURPOSE_OR_MAX_def)
  with padding_never_corrupts [OF demo_env_ok demo_pad_ok(1), of 9 "[Cell_Received RELAY_COMMAND_PADDING_NEGOTIATE None [0, 2, 0, 0, 0, 0, 0, 1],
    Timer_Fired 0, Cell_Forwarded CELL_DIRECTION_IN]"] show ?thesis
    by (simp split: sum.splits prod.splits)
qed

section \<open>The machine of a relay on an introduction circuit\<close>

abbreviation intro_relay :: circpad_machine_spec where
  "intro_relay \<equiv> relay_ip_circ\<lparr>machine_num := 0\<rparr>"

lemma relay_ip_circ_fields [simp]:
  "machine_index relay_ip_circ = 0" "should_negotiate_end relay_ip_circ" "\<not> is_origin_side relay_ip_circ"
  "\<not> manage_circ_lifetime relay_ip_circ" "allowed_padding_count relay_ip_circ = 10" "max_padding_percent relay_ip_circ = 1"
  "length (states relay_ip_circ) = 2"
  by code_simp+

lemma relay_ip_circ_start:
  "next_state (states relay_ip_circ ! 0) = [CIRCPAD_STATE_IGNORE, 1, CIRCPAD_STATE_IGNORE, CIRCPAD_STATE_IGNORE,
     CIRCPAD_STATE_IGNORE, CIRCPAD_STATE_IGNORE, CIRCPAD_STATE_IGNORE]"
  "\<not> use_rtt_estimate (states relay_ip_circ ! 0)" "token_removal (states relay_ip_circ ! 0) = CIRCPAD_TOKEN_REMOVAL_NONE"
  "\<not> length_includes_nonpadding (states relay_ip_circ ! 0)"
  by code_simp+

lemma relay_ip_circ_burst:
  "next_state (states relay_ip_circ ! 1) = [CIRCPAD_STATE_IGNORE, 1, 1, CIRCPAD_STATE_IGNORE, CIRCPAD_STATE_IGNORE,
     CIRCPAD_STATE_IGNORE, CIRCPAD_STATE_END]"
  "\<not> use_rtt_estimate (states relay_ip_circ ! 1)" "token_removal (states relay_ip_circ ! 1) = CIRCPAD_TOKEN_REMOVAL_NONE"
  "dist_type (iat_dist (states relay_ip_circ ! 1)) = CIRCPAD_DIST_NONE"
  "dist_type (length_dist (states relay_ip_circ ! 1)) = CIRCPAD_DIST_UNIFORM"
  "start_length (states relay_ip_circ ! 1) = 0" "max_length (states relay_ip_circ ! 1) = 0"
  "histogram_len (states relay_ip_circ ! 1) = 2" "histogram_total_tokens (states relay_ip_circ ! 1) = 1000"
  "take 2 (histogram (states relay_ip_circ ! 1)) = [1000, 0]" "take 2 (histogram_edges (states relay_ip_circ ! 1)) = [1000, 10000]"
  "length (histogram (states relay_ip_circ ! 1)) = 100" "length (histogram_edges (states relay_ip_circ ! 1)) = 101"
  by code_simp+

section \<open>Delays\<close>

text \<open>
  C40. Sampling a delay from a histogram: for a well-formed machine whose current state has no inter-arrival distribution, and a
  runtime that belongs to it, \<open>circpad_machine_sample_delay\<close> returns for all random numbers. The delay is infinite, or it lies in a bin
  before the infinity bin that has a token: at least its lower end and below its upper end, both with the estimate of the round-trip time
  that the state may add; where adding it wraps around so that the bin has no extent, it is the lower end. With token removal that bin is
  remembered as chosen. A state with an inter-arrival distribution uses no histogram, and nothing is said about its delays.
\<close>

theorem sample_delay_in_bin:
  assumes "spec_ok machine" and "runtime_ok machine mi" and "circpad_machine_current_state machine mi = Some state"
    and "dist_type (iat_dist state) = CIRCPAD_DIST_NONE"
  shows "\<exists>mi' usec. circpad_machine_sample_delay d machine mi = Inr (mi', usec) \<and> runtime_ok machine mi' \<and>
    (usec = CIRCPAD_DELAY_INFINITE \<or>
     (\<exists>b. int b < CIRCPAD_INFINITY_BIN (histogram_len state) \<and> tokens_of state mi ! b \<noteq> 0 \<and> drawn_from machine mi b usec \<and>
       (token_removal state \<noteq> CIRCPAD_TOKEN_REMOVAL_NONE \<longrightarrow> chosen_bin mi' = int b)))"
  using sample_delay_drawn [OF assms, of d] by blast

definition burst_runtime :: circpad_machine_runtime where
  "burst_runtime = (new_runtime demo_env 0 1)\<lparr>current_state := 1\<rparr>"

theorem sample_delay_in_bin_witness:
  "\<exists>mi' usec. circpad_machine_sample_delay \<lparr>bin_draw = 1000003, usec_draw = 77, iat_draw = 0\<rparr> relay_ip_circ burst_runtime = Inr (mi', usec) \<and>
    (usec = CIRCPAD_DELAY_INFINITE \<or>
     (\<exists>b. int b < 1 \<and> tokens_of (states relay_ip_circ ! 1) burst_runtime ! b \<noteq> 0 \<and> drawn_from relay_ip_circ burst_runtime b usec))"
proof -
  have state: "circpad_machine_current_state relay_ip_circ burst_runtime = Some (states relay_ip_circ ! 1)"
    by (simp add: circpad_machine_current_state_def burst_runtime_def CIRCPAD_STATE_END_def)
  then have "runtime_ok relay_ip_circ burst_runtime"
    by (simp add: runtime_ok_def is_state_def tokens_ok_def relay_ip_circ_burst [simplified])
      (simp add: burst_runtime_def new_runtime_def)
  from sample_delay_in_bin [OF relay_ip_circ_ok this state] show ?thesis
    by (fastforce simp: relay_ip_circ_burst [simplified] CIRCPAD_INFINITY_BIN_def)
qed

end
