(* ===== verification/Circpad_Intro.thy ===== *)
theory Circpad_Intro
  imports Circpad_Builtin
begin

text \<open>
  A relay that runs the built-in machine for introduction circuits, from the request of the client to the end of the machine: the
  request is answered, then as many padding cells as the sampled length follow, one for each time the timer fires, then
  the end of the machine is announced and nothing of it is left on the circuit. The proofs run the definitions on
  a circuit of which the relevant parts are known (\<open>relay_with\<close>), one lemma for each step of the code.
\<close>

section \<open>Actions on a circuit that is at hand\<close>

named_theorems act_simps

declare pad_run.simps [simp del]

lemma and_then_assoc: "and_then (and_then r f) g = and_then r (\<lambda>x. and_then (f x) g)"
  by (cases r) simp_all

lemmas act_defs [act_simps] = seq_def look_def modify_def check_def return_val_def get_runtime_def set_runtime_def update_runtime_def
  CIRCPAD_GET_MACHINE_def with_machine_def info_at_def machine_at_def next_read_def monotime_absolute_usec_def at_index_def

text \<open>The state of the process around the circuit: padding is on, no plugin is loaded and cells can be packaged.\<close>

definition plain_process :: "pad_env \<Rightarrow> bool" where
  "plain_process e \<longleftrightarrow> opt_CircuitPadding e \<and> is_participating_on_network e \<and> (\<forall>n. packaged e n) \<and>
     (\<forall>p w. replace_hook e p w = (w, PAD_RUN_DEFAULT)) \<and> (\<forall>s w. add_hook e s w = w)"

definition plain_relay :: "pad_world \<Rightarrow> bool" where
  "plain_relay w \<longleftrightarrow> \<not> CIRCUIT_IS_ORIGIN w \<and> \<not> marked_for_close w \<and> p_chan_cells w \<le> unat (circpad_max_circ_queued_cells (globals w)) \<and>
     \<not> circpad_padding_disabled (globals w) \<and> circpad_global_max_padding_percent (globals w) = 0"

lemma intro_burst_state:
  assumes "current_state mi = 1"
  shows "circpad_machine_current_state intro_relay mi = Some (states relay_ip_circ ! 1)"
  using assms by (simp add: circpad_machine_current_state_def CIRCPAD_STATE_END_def)

lemma nth_take2: "take 2 xs = [a, b] \<Longrightarrow> xs ! 0 = a \<and> xs ! Suc 0 = b"
  by (metis nth_Cons_0 nth_Cons_Suc nth_take one_less_numeral_iff pos2 semiring_norm(76) One_nat_def)

lemma intro_sample:
  assumes "current_state mi = 1" and "mi_histogram mi = None"
  obtains u where "circpad_machine_sample_delay d intro_relay mi = Inr (mi, u)" "1000 \<le> u" "u < 10000"
proof -
  let ?s = "states relay_ip_circ ! 1"
  let ?u = "ucast (1000 + usec_draw d mod 9000) :: u32"
  note burst = relay_ip_circ_burst
  have h: "histogram ?s ! 0 = 1000" "histogram_edges ?s ! 0 = 1000" "histogram_edges ?s ! Suc 0 = 10000"
    using nth_take2 [OF burst(10)] nth_take2 [OF burst(11)] by auto
  have "bin_draw d mod 1000 < 1000"
    by (rule word_mod_less_divisor) simp
  then have c: "\<not> 1000 < bin_draw d mod 1000"
    by (simp add: not_less)
  have "choose_bin (histogram ?s) 2 (bin_draw d mod 1000) = Inr (Some 0)"
    using h c burst(12) by (simp add: choose_bin_def skip_zero.simps [of _ 0] weigh.simps [of _ _ _ 0])
  moreover have "delay_in_bin intro_relay mi (usec_draw d) 0 = Inr ?u"
    using h burst by (simp add: delay_in_bin_def circpad_histogram_bin_to_usec_def intro_burst_state [OF assms(1)]
        CIRCPAD_INFINITY_BIN_def at_index_def rtt_add_usec_def)
  ultimately have "circpad_machine_sample_delay d intro_relay mi = Inr (mi, ?u)"
    using burst h assms by (simp add: circpad_machine_sample_delay_def intro_burst_state token_source_def delay_of_bin_def
        at_index_def CIRCPAD_INFINITY_BIN_def)
  moreover have "1000 \<le> ?u" "?u < 10000"
  proof -
    have m: "unat (usec_draw d mod 9000) < 9000"
      by (simp add: unat_mod)
    then have "unat (1000 + usec_draw d mod 9000) = 1000 + unat (usec_draw d mod 9000)"
      by (simp add: unat_word_ariths)
    then have "unat ?u = 1000 + unat (usec_draw d mod 9000)"
      using m by (simp add: unsigned_ucast_eq take_bit_nat_eq_self)
    with m show "1000 \<le> ?u" "?u < 10000"
      by (simp_all add: word_le_nat_alt word_less_nat_alt)
  qed
  ultimately show ?thesis
    using that by blast
qed

lemma intro_schedule:
  assumes "plain_process e" and "plain_relay w" and "padding_machine w = [Some intro_relay, None, None]" and "runtimes w p = Some mi"
    and "mi_index mi = 0" and "current_state mi = 1" and "mi_histogram mi = None" and "state_length mi \<noteq> 0" and "padding_sent mi < 10"
  obtains u where "circpad_machine_schedule_padding e self p w =
      Inr (w\<lparr>reads := Suc (reads w), runtimes := (runtimes w)(p \<mapsto> mi\<lparr>padding_scheduled_at_usec := 1,
        is_padding_timer_scheduled := True, timer_usec := u\<rparr>)\<rparr>, CIRCPAD_STATE_UNCHANGED)"
    "1000 \<le> u" "u < 10000"
proof -
  obtain u where u: "circpad_machine_sample_delay (draw_at e (reads w)) intro_relay (mi\<lparr>is_padding_timer_scheduled := False\<rparr>) =
      Inr (mi\<lparr>is_padding_timer_scheduled := False\<rparr>, u)" "1000 \<le> u" "u < 10000"
    using assms(6,7) intro_sample [of "mi\<lparr>is_padding_timer_scheduled := False\<rparr>" "draw_at e (reads w)"] by auto
  have "\<not> 10 \<le> padding_sent mi"
    using assms(9) by (simp add: not_le)
  then have limit: "circpad_machine_reached_padding_limit (globals w) intro_relay mi = Inr False"
    using assms(2) by (simp add: circpad_machine_reached_padding_limit_def plain_relay_def)
  have "u \<noteq> CIRCPAD_DELAY_INFINITE" "u \<noteq> 0"
    using u(2,3) by (auto simp: CIRCPAD_DELAY_INFINITE_def)
  then have "circpad_machine_schedule_padding e self p w =
      Inr (w\<lparr>reads := Suc (reads w), runtimes := (runtimes w)(p \<mapsto> mi\<lparr>padding_scheduled_at_usec := 1,
        is_padding_timer_scheduled := True, timer_usec := u\<rparr>)\<rparr>, CIRCPAD_STATE_UNCHANGED)"
    using assms limit u(1) by (simp add: circpad_machine_schedule_padding_def act_simps plain_process_def plain_relay_def
        circpad_is_padding_allowed_def choose_delay_def schedule_delay_def schedule_timer_def circpad_is_token_removal_supported_def
        CIRCPAD_STATE_END_def)
  with u that show ?thesis
    by blast
qed

section \<open>One cell of padding\<close>

definition relay_with :: "nat \<Rightarrow> circpad_machine_runtime \<Rightarrow> (u8 \<times> u8 list \<times> nat) list \<Rightarrow> pad_world \<Rightarrow> bool" where
  "relay_with p mi cells w \<longleftrightarrow> plain_relay w \<and> padding_machine w = [Some intro_relay, None, None] \<and>
     padding_info w = [Some p, None, None] \<and> runtimes w p = Some mi \<and> sent w = cells"

text \<open>The machine waits in its burst state, with \<open>k\<close> cells to go, after \<open>c\<close> cells.\<close>

definition bursting :: "nat \<Rightarrow> nat \<Rightarrow> u32 \<Rightarrow> circpad_machine_runtime \<Rightarrow> bool" where
  "bursting k c ctr mi \<longleftrightarrow> mi_index mi = 0 \<and> current_state mi = 1 \<and> mi_histogram mi = None \<and> state_length mi = of_nat k \<and>
     padding_sent mi = of_nat c \<and> machine_ctr mi = ctr"

lemma plain_relay_upd [simp]:
  "plain_relay (w\<lparr>reads := a\<rparr>) = plain_relay w" "plain_relay (w\<lparr>runtimes := r\<rparr>) = plain_relay w"
  "plain_relay (w\<lparr>sent := s\<rparr>) = plain_relay w" "plain_relay (w\<lparr>padding_info := i\<rparr>) = plain_relay w"
  "plain_relay (w\<lparr>padding_machine := m\<rparr>) = plain_relay w" "plain_relay (w\<lparr>next_addr := n\<rparr>) = plain_relay w"
  "plain_relay (w\<lparr>padding_machine_ctr := t\<rparr>) = plain_relay w"
  "plain_relay (w\<lparr>globals := (globals w)\<lparr>circpad_global_padding_sent := x\<rparr>\<rparr>) = plain_relay w"
  "plain_relay (w\<lparr>globals := (globals w)\<lparr>circpad_global_nonpadding_sent := y\<rparr>\<rparr>) = plain_relay w"
  by (simp_all add: plain_relay_def CIRCUIT_IS_ORIGIN_def)

lemma slots [simp]: "machine_slots = [0, 1, 2]"
  by (simp add: machine_slots_def CIRCPAD_MAX_MACHINES_def upt_rec)

lemma one_is_a_state [simp]:
  "(1 :: u16) \<noteq> CIRCPAD_STATE_IGNORE" "(1 :: u16) \<noteq> CIRCPAD_STATE_CANCEL" "(1 :: u16) \<noteq> CIRCPAD_STATE_END"
  "CIRCPAD_STATE_END \<noteq> CIRCPAD_STATE_IGNORE" "CIRCPAD_STATE_END \<noteq> CIRCPAD_STATE_CANCEL" "CIRCPAD_STATE_END \<noteq> 1"
  by (simp_all add: CIRCPAD_STATE_IGNORE_def CIRCPAD_STATE_CANCEL_def CIRCPAD_STATE_END_def)

text \<open>Sending a cell from the relay while no machine reacts to it.\<close>

lemma relay_sends_drop:
  assumes "plain_process e" and "plain_relay w"
  shows "pad_run e (Suc n) (Relay_Send RELAY_COMMAND_DROP [] 0) w =
    Inr (w\<lparr>reads := Suc (reads w), sent := sent w @ [(RELAY_COMMAND_DROP, [], 0)]\<rparr>, 0)"
  using assms by (simp add: pad_run.simps relay_send_command_from_edge_def act_simps plain_process_def plain_relay_def use_relay_early_def package_cell_def
      circpad_deliver_sent_relay_cell_events_def)

lemma relay_sends_quietly:
  assumes "plain_process e" and "plain_relay w" and "padding_info w = [None, None, None]" and "cmd \<noteq> RELAY_COMMAND_DROP"
    and "length payload \<le> PAD_RELAY_PAYLOAD_SIZE"
  shows "pad_run e (Suc n) (Relay_Send cmd payload 0) w = Inr (w\<lparr>globals := (globals w)\<lparr>circpad_global_nonpadding_sent :=
      circpad_global_nonpadding_sent (globals w) + 1\<rparr>, reads := Suc (reads w), sent := sent w @ [(cmd, payload, 0)]\<rparr>, 0)"
  using assms by (simp add: pad_run.simps relay_send_command_from_edge_def act_simps plain_process_def plain_relay_def use_relay_early_def package_cell_def
      circpad_deliver_sent_relay_cell_events_def circpad_cell_event_nonpadding_sent_def CIRCUIT_IS_ORIGIN_def numeral_2_eq_2)

lemma small_words [simp]:
  "k < 100 \<Longrightarrow> (of_nat k :: u64) = CIRCPAD_STATE_LENGTH_INFINITE \<longleftrightarrow> False"
  "k < 100 \<Longrightarrow> (of_nat k :: u64) = 0 \<longleftrightarrow> k = 0"
  "c < 100 \<Longrightarrow> (of_nat c :: u16) = 0xFFFF \<longleftrightarrow> False"
  "c < 100 \<Longrightarrow> (of_nat c :: u16) < 10 \<longleftrightarrow> c < 10"
  by (auto simp: CIRCPAD_STATE_LENGTH_INFINITE_def unat_of_nat word_less_nat_alt dest: arg_cong [of _ _ unat])

lemma of_nat_pred: "0 < k \<Longrightarrow> (of_nat k :: 'a::len word) - 1 = of_nat (k - 1)"
  by (cases k) simp_all

lemma count_padding_relay:
  assumes "relay_with p mi cells w" and "bursting k c ctr mi" and "0 < k" and "k < 100" and "c < 10"
  obtains w' mi' where "count_padding p w = Inr (w', ())" "relay_with p mi' cells w'" "bursting (k - 1) (Suc c) ctr mi'"
proof -
  have "(of_nat (Suc c) :: u16) \<noteq> 0xFFFF" "(of_nat k :: u64) \<noteq> 0" "(of_nat k :: u64) \<noteq> CIRCPAD_STATE_LENGTH_INFINITE"
    using assms(3-5) by (simp_all del: of_nat_Suc)
  then have len: "padding_sent mi + 1 = of_nat (Suc c)" "padding_sent mi + 1 \<noteq> 0xFFFF" "state_length mi - 1 = of_nat (k - 1)"
    "0 < state_length mi" "state_length mi \<noteq> CIRCPAD_STATE_LENGTH_INFINITE" "mi_histogram mi = None"
    using assms(2,3) by (simp_all add: bursting_def word_gt_0 of_nat_pred add.commute del: of_nat_diff)
  have mi: "circpad_machine_count_padding_sent g mi = Inr (g\<lparr>circpad_global_padding_sent := circpad_global_padding_sent g + 1\<rparr>,
      mi\<lparr>state_length := of_nat (k - 1), padding_sent := of_nat (Suc c)\<rparr>)" for g
    using len by (auto simp: circpad_machine_count_padding_sent_def scale_counts_def Let_def circpad_is_token_removal_supported_def
        del: of_nat_Suc of_nat_diff)
  let ?mi = "mi\<lparr>state_length := of_nat (k - 1), padding_sent := of_nat (Suc c)\<rparr>"
  let ?w = "w\<lparr>globals := (globals w)\<lparr>circpad_global_padding_sent := circpad_global_padding_sent (globals w) + 1\<rparr>,
    runtimes := (runtimes w)(p \<mapsto> ?mi)\<rparr>"
  have "count_padding p w = Inr (?w, ())"
    using assms(1) by (simp add: count_padding_def get_runtime_def set_runtime_def relay_with_def mi)
  then show ?thesis
    by (rule that [of ?w ?mi]) (use assms(1,2) in \<open>simp_all add: relay_with_def bursting_def\<close>)
qed

lemma intro_transition_padding_sent:
  assumes "plain_process e" and "relay_with p mi cells w" and "bursting k c ctr mi" and "0 < k" and "k < 100" and "c < 10"
  obtains w' mi' where "pad_run e (Suc n) (Transition p CIRCPAD_EVENT_PADDING_SENT) w = Inr (w', CIRCPAD_STATE_UNCHANGED)"
    "relay_with p mi' cells w'" "bursting k c ctr mi'" "is_padding_timer_scheduled mi'"
proof -
  have w: "plain_relay w" "padding_machine w = [Some intro_relay, None, None]" "runtimes w p = Some mi"
    and mi: "mi_index mi = 0" "current_state mi = 1" "mi_histogram mi = None" "state_length mi \<noteq> 0" "padding_sent mi < 10"
    using assms(2-6) by (simp_all add: relay_with_def bursting_def)
  have "circpad_machine_spec_transition e (pad_run e n) p CIRCPAD_EVENT_PADDING_SENT w = circpad_machine_schedule_padding e (pad_run e n) p w"
    using w mi by (simp add: circpad_machine_spec_transition_def act_simps intro_burst_state relay_ip_circ_burst [simplified]
        CIRCPAD_EVENT_PADDING_SENT_def)
  moreover obtain u where "circpad_machine_schedule_padding e (pad_run e n) p w =
      Inr (w\<lparr>reads := Suc (reads w), runtimes := (runtimes w)(p \<mapsto> mi\<lparr>padding_scheduled_at_usec := 1,
        is_padding_timer_scheduled := True, timer_usec := u\<rparr>)\<rparr>, CIRCPAD_STATE_UNCHANGED)"
    by (rule intro_schedule [OF assms(1) w mi, of "pad_run e n"])
  ultimately show ?thesis
    by (intro that [of "w\<lparr>reads := Suc (reads w), runtimes := (runtimes w)(p \<mapsto> mi\<lparr>padding_scheduled_at_usec := 1,
        is_padding_timer_scheduled := True, timer_usec := u\<rparr>)\<rparr>" "mi\<lparr>padding_scheduled_at_usec := 1,
        is_padding_timer_scheduled := True, timer_usec := u\<rparr>"]) (use assms(2,3) in \<open>simp_all add: pad_run.simps relay_with_def bursting_def\<close>)
qed

lemma enough_left:
  assumes "relay_with p mi cells w" and "bursting k c ctr mi" and "0 < k" and "k < 100"
  shows "check_machine_token_supply self p w = Inr (w, CIRCPAD_STATE_UNCHANGED)"
  using assms by (simp add: check_machine_token_supply_def act_simps relay_with_def bursting_def finite_tokens_def
      circpad_is_token_removal_supported_def circpad_decisions)

lemma send_drop_relay:
  assumes "plain_process e" and "relay_with p mi cells w"
  obtains w' where "send_drop (pad_run e (Suc n)) p w = Inr (w', ())" "relay_with p mi (cells @ [(RELAY_COMMAND_DROP, [], 0)]) w'"
proof -
  have w: "plain_relay w"
    using assms(2) by (simp add: relay_with_def)
  then have "send_drop (pad_run e (Suc n)) p w = Inr (w\<lparr>reads := Suc (reads w), sent := sent w @ [(RELAY_COMMAND_DROP, [], 0)]\<rparr>, ())"
    using relay_sends_drop [OF assms(1) w, of n] by (simp add: send_drop_def act_simps plain_relay_def)
  then show ?thesis
    by (rule that) (use assms(2) in \<open>simp add: relay_with_def\<close>)
qed

lemma same_event_padding_sent:
  assumes "plain_process e" and "relay_with p mi cells w" and "bursting k c ctr mi" and "0 < k" and "k < 100" and "c < 10"
  obtains w' mi' where "circpad_cell_event_padding_sent e (pad_run e (Suc n)) w = Inr (w', ())" "relay_with p mi' cells w'"
    "bursting k c ctr mi'" "is_padding_timer_scheduled mi'"
proof -
  let ?mi = "mi\<lparr>last_cell_time_sec := approx_time e\<rparr>"
  let ?w = "w\<lparr>runtimes := (runtimes w)(p \<mapsto> ?mi)\<rparr>"
  have "relay_with p ?mi cells ?w" "bursting k c ctr ?mi"
    using assms(2,3) by (simp_all add: relay_with_def bursting_def)
  then obtain w' mi' where t: "pad_run e (Suc n) (Transition p CIRCPAD_EVENT_PADDING_SENT) ?w = Inr (w', CIRCPAD_STATE_UNCHANGED)"
    "relay_with p mi' cells w'" "bursting k c ctr mi'" "is_padding_timer_scheduled mi'"
    by (rule intro_transition_padding_sent [OF assms(1) _ _ assms(4-6)])
  have info: "padding_info w = [Some p, None, None]" "runtimes w p = Some mi" "padding_info w' = [Some p, None, None]"
    using assms(2) t(2) by (simp_all add: relay_with_def)
  have "circpad_cell_event_padding_sent e (pad_run e (Suc n)) w = Inr (w', ())"
    using info t(1) enough_left [OF assms(2-5), of "pad_run e (Suc n)"]
    by (simp add: circpad_cell_event_padding_sent_def on_padding_sent_def act_simps circpad_decisions)
  with t show ?thesis
    by (intro that)
qed

lemma callback_continues:
  assumes "plain_process e" and "relay_with p mi cells w" and "bursting (Suc k) c ctr mi" and "0 < k" and "k < 99" and "c < 9"
  obtains w' mi' d where "circpad_send_padding_cell_for_callback e (pad_run e (Suc n)) p w = Inr (w', d)"
    "relay_with p mi' (cells @ [(RELAY_COMMAND_DROP, [], 0)]) w'" "bursting k (Suc c) ctr mi'" "is_padding_timer_scheduled mi'"
proof -
  let ?mi = "mi\<lparr>padding_scheduled_at_usec := 0, is_padding_timer_scheduled := False\<rparr>"
  let ?w = "w\<lparr>runtimes := (runtimes w)(p \<mapsto> ?mi)\<rparr>"
  have "relay_with p ?mi cells ?w" "bursting (Suc k) c ctr ?mi"
    using assms(2,3) by (simp_all add: relay_with_def bursting_def)
  then obtain w1 mi1 where w1: "count_padding p ?w = Inr (w1, ())" "relay_with p mi1 cells w1" "bursting k (Suc c) ctr mi1"
    using count_padding_relay [of p ?mi cells ?w "Suc k" c ctr] assms(5,6) by auto
  obtain w2 where w2: "send_drop (pad_run e (Suc n)) p w1 = Inr (w2, ())" "relay_with p mi1 (cells @ [(RELAY_COMMAND_DROP, [], 0)]) w2"
    by (rule send_drop_relay [OF assms(1) w1(2)])
  obtain w3 mi3 where w3: "circpad_cell_event_padding_sent e (pad_run e (Suc n)) w2 = Inr (w3, ())"
    "relay_with p mi3 (cells @ [(RELAY_COMMAND_DROP, [], 0)]) w3" "bursting k (Suc c) ctr mi3" "is_padding_timer_scheduled mi3"
    using same_event_padding_sent [OF assms(1) w2(2) w1(3) assms(4), of n] assms(5,6) by auto
  have info: "runtimes w p = Some mi" "\<not> marked_for_close w" "current_state mi = 1" "mi_index mi = 0"
    "padding_info w3 = [Some p, None, None]" "runtimes w3 p = Some mi3" "current_state mi3 = 1"
    using assms(2,3) w3(2,3) by (simp_all add: relay_with_def bursting_def plain_relay_def)
  have "circpad_send_padding_cell_for_callback e (pad_run e (Suc n)) p w = Inr (w3, CIRCPAD_STATE_UNCHANGED)"
    using info w1(1) w2(1) w3(1) enough_left [OF w3(2,3) assms(4), of "pad_run e (Suc n)"] assms(5)
    by (simp add: circpad_send_padding_cell_for_callback_def after_padding_def act_simps)
  then show ?thesis
    using w3 by (intro that)
qed

section \<open>The last cell\<close>

text \<open>The contents of the cells of the negotiation.\<close>

definition negotiate_payload :: "u8 \<Rightarrow> u8 \<Rightarrow> u32 \<Rightarrow> u8 list" where
  "negotiate_payload command num ctr = [0, command, num, 0] @ put_be 4 ctr"

definition negotiated_payload :: "u8 \<Rightarrow> u8 \<Rightarrow> u8 \<Rightarrow> u32 \<Rightarrow> u8 list" where
  "negotiated_payload command response num ctr = [0, command, response, num] @ put_be 4 ctr"

lemma payload_size [simp]:
  "length (negotiate_payload command num ctr) \<le> PAD_RELAY_PAYLOAD_SIZE"
  "length (negotiated_payload command response num ctr) \<le> PAD_RELAY_PAYLOAD_SIZE"
  by (simp_all add: negotiate_payload_def negotiated_payload_def PAD_RELAY_PAYLOAD_SIZE_def)

lemma negotiate_cell_encode:
  assumes "is_command command"
  shows "circpad_negotiate_encode PAD_CELL_PAYLOAD_SIZE (negotiate_cell num command ctr) = Inr (negotiate_payload command num ctr)"
  using assms by (simp add: circpad_negotiate_encode_Inr PAD_CELL_PAYLOAD_SIZE_def negotiate_cell_def circpad_negotiate_new_def
      circpad_negotiate_set_command_def circpad_negotiate_set_version_def circpad_negotiate_set_machine_type_def
      circpad_negotiate_set_machine_ctr_def circpad_negotiate_check_def negotiate_payload_def)

lemma negotiated_cell_encode:
  assumes "is_command command" and "is_response response"
  shows "circpad_negotiated_encode PAD_CELL_PAYLOAD_SIZE (negotiated_cell num command response ctr) =
    Inr (negotiated_payload command response num ctr)"
  using assms by (simp add: circpad_negotiated_encode_Inr PAD_CELL_PAYLOAD_SIZE_def negotiated_cell_def circpad_negotiated_new_def
      circpad_negotiated_set_command_def circpad_negotiated_set_response_def circpad_negotiated_set_version_def
      circpad_negotiated_set_machine_type_def circpad_negotiated_set_machine_ctr_def circpad_negotiated_check_def negotiated_payload_def)

text \<open>The relay without machines.\<close>

definition idle_relay :: "(u8 \<times> u8 list \<times> nat) list \<Rightarrow> pad_world \<Rightarrow> bool" where
  "idle_relay cells w \<longleftrightarrow> plain_relay w \<and> padding_machine w = [None, None, None] \<and> padding_info w = [None, None, None] \<and> sent w = cells"

definition stop_cell :: "u32 \<Rightarrow> u8 \<times> u8 list \<times> nat" where
  "stop_cell ctr = (RELAY_COMMAND_PADDING_NEGOTIATED, negotiated_payload CIRCPAD_COMMAND_STOP CIRCPAD_RESPONSE_OK 0 ctr, 0)"

lemma answer_sent:
  assumes "plain_process e" and "plain_relay w" and "padding_info w = [None, None, None]" and "is_command command" and "is_response response"
  shows "circpad_padding_negotiated (pad_run e (Suc n)) num command response ctr w = Inr (w\<lparr>globals := (globals w)\<lparr>
      circpad_global_nonpadding_sent := circpad_global_nonpadding_sent (globals w) + 1\<rparr>, reads := Suc (reads w),
      sent := sent w @ [(RELAY_COMMAND_PADDING_NEGOTIATED, negotiated_payload command response num ctr, 0)]\<rparr>, True)"
  using relay_sends_quietly [OF assms(1-3), of RELAY_COMMAND_PADDING_NEGOTIATED "negotiated_payload command response num ctr" n] assms(4,5)
  by (simp add: circpad_padding_negotiated_def negotiated_cell_encode act_simps relay_commands)

lemma intro_ends:
  assumes "plain_process e" and "relay_with p mi cells w" and "bursting 0 c ctr mi"
  obtains w' where "pad_run e (Suc (Suc n)) (Transition p CIRCPAD_EVENT_LENGTH_COUNT) w = Inr (w', CIRCPAD_STATE_CHANGED)"
    "idle_relay (cells @ [stop_cell ctr]) w'"
proof -
  have w: "plain_relay w" "padding_machine w = [Some intro_relay, None, None]" "padding_info w = [Some p, None, None]"
     "runtimes w p = Some mi" "sent w = cells" and mi: "mi_index mi = 0" "current_state mi = 1" "mi_histogram mi = None"
     "machine_ctr mi = ctr"
    using assms(2,3) by (simp_all add: relay_with_def bursting_def)
  have "circpad_machine_spec_transition e (pad_run e (Suc n)) p CIRCPAD_EVENT_LENGTH_COUNT w = enter_state e (pad_run e (Suc n)) p CIRCPAD_STATE_END w"
    using w mi by (simp add: circpad_machine_spec_transition_def act_simps intro_burst_state relay_ip_circ_burst [simplified]
        CIRCPAD_EVENT_LENGTH_COUNT_def)
  moreover have "enter_state e (pad_run e (Suc n)) p CIRCPAD_STATE_END w =
      and_then (circpad_padding_negotiated (pad_run e (Suc n)) 0 CIRCPAD_COMMAND_STOP CIRCPAD_RESPONSE_OK ctr
        (w\<lparr>padding_info := [None, None, None], runtimes := (runtimes w)(p := None)\<rparr>))
        (\<lambda>(w, _). Inr (w\<lparr>padding_machine := (padding_machine w)[0 := None]\<rparr>, CIRCPAD_STATE_CHANGED))"
    using w mi by (simp add: enter_state_def act_simps setup_tokens_def circpad_choose_state_length_def clear_machine_def
        circpad_machine_current_state_def circpad_machine_setup_tokens_def circpad_machine_spec_transitioned_to_end_def
        circpad_circuit_machineinfo_free_idx_def and_then_assoc case_prod_unfold)
  moreover note answer_sent [OF assms(1), of "w\<lparr>padding_info := [None, None, None], runtimes := (runtimes w)(p := None)\<rparr>"
      CIRCPAD_COMMAND_STOP CIRCPAD_RESPONSE_OK n 0 ctr]
  ultimately have "\<exists>w'. pad_run e (Suc (Suc n)) (Transition p CIRCPAD_EVENT_LENGTH_COUNT) w = Inr (w', CIRCPAD_STATE_CHANGED) \<and>
      idle_relay (cells @ [stop_cell ctr]) w'"
    using w by (simp add: is_command_def is_response_def idle_relay_def stop_cell_def pad_run.simps(2) [of e "Suc n"] case_prod_unfold
        plain_relay_def CIRCUIT_IS_ORIGIN_def)
  then show ?thesis
    using that by blast
qed

lemma callback_ends:
  assumes "plain_process e" and "relay_with p mi cells w" and "bursting 1 c ctr mi" and "c < 10"
  obtains w' d where "circpad_send_padding_cell_for_callback e (pad_run e (Suc (Suc n))) p w = Inr (w', d)"
    "idle_relay (cells @ [(RELAY_COMMAND_DROP, [], 0), stop_cell ctr]) w'"
proof -
  let ?mi = "mi\<lparr>padding_scheduled_at_usec := 0, is_padding_timer_scheduled := False\<rparr>"
  let ?w = "w\<lparr>runtimes := (runtimes w)(p \<mapsto> ?mi)\<rparr>"
  let ?pad_run = "pad_run e (Suc (Suc n))"
  have "relay_with p ?mi cells ?w" "bursting 1 c ctr ?mi"
    using assms(2,3) by (simp_all add: relay_with_def bursting_def)
  then obtain w1 mi1 where w1: "count_padding p ?w = Inr (w1, ())" "relay_with p mi1 cells w1" "bursting 0 (Suc c) ctr mi1"
    using count_padding_relay [of p ?mi cells ?w 1 c ctr] assms(4) by auto
  obtain w2 where w2: "send_drop ?pad_run p w1 = Inr (w2, ())" "relay_with p mi1 (cells @ [(RELAY_COMMAND_DROP, [], 0)]) w2"
    by (rule send_drop_relay [OF assms(1) w1(2)])
  obtain w3 where w3: "?pad_run (Transition p CIRCPAD_EVENT_LENGTH_COUNT) w2 = Inr (w3, CIRCPAD_STATE_CHANGED)"
    "idle_relay (cells @ [(RELAY_COMMAND_DROP, [], 0), stop_cell ctr]) w3"
    using intro_ends [OF assms(1) w2(2) w1(3), of n] by auto
  have info: "runtimes w p = Some mi" "\<not> marked_for_close w" "current_state mi = 1" "mi_index mi = 0"
    "padding_info w2 = [Some p, None, None]" "runtimes w2 p = Some mi1" "state_length mi1 = 0" "mi_histogram mi1 = None"
    "padding_info w3 = [None, None, None]"
    using assms(2,3) w1(3) w2(2) w3(2) by (simp_all add: relay_with_def bursting_def plain_relay_def idle_relay_def)
  have "circpad_cell_event_padding_sent e ?pad_run w2 = Inr (w3, ())"
    using info w3(1) by (simp add: circpad_cell_event_padding_sent_def on_padding_sent_def check_machine_token_supply_def finite_tokens_def
        circpad_internal_event_state_length_up_def circpad_is_token_removal_supported_def act_simps circpad_decisions)
  then have "circpad_send_padding_cell_for_callback e ?pad_run p w = Inr (w3, CIRCPAD_STATE_CHANGED)"
    using info w1(1) w2(1) by (simp add: circpad_send_padding_cell_for_callback_def after_padding_def act_simps)
  then show ?thesis
    using w3(2) by (rule that)
qed

section \<open>All the cells\<close>

lemma fire_timer_relay:
  assumes "plain_process e" and "relay_with p mi cells w" and "is_padding_timer_scheduled mi"
    and "circpad_send_padding_cell_for_callback e self p w = Inr (w', d)"
  shows "handle_event e self (Timer_Fired 0) w = Inr (w', ())"
  using assms by (simp add: handle_event_def fire_timer_def act_simps relay_with_def circpad_send_padding_callback_def plain_process_def
      CIRCPAD_MAX_MACHINES_def)

lemma intro_bursts:
  assumes "plain_process e" and "relay_with p mi cells w" and "bursting (Suc k) c ctr mi" and "is_padding_timer_scheduled mi"
    and "Suc k + c \<le> 10"
  shows "\<exists>w'. handle_events e (pad_run e (Suc (Suc n))) (replicate (Suc k) (Timer_Fired 0)) w = Inr (w', ()) \<and>
    idle_relay (cells @ replicate (Suc k) (RELAY_COMMAND_DROP, [], 0) @ [stop_cell ctr]) w'"
  using assms(2-5)
proof (induction k arbitrary: mi cells w c)
  case 0
  then obtain w' d where "circpad_send_padding_cell_for_callback e (pad_run e (Suc (Suc n))) p w = Inr (w', d)"
    "idle_relay (cells @ [(RELAY_COMMAND_DROP, [], 0), stop_cell ctr]) w'"
    by (elim callback_ends [OF assms(1), where n = n]) auto
  with fire_timer_relay [OF assms(1) 0(1,3) this(1)] show ?case
    by (simp add: seq_def return_val_def)
next
  case (Suc k)
  then have "0 < Suc k" "Suc k < 99" "c < 9"
    by auto
  then obtain w1 mi1 d where w1: "circpad_send_padding_cell_for_callback e (pad_run e (Suc (Suc n))) p w = Inr (w1, d)"
    "relay_with p mi1 (cells @ [(RELAY_COMMAND_DROP, [], 0)]) w1" "bursting (Suc k) (Suc c) ctr mi1" "is_padding_timer_scheduled mi1"
    by (rule callback_continues [OF assms(1) Suc.prems(1,2)])
  from fire_timer_relay [OF assms(1) Suc.prems(1,3) this(1)] Suc.IH [OF this(2-4)] Suc.prems(4) show ?case
    by (simp add: seq_def)
qed

section \<open>The start\<close>

text \<open>The machine is set up and waits in its start state.\<close>

definition starting :: "u32 \<Rightarrow> circpad_machine_runtime \<Rightarrow> bool" where
  "starting ctr mi \<longleftrightarrow> mi_index mi = 0 \<and> current_state mi = 0 \<and> mi_histogram mi = None \<and> state_length mi = 0 \<and> padding_sent mi = 0 \<and>
     machine_ctr mi = ctr \<and> last_received_time_usec mi = 0"

definition next_ctr :: "u32 \<Rightarrow> u32" where
  "next_ctr ctr = (if ctr + 1 = 0 then 1 else ctr + 1)"

lemma intro_start_state:
  assumes "current_state mi = 0"
  shows "circpad_machine_current_state intro_relay mi = Some (states relay_ip_circ ! 0)"
  using assms by (simp add: circpad_machine_current_state_def CIRCPAD_STATE_END_def)

lemma intro_set_up:
  assumes "plain_process e" and "idle_relay cells w"
  obtains w' mi where "circpad_setup_machine_on_circ e intro_relay w = Inr (w', ())" "relay_with (next_addr w) mi cells w'"
    "starting (next_ctr (padding_machine_ctr w)) mi" "\<not> stop_rtt_update mi"
proof -
  let ?mi = "new_runtime e 0 (next_ctr (padding_machine_ctr w))"
  let ?w = "w\<lparr>padding_machine_ctr := next_ctr (padding_machine_ctr w), runtimes := (runtimes w)(next_addr w \<mapsto> ?mi),
    next_addr := Suc (next_addr w), padding_info := [Some (next_addr w), None, None], padding_machine := [Some intro_relay, None, None]\<rparr>"
  have "circpad_setup_machine_on_circ e intro_relay w = Inr (?w, ())"
    using assms by (simp add: circpad_setup_machine_on_circ_def act_simps idle_relay_def plain_process_def plain_relay_def
        circpad_circuit_machineinfo_new_def next_ctr_def)
  then show ?thesis
    by (rule that [of ?w ?mi]) (use assms(2) in \<open>simp_all add: relay_with_def idle_relay_def starting_def new_runtime_def\<close>)
qed

lemma start_ignores:
  assumes "relay_with p mi cells w" and "starting ctr mi" and "at_index (next_state (states relay_ip_circ ! 0)) ev = Inr CIRCPAD_STATE_IGNORE"
  shows "pad_run e (Suc n) (Transition p ev) w = Inr (w, CIRCPAD_STATE_UNCHANGED)"
proof -
  have "circpad_machine_current_state intro_relay mi = Some (states relay_ip_circ ! 0)"
    using assms(2) by (simp add: starting_def intro_start_state)
  then show ?thesis
    using assms by (simp add: pad_run.simps circpad_machine_spec_transition_def with_machine_def seq_def get_runtime_def return_val_def check_def
        CIRCPAD_GET_MACHINE_def relay_with_def starting_def at_index_def [of "[Some intro_relay, None, None]"])
qed

lemma start_ignored:
  "at_index (next_state (states relay_ip_circ ! 0)) CIRCPAD_EVENT_NONPADDING_RECV = Inr CIRCPAD_STATE_IGNORE"
  "at_index (next_state (states relay_ip_circ ! 0)) CIRCPAD_EVENT_LENGTH_COUNT = Inr CIRCPAD_STATE_IGNORE"
  by (simp_all add: relay_ip_circ_start at_index_def circpad_events)

lemma intro_request_noticed:
  assumes "relay_with p mi cells w" and "starting ctr mi" and "\<not> stop_rtt_update mi"
  obtains w' mi' where "circpad_cell_event_nonpadding_received e (pad_run e (Suc n)) w = Inr (w', ())" "relay_with p mi' cells w'" "starting ctr mi'"
proof -
  let ?mi = "mi\<lparr>last_cell_time_sec := approx_time e, stop_rtt_update := True\<rparr>"
  let ?w = "w\<lparr>runtimes := (runtimes w)(p \<mapsto> ?mi)\<rparr>"
  have w: "plain_relay w" "padding_machine w = [Some intro_relay, None, None]" "padding_info w = [Some p, None, None]"
     "runtimes w p = Some mi" and mi: "mi_index mi = 0" "current_state mi = 0" "last_received_time_usec mi = 0"
    using assms by (simp_all add: relay_with_def starting_def)
  have r: "relay_with p ?mi cells ?w" "starting ctr ?mi"
    using assms(1,2) by (simp_all add: relay_with_def starting_def)
  have "circpad_estimate_circ_rtt_on_received e p (w\<lparr>runtimes := (runtimes w)(p \<mapsto> mi\<lparr>last_cell_time_sec := approx_time e\<rparr>)\<rparr>) = Inr (?w, ())"
    using w mi assms(3) by (simp add: circpad_estimate_circ_rtt_on_received_def act_simps plain_relay_def intro_start_state
        relay_ip_circ_start CIRCUIT_IS_ORIGIN_def)
  then have "circpad_cell_event_nonpadding_received e (pad_run e (Suc n)) w = Inr (?w, ())"
    using w start_ignores [OF r start_ignored(1), of e n]
    by (simp add: circpad_cell_event_nonpadding_received_def on_nonpadding_received_def act_simps)
  then show ?thesis
    using r by (rule that)
qed

text \<open>The sampler of the length stays within its parameters.\<close>

definition sampled_lengths :: "pad_env \<Rightarrow> bool" where
  "sampled_lengths e \<longleftrightarrow> (\<forall>n. of_nat INTRO_MACHINE_MINIMUM_PADDING \<le> length_draw_at e n \<and> length_draw_at e n \<le> of_nat INTRO_MACHINE_MAXIMUM_PADDING)"

lemma intro_length:
  assumes "relay_with p mi cells w" and "mi_index mi = 0" and "current_state mi = 1" and "sampled_lengths e"
  obtains w' N where "circpad_choose_state_length e p w = Inr (w', ())" "relay_with p (mi\<lparr>state_length := of_nat N\<rparr>) cells w'"
    "INTRO_MACHINE_MINIMUM_PADDING \<le> N" "N \<le> INTRO_MACHINE_MAXIMUM_PADDING"
proof -
  let ?x = "length_draw_at e (reads w)"
  let ?mi = "mi\<lparr>state_length := of_nat (nat \<lfloor>?x\<rfloor>)\<rparr>"
  let ?w = "w\<lparr>reads := Suc (reads w), runtimes := (runtimes w)(p \<mapsto> ?mi)\<rparr>"
  have x: "7 \<le> ?x" "?x \<le> 10"
    using assms(4) by (auto simp: sampled_lengths_def INTRO_MACHINE_MINIMUM_PADDING_def INTRO_MACHINE_MAXIMUM_PADDING_def)
  then have f: "7 \<le> \<lfloor>?x\<rfloor>" "\<lfloor>?x\<rfloor> \<le> 10"
    using floor_mono [OF x(2)] by (simp_all add: le_floor_iff)
  then have "max 0 ?x = ?x" "min \<lfloor>?x\<rfloor> 0x7FFFFFFFFFFFFFFF = int (nat \<lfloor>?x\<rfloor>)"
    using x by simp_all
  then have "circpad_choose_state_length e p w = Inr (?w, ())"
    using assms(1-3) by (simp add: circpad_choose_state_length_def act_simps relay_with_def intro_burst_state relay_ip_circ_burst [simplified])
  then show ?thesis
    by (rule that [of ?w "nat \<lfloor>?x\<rfloor>"]) (use assms(1) f in \<open>simp_all add: relay_with_def INTRO_MACHINE_MINIMUM_PADDING_def INTRO_MACHINE_MAXIMUM_PADDING_def nat_le_iff le_nat_iff\<close>)
qed

lemma intro_begins:
  assumes "plain_process e" and "sampled_lengths e" and "relay_with p mi cells w" and "mi_index mi = 0" and "current_state mi = 0"
    and "mi_histogram mi = None" and "padding_sent mi = 0"
  obtains w' mi' N where "pad_run e (Suc n) (Transition p CIRCPAD_EVENT_NONPADDING_SENT) w = Inr (w', CIRCPAD_STATE_CHANGED)"
    "relay_with p mi' cells w'" "bursting N 0 (machine_ctr mi) mi'" "is_padding_timer_scheduled mi'"
    "INTRO_MACHINE_MINIMUM_PADDING \<le> N" "N \<le> INTRO_MACHINE_MAXIMUM_PADDING"
proof -
  let ?mi = "mi\<lparr>current_state := 1\<rparr>"
  let ?w = "w\<lparr>runtimes := (runtimes w)(p \<mapsto> ?mi)\<rparr>"
  have r: "relay_with p ?mi cells ?w"
    using assms(3) by (simp add: relay_with_def)
  obtain w1 N where w1: "circpad_choose_state_length e p ?w = Inr (w1, ())" "relay_with p (?mi\<lparr>state_length := of_nat N\<rparr>) cells w1"
    and N: "INTRO_MACHINE_MINIMUM_PADDING \<le> N" "N \<le> INTRO_MACHINE_MAXIMUM_PADDING"
    by (rule intro_length [OF r _ _ assms(2)]) (simp_all add: assms)
  have small: "0 < N" "N < 100"
    using N by (simp_all add: INTRO_MACHINE_MINIMUM_PADDING_def INTRO_MACHINE_MAXIMUM_PADDING_def)
  let ?mi1 = "?mi\<lparr>state_length := of_nat N\<rparr>"
  obtain u where u: "circpad_machine_schedule_padding e (pad_run e n) p w1 =
      Inr (w1\<lparr>reads := Suc (reads w1), runtimes := (runtimes w1)(p \<mapsto> ?mi1\<lparr>padding_scheduled_at_usec := 1,
        is_padding_timer_scheduled := True, timer_usec := u\<rparr>)\<rparr>, CIRCPAD_STATE_UNCHANGED)"
    using intro_schedule [OF assms(1), of w1 p ?mi1 "pad_run e n"] w1(2) small assms(4,6,7) by (auto simp: relay_with_def)
  let ?mi2 = "?mi1\<lparr>padding_scheduled_at_usec := 1, is_padding_timer_scheduled := True, timer_usec := u\<rparr>"
  let ?w2 = "w1\<lparr>reads := Suc (reads w1), runtimes := (runtimes w1)(p \<mapsto> ?mi2)\<rparr>"
  have "setup_tokens p ?w = Inr (?w, ())"
    using assms(3,4,6) by (simp add: setup_tokens_def act_simps relay_with_def circpad_machine_setup_tokens_def intro_burst_state
        relay_ip_circ_burst [simplified])
  then have "enter_state e (pad_run e n) p 1 w = Inr (?w2, CIRCPAD_STATE_CHANGED)"
    using w1(1) u assms(3) by (simp add: enter_state_def act_simps relay_with_def)
  moreover have "pad_run e (Suc n) (Transition p CIRCPAD_EVENT_NONPADDING_SENT) w = enter_state e (pad_run e n) p 1 w"
    using assms(3-5) by (simp add: pad_run.simps circpad_machine_spec_transition_def act_simps relay_with_def intro_start_state
        relay_ip_circ_start CIRCPAD_EVENT_NONPADDING_SENT_def)
  ultimately show ?thesis
    by (intro that [of ?w2 ?mi2, OF _ _ _ _ N]) (use w1(2) assms(4,6,7) in \<open>simp_all add: relay_with_def bursting_def\<close>)
qed

lemma start_counts:
  assumes "relay_with p mi cells w" and "starting ctr mi"
  obtains w' mi' where "count_nonpadding e p w = Inr (w', ())" "relay_with p mi' cells w'" "starting ctr mi'"
proof -
  let ?mi = "scale_counts (nonpadding_sent mi + 1 = 0xFFFF) (mi\<lparr>nonpadding_sent := nonpadding_sent mi + 1\<rparr>)"
  have s: "starting ctr ?mi"
    using assms(2) by (simp add: starting_def scale_counts_def)
  then have "circpad_machine_count_nonpadding_sent now intro_relay mi = Inr ?mi" for now
    using intro_start_state [of ?mi] by (simp add: circpad_machine_count_nonpadding_sent_def Let_def circpad_machine_remove_token_def
        circpad_machine_update_state_length_for_nonpadding_def relay_ip_circ_start starting_def)
  then have "count_nonpadding e p w = Inr (w\<lparr>reads := Suc (reads w), runtimes := (runtimes w)(p \<mapsto> ?mi)\<rparr>, ())"
    using assms by (simp add: count_nonpadding_def act_simps relay_with_def starting_def)
  then show ?thesis
    by (rule that [OF _ _ s]) (use assms(1) in \<open>simp add: relay_with_def\<close>)
qed

lemma start_rtt_on_send:
  assumes "relay_with p mi cells w" and "starting ctr mi"
  obtains w' mi' where "circpad_estimate_circ_rtt_on_send e p w = Inr (w', ())" "relay_with p mi' cells w'" "starting ctr mi'"
proof (cases "circuit_open w")
  case True
  let ?mi = "mi\<lparr>stop_rtt_update := True\<rparr>"
  have "circpad_estimate_circ_rtt_on_send e p w = Inr (w\<lparr>runtimes := (runtimes w)(p \<mapsto> ?mi)\<rparr>, ())"
    using assms True by (simp add: circpad_estimate_circ_rtt_on_send_def act_simps relay_with_def plain_relay_def starting_def)
  then show ?thesis
    by (rule that [of _ ?mi]) (use assms in \<open>simp_all add: relay_with_def starting_def\<close>)
next
  case False
  have "circpad_estimate_circ_rtt_on_send e p w = Inr (w, ())"
    using assms False by (simp add: circpad_estimate_circ_rtt_on_send_def act_simps relay_with_def plain_relay_def starting_def)
  then show ?thesis
    using assms by (rule that)
qed

lemma intro_answer_noticed:
  assumes "plain_process e" and "sampled_lengths e" and "relay_with p mi cells w" and "starting ctr mi"
  obtains w' mi' N where "circpad_cell_event_nonpadding_sent e (pad_run e (Suc n)) w = Inr (w', ())"
    "relay_with p mi' cells w'" "bursting N 0 ctr mi'" "is_padding_timer_scheduled mi'"
    "INTRO_MACHINE_MINIMUM_PADDING \<le> N" "N \<le> INTRO_MACHINE_MAXIMUM_PADDING"
proof -
  let ?mi = "mi\<lparr>last_cell_time_sec := approx_time e\<rparr>"
  let ?wg = "w\<lparr>globals := (globals w)\<lparr>circpad_global_nonpadding_sent := circpad_global_nonpadding_sent (globals w) + 1\<rparr>\<rparr>"
  let ?w = "?wg\<lparr>runtimes := (runtimes w)(p \<mapsto> ?mi)\<rparr>"
  have "relay_with p ?mi cells ?w" "starting ctr ?mi"
    using assms(3,4) by (simp_all add: relay_with_def starting_def plain_relay_def CIRCUIT_IS_ORIGIN_def)
  then obtain w1 mi1 where w1: "circpad_estimate_circ_rtt_on_send e p ?w = Inr (w1, ())" "relay_with p mi1 cells w1" "starting ctr mi1"
    by (rule start_rtt_on_send)
  obtain w2 mi2 where w2: "count_nonpadding e p w1 = Inr (w2, ())" "relay_with p mi2 cells w2" "starting ctr mi2"
    by (rule start_counts [OF w1(2,3)])
  obtain w3 mi3 N where w3: "pad_run e (Suc n) (Transition p CIRCPAD_EVENT_NONPADDING_SENT) w2 = Inr (w3, CIRCPAD_STATE_CHANGED)"
    "relay_with p mi3 cells w3" "bursting N 0 ctr mi3" "is_padding_timer_scheduled mi3"
    "INTRO_MACHINE_MINIMUM_PADDING \<le> N" "N \<le> INTRO_MACHINE_MAXIMUM_PADDING"
    using intro_begins [OF assms(1,2) w2(2), where n = n] w2(3) by (auto simp: starting_def)
  have enough: "check_machine_token_supply (pad_run e (Suc n)) p w2 = Inr (w2, CIRCPAD_STATE_UNCHANGED)"
    using w2(2,3) start_ignores [OF w2(2,3) start_ignored(2), of e n]
    by (simp add: check_machine_token_supply_def act_simps relay_with_def starting_def finite_tokens_def circpad_decisions
        circpad_is_token_removal_supported_def circpad_internal_event_state_length_up_def)
  have "padding_info w = [Some p, None, None]" "runtimes w p = Some mi" "padding_info w1 = [Some p, None, None]"
    "padding_info w2 = [Some p, None, None]" "padding_info w3 = [Some p, None, None]"
    using assms(3) w1(2) w2(2) w3(2) by (simp_all add: relay_with_def)
  then have "circpad_cell_event_nonpadding_sent e (pad_run e (Suc n)) w = Inr (w3, ())"
    using w1(1) w2(1) w3(1) enough
    by (simp add: circpad_cell_event_nonpadding_sent_def on_nonpadding_sent_def act_simps)
  then show ?thesis
    using w3(2-6) by (rule that)
qed

lemma request_answered:
  assumes "plain_process e" and "sampled_lengths e" and "relay_with p mi cells w" and "starting ctr mi"
  obtains w' mi' N where "circpad_padding_negotiated (pad_run e (Suc (Suc n))) num CIRCPAD_COMMAND_START CIRCPAD_RESPONSE_OK c w = Inr (w', True)"
    "relay_with p mi' (cells @ [(RELAY_COMMAND_PADDING_NEGOTIATED, negotiated_payload CIRCPAD_COMMAND_START CIRCPAD_RESPONSE_OK num c, 0)]) w'"
    "bursting N 0 ctr mi'" "is_padding_timer_scheduled mi'" "INTRO_MACHINE_MINIMUM_PADDING \<le> N" "N \<le> INTRO_MACHINE_MAXIMUM_PADDING"
proof -
  let ?cell = "(RELAY_COMMAND_PADDING_NEGOTIATED, negotiated_payload CIRCPAD_COMMAND_START CIRCPAD_RESPONSE_OK num c, 0)"
  obtain w1 mi1 N where w1: "circpad_cell_event_nonpadding_sent e (pad_run e (Suc n)) w = Inr (w1, ())"
    "relay_with p mi1 cells w1" "bursting N 0 ctr mi1" "is_padding_timer_scheduled mi1"
    "INTRO_MACHINE_MINIMUM_PADDING \<le> N" "N \<le> INTRO_MACHINE_MAXIMUM_PADDING"
    by (rule intro_answer_noticed [OF assms])
  let ?w2 = "w1\<lparr>reads := Suc (reads w1), sent := sent w1 @ [?cell]\<rparr>"
  have "\<not> CIRCUIT_IS_ORIGIN w" "\<not> CIRCUIT_IS_ORIGIN w1"
    using assms(3) w1(2) by (simp_all add: relay_with_def plain_relay_def)
  moreover have "\<not> PAD_RELAY_PAYLOAD_SIZE < length (negotiated_payload CIRCPAD_COMMAND_START CIRCPAD_RESPONSE_OK num c)"
    by (simp add: not_less)
  ultimately have "pad_run e (Suc (Suc n)) (Relay_Send RELAY_COMMAND_PADDING_NEGOTIATED (negotiated_payload CIRCPAD_COMMAND_START CIRCPAD_RESPONSE_OK num c) 0) w = Inr (?w2, 0)"
    using assms(1) w1(1) by (simp add: pad_run.simps(2) [of e "Suc n"] relay_send_command_from_edge_def act_simps use_relay_early_def package_cell_def
        circpad_deliver_sent_relay_cell_events_def relay_commands plain_process_def)
  then have "circpad_padding_negotiated (pad_run e (Suc (Suc n))) num CIRCPAD_COMMAND_START CIRCPAD_RESPONSE_OK c w = Inr (?w2, True)"
    by (simp add: circpad_padding_negotiated_def negotiated_cell_encode is_command_def is_response_def act_simps)
  then show ?thesis
    by (rule that [OF _ _ w1(3-6)]) (use w1(2) in \<open>simp add: relay_with_def\<close>)
qed

section \<open>The relay\<close>

definition drop_cell :: "u8 \<times> u8 list \<times> nat" where
  "drop_cell = (RELAY_COMMAND_DROP, [], 0)"

definition started_cell :: "u32 \<Rightarrow> u8 \<times> u8 list \<times> nat" where
  "started_cell ctr = (RELAY_COMMAND_PADDING_NEGOTIATED, negotiated_payload CIRCPAD_COMMAND_START CIRCPAD_RESPONSE_OK 0 ctr, 0)"

definition builtin_machines :: "pad_env \<Rightarrow> bool" where
  "builtin_machines e \<longleftrightarrow> circpad_machines_init False (\<lambda>ms. ms) = Inr (origin_padding_machines e, relay_padding_machines e)"

lemma builtin_machines_eq:
  "builtin_machines e \<longleftrightarrow> origin_padding_machines e = [client_ip_circ\<lparr>machine_num := 0\<rparr>, client_rp_circ\<lparr>machine_num := 1\<rparr>] \<and>
    relay_padding_machines e = [intro_relay, relay_rp_circ\<lparr>machine_num := 1\<rparr>]"
  by (auto simp: builtin_machines_def machines_init_eq)

lemma parse_request:
  assumes "is_command command"
  obtains request where "circpad_negotiate_parse (negotiate_payload command num ctr @ rest) = Inr (request, 8)"
    "neg_command request = command" "neg_machine_type request = num" "neg_machine_ctr request = ctr"
proof -
  let ?r = "\<lparr>neg_version = 0, neg_command = command, neg_machine_type = num, neg_echo_request = 0, neg_machine_ctr = ctr, neg_error_code = False\<rparr>"
  have "circpad_negotiate_parse (negotiate_payload command num ctr @ rest) = Inr (?r, 8)"
    unfolding circpad_negotiate_parse_Inr
    using assms by (simp add: negotiate_payload_def circpad_negotiate_check_def) (rule exI [of _ "put_be 4 ctr"], simp)
  then show ?thesis
    by (rule that) simp_all
qed

lemma intro_started:
  assumes "plain_process e" and "sampled_lengths e" and "builtin_machines e" and "idle_relay cells w"
  obtains w' p mi N where "handle_event e (pad_run e (Suc (Suc n)))
      (Cell_Received RELAY_COMMAND_PADDING_NEGOTIATE from_hop (negotiate_payload CIRCPAD_COMMAND_START 0 ctr @ rest)) w = Inr (w', ())"
    "relay_with p mi (cells @ [started_cell ctr]) w'" "bursting N 0 (next_ctr (padding_machine_ctr w)) mi" "is_padding_timer_scheduled mi"
    "INTRO_MACHINE_MINIMUM_PADDING \<le> N" "N \<le> INTRO_MACHINE_MAXIMUM_PADDING"
proof -
  let ?pad_run = "pad_run e (Suc (Suc n))"
  have machine: "find (\<lambda>m. machine_num m = 0) (relay_padding_machines e) = Some intro_relay"
    using assms(3) by (simp add: builtin_machines_eq)
  have side: "\<not> CIRCUIT_IS_ORIGIN w"
    using assms(4) by (simp add: idle_relay_def plain_relay_def)
  obtain request where request: "circpad_negotiate_parse (negotiate_payload CIRCPAD_COMMAND_START 0 ctr @ rest) = Inr (request, 8)"
    "neg_command request = CIRCPAD_COMMAND_START" "neg_machine_type request = 0" "neg_machine_ctr request = ctr"
    by (rule parse_request [of CIRCPAD_COMMAND_START 0 ctr rest]) (simp_all add: is_command_def)
  obtain w1 mi1 where w1: "circpad_setup_machine_on_circ e intro_relay w = Inr (w1, ())" "relay_with (next_addr w) mi1 cells w1"
    "starting (next_ctr (padding_machine_ctr w)) mi1" "\<not> stop_rtt_update mi1"
    by (rule intro_set_up [OF assms(1,4)])
  obtain w2 mi2 where w2: "circpad_cell_event_nonpadding_received e ?pad_run w1 = Inr (w2, ())" "relay_with (next_addr w) mi2 cells w2"
    "starting (next_ctr (padding_machine_ctr w)) mi2"
    by (rule intro_request_noticed [OF w1(2-4)])
  obtain w3 mi3 N where w3: "circpad_padding_negotiated ?pad_run 0 CIRCPAD_COMMAND_START CIRCPAD_RESPONSE_OK ctr w2 = Inr (w3, True)"
    "relay_with (next_addr w) mi3 (cells @ [started_cell ctr]) w3" "bursting N 0 (next_ctr (padding_machine_ctr w)) mi3"
    "is_padding_timer_scheduled mi3" "INTRO_MACHINE_MINIMUM_PADDING \<le> N" "N \<le> INTRO_MACHINE_MAXIMUM_PADDING"
    unfolding started_cell_def by (rule request_answered [OF assms(1,2) w2(2,3), where n = n and num = 0 and c = ctr])
  have "handle_event e ?pad_run (Cell_Received RELAY_COMMAND_PADDING_NEGOTIATE from_hop (negotiate_payload CIRCPAD_COMMAND_START 0 ctr @ rest)) w =
      Inr (w3, ())"
    using w1(1) w2(1) w3(1) request machine side
    by (simp add: handle_event_def circpad_check_received_cell_def circpad_handle_padding_negotiate_def handle_start_def act_simps
        relay_commands circpad_codes)
  then show ?thesis
    using w3(2-6) by (rule that)
qed

lemma intro_relay_runs:
  assumes "plain_process e" and "sampled_lengths e" and "builtin_machines e" and "idle_relay cells w"
  shows "\<exists>N w'. INTRO_MACHINE_MINIMUM_PADDING \<le> N \<and> N \<le> INTRO_MACHINE_MAXIMUM_PADDING \<and>
    handle_events e (pad_run e (Suc (Suc n)))
      (Cell_Received RELAY_COMMAND_PADDING_NEGOTIATE from_hop (negotiate_payload CIRCPAD_COMMAND_START 0 ctr @ rest)
        # replicate N (Timer_Fired 0)) w = Inr (w', ()) \<and>
    idle_relay (cells @ [started_cell ctr] @ replicate N drop_cell @ [stop_cell (next_ctr (padding_machine_ctr w))]) w'"
proof -
  obtain w1 p mi N where w1: "handle_event e (pad_run e (Suc (Suc n)))
      (Cell_Received RELAY_COMMAND_PADDING_NEGOTIATE from_hop (negotiate_payload CIRCPAD_COMMAND_START 0 ctr @ rest)) w = Inr (w1, ())"
    "relay_with p mi (cells @ [started_cell ctr]) w1" "bursting N 0 (next_ctr (padding_machine_ctr w)) mi" "is_padding_timer_scheduled mi"
    and N: "INTRO_MACHINE_MINIMUM_PADDING \<le> N" "N \<le> INTRO_MACHINE_MAXIMUM_PADDING"
    by (rule intro_started [OF assms])
  moreover obtain k where k: "N = Suc k"
    using N by (cases N) (simp_all add: INTRO_MACHINE_MINIMUM_PADDING_def)
  ultimately show ?thesis
    using intro_bursts [OF assms(1) w1(2) w1(3) [unfolded k] w1(4), of n] N(2)
    by (intro exI [of _ N]) (auto simp: seq_def drop_cell_def INTRO_MACHINE_MAXIMUM_PADDING_def)
qed

end
