(* ===== verification/Circpad_Exchange.thy ===== *)
theory Circpad_Exchange
  imports Circpad_Intro
begin

text \<open>
  The client of an introduction circuit, from the change of purpose that adds the built-in machine to the answer that ends it, and the
  whole exchange between client and relay, put together from the runs of both sides.
\<close>

section \<open>The machine of the client\<close>

abbreviation intro_client :: circpad_machine_spec where
  "intro_client \<equiv> client_ip_circ\<lparr>machine_num := 0\<rparr>"

abbreviation rend_client :: circpad_machine_spec where
  "rend_client \<equiv> client_rp_circ\<lparr>machine_num := 1\<rparr>"

lemma client_ip_circ_fields [simp]:
  "machine_index client_ip_circ = 0" "is_origin_side client_ip_circ" "target_hopnum client_ip_circ = 2"
  "allowed_padding_count client_ip_circ = 10" "max_padding_percent client_ip_circ = 1" "length (states client_ip_circ) = 2"
  "machine_index client_rp_circ = 0"
  by code_simp+

lemma client_ip_circ_start:
  "next_state (states client_ip_circ ! 0) = [CIRCPAD_STATE_IGNORE, 1, CIRCPAD_STATE_IGNORE, CIRCPAD_STATE_IGNORE,
     CIRCPAD_STATE_IGNORE, CIRCPAD_STATE_IGNORE, CIRCPAD_STATE_IGNORE]"
  "token_removal (states client_ip_circ ! 0) = CIRCPAD_TOKEN_REMOVAL_NONE" "\<not> length_includes_nonpadding (states client_ip_circ ! 0)"
  by code_simp+

lemma client_ip_circ_burst:
  "next_state (states client_ip_circ ! 1) = replicate 7 CIRCPAD_STATE_IGNORE"
  "token_removal (states client_ip_circ ! 1) = CIRCPAD_TOKEN_REMOVAL_NONE"
  "dist_type (iat_dist (states client_ip_circ ! 1)) = CIRCPAD_DIST_NONE"
  "dist_type (length_dist (states client_ip_circ ! 1)) = CIRCPAD_DIST_NONE"
  "histogram_total_tokens (states client_ip_circ ! 1) = 0"
  by code_simp+

lemma client_conditions:
  "circpad_circ_purpose_to_mask CIRCUIT_PURPOSE_C_INTRODUCE_ACK_WAIT = Inr 4"
  "apply_purpose_mask (conditions client_ip_circ) = 4" "apply_purpose_mask (conditions client_rp_circ) = 0xE0"
  "apply_state_mask (conditions client_ip_circ) = 2" "min_hops (conditions client_ip_circ) = 0"
  "\<not> requires_vanguards (conditions client_ip_circ)"
  by code_simp+

section \<open>The client at hand\<close>

text \<open>
  An open circuit of the client with padding allowed, whose second hop supports it. It may have any number of RELAY_EARLY cells left:
  the conditions of the machine for introduction circuits do not mention them.
\<close>

definition plain_client :: "pad_env \<Rightarrow> pad_world \<Rightarrow> bool" where
  "plain_client e w \<longleftrightarrow> \<not> opt_ReducedCircuitPadding e \<and> CIRCUIT_IS_ORIGIN w \<and> \<not> circpad_padding_disabled (globals w) \<and>
     \<not> circpad_padding_reduced (globals w) \<and> circpad_global_max_padding_percent (globals w) = 0 \<and> has_opened w \<and>
     \<not> padding_negotiation_failed w \<and>
     (\<exists>h. circuit_get_cpath_hop (cpath w) 2 = Some h \<and> hop_open h \<and> hop_supports_padding h)"

definition client_with :: "pad_env \<Rightarrow> nat \<Rightarrow> circpad_machine_runtime \<Rightarrow> (u8 \<times> u8 list \<times> nat) list \<Rightarrow> pad_world \<Rightarrow> bool" where
  "client_with e p mi cells w \<longleftrightarrow> plain_client e w \<and> padding_machine w = [Some intro_client, None, None] \<and>
     padding_info w = [Some p, None, None] \<and> runtimes w p = Some mi \<and> sent w = cells \<and>
     purpose w = CIRCUIT_PURPOSE_C_INTRODUCE_ACK_WAIT"

definition idle_client :: "pad_env \<Rightarrow> (u8 \<times> u8 list \<times> nat) list \<Rightarrow> pad_world \<Rightarrow> bool" where
  "idle_client e cells w \<longleftrightarrow> plain_client e w \<and> padding_machine w = [None, None, None] \<and> padding_info w = [None, None, None] \<and> sent w = cells"

lemma plain_client_upd [simp]:
  "plain_client e (w\<lparr>reads := a\<rparr>) = plain_client e w" "plain_client e (w\<lparr>runtimes := r\<rparr>) = plain_client e w"
  "plain_client e (w\<lparr>sent := s\<rparr>) = plain_client e w" "plain_client e (w\<lparr>padding_info := i\<rparr>) = plain_client e w"
  "plain_client e (w\<lparr>padding_machine := m\<rparr>) = plain_client e w" "plain_client e (w\<lparr>next_addr := n\<rparr>) = plain_client e w"
  "plain_client e (w\<lparr>padding_machine_ctr := t\<rparr>) = plain_client e w"
  "plain_client e (w\<lparr>remaining_relay_early_cells := k\<rparr>) = plain_client e w"
  "plain_client e (w\<lparr>globals := (globals w)\<lparr>circpad_global_nonpadding_sent := y\<rparr>\<rparr>) = plain_client e w"
  by (simp_all add: plain_client_def CIRCUIT_IS_ORIGIN_def)

definition client_waits :: "nat \<Rightarrow> u32 \<Rightarrow> circpad_machine_runtime \<Rightarrow> bool" where
  "client_waits s ctr mi \<longleftrightarrow> mi_index mi = 0 \<and> current_state mi = of_nat s \<and> s < 2 \<and> mi_histogram mi = None \<and> padding_sent mi = 0 \<and>
     machine_ctr mi = ctr \<and> state_length mi \<in> {0, CIRCPAD_STATE_LENGTH_INFINITE}"

lemma client_state:
  assumes "client_waits s ctr mi"
  shows "circpad_machine_current_state intro_client mi = Some (states client_ip_circ ! s)"
proof -
  have "s = 0 \<or> s = 1"
    using assms by (auto simp: client_waits_def)
  then show ?thesis
    using assms by (auto simp: circpad_machine_current_state_def CIRCPAD_STATE_END_def client_waits_def)
qed

lemma client_ignores:
  assumes "client_with e p mi cells w" and "client_waits s ctr mi"
    and "at_index (next_state (states client_ip_circ ! s)) ev = Inr CIRCPAD_STATE_IGNORE"
  shows "pad_run e (Suc n) (Transition p ev) w = Inr (w, CIRCPAD_STATE_UNCHANGED)"
  using assms client_state [OF assms(2)]
  by (simp add: pad_run.simps circpad_machine_spec_transition_def with_machine_def seq_def get_runtime_def return_val_def check_def
      CIRCPAD_GET_MACHINE_def client_with_def client_waits_def at_index_def [of "[Some intro_client, None, None]"])

lemma client_ignored:
  "at_index (next_state (states client_ip_circ ! 1)) CIRCPAD_EVENT_NONPADDING_RECV = Inr CIRCPAD_STATE_IGNORE"
  "at_index (next_state (states client_ip_circ ! 1)) CIRCPAD_EVENT_PADDING_RECV = Inr CIRCPAD_STATE_IGNORE"
  "at_index (next_state (states client_ip_circ ! 1)) CIRCPAD_EVENT_INFINITY = Inr CIRCPAD_STATE_IGNORE"
  "at_index (next_state (states client_ip_circ ! 0)) CIRCPAD_EVENT_LENGTH_COUNT = Inr CIRCPAD_STATE_IGNORE"
  by (simp_all only: client_ip_circ_burst client_ip_circ_start, simp_all add: at_index_def circpad_events)

text \<open>After the first cell the machine waits in its second state, with no timer.\<close>

lemma client_begins:
  assumes "plain_process e" and "client_with e p mi cells w" and "client_waits 0 ctr mi"
  obtains w' mi' where "pad_run e (Suc (Suc n)) (Transition p CIRCPAD_EVENT_NONPADDING_SENT) w = Inr (w', CIRCPAD_STATE_CHANGED)"
    "client_with e p mi' cells w'" "client_waits 1 ctr mi'"
proof -
  let ?mib = "mi\<lparr>current_state := 1\<rparr>"
  let ?mi = "?mib\<lparr>state_length := CIRCPAD_STATE_LENGTH_INFINITE\<rparr>"
  let ?mi1 = "?mi\<lparr>is_padding_timer_scheduled := False, padding_scheduled_at_usec := 1\<rparr>"
  let ?wb = "w\<lparr>runtimes := (runtimes w)(p \<mapsto> ?mib)\<rparr>"
  let ?w = "w\<lparr>runtimes := (runtimes w)(p \<mapsto> ?mi)\<rparr>"
  let ?w1 = "w\<lparr>reads := Suc (reads w), runtimes := (runtimes w)(p \<mapsto> ?mi1)\<rparr>"
  have c: "client_with e p ?mi cells ?w" "client_waits 1 ctr ?mi" "client_with e p ?mi1 cells ?w1" "client_waits 1 ctr ?mi1"
    "client_with e p ?mib cells ?wb" "client_waits 1 ctr ?mib"
    using assms(2,3) by (simp_all add: client_with_def client_waits_def)
  note burst = client_ip_circ_burst client_ip_circ_burst [simplified]
  have "setup_tokens p ?wb = Inr (?wb, ())"
    using c(5,6) client_state [OF c(6)] burst by (simp add: setup_tokens_def act_simps client_with_def client_waits_def circpad_machine_setup_tokens_def)
  moreover have "circpad_choose_state_length e p ?wb = Inr (?w, ())"
    using c(5,6) client_state [OF c(6)] burst by (simp add: circpad_choose_state_length_def act_simps client_with_def client_waits_def)
  moreover have "choose_delay e p ?w = Inr (?w1, CIRCPAD_DELAY_INFINITE)"
    using c(1,2) client_state [of 1 ctr "?mi\<lparr>is_padding_timer_scheduled := False\<rparr>"] burst
    by (simp add: choose_delay_def act_simps client_with_def client_waits_def circpad_machine_sample_delay_def token_source_def
        circpad_is_token_removal_supported_def)
  moreover have "circpad_machine_reached_padding_limit (globals w) intro_client ?mi = Inr False"
    using c(1,2) by (simp add: circpad_machine_reached_padding_limit_def client_with_def client_waits_def plain_client_def)
  moreover note client_ignores [OF c(3,4) client_ignored(3), of n]
  ultimately have "enter_state e (pad_run e (Suc n)) p 1 w = Inr (?w1, CIRCPAD_STATE_CHANGED)"
    using assms(1-3) by (simp add: enter_state_def act_simps client_with_def client_waits_def circpad_machine_schedule_padding_def
        circpad_is_padding_allowed_def plain_client_def plain_process_def schedule_delay_def circpad_internal_event_infinity_def)
  moreover have "pad_run e (Suc (Suc n)) (Transition p CIRCPAD_EVENT_NONPADDING_SENT) w = enter_state e (pad_run e (Suc n)) p 1 w"
    using assms(2,3) client_state [OF assms(3)] by (simp add: pad_run.simps(2) [of e "Suc n"] circpad_machine_spec_transition_def act_simps
        client_with_def client_waits_def client_ip_circ_start CIRCPAD_EVENT_NONPADDING_SENT_def)
  ultimately show ?thesis
    by (intro that [of ?w1 ?mi1] c) simp
qed

section \<open>The request\<close>

lemma client_counts:
  assumes "client_with e p mi cells w" and "client_waits 0 ctr mi"
  obtains w' mi' where "count_nonpadding e p w = Inr (w', ())" "client_with e p mi' cells w'" "client_waits 0 ctr mi'"
proof -
  let ?mi = "scale_counts (nonpadding_sent mi + 1 = 0xFFFF) (mi\<lparr>nonpadding_sent := nonpadding_sent mi + 1\<rparr>)"
  have s: "client_waits 0 ctr ?mi"
    using assms(2) by (simp add: client_waits_def scale_counts_def)
  then have "circpad_machine_count_nonpadding_sent now intro_client mi = Inr ?mi" for now
    using client_state [OF s] by (simp add: circpad_machine_count_nonpadding_sent_def Let_def circpad_machine_remove_token_def
        circpad_machine_update_state_length_for_nonpadding_def client_ip_circ_start)
  then have "count_nonpadding e p w = Inr (w\<lparr>reads := Suc (reads w), runtimes := (runtimes w)(p \<mapsto> ?mi)\<rparr>, ())"
    using assms by (simp add: count_nonpadding_def act_simps client_with_def client_waits_def)
  then show ?thesis
    by (rule that [OF _ _ s]) (use assms(1) in \<open>simp add: client_with_def\<close>)
qed

lemma client_notices_request:
  assumes "plain_process e" and "client_with e p mi cells w" and "client_waits 0 ctr mi"
  obtains w' mi' where "circpad_cell_event_nonpadding_sent e (pad_run e (Suc (Suc n))) w = Inr (w', ())"
    "client_with e p mi' cells w'" "client_waits 1 ctr mi'"
proof -
  let ?mi = "mi\<lparr>last_cell_time_sec := approx_time e\<rparr>"
  let ?wg = "w\<lparr>globals := (globals w)\<lparr>circpad_global_nonpadding_sent := circpad_global_nonpadding_sent (globals w) + 1\<rparr>\<rparr>"
  let ?w = "?wg\<lparr>runtimes := (runtimes w)(p \<mapsto> ?mi)\<rparr>"
  let ?pad_run = "pad_run e (Suc (Suc n))"
  have c: "client_with e p ?mi cells ?w" "client_waits 0 ctr ?mi"
    using assms(2,3) by (simp_all add: client_with_def client_waits_def)
  have rtt: "circpad_estimate_circ_rtt_on_send e p ?w = Inr (?w, ())"
    using c(1) by (simp add: circpad_estimate_circ_rtt_on_send_def act_simps client_with_def plain_client_def)
  obtain w2 mi2 where w2: "count_nonpadding e p ?w = Inr (w2, ())" "client_with e p mi2 cells w2" "client_waits 0 ctr mi2"
    by (rule client_counts [OF c])
  obtain w3 mi3 where w3: "?pad_run (Transition p CIRCPAD_EVENT_NONPADDING_SENT) w2 = Inr (w3, CIRCPAD_STATE_CHANGED)"
    "client_with e p mi3 cells w3" "client_waits 1 ctr mi3"
    by (rule client_begins [OF assms(1) w2(2,3)])
  have enough: "check_machine_token_supply ?pad_run p w2 = Inr (w2, CIRCPAD_STATE_UNCHANGED)"
    using w2(2,3) client_ignores [OF w2(2,3) client_ignored(4), of "Suc n"]
    by (auto simp: check_machine_token_supply_def act_simps client_with_def client_waits_def finite_tokens_def circpad_decisions
        circpad_is_token_removal_supported_def circpad_internal_event_state_length_up_def CIRCPAD_STATE_LENGTH_INFINITE_def)
  have "padding_info w = [Some p, None, None]" "runtimes w p = Some mi" "padding_info w2 = [Some p, None, None]"
    "padding_info w3 = [Some p, None, None]"
    using assms(2) w2(2) w3(2) by (simp_all add: client_with_def)
  then have "circpad_cell_event_nonpadding_sent e ?pad_run w = Inr (w3, ())"
    using rtt w2(1) w3(1) enough by (simp add: circpad_cell_event_nonpadding_sent_def on_nonpadding_sent_def act_simps)
  then show ?thesis
    using w3(2,3) by (rule that)
qed

definition request_cell :: "u32 \<Rightarrow> u8 \<times> u8 list \<times> nat" where
  "request_cell ctr = (RELAY_COMMAND_PADDING_NEGOTIATE, negotiate_payload CIRCPAD_COMMAND_START 0 ctr, 2)"

lemma client_applies:
  assumes "plain_process e" and "plain_client e w" and "purpose w = CIRCUIT_PURPOSE_C_INTRODUCE_ACK_WAIT"
  shows "circpad_machine_conditions_apply e intro_client w = Inr True" and "circpad_machine_conditions_apply e rend_client w = Inr False"
proof -
  have "circpad_circuit_state w AND 2 \<noteq> 0"
    using assms(2) by (simp add: circpad_circuit_state_def plain_client_def)
  then show "circpad_machine_conditions_apply e intro_client w = Inr True"
    using assms by (simp add: circpad_machine_conditions_apply_def client_conditions plain_process_def plain_client_def)
  show "circpad_machine_conditions_apply e rend_client w = Inr False"
    using assms by (simp add: circpad_machine_conditions_apply_def client_conditions plain_process_def plain_client_def Let_def)
qed

text \<open>Using up a RELAY_EARLY cell, even the last one, leaves the machine of the client alone.\<close>

lemma client_uses_early:
  assumes "plain_process e" and "builtin_machines e" and "client_with e p mi cells w"
  obtains k where "use_relay_early e self command 2 w = Inr (w\<lparr>remaining_relay_early_cells := k\<rparr>, ())"
proof -
  let ?w = "w\<lparr>remaining_relay_early_cells := 0\<rparr>"
  have w: "client_with e p mi cells ?w"
    using assms(3) by (simp add: client_with_def)
  have "circpad_shutdown_old_machines e self ?w = Inr (?w, ())"
    using w client_applies(1) [OF assms(1), of ?w]
    by (simp add: circpad_shutdown_old_machines_def shutdown_slot_def act_simps client_with_def)
  moreover have "circpad_add_matching_machines e self (origin_padding_machines e) ?w = Inr (?w, ())"
    using w assms(2) by (simp add: circpad_add_matching_machines_def try_machine_def act_simps builtin_machines_eq client_with_def plain_client_def)
  ultimately have event: "circpad_machine_event_circ_has_no_relay_early e self ?w = Inr (?w, ())"
    by (simp add: circpad_machine_event_circ_has_no_relay_early_def shutdown_and_add_def seq_def)
  have origin: "CIRCUIT_IS_ORIGIN w"
    using assms(3) by (simp add: client_with_def plain_client_def)
  show ?thesis
  proof (cases "remaining_relay_early_cells w = 0")
    case True
    then have "use_relay_early e self command 2 w = Inr (w\<lparr>remaining_relay_early_cells := remaining_relay_early_cells w\<rparr>, ())"
      by (simp add: use_relay_early_def act_simps)
    then show ?thesis
      by (rule that)
  next
    case False
    then have "use_relay_early e self command 2 w = Inr (w\<lparr>remaining_relay_early_cells := remaining_relay_early_cells w - 1\<rparr>, ())"
      using event origin by (auto simp: use_relay_early_def act_simps)
    then show ?thesis
      by (rule that)
  qed
qed

lemma client_requests:
  assumes "plain_process e" and "builtin_machines e" and "client_with e p mi cells w" and "client_waits 0 ctr mi"
  obtains w' mi' where "circpad_negotiate_padding (pad_run e (Suc (Suc (Suc n)))) 0 2 CIRCPAD_COMMAND_START c w = Inr (w', 0)"
    "client_with e p mi' (cells @ [request_cell c]) w'" "client_waits 1 ctr mi'"
proof -
  obtain w1 mi1 where w1: "circpad_cell_event_nonpadding_sent e (pad_run e (Suc (Suc n))) w = Inr (w1, ())"
    "client_with e p mi1 cells w1" "client_waits 1 ctr mi1"
    by (rule client_notices_request [OF assms(1,3,4)])
  obtain k where early: "use_relay_early e (pad_run e (Suc (Suc n))) RELAY_COMMAND_PADDING_NEGOTIATE 2 w1 =
      Inr (w1\<lparr>remaining_relay_early_cells := k\<rparr>, ())"
    by (rule client_uses_early [OF assms(1,2) w1(2)])
  let ?w2 = "w1\<lparr>remaining_relay_early_cells := k, reads := Suc (reads w1), sent := sent w1 @ [request_cell c]\<rparr>"
  obtain h where w: "CIRCUIT_IS_ORIGIN w" "circuit_get_cpath_hop (cpath w) 2 = Some h" "hop_open h" "hop_supports_padding h"
    using assms(3) by (auto simp: client_with_def plain_client_def)
  have "\<not> PAD_RELAY_PAYLOAD_SIZE < length (negotiate_payload CIRCPAD_COMMAND_START 0 c)"
    by (simp add: not_less)
  then have "pad_run e (Suc (Suc (Suc n))) (Relay_Send RELAY_COMMAND_PADDING_NEGOTIATE (negotiate_payload CIRCPAD_COMMAND_START 0 c) 2) w = Inr (?w2, 0)"
    using assms(1) w1(1) w early by (simp add: pad_run.simps(2) [of e "Suc (Suc n)"] relay_send_command_from_edge_def act_simps
        package_cell_def circpad_deliver_sent_relay_cell_events_def relay_commands plain_process_def request_cell_def)
  then have "circpad_negotiate_padding (pad_run e (Suc (Suc (Suc n)))) 0 2 CIRCPAD_COMMAND_START c w = Inr (?w2, 0)"
    using w by (simp add: circpad_negotiate_padding_def negotiate_cell_encode is_command_def act_simps circpad_circuit_supports_padding_def
        circpad_send_command_to_hop_def)
  then show ?thesis
    by (rule that [OF _ _ w1(3)]) (use w1(2) in \<open>simp add: client_with_def\<close>)
qed

lemma client_set_up:
  assumes "plain_process e" and "idle_client e cells w" and "purpose w = CIRCUIT_PURPOSE_C_INTRODUCE_ACK_WAIT"
  obtains w' mi where "circpad_setup_machine_on_circ e intro_client w = Inr (w', ())" "client_with e (next_addr w) mi cells w'"
    "client_waits 0 (next_ctr (padding_machine_ctr w)) mi" "padding_machine_ctr w' = next_ctr (padding_machine_ctr w)"
proof -
  let ?mi = "new_runtime e 0 (next_ctr (padding_machine_ctr w))"
  let ?w = "w\<lparr>padding_machine_ctr := next_ctr (padding_machine_ctr w), runtimes := (runtimes w)(next_addr w \<mapsto> ?mi),
    next_addr := Suc (next_addr w), padding_info := [Some (next_addr w), None, None], padding_machine := [Some intro_client, None, None]\<rparr>"
  have "circpad_setup_machine_on_circ e intro_client w = Inr (?w, ())"
    using assms by (simp add: circpad_setup_machine_on_circ_def act_simps idle_client_def plain_process_def plain_client_def
        circpad_circuit_machineinfo_new_def next_ctr_def)
  then show ?thesis
    by (rule that [of ?w ?mi]) (use assms(2,3) in \<open>simp_all add: client_with_def idle_client_def client_waits_def new_runtime_def\<close>)
qed

lemma client_adds:
  assumes "plain_process e" and "builtin_machines e" and "idle_client e cells w" and "purpose w = CIRCUIT_PURPOSE_C_INTRODUCE_ACK_WAIT"
  obtains w' p mi where "circpad_add_matching_machines e (pad_run e (Suc (Suc (Suc n)))) (origin_padding_machines e) w = Inr (w', ())"
    "client_with e p mi (cells @ [request_cell (next_ctr (padding_machine_ctr w))]) w'" "client_waits 1 (next_ctr (padding_machine_ctr w)) mi"
proof -
  let ?pad_run = "pad_run e (Suc (Suc (Suc n)))" and ?ctr = "next_ctr (padding_machine_ctr w)"
  have idle: "plain_client e w" "padding_machine w = [None, None, None]" "padding_info w = [None, None, None]"
    using assms(3) by (simp_all add: idle_client_def)
  obtain w1 mi1 where w1: "circpad_setup_machine_on_circ e intro_client w = Inr (w1, ())" "client_with e (next_addr w) mi1 cells w1"
    "client_waits 0 ?ctr mi1" "padding_machine_ctr w1 = ?ctr"
    by (rule client_set_up [OF assms(1,3,4)])
  obtain w2 mi2 where w2: "circpad_negotiate_padding ?pad_run 0 2 CIRCPAD_COMMAND_START ?ctr w1 = Inr (w2, 0)"
    "client_with e (next_addr w) mi2 (cells @ [request_cell ?ctr]) w2" "client_waits 1 ?ctr mi2"
    by (rule client_requests [OF assms(1,2) w1(2,3)])
  have clear: "clear_machine 0 w = Inr (w, ())"
    using idle by (simp add: clear_machine_def act_simps)
  have "try_machine e ?pad_run 0 rend_client w = Inr (w, False)"
    using client_applies(2) [OF assms(1) idle(1) assms(4)] by (simp add: try_machine_def act_simps)
  moreover have "try_machine e ?pad_run 0 intro_client w = Inr (w2, True)"
    using client_applies(1) [OF assms(1) idle(1) assms(4)] clear idle w1(1,4) w2(1)
    by (simp add: try_machine_def act_simps)
  moreover have "try_machine e ?pad_run i m w2 = Inr (w2, False)" if "i \<noteq> 0" "machine_index m = 0" for i m
    using that by (simp add: try_machine_def act_simps)
  moreover have "\<not> padding_negotiation_failed w" "padding_info w2 = [Some (next_addr w), None, None]"
    using idle(1) w2(2) by (simp_all add: plain_client_def client_with_def)
  ultimately have "circpad_add_matching_machines e ?pad_run (origin_padding_machines e) w = Inr (w2, ())"
    using assms(2) idle by (simp add: circpad_add_matching_machines_def act_simps builtin_machines_eq)
  then show ?thesis
    using w2(2,3) by (rule that)
qed

lemma client_starts:
  assumes "plain_process e" and "builtin_machines e" and "idle_client e cells w" and "purpose w = CIRCUIT_PURPOSE_C_INTRODUCING"
  obtains w' p mi where "handle_event e (pad_run e (Suc (Suc (Suc n)))) (Purpose_Changed CIRCUIT_PURPOSE_C_INTRODUCE_ACK_WAIT) w = Inr (w', ())"
    "client_with e p mi (cells @ [request_cell (next_ctr (padding_machine_ctr w))]) w'" "client_waits 1 (next_ctr (padding_machine_ctr w)) mi"
proof -
  let ?w = "w\<lparr>purpose := CIRCUIT_PURPOSE_C_INTRODUCE_ACK_WAIT\<rparr>"
  have idle: "idle_client e cells ?w" "CIRCUIT_IS_ORIGIN w" "padding_info w = [None, None, None]"
    using assms(3) by (auto simp: idle_client_def plain_client_def CIRCUIT_IS_ORIGIN_def circuit_purposes CIRCUIT_PURPOSE_OR_MAX_def)
  have ctr: "padding_machine_ctr ?w = padding_machine_ctr w" "purpose ?w = CIRCUIT_PURPOSE_C_INTRODUCE_ACK_WAIT"
    by simp_all
  obtain w' p mi where w': "circpad_add_matching_machines e (pad_run e (Suc (Suc (Suc n)))) (origin_padding_machines e) ?w = Inr (w', ())"
    "client_with e p mi (cells @ [request_cell (next_ctr (padding_machine_ctr w))]) w'" "client_waits 1 (next_ctr (padding_machine_ctr w)) mi"
    by (rule client_adds [OF assms(1,2) idle(1) ctr(2), unfolded ctr(1)])
  have "handle_event e (pad_run e (Suc (Suc (Suc n)))) (Purpose_Changed CIRCUIT_PURPOSE_C_INTRODUCE_ACK_WAIT) w = Inr (w', ())"
    using w'(1) idle(2,3) assms(4)
    by (simp add: handle_event_def circuit_change_purpose_def act_simps circuit_purposes CIRCUIT_PURPOSE_OR_MAX_def
        circpad_machine_event_circ_purpose_changed_def shutdown_and_add_def circpad_shutdown_old_machines_def)
  then show ?thesis
    using w'(2,3) by (rule that)
qed

section \<open>The answers\<close>

text \<open>
  A cell that arrives from a hop is first reported to the machines and then handled; \<open>fill\<close> is what follows the message in
  the fixed size of a cell.
\<close>

definition deliver_cell :: "(u8 list \<Rightarrow> u8 list) \<Rightarrow> nat option \<Rightarrow> u8 \<times> u8 list \<times> nat \<Rightarrow> pad_event list" where
  "deliver_cell fill from_hop cell = (case cell of (command, payload, _) \<Rightarrow>
     [Cell_Recognized command from_hop, Cell_Received command from_hop (payload @ fill payload)])"

lemma parse_answer:
  assumes "is_command command" and "is_response response"
  obtains answer where "circpad_negotiated_parse (negotiated_payload command response num ctr @ rest) = Inr (answer, 8)"
    "ngd_command answer = command" "ngd_response answer = response" "ngd_machine_type answer = num" "ngd_machine_ctr answer = ctr"
proof -
  let ?r = "\<lparr>ngd_version = 0, ngd_command = command, ngd_response = response, ngd_machine_type = num, ngd_machine_ctr = ctr,
    ngd_error_code = False\<rparr>"
  have "circpad_negotiated_parse (negotiated_payload command response num ctr @ rest) = Inr (?r, 8)"
    unfolding circpad_negotiated_parse_Inr
    using assms by (simp add: negotiated_payload_def circpad_negotiated_check_def) (rule exI [of _ "put_be 4 ctr"], simp)
  then show ?thesis
    by (rule that) simp_all
qed

lemma from_second_hop:
  assumes "client_with e p mi cells w"
  shows "circpad_padding_is_from_expected_hop w (Some 2)"
  using assms by (auto simp: circpad_padding_is_from_expected_hop_def client_with_def plain_client_def hop_ref_def)

lemma client_notices_padding:
  assumes "client_with e p mi cells w" and "client_waits 1 ctr mi"
  obtains w' mi' where "handle_event e (pad_run e (Suc n)) (Cell_Recognized RELAY_COMMAND_DROP (Some 2)) w = Inr (w', ())"
    "client_with e p mi' cells w'" "client_waits 1 ctr mi'"
proof -
  let ?mi = "mi\<lparr>last_cell_time_sec := approx_time e\<rparr>"
  let ?w = "w\<lparr>runtimes := (runtimes w)(p \<mapsto> ?mi)\<rparr>"
  have c: "client_with e p ?mi cells ?w" "client_waits 1 ctr ?mi"
    using assms by (simp_all add: client_with_def client_waits_def)
  have "padding_info w = [Some p, None, None]" "runtimes w p = Some mi"
    using assms(1) by (simp_all add: client_with_def)
  then have "handle_event e (pad_run e (Suc n)) (Cell_Recognized RELAY_COMMAND_DROP (Some 2)) w = Inr (?w, ())"
    using from_second_hop [OF assms(1)] client_ignores [OF c client_ignored(2), of n]
    by (simp add: handle_event_def circpad_deliver_recognized_relay_cell_events_def circpad_cell_event_padding_received_def
        on_padding_received_def act_simps)
  then show ?thesis
    using c by (rule that)
qed

lemma client_notices_answer:
  assumes "client_with e p mi cells w" and "client_waits 1 ctr mi"
  obtains w' mi' where "handle_event e (pad_run e (Suc n)) (Cell_Recognized RELAY_COMMAND_PADDING_NEGOTIATED (Some 2)) w = Inr (w', ())"
    "client_with e p mi' cells w'" "client_waits 1 ctr mi'"
proof -
  let ?mi = "mi\<lparr>last_cell_time_sec := approx_time e\<rparr>"
  let ?w = "w\<lparr>runtimes := (runtimes w)(p \<mapsto> ?mi)\<rparr>"
  have c: "client_with e p ?mi cells ?w" "client_waits 1 ctr ?mi"
    using assms by (simp_all add: client_with_def client_waits_def)
  have "padding_info w = [Some p, None, None]" "runtimes w p = Some mi"
    using assms(1) by (simp_all add: client_with_def)
  moreover have "circpad_estimate_circ_rtt_on_received e p ?w = Inr (?w, ())"
    using c(1) by (simp add: circpad_estimate_circ_rtt_on_received_def act_simps client_with_def plain_client_def)
  ultimately have "handle_event e (pad_run e (Suc n)) (Cell_Recognized RELAY_COMMAND_PADDING_NEGOTIATED (Some 2)) w = Inr (?w, ())"
    using client_ignores [OF c client_ignored(1), of n]
    by (simp add: handle_event_def circpad_deliver_recognized_relay_cell_events_def circpad_cell_event_nonpadding_received_def
        on_nonpadding_received_def act_simps relay_commands)
  then show ?thesis
    using c by (rule that)
qed

lemma client_takes_padding:
  assumes "client_with e p mi cells w" and "client_waits 1 ctr mi"
  obtains w' mi' where "handle_events e (pad_run e (Suc n)) (deliver_cell fill (Some 2) drop_cell) w = Inr (w', ())"
    "client_with e p mi' cells w'" "client_waits 1 ctr mi'"
proof -
  obtain w' mi' where w': "handle_event e (pad_run e (Suc n)) (Cell_Recognized RELAY_COMMAND_DROP (Some 2)) w = Inr (w', ())"
    "client_with e p mi' cells w'" "client_waits 1 ctr mi'"
    by (rule client_notices_padding [OF assms])
  moreover have "handle_event e (pad_run e (Suc n)) (Cell_Received RELAY_COMMAND_DROP (Some 2) x) w' = Inr (w', ())" for x
    by (simp add: handle_event_def circpad_check_received_cell_def act_simps)
  ultimately show ?thesis
    by (intro that) (simp_all add: deliver_cell_def drop_cell_def seq_def return_val_def)
qed

lemma client_takes_answer:
  assumes "client_with e p mi cells w" and "client_waits 1 ctr mi"
  obtains w' mi' where "handle_events e (pad_run e (Suc n)) (deliver_cell fill (Some 2) (started_cell c)) w = Inr (w', ())"
    "client_with e p mi' cells w'" "client_waits 1 ctr mi'"
proof -
  let ?payload = "negotiated_payload CIRCPAD_COMMAND_START CIRCPAD_RESPONSE_OK 0 c"
  obtain w' mi' where w': "handle_event e (pad_run e (Suc n)) (Cell_Recognized RELAY_COMMAND_PADDING_NEGOTIATED (Some 2)) w = Inr (w', ())"
    "client_with e p mi' cells w'" "client_waits 1 ctr mi'"
    by (rule client_notices_answer [OF assms])
  obtain answer where "circpad_negotiated_parse (?payload @ fill ?payload) = Inr (answer, 8)"
    "ngd_command answer = CIRCPAD_COMMAND_START" "ngd_response answer = CIRCPAD_RESPONSE_OK"
    by (rule parse_answer [of CIRCPAD_COMMAND_START CIRCPAD_RESPONSE_OK]) (simp_all add: is_command_def is_response_def)
  then have "handle_event e (pad_run e (Suc n)) (Cell_Received RELAY_COMMAND_PADDING_NEGOTIATED (Some 2) (?payload @ fill ?payload)) w' = Inr (w', ())"
    using from_second_hop [OF w'(2)] w'(2)
    by (simp add: handle_event_def circpad_check_received_cell_def circpad_handle_padding_negotiated_def act_simps relay_commands circpad_codes
        client_with_def plain_client_def)
  then show ?thesis
    using w' by (intro that) (simp_all add: deliver_cell_def started_cell_def seq_def return_val_def)
qed

lemma client_takes_stop:
  assumes "client_with e p mi cells w" and "client_waits 1 ctr mi"
  obtains w' where "handle_events e (pad_run e (Suc n)) (deliver_cell fill (Some 2) (stop_cell ctr)) w = Inr (w', ())" "idle_client e cells w'"
proof -
  let ?payload = "negotiated_payload CIRCPAD_COMMAND_STOP CIRCPAD_RESPONSE_OK 0 ctr"
  obtain w1 mi1 where w1: "handle_event e (pad_run e (Suc n)) (Cell_Recognized RELAY_COMMAND_PADDING_NEGOTIATED (Some 2)) w = Inr (w1, ())"
    "client_with e p mi1 cells w1" "client_waits 1 ctr mi1"
    by (rule client_notices_answer [OF assms])
  obtain answer where answer: "circpad_negotiated_parse (?payload @ fill ?payload) = Inr (answer, 8)"
    "ngd_command answer = CIRCPAD_COMMAND_STOP" "ngd_machine_type answer = 0" "ngd_machine_ctr answer = ctr"
    by (rule parse_answer [of CIRCPAD_COMMAND_STOP CIRCPAD_RESPONSE_OK]) (simp_all add: is_command_def is_response_def)
  let ?w = "w1\<lparr>padding_info := [None, None, None], runtimes := (runtimes w1)(p := None), padding_machine := [None, None, None]\<rparr>"
  have "free_circ_machineinfos_with_machine_num 0 ctr w1 = Inr (?w, True)"
    using w1(2,3) by (simp add: free_circ_machineinfos_with_machine_num_def act_simps client_with_def client_waits_def
        circpad_circuit_machineinfo_free_idx_def clear_machine_def)
  then have "handle_event e (pad_run e (Suc n)) (Cell_Received RELAY_COMMAND_PADDING_NEGOTIATED (Some 2) (?payload @ fill ?payload)) w1 = Inr (?w, ())"
    using from_second_hop [OF w1(2)] w1(2) answer
    by (simp add: handle_event_def circpad_check_received_cell_def circpad_handle_padding_negotiated_def act_simps relay_commands
        client_with_def plain_client_def)
  then show ?thesis
    using w1 by (intro that [of ?w]) (simp_all add: deliver_cell_def stop_cell_def seq_def return_val_def idle_client_def client_with_def)
qed

section \<open>The whole exchange\<close>

lemma handle_events_append: "handle_events e self (xs @ ys) = seq (handle_events e self xs) (\<lambda>_. handle_events e self ys)"
proof (induction xs)
  case Nil
  show ?case
    by (simp add: seq_def return_val_def)
next
  case (Cons ev xs)
  then show ?case
    by (simp add: seq_def and_then_assoc case_prod_unfold)
qed

lemma client_takes_cells:
  assumes "client_with e p mi cells w" and "client_waits 1 ctr mi"
  obtains w' mi' where "handle_events e (pad_run e (Suc n)) (concat (map (deliver_cell fill (Some 2)) (started_cell c # replicate N drop_cell))) w = Inr (w', ())"
    "client_with e p mi' cells w'" "client_waits 1 ctr mi'"
proof -
  have drops: "\<exists>w' mi'. handle_events e (pad_run e (Suc n)) (concat (replicate N (deliver_cell fill (Some 2) drop_cell))) w = Inr (w', ()) \<and>
      client_with e p mi' cells w' \<and> client_waits 1 ctr mi'" if "client_with e p mi cells w" "client_waits 1 ctr mi" for mi w
    using that
  proof (induction N arbitrary: mi w)
    case 0
    then show ?case
      by (auto simp: return_val_def)
  next
    case (Suc N)
    obtain w1 mi1 where "handle_events e (pad_run e (Suc n)) (deliver_cell fill (Some 2) drop_cell) w = Inr (w1, ())"
      "client_with e p mi1 cells w1" "client_waits 1 ctr mi1"
      by (rule client_takes_padding [OF Suc.prems])
    then show ?case
      using Suc.IH [of mi1 w1] by (simp add: handle_events_append seq_def)
  qed
  obtain w1 mi1 where "handle_events e (pad_run e (Suc n)) (deliver_cell fill (Some 2) (started_cell c)) w = Inr (w1, ())"
    "client_with e p mi1 cells w1" "client_waits 1 ctr mi1"
    by (rule client_takes_answer [OF assms])
  then show ?thesis
    using drops [of mi1 w1] that by (auto simp: handle_events_append seq_def)
qed

lemma relay_hears_request:
  assumes "plain_process e" and "sampled_lengths e" and "builtin_machines e" and "idle_relay cells w"
  obtains N w' where "INTRO_MACHINE_MINIMUM_PADDING \<le> N" "N \<le> INTRO_MACHINE_MAXIMUM_PADDING"
    "handle_events e (pad_run e (Suc (Suc n))) (deliver_cell fill None (request_cell ctr) @ replicate N (Timer_Fired 0)) w = Inr (w', ())"
    "idle_relay (cells @ [started_cell ctr] @ replicate N drop_cell @ [stop_cell (next_ctr (padding_machine_ctr w))]) w'"
proof -
  obtain N w' where "INTRO_MACHINE_MINIMUM_PADDING \<le> N" "N \<le> INTRO_MACHINE_MAXIMUM_PADDING"
    "handle_events e (pad_run e (Suc (Suc n)))
      (Cell_Received RELAY_COMMAND_PADDING_NEGOTIATE None (negotiate_payload CIRCPAD_COMMAND_START 0 ctr @ fill (negotiate_payload CIRCPAD_COMMAND_START 0 ctr))
        # replicate N (Timer_Fired 0)) w = Inr (w', ())"
    "idle_relay (cells @ [started_cell ctr] @ replicate N drop_cell @ [stop_cell (next_ctr (padding_machine_ctr w))]) w'"
    using intro_relay_runs [OF assms, of n None ctr] by blast
  moreover have "handle_event e (pad_run e (Suc (Suc n))) (Cell_Recognized RELAY_COMMAND_PADDING_NEGOTIATE None) w = Inr (w, ())"
    using assms(4) by (simp add: handle_event_def circpad_deliver_recognized_relay_cell_events_def circpad_cell_event_nonpadding_received_def
        act_simps idle_relay_def relay_commands)
  ultimately show ?thesis
    by (intro that) (simp_all add: deliver_cell_def request_cell_def seq_def)
qed

text \<open>
  C4. The negotiation of padding on an introduction circuit completes: when the client starts to wait for the answer to its introduction, it
  sends one request; the relay that gets it answers, sends between seven and ten cells of padding, one for each time its
  timer fires, and announces the end; the client that gets these cells in this order, whatever fills them up, is left without
  a machine, and so is the relay. Both sides run the built-in machines and no padding plugin, had no machine on the circuit before and have
  counted the same number of machines on it (\<open>padding_machine_ctr\<close>); the client may have any number of RELAY_EARLY cells left.
  The bounds on the depth of the recursion are three calls at the client and two at the relay.
\<close>

theorem intro_exchange:
  assumes "plain_process ec" and "builtin_machines ec" and "plain_process er" and "builtin_machines er" and "sampled_lengths er"
    and "idle_client ec [] wc" and "purpose wc = CIRCUIT_PURPOSE_C_INTRODUCING" and "idle_relay [] wr"
    and "padding_machine_ctr wr = padding_machine_ctr wc" and "ctr = next_ctr (padding_machine_ctr wc)"
  shows "\<exists>N wc1 wr1 wc2. INTRO_MACHINE_MINIMUM_PADDING \<le> N \<and> N \<le> INTRO_MACHINE_MAXIMUM_PADDING \<and>
    handle_event ec (pad_run ec (Suc (Suc (Suc n)))) (Purpose_Changed CIRCUIT_PURPOSE_C_INTRODUCE_ACK_WAIT) wc = Inr (wc1, ()) \<and>
    sent wc1 = [request_cell ctr] \<and>
    handle_events er (pad_run er (Suc (Suc n))) (deliver_cell fill None (request_cell ctr) @ replicate N (Timer_Fired 0)) wr = Inr (wr1, ()) \<and>
    idle_relay (started_cell ctr # replicate N drop_cell @ [stop_cell ctr]) wr1 \<and>
    handle_events ec (pad_run ec (Suc (Suc (Suc n)))) (concat (map (deliver_cell fill (Some 2)) (sent wr1))) wc1 = Inr (wc2, ()) \<and>
    idle_client ec [request_cell ctr] wc2"
proof -
  obtain wc1 p mi where wc1: "handle_event ec (pad_run ec (Suc (Suc (Suc n)))) (Purpose_Changed CIRCUIT_PURPOSE_C_INTRODUCE_ACK_WAIT) wc = Inr (wc1, ())"
    "client_with ec p mi [request_cell ctr] wc1" "client_waits 1 ctr mi"
    using client_starts [OF assms(1,2,6,7), of n] assms(10) by auto
  obtain N wr1 where N: "INTRO_MACHINE_MINIMUM_PADDING \<le> N" "N \<le> INTRO_MACHINE_MAXIMUM_PADDING"
    and wr1: "handle_events er (pad_run er (Suc (Suc n))) (deliver_cell fill None (request_cell ctr) @ replicate N (Timer_Fired 0)) wr = Inr (wr1, ())"
    "idle_relay (started_cell ctr # replicate N drop_cell @ [stop_cell ctr]) wr1"
    using relay_hears_request [OF assms(3,5,4,8), of n fill ctr] assms(9,10) by auto
  obtain w mi1 where w: "handle_events ec (pad_run ec (Suc (Suc (Suc n)))) (concat (map (deliver_cell fill (Some 2)) (started_cell ctr # replicate N drop_cell))) wc1 = Inr (w, ())"
    "client_with ec p mi1 [request_cell ctr] w" "client_waits 1 ctr mi1"
    by (rule client_takes_cells [OF wc1(2,3)])
  obtain wc2 where "handle_events ec (pad_run ec (Suc (Suc (Suc n)))) (deliver_cell fill (Some 2) (stop_cell ctr)) w = Inr (wc2, ())"
    "idle_client ec [request_cell ctr] wc2"
    by (rule client_takes_stop [OF w(2,3)])
  moreover have "sent wr1 = (started_cell ctr # replicate N drop_cell) @ [stop_cell ctr]" "sent wc1 = [request_cell ctr]"
    using wr1(2) wc1(2) by (simp_all add: idle_relay_def client_with_def)
  ultimately show ?thesis
    using wc1(1) N wr1 w(1) by (intro exI [of _ N] exI [of _ wc1] exI [of _ wr1] exI [of _ wc2])
      (simp only: map_append concat_append handle_events_append, simp add: seq_def)
qed

lemma demo_hypotheses:
  "plain_process demo_env" "builtin_machines demo_env" "sampled_lengths demo_env" "idle_client demo_env [] demo_client" "idle_relay [] demo_relay"
  "purpose demo_client = CIRCUIT_PURPOSE_C_INTRODUCING" "padding_machine_ctr demo_relay = padding_machine_ctr demo_client"
  by (auto simp: plain_process_def builtin_machines_eq sampled_lengths_def idle_client_def idle_relay_def plain_client_def plain_relay_def
      CIRCUIT_IS_ORIGIN_def CIRCUIT_PURPOSE_OR_MAX_def CIRCUIT_PURPOSE_C_INTRODUCING_def circuit_get_cpath_hop_def numeral_3_eq_3
      INTRO_MACHINE_MINIMUM_PADDING_def INTRO_MACHINE_MAXIMUM_PADDING_def demo_env_def without_plugins_def demo_relay_def demo_client_def)

theorem intro_exchange_witness:
  "\<exists>N wc1 wr1 wc2.
    handle_event demo_env (pad_run demo_env (Suc (Suc (Suc 0)))) (Purpose_Changed CIRCUIT_PURPOSE_C_INTRODUCE_ACK_WAIT)
      (demo_client\<lparr>remaining_relay_early_cells := 5\<rparr>) = Inr (wc1, ()) \<and>
    handle_events demo_env (pad_run demo_env (Suc (Suc 0))) (deliver_cell (\<lambda>_. [0]) None (request_cell (next_ctr 0)) @ replicate N (Timer_Fired 0)) demo_relay =
      Inr (wr1, ()) \<and>
    handle_events demo_env (pad_run demo_env (Suc (Suc (Suc 0)))) (concat (map (deliver_cell (\<lambda>_. [0]) (Some 2)) (sent wr1))) wc1 = Inr (wc2, ()) \<and>
    idle_client demo_env [request_cell (next_ctr 0)] wc2"
proof -
  let ?client = "demo_client\<lparr>remaining_relay_early_cells := 5\<rparr>"
  have client: "idle_client demo_env [] ?client" "purpose ?client = CIRCUIT_PURPOSE_C_INTRODUCING"
    "padding_machine_ctr demo_relay = padding_machine_ctr ?client" "next_ctr 0 = next_ctr (padding_machine_ctr ?client)"
    using demo_hypotheses(4,6,7) by (simp_all add: idle_client_def) (simp_all add: demo_client_def demo_relay_def)
  from intro_exchange [OF demo_hypotheses(1,2,1,2,3) client(1,2) demo_hypotheses(5) client(3,4), of 0 "\<lambda>_. [0]"] show ?thesis
    by blast
qed

end
