(* ===== verification/Circpad_Faults.thy ===== *)
theory Circpad_Faults
  imports Circpad_Exchange
begin

text \<open>
  Where the contracts of the padding code end: machines that pass the validator, or calls that the code makes itself, with which it
  leaves its data or does not return.
\<close>

section \<open>A machine that does not outlive its last RELAY_EARLY cell\<close>

lemma intro_not_kept:
  "circpad_circ_purpose_to_mask CIRCUIT_PURPOSE_C_INTRODUCING = Inr 2" "keep_purpose_mask (conditions client_ip_circ) = 0x408"
  "keep_state_mask (conditions client_ip_circ) = 0"
  by code_simp+

definition early_only :: "circpad_machine_spec \<Rightarrow> bool" where
  "early_only machine \<longleftrightarrow> machine_index machine = 0 \<and> 1 < target_hopnum machine \<and>
     apply_state_mask (conditions machine) = CIRCPAD_CIRC_HAS_RELAY_EARLY \<and> keep_state_mask (conditions machine) = 0 \<and>
     keep_purpose_mask (conditions machine) = 0"

lemma early_only_over:
  assumes "early_only machine" and "remaining_relay_early_cells w = 0" and "purpose w \<le> 24"
  shows "circpad_machine_conditions_apply e machine w = Inr False" and "circpad_machine_conditions_keep machine w = Inr False"
proof -
  have "unat (purpose w) \<le> 24"
    using assms(3) by (simp add: word_le_nat_alt)
  then have "\<exists>mask. circpad_circ_purpose_to_mask (purpose w) = Inr mask"
    by (auto simp: circpad_circ_purpose_to_mask_def)
  then obtain mask where mask: "circpad_circ_purpose_to_mask (purpose w) = Inr mask"
    by blast
  have "circpad_circuit_state w AND 16 = 0"
    using assms(2) by (simp add: circpad_circuit_state_def)
  then show "circpad_machine_conditions_apply e machine w = Inr False" and "circpad_machine_conditions_keep machine w = Inr False"
    using assms(1) mask by (auto simp: circpad_machine_conditions_apply_def circpad_machine_conditions_keep_def early_only_def
        CIRCPAD_CIRC_HAS_RELAY_EARLY_def Let_def)
qed

lemma early_only_shut_down:
  assumes "plain_process e" and "early_only machine" and "origin_padding_machines e = [machine]" and "CIRCUIT_IS_ORIGIN w" and "purpose w \<le> 24"
    and "remaining_relay_early_cells w = 0" and "padding_machine w = [Some machine, None, None]" and "padding_info w = [Some p, None, None]"
    and "runtimes w p = Some mi"
  obtains w' where "circpad_machine_event_circ_has_no_relay_early e (pad_run e (Suc n)) w = Inr (w', ())" "runtimes w' p = None"
proof -
  let ?w = "w\<lparr>padding_info := [None, None, None], runtimes := (runtimes w)(p := None)\<rparr>"
  let ?stop = "circpad_negotiate_padding (pad_run e (Suc n)) (machine_num machine) (target_hopnum machine) CIRCPAD_COMMAND_STOP (machine_ctr mi)"
  note over = early_only_over [OF assms(2)]
  have quiet: "pad_run e (Suc n) (Relay_Send cmd payload hopnum) ?w = Inr (?w\<lparr>globals := (globals w)\<lparr>circpad_global_nonpadding_sent :=
      circpad_global_nonpadding_sent (globals w) + 1\<rparr>, reads := Suc (reads w), sent := sent w @ [(cmd, payload, hopnum)]\<rparr>, 0)"
    if "cmd \<noteq> RELAY_COMMAND_DROP" "length payload \<le> PAD_RELAY_PAYLOAD_SIZE" "hopnum \<noteq> 0" for cmd payload hopnum
    using that assms(1,4,6) by (simp add: pad_run.simps relay_send_command_from_edge_def act_simps use_relay_early_def package_cell_def
        circpad_deliver_sent_relay_cell_events_def circpad_cell_event_nonpadding_sent_def plain_process_def CIRCUIT_IS_ORIGIN_def)
  have hop: "unat (target_hopnum machine) \<noteq> 0"
    using assms(2) by (simp add: early_only_def word_less_nat_alt)
  have "\<exists>w1 r. ?stop ?w = Inr (w1, r) \<and> runtimes w1 = runtimes ?w \<and> padding_info w1 = padding_info ?w \<and> purpose w1 = purpose w \<and>
      remaining_relay_early_cells w1 = 0"
    using quiet [of RELAY_COMMAND_PADDING_NEGOTIATE "negotiate_payload CIRCPAD_COMMAND_STOP (machine_num machine) (machine_ctr mi)"
        "unat (target_hopnum machine)"] hop assms(6)
    by (auto simp: circpad_negotiate_padding_def negotiate_cell_encode is_command_def act_simps circpad_send_command_to_hop_def relay_commands
        split: option.splits)
  then obtain w1 r where w1: "?stop ?w = Inr (w1, r)" "runtimes w1 p = None" "padding_info w1 = [None, None, None]" "purpose w1 = purpose w"
    "remaining_relay_early_cells w1 = 0"
    by auto
  have "circpad_shutdown_old_machines e (pad_run e (Suc n)) w = Inr (w1, ())"
    using assms(2,7-9) over(1) [OF assms(6,5)] over(2) [OF assms(6,5)] w1(1,3)
    by (simp add: circpad_shutdown_old_machines_def shutdown_slot_def act_simps circpad_circuit_machineinfo_free_idx_def)
  moreover have "circpad_add_matching_machines e (pad_run e (Suc n)) [machine] w1 = Inr (w1, ())"
    using w1(3-5) assms(2,5) over(1) [of w1]
    by (simp add: circpad_add_matching_machines_def try_machine_def act_simps early_only_def)
  ultimately show ?thesis
    using that [of w1] w1(2) assms(3)
    by (simp add: circpad_machine_event_circ_has_no_relay_early_def shutdown_and_add_def seq_def)
qed

text \<open>
  C34. A cell of padding that uses up the last RELAY_EARLY cell of a circuit shuts down a machine that applies only while there are
  such cells. The machine that sends the cell is freed by that, and the function that sends it reads its
  runtime information afterwards, for a message in the log.
\<close>

theorem padding_reads_freed_machine:
  assumes "plain_process e" and "early_only machine" and "origin_padding_machines e = [machine]" and "CIRCUIT_IS_ORIGIN w" and "purpose w \<le> 24"
    and "\<not> marked_for_close w" and "remaining_relay_early_cells w = 1" and "padding_machine w = [Some machine, None, None]"
    and "padding_info w = [Some p, None, None]" and "runtimes w p = Some mi" and "mi_index mi = 0" and "mi_histogram mi = None"
    and "circuit_get_cpath_hop (cpath w) (unat (target_hopnum machine)) = Some h" and "hop_open h"
  shows "circpad_send_padding_cell_for_callback e (pad_run e (Suc (Suc n))) p w = Inl Use_After_Free"
proof -
  let ?mi = "mi\<lparr>padding_scheduled_at_usec := 0, is_padding_timer_scheduled := False\<rparr>"
  have "\<exists>g mi1. circpad_machine_count_padding_sent (globals w) ?mi = Inr (g, mi1) \<and> mi_index mi1 = 0"
    using assms(11,12) by (simp add: circpad_machine_count_padding_sent_def Let_def scale_counts_def circpad_is_token_removal_supported_def)
  then obtain g mi1 where count: "circpad_machine_count_padding_sent (globals w) ?mi = Inr (g, mi1)" "mi_index mi1 = 0"
    by blast
  let ?w1 = "w\<lparr>globals := g, runtimes := (runtimes w)(p \<mapsto> mi1)\<rparr>"
  have hop: "1 < unat (target_hopnum machine)"
    using assms(2) by (simp add: early_only_def word_less_nat_alt)
  obtain w2 where w2: "circpad_machine_event_circ_has_no_relay_early e (pad_run e (Suc n)) (?w1\<lparr>remaining_relay_early_cells := 0\<rparr>) = Inr (w2, ())"
    "runtimes w2 p = None"
    using early_only_shut_down [OF assms(1-3), of "?w1\<lparr>remaining_relay_early_cells := 0\<rparr>" p mi1 n] assms(4,5,8,9)
    by (auto simp: CIRCUIT_IS_ORIGIN_def)
  have "\<exists>w3. pad_run e (Suc (Suc n)) (Relay_Send RELAY_COMMAND_DROP [] (unat (target_hopnum machine))) ?w1 = Inr (w3, 0) \<and> runtimes w3 p = None"
    using w2 assms(1,4,7) hop by (simp add: pad_run.simps(2) [of e "Suc n"] relay_send_command_from_edge_def act_simps use_relay_early_def package_cell_def
        circpad_deliver_sent_relay_cell_events_def plain_process_def CIRCUIT_IS_ORIGIN_def)
  then have "send_drop (pad_run e (Suc (Suc n))) p ?w1 = Inl Use_After_Free"
    using assms(4,8,13,14) count(2) by (auto simp: send_drop_def act_simps CIRCUIT_IS_ORIGIN_def circpad_send_command_to_hop_def)
  then show ?thesis
    using assms(6,10,11) count(1) by (simp add: circpad_send_padding_cell_for_callback_def count_padding_def act_simps)
qed

definition early_machine :: circpad_machine_spec where
  "early_machine = client_ip_circ\<lparr>conditions := (conditions client_ip_circ)\<lparr>apply_state_mask := CIRCPAD_CIRC_HAS_RELAY_EARLY,
     keep_purpose_mask := 0\<rparr>\<rparr>"

definition early_env :: pad_env where
  "early_env = demo_env\<lparr>origin_padding_machines := [early_machine]\<rparr>"

definition early_client :: pad_world where
  "early_client = demo_client\<lparr>remaining_relay_early_cells := 1, padding_machine := [Some early_machine, None, None],
     padding_info := [Some 0, None, None], runtimes := [0 \<mapsto> new_runtime demo_env 0 1], next_addr := 1\<rparr>"

lemma early_hypotheses: "plain_process early_env" "early_only early_machine" "origin_padding_machines early_env = [early_machine]"
  "target_hopnum early_machine = 2" "CIRCUIT_IS_ORIGIN early_client"
  by (simp_all add: early_env_def plain_process_def demo_env_def without_plugins_def early_only_def early_machine_def intro_not_kept early_client_def demo_client_def
      CIRCUIT_IS_ORIGIN_def CIRCUIT_PURPOSE_OR_MAX_def CIRCUIT_PURPOSE_C_INTRODUCING_def)

theorem padding_reads_freed_machine_witness:
  "circpad_send_padding_cell_for_callback early_env (pad_run early_env (Suc (Suc 0))) 0 early_client = Inl Use_After_Free"
  by (rule padding_reads_freed_machine [OF early_hypotheses(1-3), where mi = "new_runtime demo_env 0 1" and
        h = "\<lparr>hop_open = True, hop_supports_padding = True\<rparr>"])
    (simp_all add: early_hypotheses circuit_get_cpath_hop_def, simp_all add: early_client_def demo_client_def demo_relay_def new_runtime_def
        CIRCUIT_PURPOSE_C_INTRODUCING_def numeral_3_eq_3)


section \<open>A machine that leads from infinity to itself\<close>

text \<open>All the tokens of a state are in its infinity bin, and its infinity leads back to the state.\<close>

definition infinite_loop :: "circpad_machine_spec \<Rightarrow> u16 \<Rightarrow> bool" where
  "infinite_loop machine s \<longleftrightarrow> unat s < length (states machine) \<and> s \<noteq> CIRCPAD_STATE_END \<and> s \<noteq> CIRCPAD_STATE_IGNORE \<and> s \<noteq> CIRCPAD_STATE_CANCEL \<and>
     max_padding_percent machine = 0 \<and>
     (let state = states machine ! unat s in
        dist_type (iat_dist state) = CIRCPAD_DIST_NONE \<and> token_removal state = CIRCPAD_TOKEN_REMOVAL_NONE \<and> histogram_len state = 2 \<and>
        length (histogram state) = CIRCPAD_MAX_HISTOGRAM_LEN \<and> histogram state ! 0 = 0 \<and> histogram state ! 1 = histogram_total_tokens state \<and>
        histogram_total_tokens state \<noteq> 0 \<and> at_index (next_state state) CIRCPAD_EVENT_INFINITY = Inr s)"

lemma loop_state:
  assumes "infinite_loop machine s" and "current_state mi = s"
  shows "circpad_machine_current_state machine mi = Some (states machine ! unat s)"
  using assms by (simp add: infinite_loop_def circpad_machine_current_state_def)

lemma loop_samples_infinity:
  assumes "infinite_loop machine s" and "current_state mi = s" and "mi_histogram mi = None"
  shows "circpad_machine_sample_delay d machine mi = Inr (mi, CIRCPAD_DELAY_INFINITE)"
proof -
  let ?state = "states machine ! unat s"
  have st: "dist_type (iat_dist ?state) = CIRCPAD_DIST_NONE" "token_removal ?state = CIRCPAD_TOKEN_REMOVAL_NONE" "histogram_len ?state = 2"
    "length (histogram ?state) = 100" "histogram ?state ! 0 = 0" "histogram ?state ! Suc 0 = histogram_total_tokens ?state"
    "histogram_total_tokens ?state \<noteq> 0"
    using assms(1) by (simp_all add: infinite_loop_def Let_def CIRCPAD_MAX_HISTOGRAM_LEN_def)
  let ?total = "ucast (histogram_total_tokens ?state) :: u64"
  have "unat ?total = unat (histogram_total_tokens ?state)"
    by (simp add: unsigned_ucast_eq take_bit_nat_eq_self unsigned_less [THEN less_le_trans])
  then have total: "?total \<noteq> 0"
    using st(7) by (metis unsigned_0 unsigned_word_eqI)
  then have "\<not> ?total < bin_draw d mod ?total"
    using word_mod_less_divisor [of ?total "bin_draw d"] by (simp add: word_gt_0)
  then have "choose_bin (histogram ?state) 2 (bin_draw d mod ?total) = Inr (Some 1)"
    using st by (simp add: choose_bin_def skip_zero.simps [of _ 0] skip_zero.simps [of _ "Suc 0"] weigh.simps [of _ _ _ 1])
  then show ?thesis
    using st total assms(3) loop_state [OF assms(1,2)]
    by (simp add: circpad_machine_sample_delay_def token_source_def delay_of_bin_def at_index_def CIRCPAD_INFINITY_BIN_def)
qed

text \<open>
  C35. The validator accepts machines on which the code does not return: when all the tokens of a state are in its infinity bin and its
  event for infinity leads back to it, the delay that is chosen is infinite, which delivers the event, which
  chooses a delay. Whatever the bound on the depth of the recursion, it is reached.
\<close>

theorem infinity_recurses_forever:
  assumes "infinite_loop machine s" and "plain_process e" and "\<not> circpad_padding_disabled (globals w)"
    and "circpad_global_max_padding_percent (globals w) = 0" and "i < length (padding_machine w)" and "padding_machine w ! i = Some machine"
    and "runtimes w p = Some mi" and "mi_index mi = i" and "current_state mi = s" and "mi_histogram mi = None"
  shows "pad_run e n (Transition p CIRCPAD_EVENT_INFINITY) w = Inl Stack_Exhausted"
  using assms(3-10)
proof (induction n arbitrary: w mi)
  case (Suc n)
  let ?mi = "mi\<lparr>is_padding_timer_scheduled := False\<rparr>"
  let ?w = "w\<lparr>reads := Suc (reads w), runtimes := (runtimes w)(p \<mapsto> ?mi\<lparr>padding_scheduled_at_usec := 1\<rparr>)\<rparr>"
  have s: "s \<noteq> CIRCPAD_STATE_END" "s \<noteq> CIRCPAD_STATE_IGNORE" "s \<noteq> CIRCPAD_STATE_CANCEL" "max_padding_percent machine = 0"
    "at_index (next_state (states machine ! unat s)) CIRCPAD_EVENT_INFINITY = Inr s"
    using assms(1) by (simp_all add: infinite_loop_def Let_def)
  have "choose_delay e p w = Inr (?w, CIRCPAD_DELAY_INFINITE)"
    using Suc.prems loop_samples_infinity [OF assms(1), of ?mi "draw_at e (reads w)"]
    by (simp add: choose_delay_def act_simps circpad_is_token_removal_supported_def)
  moreover have "circpad_machine_reached_padding_limit (globals w) machine mi = Inr False"
    using Suc.prems(2) s(4) by (simp add: circpad_machine_reached_padding_limit_def)
  ultimately have schedule: "circpad_machine_schedule_padding e (pad_run e n) p w = pad_run e n (Transition p CIRCPAD_EVENT_INFINITY) ?w"
    using Suc.prems assms(2) s(1) by (simp add: circpad_machine_schedule_padding_def act_simps circpad_is_padding_allowed_def plain_process_def
        schedule_delay_def circpad_internal_event_infinity_def)
  have "pad_run e (Suc n) (Transition p CIRCPAD_EVENT_INFINITY) w = circpad_machine_schedule_padding e (pad_run e n) p w"
    using Suc.prems s loop_state [OF assms(1) Suc.prems(7)]
    by (simp add: pad_run.simps circpad_machine_spec_transition_def with_machine_def seq_def get_runtime_def CIRCPAD_GET_MACHINE_def check_def
        at_index_def [of "padding_machine w"])
  also have "\<dots> = Inl Stack_Exhausted"
    unfolding schedule by (rule Suc.IH [of _ "?mi\<lparr>padding_scheduled_at_usec := 1\<rparr>"]) (use Suc.prems in simp_all)
  finally show ?case .
qed (simp add: pad_run.simps)

text \<open>The responder of the unit tests, with a transition added.\<close>

definition looping_machine :: circpad_machine_spec where
  "looping_machine = at_state CIRCPAD_STATE_BURST (on_event CIRCPAD_EVENT_INFINITY (of_nat CIRCPAD_STATE_BURST)) circ_responder_machine"

lemma looping_machine_facts: "infinite_loop looping_machine 1" "padding_machine_is_valid (states looping_machine) = Inr True"
  by code_simp+

theorem infinity_recurses_forever_witness:
  "pad_run demo_env 50 (Transition 0 CIRCPAD_EVENT_INFINITY) (demo_relay\<lparr>padding_machine := [Some looping_machine, None, None],
    padding_info := [Some 0, None, None], runtimes := [0 \<mapsto> (new_runtime demo_env 0 1)\<lparr>current_state := 1\<rparr>]\<rparr>) = Inl Stack_Exhausted \<and>
   padding_machine_is_valid (states looping_machine) = Inr True"
proof -
  have "pad_run demo_env 50 (Transition 0 CIRCPAD_EVENT_INFINITY) (demo_relay\<lparr>padding_machine := [Some looping_machine, None, None],
    padding_info := [Some 0, None, None], runtimes := [0 \<mapsto> (new_runtime demo_env 0 1)\<lparr>current_state := 1\<rparr>]\<rparr>) = Inl Stack_Exhausted"
    by (rule infinity_recurses_forever [OF looping_machine_facts(1), where i = 0 and mi = "(new_runtime demo_env 0 1)\<lparr>current_state := 1\<rparr>"])
      (simp_all add: demo_hypotheses, simp_all add: demo_relay_def new_runtime_def)
  then show ?thesis
    using looping_machine_facts(2) by blast
qed


section \<open>Counters that differ\<close>

lemma client_ignores_stop:
  assumes "client_with e p mi cells w" and "client_waits 1 ctr mi" and "c \<noteq> ctr" and "c \<noteq> 0"
  obtains w' mi' where "handle_events e (pad_run e (Suc n)) (deliver_cell fill (Some 2) (stop_cell c)) w = Inr (w', ())"
    "client_with e p mi' cells w'" "client_waits 1 ctr mi'"
proof -
  let ?payload = "negotiated_payload CIRCPAD_COMMAND_STOP CIRCPAD_RESPONSE_OK 0 c"
  obtain w1 mi1 where w1: "handle_event e (pad_run e (Suc n)) (Cell_Recognized RELAY_COMMAND_PADDING_NEGOTIATED (Some 2)) w = Inr (w1, ())"
    "client_with e p mi1 cells w1" "client_waits 1 ctr mi1"
    by (rule client_notices_answer [OF assms(1,2)])
  obtain answer where answer: "circpad_negotiated_parse (?payload @ fill ?payload) = Inr (answer, 8)"
    "ngd_command answer = CIRCPAD_COMMAND_STOP" "ngd_machine_type answer = 0" "ngd_machine_ctr answer = c"
    by (rule parse_answer [of CIRCPAD_COMMAND_STOP CIRCPAD_RESPONSE_OK]) (simp_all add: is_command_def is_response_def)
  have "free_circ_machineinfos_with_machine_num 0 c w1 = Inr (w1, False)"
    using w1(2,3) assms(3,4) by (simp add: free_circ_machineinfos_with_machine_num_def act_simps client_with_def client_waits_def)
  then have "handle_event e (pad_run e (Suc n)) (Cell_Received RELAY_COMMAND_PADDING_NEGOTIATED (Some 2) (?payload @ fill ?payload)) w1 = Inr (w1, ())"
    using from_second_hop [OF w1(2)] w1(2) answer
    by (simp add: handle_event_def circpad_check_received_cell_def circpad_handle_padding_negotiated_def act_simps relay_commands
        client_with_def plain_client_def)
  then show ?thesis
    using w1 by (intro that) (simp_all add: deliver_cell_def stop_cell_def seq_def return_val_def)
qed

lemma next_ctr_nonzero [simp]: "next_ctr c \<noteq> 0"
  by (simp add: next_ctr_def)

text \<open>
  C36. The end that a relay announces carries the relay's own count of machines, and a client whose count is another one ignores it: when
  the counts of client and relay differ, both sides of an introduction circuit run as they should until the relay
  is done and has no machine left, and the machine of the client stays.
\<close>

theorem stop_with_other_count_ignored:
  assumes "plain_process ec" and "builtin_machines ec" and "plain_process er" and "builtin_machines er" and "sampled_lengths er"
    and "idle_client ec [] wc" and "purpose wc = CIRCUIT_PURPOSE_C_INTRODUCING" and "idle_relay [] wr"
    and "ctr = next_ctr (padding_machine_ctr wc)" and "next_ctr (padding_machine_ctr wr) \<noteq> ctr"
  shows "\<exists>N wc1 wr1 wc2 p mi.
    handle_event ec (pad_run ec (Suc (Suc (Suc n)))) (Purpose_Changed CIRCUIT_PURPOSE_C_INTRODUCE_ACK_WAIT) wc = Inr (wc1, ()) \<and>
    sent wc1 = [request_cell ctr] \<and>
    handle_events er (pad_run er (Suc (Suc n))) (deliver_cell fill None (request_cell ctr) @ replicate N (Timer_Fired 0)) wr = Inr (wr1, ()) \<and>
    idle_relay (started_cell ctr # replicate N drop_cell @ [stop_cell (next_ctr (padding_machine_ctr wr))]) wr1 \<and>
    handle_events ec (pad_run ec (Suc (Suc (Suc n)))) (concat (map (deliver_cell fill (Some 2)) (sent wr1))) wc1 = Inr (wc2, ()) \<and>
    client_with ec p mi [request_cell ctr] wc2"
proof -
  let ?pad_run = "pad_run ec (Suc (Suc (Suc n)))" and ?c = "next_ctr (padding_machine_ctr wr)"
  obtain wc1 p mi where wc1: "handle_event ec ?pad_run (Purpose_Changed CIRCUIT_PURPOSE_C_INTRODUCE_ACK_WAIT) wc = Inr (wc1, ())"
    "client_with ec p mi [request_cell ctr] wc1" "client_waits 1 ctr mi"
    using client_starts [OF assms(1,2,6,7), of n] assms(9) by auto
  obtain N wr1 where "INTRO_MACHINE_MINIMUM_PADDING \<le> N" "N \<le> INTRO_MACHINE_MAXIMUM_PADDING"
    and wr1: "handle_events er (pad_run er (Suc (Suc n))) (deliver_cell fill None (request_cell ctr) @ replicate N (Timer_Fired 0)) wr = Inr (wr1, ())"
    "idle_relay (started_cell ctr # replicate N drop_cell @ [stop_cell ?c]) wr1"
    by (rule relay_hears_request [OF assms(3,5,4,8), of n fill ctr, simplified])
  obtain w mi1 where w: "handle_events ec ?pad_run (concat (map (deliver_cell fill (Some 2)) (started_cell ctr # replicate N drop_cell))) wc1 = Inr (w, ())"
    "client_with ec p mi1 [request_cell ctr] w" "client_waits 1 ctr mi1"
    by (rule client_takes_cells [OF wc1(2,3)])
  obtain wc2 mi2 where "handle_events ec ?pad_run (deliver_cell fill (Some 2) (stop_cell ?c)) w = Inr (wc2, ())"
    "client_with ec p mi2 [request_cell ctr] wc2"
    by (rule client_ignores_stop [OF w(2,3) assms(10) next_ctr_nonzero])
  moreover have "sent wr1 = (started_cell ctr # replicate N drop_cell) @ [stop_cell ?c]" "sent wc1 = [request_cell ctr]"
    using wr1(2) wc1(2) by (simp_all add: idle_relay_def client_with_def)
  ultimately show ?thesis
    using wc1(1) wr1 w(1) by (intro exI [of _ N] exI [of _ wc1] exI [of _ wr1] exI [of _ wc2] exI [of _ p] exI [of _ mi2])
      (simp only: map_append concat_append handle_events_append, simp add: seq_def)
qed

theorem stop_with_other_count_ignored_witness:
  "\<exists>N wc1 wr1 wc2 p mi.
    handle_event demo_env (pad_run demo_env (Suc (Suc (Suc 0)))) (Purpose_Changed CIRCUIT_PURPOSE_C_INTRODUCE_ACK_WAIT) demo_client = Inr (wc1, ()) \<and>
    handle_events demo_env (pad_run demo_env (Suc (Suc 0))) (deliver_cell (\<lambda>_. [0]) None (request_cell (next_ctr 0)) @ replicate N (Timer_Fired 0))
      (demo_relay\<lparr>padding_machine_ctr := 1\<rparr>) = Inr (wr1, ()) \<and>
    handle_events demo_env (pad_run demo_env (Suc (Suc (Suc 0)))) (concat (map (deliver_cell (\<lambda>_. [0]) (Some 2)) (sent wr1))) wc1 = Inr (wc2, ()) \<and>
    client_with demo_env p mi [request_cell (next_ctr 0)] wc2"
proof -
  have relay: "idle_relay [] (demo_relay\<lparr>padding_machine_ctr := 1\<rparr>)"
    using demo_hypotheses(5) by (simp add: idle_relay_def)
  have ctr: "next_ctr 0 = next_ctr (padding_machine_ctr demo_client)"
    by (simp add: demo_client_def demo_relay_def)
  have "next_ctr (padding_machine_ctr (demo_relay\<lparr>padding_machine_ctr := 1\<rparr>)) \<noteq> next_ctr 0"
    by (simp add: next_ctr_def)
  from stop_with_other_count_ignored [OF demo_hypotheses(1,2,1,2,3,4,6) relay ctr this, of 0 "\<lambda>_. [0]"] show ?thesis
    by blast
qed


section \<open>Back to introducing\<close>

lemma intro_over:
  assumes "purpose w = CIRCUIT_PURPOSE_C_INTRODUCING"
  shows "circpad_machine_conditions_apply e intro_client w = Inr False" and "circpad_machine_conditions_keep intro_client w = Inr False"
    and "circpad_machine_conditions_apply e rend_client w = Inr False"
  using assms by (simp_all add: circpad_machine_conditions_apply_def circpad_machine_conditions_keep_def intro_not_kept client_conditions Let_def)

text \<open>
  The comment on the purposes that keep the client's machine for introduction circuits names the purpose of a circuit that goes back to
  introducing, but the mask does not have it: the change of purpose frees the machine and sends the relay a request to stop.
\<close>

lemma intro_machine_not_kept:
  assumes "plain_process e" and "builtin_machines e" and "client_with e p mi cells w" and "remaining_relay_early_cells w = 0"
  shows "\<exists>w'. handle_event e (pad_run e (Suc n)) (Purpose_Changed CIRCUIT_PURPOSE_C_INTRODUCING) w = Inr (w', ()) \<and>
    padding_info w' = [None, None, None] \<and> runtimes w' p = None \<and>
    sent w' = cells @ [(RELAY_COMMAND_PADDING_NEGOTIATE, negotiate_payload CIRCPAD_COMMAND_STOP 0 (machine_ctr mi), 2)]"
proof -
  let ?pad_run = "pad_run e (Suc n)"
  let ?w = "w\<lparr>purpose := CIRCUIT_PURPOSE_C_INTRODUCING\<rparr>"
  let ?w1 = "?w\<lparr>padding_info := [None, None, None], runtimes := (runtimes w)(p := None)\<rparr>"
  let ?cell = "(RELAY_COMMAND_PADDING_NEGOTIATE, negotiate_payload CIRCPAD_COMMAND_STOP 0 (machine_ctr mi), 2)"
  let ?w2 = "?w1\<lparr>globals := (globals w)\<lparr>circpad_global_nonpadding_sent := circpad_global_nonpadding_sent (globals w) + 1\<rparr>,
    reads := Suc (reads w), sent := cells @ [?cell]\<rparr>"
  have w: "padding_machine w = [Some intro_client, None, None]" "padding_info w = [Some p, None, None]" "runtimes w p = Some mi" "sent w = cells"
    "remaining_relay_early_cells w = 0" "CIRCUIT_IS_ORIGIN w" "CIRCUIT_IS_ORIGIN ?w" "\<not> padding_negotiation_failed w"
    "purpose w = CIRCUIT_PURPOSE_C_INTRODUCE_ACK_WAIT"
    using assms(3,4) by (simp_all add: client_with_def plain_client_def CIRCUIT_IS_ORIGIN_def circuit_purposes CIRCUIT_PURPOSE_OR_MAX_def)
  obtain h where hop: "circuit_get_cpath_hop (cpath w) 2 = Some h" "hop_open h" "hop_supports_padding h"
    using assms(3) by (auto simp: client_with_def plain_client_def)
  have "\<not> PAD_RELAY_PAYLOAD_SIZE < length (negotiate_payload CIRCPAD_COMMAND_STOP 0 (machine_ctr mi))"
    by (simp add: not_less)
  then have "?pad_run (Relay_Send RELAY_COMMAND_PADDING_NEGOTIATE (negotiate_payload CIRCPAD_COMMAND_STOP 0 (machine_ctr mi)) 2) ?w1 = Inr (?w2, 0)"
    using w(4-7) assms(1) by (simp add: pad_run.simps relay_send_command_from_edge_def act_simps use_relay_early_def package_cell_def
        circpad_deliver_sent_relay_cell_events_def circpad_cell_event_nonpadding_sent_def plain_process_def CIRCUIT_IS_ORIGIN_def relay_commands)
  then have stop: "circpad_negotiate_padding ?pad_run 0 2 CIRCPAD_COMMAND_STOP (machine_ctr mi) ?w1 = Inr (?w2, 0)"
    using hop by (simp add: circpad_negotiate_padding_def negotiate_cell_encode is_command_def act_simps circpad_circuit_supports_padding_def
        circpad_send_command_to_hop_def)
  have "circpad_shutdown_old_machines e ?pad_run ?w = Inr (?w2, ())"
    using w intro_over [of ?w] stop
    by (simp add: circpad_shutdown_old_machines_def shutdown_slot_def act_simps circpad_circuit_machineinfo_free_idx_def)
  moreover have "circpad_add_matching_machines e ?pad_run (origin_padding_machines e) ?w2 = Inr (?w2, ())"
    using w(8) assms(2) intro_over [of ?w2]
    by (simp add: circpad_add_matching_machines_def try_machine_def act_simps builtin_machines_eq)
  ultimately have "handle_event e ?pad_run (Purpose_Changed CIRCUIT_PURPOSE_C_INTRODUCING) w = Inr (?w2, ())"
    using w(6,9) by (simp add: handle_event_def circuit_change_purpose_def act_simps circuit_purposes CIRCUIT_PURPOSE_OR_MAX_def
        circpad_machine_event_circ_purpose_changed_def shutdown_and_add_def)
  then show ?thesis
    by (intro exI [of _ ?w2]) simp
qed

definition waiting_client :: pad_world where
  "waiting_client = demo_client\<lparr>purpose := CIRCUIT_PURPOSE_C_INTRODUCE_ACK_WAIT, padding_machine := [Some intro_client, None, None],
     padding_info := [Some 0, None, None], runtimes := [0 \<mapsto> new_runtime demo_env 0 1]\<rparr>"

end
