(* ===== verification/Circpad_Free.thy ===== *)
theory Circpad_Free
  imports Trunnel
begin

text \<open>
  Freeing the padding machines when the process ends: \<open>circpad_machines_free\<close>, \<open>machine_spec_free_\<close> and
  \<open>circpad_free_all\<close> of \<^verbatim>\<open>src/core/or/circuitpadding.c\<close>.  What matters here is which blocks of memory a machine
  owns, so a machine is the addresses of its blocks, and the heap is the set of blocks of \<open>tor_malloc\<close>
  that are in use.  Freeing a block that is not in use is the fault \<open>Bad_Free\<close>.  A global list is \<open>None\<close>
  when the pointer is NULL, or the block of the list with the machines in it.
\<close>

section \<open>Blocks\<close>

datatype free_fault = Bad_Free

record machine_blocks =
  mb_spec :: nat
  mb_states :: nat
  mb_next_states :: "nat list"
  is_plugin_generated :: bool

type_synonym block_heap = "nat set"
type_synonym machine_list = "(nat \<times> machine_blocks list) option"

definition tor_free :: "nat \<Rightarrow> block_heap \<Rightarrow> free_fault + block_heap" where
  "tor_free p h = (if p \<in> h then Inr (h - {p}) else Inl Bad_Free)"

fun free_each :: "('a \<Rightarrow> block_heap \<Rightarrow> free_fault + block_heap) \<Rightarrow> 'a list \<Rightarrow> block_heap \<Rightarrow> free_fault + block_heap" where
  "free_each f [] h = Inr h"
| "free_each f (x # xs) h = and_then (f x h) (free_each f xs)"

definition free_machine :: "machine_blocks \<Rightarrow> block_heap \<Rightarrow> free_fault + block_heap" where
  "free_machine m h =
     (if is_plugin_generated m then Inr h
      else and_then (free_each tor_free (mb_next_states m) h) (\<lambda>h. and_then (tor_free (mb_states m) h) (tor_free (mb_spec m))))"

definition machine_spec_free :: "machine_blocks \<Rightarrow> block_heap \<Rightarrow> free_fault + block_heap" where
  "machine_spec_free m h =
     (if is_plugin_generated m then Inr h else and_then (tor_free (mb_states m) h) (tor_free (mb_spec m)))"

definition free_list :: "(machine_blocks \<Rightarrow> block_heap \<Rightarrow> free_fault + block_heap) \<Rightarrow> machine_list \<Rightarrow> block_heap \<Rightarrow> free_fault + block_heap" where
  "free_list f l h = (case l of None \<Rightarrow> Inr h | Some (p, ms) \<Rightarrow> and_then (free_each f ms h) (tor_free p))"

text \<open>Both lists are NULL afterwards.\<close>

definition circpad_machines_free :: "machine_list \<Rightarrow> machine_list \<Rightarrow> block_heap \<Rightarrow> free_fault + machine_list \<times> machine_list \<times> block_heap" where
  "circpad_machines_free origin relay h =
     and_then (free_list free_machine origin h) (\<lambda>h. and_then (free_list free_machine relay h) (\<lambda>h. Inr (None, None, h)))"

definition circpad_free_all :: "machine_list \<Rightarrow> machine_list \<Rightarrow> block_heap \<Rightarrow> free_fault + machine_list \<times> machine_list \<times> block_heap" where
  "circpad_free_all origin relay h =
     and_then (free_list machine_spec_free origin h) (\<lambda>h. and_then (free_list machine_spec_free relay h) (\<lambda>h. Inr (None, None, h)))"

text \<open>The calls of \<open>tor_free_all\<close> in \<^verbatim>\<open>src/app/main/shutdown.c\<close>, in their order.\<close>

definition padding_shutdown :: "machine_list \<Rightarrow> machine_list \<Rightarrow> block_heap \<Rightarrow> free_fault + machine_list \<times> machine_list \<times> block_heap" where
  "padding_shutdown origin relay h =
     and_then (circpad_machines_free origin relay h) (\<lambda>(origin, relay, h). circpad_free_all origin relay h)"

section \<open>What is freed\<close>

definition spec_blocks :: "machine_blocks \<Rightarrow> nat list" where
  "spec_blocks m = (if is_plugin_generated m then [] else [mb_states m, mb_spec m])"

definition own_blocks :: "machine_blocks \<Rightarrow> nat list" where
  "own_blocks m = (if is_plugin_generated m then [] else mb_next_states m @ [mb_states m, mb_spec m])"

definition list_blocks :: "(machine_blocks \<Rightarrow> nat list) \<Rightarrow> machine_list \<Rightarrow> nat list" where
  "list_blocks g l = (case l of None \<Rightarrow> [] | Some (p, ms) \<Rightarrow> concat (map g ms) @ [p])"

text \<open>An operation that frees each block of a list once, from a heap that has them all.\<close>

definition frees :: "(block_heap \<Rightarrow> free_fault + block_heap) \<Rightarrow> nat list \<Rightarrow> bool" where
  "frees f bs \<longleftrightarrow> (\<forall>h. distinct bs \<longrightarrow> set bs \<subseteq> h \<longrightarrow> f h = Inr (h - set bs))"

lemma frees_nothing [intro]: "frees Inr []"
  by (simp add: frees_def)

lemma frees_block [intro]: "frees (tor_free p) [p]"
  by (simp add: frees_def tor_free_def)

lemma frees_seq [intro]:
  assumes "frees f bs" and "frees g cs"
  shows "frees (\<lambda>h. and_then (f h) g) (bs @ cs)"
proof -
  have "h - set bs - set cs = h - (set bs \<union> set cs)" for h
    by auto
  moreover have "set cs \<subseteq> h - set bs" if "distinct (bs @ cs)" "set (bs @ cs) \<subseteq> h" for h
    using that by auto
  ultimately show ?thesis
    using assms by (simp add: frees_def)
qed

lemma frees_each: "(\<And>x. frees (f x) (g x)) \<Longrightarrow> frees (free_each f xs) (concat (map g xs))"
proof (induction xs)
  case (Cons x xs)
  then have "frees (\<lambda>h. and_then (f x h) (free_each f xs)) (g x @ concat (map g xs))"
    by blast
  then show ?case
    by simp
qed (simp add: frees_def)

lemma frees_machine: "frees (free_machine m) (own_blocks m)"
proof (cases "is_plugin_generated m")
  case False
  have "frees (free_each tor_free (mb_next_states m)) (concat (map (\<lambda>p. [p]) (mb_next_states m)))"
    by (intro frees_each frees_block)
  then have "frees (\<lambda>h. and_then (free_each tor_free (mb_next_states m) h) (\<lambda>h. and_then (tor_free (mb_states m) h) (tor_free (mb_spec m))))
      (mb_next_states m @ [mb_states m] @ [mb_spec m])"
    by (intro frees_seq frees_block) simp
  with False show ?thesis
    by (simp add: frees_def free_machine_def own_blocks_def)
qed (simp add: frees_def free_machine_def own_blocks_def)

lemma frees_spec: "frees (machine_spec_free m) (spec_blocks m)"
proof -
  have "frees (\<lambda>h. and_then (tor_free (mb_states m) h) (tor_free (mb_spec m))) ([mb_states m] @ [mb_spec m])"
    by (intro frees_seq frees_block)
  then show ?thesis
    by (simp add: frees_def machine_spec_free_def spec_blocks_def)
qed

lemma frees_list:
  assumes "\<And>m. frees (f m) (g m)"
  shows "frees (free_list f l) (list_blocks g l)"
proof (cases l)
  case (Some l')
  obtain p ms where "l' = (p, ms)"
    by fastforce
  moreover have "frees (\<lambda>h. and_then (free_each f ms h) (tor_free p)) (concat (map g ms) @ [p])"
    by (intro frees_seq frees_each frees_block assms)
  ultimately show ?thesis
    using Some by (simp add: frees_def free_list_def list_blocks_def)
qed (simp add: frees_def free_list_def list_blocks_def)

lemma frees_lists:
  assumes "\<And>m. frees (f m) (g m)" and "distinct (list_blocks g origin @ list_blocks g relay)"
    and "set (list_blocks g origin @ list_blocks g relay) \<subseteq> h"
  shows "and_then (free_list f origin h) (\<lambda>h. and_then (free_list f relay h) (\<lambda>h. Inr (None, None, h))) =
    Inr (None, None, h - set (list_blocks g origin @ list_blocks g relay))"
  using frees_seq [OF frees_list frees_list, of f g f g origin relay] assms
  by (cases "free_list f origin h") (auto simp: frees_def)

text \<open>
  At the end of the process every block of the machines of the host is freed once, with the lists, and
  nothing else; machines of plugins are left to the plugins.
\<close>

lemma shutdown_frees_machines:
  assumes "distinct (list_blocks own_blocks origin @ list_blocks own_blocks relay)"
    and "set (list_blocks own_blocks origin @ list_blocks own_blocks relay) \<subseteq> h"
  shows "padding_shutdown origin relay h = Inr (None, None, h - set (list_blocks own_blocks origin @ list_blocks own_blocks relay))"
proof -
  have "circpad_machines_free origin relay h = Inr (None, None, h - set (list_blocks own_blocks origin @ list_blocks own_blocks relay))"
    unfolding circpad_machines_free_def by (rule frees_lists [OF frees_machine assms])
  then show ?thesis
    by (simp add: padding_shutdown_def circpad_free_all_def free_list_def)
qed

text \<open>\<open>circpad_free_all\<close> alone, which is documented to free everything, leaves the tables of transitions.\<close>

lemma free_all_leaks_tables:
  assumes "distinct (list_blocks spec_blocks origin @ list_blocks spec_blocks relay)"
    and "set (list_blocks spec_blocks origin @ list_blocks spec_blocks relay) \<subseteq> h"
  shows "circpad_free_all origin relay h = Inr (None, None, h - set (list_blocks spec_blocks origin @ list_blocks spec_blocks relay))"
  unfolding circpad_free_all_def using frees_lists [OF frees_spec assms] .

end
