(* ===== verification/Plugin_Access.thy ===== *)
theory Plugin_Access
  imports Circpad_Contract
begin

text \<open>
  What a plugin can read and write of the host: \<open>get\<close> and \<open>set\<close> of \<^verbatim>\<open>src/core/or/plugin.c\<close> and the
  functions they hand on to, by the range of the key, in \<^verbatim>\<open>relay.c\<close>, \<^verbatim>\<open>circuitpadding.c\<close>,
  \<^verbatim>\<open>connection_edge.c\<close>, \<^verbatim>\<open>circuitlist.c\<close>, \<^verbatim>\<open>config.c\<close> and \<^verbatim>\<open>plugin.c\<close>.  The arguments are the numbers the plugin
  passes; the host takes them for pointers of the type the key calls for.  \<open>Bad_Pointer\<close> is a number
  at which there is no such object, or an argument that was not passed, and \<open>Acc_Assert\<close> a failed
  \<open>tor_assert\<close>.  The arguments of \<open>log_debug\<close> are not evaluated, as at the usual level of logging.
\<close>

section \<open>Keys\<close>

definition RELAY_ARG_CIRCUIT_T :: int where "RELAY_ARG_CIRCUIT_T = 10"
definition RELAY_ARG_CRYPT_PATH_T :: int where "RELAY_ARG_CRYPT_PATH_T = 11"
definition RELAY_ARG_CELL_T :: int where "RELAY_ARG_CELL_T = 12"
definition RELAY_LAYER_HINT_DELIVER_WINDOW :: int where "RELAY_LAYER_HINT_DELIVER_WINDOW = 13"
definition RELAY_CIRC_DELIVER_WINDOW :: int where "RELAY_CIRC_DELIVER_WINDOW = 14"
definition RELAY_CONN_DELIVER_WINDOW :: int where "RELAY_CONN_DELIVER_WINDOW = 15"
definition RELAY_PLUGIN_CTX :: int where "RELAY_PLUGIN_CTX = 16"
definition RELAY_ARG_PLUGIN_T :: int where "RELAY_ARG_PLUGIN_T = 17"
definition RELAY_ARG_CIRCUIT_CHAN_T :: int where "RELAY_ARG_CIRCUIT_CHAN_T = 19"
definition RELAY_ARG_CELL_DIRECTION_T :: int where "RELAY_ARG_CELL_DIRECTION_T = 20"
definition RELAY_CIRCUIT_CHAN_T :: int where "RELAY_CIRCUIT_CHAN_T = 21"
definition RELAY_MAX :: int where "RELAY_MAX = 1000"
definition CIRCPAD_MACHINE_LIST_SIZE :: int where "CIRCPAD_MACHINE_LIST_SIZE = 1001"
definition CIRCPAD_CLIENT_MACHINES_SL :: int where "CIRCPAD_CLIENT_MACHINES_SL = 1002"
definition CIRCPAD_RELAY_MACHINES_SL :: int where "CIRCPAD_RELAY_MACHINES_SL = 1003"
definition CIRCPAD_ARG_PLUGIN_T :: int where "CIRCPAD_ARG_PLUGIN_T = 1004"
definition CIRCPAD_NEW_EVENTNUM :: int where "CIRCPAD_NEW_EVENTNUM = 1005"
definition CIRCPAD_PLUGIN_CTX :: int where "CIRCPAD_PLUGIN_CTX = 1006"
definition CIRCPAD_MACHINE_RUNTIME :: int where "CIRCPAD_MACHINE_RUNTIME = 1007"
definition CIRCPAD_PLUGIN_MACHINE_SPEC :: int where "CIRCPAD_PLUGIN_MACHINE_SPEC = 1008"
definition CIRCPAD_MACHINE_CTR :: int where "CIRCPAD_MACHINE_CTR = 1009"
definition CIRCPAD_ARG_MACHINE_SPEC_T :: int where "CIRCPAD_ARG_MACHINE_SPEC_T = 1010"
definition CIRCPAD_ARG_MACHINE_RUNTIME :: int where "CIRCPAD_ARG_MACHINE_RUNTIME = 1011"
definition CIRCPAD_PLUGIN_MACHINE_RUNTIME :: int where "CIRCPAD_PLUGIN_MACHINE_RUNTIME = 1012"
definition CIRCPAD_ARG_CIRCUIT_T :: int where "CIRCPAD_ARG_CIRCUIT_T = 1013"
definition CIRCPAD_MACHINE_RUNTIME_PADDING_SCHEDULED_AT_USEC :: int where "CIRCPAD_MACHINE_RUNTIME_PADDING_SCHEDULED_AT_USEC = 1014"
definition CIRCPAD_MACHINE_RUNTIME_IS_PADDING_TIMER_SCHEDULED :: int where "CIRCPAD_MACHINE_RUNTIME_IS_PADDING_TIMER_SCHEDULED = 1015"
definition CIRCPAD_MACHINE_RUNTIME_STATE :: int where "CIRCPAD_MACHINE_RUNTIME_STATE = 1016"
definition CIRCPAD_MAX_CIRC_QUEUED_CELLS :: int where "CIRCPAD_MAX_CIRC_QUEUED_CELLS = 1017"
definition CIRCPAD_MACHINE_SPEC_TARGET_HOP :: int where "CIRCPAD_MACHINE_SPEC_TARGET_HOP = 1018"
definition CIRCPAD_MACHINE_RUNTIME_STATELENGTH :: int where "CIRCPAD_MACHINE_RUNTIME_STATELENGTH = 1019"
definition CIRCPAD_MACHINE_SPEC_NAME :: int where "CIRCPAD_MACHINE_SPEC_NAME = 1020"
definition CIRCPAD_MACHINE_RUNTIME_PADDING_TIMER :: int where "CIRCPAD_MACHINE_RUNTIME_PADDING_TIMER = 1021"
definition CIRCPAD_MAX :: int where "CIRCPAD_MAX = 2000"
definition CONNEDGE_ARG_CIRCUIT_T :: int where "CONNEDGE_ARG_CIRCUIT_T = 2001"
definition CONNEDGE_ARG_PLUGIN_T :: int where "CONNEDGE_ARG_PLUGIN_T = 2002"
definition CONNEDGE_ARG_PARAM :: int where "CONNEDGE_ARG_PARAM = 2003"
definition CONNEDGE_PLUGIN_CTX :: int where "CONNEDGE_PLUGIN_CTX = 2004"
definition CONNEDGE_MAX :: int where "CONNEDGE_MAX = 3000"
definition OPTIONS_ORPORT_SET :: int where "OPTIONS_ORPORT_SET = 3001"
definition OPTIONS_MAX :: int where "OPTIONS_MAX = 4000"
definition UTIL_CIRCUIT_IS_ORIGIN :: int where "UTIL_CIRCUIT_IS_ORIGIN = 4001"
definition UTIL_IS_RELAY :: int where "UTIL_IS_RELAY = 4002"
definition UTIL_CONN_CTX :: int where "UTIL_CONN_CTX = 4003"
definition UTIL_CELL_PAYLOAD :: int where "UTIL_CELL_PAYLOAD = 4004"
definition UTIL_MAX :: int where "UTIL_MAX = 5000"
definition CIRCUIT_MARKED_FOR_CLOSE :: int where "CIRCUIT_MARKED_FOR_CLOSE = 5001"
definition CIRCUIT_P_CHAN_QUEUED_CELLS :: int where "CIRCUIT_P_CHAN_QUEUED_CELLS = 5002"
definition CIRCUIT_N_CIRC_ID :: int where "CIRCUIT_N_CIRC_ID = 5003"
definition CIRCUIT_MAX :: int where "CIRCUIT_MAX = 6000"
definition PLUGIN_CTX :: int where "PLUGIN_CTX = 6001"
definition PLUGIN_ARG_PLUGIN_T :: int where "PLUGIN_ARG_PLUGIN_T = 6002"
definition PLUGIN_ARG_CIRCUIT_T :: int where "PLUGIN_ARG_CIRCUIT_T = 6003"
definition PLUGIN_MAX :: int where "PLUGIN_MAX = 7000"

lemmas access_keys = RELAY_ARG_CIRCUIT_T_def RELAY_ARG_CRYPT_PATH_T_def RELAY_ARG_CELL_T_def
  RELAY_LAYER_HINT_DELIVER_WINDOW_def RELAY_CIRC_DELIVER_WINDOW_def RELAY_CONN_DELIVER_WINDOW_def
  RELAY_PLUGIN_CTX_def RELAY_ARG_PLUGIN_T_def RELAY_ARG_CIRCUIT_CHAN_T_def RELAY_ARG_CELL_DIRECTION_T_def
  RELAY_CIRCUIT_CHAN_T_def RELAY_MAX_def CIRCPAD_MACHINE_LIST_SIZE_def CIRCPAD_CLIENT_MACHINES_SL_def
  CIRCPAD_RELAY_MACHINES_SL_def CIRCPAD_ARG_PLUGIN_T_def CIRCPAD_NEW_EVENTNUM_def CIRCPAD_PLUGIN_CTX_def
  CIRCPAD_MACHINE_RUNTIME_def CIRCPAD_PLUGIN_MACHINE_SPEC_def CIRCPAD_MACHINE_CTR_def
  CIRCPAD_ARG_MACHINE_SPEC_T_def CIRCPAD_ARG_MACHINE_RUNTIME_def CIRCPAD_PLUGIN_MACHINE_RUNTIME_def
  CIRCPAD_ARG_CIRCUIT_T_def CIRCPAD_MACHINE_RUNTIME_PADDING_SCHEDULED_AT_USEC_def
  CIRCPAD_MACHINE_RUNTIME_IS_PADDING_TIMER_SCHEDULED_def CIRCPAD_MACHINE_RUNTIME_STATE_def
  CIRCPAD_MAX_CIRC_QUEUED_CELLS_def CIRCPAD_MACHINE_SPEC_TARGET_HOP_def
  CIRCPAD_MACHINE_RUNTIME_STATELENGTH_def CIRCPAD_MACHINE_SPEC_NAME_def
  CIRCPAD_MACHINE_RUNTIME_PADDING_TIMER_def CIRCPAD_MAX_def CONNEDGE_ARG_CIRCUIT_T_def
  CONNEDGE_ARG_PLUGIN_T_def CONNEDGE_ARG_PARAM_def CONNEDGE_PLUGIN_CTX_def CONNEDGE_MAX_def
  OPTIONS_ORPORT_SET_def OPTIONS_MAX_def UTIL_CIRCUIT_IS_ORIGIN_def UTIL_IS_RELAY_def UTIL_CONN_CTX_def
  UTIL_CELL_PAYLOAD_def UTIL_MAX_def CIRCUIT_MARKED_FOR_CLOSE_def CIRCUIT_P_CHAN_QUEUED_CELLS_def
  CIRCUIT_N_CIRC_ID_def CIRCUIT_MAX_def PLUGIN_CTX_def PLUGIN_ARG_PLUGIN_T_def PLUGIN_ARG_CIRCUIT_T_def
  PLUGIN_MAX_def

section \<open>The objects of the host\<close>

datatype acc_fault = Bad_Pointer | Acc_Assert

record relay_process_edge_t =
  pe_plugin :: u64
  pe_circ :: u64
  pe_layer_hint :: u64
  pe_edgeconn :: u64
  pe_cell :: u64
  pe_cell_direction :: u32
  pe_chan :: u64

record circpad_plugin_args_t =
  pa_plugin :: u64
  pa_origin_padding_machines :: u64
  pa_relay_padding_machines :: u64
  pa_machine :: u64
  pa_machine_runtime :: u64
  pa_circ :: u64

record conn_edge_plugin_args_t =
  ea_on_circ :: u64
  ea_param :: u32
  ea_plugin :: u64

record plugin_plugin_args_t =
  pl_circ :: u64
  pl_plugin :: u64

record acc_circuit =
  ac_is_origin :: bool
  ac_deliver_window :: u32
  ac_p_conn_ctx :: u64
  ac_p_chan :: u64
  ac_n_chan :: u64
  ac_marked_for_close :: u16
  ac_p_chan_cells_n :: u32
  ac_n_circ_id :: u32
  ac_padding_info :: "u64 list"

record acc_runtime =
  rt_plugin_machine_runtime :: u64
  rt_padding_scheduled_at_usec :: u64
  rt_is_padding_timer_scheduled :: bool
  rt_current_state :: u16
  rt_state_length :: u64
  rt_machine_ctr :: u32
  rt_padding_timer :: u64

record acc_spec =
  sp_plugin_machine_spec :: u64
  sp_target_hopnum :: u8
  sp_name :: u64

text \<open>Where the objects are; of plugins and of the two kinds of windows only the one field.\<close>

record acc_store =
  pedges :: "u64 \<Rightarrow> relay_process_edge_t option"
  pad_args :: "u64 \<Rightarrow> circpad_plugin_args_t option"
  edge_args :: "u64 \<Rightarrow> conn_edge_plugin_args_t option"
  plug_args :: "u64 \<Rightarrow> plugin_plugin_args_t option"
  acc_circuits :: "u64 \<Rightarrow> acc_circuit option"
  plugin_ctx :: "u64 \<Rightarrow> u64 option"
  layer_windows :: "u64 \<Rightarrow> u32 option"
  edge_windows :: "u64 \<Rightarrow> u32 option"
  acc_runtimes :: "u64 \<Rightarrow> acc_runtime option"
  acc_specs :: "u64 \<Rightarrow> acc_spec option"
  list_lens :: "u64 \<Rightarrow> nat option"
  c_strings :: "u64 \<Rightarrow> u8 list option"
  EVENTNUM_IDX :: u32
  acc_max_circ_queued_cells :: u16
  ORPort_set :: bool
  ClientOnly :: bool

definition server_mode :: "acc_store \<Rightarrow> bool" where
  "server_mode st \<longleftrightarrow> \<not> ClientOnly st \<and> ORPort_set st"

definition at_ptr :: "(u64 \<Rightarrow> 'a option) \<Rightarrow> u64 \<Rightarrow> acc_fault + 'a" where
  "at_ptr m p = (case m p of None \<Rightarrow> Inl Bad_Pointer | Some x \<Rightarrow> Inr x)"

definition va_arg :: "u64 list \<Rightarrow> nat \<Rightarrow> acc_fault + u64" where
  "va_arg args i = (if i < length args then Inr (args ! i) else Inl Bad_Pointer)"

text \<open>A field of the object that the first argument points to.\<close>

definition acc_field :: "(u64 \<Rightarrow> 'a option) \<Rightarrow> ('a \<Rightarrow> u64) \<Rightarrow> u64 list \<Rightarrow> acc_fault + u64" where
  "acc_field m f args = and_then (va_arg args 0) (\<lambda>p. and_then (at_ptr m p) (\<lambda>x. Inr (f x)))"

definition zext16 :: "u16 \<Rightarrow> u64" where "zext16 x = ucast x"
definition zext8 :: "u8 \<Rightarrow> u64" where "zext8 x = ucast x"
definition of_flag :: "bool \<Rightarrow> u64" where "of_flag x = (if x then 1 else 0)"

section \<open>Reading\<close>

definition ACC_DIRECTION_IN :: u32 where "ACC_DIRECTION_IN = 1"

definition relay_get :: "acc_store \<Rightarrow> int \<Rightarrow> u64 list \<Rightarrow> acc_fault + u64" where
  "relay_get st key args =
     (if key = RELAY_PLUGIN_CTX then acc_field (plugin_ctx st) (\<lambda>c. c) args
      else if key = RELAY_ARG_CIRCUIT_T then acc_field (pedges st) pe_circ args
      else if key = RELAY_ARG_CELL_T then acc_field (pedges st) pe_cell args
      else if key = RELAY_ARG_PLUGIN_T then acc_field (pedges st) pe_plugin args
      else if key = RELAY_ARG_CRYPT_PATH_T then acc_field (pedges st) pe_layer_hint args
      else if key = RELAY_LAYER_HINT_DELIVER_WINDOW then acc_field (layer_windows st) sext32 args
      else if key = RELAY_CIRC_DELIVER_WINDOW then acc_field (acc_circuits st) (\<lambda>c. sext32 (ac_deliver_window c)) args
      else if key = RELAY_CONN_DELIVER_WINDOW then
        and_then (acc_field (pedges st) pe_edgeconn args) (\<lambda>q. and_then (at_ptr (edge_windows st) q) (\<lambda>w. Inr (sext32 w)))
      else if key = RELAY_ARG_CIRCUIT_CHAN_T then acc_field (pedges st) pe_chan args
      else if key = RELAY_CIRCUIT_CHAN_T then
        and_then (va_arg args 0) (\<lambda>p. and_then (at_ptr (acc_circuits st) p) (\<lambda>circ.
        and_then (va_arg args 1) (\<lambda>direction.
          if (ucast direction :: u32) = ACC_DIRECTION_IN
          then (if ac_is_origin circ then Inl Acc_Assert else Inr (ac_p_chan circ))
          else Inr (ac_n_chan circ))))
      else if key = RELAY_ARG_CELL_DIRECTION_T then acc_field (pedges st) (\<lambda>pe. zext32 (pe_cell_direction pe)) args
      else Inr 0)"

text \<open>\<open>strncmp\<close> on strings, here without their terminating zero.\<close>

definition strncmp_eq :: "u8 list \<Rightarrow> u8 list \<Rightarrow> u64 \<Rightarrow> bool" where
  "strncmp_eq s t n \<longleftrightarrow> take (unat n) (s @ [0]) = take (unat n) (t @ [0])"

text \<open>The first machine of the circuit whose plugin data starts with the name.\<close>

fun find_runtime :: "acc_store \<Rightarrow> u64 list \<Rightarrow> u64 \<Rightarrow> u64 \<Rightarrow> acc_fault + u64 option" where
  "find_runtime st [] name n = Inr None"
| "find_runtime st (q # qs) name n =
     (if q = 0 then find_runtime st qs name n
      else and_then (at_ptr (acc_runtimes st) q) (\<lambda>mi.
        if rt_plugin_machine_runtime mi = 0 then find_runtime st qs name n
        else and_then (at_ptr (c_strings st) (rt_plugin_machine_runtime mi)) (\<lambda>s.
          and_then (at_ptr (c_strings st) name) (\<lambda>t.
            if strncmp_eq s t n then Inr (Some q) else find_runtime st qs name n))))"

definition named_runtime :: "acc_store \<Rightarrow> u64 list \<Rightarrow> acc_fault + u64 option" where
  "named_runtime st args =
     and_then (va_arg args 0) (\<lambda>p. and_then (va_arg args 1) (\<lambda>name. and_then (va_arg args 2) (\<lambda>namelen.
     and_then (at_ptr (acc_circuits st) p) (\<lambda>circ.
       find_runtime st (ac_padding_info circ) name (sext32 (ucast namelen))))))"

definition circpad_get :: "acc_store \<Rightarrow> int \<Rightarrow> u64 list \<Rightarrow> acc_fault + acc_store \<times> u64" where
  "circpad_get st key args =
     (if key = CIRCPAD_NEW_EVENTNUM then
        let n = EVENTNUM_IDX st + 1 in Inr (st\<lparr>EVENTNUM_IDX := n\<rparr>, sext32 n)
      else and_then
       (if key = CIRCPAD_RELAY_MACHINES_SL then acc_field (pad_args st) pa_relay_padding_machines args
        else if key = CIRCPAD_CLIENT_MACHINES_SL then acc_field (pad_args st) pa_origin_padding_machines args
        else if key = CIRCPAD_ARG_PLUGIN_T then acc_field (pad_args st) pa_plugin args
        else if key = CIRCPAD_MACHINE_LIST_SIZE then acc_field (list_lens st) (\<lambda>n. sext32 (of_nat n)) args
        else if key = CIRCPAD_PLUGIN_CTX then
          and_then (acc_field (pad_args st) pa_plugin args) (\<lambda>q. at_ptr (plugin_ctx st) q)
        else if key = CIRCPAD_MACHINE_RUNTIME then
          and_then (named_runtime st args) (\<lambda>r. Inr (case r of None \<Rightarrow> 0 | Some q \<Rightarrow> q))
        else if key = CIRCPAD_ARG_MACHINE_RUNTIME then acc_field (pad_args st) pa_machine_runtime args
        else if key = CIRCPAD_MACHINE_CTR then
          and_then (named_runtime st args) (\<lambda>r. case r of
              None \<Rightarrow> Inr (of_nat CIRCPAD_MAX_MACHINES + 1)
            | Some q \<Rightarrow> and_then (at_ptr (acc_runtimes st) q) (\<lambda>mi. Inr (zext32 (rt_machine_ctr mi))))
        else if key = CIRCPAD_ARG_CIRCUIT_T then acc_field (pad_args st) pa_circ args
        else if key = CIRCPAD_PLUGIN_MACHINE_SPEC then
          and_then (acc_field (pad_args st) pa_machine args) (\<lambda>q.
          and_then (at_ptr (acc_specs st) q) (\<lambda>ms. Inr (sp_plugin_machine_spec ms)))
        else if key = CIRCPAD_ARG_MACHINE_SPEC_T then acc_field (pad_args st) pa_machine args
        else if key = CIRCPAD_MACHINE_RUNTIME_STATE then acc_field (acc_runtimes st) (\<lambda>mi. zext16 (rt_current_state mi)) args
        else if key = CIRCPAD_MAX_CIRC_QUEUED_CELLS then Inr (zext16 (acc_max_circ_queued_cells st))
        else if key = CIRCPAD_MACHINE_SPEC_TARGET_HOP then acc_field (acc_specs st) (\<lambda>ms. zext8 (sp_target_hopnum ms)) args
        else if key = CIRCPAD_MACHINE_RUNTIME_STATELENGTH then acc_field (acc_runtimes st) rt_state_length args
        else if key = CIRCPAD_MACHINE_SPEC_NAME then acc_field (acc_specs st) sp_name args
        else if key = CIRCPAD_MACHINE_RUNTIME_IS_PADDING_TIMER_SCHEDULED then acc_field (acc_runtimes st) (\<lambda>mi. of_flag (rt_is_padding_timer_scheduled mi)) args
        else if key = CIRCPAD_MACHINE_RUNTIME_PADDING_TIMER then acc_field (acc_runtimes st) rt_padding_timer args
        else Inr 0)
       (\<lambda>v. Inr (st, v)))"

definition connedge_get :: "acc_store \<Rightarrow> int \<Rightarrow> u64 list \<Rightarrow> acc_fault + u64" where
  "connedge_get st key args =
     (if key = CONNEDGE_ARG_CIRCUIT_T then acc_field (edge_args st) ea_on_circ args
      else if key = CONNEDGE_ARG_PLUGIN_T then acc_field (edge_args st) ea_plugin args
      else if key = CONNEDGE_ARG_PARAM then acc_field (edge_args st) (\<lambda>a. sext32 (ea_param a)) args
      else if key = CONNEDGE_PLUGIN_CTX then and_then (acc_field (edge_args st) ea_plugin args) (\<lambda>q. at_ptr (plugin_ctx st) q)
      else Inr 0)"

definition options_get :: "acc_store \<Rightarrow> int \<Rightarrow> acc_fault + u64" where
  "options_get st key = Inr (if key = OPTIONS_ORPORT_SET then of_flag (ORPort_set st) else 0)"

text \<open>The payload of a cell is five bytes into it; nothing is read.\<close>

definition util_get :: "acc_store \<Rightarrow> int \<Rightarrow> u64 list \<Rightarrow> acc_fault + u64" where
  "util_get st key args =
     (if key = UTIL_CELL_PAYLOAD then and_then (va_arg args 0) (\<lambda>cell. Inr (cell + 5))
      else if key = UTIL_CIRCUIT_IS_ORIGIN then acc_field (acc_circuits st) (\<lambda>c. of_flag (ac_is_origin c)) args
      else if key = UTIL_IS_RELAY then Inr (of_flag (server_mode st))
      else if key = UTIL_CONN_CTX then acc_field (acc_circuits st) ac_p_conn_ctx args
      else Inr 0)"

definition circuit_get :: "acc_store \<Rightarrow> int \<Rightarrow> u64 list \<Rightarrow> acc_fault + u64" where
  "circuit_get st key args =
     (if key = CIRCUIT_MARKED_FOR_CLOSE then acc_field (acc_circuits st) (\<lambda>c. zext16 (ac_marked_for_close c)) args
      else if key = CIRCUIT_P_CHAN_QUEUED_CELLS then
        and_then (va_arg args 0) (\<lambda>p. and_then (at_ptr (acc_circuits st) p) (\<lambda>c.
          if ac_is_origin c then Inl Acc_Assert else Inr (sext32 (ac_p_chan_cells_n c))))
      else if key = CIRCUIT_N_CIRC_ID then acc_field (acc_circuits st) (\<lambda>c. zext32 (ac_n_circ_id c)) args
      else Inr 0)"

definition plugin_get_arg :: "acc_store \<Rightarrow> int \<Rightarrow> u64 list \<Rightarrow> acc_fault + u64" where
  "plugin_get_arg st key args =
     (if key = PLUGIN_ARG_PLUGIN_T then acc_field (plug_args st) pl_plugin args
      else if key = PLUGIN_ARG_CIRCUIT_T then acc_field (plug_args st) pl_circ args
      else Inr 0)"

definition same_store :: "acc_store \<Rightarrow> acc_fault + u64 \<Rightarrow> acc_fault + acc_store \<times> u64" where
  "same_store st r = and_then r (\<lambda>v. Inr (st, v))"

definition host_get :: "acc_store \<Rightarrow> int \<Rightarrow> u64 list \<Rightarrow> acc_fault + acc_store \<times> u64" where
  "host_get st key args =
     (if key < RELAY_MAX then same_store st (relay_get st key args)
      else if key < CIRCPAD_MAX then circpad_get st key args
      else if key < CONNEDGE_MAX then same_store st (connedge_get st key args)
      else if key < OPTIONS_MAX then same_store st (options_get st key)
      else if key < UTIL_MAX then same_store st (util_get st key args)
      else if key < CIRCUIT_MAX then same_store st (circuit_get st key args)
      else if key < PLUGIN_MAX then same_store st (plugin_get_arg st key args)
      else Inr (st, 0))"

section \<open>Writing\<close>

definition relay_set :: "acc_store \<Rightarrow> int \<Rightarrow> u64 list \<Rightarrow> acc_fault + acc_store" where
  "relay_set st key args =
     (if key = RELAY_CIRC_DELIVER_WINDOW then
        and_then (va_arg args 0) (\<lambda>p. and_then (va_arg args 1) (\<lambda>val. and_then (at_ptr (acc_circuits st) p) (\<lambda>c.
          Inr (st\<lparr>acc_circuits := (acc_circuits st)(p \<mapsto> c\<lparr>ac_deliver_window := ucast val\<rparr>)\<rparr>))))
      else if key = RELAY_CONN_DELIVER_WINDOW then
        and_then (va_arg args 0) (\<lambda>p. and_then (va_arg args 1) (\<lambda>val. and_then (at_ptr (pedges st) p) (\<lambda>pe.
        and_then (at_ptr (edge_windows st) (pe_edgeconn pe)) (\<lambda>_.
          Inr (st\<lparr>edge_windows := (edge_windows st)(pe_edgeconn pe \<mapsto> ucast val)\<rparr>)))))
      else Inr st)"

definition set_acc_runtime :: "acc_store \<Rightarrow> u64 list \<Rightarrow> (u64 \<Rightarrow> acc_runtime \<Rightarrow> acc_runtime) \<Rightarrow> acc_fault + acc_store" where
  "set_acc_runtime st args f =
     and_then (va_arg args 0) (\<lambda>p.
       if p = 0 then Inl Acc_Assert
       else and_then (va_arg args 1) (\<lambda>val. and_then (at_ptr (acc_runtimes st) p) (\<lambda>mr.
         Inr (st\<lparr>acc_runtimes := (acc_runtimes st)(p \<mapsto> f val mr)\<rparr>))))"

text \<open>The flag of the timer is a bit field of one bit.\<close>

definition circpad_set :: "acc_store \<Rightarrow> int \<Rightarrow> u64 list \<Rightarrow> acc_fault + acc_store" where
  "circpad_set st key args =
     (if key = CIRCPAD_PLUGIN_CTX then
        and_then (va_arg args 0) (\<lambda>p. and_then (va_arg args 1) (\<lambda>val. and_then (at_ptr (pad_args st) p) (\<lambda>a.
        and_then (at_ptr (plugin_ctx st) (pa_plugin a)) (\<lambda>_.
          Inr (st\<lparr>plugin_ctx := (plugin_ctx st)(pa_plugin a \<mapsto> val)\<rparr>)))))
      else if key = CIRCPAD_PLUGIN_MACHINE_RUNTIME then set_acc_runtime st args (\<lambda>val mr. mr\<lparr>rt_plugin_machine_runtime := val\<rparr>)
      else if key = CIRCPAD_MACHINE_RUNTIME_PADDING_SCHEDULED_AT_USEC then set_acc_runtime st args (\<lambda>val mr. mr\<lparr>rt_padding_scheduled_at_usec := val\<rparr>)
      else if key = CIRCPAD_MACHINE_RUNTIME_IS_PADDING_TIMER_SCHEDULED then set_acc_runtime st args (\<lambda>val mr. mr\<lparr>rt_is_padding_timer_scheduled := bit val 0\<rparr>)
      else Inr st)"

definition util_set :: "acc_store \<Rightarrow> int \<Rightarrow> u64 list \<Rightarrow> acc_fault + acc_store" where
  "util_set st key args =
     (if key = UTIL_CONN_CTX then
        and_then (va_arg args 0) (\<lambda>p. and_then (va_arg args 1) (\<lambda>ctx. and_then (at_ptr (acc_circuits st) p) (\<lambda>c.
          Inr (st\<lparr>acc_circuits := (acc_circuits st)(p \<mapsto> c\<lparr>ac_p_conn_ctx := ctx\<rparr>)\<rparr>))))
      else Inr st)"

definition plugin_set :: "acc_store \<Rightarrow> int \<Rightarrow> u64 list \<Rightarrow> acc_fault + acc_store" where
  "plugin_set st key args =
     (if key = PLUGIN_CTX then
        and_then (va_arg args 0) (\<lambda>p. and_then (va_arg args 1) (\<lambda>val. and_then (at_ptr (plug_args st) p) (\<lambda>a.
        and_then (at_ptr (plugin_ctx st) (pl_plugin a)) (\<lambda>_.
          Inr (st\<lparr>plugin_ctx := (plugin_ctx st)(pl_plugin a \<mapsto> val)\<rparr>)))))
      else Inr st)"

text \<open>\<open>connedge_set\<close> and \<open>circuit_set\<close> do nothing, and nothing is called for options.\<close>

definition connedge_set :: "acc_store \<Rightarrow> int \<Rightarrow> u64 list \<Rightarrow> acc_fault + acc_store" where
  "connedge_set st key args = Inr st"

definition circuit_set :: "acc_store \<Rightarrow> int \<Rightarrow> u64 list \<Rightarrow> acc_fault + acc_store" where
  "circuit_set st key args = Inr st"

definition host_set :: "acc_store \<Rightarrow> int \<Rightarrow> u64 list \<Rightarrow> acc_fault + acc_store" where
  "host_set st key args =
     (if key < RELAY_MAX then relay_set st key args
      else if key < CIRCPAD_MAX then circpad_set st key args
      else if key < CONNEDGE_MAX then connedge_set st key args
      else if key < OPTIONS_MAX then Inr st
      else if key < UTIL_MAX then util_set st key args
      else if key < CIRCUIT_MAX then circuit_set st key args
      else if key < PLUGIN_MAX then plugin_set st key args
      else Inr st)"

text \<open>The result as the plugins take it: an \<open>int\<close>, or a pointer.\<close>

definition get_int :: "acc_store \<Rightarrow> int \<Rightarrow> u64 list \<Rightarrow> acc_fault + int" where
  "get_int st key args = and_then (host_get st key args) (\<lambda>(_, v). Inr (sint (ucast v :: u32)))"

definition get_ptr :: "acc_store \<Rightarrow> int \<Rightarrow> u64 list \<Rightarrow> acc_fault + u64" where
  "get_ptr st key args = and_then (host_get st key args) (\<lambda>(_, v). Inr v)"

section \<open>What a key does\<close>

lemmas accessors = host_get_def host_set_def relay_get_def relay_set_def circpad_get_def circpad_set_def
  connedge_get_def connedge_set_def options_get_def util_get_def util_set_def circuit_get_def circuit_set_def
  plugin_get_arg_def plugin_set_def set_acc_runtime_def

definition writable_keys :: "int list" where
  "writable_keys = [RELAY_CIRC_DELIVER_WINDOW, RELAY_CONN_DELIVER_WINDOW, CIRCPAD_PLUGIN_CTX,
     CIRCPAD_PLUGIN_MACHINE_RUNTIME, CIRCPAD_MACHINE_RUNTIME_PADDING_SCHEDULED_AT_USEC,
     CIRCPAD_MACHINE_RUNTIME_IS_PADDING_TIMER_SCHEDULED, UTIL_CONN_CTX, PLUGIN_CTX]"

text \<open>What a plugin reads back after it wrote a value.\<close>

definition read_back :: "int \<Rightarrow> u64 \<Rightarrow> u64" where
  "read_back key v =
     (if key \<in> {CIRCPAD_PLUGIN_CTX, UTIL_CONN_CTX} then v
      else if key \<in> {RELAY_CIRC_DELIVER_WINDOW, RELAY_CONN_DELIVER_WINDOW} then sext32 (ucast v)
      else if key = CIRCPAD_MACHINE_RUNTIME_IS_PADDING_TIMER_SCHEDULED then v AND 1
      else 0)"

lemma set_other_keys: "key \<notin> set writable_keys \<Longrightarrow> host_set st key args = Inr st"
  by (auto simp: writable_keys_def accessors access_keys)

lemma of_flag_bit0: "of_flag (bit v 0) = v AND 1"
  by (simp add: of_flag_def and_one_eq mod_2_eq_odd bit_0)

lemma va_arg_simps [simp]: "va_arg (a # args) 0 = Inr a" "va_arg (a # b # args) 1 = Inr b"
  "va_arg (a # b # args) (Suc 0) = Inr b"
  by (simp_all add: va_arg_def)

lemma at_ptr_Inr: "at_ptr m p = Inr x \<longleftrightarrow> m p = Some x"
  by (simp add: at_ptr_def split: option.splits)

lemma set_then_get:
  assumes "key \<in> set writable_keys" and "host_set st key (p # v # args) = Inr st'"
  shows "host_get st' key (p # args') = Inr (st', read_back key v)"
proof -
  consider "key = RELAY_CIRC_DELIVER_WINDOW" | "key = RELAY_CONN_DELIVER_WINDOW" | "key = CIRCPAD_PLUGIN_CTX"
    | "key = CIRCPAD_PLUGIN_MACHINE_RUNTIME" | "key = CIRCPAD_MACHINE_RUNTIME_PADDING_SCHEDULED_AT_USEC"
    | "key = CIRCPAD_MACHINE_RUNTIME_IS_PADDING_TIMER_SCHEDULED" | "key = UTIL_CONN_CTX" | "key = PLUGIN_CTX"
    using assms(1) by (auto simp: writable_keys_def)
  then show ?thesis
    by cases (use assms(2) in \<open>auto simp: accessors access_keys read_back_def acc_field_def same_store_def and_then_Inr
      at_ptr_Inr at_ptr_def of_flag_bit0 split: if_splits\<close>)
qed

text \<open>Reading changes nothing, but for the counter of the events.\<close>

lemma get_changes: "host_get st key args = Inr (st', v) \<Longrightarrow>
    st' = (if key = CIRCPAD_NEW_EVENTNUM then st\<lparr>EVENTNUM_IDX := EVENTNUM_IDX st + 1\<rparr> else st)"
  by (auto simp: host_get_def circpad_get_def same_store_def and_then_Inr access_keys Let_def split: if_splits)

lemma ucast_sext32 [simp]: "ucast (sext32 x) = x"
  unfolding sext32_def by (rule bit_word_eqI) (auto simp: bit_simps)

lemmas plain_get = get_ptr_def get_int_def host_get_def connedge_get_def relay_get_def circpad_get_def access_keys acc_field_def
  va_arg_def at_ptr_def same_store_def

section \<open>Properties\<close>

text \<open>
  C27. What \<open>set\<close> and \<open>get\<close> do with a key.  A key outside of a list of eight changes nothing, whatever the
  arguments are, without a message.  When a key of the list is written through a good pointer, the
  same key then reads back the value for the context of a plugin behind the padding arguments and the
  context of a circuit; the low 32 bits of it, sign-extended, for the two delivery windows; its lowest
  bit for the flag of the padding timer; and zero for the other three, which can be written and not
  read: the runtime data of a plugin's machine, the time of the next padding, and \<open>PLUGIN_CTX\<close>.
\<close>

theorem set_then_get_reads_back:
  assumes "host_set st key (p # v # args) = Inr st'"
  shows "if key \<in> set writable_keys then host_get st' key (p # args') = Inr (st', read_back key v) else st' = st"
  using assms set_then_get set_other_keys by (metis sum.inject(2))

definition demo_store :: acc_store where
  "demo_store = \<lparr>pedges = Map.empty, pad_args = Map.empty, edge_args = Map.empty, plug_args = Map.empty,
     acc_circuits = [64 \<mapsto> \<lparr>ac_is_origin = False, ac_deliver_window = 1000, ac_p_conn_ctx = 0, ac_p_chan = 0, ac_n_chan = 0,
       ac_marked_for_close = 0, ac_p_chan_cells_n = 0, ac_n_circ_id = 0, ac_padding_info = [0, 0]\<rparr>],
     plugin_ctx = Map.empty, layer_windows = Map.empty, edge_windows = Map.empty, acc_runtimes = Map.empty,
     acc_specs = Map.empty, list_lens = Map.empty, c_strings = Map.empty, EVENTNUM_IDX = 7,
     acc_max_circ_queued_cells = 0, ORPort_set = True, ClientOnly = False\<rparr>"

theorem set_then_get_reads_back_witness:
  "\<exists>st'. host_set demo_store RELAY_CIRC_DELIVER_WINDOW [64, 0x1FFFFFFFF] = Inr st' \<and>
    host_get st' RELAY_CIRC_DELIVER_WINDOW [64] = Inr (st', -1)"
proof -
  obtain st' where st': "host_set demo_store RELAY_CIRC_DELIVER_WINDOW [64, 0x1FFFFFFFF] = Inr st'"
    by (simp add: accessors access_keys demo_store_def at_ptr_def)
  moreover have "read_back RELAY_CIRC_DELIVER_WINDOW 0x1FFFFFFFF = -1"
    by (simp add: read_back_def access_keys sext32_def)
  moreover have "RELAY_CIRC_DELIVER_WINDOW \<in> set writable_keys"
    by (simp add: writable_keys_def)
  ultimately show ?thesis
    using set_then_get_reads_back [OF st', of "[]"] by simp
qed

end
