(* ===== verification/Plugin_Dropmark.thy ===== *)
theory Plugin_Dropmark
  imports Plugin_Access Circpad_Builtin
begin

text \<open>
  The start of the dropmark defence, \<^verbatim>\<open>src/plugins/dropmark_def/circpad_dropmark_def.c\<close>: a plugin that asks
  the host for three new events and registers a padding machine on each side.  The memory that
  \<open>my_plugin_malloc\<close> returns is not cleared: \<open>fresh_machine\<close> and \<open>fresh_state\<close> are what it holds, and the
  pool of the plugin has room.  A machine is a value here, so its address and the fields that hold
  its name have no counterpart.  \<open>mlists\<close> are the lists of machines of the host by address, and \<open>ctxp\<close>
  is the address of the structure of event numbers.
\<close>

section \<open>State\<close>

text \<open>
  A fault of an accessor of the host, a fault while the host checks a machine, and a write to an entry
  \<open>states[s].next_state[event]\<close> that is outside the table of the state.
\<close>

datatype dropmark_fault = Access acc_fault | Padding cp_fault | Outside_Table nat int

record circpad_dropmark_t =
  CIRCPAD_EVENT_SIGPLUGIN_ACTIVATE :: int
  CIRCPAD_EVENT_SIGPLUGIN_BE_SILENT :: int
  CIRCPAD_EVENT_SIGPLUGIN_CLOSE :: int

type_synonym machine_lists = "u64 \<rightharpoonup> circpad_machine_spec list"

definition CIRCPAD_NUM_EVENTS :: nat where "CIRCPAD_NUM_EVENTS = 7"
definition PLUGIN_NUM_EVENTS :: nat where "PLUGIN_NUM_EVENTS = 3"
definition num_events :: nat where "num_events = CIRCPAD_NUM_EVENTS + PLUGIN_NUM_EVENTS"
definition CIRCPAD_STATE_SILENCE :: nat where "CIRCPAD_STATE_SILENCE = 3"
definition CIRCUIT_PURPOSE_C_GENERAL :: u8 where "CIRCUIT_PURPOSE_C_GENERAL = 5"

definition access :: "acc_fault + 'a \<Rightarrow> dropmark_fault + 'a" where
  "access r = (case r of Inl f \<Rightarrow> Inl (Access f) | Inr x \<Rightarrow> Inr x)"

definition padding :: "cp_fault + 'a \<Rightarrow> dropmark_fault + 'a" where
  "padding r = (case r of Inl f \<Rightarrow> Inl (Padding f) | Inr x \<Rightarrow> Inr x)"

section \<open>The machines\<close>

definition plugin_circpad_machine_states_init ::
  "(nat \<Rightarrow> circpad_state) \<Rightarrow> circpad_machine_spec \<Rightarrow> u16 \<Rightarrow> circpad_machine_spec" where
  "plugin_circpad_machine_states_init fresh_state machine num_states =
     machine\<lparr>states := map (\<lambda>s. (fresh_state s)\<lparr>next_state := replicate num_events CIRCPAD_STATE_IGNORE\<rparr>)
       [0..<unat (min num_states (CIRCPAD_STATE_CANCEL - 1))]\<rparr>"

text \<open>An assignment to \<open>machine->states[s].next_state[event]\<close>.\<close>

definition set_transition :: "nat \<Rightarrow> int \<Rightarrow> u16 \<Rightarrow> circpad_machine_spec \<Rightarrow> dropmark_fault + circpad_machine_spec" where
  "set_transition s event s' machine =
     and_then (padding (at_index (states machine) (int s))) (\<lambda>state.
       if 0 \<le> event \<and> event < int (length (next_state state)) then Inr (at_state s (on_event event s') machine)
       else Inl (Outside_Table s event))"

definition burst_state :: "circpad_state \<Rightarrow> circpad_state" where
  "burst_state state =
     (let state = state\<lparr>length_dist := \<lparr>dist_type = CIRCPAD_DIST_UNIFORM, param1 = 3, param2 = 4\<rparr>, histogram_len := 2\<rparr>;
          state = bin_tokens 0 1000 (bin_edge 1 10 (bin_edge 0 1 state))
      in state\<lparr>histogram_total_tokens := histogram state ! 0\<rparr>)"

definition gap_state :: "circpad_state \<Rightarrow> circpad_state" where
  "gap_state state =
     (let state = state\<lparr>length_dist := \<lparr>dist_type = CIRCPAD_DIST_UNIFORM, param1 = 1, param2 = 2\<rparr>, histogram_len := 2\<rparr>;
          state = bin_tokens 0 1000 (bin_edge 1 70000 (bin_edge 0 1000 state))
      in state\<lparr>histogram_total_tokens := histogram state ! 0\<rparr>)"

definition relay_dropmark_def ::
  "circpad_machine_spec \<Rightarrow> (nat \<Rightarrow> circpad_state) \<Rightarrow> circpad_dropmark_t \<Rightarrow> dropmark_fault + circpad_machine_spec" where
  "relay_dropmark_def fresh_machine fresh_state ctx =
     (let m = fresh_machine;
          m = m\<lparr>conditions := (conditions m)\<lparr>apply_state_mask := CIRCPAD_CIRC_OPENED\<rparr>, is_origin_side := False\<rparr>;
          m = plugin_circpad_machine_states_init fresh_state m 4;
          m = at_state CIRCPAD_STATE_BURST burst_state m;
          m = at_state CIRCPAD_STATE_GAP gap_state m
      in and_then (set_transition CIRCPAD_STATE_START CIRCPAD_EVENT_NONPADDING_SENT (of_nat CIRCPAD_STATE_BURST) m) (\<lambda>m.
         and_then (set_transition CIRCPAD_STATE_START (CIRCPAD_EVENT_SIGPLUGIN_ACTIVATE ctx) (of_nat CIRCPAD_STATE_BURST) m) (\<lambda>m.
         and_then (set_transition CIRCPAD_STATE_BURST CIRCPAD_EVENT_PADDING_SENT (of_nat CIRCPAD_STATE_BURST) m) (\<lambda>m.
         and_then (set_transition CIRCPAD_STATE_BURST CIRCPAD_EVENT_LENGTH_COUNT (of_nat CIRCPAD_STATE_GAP) m) (\<lambda>m.
         and_then (set_transition CIRCPAD_STATE_GAP CIRCPAD_EVENT_PADDING_SENT (of_nat CIRCPAD_STATE_BURST) m) (\<lambda>m.
         and_then (set_transition CIRCPAD_STATE_GAP (CIRCPAD_EVENT_SIGPLUGIN_BE_SILENT ctx) (of_nat CIRCPAD_STATE_SILENCE) m) (\<lambda>m.
         and_then (set_transition CIRCPAD_STATE_BURST (CIRCPAD_EVENT_SIGPLUGIN_BE_SILENT ctx) (of_nat CIRCPAD_STATE_SILENCE) m) (\<lambda>m.
           set_transition CIRCPAD_STATE_SILENCE (CIRCPAD_EVENT_SIGPLUGIN_ACTIVATE ctx) (of_nat CIRCPAD_STATE_BURST) m))))))))"

definition client_dropmark_def ::
  "circpad_machine_spec \<Rightarrow> (nat \<Rightarrow> circpad_state) \<Rightarrow> circpad_dropmark_t \<Rightarrow> dropmark_fault + circpad_machine_spec" where
  "client_dropmark_def fresh_machine fresh_state ctx =
     (let m = fresh_machine\<lparr>target_hopnum := 2, is_origin_side := True\<rparr>;
          m = m\<lparr>conditions := (conditions m)\<lparr>min_hops := 3, apply_state_mask := CIRCPAD_CIRC_OPENED,
                  apply_purpose_mask := purpose_mask CIRCUIT_PURPOSE_C_GENERAL\<rparr>\<rparr>;
          m = plugin_circpad_machine_states_init fresh_state m 2
      in and_then (set_transition CIRCPAD_STATE_START (CIRCPAD_EVENT_SIGPLUGIN_BE_SILENT ctx) (of_nat CIRCPAD_STATE_START) m) (\<lambda>m.
         and_then (set_transition CIRCPAD_STATE_START (CIRCPAD_EVENT_SIGPLUGIN_ACTIVATE ctx) (of_nat CIRCPAD_STATE_START) m) (\<lambda>m.
         and_then (set_transition CIRCPAD_STATE_START (CIRCPAD_EVENT_SIGPLUGIN_CLOSE ctx) CIRCPAD_STATE_END m) (\<lambda>m.
           Inr (m\<lparr>should_negotiate_end := True\<rparr>)))))"

text \<open>The last steps of both: the number of the machine is the length of the list it is added to.\<close>

definition register_machine :: "machine_lists \<Rightarrow> u64 \<Rightarrow> circpad_machine_spec \<Rightarrow> dropmark_fault + machine_lists" where
  "register_machine mlists q m =
     (case mlists q of
        None \<Rightarrow> Inl (Access Bad_Pointer)
      | Some ms \<Rightarrow> and_then (padding (circpad_register_padding_machine (m\<lparr>machine_num := of_nat (length ms)\<rparr>) ms))
          (\<lambda>ms. Inr (mlists(q \<mapsto> ms))))"

definition register_relay_machine where
  "register_relay_machine fresh_machine fresh_state ctx mlists q =
     and_then (relay_dropmark_def fresh_machine fresh_state ctx) (register_machine mlists q)"

definition register_client_machine where
  "register_client_machine fresh_machine fresh_state ctx mlists q =
     and_then (client_dropmark_def fresh_machine fresh_state ctx) (register_machine mlists q)"

definition new_event :: "acc_store \<Rightarrow> dropmark_fault + acc_store \<times> int" where
  "new_event st = and_then (access (host_get st CIRCPAD_NEW_EVENTNUM [])) (\<lambda>(st, v). Inr (st, sint (ucast v :: u32)))"

definition circpad_dropmark_defense ::
  "circpad_machine_spec \<Rightarrow> (nat \<Rightarrow> circpad_state) \<Rightarrow> u64 \<Rightarrow> u64 \<Rightarrow> acc_store \<Rightarrow> machine_lists \<Rightarrow>
    dropmark_fault + acc_store \<times> machine_lists" where
  "circpad_dropmark_defense fresh_machine fresh_state ctxp args st mlists =
     and_then (access (host_get st CIRCPAD_CLIENT_MACHINES_SL [args])) (\<lambda>(st, client_machines).
     and_then (access (host_get st CIRCPAD_RELAY_MACHINES_SL [args])) (\<lambda>(st, relay_machines).
     and_then (access (host_get st CIRCPAD_ARG_PLUGIN_T [args])) (\<lambda>(st, plugin).
     and_then (new_event st) (\<lambda>(st, activate).
     and_then (new_event st) (\<lambda>(st, be_silent).
     and_then (new_event st) (\<lambda>(st, close).
       let ctx = \<lparr>CIRCPAD_EVENT_SIGPLUGIN_ACTIVATE = activate, CIRCPAD_EVENT_SIGPLUGIN_BE_SILENT = be_silent,
                  CIRCPAD_EVENT_SIGPLUGIN_CLOSE = close\<rparr>
       in and_then (access (host_set st CIRCPAD_PLUGIN_CTX [args, ctxp])) (\<lambda>st.
          and_then (register_relay_machine fresh_machine fresh_state ctx mlists relay_machines) (\<lambda>mlists.
          and_then (access (host_get st OPTIONS_ORPORT_SET [])) (\<lambda>(st, ORPort_is_set).
            if sint (ucast ORPort_is_set :: u32) = 0 then
              and_then (register_client_machine fresh_machine fresh_state ctx mlists client_machines) (\<lambda>mlists. Inr (st, mlists))
            else Inr (st, mlists))))))))))"

section \<open>Lemmas\<close>

lemma new_event_eq:
  assumes "uint (EVENTNUM_IDX st) < 2 ^ 31 - 1"
  shows "new_event st = Inr (st\<lparr>EVENTNUM_IDX := EVENTNUM_IDX st + 1\<rparr>, uint (EVENTNUM_IDX st) + 1)"
    and "uint (EVENTNUM_IDX st + 1) = uint (EVENTNUM_IDX st) + 1"
proof -
  let ?i = "EVENTNUM_IDX st"
  show u: "uint (?i + 1) = uint ?i + 1"
    using assms by (simp add: uint_word_ariths)
  have "sint (?i + 1) = signed_take_bit 31 (uint (?i + 1))"
    by (simp add: sint_uint)
  also have "\<dots> = uint ?i + 1"
    unfolding u by (rule signed_take_bit_int_eq_self) (use assms in \<open>simp_all add: add_increasing2\<close>)
  finally have "sint (?i + 1) = uint ?i + 1" .
  then show "new_event st = Inr (st\<lparr>EVENTNUM_IDX := ?i + 1\<rparr>, uint ?i + 1)"
    by (simp add: new_event_def access_def host_get_def circpad_get_def access_keys Let_def)
qed

lemma three_events:
  assumes "uint (EVENTNUM_IDX st) < 2 ^ 31 - 3"
  shows "new_event st = Inr (st\<lparr>EVENTNUM_IDX := EVENTNUM_IDX st + 1\<rparr>, uint (EVENTNUM_IDX st) + 1)"
    and "new_event (st\<lparr>EVENTNUM_IDX := EVENTNUM_IDX st + 1\<rparr>) = Inr (st\<lparr>EVENTNUM_IDX := 2 + EVENTNUM_IDX st\<rparr>, uint (EVENTNUM_IDX st) + 2)"
    and "new_event (st\<lparr>EVENTNUM_IDX := 2 + EVENTNUM_IDX st\<rparr>) = Inr (st\<lparr>EVENTNUM_IDX := 3 + EVENTNUM_IDX st\<rparr>, uint (EVENTNUM_IDX st) + 3)"
  using new_event_eq [of st] new_event_eq [of "st\<lparr>EVENTNUM_IDX := EVENTNUM_IDX st + 1\<rparr>"]
    new_event_eq [of "st\<lparr>EVENTNUM_IDX := EVENTNUM_IDX st + 1 + 1\<rparr>"] assms by simp_all

text \<open>
  The machines of the plugin: every table has the ten entries it was given, and the histograms of the
  states are inside their arrays, as the states that \<open>my_plugin_malloc\<close> returns must be for the checks of
  the host to stay inside them.
\<close>

definition array_room :: "circpad_state \<Rightarrow> bool" where
  "array_room state \<longleftrightarrow> length (histogram state) = CIRCPAD_MAX_HISTOGRAM_LEN \<and>
     length (histogram_edges state) = CIRCPAD_MAX_HISTOGRAM_LEN + 1 \<and> histogram_len state \<le> int CIRCPAD_MAX_HISTOGRAM_LEN"

definition tables :: "circpad_machine_spec \<Rightarrow> bool" where
  "tables m \<longleftrightarrow> (\<forall>state \<in> set (states m). length (next_state state) = num_events \<and> array_room state)"

lemma tables_init [simp]:
  "(\<And>s. array_room (fresh_state s)) \<Longrightarrow> tables (plugin_circpad_machine_states_init fresh_state m n)"
  by (auto simp: tables_def array_room_def plugin_circpad_machine_states_init_def)

lemma tables_at_state:
  assumes "tables m" and "s < length (states m)"
    and "\<And>state. length (next_state (f state)) = length (next_state state)"
    and "\<And>state. array_room state \<Longrightarrow> array_room (f state)"
  shows "tables (at_state s f m)"
  using assms set_update_subset_insert by (fastforce simp: tables_def at_state_def)

lemma length_states [simp]:
  "length (states (at_state s f m)) = length (states m)"
  "length (states (plugin_circpad_machine_states_init fresh_state m 4)) = 4"
  "length (states (plugin_circpad_machine_states_init fresh_state m 2)) = 2"
  by (simp_all add: at_state_def plugin_circpad_machine_states_init_def CIRCPAD_STATE_CANCEL_def)

lemma tables_on_event [simp]: "tables m \<Longrightarrow> s < length (states m) \<Longrightarrow> tables (at_state s (on_event event s') m)"
  by (rule tables_at_state) (simp_all add: on_event_def array_room_def)

lemma tables_bursts [simp]:
  "tables m \<Longrightarrow> s < length (states m) \<Longrightarrow> tables (at_state s burst_state m)"
  "tables m \<Longrightarrow> s < length (states m) \<Longrightarrow> tables (at_state s gap_state m)"
  by (rule tables_at_state; simp add: burst_state_def gap_state_def bin_edge_def bin_tokens_def Let_def array_room_def
      CIRCPAD_MAX_HISTOGRAM_LEN_def)+

lemma set_transition_eq:
  assumes "tables m" and "s < length (states m)"
  shows "set_transition s event s' m =
    (if 0 \<le> event \<and> event < 10 then Inr (at_state s (on_event event s') m) else Inl (Outside_Table s event))"
  using assms by (simp add: set_transition_def at_index_def padding_def tables_def num_events_def
      CIRCPAD_NUM_EVENTS_def PLUGIN_NUM_EVENTS_def)

lemma tables_valid: "\<forall>state \<in> set ss. array_room state \<Longrightarrow> \<exists>valid. padding_machine_is_valid ss = Inr valid"
proof (induction ss)
  case (Cons state ss)
  have "\<exists>v. padding_machine_state_is_valid state = Inr v"
    using Cons.prems by (auto simp: padding_machine_state_is_valid_def array_room_def)
  then show ?case
    using Cons by auto
qed auto

lemma register_machine_ok:
  assumes "tables m" and "mlists q = Some ms"
  shows "\<exists>ms'. register_machine mlists q m = Inr (mlists(q \<mapsto> ms'))"
  using assms tables_valid [of "states m"]
  by (auto simp: register_machine_def circpad_register_padding_machine_def tables_def padding_def)

abbreviation events_from :: "int \<Rightarrow> circpad_dropmark_t" where
  "events_from i \<equiv> \<lparr>CIRCPAD_EVENT_SIGPLUGIN_ACTIVATE = i + 1, CIRCPAD_EVENT_SIGPLUGIN_BE_SILENT = i + 2,
     CIRCPAD_EVENT_SIGPLUGIN_CLOSE = i + 3\<rparr>"

lemmas machine_states = CIRCPAD_STATE_START_def CIRCPAD_STATE_BURST_def CIRCPAD_STATE_GAP_def CIRCPAD_STATE_SILENCE_def
  CIRCPAD_EVENT_NONPADDING_SENT_def CIRCPAD_EVENT_PADDING_SENT_def CIRCPAD_EVENT_LENGTH_COUNT_def

lemma relay_machine_outcome:
  assumes "\<And>s. array_room (fresh_state s)" and "7 \<le> i"
  shows "9 \<le> i \<Longrightarrow> relay_dropmark_def fresh_machine fresh_state (events_from i) = Inl (Outside_Table CIRCPAD_STATE_START (i + 1))"
    and "i = 8 \<Longrightarrow> relay_dropmark_def fresh_machine fresh_state (events_from i) = Inl (Outside_Table CIRCPAD_STATE_GAP 10)"
    and "i = 7 \<Longrightarrow> \<exists>m. relay_dropmark_def fresh_machine fresh_state (events_from i) = Inr m \<and> tables m"
  using assms by (simp_all add: relay_dropmark_def_def Let_def set_transition_eq machine_states)

lemma client_machine_outcome:
  assumes "\<And>s. array_room (fresh_state s)"
  shows "client_dropmark_def fresh_machine fresh_state (events_from 7) = Inl (Outside_Table CIRCPAD_STATE_START 10)"
  using assms by (simp add: client_dropmark_def_def Let_def set_transition_eq machine_states)

text \<open>The start of the plugin with pointers that are in order.\<close>

lemma dropmark_start:
  assumes "pad_args st args = Some a" and "plugin_ctx st (pa_plugin a) \<noteq> None" and "uint (EVENTNUM_IDX st) < 2 ^ 31 - 3"
  shows "\<exists>st'. circpad_dropmark_defense fresh_machine fresh_state ctxp args st mlists =
    and_then (register_relay_machine fresh_machine fresh_state (events_from (uint (EVENTNUM_IDX st))) mlists
      (pa_relay_padding_machines a)) (\<lambda>mlists.
        if ORPort_set st then Inr (st', mlists)
        else and_then (register_client_machine fresh_machine fresh_state (events_from (uint (EVENTNUM_IDX st))) mlists
          (pa_origin_padding_machines a)) (\<lambda>mlists. Inr (st', mlists)))"
proof -
  have "host_get st CIRCPAD_CLIENT_MACHINES_SL [args] = Inr (st, pa_origin_padding_machines a)"
    "host_get st CIRCPAD_RELAY_MACHINES_SL [args] = Inr (st, pa_relay_padding_machines a)"
    "host_get st CIRCPAD_ARG_PLUGIN_T [args] = Inr (st, pa_plugin a)"
    using assms(1) by (simp_all add: host_get_def circpad_get_def access_keys acc_field_def va_arg_def at_ptr_def)
  moreover obtain st' where "host_set (st\<lparr>EVENTNUM_IDX := 3 + EVENTNUM_IDX st\<rparr>) CIRCPAD_PLUGIN_CTX [args, ctxp] = Inr st'"
    "ORPort_set st' = ORPort_set st"
    using assms(1,2) by (auto simp: host_set_def circpad_set_def access_keys va_arg_def at_ptr_def)
  moreover have "host_get st' OPTIONS_ORPORT_SET [] = Inr (st', of_flag (ORPort_set st'))"
    by (simp add: host_get_def options_get_def access_keys same_store_def)
  ultimately show ?thesis
    by (intro exI [of _ st'])
      (auto simp: circpad_dropmark_defense_def access_def three_events [OF assms(3)] Let_def of_flag_def
        intro!: arg_cong2 [of _ _ _ _ and_then])
qed

section \<open>Property\<close>

text \<open>
  C29. The tables of the dropmark machines are one entry too short.  The plugin gives each state room for
  the seven events of the host and its own three, but the host numbers the new events from eight on, so
  that a table would need eleven entries.  With pointers that are in order, and whatever else the fresh
  memory holds, the start of the plugin writes behind a table of ten entries: when nobody has asked for an
  event before, a client writes the entry 10 of the first state of its machine, and only a relay gets
  through; when one event was taken before, every node writes the entry 10 of the gap state of the relay
  machine; and when more were taken (by another plugin, or by an earlier instance of this one), it writes
  the entry of the first new event in the first state.
\<close>

theorem dropmark_overruns_tables:
  assumes "pad_args st args = Some a" and "plugin_ctx st (pa_plugin a) \<noteq> None"
    and "mlists (pa_relay_padding_machines a) \<noteq> None" and "\<forall>s. array_room (fresh_state s)"
    and "EVENTNUM_IDX st = of_nat (7 + taken)" and "taken < 2 ^ 31 - 10"
  shows "if taken = 0 then
      (if ORPort_set st then \<exists>r. circpad_dropmark_defense fresh_machine fresh_state ctxp args st mlists = Inr r
       else circpad_dropmark_defense fresh_machine fresh_state ctxp args st mlists =
         Inl (Outside_Table CIRCPAD_STATE_START (int num_events)))
    else circpad_dropmark_defense fresh_machine fresh_state ctxp args st mlists =
      Inl (if taken = 1 then Outside_Table CIRCPAD_STATE_GAP (int num_events)
           else Outside_Table CIRCPAD_STATE_START (8 + int taken))"
proof -
  have i: "uint (EVENTNUM_IDX st) = 7 + int taken"
  proof -
    have "uint (of_nat (7 + taken) :: u32) = take_bit 32 (int (7 + taken))"
      by (simp only: unsigned_of_nat of_nat_take_bit) simp
    also have "\<dots> = 7 + int taken"
      using assms(6) by (subst take_bit_int_eq_self) simp_all
    finally show ?thesis
      by (simp only: assms(5))
  qed
  have n: "int num_events = 10"
    by (simp add: num_events_def CIRCPAD_NUM_EVENTS_def PLUGIN_NUM_EVENTS_def)
  have room: "\<And>s. array_room (fresh_state s)"
    using assms(4) by blast
  obtain ms where ms: "mlists (pa_relay_padding_machines a) = Some ms"
    using assms(3) by blast
  have "uint (EVENTNUM_IDX st) < 2 ^ 31 - 3"
    using i assms(6) by simp
  then obtain st' where start: "circpad_dropmark_defense fresh_machine fresh_state ctxp args st mlists =
    and_then (and_then (relay_dropmark_def fresh_machine fresh_state (events_from (7 + int taken)))
        (register_machine mlists (pa_relay_padding_machines a))) (\<lambda>mlists.
      if ORPort_set st then Inr (st', mlists)
      else and_then (and_then (client_dropmark_def fresh_machine fresh_state (events_from (7 + int taken)))
        (register_machine mlists (pa_origin_padding_machines a))) (\<lambda>mlists. Inr (st', mlists)))"
    using dropmark_start [OF assms(1,2)] unfolding register_relay_machine_def register_client_machine_def i by blast
  note relay = relay_machine_outcome [OF room, of "7 + int taken" fresh_machine]
  consider "taken = 0" | "taken = 1" | "2 \<le> taken"
    by linarith
  then show ?thesis
  proof cases
    case 1
    then obtain m ms' where "relay_dropmark_def fresh_machine fresh_state (events_from (7 + int taken)) = Inr m"
      "register_machine mlists (pa_relay_padding_machines a) m = Inr ms'"
      using relay(3) register_machine_ok [of _ mlists "pa_relay_padding_machines a", OF _ ms] by fastforce
    then show ?thesis
      using 1 client_machine_outcome [OF room, of fresh_machine] by (simp add: start n)
  qed (use relay(1,2) in \<open>simp_all add: start n\<close>)
qed

definition dropmark_store :: "bool \<Rightarrow> acc_store" where
  "dropmark_store relay = demo_store\<lparr>ORPort_set := relay, plugin_ctx := [32 \<mapsto> 0],
     pad_args := [16 \<mapsto> \<lparr>pa_plugin = 32, pa_origin_padding_machines = 48, pa_relay_padding_machines = 56, pa_machine = 0, pa_machine_runtime = 0, pa_circ = 0\<rparr>]\<rparr>"

theorem dropmark_overruns_tables_witness:
  "circpad_dropmark_defense zero_machine (\<lambda>_. zero_state) 80 16 (dropmark_store False) [48 \<mapsto> [], 56 \<mapsto> []] =
     Inl (Outside_Table CIRCPAD_STATE_START (int num_events)) \<and>
   (\<exists>r. circpad_dropmark_defense zero_machine (\<lambda>_. zero_state) 80 16 (dropmark_store True) [48 \<mapsto> [], 56 \<mapsto> []] = Inr r)"
proof -
  have room: "\<forall>s. array_room ((\<lambda>_. zero_state) s)" for s :: nat
    by (simp add: array_room_def zero_state_def CIRCPAD_MAX_HISTOGRAM_LEN_def)
  show ?thesis
    using dropmark_overruns_tables [where st = "dropmark_store False" and args = 16 and taken = 0
        and mlists = "[48 \<mapsto> [], 56 \<mapsto> []]", OF _ _ _ room]
      dropmark_overruns_tables [where st = "dropmark_store True" and args = 16 and taken = 0
        and mlists = "[48 \<mapsto> [], 56 \<mapsto> []]", OF _ _ _ room]
    by (simp add: dropmark_store_def demo_store_def)
qed

end
