(* ===== verification/Plugin_Signal.thy ===== *)
theory Plugin_Signal
  imports Plugin_Dropmark
begin

text \<open>
  The signals of the dropmark defence (\<^verbatim>\<open>circpad_dropmark_send_sig.c\<close>, \<^verbatim>\<open>circpad_dropmark_receive_sig.c\<close> and
  \<^verbatim>\<open>circpad_dropmark_circ_setup.c\<close> in \<^verbatim>\<open>src/plugins/dropmark_def\<close>): the client tells the middle relay to pad, to be
  silent or to stop.  \<open>ctxs\<close> are the structures of event numbers by address, \<open>name\<close> is the address of the
  name that the source has as a literal, and \<open>cells\<close> are the payloads of cells by address.  What a
  plugin asks the host to do with \<open>call_host_func\<close> is a list of calls, in their order.  The copies that
  the code takes of a cell in its own memory are the cell.
\<close>

section \<open>The format of a signal\<close>

definition CIRCPAD_COMMAND_SIGPLUGIN :: u8 where "CIRCPAD_COMMAND_SIGPLUGIN = 1"
definition CIRCPAD_EVENT_SHOULD_SIGPLUGIN_ACTIVATE :: int where "CIRCPAD_EVENT_SHOULD_SIGPLUGIN_ACTIVATE = 1"
definition CIRCPAD_EVENT_SHOULD_SIGPLUGIN_BE_SILENT :: int where "CIRCPAD_EVENT_SHOULD_SIGPLUGIN_BE_SILENT = 2"
definition CIRCPAD_EVENT_SHOULD_SIGPLUGIN_CLOSE :: int where "CIRCPAD_EVENT_SHOULD_SIGPLUGIN_CLOSE = 3"
definition RELAY_HEADER_SIZE :: nat where "RELAY_HEADER_SIZE = 11"

lemmas should_defs = CIRCPAD_EVENT_SHOULD_SIGPLUGIN_ACTIVATE_def CIRCPAD_EVENT_SHOULD_SIGPLUGIN_BE_SILENT_def
  CIRCPAD_EVENT_SHOULD_SIGPLUGIN_CLOSE_def

record circpad_plugin_transition_t =
  tr_command :: u8
  tr_signal_type :: u8
  tr_machine_ctr :: u32
  tr_error_code :: bool

definition is_signal :: "circpad_dropmark_t \<Rightarrow> u8 \<Rightarrow> bool" where
  "is_signal ctx s \<longleftrightarrow> uint s = CIRCPAD_EVENT_SIGPLUGIN_ACTIVATE ctx \<or> uint s = CIRCPAD_EVENT_SIGPLUGIN_BE_SILENT ctx \<or>
     uint s = CIRCPAD_EVENT_SIGPLUGIN_CLOSE ctx"

definition circpad_plugin_transition_check :: "circpad_dropmark_t \<Rightarrow> circpad_plugin_transition_t \<Rightarrow> string option" where
  "circpad_plugin_transition_check ctx obj =
     (if tr_error_code obj then Some ''A set function failed on this object''
      else if tr_command obj \<noteq> CIRCPAD_COMMAND_SIGPLUGIN then Some ''Integer out of bounds''
      else if \<not> is_signal ctx (tr_signal_type obj) then Some ''Integer out of bounds''
      else None)"

definition circpad_plugin_transition_encoded_len :: "circpad_dropmark_t \<Rightarrow> circpad_plugin_transition_t \<Rightarrow> int" where
  "circpad_plugin_transition_encoded_len ctx obj = (if circpad_plugin_transition_check ctx obj \<noteq> None then -1 else 1 + 1 + 4)"

definition circpad_plugin_transition_encode ::
  "circpad_dropmark_t \<Rightarrow> nat \<Rightarrow> circpad_plugin_transition_t \<Rightarrow> wire_error + u8 list" where
  "circpad_plugin_transition_encode ctx avail obj =
     (if circpad_plugin_transition_check ctx obj \<noteq> None then Inl Check_Failed
      else
        and_then (emit avail [tr_command obj] []) (\<lambda>out.
        and_then (emit avail [tr_signal_type obj] out) (\<lambda>out.
        emit avail (put_be 4 (tr_machine_ctr obj)) out)))"

definition circpad_plugin_transition_parse_into ::
  "circpad_dropmark_t \<Rightarrow> u8 list \<Rightarrow> wire_error + circpad_plugin_transition_t \<times> nat" where
  "circpad_plugin_transition_parse_into ctx input =
     and_then (take_bytes 1 input) (\<lambda>(b, ptr). let cmd = hd b in
     if cmd \<noteq> CIRCPAD_COMMAND_SIGPLUGIN then Inl Check_Failed else
     and_then (take_bytes 1 ptr) (\<lambda>(b, ptr). let s = hd b in
     if \<not> is_signal ctx s then Inl Check_Failed else
     and_then (take_bytes 4 ptr) (\<lambda>(b, rest).
     Inr (\<lparr>tr_command = cmd, tr_signal_type = s, tr_machine_ctr = get_be b, tr_error_code = False\<rparr>, length input - length rest))))"

section \<open>The entry points\<close>

datatype host_call =
    Send_Plug_Cell u64 u64 u8
  | Send_To_Middle_Hop u64 "u8 list"
  | Timer_Disable u64
  | Machine_Transition u64 int
  | Cleanup_Circ u64 u64

text \<open>The calls before the signal, and the event that is sent.\<close>

definition choose_signal :: "circpad_dropmark_t \<Rightarrow> u64 \<Rightarrow> int \<Rightarrow> (host_call list \<times> int) option" where
  "choose_signal ctx circ param =
     (if param = CIRCPAD_EVENT_SHOULD_SIGPLUGIN_ACTIVATE then Some ([Send_Plug_Cell circ 42 2], CIRCPAD_EVENT_SIGPLUGIN_ACTIVATE ctx)
      else if param = CIRCPAD_EVENT_SHOULD_SIGPLUGIN_BE_SILENT then Some ([], CIRCPAD_EVENT_SIGPLUGIN_BE_SILENT ctx)
      else if param = CIRCPAD_EVENT_SHOULD_SIGPLUGIN_CLOSE then Some ([], CIRCPAD_EVENT_SIGPLUGIN_CLOSE ctx)
      else None)"

definition circpad_dropmark_def_send_activate_sig ::
  "(u64 \<rightharpoonup> circpad_dropmark_t) \<Rightarrow> u64 \<Rightarrow> acc_store \<Rightarrow> u64 \<Rightarrow> acc_fault + host_call list \<times> int" where
  "circpad_dropmark_def_send_activate_sig ctxs name st args =
     and_then (get_ptr st CONNEDGE_ARG_CIRCUIT_T [args]) (\<lambda>circ.
     and_then (get_ptr st CONNEDGE_ARG_PLUGIN_T [args]) (\<lambda>plugin.
     and_then (get_ptr st CONNEDGE_PLUGIN_CTX [args]) (\<lambda>ctxp.
     and_then (get_int st CIRCPAD_MACHINE_CTR [circ, name, 19]) (\<lambda>machine_ctr.
       if int CIRCPAD_MAX_MACHINES < machine_ctr then Inr ([], PLUGIN_RUN_DEFAULT)
       else and_then (get_int st CONNEDGE_ARG_PARAM [args]) (\<lambda>param.
            and_then (at_ptr ctxs ctxp) (\<lambda>ctx.
              case choose_signal ctx circ param of
                None \<Rightarrow> Inr ([], PLUGIN_RUN_DEFAULT)
              | Some (calls, event) \<Rightarrow>
                  (case circpad_plugin_transition_encode ctx CELL_PAYLOAD_SIZE
                     \<lparr>tr_command = CIRCPAD_COMMAND_SIGPLUGIN, tr_signal_type = word_of_int event,
                      tr_machine_ctr = word_of_int machine_ctr, tr_error_code = False\<rparr> of
                     Inl _ \<Rightarrow> Inr (calls, PLUGIN_RUN_DEFAULT)
                   | Inr bytes \<Rightarrow> Inr (calls @ [Send_To_Middle_Hop circ bytes], 0))))))))"

text \<open>Padding that is scheduled is called off when the signal is to be silent or to stop.\<close>

definition cancel_timer :: "acc_store \<Rightarrow> u64 \<Rightarrow> acc_fault + acc_store \<times> host_call list" where
  "cancel_timer st mr =
     and_then (get_int st CIRCPAD_MACHINE_RUNTIME_IS_PADDING_TIMER_SCHEDULED [mr]) (\<lambda>scheduled.
       if scheduled \<noteq> 0 then
         and_then (host_set st CIRCPAD_MACHINE_RUNTIME_IS_PADDING_TIMER_SCHEDULED [mr, 0]) (\<lambda>st.
         and_then (get_ptr st CIRCPAD_MACHINE_RUNTIME_PADDING_TIMER [mr]) (\<lambda>timer. Inr (st, [Timer_Disable timer])))
       else Inr (st, []))"

definition circpad_dropmark_def_receive_sig ::
  "(u64 \<rightharpoonup> circpad_dropmark_t) \<Rightarrow> (u64 \<rightharpoonup> u8 list) \<Rightarrow> u64 \<Rightarrow> acc_store \<Rightarrow> u64 \<Rightarrow> acc_fault + acc_store \<times> host_call list \<times> int" where
  "circpad_dropmark_def_receive_sig ctxs cells name st pedge =
     and_then (get_ptr st RELAY_ARG_CELL_T [pedge]) (\<lambda>cell.
     and_then (get_ptr st RELAY_ARG_PLUGIN_T [pedge]) (\<lambda>plugin.
     and_then (get_ptr st RELAY_PLUGIN_CTX [plugin]) (\<lambda>ctxp.
     and_then (get_ptr st RELAY_ARG_CIRCUIT_T [pedge]) (\<lambda>circ.
     and_then (at_ptr cells cell) (\<lambda>payload.
     and_then (at_ptr ctxs ctxp) (\<lambda>ctx.
       case circpad_plugin_transition_parse_into ctx (drop RELAY_HEADER_SIZE payload) of
         Inl _ \<Rightarrow> Inr (st, [], PLUGIN_RUN_DEFAULT)
       | Inr (transition, _) \<Rightarrow>
           let s = uint (tr_signal_type transition) in
           and_then (get_ptr st CIRCPAD_MACHINE_RUNTIME [circ, name, 18]) (\<lambda>mr.
             if mr = 0 then Inr (st, [], PLUGIN_RUN_DEFAULT)
             else and_then
               (if s = CIRCPAD_EVENT_SIGPLUGIN_BE_SILENT ctx \<or> s = CIRCPAD_EVENT_SIGPLUGIN_CLOSE ctx
                then cancel_timer st mr else Inr (st, [])) (\<lambda>(st, calls).
                 Inr (st, calls @ [Machine_Transition mr s] @
                   (if s = CIRCPAD_EVENT_SIGPLUGIN_CLOSE ctx then [Cleanup_Circ circ 42] else []), 0)))))))))"

text \<open>
  The hook that runs when a machine was set up marks the runtime information of the two machines of
  the plugin with their name, by which the signals find it.
\<close>

definition dropmark_names :: "u8 list list" where
  "dropmark_names = [[99, 108, 105, 101, 110, 116, 95, 100, 114, 111, 112, 109, 97, 114, 107, 95, 100, 101, 102],
     [114, 101, 108, 97, 121, 95, 100, 114, 111, 112, 109, 97, 114, 107, 95, 100, 101, 102]]"

definition circpad_dropmark_circ_setup :: "acc_store \<Rightarrow> u64 \<Rightarrow> acc_fault + acc_store \<times> int" where
  "circpad_dropmark_circ_setup st args =
     and_then (get_ptr st CIRCPAD_ARG_MACHINE_SPEC_T [args]) (\<lambda>machine.
     and_then (get_ptr st CIRCPAD_ARG_MACHINE_RUNTIME [args]) (\<lambda>mr.
     and_then (get_ptr st CIRCPAD_MACHINE_SPEC_NAME [machine]) (\<lambda>name.
       if name = 0 then Inr (st, 0)
       else and_then (at_ptr (c_strings st) name) (\<lambda>s.
         if s \<in> set dropmark_names
         then and_then (host_set st CIRCPAD_PLUGIN_MACHINE_RUNTIME [mr, name]) (\<lambda>st. Inr (st, 0))
         else Inr (st, 0)))))"

section \<open>Lemmas\<close>

lemma transition_encode_Inr:
  "circpad_plugin_transition_encode ctx avail obj = Inr bs \<longleftrightarrow> circpad_plugin_transition_check ctx obj = None \<and> 6 \<le> avail \<and>
    bs = [tr_command obj, tr_signal_type obj] @ put_be 4 (tr_machine_ctr obj)"
  by (auto simp: circpad_plugin_transition_encode_def emit_def and_then_Inr split: if_splits)

lemma transition_parse_Inr:
  "circpad_plugin_transition_parse_into ctx bs = Inr (obj, n) \<longleftrightarrow> circpad_plugin_transition_check ctx obj = None \<and> n = 6 \<and>
    (\<exists>ctr rest. bs = [tr_command obj, tr_signal_type obj] @ ctr @ rest \<and> length ctr = 4 \<and> tr_machine_ctr obj = get_be ctr)"
  (is "?l = ?r")
proof
  show "?l \<Longrightarrow> ?r"
    by (auto simp: circpad_plugin_transition_parse_into_def circpad_plugin_transition_check_def Let_def and_then_Inr take_bytes_Inr
        length_Suc_conv split: if_splits prod.splits) blast+
  show "?r \<Longrightarrow> ?l"
    by (cases obj) (auto simp: circpad_plugin_transition_parse_into_def circpad_plugin_transition_check_def split: if_splits)
qed

text \<open>For a sender and a receiver with the same numbers, signals are a wire format like the others.\<close>

interpretation transition: codec "circpad_plugin_transition_encode ctx" "circpad_plugin_transition_parse_into ctx" id
  "circpad_plugin_transition_encoded_len ctx" "\<lambda>_. True" for ctx
proof (unfold_locales, goal_cases)
  case (5 bs x n rest)
  then obtain ctr rest' where b: "bs = [tr_command x, tr_signal_type x] @ ctr @ rest'"
    "length ctr = 4" "tr_machine_ctr x = get_be ctr" "circpad_plugin_transition_check ctx x = None" "n = 6"
    unfolding transition_parse_Inr by blast
  then show ?case
    unfolding transition_parse_Inr by auto
qed (auto simp: transition_encode_Inr transition_parse_Inr circpad_plugin_transition_encoded_len_def)

text \<open>The numbers that a process gets when the counter of events was \<open>i\<close>.\<close>

definition events :: "int \<Rightarrow> circpad_dropmark_t" where
  "events i = \<lparr>CIRCPAD_EVENT_SIGPLUGIN_ACTIVATE = i + 1, CIRCPAD_EVENT_SIGPLUGIN_BE_SILENT = i + 2, CIRCPAD_EVENT_SIGPLUGIN_CLOSE = i + 3\<rparr>"

lemma new_events:
  assumes "uint (EVENTNUM_IDX st) < 2 ^ 31 - 3"
  obtains st1 st2 st3 where "new_event st = Inr (st1, CIRCPAD_EVENT_SIGPLUGIN_ACTIVATE (events (uint (EVENTNUM_IDX st))))"
    and "new_event st1 = Inr (st2, CIRCPAD_EVENT_SIGPLUGIN_BE_SILENT (events (uint (EVENTNUM_IDX st))))"
    and "new_event st2 = Inr (st3, CIRCPAD_EVENT_SIGPLUGIN_CLOSE (events (uint (EVENTNUM_IDX st))))"
  using three_events [OF assms] by (intro that) (auto simp: events_def)

text \<open>A client that can send: the arguments of the hook lead to a machine with the counter \<open>ctr\<close> and to the numbers \<open>events i\<close>.\<close>

definition client_ready :: "(u64 \<rightharpoonup> circpad_dropmark_t) \<Rightarrow> u64 \<Rightarrow> acc_store \<Rightarrow> u64 \<Rightarrow> conn_edge_plugin_args_t \<Rightarrow> int \<Rightarrow> u32 \<Rightarrow> bool" where
  "client_ready ctxs name st args ea i ctr \<longleftrightarrow> edge_args st args = Some ea \<and>
     (case plugin_ctx st (ea_plugin ea) of None \<Rightarrow> False | Some q \<Rightarrow> ctxs q = Some (events i)) \<and>
     get_int st CIRCPAD_MACHINE_CTR [ea_on_circ ea, name, 19] = Inr (sint ctr)"

text \<open>A relay that can receive: the circuit has the machine of the plugin, with the runtime information \<open>rt\<close>.\<close>

definition relay_ready ::
  "(u64 \<rightharpoonup> circpad_dropmark_t) \<Rightarrow> u64 \<Rightarrow> acc_store \<Rightarrow> u64 \<Rightarrow> relay_process_edge_t \<Rightarrow> int \<Rightarrow> u64 \<Rightarrow> acc_runtime \<Rightarrow> bool" where
  "relay_ready ctxs name st pedge pe j mr rt \<longleftrightarrow> pedges st pedge = Some pe \<and>
     (case plugin_ctx st (pe_plugin pe) of None \<Rightarrow> False | Some q \<Rightarrow> ctxs q = Some (events j)) \<and>
     get_ptr st CIRCPAD_MACHINE_RUNTIME [pe_circ pe, name, 18] = Inr mr \<and> mr \<noteq> 0 \<and> acc_runtimes st mr = Some rt"

lemma send_signal:
  assumes "client_ready ctxs name st args ea i ctr" and "sint ctr \<le> 3" and "sint (ea_param ea) = p" and "1 \<le> p" and "p \<le> 3"
    and "0 \<le> i" and "i + 3 < 256"
  shows "circpad_dropmark_def_send_activate_sig ctxs name st args =
    Inr ((if p = 1 then [Send_Plug_Cell (ea_on_circ ea) 42 2] else []) @
      [Send_To_Middle_Hop (ea_on_circ ea) ([1, word_of_int (i + p)] @ put_be 4 ctr)], 0)"
proof -
  obtain q where c: "edge_args st args = Some ea" "plugin_ctx st (ea_plugin ea) = Some q" "ctxs q = Some (events i)"
    "get_int st CIRCPAD_MACHINE_CTR [ea_on_circ ea, name, 19] = Inr (sint ctr)"
    using assms(1) by (auto simp: client_ready_def split: option.splits)
  then have reads: "get_ptr st CONNEDGE_ARG_CIRCUIT_T [args] = Inr (ea_on_circ ea)" "get_ptr st CONNEDGE_ARG_PLUGIN_T [args] = Inr (ea_plugin ea)"
    "get_ptr st CONNEDGE_PLUGIN_CTX [args] = Inr q" "get_int st CONNEDGE_ARG_PARAM [args] = Inr p" "at_ptr ctxs q = Inr (events i)"
    using assms(3) by (simp_all add: plain_get)
  have "choose_signal (events i) (ea_on_circ ea) p = Some (if p = 1 then [Send_Plug_Cell (ea_on_circ ea) 42 2] else [], i + p)"
    using assms(4,5) by (auto simp: choose_signal_def events_def should_defs)
  moreover have "uint (word_of_int (i + p) :: u8) = i + p"
    using assms(4-7) by (simp only: uint_word_of_int) simp
  then have "circpad_plugin_transition_encode (events i) CELL_PAYLOAD_SIZE
      \<lparr>tr_command = CIRCPAD_COMMAND_SIGPLUGIN, tr_signal_type = word_of_int (i + p), tr_machine_ctr = word_of_int (sint ctr), tr_error_code = False\<rparr> =
      Inr ([1, word_of_int (i + p)] @ put_be 4 ctr)"
    using assms(4,5) by (auto simp: transition_encode_Inr circpad_plugin_transition_check_def is_signal_def events_def
        CIRCPAD_COMMAND_SIGPLUGIN_def CELL_PAYLOAD_SIZE_def)
  ultimately show ?thesis
    using reads c(4) assms(2) by (simp add: circpad_dropmark_def_send_activate_sig_def CIRCPAD_MAX_MACHINES_def)
qed

text \<open>
  The counter of a machine grows with every machine that is set up on the circuit, but the code takes
  values above three for a machine that is not there: from the fourth on no signal is sent.
\<close>

lemma fourth_machine_mute:
  assumes "client_ready ctxs name st args ea i ctr" and "3 < sint ctr"
  shows "circpad_dropmark_def_send_activate_sig ctxs name st args = Inr ([], PLUGIN_RUN_DEFAULT)"
proof -
  obtain q where c: "edge_args st args = Some ea" "plugin_ctx st (ea_plugin ea) = Some q"
    "get_int st CIRCPAD_MACHINE_CTR [ea_on_circ ea, name, 19] = Inr (sint ctr)"
    using assms(1) by (auto simp: client_ready_def split: option.splits)
  then have "get_ptr st CONNEDGE_ARG_CIRCUIT_T [args] = Inr (ea_on_circ ea)" "get_ptr st CONNEDGE_ARG_PLUGIN_T [args] = Inr (ea_plugin ea)"
    "get_ptr st CONNEDGE_PLUGIN_CTX [args] = Inr q"
    by (simp_all add: plain_get)
  with c(3) assms(2) show ?thesis
    by (simp add: circpad_dropmark_def_send_activate_sig_def CIRCPAD_MAX_MACHINES_def)
qed

text \<open>After the hook for a new machine, the machines of the plugin are found by their name, and others are left alone.\<close>

lemma circ_setup_marks:
  assumes "pad_args st args = Some a" and "acc_specs st (pa_machine a) = Some ms" and "acc_runtimes st (pa_machine_runtime a) = Some rt"
    and "pa_machine_runtime a \<noteq> 0" and "sp_name ms \<noteq> 0" and "c_strings st (sp_name ms) = Some s"
  shows "circpad_dropmark_circ_setup st args =
    Inr (if s \<in> set dropmark_names
      then st\<lparr>acc_runtimes := (acc_runtimes st)(pa_machine_runtime a \<mapsto> rt\<lparr>rt_plugin_machine_runtime := sp_name ms\<rparr>)\<rparr> else st, 0)"
  using assms by (simp add: circpad_dropmark_circ_setup_def plain_get host_set_def circpad_set_def set_acc_runtime_def)

text \<open>What the relay does on a signal with the number \<open>s\<close>.\<close>

definition relay_calls :: "int \<Rightarrow> u64 \<Rightarrow> acc_runtime \<Rightarrow> u64 \<Rightarrow> int \<Rightarrow> host_call list" where
  "relay_calls j mr rt circ s =
     (if s \<noteq> j + 1 \<and> rt_is_padding_timer_scheduled rt then [Timer_Disable (rt_padding_timer rt)] else []) @
     [Machine_Transition mr s] @ (if s = j + 3 then [Cleanup_Circ circ 42] else [])"

lemma cancel_timer_ok:
  assumes "acc_runtimes st mr = Some rt" and "mr \<noteq> 0"
  shows "\<exists>st'. cancel_timer st mr =
      Inr (st', if rt_is_padding_timer_scheduled rt then [Timer_Disable (rt_padding_timer rt)] else []) \<and>
    acc_runtimes st' mr = Some (rt\<lparr>rt_is_padding_timer_scheduled := False\<rparr>)"
  using assms by (cases "rt_is_padding_timer_scheduled rt")
    (auto simp: cancel_timer_def plain_get of_flag_def host_set_def circpad_set_def set_acc_runtime_def)

lemma receive_signal:
  fixes ctr :: u32
  assumes "relay_ready ctxs name st pedge pe j mr rt" and "cells (pe_cell pe) = Some (hdr @ [1, s] @ put_be 4 ctr @ rest)"
    and "length hdr = RELAY_HEADER_SIZE"
  shows "if uint s \<in> {j + 1..j + 3}
    then \<exists>st'. circpad_dropmark_def_receive_sig ctxs cells name st pedge = Inr (st', relay_calls j mr rt (pe_circ pe) (uint s), 0)
    else circpad_dropmark_def_receive_sig ctxs cells name st pedge = Inr (st, [], PLUGIN_RUN_DEFAULT)"
proof -
  obtain q where r: "pedges st pedge = Some pe" "plugin_ctx st (pe_plugin pe) = Some q" "ctxs q = Some (events j)"
    "get_ptr st CIRCPAD_MACHINE_RUNTIME [pe_circ pe, name, 18] = Inr mr" "mr \<noteq> 0" "acc_runtimes st mr = Some rt"
    using assms(1) by (auto simp: relay_ready_def split: option.splits)
  then have reads: "get_ptr st RELAY_ARG_CELL_T [pedge] = Inr (pe_cell pe)" "get_ptr st RELAY_ARG_PLUGIN_T [pedge] = Inr (pe_plugin pe)"
    "get_ptr st RELAY_PLUGIN_CTX [pe_plugin pe] = Inr q" "get_ptr st RELAY_ARG_CIRCUIT_T [pedge] = Inr (pe_circ pe)"
    "at_ptr cells (pe_cell pe) = Inr (hdr @ [1, s] @ put_be 4 ctr @ rest)" "at_ptr ctxs q = Inr (events j)"
    using assms(2) by (simp_all add: plain_get)
  have known: "is_signal (events j) s \<longleftrightarrow> uint s \<in> {j + 1..j + 3}"
    by (auto simp: is_signal_def events_def)
  have parse: "circpad_plugin_transition_parse_into (events j) (drop RELAY_HEADER_SIZE (hdr @ [1, s] @ put_be 4 ctr @ rest)) =
      (if uint s \<in> {j + 1..j + 3}
       then Inr (\<lparr>tr_command = 1, tr_signal_type = s, tr_machine_ctr = ctr, tr_error_code = False\<rparr>, 6) else Inl Check_Failed)"
    using assms(3) by (simp add: circpad_plugin_transition_parse_into_def CIRCPAD_COMMAND_SIGPLUGIN_def known)
  obtain st' where "cancel_timer st mr = Inr (st', if rt_is_padding_timer_scheduled rt then [Timer_Disable (rt_padding_timer rt)] else [])"
    using cancel_timer_ok [OF r(6,5)] by blast
  then show ?thesis
    using reads parse r(4,5)
    by (auto simp: circpad_dropmark_def_receive_sig_def relay_calls_def events_def Let_def)
qed

section \<open>Property\<close>

text \<open>
  C31. A signal means what it should only when both sides have the same numbers.  A client whose counter
  of events was \<open>i\<close> when its plugin started sends the signal \<open>p\<close> (1 to pad, 2 to be silent, 3 to stop) as the
  number \<open>i + p\<close>; a relay whose counter was \<open>j\<close> does what its own number \<open>i + p\<close> stands for.  For \<open>i = j\<close> that is the
  signal that was sent, with the timer disabled and the other plugin removed where it calls for it; with
  one more plugin on the client that uses events, a request to pad makes the relay silent, and a
  request to be silent makes it stop; all other numbers are ignored.
\<close>

theorem signals_need_equal_counters:
  assumes "client_ready cctxs cname cst args ea i ctr" and "sint ctr \<le> 3" and "sint (ea_param ea) = p" and "1 \<le> p" and "p \<le> 3"
    and "0 \<le> i" and "i + 3 < 256" and "relay_ready rctxs rname rst pedge pe j mr rt"
  shows "\<exists>calls bytes. circpad_dropmark_def_send_activate_sig cctxs cname cst args = Inr (calls @ [Send_To_Middle_Hop (ea_on_circ ea) bytes], 0) \<and>
    (\<forall>cells hdr rest. length hdr = RELAY_HEADER_SIZE \<longrightarrow> cells (pe_cell pe) = Some (hdr @ bytes @ rest) \<longrightarrow>
     (if i + p \<in> {j + 1..j + 3}
      then \<exists>rst'. circpad_dropmark_def_receive_sig rctxs cells rname rst pedge = Inr (rst', relay_calls j mr rt (pe_circ pe) (i + p), 0)
      else circpad_dropmark_def_receive_sig rctxs cells rname rst pedge = Inr (rst, [], PLUGIN_RUN_DEFAULT)))"
proof -
  define s :: u8 where "s = word_of_int (i + p)"
  have "uint s = i + p"
    unfolding s_def using assms(4-7) by (simp only: uint_word_of_int) simp
  then have "if i + p \<in> {j + 1..j + 3}
      then \<exists>rst'. circpad_dropmark_def_receive_sig rctxs cells rname rst pedge = Inr (rst', relay_calls j mr rt (pe_circ pe) (i + p), 0)
      else circpad_dropmark_def_receive_sig rctxs cells rname rst pedge = Inr (rst, [], PLUGIN_RUN_DEFAULT)"
    if "length hdr = RELAY_HEADER_SIZE" and "cells (pe_cell pe) = Some (hdr @ ([1, s] @ put_be 4 ctr) @ rest)" for cells hdr rest
    using receive_signal [where cells = cells, OF assms(8) that(2) [unfolded append_assoc] that(1)] by (simp only:)
  then show ?thesis
    using send_signal [OF assms(1-7), folded s_def] by blast
qed

definition demo_signal_store :: "acc_store" where
  "demo_signal_store = demo_store\<lparr>edge_args := [16 \<mapsto> \<lparr>ea_on_circ = 64, ea_param = 1, ea_plugin = 32\<rparr>],
     pedges := [24 \<mapsto> \<lparr>pe_plugin = 32, pe_circ = 64, pe_layer_hint = 0, pe_edgeconn = 0, pe_cell = 128, pe_cell_direction = 2, pe_chan = 0\<rparr>],
     plugin_ctx := [32 \<mapsto> 80], c_strings := [112 \<mapsto> dropmark_names ! 0, 144 \<mapsto> dropmark_names ! 1],
     acc_circuits := [64 \<mapsto> \<lparr>ac_is_origin = False, ac_deliver_window = 1000, ac_p_conn_ctx = 0, ac_p_chan = 0, ac_n_chan = 0,
       ac_marked_for_close = 0, ac_p_chan_cells_n = 0, ac_n_circ_id = 0, ac_padding_info = [0, 96, 160]\<rparr>],
     acc_runtimes := [96 \<mapsto> \<lparr>rt_plugin_machine_runtime = 112, rt_padding_scheduled_at_usec = 0, rt_is_padding_timer_scheduled = False,
         rt_current_state = 0, rt_state_length = 0, rt_machine_ctr = 1, rt_padding_timer = 0\<rparr>,
       160 \<mapsto> \<lparr>rt_plugin_machine_runtime = 144, rt_padding_scheduled_at_usec = 0, rt_is_padding_timer_scheduled = True,
         rt_current_state = 1, rt_state_length = 2, rt_machine_ctr = 1, rt_padding_timer = 176\<rparr>]\<rparr>"

lemma demo_signal_ready:
  "client_ready [80 \<mapsto> events 8] 112 demo_signal_store 16 (the (edge_args demo_signal_store 16)) 8 1"
  "relay_ready [80 \<mapsto> events 7] 144 demo_signal_store 24 (the (pedges demo_signal_store 24)) 7 160 (the (acc_runtimes demo_signal_store 160))"
  "relay_calls 7 160 (the (acc_runtimes demo_signal_store 160)) 64 9 = [Timer_Disable 176, Machine_Transition 160 9]"
  by code_simp+

theorem signals_need_equal_counters_witness:
  "\<exists>calls bytes. circpad_dropmark_def_send_activate_sig [80 \<mapsto> events 8] 112 demo_signal_store 16 =
      Inr (calls @ [Send_To_Middle_Hop 64 bytes], 0) \<and>
    (\<exists>rst'. circpad_dropmark_def_receive_sig [80 \<mapsto> events 7] [128 \<mapsto> replicate 11 0 @ bytes @ [0]] 144 demo_signal_store 24 =
       Inr (rst', [Timer_Disable 176, Machine_Transition 160 9], 0))"
proof -
  let ?ea = "the (edge_args demo_signal_store 16)" and ?pe = "the (pedges demo_signal_store 24)"
  have facts: "sint (ea_param ?ea) = 1" "ea_on_circ ?ea = 64" "pe_cell ?pe = 128" "pe_circ ?pe = 64"
    by (simp_all add: demo_signal_store_def)
  obtain calls bytes where "circpad_dropmark_def_send_activate_sig [80 \<mapsto> events 8] 112 demo_signal_store 16 =
      Inr (calls @ [Send_To_Middle_Hop 64 bytes], 0)"
    and r: "\<And>cells hdr rest. length hdr = RELAY_HEADER_SIZE \<Longrightarrow> cells 128 = Some (hdr @ bytes @ rest) \<Longrightarrow>
      \<exists>rst'. circpad_dropmark_def_receive_sig [80 \<mapsto> events 7] cells 144 demo_signal_store 24 =
        Inr (rst', relay_calls 7 160 (the (acc_runtimes demo_signal_store 160)) 64 9, 0)"
    using signals_need_equal_counters [OF demo_signal_ready(1) _ facts(1) _ _ _ _ demo_signal_ready(2)] unfolding facts by auto
  moreover have "\<exists>rst'. circpad_dropmark_def_receive_sig [80 \<mapsto> events 7] [128 \<mapsto> replicate 11 0 @ bytes @ [0]] 144 demo_signal_store 24 =
      Inr (rst', [Timer_Disable 176, Machine_Transition 160 9], 0)"
    using r [of "replicate 11 0" "[128 \<mapsto> replicate 11 0 @ bytes @ [0]]" "[0]"] unfolding demo_signal_ready(3) by (simp add: RELAY_HEADER_SIZE_def)
  ultimately show ?thesis
    by blast
qed

end
