(* ===== verification/Plugin_Sendme.thy ===== *)
theory Plugin_Sendme
  imports Plugin_Access Sendme
begin

text \<open>
  The plugin that replaces flow control for data cells that arrive (\<^verbatim>\<open>src/plugins/sendme\<close>): it does by key what
  \<^verbatim>\<open>src/core/or/sendme.c\<close> does on the structures.  \<open>send\<close> gives the result of the \<open>k\<close>-th call of
  \<open>relay_send_command_from_edge\<close>, and a state comes with the payloads of the SENDME cells that were sent.  The loop
  of \<open>consider_sending_sendme\<close> need not end, so its result is an option, with \<^const>\<open>None\<close> for a loop that does not.

  At an exit the plugin keeps the window as the host does, but its SENDME cells have no payload.  At a
  client the host ignores the key that it writes.
\<close>

section \<open>The entry points\<close>

definition c_int_arg :: "int \<Rightarrow> u64" where "c_int_arg w = word_of_int w"

definition plugin_circuit_data_received :: "acc_store \<Rightarrow> u64 \<Rightarrow> acc_fault + acc_store" where
  "plugin_circuit_data_received st pedge =
     and_then (get_ptr st RELAY_ARG_CIRCUIT_T [pedge]) (\<lambda>circ.
     and_then (get_ptr st RELAY_ARG_CRYPT_PATH_T [pedge]) (\<lambda>layer_hint.
     and_then (get_int st UTIL_CIRCUIT_IS_ORIGIN [circ]) (\<lambda>origin.
       if origin \<noteq> 0 then
         and_then (get_int st RELAY_LAYER_HINT_DELIVER_WINDOW [layer_hint]) (\<lambda>w.
           host_set st RELAY_LAYER_HINT_DELIVER_WINDOW [layer_hint, c_int_arg (w - 1)])
       else
         and_then (get_int st RELAY_CIRC_DELIVER_WINDOW [circ]) (\<lambda>w.
           host_set st RELAY_CIRC_DELIVER_WINDOW [circ, c_int_arg (w - 1)]))))"

definition plugin_stream_data_received :: "acc_store \<Rightarrow> u64 \<Rightarrow> acc_fault + acc_store \<times> int" where
  "plugin_stream_data_received st pedge =
     and_then (get_int st RELAY_CONN_DELIVER_WINDOW [pedge]) (\<lambda>w.
     and_then (host_set st RELAY_CONN_DELIVER_WINDOW [pedge, c_int_arg (w - 1)]) (\<lambda>st.
       Inr (st, if w - 1 < 0 then -1 else 0)))"

text \<open>
  \<open>call_host_func\<close> with the key \<open>RELAY_SEND_COMMAND_FROM_EDGE\<close>: the host sends the command with the payload
  \<open>NULL\<close> of length 0, whatever the command is.
\<close>

type_synonym payloads = "u8 list list"

definition send_command_from_edge :: "(nat \<Rightarrow> int) \<Rightarrow> payloads \<Rightarrow> payloads \<times> int" where
  "send_command_from_edge send ps = (ps @ [[]], send (length ps))"

partial_function (option) sendme_loop ::
  "(nat \<Rightarrow> int) \<Rightarrow> u64 \<Rightarrow> u64 \<Rightarrow> int \<Rightarrow> int \<Rightarrow> payloads \<Rightarrow> acc_store \<Rightarrow> (acc_fault + acc_store \<times> payloads \<times> int) option" where
  "sendme_loop send circ layer_hint layer_w circ_w ps st =
     (if (if layer_hint \<noteq> 0 then layer_w else circ_w) \<le> CIRCWINDOW_START - CIRCWINDOW_INCREMENT then
        (case (if layer_w \<noteq> 0 then host_set st RELAY_LAYER_HINT_DELIVER_WINDOW [layer_hint, c_int_arg (layer_w + CIRCWINDOW_INCREMENT)]
               else host_set st RELAY_CIRC_DELIVER_WINDOW [circ, c_int_arg (circ_w + CIRCWINDOW_INCREMENT)]) of
           Inl f \<Rightarrow> Some (Inl f)
         | Inr st' \<Rightarrow>
             if snd (send_command_from_edge send ps) < 0 then Some (Inr (st', fst (send_command_from_edge send ps), 1))
             else sendme_loop send circ layer_hint (if layer_w \<noteq> 0 then layer_w + CIRCWINDOW_INCREMENT else layer_w)
               (if layer_w \<noteq> 0 then circ_w else circ_w + CIRCWINDOW_INCREMENT) (fst (send_command_from_edge send ps)) st')
      else Some (Inr (st, ps, 0)))"

declare sendme_loop.simps [code]

definition consider_windows :: "acc_store \<Rightarrow> u64 \<Rightarrow> acc_fault + u64 \<times> u64 \<times> int \<times> int" where
  "consider_windows st pedge =
     and_then (get_ptr st RELAY_ARG_CIRCUIT_T [pedge]) (\<lambda>circ.
     and_then (get_ptr st RELAY_ARG_CRYPT_PATH_T [pedge]) (\<lambda>layer_hint.
       if layer_hint \<noteq> 0 then
         and_then (get_int st RELAY_LAYER_HINT_DELIVER_WINDOW [layer_hint]) (\<lambda>w. Inr (circ, layer_hint, w, 0))
       else
         and_then (get_int st RELAY_CIRC_DELIVER_WINDOW [circ]) (\<lambda>w. Inr (circ, layer_hint, 0, w))))"

definition consider_sending_sendme :: "(nat \<Rightarrow> int) \<Rightarrow> payloads \<Rightarrow> acc_store \<Rightarrow> u64 \<Rightarrow> (acc_fault + acc_store \<times> payloads \<times> int) option" where
  "consider_sending_sendme send ps st pedge =
     (case consider_windows st pedge of
        Inl f \<Rightarrow> Some (Inl f)
      | Inr (circ, layer_hint, layer_w, circ_w) \<Rightarrow> sendme_loop send circ layer_hint layer_w circ_w ps st)"

text \<open>What the host does with a data cell when the plugin is in place, as far as the circuit is concerned; both hooks return a number that it ignores.\<close>

definition plugin_data_cell :: "(nat \<Rightarrow> int) \<Rightarrow> u64 \<Rightarrow> acc_store \<times> payloads \<Rightarrow> (acc_fault + acc_store \<times> payloads) option" where
  "plugin_data_cell send pedge s =
     (case plugin_circuit_data_received (fst s) pedge of
        Inl f \<Rightarrow> Some (Inl f)
      | Inr st \<Rightarrow> (case consider_sending_sendme send (snd s) st pedge of
            None \<Rightarrow> None
          | Some r \<Rightarrow> Some (and_then r (\<lambda>(st, ps, _). Inr (st, ps)))))"

fun plugin_data_cells :: "(nat \<Rightarrow> int) \<Rightarrow> u64 \<Rightarrow> nat \<Rightarrow> acc_store \<times> payloads \<Rightarrow> (acc_fault + acc_store \<times> payloads) option" where
  "plugin_data_cells send pedge 0 s = Some (Inr s)"
| "plugin_data_cells send pedge (Suc n) s =
     (case plugin_data_cell send pedge s of
        None \<Rightarrow> None
      | Some (Inl f) \<Rightarrow> Some (Inl f)
      | Some (Inr s') \<Rightarrow> plugin_data_cells send pedge n s')"

section \<open>Lemmas\<close>

lemma window_arg: "- (2 ^ 31) \<le> w \<Longrightarrow> w < 2 ^ 31 \<Longrightarrow> sint (ucast (c_int_arg w) :: u32) = w"
proof -
  assume "- (2 ^ 31) \<le> w" and "w < 2 ^ 31"
  moreover have "ucast (c_int_arg w) = (word_of_int w :: u32)"
    unfolding c_int_arg_def by (rule bit_word_eqI) (auto simp: bit_simps)
  ultimately show ?thesis
    by (simp add: signed_of_int signed_take_bit_int_eq_self)
qed

lemmas sendme_get = plain_get host_set_def relay_set_def util_get_def of_flag_def

lemma loop_done [simp]: "900 < (if layer_hint \<noteq> 0 then layer_w else circ_w) \<Longrightarrow>
    sendme_loop send circ layer_hint layer_w circ_w ps st = Some (Inr (st, ps, 0))"
  by (subst sendme_loop.simps) (simp add: window_defs)

text \<open>At a client: nothing is written, and a window that is not low stays as it is.\<close>

lemma client_data_cell:
  assumes "pedges st pedge = Some pe" and "acc_circuits st (pe_circ pe) = Some c" and "ac_is_origin c"
    and "pe_layer_hint pe \<noteq> 0" and "layer_windows st (pe_layer_hint pe) = Some w" and "900 < sint w"
  shows "plugin_data_cell send pedge (st, ps) = Some (Inr (st, ps))"
proof -
  have "plugin_circuit_data_received st pedge = Inr st"
    using assms(1-5) by (simp add: plugin_circuit_data_received_def sendme_get)
  moreover have "consider_windows st pedge = Inr (pe_circ pe, pe_layer_hint pe, sint w, 0)"
    using assms(1,4,5) by (simp add: consider_windows_def sendme_get)
  ultimately show ?thesis
    using assms(4,6) by (simp add: plugin_data_cell_def consider_sending_sendme_def)
qed

text \<open>At an exit: the window goes down by one, and up by the increment with a SENDME when it was low.\<close>

definition with_window :: "acc_store \<Rightarrow> u64 \<Rightarrow> acc_circuit \<Rightarrow> int \<Rightarrow> acc_store" where
  "with_window st p c w = st\<lparr>acc_circuits := (acc_circuits st)(p \<mapsto> c\<lparr>ac_deliver_window := word_of_int w\<rparr>)\<rparr>"

lemma ucast_c_int_arg [simp]: "ucast (c_int_arg w) = (word_of_int w :: u32)"
  unfolding c_int_arg_def by (rule bit_word_eqI) (auto simp: bit_simps)

lemma exit_data_cell:
  assumes "pedges st pedge = Some pe" and "acc_circuits st (pe_circ pe) = Some c" and "\<not> ac_is_origin c"
    and "pe_layer_hint pe = 0" and "sint (ac_deliver_window c) = w" and "900 < w" and "w \<le> 1000" and "0 \<le> send (length ps)"
  shows "plugin_data_cell send pedge (st, ps) =
    Some (Inr (if w = 901 then (with_window st (pe_circ pe) c 1000, ps @ [[]]) else (with_window st (pe_circ pe) c (w - 1), ps)))"
proof -
  let ?st = "with_window st (pe_circ pe) c (w - 1)"
  have "plugin_circuit_data_received st pedge = Inr ?st"
    using assms(1-5) by (simp add: plugin_circuit_data_received_def sendme_get with_window_def)
  moreover have "sint (word_of_int (w - 1) :: u32) = w - 1"
    using window_arg [of "w - 1"] assms(6,7) by simp
  then have "consider_windows ?st pedge = Inr (pe_circ pe, 0, 0, w - 1)"
    using assms(1,4) by (simp add: consider_windows_def sendme_get with_window_def)
  moreover have "sendme_loop send (pe_circ pe) 0 0 900 ps (with_window st (pe_circ pe) c 900) =
      Some (Inr (with_window st (pe_circ pe) c 1000, ps @ [[]], 0))"
    using assms(8) by (subst sendme_loop.simps) (simp add: window_defs sendme_get with_window_def send_command_from_edge_def)
  ultimately show ?thesis
    using assms(6) by (simp add: plugin_data_cell_def consider_sending_sendme_def)
qed

text \<open>A client whose window is zero would send SENDME cells without end.\<close>

lemma circ_window_written:
  "acc_circuits st circ = Some c \<Longrightarrow> host_set st RELAY_CIRC_DELIVER_WINDOW [circ, c_int_arg w] = Inr (with_window st circ c w)"
  by (simp add: sendme_get with_window_def)

lemma zero_window_loops:
  assumes "layer_hint \<noteq> 0" and "acc_circuits st circ \<noteq> None" and "\<And>k. 0 \<le> send k"
  shows "sendme_loop send circ layer_hint 0 circ_w ps st = None"
proof -
  have "layer_hint \<noteq> 0 \<longrightarrow> layer_w = 0 \<longrightarrow> acc_circuits st circ \<noteq> None \<longrightarrow> (\<forall>k. 0 \<le> send k) \<longrightarrow> False"
    if "sendme_loop send circ layer_hint layer_w circ_w ps st = Some r" for layer_w r
  proof (rule sendme_loop.raw_induct [OF _ that], goal_cases)
    case (1 loop send circ layer_hint layer_w circ_w ps st r)
    show ?case
    proof (intro impI notI)
      assume h: "layer_hint \<noteq> 0" "layer_w = 0" "acc_circuits st circ \<noteq> None" "\<forall>k. 0 \<le> send k"
      then obtain c where c: "acc_circuits st circ = Some c"
        by blast
      have "\<not> snd (send_command_from_edge send ps) < 0"
        using h(4) by (simp add: not_less send_command_from_edge_def)
      then have "loop send circ layer_hint 0 (circ_w + CIRCWINDOW_INCREMENT) (fst (send_command_from_edge send ps)) (with_window st circ c (circ_w + CIRCWINDOW_INCREMENT)) = Some r"
        using 1(2) h circ_window_written [OF c] by (simp add: window_defs)
      from 1(1) [OF this] h show False
        by (simp add: with_window_def)
    qed
  qed
  then show ?thesis
    using assms by (metis not_None_eq)
qed

lemma client_data_cells:
  assumes "pedges st pedge = Some pe" and "acc_circuits st (pe_circ pe) = Some c" and "ac_is_origin c"
    and "pe_layer_hint pe \<noteq> 0" and "layer_windows st (pe_layer_hint pe) = Some w" and "900 < sint w"
  shows "plugin_data_cells send pedge n (st, ps) = Some (Inr (st, ps))"
  by (induction n) (simp_all add: client_data_cell [OF assms])

section \<open>Property\<close>

text \<open>A SENDME without a payload is one of version 0: it needs a recorded digest, but not to match it.\<close>

lemma empty_sendme_validity:
  "snd (sendme_is_valid accept_version circ []) \<longleftrightarrow> accept_version \<le> 0 \<and> sendme_last_digests circ \<noteq> []"
  by (cases "sendme_last_digests circ")
    (auto simp: sendme_is_valid_def cell_version_can_be_handled_def SENDME_MAX_SUPPORTED_VERSION_def pop_first_cell_digest_def)

text \<open>
  C30. The plugin keeps the delivery window at an exit as the host does, but its acknowledgements carry
  nothing, and at a client it does none of the work.  For a circuit whose delivery window is where flow
  control keeps it, a data cell at an exit leaves the window that \<open>sendme.c\<close> would leave, and a SENDME is
  sent exactly when \<open>sendme.c\<close> would send one; where its payload would hold the digest of the cell
  (\<open>sendme_payload\<close>), that of the plugin is empty, and a peer accepts an empty SENDME exactly when it does
  not require version 1 and has a digest recorded.  At a client the window is that of the last hop, whose
  key \<open>set\<close> does not know: however many data cells arrive, the window stays as it was and no SENDME is
  sent, so that the other side stops sending when its window is used up.
\<close>

theorem sendme_plugin_stalls_client:
  assumes "pedges st pedge = Some pe" and "acc_circuits st (pe_circ pe) = Some c"
    and "if ac_is_origin c then pe_layer_hint pe \<noteq> 0 \<and> layer_windows st (pe_layer_hint pe) = Some w
      else pe_layer_hint pe = 0 \<and> ac_deliver_window c = w"
    and "900 < sint w" and "sint w \<le> 1000" and "0 \<le> send (length ps)"
    and "ep_ok ep" and "ep_deliver ep = sint w" and "length d = 20"
  shows "if ac_is_origin c then \<forall>n. plugin_data_cells send pedge n (st, ps) = Some (Inr (st, ps))
    else \<exists>ep' out. receive_data v d ep = Some (ep', out) \<and>
      out = (if sint w = 901 then [Sendme (sendme_payload v d)] else []) \<and>
      plugin_data_cell send pedge (st, ps) =
        Some (Inr (with_window st (pe_circ pe) c (ep_deliver ep'), ps @ map (\<lambda>_. []) out)) \<and>
      (snd (sendme_is_valid accept_version peer []) \<longleftrightarrow> accept_version \<le> 0 \<and> sendme_last_digests peer \<noteq> [])"
proof (cases "ac_is_origin c")
  case True
  with assms(3) show ?thesis
    using client_data_cells [OF assms(1,2) True _ _ assms(4)] by simp
next
  case False
  then have w: "pe_layer_hint pe = 0" "sint (ac_deliver_window c) = sint w"
    using assms(3) by simp_all
  obtain ep' out where "receive_data v d ep = Some (ep', out)"
    "if ep_deliver ep = 901 then ep_deliver ep' = 1000 \<and> out = [Sendme (sendme_payload v d)]
     else ep_deliver ep' = ep_deliver ep - 1 \<and> out = []"
    using receive_data_views [OF assms(7) _ _ assms(9), of v] assms(4,5,8) by auto
  with False show ?thesis
    using exit_data_cell [where send = send and ps = ps, OF assms(1,2) False w assms(4-6)] assms(8)
    by (auto simp: empty_sendme_validity split: if_splits)
qed

definition demo_sendme :: "bool \<Rightarrow> u32 \<Rightarrow> acc_store" where
  "demo_sendme origin w = demo_store\<lparr>layer_windows := [48 \<mapsto> w],
     pedges := [24 \<mapsto> \<lparr>pe_plugin = 32, pe_circ = 64, pe_layer_hint = (if origin then 48 else 0), pe_edgeconn = 0, pe_cell = 128,
       pe_cell_direction = 2, pe_chan = 0\<rparr>],
     acc_circuits := [64 \<mapsto> \<lparr>ac_is_origin = origin, ac_deliver_window = w, ac_p_conn_ctx = 0, ac_p_chan = 0, ac_n_chan = 0,
       ac_marked_for_close = 0, ac_p_chan_cells_n = 0, ac_n_circ_id = 0, ac_padding_info = []\<rparr>]\<rparr>"

definition demo_exit :: endpoint where
  "demo_exit = (\<lparr>package_window = 1000, deliver_window = 901, sendme_last_digests = [], sendme_digest = [], is_origin = False,
     n_delivered_read_circ_bw = 0, n_overhead_read_circ_bw = 0\<rparr>, None)"

lemma demo_sendme_facts: "pedges (demo_sendme origin w) 24 = Some (the (pedges (demo_sendme origin w) 24))"
  "acc_circuits (demo_sendme origin w) 64 = Some (the (acc_circuits (demo_sendme origin w) 64))"
  "pe_circ (the (pedges (demo_sendme origin w) 24)) = 64" "ac_is_origin (the (acc_circuits (demo_sendme origin w) 64)) = origin"
  by (simp_all add: demo_sendme_def)

theorem sendme_plugin_stalls_client_witness:
  "plugin_data_cells (\<lambda>_. 0) 24 5000 (demo_sendme True 901, []) = Some (Inr (demo_sendme True 901, [])) \<and>
   (\<exists>ep'. receive_data 1 (replicate 20 7) demo_exit = Some (ep', [Sendme (sendme_payload 1 (replicate 20 7))]) \<and>
     plugin_data_cell (\<lambda>_. 0) 24 (demo_sendme False 901, []) =
       Some (Inr (with_window (demo_sendme False 901) 64 (the (acc_circuits (demo_sendme False 901) 64)) (ep_deliver ep'), [[]])))"
proof -
  have ep: "ep_ok demo_exit" "ep_deliver demo_exit = sint (901 :: u32)" "length (replicate 20 (7 :: u8)) = 20"
    by (simp_all add: demo_exit_def ep_ok_def ep_deliver_def)
  have st: "\<And>origin. acc_circuits (demo_sendme origin 901) (pe_circ (the (pedges (demo_sendme origin 901) 24))) =
      Some (the (acc_circuits (demo_sendme origin 901) 64))"
    "\<And>origin. let pe = the (pedges (demo_sendme origin 901) 24); c = the (acc_circuits (demo_sendme origin 901) 64) in
      if ac_is_origin c then pe_layer_hint pe \<noteq> 0 \<and> layer_windows (demo_sendme origin 901) (pe_layer_hint pe) = Some 901
      else pe_layer_hint pe = 0 \<and> ac_deliver_window c = 901"
    by (simp_all add: demo_sendme_def)
  note r = sendme_plugin_stalls_client [where send = "\<lambda>_. 0" and ps = "[]" and v = 1,
      OF demo_sendme_facts(1) st(1) st(2) [unfolded Let_def] _ _ _ ep, unfolded demo_sendme_facts(3,4)]
  show ?thesis
    using r [of True] r [of False] by simp blast
qed

end
