(* ===== verification/Buffers.thy ===== *)
theory Buffers
  imports Smartlist
begin

text \<open>
  Buffers (\<^verbatim>\<open>src/lib/buf/buffers.c\<close>): byte queues kept as a list of memory chunks.  A chunk is its
  memory with the stretch of it that holds data, a buffer is the chain of chunks from \<open>head\<close> to
  \<open>tail\<close> (the empty list when both are \<open>NULL\<close>), its length and its chunk size.  Every operation may
  fail: \<open>Buf_Assert\<close> is a failed \<open>tor_assert\<close>, \<open>Buf_Overrun\<close> an access outside the memory of a chunk,
  \<open>Buf_Endless\<close> a loop that makes no progress.  The four zero bytes behind the memory of a chunk are
  never read and are left out; allocation succeeds.

  The theorems show that none of the failures happens on a buffer that \<open>buf_assert_ok\<close> accepts, that
  each operation is the operation of the same meaning on the list of the bytes, and that the global
  count of allocated bytes stays exact.
\<close>

section \<open>Data\<close>

datatype buf_fault = Buf_Assert | Buf_Overrun | Buf_Endless

record chunk_t =
  ch_mem :: "u8 list"
  ch_data :: nat
  ch_datalen :: nat
  inserted_time :: u32

record buf_t =
  buf_magic :: u32
  buf_len :: nat
  default_chunk_size :: nat
  chunks :: "chunk_t list"

text \<open>
  What the operations share: the count of the bytes in all the chunks, what new memory holds when it
  comes from the allocator, and the coarse clock.
\<close>

record chunk_heap =
  total_bytes_allocated_in_chunks :: nat
  fresh_mem :: "nat \<Rightarrow> u8"
  coarse_stamp :: u32

definition BUFFER_MAGIC :: u32 where "BUFFER_MAGIC = 0xB0FFF312"
definition BUF_MAX_LEN :: nat where "BUF_MAX_LEN = 2147483646"
definition SIZE_T_CEILING :: nat where "SIZE_T_CEILING = 9223372036854775791"

text \<open>The header is five words and the time stamp; the sentinel is four bytes.\<close>

definition CHUNK_OVERHEAD :: nat where "CHUNK_OVERHEAD = 44 + 4"

definition CHUNK_ALLOC_SIZE :: "nat \<Rightarrow> nat" where
  "CHUNK_ALLOC_SIZE memlen = CHUNK_OVERHEAD + memlen"

definition CHUNK_SIZE_WITH_ALLOC :: "nat \<Rightarrow> nat" where
  "CHUNK_SIZE_WITH_ALLOC alloc = alloc - CHUNK_OVERHEAD"

definition MIN_CHUNK_ALLOC :: nat where "MIN_CHUNK_ALLOC = 256"
definition MAX_CHUNK_ALLOC :: nat where "MAX_CHUNK_ALLOC = 65536"

definition CHUNK_REMAINING_CAPACITY :: "chunk_t \<Rightarrow> nat" where
  "CHUNK_REMAINING_CAPACITY ch = length (ch_mem ch) - (ch_data ch + ch_datalen ch)"

text \<open>The difference of two values of type \<open>size_t\<close>, and the conversion of one to \<open>int\<close>.\<close>

definition size_diff :: "nat \<Rightarrow> nat \<Rightarrow> nat" where
  "size_diff a b = (a + 2 ^ 64 - b) mod 2 ^ 64"

definition to_c_int :: "nat \<Rightarrow> int" where
  "to_c_int n = sint (of_nat n :: u32)"

section \<open>Chunks\<close>

definition chunk_data :: "chunk_t \<Rightarrow> u8 list" where
  "chunk_data ch = take (ch_datalen ch) (drop (ch_data ch) (ch_mem ch))"

text \<open>\<open>memcpy\<close> to \<open>CHUNK_WRITE_PTR\<close> and the new length of the chunk.\<close>

definition chunk_write :: "chunk_t \<Rightarrow> u8 list \<Rightarrow> buf_fault + chunk_t" where
  "chunk_write ch bs =
     (let w = ch_data ch + ch_datalen ch in
      if length (ch_mem ch) < w + length bs then Inl Buf_Overrun
      else Inr (ch\<lparr>ch_mem := put_range w bs (ch_mem ch), ch_datalen := ch_datalen ch + length bs\<rparr>))"

text \<open>\<open>memcpy\<close> of the first \<open>n\<close> bytes from \<open>chunk->data\<close>.\<close>

definition chunk_read :: "chunk_t \<Rightarrow> nat \<Rightarrow> buf_fault + u8 list" where
  "chunk_read ch n =
     (if length (ch_mem ch) < ch_data ch + n then Inl Buf_Overrun
      else Inr (take n (drop (ch_data ch) (ch_mem ch))))"

definition chunk_repack :: "chunk_t \<Rightarrow> chunk_t" where
  "chunk_repack ch =
     (if ch_datalen ch \<noteq> 0 \<and> ch_data ch \<noteq> 0 then ch\<lparr>ch_mem := put_range 0 (chunk_data ch) (ch_mem ch)\<rparr> else ch)
     \<lparr>ch_data := 0\<rparr>"

definition buf_chunk_free_unchecked :: "chunk_heap \<Rightarrow> chunk_t \<Rightarrow> buf_fault + chunk_heap" where
  "buf_chunk_free_unchecked e ch =
     (let n = CHUNK_ALLOC_SIZE (length (ch_mem ch)) in
      if total_bytes_allocated_in_chunks e < n then Inl Buf_Assert
      else Inr (e\<lparr>total_bytes_allocated_in_chunks := total_bytes_allocated_in_chunks e - n\<rparr>))"

definition chunk_new_with_alloc_size :: "chunk_heap \<Rightarrow> nat \<Rightarrow> chunk_heap \<times> chunk_t" where
  "chunk_new_with_alloc_size e alloc =
     (e\<lparr>total_bytes_allocated_in_chunks := total_bytes_allocated_in_chunks e + alloc\<rparr>,
      \<lparr>ch_mem = map (fresh_mem e) [0..<CHUNK_SIZE_WITH_ALLOC alloc], ch_data = 0, ch_datalen = 0,
       inserted_time = 0\<rparr>)"

definition chunk_grow :: "chunk_heap \<Rightarrow> chunk_t \<Rightarrow> nat \<Rightarrow> buf_fault + chunk_heap \<times> chunk_t" where
  "chunk_grow e ch sz =
     (let memlen = length (ch_mem ch) in
      if sz \<le> memlen then Inl Buf_Assert
      else Inr (e\<lparr>total_bytes_allocated_in_chunks := total_bytes_allocated_in_chunks e +
                    (CHUNK_ALLOC_SIZE sz - CHUNK_ALLOC_SIZE memlen)\<rparr>,
                ch\<lparr>ch_mem := ch_mem ch @ map (fresh_mem e) [memlen..<sz]\<rparr>))"

definition chunk_copy :: "chunk_heap \<Rightarrow> chunk_t \<Rightarrow> chunk_heap \<times> chunk_t" where
  "chunk_copy e ch =
     (e\<lparr>total_bytes_allocated_in_chunks := total_bytes_allocated_in_chunks e +
          CHUNK_ALLOC_SIZE (length (ch_mem ch))\<rparr>, ch)"

text \<open>The size is doubled from \<open>MIN_CHUNK_ALLOC\<close>, so it is never zero here.\<close>

function chunk_size_loop :: "nat \<Rightarrow> nat \<Rightarrow> nat" where
  "chunk_size_loop target sz =
     (if 0 < sz \<and> CHUNK_SIZE_WITH_ALLOC sz < target then chunk_size_loop target (2 * sz) else sz)"
  by pat_completeness auto
termination
  by (relation "measure (\<lambda>(target, sz). target + CHUNK_OVERHEAD - sz)")
    (auto simp: CHUNK_SIZE_WITH_ALLOC_def)

declare chunk_size_loop.simps [simp del]

definition buf_preferred_chunk_size :: "nat \<Rightarrow> buf_fault + nat" where
  "buf_preferred_chunk_size target =
     (if SIZE_T_CEILING - CHUNK_OVERHEAD < target then Inl Buf_Assert
      else if MAX_CHUNK_ALLOC \<le> CHUNK_ALLOC_SIZE target then Inr (CHUNK_ALLOC_SIZE target)
      else Inr (chunk_size_loop target MIN_CHUNK_ALLOC))"

section \<open>Buffers\<close>

definition buf_new :: buf_t where
  "buf_new = \<lparr>buf_magic = BUFFER_MAGIC, buf_len = 0, default_chunk_size = 4096, chunks = []\<rparr>"

definition buf_new_with_capacity :: "nat \<Rightarrow> buf_fault + buf_t" where
  "buf_new_with_capacity sz =
     and_then (buf_preferred_chunk_size sz) (\<lambda>n. Inr (buf_new\<lparr>default_chunk_size := n\<rparr>))"

definition buf_get_default_chunk_size :: "buf_t \<Rightarrow> nat" where
  "buf_get_default_chunk_size b = default_chunk_size b"

definition buf_datalen :: "buf_t \<Rightarrow> nat" where
  "buf_datalen b = buf_len b"

definition buf_allocation :: "buf_t \<Rightarrow> nat" where
  "buf_allocation b = sum_list (map (\<lambda>ch. CHUNK_ALLOC_SIZE (length (ch_mem ch))) (chunks b))"

definition buf_slack :: "buf_t \<Rightarrow> nat" where
  "buf_slack b = (if chunks b = [] then 0 else CHUNK_REMAINING_CAPACITY (last (chunks b)))"

definition buf_get_oldest_chunk_timestamp :: "buf_t \<Rightarrow> u32 \<Rightarrow> u32" where
  "buf_get_oldest_chunk_timestamp b now = (case chunks b of [] \<Rightarrow> 0 | ch # _ \<Rightarrow> now - inserted_time ch)"

definition buf_get_total_allocation :: "chunk_heap \<Rightarrow> nat" where
  "buf_get_total_allocation e = total_bytes_allocated_in_chunks e"

fun clear_loop :: "chunk_heap \<Rightarrow> chunk_t list \<Rightarrow> buf_fault + chunk_heap" where
  "clear_loop e [] = Inr e"
| "clear_loop e (ch # chs) = and_then (buf_chunk_free_unchecked e ch) (\<lambda>e'. clear_loop e' chs)"

definition buf_clear :: "chunk_heap \<Rightarrow> buf_t \<Rightarrow> buf_fault + chunk_heap \<times> buf_t" where
  "buf_clear e b =
     and_then (clear_loop e (chunks b)) (\<lambda>e'. Inr (e', b\<lparr>buf_len := 0, chunks := []\<rparr>))"

text \<open>\<open>buf_free\<close> on a buffer that may be \<open>NULL\<close>: what is left is the heap.\<close>

definition buf_free :: "chunk_heap \<Rightarrow> buf_t option \<Rightarrow> buf_fault + chunk_heap" where
  "buf_free e ob = (case ob of None \<Rightarrow> Inr e | Some b \<Rightarrow> and_then (buf_clear e b) (\<lambda>(e', _). Inr e'))"

fun copy_loop :: "chunk_heap \<Rightarrow> chunk_t list \<Rightarrow> chunk_heap \<times> chunk_t list" where
  "copy_loop e [] = (e, [])"
| "copy_loop e (ch # chs) =
     (let (e1, ch') = chunk_copy e ch; (e2, chs') = copy_loop e1 chs in (e2, ch' # chs'))"

definition buf_copy :: "chunk_heap \<Rightarrow> buf_t \<Rightarrow> chunk_heap \<times> buf_t" where
  "buf_copy e b =
     (let (e', chs) = copy_loop e (chunks b) in
      (e', buf_new\<lparr>default_chunk_size := default_chunk_size b, chunks := chs, buf_len := buf_len b\<rparr>))"

definition buf_set_to_copy :: "chunk_heap \<Rightarrow> buf_t option \<Rightarrow> buf_t \<Rightarrow> buf_fault + chunk_heap \<times> buf_t" where
  "buf_set_to_copy e output input = and_then (buf_free e output) (\<lambda>e'. Inr (buf_copy e' input))"

definition buf_add_chunk_with_capacity ::
  "chunk_heap \<Rightarrow> buf_t \<Rightarrow> nat \<Rightarrow> bool \<Rightarrow> buf_fault + chunk_heap \<times> buf_t" where
  "buf_add_chunk_with_capacity e b cap capped =
     and_then
       (if CHUNK_ALLOC_SIZE cap < default_chunk_size b then Inr (default_chunk_size b)
        else if capped \<and> MAX_CHUNK_ALLOC < CHUNK_ALLOC_SIZE cap then Inr MAX_CHUNK_ALLOC
        else buf_preferred_chunk_size cap)
       (\<lambda>alloc. let (e', ch) = chunk_new_with_alloc_size e alloc in
          Inr (e', b\<lparr>chunks := chunks b @ [ch\<lparr>inserted_time := coarse_stamp e\<rparr>]\<rparr>))"

text \<open>
  The loop of \<open>buf_add\<close>: fill the tail, and append a chunk when the tail is missing or full.  A pass
  that copied nothing would be repeated for ever.
\<close>

definition add_tail :: "chunk_heap \<Rightarrow> buf_t \<Rightarrow> nat \<Rightarrow> buf_fault + chunk_heap \<times> buf_t" where
  "add_tail e b string_len =
     (if chunks b = [] \<or> CHUNK_REMAINING_CAPACITY (last (chunks b)) = 0
      then buf_add_chunk_with_capacity e b string_len True else Inr (e, b))"

definition write_tail :: "buf_t \<Rightarrow> u8 list \<Rightarrow> buf_fault + buf_t" where
  "write_tail b bs =
     and_then (chunk_write (last (chunks b)) bs)
       (\<lambda>ch. Inr (b\<lparr>chunks := butlast (chunks b) @ [ch], buf_len := buf_len b + length bs\<rparr>))"

function add_loop :: "chunk_heap \<Rightarrow> buf_t \<Rightarrow> u8 list \<Rightarrow> buf_fault + chunk_heap \<times> buf_t" where
  "add_loop e b s =
     (if s = [] then Inr (e, b)
      else case add_tail e b (length s) of
        Inl f \<Rightarrow> Inl f
      | Inr (e', b') \<Rightarrow>
          let copy = min (CHUNK_REMAINING_CAPACITY (last (chunks b'))) (length s) in
          if copy = 0 then Inl Buf_Endless
          else case write_tail b' (take copy s) of
            Inl f \<Rightarrow> Inl f
          | Inr b'' \<Rightarrow> add_loop e' b'' (drop copy s))"
  by pat_completeness auto
termination
  by (relation "measure (\<lambda>(e, b, s). length s)") auto

declare add_loop.simps [simp del]

definition buf_add :: "chunk_heap \<Rightarrow> buf_t \<Rightarrow> u8 list \<Rightarrow> buf_fault + chunk_heap \<times> buf_t \<times> int" where
  "buf_add e b s =
     (if s = [] then Inr (e, b, to_c_int (buf_len b))
      else if BUF_MAX_LEN < buf_len b then Inr (e, b, -1)
      else if size_diff BUF_MAX_LEN (length s) < buf_len b then Inr (e, b, -1)
      else and_then (add_loop e b s) (\<lambda>(e', b').
        if BUF_MAX_LEN < buf_len b' then Inl Buf_Assert else Inr (e', b', to_c_int (buf_len b'))))"

text \<open>A C string is its bytes up to the first zero.\<close>

definition buf_add_string :: "chunk_heap \<Rightarrow> buf_t \<Rightarrow> u8 list \<Rightarrow> buf_fault + chunk_heap \<times> buf_t" where
  "buf_add_string e b s =
     and_then (buf_add e b (takeWhile (\<lambda>c. c \<noteq> 0) s)) (\<lambda>(e', b', _). Inr (e', b'))"

fun peek_loop :: "chunk_t list \<Rightarrow> nat \<Rightarrow> buf_fault + u8 list" where
  "peek_loop [] n = (if n = 0 then Inr [] else Inl Buf_Assert)"
| "peek_loop (ch # chs) n =
     (if n = 0 then Inr []
      else let copy = (if ch_datalen ch < n then ch_datalen ch else n) in
        and_then (chunk_read ch copy) (\<lambda>bs.
        and_then (peek_loop chs (n - copy)) (\<lambda>rest. Inr (bs @ rest))))"

definition buf_peek :: "buf_t \<Rightarrow> nat \<Rightarrow> buf_fault + u8 list" where
  "buf_peek b n = (if buf_len b < n then Inl Buf_Assert else peek_loop (chunks b) n)"

definition buf_extract :: "buf_t \<Rightarrow> buf_fault + u8 list \<times> nat" where
  "buf_extract b = and_then (buf_peek b (buf_datalen b)) (\<lambda>bs. Inr (bs @ [0], buf_datalen b))"

fun drain_loop :: "chunk_heap \<Rightarrow> nat \<Rightarrow> nat \<Rightarrow> chunk_t list \<Rightarrow> buf_fault + chunk_heap \<times> nat \<times> chunk_t list" where
  "drain_loop e n len [] = (if n = 0 then Inr (e, len, []) else Inl Buf_Assert)"
| "drain_loop e n len (ch # chs) =
     (if n = 0 then Inr (e, len, ch # chs)
      else if n < ch_datalen ch then
        Inr (e, len - n, ch\<lparr>ch_datalen := ch_datalen ch - n, ch_data := ch_data ch + n\<rparr> # chs)
      else and_then (buf_chunk_free_unchecked e ch)
        (\<lambda>e'. drain_loop e' (n - ch_datalen ch) (len - ch_datalen ch) chs))"

definition buf_drain :: "chunk_heap \<Rightarrow> buf_t \<Rightarrow> nat \<Rightarrow> buf_fault + chunk_heap \<times> buf_t" where
  "buf_drain e b n =
     (if buf_len b < n then Inl Buf_Assert
      else and_then (drain_loop e n (buf_len b) (chunks b))
        (\<lambda>(e', len, chs). Inr (e', b\<lparr>buf_len := len, chunks := chs\<rparr>)))"

definition buf_get_bytes :: "chunk_heap \<Rightarrow> buf_t \<Rightarrow> nat \<Rightarrow> buf_fault + chunk_heap \<times> buf_t \<times> u8 list \<times> int" where
  "buf_get_bytes e b n =
     and_then (buf_peek b n) (\<lambda>bs.
     and_then (buf_drain e b n) (\<lambda>(e', b').
       if BUF_MAX_LEN < buf_len b' then Inl Buf_Assert else Inr (e', b', bs, to_c_int (buf_len b'))))"

fun pullup_loop ::
  "chunk_heap \<Rightarrow> nat \<Rightarrow> chunk_t \<Rightarrow> chunk_t list \<Rightarrow> buf_fault + chunk_heap \<times> chunk_t \<times> chunk_t list" where
  "pullup_loop e bytes dest [] =
     (if ch_datalen dest < bytes then Inl Buf_Assert else Inr (e, dest, []))"
| "pullup_loop e bytes dest (src # chs) =
     (if ch_datalen dest < bytes then
        let n = bytes - ch_datalen dest in
        if ch_datalen src \<le> n then
          and_then (chunk_read src (ch_datalen src)) (\<lambda>bs.
          and_then (chunk_write dest bs) (\<lambda>dest'.
          and_then (buf_chunk_free_unchecked e src) (\<lambda>e'. pullup_loop e' bytes dest' chs)))
        else
          and_then (chunk_read src n) (\<lambda>bs.
          and_then (chunk_write dest bs) (\<lambda>dest'.
            if ch_datalen dest' \<noteq> bytes then Inl Buf_Assert
            else Inr (e, dest', src\<lparr>ch_data := ch_data src + n, ch_datalen := ch_datalen src - n\<rparr> # chs)))
      else Inr (e, dest, src # chs))"

text \<open>The head of the buffer, repacked or grown until \<open>cap\<close> bytes fit in it.\<close>

definition pullup_head :: "chunk_heap \<Rightarrow> chunk_t \<Rightarrow> nat \<Rightarrow> buf_fault + chunk_heap \<times> chunk_t" where
  "pullup_head e ch cap =
     (if cap \<le> length (ch_mem ch) then
        let needed = cap - ch_datalen ch;
            ch' = (if CHUNK_REMAINING_CAPACITY ch < needed then chunk_repack ch else ch) in
        if CHUNK_REMAINING_CAPACITY ch' < needed then Inl Buf_Assert else Inr (e, ch')
      else
        and_then (buf_preferred_chunk_size cap) (\<lambda>alloc.
        and_then (chunk_grow e (chunk_repack ch) (CHUNK_SIZE_WITH_ALLOC alloc)) (\<lambda>(e', ch').
          if length (ch_mem ch') < cap then Inl Buf_Assert else Inr (e', ch'))))"

text \<open>The last result is the bytes at \<open>head_out\<close>, as many as \<open>len_out\<close> says, or \<open>None\<close> for \<open>NULL\<close>.\<close>

definition buf_pullup :: "chunk_heap \<Rightarrow> buf_t \<Rightarrow> nat \<Rightarrow> buf_fault + chunk_heap \<times> buf_t \<times> u8 list option" where
  "buf_pullup e b n =
     (case chunks b of
        [] \<Rightarrow> Inr (e, b, None)
      | ch # chs \<Rightarrow>
          let bytes = (if buf_len b < n then buf_len b else n) in
          if bytes \<le> ch_datalen ch then Inr (e, b, Some (chunk_data ch))
          else and_then (pullup_head e ch bytes) (\<lambda>(e1, dest).
               and_then (pullup_loop e1 bytes dest chs) (\<lambda>(e2, dest', chs').
                 Inr (e2, b\<lparr>chunks := dest' # chs'\<rparr>, Some (chunk_data dest')))))"

section \<open>Moving data between buffers\<close>

text \<open>The size of the array on the stack that \<open>buf_move_to_buf\<close> copies through.\<close>

definition move_block :: nat where "move_block = 4096"

function move_loop ::
  "chunk_heap \<Rightarrow> buf_t \<Rightarrow> buf_t \<Rightarrow> nat \<Rightarrow> buf_fault + chunk_heap \<times> buf_t \<times> buf_t" where
  "move_loop e out inb len =
     (if len = 0 then Inr (e, out, inb)
      else let n = (if move_block < len then move_block else len) in
        and_then (buf_get_bytes e inb n) (\<lambda>(e1, inb', bs, _).
        and_then (buf_add e1 out bs) (\<lambda>(e2, out', _). move_loop e2 out' inb' (len - n))))"
  by pat_completeness auto
termination
  by (relation "measure (\<lambda>(e, out, inb, len). len)") (auto simp: move_block_def)

declare move_loop.simps [simp del]

text \<open>Besides the buffers, the new \<open>*buf_flushlen\<close> and the return value.\<close>

definition buf_move_to_buf ::
  "chunk_heap \<Rightarrow> buf_t \<Rightarrow> buf_t \<Rightarrow> nat \<Rightarrow> buf_fault + chunk_heap \<times> buf_t \<times> buf_t \<times> nat \<times> int" where
  "buf_move_to_buf e out inb flushlen =
     (if BUF_MAX_LEN < buf_len out \<or> BUF_MAX_LEN < flushlen then Inr (e, out, inb, flushlen, -1)
      else if size_diff BUF_MAX_LEN flushlen < buf_len out then Inr (e, out, inb, flushlen, -1)
      else let cp = (if buf_len inb < flushlen then buf_len inb else flushlen) in
        if BUF_MAX_LEN < cp then Inl Buf_Assert
        else and_then (move_loop e out inb cp)
          (\<lambda>(e', out', inb'). Inr (e', out', inb', flushlen - cp, to_c_int cp)))"

text \<open>\<open>buf_move_all\<close> of a buffer that is there; on \<open>NULL\<close> it returns zero.\<close>

definition buf_move_all :: "buf_t \<Rightarrow> buf_t \<Rightarrow> buf_t \<times> buf_t \<times> nat" where
  "buf_move_all out inb =
     (if buf_datalen inb = 0 then (out, inb, 0)
      else if BUF_MAX_LEN < buf_len out \<or> BUF_MAX_LEN < buf_len inb then (out, inb, 0)
      else if size_diff BUF_MAX_LEN (buf_len inb) < buf_len out then (out, inb, 0)
      else (out\<lparr>chunks := chunks out @ chunks inb, buf_len := buf_len out + buf_len inb\<rparr>,
            inb\<lparr>chunks := [], buf_len := 0\<rparr>, buf_len inb))"

section \<open>The check of a buffer\<close>

definition chunk_assert_ok :: "chunk_t \<Rightarrow> bool" where
  "chunk_assert_ok ch \<longleftrightarrow>
     ch_datalen ch \<le> length (ch_mem ch) \<and> ch_datalen ch \<le> BUF_MAX_LEN \<and>
     ch_data ch \<le> length (ch_mem ch) \<and> ch_data ch + ch_datalen ch \<le> length (ch_mem ch)"

text \<open>Whether all the assertions of \<open>buf_assert_ok\<close> hold.\<close>

definition buf_assert_ok :: "buf_t \<Rightarrow> bool" where
  "buf_assert_ok b \<longleftrightarrow>
     buf_magic b = BUFFER_MAGIC \<and>
     (if chunks b = [] then buf_len b = 0
      else list_all chunk_assert_ok (chunks b) \<and> buf_len b = sum_list (map ch_datalen (chunks b)))"

section \<open>What a chunk holds\<close>

definition chunk_wf :: "chunk_t \<Rightarrow> bool" where
  "chunk_wf ch \<longleftrightarrow> ch_data ch + ch_datalen ch \<le> length (ch_mem ch)"

lemma length_chunk_data [simp]: "chunk_wf ch \<Longrightarrow> length (chunk_data ch) = ch_datalen ch"
  by (simp add: chunk_wf_def chunk_data_def)

lemma chunk_read_ok:
  "chunk_wf ch \<Longrightarrow> n \<le> ch_datalen ch \<Longrightarrow> chunk_read ch n = Inr (take n (chunk_data ch))"
  by (simp add: chunk_wf_def chunk_read_def chunk_data_def min_def)

lemma chunk_write_ok:
  assumes "chunk_wf ch" and "length bs \<le> CHUNK_REMAINING_CAPACITY ch"
  obtains ch' where "chunk_write ch bs = Inr ch'" and "chunk_wf ch'" and "chunk_data ch' = chunk_data ch @ bs"
    and "length (ch_mem ch') = length (ch_mem ch)" and "ch_datalen ch' = ch_datalen ch + length bs"
    and "CHUNK_REMAINING_CAPACITY ch' = CHUNK_REMAINING_CAPACITY ch - length bs"
proof -
  let ?w = "ch_data ch + ch_datalen ch"
  let ?ch = "ch\<lparr>ch_mem := put_range ?w bs (ch_mem ch), ch_datalen := ch_datalen ch + length bs\<rparr>"
  have fits: "?w + length bs \<le> length (ch_mem ch)"
    using assms by (simp add: chunk_wf_def CHUNK_REMAINING_CAPACITY_def)
  then have "drop (ch_data ch) (put_range ?w bs (ch_mem ch)) =
      chunk_data ch @ bs @ drop (?w + length bs) (ch_mem ch)"
    by (simp add: put_range_def chunk_data_def take_drop add.commute)
  moreover have "length (chunk_data ch) = ch_datalen ch"
    using assms(1) by simp
  ultimately have "chunk_data ?ch = chunk_data ch @ bs"
    by (simp add: chunk_data_def)
  with fits show thesis
    by (intro that [of ?ch]) (simp_all add: chunk_write_def Let_def chunk_wf_def CHUNK_REMAINING_CAPACITY_def)
qed

lemma chunk_repack_ok:
  assumes "chunk_wf ch"
  shows "chunk_wf (chunk_repack ch)" and "chunk_data (chunk_repack ch) = chunk_data ch"
    and "length (ch_mem (chunk_repack ch)) = length (ch_mem ch)"
    and "ch_datalen (chunk_repack ch) = ch_datalen ch" and "ch_data (chunk_repack ch) = 0"
proof -
  have len: "length (chunk_data ch) = ch_datalen ch" "ch_datalen ch \<le> length (ch_mem ch)"
    using assms by (simp_all add: chunk_wf_def)
  show "chunk_data (chunk_repack ch) = chunk_data ch"
    using len by (auto simp: chunk_repack_def put_range_def) (simp_all add: chunk_data_def)
qed (use assms in \<open>simp_all add: chunk_repack_def chunk_wf_def\<close>)

text \<open>The loop that chooses the size of a chunk ends with room for what was asked.\<close>

lemma chunk_size_loop_ok: "0 < sz \<Longrightarrow> target \<le> CHUNK_SIZE_WITH_ALLOC (chunk_size_loop target sz)"
proof (induction target sz rule: chunk_size_loop.induct)
  case (1 target sz)
  then show ?case
    by (subst chunk_size_loop.simps) (simp split: if_splits)
qed

lemma chunk_size_loop_ge: "sz \<le> chunk_size_loop target sz"
proof (induction target sz rule: chunk_size_loop.induct)
  case (1 target sz)
  then show ?case
    by (subst chunk_size_loop.simps) auto
qed

lemma preferred_chunk_size_ok:
  assumes "target \<le> BUF_MAX_LEN"
  obtains alloc where "buf_preferred_chunk_size target = Inr alloc" and "target \<le> CHUNK_SIZE_WITH_ALLOC alloc"
    and "CHUNK_OVERHEAD \<le> alloc"
proof -
  let ?a = "if MAX_CHUNK_ALLOC \<le> CHUNK_ALLOC_SIZE target then CHUNK_ALLOC_SIZE target
    else chunk_size_loop target MIN_CHUNK_ALLOC"
  have "MIN_CHUNK_ALLOC \<le> chunk_size_loop target MIN_CHUNK_ALLOC"
    by (rule chunk_size_loop_ge)
  with assms chunk_size_loop_ok [of MIN_CHUNK_ALLOC target] show thesis
    by (intro that [of ?a])
      (auto simp: buf_preferred_chunk_size_def SIZE_T_CEILING_def BUF_MAX_LEN_def CHUNK_OVERHEAD_def
        MIN_CHUNK_ALLOC_def CHUNK_ALLOC_SIZE_def CHUNK_SIZE_WITH_ALLOC_def)
qed

section \<open>Chains of chunks\<close>

definition chain_wf :: "chunk_t list \<Rightarrow> bool" where
  "chain_wf chs \<longleftrightarrow> list_all chunk_wf chs"

definition chain_bytes :: "chunk_t list \<Rightarrow> u8 list" where
  "chain_bytes chs = concat (map chunk_data chs)"

definition chain_alloc :: "chunk_t list \<Rightarrow> nat" where
  "chain_alloc chs = sum_list (map (\<lambda>ch. CHUNK_ALLOC_SIZE (length (ch_mem ch))) chs)"

lemma chain_simps [simp]:
  "chain_wf []" "chain_wf (ch # chs) \<longleftrightarrow> chunk_wf ch \<and> chain_wf chs"
  "chain_wf (chs @ chs') \<longleftrightarrow> chain_wf chs \<and> chain_wf chs'"
  "chain_bytes [] = []" "chain_bytes (ch # chs) = chunk_data ch @ chain_bytes chs"
  "chain_bytes (chs @ chs') = chain_bytes chs @ chain_bytes chs'"
  "chain_alloc [] = 0" "chain_alloc (ch # chs) = CHUNK_ALLOC_SIZE (length (ch_mem ch)) + chain_alloc chs"
  "chain_alloc (chs @ chs') = chain_alloc chs + chain_alloc chs'"
  by (simp_all add: chain_wf_def chain_bytes_def chain_alloc_def)

lemma length_chain_bytes: "chain_wf chs \<Longrightarrow> length (chain_bytes chs) = sum_list (map ch_datalen chs)"
  by (induction chs) simp_all

text \<open>
  From the heap \<open>e\<close> and the chain \<open>chs\<close> an operation came to \<open>e'\<close> and \<open>chs'\<close>: the count of the
  allocated bytes changed by as much as the chain did, and nothing else of the heap changed.
\<close>

definition accounts :: "chunk_heap \<Rightarrow> chunk_t list \<Rightarrow> chunk_heap \<Rightarrow> chunk_t list \<Rightarrow> bool" where
  "accounts e chs e' chs' \<longleftrightarrow>
     total_bytes_allocated_in_chunks e' + chain_alloc chs = total_bytes_allocated_in_chunks e + chain_alloc chs' \<and>
     fresh_mem e' = fresh_mem e \<and> coarse_stamp e' = coarse_stamp e"

definition covers :: "chunk_heap \<Rightarrow> chunk_t list \<Rightarrow> bool" where
  "covers e chs \<longleftrightarrow> chain_alloc chs \<le> total_bytes_allocated_in_chunks e"

lemma accounts_refl [simp]: "accounts e chs e chs"
  by (simp add: accounts_def)

lemma accounts_trans: "accounts e chs e' chs' \<Longrightarrow> accounts e' chs' e'' chs'' \<Longrightarrow> accounts e chs e'' chs''"
  by (simp add: accounts_def)

lemma accounts_covers: "accounts e chs e' chs' \<Longrightarrow> covers e chs \<Longrightarrow> covers e' chs'"
  by (simp add: accounts_def covers_def)

lemma chunk_free_ok:
  assumes "covers e (ch # chs)"
  obtains e' where "buf_chunk_free_unchecked e ch = Inr e'" and "accounts e (ch # chs) e' chs"
  using assms by (auto simp: buf_chunk_free_unchecked_def covers_def accounts_def Let_def)

lemma peek_loop_ok:
  "chain_wf chs \<Longrightarrow> n \<le> length (chain_bytes chs) \<Longrightarrow> peek_loop chs n = Inr (take n (chain_bytes chs))"
  by (induction chs arbitrary: n) (auto simp: Let_def chunk_read_ok)

lemma drain_loop_ok:
  assumes "chain_wf chs" and "covers e chs" and "n \<le> length (chain_bytes chs)" and "len = length (chain_bytes chs)"
  shows "\<exists>e' chs'. drain_loop e n len chs = Inr (e', len - n, chs') \<and> chain_wf chs' \<and>
    chain_bytes chs' = drop n (chain_bytes chs) \<and> accounts e chs e' chs'"
  using assms
proof (induction chs arbitrary: e n len)
  case Nil
  then show ?case by simp
next
  case (Cons ch chs)
  show ?case
  proof (cases "n < ch_datalen ch")
    case True
    with Cons.prems show ?thesis
      by (auto simp: chunk_wf_def chunk_data_def drop_take accounts_def add.commute)
  next
    case False
    obtain e1 where e1: "buf_chunk_free_unchecked e ch = Inr e1" "accounts e (ch # chs) e1 chs"
      using Cons.prems(2) by (rule chunk_free_ok)
    have "covers e1 chs"
      using e1(2) Cons.prems(2) by (rule accounts_covers)
    then have "\<exists>e' chs'. drain_loop e1 (n - ch_datalen ch) (len - ch_datalen ch) chs =
        Inr (e', len - ch_datalen ch - (n - ch_datalen ch), chs') \<and> chain_wf chs' \<and>
        chain_bytes chs' = drop (n - ch_datalen ch) (chain_bytes chs) \<and> accounts e1 chs e' chs'"
      using Cons.prems by (intro Cons.IH) simp_all
    moreover have "len - ch_datalen ch - (n - ch_datalen ch) = len - n"
      using False by simp
    ultimately obtain e2 chs2 where
      "drain_loop e1 (n - ch_datalen ch) (len - ch_datalen ch) chs = Inr (e2, len - n, chs2)"
      "chain_wf chs2" "chain_bytes chs2 = drop (n - ch_datalen ch) (chain_bytes chs)" "accounts e1 chs e2 chs2"
      by auto
    with e1 False Cons.prems show ?thesis
      by (cases "n = 0") (auto intro: accounts_trans)
  qed
qed

lemma pullup_loop_ok:
  assumes "chunk_wf dest" and "chain_wf chs" and "covers e (dest # chs)"
    and "bytes \<le> ch_datalen dest + length (chain_bytes chs)" and "bytes \<le> ch_datalen dest + CHUNK_REMAINING_CAPACITY dest"
  shows "\<exists>e' dest' chs'. pullup_loop e bytes dest chs = Inr (e', dest', chs') \<and> chain_wf (dest' # chs') \<and>
    chain_bytes (dest' # chs') = chunk_data dest @ chain_bytes chs \<and> bytes \<le> ch_datalen dest' \<and>
    accounts e (dest # chs) e' (dest' # chs')"
  using assms
proof (induction chs arbitrary: e dest)
  case Nil
  then show ?case by auto
next
  case (Cons src chs)
  let ?n = "bytes - ch_datalen dest"
  consider "bytes \<le> ch_datalen dest" | (all) "ch_datalen dest < bytes" "ch_datalen src \<le> ?n"
    | (part) "ch_datalen dest < bytes" "?n < ch_datalen src"
    by linarith
  then show ?case
  proof cases
    case all
    have "length (chunk_data src) \<le> CHUNK_REMAINING_CAPACITY dest"
      using all Cons.prems by simp
    with Cons.prems(1) obtain dest1 where d: "chunk_write dest (chunk_data src) = Inr dest1" "chunk_wf dest1"
      "chunk_data dest1 = chunk_data dest @ chunk_data src" "length (ch_mem dest1) = length (ch_mem dest)"
      "ch_datalen dest1 = ch_datalen dest + length (chunk_data src)"
      "CHUNK_REMAINING_CAPACITY dest1 = CHUNK_REMAINING_CAPACITY dest - length (chunk_data src)"
      by (rule chunk_write_ok)
    have "covers e (src # chs)"
      using Cons.prems(3) by (simp add: covers_def)
    then obtain e1 where e1: "buf_chunk_free_unchecked e src = Inr e1" "accounts e (src # chs) e1 chs"
      by (rule chunk_free_ok)
    have acc: "accounts e (dest # src # chs) e1 (dest1 # chs)"
      using e1(2) d(4) by (simp add: accounts_def)
    then have "\<exists>e' dest' chs'. pullup_loop e1 bytes dest1 chs = Inr (e', dest', chs') \<and> chain_wf (dest' # chs') \<and>
        chain_bytes (dest' # chs') = chunk_data dest1 @ chain_bytes chs \<and> bytes \<le> ch_datalen dest' \<and>
        accounts e1 (dest1 # chs) e' (dest' # chs')"
      using Cons.prems d all accounts_covers by (intro Cons.IH) simp_all
    then obtain e' dest' chs' where rest: "pullup_loop e1 bytes dest1 chs = Inr (e', dest', chs')"
      "chain_wf (dest' # chs')" "chain_bytes (dest' # chs') = chunk_data dest1 @ chain_bytes chs"
      "bytes \<le> ch_datalen dest'" "accounts e1 (dest1 # chs) e' (dest' # chs')"
      by blast
    moreover have "chunk_read src (ch_datalen src) = Inr (chunk_data src)"
      using Cons.prems(2) by (simp add: chunk_read_ok)
    ultimately have "pullup_loop e bytes dest (src # chs) = Inr (e', dest', chs')"
      using all d(1) e1(1) by (simp add: Let_def)
    moreover have "accounts e (dest # src # chs) e' (dest' # chs')"
      using acc rest(5) by (rule accounts_trans)
    ultimately show ?thesis
      using rest(2-4) d(3) by auto
  next
    case part
    let ?bs = "take ?n (chunk_data src)"
    let ?src = "src\<lparr>ch_data := ch_data src + ?n, ch_datalen := ch_datalen src - ?n\<rparr>"
    have bs: "length ?bs = ?n"
      using part Cons.prems(2) by simp
    then have "length ?bs \<le> CHUNK_REMAINING_CAPACITY dest"
      using Cons.prems(5) by simp
    with Cons.prems(1) obtain dest1 where d: "chunk_write dest ?bs = Inr dest1" "chunk_wf dest1"
      "chunk_data dest1 = chunk_data dest @ ?bs" "length (ch_mem dest1) = length (ch_mem dest)"
      "ch_datalen dest1 = ch_datalen dest + length ?bs"
      by (rule chunk_write_ok)
    have "chunk_read src ?n = Inr ?bs"
      using Cons.prems(2) part by (intro chunk_read_ok) simp_all
    then have "pullup_loop e bytes dest (src # chs) = Inr (e, dest1, ?src # chs)"
      using part d(1,5) bs by (simp add: Let_def)
    moreover have src: "chunk_wf ?src" "chunk_data ?src = drop ?n (chunk_data src)"
      using part Cons.prems(2) by (auto simp: chunk_wf_def chunk_data_def drop_take add.commute)
    moreover have "?bs @ drop ?n (chunk_data src) @ chain_bytes chs = chunk_data src @ chain_bytes chs"
      by (simp flip: append_assoc)
    then have "chain_bytes (dest1 # ?src # chs) = chunk_data dest @ chain_bytes (src # chs)"
      by (simp add: d(3) src(2))
    moreover have "chain_wf (dest1 # ?src # chs)"
      using Cons.prems(2) d(2) src(1) by simp
    moreover have "bytes \<le> ch_datalen dest1"
      using d(5) bs by simp
    moreover have "accounts e (dest # src # chs) e (dest1 # ?src # chs)"
      using d(4) by (simp add: accounts_def)
    ultimately show ?thesis
      by blast
  qed (use Cons.prems in auto)
qed

lemma pullup_head_ok:
  assumes "chunk_wf ch" and "ch_datalen ch < cap" and "cap \<le> BUF_MAX_LEN"
  shows "\<exists>e' ch'. pullup_head e ch cap = Inr (e', ch') \<and> chunk_wf ch' \<and> chunk_data ch' = chunk_data ch \<and>
    ch_datalen ch' = ch_datalen ch \<and> cap \<le> ch_datalen ch' + CHUNK_REMAINING_CAPACITY ch' \<and>
    accounts e (ch # chs) e' (ch' # chs)"
proof (cases "cap \<le> length (ch_mem ch)")
  case True
  then show ?thesis
    using assms chunk_repack_ok [OF assms(1)]
    by (auto simp: pullup_head_def Let_def CHUNK_REMAINING_CAPACITY_def accounts_def)
next
  case False
  let ?r = "chunk_repack ch"
  note r = chunk_repack_ok [OF assms(1)]
  obtain alloc where alloc: "buf_preferred_chunk_size cap = Inr alloc" "cap \<le> CHUNK_SIZE_WITH_ALLOC alloc"
    using preferred_chunk_size_ok [OF assms(3)] .
  let ?sz = "CHUNK_SIZE_WITH_ALLOC alloc"
  let ?ch = "?r\<lparr>ch_mem := ch_mem ?r @ map (fresh_mem e) [length (ch_mem ?r)..<?sz]\<rparr>"
  let ?e = "e\<lparr>total_bytes_allocated_in_chunks := total_bytes_allocated_in_chunks e +
    (CHUNK_ALLOC_SIZE ?sz - CHUNK_ALLOC_SIZE (length (ch_mem ?r)))\<rparr>"
  have "chunk_data ?ch = chunk_data ch"
    using r by (simp add: chunk_data_def chunk_wf_def)
  moreover have "pullup_head e ch cap = Inr (?e, ?ch)"
    using False alloc r by (simp add: pullup_head_def chunk_grow_def Let_def)
  ultimately show ?thesis
    using False alloc(2) r assms(2)
    by (auto simp: chunk_wf_def CHUNK_REMAINING_CAPACITY_def accounts_def CHUNK_ALLOC_SIZE_def)
qed

lemma add_chunk_ok:
  assumes "0 < cap" and "capped \<or> cap \<le> BUF_MAX_LEN"
  obtains e' ch where "buf_add_chunk_with_capacity e b cap capped = Inr (e', b\<lparr>chunks := chunks b @ [ch]\<rparr>)"
    and "chunk_wf ch" and "chunk_data ch = []" and "0 < CHUNK_REMAINING_CAPACITY ch"
    and "ch_data ch = 0" and "ch_datalen ch = 0" and "ch_mem ch = map (fresh_mem e) [0..<length (ch_mem ch)]"
    and "accounts e (chunks b) e' (chunks b @ [ch])"
proof -
  have "\<exists>p. capped \<and> MAX_CHUNK_ALLOC < CHUNK_ALLOC_SIZE cap \<or>
      buf_preferred_chunk_size cap = Inr p \<and> cap \<le> CHUNK_SIZE_WITH_ALLOC p \<and> CHUNK_OVERHEAD \<le> p"
  proof (cases "cap \<le> BUF_MAX_LEN")
    case True
    then show ?thesis
      by (rule preferred_chunk_size_ok) blast
  qed (use assms(2) in \<open>simp add: BUF_MAX_LEN_def MAX_CHUNK_ALLOC_def CHUNK_ALLOC_SIZE_def\<close>)
  then obtain p where p: "capped \<and> MAX_CHUNK_ALLOC < CHUNK_ALLOC_SIZE cap \<or>
      buf_preferred_chunk_size cap = Inr p \<and> cap \<le> CHUNK_SIZE_WITH_ALLOC p \<and> CHUNK_OVERHEAD \<le> p"
    by blast
  let ?a = "if CHUNK_ALLOC_SIZE cap < default_chunk_size b then default_chunk_size b
    else if capped \<and> MAX_CHUNK_ALLOC < CHUNK_ALLOC_SIZE cap then MAX_CHUNK_ALLOC else p"
  let ?ch = "\<lparr>ch_mem = map (fresh_mem e) [0..<CHUNK_SIZE_WITH_ALLOC ?a], ch_data = 0, ch_datalen = 0,
    inserted_time = coarse_stamp e\<rparr>"
  let ?e = "e\<lparr>total_bytes_allocated_in_chunks := total_bytes_allocated_in_chunks e + ?a\<rparr>"
  have a: "CHUNK_OVERHEAD \<le> ?a" "0 < CHUNK_SIZE_WITH_ALLOC ?a"
    using p assms(1) by (auto simp: CHUNK_ALLOC_SIZE_def CHUNK_SIZE_WITH_ALLOC_def CHUNK_OVERHEAD_def MAX_CHUNK_ALLOC_def)
  have "buf_add_chunk_with_capacity e b cap capped = Inr (?e, b\<lparr>chunks := chunks b @ [?ch]\<rparr>)"
    using p by (auto simp: buf_add_chunk_with_capacity_def chunk_new_with_alloc_size_def)
  then show thesis
    by (rule that)
      (use a in \<open>simp_all add: chunk_wf_def chunk_data_def CHUNK_REMAINING_CAPACITY_def accounts_def CHUNK_ALLOC_SIZE_def
        CHUNK_SIZE_WITH_ALLOC_def\<close>)
qed

lemma add_chunk_capped_ok:
  assumes "0 < cap"
  obtains e' ch where "buf_add_chunk_with_capacity e b cap True = Inr (e', b\<lparr>chunks := chunks b @ [ch]\<rparr>)"
    and "chunk_wf ch" and "chunk_data ch = []" and "0 < CHUNK_REMAINING_CAPACITY ch"
    and "ch_data ch = 0" and "ch_datalen ch = 0" and "ch_mem ch = map (fresh_mem e) [0..<length (ch_mem ch)]"
    and "accounts e (chunks b) e' (chunks b @ [ch])"
  by (rule add_chunk_ok [OF assms, of True e b]) (simp, rule that)

section \<open>Buffers as byte queues\<close>

definition buf_bytes :: "buf_t \<Rightarrow> u8 list" where
  "buf_bytes b = chain_bytes (chunks b)"

definition buf_inv :: "chunk_heap \<Rightarrow> buf_t \<Rightarrow> bool" where
  "buf_inv e b \<longleftrightarrow> buf_assert_ok b \<and> buf_len b \<le> BUF_MAX_LEN \<and>
     buf_allocation b \<le> total_bytes_allocated_in_chunks e"

lemma chain_assert_iff:
  assumes "sum_list (map ch_datalen chs) \<le> BUF_MAX_LEN"
  shows "list_all chunk_assert_ok chs \<longleftrightarrow> chain_wf chs"
  using assms by (induction chs) (auto simp: chunk_assert_ok_def chunk_wf_def)

lemma buf_inv_iff:
  "buf_inv e b \<longleftrightarrow> buf_magic b = BUFFER_MAGIC \<and> chain_wf (chunks b) \<and> buf_len b = length (buf_bytes b) \<and>
     buf_len b \<le> BUF_MAX_LEN \<and> covers e (chunks b)"
  using chain_assert_iff [of "chunks b"]
  by (cases "chunks b = []")
    (auto simp: buf_inv_def buf_assert_ok_def buf_bytes_def covers_def buf_allocation_def length_chain_bytes
      simp flip: chain_alloc_def)

lemma buf_invE:
  assumes "buf_inv e b"
  obtains "chain_wf (chunks b)" and "buf_len b = length (buf_bytes b)" and "length (buf_bytes b) \<le> BUF_MAX_LEN"
    and "covers e (chunks b)" and "buf_magic b = BUFFER_MAGIC"
  using assms by (auto simp: buf_inv_iff)

text \<open>An operation that puts another chain into a buffer keeps the invariant when the length fits.\<close>

lemma buf_inv_update:
  assumes "buf_inv e b" and "chain_wf chs" and "accounts e (chunks b) e' chs" and "length (chain_bytes chs) \<le> BUF_MAX_LEN"
  shows "buf_inv e' (b\<lparr>chunks := chs, buf_len := length (chain_bytes chs)\<rparr>)"
  using assms accounts_covers by (auto simp: buf_inv_iff buf_bytes_def)

text \<open>Another buffer in the same heap: the two are covered together, and stay so.\<close>

definition buf_pair_inv :: "chunk_heap \<Rightarrow> buf_t \<Rightarrow> buf_t \<Rightarrow> bool" where
  "buf_pair_inv e b1 b2 \<longleftrightarrow> buf_inv e b1 \<and> buf_inv e b2 \<and> covers e (chunks b1 @ chunks b2)"

lemma to_c_int_small: "n \<le> BUF_MAX_LEN \<Longrightarrow> to_c_int n = int n"
  by (simp add: to_c_int_def BUF_MAX_LEN_def signed_of_nat signed_take_bit_int_eq_self)

lemma size_diff_small: "b \<le> a \<Longrightarrow> a < 2 ^ 64 \<Longrightarrow> size_diff a b = a - b"
proof -
  assume "b \<le> a" and "a < 2 ^ 64"
  then have "a + 2 ^ 64 - b = (a - b) + 2 ^ 64"
    by simp
  with \<open>a < 2 ^ 64\<close> show ?thesis
    by (simp only: size_diff_def mod_add_self2) simp
qed

lemma buf_peek_ok: "buf_inv e b \<Longrightarrow> n \<le> length (buf_bytes b) \<Longrightarrow> buf_peek b n = Inr (take n (buf_bytes b))"
  by (auto elim!: buf_invE simp: buf_peek_def peek_loop_ok buf_bytes_def)

lemma buf_drain_ok:
  assumes "buf_inv e b" and "n \<le> length (buf_bytes b)"
  obtains e' b' where "buf_drain e b n = Inr (e', b')" and "buf_inv e' b'" and "buf_bytes b' = drop n (buf_bytes b)"
    and "accounts e (chunks b) e' (chunks b')" and "default_chunk_size b' = default_chunk_size b"
proof -
  note b = assms(1) [unfolded buf_inv_iff buf_bytes_def]
  obtain e' chs' where r: "drain_loop e n (buf_len b) (chunks b) = Inr (e', buf_len b - n, chs')" "chain_wf chs'"
    "chain_bytes chs' = drop n (chain_bytes (chunks b))" "accounts e (chunks b) e' chs'"
    using drain_loop_ok [of "chunks b" e n "buf_len b"] b assms(2) by (auto simp: buf_bytes_def)
  let ?b = "b\<lparr>chunks := chs', buf_len := length (chain_bytes chs')\<rparr>"
  have "buf_inv e' ?b"
    using assms(1) r(2,4) by (rule buf_inv_update) (use b r(3) in auto)
  moreover have "buf_drain e b n = Inr (e', ?b)"
    using r(1,3) b assms(2) by (simp add: buf_drain_def buf_bytes_def)
  ultimately show thesis
    using r by (intro that [of e' ?b]) (simp_all add: buf_bytes_def)
qed

lemma write_tail_ok:
  assumes "chunks b = chs @ [ch]" and "chunk_wf ch" and "chain_wf chs" and "length bs \<le> CHUNK_REMAINING_CAPACITY ch"
  obtains chs' where "write_tail b bs = Inr (b\<lparr>chunks := chs', buf_len := buf_len b + length bs\<rparr>)"
    and "chain_wf chs'" and "chain_bytes chs' = chain_bytes (chunks b) @ bs"
    and "chain_alloc chs' = chain_alloc (chunks b)"
proof -
  obtain ch' where "chunk_write ch bs = Inr ch'" "chunk_wf ch'" "chunk_data ch' = chunk_data ch @ bs"
    "length (ch_mem ch') = length (ch_mem ch)"
    using assms(2,4) by (rule chunk_write_ok)
  with assms(1,3) show thesis
    by (intro that [of "chs @ [ch']"]) (simp_all add: write_tail_def)
qed

lemma add_tail_ok:
  assumes "chain_wf (chunks b)" and "0 < n"
  obtains e' chs ch where "add_tail e b n = Inr (e', b\<lparr>chunks := chs @ [ch]\<rparr>)" and "chain_wf chs" and "chunk_wf ch"
    and "0 < CHUNK_REMAINING_CAPACITY ch" and "chain_bytes (chs @ [ch]) = chain_bytes (chunks b)"
    and "accounts e (chunks b) e' (chs @ [ch])"
proof (cases "chunks b = [] \<or> CHUNK_REMAINING_CAPACITY (last (chunks b)) = 0")
  case True
  obtain e' ch where new: "buf_add_chunk_with_capacity e b n True = Inr (e', b\<lparr>chunks := chunks b @ [ch]\<rparr>)"
    "chunk_wf ch" "chunk_data ch = []" "0 < CHUNK_REMAINING_CAPACITY ch" "accounts e (chunks b) e' (chunks b @ [ch])"
    using assms(2) by (rule add_chunk_capped_ok)
  have "add_tail e b n = Inr (e', b\<lparr>chunks := chunks b @ [ch]\<rparr>)"
    using True new(1) by (simp add: add_tail_def)
  then show thesis
    using assms(1) new(2-5) by (intro that [of e' "chunks b" ch]) simp_all
next
  case False
  then have split: "chunks b = butlast (chunks b) @ [last (chunks b)]"
    by simp
  then have "chain_wf (butlast (chunks b)) \<and> chunk_wf (last (chunks b))"
    using assms(1) by (metis chain_simps(1-3))
  moreover have "add_tail e b n = Inr (e, b\<lparr>chunks := butlast (chunks b) @ [last (chunks b)]\<rparr>)"
    using False by (simp add: add_tail_def)
  ultimately show thesis
    using False by (intro that [of e "butlast (chunks b)" "last (chunks b)"]) simp_all
qed

lemma add_loop_ok:
  assumes "chain_wf (chunks b)"
  shows "\<exists>e' chs. add_loop e b s = Inr (e', b\<lparr>chunks := chs, buf_len := buf_len b + length s\<rparr>) \<and> chain_wf chs \<and>
    chain_bytes chs = chain_bytes (chunks b) @ s \<and> accounts e (chunks b) e' chs"
  using assms
proof (induction e b s rule: add_loop.induct)
  case (1 e b s)
  show ?case
  proof (cases "s = []")
    case True
    then have "add_loop e b s = Inr (e, b\<lparr>chunks := chunks b, buf_len := buf_len b + length s\<rparr>)"
      by (simp add: add_loop.simps)
    with True "1.prems" show ?thesis
      by (intro exI [of _ e] exI [of _ "chunks b"]) simp
  next
    case False
    with "1.prems" obtain e1 chs ch where tail: "add_tail e b (length s) = Inr (e1, b\<lparr>chunks := chs @ [ch]\<rparr>)"
      "chain_wf chs" "chunk_wf ch" "0 < CHUNK_REMAINING_CAPACITY ch"
      "chain_bytes (chs @ [ch]) = chain_bytes (chunks b)" "accounts e (chunks b) e1 (chs @ [ch])"
      using add_tail_ok [of b "length s" e] by auto
    define copy where "copy = min (CHUNK_REMAINING_CAPACITY ch) (length s)"
    let ?b1 = "b\<lparr>chunks := chs @ [ch]\<rparr>"
    have "chunks ?b1 = chs @ [ch]" and fits: "length (take copy s) \<le> CHUNK_REMAINING_CAPACITY ch"
      by (simp_all add: copy_def)
    from this(1) obtain chs1 where w: "write_tail ?b1 (take copy s) =
        Inr (?b1\<lparr>chunks := chs1, buf_len := buf_len ?b1 + length (take copy s)\<rparr>)" "chain_wf chs1"
      "chain_bytes chs1 = chain_bytes (chunks ?b1) @ take copy s" "chain_alloc chs1 = chain_alloc (chunks ?b1)"
      using tail(3,2) fits by (rule write_tail_ok)
    let ?b2 = "?b1\<lparr>chunks := chs1, buf_len := buf_len ?b1 + length (take copy s)\<rparr>"
    have copy: "copy \<noteq> 0" "copy \<le> length s"
      using False tail(4) by (auto simp: copy_def min_def)
    have "\<exists>e' chs'. add_loop e1 ?b2 (drop copy s) =
        Inr (e', ?b2\<lparr>chunks := chs', buf_len := buf_len ?b2 + length (drop copy s)\<rparr>) \<and> chain_wf chs' \<and>
        chain_bytes chs' = chain_bytes (chunks ?b2) @ drop copy s \<and> accounts e1 (chunks ?b2) e' chs'"
      by (rule "1.IH" [OF False tail(1) refl _ _ w(1)]) (use copy w(2) in \<open>auto simp: copy_def\<close>)
    then obtain e' chs' where rest: "add_loop e1 ?b2 (drop copy s) =
        Inr (e', ?b2\<lparr>chunks := chs', buf_len := buf_len ?b2 + length (drop copy s)\<rparr>)" "chain_wf chs'"
      "chain_bytes chs' = chain_bytes chs1 @ drop copy s" "accounts e1 chs1 e' chs'"
      by auto
    have "add_loop e b s = add_loop e1 ?b2 (drop copy s)"
      using False tail(1) copy w(1) by (simp add: add_loop.simps [of e b s] flip: copy_def)
    then have "add_loop e b s = Inr (e', b\<lparr>chunks := chs', buf_len := buf_len b + length s\<rparr>)"
      using rest(1) copy(2) by simp
    moreover have "chain_bytes chs' = chain_bytes (chunks b) @ s"
      using rest(3) w(3) tail(5) by simp
    moreover have "accounts e (chunks b) e' chs'"
      using tail(6) rest(4) w(4) by (simp add: accounts_def)
    ultimately show ?thesis
      using rest(2) by blast
  qed
qed

lemma buf_add_ok:
  assumes "buf_inv e b" and "length (buf_bytes b) + length s \<le> BUF_MAX_LEN"
  obtains e' b' where "buf_add e b s = Inr (e', b', int (length (buf_bytes b')))" and "buf_inv e' b'"
    and "buf_bytes b' = buf_bytes b @ s" and "accounts e (chunks b) e' (chunks b')"
    and "default_chunk_size b' = default_chunk_size b"
proof -
  note b = assms(1) [unfolded buf_inv_iff buf_bytes_def]
  obtain e' chs where r: "add_loop e b s = Inr (e', b\<lparr>chunks := chs, buf_len := buf_len b + length s\<rparr>)" "chain_wf chs"
    "chain_bytes chs = chain_bytes (chunks b) @ s" "accounts e (chunks b) e' chs"
    using add_loop_ok [of b e s] b assms(2) by auto
  let ?b = "b\<lparr>chunks := chs, buf_len := length (chain_bytes chs)\<rparr>"
  have inv: "buf_inv e' ?b"
    using assms(1) r(2,4) by (rule buf_inv_update) (use assms(2) r(3) in \<open>simp add: buf_bytes_def\<close>)
  have len: "buf_len b + length s \<le> BUF_MAX_LEN" "buf_len b = length (chain_bytes (chunks b))"
    using assms(2) b by (auto simp: buf_bytes_def)
  then have "size_diff BUF_MAX_LEN (length s) = BUF_MAX_LEN - length s"
    by (intro size_diff_small) (auto simp: BUF_MAX_LEN_def)
  with r(1,3) len have "buf_add e b s = Inr (e', ?b, int (length (buf_bytes ?b)))" if "s \<noteq> []"
    using that by (simp add: buf_add_def to_c_int_small buf_bytes_def)
  moreover have "buf_add e b s = Inr (e', ?b, int (length (buf_bytes ?b)))" if "s = []"
    using that r len by (simp add: buf_add_def to_c_int_small buf_bytes_def add_loop.simps [of e b "[]"])
  ultimately have "buf_add e b s = Inr (e', ?b, int (length (buf_bytes ?b)))"
    by blast
  then show thesis
    using inv by (rule that) (use r in \<open>auto simp: buf_bytes_def\<close>)
qed

lemma buf_get_bytes_ok:
  assumes "buf_inv e b" and "n \<le> length (buf_bytes b)"
  obtains e' b' where "buf_get_bytes e b n = Inr (e', b', take n (buf_bytes b), int (length (buf_bytes b')))"
    and "buf_inv e' b'" and "buf_bytes b' = drop n (buf_bytes b)" and "accounts e (chunks b) e' (chunks b')"
proof -
  obtain e' b' where d: "buf_drain e b n = Inr (e', b')" "buf_inv e' b'" "buf_bytes b' = drop n (buf_bytes b)"
    "accounts e (chunks b) e' (chunks b')"
    using assms by (rule buf_drain_ok)
  then have "buf_get_bytes e b n = Inr (e', b', take n (buf_bytes b), int (length (buf_bytes b')))"
    using buf_peek_ok [OF assms] by (auto elim!: buf_invE simp: buf_get_bytes_def to_c_int_small)
  then show thesis
    using d(2-) by (rule that)
qed

lemma buf_pullup_ok:
  assumes "buf_inv e b"
  obtains e' b' out where "buf_pullup e b n = Inr (e', b', out)" and "buf_inv e' b'" and "buf_bytes b' = buf_bytes b"
    and "accounts e (chunks b) e' (chunks b')" and "out = (case chunks b' of [] \<Rightarrow> None | ch # _ \<Rightarrow> Some (chunk_data ch))"
    and "chunks b \<noteq> [] \<longrightarrow> out \<noteq> None \<and> min n (length (buf_bytes b)) \<le> length (the out)"
proof (cases "chunks b")
  case Nil
  with assms show thesis
    by (intro that [of e b None]) (simp_all add: buf_pullup_def)
next
  case (Cons ch chs)
  note b = assms(1) [unfolded buf_inv_iff buf_bytes_def Cons]
  let ?bytes = "min n (buf_len b)"
  show thesis
  proof (cases "?bytes \<le> ch_datalen ch")
    case True
    with assms Cons b show thesis
      by (intro that [of e b "Some (chunk_data ch)"]) (auto simp: buf_pullup_def Let_def min_def buf_bytes_def)
  next
    case False
    have "chunk_wf ch" and "ch_datalen ch < ?bytes" and "?bytes \<le> BUF_MAX_LEN"
      using b False by auto
    then obtain e1 dest where h: "pullup_head e ch ?bytes = Inr (e1, dest)" "chunk_wf dest"
      "chunk_data dest = chunk_data ch" "ch_datalen dest = ch_datalen ch"
      "?bytes \<le> ch_datalen dest + CHUNK_REMAINING_CAPACITY dest" "accounts e (ch # chs) e1 (dest # chs)"
      using pullup_head_ok [of ch ?bytes e chs] by blast
    have "\<exists>e' dest' chs'. pullup_loop e1 ?bytes dest chs = Inr (e', dest', chs') \<and> chain_wf (dest' # chs') \<and>
        chain_bytes (dest' # chs') = chunk_data dest @ chain_bytes chs \<and> ?bytes \<le> ch_datalen dest' \<and>
        accounts e1 (dest # chs) e' (dest' # chs')"
      using h b accounts_covers [OF h(6)] by (intro pullup_loop_ok) auto
    then obtain e2 dest' chs' where l: "pullup_loop e1 ?bytes dest chs = Inr (e2, dest', chs')"
      "chain_wf (dest' # chs')" "chain_bytes (dest' # chs') = chain_bytes (ch # chs)" "?bytes \<le> ch_datalen dest'"
      "accounts e1 (dest # chs) e2 (dest' # chs')"
      using h(3) by auto
    let ?b = "b\<lparr>chunks := dest' # chs', buf_len := length (chain_bytes (dest' # chs'))\<rparr>"
    have acc: "accounts e (chunks b) e2 (dest' # chs')"
      using h(6) l(5) Cons by (auto intro: accounts_trans)
    have "buf_inv e2 ?b"
      using assms l(2) acc by (rule buf_inv_update) (use b l(3) in auto)
    moreover have "length (chain_bytes (dest' # chs')) = buf_len b"
      unfolding l(3) using b by simp
    ultimately have "buf_inv e2 (b\<lparr>chunks := dest' # chs'\<rparr>)"
      by (simp only:) simp
    moreover have "buf_pullup e b n = Inr (e2, b\<lparr>chunks := dest' # chs'\<rparr>, Some (chunk_data dest'))"
      using Cons False h(1) l(1) by (auto simp: buf_pullup_def Let_def min_def)
    ultimately show thesis
      using l acc b by (intro that [of e2 "b\<lparr>chunks := dest' # chs'\<rparr>" "Some (chunk_data dest')"]) (auto simp: buf_bytes_def Cons)
  qed
qed

lemma clear_loop_ok:
  assumes "covers e chs"
  obtains e' where "clear_loop e chs = Inr e'" and "accounts e chs e' []"
  using assms
proof (induction chs arbitrary: e thesis)
  case Nil
  then show ?case by simp
next
  case (Cons ch chs)
  obtain e1 where e1: "buf_chunk_free_unchecked e ch = Inr e1" "accounts e (ch # chs) e1 chs"
    using Cons.prems(2) by (rule chunk_free_ok)
  have "covers e1 chs"
    using e1(2) Cons.prems(2) by (rule accounts_covers)
  then obtain e2 where "clear_loop e1 chs = Inr e2" "accounts e1 chs e2 []"
    using Cons.IH by blast
  with e1 show ?case
    by (intro Cons.prems(1) [of e2]) (auto intro: accounts_trans)
qed

lemma buf_clear_ok:
  assumes "buf_inv e b"
  obtains e' b' where "buf_clear e b = Inr (e', b')" and "buf_inv e' b'" and "buf_bytes b' = []"
    and "accounts e (chunks b) e' (chunks b')"
proof -
  note b = assms [unfolded buf_inv_iff]
  obtain e' where e': "clear_loop e (chunks b) = Inr e'" "accounts e (chunks b) e' []"
    using b by (blast elim: clear_loop_ok)
  have "buf_inv e' (b\<lparr>chunks := [], buf_len := 0\<rparr>)"
    using buf_inv_update [OF assms _ e'(2)] by simp
  with e' show thesis
    by (intro that) (auto simp: buf_clear_def buf_bytes_def)
qed

lemma copy_loop_eq: "\<exists>e'. copy_loop e chs = (e', chs) \<and> accounts e [] e' chs"
proof (induction chs arbitrary: e)
  case Nil
  then show ?case by simp
next
  case (Cons ch chs)
  obtain e1 where e1: "chunk_copy e ch = (e1, ch)" "accounts e [] e1 [ch]"
    by (rule that [of "fst (chunk_copy e ch)"]) (simp_all add: chunk_copy_def accounts_def)
  obtain e2 where "copy_loop e1 chs = (e2, chs)" "accounts e1 [] e2 chs"
    using Cons.IH by blast
  with e1 show ?case
    by (auto simp: accounts_def)
qed

text \<open>A copy holds the same bytes in memory of its own.\<close>

lemma buf_copy_ok:
  assumes "buf_inv e b"
  obtains e' b' where "buf_copy e b = (e', b')" and "buf_pair_inv e' b b'" and "buf_bytes b' = buf_bytes b"
    and "accounts e (chunks b) e' (chunks b @ chunks b')" and "default_chunk_size b' = default_chunk_size b"
proof -
  obtain e' where e': "copy_loop e (chunks b) = (e', chunks b)" "accounts e [] e' (chunks b)"
    using copy_loop_eq by blast
  with assms show thesis
    by (intro that [OF _ _ _ _ refl])
      (auto simp: buf_copy_def buf_pair_inv_def buf_inv_iff buf_bytes_def accounts_def covers_def buf_new_def)
qed

lemma buf_move_all_ok:
  assumes "buf_pair_inv e out inb" and "length (buf_bytes out) + length (buf_bytes inb) \<le> BUF_MAX_LEN"
  obtains out' inb' where "buf_move_all out inb = (out', inb', length (buf_bytes inb))" and "buf_pair_inv e out' inb'"
    and "buf_bytes out' = buf_bytes out @ buf_bytes inb" and "buf_bytes inb' = []"
proof (cases "buf_len inb = 0")
  case True
  with assms show thesis
    by (intro that [of out inb]) (auto simp: buf_move_all_def buf_datalen_def buf_pair_inv_def buf_inv_iff)
next
  case False
  have len: "buf_len inb = length (buf_bytes inb)" "buf_len out = length (buf_bytes out)"
    using assms(1) by (auto simp: buf_pair_inv_def buf_inv_iff)
  have "size_diff BUF_MAX_LEN (buf_len inb) = BUF_MAX_LEN - buf_len inb"
    using assms(2) len by (intro size_diff_small) (auto simp: BUF_MAX_LEN_def)
  then have "buf_move_all out inb =
      (out\<lparr>chunks := chunks out @ chunks inb, buf_len := buf_len out + buf_len inb\<rparr>,
       inb\<lparr>chunks := [], buf_len := 0\<rparr>, buf_len inb)"
    using False assms(2) len by (simp add: buf_move_all_def buf_datalen_def)
  with assms len show thesis
    by (intro that) (auto simp: buf_pair_inv_def buf_inv_iff buf_bytes_def covers_def)
qed

lemma move_loop_ok:
  assumes "buf_pair_inv e out inb" and "len \<le> length (buf_bytes inb)" and "length (buf_bytes out) + len \<le> BUF_MAX_LEN"
  shows "\<exists>e' out' inb'. move_loop e out inb len = Inr (e', out', inb') \<and> buf_pair_inv e' out' inb' \<and>
    buf_bytes out' = buf_bytes out @ take len (buf_bytes inb) \<and> buf_bytes inb' = drop len (buf_bytes inb)"
  using assms
proof (induction e out inb len rule: move_loop.induct)
  case (1 e out inb len)
  show ?case
  proof (cases "len = 0")
    case True
    with "1.prems" show ?thesis
      by (simp add: move_loop.simps)
  next
    case False
    define n where "n = (if move_block < len then move_block else len)"
    have n: "n \<le> len"
      by (auto simp: n_def)
    have inv: "buf_inv e inb" "buf_inv e out" "covers e (chunks out @ chunks inb)"
      using "1.prems"(1) by (simp_all add: buf_pair_inv_def)
    obtain e1 inb1 where g: "buf_get_bytes e inb n = Inr (e1, inb1, take n (buf_bytes inb), int (length (buf_bytes inb1)))"
      "buf_inv e1 inb1" "buf_bytes inb1 = drop n (buf_bytes inb)" "accounts e (chunks inb) e1 (chunks inb1)"
      using buf_get_bytes_ok [OF inv(1), of n] n "1.prems"(2) by auto
    have out1: "buf_inv e1 out" "covers e1 (chunks out @ chunks inb1)"
      using inv g(4) by (auto simp: buf_inv_iff covers_def accounts_def)
    have "length (buf_bytes out) + length (take n (buf_bytes inb)) \<le> BUF_MAX_LEN"
      using n "1.prems"(2,3) by simp
    with out1(1) obtain e2 out2 where a: "buf_add e1 out (take n (buf_bytes inb)) = Inr (e2, out2, int (length (buf_bytes out2)))"
      "buf_inv e2 out2" "buf_bytes out2 = buf_bytes out @ take n (buf_bytes inb)" "accounts e1 (chunks out) e2 (chunks out2)"
      by (rule buf_add_ok)
    have pair: "buf_pair_inv e2 out2 inb1"
      using out1 a g(2) by (auto simp: buf_pair_inv_def buf_inv_iff covers_def accounts_def)
    have "\<exists>e' out' inb'. move_loop e2 out2 inb1 (len - n) = Inr (e', out', inb') \<and> buf_pair_inv e' out' inb' \<and>
        buf_bytes out' = buf_bytes out2 @ take (len - n) (buf_bytes inb1) \<and>
        buf_bytes inb' = drop (len - n) (buf_bytes inb1)"
      by (rule "1.IH" [OF False n_def])
        (use pair g(3) a(3) n "1.prems"(2,3) in auto)
    then obtain e' out' inb' where rest: "move_loop e2 out2 inb1 (len - n) = Inr (e', out', inb')"
      "buf_pair_inv e' out' inb'" "buf_bytes out' = buf_bytes out2 @ take (len - n) (buf_bytes inb1)"
      "buf_bytes inb' = drop (len - n) (buf_bytes inb1)"
      by blast
    have "move_loop e out inb len = Inr (e', out', inb')"
      using False g(1) a(1) rest(1) by (simp add: move_loop.simps [of e out inb len] flip: n_def)
    moreover have "take n (buf_bytes inb) @ take (len - n) (drop n (buf_bytes inb)) = take len (buf_bytes inb)"
      using n by (metis le_add_diff_inverse take_add)
    ultimately show ?thesis
      using rest(2-4) a(3) g(3) n by simp
  qed
qed

lemma buf_move_to_buf_ok:
  assumes "buf_pair_inv e out inb" and "flushlen \<le> BUF_MAX_LEN" and "length (buf_bytes out) + flushlen \<le> BUF_MAX_LEN"
  obtains e' out' inb' where "buf_move_to_buf e out inb flushlen =
      Inr (e', out', inb', flushlen - min flushlen (length (buf_bytes inb)), int (min flushlen (length (buf_bytes inb))))"
    and "buf_pair_inv e' out' inb'" and "buf_bytes out' = buf_bytes out @ take flushlen (buf_bytes inb)"
    and "buf_bytes inb' = drop flushlen (buf_bytes inb)"
proof -
  let ?cp = "min flushlen (length (buf_bytes inb))"
  have len: "buf_len inb = length (buf_bytes inb)" "buf_len out = length (buf_bytes out)"
    using assms(1) by (auto simp: buf_pair_inv_def buf_inv_iff)
  have "?cp \<le> length (buf_bytes inb)" and "length (buf_bytes out) + ?cp \<le> BUF_MAX_LEN"
    using assms(3) by simp_all
  then obtain e' out' inb' where m: "move_loop e out inb ?cp = Inr (e', out', inb')" "buf_pair_inv e' out' inb'"
    "buf_bytes out' = buf_bytes out @ take ?cp (buf_bytes inb)" "buf_bytes inb' = drop ?cp (buf_bytes inb)"
    using move_loop_ok [OF assms(1), of ?cp] by blast
  have "size_diff BUF_MAX_LEN flushlen = BUF_MAX_LEN - flushlen"
    using assms(2) by (intro size_diff_small) (auto simp: BUF_MAX_LEN_def)
  moreover have "(if buf_len inb < flushlen then buf_len inb else flushlen) = ?cp"
    using len by simp
  moreover have "?cp \<le> BUF_MAX_LEN"
    using assms(2) by simp
  ultimately have "buf_move_to_buf e out inb flushlen = Inr (e', out', inb', flushlen - ?cp, int ?cp)"
    using m(1) assms(2,3) len by (simp add: buf_move_to_buf_def Let_def to_c_int_small)
  then show thesis
    using m(2) by (rule that) (use m(3,4) in \<open>auto simp: min_def\<close>)
qed

section \<open>The contract of a byte queue\<close>

text \<open>Adding the pieces of a stream one after the other.\<close>

fun add_pieces :: "('e \<Rightarrow> 'b \<Rightarrow> u8 list \<Rightarrow> 'f + 'e \<times> 'b \<times> int) \<Rightarrow> 'e \<Rightarrow> 'b \<Rightarrow> u8 list list \<Rightarrow> 'f + 'e \<times> 'b" where
  "add_pieces add e b [] = Inr (e, b)"
| "add_pieces add e b (s # ss) = and_then (add e b s) (\<lambda>(e', b', _). add_pieces add e' b' ss)"

locale byte_queue =
  fixes inv :: "'e \<Rightarrow> 'b \<Rightarrow> bool"
    and bytes :: "'b \<Rightarrow> u8 list"
    and limit :: nat
    and add :: "'e \<Rightarrow> 'b \<Rightarrow> u8 list \<Rightarrow> 'f + 'e \<times> 'b \<times> int"
    and peek :: "'b \<Rightarrow> nat \<Rightarrow> 'f + u8 list"
    and drain :: "'e \<Rightarrow> 'b \<Rightarrow> nat \<Rightarrow> 'f + 'e \<times> 'b"
  assumes add_law: "inv e b \<Longrightarrow> length (bytes b) + length s \<le> limit \<Longrightarrow>
      \<exists>e' b'. add e b s = Inr (e', b', int (length (bytes b'))) \<and> inv e' b' \<and> bytes b' = bytes b @ s"
    and peek_law: "inv e b \<Longrightarrow> n \<le> length (bytes b) \<Longrightarrow> peek b n = Inr (take n (bytes b))"
    and drain_law: "inv e b \<Longrightarrow> n \<le> length (bytes b) \<Longrightarrow>
      \<exists>e' b'. drain e b n = Inr (e', b') \<and> inv e' b' \<and> bytes b' = drop n (bytes b)"
begin

lemma peek_front: "inv e b \<Longrightarrow> bytes b = x @ y \<Longrightarrow> n = length x \<Longrightarrow> peek b n = Inr x"
  using peek_law [of e b n] by simp

lemma drain_front:
  assumes "inv e b" and "bytes b = x @ y" and "n = length x"
  obtains e' b' where "drain e b n = Inr (e', b')" and "inv e' b'" and "bytes b' = y"
  using drain_law [of e b n] assms by auto

lemma add_pieces_ok:
  assumes "inv e b" and "length (bytes b) + length (concat ss) \<le> limit"
  obtains e' b' where "add_pieces add e b ss = Inr (e', b')" and "inv e' b'" and "bytes b' = bytes b @ concat ss"
  using assms
proof (induction ss arbitrary: e b thesis)
  case Nil
  then show ?case by simp
next
  case (Cons s ss)
  obtain e1 b1 where a: "add e b s = Inr (e1, b1, int (length (bytes b1)))" "inv e1 b1" "bytes b1 = bytes b @ s"
    using add_law [OF Cons.prems(2), of s] Cons.prems(3) by auto
  obtain e2 b2 where "add_pieces add e1 b1 ss = Inr (e2, b2)" "inv e2 b2" "bytes b2 = bytes b1 @ concat ss"
    by (rule Cons.IH [of e1 b1]) (use a Cons.prems(3) in auto)
  with a show ?case
    by (intro Cons.prems(1)) auto
qed

end

interpretation bq: byte_queue buf_inv buf_bytes BUF_MAX_LEN buf_add buf_peek buf_drain
proof
  fix e b and s :: "u8 list"
  assume "buf_inv e b" and "length (buf_bytes b) + length s \<le> BUF_MAX_LEN"
  then show "\<exists>e' b'. buf_add e b s = Inr (e', b', int (length (buf_bytes b'))) \<and> buf_inv e' b' \<and>
      buf_bytes b' = buf_bytes b @ s"
    by (rule buf_add_ok) blast
next
  fix e b n
  assume "buf_inv e b" and "n \<le> length (buf_bytes b)"
  then show "buf_peek b n = Inr (take n (buf_bytes b))"
    by (rule buf_peek_ok)
next
  fix e b n
  assume "buf_inv e b" and "n \<le> length (buf_bytes b)"
  then show "\<exists>e' b'. buf_drain e b n = Inr (e', b') \<and> buf_inv e' b' \<and> buf_bytes b' = drop n (buf_bytes b)"
    by (rule buf_drain_ok) blast
qed

section \<open>Any sequence of calls\<close>

datatype buf_call =
    Call_Add "u8 list"
  | Call_Add_String "u8 list"
  | Call_Peek nat
  | Call_Drain nat
  | Call_Get nat
  | Call_Pullup nat
  | Call_Extract
  | Call_Copy
  | Call_Clear

text \<open>
  A call on a buffer, with the bytes it hands back.  Of \<open>buf_pullup\<close> these are the first bytes at
  \<open>head_out\<close>, as many as were asked for.  A copy takes the place of the buffer, which is freed.
\<close>

fun do_call :: "chunk_heap \<Rightarrow> buf_t \<Rightarrow> buf_call \<Rightarrow> buf_fault + chunk_heap \<times> buf_t \<times> u8 list" where
  "do_call e b (Call_Add s) = and_then (buf_add e b s) (\<lambda>(e', b', _). Inr (e', b', []))"
| "do_call e b (Call_Add_String s) = and_then (buf_add_string e b s) (\<lambda>(e', b'). Inr (e', b', []))"
| "do_call e b (Call_Peek n) = and_then (buf_peek b n) (\<lambda>bs. Inr (e, b, bs))"
| "do_call e b (Call_Drain n) = and_then (buf_drain e b n) (\<lambda>(e', b'). Inr (e', b', []))"
| "do_call e b (Call_Get n) = and_then (buf_get_bytes e b n) (\<lambda>(e', b', bs, _). Inr (e', b', bs))"
| "do_call e b (Call_Pullup n) =
     and_then (buf_pullup e b n) (\<lambda>(e', b', out). Inr (e', b', case out of None \<Rightarrow> [] | Some bs \<Rightarrow> take n bs))"
| "do_call e b Call_Extract = and_then (buf_extract b) (\<lambda>(bs, n). Inr (e, b, take n bs))"
| "do_call e b Call_Copy =
     (let (e1, b') = buf_copy e b in and_then (buf_free e1 (Some b)) (\<lambda>e2. Inr (e2, b', [])))"
| "do_call e b Call_Clear = and_then (buf_clear e b) (\<lambda>(e', b'). Inr (e', b', []))"

fun do_calls :: "chunk_heap \<Rightarrow> buf_t \<Rightarrow> buf_call list \<Rightarrow> buf_fault + chunk_heap \<times> buf_t \<times> u8 list list" where
  "do_calls e b [] = Inr (e, b, [])"
| "do_calls e b (c # cs) =
     and_then (do_call e b c) (\<lambda>(e', b', out).
     and_then (do_calls e' b' cs) (\<lambda>(e'', b'', outs). Inr (e'', b'', out # outs)))"

text \<open>
  The specification: the same calls on a list of bytes.  \<open>None\<close> is a call outside the contract, that
  is more bytes than there are, or more than a buffer may hold.
\<close>

fun queue_call :: "u8 list \<Rightarrow> buf_call \<Rightarrow> (u8 list \<times> u8 list) option" where
  "queue_call q (Call_Add s) = (if length q + length s \<le> BUF_MAX_LEN then Some (q @ s, []) else None)"
| "queue_call q (Call_Add_String s) =
     (let t = takeWhile (\<lambda>c. c \<noteq> 0) s in if length q + length t \<le> BUF_MAX_LEN then Some (q @ t, []) else None)"
| "queue_call q (Call_Peek n) = (if n \<le> length q then Some (q, take n q) else None)"
| "queue_call q (Call_Drain n) = (if n \<le> length q then Some (drop n q, []) else None)"
| "queue_call q (Call_Get n) = (if n \<le> length q then Some (drop n q, take n q) else None)"
| "queue_call q (Call_Pullup n) = Some (q, take n q)"
| "queue_call q Call_Extract = Some (q, q)"
| "queue_call q Call_Copy = Some (q, [])"
| "queue_call q Call_Clear = Some ([], [])"

fun queue_calls :: "u8 list \<Rightarrow> buf_call list \<Rightarrow> (u8 list \<times> u8 list list) option" where
  "queue_calls q [] = Some (q, [])"
| "queue_calls q (c # cs) =
     (case queue_call q c of
        None \<Rightarrow> None
      | Some (q', out) \<Rightarrow> map_option (\<lambda>(q'', outs). (q'', out # outs)) (queue_calls q' cs))"

text \<open>What a chunk of a chain shows is a prefix of what the chain holds.\<close>

lemma head_prefix:
  assumes "chunks b = ch # chs" and "min n (length (buf_bytes b)) \<le> length (chunk_data ch)"
  shows "take n (chunk_data ch) = take n (buf_bytes b)"
  using assms by (auto simp: buf_bytes_def min_def split: if_splits)

lemma pullup_call_ok:
  assumes "buf_inv e b"
  obtains e' b' where "do_call e b (Call_Pullup n) = Inr (e', b', take n (buf_bytes b))" and "buf_inv e' b'"
    and "buf_bytes b' = buf_bytes b" and "accounts e (chunks b) e' (chunks b')"
proof -
  obtain e' b' out where p: "buf_pullup e b n = Inr (e', b', out)" "buf_inv e' b'" "buf_bytes b' = buf_bytes b"
    "accounts e (chunks b) e' (chunks b')" "out = (case chunks b' of [] \<Rightarrow> None | ch # _ \<Rightarrow> Some (chunk_data ch))"
    "chunks b \<noteq> [] \<longrightarrow> out \<noteq> None \<and> min n (length (buf_bytes b)) \<le> length (the out)"
    using assms by (rule buf_pullup_ok [where n = n])
  have "(case out of None \<Rightarrow> [] | Some bs \<Rightarrow> take n bs) = take n (buf_bytes b)"
  proof (cases "chunks b'")
    case Nil
    then show ?thesis
      using p(3,5) by (auto simp: buf_bytes_def)
  next
    case (Cons ch chs)
    have "take n (chunk_data ch) = take n (buf_bytes b')" if "chunks b \<noteq> []"
      using p that Cons by (intro head_prefix [OF Cons]) auto
    moreover have "take n (chunk_data ch) = take n (buf_bytes b')" if "chunks b = []"
      using p(3) that Cons by (simp add: buf_bytes_def)
    ultimately show ?thesis
      using p(3,5) Cons by auto
  qed
  with p show thesis
    by (intro that [of e' b']) simp_all
qed

lemma copy_call_ok:
  assumes "buf_inv e b"
  obtains e' b' where "do_call e b Call_Copy = Inr (e', b', [])" and "buf_inv e' b'"
    and "buf_bytes b' = buf_bytes b" and "accounts e (chunks b) e' (chunks b')"
proof -
  obtain e1 b' where c: "buf_copy e b = (e1, b')" "buf_pair_inv e1 b b'" "buf_bytes b' = buf_bytes b"
    "accounts e (chunks b) e1 (chunks b @ chunks b')"
    using assms by (rule buf_copy_ok)
  obtain e2 b0 where f: "buf_clear e1 b = Inr (e2, b0)" "buf_inv e2 b0" "buf_bytes b0 = []" "accounts e1 (chunks b) e2 (chunks b0)"
    using c(2) by (auto simp: buf_pair_inv_def elim: buf_clear_ok)
  then have "chunks b0 = []"
    by (auto simp: buf_clear_def and_then_Inr)
  then have "accounts e (chunks b) e2 (chunks b')" "buf_inv e2 b'"
    using c(2,4) f(4) by (auto simp: accounts_def buf_pair_inv_def buf_inv_iff covers_def)
  with c f show thesis
    by (intro that [of e2 b']) (simp_all add: buf_free_def)
qed

lemma call_refines:
  assumes "buf_inv e b" and "queue_call (buf_bytes b) c = Some (q, out)"
  obtains e' b' where "do_call e b c = Inr (e', b', out)" and "buf_inv e' b'" and "buf_bytes b' = q"
    and "accounts e (chunks b) e' (chunks b')"
proof (cases c)
  case (Call_Add s)
  then have "length (buf_bytes b) + length s \<le> BUF_MAX_LEN"
    using assms(2) by (simp split: if_splits)
  with assms(1) show thesis
    by (rule buf_add_ok) (use Call_Add assms(2) that in \<open>auto split: if_splits\<close>)
next
  case (Call_Add_String s)
  then have "length (buf_bytes b) + length (takeWhile (\<lambda>c. c \<noteq> 0) s) \<le> BUF_MAX_LEN"
    using assms(2) by (simp add: Let_def split: if_splits)
  with assms(1) show thesis
    by (rule buf_add_ok) (use Call_Add_String assms(2) that in \<open>auto simp: buf_add_string_def Let_def split: if_splits\<close>)
next
  case (Call_Peek n)
  with assms show thesis
    by (intro that [of e b]) (auto simp: buf_peek_ok split: if_splits)
next
  case (Call_Drain n)
  then have "n \<le> length (buf_bytes b)"
    using assms(2) by (simp split: if_splits)
  with assms(1) show thesis
    by (rule buf_drain_ok) (use Call_Drain assms(2) that in \<open>auto split: if_splits\<close>)
next
  case (Call_Get n)
  then have "n \<le> length (buf_bytes b)"
    using assms(2) by (simp split: if_splits)
  with assms(1) show thesis
    by (rule buf_get_bytes_ok) (use Call_Get assms(2) that in \<open>auto split: if_splits\<close>)
next
  case (Call_Pullup n)
  from assms(1) show thesis
    by (rule pullup_call_ok [of e b n]) (use Call_Pullup assms(2) that in \<open>auto split: if_splits\<close>)
next
  case Call_Extract
  with assms show thesis
    by (intro that [of e b]) (auto elim!: buf_invE simp: buf_extract_def buf_datalen_def buf_peek_ok [OF assms(1)])
next
  case Call_Copy
  from assms(1) show thesis
    by (rule copy_call_ok) (use Call_Copy assms(2) that in \<open>auto split: if_splits\<close>)
next
  case Call_Clear
  from assms(1) show thesis
    by (rule buf_clear_ok) (use Call_Clear assms(2) that in \<open>auto split: if_splits\<close>)
qed

lemma calls_refine:
  assumes "buf_inv e b" and "queue_calls (buf_bytes b) cs = Some (q, outs)"
  shows "\<exists>e' b'. do_calls e b cs = Inr (e', b', outs) \<and> buf_inv e' b' \<and> buf_bytes b' = q \<and>
    accounts e (chunks b) e' (chunks b')"
  using assms
proof (induction cs arbitrary: e b outs)
  case Nil
  then show ?case by simp
next
  case (Cons c cs)
  then obtain q1 out outs' where q: "queue_call (buf_bytes b) c = Some (q1, out)"
    "queue_calls q1 cs = Some (q, outs')" "outs = out # outs'"
    by (auto split: option.splits)
  obtain e1 b1 where b1: "do_call e b c = Inr (e1, b1, out)" "buf_inv e1 b1" "buf_bytes b1 = q1"
    "accounts e (chunks b) e1 (chunks b1)"
    using Cons.prems(1) q(1) by (rule call_refines)
  then obtain e2 b2 where "do_calls e1 b1 cs = Inr (e2, b2, outs')" "buf_inv e2 b2" "buf_bytes b2 = q"
    "accounts e1 (chunks b1) e2 (chunks b2)"
    using Cons.IH [of e1 b1 outs'] q(2) by auto
  with b1 q(3) show ?case
    by (auto intro: accounts_trans)
qed

lemma buf_new_inv: "buf_inv e buf_new" "buf_bytes buf_new = []" "chunks buf_new = []"
  by (simp_all add: buf_inv_def buf_assert_ok_def buf_new_def buf_allocation_def buf_bytes_def)

text \<open>
  A piece of at most \<open>BUF_MAX_LEN\<close> bytes that would take the buffer over the limit is refused with -1 and
  nothing changes; but for a longer piece the subtraction in the second guard wraps around, the guard
  lets it pass, and the program aborts at the assertion after the loop, with all the bytes copied.
\<close>

lemma buf_add_too_long:
  assumes "buf_inv e b" and "BUF_MAX_LEN < length (buf_bytes b) + length s" and "length s < 2 ^ 64"
  shows "buf_add e b s = (if length s \<le> BUF_MAX_LEN then Inr (e, b, -1) else Inl Buf_Assert)"
proof (cases "length s \<le> BUF_MAX_LEN")
  case True
  then have "size_diff BUF_MAX_LEN (length s) = BUF_MAX_LEN - length s"
    by (intro size_diff_small) (simp_all add: BUF_MAX_LEN_def)
  with True assms(1,2) show ?thesis
    by (auto elim!: buf_invE simp: buf_add_def)
next
  case False
  have len: "buf_len b \<le> BUF_MAX_LEN" "chain_wf (chunks b)"
    using assms(1) by (auto simp: buf_inv_iff)
  have "BUF_MAX_LEN + 2 ^ 64 - length s < 2 ^ 64"
    using False by simp
  then have "size_diff BUF_MAX_LEN (length s) = BUF_MAX_LEN + 2 ^ 64 - length s"
    by (simp add: size_diff_def)
  then have "\<not> size_diff BUF_MAX_LEN (length s) < buf_len b"
    using len(1) assms(3) by linarith
  moreover obtain e' chs where "add_loop e b s = Inr (e', b\<lparr>chunks := chs, buf_len := buf_len b + length s\<rparr>)"
    using add_loop_ok [OF len(2), of e s] by blast
  ultimately show ?thesis
    using False len(1) by (auto simp: buf_add_def)
qed

section \<open>Properties\<close>

text \<open>
  C14. A buffer is a queue of bytes.  For every sequence of calls that, on a plain list of bytes, never
  asks for more than is there and never holds more than \<open>BUF_MAX_LEN\<close> bytes, the chunked buffer
  started empty runs without a failed assertion, without an access outside a chunk and without an
  endless loop; it hands back the same bytes at every call and holds the same bytes at the end; its
  own consistency check accepts it; and the global count of allocated bytes has grown by exactly what
  the buffer still has allocated.
\<close>

theorem buffer_refines_queue:
  assumes "queue_calls [] cs = Some (q, outs)"
  shows "\<exists>e' b'. do_calls e buf_new cs = Inr (e', b', outs) \<and> buf_bytes b' = q \<and> buf_assert_ok b' \<and>
    buf_datalen b' = length q \<and>
    buf_get_total_allocation e' = buf_get_total_allocation e + buf_allocation b'"
proof -
  obtain e' b' where r: "do_calls e buf_new cs = Inr (e', b', outs)" "buf_inv e' b'" "buf_bytes b' = q"
    "accounts e (chunks buf_new) e' (chunks b')"
    using calls_refine [OF buf_new_inv(1), of cs q outs e] assms by (auto simp: buf_new_inv)
  then have "buf_assert_ok b'" and "buf_datalen b' = length q"
    by (simp add: buf_inv_def) (use r in \<open>auto simp: buf_inv_iff buf_datalen_def\<close>)
  moreover have "buf_get_total_allocation e' = buf_get_total_allocation e + buf_allocation b'"
    using r(4) by (simp add: accounts_def buf_new_inv buf_get_total_allocation_def buf_allocation_def chain_alloc_def)
  ultimately show ?thesis
    using r by blast
qed

definition demo_heap :: chunk_heap where
  "demo_heap = \<lparr>total_bytes_allocated_in_chunks = 0, fresh_mem = (\<lambda>i. 10), coarse_stamp = 7\<rparr>"

definition demo_calls :: "buf_call list" where
  "demo_calls = [Call_Add [1, 2, 3, 4], Call_Get 1, Call_Add_String [5, 6, 0, 9], Call_Pullup 4, Call_Copy,
     Call_Drain 2, Call_Extract]"

theorem buffer_refines_queue_witness:
  "\<exists>e' b'. do_calls demo_heap buf_new demo_calls = Inr (e', b', [[], [1], [], [2, 3, 4, 5], [], [], [4, 5, 6]]) \<and>
    buf_bytes b' = [4, 5, 6] \<and> buf_assert_ok b' \<and> buf_datalen b' = length [4, 5, 6 :: u8] \<and>
    buf_get_total_allocation e' = buf_get_total_allocation demo_heap + buf_allocation b'"
proof (rule buffer_refines_queue)
  show "queue_calls [] demo_calls = Some ([4, 5, 6], [[], [1], [], [2, 3, 4, 5], [], [], [4, 5, 6]])"
    by (simp add: demo_calls_def BUF_MAX_LEN_def)
qed

end
