(* ===== verification/Buffers_Find.thy ===== *)
theory Buffers_Find
  imports Buffers
begin

text \<open>
  Searching in a buffer and reading lines from it (\<^verbatim>\<open>src/lib/buf/buffers.c\<close>).  A position is the
  chain from the chunk it points to, an offset in that chunk and the length of the chunks before.
  The search compares byte by byte and walks from chunk to chunk; it is the first occurrence in the
  bytes of the buffer when every chunk holds data, and it reads memory that was never written when
  the last chunk is empty.
\<close>

section \<open>Searching\<close>

record buf_pos_t =
  pos_chain :: "chunk_t list"
  pos_off :: nat
  chunk_pos :: nat

definition buf_pos_init :: "buf_t \<Rightarrow> buf_pos_t" where
  "buf_pos_init b = \<lparr>pos_chain = chunks b, pos_off = 0, chunk_pos = 0\<rparr>"

fun memchr :: "u8 \<Rightarrow> u8 list \<Rightarrow> nat option" where
  "memchr c [] = None"
| "memchr c (x # xs) = (if x = c then Some 0 else map_option Suc (memchr c xs))"

fun find_char_loop :: "u8 \<Rightarrow> buf_pos_t \<Rightarrow> nat \<Rightarrow> chunk_t list \<Rightarrow> buf_fault + buf_pos_t \<times> int" where
  "find_char_loop c out pos [] = Inr (out, -1)"
| "find_char_loop c out pos (ch # chs) =
     (case memchr c (drop pos (chunk_data ch)) of
        Some i \<Rightarrow>
          if BUF_MAX_LEN < pos + i then Inl Buf_Assert
          else Inr (out\<lparr>pos_chain := ch # chs, pos_off := pos + i\<rparr>, int (chunk_pos out + (pos + i)))
      | None \<Rightarrow> find_char_loop c (out\<lparr>chunk_pos := chunk_pos out + ch_datalen ch\<rparr>) 0 chs)"

definition buf_find_pos_of_char :: "u8 \<Rightarrow> buf_pos_t \<Rightarrow> buf_fault + buf_pos_t \<times> int" where
  "buf_find_pos_of_char c out =
     (case pos_chain out of
        [] \<Rightarrow> find_char_loop c out (pos_off out) []
      | ch # chs \<Rightarrow>
          if (if ch_datalen ch \<noteq> 0 then pos_off out < ch_datalen ch else pos_off out = 0)
          then find_char_loop c out (pos_off out) (ch # chs) else Inl Buf_Assert)"

text \<open>The flag is whether it returned 0; a \<open>NULL\<close> chunk would be read through.\<close>

definition buf_pos_inc :: "buf_pos_t \<Rightarrow> buf_fault + buf_pos_t \<times> bool" where
  "buf_pos_inc p =
     (if BUF_MAX_LEN \<le> pos_off p then Inl Buf_Assert
      else case pos_chain p of
        [] \<Rightarrow> Inl Buf_Overrun
      | ch # chs \<Rightarrow>
          if pos_off p + 1 = ch_datalen ch then
            if chs = [] then Inr (p\<lparr>pos_off := pos_off p + 1\<rparr>, False)
            else Inr (p\<lparr>pos_chain := chs, pos_off := 0, chunk_pos := chunk_pos p + ch_datalen ch\<rparr>, True)
          else Inr (p\<lparr>pos_off := pos_off p + 1\<rparr>, True))"

text \<open>The byte \<open>p.chunk->data[p.pos]\<close>, which need not be one of the data of the chunk.\<close>

definition pos_byte :: "buf_pos_t \<Rightarrow> buf_fault + u8" where
  "pos_byte p =
     (case pos_chain p of
        [] \<Rightarrow> Inl Buf_Overrun
      | ch # _ \<Rightarrow>
          let i = ch_data ch + pos_off p in
          if i < length (ch_mem ch) then Inr (ch_mem ch ! i) else Inl Buf_Overrun)"

fun buf_matches_at_pos :: "buf_pos_t \<Rightarrow> u8 list \<Rightarrow> buf_fault + bool" where
  "buf_matches_at_pos p [] = Inr True"
| "buf_matches_at_pos p (x # xs) =
     and_then (pos_byte p) (\<lambda>c.
       if c \<noteq> x then Inr False
       else if xs = [] then Inr True
       else and_then (buf_pos_inc p) (\<lambda>(p', ok). if ok then buf_matches_at_pos p' xs else Inr False))"

text \<open>How far a position is from the end: what makes the search end.\<close>

definition pos_left :: "buf_pos_t \<Rightarrow> nat" where
  "pos_left p = sum_list (map (\<lambda>ch. ch_datalen ch + 1) (pos_chain p)) - pos_off p"

lemma memchr_Some: "memchr c xs = Some i \<longleftrightarrow> i < length xs \<and> xs ! i = c \<and> c \<notin> set (take i xs)"
proof (induction xs arbitrary: i)
  case (Cons x xs)
  then show ?case
    by (cases i) (auto simp: nth_Cons')
qed simp

lemma memchr_None: "memchr c xs = None \<longleftrightarrow> c \<notin> set xs"
  by (induction xs) auto

lemma find_char_left:
  assumes "find_char_loop c out pos chs = Inr (p1, r)" and "0 \<le> r" and "chs \<noteq> [] \<longrightarrow> pos \<le> ch_datalen (hd chs)"
  shows "\<exists>ch chs'. pos_chain p1 = ch # chs' \<and> pos_off p1 < ch_datalen ch \<and>
    pos_left p1 \<le> sum_list (map (\<lambda>ch. ch_datalen ch + 1) chs) - pos"
  using assms
proof (induction c out pos chs rule: find_char_loop.induct)
  case (2 c out pos ch chs)
  show ?case
  proof (cases "memchr c (drop pos (chunk_data ch))")
    case None
    have "find_char_loop c (out\<lparr>chunk_pos := chunk_pos out + ch_datalen ch\<rparr>) 0 chs = Inr (p1, r)"
      using "2.prems"(1) None by simp
    from "2.IH" [OF None this "2.prems"(2)] obtain ch' chs' where "pos_chain p1 = ch' # chs'"
      "pos_off p1 < ch_datalen ch'" "pos_left p1 \<le> sum_list (map (\<lambda>ch. ch_datalen ch + 1) chs)"
      by auto
    then show ?thesis
      using "2.prems"(3) by auto
  next
    case (Some i)
    then have "pos + i < ch_datalen ch"
      by (auto simp: memchr_Some chunk_data_def)
    with Some show ?thesis
      using "2.prems"(1) by (auto simp: pos_left_def split: if_splits)
  qed
qed simp

lemma find_pos_left:
  assumes "buf_find_pos_of_char c p = Inr (p1, r)" and "0 \<le> r"
  obtains ch chs where "pos_chain p1 = ch # chs" and "pos_off p1 < ch_datalen ch" and "pos_left p1 \<le> pos_left p"
proof (cases "pos_chain p")
  case Nil
  with assms show thesis
    by (auto simp: buf_find_pos_of_char_def)
next
  case (Cons ch chs)
  then have "find_char_loop c p (pos_off p) (ch # chs) = Inr (p1, r)" and "pos_off p \<le> ch_datalen ch"
    using assms by (auto simp: buf_find_pos_of_char_def split: if_splits)
  then show thesis
    using find_char_left [of c p "pos_off p" "ch # chs" p1 r] assms(2) that Cons by (auto simp: pos_left_def)
qed

lemma pos_inc_left:
  assumes "buf_pos_inc p = Inr (p', True)" and "pos_chain p = ch # chs" and "pos_off p < ch_datalen ch"
  shows "pos_left p' < pos_left p"
  using assms by (auto simp: buf_pos_inc_def pos_left_def split: if_splits)

function find_string_loop :: "u8 \<Rightarrow> u8 list \<Rightarrow> buf_pos_t \<Rightarrow> buf_fault + int" where
  "find_string_loop c s p =
     (case buf_find_pos_of_char c p of
        Inl f \<Rightarrow> Inl f
      | Inr (p1, r) \<Rightarrow>
          if r < 0 then Inr (-1)
          else case buf_matches_at_pos p1 s of
            Inl f \<Rightarrow> Inl f
          | Inr True \<Rightarrow>
              if BUF_MAX_LEN < chunk_pos p1 + pos_off p1 then Inl Buf_Assert
              else Inr (to_c_int (chunk_pos p1 + pos_off p1))
          | Inr False \<Rightarrow>
              (case buf_pos_inc p1 of
                 Inl f \<Rightarrow> Inl f
               | Inr (p2, ok) \<Rightarrow> if ok then find_string_loop c s p2 else Inr (-1)))"
  by pat_completeness auto
termination
proof (relation "measure (\<lambda>(c, s, p). pos_left p)")
  fix c :: u8 and s :: "u8 list" and p x p1 r b y p2 ok
  assume "buf_find_pos_of_char c p = Inr x" and "(p1, r) = x" and "\<not> r < 0"
    and "buf_pos_inc p1 = Inr y" and "(p2, ok) = y" and "ok"
  then have find: "buf_find_pos_of_char c p = Inr (p1, r)" "0 \<le> r" and inc: "buf_pos_inc p1 = Inr (p2, True)"
    by auto
  from find have "pos_left p2 < pos_left p"
    by (rule find_pos_left) (use pos_inc_left [OF inc] in fastforce)
  then show "((c, s, p2), (c, s, p)) \<in> measure (\<lambda>(c, s, p). pos_left p)"
    by simp
qed simp

declare find_string_loop.simps [simp del]

text \<open>The first \<open>n\<close> bytes of \<open>s\<close>; its first byte is read also when \<open>n\<close> is zero.\<close>

definition buf_find_string_offset :: "buf_t \<Rightarrow> u8 list \<Rightarrow> nat \<Rightarrow> buf_fault + int" where
  "buf_find_string_offset b s n =
     (case s of [] \<Rightarrow> Inl Buf_Overrun | c # _ \<Rightarrow> find_string_loop c (take n s) (buf_pos_init b))"

definition PEEK_BUF_STARTSWITH_MAX :: nat where "PEEK_BUF_STARTSWITH_MAX = 16"

definition buf_peek_startswith :: "buf_t \<Rightarrow> u8 list \<Rightarrow> buf_fault + bool" where
  "buf_peek_startswith b cmd =
     (let clen = length cmd in
      if clen = 0 then Inr True
      else if PEEK_BUF_STARTSWITH_MAX < clen then Inr False
      else if buf_len b < clen then Inr False
      else and_then (buf_peek b clen) (\<lambda>tmp. Inr (tmp = cmd)))"

section \<open>Lines\<close>

fun offset_loop :: "u8 \<Rightarrow> nat \<Rightarrow> chunk_t list \<Rightarrow> int" where
  "offset_loop c offset [] = -1"
| "offset_loop c offset (ch # chs) =
     (case memchr c (chunk_data ch) of
        Some i \<Rightarrow> int (offset + i)
      | None \<Rightarrow> offset_loop c (offset + ch_datalen ch) chs)"

definition buf_find_offset_of_char :: "buf_t \<Rightarrow> u8 \<Rightarrow> buf_fault + int" where
  "buf_find_offset_of_char b c =
     (if BUF_MAX_LEN < buf_len b then Inl Buf_Assert else Inr (offset_loop c 0 (chunks b)))"

text \<open>
  The last three results are the return value, what is written to \<open>data_out\<close> with the zero byte, and
  the new \<open>*data_len\<close>.
\<close>

definition buf_get_line ::
  "chunk_heap \<Rightarrow> buf_t \<Rightarrow> nat \<Rightarrow> buf_fault + chunk_heap \<times> buf_t \<times> int \<times> u8 list \<times> nat" where
  "buf_get_line e b data_len =
     (if chunks b = [] then Inr (e, b, 0, [], data_len)
      else and_then (buf_find_offset_of_char b 10) (\<lambda>offset.
        if offset < 0 then Inr (e, b, 0, [], data_len)
        else let sz = nat offset in
          if data_len < sz + 2 then Inr (e, b, -1, [], sz + 2)
          else and_then (buf_get_bytes e b (sz + 1)) (\<lambda>(e', b', bs, _).
            Inr (e', b', 1, bs @ [0], sz + 1))))"

section \<open>The search on the bytes\<close>

definition occurs_at :: "u8 list \<Rightarrow> u8 list \<Rightarrow> nat \<Rightarrow> bool" where
  "occurs_at s xs i \<longleftrightarrow> i + length s \<le> length xs \<and> take (length s) (drop i xs) = s"

text \<open>The specification of the search: where the string occurs first.\<close>

fun first_occurrence :: "u8 list \<Rightarrow> u8 list \<Rightarrow> nat option" where
  "first_occurrence s [] = (if s = [] then Some 0 else None)"
| "first_occurrence s (x # xs) =
     (if take (length s) (x # xs) = s then Some 0 else map_option Suc (first_occurrence s xs))"

lemma occurs_at_0: "occurs_at s xs 0 \<longleftrightarrow> take (length s) xs = s"
  by (auto simp: occurs_at_def) (metis length_take min.cobounded1)

lemma occurs_at_Suc: "occurs_at s (x # xs) (Suc i) \<longleftrightarrow> occurs_at s xs i"
  by (simp add: occurs_at_def)

lemma first_occurrence_Some:
  "first_occurrence s xs = Some i \<longleftrightarrow> occurs_at s xs i \<and> (\<forall>j<i. \<not> occurs_at s xs j)"
proof (induction xs arbitrary: i)
  case Nil
  then show ?case
    by (auto simp: occurs_at_def)
next
  case (Cons x xs)
  then show ?case
    by (cases i) (auto simp: occurs_at_Suc All_less_Suc2 occurs_at_0)
qed

lemma first_occurrence_None: "first_occurrence s xs = None \<longleftrightarrow> (\<forall>i. \<not> occurs_at s xs i)"
proof (induction xs)
  case Nil
  then show ?case
    by (auto simp: occurs_at_def)
next
  case (Cons x xs)
  have "(\<forall>i. \<not> occurs_at s (x # xs) i) \<longleftrightarrow> \<not> occurs_at s (x # xs) 0 \<and> (\<forall>i. \<not> occurs_at s xs i)"
    by (metis not0_implies_Suc occurs_at_Suc)
  then show ?case
    using Cons.IH by (auto simp: occurs_at_0)
qed

lemma memchr_append:
  "memchr c (xs @ ys) = (case memchr c xs of Some i \<Rightarrow> Some i | None \<Rightarrow> map_option ((+) (length xs)) (memchr c ys))"
  by (induction xs) (auto simp: option.map_comp comp_def map_option_case split: option.splits)

definition pos_suffix :: "buf_pos_t \<Rightarrow> u8 list" where
  "pos_suffix p = drop (pos_off p) (chain_bytes (pos_chain p))"

definition pos_abs :: "buf_pos_t \<Rightarrow> nat" where
  "pos_abs p = chunk_pos p + pos_off p"

definition no_empty :: "chunk_t list \<Rightarrow> bool" where
  "no_empty chs \<longleftrightarrow> list_all (\<lambda>ch. ch_datalen ch \<noteq> 0) chs"

definition pos_ok :: "buf_pos_t \<Rightarrow> bool" where
  "pos_ok p \<longleftrightarrow> chain_wf (pos_chain p) \<and> no_empty (pos_chain p) \<and>
     (if pos_chain p = [] then pos_off p = 0 else pos_off p < ch_datalen (hd (pos_chain p))) \<and>
     chunk_pos p + length (chain_bytes (pos_chain p)) \<le> BUF_MAX_LEN"

lemma no_empty_simps [simp]:
  "no_empty []" "no_empty (ch # chs) \<longleftrightarrow> ch_datalen ch \<noteq> 0 \<and> no_empty chs"
  by (simp_all add: no_empty_def)

lemma find_char_loop_None:
  "c \<notin> set (drop pos (chain_bytes chs)) \<Longrightarrow> chain_wf chs \<Longrightarrow> chs \<noteq> [] \<longrightarrow> pos \<le> ch_datalen (hd chs) \<Longrightarrow>
    \<exists>out'. find_char_loop c out pos chs = Inr (out', -1)"
proof (induction c out pos chs rule: find_char_loop.induct)
  case (2 c out pos ch chs)
  then have "memchr c (drop pos (chunk_data ch)) = None"
    by (auto simp: memchr_None)
  with 2 show ?case
    by auto
qed simp

lemma find_char_loop_Some:
  assumes "memchr c (drop pos (chain_bytes chs)) = Some i" and "chain_wf chs" and "no_empty chs"
    and "chs \<noteq> [] \<longrightarrow> pos \<le> ch_datalen (hd chs)" and "chunk_pos out + length (chain_bytes chs) \<le> BUF_MAX_LEN"
  shows "\<exists>p. find_char_loop c out pos chs = Inr (p, int (pos_abs p)) \<and> pos_ok p \<and> pos_chain p \<noteq> [] \<and>
    pos_suffix p = drop (pos + i) (chain_bytes chs) \<and> pos_abs p = chunk_pos out + pos + i"
  using assms
proof (induction c out pos chs arbitrary: i rule: find_char_loop.induct)
  case (2 c out pos ch chs)
  have len: "length (chunk_data ch) = ch_datalen ch" and pos: "pos \<le> ch_datalen ch"
    using "2.prems" by simp_all
  show ?case
  proof (cases "memchr c (drop pos (chunk_data ch))")
    case None
    have all: "memchr c (drop pos (chunk_data ch) @ chain_bytes chs) = Some i"
      using "2.prems"(1) len pos by simp
    then obtain k where k: "memchr c (chain_bytes chs) = Some k" "i = (ch_datalen ch - pos) + k"
      using None len by (auto simp: memchr_append)
    have "\<exists>p. find_char_loop c (out\<lparr>chunk_pos := chunk_pos out + ch_datalen ch\<rparr>) 0 chs = Inr (p, int (pos_abs p)) \<and>
        pos_ok p \<and> pos_chain p \<noteq> [] \<and> pos_suffix p = drop (0 + k) (chain_bytes chs) \<and>
        pos_abs p = chunk_pos (out\<lparr>chunk_pos := chunk_pos out + ch_datalen ch\<rparr>) + 0 + k"
      using None "2.prems" k(1) by (intro "2.IH") auto
    with None k(2) len pos show ?thesis
      by auto
  next
    case (Some j)
    then have "j < ch_datalen ch - pos"
      using len by (simp add: memchr_Some)
    moreover have "i = j"
      using "2.prems"(1) Some len pos by (simp add: memchr_append)
    ultimately show ?thesis
      using Some "2.prems" len
      by (auto simp: pos_ok_def pos_suffix_def pos_abs_def)
  qed
qed simp

lemma find_pos_None:
  "pos_ok p \<Longrightarrow> c \<notin> set (pos_suffix p) \<Longrightarrow> \<exists>p'. buf_find_pos_of_char c p = Inr (p', -1)"
  using find_char_loop_None [of c "pos_off p" "pos_chain p" p]
  by (cases "pos_chain p") (auto simp: buf_find_pos_of_char_def pos_ok_def pos_suffix_def)

lemma find_pos_Some:
  assumes "pos_ok p" and "memchr c (pos_suffix p) = Some i"
  obtains p' where "buf_find_pos_of_char c p = Inr (p', int (pos_abs p'))" and "pos_ok p'" and "pos_chain p' \<noteq> []"
    and "pos_suffix p' = drop i (pos_suffix p)" and "pos_abs p' = pos_abs p + i"
  using assms find_char_loop_Some [of c "pos_off p" "pos_chain p" i p]
  by (cases "pos_chain p") (auto simp: buf_find_pos_of_char_def pos_ok_def pos_suffix_def pos_abs_def add.commute)

lemma pos_byte_ok:
  assumes "pos_ok p" and "pos_chain p = ch # chs"
  shows "pos_byte p = Inr (hd (pos_suffix p))" and "pos_suffix p \<noteq> []"
proof -
  have off: "pos_off p < ch_datalen ch" "chunk_wf ch"
    using assms by (auto simp: pos_ok_def)
  then have "pos_suffix p = drop (pos_off p) (chunk_data ch) @ chain_bytes chs"
    using assms(2) by (simp add: pos_suffix_def)
  moreover have "drop (pos_off p) (chunk_data ch) \<noteq> []" and "hd (drop (pos_off p) (chunk_data ch)) = chunk_data ch ! pos_off p"
    using off by (simp_all add: hd_drop_conv_nth)
  moreover have "pos_byte p = Inr (chunk_data ch ! pos_off p)"
    using off assms(2) by (simp add: pos_byte_def Let_def chunk_data_def chunk_wf_def)
  ultimately show "pos_byte p = Inr (hd (pos_suffix p))" and "pos_suffix p \<noteq> []"
    by simp_all
qed

lemma pos_inc_ok:
  assumes "pos_ok p" and "pos_chain p \<noteq> []"
  shows "\<exists>p' ok. buf_pos_inc p = Inr (p', ok) \<and> (ok \<longleftrightarrow> tl (pos_suffix p) \<noteq> []) \<and>
    (ok \<longrightarrow> pos_ok p' \<and> pos_chain p' \<noteq> [] \<and> pos_suffix p' = tl (pos_suffix p) \<and> pos_abs p' = Suc (pos_abs p))"
proof -
  obtain ch chs where p: "pos_chain p = ch # chs"
    using assms(2) by (cases "pos_chain p") auto
  have off: "pos_off p < ch_datalen ch" "chunk_wf ch" "chain_wf chs" "no_empty chs" "pos_off p < BUF_MAX_LEN"
    using assms(1) p by (auto simp: pos_ok_def)
  have suf: "tl (pos_suffix p) = drop (Suc (pos_off p)) (chunk_data ch) @ chain_bytes chs"
    using off p by (simp add: pos_suffix_def drop_Suc tl_drop flip: drop_Suc)
  show ?thesis
  proof (cases "Suc (pos_off p) = ch_datalen ch")
    case True
    show ?thesis
    proof (cases chs)
      case Nil
      with True off p suf show ?thesis
        by (auto simp: buf_pos_inc_def)
    next
      case (Cons ch2 chs2)
      let ?p = "p\<lparr>pos_chain := chs, pos_off := 0, chunk_pos := chunk_pos p + ch_datalen ch\<rparr>"
      have "buf_pos_inc p = Inr (?p, True)"
        using True off p Cons by (simp add: buf_pos_inc_def)
      moreover have "pos_ok ?p" and "pos_suffix ?p = tl (pos_suffix p)" and "pos_abs ?p = Suc (pos_abs p)"
        using assms(1) True off p Cons suf by (auto simp: pos_ok_def pos_suffix_def pos_abs_def)
      moreover have "chunk_data ch2 \<noteq> []"
        using off(3,4) Cons length_chunk_data [of ch2] by force
      then have "tl (pos_suffix p) \<noteq> []"
        using suf Cons by simp
      ultimately show ?thesis
        using Cons by auto
    qed
  next
    case False
    let ?p = "p\<lparr>pos_off := Suc (pos_off p)\<rparr>"
    have "buf_pos_inc p = Inr (?p, True)"
      using False off p by (simp add: buf_pos_inc_def)
    moreover have "pos_ok ?p" and "pos_suffix ?p = tl (pos_suffix p)" and "pos_abs ?p = Suc (pos_abs p)"
      using assms(1) False off p suf by (auto simp: pos_ok_def pos_suffix_def pos_abs_def)
    moreover have "tl (pos_suffix p) \<noteq> []"
      using suf off False by auto
    ultimately show ?thesis
      using p by auto
  qed
qed

lemma matches_at_pos_ok:
  assumes "pos_ok p" and "pos_chain p \<noteq> []"
  shows "buf_matches_at_pos p s = Inr (take (length s) (pos_suffix p) = s)"
  using assms
proof (induction s arbitrary: p)
  case (Cons x xs)
  obtain ch chs where ch: "pos_chain p = ch # chs"
    using Cons.prems(2) by (cases "pos_chain p") auto
  obtain y ys where suf: "pos_suffix p = y # ys"
    using pos_byte_ok(2) [OF Cons.prems(1) ch] by (cases "pos_suffix p") auto
  have byte: "pos_byte p = Inr y"
    using pos_byte_ok(1) [OF Cons.prems(1) ch] suf by simp
  obtain p' ok where inc: "buf_pos_inc p = Inr (p', ok)" "ok \<longleftrightarrow> ys \<noteq> []"
    "ok \<longrightarrow> pos_ok p' \<and> pos_chain p' \<noteq> [] \<and> pos_suffix p' = ys"
    using pos_inc_ok [OF Cons.prems] suf by auto
  show ?case
    using byte inc suf Cons.IH [of p'] by (cases ok; cases xs) auto
qed simp

text \<open>Before the first byte of the string comes, the string does not occur.\<close>

lemma first_occurrence_skip:
  assumes "memchr c xs = Some i"
  shows "first_occurrence (c # s) xs = map_option ((+) i) (first_occurrence (c # s) (drop i xs))"
  using assms
proof (induction xs arbitrary: i)
  case (Cons x xs)
  then show ?case
    by (auto simp: map_option_case split: if_splits option.splits)
qed simp

lemma first_occurrence_absent: "c \<notin> set xs \<Longrightarrow> first_occurrence (c # s) xs = None"
  by (induction xs) auto

definition offset_result :: "nat \<Rightarrow> nat option \<Rightarrow> int" where
  "offset_result n oi = (case oi of None \<Rightarrow> -1 | Some i \<Rightarrow> int (n + i))"

lemma find_string_loop_ok:
  assumes "pos_ok p" and "s = c # t"
  shows "find_string_loop c s p = Inr (offset_result (pos_abs p) (first_occurrence s (pos_suffix p)))"
  using assms
proof (induction c s p rule: find_string_loop.induct)
  case (1 c s p)
  show ?case
  proof (cases "memchr c (pos_suffix p)")
    case None
    then have "c \<notin> set (pos_suffix p)"
      by (simp add: memchr_None)
    moreover from this obtain p' where "buf_find_pos_of_char c p = Inr (p', -1)"
      using find_pos_None "1.prems"(1) by blast
    ultimately show ?thesis
      using "1.prems"(2) by (subst find_string_loop.simps) (simp add: first_occurrence_absent offset_result_def)
  next
    case (Some i)
    with "1.prems"(1) obtain p1 where p1: "buf_find_pos_of_char c p = Inr (p1, int (pos_abs p1))" "pos_ok p1"
      "pos_chain p1 \<noteq> []" "pos_suffix p1 = drop i (pos_suffix p)" "pos_abs p1 = pos_abs p + i"
      by (rule find_pos_Some)
    have skip: "first_occurrence s (pos_suffix p) = map_option ((+) i) (first_occurrence s (pos_suffix p1))"
      using first_occurrence_skip [OF Some, of t] "1.prems"(2) p1(4) by simp
    have match: "buf_matches_at_pos p1 s = Inr (take (length s) (pos_suffix p1) = s)"
      using p1(2,3) by (rule matches_at_pos_ok)
    have bound: "pos_abs p1 \<le> BUF_MAX_LEN"
      using p1(2,3) by (cases "pos_chain p1") (auto simp: pos_ok_def pos_abs_def)
    obtain y ys where suf: "pos_suffix p1 = y # ys"
      using pos_byte_ok(2) [OF p1(2)] p1(3) by (metis list.exhaust)
    show ?thesis
    proof (cases "take (length s) (pos_suffix p1) = s")
      case True
      then have "first_occurrence s (pos_suffix p1) = Some 0"
        using suf by simp
      then show ?thesis
        using True p1(1) match bound skip p1(5)
        by (simp add: find_string_loop.simps [of c s p] offset_result_def to_c_int_small flip: pos_abs_def)
    next
      case False
      obtain p2 ok where inc: "buf_pos_inc p1 = Inr (p2, ok)" "ok \<longleftrightarrow> ys \<noteq> []"
        "ok \<longrightarrow> pos_ok p2 \<and> pos_chain p2 \<noteq> [] \<and> pos_suffix p2 = ys \<and> pos_abs p2 = Suc (pos_abs p1)"
        using pos_inc_ok [OF p1(2,3)] suf by auto
      have later: "first_occurrence s (pos_suffix p1) = map_option Suc (first_occurrence s ys)"
        using False suf by simp
      have step: "find_string_loop c s p = (if ok then find_string_loop c s p2 else Inr (-1))"
        using p1(1) match False inc(1) by (simp add: find_string_loop.simps [of c s p])
      show ?thesis
      proof (cases ok)
        case True
        then have "find_string_loop c s p2 = Inr (offset_result (pos_abs p2) (first_occurrence s (pos_suffix p2)))"
          using "1.IH" [OF p1(1) refl _ match _ inc(1) refl] inc(3) False "1.prems"(2) by simp
        then show ?thesis
          using True step inc(3) skip later p1(5)
          by (simp add: offset_result_def option.map_comp split: option.splits)
      next
        case False
        then show ?thesis
          using step inc(2) skip later "1.prems"(2) by (simp add: offset_result_def)
      qed
    qed
  qed
qed

lemma offset_loop_ok:
  assumes "chain_wf chs"
  shows "offset_loop c n chs = offset_result n (memchr c (chain_bytes chs))"
  using assms
proof (induction c n chs rule: offset_loop.induct)
  case (2 c n ch chs)
  then show ?case
    by (auto simp: memchr_append offset_result_def split: option.splits)
qed (simp add: offset_result_def)

text \<open>The whole line is in the buffer, and it fits.\<close>

lemma buf_get_line_ok:
  assumes "buf_inv e b" and "buf_bytes b = line @ 10 # rest" and "10 \<notin> set line" and "length line + 2 \<le> n"
  obtains e' b' where "buf_get_line e b n = Inr (e', b', 1, line @ [10, 0], length line + 1)" and "buf_inv e' b'"
    and "buf_bytes b' = rest"
proof -
  have chs: "chunks b \<noteq> []"
    using assms(2) by (auto simp: buf_bytes_def)
  have "memchr 10 (line @ 10 # rest) = Some (length line)"
    using assms(3) by (simp add: memchr_append memchr_None [THEN iffD2])
  then have off: "buf_find_offset_of_char b 10 = Inr (int (length line))"
    using assms(1,2) by (auto simp: buf_find_offset_of_char_def buf_inv_iff buf_bytes_def offset_loop_ok offset_result_def)
  obtain e' b' where g: "buf_get_bytes e b (length line + 1) =
      Inr (e', b', take (length line + 1) (buf_bytes b), int (length (buf_bytes b')))" "buf_inv e' b'"
    "buf_bytes b' = drop (length line + 1) (buf_bytes b)"
    using assms(1) by (rule buf_get_bytes_ok [of e b "length line + 1"]) (use assms(2) in auto)
  have "buf_get_line e b n = Inr (e', b', 1, line @ [10, 0], length line + 1)"
    using chs off g(1) assms(2,4) by (simp add: buf_get_line_def)
  then show thesis
    using g(2) by (rule that) (use g(3) assms(2) in simp)
qed

lemma buf_get_line_fails:
  assumes "buf_inv e b"
  shows "10 \<notin> set (buf_bytes b) \<Longrightarrow> buf_get_line e b n = Inr (e, b, 0, [], n)"
    and "buf_bytes b = line @ 10 # rest \<Longrightarrow> 10 \<notin> set line \<Longrightarrow> n < length line + 2 \<Longrightarrow>
      buf_get_line e b n = Inr (e, b, -1, [], length line + 2)"
proof -
  have off: "buf_find_offset_of_char b 10 = Inr (offset_result 0 (memchr 10 (buf_bytes b)))"
    using assms by (auto simp: buf_find_offset_of_char_def buf_inv_iff buf_bytes_def offset_loop_ok)
  show "buf_get_line e b n = Inr (e, b, 0, [], n)" if "10 \<notin> set (buf_bytes b)"
    using off that by (simp add: buf_get_line_def offset_result_def memchr_None [THEN iffD2])
  show "buf_get_line e b n = Inr (e, b, -1, [], length line + 2)"
    if "buf_bytes b = line @ 10 # rest" "10 \<notin> set line" "n < length line + 2"
  proof -
    have "memchr 10 (buf_bytes b) = Some (length line)" and "chunks b \<noteq> []"
      using that(1,2) by (auto simp: memchr_append memchr_None [THEN iffD2] buf_bytes_def)
    then show ?thesis
      using off that(3) by (simp add: buf_get_line_def offset_result_def)
  qed
qed

lemma startswith_ok:
  assumes "buf_inv e b" and "length cmd \<le> PEEK_BUF_STARTSWITH_MAX"
  shows "buf_peek_startswith b cmd = Inr (take (length cmd) (buf_bytes b) = cmd)"
proof (cases "length cmd \<le> length (buf_bytes b)")
  case True
  then show ?thesis
    using assms buf_peek_ok [OF assms(1) True] by (auto elim!: buf_invE simp: buf_peek_startswith_def Let_def)
next
  case False
  then have "take (length cmd) (buf_bytes b) \<noteq> cmd"
    by (metis length_take min.cobounded1)
  with False show ?thesis
    using assms by (auto elim!: buf_invE simp: buf_peek_startswith_def Let_def)
qed

lemma find_string_eq:
  assumes "buf_inv e b" and "no_empty (chunks b)" and "s = c # t"
  shows "buf_find_string_offset b s (length s) = Inr (offset_result 0 (first_occurrence s (buf_bytes b)))"
proof -
  have "pos_ok (buf_pos_init b)" and "pos_suffix (buf_pos_init b) = buf_bytes b" and "pos_abs (buf_pos_init b) = 0"
    using assms(1,2)
    by (auto simp: pos_ok_def buf_pos_init_def buf_inv_iff buf_bytes_def pos_suffix_def pos_abs_def no_empty_def neq_Nil_conv)
  then show ?thesis
    using find_string_loop_ok [of "buf_pos_init b" s c t] assms(3) by (simp add: buf_find_string_offset_def)
qed

section \<open>Properties\<close>

text \<open>
  Searching a string in a buffer whose chunks all hold data returns where it occurs first in the
  bytes of the buffer, across the borders of the chunks, and -1 when it does not occur; the search
  ends, fails no assertion and reads nothing outside the data.
\<close>

lemma find_string_is_first_occurrence:
  assumes "buf_inv e b" and "no_empty (chunks b)" and "s \<noteq> []"
  shows "\<exists>r. buf_find_string_offset b s (length s) = Inr r \<and>
    (if \<exists>i. occurs_at s (buf_bytes b) i
     then \<exists>i. r = int i \<and> occurs_at s (buf_bytes b) i \<and> (\<forall>j. occurs_at s (buf_bytes b) j \<longrightarrow> i \<le> j)
     else r = -1)"
proof -
  obtain c t where s: "s = c # t"
    using assms(3) by (cases s) auto
  have find: "buf_find_string_offset b s (length s) = Inr (offset_result 0 (first_occurrence s (buf_bytes b)))"
    using find_string_eq [OF assms(1,2) s] .
  show ?thesis
  proof (cases "first_occurrence s (buf_bytes b)")
    case None
    with find show ?thesis
      by (simp add: offset_result_def first_occurrence_None)
  next
    case (Some i)
    then have "occurs_at s (buf_bytes b) i" and "\<forall>j. occurs_at s (buf_bytes b) j \<longrightarrow> i \<le> j"
      by (auto simp: first_occurrence_Some not_less)
    with Some find show ?thesis
      by (auto simp: offset_result_def)
  qed
qed

text \<open>A buffer of three chunks, with the string across two borders.\<close>

definition demo_chunk :: "u8 list \<Rightarrow> chunk_t" where
  "demo_chunk bs = \<lparr>ch_mem = 99 # bs @ [98], ch_data = 1, ch_datalen = length bs, inserted_time = 0\<rparr>"

definition demo_buf :: buf_t where
  "demo_buf = \<lparr>buf_magic = BUFFER_MAGIC, buf_len = 6, default_chunk_size = 256,
     chunks = [demo_chunk [1, 2, 1], demo_chunk [2], demo_chunk [3, 10]]\<rparr>"

definition demo_total :: chunk_heap where
  "demo_total = \<lparr>total_bytes_allocated_in_chunks = 200, fresh_mem = (\<lambda>i. 0), coarse_stamp = 0\<rparr>"

lemma demo_buf_inv: "buf_inv demo_total demo_buf"
  by (simp add: buf_inv_def buf_assert_ok_def demo_buf_def demo_chunk_def chunk_assert_ok_def BUF_MAX_LEN_def
      buf_allocation_def CHUNK_ALLOC_SIZE_def CHUNK_OVERHEAD_def demo_total_def)

text \<open>
  Lines come out of a buffer one by one.  When the bytes start with a line and its newline, and
  the caller's array has room for both and a zero byte, \<open>buf_get_line\<close> hands back the line with the
  newline and a zero byte, says how long it is and leaves exactly what follows; when there is no
  newline yet it returns 0 and changes nothing; when the line does not fit it returns -1, changes
  nothing and says how much room is needed.
\<close>

lemma buf_get_line_spec:
  assumes "buf_inv e b"
  shows "if 10 \<notin> set (buf_bytes b) then buf_get_line e b n = Inr (e, b, 0, [], n)
    else (let line = takeWhile (\<lambda>c. c \<noteq> 10) (buf_bytes b) in
      if n < length line + 2 then buf_get_line e b n = Inr (e, b, -1, [], length line + 2)
      else \<exists>e' b'. buf_get_line e b n = Inr (e', b', 1, line @ [10, 0], length line + 1) \<and> buf_inv e' b' \<and>
        buf_bytes b = line @ [10] @ buf_bytes b')"
proof (cases "10 \<in> set (buf_bytes b)")
  case True
  let ?line = "takeWhile (\<lambda>c. c \<noteq> 10) (buf_bytes b)"
  obtain ys rest where split: "buf_bytes b = ys @ 10 # rest" "10 \<notin> set ys"
    using split_list_first [OF True] by blast
  moreover from this have "takeWhile (\<lambda>c. c \<noteq> 10) (ys @ 10 # rest) = ys"
    by (subst takeWhile_append2) auto
  ultimately have b: "buf_bytes b = ?line @ 10 # rest" "10 \<notin> set ?line"
    by simp_all
  show ?thesis
  proof (cases "n < length ?line + 2")
    case False
    then have "length ?line + 2 \<le> n"
      by simp
    then obtain e' b' where "buf_get_line e b n = Inr (e', b', 1, ?line @ [10, 0], length ?line + 1)" "buf_inv e' b'"
      "buf_bytes b' = rest"
      using buf_get_line_ok [OF assms b] by blast
    with True False b show ?thesis
      by (auto simp: Let_def)
  qed (use True buf_get_line_fails(2) [OF assms b] in \<open>simp add: Let_def\<close>)
qed (simp add: buf_get_line_fails(1) [OF assms])

end
