(* ===== verification/Buffers_Net.thy ===== *)
theory Buffers_Net
  imports Buffers_Find
begin

text \<open>
  Buffers filled from a file descriptor and flushed to one
  (\<^verbatim>\<open>src/lib/net/buffers_net.c\<close>).  The system calls are parameters: one function per call, from what
  the program asks for to what the call answers.  They may answer anything that \<open>recv\<close> and \<open>send\<close>
  may, which is at most as many bytes as asked.  The theorems show that what is read is appended in
  order and what is flushed is taken off the front in order, and how a chunk that stays empty after a
  read that would block misleads the search in a buffer and stops the flushing of it.
\<close>

section \<open>Reading\<close>

datatype recv_result = Recv_Data "u8 list" | Recv_Eof | Recv_Blocked | Recv_Error int

definition MIN_READ_LEN :: nat where "MIN_READ_LEN = 8"

text \<open>
  \<open>read_to_chunk\<close> on the last chunk: the buffer, the return value, whether the end of the stream was
  seen, and the error number.
\<close>

definition read_to_chunk ::
  "buf_t \<Rightarrow> nat \<Rightarrow> (nat \<Rightarrow> recv_result) \<Rightarrow> buf_fault + buf_t \<times> int \<times> bool \<times> int option" where
  "read_to_chunk b at_most recv =
     (case recv (min at_most (CHUNK_REMAINING_CAPACITY (last (chunks b)))) of
        Recv_Error err \<Rightarrow> Inr (b, -1, False, Some err)
      | Recv_Blocked \<Rightarrow> Inr (b, 0, False, None)
      | Recv_Eof \<Rightarrow> Inr (b, 0, True, None)
      | Recv_Data bs \<Rightarrow>
          and_then (write_tail b bs) (\<lambda>b'.
            if BUF_MAX_LEN < length bs then Inl Buf_Assert else Inr (b', to_c_int (length bs), False, None)))"

text \<open>The chunk for the next read, and how much to read into it.\<close>

definition read_prepare :: "chunk_heap \<Rightarrow> buf_t \<Rightarrow> nat \<Rightarrow> nat \<Rightarrow> buf_fault + chunk_heap \<times> buf_t \<times> nat" where
  "read_prepare e b at_most readlen =
     (if chunks b = [] \<or> CHUNK_REMAINING_CAPACITY (last (chunks b)) < MIN_READ_LEN then
        and_then (buf_add_chunk_with_capacity e b at_most True)
          (\<lambda>(e', b'). Inr (e', b', min readlen (length (ch_mem (last (chunks b'))))))
      else Inr (e, b, min readlen (CHUNK_REMAINING_CAPACITY (last (chunks b)))))"

text \<open>
  The loop, one answer of the system for each pass; after the last of them the descriptor blocks.
  The results are the heap, the buffer, the return value, the end of the stream, the error number and
  the answers that were not used.
\<close>

type_synonym read_outcome = "chunk_heap \<times> buf_t \<times> int \<times> bool \<times> int option \<times> (nat \<Rightarrow> recv_result) list"

fun read_loop ::
  "chunk_heap \<Rightarrow> buf_t \<Rightarrow> nat \<Rightarrow> nat \<Rightarrow> (nat \<Rightarrow> recv_result) list \<Rightarrow> buf_fault + read_outcome" where
  "read_loop e b at_most total_read rs =
     (if at_most \<le> total_read then Inr (e, b, to_c_int total_read, False, None, rs)
      else
        and_then (read_prepare e b at_most (at_most - total_read)) (\<lambda>(e1, b1, readlen).
        and_then (read_to_chunk b1 readlen (case rs of [] \<Rightarrow> (\<lambda>_. Recv_Blocked) | f # _ \<Rightarrow> f)) (\<lambda>(b2, r, eof, err).
          if r < 0 then Inr (e1, b2, r, eof, err, tl rs)
          else if BUF_MAX_LEN < total_read + nat r then Inl Buf_Assert
          else if nat r < readlen then Inr (e1, b2, to_c_int (total_read + nat r), eof, err, tl rs)
          else case rs of [] \<Rightarrow> Inl Buf_Endless | _ # rs' \<Rightarrow> read_loop e1 b2 at_most (total_read + nat r) rs')))"

declare read_loop.simps [simp del]

definition buf_read_from_fd ::
  "chunk_heap \<Rightarrow> buf_t \<Rightarrow> nat \<Rightarrow> (nat \<Rightarrow> recv_result) list \<Rightarrow> buf_fault + read_outcome" where
  "buf_read_from_fd e b at_most rs =
     (if BUF_MAX_LEN < buf_len b then Inr (e, b, -1, False, None, rs)
      else if size_diff BUF_MAX_LEN at_most < buf_len b then Inr (e, b, -1, False, None, rs)
      else read_loop e b at_most 0 rs)"

section \<open>Flushing\<close>

datatype send_result = Send_Ok nat | Send_Blocked | Send_Error

text \<open>Besides the heap and the buffer, the return value and the bytes the system took.\<close>

definition flush_chunk ::
  "chunk_heap \<Rightarrow> buf_t \<Rightarrow> nat \<Rightarrow> (u8 list \<Rightarrow> send_result) \<Rightarrow> buf_fault + chunk_heap \<times> buf_t \<times> int \<times> u8 list" where
  "flush_chunk e b sz0 send =
     (let ch = hd (chunks b); sz = (if ch_datalen ch < sz0 then ch_datalen ch else sz0) in
      and_then (chunk_read ch sz) (\<lambda>bs.
        case send bs of
          Send_Error \<Rightarrow> Inr (e, b, -1, [])
        | Send_Blocked \<Rightarrow> Inr (e, b, 0, [])
        | Send_Ok n \<Rightarrow>
            and_then (buf_drain e b n) (\<lambda>(e', b').
              if BUF_MAX_LEN < n then Inl Buf_Assert else Inr (e', b', to_c_int n, take n bs))))"

text \<open>One answer of the system for each pass; after the last of them the descriptor blocks.\<close>

fun flush_loop ::
  "chunk_heap \<Rightarrow> buf_t \<Rightarrow> nat \<Rightarrow> nat \<Rightarrow> (u8 list \<Rightarrow> send_result) list \<Rightarrow>
    buf_fault + chunk_heap \<times> buf_t \<times> int \<times> u8 list" where
  "flush_loop e b sz flushed ss =
     (if sz = 0 then (if BUF_MAX_LEN < flushed then Inl Buf_Assert else Inr (e, b, to_c_int flushed, []))
      else if chunks b = [] then Inl Buf_Assert
      else let head = hd (chunks b); flushlen0 = (if sz \<le> ch_datalen head then sz else ch_datalen head) in
        and_then (flush_chunk e b flushlen0 (case ss of [] \<Rightarrow> (\<lambda>_. Send_Blocked) | f # _ \<Rightarrow> f)) (\<lambda>(e1, b1, r, bs).
          if r < 0 then Inr (e1, b1, r, bs)
          else if r = 0 \<or> nat r < flushlen0 then
            (if BUF_MAX_LEN < flushed + nat r then Inl Buf_Assert else Inr (e1, b1, to_c_int (flushed + nat r), bs))
          else case ss of
            [] \<Rightarrow> Inl Buf_Endless
          | _ # ss' \<Rightarrow>
              and_then (flush_loop e1 b1 (sz - nat r) (flushed + nat r) ss')
                (\<lambda>(e2, b2, r2, bs2). Inr (e2, b2, r2, bs @ bs2))))"

declare flush_loop.simps [simp del]

definition buf_flush_to_fd ::
  "chunk_heap \<Rightarrow> buf_t \<Rightarrow> nat \<Rightarrow> (u8 list \<Rightarrow> send_result) list \<Rightarrow> buf_fault + chunk_heap \<times> buf_t \<times> int \<times> u8 list" where
  "buf_flush_to_fd e b sz ss = flush_loop e b (if buf_len b < sz then buf_len b else sz) 0 ss"

section \<open>What is read\<close>


fun recv_bytes :: "recv_result \<Rightarrow> u8 list" where
  "recv_bytes (Recv_Data bs) = bs"
| "recv_bytes _ = []"

text \<open>The bytes that the calls \<open>fs\<close> delivered when they were asked for \<open>ns\<close> bytes.\<close>

definition delivered :: "(nat \<Rightarrow> recv_result) list \<Rightarrow> nat list \<Rightarrow> u8 list" where
  "delivered fs ns = concat (map2 (\<lambda>f n. recv_bytes (f n)) fs ns)"

text \<open>Their answers, the last of which is the one the read reports; with no call it is as if it would block.\<close>

definition answers :: "(nat \<Rightarrow> recv_result) list \<Rightarrow> nat list \<Rightarrow> recv_result list" where
  "answers fs ns = map2 (\<lambda>f n. f n) fs ns"

definition last_answer :: "recv_result list \<Rightarrow> recv_result" where
  "last_answer as = (if as = [] then Recv_Blocked else last as)"




lemma delivered_simps [simp]:
  "delivered [] ns = []" "delivered (f # fs) (n # ns) = recv_bytes (f n) @ delivered fs ns"
  by (simp_all add: delivered_def)

lemma answers_simps [simp]:
  "answers [] ns = []" "answers (f # fs) (n # ns) = f n # answers fs ns"
  by (simp_all add: answers_def)

lemma last_answer_simps [simp]:
  "last_answer [] = Recv_Blocked" "last_answer (a # as) = (if as = [] then a else last_answer as)"
  by (simp_all add: last_answer_def)









section \<open>What is flushed\<close>

text \<open>A write takes no more than it was given.\<close>

definition send_ok :: "(u8 list \<Rightarrow> send_result) \<Rightarrow> bool" where
  "send_ok f \<longleftrightarrow> (\<forall>bs n. f bs = Send_Ok n \<longrightarrow> n \<le> length bs)"

lemma flush_chunk_ok:
  assumes "buf_inv e b" and "chunks b = ch # chs" and "sz \<le> ch_datalen ch" and "send_ok f"
  shows "\<exists>e' b' r bs. flush_chunk e b sz f = Inr (e', b', r, bs) \<and> buf_inv e' b' \<and> buf_bytes b = bs @ buf_bytes b' \<and>
    length bs \<le> sz \<and> (r = int (length bs) \<or> r = -1 \<and> bs = []) \<and> (r = -1 \<longleftrightarrow> f (take sz (buf_bytes b)) = Send_Error)"
proof -
  let ?bs = "take sz (buf_bytes b)"
  have wf: "chunk_wf ch" and max: "length (buf_bytes b) \<le> BUF_MAX_LEN"
    using assms(1,2) by (auto simp: buf_inv_iff)
  then have data: "take sz (chunk_data ch) = ?bs" and len: "length ?bs = sz"
    using assms(2,3) by (simp_all add: buf_bytes_def)
  then have read: "chunk_read ch sz = Inr ?bs"
    using chunk_read_ok [OF wf assms(3)] by simp
  have sz: "(if ch_datalen ch < sz then ch_datalen ch else sz) = sz"
    using assms(3) by simp
  show ?thesis
  proof (cases "f ?bs")
    case (Send_Ok n)
    then have "n \<le> length ?bs"
      using assms(4) unfolding send_ok_def by blast
    then have n: "n \<le> sz" "n \<le> length (buf_bytes b)"
      using len by (simp_all add: min_def split: if_splits)
    obtain e' b' where d: "buf_drain e b n = Inr (e', b')" "buf_inv e' b'" "buf_bytes b' = drop n (buf_bytes b)"
      using assms(1) n(2) by (rule buf_drain_ok)
    have "flush_chunk e b sz f = Inr (e', b', int n, take n ?bs)"
      using assms(2) read sz Send_Ok d(1) n max by (simp add: flush_chunk_def Let_def to_c_int_small)
    with d n Send_Ok show ?thesis
      by (auto simp: min_def)
  qed (use assms(1,2) read sz in \<open>simp_all add: flush_chunk_def Let_def\<close>)
qed

lemma flush_loop_ok:
  assumes "buf_inv e b" and "list_all send_ok ss" and "sz \<le> length (buf_bytes b)" and "flushed + sz \<le> BUF_MAX_LEN"
  shows "\<exists>e' b' r bs. flush_loop e b sz flushed ss = Inr (e', b', r, bs) \<and> buf_inv e' b' \<and>
    buf_bytes b = bs @ buf_bytes b' \<and> length bs \<le> sz \<and> (r = int (flushed + length bs) \<or> r = -1)"
  using assms
proof (induction ss arbitrary: e b sz flushed)
  case Nil
  show ?case
  proof (cases "sz = 0")
    case True
    with Nil.prems show ?thesis
      by (subst flush_loop.simps) (simp add: to_c_int_small)
  next
    case False
    then obtain ch chs where ch: "chunks b = ch # chs"
      using Nil.prems(1,3) by (cases "chunks b") (auto simp: buf_inv_iff buf_bytes_def)
    let ?l = "if sz \<le> ch_datalen ch then sz else ch_datalen ch"
    have "flush_chunk e b ?l (\<lambda>_. Send_Blocked) = Inr (e, b, 0, [])"
      using Nil.prems(1) ch chunk_read_ok [of ch ?l] by (simp add: flush_chunk_def Let_def buf_inv_iff)
    with False ch Nil.prems show ?thesis
      by (subst flush_loop.simps) (simp add: Let_def to_c_int_small)
  qed
next
  case (Cons f ss)
  show ?case
  proof (cases "sz = 0")
    case True
    with Cons.prems show ?thesis
      by (subst flush_loop.simps) (simp add: to_c_int_small)
  next
    case False
    then obtain ch chs where ch: "chunks b = ch # chs"
      using Cons.prems(1,3) by (cases "chunks b") (auto simp: buf_inv_iff buf_bytes_def)
    define l where "l = (if sz \<le> ch_datalen ch then sz else ch_datalen ch)"
    have l: "l \<le> ch_datalen ch" "l \<le> sz" and f: "send_ok f"
      using Cons.prems(2) by (auto simp: l_def)
    obtain e1 b1 r bs where p: "flush_chunk e b l f = Inr (e1, b1, r, bs)" "buf_inv e1 b1"
      "buf_bytes b = bs @ buf_bytes b1" "length bs \<le> l" "r = int (length bs) \<or> r = -1 \<and> bs = []"
      using flush_chunk_ok [OF Cons.prems(1) ch l(1) f] by blast
    have step: "flush_loop e b sz flushed (f # ss) =
      (if r < 0 then Inr (e1, b1, r, bs)
       else if r = 0 \<or> nat r < l then Inr (e1, b1, to_c_int (flushed + nat r), bs)
       else and_then (flush_loop e1 b1 (sz - nat r) (flushed + nat r) ss)
         (\<lambda>(e2, b2, r2, bs2). Inr (e2, b2, r2, bs @ bs2)))"
      using False ch p(1,4,5) l(2) Cons.prems(4)
      by (subst flush_loop.simps) (auto simp: Let_def simp flip: l_def)
    show ?thesis
    proof (cases "r < 0 \<or> r = 0 \<or> nat r < l")
      case True
      with step p l(2) Cons.prems(4) show ?thesis
        by (auto simp: to_c_int_small)
    next
      case more: False
      have "\<exists>e' b' r' bs'. flush_loop e1 b1 (sz - nat r) (flushed + nat r) ss = Inr (e', b', r', bs') \<and> buf_inv e' b' \<and>
          buf_bytes b1 = bs' @ buf_bytes b' \<and> length bs' \<le> sz - nat r \<and> (r' = int (flushed + nat r + length bs') \<or> r' = -1)"
        using p more l(2) Cons.prems by (intro Cons.IH) auto
      then obtain e' b' r' bs' where rest: "flush_loop e1 b1 (sz - nat r) (flushed + nat r) ss = Inr (e', b', r', bs')"
        "buf_inv e' b'" "buf_bytes b1 = bs' @ buf_bytes b'" "length bs' \<le> sz - nat r"
        "r' = int (flushed + nat r + length bs') \<or> r' = -1"
        by blast
      have "r = int (length bs)" "length bs \<le> sz"
        using p(4,5) more l(2) by auto
      with step more rest p(3) show ?thesis
        by auto
    qed
  qed
qed

section \<open>Empty chunks\<close>

text \<open>A read that would block, on a buffer with too little room in its last chunk: an empty chunk is added.\<close>

lemma blocked_read:
  assumes "buf_inv e b" and "chunks b \<noteq> []" and "CHUNK_REMAINING_CAPACITY (last (chunks b)) < MIN_READ_LEN"
    and "0 < at_most" and "length (buf_bytes b) + at_most \<le> BUF_MAX_LEN"
  obtains e' ch where "buf_read_from_fd e b at_most [] = Inr (e', b\<lparr>chunks := chunks b @ [ch]\<rparr>, 0, False, None, [])"
    and "ch_datalen ch = 0" and "ch_data ch = 0" and "ch_mem ch = map (fresh_mem e) [0..<length (ch_mem ch)]"
    and "0 < length (ch_mem ch)" and "chunk_wf ch" and "buf_inv e' (b\<lparr>chunks := chunks b @ [ch]\<rparr>)"
proof -
  obtain e' ch where new: "buf_add_chunk_with_capacity e b at_most True = Inr (e', b\<lparr>chunks := chunks b @ [ch]\<rparr>)"
    "chunk_wf ch" "0 < CHUNK_REMAINING_CAPACITY ch" "ch_data ch = 0" "ch_datalen ch = 0"
    "ch_mem ch = map (fresh_mem e) [0..<length (ch_mem ch)]" "chunk_data ch = []" "accounts e (chunks b) e' (chunks b @ [ch])"
    using assms(4) by (rule add_chunk_capped_ok)
  have "buf_inv e' (b\<lparr>chunks := chunks b @ [ch]\<rparr>)"
    using assms(1) new(2,7) accounts_covers [OF new(8)] by (auto simp: buf_inv_iff buf_bytes_def)
  moreover have "read_loop e b at_most 0 [] = Inr (e', b\<lparr>chunks := chunks b @ [ch]\<rparr>, 0, False, None, [])"
    using assms(3,4) new(1-5)
    by (subst read_loop.simps)
      (auto simp: read_prepare_def read_to_chunk_def to_c_int_def CHUNK_REMAINING_CAPACITY_def)
  moreover have "size_diff BUF_MAX_LEN at_most = BUF_MAX_LEN - at_most"
    using assms(5) by (intro size_diff_small) (auto simp: BUF_MAX_LEN_def)
  ultimately have "buf_read_from_fd e b at_most [] = Inr (e', b\<lparr>chunks := chunks b @ [ch]\<rparr>, 0, False, None, [])"
    using assms(1,5) by (auto simp: buf_read_from_fd_def buf_inv_iff)
  with \<open>buf_inv e' _\<close> show thesis
    using new(4-6) by (intro that [of e' ch]) (use new(2-5) in \<open>simp_all add: CHUNK_REMAINING_CAPACITY_def\<close>)
qed

text \<open>The search in a buffer whose data end with all of the string but its last byte.\<close>

lemma find_string_past_end:
  assumes "chunks b = [ch1, ch2]" and "chunk_wf ch1" and "ch_datalen ch2 = 0" and "ch_data ch2 = 0"
    and "0 < length (ch_mem ch2)" and "ch_mem ch2 ! 0 = z" and "chunk_data ch1 = pre @ [c, x, y]" and "c \<notin> set pre"
    and "length pre + 4 \<le> BUF_MAX_LEN"
  shows "buf_find_string_offset b [c, x, y, z] 4 = Inr (int (length pre))"
proof -
  have len: "ch_datalen ch1 = length pre + 3"
    using length_chunk_data [OF assms(2)] assms(7) by simp
  let ?p = "\<lambda>i. \<lparr>pos_chain = [ch1, ch2], pos_off = i, chunk_pos = 0\<rparr>"
  let ?q = "\<lparr>pos_chain = [ch2], pos_off = 0, chunk_pos = ch_datalen ch1\<rparr>"
  have byte: "pos_byte (?p (length pre + k)) = Inr ([c, x, y] ! k)" if "k < 3" for k
  proof -
    have "ch_mem ch1 ! (ch_data ch1 + (length pre + k)) = chunk_data ch1 ! (length pre + k)"
      using that len assms(2) by (simp add: chunk_data_def chunk_wf_def)
    then show ?thesis
      using that len assms(2,7) by (simp add: pos_byte_def Let_def chunk_wf_def nth_append)
  qed
  have inc: "buf_pos_inc (?p (length pre + k)) = Inr (if k = 2 then ?q else ?p (length pre + k + 1), True)" if "k < 3" for k
    using that len assms(9) by (auto simp: buf_pos_inc_def)
  have "pos_byte ?q = Inr z"
    using assms(4-6) by (simp add: pos_byte_def)
  then have match: "buf_matches_at_pos (?p (length pre)) [c, x, y, z] = Inr True"
    using byte [of 0] byte [of 1] byte [of 2] inc [of 0] inc [of 1] inc [of 2] by (simp add: numeral_2_eq_2)
  have "memchr c (chunk_data ch1) = Some (length pre)"
    using assms(7,8) by (simp add: memchr_append memchr_None [THEN iffD2])
  then have "buf_find_pos_of_char c (?p 0) = Inr (?p (length pre), int (length pre))"
    using len assms(9) by (simp add: buf_find_pos_of_char_def)
  then have "find_string_loop c [c, x, y, z] (?p 0) = Inr (int (length pre))"
    using match assms(9) by (subst find_string_loop.simps) (simp add: to_c_int_small)
  then show ?thesis
    using assms(1) by (simp add: buf_find_string_offset_def buf_pos_init_def)
qed

text \<open>An empty head is never flushed, and nothing behind it either.\<close>

lemma empty_head_flush:
  assumes "buf_inv e b" and "chunks b = ch # chs" and "ch_datalen ch = 0" and "list_all send_ok ss" and "0 < sz"
  shows "\<exists>r. flush_loop e b sz 0 ss = Inr (e, b, r, []) \<and> r \<le> 0"
proof -
  let ?f = "case ss of [] \<Rightarrow> (\<lambda>_. Send_Blocked) | f # _ \<Rightarrow> f"
  have "send_ok ?f"
    using assms(4) by (cases ss) (simp_all add: send_ok_def)
  then have "?f [] = Send_Ok n \<Longrightarrow> n \<le> length ([] :: u8 list)" for n
    unfolding send_ok_def by blast
  then have f: "?f [] = Send_Ok n \<Longrightarrow> n = 0" for n
    by simp
  have "chunk_read ch 0 = Inr []"
    using assms(1,2) by (simp add: chunk_read_def chunk_wf_def buf_inv_iff)
  moreover have "buf_drain e b 0 = Inr (e, b)"
    using assms(2) by (simp add: buf_drain_def)
  ultimately have "flush_chunk e b 0 ?f = Inr (e, b, (case ?f [] of Send_Error \<Rightarrow> -1 | _ \<Rightarrow> 0), [])"
    using assms(2,3) f by (auto simp: flush_chunk_def Let_def to_c_int_def split: send_result.split)
  then show ?thesis
    using assms(2,3,5)
    by (subst flush_loop.simps) (auto simp: Let_def to_c_int_def split: send_result.split)
qed

section \<open>Properties\<close>




text \<open>
  A read that would block can make the search find what is not there: when the last chunk is full and
  the socket has nothing, \<open>buf_read_from_fd\<close> has already added an empty chunk, and \<open>buf_find_string_offset\<close>
  reads the first byte of its memory.
\<close>

lemma blocked_read_fools_search:
  assumes "buf_inv e b" and "chunks b = [ch]" and "CHUNK_REMAINING_CAPACITY ch < MIN_READ_LEN"
    and "buf_bytes b = pre @ [c, x, y]" and "c \<notin> set pre" and "fresh_mem e 0 = z"
    and "0 < at_most" and "length pre + 3 + at_most \<le> BUF_MAX_LEN"
  shows "\<exists>e' b'. buf_read_from_fd e b at_most [] = Inr (e', b', 0, False, None, []) \<and> buf_inv e' b' \<and>
    buf_bytes b' = buf_bytes b \<and> buf_find_string_offset b' [c, x, y, z] 4 = Inr (int (length pre)) \<and> buf_datalen b' < length pre + 4 \<and>
    (\<forall>i. \<not> occurs_at [c, x, y, z] (buf_bytes b') i)"
proof -
  have len: "length (buf_bytes b) + at_most \<le> BUF_MAX_LEN"
    using assms(4,8) by simp
  obtain e' ch2 where r: "buf_read_from_fd e b at_most [] = Inr (e', b\<lparr>chunks := chunks b @ [ch2]\<rparr>, 0, False, None, [])"
    "ch_datalen ch2 = 0" "ch_data ch2 = 0" "ch_mem ch2 = map (fresh_mem e) [0..<length (ch_mem ch2)]"
    "0 < length (ch_mem ch2)" "chunk_wf ch2" "buf_inv e' (b\<lparr>chunks := chunks b @ [ch2]\<rparr>)"
    by (rule blocked_read [OF assms(1) _ _ assms(7) len]) (use assms(2,3) in auto)
  let ?b = "b\<lparr>chunks := chunks b @ [ch2]\<rparr>"
  have ch: "chunk_wf ch" "chunk_data ch = pre @ [c, x, y]"
    using assms(1,2,4) by (auto simp: buf_inv_iff buf_bytes_def)
  have "ch_mem ch2 ! 0 = z"
    using r(4,5) assms(6) by (metis add_0 nth_map_upt diff_zero)
  then have find: "buf_find_string_offset ?b [c, x, y, z] 4 = Inr (int (length pre))"
    by (intro find_string_past_end [of _ ch ch2]) (use ch r(2,3,5) assms in auto)
  have bytes: "buf_bytes ?b = buf_bytes b" and "chunk_data ch2 = []"
    using r(2) by (simp_all add: buf_bytes_def chunk_data_def)
  have "buf_datalen ?b < length pre + 4"
    using assms(1,4) by (simp add: buf_datalen_def buf_inv_iff)
  moreover have "\<not> occurs_at [c, x, y, z] (pre @ [c, x, y]) i" for i
  proof
    assume i: "occurs_at [c, x, y, z] (pre @ [c, x, y]) i"
    then have "i < length pre"
      by (auto simp: occurs_at_def)
    moreover from this have "drop i pre = pre ! i # drop (Suc i) pre"
      by (simp add: Cons_nth_drop_Suc)
    then have "pre ! i = c"
      using i by (simp add: occurs_at_def)
    ultimately show False
      using assms(5) by auto
  qed
  ultimately show ?thesis
    using r(1,7) find bytes assms(4) by auto
qed

definition demo_full :: buf_t where
  "demo_full = \<lparr>buf_magic = BUFFER_MAGIC, buf_len = 4, default_chunk_size = 4096,
     chunks = [\<lparr>ch_mem = [65, 13, 10, 13], ch_data = 0, ch_datalen = 4, inserted_time = 0\<rparr>]\<rparr>"

definition demo_stale :: chunk_heap where
  "demo_stale = \<lparr>total_bytes_allocated_in_chunks = 52, fresh_mem = (\<lambda>i. 10), coarse_stamp = 0\<rparr>"

lemma demo_full_inv: "buf_inv demo_stale demo_full"
  by (simp add: demo_full_def demo_stale_def buf_inv_def buf_assert_ok_def chunk_assert_ok_def BUF_MAX_LEN_def
      buf_allocation_def CHUNK_ALLOC_SIZE_def CHUNK_OVERHEAD_def)

text \<open>
  C33. Data moved behind an empty chunk never leave the buffer.  \<open>buf_move_all\<close> links the chunks of one
  buffer behind those of another; when the only chunk of the other one is empty, the result has an
  empty chunk in front, against the invariant at the head of the file that only the last chunk may be
  empty.  The buffer still holds the bytes, but \<open>buf_flush_to_fd\<close> offers the system zero bytes, gets
  zero, and stops: whatever the system answers, nothing is sent and the buffer is as before.
\<close>

theorem moved_data_never_flushed:
  assumes "buf_pair_inv e out inb" and "chunks out = [ch]" and "ch_datalen ch = 0" and "buf_bytes inb \<noteq> []"
    and "list_all send_ok ss" and "0 < sz"
  shows "\<exists>out' inb' r. buf_move_all out inb = (out', inb', length (buf_bytes inb)) \<and> buf_bytes out' = buf_bytes inb \<and>
    buf_flush_to_fd e out' sz ss = Inr (e, out', r, []) \<and> r \<le> 0"
proof -
  have empty: "buf_bytes out = []"
    using assms(2,3) by (simp add: buf_bytes_def chunk_data_def)
  then have fits: "length (buf_bytes out) + length (buf_bytes inb) \<le> BUF_MAX_LEN"
    using assms(1) by (auto simp: buf_pair_inv_def buf_inv_iff)
  obtain out' inb' where m: "buf_move_all out inb = (out', inb', length (buf_bytes inb))" "buf_pair_inv e out' inb'"
    "buf_bytes out' = buf_bytes out @ buf_bytes inb"
    using assms(1) fits by (rule buf_move_all_ok)
  have "buf_len inb \<noteq> 0"
    using assms(1,4) by (simp add: buf_pair_inv_def buf_inv_iff)
  then have "\<exists>chs. chunks out' = ch # chs"
    using m(1) assms(2) fits assms(4)
    by (auto simp: buf_move_all_def buf_datalen_def split: if_splits)
  then obtain chs where "chunks out' = ch # chs"
    by blast
  moreover have "buf_inv e out'" and "buf_len out' \<noteq> 0"
    using m(2,3) assms(4) by (auto simp: buf_pair_inv_def buf_inv_iff)
  moreover from this(2) have "0 < (if buf_len out' < sz then buf_len out' else sz)"
    using assms(6) by simp
  ultimately obtain r where "flush_loop e out' (if buf_len out' < sz then buf_len out' else sz) 0 ss = Inr (e, out', r, [])"
    "r \<le> 0"
    using empty_head_flush assms(3,5) by blast
  then show ?thesis
    using m(1,3) empty by (auto simp: buf_flush_to_fd_def)
qed

definition demo_empty :: buf_t where
  "demo_empty = \<lparr>buf_magic = BUFFER_MAGIC, buf_len = 0, default_chunk_size = 4096,
     chunks = [\<lparr>ch_mem = [0, 0], ch_data = 0, ch_datalen = 0, inserted_time = 0\<rparr>]\<rparr>"

definition demo_both :: chunk_heap where
  "demo_both = \<lparr>total_bytes_allocated_in_chunks = 102, fresh_mem = (\<lambda>i. 0), coarse_stamp = 0\<rparr>"

theorem moved_data_never_flushed_witness:
  "\<exists>out' inb' r. buf_move_all demo_empty demo_full = (out', inb', length (buf_bytes demo_full)) \<and>
    buf_bytes out' = buf_bytes demo_full \<and>
    buf_flush_to_fd demo_both out' 4 [\<lambda>bs. Send_Ok (length bs)] = Inr (demo_both, out', r, []) \<and> r \<le> 0"
proof (rule moved_data_never_flushed [where ch = "hd (chunks demo_empty)"])
  show "buf_pair_inv demo_both demo_empty demo_full"
    by (simp add: demo_full_def demo_empty_def demo_both_def buf_pair_inv_def buf_inv_def buf_assert_ok_def
        chunk_assert_ok_def BUF_MAX_LEN_def buf_allocation_def CHUNK_ALLOC_SIZE_def CHUNK_OVERHEAD_def covers_def)
qed (simp_all add: demo_empty_def demo_full_def buf_bytes_def chunk_data_def send_ok_def)

end
