(* ===== verification/Link_Cells.thy ===== *)
theory Link_Cells
  imports Buffers_Net
begin

text \<open>
  Cells on a link: the wire format of cells of fixed and of variable length, writing them to the
  output buffer of a connection and cutting them out of the input buffer
  (\<^verbatim>\<open>src/core/or/connection_or.c\<close>, \<^verbatim>\<open>src/core/proto/proto_cell.c\<close>).  Connections are open, so that no
  handshake digest is kept; the handlers of received cells are represented by the list of the cells
  they were called with, and do not change the connection.  Statistics and time stamps are left out.

  The theorem that this builds up to says that a sequence of cells written at one end comes out as
  the same sequence at the other end, however the bytes are cut on the way.
\<close>

section \<open>Cells\<close>

definition CELL_VERSIONS :: u8 where "CELL_VERSIONS = 7"
definition CELL_MAX_NETWORK_SIZE :: nat where "CELL_MAX_NETWORK_SIZE = 514"
definition VAR_CELL_MAX_HEADER_SIZE :: nat where "VAR_CELL_MAX_HEADER_SIZE = 7"
definition MIN_LINK_PROTO_FOR_WIDE_CIRC_IDS :: int where "MIN_LINK_PROTO_FOR_WIDE_CIRC_IDS = 4"

record cell_t =
  c_circ_id :: u32
  c_command :: u8
  c_payload :: "u8 list"

record var_cell_t =
  vc_command :: u8
  vc_circ_id :: u32
  vc_payload_len :: u16
  vc_payload :: "u8 list"

definition get_cell_network_size :: "bool \<Rightarrow> nat" where
  "get_cell_network_size wide = (if wide then CELL_MAX_NETWORK_SIZE else CELL_MAX_NETWORK_SIZE - 2)"

definition get_var_cell_header_size :: "bool \<Rightarrow> nat" where
  "get_var_cell_header_size wide = (if wide then VAR_CELL_MAX_HEADER_SIZE else VAR_CELL_MAX_HEADER_SIZE - 2)"

definition get_circ_id_size :: "bool \<Rightarrow> nat" where
  "get_circ_id_size wide = (if wide then 4 else 2)"

definition cell_command_is_var_length :: "u8 \<Rightarrow> int \<Rightarrow> bool" where
  "cell_command_is_var_length cmd linkproto \<longleftrightarrow>
     (if linkproto = 1 then False
      else if linkproto = 2 then cmd = CELL_VERSIONS
      else cmd = CELL_VERSIONS \<or> 128 \<le> cmd)"

text \<open>The whole body of the packed cell: all of it is written, the last two bytes as zeros.\<close>

definition cell_pack :: "cell_t \<Rightarrow> bool \<Rightarrow> u8 list" where
  "cell_pack src wide =
     (if wide then put_be 4 (c_circ_id src) @ [c_command src] @ take CELL_PAYLOAD_SIZE (c_payload src)
      else put_be 2 (ucast (c_circ_id src) :: u16) @ [c_command src] @ take CELL_PAYLOAD_SIZE (c_payload src) @ [0, 0])"

definition cell_unpack :: "u8 list \<Rightarrow> bool \<Rightarrow> cell_t" where
  "cell_unpack src wide =
     (let n = get_circ_id_size wide in
      \<lparr>c_circ_id = (if wide then get_be (take 4 src) else ucast (get_be (take 2 src) :: u16)),
       c_command = src ! n, c_payload = take CELL_PAYLOAD_SIZE (drop (n + 1) src)\<rparr>)"

text \<open>The header; the number of bytes used is its length.\<close>

definition var_cell_pack_header :: "var_cell_t \<Rightarrow> bool \<Rightarrow> u8 list" where
  "var_cell_pack_header cell wide =
     (if wide then put_be 4 (vc_circ_id cell) else put_be 2 (ucast (vc_circ_id cell) :: u16)) @
     [vc_command cell] @ put_be 2 (vc_payload_len cell)"

definition var_cell_new :: "u16 \<Rightarrow> var_cell_t" where
  "var_cell_new payload_len =
     \<lparr>vc_command = 0, vc_circ_id = 0, vc_payload_len = payload_len, vc_payload = replicate (unat payload_len) 0\<rparr>"

definition var_cell_copy :: "var_cell_t option \<Rightarrow> var_cell_t option" where
  "var_cell_copy src = map_option (\<lambda>c. (var_cell_new (vc_payload_len c))\<lparr>vc_command := vc_command c,
     vc_circ_id := vc_circ_id c, vc_payload := take (unat (vc_payload_len c)) (vc_payload c)\<rparr>) src"

section \<open>Connections\<close>

record or_conn =
  link_proto :: int
  wide_circ_ids :: bool
  or_marked_for_close :: bool
  hold_open_until_flushed :: bool
  closed_for_error :: bool
  inbuf :: buf_t
  outbuf :: buf_t

definition connection_may_write_to_buf :: "or_conn \<Rightarrow> bool" where
  "connection_may_write_to_buf conn \<longleftrightarrow> \<not> (or_marked_for_close conn \<and> \<not> hold_open_until_flushed conn)"

text \<open>\<open>connection_buf_add\<close> on an OR connection: without compression.\<close>

definition connection_buf_add :: "chunk_heap \<Rightarrow> or_conn \<Rightarrow> u8 list \<Rightarrow> buf_fault + chunk_heap \<times> or_conn" where
  "connection_buf_add e conn s =
     (if s = [] then Inr (e, conn)
      else if \<not> connection_may_write_to_buf conn then Inr (e, conn)
      else and_then (buf_add e (outbuf conn) s) (\<lambda>(e', b, r).
        if r < 0 then Inr (e', conn\<lparr>outbuf := b, closed_for_error := True\<rparr>)
        else Inr (e', conn\<lparr>outbuf := b\<rparr>)))"

definition connection_or_write_cell_to_buf ::
  "chunk_heap \<Rightarrow> or_conn \<Rightarrow> cell_t \<Rightarrow> buf_fault + chunk_heap \<times> or_conn" where
  "connection_or_write_cell_to_buf e conn cell =
     connection_buf_add e conn
       (take (get_cell_network_size (wide_circ_ids conn)) (cell_pack cell (wide_circ_ids conn)))"

definition connection_or_write_var_cell_to_buf ::
  "chunk_heap \<Rightarrow> or_conn \<Rightarrow> var_cell_t \<Rightarrow> buf_fault + chunk_heap \<times> or_conn" where
  "connection_or_write_var_cell_to_buf e conn cell =
     and_then (connection_buf_add e conn (var_cell_pack_header cell (wide_circ_ids conn))) (\<lambda>(e', conn').
       connection_buf_add e' conn' (take (unat (vc_payload_len cell)) (vc_payload cell)))"

text \<open>The flag is the return value, the last result is \<open>*out\<close>.\<close>

definition fetch_var_cell_from_buf ::
  "chunk_heap \<Rightarrow> buf_t \<Rightarrow> int \<Rightarrow> buf_fault + chunk_heap \<times> buf_t \<times> bool \<times> var_cell_t option" where
  "fetch_var_cell_from_buf e b linkproto =
     (let wide = (MIN_LINK_PROTO_FOR_WIDE_CIRC_IDS \<le> linkproto);
          circ_id_len = get_circ_id_size wide;
          header_len = get_var_cell_header_size wide in
      if buf_datalen b < header_len then Inr (e, b, False, None)
      else and_then (buf_peek b header_len) (\<lambda>hdr.
        let cmd = hdr ! circ_id_len in
        if \<not> cell_command_is_var_length cmd linkproto then Inr (e, b, False, None)
        else let len = (get_be (take 2 (drop (circ_id_len + 1) hdr)) :: u16) in
          if buf_datalen b < header_len + unat len then Inr (e, b, True, None)
          else
            and_then (buf_drain e b header_len) (\<lambda>(e1, b1).
            and_then (buf_peek b1 (unat len)) (\<lambda>pl.
            and_then (buf_drain e1 b1 (unat len)) (\<lambda>(e2, b2).
              Inr (e2, b2, True, Some ((var_cell_new len)\<lparr>vc_command := cmd,
                vc_circ_id := (if wide then get_be (take 4 hdr) else ucast (get_be (take 2 hdr) :: u16)),
                vc_payload := pl\<rparr>)))))))"

datatype link_cell = Fixed_Cell cell_t | Var_Cell var_cell_t

text \<open>Draining changes the length by what was asked, also when the chunks say otherwise.\<close>

lemma drain_loop_len:
  "drain_loop e n len chs = Inr (e', len', chs') \<Longrightarrow> len' = len - n"
  by (induction e n len chs rule: drain_loop.induct) (auto simp: and_then_Inr split: if_splits)

lemma buf_drain_len:
  "buf_drain e b n = Inr (e', b') \<Longrightarrow> buf_len b' = buf_len b - n \<and> n \<le> buf_len b"
  by (auto simp: buf_drain_def and_then_Inr drain_loop_len split: if_splits)

lemma fetch_var_cell_len:
  "fetch_var_cell_from_buf e b linkproto = Inr (e', b', r, Some c) \<Longrightarrow> r \<and> buf_len b' < buf_len b"
  by (auto simp: fetch_var_cell_from_buf_def Let_def and_then_Inr get_var_cell_header_size_def
      VAR_CELL_MAX_HEADER_SIZE_def dest!: buf_drain_len split: if_splits)

lemma get_bytes_len:
  "buf_get_bytes e b n = Inr (e', b', bs, r) \<Longrightarrow> buf_len b' = buf_len b - n \<and> n \<le> buf_len b"
  by (auto simp: buf_get_bytes_def and_then_Inr dest!: buf_drain_len split: if_splits)

lemma fetch_not_var: "fetch_var_cell_from_buf e b linkproto = Inr (e', b', False, vc) \<Longrightarrow> e' = e \<and> b' = b"
  by (auto simp: fetch_var_cell_from_buf_def Let_def and_then_Inr split: if_splits)

text \<open>The last result is the cells handed on, in order.\<close>

function connection_or_process_cells_from_inbuf ::
  "chunk_heap \<Rightarrow> or_conn \<Rightarrow> buf_fault + chunk_heap \<times> or_conn \<times> link_cell list" where
  "connection_or_process_cells_from_inbuf e conn =
     (case fetch_var_cell_from_buf e (inbuf conn) (link_proto conn) of
        Inl f \<Rightarrow> Inl f
      | Inr (e1, b1, r, vc) \<Rightarrow>
          if r then
            case vc of
              None \<Rightarrow> Inr (e1, conn\<lparr>inbuf := b1\<rparr>, [])
            | Some c \<Rightarrow>
                and_then (connection_or_process_cells_from_inbuf e1 (conn\<lparr>inbuf := b1\<rparr>))
                  (\<lambda>(e2, conn2, cs). Inr (e2, conn2, Var_Cell c # cs))
          else
            let n = get_cell_network_size (wide_circ_ids conn) in
            if buf_datalen b1 < n then Inr (e1, conn\<lparr>inbuf := b1\<rparr>, [])
            else case buf_get_bytes e1 b1 n of
              Inl f \<Rightarrow> Inl f
            | Inr (e2, b2, bs, _) \<Rightarrow>
                and_then (connection_or_process_cells_from_inbuf e2 (conn\<lparr>inbuf := b2\<rparr>))
                  (\<lambda>(e3, conn3, cs). Inr (e3, conn3, Fixed_Cell (cell_unpack bs (wide_circ_ids conn)) # cs)))"
  by pat_completeness auto
termination
proof (relation "measure (\<lambda>(e, conn). buf_len (inbuf conn))", goal_cases)
  case (2 e conn x e1 x1 b1 x2 r vc c)
  then show ?case
    using fetch_var_cell_len [of e "inbuf conn" "link_proto conn" e1 b1 r c] by auto
next
  case (3 e conn x e1 x1 b1 x2 r vc n y e2 y1 b2 y2 bs z)
  then have "fetch_var_cell_from_buf e (inbuf conn) (link_proto conn) = Inr (e1, b1, False, vc)"
    and "buf_get_bytes e1 b1 n = Inr (e2, b2, bs, z)"
    by auto
  then have "b1 = inbuf conn" and "buf_len b2 = buf_len b1 - n \<and> n \<le> buf_len b1"
    by (auto dest: fetch_not_var get_bytes_len)
  moreover have "0 < n"
    using 3 by (simp add: get_cell_network_size_def CELL_MAX_NETWORK_SIZE_def)
  ultimately show ?case
    by simp
qed simp

declare connection_or_process_cells_from_inbuf.simps [simp del]

section \<open>The bytes of a cell\<close>

definition circ_id_fits :: "u32 \<Rightarrow> bool \<Rightarrow> bool" where
  "circ_id_fits i wide \<longleftrightarrow> wide \<or> unat i < 2 ^ 16"

text \<open>A cell that can be sent on a link of this protocol version.\<close>

fun link_cell_ok :: "int \<Rightarrow> link_cell \<Rightarrow> bool" where
  "link_cell_ok linkproto (Fixed_Cell c) \<longleftrightarrow>
     length (c_payload c) = CELL_PAYLOAD_SIZE \<and> \<not> cell_command_is_var_length (c_command c) linkproto \<and>
     circ_id_fits (c_circ_id c) (MIN_LINK_PROTO_FOR_WIDE_CIRC_IDS \<le> linkproto)"
| "link_cell_ok linkproto (Var_Cell v) \<longleftrightarrow>
     length (vc_payload v) = unat (vc_payload_len v) \<and> cell_command_is_var_length (vc_command v) linkproto \<and>
     circ_id_fits (vc_circ_id v) (MIN_LINK_PROTO_FOR_WIDE_CIRC_IDS \<le> linkproto)"

fun wire :: "bool \<Rightarrow> link_cell \<Rightarrow> u8 list" where
  "wire wide (Fixed_Cell c) = take (get_cell_network_size wide) (cell_pack c wide)"
| "wire wide (Var_Cell v) = var_cell_pack_header v wide @ take (unat (vc_payload_len v)) (vc_payload v)"

lemma ucast_ucast_id: "unat (i :: u32) < 2 ^ 16 \<Longrightarrow> ucast (ucast i :: u16) = i"
  by (rule word_unat_eq_iff [THEN iffD2]) (simp add: unsigned_ucast_eq unsigned_take_bit_eq take_bit_nat_eq_self)

lemmas cell_sizes = get_cell_network_size_def get_var_cell_header_size_def get_circ_id_size_def
  CELL_MAX_NETWORK_SIZE_def VAR_CELL_MAX_HEADER_SIZE_def CELL_PAYLOAD_SIZE_def

lemma wire_fixed:
  assumes "length (c_payload c) = CELL_PAYLOAD_SIZE"
  shows "wire wide (Fixed_Cell c) =
    (if wide then put_be 4 (c_circ_id c) else put_be 2 (ucast (c_circ_id c) :: u16)) @ [c_command c] @ c_payload c"
  using assms by (simp add: cell_pack_def cell_sizes)

lemma length_wire_fixed:
  "length (c_payload c) = CELL_PAYLOAD_SIZE \<Longrightarrow> length (wire wide (Fixed_Cell c)) = get_cell_network_size wide"
  by (subst wire_fixed) (simp_all add: cell_sizes)

lemma unpack_wire:
  assumes "length (c_payload c) = CELL_PAYLOAD_SIZE" and "circ_id_fits (c_circ_id c) wide"
  shows "cell_unpack (wire wide (Fixed_Cell c)) wide = c"
proof (cases wide)
  case True
  with assms(1) show ?thesis
    unfolding wire_fixed [OF assms(1)] by (simp add: cell_unpack_def get_circ_id_size_def nth_append)
next
  case False
  with assms show ?thesis
    unfolding wire_fixed [OF assms(1)]
    by (simp add: cell_unpack_def get_circ_id_size_def nth_append circ_id_fits_def ucast_ucast_id)
qed

lemma length_header: "length (var_cell_pack_header v wide) = get_var_cell_header_size wide"
  by (simp add: var_cell_pack_header_def cell_sizes)

text \<open>The byte after the circuit identifier is the command.\<close>

lemma wire_command:
  assumes "link_cell_ok lp c"
  shows "wire wide c ! get_circ_id_size wide = (case c of Fixed_Cell x \<Rightarrow> c_command x | Var_Cell v \<Rightarrow> vc_command v)"
proof (cases c)
  case (Fixed_Cell x)
  then have "length (c_payload x) = CELL_PAYLOAD_SIZE"
    using assms by simp
  then show ?thesis
    unfolding Fixed_Cell wire_fixed [OF \<open>length (c_payload x) = CELL_PAYLOAD_SIZE\<close>]
    by (simp add: nth_append get_circ_id_size_def)
next
  case (Var_Cell v)
  then show ?thesis
    by (simp add: var_cell_pack_header_def nth_append get_circ_id_size_def)
qed

lemma header_le_wire: "link_cell_ok lp c \<Longrightarrow> get_var_cell_header_size wide \<le> length (wire wide c)"
proof (cases c)
  case (Fixed_Cell x)
  assume "link_cell_ok lp c"
  then show ?thesis
    unfolding Fixed_Cell by (subst length_wire_fixed) (simp_all add: cell_sizes)
qed (simp add: length_header)

section \<open>Cutting cells out\<close>

lemma fetch_short:
  "buf_inv e b \<Longrightarrow> length (buf_bytes b) < get_var_cell_header_size (MIN_LINK_PROTO_FOR_WIDE_CIRC_IDS \<le> lp) \<Longrightarrow>
    fetch_var_cell_from_buf e b lp = Inr (e, b, False, None)"
  by (auto elim!: buf_invE simp: fetch_var_cell_from_buf_def Let_def buf_datalen_def)

lemma fetch_fixed:
  assumes "buf_inv e b" and "wide = (MIN_LINK_PROTO_FOR_WIDE_CIRC_IDS \<le> lp)"
    and "get_var_cell_header_size wide \<le> length (buf_bytes b)"
    and "\<not> cell_command_is_var_length (buf_bytes b ! get_circ_id_size wide) lp"
  shows "fetch_var_cell_from_buf e b lp = Inr (e, b, False, None)"
proof -
  have "take (get_var_cell_header_size wide) (buf_bytes b) ! get_circ_id_size wide = buf_bytes b ! get_circ_id_size wide"
    by (simp add: cell_sizes)
  moreover have "buf_datalen b = length (buf_bytes b)"
    using assms(1) by (simp add: buf_inv_iff buf_datalen_def)
  ultimately show ?thesis
    using assms by (simp add: fetch_var_cell_from_buf_def Let_def buf_peek_ok [OF assms(1)])
qed

lemma header_fields:
  assumes "circ_id_fits (vc_circ_id v) wide"
  shows "(if wide then get_be (take 4 (var_cell_pack_header v wide))
      else ucast (get_be (take 2 (var_cell_pack_header v wide)) :: u16)) = vc_circ_id v"
    and "get_be (take 2 (drop (get_circ_id_size wide + 1) (var_cell_pack_header v wide))) = vc_payload_len v"
    and "var_cell_pack_header v wide ! get_circ_id_size wide = vc_command v"
  using assms
  by (auto simp: var_cell_pack_header_def get_circ_id_size_def circ_id_fits_def ucast_ucast_id nth_append)

lemma fetch_var:
  assumes "buf_inv e b" and "link_cell_ok lp (Var_Cell v)" and "wide = (MIN_LINK_PROTO_FOR_WIDE_CIRC_IDS \<le> lp)"
    and "buf_bytes b = wire wide (Var_Cell v) @ rest"
  obtains e' b' where "fetch_var_cell_from_buf e b lp = Inr (e', b', True, Some v)" and "buf_inv e' b'"
    and "buf_bytes b' = rest"
proof -
  let ?hdr = "var_cell_pack_header v wide"
  have v: "length (vc_payload v) = unat (vc_payload_len v)" "cell_command_is_var_length (vc_command v) lp"
    "circ_id_fits (vc_circ_id v) wide"
    using assms(2,3) by simp_all
  have bytes: "buf_bytes b = ?hdr @ vc_payload v @ rest"
    using assms(4) v(1) by simp
  have hdr: "length ?hdr = get_var_cell_header_size wide" "buf_datalen b = length (buf_bytes b)"
    using assms(1) by (simp_all add: length_header buf_inv_iff buf_datalen_def)
  have peek1: "buf_peek b (get_var_cell_header_size wide) = Inr ?hdr"
    using bq.peek_front [OF assms(1) bytes] hdr(1) by simp
  obtain e1 b1 where b1: "buf_drain e b (get_var_cell_header_size wide) = Inr (e1, b1)" "buf_inv e1 b1"
    "buf_bytes b1 = vc_payload v @ rest"
    using bq.drain_front [OF assms(1) bytes] hdr(1) by metis
  have peek2: "buf_peek b1 (unat (vc_payload_len v)) = Inr (vc_payload v)"
    using bq.peek_front [OF b1(2,3)] v(1) by simp
  obtain e2 b2 where b2: "buf_drain e1 b1 (unat (vc_payload_len v)) = Inr (e2, b2)" "buf_inv e2 b2" "buf_bytes b2 = rest"
    using bq.drain_front [OF b1(2,3)] v(1) by metis
  have "(var_cell_new (vc_payload_len v))\<lparr>vc_command := vc_command v, vc_circ_id := (if wide then get_be (take 4 ?hdr)
      else ucast (get_be (take 2 ?hdr) :: u16)), vc_payload := vc_payload v\<rparr> = v"
    unfolding header_fields(1) [OF v(3)] by (simp add: var_cell_new_def)
  then have "fetch_var_cell_from_buf e b lp = Inr (e2, b2, True, Some v)"
    using peek1 b1(1) peek2 b2(1) v hdr bytes header_fields(2,3) [OF v(3)]
    by (simp add: fetch_var_cell_from_buf_def Let_def flip: assms(3))
  then show thesis
    using b2(2,3) by (rule that)
qed

lemma fetch_var_partial:
  assumes "buf_inv e b" and "link_cell_ok lp (Var_Cell v)" and "wide = (MIN_LINK_PROTO_FOR_WIDE_CIRC_IDS \<le> lp)"
    and "buf_bytes b @ ys = wire wide (Var_Cell v) @ rest" and "length (buf_bytes b) < length (wire wide (Var_Cell v))"
    and "get_var_cell_header_size wide \<le> length (buf_bytes b)"
  shows "fetch_var_cell_from_buf e b lp = Inr (e, b, True, None)"
proof -
  let ?hdr = "var_cell_pack_header v wide"
  have v: "length (vc_payload v) = unat (vc_payload_len v)" "cell_command_is_var_length (vc_command v) lp"
    "circ_id_fits (vc_circ_id v) wide"
    using assms(2,3) by simp_all
  have hdr: "length ?hdr = get_var_cell_header_size wide" "buf_datalen b = length (buf_bytes b)"
    using assms(1) by (simp_all add: length_header buf_inv_iff buf_datalen_def)
  have "take (get_var_cell_header_size wide) (buf_bytes b) = take (get_var_cell_header_size wide) (buf_bytes b @ ys)"
    using assms(6) by simp
  also have "\<dots> = ?hdr"
    unfolding assms(4) using hdr(1) by simp
  finally have peek: "buf_peek b (get_var_cell_header_size wide) = Inr ?hdr"
    using buf_peek_ok [OF assms(1,6)] by simp
  have "length (buf_bytes b) < get_var_cell_header_size wide + unat (vc_payload_len v)"
    using assms(5) v(1) hdr(1) by simp
  then show ?thesis
    using peek v hdr header_fields [OF v(3)] assms(3,6) by (simp add: fetch_var_cell_from_buf_def Let_def)
qed

text \<open>A connection whose identifier width is that of its link protocol, with a good input buffer.\<close>

definition conn_in_ok :: "chunk_heap \<Rightarrow> or_conn \<Rightarrow> bool" where
  "conn_in_ok e conn \<longleftrightarrow> buf_inv e (inbuf conn) \<and>
     wide_circ_ids conn = (MIN_LINK_PROTO_FOR_WIDE_CIRC_IDS \<le> link_proto conn)"

lemma header_le_cell: "get_var_cell_header_size wide \<le> get_cell_network_size wide"
  by (simp add: cell_sizes)

text \<open>Less than a cell: the loop waits for more.\<close>

lemma process_waits:
  assumes "conn_in_ok e conn" and "link_cell_ok (link_proto conn) c"
    and "buf_bytes (inbuf conn) @ ys = wire (wide_circ_ids conn) c @ rest"
    and "length (buf_bytes (inbuf conn)) < length (wire (wide_circ_ids conn) c)"
  shows "connection_or_process_cells_from_inbuf e conn = Inr (e, conn, [])"
proof -
  let ?w = "wide_circ_ids conn" and ?b = "inbuf conn"
  have w: "?w = (MIN_LINK_PROTO_FOR_WIDE_CIRC_IDS \<le> link_proto conn)" and inv: "buf_inv e ?b"
    using assms(1) by (simp_all add: conn_in_ok_def)
  have len: "buf_datalen ?b = length (buf_bytes ?b)"
    using inv by (simp add: buf_inv_iff buf_datalen_def)
  consider (short) "length (buf_bytes ?b) < get_var_cell_header_size ?w"
    | (fixed) x where "c = Fixed_Cell x" "get_var_cell_header_size ?w \<le> length (buf_bytes ?b)"
    | (var) v where "c = Var_Cell v" "get_var_cell_header_size ?w \<le> length (buf_bytes ?b)"
    by (meson link_cell.exhaust not_less)
  then show ?thesis
  proof cases
    case short
    then have "fetch_var_cell_from_buf e ?b (link_proto conn) = Inr (e, ?b, False, None)"
      using fetch_short [OF inv] w by simp
    moreover have "buf_datalen ?b < get_cell_network_size ?w"
      using short len header_le_cell [of ?w] by simp
    ultimately show ?thesis
      by (subst connection_or_process_cells_from_inbuf.simps) simp
  next
    case fixed
    have i: "get_circ_id_size ?w < length (buf_bytes ?b)" "get_circ_id_size ?w < length (wire ?w c)"
      using fixed(2) assms(4) by (auto simp: cell_sizes split: if_splits)
    have "buf_bytes ?b ! get_circ_id_size ?w = wire ?w c ! get_circ_id_size ?w"
      using arg_cong [OF assms(3), of "\<lambda>l. l ! get_circ_id_size ?w"] i by (simp add: nth_append)
    then have "\<not> cell_command_is_var_length (buf_bytes ?b ! get_circ_id_size ?w) (link_proto conn)"
      using assms(2) fixed(1) wire_command [OF assms(2)] by simp
    then have "fetch_var_cell_from_buf e ?b (link_proto conn) = Inr (e, ?b, False, None)"
      using fetch_fixed [OF inv w fixed(2)] by blast
    moreover have "buf_datalen ?b < get_cell_network_size ?w"
      using assms(2,4) fixed(1) len length_wire_fixed [of x ?w] by simp
    ultimately show ?thesis
      by (subst connection_or_process_cells_from_inbuf.simps) simp
  next
    case var
    then have "fetch_var_cell_from_buf e ?b (link_proto conn) = Inr (e, ?b, True, None)"
      using fetch_var_partial [OF inv _ w] assms(2-4) by blast
    then show ?thesis
      by (subst connection_or_process_cells_from_inbuf.simps) simp
  qed
qed

text \<open>A whole cell at the front: it is handed on, and the loop goes on with what follows.\<close>

lemma process_step:
  assumes "conn_in_ok e conn" and "link_cell_ok (link_proto conn) c"
    and "buf_bytes (inbuf conn) = wire (wide_circ_ids conn) c @ rest"
  obtains e' b' where "conn_in_ok e' (conn\<lparr>inbuf := b'\<rparr>)" and "buf_bytes b' = rest"
    and "connection_or_process_cells_from_inbuf e conn =
      and_then (connection_or_process_cells_from_inbuf e' (conn\<lparr>inbuf := b'\<rparr>)) (\<lambda>(e2, conn2, cs). Inr (e2, conn2, c # cs))"
proof -
  let ?w = "wide_circ_ids conn" and ?b = "inbuf conn"
  have w: "?w = (MIN_LINK_PROTO_FOR_WIDE_CIRC_IDS \<le> link_proto conn)" and inv: "buf_inv e ?b"
    using assms(1) by (simp_all add: conn_in_ok_def)
  show thesis
  proof (cases c)
    case (Fixed_Cell x)
    have x: "length (c_payload x) = CELL_PAYLOAD_SIZE" "circ_id_fits (c_circ_id x) ?w"
      using assms(2) Fixed_Cell w by simp_all
    have len: "get_cell_network_size ?w = length (wire ?w c)" "buf_datalen ?b = length (buf_bytes ?b)"
      using inv x(1) Fixed_Cell length_wire_fixed [of x ?w] by (simp_all add: buf_inv_iff buf_datalen_def)
    have hdr: "get_var_cell_header_size ?w \<le> length (wire ?w c)"
      using assms(2) by (rule header_le_wire)
    have "get_circ_id_size ?w < length (wire ?w c)"
      using hdr by (auto simp: cell_sizes split: if_splits)
    then have "buf_bytes ?b ! get_circ_id_size ?w = c_command x"
      using assms(3) wire_command [OF assms(2), of ?w] Fixed_Cell by (simp add: nth_append)
    then have fetch: "fetch_var_cell_from_buf e ?b (link_proto conn) = Inr (e, ?b, False, None)"
      by (intro fetch_fixed [OF inv w]) (use hdr assms(2,3) Fixed_Cell in \<open>simp_all del: wire.simps\<close>)
    have "get_cell_network_size ?w \<le> length (buf_bytes ?b)"
      using len(1) assms(3) by (simp del: wire.simps)
    with inv obtain e' b' where g: "buf_get_bytes e ?b (get_cell_network_size ?w) =
        Inr (e', b', take (get_cell_network_size ?w) (buf_bytes ?b), int (length (buf_bytes b')))" "buf_inv e' b'"
      "buf_bytes b' = drop (get_cell_network_size ?w) (buf_bytes ?b)"
      by (rule buf_get_bytes_ok)
    have size: "\<not> buf_datalen ?b < get_cell_network_size ?w"
      using len assms(3) by (simp del: wire.simps)
    have "take (get_cell_network_size ?w) (buf_bytes ?b) = wire ?w c" and rest: "buf_bytes b' = rest"
      using len(1) assms(3) g(3) by (simp_all del: wire.simps)
    then have "cell_unpack (take (get_cell_network_size ?w) (buf_bytes ?b)) ?w = x"
      using unpack_wire [OF x] Fixed_Cell by simp
    then have "connection_or_process_cells_from_inbuf e conn =
      and_then (connection_or_process_cells_from_inbuf e' (conn\<lparr>inbuf := b'\<rparr>)) (\<lambda>(e2, conn2, cs). Inr (e2, conn2, c # cs))"
      using fetch g(1) size Fixed_Cell by (subst connection_or_process_cells_from_inbuf.simps) simp
    then show thesis
      using g(2) w rest by (intro that [of e' b']) (simp_all add: conn_in_ok_def)
  next
    case (Var_Cell v)
    obtain e' b' where f: "fetch_var_cell_from_buf e ?b (link_proto conn) = Inr (e', b', True, Some v)" "buf_inv e' b'"
      "buf_bytes b' = rest"
      using fetch_var [OF inv _ w] assms(2,3) Var_Cell by blast
    then have "connection_or_process_cells_from_inbuf e conn =
      and_then (connection_or_process_cells_from_inbuf e' (conn\<lparr>inbuf := b'\<rparr>)) (\<lambda>(e2, conn2, cs). Inr (e2, conn2, c # cs))"
      using Var_Cell by (subst connection_or_process_cells_from_inbuf.simps) simp
    then show thesis
      using f(2,3) w by (intro that [of e' b']) (simp_all add: conn_in_ok_def)
  qed
qed

lemma process_ok:
  assumes "conn_in_ok e conn" and "list_all (link_cell_ok (link_proto conn)) cs"
    and "buf_bytes (inbuf conn) @ ys = concat (map (wire (wide_circ_ids conn)) cs)"
  shows "\<exists>e' b' cs1 cs2. connection_or_process_cells_from_inbuf e conn = Inr (e', conn\<lparr>inbuf := b'\<rparr>, cs1) \<and>
    cs = cs1 @ cs2 \<and> conn_in_ok e' (conn\<lparr>inbuf := b'\<rparr>) \<and>
    buf_bytes b' @ ys = concat (map (wire (wide_circ_ids conn)) cs2) \<and> (ys = [] \<longrightarrow> cs2 = [])"
  using assms
proof (induction cs arbitrary: e conn)
  case Nil
  have inv: "buf_inv e (inbuf conn)" and empty: "buf_bytes (inbuf conn) = []"
    using Nil.prems by (simp_all add: conn_in_ok_def)
  then have "fetch_var_cell_from_buf e (inbuf conn) (link_proto conn) = Inr (e, inbuf conn, False, None)"
    by (intro fetch_short) (simp_all add: cell_sizes)
  moreover have "buf_datalen (inbuf conn) < get_cell_network_size (wide_circ_ids conn)"
    using inv empty by (simp add: buf_inv_iff buf_datalen_def cell_sizes)
  ultimately have "connection_or_process_cells_from_inbuf e conn = Inr (e, conn\<lparr>inbuf := inbuf conn\<rparr>, [])"
    by (subst connection_or_process_cells_from_inbuf.simps) simp
  then show ?case
    using Nil.prems by (intro exI [of _ e] exI [of _ "inbuf conn"] exI [of _ "[]"]) simp
next
  case (Cons c cs)
  let ?w = "wide_circ_ids conn"
  have c: "link_cell_ok (link_proto conn) c"
    using Cons.prems(2) by simp
  show ?case
  proof (cases "length (buf_bytes (inbuf conn)) < length (wire ?w c)")
    case True
    then have "connection_or_process_cells_from_inbuf e conn = Inr (e, conn, [])"
      using Cons.prems(1) c Cons.prems(3) by (intro process_waits [of _ _ c ys]) auto
    moreover have "ys \<noteq> []"
      using True Cons.prems(3) by auto
    ultimately show ?thesis
      using Cons.prems by (intro exI [of _ e] exI [of _ "inbuf conn"] exI [of _ "[]"] exI [of _ "c # cs"]) simp
  next
    case False
    then have "take (length (wire ?w c)) (buf_bytes (inbuf conn)) = wire ?w c"
      using arg_cong [OF Cons.prems(3), of "take (length (wire ?w c))"] by (simp del: wire.simps)
    then obtain rest where rest: "buf_bytes (inbuf conn) = wire ?w c @ rest"
      by (metis append_take_drop_id)
    moreover from this have "rest @ ys = concat (map (wire ?w) cs)"
      using Cons.prems(3) by (simp del: wire.simps)
    ultimately have rest: "buf_bytes (inbuf conn) = wire ?w c @ rest" "rest @ ys = concat (map (wire ?w) cs)"
      by blast+
    then obtain e1 b1 where p: "conn_in_ok e1 (conn\<lparr>inbuf := b1\<rparr>)" "buf_bytes b1 = rest"
      "connection_or_process_cells_from_inbuf e conn =
        and_then (connection_or_process_cells_from_inbuf e1 (conn\<lparr>inbuf := b1\<rparr>)) (\<lambda>(e2, conn2, cs). Inr (e2, conn2, c # cs))"
      using process_step [OF Cons.prems(1) c] by blast
    obtain e' b' cs1 cs2 where ih: "connection_or_process_cells_from_inbuf e1 (conn\<lparr>inbuf := b1\<rparr>) =
        Inr (e', conn\<lparr>inbuf := b'\<rparr>, cs1)" "cs = cs1 @ cs2" "conn_in_ok e' (conn\<lparr>inbuf := b'\<rparr>)"
      "buf_bytes b' @ ys = concat (map (wire ?w) cs2)" "ys = [] \<longrightarrow> cs2 = []"
      using Cons.IH [of e1 "conn\<lparr>inbuf := b1\<rparr>"] p(1,2) Cons.prems(2) rest(2) by (auto simp del: wire.simps)
    then show ?thesis
      using p(3) by (intro exI [of _ e'] exI [of _ b'] exI [of _ "c # cs1"] exI [of _ cs2]) simp
  qed
qed

section \<open>From end to end\<close>

fun write_cells :: "chunk_heap \<Rightarrow> or_conn \<Rightarrow> link_cell list \<Rightarrow> buf_fault + chunk_heap \<times> or_conn" where
  "write_cells e conn [] = Inr (e, conn)"
| "write_cells e conn (Fixed_Cell c # cs) =
     and_then (connection_or_write_cell_to_buf e conn c) (\<lambda>(e', conn'). write_cells e' conn' cs)"
| "write_cells e conn (Var_Cell v # cs) =
     and_then (connection_or_write_var_cell_to_buf e conn v) (\<lambda>(e', conn'). write_cells e' conn' cs)"

text \<open>Bytes that arrive are appended to the input buffer, and the cells that are there are processed.\<close>

fun receive_pieces :: "chunk_heap \<Rightarrow> or_conn \<Rightarrow> u8 list list \<Rightarrow> buf_fault + chunk_heap \<times> or_conn \<times> link_cell list" where
  "receive_pieces e conn [] = Inr (e, conn, [])"
| "receive_pieces e conn (p # ps) =
     and_then (buf_add e (inbuf conn) p) (\<lambda>(e1, b, _).
     and_then (connection_or_process_cells_from_inbuf e1 (conn\<lparr>inbuf := b\<rparr>)) (\<lambda>(e2, conn2, cs).
     and_then (receive_pieces e2 conn2 ps) (\<lambda>(e3, conn3, cs'). Inr (e3, conn3, cs @ cs'))))"

definition conn_out_ok :: "chunk_heap \<Rightarrow> or_conn \<Rightarrow> bool" where
  "conn_out_ok e conn \<longleftrightarrow> buf_inv e (outbuf conn) \<and> connection_may_write_to_buf conn"

lemma connection_buf_add_ok:
  assumes "conn_out_ok e conn" and "length (buf_bytes (outbuf conn)) + length s \<le> BUF_MAX_LEN"
  obtains e' b' where "connection_buf_add e conn s = Inr (e', conn\<lparr>outbuf := b'\<rparr>)"
    and "conn_out_ok e' (conn\<lparr>outbuf := b'\<rparr>)" and "buf_bytes b' = buf_bytes (outbuf conn) @ s"
proof (cases "s = []")
  case True
  with assms(1) show thesis
    by (intro that [of e "outbuf conn"]) (simp_all add: connection_buf_add_def)
next
  case False
  obtain e' b' where "buf_add e (outbuf conn) s = Inr (e', b', int (length (buf_bytes b')))" "buf_inv e' b'"
    "buf_bytes b' = buf_bytes (outbuf conn) @ s"
    using bq.add_law [of e "outbuf conn" s] assms by (auto simp: conn_out_ok_def)
  with False assms(1) show thesis
    by (intro that [of e' b']) (simp_all add: connection_buf_add_def conn_out_ok_def connection_may_write_to_buf_def)
qed

lemma write_cells_ok:
  assumes "conn_out_ok e conn"
    and "length (buf_bytes (outbuf conn)) + length (concat (map (wire (wide_circ_ids conn)) cs)) \<le> BUF_MAX_LEN"
  shows "\<exists>e' b'. write_cells e conn cs = Inr (e', conn\<lparr>outbuf := b'\<rparr>) \<and>
    buf_bytes b' = buf_bytes (outbuf conn) @ concat (map (wire (wide_circ_ids conn)) cs)"
  using assms
proof (induction cs arbitrary: e conn)
  case Nil
  then show ?case
    by (intro exI [of _ e] exI [of _ "outbuf conn"]) simp
next
  case (Cons c cs)
  let ?w = "wide_circ_ids conn"
  have "\<exists>e1 b1. write_cells e conn (c # cs) = write_cells e1 (conn\<lparr>outbuf := b1\<rparr>) cs \<and>
      conn_out_ok e1 (conn\<lparr>outbuf := b1\<rparr>) \<and> buf_bytes b1 = buf_bytes (outbuf conn) @ wire ?w c"
  proof (cases c)
    case (Fixed_Cell x)
    then have "length (buf_bytes (outbuf conn)) + length (wire ?w c) \<le> BUF_MAX_LEN"
      using Cons.prems(2) by simp
    then obtain e1 b1 where "connection_buf_add e conn (wire ?w c) = Inr (e1, conn\<lparr>outbuf := b1\<rparr>)"
      "conn_out_ok e1 (conn\<lparr>outbuf := b1\<rparr>)" "buf_bytes b1 = buf_bytes (outbuf conn) @ wire ?w c"
      using connection_buf_add_ok [OF Cons.prems(1)] by blast
    with Fixed_Cell show ?thesis
      by (intro exI [of _ e1] exI [of _ b1]) (simp add: connection_or_write_cell_to_buf_def)
  next
    case (Var_Cell v)
    let ?h = "var_cell_pack_header v ?w" and ?p = "take (unat (vc_payload_len v)) (vc_payload v)"
    have len: "length (buf_bytes (outbuf conn)) + length ?h + length ?p \<le> BUF_MAX_LEN"
      using Cons.prems(2) Var_Cell by simp
    then have "length (buf_bytes (outbuf conn)) + length ?h \<le> BUF_MAX_LEN"
      by simp
    then obtain e0 b0 where b0: "connection_buf_add e conn ?h = Inr (e0, conn\<lparr>outbuf := b0\<rparr>)"
      "conn_out_ok e0 (conn\<lparr>outbuf := b0\<rparr>)" "buf_bytes b0 = buf_bytes (outbuf conn) @ ?h"
      using connection_buf_add_ok [OF Cons.prems(1)] by blast
    then have room: "length (buf_bytes (outbuf (conn\<lparr>outbuf := b0\<rparr>))) + length ?p \<le> BUF_MAX_LEN"
      using len by simp
    obtain e1 b1 where "connection_buf_add e0 (conn\<lparr>outbuf := b0\<rparr>) ?p = Inr (e1, conn\<lparr>outbuf := b1\<rparr>)"
      "conn_out_ok e1 (conn\<lparr>outbuf := b1\<rparr>)" "buf_bytes b1 = buf_bytes b0 @ ?p"
      by (rule connection_buf_add_ok [OF b0(2) room]) (rule that, simp_all)
    with Var_Cell b0 show ?thesis
      by (intro exI [of _ e1] exI [of _ b1]) (simp add: connection_or_write_var_cell_to_buf_def)
  qed
  then obtain e1 b1 where b1: "write_cells e conn (c # cs) = write_cells e1 (conn\<lparr>outbuf := b1\<rparr>) cs"
    "conn_out_ok e1 (conn\<lparr>outbuf := b1\<rparr>)" "buf_bytes b1 = buf_bytes (outbuf conn) @ wire ?w c"
    by blast
  have "\<exists>e' b'. write_cells e1 (conn\<lparr>outbuf := b1\<rparr>) cs = Inr (e', (conn\<lparr>outbuf := b1\<rparr>)\<lparr>outbuf := b'\<rparr>) \<and>
      buf_bytes b' = buf_bytes (outbuf (conn\<lparr>outbuf := b1\<rparr>)) @ concat (map (wire (wide_circ_ids (conn\<lparr>outbuf := b1\<rparr>))) cs)"
    by (rule Cons.IH [OF b1(2)]) (use Cons.prems(2) b1(3) in simp)
  with b1 show ?case
    by auto
qed

lemma receive_pieces_ok:
  assumes "conn_in_ok e conn" and "list_all (link_cell_ok (link_proto conn)) cs"
    and "buf_bytes (inbuf conn) @ concat ps = concat (map (wire (wide_circ_ids conn)) cs)"
    and "length (concat (map (wire (wide_circ_ids conn)) cs)) \<le> BUF_MAX_LEN" and "concat ps = [] \<longrightarrow> cs = []"
  shows "\<exists>e' b'. receive_pieces e conn ps = Inr (e', conn\<lparr>inbuf := b'\<rparr>, cs) \<and> buf_bytes b' = [] \<and> buf_inv e' b'"
  using assms
proof (induction ps arbitrary: e conn cs)
  case Nil
  then show ?case
    by (intro exI [of _ e] exI [of _ "inbuf conn"]) (simp add: conn_in_ok_def)
next
  case (Cons p ps)
  let ?w = "wide_circ_ids conn"
  have inv: "buf_inv e (inbuf conn)" and len: "length (buf_bytes (inbuf conn)) + length p \<le> BUF_MAX_LEN"
    using Cons.prems(1,4) arg_cong [OF Cons.prems(3), of length] by (simp_all add: conn_in_ok_def)
  obtain e1 b1 where a: "buf_add e (inbuf conn) p = Inr (e1, b1, int (length (buf_bytes b1)))" "buf_inv e1 b1"
    "buf_bytes b1 = buf_bytes (inbuf conn) @ p"
    using bq.add_law [OF inv len] by blast
  have "conn_in_ok e1 (conn\<lparr>inbuf := b1\<rparr>)"
    using Cons.prems(1) a(2) by (simp add: conn_in_ok_def)
  then obtain e2 b2 cs1 cs2 where pr: "connection_or_process_cells_from_inbuf e1 (conn\<lparr>inbuf := b1\<rparr>) =
      Inr (e2, conn\<lparr>inbuf := b2\<rparr>, cs1)" "cs = cs1 @ cs2" "conn_in_ok e2 (conn\<lparr>inbuf := b2\<rparr>)"
    "buf_bytes b2 @ concat ps = concat (map (wire ?w) cs2)" "concat ps = [] \<longrightarrow> cs2 = []"
    using process_ok [of e1 "conn\<lparr>inbuf := b1\<rparr>" cs "concat ps"] Cons.prems(2,3) a(3)
    by (auto simp del: wire.simps concat_eq_Nil_conv)
  have "\<exists>e' b'. receive_pieces e2 (conn\<lparr>inbuf := b2\<rparr>) ps = Inr (e', (conn\<lparr>inbuf := b2\<rparr>)\<lparr>inbuf := b'\<rparr>, cs2) \<and>
      buf_bytes b' = [] \<and> buf_inv e' b'"
    by (rule Cons.IH [OF pr(3)]) (use pr Cons.prems(2,4) in \<open>auto simp del: wire.simps\<close>)
  with a pr(1,2) show ?case
    by auto
qed

section \<open>Properties\<close>

text \<open>
  C13. What is written to a link comes out of it.  On an open connection with an empty output buffer,
  any sequence of cells of fixed and variable length that are legal for the link protocol is written
  without a failure; and however the bytes of the output buffer are cut into pieces on the way, the
  other end, which appends each piece to its input buffer and processes what is there, hands on
  exactly these cells in this order, and is left with an empty buffer.
\<close>

theorem cells_cross_link:
  assumes "list_all (link_cell_ok lp) cs" and "length (concat (map (wire (MIN_LINK_PROTO_FOR_WIDE_CIRC_IDS \<le> lp)) cs)) \<le> BUF_MAX_LEN"
    and "link_proto s = lp" and "wide_circ_ids s = (MIN_LINK_PROTO_FOR_WIDE_CIRC_IDS \<le> lp)"
    and "connection_may_write_to_buf s" and "outbuf s = buf_new"
    and "link_proto r = lp" and "wide_circ_ids r = (MIN_LINK_PROTO_FOR_WIDE_CIRC_IDS \<le> lp)" and "inbuf r = buf_new"
  shows "\<exists>es' s'. write_cells es s cs = Inr (es', s') \<and>
    (\<forall>ps. concat ps = buf_bytes (outbuf s') \<longrightarrow>
      (\<exists>er' r'. receive_pieces er r ps = Inr (er', r', cs) \<and> buf_bytes (inbuf r') = [] \<and> buf_assert_ok (inbuf r')))"
proof -
  let ?w = "MIN_LINK_PROTO_FOR_WIDE_CIRC_IDS \<le> lp"
  have "conn_out_ok es s"
    using assms(5,6) by (simp add: conn_out_ok_def buf_new_inv)
  then obtain es' b where w: "write_cells es s cs = Inr (es', s\<lparr>outbuf := b\<rparr>)" "buf_bytes b = concat (map (wire ?w) cs)"
    using write_cells_ok [of es s cs] assms(2,4,6) by (auto simp: buf_new_inv)
  have "\<exists>er' r'. receive_pieces er r ps = Inr (er', r', cs) \<and> buf_bytes (inbuf r') = [] \<and> buf_assert_ok (inbuf r')"
    if ps: "concat ps = buf_bytes b" for ps
  proof -
    have "wire ?w c \<noteq> []" if "link_cell_ok lp c" for c
      using header_le_wire [OF that, of ?w]
      by (auto simp: get_var_cell_header_size_def VAR_CELL_MAX_HEADER_SIZE_def simp del: wire.simps split: if_splits)
    then have "concat ps = [] \<longrightarrow> cs = []"
      using ps w(2) assms(1) by (cases cs) (auto simp del: wire.simps)
    moreover have "conn_in_ok er r"
      using assms(7-9) by (simp add: conn_in_ok_def buf_new_inv)
    ultimately have "\<exists>er' b'. receive_pieces er r ps = Inr (er', r\<lparr>inbuf := b'\<rparr>, cs) \<and> buf_bytes b' = [] \<and> buf_inv er' b'"
      by (intro receive_pieces_ok)
        (use assms(1,2,7-9) ps w(2) in \<open>simp_all add: buf_new_inv del: wire.simps concat_eq_Nil_conv\<close>)
    then show ?thesis
      by (auto simp: buf_inv_def)
  qed
  then show ?thesis
    using w(1) by auto
qed

definition demo_conn :: or_conn where
  "demo_conn = \<lparr>link_proto = 5, wide_circ_ids = True, or_marked_for_close = False, hold_open_until_flushed = False,
     closed_for_error = False, inbuf = buf_new, outbuf = buf_new\<rparr>"

definition demo_cells :: "link_cell list" where
  "demo_cells =
    [Var_Cell \<lparr>vc_command = 7, vc_circ_id = 0, vc_payload_len = 4, vc_payload = [0, 4, 0, 5]\<rparr>,
     Fixed_Cell \<lparr>c_circ_id = 0x80000001, c_command = 3, c_payload = replicate 509 1\<rparr>]"

theorem cells_cross_link_witness:
  "\<exists>es' s'. write_cells demo_heap demo_conn demo_cells = Inr (es', s') \<and>
    (\<forall>ps. concat ps = buf_bytes (outbuf s') \<longrightarrow>
      (\<exists>er' r'. receive_pieces demo_heap demo_conn ps = Inr (er', r', demo_cells) \<and> buf_bytes (inbuf r') = [] \<and>
        buf_assert_ok (inbuf r')))"
  by (rule cells_cross_link [of 5])
    (simp_all add: demo_conn_def demo_cells_def cell_command_is_var_length_def CELL_VERSIONS_def circ_id_fits_def
      MIN_LINK_PROTO_FOR_WIDE_CIRC_IDS_def CELL_PAYLOAD_SIZE_def length_wire_fixed connection_may_write_to_buf_def
      BUF_MAX_LEN_def length_header get_var_cell_header_size_def VAR_CELL_MAX_HEADER_SIZE_def get_cell_network_size_def
      CELL_MAX_NETWORK_SIZE_def)

end
