(* ===== verification/Proto_Http.thy ===== *)
theory Proto_Http
  imports Buffers_Net
begin

text \<open>
  Small protocols that are read from buffers: HTTP messages (\<^verbatim>\<open>src/core/proto/proto_http.c\<close>), messages of the
  extended OR port (\<^verbatim>\<open>proto_ext_or.c\<close>) and the test for an old control protocol (\<^verbatim>\<open>proto_control0.c\<close>), with
  the number parser they use (\<^verbatim>\<open>src/lib/string/parse_int.c\<close>).  Strings are lists of bytes.  \<open>strtoull\<close> is the
  function of the C library for base ten, with the sign it accepts and the overflow it reports.
  The headers that \<open>buf_pullup\<close> made contiguous are read as the data of the first chunk, and reading
  behind these data is a fault.

  A message with a length comes out of a buffer exactly when all of it is there; but a read that
  blocked in the wrong place makes the code refuse a good message.
\<close>

section \<open>Numbers\<close>

definition byte_between :: "u8 \<Rightarrow> u8 \<Rightarrow> u8 \<Rightarrow> bool" where
  "byte_between lo hi c \<longleftrightarrow> lo \<le> c \<and> c \<le> hi"

definition TOR_ISSPACE :: "u8 \<Rightarrow> bool" where
  "TOR_ISSPACE c \<longleftrightarrow> byte_between 9 13 c \<or> c = 32"

definition TOR_ISDIGIT :: "u8 \<Rightarrow> bool" where
  "TOR_ISDIGIT c \<longleftrightarrow> byte_between 48 57 c"

definition digits_nat :: "u8 list \<Rightarrow> nat" where
  "digits_nat ds = foldl (\<lambda>v d. 10 * v + (unat d - 48)) 0 ds"

text \<open>The value, what follows the number (all of the string when there is none), and whether the value overflowed.\<close>

definition strtoull :: "u8 list \<Rightarrow> nat \<times> u8 list \<times> bool" where
  "strtoull s =
     (let t = dropWhile TOR_ISSPACE s;
          neg = (case t of [] \<Rightarrow> False | c # _ \<Rightarrow> c = 45);
          u = (case t of [] \<Rightarrow> [] | c # cs \<Rightarrow> if c = 43 \<or> c = 45 then cs else t);
          ds = takeWhile TOR_ISDIGIT u;
          v = digits_nat ds in
      if ds = [] then (0, s, False)
      else if 2 ^ 64 \<le> v then (2 ^ 64 - 1, drop (length ds) u, True)
      else (if neg then size_diff 0 v else v, drop (length ds) u, False))"

text \<open>With a place for the rest, as the callers here have: the value, success, and the rest.\<close>

definition tor_parse_uint64 :: "u8 list \<Rightarrow> nat \<Rightarrow> nat \<Rightarrow> nat \<times> bool \<times> u8 list" where
  "tor_parse_uint64 s lo hi =
     (case strtoull s of (r, endptr, range_error) \<Rightarrow>
        if range_error then (0, False, endptr)
        else if length endptr = length s then (0, False, endptr)
        else if hi < lo then (0, False, endptr)
        else if r < lo \<or> hi < r then (0, False, endptr)
        else (r, True, endptr))"

definition tor_strisspace :: "u8 list \<Rightarrow> bool" where
  "tor_strisspace s \<longleftrightarrow> list_all TOR_ISSPACE (takeWhile (\<lambda>c. c \<noteq> 0) s)"

section \<open>HTTP\<close>

definition C_INT_MAX :: nat where "C_INT_MAX = 2 ^ 31 - 1"

definition CRLF_CRLF :: "u8 list" where "CRLF_CRLF = [13, 10, 13, 10]"

definition CONTENT_LENGTH :: "u8 list" where
  "CONTENT_LENGTH = [13, 10, 67, 111, 110, 116, 101, 110, 116, 45, 76, 101, 110, 103, 116, 104, 58, 32]"

definition peek_buf_has_http_command :: "buf_t \<Rightarrow> buf_fault + bool" where
  "peek_buf_has_http_command b =
     and_then (buf_peek_startswith b [67, 79, 78, 78, 69, 67, 84, 32]) (\<lambda>r. if r then Inr True else
     and_then (buf_peek_startswith b [68, 69, 76, 69, 84, 69, 32]) (\<lambda>r. if r then Inr True else
     and_then (buf_peek_startswith b [71, 69, 84, 32]) (\<lambda>r. if r then Inr True else
     and_then (buf_peek_startswith b [80, 79, 83, 84, 32]) (\<lambda>r. if r then Inr True else
       buf_peek_startswith b [80, 85, 84, 32]))))"

definition tor_memstr :: "u8 list \<Rightarrow> u8 list \<Rightarrow> nat option" where
  "tor_memstr haystack needle = first_occurrence needle haystack"

definition buf_http_find_content_length :: "u8 list \<Rightarrow> int \<times> nat" where
  "buf_http_find_content_length headers =
     (case tor_memstr headers CONTENT_LENGTH of
        None \<Rightarrow> (0, 0)
      | Some i \<Rightarrow>
          let p = drop (i + length CONTENT_LENGTH) headers in
          (case memchr 10 p of
             None \<Rightarrow> (-1, 0)
           | Some newline \<Rightarrow>
               let len_str = takeWhile (\<lambda>c. c \<noteq> 0) (take newline p) in
               (case tor_parse_uint64 len_str 0 C_INT_MAX of (result, ok, eos) \<Rightarrow>
                  if \<not> tor_strisspace eos then (-1, 0) else (if ok then 1 else -1, result))))"

text \<open>The number of bytes to hand out as the body, or the value to return.\<close>

definition http_body_length :: "u8 list \<Rightarrow> nat \<Rightarrow> bool \<Rightarrow> int + nat" where
  "http_body_length headers bodylen force_complete =
     (case buf_http_find_content_length headers of (r, contentlen) \<Rightarrow>
        if r = -1 then Inl (-1)
        else if r = 1 then
          (if bodylen < contentlen \<and> \<not> force_complete then Inl 0
           else Inr (if contentlen < bodylen then contentlen else bodylen))
        else Inr bodylen)"

text \<open>One of the two parts, when the caller has a place for it.\<close>

definition http_part :: "chunk_heap \<Rightarrow> buf_t \<Rightarrow> bool \<Rightarrow> nat \<Rightarrow> buf_fault + chunk_heap \<times> buf_t \<times> u8 list option" where
  "http_part e b wanted n =
     (if wanted then and_then (buf_get_bytes e b n) (\<lambda>(e', b', bs, _). Inr (e', b', Some (bs @ [0]))) else Inr (e, b, None))"

type_synonym http_result = "buf_fault + chunk_heap \<times> buf_t \<times> int \<times> u8 list option \<times> u8 list option"

definition http_cut :: "chunk_heap \<Rightarrow> buf_t \<Rightarrow> nat \<Rightarrow> nat \<Rightarrow> bool \<Rightarrow> bool \<Rightarrow> http_result" where
  "http_cut e b headerlen bodylen headers_out body_out =
     and_then (http_part e b headers_out headerlen) (\<lambda>(e1, b1, headers).
     and_then (http_part e1 b1 body_out bodylen) (\<lambda>(e2, b2, body).
       Inr (e2, b2, 1, headers, body)))"

definition fetch_from_buf_http ::
  "chunk_heap \<Rightarrow> buf_t \<Rightarrow> bool \<Rightarrow> nat \<Rightarrow> bool \<Rightarrow> nat \<Rightarrow> bool \<Rightarrow> http_result" where
  "fetch_from_buf_http e b headers_out max_headerlen body_out max_bodylen force_complete =
     (if buf_datalen b = 0 then Inr (e, b, 0, None, None)
      else and_then (buf_find_string_offset b CRLF_CRLF 4) (\<lambda>crlf_offset.
        if to_c_int max_headerlen < crlf_offset \<or> crlf_offset < 0 \<and> max_headerlen < buf_datalen b then Inr (e, b, -1, None, None)
        else if crlf_offset < 0 then Inr (e, b, 0, None, None)
        else let headerlen = nat crlf_offset + 4 in
          and_then (buf_pullup e b headerlen) (\<lambda>(e1, b1, head).
            let bodylen = size_diff (buf_datalen b1) headerlen in
            if max_headerlen \<le> headerlen then Inr (e1, b1, -1, None, None)
            else if max_bodylen \<le> bodylen then Inr (e1, b1, -1, None, None)
            else case head of
                None \<Rightarrow> Inl Buf_Overrun
              | Some headers \<Rightarrow>
                  if length headers < headerlen then Inl Buf_Overrun
                  else (case http_body_length (take headerlen headers) bodylen force_complete of
                      Inl r \<Rightarrow> Inr (e1, b1, r, None, None)
                    | Inr n \<Rightarrow> http_cut e1 b1 headerlen n headers_out body_out))))"

section \<open>Messages of the extended OR port, and the old control protocol\<close>

record ext_or_cmd_t =
  eo_cmd :: u16
  eo_len :: u16
  eo_body :: "u8 list"

definition EXT_OR_CMD_HEADER_SIZE :: nat where "EXT_OR_CMD_HEADER_SIZE = 4"

definition fetch_ext_or_command_from_buf ::
  "chunk_heap \<Rightarrow> buf_t \<Rightarrow> buf_fault + chunk_heap \<times> buf_t \<times> int \<times> ext_or_cmd_t option" where
  "fetch_ext_or_command_from_buf e b =
     (if buf_datalen b < EXT_OR_CMD_HEADER_SIZE then Inr (e, b, 0, None)
      else and_then (buf_peek b EXT_OR_CMD_HEADER_SIZE) (\<lambda>hdr.
        let len = (get_be (drop 2 hdr) :: u16) in
        if buf_datalen b < unat len + EXT_OR_CMD_HEADER_SIZE then Inr (e, b, 0, None)
        else and_then (buf_drain e b EXT_OR_CMD_HEADER_SIZE) (\<lambda>(e1, b1).
             and_then (buf_get_bytes e1 b1 (unat len)) (\<lambda>(e2, b2, body, _).
               Inr (e2, b2, 1, Some \<lparr>eo_cmd = get_be (take 2 hdr), eo_len = len, eo_body = body\<rparr>)))))"

definition peek_buf_has_control0_command :: "buf_t \<Rightarrow> buf_fault + bool" where
  "peek_buf_has_control0_command b =
     (if 4 \<le> buf_datalen b then and_then (buf_peek b 4) (\<lambda>header. Inr ((get_be (drop 2 header) :: u16) \<le> 0x14)) else Inr False)"

section \<open>Lemmas on numbers\<close>

lemma decimal_nonempty [simp]: "decimal n \<noteq> []"
  by (subst decimal.simps) simp

lemma digit_byte:
  assumes "d < 10"
  shows "unat (48 + of_nat d :: u8) = 48 + d"
  using assms by (simp add: unat_word_ariths unat_of_nat)

lemma digit_isdigit: "d < 10 \<Longrightarrow> TOR_ISDIGIT (48 + of_nat d)"
  using digit_byte [of d] by (simp add: TOR_ISDIGIT_def byte_between_def word_le_nat_alt)

lemma decimal_isdigit: "c \<in> set (decimal n) \<Longrightarrow> TOR_ISDIGIT c"
  by (induction n rule: decimal.induct) (subst (asm) (2) decimal.simps, auto simp: digit_isdigit split: if_splits)

lemma digits_nat_decimal: "digits_nat (decimal n) = n"
proof (induction n rule: decimal.induct)
  case (1 n)
  show ?case
  proof (cases "n < 10")
    case True
    then show ?thesis
      by (subst decimal.simps) (simp add: digits_nat_def digit_byte)
  next
    case False
    then have "digits_nat (decimal n) = 10 * digits_nat (decimal (n div 10)) + n mod 10"
      by (subst decimal.simps) (simp add: digits_nat_def digit_byte)
    with False "1.IH" show ?thesis
      by simp
  qed
qed

lemma digit_facts: "TOR_ISDIGIT c \<Longrightarrow> \<not> TOR_ISSPACE c \<and> c \<noteq> 43 \<and> c \<noteq> 45 \<and> c \<noteq> 0 \<and> c \<noteq> 10 \<and> c \<noteq> 13"
  by (auto simp: TOR_ISDIGIT_def TOR_ISSPACE_def byte_between_def word_le_nat_alt)

lemma cr_facts: "\<not> TOR_ISDIGIT 13" "TOR_ISSPACE 13"
  by (simp_all add: TOR_ISDIGIT_def TOR_ISSPACE_def byte_between_def)

lemma strtoull_decimal:
  assumes "n < 2 ^ 64"
  shows "strtoull (decimal n @ [13]) = (n, [13], False)"
proof -
  obtain c cs where d: "decimal n = c # cs"
    by (meson decimal_nonempty neq_Nil_conv)
  then have "\<not> TOR_ISSPACE c \<and> c \<noteq> 43 \<and> c \<noteq> 45"
    using decimal_isdigit [of c n] digit_facts by simp
  moreover have "takeWhile TOR_ISDIGIT (decimal n @ [13]) = decimal n"
    using decimal_isdigit cr_facts by (subst takeWhile_append2) auto
  ultimately show ?thesis
    using d assms digits_nat_decimal [of n] by (simp add: strtoull_def)
qed

lemma parse_decimal: "n \<le> C_INT_MAX \<Longrightarrow> tor_parse_uint64 (decimal n @ [13]) 0 C_INT_MAX = (n, True, [13])"
  using strtoull_decimal [of n] by (simp add: tor_parse_uint64_def C_INT_MAX_def)

lemma content_length_found:
  assumes "head = start @ CONTENT_LENGTH @ decimal n @ [13, 10] @ others" and "first_occurrence CONTENT_LENGTH head = Some (length start)"
    and "n \<le> C_INT_MAX"
  shows "buf_http_find_content_length head = (1, n)"
proof -
  let ?p = "decimal n @ [13, 10] @ others" and ?s = "decimal n @ [13]"
  have digits: "c \<noteq> 0 \<and> c \<noteq> 10" if "c \<in> set ?s" for c
    using that decimal_isdigit digit_facts by auto
  then have "memchr 10 ?s = None"
    by (auto simp: memchr_None)
  then have "memchr 10 (?s @ 10 # others) = Some (length ?s)"
    by (subst memchr_append) simp
  then have "memchr 10 ?p = Some (length ?s)"
    by simp
  moreover have "take (length ?s) ?p = ?s" "takeWhile (\<lambda>c. c \<noteq> 0) ?s = ?s"
    using digits by (simp, subst takeWhile_eq_all_conv) auto
  moreover have "tor_strisspace [13]"
    by (simp add: tor_strisspace_def cr_facts)
  ultimately show ?thesis
    using assms parse_decimal [of n] by (simp add: buf_http_find_content_length_def tor_memstr_def Let_def)
qed

section \<open>Lemmas on messages\<close>

lemma find_crlf:
  assumes "buf_inv e b" and "no_empty (chunks b)"
  shows "buf_find_string_offset b CRLF_CRLF 4 = Inr (offset_result 0 (first_occurrence CRLF_CRLF (buf_bytes b)))"
proof -
  have "length CRLF_CRLF = 4"
    by (simp add: CRLF_CRLF_def)
  then show ?thesis
    using find_string_eq [OF assms CRLF_CRLF_def] by (simp only:)
qed

lemma occurs_take: "occurs_at s (take k xs) i \<longleftrightarrow> occurs_at s xs i \<and> i + length s \<le> k"
  by (auto simp: occurs_at_def drop_take min_def)

lemma first_occurrence_append: "first_occurrence s xs = Some i \<Longrightarrow> first_occurrence s (xs @ ys) = Some i"
  unfolding first_occurrence_Some by (auto simp: occurs_at_def)

lemma first_occurrence_short:
  assumes "first_occurrence s xs = Some i" and "k < i + length s"
  shows "first_occurrence s (take k xs) = None"
  unfolding first_occurrence_None
proof
  fix j
  show "\<not> occurs_at s (take k xs) j"
  proof
    assume "occurs_at s (take k xs) j"
    then have "occurs_at s xs j" and "j + length s \<le> k"
      by (simp_all add: occurs_take)
    with assms show False
      by (auto simp: first_occurrence_Some)
  qed
qed

lemma http_part_ok:
  assumes "buf_inv e b" and "buf_bytes b = xs @ ys"
  obtains e' b' where "http_part e b True (length xs) = Inr (e', b', Some (xs @ [0]))" and "buf_inv e' b'" and "buf_bytes b' = ys"
  by (rule buf_get_bytes_ok [OF assms(1), of "length xs"]) (use assms(2) in \<open>auto simp: http_part_def intro: that\<close>)

lemma http_cut_ok:
  assumes "buf_inv e b" and "buf_bytes b = head @ body @ rest"
  obtains e' b' where "http_cut e b (length head) (length body) True True = Inr (e', b', 1, Some (head @ [0]), Some (body @ [0]))"
    and "buf_inv e' b'" and "buf_bytes b' = rest"
proof -
  obtain e1 b1 where 1: "http_part e b True (length head) = Inr (e1, b1, Some (head @ [0]))" "buf_inv e1 b1" "buf_bytes b1 = body @ rest"
    by (rule http_part_ok [OF assms])
  obtain e2 b2 where "http_part e1 b1 True (length body) = Inr (e2, b2, Some (body @ [0]))" "buf_inv e2 b2" "buf_bytes b2 = rest"
    by (rule http_part_ok [OF 1(2,3)])
  with 1(1) show thesis
    by (intro that) (auto simp: http_cut_def)
qed

text \<open>The headers in front of the data, once they are contiguous.\<close>

lemma pullup_front:
  assumes "buf_inv e b" and "buf_bytes b = head @ rest" and "head \<noteq> []"
  obtains e' b' d where "buf_pullup e b (length head) = Inr (e', b', Some d)" and "buf_inv e' b'" and "buf_bytes b' = buf_bytes b"
    and "length head \<le> length d" and "take (length head) d = head"
proof -
  obtain e' b' out where p: "buf_pullup e b (length head) = Inr (e', b', out)" "buf_inv e' b'" "buf_bytes b' = buf_bytes b"
    "out = (case chunks b' of [] \<Rightarrow> None | ch # _ \<Rightarrow> Some (chunk_data ch))"
    "chunks b \<noteq> [] \<longrightarrow> out \<noteq> None \<and> min (length head) (length (buf_bytes b)) \<le> length (the out)"
    by (rule buf_pullup_ok [OF assms(1)])
  have "chunks b \<noteq> []"
    using assms(2,3) by (auto simp: buf_bytes_def chain_bytes_def)
  with p(4,5) obtain ch chs where ch: "chunks b' = ch # chs" "out = Some (chunk_data ch)" "length head \<le> length (chunk_data ch)"
    using assms(2) by (cases "chunks b'") auto
  then have "buf_bytes b' = chunk_data ch @ chain_bytes chs"
    by (simp add: buf_bytes_def chain_bytes_def)
  with ch(3) p(3) assms(2) have "take (length head) (chunk_data ch) = head"
    by (metis append_eq_conv_conj take_append diff_is_0_eq take0 append_Nil2 take_eq_Nil)
  then show thesis
    using p(1,2,3) ch(2,3) by (intro that [of e' b' "chunk_data ch"]) simp_all
qed

lemma fetch_http_step:
  assumes "buf_inv e b" and "no_empty (chunks b)" and "buf_bytes b = head @ rest"
    and "first_occurrence CRLF_CRLF head = Some (length head - 4)" and "length head < max_headerlen" and "max_headerlen \<le> BUF_MAX_LEN"
    and "length rest < max_bodylen"
  obtains e' b' where "buf_inv e' b'" and "buf_bytes b' = buf_bytes b"
    and "fetch_from_buf_http e b headers_out max_headerlen body_out max_bodylen force =
      (case http_body_length head (length rest) force of Inl r \<Rightarrow> Inr (e', b', r, None, None)
       | Inr n \<Rightarrow> http_cut e' b' (length head) n headers_out body_out)"
proof -
  have "4 \<le> length head"
    using assms(4) by (auto simp: first_occurrence_Some occurs_at_def CRLF_CRLF_def)
  then obtain k where k: "length head = k + 4"
    using le_Suc_ex by (metis add.commute)
  then have "head \<noteq> []"
    by auto
  obtain e1 b1 d where p: "buf_pullup e b (length head) = Inr (e1, b1, Some d)" "buf_inv e1 b1" "buf_bytes b1 = buf_bytes b"
    "length head \<le> length d" "take (length head) d = head"
    by (rule pullup_front [OF assms(1,3) \<open>head \<noteq> []\<close>])
  have lens: "buf_len b = length head + length rest" "buf_len b1 = length head + length rest" "length head + length rest \<le> BUF_MAX_LEN"
    using assms(1,3) p(2,3) by (auto elim!: buf_invE)
  then have "size_diff (buf_len b1) (length head) = length rest"
    by (subst size_diff_small) (auto simp: BUF_MAX_LEN_def)
  moreover have "buf_find_string_offset b CRLF_CRLF 4 = Inr (int k)"
    using find_crlf [OF assms(1,2)] assms(3) first_occurrence_append [OF assms(4)] k by (simp add: offset_result_def)
  ultimately have "fetch_from_buf_http e b headers_out max_headerlen body_out max_bodylen force =
      (case http_body_length head (length rest) force of Inl r \<Rightarrow> Inr (e1, b1, r, None, None)
       | Inr n \<Rightarrow> http_cut e1 b1 (length head) n headers_out body_out)"
    using p lens(1) assms(5-7) k
    by (simp add: fetch_from_buf_http_def buf_datalen_def to_c_int_small Let_def split: sum.split)
  with p(2,3) show thesis
    by (rule that)
qed

text \<open>
  Headers that are not wanted are not skipped: the caller gets as many bytes as the body has, but from
  the start of the headers.
\<close>

lemma unwanted_headers_stay:
  assumes "buf_inv e b" and "no_empty (chunks b)" and "buf_bytes b = head @ rest"
    and "first_occurrence CRLF_CRLF head = Some (length head - 4)" and "length head < max_headerlen" and "max_headerlen \<le> BUF_MAX_LEN"
    and "length rest < max_bodylen" and "buf_http_find_content_length head = (0, 0)"
  shows "\<exists>e' b'. fetch_from_buf_http e b False max_headerlen True max_bodylen force =
      Inr (e', b', 1, None, Some (take (length rest) (head @ rest) @ [0])) \<and> buf_bytes b' = drop (length rest) (head @ rest)"
proof -
  obtain e1 b1 where 1: "buf_inv e1 b1" "buf_bytes b1 = buf_bytes b"
    "fetch_from_buf_http e b False max_headerlen True max_bodylen force =
      (case http_body_length head (length rest) force of Inl r \<Rightarrow> Inr (e1, b1, r, None, None)
       | Inr n \<Rightarrow> http_cut e1 b1 (length head) n False True)"
    by (rule fetch_http_step [OF assms(1-7)])
  let ?n = "length rest" and ?bs = "take (length rest) (head @ rest)"
  have "buf_bytes b1 = ?bs @ drop ?n (head @ rest)" "length ?bs = ?n"
    using 1(2) assms(3) by (simp_all only: append_take_drop_id) simp
  then obtain e2 b2 where "http_part e1 b1 True ?n = Inr (e2, b2, Some (?bs @ [0]))" "buf_bytes b2 = drop ?n (head @ rest)"
    using http_part_ok [OF 1(1)] by metis
  then show ?thesis
    using 1(3) assms(8) by (simp add: http_body_length_def http_cut_def http_part_def)
qed

text \<open>Before all headers are there.\<close>

lemma fetch_http_early:
  assumes "buf_inv e b" and "no_empty (chunks b)" and "first_occurrence CRLF_CRLF (buf_bytes b) = None"
    and "length (buf_bytes b) \<le> max_headerlen" and "max_headerlen \<le> BUF_MAX_LEN"
  shows "fetch_from_buf_http e b headers_out max_headerlen body_out max_bodylen force = Inr (e, b, 0, None, None)"
  using assms find_crlf [OF assms(1,2)]
  by (auto elim!: buf_invE simp: fetch_from_buf_http_def buf_datalen_def offset_result_def to_c_int_small)

text \<open>A message of the extended OR port.\<close>

lemma ext_or_command_cut:
  assumes "buf_inv e b" and "length body < 2 ^ 16"
    and "buf_bytes b = take k (put_be 2 cmd @ put_be 2 (of_nat (length body) :: u16) @ body @ later)"
  shows "if k < 4 + length body then fetch_ext_or_command_from_buf e b = Inr (e, b, 0, None)
    else \<exists>e' b'. fetch_ext_or_command_from_buf e b = Inr (e', b', 1, Some \<lparr>eo_cmd = cmd, eo_len = of_nat (length body), eo_body = body\<rparr>) \<and>
      buf_inv e' b' \<and> buf_bytes b' = take (k - (4 + length body)) later"
proof -
  let ?hdr = "put_be 2 cmd @ put_be 2 (of_nat (length body) :: u16)" and ?rest = "take (k - 4) (body @ later)"
  have len: "unat (of_nat (length body) :: u16) = length body" "buf_len b = length (buf_bytes b)" "length ?hdr = 4"
    using assms(1,2) by (auto elim!: buf_invE simp: unat_of_nat)
  show ?thesis
  proof (cases "k < 4")
    case True
    moreover from this have "length (buf_bytes b) < 4"
      by (subst assms(3)) simp
    ultimately show ?thesis
      using len(2) by (simp add: fetch_ext_or_command_from_buf_def buf_datalen_def EXT_OR_CMD_HEADER_SIZE_def)
  next
    case False
    have bytes: "buf_bytes b = ?hdr @ ?rest"
      using assms(3) len(3) False by simp
    have peek: "buf_peek b 4 = Inr ?hdr"
      using buf_peek_ok [OF assms(1), of 4] bytes len(3) by simp
    have hdr: "get_be (drop 2 ?hdr) = (of_nat (length body) :: u16)" "get_be (take 2 ?hdr) = cmd"
      by simp_all
    obtain e1 b1 where 1: "buf_drain e b 4 = Inr (e1, b1)" "buf_inv e1 b1" "buf_bytes b1 = ?rest"
      using bq.drain_front [OF assms(1) bytes] len(3) by metis
    show ?thesis
    proof (cases "k < 4 + length body")
      case True
      then have "k - 4 < length body"
        using False by simp
      then show ?thesis
        using True peek hdr len bytes by (simp add: fetch_ext_or_command_from_buf_def buf_datalen_def EXT_OR_CMD_HEADER_SIZE_def Let_def)
    next
      case complete: False
      then have rest: "?rest = body @ take (k - (4 + length body)) later"
        by simp
      obtain e2 b2 where "buf_get_bytes e1 b1 (length body) = Inr (e2, b2, body, int (length (buf_bytes b2)))" "buf_inv e2 b2"
        "buf_bytes b2 = take (k - (4 + length body)) later"
        using buf_get_bytes_ok [OF 1(2), of "length body"] 1(3) rest by (metis append_eq_conv_conj length_append le_add1)
      then show ?thesis
        using complete peek hdr len bytes 1(1)
        by (simp add: fetch_ext_or_command_from_buf_def buf_datalen_def EXT_OR_CMD_HEADER_SIZE_def Let_def)
    qed
  qed
qed

section \<open>Properties\<close>

text \<open>
  C22. An HTTP message with a length is taken out of the buffer exactly when it is complete, as long as no
  chunk of the buffer is empty (a read that would block can leave one, and then the answer may differ), the
  head is shorter than \<open>max_headerlen\<close>, which is at most \<open>BUF_MAX_LEN\<close>, and the body with what follows it
  is shorter than \<open>max_bodylen\<close> and the body no longer than \<open>INT_MAX\<close>.  The message is a head, which the first empty line ends and whose first field \<open>Content-Length\<close> is the number of
  bytes of the body, and the body; the buffer holds the first \<open>k\<close> bytes of the message and whatever
  follows it.  While a byte of the message is missing, \<open>fetch_from_buf_http\<close> returns 0 and the bytes stay;
  then it returns the head and the body, each with a zero byte, and leaves what follows.
\<close>

theorem http_message_cut:
  assumes "buf_inv e b" and "no_empty (chunks b)"
    and "head = start @ CONTENT_LENGTH @ decimal (length body) @ [13, 10] @ others"
    and "first_occurrence CRLF_CRLF head = Some (length head - 4)" and "first_occurrence CONTENT_LENGTH head = Some (length start)"
    and "length body \<le> C_INT_MAX" and "buf_bytes b = take k (head @ body @ later)"
    and "length head < max_headerlen" and "max_headerlen \<le> BUF_MAX_LEN" and "length (body @ later) < max_bodylen"
  shows "\<exists>e' b'. buf_inv e' b' \<and>
    (if k < length (head @ body)
     then fetch_from_buf_http e b True max_headerlen True max_bodylen False = Inr (e', b', 0, None, None) \<and> buf_bytes b' = buf_bytes b
     else fetch_from_buf_http e b True max_headerlen True max_bodylen False = Inr (e', b', 1, Some (head @ [0]), Some (body @ [0])) \<and>
       buf_bytes b' = take (k - length (head @ body)) later)"
proof (cases "k < length head")
  case True
  then have "buf_bytes b = take k head" "length (buf_bytes b) \<le> max_headerlen"
    using assms(7,8) by simp_all
  moreover have "k < length head - 4 + length CRLF_CRLF"
    using True assms(4) by (auto simp: CRLF_CRLF_def first_occurrence_Some occurs_at_def)
  ultimately show ?thesis
    using True assms(1,2,4,9) by (intro exI [of _ e] exI [of _ b]) (simp add: fetch_http_early first_occurrence_short)
next
  case False
  let ?rest = "take (k - length head) (body @ later)"
  have bytes: "buf_bytes b = head @ ?rest" and "length ?rest < max_bodylen"
    using False assms(7,10) by simp_all
  then obtain e1 b1 where 1: "buf_inv e1 b1" "buf_bytes b1 = buf_bytes b"
    "fetch_from_buf_http e b True max_headerlen True max_bodylen False =
      (case http_body_length head (length ?rest) False of Inl r \<Rightarrow> Inr (e1, b1, r, None, None)
       | Inr n \<Rightarrow> http_cut e1 b1 (length head) n True True)"
    using fetch_http_step [OF assms(1,2) _ assms(4,8,9)] by blast
  have found: "buf_http_find_content_length head = (1, length body)"
    by (rule content_length_found [OF assms(3,5,6)])
  show ?thesis
  proof (cases "k < length (head @ body)")
    case True
    then have "length ?rest < length body"
      using False by simp
    then have "http_body_length head (length ?rest) False = Inl 0"
      using found by (simp add: http_body_length_def)
    with True 1 show ?thesis
      by (intro exI [of _ e1] exI [of _ b1]) simp
  next
    case complete: False
    then have "buf_bytes b1 = head @ body @ take (k - length (head @ body)) later"
      using bytes 1(2) by simp
    then obtain e2 b2 where "http_cut e1 b1 (length head) (length body) True True = Inr (e2, b2, 1, Some (head @ [0]), Some (body @ [0]))"
      "buf_inv e2 b2" "buf_bytes b2 = take (k - length (head @ body)) later"
      by (rule http_cut_ok [OF 1(1)])
    moreover have "http_body_length head (length ?rest) False = Inr (length body)"
      using found complete by (auto simp: http_body_length_def)
    ultimately show ?thesis
      using 1(3) complete by auto
  qed
qed

definition demo_head :: "u8 list" where
  "demo_head = [65] @ CONTENT_LENGTH @ decimal 2 @ [13, 10] @ [13, 10]"

definition demo_http :: buf_t where
  "demo_http = \<lparr>buf_magic = BUFFER_MAGIC, buf_len = 27, default_chunk_size = 256, chunks = [demo_chunk demo_head, demo_chunk [104, 105, 88]]\<rparr>"

lemma demo_head_eq: "demo_head = [65] @ CONTENT_LENGTH @ [50, 13, 10, 13, 10]"
  by (simp add: demo_head_def decimal.simps)

lemma demo_head_facts: "first_occurrence CRLF_CRLF demo_head = Some 20" "first_occurrence CONTENT_LENGTH demo_head = Some 1"
    "length demo_head = 24"
  by (simp_all add: demo_head_eq CRLF_CRLF_def CONTENT_LENGTH_def)

lemma demo_http_facts: "buf_inv demo_total demo_http" "no_empty (chunks demo_http)" "buf_bytes demo_http = demo_head @ [104, 105] @ [88]"
  by (simp_all add: buf_inv_def buf_assert_ok_def demo_http_def demo_chunk_def chunk_assert_ok_def BUF_MAX_LEN_def
      buf_allocation_def CHUNK_ALLOC_SIZE_def CHUNK_OVERHEAD_def demo_total_def demo_head_facts no_empty_def buf_bytes_def chunk_data_def)

theorem http_message_cut_witness:
  "\<exists>e' b'. buf_inv e' b' \<and>
    (if 27 < length (demo_head @ [104, 105])
     then fetch_from_buf_http demo_total demo_http True 100 True 100 False = Inr (e', b', 0, None, None) \<and> buf_bytes b' = buf_bytes demo_http
     else fetch_from_buf_http demo_total demo_http True 100 True 100 False = Inr (e', b', 1, Some (demo_head @ [0]), Some ([104, 105] @ [0])) \<and>
       buf_bytes b' = take (27 - length (demo_head @ [104, 105])) [88])"
  using http_message_cut [OF demo_http_facts(1,2), of demo_head "[65]" "[104, 105]" "[13, 10]" 27 "[88]" 100 100]
  by (simp add: demo_head_facts demo_http_facts C_INT_MAX_def BUF_MAX_LEN_def) (simp add: demo_head_eq decimal.simps)

text \<open>
  C32. A read that brings nothing makes a good message bad.  When the headers are complete but for the last
  byte, the chunk they are in is full, and the socket has nothing more yet, the buffer has the same
  bytes before and after \<open>buf_read_from_fd\<close>; but if the memory of the chunk that it added starts with a
  newline, \<open>fetch_from_buf_http\<close>, which before returned 0, takes the headers for complete, computes a
  length of the body below zero, and refuses the message with -1.
\<close>

theorem blocked_read_refuses_http:
  assumes "buf_inv e b" and "chunks b = [ch]" and "CHUNK_REMAINING_CAPACITY ch < MIN_READ_LEN"
    and "buf_bytes b = pre @ [13, 10, 13]" and "13 \<notin> set pre" and "fresh_mem e 0 = 10"
    and "0 < at_most" and "length pre + 3 + at_most \<le> BUF_MAX_LEN"
    and "length pre + 4 < max_headerlen" and "max_headerlen \<le> BUF_MAX_LEN" and "max_bodylen \<le> BUF_MAX_LEN"
  shows "fetch_from_buf_http e b True max_headerlen True max_bodylen force = Inr (e, b, 0, None, None) \<and>
    (\<exists>e1 b1 e2 b2. buf_read_from_fd e b at_most [] = Inr (e1, b1, 0, False, None, []) \<and> buf_bytes b1 = buf_bytes b \<and>
      fetch_from_buf_http e1 b1 True max_headerlen True max_bodylen force = Inr (e2, b2, -1, None, None))"
proof -
  obtain e1 b1 where r: "buf_read_from_fd e b at_most [] = Inr (e1, b1, 0, False, None, [])" "buf_inv e1 b1" "buf_bytes b1 = buf_bytes b"
    "buf_find_string_offset b1 CRLF_CRLF 4 = Inr (int (length pre))" "\<forall>i. \<not> occurs_at CRLF_CRLF (buf_bytes b1) i"
    using blocked_read_fools_search [OF assms(1-8)] unfolding CRLF_CRLF_def by blast
  obtain e2 b2 out where p: "buf_pullup e1 b1 (length pre + 4) = Inr (e2, b2, out)" "buf_inv e2 b2" "buf_bytes b2 = buf_bytes b1"
    by (rule buf_pullup_ok [OF r(2)])
  have lens: "buf_len b1 = length pre + 3" "buf_len b2 = length pre + 3"
    using r(2,3) p(2,3) assms(4) by (auto elim!: buf_invE)
  then have "max_bodylen \<le> size_diff (buf_len b2) (length pre + 4)"
    using assms(11) by (simp add: size_diff_def BUF_MAX_LEN_def)
  then have "fetch_from_buf_http e1 b1 True max_headerlen True max_bodylen force = Inr (e2, b2, -1, None, None)"
    using r(4) p(1) lens assms(9,10) by (simp add: fetch_from_buf_http_def buf_datalen_def to_c_int_small Let_def)
  moreover have "no_empty (chunks b)"
    using assms(2,4) by (cases "ch_datalen ch") (auto simp: no_empty_def buf_bytes_def chunk_data_def)
  then have "fetch_from_buf_http e b True max_headerlen True max_bodylen force = Inr (e, b, 0, None, None)"
    using r(3,5) assms(4,9,10) by (intro fetch_http_early [OF assms(1)]) (simp_all add: first_occurrence_None)
  ultimately show ?thesis
    using r(1,3) by blast
qed

theorem blocked_read_refuses_http_witness:
  "fetch_from_buf_http demo_stale demo_full True 1000 True 1000 False = Inr (demo_stale, demo_full, 0, None, None) \<and>
    (\<exists>e1 b1 e2 b2. buf_read_from_fd demo_stale demo_full 100 [] = Inr (e1, b1, 0, False, None, []) \<and> buf_bytes b1 = buf_bytes demo_full \<and>
      fetch_from_buf_http e1 b1 True 1000 True 1000 False = Inr (e2, b2, -1, None, None))"
  by (rule blocked_read_refuses_http [OF demo_full_inv, where ch = "hd (chunks demo_full)" and pre = "[65]"])
    (simp_all add: demo_full_def demo_stale_def CHUNK_REMAINING_CAPACITY_def MIN_READ_LEN_def buf_bytes_def
      chunk_data_def BUF_MAX_LEN_def)

end
