(* ===== verification/Spec2Isabelle.thy ===== *)
theory Spec2Isabelle
  imports Ubpf_Load Ubpf_Elf Plug_Cell Sendme Plugin_Memory Plugin_Protocol Smartlist_Algo Plugin_Offer Circpad_Choice Circpad_Faults Circpad_Free Plugin_Signal Plugin_Sendme Link_Cells Proto_Http
begin

text \<open>
  This library verifies the part of the repository that makes Tor extensible at run time: plugins are eBPF byte code that
  peers exchange over circuits, that the host checks, loads and runs, and that hooks into flow control, circuit padding
  and other protocols. Paths below are under \<^verbatim>\<open>src/src\<close>.

  \<^bold>\<open>The program and its parts.\<close>
  An offer in a CREATE cell names plugins; what the peer lacks is requested and sent in cells (\<^verbatim>\<open>core/or/plugin_exchange.c\<close>)
  and written below the plugin directory. \<^verbatim>\<open>core/or/plugin_helper.c\<close> reads a \<^verbatim>\<open>.plugin\<close> file line by line and has
  \<^verbatim>\<open>core/or/plugin.c\<close> plug each entry point; the byte code comes out of an ELF file (\<^verbatim>\<open>ubpf/vm/ubpf_loader.c\<close>), is
  validated and rewritten with memory checks or a context argument (\<^verbatim>\<open>ubpf/vm/ubpf_vm.c\<close>), and is run when the host
  reaches a hook. With \<open>JIT\<close> defined as true in \<^verbatim>\<open>ubpf/vm/ubpf.c\<close>, as the repository has it, what runs is the x86-64 code that
  \<^verbatim>\<open>ubpf/vm/ubpf_jit_x86_64.c\<close> makes of the rewritten program; the interpreter of \<^verbatim>\<open>ubpf/vm/ubpf_vm.c\<close> is the other
  setting, and the one that gives byte code its meaning here. A plug cell (\<^verbatim>\<open>trunnel/plug_cell.c\<close>) asks a hop to plug. The protocols with hooks
  that are modelled are flow control (\<^verbatim>\<open>core/or/sendme.c\<close>) and circuit padding (\<^verbatim>\<open>core/or/circuitpadding.c\<close>);
  lists are smartlists (\<^verbatim>\<open>lib/smartlist_core\<close>, \<^verbatim>\<open>lib/container\<close>). A running plugin reads and writes fields of the host by key
  (\<open>get\<close> and \<open>set\<close> of \<^verbatim>\<open>core/or/plugin.c\<close>): the dropmark defence (\<^verbatim>\<open>plugins/dropmark_def\<close>) registers padding machines that way, and
  \<^verbatim>\<open>plugins/sendme\<close> replaces flow control. Below
  all of it, cells travel between relays through buffers of chunks (\<^verbatim>\<open>lib/buf/buffers.c\<close>, \<^verbatim>\<open>lib/net/buffers_net.c\<close>), into which
  \<^verbatim>\<open>core/or/connection_or.c\<close> writes them and from which it cuts them.

  \<^bold>\<open>How the code is translated.\<close>
  Machine integers are words of their width and wrap. Structures are records, arrays are lists of their allocated length,
  pointers to objects that are freed are addresses into a heap (\<open>Plugin_Host\<close>, \<open>Circpad_Machine\<close>), memory of byte code is a
  function from addresses to bytes. What C leaves undefined, and assertions that fail, are values of an error type on the left of a sum,
  so that every definition is executable and a fault is a result that a theorem can exclude or exhibit. Loops are recursive functions
  with a measure; the interpreter has fuel; what need not end in the program is an option (\<open>file_payloads\<close>,
  \<open>sendme_loop\<close>) or has a bound on its depth (the recursion of padding). What is outside of the repository or of the
  model (the code of a plugin once it is compiled, host functions, the file system's order of names, random numbers, the clock, packaging of a cell)
  is an argument of the definitions.

  \<^bold>\<open>Theories.\<close>
  \<^item> \<open>Prelude\<close>: names of the machine integers, memory with little-endian access, words that wrap, lists; the locale
    \<open>step_invariant\<close> for invariants of step relations.
  \<^item> \<open>Ebpf\<close>, \<open>Ubpf_Exec\<close>: the instruction format and the interpreter (\<open>ubpf_exec_with_arg\<close>, \<open>bounds_check\<close>): memory outside
    of the permitted ranges is unchanged. The bounds checks are those of the interpreter; compiled code has only the checks that the
    rewriting inserts.
  \<^item> \<open>Ubpf_Validate\<close>: \<open>validate\<close>, and that an accepted program stays inside its instructions.
  \<^item> \<open>Ubpf_Rewrite\<close>, \<open>Ubpf_Sim\<close>: both rewriting passes as instances of the locale \<open>code_expansion\<close>; the relocation of jumps, a
    simulation between the program and the rewritten program, and that a refused access is not made.
  \<^item> \<open>Ubpf_Load\<close>, \<open>Ubpf_Elf\<close>: creating and loading a machine, and the ELF loader with both kinds of relocation, in
    which every read outside of the file is a fault.
  \<^item> \<open>Trunnel\<close>, \<open>Plug_Cell\<close>, \<open>Sendme_Cell\<close>, \<open>Circpad_Cell\<close>: the wire formats; the locale \<open>codec\<close> states what an encoder and a parser
    promise each other, and each format is an instance.
  \<^item> \<open>Sendme\<close>: windows and digests of flow control, a step relation of two parties with two channels, its invariant and
    that it can always go on.
  \<^item> \<open>Plugin_Memory\<close>: the copy and fill routines and the pool below the allocator.
  \<^item> \<open>Plugin_Host\<close>, \<open>Plugin_Helper\<close>, \<open>Plugin_Protocol\<close>: the table of hooks, plugging and unplugging, running an entry point, reading
    plugin files as transactions, and plug cells; that the table never leads to freed memory, as an invariant of all operations. The code of a plugin may
    change the registry by the calls that the host offers (\<open>host_calls_only\<close>), and the invariant is proved to survive them.
  \<^item> \<open>Smartlist\<close>, \<open>Smartlist_Algo\<close>: smartlists refine lists (the locale \<open>stack_of_pointers\<close>), binary search and priority queues.
  \<^item> \<open>Plugin_Names\<close>, \<open>Plugin_Files\<close>, \<open>Plugin_Exchange\<close>, \<open>Plugin_Transfer\<close>, \<open>Plugin_Offer\<close>: lists of names in payloads, a tree of files with the
    system calls that are used, and the exchange; that what is sent arrives, and that an offer is answered.
  \<^item> \<open>Circpad_Hist\<close>, \<open>Circpad_Tokens\<close>, \<open>Circpad_Choice\<close>: histograms of a padding machine, the removal of tokens and the choice of a delay.
  \<^item> \<open>Circpad_Machine\<close>, \<open>Circpad_Circuit\<close>: transitions, scheduling, sending, conditions, negotiation and the circuit around them. Functions
    that call each other in a circle take the calls as the parameter \<open>self\<close>; \<open>pad_run\<close> ties them.
  \<^item> \<open>Circpad_Contract\<close>, \<open>Circpad_Safe\<close>: a contract for every function, and the invariant of a circuit: \<open>slots_ok\<close>, and at a
    client no RELAY_EARLY cells left (\<open>pad_ok\<close>). Padding plugins may write timers, counts and what is sent (\<open>plugins_write_only\<close>).
  \<^item> \<open>Circpad_Builtin\<close>: the machines of \<^verbatim>\<open>core/or/circuitpadding_machines.c\<close> and of the unit tests, their registration, and the
    locale \<open>padding_process\<close>, of which a process without plugins is an instance.
  \<^item> \<open>Circpad_Intro\<close>, \<open>Circpad_Exchange\<close>: the run of an introduction circuit at the relay, at the client, and of both together.
  \<^item> \<open>Circpad_Faults\<close>: where padding goes wrong. \<open>Circpad_Free\<close>: what is freed when the process ends.
  \<^item> \<open>Plugin_Access\<close>, \<open>Plugin_Dropmark\<close>, \<open>Plugin_Signal\<close>: what a plugin reads and writes by key, and on top of that the entry points of
    the dropmark defence, with its signals as one more instance of \<open>codec\<close>. \<open>Plugin_Sendme\<close>: the plugin that replaces flow control, against
    the code it replaces.
  \<^item> \<open>Buffers\<close>, \<open>Buffers_Find\<close>, \<open>Buffers_Net\<close>: chunked buffers with their memory and assertions, searching in them, and the transfer from
    and to sockets. The locale \<open>byte_queue\<close> states what the users of a buffer rely on, and the buffer is its instance.
  \<^item> \<open>Proto_Http\<close>: HTTP messages and two smaller protocols that are read from buffers.
  \<^item> \<open>Link_Cells\<close>: the format of cells on a link, writing them and cutting them out of what arrives, on top of \<open>byte_queue\<close>.

  \<^bold>\<open>What is shown.\<close>
  Safety: a validated program cannot leave its code, an interpreted program cannot write outside of its ranges, the memory checks do what
  they are for and are transparent otherwise; no sequence of operations on plugins touches freed memory, unless a plugin cleans itself up
  or the loader meets a long line or a failing \<open>stat\<close>; and no sequence of events on a padded circuit does, at a relay or at a client
  that has no RELAY_EARLY cells left. Function: cells are read back as written, offered plugins are requested, and arrive where the stream
  that the receiver has closed is given out again; hooks run the code that was
  plugged; flow control neither closes nor stalls an honest circuit whose window is a multiple of 100; queues sort, searches find; the
  padding of an introduction circuit completes on both sides when they have counted the same number of machines; a buffer is a queue of bytes, and the cells written to a link come out at its other end however the bytes are
  cut. Faults are properties as well: each names an input, a machine or an order of calls on which
  the code does what it should not.

  \<^bold>\<open>Bounds and fuel.\<close>
  Properties of the interpreter hold for every number of turns; where one says that a program returns, it gives the number. The bound on
  the depth of the recursion of padding is arbitrary in the safety property; an introduction circuit needs a depth of three at
  the client and of two at the relay, and no bound is enough for the machine of \<open>infinity_recurses_forever\<close>.
  The hypotheses of the properties on padding hold for the machines that the program registers and a process without plugins.

  \<^bold>\<open>Not modelled.\<close>
  The JIT compiler (it emits x86-64 code, whose semantics would have to be modelled with it), the allocator above the pool (vendored), the samplers of distributions (floating point; their
  results are arguments), the dispatch of \<open>call_host_func\<close> (but for the commands that the modelled plugins send), the other plugins of the repository, the use of
  buffers by TLS, compression and SOCKS, and the
  other parts of Tor that this repository takes over unchanged: the rest of connections, circuit building, directories, onion services, configuration, cryptography.
\<close>

end
